(* ===== verification/Prelude.thy ===== *)
theory Prelude
  imports Main "HOL-Library.Word"
begin

text \<open>
  The vocabulary every theory of the development shares: the machine integer
  types of the Rust sources, the big-endian byte encoding of the standard
  library's \<open>to_be_bytes\<close> and \<open>from_be_bytes\<close>, the arithmetic operations with
  a name of their own (\<open>saturating_sub\<close>, \<open>checked_add\<close>), the operations of the
  insertion-ordered sets and maps the code uses, and generic lemmas on lists.
  Plain \<open>+\<close>, \<open>-\<close> and \<open>*\<close> on words wrap around, as the release profile of the
  workspace does (\<open>overflow-checks = false\<close> in \<open>Cargo.toml\<close>).
\<close>

section \<open>Machine integers\<close>

type_synonym u8 = "8 word"
type_synonym u16 = "16 word"
type_synonym u32 = "32 word"
type_synonym u64 = "64 word"
type_synonym u128 = "128 word"
type_synonym u256 = "256 word"
type_synonym usize = nat

text \<open>
  Rule collections: \<open>codec_simps\<close> rewrites the bytes a writer emits,
  \<open>codec_intros\<close> composes facts about readers and writers.
\<close>

named_theorems codec_simps
named_theorems codec_intros

definition saturating_sub :: "'a::len word \<Rightarrow> 'a word \<Rightarrow> 'a word" where
  "saturating_sub a b = (if a < b then 0 else a - b)"

definition checked_add :: "'a::len word \<Rightarrow> 'a word \<Rightarrow> 'a word option" where
  "checked_add a b = (if unat a + unat b < 2 ^ LENGTH('a) then Some (a + b) else None)"

lemma unat_less_2p: "unat (w :: 'a::len word) < 2 ^ LENGTH('a)"
  by simp

lemma unat_u64_less: "unat (w :: u64) < 18446744073709551616"
  using unat_less_2p [of w] by simp

lemma of_nat_unat_id: "of_nat (unat (w :: 'a::len word)) = w"
  by simp

lemma unat_of_nat_u64: "n < 2 ^ 64 \<Longrightarrow> unat (of_nat n :: u64) = n"
  by (simp add: unat_of_nat)

lemma unat_saturating_sub: "unat (saturating_sub a b) = unat a - unat b"
  by (simp add: saturating_sub_def unat_sub_if' word_le_nat_alt word_less_nat_alt)

lemma saturating_sub_le: "saturating_sub a b \<le> a"
  by (simp add: word_le_nat_alt unat_saturating_sub)

lemma checked_add_Some:
  "checked_add a b = Some c \<longleftrightarrow> unat a + unat b < 2 ^ LENGTH('a) \<and> c = a + b"
  for a b c :: "'a::len word"
  by (auto simp: checked_add_def)

lemma checked_add_unat:
  "checked_add a b = Some c \<Longrightarrow> unat c = unat a + unat b"
  for a b c :: "'a::len word"
  by (auto simp: checked_add_Some unat_word_ariths)

lemma unat_add_no_overflow:
  "unat a + unat b < 2 ^ LENGTH('a) \<Longrightarrow> unat (a + b) = unat a + unat b"
  for a b :: "'a::len word"
  by (simp add: unat_word_ariths)

lemma unat_mult_no_overflow:
  "unat a * unat b < 2 ^ LENGTH('a) \<Longrightarrow> unat (a * b) = unat a * unat b"
  for a b :: "'a::len word"
  by (simp add: unat_word_ariths)

lemma unat_sub_le:
  "b \<le> a \<Longrightarrow> unat (a - b) = unat a - unat b"
  for a b :: "'a::len word"
  by (simp add: unat_sub)

lemma unat_ucast_up:
  "LENGTH('a) \<le> LENGTH('b) \<Longrightarrow> unat (ucast w :: 'b::len word) = unat w" for w :: "'a::len word"
  by (simp add: unsigned_ucast_eq take_bit_nat_eq_self_iff)
    (meson less_le_trans numeral_le_iff one_le_numeral power_increasing unat_less_2p)

lemma unat_ucast_mod: "unat (ucast w :: 'b::len word) = unat w mod 2 ^ LENGTH('b)" for w :: "'a::len word"
  by (simp add: unsigned_ucast_eq take_bit_eq_mod)

section \<open>Big-endian bytes\<close>

fun be_bytes :: "nat \<Rightarrow> nat \<Rightarrow> u8 list" where
  "be_bytes 0 v = []"
| "be_bytes (Suc n) v = be_bytes n (v div 256) @ [of_nat (v mod 256)]"

definition be_nat :: "u8 list \<Rightarrow> nat" where
  "be_nat bs = foldl (\<lambda>acc b. acc * 256 + unat b) 0 bs"

definition to_be_bytes :: "'a::len word \<Rightarrow> u8 list" where
  "to_be_bytes w = be_bytes (LENGTH('a) div 8) (unat w)"

definition from_be_bytes :: "u8 list \<Rightarrow> 'a::len word" where
  "from_be_bytes bs = of_nat (be_nat bs)"

lemma length_be_bytes [simp]: "length (be_bytes n v) = n"
  by (induction n arbitrary: v) auto

lemma be_nat_Nil [simp]: "be_nat [] = 0"
  by (simp add: be_nat_def)

lemma be_nat_snoc [simp]: "be_nat (bs @ [b]) = be_nat bs * 256 + unat b"
  by (simp add: be_nat_def)

lemma unat_byte_less: "unat (b :: u8) < 256"
  using unat_less_2p [of b] by simp

lemma be_nat_less: "be_nat bs < 256 ^ length bs"
proof (induction bs rule: rev_induct)
  case (snoc b bs)
  then have "be_nat bs + 1 \<le> 256 ^ length bs" by simp
  then have "(be_nat bs + 1) * 256 \<le> 256 ^ length bs * 256"
    by (rule mult_le_mono1)
  then show ?case using unat_byte_less [of b] by simp
qed simp

lemma unat_of_nat_byte: "unat (of_nat (v mod 256) :: u8) = v mod 256"
  by (simp add: unat_of_nat)

lemma be_nat_be_bytes: "be_nat (be_bytes n v) = v mod 256 ^ n"
proof (induction n arbitrary: v)
  case (Suc n)
  have "v mod 256 ^ Suc n = 256 * (v div 256 mod 256 ^ n) + v mod 256"
    by (simp add: mod_mult2_eq)
  then show ?case by (simp add: Suc unat_of_nat_byte)
qed simp

lemma be_bytes_be_nat: "be_bytes (length bs) (be_nat bs) = bs"
proof (induction bs rule: rev_induct)
  case (snoc b bs)
  have "(be_nat bs * 256 + unat b) div 256 = be_nat bs"
    and "(be_nat bs * 256 + unat b) mod 256 = unat b"
    using unat_byte_less [of b] by simp_all
  then show ?case by (simp add: snoc)
qed simp

lemma length_to_be_bytes [simp]:
  "length (to_be_bytes (w :: 'a::len word)) = LENGTH('a) div 8"
  by (simp add: to_be_bytes_def)

lemma from_to_be_bytes:
  fixes w :: "'a::len word"
  assumes "8 dvd LENGTH('a)"
  shows "from_be_bytes (to_be_bytes w) = w"
proof -
  have "(256::nat) ^ (LENGTH('a) div 8) = (2 ^ 8) ^ (LENGTH('a) div 8)" by simp
  also have "\<dots> = 2 ^ LENGTH('a)"
    using assms by (simp only: power_mult [symmetric] dvd_mult_div_cancel)
  finally have "unat w mod 256 ^ (LENGTH('a) div 8) = unat w"
    using unat_less_2p [of w] by simp
  then show ?thesis
    by (simp add: from_be_bytes_def to_be_bytes_def be_nat_be_bytes)
qed

lemma to_from_be_bytes:
  assumes "8 dvd LENGTH('a)" and "length bs = LENGTH('a) div 8"
  shows "to_be_bytes (from_be_bytes bs :: 'a::len word) = bs"
proof -
  have "(256::nat) ^ (LENGTH('a) div 8) = (2 ^ 8) ^ (LENGTH('a) div 8)" by simp
  also have "\<dots> = 2 ^ LENGTH('a)"
    using assms(1) by (simp only: power_mult [symmetric] dvd_mult_div_cancel)
  finally have "unat (of_nat (be_nat bs) :: 'a word) = be_nat bs"
    using be_nat_less [of bs] assms(2) by (simp add: unat_of_nat)
  then show ?thesis
    using be_bytes_be_nat [of bs] assms(2)
    by (simp add: from_be_bytes_def to_be_bytes_def)
qed

lemma to_be_bytes_inject:
  fixes a b :: "'a::len word"
  assumes "8 dvd LENGTH('a)"
  shows "to_be_bytes a = to_be_bytes b \<longleftrightarrow> a = b"
  by (metis assms from_to_be_bytes)

section \<open>Insertion-ordered sets and maps\<close>

text \<open>
  \<open>IndexSet\<close> is a list without repetitions, in insertion order. \<open>insert\<close>
  answers whether the element is new and leaves the set alone when it is not.
\<close>

definition index_insert :: "'a \<Rightarrow> 'a list \<Rightarrow> bool \<times> 'a list" where
  "index_insert x xs = (if x \<in> set xs then (False, xs) else (True, xs @ [x]))"

definition index_extend :: "'a list \<Rightarrow> 'a list \<Rightarrow> 'a list" where
  "index_extend ys xs = fold (\<lambda>y xs. snd (index_insert y xs)) ys xs"

text \<open>
  \<open>IndexMap\<close>: an association list with distinct keys, in insertion order.
  \<open>insert\<close> on a present key replaces the value and keeps the position;
  \<open>shift_remove\<close> takes the entry out and keeps the order of the others.
\<close>

fun map_insert :: "'k \<Rightarrow> 'v \<Rightarrow> ('k \<times> 'v) list \<Rightarrow> ('k \<times> 'v) list" where
  "map_insert k v [] = [(k, v)]"
| "map_insert k v ((k', v') # m) =
     (if k = k' then (k, v) # m else (k', v') # map_insert k v m)"

definition map_remove :: "'k \<Rightarrow> ('k \<times> 'v) list \<Rightarrow> ('k \<times> 'v) list" where
  "map_remove k m = filter (\<lambda>(k', _). k' \<noteq> k) m"

lemma index_insert_distinct:
  "distinct xs \<Longrightarrow> distinct (snd (index_insert x xs))"
  by (simp add: index_insert_def)

lemma set_index_insert [simp]: "set (snd (index_insert x xs)) = insert x (set xs)"
  by (auto simp: index_insert_def)

lemma index_extend_snoc: "index_extend (ys @ [y]) xs = snd (index_insert y (index_extend ys xs))"
  by (simp add: index_extend_def)

lemma index_extend_Nil [simp]: "index_extend [] xs = xs"
  by (simp add: index_extend_def)

lemma set_index_extend [simp]: "set (index_extend ys xs) = set ys \<union> set xs"
  by (induction ys rule: rev_induct) (auto simp: index_extend_snoc)

lemma map_of_map_insert [simp]: "map_of (map_insert k v m) = (map_of m)(k \<mapsto> v)"
  by (induction k v m rule: map_insert.induct) auto

lemma map_fst_map_insert:
  "map fst (map_insert k v m) = (if k \<in> set (map fst m) then map fst m else map fst m @ [k])"
  by (induction k v m rule: map_insert.induct) auto

lemma distinct_map_insert:
  "distinct (map fst m) \<Longrightarrow> distinct (map fst (map_insert k v m))"
  by (simp add: map_fst_map_insert)

lemma fst_set_map_insert [simp]: "fst ` set (map_insert k v m) = insert k (fst ` set m)"
  by (induction k v m rule: map_insert.induct) auto

lemma map_insert_new:
  "k \<notin> set (map fst m) \<Longrightarrow> map_insert k v m = m @ [(k, v)]"
  by (induction k v m rule: map_insert.induct) auto

lemma map_of_map_remove [simp]: "map_of (map_remove k m) = (map_of m)(k := None)"
  unfolding map_remove_def by (induction m) (auto simp: fun_eq_iff)

lemma map_fst_map_remove: "map fst (map_remove k m) = filter (\<lambda>k'. k' \<noteq> k) (map fst m)"
  unfolding map_remove_def by (induction m) auto

lemma distinct_map_remove:
  "distinct (map fst m) \<Longrightarrow> distinct (map fst (map_remove k m))"
  by (simp add: map_fst_map_remove)

section \<open>Lists\<close>

lemma card_remove_one:
  assumes "finite B" and "t \<in> B" and "t \<notin> P"
  shows "card (B - P) = Suc (card (B - insert t P))"
  using assms by (metis DiffI Diff_insert card_Suc_Diff1 finite_Diff)

lemma nth_take_drop_Cons:
  "i < length xs \<Longrightarrow> drop i xs = xs ! i # drop (Suc i) xs"
  by (rule Cons_nth_drop_Suc [symmetric])

lemma sum_list_const_map: "(\<And>x. x \<in> set xs \<Longrightarrow> f x = (n::nat)) \<Longrightarrow> sum_list (map f xs) = length xs * n"
  by (induction xs) auto

lemma length_concat_const:
  "(\<And>x. x \<in> set xs \<Longrightarrow> length (f x) = n) \<Longrightarrow> length (concat (map f xs)) = length xs * n"
  by (induction xs) auto

end
