(* ===== verification/Serializer.thy ===== *)
theory Serializer
  imports Prelude
begin

text \<open>
  The wire format layer (\<open>common/src/serializer\<close>): the byte \<open>Reader\<close> and
  \<open>Writer\<close>, the primitive types, and the \<open>Serializer\<close> trait as a locale with
  the laws every implementation owes its callers. A reader operation takes the
  reader and returns a result together with the reader it leaves behind, so that
  the state after an error is part of the model. The reader's \<open>Context\<close> is left
  out: none of the types modelled here looks at it.
\<close>

section \<open>Reader\<close>

datatype reader_error =
    InvalidSize
  | InvalidValue
  | InvalidHex
  | ErrorTryInto
  | TryFromSliceError

record reader =
  rbytes :: "u8 list"
  total :: usize

type_synonym 'a rd = "reader \<Rightarrow> (reader_error + 'a) \<times> reader"

definition reader_new :: "u8 list \<Rightarrow> reader" where
  "reader_new bs = \<lparr>rbytes = bs, total = 0\<rparr>"

text \<open>Sequencing with Rust's \<open>?\<close>: the first error ends the function.\<close>

definition rreturn :: "'a \<Rightarrow> 'a rd" where
  "rreturn x r = (Inr x, r)"

definition rfail :: "reader_error \<Rightarrow> 'a rd" where
  "rfail e r = (Inl e, r)"

definition rbind :: "'a rd \<Rightarrow> ('a \<Rightarrow> 'b rd) \<Rightarrow> 'b rd" where
  "rbind m f r = (case m r of (Inl e, r') \<Rightarrow> (Inl e, r') | (Inr x, r') \<Rightarrow> f x r')"

definition total_size :: "reader \<Rightarrow> usize" where
  "total_size r = length (rbytes r)"

definition rsize :: "reader \<Rightarrow> usize" where
  "rsize r = length (rbytes r) - total r"

definition skip :: "usize \<Rightarrow> unit rd" where
  "skip n r = (if n > rsize r then (Inl InvalidSize, r) else (Inr (), r\<lparr>total := total r + n\<rparr>))"

text \<open>
  \<open>read_bytes\<close> is generic in its \<open>TryFrom\<close> target: \<open>conv\<close> is that conversion.
  The reader advances also when the conversion fails.
\<close>

definition read_bytes :: "(u8 list \<Rightarrow> 'a option) \<Rightarrow> usize \<Rightarrow> 'a rd" where
  "read_bytes conv n r =
     (if n > rsize r then (Inl InvalidSize, r)
      else ((case conv (take n (drop (total r) (rbytes r))) of
               Some v \<Rightarrow> Inr v
             | None \<Rightarrow> Inl ErrorTryInto),
            r\<lparr>total := total r + n\<rparr>))"

definition read_bytes_ref :: "usize \<Rightarrow> u8 list rd" where
  "read_bytes_ref n r =
     (if n > rsize r then (Inl InvalidSize, r)
      else (Inr (take n (drop (total r) (rbytes r))), r\<lparr>total := total r + n\<rparr>))"

definition to_array :: "usize \<Rightarrow> u8 list \<Rightarrow> u8 list option" where
  "to_array n bs = (if length bs = n then Some bs else None)"

definition read_array :: "usize \<Rightarrow> u8 list rd" where
  "read_array n = read_bytes (to_array n) n"

definition read_bytes_32 :: "u8 list rd" where
  "read_bytes_32 = read_array 32"

definition read_bytes_64 :: "u8 list rd" where
  "read_bytes_64 = read_array 64"

definition read_u8 :: "u8 rd" where
  "read_u8 r =
     (if rsize r = 0 then (Inl InvalidSize, r)
      else (Inr (rbytes r ! total r), r\<lparr>total := total r + 1\<rparr>))"

definition read_bool :: "bool rd" where
  "read_bool = rbind read_u8 (\<lambda>byte.
     if byte = 0 then rreturn False
     else if byte = 1 then rreturn True
     else rfail InvalidValue)"

definition read_u16 :: "u16 rd" where
  "read_u16 = rbind (read_array 2) (\<lambda>bs. rreturn (from_be_bytes bs))"

definition read_u32 :: "u32 rd" where
  "read_u32 = rbind (read_array 4) (\<lambda>bs. rreturn (from_be_bytes bs))"

definition read_u64 :: "u64 rd" where
  "read_u64 = rbind (read_array 8) (\<lambda>bs. rreturn (from_be_bytes bs))"

definition read_u128 :: "u128 rd" where
  "read_u128 = rbind (read_array 16) (\<lambda>bs. rreturn (from_be_bytes bs))"

definition read_optional_non_zero_u8 :: "u8 option rd" where
  "read_optional_non_zero_u8 = rbind read_u8 (\<lambda>byte.
     if byte = 0 then rreturn None else rreturn (Some byte))"

definition read_optional_non_zero_u16 :: "u16 option rd" where
  "read_optional_non_zero_u16 = rbind read_u16 (\<lambda>value.
     if value = 0 then rreturn None else rreturn (Some value))"

definition read_optional_non_zero_u64 :: "u64 option rd" where
  "read_optional_non_zero_u64 = rbind read_u64 (\<lambda>value.
     if value = 0 then rreturn None else rreturn (Some value))"

text \<open>
  Strings are their UTF-8 bytes. Whether a byte list is valid UTF-8 is a
  parameter: \<open>String::from_utf8\<close> accepts exactly the lists \<open>utf8\<close> holds of.
\<close>

definition read_string_with_size :: "(u8 list \<Rightarrow> bool) \<Rightarrow> usize \<Rightarrow> u8 list rd" where
  "read_string_with_size utf8 n = rbind (read_bytes Some n) (\<lambda>bs.
     if utf8 bs then rreturn bs else rfail InvalidValue)"

definition read_string :: "(u8 list \<Rightarrow> bool) \<Rightarrow> u8 list rd" where
  "read_string utf8 = rbind read_u8 (\<lambda>n. read_string_with_size utf8 (unat n))"

definition read_optional_string :: "(u8 list \<Rightarrow> bool) \<Rightarrow> u8 list option rd" where
  "read_optional_string utf8 = rbind read_u8 (\<lambda>n.
     if n = 0 then rreturn None
     else rbind (read_string_with_size utf8 (unat n)) (\<lambda>s. rreturn (Some s)))"

section \<open>Writer\<close>

record writer =
  wbytes :: "u8 list"
  wlen :: usize

definition writer_new :: "u8 list \<Rightarrow> writer" where
  "writer_new bs = \<lparr>wbytes = bs, wlen = length bs\<rparr>"

text \<open>Calls on one writer, one after the other.\<close>

fun writes :: "(writer \<Rightarrow> writer) list \<Rightarrow> writer \<Rightarrow> writer" where
  "writes [] = id"
| "writes [f] = f"
| "writes (f # g # fs) = writes (fcomp f g # fs)"

definition write_bytes :: "u8 list \<Rightarrow> writer \<Rightarrow> writer" where
  "write_bytes bs w = w\<lparr>wbytes := wbytes w @ bs\<rparr>"

definition write_bool :: "bool \<Rightarrow> writer \<Rightarrow> writer" where
  "write_bool b w = w\<lparr>wbytes := wbytes w @ [if b then 1 else 0]\<rparr>"

definition write_u8 :: "u8 \<Rightarrow> writer \<Rightarrow> writer" where
  "write_u8 v w = w\<lparr>wbytes := wbytes w @ [v]\<rparr>"

definition write_u16 :: "u16 \<Rightarrow> writer \<Rightarrow> writer" where
  "write_u16 v w = w\<lparr>wbytes := wbytes w @ to_be_bytes v\<rparr>"

definition write_u32 :: "u32 \<Rightarrow> writer \<Rightarrow> writer" where
  "write_u32 v w = w\<lparr>wbytes := wbytes w @ to_be_bytes v\<rparr>"

definition write_u64 :: "u64 \<Rightarrow> writer \<Rightarrow> writer" where
  "write_u64 v w = w\<lparr>wbytes := wbytes w @ to_be_bytes v\<rparr>"

definition write_u128 :: "u128 \<Rightarrow> writer \<Rightarrow> writer" where
  "write_u128 v w = w\<lparr>wbytes := wbytes w @ to_be_bytes v\<rparr>"

text \<open>The length byte is the length \<open>as u8\<close>, so it wraps; at most 255 bytes follow.\<close>

definition write_string :: "u8 list \<Rightarrow> writer \<Rightarrow> writer" where
  "write_string s w = w\<lparr>wbytes := wbytes w @ [of_nat (length s)] @ take 255 s\<rparr>"

definition write_optional_string :: "u8 list option \<Rightarrow> writer \<Rightarrow> writer" where
  "write_optional_string opt = (case opt of
     Some v \<Rightarrow> write_string v
   | None \<Rightarrow> write_u8 0)"

definition write_optional_non_zero_u8 :: "u8 option \<Rightarrow> writer \<Rightarrow> writer" where
  "write_optional_non_zero_u8 opt = write_u8 (case opt of None \<Rightarrow> 0 | Some v \<Rightarrow> v)"

definition write_optional_non_zero_u16 :: "u16 option \<Rightarrow> writer \<Rightarrow> writer" where
  "write_optional_non_zero_u16 opt = write_u16 (case opt of None \<Rightarrow> 0 | Some v \<Rightarrow> v)"

definition write_optional_non_zero_u64 :: "u64 option \<Rightarrow> writer \<Rightarrow> writer" where
  "write_optional_non_zero_u64 opt = write_u64 (case opt of None \<Rightarrow> 0 | Some v \<Rightarrow> v)"

definition total_write :: "writer \<Rightarrow> usize" where
  "total_write w = length (wbytes w) - wlen w"

text \<open>The provided methods of the trait.\<close>

definition to_bytes :: "(writer \<Rightarrow> writer) \<Rightarrow> u8 list" where
  "to_bytes f = wbytes (f (writer_new []))"

definition default_size :: "('a \<Rightarrow> writer \<Rightarrow> writer) \<Rightarrow> 'a \<Rightarrow> usize" where
  "default_size wr x = length (wbytes (wr x (writer_new [])))"

definition from_bytes :: "'a rd \<Rightarrow> u8 list \<Rightarrow> reader_error + 'a" where
  "from_bytes rd bs = fst (rd (reader_new bs))"

section \<open>What a reader and a writer promise\<close>

text \<open>
  \<open>reader_ok\<close> is the invariant \<open>total \<le> bytes.len()\<close> that makes the unchecked
  subtraction of \<open>Reader::size\<close> and the slicing of \<open>read_bytes\<close> safe.
  \<open>reader_safe m\<close>: running \<open>m\<close> keeps it, never touches the bytes and never moves
  backwards. \<open>reads m x bs\<close>: in front of the bytes \<open>bs\<close>, \<open>m\<close> returns \<open>x\<close> and
  consumes exactly them. \<open>accepts m P\<close>: whatever \<open>m\<close> returns, the bytes it
  consumed stand in the relation \<open>P\<close> to it. \<open>append_only f\<close>: the writer action
  \<open>f\<close> appends the same bytes whatever was written before.
\<close>

definition reader_ok :: "reader \<Rightarrow> bool" where
  "reader_ok r \<longleftrightarrow> total r \<le> length (rbytes r)"

definition remaining :: "reader \<Rightarrow> u8 list" where
  "remaining r = drop (total r) (rbytes r)"

definition advance :: "usize \<Rightarrow> reader \<Rightarrow> reader" where
  "advance n r = r\<lparr>total := total r + n\<rparr>"

definition reader_safe :: "'a rd \<Rightarrow> bool" where
  "reader_safe m \<longleftrightarrow> (\<forall>r. reader_ok r \<longrightarrow>
     reader_ok (snd (m r)) \<and> rbytes (snd (m r)) = rbytes r \<and> total r \<le> total (snd (m r)))"

definition reads :: "'a rd \<Rightarrow> 'a \<Rightarrow> u8 list \<Rightarrow> bool" where
  "reads m x bs \<longleftrightarrow> (\<forall>r rest. reader_ok r \<longrightarrow> remaining r = bs @ rest \<longrightarrow>
     m r = (Inr x, advance (length bs) r))"

definition accepts :: "'a rd \<Rightarrow> ('a \<Rightarrow> u8 list \<Rightarrow> bool) \<Rightarrow> bool" where
  "accepts m P \<longleftrightarrow> (\<forall>r x r'. reader_ok r \<longrightarrow> m r = (Inr x, r') \<longrightarrow>
     (\<exists>bs rest. remaining r = bs @ rest \<and> r' = advance (length bs) r \<and> P x bs))"

definition append_only :: "(writer \<Rightarrow> writer) \<Rightarrow> bool" where
  "append_only f \<longleftrightarrow> (\<forall>w. f w = w\<lparr>wbytes := wbytes w @ to_bytes f\<rparr>)"

subsection \<open>Reader algebra\<close>

lemma rsize_remaining: "rsize r = length (remaining r)"
  by (simp add: rsize_def remaining_def)

lemma remaining_advance: "remaining (advance n r) = drop n (remaining r)"
  by (simp add: remaining_def advance_def add.commute)

lemma reader_ok_new [simp]: "reader_ok (reader_new bs)"
  by (simp add: reader_ok_def reader_new_def)

lemma remaining_new [simp]: "remaining (reader_new bs) = bs"
  by (simp add: remaining_def reader_new_def)

lemma advance_0 [simp]: "advance 0 r = r"
  by (simp add: advance_def)

lemma advance_advance [simp]: "advance n (advance m r) = advance (m + n) r"
  by (simp add: advance_def add.assoc)

lemma reader_ok_advance: "reader_ok r \<Longrightarrow> n \<le> length (remaining r) \<Longrightarrow> reader_ok (advance n r)"
  by (auto simp: reader_ok_def remaining_def advance_def)

lemma readsI:
  "(\<And>r rest. reader_ok r \<Longrightarrow> remaining r = bs @ rest \<Longrightarrow> m r = (Inr x, advance (length bs) r)) \<Longrightarrow>
   reads m x bs"
  by (simp add: reads_def)

lemma reads_apply:
  "reads m x bs \<Longrightarrow> reader_ok r \<Longrightarrow> remaining r = bs @ rest \<Longrightarrow> m r = (Inr x, advance (length bs) r)"
  by (simp add: reads_def)

lemma reads_return [codec_intros]: "reads (rreturn x) x []"
  by (simp add: reads_def rreturn_def)

lemma reads_bind:
  assumes "reads m x bs" and "reads (f x) y cs"
  shows "reads (rbind m f) y (bs @ cs)"
proof (rule readsI)
  fix r rest assume r: "reader_ok r" "remaining r = (bs @ cs) @ rest"
  have m: "m r = (Inr x, advance (length bs) r)"
    using assms(1) r by (auto intro: reads_apply)
  have "f x (advance (length bs) r) = (Inr y, advance (length cs) (advance (length bs) r))"
    using r by (intro reads_apply [OF assms(2)] reader_ok_advance)
      (simp_all add: remaining_advance)
  with m show "rbind m f r = (Inr y, advance (length (bs @ cs)) r)"
    by (simp add: rbind_def)
qed

lemma reads_bind_return [codec_intros]:
  "reads m x bs \<Longrightarrow> y = f x \<Longrightarrow> reads (rbind m (\<lambda>x. rreturn (f x))) y bs"
  using reads_bind [of m x bs "\<lambda>x. rreturn (f x)" y "[]"] by (simp add: reads_return)

lemma reads_bind_tail:
  "reads m x bs \<Longrightarrow> reads (f x) y [] \<Longrightarrow> reads (rbind m f) y bs"
  using reads_bind [of m x bs f y "[]"] by simp

lemma reader_safe_return [codec_intros]: "reader_safe (rreturn x)"
  by (simp add: reader_safe_def rreturn_def)

lemma reader_safe_fail [codec_intros]: "reader_safe (rfail e)"
  by (simp add: reader_safe_def rfail_def)

lemma reader_safe_bind [codec_intros]:
  assumes "reader_safe m" and "\<And>x. reader_safe (f x)"
  shows "reader_safe (rbind m f)"
  unfolding reader_safe_def
proof (intro allI impI)
  fix r assume r: "reader_ok r"
  obtain res r1 where m: "m r = (res, r1)" by force
  have r1: "reader_ok r1 \<and> rbytes r1 = rbytes r \<and> total r \<le> total r1"
    using assms(1) [unfolded reader_safe_def, rule_format, OF r] by (simp add: m)
  show "reader_ok (snd (rbind m f r)) \<and> rbytes (snd (rbind m f r)) = rbytes r \<and>
      total r \<le> total (snd (rbind m f r))"
  proof (cases res)
    case (Inl e)
    then show ?thesis using r1 by (simp add: rbind_def m)
  next
    case (Inr x)
    have "reader_ok (snd (f x r1)) \<and> rbytes (snd (f x r1)) = rbytes r1 \<and> total r1 \<le> total (snd (f x r1))"
      using assms(2) [of x, unfolded reader_safe_def] r1 by blast
    then show ?thesis using r1 Inr by (simp add: rbind_def m)
  qed
qed

lemma reader_safe_if [codec_intros]:
  "reader_safe a \<Longrightarrow> reader_safe b \<Longrightarrow> reader_safe (if c then a else b)"
  by simp

lemma accepts_mono: "accepts m P \<Longrightarrow> (\<And>x bs. P x bs \<Longrightarrow> Q x bs) \<Longrightarrow> accepts m Q"
  unfolding accepts_def by blast

lemma accepts_return: "P x [] \<Longrightarrow> accepts (rreturn x) P"
  unfolding accepts_def rreturn_def
  by auto (metis advance_0 append_Nil list.size(3))

lemma accepts_fail: "accepts (rfail e) P"
  by (simp add: accepts_def rfail_def)

lemma accepts_bindI:
  assumes m: "accepts m P" and f: "\<And>x bs. P x bs \<Longrightarrow> accepts (f x) (\<lambda>y cs. R y (bs @ cs))"
  shows "accepts (rbind m f) R"
  unfolding accepts_def
proof (intro allI impI)
  fix r y r' assume r: "reader_ok r" and b: "rbind m f r = (Inr y, r')"
  from b obtain x r1 where 1: "m r = (Inr x, r1)" and 2: "f x r1 = (Inr y, r')"
    by (auto simp: rbind_def split: prod.splits sum.splits)
  from m r 1 obtain bs rest where bs: "remaining r = bs @ rest" "r1 = advance (length bs) r" "P x bs"
    unfolding accepts_def by blast
  then have ok1: "reader_ok r1" and rem1: "remaining r1 = rest"
    using r by (simp_all add: reader_ok_advance remaining_advance)
  from f [OF bs(3)] ok1 2 obtain cs rest'
    where cs: "rest = cs @ rest'" "r' = advance (length cs) r1" "R y (bs @ cs)"
    unfolding accepts_def rem1 [symmetric] by blast
  have "remaining r = (bs @ cs) @ rest'" "r' = advance (length (bs @ cs)) r"
    using bs cs by simp_all
  with cs(3) show "\<exists>bs rest. remaining r = bs @ rest \<and> r' = advance (length bs) r \<and> R y bs"
    by blast
qed

lemma accepts_bind:
  assumes "accepts m P" and "\<And>x. accepts (f x) (Q x)"
    and "\<And>x y bs cs. P x bs \<Longrightarrow> Q x y cs \<Longrightarrow> R y (bs @ cs)"
  shows "accepts (rbind m f) R"
  by (rule accepts_bindI [OF assms(1) accepts_mono [OF assms(2)]]) (rule assms(3))

lemma accepts_if:
  "(c \<Longrightarrow> accepts a P) \<Longrightarrow> (\<not> c \<Longrightarrow> accepts b P) \<Longrightarrow> accepts (if c then a else b) P"
  by simp

subsection \<open>Writer algebra\<close>

lemma append_onlyD: "append_only f \<Longrightarrow> wbytes (f w) = wbytes w @ to_bytes f"
proof -
  assume "append_only f"
  then have "f w = w\<lparr>wbytes := wbytes w @ to_bytes f\<rparr>"
    unfolding append_only_def by (rule spec)
  then show ?thesis by simp
qed

lemma append_onlyI:
  assumes "\<And>w. f w = w\<lparr>wbytes := wbytes w @ bs\<rparr>"
  shows "append_only f" and "to_bytes f = bs"
proof -
  show "to_bytes f = bs" by (simp add: to_bytes_def assms writer_new_def)
  then show "append_only f" by (simp add: append_only_def assms)
qed

lemma append_only_comp [codec_simps, codec_intros]:
  assumes "append_only f" and "append_only g"
  shows "append_only (fcomp f g)"
proof -
  have "(fcomp f g) w = w\<lparr>wbytes := wbytes w @ to_bytes f @ to_bytes g\<rparr>" for w
    using assms by (simp add: append_only_def fcomp_def)
  then show ?thesis by (rule append_onlyI)
qed

lemma to_bytes_comp [codec_simps]:
  assumes "append_only f" and "append_only g"
  shows "to_bytes (fcomp f g) = to_bytes f @ to_bytes g"
proof -
  have "(fcomp f g) w = w\<lparr>wbytes := wbytes w @ to_bytes f @ to_bytes g\<rparr>" for w
    using assms by (simp add: append_only_def fcomp_def)
  then show ?thesis by (rule append_onlyI)
qed

lemma append_only_id [codec_simps]: "append_only id" and to_bytes_id [codec_simps]: "to_bytes id = []"
  by (rule append_onlyI [of id "[]"]; simp)+

lemma append_only_fold [codec_simps]:
  assumes "\<And>x. x \<in> set xs \<Longrightarrow> append_only (f x)"
  shows "append_only (fold f xs)"
  and to_bytes_fold [codec_simps]: "to_bytes (fold f xs) = concat (map (\<lambda>x. to_bytes (f x)) xs)"
proof -
  have "fold f xs w = w\<lparr>wbytes := wbytes w @ concat (map (\<lambda>x. to_bytes (f x)) xs)\<rparr>" for w
    using assms
  proof (induction xs arbitrary: w)
    case (Cons x xs)
    then have "f x w = w\<lparr>wbytes := wbytes w @ to_bytes (f x)\<rparr>"
      by (simp add: append_only_def)
    with Cons show ?case by simp
  qed simp
  then show "append_only (fold f xs)"
    and "to_bytes (fold f xs) = concat (map (\<lambda>x. to_bytes (f x)) xs)"
    by (rule append_onlyI)+
qed

lemmas writer_defs = write_bytes_def write_bool_def write_u8_def write_u16_def write_u32_def
  write_u64_def write_u128_def write_string_def

lemma primitive_append_only [codec_simps]:
  "append_only (write_bytes bs)" "append_only (write_bool b)" "append_only (write_u8 v8)"
  "append_only (write_u16 v16)" "append_only (write_u32 v32)" "append_only (write_u64 v64)"
  "append_only (write_u128 v128)" "append_only (write_string s)"
  by (rule append_onlyI; simp add: writer_defs)+

lemma primitive_to_bytes [codec_simps]:
  "to_bytes (write_bytes bs) = bs" "to_bytes (write_bool b) = [if b then 1 else 0]"
  "to_bytes (write_u8 v8) = [v8]" "to_bytes (write_u16 v16) = to_be_bytes v16"
  "to_bytes (write_u32 v32) = to_be_bytes v32" "to_bytes (write_u64 v64) = to_be_bytes v64"
  "to_bytes (write_u128 v128) = to_be_bytes v128"
  "to_bytes (write_string s) = of_nat (length s) # take 255 s"
  by (rule append_onlyI; simp add: writer_defs)+

subsection \<open>Primitive reads\<close>

lemma reads_read_bytes:
  "conv bs = Some v \<Longrightarrow> reads (read_bytes conv (length bs)) v bs"
  by (rule readsI) (simp add: read_bytes_def rsize_remaining, simp add: remaining_def advance_def)

lemma reads_read_array [codec_intros]: "length bs = n \<Longrightarrow> reads (read_array n) bs bs"
  unfolding read_array_def using reads_read_bytes [of "to_array n" bs bs]
  by (simp add: to_array_def)

lemma reads_read_bytes_ref [codec_intros]: "length bs = n \<Longrightarrow> reads (read_bytes_ref n) bs bs"
  by (rule readsI) (simp add: read_bytes_ref_def rsize_remaining, simp add: remaining_def advance_def)

lemma reads_read_u8 [codec_intros]: "reads read_u8 b [b]"
proof (rule readsI)
  fix r rest assume "reader_ok r" "remaining r = [b] @ rest"
  then have "total r < length (rbytes r)" "rbytes r ! total r = b"
    by (simp_all add: remaining_def nth_via_drop) (metis drop_all list.distinct(1) not_less)
  then show "read_u8 r = (Inr b, advance (length [b]) r)"
    by (simp add: read_u8_def rsize_def advance_def)
qed

lemma reads_read_bool [codec_intros]: "reads read_bool b [if b then 1 else 0]"
  unfolding read_bool_def
  by (rule reads_bind_tail [OF reads_read_u8]) (simp add: reads_return)

lemma reads_read_u16 [codec_intros]: "reads read_u16 v (to_be_bytes v)"
  unfolding read_u16_def
  by (rule reads_bind_return [OF reads_read_array]) (simp_all add: from_to_be_bytes)

lemma reads_read_u32 [codec_intros]: "reads read_u32 v (to_be_bytes v)"
  unfolding read_u32_def
  by (rule reads_bind_return [OF reads_read_array]) (simp_all add: from_to_be_bytes)

lemma reads_read_u64 [codec_intros]: "reads read_u64 v (to_be_bytes v)"
  unfolding read_u64_def
  by (rule reads_bind_return [OF reads_read_array]) (simp_all add: from_to_be_bytes)

lemma reads_read_u128 [codec_intros]: "reads read_u128 v (to_be_bytes v)"
  unfolding read_u128_def
  by (rule reads_bind_return [OF reads_read_array]) (simp_all add: from_to_be_bytes)

lemma reads_read_string:
  assumes "utf8 s" and "length s \<le> 255"
  shows "reads (read_string utf8) s (of_nat (length s) # s)"
proof -
  have n: "unat (of_nat (length s) :: u8) = length s"
    using assms(2) by (simp add: unat_of_nat)
  have "reads (read_string_with_size utf8 (length s)) s s"
    unfolding read_string_with_size_def
    by (rule reads_bind_tail [OF reads_read_bytes [of Some s s]]) (simp_all add: assms reads_return)
  then have "reads (read_string utf8) s ([of_nat (length s)] @ s)"
    unfolding read_string_def by (intro reads_bind [OF reads_read_u8]) (simp add: n)
  then show ?thesis by simp
qed

lemma reader_safe_read_bytes [codec_intros]: "reader_safe (read_bytes conv n)"
  by (auto simp: reader_safe_def read_bytes_def rsize_def reader_ok_def)

lemma reader_safe_read_bytes_ref [codec_intros]: "reader_safe (read_bytes_ref n)"
  by (auto simp: reader_safe_def read_bytes_ref_def rsize_def reader_ok_def)

lemma reader_safe_skip [codec_intros]: "reader_safe (skip n)"
  by (auto simp: reader_safe_def skip_def rsize_def reader_ok_def)

lemma reader_safe_read_array [codec_intros]: "reader_safe (read_array n)"
  unfolding read_array_def by (rule codec_intros)

lemma reader_safe_read_u8 [codec_intros]: "reader_safe read_u8"
  by (auto simp: reader_safe_def read_u8_def rsize_def reader_ok_def)

lemma reader_safe_read_bool [codec_intros]: "reader_safe read_bool"
  unfolding read_bool_def by (intro codec_intros)

lemma reader_safe_read_ints [codec_intros]:
  "reader_safe read_u16" "reader_safe read_u32" "reader_safe read_u64" "reader_safe read_u128"
  unfolding read_u16_def read_u32_def read_u64_def read_u128_def by (intro codec_intros)+

lemma reader_safe_read_string [codec_intros]: "reader_safe (read_string utf8)"
  unfolding read_string_def read_string_with_size_def by (intro codec_intros)

lemma accepts_prefixI:
  assumes "\<And>r x r'. reader_ok r \<Longrightarrow> m r = (Inr x, r') \<Longrightarrow>
    n \<le> rsize r \<and> r' = advance n r \<and> P x (take n (remaining r))"
  shows "accepts m P"
  unfolding accepts_def
proof (intro allI impI)
  fix r x r' assume "reader_ok r" and "m r = (Inr x, r')"
  then have *: "n \<le> rsize r" "r' = advance n r" "P x (take n (remaining r))"
    using assms by blast+
  then have "length (take n (remaining r)) = n" by (simp add: rsize_remaining)
  with * show "\<exists>bs rest. remaining r = bs @ rest \<and> r' = advance (length bs) r \<and> P x bs"
    by (metis append_take_drop_id)
qed

lemma accepts_read_bytes:
  "accepts (read_bytes conv n) (\<lambda>v bs. length bs = n \<and> conv bs = Some v)"
  by (rule accepts_prefixI [where n = n])
    (auto simp: read_bytes_def rsize_remaining advance_def remaining_def split: if_splits option.splits)

lemma accepts_read_array: "accepts (read_array n) (\<lambda>v bs. length bs = n \<and> bs = v)"
  unfolding read_array_def
  by (rule accepts_mono [OF accepts_read_bytes]) (auto simp: to_array_def split: if_splits)

lemma accepts_read_bytes_ref: "accepts (read_bytes_ref n) (\<lambda>v bs. length bs = n \<and> bs = v)"
  by (rule accepts_prefixI [where n = n])
    (auto simp: read_bytes_ref_def rsize_remaining advance_def remaining_def split: if_splits)

lemma accepts_read_u8: "accepts read_u8 (\<lambda>v bs. bs = [v])"
  by (rule accepts_prefixI [where n = 1])
    (auto simp: read_u8_def rsize_def advance_def remaining_def take_Suc_conv_app_nth
      hd_drop_conv_nth take_Suc split: if_splits)

lemma accepts_read_bool: "accepts read_bool (\<lambda>v bs. bs = [if v then 1 else 0])"
  unfolding read_bool_def
  by (rule accepts_bind [OF accepts_read_u8, where Q = "\<lambda>b v bs. bs = [] \<and> b = (if v then 1 else 0)"])
    (auto simp: accepts_return accepts_fail)

lemma accepts_read_int:
  assumes "8 dvd LENGTH('a::len)" and "n = LENGTH('a) div 8"
  shows "accepts (rbind (read_array n) (\<lambda>bs. rreturn (from_be_bytes bs :: 'a word)))
    (\<lambda>v bs. bs = to_be_bytes v)"
  by (rule accepts_bind [OF accepts_read_array, where Q = "\<lambda>bs v cs. cs = [] \<and> v = from_be_bytes bs"])
    (auto simp: accepts_return to_from_be_bytes assms)

lemma accepts_read_ints:
  "accepts read_u16 (\<lambda>v bs. bs = to_be_bytes v)" "accepts read_u32 (\<lambda>v bs. bs = to_be_bytes v)"
  "accepts read_u64 (\<lambda>v bs. bs = to_be_bytes v)" "accepts read_u128 (\<lambda>v bs. bs = to_be_bytes v)"
  unfolding read_u16_def read_u32_def read_u64_def read_u128_def
  by (rule accepts_read_int; simp)+

section \<open>The Serializer trait\<close>

text \<open>
  The contract of an implementation of the trait. \<open>ok\<close> singles out the values
  the wire format can carry. A strict serializer moreover accepts no other bytes
  for a value than the ones it writes.
\<close>

locale serializer =
  fixes wr :: "'a \<Rightarrow> writer \<Rightarrow> writer"
    and rd :: "'a rd"
    and sz :: "'a \<Rightarrow> usize"
    and ok :: "'a \<Rightarrow> bool"
  assumes write_append: "append_only (wr x)"
    and read_write: "ok x \<Longrightarrow> reads rd x (to_bytes (wr x))"
    and size_write: "ok x \<Longrightarrow> sz x = length (to_bytes (wr x))"
    and read_safe: "reader_safe rd"
begin

lemma from_to_bytes: "ok x \<Longrightarrow> from_bytes rd (to_bytes (wr x)) = Inr x"
  using reads_apply [OF read_write, of x "reader_new (to_bytes (wr x))" "[]"]
  by (simp add: from_bytes_def)

lemma prefix_free:
  assumes "ok x" and "ok y" and "to_bytes (wr x) @ s = to_bytes (wr y) @ t"
  shows "x = y" and "s = t"
proof -
  let ?r = "reader_new (to_bytes (wr x) @ s)"
  have "rd ?r = (Inr x, advance (length (to_bytes (wr x))) ?r)"
    using read_write [OF assms(1)] by (rule reads_apply) simp_all
  moreover have "rd ?r = (Inr y, advance (length (to_bytes (wr y))) ?r)"
    using read_write [OF assms(2)] by (rule reads_apply) (simp_all add: assms(3))
  ultimately show "x = y" by simp
  with assms(3) show "s = t" by simp
qed

lemma to_bytes_inject: "ok x \<Longrightarrow> ok y \<Longrightarrow> to_bytes (wr x) = to_bytes (wr y) \<Longrightarrow> x = y"
  using prefix_free(1) [of x y "[]" "[]"] by simp

lemma default_size_eq: "ok x \<Longrightarrow> default_size wr x = sz x"
  by (simp add: size_write default_size_def to_bytes_def)

end

locale strict_serializer = serializer +
  assumes read_strict: "accepts rd (\<lambda>x bs. ok x \<and> bs = to_bytes (wr x))"
begin

lemma from_bytes_strict:
  assumes "from_bytes rd bs = Inr x"
  obtains rest where "ok x" and "bs = to_bytes (wr x) @ rest"
proof -
  obtain r' where "rd (reader_new bs) = (Inr x, r')"
    using assms unfolding from_bytes_def by (metis prod.collapse)
  then obtain rest where "ok x" "bs = to_bytes (wr x) @ rest"
    using read_strict unfolding accepts_def
    by (metis reader_ok_new remaining_new)
  then show ?thesis by (rule that)
qed

lemma from_bytes_iff:
  "from_bytes rd bs = Inr x \<longleftrightarrow> ok x \<and> (\<exists>rest. bs = to_bytes (wr x) @ rest)"
proof
  assume "from_bytes rd bs = Inr x"
  then show "ok x \<and> (\<exists>rest. bs = to_bytes (wr x) @ rest)"
    by (metis from_bytes_strict)
next
  assume "ok x \<and> (\<exists>rest. bs = to_bytes (wr x) @ rest)"
  then obtain rest where "ok x" "bs = to_bytes (wr x) @ rest" by blast
  then have "rd (reader_new bs) = (Inr x, advance (length (to_bytes (wr x))) (reader_new bs))"
    by (intro reads_apply [OF read_write]) simp_all
  then show "from_bytes rd bs = Inr x" by (simp add: from_bytes_def)
qed

end

lemmas serializer_intro = serializer.intro
lemmas strict_intro = strict_serializer.intro [OF _ strict_serializer_axioms.intro]

interpretation u8: strict_serializer write_u8 read_u8 "\<lambda>_. 1" "\<lambda>_. True"
  by unfold_locales (simp_all add: codec_simps codec_intros accepts_read_u8)

interpretation u16: strict_serializer write_u16 read_u16 "\<lambda>_. 2" "\<lambda>_. True"
  by unfold_locales (simp_all add: codec_simps codec_intros accepts_read_ints)

interpretation u32: strict_serializer write_u32 read_u32 "\<lambda>_. 4" "\<lambda>_. True"
  by unfold_locales (simp_all add: codec_simps codec_intros accepts_read_ints)

interpretation u64: strict_serializer write_u64 read_u64 "\<lambda>_. 8" "\<lambda>_. True"
  by unfold_locales (simp_all add: codec_simps codec_intros accepts_read_ints)

interpretation u128: strict_serializer write_u128 read_u128 "\<lambda>_. 16" "\<lambda>_. True"
  by unfold_locales (simp_all add: codec_simps codec_intros accepts_read_ints)

interpretation bool: strict_serializer write_bool read_bool "\<lambda>_. 1" "\<lambda>_. True"
  by unfold_locales (simp_all add: codec_simps codec_intros accepts_read_bool)

end
