(* ===== verification/Codecs.thy ===== *)
theory Codecs
  imports Serializer "HOL-Library.List_Lexorder"
begin

text \<open>
  The generic implementations of the \<open>Serializer\<close> trait
  (\<open>common/src/serializer/defaults.rs\<close> and the wrappers of \<open>reader.rs\<close>), and the
  32-byte values the whole program passes around: \<open>Hash\<close> and the compressed
  Ristretto points. A generic implementation takes the operations of its element
  type as arguments, as the trait bound does; that it is a serializer whenever the
  element is, is proved once in the context of the locale.
\<close>

section \<open>Hashes and compressed points\<close>

definition HASH_SIZE :: usize where "HASH_SIZE = 32"

datatype hash = Hash (as_bytes: "u8 list")

definition hash_ok :: "hash \<Rightarrow> bool" where
  "hash_ok h \<longleftrightarrow> length (as_bytes h) = HASH_SIZE"

definition hash_zero :: hash where
  "hash_zero = Hash (replicate HASH_SIZE 0)"

definition hash_max :: hash where
  "hash_max = Hash (replicate HASH_SIZE (-1))"

definition write_hash :: "hash \<Rightarrow> writer \<Rightarrow> writer" where
  "write_hash h = write_bytes (as_bytes h)"

definition read_hash :: "hash rd" where
  "read_hash = rbind read_bytes_32 (\<lambda>bs. rreturn (Hash bs))"

definition size_hash :: "hash \<Rightarrow> usize" where
  "size_hash h = HASH_SIZE"

text \<open>\<open>derive(PartialOrd, Ord)\<close> on the byte array: lexicographic.\<close>

instantiation hash :: linorder
begin

definition less_eq_hash :: "hash \<Rightarrow> hash \<Rightarrow> bool" where
  "less_eq_hash a b \<longleftrightarrow> as_bytes a \<le> as_bytes b"

definition less_hash :: "hash \<Rightarrow> hash \<Rightarrow> bool" where
  "less_hash a b \<longleftrightarrow> as_bytes a < as_bytes b"

instance
  by standard (auto simp: less_eq_hash_def less_hash_def hash.expand)

end

text \<open>
  \<open>CompressedRistretto\<close> and the four wrappers around it (commitment, handle,
  public key, and the ciphertext made of the first two). Decompression is the
  business of the curve library and a parameter where it is used.
\<close>

definition RISTRETTO_COMPRESSED_SIZE :: usize where "RISTRETTO_COMPRESSED_SIZE = 32"

type_synonym compressed_point = "u8 list"

definition point_ok :: "compressed_point \<Rightarrow> bool" where
  "point_ok p \<longleftrightarrow> length p = RISTRETTO_COMPRESSED_SIZE"

definition write_point :: "compressed_point \<Rightarrow> writer \<Rightarrow> writer" where
  "write_point p = write_bytes p"

text \<open>\<open>CompressedRistretto::from_slice\<close> fails only on a slice that is not 32 bytes long.\<close>

definition read_point :: "compressed_point rd" where
  "read_point = rbind (read_bytes_ref RISTRETTO_COMPRESSED_SIZE) (\<lambda>bs.
     if length bs = 32 then rreturn bs else rfail TryFromSliceError)"

definition size_point :: "compressed_point \<Rightarrow> usize" where
  "size_point p = RISTRETTO_COMPRESSED_SIZE"

datatype public_key = PublicKey (key_point: compressed_point)

definition public_key_ok :: "public_key \<Rightarrow> bool" where
  "public_key_ok k \<longleftrightarrow> point_ok (key_point k)"

definition write_public_key :: "public_key \<Rightarrow> writer \<Rightarrow> writer" where
  "write_public_key k = write_point (key_point k)"

definition read_public_key :: "public_key rd" where
  "read_public_key = rbind read_point (\<lambda>p. rreturn (PublicKey p))"

definition size_public_key :: "public_key \<Rightarrow> usize" where
  "size_public_key k = size_point (key_point k)"

record compressed_ciphertext =
  ct_commitment :: compressed_point
  ct_handle :: compressed_point

definition ciphertext_ok :: "compressed_ciphertext \<Rightarrow> bool" where
  "ciphertext_ok c \<longleftrightarrow> point_ok (ct_commitment c) \<and> point_ok (ct_handle c)"

definition write_compressed_ciphertext :: "compressed_ciphertext \<Rightarrow> writer \<Rightarrow> writer" where
  "write_compressed_ciphertext c = writes [write_point (ct_commitment c), write_point (ct_handle c)]"

definition read_compressed_ciphertext :: "compressed_ciphertext rd" where
  "read_compressed_ciphertext = rbind read_point (\<lambda>c. rbind read_point (\<lambda>h.
     rreturn \<lparr>ct_commitment = c, ct_handle = h\<rparr>))"

definition size_compressed_ciphertext :: "compressed_ciphertext \<Rightarrow> usize" where
  "size_compressed_ciphertext c = size_point (ct_commitment c) + size_point (ct_handle c)"

section \<open>Generic implementations\<close>

definition DEFAULT_MAX_ITEMS :: usize where "DEFAULT_MAX_ITEMS = 1024"

subsection \<open>Loops\<close>

text \<open>\<open>for _ in 0..n \{ v.push(T::read(reader)?) \}\<close>\<close>

fun read_times :: "nat \<Rightarrow> 'a rd \<Rightarrow> 'a list rd" where
  "read_times 0 rd = rreturn []"
| "read_times (Suc n) rd = rbind rd (\<lambda>x. rbind (read_times n rd) (\<lambda>xs. rreturn (x # xs)))"

text \<open>The same loop into an \<open>IndexSet\<close>, where a repeated element is an error.\<close>

fun read_unique :: "reader_error \<Rightarrow> nat \<Rightarrow> 'a rd \<Rightarrow> 'a list \<Rightarrow> 'a list rd" where
  "read_unique err 0 rd acc = rreturn acc"
| "read_unique err (Suc n) rd acc = rbind rd (\<lambda>x.
     let (fresh, acc') = index_insert x acc in
     if \<not> fresh then rfail err else read_unique err n rd acc')"

text \<open>The loop of \<open>BTreeSet\<close>: the set is kept in order.\<close>

fun read_btree :: "nat \<Rightarrow> ('a::linorder) rd \<Rightarrow> 'a list \<Rightarrow> 'a list rd" where
  "read_btree 0 rd acc = rreturn acc"
| "read_btree (Suc n) rd acc = rbind rd (\<lambda>x.
     if x \<in> set acc then rfail InvalidSize else read_btree n rd (insort x acc))"

text \<open>The loop of \<open>HashMap\<close> and \<open>IndexMap\<close>: a repeated key overwrites.\<close>

fun read_entries :: "nat \<Rightarrow> 'k rd \<Rightarrow> 'v rd \<Rightarrow> ('k \<times> 'v) list \<Rightarrow> ('k \<times> 'v) list rd" where
  "read_entries 0 rk rv m = rreturn m"
| "read_entries (Suc n) rk rv m = rbind rk (\<lambda>k. rbind rv (\<lambda>v.
     read_entries n rk rv (map_insert k v m)))"

subsection \<open>Option, Vec, sets and maps\<close>

definition write_option :: "('a \<Rightarrow> writer \<Rightarrow> writer) \<Rightarrow> 'a option \<Rightarrow> writer \<Rightarrow> writer" where
  "write_option wr opt = writes [write_bool (opt \<noteq> None),
       (case opt of Some v \<Rightarrow> wr v | None \<Rightarrow> id)]"

definition read_option :: "'a rd \<Rightarrow> 'a option rd" where
  "read_option rd = rbind read_bool (\<lambda>b.
     if b then rbind rd (\<lambda>v. rreturn (Some v)) else rreturn None)"

definition size_option :: "('a \<Rightarrow> usize) \<Rightarrow> 'a option \<Rightarrow> usize" where
  "size_option sz opt = (case opt of Some v \<Rightarrow> 1 + sz v | None \<Rightarrow> 1)"

definition option_ok :: "('a \<Rightarrow> bool) \<Rightarrow> 'a option \<Rightarrow> bool" where
  "option_ok ok opt = (case opt of None \<Rightarrow> True | Some v \<Rightarrow> ok v)"

definition write_vec :: "('a \<Rightarrow> writer \<Rightarrow> writer) \<Rightarrow> 'a list \<Rightarrow> writer \<Rightarrow> writer" where
  "write_vec wr xs = writes [write_u16 (of_nat (length xs)), fold wr xs]"

definition read_vec :: "'a rd \<Rightarrow> 'a list rd" where
  "read_vec rd = rbind read_u16 (\<lambda>count.
     if count > of_nat DEFAULT_MAX_ITEMS then rfail InvalidSize else read_times (unat count) rd)"

definition size_vec :: "('a \<Rightarrow> usize) \<Rightarrow> 'a list \<Rightarrow> usize" where
  "size_vec sz xs = 2 + sum_list (map sz xs)"

definition vec_ok :: "('a \<Rightarrow> bool) \<Rightarrow> 'a list \<Rightarrow> bool" where
  "vec_ok ok xs \<longleftrightarrow> length xs \<le> DEFAULT_MAX_ITEMS \<and> (\<forall>x \<in> set xs. ok x)"

text \<open>\<open>IndexSet\<close> and \<open>BTreeSet\<close> share \<open>write\<close> and \<open>size\<close>; the size counts every element as big as the first.\<close>

definition write_set :: "('a \<Rightarrow> writer \<Rightarrow> writer) \<Rightarrow> 'a list \<Rightarrow> writer \<Rightarrow> writer" where
  "write_set wr xs = writes [write_u16 (of_nat (length xs)), fold wr xs]"

definition size_set :: "('a \<Rightarrow> usize) \<Rightarrow> 'a list \<Rightarrow> usize" where
  "size_set sz xs = (case xs of x # _ \<Rightarrow> 2 + length xs * sz x | [] \<Rightarrow> 2)"

definition read_index_set :: "'a rd \<Rightarrow> 'a list rd" where
  "read_index_set rd = rbind read_u16 (\<lambda>count.
     if count > of_nat DEFAULT_MAX_ITEMS then rfail InvalidSize
     else read_unique InvalidSize (unat count) rd [])"

definition read_btree_set :: "('a::linorder) rd \<Rightarrow> 'a list rd" where
  "read_btree_set rd = rbind read_u16 (\<lambda>count.
     if count > of_nat DEFAULT_MAX_ITEMS then rfail InvalidSize
     else read_btree (unat count) rd [])"

definition set_ok :: "('a \<Rightarrow> bool) \<Rightarrow> ('a \<Rightarrow> usize) \<Rightarrow> 'a list \<Rightarrow> bool" where
  "set_ok ok sz xs \<longleftrightarrow> distinct xs \<and> length xs \<le> DEFAULT_MAX_ITEMS \<and>
     (\<forall>x \<in> set xs. ok x \<and> sz x = sz (hd xs))"

definition write_map :: "('k \<Rightarrow> writer \<Rightarrow> writer) \<Rightarrow> ('v \<Rightarrow> writer \<Rightarrow> writer) \<Rightarrow>
    ('k \<times> 'v) list \<Rightarrow> writer \<Rightarrow> writer" where
  "write_map wk wv m = writes [write_u16 (of_nat (length m)), fold (\<lambda>(k, v). writes [wk k, wv v]) m]"

definition read_map :: "'k rd \<Rightarrow> 'v rd \<Rightarrow> ('k \<times> 'v) list rd" where
  "read_map rk rv = rbind read_u16 (\<lambda>n. read_entries (unat n) rk rv [])"

definition size_map :: "('k \<Rightarrow> usize) \<Rightarrow> ('v \<Rightarrow> usize) \<Rightarrow> ('k \<times> 'v) list \<Rightarrow> usize" where
  "size_map sk sv m = 2 + sum_list (map (\<lambda>(k, v). sk k + sv v) m)"

definition map_ok :: "('k \<Rightarrow> bool) \<Rightarrow> ('v \<Rightarrow> bool) \<Rightarrow> ('k \<times> 'v) list \<Rightarrow> bool" where
  "map_ok ok_k ok_v m \<longleftrightarrow> distinct (map fst m) \<and> length m < 65536 \<and>
     (\<forall>(k, v) \<in> set m. ok_k k \<and> ok_v v)"

subsection \<open>Tuples, arrays and wrappers\<close>

definition write_pair :: "('a \<Rightarrow> writer \<Rightarrow> writer) \<Rightarrow> ('b \<Rightarrow> writer \<Rightarrow> writer) \<Rightarrow>
    'a \<times> 'b \<Rightarrow> writer \<Rightarrow> writer" where
  "write_pair wa wb = (\<lambda>(a, b). writes [wa a, wb b])"

definition read_pair :: "'a rd \<Rightarrow> 'b rd \<Rightarrow> ('a \<times> 'b) rd" where
  "read_pair ra rb = rbind ra (\<lambda>a. rbind rb (\<lambda>b. rreturn (a, b)))"

definition size_pair :: "('a \<Rightarrow> usize) \<Rightarrow> ('b \<Rightarrow> usize) \<Rightarrow> 'a \<times> 'b \<Rightarrow> usize" where
  "size_pair sa sb = (\<lambda>(a, b). sa a + sb b)"

definition write_triple :: "('a \<Rightarrow> writer \<Rightarrow> writer) \<Rightarrow> ('b \<Rightarrow> writer \<Rightarrow> writer) \<Rightarrow>
    ('c \<Rightarrow> writer \<Rightarrow> writer) \<Rightarrow> 'a \<times> 'b \<times> 'c \<Rightarrow> writer \<Rightarrow> writer" where
  "write_triple wa wb wc = (\<lambda>(a, b, c). writes [wa a, (writes [wb b, wc c])])"

definition read_triple :: "'a rd \<Rightarrow> 'b rd \<Rightarrow> 'c rd \<Rightarrow> ('a \<times> 'b \<times> 'c) rd" where
  "read_triple ra rb rc = rbind ra (\<lambda>a. rbind rb (\<lambda>b. rbind rc (\<lambda>c. rreturn (a, b, c))))"

definition size_triple :: "('a \<Rightarrow> usize) \<Rightarrow> ('b \<Rightarrow> usize) \<Rightarrow> ('c \<Rightarrow> usize) \<Rightarrow> 'a \<times> 'b \<times> 'c \<Rightarrow> usize" where
  "size_triple sa sb sc = (\<lambda>(a, b, c). sa a + sb b + sc c)"

text \<open>\<open>[u8; N]\<close> overrides \<open>from_bytes\<close>: the input must have exactly \<open>N\<close> bytes.\<close>

definition from_bytes_array :: "usize \<Rightarrow> u8 list \<Rightarrow> reader_error + u8 list" where
  "from_bytes_array n bs = (if length bs \<noteq> n then Inl InvalidSize else Inr bs)"

definition read_no_transform :: "u8 list rd" where
  "read_no_transform r = read_bytes Some (rsize r) r"

definition read_skip :: "usize \<Rightarrow> 'a rd \<Rightarrow> 'a rd" where
  "read_skip n rd = rbind (skip n) (\<lambda>_. rd)"

definition read_skip_if :: "usize \<Rightarrow> 'a rd \<Rightarrow> 'a rd" where
  "read_skip_if n rd = rbind read_bool (\<lambda>b.
     rbind (if b then skip n else rreturn ()) (\<lambda>_. rd))"

text \<open>
  \<open>HashSet<Hash>\<close>, used for the tips on disk: no length prefix, the whole buffer is
  hashes. The set is kept as the list of its elements in the order they arrived.
\<close>

definition write_tips :: "hash list \<Rightarrow> writer \<Rightarrow> writer" where
  "write_tips hs = fold write_hash hs"

definition read_tips :: "hash list rd" where
  "read_tips r =
     (if total_size r mod HASH_SIZE \<noteq> 0 then (Inl InvalidSize, r)
      else let count = total_size r div HASH_SIZE in
        rbind (read_times count read_hash) (\<lambda>hs.
          let tips = remdups hs in
          if length tips \<noteq> count then rfail InvalidSize else rreturn tips) r)"

definition size_tips :: "hash list \<Rightarrow> usize" where
  "size_tips hs = length hs * HASH_SIZE"

subsection \<open>Strings and network addresses\<close>

definition size_string :: "u8 list \<Rightarrow> usize" where
  "size_string s = 1 + min (length s) 255"

definition string_ok :: "(u8 list \<Rightarrow> bool) \<Rightarrow> u8 list \<Rightarrow> bool" where
  "string_ok utf8 s \<longleftrightarrow> utf8 s \<and> length s \<le> 255"

datatype ip_addr = V4 u8 u8 u8 u8 | V6 u16 u16 u16 u16 u16 u16 u16 u16

definition write_ip_addr :: "ip_addr \<Rightarrow> writer \<Rightarrow> writer" where
  "write_ip_addr ip = (case ip of
     V4 a b c d \<Rightarrow> writes [write_u8 0, write_bytes [a, b, c, d]]
   | V6 a b c d e f g h \<Rightarrow> writes [write_u8 1, write_bytes (concat (map to_be_bytes [a, b, c, d, e, f, g, h]))])"

definition read_ip_addr :: "ip_addr rd" where
  "read_ip_addr = rbind read_u8 (\<lambda>v.
     if v = 0 then
       rbind read_u8 (\<lambda>a. rbind read_u8 (\<lambda>b. rbind read_u8 (\<lambda>c. rbind read_u8 (\<lambda>d.
         rreturn (V4 a b c d)))))
     else if v = 1 then
       rbind read_u16 (\<lambda>a. rbind read_u16 (\<lambda>b. rbind read_u16 (\<lambda>c. rbind read_u16 (\<lambda>d.
       rbind read_u16 (\<lambda>e. rbind read_u16 (\<lambda>f. rbind read_u16 (\<lambda>g. rbind read_u16 (\<lambda>h.
         rreturn (V6 a b c d e f g h)))))))))
     else rfail InvalidValue)"

definition size_ip_addr :: "ip_addr \<Rightarrow> usize" where
  "size_ip_addr ip = (case ip of V4 _ _ _ _ \<Rightarrow> 1 + 4 | V6 _ _ _ _ _ _ _ _ \<Rightarrow> 1 + 16)"

record socket_addr =
  ip :: ip_addr
  port :: u16

definition write_socket_addr :: "socket_addr \<Rightarrow> writer \<Rightarrow> writer" where
  "write_socket_addr a = writes [write_ip_addr (ip a), write_u16 (port a)]"

definition read_socket_addr :: "socket_addr rd" where
  "read_socket_addr = rbind read_ip_addr (\<lambda>i. rbind read_u16 (\<lambda>p.
     rreturn \<lparr>ip = i, port = p\<rparr>))"

definition size_socket_addr :: "socket_addr \<Rightarrow> usize" where
  "size_socket_addr a = (case ip a of
     V4 _ _ _ _ \<Rightarrow> 1 + 4 + 2 | V6 _ _ _ _ _ _ _ _ \<Rightarrow> 1 + 16 + 2)"

section \<open>The generic implementations keep the contract\<close>

lemma unat_of_nat_u16: "n < 65536 \<Longrightarrow> unat (of_nat n :: u16) = n"
  by (simp add: unat_of_nat)

lemma unat_of_nat_u8: "n < 256 \<Longrightarrow> unat (of_nat n :: u8) = n"
  by (simp add: unat_of_nat)

lemma count_within_limit:
  "n \<le> DEFAULT_MAX_ITEMS \<Longrightarrow> \<not> (of_nat DEFAULT_MAX_ITEMS :: u16) < of_nat n"
  by (simp add: word_less_nat_alt unat_of_nat DEFAULT_MAX_ITEMS_def)

lemma unat_within_limit:
  "\<not> (of_nat DEFAULT_MAX_ITEMS :: u16) < c \<Longrightarrow> unat c \<le> DEFAULT_MAX_ITEMS"
  by (simp add: word_less_nat_alt unat_of_nat DEFAULT_MAX_ITEMS_def)

lemma reader_safe_let_if [codec_intros]:
  "(\<And>a b. reader_safe (f a b)) \<Longrightarrow> reader_safe (case p of (a, b) \<Rightarrow> f a b)"
  by (simp split: prod.splits)

context serializer
begin

lemma option_append: "append_only (write_option wr opt)"
  by (cases opt) (simp_all add: write_option_def codec_simps write_append)

lemma to_bytes_option:
  "to_bytes (write_option wr opt) = (case opt of None \<Rightarrow> [0] | Some v \<Rightarrow> 1 # to_bytes (wr v))"
  by (cases opt) (simp_all add: write_option_def codec_simps write_append)

lemma reads_option:
  assumes "option_ok ok opt"
  shows "reads (read_option rd) opt (to_bytes (write_option wr opt))"
proof (cases opt)
  case None
  have "reads (read_option rd) None [if False then 1 else 0]"
    unfolding read_option_def
    by (rule reads_bind_tail [OF reads_read_bool]) (simp add: reads_return)
  with None show ?thesis by (simp add: to_bytes_option)
next
  case (Some v)
  have "reads (read_option rd) (Some v) ([if True then 1 else 0] @ to_bytes (wr v))"
    unfolding read_option_def using assms Some
    by (intro reads_bind [OF reads_read_bool]) (auto simp: option_ok_def intro!: reads_bind_return read_write)
  with Some show ?thesis by (simp add: to_bytes_option)
qed

lemma option: "serializer (write_option wr) (read_option rd) (size_option sz) (option_ok ok)"
proof (rule serializer_intro)
  fix opt assume "option_ok ok opt"
  then show "size_option sz opt = length (to_bytes (write_option wr opt))"
    by (cases opt) (simp_all add: size_option_def option_ok_def to_bytes_option size_write)
next
  show "reader_safe (read_option rd)"
    unfolding read_option_def by (intro codec_intros read_safe)
qed (simp_all add: option_append reads_option)

lemma reads_times:
  "\<forall>x \<in> set xs. ok x \<Longrightarrow> reads (read_times (length xs) rd) xs (concat (map (\<lambda>x. to_bytes (wr x)) xs))"
  by (induction xs) (auto intro!: reads_return reads_bind [OF read_write] reads_bind_return)

lemma safe_times: "reader_safe (read_times n rd)"
  by (induction n) (auto intro!: codec_intros read_safe)

lemma reads_unique:
  "\<forall>x \<in> set xs. ok x \<Longrightarrow> distinct (acc @ xs) \<Longrightarrow>
   reads (read_unique err (length xs) rd acc) (acc @ xs) (concat (map (\<lambda>x. to_bytes (wr x)) xs))"
proof (induction xs arbitrary: acc)
  case (Cons x xs)
  then show ?case
    using Cons.IH [of "acc @ [x]"]
    by (auto simp: index_insert_def intro!: reads_bind [OF read_write])
qed (simp add: reads_return)

lemma safe_unique: "reader_safe (read_unique err n rd acc)"
  by (induction n arbitrary: acc) (auto intro!: codec_intros read_safe split: prod.splits)

lemma size_elements:
  "\<forall>x \<in> set xs. ok x \<Longrightarrow> sum_list (map sz xs) = length (concat (map (\<lambda>x. to_bytes (wr x)) xs))"
  by (induction xs) (simp_all add: size_write)

lemma fold_append: "append_only (fold wr xs)"
  by (rule append_only_fold) (rule write_append)

lemma to_bytes_elements: "to_bytes (fold wr xs) = concat (map (\<lambda>x. to_bytes (wr x)) xs)"
  by (rule to_bytes_fold) (rule write_append)

lemma to_bytes_vec:
  "to_bytes (write_vec wr xs) = to_be_bytes (of_nat (length xs) :: u16) @ concat (map (\<lambda>x. to_bytes (wr x)) xs)"
  by (simp add: write_vec_def codec_simps fold_append to_bytes_elements)

lemma vec: "serializer (write_vec wr) (read_vec rd) (size_vec sz) (vec_ok ok)"
proof (rule serializer_intro)
  fix xs assume ok: "vec_ok ok xs"
  then have n: "length xs < 65536" by (simp add: vec_ok_def DEFAULT_MAX_ITEMS_def)
  show "reads (read_vec rd) xs (to_bytes (write_vec wr xs))"
    unfolding read_vec_def to_bytes_vec
    using ok by (intro reads_bind [OF reads_read_u16])
      (simp add: vec_ok_def count_within_limit unat_of_nat_u16 [OF n] reads_times)
  show "size_vec sz xs = length (to_bytes (write_vec wr xs))"
    using ok by (simp add: size_vec_def to_bytes_vec vec_ok_def size_elements)
next
  show "append_only (write_vec wr xs)" for xs
    by (simp add: write_vec_def codec_simps fold_append)
  show "reader_safe (read_vec rd)"
    unfolding read_vec_def by (intro codec_intros safe_times)
qed

lemma to_bytes_set:
  "to_bytes (write_set wr xs) = to_be_bytes (of_nat (length xs) :: u16) @ concat (map (\<lambda>x. to_bytes (wr x)) xs)"
  by (simp add: write_set_def codec_simps fold_append to_bytes_elements)

lemma size_set_eq:
  assumes "set_ok ok sz xs"
  shows "size_set sz xs = length (to_bytes (write_set wr xs))"
proof -
  have "sum_list (map sz xs) = length xs * sz (hd xs)"
    using assms by (intro sum_list_const_map) (simp add: set_ok_def)
  then show ?thesis
    using assms size_elements [of xs]
    by (cases xs) (auto simp: size_set_def to_bytes_set set_ok_def)
qed

lemma index_set: "serializer (write_set wr) (read_index_set rd) (size_set sz) (set_ok ok sz)"
proof (rule serializer_intro)
  fix xs assume ok: "set_ok ok sz xs"
  then have n: "length xs < 65536" by (simp add: set_ok_def DEFAULT_MAX_ITEMS_def)
  show "reads (read_index_set rd) xs (to_bytes (write_set wr xs))"
    unfolding read_index_set_def to_bytes_set
    using ok reads_unique [of xs "[]" InvalidSize] by (intro reads_bind [OF reads_read_u16])
      (simp add: set_ok_def count_within_limit unat_of_nat_u16 [OF n])
  show "size_set sz xs = length (to_bytes (write_set wr xs))"
    by (rule size_set_eq) (rule ok)
next
  show "append_only (write_set wr xs)" for xs
    by (simp add: write_set_def codec_simps fold_append)
  show "reader_safe (read_index_set rd)"
    unfolding read_index_set_def by (intro codec_intros safe_unique)
qed

lemma skip_reads:
  "ok x \<Longrightarrow> reads (read_skip (length junk) rd) x (junk @ to_bytes (wr x))"
  unfolding read_skip_def
  by (rule reads_bind [OF _ read_write, where x = "()"])
    (auto simp: reads_def skip_def rsize_remaining advance_def)

end

context strict_serializer
begin

lemma strict_option:
  "strict_serializer (write_option wr) (read_option rd) (size_option sz) (option_ok ok)"
proof (rule strict_intro [OF option])
  have "accepts (rbind rd (\<lambda>v. rreturn (Some v)))
      (\<lambda>opt bs. option_ok ok opt \<and> 1 # bs = to_bytes (write_option wr opt))"
    by (rule accepts_bind [OF read_strict accepts_return, where Q = "\<lambda>v opt bs. bs = [] \<and> opt = Some v"])
      (auto simp: option_ok_def to_bytes_option)
  then show "accepts (read_option rd) (\<lambda>opt bs. option_ok ok opt \<and> bs = to_bytes (write_option wr opt))"
    unfolding read_option_def
    by (intro accepts_bind [OF accepts_read_bool, where
          Q = "\<lambda>b opt bs. option_ok ok opt \<and> (if b then 1 else 0) # bs = to_bytes (write_option wr opt)"])
      (auto intro!: accepts_return simp: option_ok_def to_bytes_option)
qed

lemma accepts_times:
  "accepts (read_times n rd) (\<lambda>xs bs. length xs = n \<and> (\<forall>x \<in> set xs. ok x) \<and>
     bs = concat (map (\<lambda>x. to_bytes (wr x)) xs))"
proof (induction n)
  case (Suc n)
  have "accepts (rbind (read_times n rd) (\<lambda>xs. rreturn (x # xs)))
      (\<lambda>ys bs. \<exists>xs. ys = x # xs \<and> length xs = n \<and> (\<forall>x \<in> set xs. ok x) \<and>
        bs = concat (map (\<lambda>x. to_bytes (wr x)) xs))" for x
    by (rule accepts_bind [OF Suc accepts_return, where Q = "\<lambda>xs ys bs. bs = [] \<and> ys = x # xs"]) auto
  then show ?case
    unfolding read_times.simps by (rule accepts_bind [OF read_strict]) auto
qed (simp add: accepts_return)

lemma accepts_unique:
  "distinct acc \<Longrightarrow> accepts (read_unique err n rd acc) (\<lambda>ys bs. \<exists>xs. ys = acc @ xs \<and> distinct ys \<and>
     length xs = n \<and> (\<forall>x \<in> set xs. ok x) \<and> bs = concat (map (\<lambda>x. to_bytes (wr x)) xs))"
proof (induction n arbitrary: acc)
  case (Suc n)
  have "accepts (if x \<in> set acc then rfail err else read_unique err n rd (acc @ [x]))
    (\<lambda>ys bs. \<exists>xs. ys = acc @ x # xs \<and> distinct ys \<and> length xs = n \<and> (\<forall>x \<in> set xs. ok x) \<and>
      bs = concat (map (\<lambda>x. to_bytes (wr x)) xs))" for x
    using Suc.IH [of "acc @ [x]"] Suc.prems by (auto intro: accepts_fail)
  then have "accepts (rbind rd (\<lambda>x. if x \<in> set acc then rfail err else read_unique err n rd (acc @ [x])))
    (\<lambda>ys bs. \<exists>xs. ys = acc @ xs \<and> distinct ys \<and> length xs = Suc n \<and> (\<forall>x \<in> set xs. ok x) \<and>
      bs = concat (map (\<lambda>x. to_bytes (wr x)) xs))"
  proof (rule accepts_bind [OF read_strict])
    fix x ys bs cs
    assume x: "ok x \<and> bs = to_bytes (wr x)"
      and "\<exists>xs. ys = acc @ x # xs \<and> distinct ys \<and> length xs = n \<and> (\<forall>x \<in> set xs. ok x) \<and>
        cs = concat (map (\<lambda>x. to_bytes (wr x)) xs)"
    then obtain xs where "ys = acc @ x # xs" "distinct ys" "length xs = n" "\<forall>x \<in> set xs. ok x"
      "cs = concat (map (\<lambda>x. to_bytes (wr x)) xs)" by blast
    with x show "\<exists>xs. ys = acc @ xs \<and> distinct ys \<and> length xs = Suc n \<and> (\<forall>x \<in> set xs. ok x) \<and>
        bs @ cs = concat (map (\<lambda>x. to_bytes (wr x)) xs)"
      by (intro exI [of _ "x # xs"]) simp
  qed
  moreover have "read_unique err (Suc n) rd acc =
      rbind rd (\<lambda>x. if x \<in> set acc then rfail err else read_unique err n rd (acc @ [x]))"
    by (auto simp: index_insert_def intro!: arg_cong [where f = "rbind rd"])
  ultimately show ?case by simp
qed (simp add: accepts_return)

lemma strict_vec: "strict_serializer (write_vec wr) (read_vec rd) (size_vec sz) (vec_ok ok)"
proof (rule strict_intro [OF vec])
  have "accepts (if c > of_nat DEFAULT_MAX_ITEMS then rfail InvalidSize else read_times (unat c) rd)
     (\<lambda>xs bs. c = of_nat (length xs) \<and> vec_ok ok xs \<and> bs = concat (map (\<lambda>x. to_bytes (wr x)) xs))" for c :: u16
    using unat_within_limit [of c]
    by (auto simp: vec_ok_def intro!: accepts_fail accepts_mono [OF accepts_times])
  then show "accepts (read_vec rd) (\<lambda>xs bs. vec_ok ok xs \<and> bs = to_bytes (write_vec wr xs))"
    unfolding read_vec_def
    by (rule accepts_bind [OF accepts_read_ints(1)]) (simp add: to_bytes_vec)
qed

end

subsection \<open>Two element types: pairs and maps\<close>

locale serializer2 = fst: serializer wa ra sa oka + snd: serializer wb rb sb okb
  for wa :: "'a \<Rightarrow> writer \<Rightarrow> writer" and ra :: "'a rd" and sa :: "'a \<Rightarrow> usize" and oka :: "'a \<Rightarrow> bool"
    and wb :: "'b \<Rightarrow> writer \<Rightarrow> writer" and rb :: "'b rd" and sb :: "'b \<Rightarrow> usize" and okb :: "'b \<Rightarrow> bool"
begin

lemmas appends = fst.write_append snd.write_append

lemma pair: "serializer (write_pair wa wb) (read_pair ra rb) (size_pair sa sb) (\<lambda>(a, b). oka a \<and> okb b)"
proof (rule serializer_intro)
  show "append_only (write_pair wa wb p)" for p
    by (simp add: write_pair_def codec_simps appends split: prod.splits)
  show "reader_safe (read_pair ra rb)"
    unfolding read_pair_def by (intro codec_intros fst.read_safe snd.read_safe)
  fix p assume ok: "case p of (a, b) \<Rightarrow> oka a \<and> okb b"
  show "reads (read_pair ra rb) p (to_bytes (write_pair wa wb p))"
    unfolding read_pair_def using ok
    by (auto simp: write_pair_def codec_simps appends
        intro!: reads_bind [OF fst.read_write] reads_bind_return snd.read_write)
  show "size_pair sa sb p = length (to_bytes (write_pair wa wb p))"
    using ok by (auto simp: size_pair_def write_pair_def codec_simps appends fst.size_write snd.size_write)
qed

lemma to_bytes_entries:
  "to_bytes (fold (\<lambda>(k, v). fcomp (wa k) (wb v)) m) = concat (map (\<lambda>(k, v). to_bytes (wa k) @ to_bytes (wb v)) m)"
  by (subst to_bytes_fold) (auto simp: codec_simps appends intro!: arg_cong [where f = concat])

lemma to_bytes_map:
  "to_bytes (write_map wa wb m) = to_be_bytes (of_nat (length m) :: u16) @
     concat (map (\<lambda>(k, v). to_bytes (wa k) @ to_bytes (wb v)) m)"
proof -
  have "append_only (fold (\<lambda>(k, v). fcomp (wa k) (wb v)) m)"
    by (rule append_only_fold) (auto simp: codec_simps appends)
  then show ?thesis by (simp add: write_map_def codec_simps to_bytes_entries)
qed

lemma reads_entries:
  "\<forall>(k, v) \<in> set m. oka k \<and> okb v \<Longrightarrow> distinct (map fst (acc @ m)) \<Longrightarrow>
   reads (read_entries (length m) ra rb acc) (acc @ m)
     (concat (map (\<lambda>(k, v). to_bytes (wa k) @ to_bytes (wb v)) m))"
proof (induction m arbitrary: acc)
  case (Cons e m)
  obtain k v where e: "e = (k, v)" by force
  have "map_insert k v acc = acc @ [(k, v)]"
    using Cons.prems(2) e by (intro map_insert_new) auto
  then have "reads (read_entries (length m) ra rb (map_insert k v acc)) (acc @ e # m)
      (concat (map (\<lambda>(k, v). to_bytes (wa k) @ to_bytes (wb v)) m))"
    using Cons.IH [of "acc @ [(k, v)]"] Cons.prems e by simp
  then show ?case
    using Cons.prems(1) e by (auto intro!: reads_bind [OF fst.read_write] reads_bind [OF snd.read_write])
qed (simp add: reads_return)

lemma safe_entries: "reader_safe (read_entries n ra rb m)"
  by (induction n arbitrary: m) (auto intro!: codec_intros fst.read_safe snd.read_safe)

lemma map: "serializer (write_map wa wb) (read_map ra rb) (size_map sa sb) (map_ok oka okb)"
proof (rule serializer_intro)
  show "append_only (write_map wa wb m)" for m
    unfolding write_map_def writes.simps
    by (intro append_only_comp append_only_fold) (auto simp: codec_simps appends)
  show "reader_safe (read_map ra rb)"
    unfolding read_map_def by (intro codec_intros safe_entries)
  fix m assume ok: "map_ok oka okb m"
  then have n: "length m < 65536" by (simp add: map_ok_def)
  show "reads (read_map ra rb) m (to_bytes (write_map wa wb m))"
    unfolding read_map_def to_bytes_map
    using ok reads_entries [of m "[]"]
    by (intro reads_bind [OF reads_read_u16]) (simp add: map_ok_def unat_of_nat_u16 [OF n])
  have "sum_list (map (\<lambda>(k, v). sa k + sb v) m) =
      length (concat (map (\<lambda>(k, v). to_bytes (wa k) @ to_bytes (wb v)) m))"
    using ok unfolding map_ok_def by (induction m) (auto simp: fst.size_write snd.size_write)
  then show "size_map sa sb m = length (to_bytes (write_map wa wb m))"
    by (simp add: size_map_def to_bytes_map)
qed

end

subsection \<open>Instances\<close>

lemma serializer2I: "serializer wa ra sa oka \<Longrightarrow> serializer wb rb sb okb \<Longrightarrow>
    serializer2 wa ra sa oka wb rb sb okb"
  by (rule serializer2.intro)

lemma accepts_wrap:
  assumes "accepts m P" and "\<And>x bs. P x bs \<Longrightarrow> Q (f x) bs"
  shows "accepts (rbind m (\<lambda>x. rreturn (f x))) Q"
  by (rule accepts_bind [OF assms(1) accepts_return, where Q = "\<lambda>x y bs. y = f x \<and> bs = []"])
    (auto simp: assms(2))

interpretation hash: strict_serializer write_hash read_hash size_hash hash_ok
proof
  show "accepts read_hash (\<lambda>x bs. hash_ok x \<and> bs = to_bytes (write_hash x))"
    unfolding read_hash_def read_bytes_32_def
    by (rule accepts_wrap [OF accepts_read_array])
      (simp add: hash_ok_def HASH_SIZE_def write_hash_def codec_simps)
qed (auto simp: write_hash_def read_hash_def read_bytes_32_def size_hash_def hash_ok_def HASH_SIZE_def
    codec_simps intro!: codec_intros)

interpretation point: strict_serializer write_point read_point size_point point_ok
proof
  show "accepts read_point (\<lambda>x bs. point_ok x \<and> bs = to_bytes (write_point x))"
    unfolding read_point_def
    by (rule accepts_bind [OF accepts_read_bytes_ref, where Q = "\<lambda>x y bs. y = x \<and> bs = []"])
      (auto simp: point_ok_def RISTRETTO_COMPRESSED_SIZE_def write_point_def codec_simps
        intro: accepts_return accepts_fail)
next
  show "reads read_point p (to_bytes (write_point p))" if "point_ok p" for p
    unfolding read_point_def using that
    by (intro reads_bind_tail [OF reads_read_bytes_ref])
      (auto simp: point_ok_def RISTRETTO_COMPRESSED_SIZE_def write_point_def codec_simps reads_return)
qed (auto simp: write_point_def read_point_def size_point_def point_ok_def codec_simps
    intro!: codec_intros)

interpretation public_key: strict_serializer write_public_key read_public_key size_public_key public_key_ok
proof
  show "accepts read_public_key (\<lambda>x bs. public_key_ok x \<and> bs = to_bytes (write_public_key x))"
    unfolding read_public_key_def
    by (rule accepts_wrap [OF point.read_strict]) (simp add: public_key_ok_def write_public_key_def)
qed (auto simp: write_public_key_def read_public_key_def size_public_key_def public_key_ok_def
    point.write_append point.size_write intro!: codec_intros point.read_write point.read_safe)

interpretation ciphertext: strict_serializer write_compressed_ciphertext read_compressed_ciphertext
  size_compressed_ciphertext ciphertext_ok
proof
  show "accepts read_compressed_ciphertext (\<lambda>x bs. ciphertext_ok x \<and> bs = to_bytes (write_compressed_ciphertext x))"
    unfolding read_compressed_ciphertext_def
    by (intro accepts_bindI [OF point.read_strict] accepts_return)
      (auto simp: ciphertext_ok_def write_compressed_ciphertext_def codec_simps point.write_append)
qed (auto simp: write_compressed_ciphertext_def read_compressed_ciphertext_def size_compressed_ciphertext_def
    ciphertext_ok_def codec_simps point.write_append point.size_write
    intro!: codec_intros reads_bind [OF point.read_write] point.read_write point.read_safe)

interpretation option_u64: strict_serializer "write_option write_u64" "read_option read_u64"
  "size_option (\<lambda>_. 8)" "option_ok (\<lambda>_. True)"
  by (rule u64.strict_option)

interpretation option_ciphertext: strict_serializer "write_option write_compressed_ciphertext"
  "read_option read_compressed_ciphertext" "size_option size_compressed_ciphertext" "option_ok ciphertext_ok"
  by (rule ciphertext.strict_option)

interpretation hash_vec: strict_serializer "write_vec write_hash" "read_vec read_hash"
  "size_vec size_hash" "vec_ok hash_ok"
  by (rule hash.strict_vec)

interpretation hash_set: serializer "write_set write_hash" "read_index_set read_hash"
  "size_set size_hash" "set_ok hash_ok size_hash"
  by (rule hash.index_set)

interpretation hash_u64: serializer2 write_hash read_hash size_hash hash_ok
  write_u64 read_u64 "\<lambda>_. 8" "\<lambda>_. True"
  by (rule serializer2I; unfold_locales)

interpretation hash_u64_map: serializer "write_map write_hash write_u64" "read_map read_hash read_u64"
  "size_map size_hash (\<lambda>_. 8)" "map_ok hash_ok (\<lambda>_. True)"
  by (rule hash_u64.map)

subsection \<open>Ordered sets, tips, strings and addresses\<close>

lemma reads_btree:
  fixes rd :: "'a::linorder rd"
  assumes "serializer wr rd sz ok"
  shows "\<forall>x \<in> set xs. ok x \<Longrightarrow> sorted_wrt (<) (acc @ xs) \<Longrightarrow>
    reads (read_btree (length xs) rd acc) (acc @ xs) (concat (map (\<lambda>x. to_bytes (wr x)) xs))"
proof (induction xs arbitrary: acc)
  case (Cons x xs)
  then have "x \<notin> set acc" and "insort x acc = acc @ [x]"
    by (auto simp: sorted_wrt_append intro!: sorted_insort_is_snoc strict_sorted_imp_sorted)
  then show ?case
    using Cons.IH [of "acc @ [x]"] Cons.prems
    by (auto intro!: reads_bind [OF serializer.read_write [OF assms]])
qed (simp add: reads_return)

lemma btree_set_serializer:
  fixes rd :: "'a::linorder rd"
  assumes "serializer wr rd sz ok"
  shows "serializer (write_set wr) (read_btree_set rd) (size_set sz)
    (\<lambda>xs. set_ok ok sz xs \<and> sorted_wrt (<) xs)"
proof (rule serializer_intro)
  show "append_only (write_set wr xs)" for xs
    using serializer.index_set [OF assms] by (rule serializer.write_append)
  have "reader_safe (read_btree n rd acc)" for n acc
    by (induction n arbitrary: acc) (auto intro!: codec_intros serializer.read_safe [OF assms])
  then show "reader_safe (read_btree_set rd)"
    unfolding read_btree_set_def by (intro codec_intros)
  fix xs assume ok: "set_ok ok sz xs \<and> sorted_wrt (<) xs"
  then have n: "length xs < 65536" by (simp add: set_ok_def DEFAULT_MAX_ITEMS_def)
  show "reads (read_btree_set rd) xs (to_bytes (write_set wr xs))"
    unfolding read_btree_set_def serializer.to_bytes_set [OF assms]
    using ok reads_btree [OF assms, of xs "[]"]
    by (intro reads_bind [OF reads_read_u16])
      (simp add: set_ok_def count_within_limit unat_of_nat_u16 [OF n])
  show "size_set sz xs = length (to_bytes (write_set wr xs))"
    using ok serializer.size_set_eq [OF assms] by blast
qed

lemma to_bytes_tips: "to_bytes (write_tips hs) = concat (map as_bytes hs)"
  unfolding write_tips_def hash.to_bytes_elements by (simp add: write_hash_def codec_simps)

lemma tips_from_to_bytes:
  assumes "distinct hs" and ok: "\<forall>h \<in> set hs. hash_ok h"
  shows "from_bytes read_tips (to_bytes (write_tips hs)) = Inr hs"
proof -
  let ?bs = "to_bytes (write_tips hs)"
  have len: "length ?bs = length hs * HASH_SIZE"
    unfolding to_bytes_tips using ok by (intro length_concat_const) (simp add: hash_ok_def)
  then have n: "length ?bs div HASH_SIZE = length hs" "length ?bs mod HASH_SIZE = 0"
    by (simp_all add: HASH_SIZE_def)
  have "reads (read_times (length hs) read_hash) hs ?bs"
    using hash.reads_times [OF ok] by (simp add: write_tips_def hash.to_bytes_elements)
  then have "read_times (length hs) read_hash (reader_new ?bs) = (Inr hs, advance (length ?bs) (reader_new ?bs))"
    by (rule reads_apply [where rest = "[]"]) simp_all
  then show ?thesis
    using assms(1) n
    by (simp add: from_bytes_def read_tips_def total_size_def reader_new_def rbind_def rreturn_def Let_def
        distinct_remdups_id)
qed

interpretation string: serializer write_string "read_string utf8" size_string "string_ok utf8" for utf8
  by unfold_locales
    (auto simp: codec_simps string_ok_def size_string_def reads_read_string intro!: codec_intros)

lemma to_bytes_ip_addr:
  "to_bytes (write_ip_addr (V4 a b c d)) = [0, a, b, c, d]"
  "to_bytes (write_ip_addr (V6 a2 b2 c2 d2 e2 f2 g2 h2)) =
     1 # concat (map to_be_bytes [a2, b2, c2, d2, e2, f2, g2, h2])"
  by (simp_all add: write_ip_addr_def codec_simps)

lemma reads_ip_addr: "reads read_ip_addr i (to_bytes (write_ip_addr i))"
proof (cases i)
  case (V4 a b c d)
  have "reads read_ip_addr i ([0] @ [a] @ [b] @ [c] @ [d])"
    unfolding read_ip_addr_def V4
    by (rule reads_bind [OF reads_read_u8]) (simp only: simp_thms if_True,
        (rule reads_bind [OF reads_read_u8])+, rule reads_bind_return [OF reads_read_u8], rule refl)
  then show ?thesis by (simp add: V4 to_bytes_ip_addr)
next
  case (V6 a b c d e f g h)
  have "reads read_ip_addr i ([1] @ to_be_bytes a @ to_be_bytes b @ to_be_bytes c @ to_be_bytes d @
      to_be_bytes e @ to_be_bytes f @ to_be_bytes g @ to_be_bytes h)"
    unfolding read_ip_addr_def V6
    by (rule reads_bind [OF reads_read_u8]) (simp only: one_neq_zero simp_thms if_True if_False,
        (rule reads_bind [OF reads_read_u16])+, rule reads_bind_return [OF reads_read_u16], rule refl)
  then show ?thesis by (simp add: V6 to_bytes_ip_addr)
qed

interpretation ip_addr: serializer write_ip_addr read_ip_addr size_ip_addr "\<lambda>_. True"
proof
  show "append_only (write_ip_addr i)" for i
    by (cases i) (simp_all add: write_ip_addr_def codec_simps)
  show "size_ip_addr i = length (to_bytes (write_ip_addr i))" for i
    by (cases i) (simp_all add: size_ip_addr_def to_bytes_ip_addr)
  show "reader_safe read_ip_addr"
    unfolding read_ip_addr_def by (intro codec_intros)
qed (rule reads_ip_addr)

interpretation socket_addr: serializer write_socket_addr read_socket_addr size_socket_addr "\<lambda>_. True"
proof
  show "size_socket_addr a = length (to_bytes (write_socket_addr a))" for a
    by (cases "ip a") (simp_all add: size_socket_addr_def write_socket_addr_def codec_simps
        ip_addr.write_append to_bytes_ip_addr)
qed (auto simp: write_socket_addr_def read_socket_addr_def codec_simps ip_addr.write_append
    intro!: codec_intros reads_bind [OF ip_addr.read_write] ip_addr.read_safe)

section \<open>Properties\<close>

text \<open>
  The wire format of lists is exact. Whatever the element type, as long as it
  parses exactly what it prints, \<open>Vec::from_bytes\<close> returns \<open>xs\<close> on a buffer precisely
  when \<open>xs\<close> has at most 1024 encodable elements and the buffer starts with the bytes
  \<open>Vec::write\<close> produces; so no buffer longer than the limit and no second encoding of
  the same list is accepted.
\<close>

theorem vec_wire_format_exact:
  assumes "strict_serializer wr rd sz ok"
  shows "from_bytes (read_vec rd) bs = Inr xs \<longleftrightarrow>
    vec_ok ok xs \<and> (\<exists>rest. bs = to_bytes (write_vec wr xs) @ rest)"
  by (rule strict_serializer.from_bytes_iff [OF strict_serializer.strict_vec [OF assms]])

theorem vec_wire_format_exact_witness:
  "from_bytes (read_vec read_u8) [0, 2, 7, 9, 1] = Inr [7, 9] \<longleftrightarrow>
    vec_ok (\<lambda>_. True) [7, 9 :: u8] \<and> (\<exists>rest. [0, 2, 7, 9, 1] = to_bytes (write_vec write_u8 [7, 9]) @ rest)"
  by (rule vec_wire_format_exact) (rule u8.strict_serializer_axioms)

text \<open>
  A string survives \<open>write_string\<close> followed by \<open>read_string\<close> exactly when it has
  at most 255 bytes. A longer one is written with its length modulo 256 and cut to 255
  bytes, so what is read back is another string or an error.
\<close>

theorem string_roundtrip_iff:
  assumes "utf8 s"
  shows "from_bytes (read_string utf8) (to_bytes (write_string s)) = Inr s \<longleftrightarrow> length s \<le> 255"
proof
  assume "length s \<le> 255"
  then show "from_bytes (read_string utf8) (to_bytes (write_string s)) = Inr s"
    using assms by (intro string.from_to_bytes) (simp add: string_ok_def)
next
  assume eq: "from_bytes (read_string utf8) (to_bytes (write_string s)) = Inr s"
  obtain r' where "read_string utf8 (reader_new (to_bytes (write_string s))) = (Inr s, r')"
    using eq unfolding from_bytes_def by (metis prod.collapse)
  moreover have "accepts (read_string utf8) (\<lambda>t bs. length t < 256)"
    unfolding read_string_def read_string_with_size_def
    by (intro accepts_bindI [OF accepts_read_u8] accepts_bindI [OF accepts_read_bytes] accepts_if
        accepts_return accepts_fail) (auto simp: unat_byte_less)
  ultimately show "length s \<le> 255"
    unfolding accepts_def by (fastforce dest: spec [of _ "reader_new (to_bytes (write_string s))"])
qed

theorem string_roundtrip_iff_witness:
  "from_bytes (read_string (\<lambda>_. True)) (to_bytes (write_string [72, 105])) = Inr [72, 105] \<longleftrightarrow>
    length [72, 105 :: u8] \<le> 255"
  by (rule string_roundtrip_iff) simp

end
