(* ===== verification/VarUint.thy ===== *)
theory VarUint
  imports Codecs
begin

text \<open>
  The variable-length 256-bit integer of \<open>common/src/varuint.rs\<close> and the
  proof-of-work comparison of \<open>common/src/difficulty.rs\<close>. A \<open>VarUint\<close> wraps a
  \<open>U256\<close>; the model is the 256-bit word itself. \<open>U256\<close> documents that \<open>+\<close>, \<open>-\<close>
  and \<open>*\<close> panic on overflow, that \<open>/\<close> and \<open>%\<close> panic on a zero divisor and that
  the narrowing \<open>as_u64\<close>, \<open>as_u128\<close> panic on a value that does not fit: a
  panic is the value \<open>None\<close>. Shifts drop the bits they push out.
\<close>

section \<open>Construction and conversion\<close>

type_synonym var_uint = u256

definition MAX_VARUINT_SIZE :: usize where "MAX_VARUINT_SIZE = 32"

text \<open>The words of a \<open>U256\<close>, least significant first.\<close>

definition u256_of_limbs :: "u64 list \<Rightarrow> u256" where
  "u256_of_limbs ls = foldr (\<lambda>l acc. ucast l + push_bit 64 acc) ls 0"

definition varuint_from_u64 :: "u64 \<Rightarrow> var_uint" where
  "varuint_from_u64 u = u256_of_limbs [u, 0, 0, 0]"

definition varuint_from_u128 :: "u128 \<Rightarrow> var_uint" where
  "varuint_from_u128 u = (let a = ucast (and u 0xFFFFFFFFFFFFFFFF);
     b = ucast (drop_bit 64 u) in u256_of_limbs [a, b, 0, 0])"

definition varuint_zero :: var_uint where "varuint_zero = 0"

definition varuint_one :: var_uint where "varuint_one = 1"

definition varuint_as_u64 :: "var_uint \<Rightarrow> u64 option" where
  "varuint_as_u64 c = (if unat c < 2 ^ 64 then Some (ucast c) else None)"

definition varuint_as_u128 :: "var_uint \<Rightarrow> u128 option" where
  "varuint_as_u128 c = (if unat c < 2 ^ 128 then Some (ucast c) else None)"

section \<open>Arithmetic\<close>

definition varuint_add :: "var_uint \<Rightarrow> var_uint \<Rightarrow> var_uint option" where
  "varuint_add a b = (if unat a + unat b < 2 ^ 256 then Some (a + b) else None)"

definition varuint_sub :: "var_uint \<Rightarrow> var_uint \<Rightarrow> var_uint option" where
  "varuint_sub a b = (if b \<le> a then Some (a - b) else None)"

definition varuint_mul :: "var_uint \<Rightarrow> var_uint \<Rightarrow> var_uint option" where
  "varuint_mul a b = (if unat a * unat b < 2 ^ 256 then Some (a * b) else None)"

definition varuint_mul_u64 :: "var_uint \<Rightarrow> u64 \<Rightarrow> var_uint option" where
  "varuint_mul_u64 a b = varuint_mul a (ucast b)"

definition varuint_div :: "var_uint \<Rightarrow> var_uint \<Rightarrow> var_uint option" where
  "varuint_div a b = (if b = 0 then None else Some (a div b))"

definition varuint_div_u64 :: "var_uint \<Rightarrow> u64 \<Rightarrow> var_uint option" where
  "varuint_div_u64 a b = varuint_div a (ucast b)"

definition varuint_rem :: "var_uint \<Rightarrow> var_uint \<Rightarrow> var_uint option" where
  "varuint_rem a b = (if b = 0 then None else Some (a mod b))"

definition varuint_shl :: "var_uint \<Rightarrow> u64 \<Rightarrow> var_uint" where
  "varuint_shl a n = push_bit (unat n) a"

definition varuint_shr :: "var_uint \<Rightarrow> u64 \<Rightarrow> var_uint" where
  "varuint_shr a n = drop_bit (unat n) a"

section \<open>Wire format\<close>

fun varuint_len :: "u8 list \<Rightarrow> usize \<Rightarrow> usize" where
  "varuint_len buffer 0 = 0"
| "varuint_len buffer (Suc n) = (if buffer ! n = 0 then varuint_len buffer n else Suc n)"

definition write_varuint :: "var_uint \<Rightarrow> writer \<Rightarrow> writer" where
  "write_varuint v = (let buffer = to_be_bytes v; len = varuint_len buffer (length buffer) in
     writes [write_u8 (of_nat len), (if len > 0 then write_bytes (take len buffer) else id)])"

definition read_varuint :: "var_uint rd" where
  "read_varuint = rbind read_u8 (\<lambda>l. let len = unat l in
     if len > MAX_VARUINT_SIZE then rfail InvalidSize
     else if len = 0 then rreturn varuint_zero
     else rbind (read_bytes_ref len)
       (\<lambda>bs. rreturn (from_be_bytes (bs @ replicate (32 - len) 0))))"

section \<open>Proof of work\<close>

type_synonym difficulty = var_uint
type_synonym cumulative_difficulty = var_uint

datatype difficulty_error = DifficultyCannotBeZero | ErrorOnConversionBigUint

definition compute_difficulty_target :: "difficulty \<Rightarrow> difficulty_error + u256" where
  "compute_difficulty_target d = (if d = 0 then Inl DifficultyCannotBeZero else Inr (- 1 div d))"

definition check_difficulty_against_target :: "hash \<Rightarrow> u256 \<Rightarrow> bool" where
  "check_difficulty_against_target h target = ((from_be_bytes (as_bytes h) :: u256) \<le> target)"

definition check_difficulty :: "hash \<Rightarrow> difficulty \<Rightarrow> difficulty_error + bool" where
  "check_difficulty h d = (case compute_difficulty_target d of Inl e \<Rightarrow> Inl e
     | Inr target \<Rightarrow> Inr (check_difficulty_against_target h target))"

definition difficulty_from_hash :: "hash \<Rightarrow> difficulty option" where
  "difficulty_from_hash h = varuint_div (- 1) (from_be_bytes (as_bytes h))"

section \<open>Lemmas\<close>

lemma u256_limbs_ext: "u256_of_limbs [a, 0, 0, 0] = ucast a"
  by (simp add: u256_of_limbs_def)

lemma unat_varuint_from_u64: "unat (varuint_from_u64 u) = unat u"
  by (simp add: varuint_from_u64_def u256_limbs_ext unat_ucast_up)

lemma varuint_u64_roundtrip: "varuint_as_u64 (varuint_from_u64 u) = Some u"
  using unat_less_2p [of u]
  by (simp add: varuint_as_u64_def unat_varuint_from_u64)
    (simp add: word_unat_eq_iff unat_ucast_mod unat_varuint_from_u64)

lemma varuint_div_unat: "varuint_div a b = Some q \<Longrightarrow> unat q = unat a div unat b"
  by (auto simp: varuint_div_def unat_div split: if_splits)

lemma unat_minus_1_u256: "unat (- 1 :: u256) = 2 ^ 256 - 1"
  by (simp add: unsigned_minus_1_eq_mask mask_eq_exp_minus_1)

lemma varuint_len_le: "varuint_len buffer n \<le> n"
  by (induction n) auto

lemma varuint_len_trim:
  "n \<le> length buffer \<Longrightarrow>
   take (varuint_len buffer n) buffer @ replicate (n - varuint_len buffer n) 0 = take n buffer"
proof (induction n)
  case (Suc n)
  have "varuint_len buffer n \<le> n" by (rule varuint_len_le)
  with Suc show ?case
    by (auto simp: take_Suc_conv_app_nth Suc_diff_le replicate_append_same [symmetric]
      simp flip: append_assoc)
qed simp

lemma varuint_len_last:
  "0 < varuint_len buffer n \<Longrightarrow> buffer ! (varuint_len buffer n - 1) \<noteq> 0"
  by (induction n) auto

lemma append_only_varuint: "append_only (write_varuint v)"
  by (simp add: write_varuint_def Let_def codec_simps)

lemma to_bytes_varuint:
  "to_bytes (write_varuint v) =
     of_nat (varuint_len (to_be_bytes v) 32) # take (varuint_len (to_be_bytes v) 32) (to_be_bytes v)"
  by (simp add: write_varuint_def Let_def codec_simps)

lemma be_nat_zeros: "be_nat (replicate n 0) = 0"
  by (induction n) (simp_all add: be_nat_def)

lemma from_be_zeros: "from_be_bytes (replicate n 0) = 0"
  by (simp add: from_be_bytes_def be_nat_zeros)

lemma reads_varuint: "reads read_varuint v (to_bytes (write_varuint v))"
proof -
  let ?b = "to_be_bytes v" let ?n = "varuint_len ?b 32"
  have n: "?n \<le> 32" by (rule varuint_len_le)
  then have u: "unat (of_nat ?n :: u8) = ?n" by (intro unat_of_nat_u8) simp
  have pad: "take ?n ?b @ replicate (32 - ?n) 0 = ?b"
    using varuint_len_trim [of 32 ?b] by simp
  have v: "from_be_bytes ?b = v" by (rule from_to_be_bytes) simp
  have "reads (let len = unat (of_nat ?n :: u8) in
     if len > MAX_VARUINT_SIZE then rfail InvalidSize
     else if len = 0 then rreturn varuint_zero
     else rbind (read_bytes_ref len)
       (\<lambda>bs. rreturn (from_be_bytes (bs @ replicate (32 - len) 0)))) v (take ?n ?b)"
  proof (cases "?n = 0")
    case True
    have "?b = replicate 32 0" using pad True by simp
    then have "v = 0" using v by (metis from_be_zeros)
    then show ?thesis using True by (simp add: u varuint_zero_def reads_return MAX_VARUINT_SIZE_def)
  next
    case False
    have "reads (rbind (read_bytes_ref ?n)
       (\<lambda>bs. rreturn (from_be_bytes (bs @ replicate (32 - ?n) 0)))) v (take ?n ?b)"
      using n by (intro reads_bind_return [OF reads_read_bytes_ref]) (simp_all add: pad v)
    then show ?thesis using False n by (simp add: u MAX_VARUINT_SIZE_def Let_def)
  qed
  then have "reads read_varuint v ([of_nat ?n] @ take ?n ?b)"
    unfolding read_varuint_def by (rule reads_bind [OF reads_read_u8])
  then show ?thesis by (simp add: to_bytes_varuint)
qed

lemma safe_varuint: "reader_safe read_varuint"
  unfolding read_varuint_def Let_def by (intro codec_intros)

interpretation varuint: serializer write_varuint read_varuint "default_size write_varuint" "\<lambda>_. True"
  by unfold_locales
    (simp_all add: append_only_varuint reads_varuint safe_varuint, simp add: default_size_def to_bytes_def)

lemma default_size_varuint: "default_size write_varuint v = 1 + varuint_len (to_be_bytes v) 32"
  using varuint_len_le [of "to_be_bytes v" 32] varuint.size_write [of v]
  by (simp add: to_bytes_varuint)

lemma nat_le_pred_iff: "0 < n \<Longrightarrow> m \<le> n - 1 \<longleftrightarrow> m < n" for m n :: nat
  by linarith

lemma check_difficulty_unat:
  assumes "d \<noteq> 0"
  shows "check_difficulty h d = Inr (unat (from_be_bytes (as_bytes h) :: u256) * unat d < 2 ^ 256)"
proof -
  have d: "0 < unat d" using assms by (simp add: unat_gt_0)
  let ?w = "unat (from_be_bytes (as_bytes h) :: u256)"
  have "(from_be_bytes (as_bytes h) :: u256) \<le> - 1 div d \<longleftrightarrow> ?w \<le> (2 ^ 256 - 1) div unat d"
    unfolding word_le_nat_alt unat_div unat_minus_1_u256 ..
  also have "\<dots> \<longleftrightarrow> ?w * unat d \<le> 2 ^ 256 - 1"
    using d by (simp add: less_eq_div_iff_mult_less_eq)
  also have "\<dots> \<longleftrightarrow> ?w * unat d < 2 ^ 256" by (rule nat_le_pred_iff) simp
  finally show ?thesis
    using assms by (simp add: check_difficulty_def compute_difficulty_target_def
      check_difficulty_against_target_def)
qed

lemma last_be_bytes: "to_be_bytes (v :: u256) ! 31 = of_nat (unat v mod 256)"
proof -
  have "to_be_bytes v = be_bytes 31 (unat v div 256) @ [of_nat (unat v mod 256)]"
    using be_bytes.simps(2) [of 31 "unat v"] by (simp add: to_be_bytes_def del: be_bytes.simps)
  then show ?thesis by (simp add: nth_append)
qed

lemma varuint_len_full: "varuint_len b (Suc n) = Suc n \<longleftrightarrow> b ! n \<noteq> 0"
  using varuint_len_le [of b n] by auto

lemma varuint_full_size: "length (to_bytes (write_varuint v)) = 33 \<longleftrightarrow> unat v mod 256 \<noteq> 0"
proof -
  have "length (to_bytes (write_varuint v)) = Suc (varuint_len (to_be_bytes v) (Suc 31))"
    using varuint_len_le [of "to_be_bytes v" 32] by (simp add: to_bytes_varuint del: varuint_len.simps)
  then have "length (to_bytes (write_varuint v)) = 33 \<longleftrightarrow> to_be_bytes v ! 31 \<noteq> 0"
    using varuint_len_full [of "to_be_bytes v" 31] by (simp del: varuint_len.simps)
  also have "\<dots> \<longleftrightarrow> unat v mod 256 \<noteq> 0"
    by (simp only: last_be_bytes word_unat_eq_iff unat_of_nat_byte unsigned_0)
  finally show ?thesis .
qed

lemma difficulty_from_hash_max:
  assumes "difficulty_from_hash h = Some m" and "d \<noteq> 0"
  shows "check_difficulty h d = Inr (d \<le> m)"
proof -
  let ?w = "unat (from_be_bytes (as_bytes h) :: u256)"
  have w: "?w \<noteq> 0" and m: "unat m = (2 ^ 256 - 1) div ?w"
    using assms(1) varuint_div_unat [of "- 1" "from_be_bytes (as_bytes h)" m]
    by (auto simp: difficulty_from_hash_def varuint_div_def unat_minus_1_u256 unat_eq_zero split: if_splits)
  have "?w * unat d < 2 ^ 256 \<longleftrightarrow> unat d * ?w \<le> 2 ^ 256 - 1"
    by (subst nat_le_pred_iff) (simp_all add: mult.commute)
  also have "\<dots> \<longleftrightarrow> d \<le> m"
    using w by (simp add: word_le_nat_alt m less_eq_div_iff_mult_less_eq)
  finally show ?thesis
    using assms(2) by (simp add: check_difficulty_unat)
qed

section \<open>Properties\<close>

text \<open>
  A \<open>VarUint\<close> read back from what it wrote is the same number. The writer trims
  the zero bytes at the end of the big-endian buffer: the full 33 bytes are used
  exactly when the lowest byte of the number is not zero, and zero is the single byte 0.
\<close>

theorem varuint_roundtrip:
  "from_bytes read_varuint (to_bytes (write_varuint v)) = Inr v
   \<and> (length (to_bytes (write_varuint v)) = 33 \<longleftrightarrow> unat v mod 256 \<noteq> 0)
   \<and> to_bytes (write_varuint 0) = [0]"
proof (intro conjI)
  show "to_bytes (write_varuint 0) = [0]" by code_simp
qed (simp_all only: varuint.from_to_bytes varuint_full_size)

text \<open>
  C39. A block hash meets a difficulty exactly when the product of the hash, read as a
  big-endian number, and the difficulty stays below \<open>2 ^ 256\<close>; difficulty zero is an error.
\<close>

theorem check_difficulty_correct:
  "hash_ok h \<Longrightarrow> check_difficulty h d =
     (if d = 0 then Inl DifficultyCannotBeZero else Inr (be_nat (as_bytes h) * unat d < 2 ^ 256))"
proof -
  assume "hash_ok h"
  then have "be_nat (as_bytes h) < 2 ^ 256"
    using be_nat_less [of "as_bytes h"] by (simp add: hash_ok_def HASH_SIZE_def)
  then have "unat (from_be_bytes (as_bytes h) :: u256) = be_nat (as_bytes h)"
    by (simp add: from_be_bytes_def unat_of_nat)
  then show ?thesis
    using check_difficulty_unat [of d h]
    by (simp add: check_difficulty_def compute_difficulty_target_def)
qed

theorem check_difficulty_correct_witness:
  "check_difficulty (Hash (replicate 31 0 @ [2])) 3 = Inr True"
proof -
  have "hash_ok (Hash (replicate 31 0 @ [2]))" by (simp add: hash_ok_def HASH_SIZE_def)
  from check_difficulty_correct [OF this, of 3] show ?thesis
    by (simp only: be_nat_snoc be_nat_zeros hash.sel) simp
qed

text \<open>
  The difficulty a miner computes from a hash is the greatest difficulty that hash
  meets.
\<close>

theorem difficulty_from_hash_greatest:
  "difficulty_from_hash h = Some m \<Longrightarrow> d \<noteq> 0 \<Longrightarrow> check_difficulty h d = Inr (d \<le> m)"
  by (rule difficulty_from_hash_max)

theorem difficulty_from_hash_greatest_witness:
  "check_difficulty (Hash (replicate 31 0 @ [1])) 7 = Inr (7 \<le> (- 1 :: u256))"
proof -
  have "be_nat (replicate 31 0 @ [1]) = 1" by (simp only: be_nat_snoc be_nat_zeros) simp
  then have "difficulty_from_hash (Hash (replicate 31 0 @ [1])) = Some (- 1)"
    by (simp only: difficulty_from_hash_def from_be_bytes_def varuint_div_def hash.sel) simp
  then show ?thesis by (rule difficulty_from_hash_greatest) simp
qed

end
