(* ===== verification/Config.thy ===== *)
theory Config
  imports Codecs
begin

text \<open>
  The constants of \<open>common/src/config.rs\<close> and the fee computations of
  \<open>common/src/utils.rs\<close> and \<open>common/src/utils/energy_fee.rs\<close>. \<open>COIN_VALUE\<close> is the
  value of the constant expression \<open>10u64.pow(8)\<close>.
\<close>

section \<open>Constants\<close>

definition TERMINOS_ASSET :: hash where "TERMINOS_ASSET = hash_zero"

definition ENERGY_PER_TRANSFER :: u64 where "ENERGY_PER_TRANSFER = 1"

definition FEE_PER_KB :: u64 where "FEE_PER_KB = 10000"

definition FEE_PER_ACCOUNT_CREATION :: u64 where "FEE_PER_ACCOUNT_CREATION = 100000"

definition FEE_PER_TRANSFER :: u64 where "FEE_PER_TRANSFER = 5000"

definition COIN_DECIMALS :: nat where "COIN_DECIMALS = 8"

definition COIN_VALUE :: u64 where "COIN_VALUE = 100000000"

definition MAXIMUM_SUPPLY :: u64 where "MAXIMUM_SUPPLY = 18400000 * COIN_VALUE"

definition BYTES_PER_KB :: usize where "BYTES_PER_KB = 1024"

definition MAX_TRANSACTION_SIZE :: usize where
  "MAX_TRANSACTION_SIZE = BYTES_PER_KB * BYTES_PER_KB"

definition MAX_BLOCK_SIZE :: usize where
  "MAX_BLOCK_SIZE = BYTES_PER_KB * BYTES_PER_KB + 256 * BYTES_PER_KB"

definition TIPS_LIMIT :: usize where "TIPS_LIMIT = 3"

type_synonym topoheight = u64

section \<open>Fees\<close>

definition calculate_tx_fee :: "usize \<Rightarrow> usize \<Rightarrow> usize \<Rightarrow> usize \<Rightarrow> u64" where
  "calculate_tx_fee tx_size output_count new_addresses multisig =
     (let size_in_kb = (of_nat tx_size :: u64) div of_nat BYTES_PER_KB;
          size_in_kb = (if tx_size mod BYTES_PER_KB \<noteq> 0 then size_in_kb + 1 else size_in_kb)
      in size_in_kb * FEE_PER_KB + of_nat output_count * FEE_PER_TRANSFER
         + of_nat new_addresses * FEE_PER_ACCOUNT_CREATION + of_nat multisig * FEE_PER_TRANSFER)"

definition calculate_energy_cost :: "usize \<Rightarrow> usize \<Rightarrow> usize \<Rightarrow> u64" where
  "calculate_energy_cost tx_size output_count new_addresses =
     (let energy_cost = 0;
          energy_cost = energy_cost + of_nat output_count * ENERGY_PER_TRANSFER;
          energy_cost = energy_cost + of_nat new_addresses * 0
      in energy_cost)"

definition calculate_energy_fee :: "usize \<Rightarrow> usize \<Rightarrow> usize \<Rightarrow> u64" where
  "calculate_energy_fee tx_size output_count new_addresses =
     calculate_energy_cost tx_size output_count new_addresses"

section \<open>Lemmas\<close>

lemmas config_consts = COIN_VALUE_def MAXIMUM_SUPPLY_def BYTES_PER_KB_def FEE_PER_KB_def
  FEE_PER_ACCOUNT_CREATION_def FEE_PER_TRANSFER_def ENERGY_PER_TRANSFER_def

lemma unat_COIN_VALUE: "unat COIN_VALUE = 100000000"
  by (simp add: COIN_VALUE_def)

lemma unat_MAXIMUM_SUPPLY: "unat MAXIMUM_SUPPLY = 1840000000000000"
  by (simp add: config_consts)

lemma ceil_kb: "m div 1024 + (if m mod 1024 \<noteq> 0 then 1 else 0) = (m + 1023) div 1024" for m :: nat
proof -
  have "m mod 1024 < 1024" by simp
  then have "(m mod 1024 + 1023) div 1024 = (if m mod 1024 \<noteq> 0 then 1 else 0)"
    by (cases "m mod 1024") (simp_all add: div_if)
  then show ?thesis by (simp add: div_add1_eq [of m 1023])
qed

lemma tx_fee_wrap:
  "tx_size < 2 ^ 64 \<Longrightarrow> calculate_tx_fee tx_size output_count new_addresses multisig =
     of_nat ((tx_size + 1023) div 1024 * 10000 + (output_count + multisig) * 5000 + new_addresses * 100000)"
proof -
  assume "tx_size < 2 ^ 64"
  then have "(of_nat tx_size :: u64) div 1024 = of_nat (tx_size div 1024)"
    by (simp add: word_unat_eq_iff unat_div unat_of_nat less_mult_imp_div_less)
  then have "(if tx_size mod 1024 \<noteq> 0 then (of_nat tx_size :: u64) div 1024 + 1 else of_nat tx_size div 1024)
      = of_nat (tx_size div 1024 + (if tx_size mod 1024 \<noteq> 0 then 1 else 0))"
    by simp
  also have "\<dots> = of_nat ((tx_size + 1023) div 1024)"
    by (simp only: ceil_kb)
  finally show ?thesis
    by (simp add: calculate_tx_fee_def Let_def config_consts distrib_right)
qed

end
