(* ===== verification/Energy.thy ===== *)
theory Energy
  imports Config
begin

text \<open>
  The energy accounting of \<open>common/src/account/energy.rs\<close> and the operations built on
  it in \<open>common/src/utils/energy_fee.rs\<close>: coins frozen for a number of days give
  energy, energy pays transfers, and coins can be unfrozen once their record has
  reached its unlock topoheight. The second half is the wire format of these records
  and of the energy payload of a transaction
  (\<open>common/src/transaction/payload/energy.rs\<close>).
\<close>

section \<open>Freeze records\<close>

datatype energy_error = InvalidDuration | InsufficientEnergy | ZeroUnfreeze
  | InsufficientFrozen | InsufficientUnlocked | IndexPanic

record freeze_duration =
  days :: u32

definition freeze_duration_new :: "u32 \<Rightarrow> energy_error + freeze_duration" where
  "freeze_duration_new d = (if d < 3 \<or> d > 90 then Inl InvalidDuration else Inr \<lparr>days = d\<rparr>)"

definition reward_multiplier :: "freeze_duration \<Rightarrow> u64" where
  "reward_multiplier d = ucast (days d * 2)"

definition duration_in_blocks :: "freeze_duration \<Rightarrow> u64" where
  "duration_in_blocks d = ucast (days d) * 24 * 60 * 60"

definition freeze_duration_is_valid :: "freeze_duration \<Rightarrow> bool" where
  "freeze_duration_is_valid d \<longleftrightarrow> days d \<ge> 3 \<and> days d \<le> 90"

definition freeze_duration_default :: freeze_duration where
  "freeze_duration_default = \<lparr>days = 3\<rparr>"

record freeze_record =
  amount :: u64
  duration :: freeze_duration
  freeze_topoheight :: topoheight
  unlock_topoheight :: topoheight
  energy_gained :: u64

definition whole_tos :: "u64 \<Rightarrow> u64" where
  "whole_tos a = a div COIN_VALUE * COIN_VALUE"

definition freeze_record_new :: "u64 \<Rightarrow> freeze_duration \<Rightarrow> topoheight \<Rightarrow> freeze_record" where
  "freeze_record_new a d topo =
     (let unlock = topo + duration_in_blocks d; whole = whole_tos a;
          gained = whole div COIN_VALUE * reward_multiplier d
      in \<lparr>amount = whole, duration = d, freeze_topoheight = topo,
          unlock_topoheight = unlock, energy_gained = gained\<rparr>)"

definition can_unlock :: "freeze_record \<Rightarrow> topoheight \<Rightarrow> bool" where
  "can_unlock r current = (current \<ge> unlock_topoheight r)"

definition remaining_blocks :: "freeze_record \<Rightarrow> topoheight \<Rightarrow> u64" where
  "remaining_blocks r current =
     (if current \<ge> unlock_topoheight r then 0 else unlock_topoheight r - current)"

section \<open>Energy resources\<close>

record energy_resource =
  total_energy :: u64
  used_energy :: u64
  frozen_tos :: u64
  last_update :: topoheight
  freeze_records :: "freeze_record list"

definition energy_resource_new :: energy_resource where
  "energy_resource_new = \<lparr>total_energy = 0, used_energy = 0, frozen_tos = 0, last_update = 0,
     freeze_records = []\<rparr>"

definition available_energy :: "energy_resource \<Rightarrow> u64" where
  "available_energy e = saturating_sub (total_energy e) (used_energy e)"

definition has_enough_energy :: "energy_resource \<Rightarrow> u64 \<Rightarrow> bool" where
  "has_enough_energy e required = (available_energy e \<ge> required)"

definition consume_energy :: "u64 \<Rightarrow> energy_resource \<Rightarrow> energy_error + energy_resource" where
  "consume_energy a e = (if available_energy e < a then Inl InsufficientEnergy
     else Inr (e\<lparr>used_energy := used_energy e + a\<rparr>))"

definition freeze_tos_for_energy ::
  "u64 \<Rightarrow> freeze_duration \<Rightarrow> topoheight \<Rightarrow> energy_resource \<Rightarrow> u64 \<times> energy_resource" where
  "freeze_tos_for_energy a d topo e =
     (let r = freeze_record_new a d topo in
      (energy_gained r,
       e\<lparr>freeze_records := freeze_records e @ [r],
         frozen_tos := frozen_tos e + amount r,
         total_energy := total_energy e + energy_gained r,
         last_update := topo\<rparr>))"

text \<open>
  The loop of \<open>unfreeze_tos\<close>: from index \<open>i\<close> on, what is left to unfreeze, the energy to
  take away, the indices of the records to remove and the indices and amounts of the
  records to shrink.
\<close>

fun unfreeze_scan :: "topoheight \<Rightarrow> nat \<Rightarrow> freeze_record list \<Rightarrow> u64 \<Rightarrow>
    u64 \<times> u64 \<times> nat list \<times> (nat \<times> u64) list" where
  "unfreeze_scan topo i [] left = (left, 0, [], [])"
| "unfreeze_scan topo i (r # rs) left =
     (if \<not> can_unlock r topo then unfreeze_scan topo (Suc i) rs left
      else if left = 0 then (left, 0, [], [])
      else let a = min left (amount r);
               removed = a div COIN_VALUE * reward_multiplier (duration r);
               (left', removed', rm, md) = unfreeze_scan topo (Suc i) rs (left - a)
           in if a = amount r then (left', removed + removed', i # rm, md)
              else (left', removed + removed', rm, (i, a) # md))"

definition vec_remove :: "nat \<Rightarrow> 'a list \<Rightarrow> 'a list option" where
  "vec_remove i xs = (if i < length xs then Some (take i xs @ drop (Suc i) xs) else None)"

definition shrink_record :: "u64 \<Rightarrow> freeze_record \<Rightarrow> freeze_record" where
  "shrink_record a r = (let left = amount r - a in
     r\<lparr>amount := left, energy_gained := left div COIN_VALUE * reward_multiplier (duration r)\<rparr>)"

fun remove_records :: "nat list \<Rightarrow> freeze_record list \<Rightarrow> freeze_record list option" where
  "remove_records [] rs = Some rs"
| "remove_records (i # is) rs = Option.bind (vec_remove i rs) (remove_records is)"

fun modify_records :: "(nat \<times> u64) list \<Rightarrow> freeze_record list \<Rightarrow> freeze_record list option" where
  "modify_records [] rs = Some rs"
| "modify_records ((i, a) # is) rs =
     (if i < length rs then modify_records is (rs[i := shrink_record a (rs ! i)]) else None)"

definition unfreeze_tos ::
  "u64 \<Rightarrow> topoheight \<Rightarrow> energy_resource \<Rightarrow> energy_error + (u64 \<times> energy_resource)" where
  "unfreeze_tos a topo e =
     (let whole = whole_tos a in
      if whole = 0 then Inl ZeroUnfreeze
      else if frozen_tos e < whole then Inl InsufficientFrozen
      else let (left, removed, rm, md) = unfreeze_scan topo 0 (freeze_records e) whole in
        if left > 0 then Inl InsufficientUnlocked
        else case Option.bind (remove_records (rev rm) (freeze_records e)) (modify_records (rev md)) of
          None \<Rightarrow> Inl IndexPanic
        | Some rs \<Rightarrow> Inr (removed, e\<lparr>freeze_records := rs,
            frozen_tos := frozen_tos e - whole,
            total_energy := saturating_sub (total_energy e) removed,
            last_update := topo\<rparr>))"

definition get_unlockable_records :: "topoheight \<Rightarrow> energy_resource \<Rightarrow> freeze_record list" where
  "get_unlockable_records topo e = filter (\<lambda>r. can_unlock r topo) (freeze_records e)"

definition get_unlockable_tos :: "topoheight \<Rightarrow> energy_resource \<Rightarrow> u64" where
  "get_unlockable_tos topo e = sum_list (map amount (get_unlockable_records topo e))"

definition get_freeze_records_by_duration ::
  "energy_resource \<Rightarrow> (freeze_duration \<times> freeze_record list) list" where
  "get_freeze_records_by_duration e = fold (\<lambda>r m. map_insert (duration r)
     ((case map_of m (duration r) of None \<Rightarrow> [] | Some rs \<Rightarrow> rs) @ [r]) m) (freeze_records e) []"

definition reset_used_energy :: "topoheight \<Rightarrow> energy_resource \<Rightarrow> energy_resource" where
  "reset_used_energy topo e = e\<lparr>used_energy := 0, last_update := topo\<rparr>"

section \<open>Status and leases\<close>

record energy_status =
  status_total :: u64
  status_used :: u64
  status_available :: u64
  status_frozen :: u64

definition get_energy_status :: "energy_resource \<Rightarrow> energy_status" where
  "get_energy_status e = \<lparr>status_total = total_energy e, status_used = used_energy e,
     status_available = available_energy e, status_frozen = frozen_tos e\<rparr>"

definition is_energy_low :: "energy_status \<Rightarrow> bool" where
  "is_energy_low s = (status_available s < status_total s div 10)"

record energy_lease =
  lessor :: public_key
  lessee :: public_key
  energy_amount :: u64
  lease_duration :: u64
  start_topoheight :: topoheight
  price_per_energy :: u64

definition energy_lease_is_valid :: "topoheight \<Rightarrow> energy_lease \<Rightarrow> bool" where
  "energy_lease_is_valid current l = (current < start_topoheight l + lease_duration l)"

definition energy_lease_total_cost :: "energy_lease \<Rightarrow> u64" where
  "energy_lease_total_cost l = energy_amount l * price_per_energy l"

section \<open>Wire formats\<close>

definition write_freeze_duration :: "freeze_duration \<Rightarrow> writer \<Rightarrow> writer" where
  "write_freeze_duration d = write_u32 (days d)"

definition read_freeze_duration :: "freeze_duration rd" where
  "read_freeze_duration = rbind read_u32 (\<lambda>d. rreturn \<lparr>days = d\<rparr>)"

definition size_freeze_duration :: "freeze_duration \<Rightarrow> usize" where
  "size_freeze_duration d = 4"

definition write_freeze_record :: "freeze_record \<Rightarrow> writer \<Rightarrow> writer" where
  "write_freeze_record r = writes [write_u64 (amount r), write_freeze_duration (duration r),
       write_u64 (freeze_topoheight r), write_u64 (unlock_topoheight r),
       write_u64 (energy_gained r)]"

definition read_freeze_record :: "freeze_record rd" where
  "read_freeze_record = rbind read_u64 (\<lambda>a. rbind read_freeze_duration (\<lambda>d.
     rbind read_u64 (\<lambda>f. rbind read_u64 (\<lambda>u. rbind read_u64 (\<lambda>g.
     rreturn \<lparr>amount = a, duration = d, freeze_topoheight = f, unlock_topoheight = u,
       energy_gained = g\<rparr>)))))"

definition size_freeze_record :: "freeze_record \<Rightarrow> usize" where
  "size_freeze_record r = 8 + size_freeze_duration (duration r) + 8 + 8 + 8"

definition write_energy_resource :: "energy_resource \<Rightarrow> writer \<Rightarrow> writer" where
  "write_energy_resource e = writes [write_u64 (total_energy e), write_u64 (used_energy e), write_u64 (frozen_tos e),
       write_u64 (last_update e), write_u64 (of_nat (length (freeze_records e))),
       fold write_freeze_record (freeze_records e)]"

definition read_energy_resource :: "energy_resource rd" where
  "read_energy_resource = rbind read_u64 (\<lambda>t. rbind read_u64 (\<lambda>u. rbind read_u64 (\<lambda>f.
     rbind read_u64 (\<lambda>l. rbind read_u64 (\<lambda>n. rbind (read_times (unat n) read_freeze_record) (\<lambda>rs.
     rreturn \<lparr>total_energy = t, used_energy = u, frozen_tos = f, last_update = l,
       freeze_records = rs\<rparr>))))))"

definition size_energy_resource :: "energy_resource \<Rightarrow> usize" where
  "size_energy_resource e = 8 + 8 + 8 + 8 + (8 + sum_list (map size_freeze_record (freeze_records e)))"

definition write_energy_lease :: "energy_lease \<Rightarrow> writer \<Rightarrow> writer" where
  "write_energy_lease l = writes [write_public_key (lessor l), write_public_key (lessee l), write_u64 (energy_amount l),
       write_u64 (lease_duration l), write_u64 (start_topoheight l),
       write_u64 (price_per_energy l)]"

definition read_energy_lease :: "energy_lease rd" where
  "read_energy_lease = rbind read_public_key (\<lambda>a. rbind read_public_key (\<lambda>b.
     rbind read_u64 (\<lambda>e. rbind read_u64 (\<lambda>d. rbind read_u64 (\<lambda>s. rbind read_u64 (\<lambda>p.
     rreturn \<lparr>lessor = a, lessee = b, energy_amount = e, lease_duration = d,
       start_topoheight = s, price_per_energy = p\<rparr>))))))"

definition size_energy_lease :: "energy_lease \<Rightarrow> usize" where
  "size_energy_lease l = size_public_key (lessor l) + size_public_key (lessee l) + 8 + 8 + 8 + 8"

datatype energy_payload = FreezeTos u64 freeze_duration | UnfreezeTos u64

fun energy_cost :: "energy_payload \<Rightarrow> u64" where
  "energy_cost (FreezeTos _ _) = 0"
| "energy_cost (UnfreezeTos _) = 0"

fun tos_fee :: "energy_payload \<Rightarrow> u64" where
  "tos_fee (FreezeTos _ _) = FEE_PER_TRANSFER"
| "tos_fee (UnfreezeTos _) = FEE_PER_TRANSFER"

fun payload_get_amount :: "energy_payload \<Rightarrow> u64" where
  "payload_get_amount (FreezeTos a _) = a"
| "payload_get_amount (UnfreezeTos a) = a"

fun payload_get_duration :: "energy_payload \<Rightarrow> freeze_duration option" where
  "payload_get_duration (FreezeTos _ d) = Some d"
| "payload_get_duration (UnfreezeTos _) = None"

fun calculate_energy_gain :: "energy_payload \<Rightarrow> u64 option" where
  "calculate_energy_gain (FreezeTos a d) = Some (a div COIN_VALUE * reward_multiplier d)"
| "calculate_energy_gain (UnfreezeTos _) = None"

fun write_energy_payload :: "energy_payload \<Rightarrow> writer \<Rightarrow> writer" where
  "write_energy_payload (FreezeTos a d) = writes [write_u8 0, write_u64 a, write_freeze_duration d]"
| "write_energy_payload (UnfreezeTos a) = writes [write_u8 1, write_u64 a]"

definition read_energy_payload :: "energy_payload rd" where
  "read_energy_payload = rbind read_u8 (\<lambda>variant.
     if variant = 0 then rbind read_u64 (\<lambda>a. rbind read_freeze_duration (\<lambda>d. rreturn (FreezeTos a d)))
     else if variant = 1 then rbind read_u64 (\<lambda>a. rreturn (UnfreezeTos a))
     else rfail InvalidValue)"

fun size_energy_payload :: "energy_payload \<Rightarrow> usize" where
  "size_energy_payload (FreezeTos a d) = 1 + 8 + size_freeze_duration d"
| "size_energy_payload (UnfreezeTos a) = 1 + 8"

section \<open>Wire format lemmas\<close>

interpretation freeze_duration: strict_serializer write_freeze_duration read_freeze_duration
  size_freeze_duration "\<lambda>_. True"
proof
  show "accepts read_freeze_duration (\<lambda>x bs. True \<and> bs = to_bytes (write_freeze_duration x))"
    unfolding read_freeze_duration_def
    by (rule accepts_wrap [OF u32.read_strict]) (simp add: write_freeze_duration_def)
qed (auto simp: write_freeze_duration_def read_freeze_duration_def size_freeze_duration_def codec_simps
    intro!: codec_intros)

interpretation freeze_record: strict_serializer write_freeze_record read_freeze_record
  size_freeze_record "\<lambda>_. True"
proof
  show "accepts read_freeze_record (\<lambda>x bs. True \<and> bs = to_bytes (write_freeze_record x))"
    unfolding read_freeze_record_def
    by (intro accepts_bindI [OF u64.read_strict] accepts_bindI [OF freeze_duration.read_strict]
        accepts_return)
      (simp add: write_freeze_record_def codec_simps freeze_duration.write_append)
  show "size_freeze_record x = length (to_bytes (write_freeze_record x))" for x
    using freeze_duration.size_write [of "duration x"]
    by (simp add: size_freeze_record_def write_freeze_record_def codec_simps freeze_duration.write_append)
qed (auto simp: write_freeze_record_def read_freeze_record_def codec_simps freeze_duration.write_append
    intro!: codec_intros reads_bind [OF reads_read_u64] reads_bind [OF freeze_duration.read_write]
      freeze_duration.read_safe)

definition energy_resource_ok :: "energy_resource \<Rightarrow> bool" where
  "energy_resource_ok e \<longleftrightarrow> length (freeze_records e) < 2 ^ 64"

lemma to_bytes_energy_resource:
  "to_bytes (write_energy_resource e) = to_be_bytes (total_energy e) @ to_be_bytes (used_energy e)
     @ to_be_bytes (frozen_tos e) @ to_be_bytes (last_update e)
     @ to_be_bytes (of_nat (length (freeze_records e)) :: u64)
     @ concat (map (\<lambda>r. to_bytes (write_freeze_record r)) (freeze_records e))"
  by (simp add: write_energy_resource_def codec_simps freeze_record.write_append)

interpretation energy_resource: strict_serializer write_energy_resource read_energy_resource
  size_energy_resource energy_resource_ok
proof
  show "append_only (write_energy_resource e)" for e
    by (simp add: write_energy_resource_def codec_simps freeze_record.write_append)
  show "reader_safe read_energy_resource"
    unfolding read_energy_resource_def by (intro codec_intros freeze_record.safe_times)
  show "size_energy_resource e = length (to_bytes (write_energy_resource e))" for e
    using freeze_record.size_elements [of "freeze_records e"]
    by (simp add: to_bytes_energy_resource size_energy_resource_def)
  show "reads read_energy_resource e (to_bytes (write_energy_resource e))"
    if "energy_resource_ok e" for e
    unfolding to_bytes_energy_resource read_energy_resource_def
    using that
    by (intro reads_bind [OF reads_read_u64])
      (auto simp: energy_resource_ok_def unat_of_nat
        intro!: reads_bind_return [OF freeze_record.reads_times])
  show "accepts read_energy_resource
    (\<lambda>x bs. energy_resource_ok x \<and> bs = to_bytes (write_energy_resource x))"
    unfolding read_energy_resource_def
    by (intro accepts_bindI [OF u64.read_strict] accepts_bindI [OF freeze_record.accepts_times]
        accepts_return)
      (auto simp: energy_resource_ok_def to_bytes_energy_resource codec_simps unat_u64_less)
qed

interpretation energy_lease: strict_serializer write_energy_lease read_energy_lease
  size_energy_lease "\<lambda>l. public_key_ok (lessor l) \<and> public_key_ok (lessee l)"
proof
  show "accepts read_energy_lease (\<lambda>l bs. (public_key_ok (lessor l) \<and> public_key_ok (lessee l))
      \<and> bs = to_bytes (write_energy_lease l))"
    unfolding read_energy_lease_def
    by (intro accepts_bindI [OF public_key.read_strict] accepts_bindI [OF u64.read_strict] accepts_return)
      (simp add: write_energy_lease_def codec_simps public_key.write_append)
qed (auto simp: write_energy_lease_def read_energy_lease_def size_energy_lease_def codec_simps
    public_key.write_append public_key.size_write
    intro!: codec_intros reads_bind [OF reads_read_u64] reads_bind [OF public_key.read_write]
      public_key.read_safe)

interpretation energy_payload: strict_serializer write_energy_payload read_energy_payload
  size_energy_payload "\<lambda>_. True"
proof
  show "append_only (write_energy_payload p)" for p
    by (cases p) (simp_all add: codec_simps freeze_duration.write_append)
  show "reader_safe read_energy_payload"
    unfolding read_energy_payload_def by (intro codec_intros freeze_duration.read_safe)
  show "size_energy_payload p = length (to_bytes (write_energy_payload p))" for p
    using freeze_duration.size_write
    by (cases p) (simp_all add: codec_simps freeze_duration.write_append)
  show "reads read_energy_payload p (to_bytes (write_energy_payload p))" for p
  proof (cases p)
    case (FreezeTos a d)
    have "reads read_energy_payload p ([0] @ to_be_bytes a @ to_bytes (write_freeze_duration d))"
      unfolding read_energy_payload_def FreezeTos
      by (rule reads_bind [OF reads_read_u8])
        (auto intro!: reads_bind [OF reads_read_u64] reads_bind_return [OF freeze_duration.read_write])
    then show ?thesis by (simp add: FreezeTos codec_simps freeze_duration.write_append)
  next
    case (UnfreezeTos a)
    have "reads read_energy_payload p ([1] @ to_be_bytes a)"
      unfolding read_energy_payload_def UnfreezeTos
      by (rule reads_bind [OF reads_read_u8]) (auto intro!: reads_bind_return [OF reads_read_u64])
    then show ?thesis by (simp add: UnfreezeTos codec_simps)
  qed
  show "accepts read_energy_payload (\<lambda>x bs. True \<and> bs = to_bytes (write_energy_payload x))"
    unfolding read_energy_payload_def
    by (intro accepts_bindI [OF u8.read_strict] accepts_if accepts_fail accepts_return
        accepts_bindI [OF u64.read_strict] accepts_bindI [OF freeze_duration.read_strict])
      (simp_all add: codec_simps freeze_duration.write_append)
qed

section \<open>Specification of unfreezing\<close>

text \<open>
  What unfreezing is meant to do to the list of records: go through the unlocked records
  in order, drop those the amount covers and shrink the one it covers in part. Locked
  records stay as they are.
\<close>

fun unfreeze_spec :: "topoheight \<Rightarrow> freeze_record list \<Rightarrow> u64 \<Rightarrow> freeze_record list" where
  "unfreeze_spec topo [] left = []"
| "unfreeze_spec topo (r # rs) left =
     (if \<not> can_unlock r topo then r # unfreeze_spec topo rs left
      else if left = 0 then r # rs
      else if amount r \<le> left then unfreeze_spec topo rs (left - amount r)
      else shrink_record left r # rs)"

text \<open>
  The invariant of an energy resource: every record was made by \<open>freeze_record_new\<close> for a
  duration of 3 to 90 days and perhaps shrunk since, and the two totals are the exact sums
  over the records, so that no addition has wrapped.
\<close>

definition freeze_record_ok :: "freeze_record \<Rightarrow> bool" where
  "freeze_record_ok r \<longleftrightarrow> freeze_duration_is_valid (duration r) \<and>
     unat (amount r) mod unat COIN_VALUE = 0 \<and>
     energy_gained r = amount r div COIN_VALUE * reward_multiplier (duration r) \<and>
     unlock_topoheight r = freeze_topoheight r + duration_in_blocks (duration r)"

definition energy_inv :: "energy_resource \<Rightarrow> bool" where
  "energy_inv e \<longleftrightarrow> list_all freeze_record_ok (freeze_records e) \<and>
     unat (frozen_tos e) = sum_list (map (\<lambda>r. unat (amount r)) (freeze_records e)) \<and>
     unat (total_energy e) = sum_list (map (\<lambda>r. unat (energy_gained r)) (freeze_records e))"

lemma unfreeze_scan_0: "unfreeze_scan topo i rs 0 = (0, 0, [], [])"
  by (induction rs arbitrary: i) auto

lemma unfreeze_scan_Suc:
  "unfreeze_scan topo (Suc i) rs left =
     (case unfreeze_scan topo i rs left of (l, en, rm, md) \<Rightarrow>
       (l, en, map Suc rm, map (map_prod Suc id) md))"
  by (induction rs arbitrary: i left)
    (auto simp: Let_def split: prod.splits)

lemma remove_records_append:
  "remove_records (is @ js) rs = Option.bind (remove_records is rs) (remove_records js)"
  by (induction "is" arbitrary: rs) (auto split: bind_split)

lemma remove_records_Suc:
  "remove_records (map Suc is) (r # rs) = map_option (Cons r) (remove_records is rs)"
  by (induction "is" arbitrary: rs) (auto simp: vec_remove_def)

lemma modify_records_Suc:
  "modify_records (map (map_prod Suc id) md) (r # rs) = map_option (Cons r) (modify_records md rs)"
proof (induction md arbitrary: rs)
  case (Cons m md)
  then show ?case by (cases m) simp
qed simp

lemma remove_records_head:
  "remove_records (rev (0 # map Suc rm)) (r # rs) = remove_records (rev rm) rs"
  by (simp add: remove_records_append rev_map remove_records_Suc vec_remove_def
    split: bind_split option.splits) (cases "remove_records (rev rm) rs"; simp)

text \<open>Whole records only, or a single partial record: the loops do what the specification says.\<close>

lemma unfreeze_scan_removes:
  "unfreeze_scan topo 0 rs left = (0, en, rm, []) \<Longrightarrow>
   remove_records (rev rm) rs = Some (unfreeze_spec topo rs left)"
proof (induction rs arbitrary: left en rm)
  case (Cons r rs)
  let ?a = "min left (amount r)"
  consider "\<not> can_unlock r topo" | "can_unlock r topo" "left = 0" | "can_unlock r topo" "left \<noteq> 0"
    by blast
  then show ?case
  proof cases
    case 1
    with Cons show ?thesis
      by (auto simp: unfreeze_scan_Suc rev_map remove_records_Suc split: prod.splits)
  next
    case 2
    with Cons.prems show ?thesis by simp
  next
    case 3
    obtain l en' rm' md' where scan: "unfreeze_scan topo 0 rs (left - ?a) = (l, en', rm', md')"
      by (metis prod_cases4)
    with 3 Cons.prems have a: "?a = amount r" and l: "l = 0" "md' = []" "rm = 0 # map Suc rm'"
      by (auto simp: unfreeze_scan_Suc Let_def split: if_splits)
    then have "amount r \<le> left" by (simp add: min_def split: if_splits)
    with 3 a l scan Cons.IH [of "left - amount r" en' rm'] show ?thesis
      by (simp only: remove_records_head unfreeze_spec.simps simp_thms if_False if_True)
  qed
qed simp

lemma unfreeze_scan_modifies:
  "unfreeze_scan topo 0 rs left = (0, en, [], md) \<Longrightarrow>
   modify_records (rev md) rs = Some (unfreeze_spec topo rs left)"
proof (induction rs arbitrary: left en md)
  case (Cons r rs)
  let ?a = "min left (amount r)"
  consider "\<not> can_unlock r topo" | "can_unlock r topo" "left = 0" | "can_unlock r topo" "left \<noteq> 0"
    by blast
  then show ?case
  proof cases
    case 1
    with Cons show ?thesis
      by (auto simp: unfreeze_scan_Suc rev_map modify_records_Suc split: prod.splits)
  next
    case 2
    with Cons.prems show ?thesis by simp
  next
    case 3
    have a: "?a \<noteq> amount r"
      using 3 Cons.prems by (auto simp: Let_def split: prod.splits if_splits)
    then have "?a = left" "\<not> amount r \<le> left" by (auto simp: min_def split: if_splits)
    with 3 a Cons.prems show ?thesis
      by (auto simp: Let_def unfreeze_scan_0)
  qed
qed simp

text \<open>The sums the two loops compute, as natural numbers.\<close>

abbreviation sum_amounts :: "freeze_record list \<Rightarrow> nat" where
  "sum_amounts rs \<equiv> sum_list (map (\<lambda>r. unat (amount r)) rs)"

abbreviation sum_energy :: "freeze_record list \<Rightarrow> nat" where
  "sum_energy rs \<equiv> sum_list (map (\<lambda>r. unat (energy_gained r)) rs)"

abbreviation unlocked :: "topoheight \<Rightarrow> freeze_record list \<Rightarrow> freeze_record list" where
  "unlocked topo \<equiv> filter (\<lambda>r. can_unlock r topo)"

lemma unat_reward_multiplier:
  "freeze_duration_is_valid d \<Longrightarrow> unat (reward_multiplier d) = 2 * unat (days d) \<and> unat (days d) \<le> 90"
proof -
  assume "freeze_duration_is_valid d"
  then have "unat (days d) \<le> 90" by (simp add: freeze_duration_is_valid_def word_le_nat_alt)
  then show ?thesis
    by (simp add: reward_multiplier_def unat_ucast_up unat_mult_no_overflow)
qed

lemma unat_gain:
  assumes "freeze_duration_is_valid d"
  shows "unat (x div COIN_VALUE * reward_multiplier d) = unat x div 100000000 * (2 * unat (days d))"
proof -
  have "unat x div 100000000 \<le> 2 ^ 64 div 100000000"
    using unat_less_2p [of x] by (intro div_le_mono) simp
  then have "unat x div 100000000 * (2 * unat (days d)) \<le> 2 ^ 64 div 100000000 * 180"
    using unat_reward_multiplier [OF assms] by (intro mult_le_mono) simp_all
  then show ?thesis
    using unat_reward_multiplier [OF assms]
    by (simp add: unat_mult_no_overflow unat_div unat_COIN_VALUE)
qed

lemma unat_whole_tos: "unat (whole_tos a) = unat a div 100000000 * 100000000"
proof -
  have "unat a div 100000000 * 100000000 \<le> unat a" by simp
  also have "\<dots> < 2 ^ 64" using unat_less_2p [of a] by simp
  finally show ?thesis
    by (simp add: whole_tos_def unat_mult_no_overflow unat_div unat_COIN_VALUE)
qed

lemma freeze_record_ok_new:
  "freeze_duration_is_valid d \<Longrightarrow> freeze_record_ok (freeze_record_new a d topo)"
  by (simp add: freeze_record_ok_def freeze_record_new_def Let_def unat_whole_tos unat_COIN_VALUE)

lemma freeze_record_ok_shrink:
  assumes "freeze_record_ok r" and "left \<le> amount r" and "unat left mod unat COIN_VALUE = 0"
  shows "freeze_record_ok (shrink_record left r)"
  using assms by (auto simp: freeze_record_ok_def shrink_record_def Let_def unat_sub_le unat_COIN_VALUE
    mod_eq_0_iff_dvd word_le_nat_alt intro: dvd_diff_nat)

lemma shrink_energy:
  assumes "freeze_record_ok r" and "left \<le> amount r" and "unat left mod unat COIN_VALUE = 0"
  shows "unat (left div COIN_VALUE * reward_multiplier (duration r)) + unat (energy_gained (shrink_record left r))
    = unat (energy_gained r)"
proof -
  have v: "freeze_duration_is_valid (duration r)" using assms(1) by (simp add: freeze_record_ok_def)
  obtain k m where k: "unat left = 100000000 * k" and m: "unat (amount r) = 100000000 * m"
    using assms by (auto simp: freeze_record_ok_def unat_COIN_VALUE mod_eq_0_iff_dvd elim!: dvdE)
  have "k \<le> m" using assms(2) k m by (simp add: word_le_nat_alt)
  moreover have "unat (amount r - left) = 100000000 * (m - k)"
    using assms(2) by (simp add: unat_sub_le k m diff_mult_distrib2)
  moreover have "energy_gained r = amount r div COIN_VALUE * reward_multiplier (duration r)"
    using assms(1) by (simp add: freeze_record_ok_def)
  ultimately show ?thesis
    by (simp add: shrink_record_def Let_def unat_gain [OF v] k m flip: distrib_right)
qed

lemma scan_left:
  "unat (fst (unfreeze_scan topo i rs left)) = unat left - sum_amounts (unlocked topo rs)"
proof (induction rs arbitrary: i left)
  case (Cons r rs)
  let ?rest = "unfreeze_scan topo (Suc i) rs (left - min left (amount r))"
  have "unat (left - min left (amount r)) = unat left - unat (amount r)"
    by (auto simp: min_def unat_sub_le word_le_nat_alt)
  then have "unat (fst ?rest) = unat left - (unat (amount r) + sum_amounts (unlocked topo rs))"
    by (simp add: Cons)
  moreover have "can_unlock r topo \<Longrightarrow> left \<noteq> 0 \<Longrightarrow>
      fst (unfreeze_scan topo i (r # rs) left) = fst ?rest"
    by (simp add: Let_def split: prod.split)
  ultimately show ?case using Cons by auto
qed simp

lemma spec_amounts:
  "unat left \<le> sum_amounts (unlocked topo rs) \<Longrightarrow>
   sum_amounts (unfreeze_spec topo rs left) + unat left = sum_amounts rs"
proof (induction rs arbitrary: left)
  case (Cons r rs)
  show ?case
  proof (cases "can_unlock r topo \<and> left \<noteq> 0 \<and> amount r \<le> left")
    case True
    then have "unat (left - amount r) = unat left - unat (amount r)" "unat (amount r) \<le> unat left"
      by (simp_all add: unat_sub_le word_le_nat_alt)
    moreover have "sum_amounts (unfreeze_spec topo rs (left - amount r)) + unat (left - amount r) = sum_amounts rs"
      using True Cons.prems by (intro Cons.IH) (simp add: calculation)
    ultimately show ?thesis using True by simp
  next
    case False
    with Cons.prems Cons.IH [of left] Cons.IH [of 0] show ?thesis
      by (auto simp: shrink_record_def Let_def unat_sub_le word_le_nat_alt)
  qed
qed simp

lemma spec_locked:
  "filter (\<lambda>r. \<not> can_unlock r topo) (unfreeze_spec topo rs left) = filter (\<lambda>r. \<not> can_unlock r topo) rs"
  by (induction rs arbitrary: left) (auto simp: shrink_record_def can_unlock_def Let_def)

lemma spec_records_ok:
  "list_all freeze_record_ok rs \<Longrightarrow> unat left mod unat COIN_VALUE = 0 \<Longrightarrow>
   list_all freeze_record_ok (unfreeze_spec topo rs left)"
proof (induction rs arbitrary: left)
  case (Cons r rs)
  then have "amount r \<le> left \<Longrightarrow> unat (left - amount r) mod unat COIN_VALUE = 0"
    by (auto simp: unat_sub_le freeze_record_ok_def mod_eq_0_iff_dvd intro: dvd_diff_nat)
  with Cons show ?case by (auto intro!: freeze_record_ok_shrink)
qed simp

lemma scan_energy:
  assumes "list_all freeze_record_ok rs" and "unat left mod unat COIN_VALUE = 0"
    and "sum_energy rs < 2 ^ 64"
  shows "unat (fst (snd (unfreeze_scan topo i rs left))) + sum_energy (unfreeze_spec topo rs left)
    = sum_energy rs"
  using assms
proof (induction rs arbitrary: i left)
  case (Cons r rs)
  let ?a = "min left (amount r)"
  obtain l en rm md where scan: "unfreeze_scan topo (Suc i) rs (left - ?a) = (l, en, rm, md)"
    by (metis prod_cases4)
  show ?case
  proof (cases "can_unlock r topo \<and> left \<noteq> 0")
    case False
    with Cons show ?thesis by auto
  next
    case unlocked: True
    show ?thesis
    proof (cases "amount r \<le> left")
      case True
      then have a: "?a = amount r" by (simp add: min_def)
      have "unat (left - amount r) mod unat COIN_VALUE = 0"
        using Cons.prems True
        by (auto simp: unat_sub_le freeze_record_ok_def mod_eq_0_iff_dvd intro: dvd_diff_nat)
      with Cons.IH [of "left - amount r" "Suc i"] Cons.prems scan a
      have "unat en + sum_energy (unfreeze_spec topo rs (left - amount r)) = sum_energy rs" by simp
      moreover have "amount r div COIN_VALUE * reward_multiplier (duration r) = energy_gained r"
        using Cons.prems by (simp add: freeze_record_ok_def)
      ultimately show ?thesis
        using unlocked True scan a Cons.prems by (simp add: Let_def unat_add_no_overflow)
    next
      case False
      then have a: "?a = left" and "left \<noteq> amount r" and le: "left \<le> amount r" by (auto simp: min_def)
      then show ?thesis
        using unlocked False shrink_energy [of r left] Cons.prems
        by (simp add: Let_def unfreeze_scan_0)
    qed
  qed
qed simp

lemma sum_energy_bound:
  "list_all freeze_record_ok rs \<Longrightarrow> sum_energy rs * 100000000 \<le> sum_amounts rs * 180"
proof (induction rs)
  case (Cons r rs)
  then have v: "freeze_duration_is_valid (duration r)"
    and g: "energy_gained r = amount r div COIN_VALUE * reward_multiplier (duration r)"
    by (simp_all add: freeze_record_ok_def)
  have "unat (energy_gained r) * 100000000
      = unat (amount r) div 100000000 * 100000000 * (2 * unat (days (duration r)))"
    by (simp add: g unat_gain [OF v])
  also have "\<dots> \<le> unat (amount r) * 180"
    using unat_reward_multiplier [OF v] by (intro mult_le_mono) simp_all
  finally show ?case using Cons by (simp add: distrib_right)
qed simp

lemma energy_inv_new: "energy_inv energy_resource_new"
  by (simp add: energy_inv_def energy_resource_new_def)

lemma energy_inv_freeze:
  assumes inv: "energy_inv e" and d: "freeze_duration_is_valid d"
    and fits: "unat (frozen_tos e) + unat a < 2 ^ 64"
  shows "energy_inv (snd (freeze_tos_for_energy a d topo e))"
proof -
  let ?r = "freeze_record_new a d topo" let ?rs = "freeze_records e @ [?r]"
  have ok: "list_all freeze_record_ok ?rs"
    using inv freeze_record_ok_new [OF d] by (simp add: energy_inv_def)
  have "unat (amount ?r) \<le> unat a" by (simp add: freeze_record_new_def Let_def unat_whole_tos)
  then have amounts: "unat (frozen_tos e + amount ?r) = sum_amounts ?rs" "sum_amounts ?rs < 2 ^ 64"
    using inv fits by (simp_all add: energy_inv_def unat_add_no_overflow)
  have "sum_energy ?rs * 100000000 < 2 ^ 64 * 180"
    using sum_energy_bound [OF ok] amounts(2) by simp
  then have "unat (total_energy e + energy_gained ?r) = sum_energy ?rs"
    using inv by (simp add: energy_inv_def unat_add_no_overflow)
  then show ?thesis
    using amounts ok by (simp add: freeze_tos_for_energy_def Let_def energy_inv_def)
qed

lemma unfreeze_loops:
  assumes "unfreeze_scan topo 0 rs left = (0, en, rm, md)" and "rm = [] \<or> md = []"
  shows "Option.bind (remove_records (rev rm) rs) (modify_records (rev md)) = Some (unfreeze_spec topo rs left)"
  using assms unfreeze_scan_removes [of topo rs left en rm] unfreeze_scan_modifies [of topo rs left en md]
  by auto

lemma unfreeze_tos_success:
  assumes "unfreeze_scan topo 0 (freeze_records e) (whole_tos a) = (left, en, rm, md)"
    and "rm = [] \<or> md = []" and "whole_tos a \<noteq> 0" and "whole_tos a \<le> frozen_tos e"
    and "unat (whole_tos a) \<le> sum_amounts (unlocked topo (freeze_records e))"
  shows "unfreeze_tos a topo e = Inr (en, e\<lparr>
     freeze_records := unfreeze_spec topo (freeze_records e) (whole_tos a),
     frozen_tos := frozen_tos e - whole_tos a,
     total_energy := saturating_sub (total_energy e) en, last_update := topo\<rparr>)"
proof -
  have "unat left = 0"
    using assms(1,5) scan_left [of topo 0 "freeze_records e" "whole_tos a"] by simp
  then have "left = 0" by (simp add: unat_eq_zero)
  with assms unfreeze_loops [of topo "freeze_records e" "whole_tos a" en rm md]
  show ?thesis by (simp add: unfreeze_tos_def Let_def not_less)
qed

lemma energy_inv_unfreeze:
  assumes inv: "energy_inv e"
    and scan: "unfreeze_scan topo 0 (freeze_records e) (whole_tos a) = (left, en, rm, md)"
    and fits: "whole_tos a \<le> frozen_tos e"
      "unat (whole_tos a) \<le> sum_amounts (unlocked topo (freeze_records e))"
  shows "energy_inv (e\<lparr>freeze_records := unfreeze_spec topo (freeze_records e) (whole_tos a),
     frozen_tos := frozen_tos e - whole_tos a,
     total_energy := saturating_sub (total_energy e) en, last_update := topo\<rparr>)"
proof -
  let ?rs = "unfreeze_spec topo (freeze_records e) (whole_tos a)"
  have whole: "unat (whole_tos a) mod unat COIN_VALUE = 0"
    by (simp add: unat_whole_tos unat_COIN_VALUE)
  have ok: "list_all freeze_record_ok (freeze_records e)" using inv by (simp add: energy_inv_def)
  have "sum_energy (freeze_records e) < 2 ^ 64"
    using inv unat_less_2p [of "total_energy e"] by (simp add: energy_inv_def)
  from scan_energy [OF ok whole this, of topo 0] scan
  have "unat en + sum_energy ?rs = sum_energy (freeze_records e)" by simp
  then have "unat (saturating_sub (total_energy e) en) = sum_energy ?rs"
    using inv by (simp add: energy_inv_def unat_saturating_sub)
  moreover have "unat (frozen_tos e - whole_tos a) = sum_amounts ?rs"
    using inv spec_amounts [OF fits(2)] fits(1) by (simp add: energy_inv_def unat_sub_le)
  ultimately show ?thesis
    using spec_records_ok [OF ok whole] by (simp add: energy_inv_def)
qed

section \<open>Properties\<close>

text \<open>
  Freezing coins for a valid duration keeps the energy resource exact: the frozen coins
  and the energy are the sums over the freeze records, without wrap-around, and the
  energy gained is two per whole coin and day.
\<close>

theorem freeze_keeps_totals:
  assumes "energy_inv e" and "freeze_duration_new n = Inr d" and "unat (frozen_tos e) + unat a < 2 ^ 64"
  shows "energy_inv (snd (freeze_tos_for_energy a d topo e)) \<and>
    unat (fst (freeze_tos_for_energy a d topo e)) = unat a div unat COIN_VALUE * (2 * unat n) \<and>
    unat (frozen_tos (snd (freeze_tos_for_energy a d topo e)))
      = unat (frozen_tos e) + unat a div unat COIN_VALUE * unat COIN_VALUE"
proof -
  have d: "freeze_duration_is_valid d" "days d = n"
    using assms(2) by (auto simp: freeze_duration_new_def freeze_duration_is_valid_def split: if_splits)
  have w: "whole_tos a div COIN_VALUE = a div COIN_VALUE"
    by (simp add: word_unat_eq_iff unat_div unat_whole_tos unat_COIN_VALUE)
  have "unat a div 100000000 * 100000000 \<le> unat a" by simp
  then have "unat (frozen_tos e + whole_tos a) = unat (frozen_tos e) + unat a div 100000000 * 100000000"
    using assms(3) by (subst unat_add_no_overflow) (simp_all add: unat_whole_tos)
  then show ?thesis
    using energy_inv_freeze [OF assms(1) d(1) assms(3)] d
    by (simp add: freeze_tos_for_energy_def freeze_record_new_def Let_def w unat_gain unat_COIN_VALUE)
qed

theorem freeze_keeps_totals_witness:
  "energy_inv (snd (freeze_tos_for_energy 250000000 \<lparr>days = 7\<rparr> 5 energy_resource_new)) \<and>
   unat (fst (freeze_tos_for_energy 250000000 \<lparr>days = 7\<rparr> 5 energy_resource_new)) = 28"
proof -
  have "freeze_duration_new 7 = Inr \<lparr>days = 7\<rparr>" by (simp add: freeze_duration_new_def)
  moreover have "unat (frozen_tos energy_resource_new) + unat (250000000 :: u64) < 2 ^ 64"
    by (simp add: energy_resource_new_def)
  ultimately show ?thesis
    using freeze_keeps_totals [OF energy_inv_new, of 7 "\<lparr>days = 7\<rparr>" 250000000 5]
    by (simp add: unat_COIN_VALUE)
qed


definition sample_resource :: energy_resource where
  "sample_resource = snd (freeze_tos_for_energy 300000000 \<lparr>days = 3\<rparr> 0 energy_resource_new)"

lemma sample_resource_inv: "energy_inv sample_resource"
  unfolding sample_resource_def
  by (rule energy_inv_freeze [OF energy_inv_new])
    (simp_all add: freeze_duration_is_valid_def energy_resource_new_def)




text \<open>
  Energy is never spent twice: a consumption succeeds exactly when the unused energy
  covers it, and adds exactly that amount to the energy used, which stays within the total.
\<close>

theorem consume_energy_exact:
  assumes "used_energy e \<le> total_energy e"
  shows "if unat a \<le> unat (total_energy e) - unat (used_energy e)
    then \<exists>e'. consume_energy a e = Inr e' \<and> unat (used_energy e') = unat (used_energy e) + unat a
      \<and> used_energy e' \<le> total_energy e' \<and> total_energy e' = total_energy e
    else consume_energy a e = Inl InsufficientEnergy"
proof -
  have "unat (available_energy e) = unat (total_energy e) - unat (used_energy e)"
    by (simp add: available_energy_def unat_saturating_sub)
  moreover have "unat (used_energy e) + unat a < 2 ^ 64 \<and>
      unat (used_energy e + a) = unat (used_energy e) + unat a"
    if "unat a \<le> unat (total_energy e) - unat (used_energy e)"
    using that assms unat_less_2p [of "total_energy e"]
    by (auto simp: word_le_nat_alt intro!: unat_add_no_overflow)
  ultimately show ?thesis
    using assms by (auto simp: consume_energy_def word_less_nat_alt word_le_nat_alt)
qed

theorem consume_energy_exact_witness:
  "\<exists>e'. consume_energy 5 sample_resource = Inr e' \<and> unat (used_energy e') = 5"
proof -
  have r: "used_energy sample_resource = 0" "total_energy sample_resource = 18"
    unfolding sample_resource_def by code_simp+
  show ?thesis using consume_energy_exact [of sample_resource 5] by (simp add: r) auto
qed

end
