(* ===== verification/Queue.thy ===== *)
theory Queue
  imports Prelude
begin

text \<open>
  The lookup queue of \<open>common/src/queue.rs\<close>: a hash map from keys to values beside the
  keys in insertion order. The map is an association list with distinct keys, in whatever
  order a \<open>HashMap\<close> iterates. Both structures hold clones of one \<open>Arc\<close> per key; every
  operation that unwraps it has dropped the other clone before. The queue is shown to
  implement an insertion-ordered association list, and what a client that pushes and pops
  can rely on is proved once from that contract.
\<close>

section \<open>Operations\<close>

record ('k, 'v) queue =
  keys :: "('k \<times> 'v) list"
  order :: "'k list"

definition queue_new :: "('k, 'v) queue" where
  "queue_new = \<lparr>keys = [], order = []\<rparr>"

definition queue_push_internal :: "'k \<Rightarrow> 'v \<Rightarrow> ('k, 'v) queue \<Rightarrow> ('k, 'v) queue" where
  "queue_push_internal k v q = q\<lparr>keys := map_insert k v (keys q), order := order q @ [k]\<rparr>"

definition queue_has :: "('k, 'v) queue \<Rightarrow> 'k \<Rightarrow> bool" where
  "queue_has q k = (map_of (keys q) k \<noteq> None)"

definition queue_push :: "'k \<Rightarrow> 'v \<Rightarrow> ('k, 'v) queue \<Rightarrow> bool \<times> ('k, 'v) queue" where
  "queue_push k v q = (if queue_has q k then (False, q) else (True, queue_push_internal k v q))"

definition queue_pop :: "('k, 'v) queue \<Rightarrow> ('k \<times> 'v) option \<times> ('k, 'v) queue" where
  "queue_pop q = (case order q of [] \<Rightarrow> (None, q)
     | k # ks \<Rightarrow> (case map_of (keys q) k of None \<Rightarrow> (None, q\<lparr>order := ks\<rparr>)
         | Some v \<Rightarrow> (Some (k, v), q\<lparr>keys := map_remove k (keys q), order := ks\<rparr>)))"

definition queue_remove_order :: "'k \<Rightarrow> ('k, 'v) queue \<Rightarrow> 'k option \<times> ('k, 'v) queue" where
  "queue_remove_order k q = (if k \<in> set (order q) then (Some k, q\<lparr>order := remove1 k (order q)\<rparr>)
     else (None, q))"

definition queue_remove_entry :: "'k \<Rightarrow> ('k, 'v) queue \<Rightarrow> ('k \<times> 'v) option \<times> ('k, 'v) queue" where
  "queue_remove_entry k q = (case map_of (keys q) k of None \<Rightarrow> (None, q)
     | Some v \<Rightarrow> (case queue_remove_order k (q\<lparr>keys := map_remove k (keys q)\<rparr>) of
         (None, q') \<Rightarrow> (None, q') | (Some k', q') \<Rightarrow> (Some (k', v), q')))"

definition queue_remove :: "'k \<Rightarrow> ('k, 'v) queue \<Rightarrow> 'v option \<times> ('k, 'v) queue" where
  "queue_remove k q = (case map_of (keys q) k of None \<Rightarrow> (None, q)
     | Some v \<Rightarrow> (case queue_remove_order k (q\<lparr>keys := map_remove k (keys q)\<rparr>) of
         (None, q') \<Rightarrow> (None, q') | (Some _, q') \<Rightarrow> (Some v, q')))"

definition queue_get :: "('k, 'v) queue \<Rightarrow> 'k \<Rightarrow> 'v option" where
  "queue_get q k = map_of (keys q) k"

definition queue_get_index :: "('k, 'v) queue \<Rightarrow> usize \<Rightarrow> 'k option" where
  "queue_get_index q i = (if i < length (order q) then Some (order q ! i) else None)"

definition queue_peek :: "('k, 'v) queue \<Rightarrow> 'v option" where
  "queue_peek q = (case order q of [] \<Rightarrow> None | k # _ \<Rightarrow> map_of (keys q) k)"

definition queue_peek_key :: "('k, 'v) queue \<Rightarrow> 'k option" where
  "queue_peek_key q = (case order q of [] \<Rightarrow> None | k # _ \<Rightarrow> Some k)"

definition queue_len :: "('k, 'v) queue \<Rightarrow> usize" where
  "queue_len q = length (order q)"

definition queue_is_empty :: "('k, 'v) queue \<Rightarrow> bool" where
  "queue_is_empty q = (order q = [])"

definition queue_clear :: "('k, 'v) queue \<Rightarrow> ('k, 'v) queue" where
  "queue_clear q = q\<lparr>keys := [], order := []\<rparr>"

definition queue_values :: "('k, 'v) queue \<Rightarrow> 'v list" where
  "queue_values q = map snd (keys q)"

text \<open>
  \<open>extract_if\<close>: the map is swapped with an empty one and its entries are visited; an entry
  the predicate selects leaves \<open>order\<close> and is returned, any other goes back into the map.
\<close>

fun queue_extract :: "('k \<Rightarrow> 'v \<Rightarrow> bool) \<Rightarrow> ('k \<times> 'v) list \<Rightarrow> ('k, 'v) queue \<Rightarrow>
    ('k \<times> 'v) list \<times> ('k, 'v) queue" where
  "queue_extract f [] q = ([], q)"
| "queue_extract f ((k, v) # es) q =
     (if f k v then
        (case queue_remove_order k q of
           (None, q') \<Rightarrow> queue_extract f es q'
         | (Some k', q') \<Rightarrow> (case queue_extract f es q' of (out, q'') \<Rightarrow> ((k', v) # out, q'')))
      else queue_extract f es (q\<lparr>keys := map_insert k v (keys q)\<rparr>))"

definition queue_extract_if :: "('k \<Rightarrow> 'v \<Rightarrow> bool) \<Rightarrow> ('k, 'v) queue \<Rightarrow>
    ('k \<times> 'v) list \<times> ('k, 'v) queue" where
  "queue_extract_if f q = queue_extract f (keys q) (q\<lparr>keys := []\<rparr>)"

section \<open>The contract of a first-in first-out map\<close>

primrec pop_all :: "('q \<Rightarrow> ('k \<times> 'v) option \<times> 'q) \<Rightarrow> nat \<Rightarrow> 'q \<Rightarrow> ('k \<times> 'v) list" where
  "pop_all pop 0 q = []"
| "pop_all pop (Suc n) q = (case pop q of (None, _) \<Rightarrow> []
     | (Some e, q') \<Rightarrow> e # pop_all pop n q')"

text \<open>The entries a queue keeps of a list of pushes: the first one of every key.\<close>

definition first_entries :: "('k \<times> 'v) list \<Rightarrow> ('k \<times> 'v) list" where
  "first_entries es = fold (\<lambda>(k, v) m. if k \<in> fst ` set m then m else m @ [(k, v)]) es []"

locale fifo_map =
  fixes inv :: "'q \<Rightarrow> bool"
    and entries :: "'q \<Rightarrow> ('k \<times> 'v) list"
    and empty :: 'q
    and push :: "'k \<Rightarrow> 'v \<Rightarrow> 'q \<Rightarrow> bool \<times> 'q"
    and pop :: "'q \<Rightarrow> ('k \<times> 'v) option \<times> 'q"
  assumes inv_empty: "inv empty"
    and entries_empty: "entries empty = []"
    and inv_push: "inv q \<Longrightarrow> inv (snd (push k v q))"
    and entries_push: "inv q \<Longrightarrow> entries (snd (push k v q)) =
      (if k \<in> fst ` set (entries q) then entries q else entries q @ [(k, v)])"
    and inv_pop: "inv q \<Longrightarrow> inv (snd (pop q))"
    and pop_empty: "inv q \<Longrightarrow> entries q = [] \<Longrightarrow> fst (pop q) = None"
    and pop_Cons: "inv q \<Longrightarrow> entries q = e # es \<Longrightarrow> fst (pop q) = Some e \<and> entries (snd (pop q)) = es"
begin

lemma pop_all_entries: "inv q \<Longrightarrow> length (entries q) \<le> n \<Longrightarrow> pop_all pop n q = entries q"
proof (induction n arbitrary: q)
  case (Suc n)
  show ?case
  proof (cases "entries q")
    case Nil
    with pop_empty [OF Suc.prems(1)] show ?thesis by (auto split: prod.split)
  next
    case (Cons e es)
    with pop_Cons [OF Suc.prems(1) Cons] Suc.IH [of "snd (pop q)"] inv_pop [OF Suc.prems(1)] Suc.prems
    show ?thesis by (auto split: prod.split)
  qed
qed simp

lemma inv_fold_push: "inv q \<Longrightarrow> inv (fold (\<lambda>(k, v) q. snd (push k v q)) es q)"
  by (induction es arbitrary: q) (auto simp: inv_push)

lemma entries_fold_push:
  "inv q \<Longrightarrow> entries (fold (\<lambda>(k, v) q. snd (push k v q)) es q) =
    fold (\<lambda>(k, v) m. if k \<in> fst ` set m then m else m @ [(k, v)]) es (entries q)"
  by (induction es arbitrary: q) (auto simp: inv_push entries_push)

lemma push_all_pop_all:
  "length es \<le> n \<Longrightarrow>
   pop_all pop n (fold (\<lambda>(k, v) q. snd (push k v q)) es empty) = first_entries es"
proof -
  assume n: "length es \<le> n"
  let ?q = "fold (\<lambda>(k, v) q. snd (push k v q)) es empty"
  have e: "entries ?q = first_entries es"
    by (simp add: entries_fold_push inv_empty entries_empty first_entries_def)
  have "length (fold (\<lambda>(k, v) m. if k \<in> fst ` set m then m else m @ [(k, v)]) es m)
      \<le> length m + length es" for m :: "('k \<times> 'v) list"
  proof (induction es arbitrary: m)
    case (Cons e es)
    obtain k v where "e = (k, v)" by (cases e)
    then show ?case using Cons [of m] Cons [of "m @ [(k, v)]"] by simp
  qed simp
  from this [of "[]"] n have "length (entries ?q) \<le> n" by (simp add: e first_entries_def)
  then show ?thesis by (simp add: pop_all_entries inv_fold_push inv_empty e)
qed

end

section \<open>The queue implements the contract\<close>

definition queue_inv :: "('k, 'v) queue \<Rightarrow> bool" where
  "queue_inv q \<longleftrightarrow> distinct (order q) \<and> distinct (map fst (keys q)) \<and> set (order q) = set (map fst (keys q))"

definition queue_entries :: "('k, 'v) queue \<Rightarrow> ('k \<times> 'v) list" where
  "queue_entries q = map (\<lambda>k. (k, the (map_of (keys q) k))) (order q)"

lemma map_of_None_keys: "map_of m k = None \<longleftrightarrow> k \<notin> set (map fst m)"
  by (simp add: map_of_eq_None_iff)

lemma queue_has_order: "queue_inv q \<Longrightarrow> queue_has q k \<longleftrightarrow> k \<in> set (order q)"
  by (simp add: queue_has_def queue_inv_def map_of_None_keys)

lemma fst_queue_entries [simp]: "map fst (queue_entries q) = order q"
  by (simp add: queue_entries_def comp_def)

lemma fst_image_queue_entries [simp]: "fst ` set (queue_entries q) = set (order q)"
  by (metis fst_queue_entries list.set_map)

lemma queue_inv_new: "queue_inv queue_new"
  by (simp add: queue_inv_def queue_new_def)

lemma queue_push_correct:
  assumes "queue_inv q"
  shows "queue_inv (snd (queue_push k v q)) \<and> queue_entries (snd (queue_push k v q)) =
    (if k \<in> set (order q) then queue_entries q else queue_entries q @ [(k, v)])"
  using assms queue_has_order [OF assms, of k]
  by (auto simp: queue_push_def queue_push_internal_def queue_inv_def queue_entries_def
    map_fst_map_insert)

lemma queue_order_ConsD:
  assumes "queue_inv q" and "order q = k # ks"
  obtains v where "map_of (keys q) k = Some v" and "k \<notin> set ks"
  using assms by (cases "map_of (keys q) k") (auto simp: queue_inv_def map_of_None_keys)

lemma queue_pop_correct:
  assumes "queue_inv q"
  shows "queue_inv (snd (queue_pop q)) \<and>
    (case queue_entries q of [] \<Rightarrow> fst (queue_pop q) = None \<and> snd (queue_pop q) = q
     | e # es \<Rightarrow> fst (queue_pop q) = Some e \<and> queue_entries (snd (queue_pop q)) = es)"
proof (cases "order q")
  case Nil
  with assms show ?thesis by (simp add: queue_pop_def queue_entries_def)
next
  case (Cons k ks)
  obtain v where "map_of (keys q) k = Some v" "k \<notin> set ks"
    using assms Cons by (rule queue_order_ConsD)
  with assms Cons show ?thesis
    by (auto simp: queue_pop_def queue_entries_def queue_inv_def map_fst_map_remove)
qed

interpretation lookup_queue: fifo_map queue_inv queue_entries queue_new queue_push queue_pop
proof
  fix q :: "('k, 'v) queue" assume inv: "queue_inv q"
  show "queue_inv (snd (queue_push k v q))" for k v
    using queue_push_correct [OF inv] by simp
  show "queue_entries (snd (queue_push k v q)) =
      (if k \<in> fst ` set (queue_entries q) then queue_entries q else queue_entries q @ [(k, v)])" for k v
    using queue_push_correct [OF inv] by simp
  show "queue_inv (snd (queue_pop q))" using queue_pop_correct [OF inv] by simp
  show "fst (queue_pop q) = None" if "queue_entries q = []"
    using queue_pop_correct [OF inv] that by simp
  show "fst (queue_pop q) = Some e \<and> queue_entries (snd (queue_pop q)) = es"
    if "queue_entries q = e # es" for e es
    using queue_pop_correct [OF inv] that by simp
qed (simp_all add: queue_inv_new, simp add: queue_entries_def queue_new_def)

lemma remove1_filter: "distinct xs \<Longrightarrow> remove1 x xs = filter (\<lambda>y. y \<noteq> x) xs"
  by (simp add: distinct_remove1_removeAll removeAll_filter_not_eq) (metis)

lemma queue_remove_correct:
  assumes "queue_inv q"
  shows "queue_inv (snd (queue_remove k q)) \<and> fst (queue_remove k q) = queue_get q k \<and>
    queue_entries (snd (queue_remove k q)) = filter (\<lambda>(k', _). k' \<noteq> k) (queue_entries q)"
proof (cases "map_of (keys q) k")
  case None
  then have "k \<notin> set (order q)" using assms by (simp add: queue_inv_def map_of_None_keys)
  then have "filter (\<lambda>(k', _). k' \<noteq> k) (queue_entries q) = queue_entries q"
    by (auto simp: queue_entries_def filter_id_conv)
  then show ?thesis using assms None by (simp add: queue_remove_def queue_get_def)
next
  case (Some v)
  then have "k \<in> set (order q)" using assms by (metis map_of_None_keys option.simps(3) queue_inv_def)
  then show ?thesis using assms Some
    by (auto simp: queue_remove_def queue_remove_order_def queue_get_def queue_inv_def queue_entries_def
      map_fst_map_remove remove1_filter filter_map comp_def distinct_map_filter)
qed

lemma queue_extract_correct:
  assumes "distinct (map fst (es @ keys q))" and "distinct (order q)" and "set (map fst es) \<subseteq> set (order q)"
  shows "fst (queue_extract f es q) = filter (\<lambda>(k, v). f k v) es \<and>
    keys (snd (queue_extract f es q)) = keys q @ filter (\<lambda>(k, v). \<not> f k v) es \<and>
    order (snd (queue_extract f es q)) =
      filter (\<lambda>k. k \<notin> fst ` set (filter (\<lambda>(k, v). f k v) es)) (order q)"
  using assms
proof (induction f es q rule: queue_extract.induct)
  case (2 f k v es q)
  show ?case
  proof (cases "f k v")
    case True
    let ?q = "q\<lparr>order := remove1 k (order q)\<rparr>"
    have r: "queue_remove_order k q = (Some k, ?q)" using "2.prems" by (simp add: queue_remove_order_def)
    have "fst ` set es \<subseteq> set (order ?q)" using "2.prems" by (auto simp: remove1_filter)
    with "2.IH"(2) [OF True r [symmetric] refl] "2.prems" True r show ?thesis
      by (auto simp: remove1_filter split: prod.splits intro: filter_cong)
  next
    case False
    have "map_insert k v (keys q) = keys q @ [(k, v)]"
      using "2.prems" by (intro map_insert_new) auto
    with "2.IH"(3) [OF False] "2.prems" False show ?thesis by auto
  qed
qed simp

lemma queue_lookup:
  assumes "queue_inv q"
  shows "map_of (queue_entries q) k = queue_get q k"
proof (cases "k \<in> set (order q)")
  case True
  then have "map_of (keys q) k \<noteq> None" using assms by (simp add: queue_inv_def map_of_None_keys)
  with True show ?thesis by (auto simp: queue_entries_def queue_get_def map_of_map_restrict)
next
  case False
  then have "map_of (keys q) k = None" using assms by (simp add: queue_inv_def map_of_None_keys)
  with False show ?thesis by (simp add: queue_entries_def queue_get_def map_of_map_restrict)
qed

lemma set_queue_entries: "queue_inv q \<Longrightarrow> set (queue_entries q) = set (keys q)"
proof -
  assume inv: "queue_inv q"
  have "(k, v) \<in> set (queue_entries q) \<longleftrightarrow> (k, v) \<in> set (keys q)" for k v
    using queue_lookup [OF inv, of k] inv
    by (metis fst_queue_entries map_of_eq_Some_iff queue_get_def queue_inv_def)
  then show ?thesis by auto
qed

lemma queue_extract_if_correct:
  assumes "queue_inv q"
  shows "queue_inv (snd (queue_extract_if f q)) \<and>
    set (fst (queue_extract_if f q)) = {e \<in> set (queue_entries q). f (fst e) (snd e)} \<and>
    queue_entries (snd (queue_extract_if f q)) = filter (\<lambda>(k, v). \<not> f k v) (queue_entries q)"
proof -
  note inv = assms [unfolded queue_inv_def]
  let ?r = "queue_extract_if f q"
  have ext: "fst ?r = filter (\<lambda>(k, v). f k v) (keys q)"
      "keys (snd ?r) = filter (\<lambda>(k, v). \<not> f k v) (keys q)"
      "order (snd ?r) = filter (\<lambda>k. k \<notin> fst ` set (filter (\<lambda>(k, v). f k v) (keys q))) (order q)"
    using queue_extract_correct [of "keys q" "q\<lparr>keys := []\<rparr>" f] inv by (simp_all add: queue_extract_if_def)
  have sel: "k \<notin> fst ` set (filter (\<lambda>(k, v). f k v) (keys q)) \<longleftrightarrow> \<not> f k v"
    if "map_of (keys q) k = Some v" for k v
    using that inv by (auto simp: image_iff) (metis map_of_eq_Some_iff option.inject map_of_SomeD)+
  have val: "map_of (keys q) k = Some (the (map_of (keys q) k))" if "k \<in> set (order q)" for k
    using that inv by (metis map_of_None_keys option.collapse)
  have "filter (\<lambda>k. k \<notin> fst ` set (filter (\<lambda>(k, v). f k v) (keys q))) (order q)
      = filter (\<lambda>k. \<not> f k (the (map_of (keys q) k))) (order q)"
    using sel val by (intro filter_cong) auto
  note order' = ext(3) [unfolded this]
  have keep: "map_of (keys (snd ?r)) k = map_of (keys q) k"
    if "k \<in> set (order q)" "\<not> f k (the (map_of (keys q) k))" for k
  proof -
    have "(k, the (map_of (keys q) k)) \<in> set (filter (\<lambda>(k, v). \<not> f k v) (keys q))"
      using that val [OF that(1)] by (auto dest: map_of_SomeD)
    then show ?thesis
      using val [OF that(1)] inv unfolding ext(2) by (simp add: distinct_map_filter map_of_eq_Some_iff)
  qed
  have "queue_entries (snd ?r) = filter (\<lambda>(k, v). \<not> f k v) (queue_entries q)"
    unfolding queue_entries_def order' filter_map comp_def using keep by simp
  moreover have "queue_inv (snd ?r)"
    using inv order' ext(2) val unfolding queue_inv_def
    by (auto simp: distinct_map_filter)
  ultimately show ?thesis using set_queue_entries [OF assms] ext(1) by auto
qed

section \<open>Properties\<close>

text \<open>
  First in, first out, and no key twice: whatever is pushed into a new queue, popping
  it empty returns the first entry of every key in the order of the pushes.
\<close>

theorem queue_fifo:
  "length es \<le> n \<Longrightarrow>
   pop_all queue_pop n (fold (\<lambda>(k, v) q. snd (queue_push k v q)) es queue_new) = first_entries es"
  by (rule lookup_queue.push_all_pop_all)

theorem queue_fifo_witness:
  "pop_all queue_pop 3 (fold (\<lambda>(k, v) q. snd (queue_push k v q))
     [(4::nat, ''a''), (2, ''b''), (4, ''c'')] queue_new) = [(4, ''a''), (2, ''b'')]"
  by (subst queue_fifo) (simp, simp add: first_entries_def)

text \<open>
  The keys and the order of a queue always hold the same keys: every operation keeps
  that invariant and acts on the entries in insertion order as on an association list.
  Removal answers what a lookup would have, a failed pop leaves the queue alone, and
  \<open>extract_if\<close> returns the selected entries and keeps the others in their order.
\<close>

theorem queue_refines_entries:
  assumes "queue_inv q"
  shows "queue_inv (snd (queue_push k v q)) \<and> fst (queue_push k v q) = (k \<notin> fst ` set (queue_entries q))
    \<and> queue_inv (snd (queue_pop q)) \<and> queue_get q k = map_of (queue_entries q) k
    \<and> queue_inv (snd (queue_remove k q)) \<and> fst (queue_remove k q) = map_of (queue_entries q) k
    \<and> queue_entries (snd (queue_remove k q)) = filter (\<lambda>(k', _). k' \<noteq> k) (queue_entries q)
    \<and> queue_inv (snd (queue_extract_if f q))
    \<and> set (fst (queue_extract_if f q)) = {e \<in> set (queue_entries q). f (fst e) (snd e)}
    \<and> queue_entries (snd (queue_extract_if f q)) = filter (\<lambda>(k, v). \<not> f k v) (queue_entries q)"
  using queue_push_correct [OF assms, of k v] queue_pop_correct [OF assms]
    queue_remove_correct [OF assms, of k] queue_has_order [OF assms, of k] queue_lookup [OF assms, of k]
    queue_extract_if_correct [OF assms, of f]
  by (simp add: queue_push_def)

theorem queue_refines_entries_witness:
  "queue_entries (snd (queue_remove (2::nat) \<lparr>keys = [(2, ''b''), (4, ''a'')], order = [4, 2]\<rparr>)) = [(4, ''a'')]"
proof -
  have "queue_inv \<lparr>keys = [(2::nat, ''b''), (4, ''a'')], order = [4, 2]\<rparr>"
    by (simp add: queue_inv_def insert_commute)
  from queue_refines_entries [OF this, of 2] show ?thesis by (simp add: queue_entries_def)
qed

end
