(* ===== verification/NonceChecker.thy ===== *)
theory NonceChecker
  imports Config
begin

text \<open>
  The cache of used nonces a block validation or a block template works with
  (\<open>daemon/src/core/nonce_checker.rs\<close>). The nonce the storage holds for an account at a
  topoheight is the parameter \<open>stored\<close>: an error of the storage, no account, or a nonce.
\<close>

section \<open>Operations\<close>

type_synonym nonce = u64

datatype nonce_error = StorageError | AccountNotFound public_key

record account_entry =
  initial_nonce :: nonce
  expected_nonce :: nonce
  used_nonces :: "(nonce \<times> topoheight) list"

definition account_entry_new :: "nonce \<Rightarrow> account_entry" where
  "account_entry_new n = \<lparr>initial_nonce = n, expected_nonce = n, used_nonces = []\<rparr>"

definition contains_nonce :: "account_entry \<Rightarrow> nonce \<Rightarrow> bool" where
  "contains_nonce e n = (map_of (used_nonces e) n \<noteq> None)"

definition insert_nonce_at_topoheight ::
  "nonce \<Rightarrow> topoheight \<Rightarrow> account_entry \<Rightarrow> bool \<times> account_entry" where
  "insert_nonce_at_topoheight n topo e =
     (if contains_nonce e n \<or> n \<noteq> expected_nonce e then (False, e)
      else (True, e\<lparr>expected_nonce := n + 1, used_nonces := map_insert n topo (used_nonces e)\<rparr>))"

type_synonym nonce_checker = "public_key \<rightharpoonup> account_entry"

definition nonce_checker_new :: nonce_checker where
  "nonce_checker_new = Map.empty"

definition undo_entry :: "nonce \<Rightarrow> account_entry \<Rightarrow> account_entry" where
  "undo_entry n e = (let used = map_remove n (used_nonces e) in
     e\<lparr>used_nonces := used,
       expected_nonce := (if used \<noteq> [] then fst (last used) + 1 else initial_nonce e)\<rparr>)"

definition undo_nonce :: "public_key \<Rightarrow> nonce \<Rightarrow> nonce_checker \<Rightarrow> nonce_checker" where
  "undo_nonce key n cache = (case cache key of None \<Rightarrow> cache
     | Some e \<Rightarrow> cache(key \<mapsto> undo_entry n e))"

definition use_nonce :: "(public_key \<Rightarrow> topoheight \<Rightarrow> nonce_error + nonce option) \<Rightarrow>
    public_key \<Rightarrow> nonce \<Rightarrow> topoheight \<Rightarrow> nonce_checker \<Rightarrow> (nonce_error + bool) \<times> nonce_checker" where
  "use_nonce stored key n topo cache = (case cache key of
     Some e \<Rightarrow> (case insert_nonce_at_topoheight n topo e of
       (valid, e') \<Rightarrow> if \<not> valid then (Inr False, cache(key \<mapsto> e')) else (Inr True, cache(key \<mapsto> e')))
   | None \<Rightarrow> (case stored key topo of
       Inl err \<Rightarrow> (Inl err, cache)
     | Inr None \<Rightarrow> (Inl (AccountNotFound key), cache)
     | Inr (Some stored_nonce) \<Rightarrow>
         (case insert_nonce_at_topoheight n topo (account_entry_new stored_nonce) of
            (valid, e) \<Rightarrow> (if \<not> valid then (Inr False, cache(key \<mapsto> e)) else (Inr True, cache(key \<mapsto> e))))))"

definition get_new_nonce :: "public_key \<Rightarrow> nonce_checker \<Rightarrow> nonce_error + nonce" where
  "get_new_nonce key cache = (case cache key of None \<Rightarrow> Inl (AccountNotFound key)
     | Some e \<Rightarrow> Inr (expected_nonce e))"

section \<open>Lemmas\<close>

text \<open>
  The used nonces of an entry run from the initial nonce without a gap and the next one is
  expected. The invariant is stated with the number of used nonces, so that it also covers
  an account whose nonce wraps around.
\<close>

definition entry_inv :: "account_entry \<Rightarrow> bool" where
  "entry_inv e \<longleftrightarrow> length (used_nonces e) < 2 ^ 64 \<and>
     map fst (used_nonces e) = map (\<lambda>i. initial_nonce e + of_nat i) [0..<length (used_nonces e)] \<and>
     expected_nonce e = initial_nonce e + of_nat (length (used_nonces e))"

definition checker_inv :: "nonce_checker \<Rightarrow> bool" where
  "checker_inv cache \<longleftrightarrow> (\<forall>e \<in> ran cache. entry_inv e)"

lemma entry_inv_new: "entry_inv (account_entry_new n)"
  by (simp add: entry_inv_def account_entry_new_def)

lemma of_nat_u64_inj: "i < 2 ^ 64 \<Longrightarrow> j < 2 ^ 64 \<Longrightarrow> (of_nat i :: u64) = of_nat j \<longleftrightarrow> i = j"
  by (simp add: word_unat_eq_iff unat_of_nat)

lemma contains_nonce_iff: "contains_nonce e n \<longleftrightarrow> n \<in> set (map fst (used_nonces e))"
  by (simp add: contains_nonce_def map_of_eq_None_iff)

lemma expected_fresh:
  assumes "entry_inv e"
  shows "\<not> contains_nonce e (expected_nonce e)"
  using assms by (auto simp: contains_nonce_iff entry_inv_def of_nat_u64_inj simp del: list.set_map)

lemma insert_nonce_iff:
  "entry_inv e \<Longrightarrow> fst (insert_nonce_at_topoheight n topo e) \<longleftrightarrow> n = expected_nonce e"
  using expected_fresh [of e] by (auto simp: insert_nonce_at_topoheight_def)

lemma insert_nonce_state:
  assumes "entry_inv e" and "n = expected_nonce e"
  shows "insert_nonce_at_topoheight n topo e =
    (True, e\<lparr>expected_nonce := n + 1, used_nonces := used_nonces e @ [(n, topo)]\<rparr>)"
  using expected_fresh [OF assms(1)] assms(2)
  by (simp add: insert_nonce_at_topoheight_def contains_nonce_iff map_insert_new)

lemma entry_inv_insert:
  assumes "entry_inv e" and "length (used_nonces e) < 2 ^ 64 - 1"
  shows "entry_inv (snd (insert_nonce_at_topoheight n topo e))"
proof (cases "n = expected_nonce e")
  case True
  from assms show ?thesis
    by (subst insert_nonce_state [OF assms(1) True]) (simp add: entry_inv_def True)
next
  case False
  then show ?thesis using assms by (simp add: insert_nonce_at_topoheight_def)
qed

lemma undo_entry_last:
  assumes "entry_inv e" and "used_nonces e = us @ [(n, topo)]"
  shows "undo_entry n e = e\<lparr>used_nonces := us, expected_nonce := n\<rparr> \<and> entry_inv (undo_entry n e)"
proof -
  let ?k = "length us"
  have fsts: "map fst us = map (\<lambda>i. initial_nonce e + of_nat i) [0..<?k]"
    and n: "n = initial_nonce e + of_nat ?k" and k: "Suc ?k < 2 ^ 64"
    using assms by (simp_all add: entry_inv_def)
  have "n \<notin> set (map fst us)" using k by (auto simp: fsts n of_nat_u64_inj simp del: list.set_map)
  then have rm: "map_remove n (used_nonces e) = us"
    by (force simp: assms(2) map_remove_def filter_id_conv)
  have "us \<noteq> [] \<Longrightarrow> fst (last us) = last (map fst us)" by (simp add: last_map)
  then have "us \<noteq> [] \<Longrightarrow> fst (last us) + 1 = n"
    by (simp add: fsts n last_map) (simp add: of_nat_diff algebra_simps Suc_leI)
  then have "undo_entry n e = e\<lparr>used_nonces := us, expected_nonce := n\<rparr>"
    unfolding undo_entry_def rm Let_def by (cases "us = []") (simp_all add: n)
  then show ?thesis using k by (simp add: entry_inv_def fsts n)
qed

text \<open>A client that tries a list of nonces of one account, and the nonces it got through.\<close>

fun use_all :: "(public_key \<Rightarrow> topoheight \<Rightarrow> nonce_error + nonce option) \<Rightarrow>
    public_key \<Rightarrow> (nonce \<times> topoheight) list \<Rightarrow> nonce_checker \<Rightarrow> nonce list \<times> nonce_checker" where
  "use_all stored key [] cache = ([], cache)"
| "use_all stored key ((n, topo) # xs) cache =
     (case use_nonce stored key n topo cache of (r, cache') \<Rightarrow>
        (case use_all stored key xs cache' of (ns, cache'') \<Rightarrow>
           (if r = Inr True then n # ns else ns, cache'')))"

lemma use_nonce_Some:
  "cache key = Some e \<Longrightarrow> use_nonce stored key n topo cache =
     (Inr (fst (insert_nonce_at_topoheight n topo e)),
      cache(key \<mapsto> snd (insert_nonce_at_topoheight n topo e)))"
  by (simp add: use_nonce_def split: prod.split)

lemma use_nonce_None:
  "cache key = None \<Longrightarrow> stored key topo = Inr (Some s) \<Longrightarrow>
   use_nonce stored key n topo cache = use_nonce stored key n topo (cache(key \<mapsto> account_entry_new s))"
  by (simp add: use_nonce_def split: prod.split)

lemma use_nonce_other: "key' \<noteq> key \<Longrightarrow> snd (use_nonce stored key n topo cache) key' = cache key'"
  by (simp add: use_nonce_def split: prod.split option.split sum.split)

lemma consecutive_Cons:
  "ns = map (\<lambda>i. n + 1 + of_nat i) [0..<length ns] \<Longrightarrow>
   n # ns = map (\<lambda>i. n + of_nat i :: u64) [0..<length (n # ns)]"
proof -
  assume ns: "ns = map (\<lambda>i. n + 1 + of_nat i) [0..<length ns]"
  have "[0..<Suc (length ns)] = 0 # map Suc [0..<length ns]"
    by (simp add: upt_conv_Cons map_Suc_upt del: upt_Suc)
  then have "map (\<lambda>i. n + of_nat i :: u64) [0..<length (n # ns)] =
      n # map (\<lambda>i. n + 1 + of_nat i) [0..<length ns]"
    by (simp add: comp_def add.assoc del: upt_Suc)
  then show ?thesis by (simp only: ns [symmetric])
qed

lemma use_all_consecutive:
  "cache key = Some e \<Longrightarrow> entry_inv e \<Longrightarrow> length (used_nonces e) + length xs < 2 ^ 64 \<Longrightarrow>
   use_all stored key xs cache = (ns, cache') \<Longrightarrow>
   \<exists>e'. cache' key = Some e' \<and> entry_inv e' \<and>
     expected_nonce e' = expected_nonce e + of_nat (length ns) \<and>
     ns = map (\<lambda>i. expected_nonce e + of_nat i) [0..<length ns]"
proof (induction xs arbitrary: cache e ns)
  case (Cons x xs)
  obtain n topo where x: "x = (n, topo)" by (cases x)
  let ?e = "snd (insert_nonce_at_topoheight n topo e)"
  obtain ms where rest: "use_all stored key xs (cache(key \<mapsto> ?e)) = (ms, cache')"
    and ns: "ns = (if fst (insert_nonce_at_topoheight n topo e) then n # ms else ms)"
    using Cons.prems(1,4) by (auto simp: x use_nonce_Some split: prod.splits)
  have inv: "entry_inv ?e" using Cons.prems by (intro entry_inv_insert) simp_all
  show ?case
  proof (cases "n = expected_nonce e")
    case True
    note ins = insert_nonce_state [OF Cons.prems(2) True, of topo]
    have e: "expected_nonce ?e = n + 1" "length (used_nonces ?e) = Suc (length (used_nonces e))"
      and ms: "ns = n # ms" by (simp_all only: ins ns fst_conv if_True snd_conv) simp_all
    obtain e' where "cache' key = Some e'" "entry_inv e'"
        "expected_nonce e' = n + 1 + of_nat (length ms)"
        "ms = map (\<lambda>i. n + 1 + of_nat i) [0..<length ms]"
      using Cons.IH [OF _ inv _ rest] Cons.prems(3) unfolding e by auto
    then show ?thesis
      using consecutive_Cons [of ms n] unfolding ms True [symmetric] by (simp add: add.assoc)
  next
    case False
    then have "insert_nonce_at_topoheight n topo e = (False, e)"
      by (simp add: insert_nonce_at_topoheight_def)
    with Cons.IH [OF _ inv _ rest] Cons.prems(3) ns show ?thesis by simp
  qed
qed auto

lemma use_then_undo:
  assumes "cache key = Some e" and "entry_inv e" and "length (used_nonces e) < 2 ^ 64 - 1"
    and "use_nonce stored key n topo cache = (Inr True, cache')"
  shows "undo_nonce key n cache' = cache"
proof -
  have n: "n = expected_nonce e"
    using assms(1,4) insert_nonce_iff [OF assms(2), of n topo] by (simp add: use_nonce_Some)
  note ins = insert_nonce_state [OF assms(2) n, of topo]
  let ?e = "snd (insert_nonce_at_topoheight n topo e)"
  have c: "cache' = cache(key \<mapsto> ?e)" using assms(1,4) by (simp add: use_nonce_Some)
  have "undo_entry n ?e = e"
    using undo_entry_last [OF entry_inv_insert [OF assms(2,3), of n topo], of "used_nonces e" n topo]
    unfolding ins by (simp add: n)
  then show ?thesis using assms(1) by (simp add: c undo_nonce_def fun_upd_idem)
qed

section \<open>Properties\<close>

text \<open>
  C38. Whatever nonces are tried for an account, those that get through are the stored nonce
  and its successors, in order, without a gap and without a repetition, and the next nonce
  the checker asks for is the one after them.
\<close>

theorem nonces_used_in_sequence:
  assumes "cache key = None" and "\<forall>topo. stored key topo = Inr (Some s)"
    and "length xs < 2 ^ 64" and "xs \<noteq> []" and "use_all stored key xs cache = (ns, cache')"
  shows "ns = map (\<lambda>i. s + of_nat i) [0..<length ns] \<and> distinct ns \<and>
    get_new_nonce key cache' = Inr (s + of_nat (length ns))"
proof -
  have "use_all stored key xs cache = use_all stored key xs (cache(key \<mapsto> account_entry_new s))"
    using assms(1,2,4) by (cases xs) (auto simp: use_nonce_None [of cache key stored _ s])
  then have run: "use_all stored key xs (cache(key \<mapsto> account_entry_new s)) = (ns, cache')"
    using assms(5) by simp
  obtain e' where e': "cache' key = Some e'" "expected_nonce e' = s + of_nat (length ns)"
    and ns: "ns = map (\<lambda>i. s + of_nat i) [0..<length ns]" and inv: "entry_inv e'"
    using use_all_consecutive [OF _ entry_inv_new _ run, of s] assms(3)
    by (auto simp: account_entry_new_def)
  have "length ns \<le> length xs" using assms(5)
    by (induction stored key xs cache arbitrary: ns rule: use_all.induct)
      (fastforce split: prod.splits if_splits)+
  then have "distinct (map (\<lambda>i. s + of_nat i :: u64) [0..<length ns])"
    using assms(3) by (auto simp: distinct_map inj_on_def of_nat_u64_inj)
  then have "distinct ns" by (simp only: ns [symmetric])
  with ns show ?thesis unfolding get_new_nonce_def e'(1) option.case e'(2) by blast
qed

theorem nonces_used_in_sequence_witness:
  "\<exists>cache'. use_all (\<lambda>_ _. Inr (Some 7)) (PublicKey []) [(7, 1), (9, 1), (8, 2), (7, 3)] nonce_checker_new
     = ([7, 8], cache') \<and> get_new_nonce (PublicKey []) cache' = Inr 9"
proof -
  let ?run = "use_all (\<lambda>_ _. Inr (Some 7)) (PublicKey []) [(7, 1), (9, 1), (8, 2), (7, 3)] nonce_checker_new"
  have run: "?run = ([7, 8], snd ?run)"
    by (simp add: use_nonce_def nonce_checker_new_def insert_nonce_at_topoheight_def contains_nonce_def
      account_entry_new_def prod_eq_iff)
  have "get_new_nonce (PublicKey []) (snd ?run) = Inr (7 + of_nat (length [7 :: nonce, 8]))"
    using nonces_used_in_sequence [OF _ _ _ _ run, of 7] by (simp add: nonce_checker_new_def)
  with run show ?thesis by auto
qed

text \<open>
  Undoing a nonce right after it was used restores the checker as it was, for every
  account.
\<close>

theorem undo_restores_checker:
  assumes "checker_inv cache" and "cache key = Some e" and "length (used_nonces e) < 2 ^ 64 - 1"
    and "use_nonce stored key n topo cache = (Inr True, cache')"
  shows "undo_nonce key n cache' = cache"
  using use_then_undo [OF assms(2) _ assms(3,4)] assms(1,2) by (auto simp: checker_inv_def ran_def)

theorem undo_restores_checker_witness:
  "undo_nonce (PublicKey []) 7 (snd (use_nonce (\<lambda>_ _. Inr None) (PublicKey []) 7 1
     [PublicKey [] \<mapsto> account_entry_new 7])) = [PublicKey [] \<mapsto> account_entry_new 7]"
proof (rule undo_restores_checker [where e = "account_entry_new 7" and topo = 1 and stored = "\<lambda>_ _. Inr None"])
  show "checker_inv [PublicKey [] \<mapsto> account_entry_new 7]"
    by (simp add: checker_inv_def entry_inv_new)
qed (simp_all add: account_entry_new_def use_nonce_def insert_nonce_at_topoheight_def contains_nonce_def)

end
