(* ===== verification/Merkle.thy ===== *)
theory Merkle
  imports Codecs
begin

text \<open>
  The Merkle tree builder of \<open>daemon/src/core/merkle.rs\<close>. Its state is the list of
  hashes. The hash function of the crypto crate is the parameter \<open>H\<close>. \<open>build\<close> on an empty
  builder takes the first element of an empty vector and panics (\<open>None\<close>).
\<close>

section \<open>Operations\<close>

type_synonym merkle_builder = "hash list"

definition merkle_new :: merkle_builder where "merkle_new = []"

definition merkle_from_iter :: "hash list \<Rightarrow> merkle_builder" where
  "merkle_from_iter hs = hs"

definition merkle_add :: "hash \<Rightarrow> merkle_builder \<Rightarrow> merkle_builder" where
  "merkle_add h b = b @ [h]"

definition merkle_add_bytes :: "(u8 list \<Rightarrow> hash) \<Rightarrow> u8 list \<Rightarrow> merkle_builder \<Rightarrow> merkle_builder" where
  "merkle_add_bytes H bs b = b @ [H bs]"

definition merkle_add_element :: "(u8 list \<Rightarrow> hash) \<Rightarrow> (writer \<Rightarrow> writer) \<Rightarrow> merkle_builder \<Rightarrow> merkle_builder" where
  "merkle_add_element H w b = b @ [H (to_bytes w)]"

definition merkle_add_as_hash :: "u8 list \<Rightarrow> merkle_builder \<Rightarrow> merkle_builder" where
  "merkle_add_as_hash bs b = b @ [Hash bs]"

fun merkle_layer :: "(u8 list \<Rightarrow> hash) \<Rightarrow> hash list \<Rightarrow> hash list" where
  "merkle_layer H [] = []"
| "merkle_layer H [x] = [H (as_bytes x @ as_bytes x)]"
| "merkle_layer H (x # y # hs) = H (as_bytes x @ as_bytes y) # merkle_layer H hs"

lemma length_merkle_layer: "length (merkle_layer H hs) = (length hs + 1) div 2"
  by (induction H hs rule: merkle_layer.induct) auto

function merkle_build :: "(u8 list \<Rightarrow> hash) \<Rightarrow> merkle_builder \<Rightarrow> (hash \<times> merkle_builder) option" where
  "merkle_build H hs = (if length hs > 1 then merkle_build H (merkle_layer H hs)
     else case hs of [] \<Rightarrow> None | h # rest \<Rightarrow> Some (h, rest))"
  by pat_completeness auto
termination by (relation "measure (\<lambda>(H, hs). length hs)") (auto simp: length_merkle_layer)

declare merkle_build.simps [simp del]

definition merkle_verify :: "(u8 list \<Rightarrow> hash) \<Rightarrow> hash \<Rightarrow> merkle_builder \<Rightarrow> (bool \<times> merkle_builder) option" where
  "merkle_verify H root b = map_option (\<lambda>(h, b'). (h = root, b')) (merkle_build H b)"

section \<open>Lemmas\<close>

lemma merkle_build_Some: "hs \<noteq> [] \<Longrightarrow> \<exists>h. merkle_build H hs = Some (h, [])"
proof (induction H hs rule: merkle_build.induct)
  case (1 H hs)
  show ?case
  proof (cases "length hs > 1")
    case True
    then have "merkle_layer H hs \<noteq> []" using length_merkle_layer [of H hs] by auto
    with 1 True show ?thesis by (simp add: merkle_build.simps [of H hs])
  next
    case False
    with "1.prems" obtain h where "hs = [h]" by (cases hs) auto
    then show ?thesis by (simp add: merkle_build.simps [of H "[h]"])
  qed
qed

lemma merkle_layer_ok:
  "(\<And>x. hash_ok (H x)) \<Longrightarrow> list_all hash_ok (merkle_layer H hs)"
  by (induction H hs rule: merkle_layer.induct) auto

lemma concat_hashes_eq:
  "hash_ok a \<Longrightarrow> hash_ok b \<Longrightarrow> as_bytes a @ as_bytes c = as_bytes b @ as_bytes d \<Longrightarrow> a = b \<and> c = d"
  by (simp add: hash_ok_def hash.expand)

lemma merkle_layer_inj:
  "inj H \<Longrightarrow> length hs = length gs \<Longrightarrow> list_all hash_ok hs \<Longrightarrow> list_all hash_ok gs \<Longrightarrow>
    merkle_layer H hs = merkle_layer H gs \<Longrightarrow> hs = gs"
proof (induction H hs arbitrary: gs rule: merkle_layer.induct)
  case (2 H x)
  then obtain y where "gs = [y]" by (cases gs) auto
  with 2 show ?case
    by (auto dest!: injD [OF "2.prems"(1)] dest: concat_hashes_eq)
next
  case (3 H x y hs)
  from 3 have "length gs = Suc (Suc (length hs))" by simp
  then obtain x' y' gs' where "gs = x' # y' # gs'" by (auto simp: length_Suc_conv)
  with 3 show ?case 
    by (auto dest!: injD [OF "3.prems"(1)] dest: concat_hashes_eq [of x x' y y'])
qed simp

lemma merkle_build_single: "merkle_build H [h] = Some (h, [])"
  by (simp add: merkle_build.simps [of H "[h]"])

lemma merkle_build_inj:
  assumes "inj H" and "\<And>x. hash_ok (H x)"
  shows "length hs = length gs \<Longrightarrow> list_all hash_ok hs \<Longrightarrow> list_all hash_ok gs \<Longrightarrow>
    merkle_build H hs = merkle_build H gs \<Longrightarrow> hs = gs"
proof (induction "length hs" arbitrary: hs gs rule: less_induct)
  case less
  show ?case
  proof (cases "length hs > 1")
    case True
    let ?h = "merkle_layer H hs" and ?g = "merkle_layer H gs"
    have "length ?h < length hs" using True by (simp add: length_merkle_layer)
    moreover have "length ?h = length ?g" using less.prems by (simp add: length_merkle_layer)
    moreover have "merkle_build H ?h = merkle_build H ?g"
      using less.prems True by (simp add: merkle_build.simps [of H hs] merkle_build.simps [of H gs])
    ultimately have "?h = ?g" 
      by (intro less.hyps) (simp_all add: merkle_layer_ok assms(2))
    with less.prems show ?thesis using merkle_layer_inj [OF assms(1)] by blast
  next
    case False
    with less.prems show ?thesis
      by (cases hs; cases gs) (auto simp: merkle_build_single)
  qed
qed

lemma merkle_layer_dup:
  "odd (length hs) \<Longrightarrow> merkle_layer H (hs @ [last hs]) = merkle_layer H hs"
  by (induction H hs rule: merkle_layer.induct) auto

section \<open>Properties\<close>



text \<open>
  The root does not commit to the number of leaves: repeating the last hash of an odd
  list of three or more leaves the root unchanged.
\<close>

theorem merkle_root_repeats_last:
  assumes "odd (length hs)" and "length hs \<ge> 3"
  shows "merkle_build H (hs @ [last hs]) = merkle_build H hs"
proof -
  have "merkle_build H (hs @ [last hs]) = merkle_build H (merkle_layer H (hs @ [last hs]))"
    using assms by (subst merkle_build.simps) auto
  also have "\<dots> = merkle_build H (merkle_layer H hs)" by (simp only: merkle_layer_dup [OF assms(1)])
  also have "\<dots> = merkle_build H hs" using assms by (subst (2) merkle_build.simps) auto
  finally show ?thesis .
qed

theorem merkle_root_repeats_last_witness:
  "merkle_build (\<lambda>bs. Hash (take 32 (rev bs))) [hash_zero, hash_max, hash_zero, hash_zero] =
   merkle_build (\<lambda>bs. Hash (take 32 (rev bs))) [hash_zero, hash_max, hash_zero]"
  using merkle_root_repeats_last [of "[hash_zero, hash_max, hash_zero]"] by simp

end
