(* ===== verification/HardFork.thy ===== *)
theory HardFork
  imports Config
begin

text \<open>
  Networks, block and transaction versions, and the schedule that fixes the block version of
  a height: \<open>common/src/network.rs\<close>, \<open>common/src/block/version.rs\<close>,
  \<open>common/src/transaction/version.rs\<close>, the tables of \<open>daemon/src/config.rs\<close> and the queries
  of \<open>daemon/src/core/hard_fork.rs\<close>. Matching a software version against a requirement is
  the work of the \<open>semver\<close> crate: the parameter \<open>matches\<close>.
\<close>

section \<open>Networks and versions\<close>

datatype network = Mainnet | Testnet | Stagenet | Devnet

definition is_mainnet :: "network \<Rightarrow> bool" where
  "is_mainnet n = (case n of Mainnet \<Rightarrow> True | _ \<Rightarrow> False)"

fun network_id :: "network \<Rightarrow> u8" where
  "network_id Mainnet = 0"
| "network_id Testnet = 1"
| "network_id Stagenet = 2"
| "network_id Devnet = 3"

definition write_network :: "network \<Rightarrow> writer \<Rightarrow> writer" where
  "write_network n = write_u8 (network_id n)"

definition read_network :: "network rd" where
  "read_network = rbind read_u8 (\<lambda>b.
     if b = 0 then rreturn Mainnet else if b = 1 then rreturn Testnet
     else if b = 2 then rreturn Stagenet else if b = 3 then rreturn Devnet
     else rfail InvalidValue)"

datatype tx_version = T0

fun tx_version_try_from :: "u8 \<Rightarrow> tx_version option" where
  "tx_version_try_from b = (if b = 0 then Some T0 else None)"

fun tx_version_to_u8 :: "tx_version \<Rightarrow> u8" where
  "tx_version_to_u8 T0 = 0"

definition write_tx_version :: "tx_version \<Rightarrow> writer \<Rightarrow> writer" where
  "write_tx_version v = write_u8 (tx_version_to_u8 v)"

definition read_tx_version :: "tx_version rd" where
  "read_tx_version = rbind read_u8 (\<lambda>b. case tx_version_try_from b of
     None \<Rightarrow> rfail InvalidValue | Some v \<Rightarrow> rreturn v)"

datatype block_version = V0 | V1 | V2 | V3

fun block_version_id :: "block_version \<Rightarrow> u8" where
  "block_version_id V0 = 0"
| "block_version_id V1 = 1"
| "block_version_id V2 = 2"
| "block_version_id V3 = 3"

text \<open>The derived \<open>Ord\<close>: the order of the variants.\<close>

instantiation block_version :: linorder
begin

definition less_eq_block_version :: "block_version \<Rightarrow> block_version \<Rightarrow> bool" where
  "less_eq_block_version a b = (block_version_id a \<le> block_version_id b)"

definition less_block_version :: "block_version \<Rightarrow> block_version \<Rightarrow> bool" where
  "less_block_version a b = (block_version_id a < block_version_id b)"

instance
proof
  fix a b :: block_version
  show "a \<le> b \<Longrightarrow> b \<le> a \<Longrightarrow> a = b"
    by (cases a; cases b) (simp_all add: less_eq_block_version_def word_le_nat_alt)
qed (auto simp: less_eq_block_version_def less_block_version_def)

end

definition is_tx_version_allowed :: "block_version \<Rightarrow> tx_version \<Rightarrow> bool" where
  "is_tx_version_allowed b t = (case b of V0 \<Rightarrow> t = T0 | V1 \<Rightarrow> t = T0 | V2 \<Rightarrow> t = T0 | V3 \<Rightarrow> t = T0)"

definition get_tx_version :: "block_version \<Rightarrow> tx_version" where
  "get_tx_version b = (case b of V0 \<Rightarrow> T0 | V1 \<Rightarrow> T0 | V2 \<Rightarrow> T0 | V3 \<Rightarrow> T0)"

definition block_version_try_from :: "u8 \<Rightarrow> block_version option" where
  "block_version_try_from b = (if b = 0 then Some V0 else if b = 1 then Some V1
     else if b = 2 then Some V2 else if b = 3 then Some V3 else None)"

definition write_block_version :: "block_version \<Rightarrow> writer \<Rightarrow> writer" where
  "write_block_version v = write_u8 (block_version_id v)"

definition read_block_version :: "block_version rd" where
  "read_block_version = rbind read_u8 (\<lambda>b. case block_version_try_from b of
     None \<Rightarrow> rfail InvalidValue | Some v \<Rightarrow> rreturn v)"

section \<open>The schedule\<close>

record hard_fork =
  fork_height :: u64
  fork_version :: block_version
  changelog :: string
  version_requirement :: "string option"

definition HARD_FORKS :: "hard_fork list" where
  "HARD_FORKS = [
     \<lparr>fork_height = 0, fork_version = V0, changelog = ''Initial version'', version_requirement = None\<rparr>,
     \<lparr>fork_height = 0, fork_version = V1, changelog = ''terminos-hash v2'', version_requirement = None\<rparr>,
     \<lparr>fork_height = 0, fork_version = V2, changelog = ''MultiSig, P2P'', version_requirement = None\<rparr>]"

definition OTHERS_NETWORK_HARD_FORKS :: "hard_fork list" where
  "OTHERS_NETWORK_HARD_FORKS = [
     \<lparr>fork_height = 0, fork_version = V0, changelog = ''Initial version'', version_requirement = None\<rparr>,
     \<lparr>fork_height = 5, fork_version = V1, changelog = ''terminos-hash v2'', version_requirement = Some ''>=1.13.0''\<rparr>,
     \<lparr>fork_height = 10, fork_version = V2, changelog = ''MultiSig, P2P'', version_requirement = Some ''>=1.16.0''\<rparr>,
     \<lparr>fork_height = 15, fork_version = V3, changelog = ''Smart Contracts'', version_requirement = Some ''>=1.16.0''\<rparr>]"

definition get_hard_forks :: "network \<Rightarrow> hard_fork list" where
  "get_hard_forks n = (case n of Mainnet \<Rightarrow> HARD_FORKS | _ \<Rightarrow> OTHERS_NETWORK_HARD_FORKS)"

fun hard_fork_loop :: "u64 \<Rightarrow> hard_fork list \<Rightarrow> hard_fork option \<Rightarrow> hard_fork option" where
  "hard_fork_loop height [] hardfork = hardfork"
| "hard_fork_loop height (conf # confs) hardfork =
     (if height \<ge> fork_height conf then hard_fork_loop height confs (Some conf) else hardfork)"

definition get_hard_fork_at_height :: "network \<Rightarrow> u64 \<Rightarrow> hard_fork option" where
  "get_hard_fork_at_height n height = hard_fork_loop height (get_hard_forks n) None"

definition has_hard_fork_at_height :: "network \<Rightarrow> u64 \<Rightarrow> bool \<times> block_version" where
  "has_hard_fork_at_height n height = (case get_hard_fork_at_height n height of
     Some f \<Rightarrow> (fork_height f = height, fork_version f) | None \<Rightarrow> (False, V0))"

definition get_version_at_height :: "network \<Rightarrow> u64 \<Rightarrow> block_version" where
  "get_version_at_height n height = snd (has_hard_fork_at_height n height)"

datatype algorithm = AlgoV1 | AlgoV2

definition get_pow_algorithm_for_version :: "block_version \<Rightarrow> algorithm" where
  "get_pow_algorithm_for_version v = (case v of V0 \<Rightarrow> AlgoV1 | _ \<Rightarrow> AlgoV2)"

definition MILLIS_PER_SECOND :: u64 where "MILLIS_PER_SECOND = 1000"

definition get_block_time_target_for_version :: "block_version \<Rightarrow> u64" where
  "get_block_time_target_for_version v = (case v of
     V0 \<Rightarrow> 60 * MILLIS_PER_SECOND | V1 \<Rightarrow> 12 * MILLIS_PER_SECOND
   | V2 \<Rightarrow> 12 * MILLIS_PER_SECOND | V3 \<Rightarrow> 5 * MILLIS_PER_SECOND)"

definition software_version :: "string \<Rightarrow> string" where
  "software_version version = takeWhile (\<lambda>c. c \<noteq> CHR ''-'') version"

definition is_version_matching_requirement ::
  "(string \<Rightarrow> string \<Rightarrow> 'e + bool) \<Rightarrow> string \<Rightarrow> string \<Rightarrow> 'e + bool" where
  "is_version_matching_requirement matches version req = matches req (software_version version)"

fun version_allowed_loop ::
  "(string \<Rightarrow> string \<Rightarrow> 'e + bool) \<Rightarrow> u64 \<Rightarrow> string \<Rightarrow> hard_fork list \<Rightarrow> 'e + bool" where
  "version_allowed_loop matches height version [] = Inr True"
| "version_allowed_loop matches height version (f # fs) =
     (case version_requirement f of
        Some req \<Rightarrow> if fork_height f \<le> height
          then (case is_version_matching_requirement matches version req of
              Inl e \<Rightarrow> Inl e
            | Inr m \<Rightarrow> if \<not> m then Inr False else version_allowed_loop matches height version fs)
          else version_allowed_loop matches height version fs
      | None \<Rightarrow> version_allowed_loop matches height version fs)"

definition is_version_allowed_at_height ::
  "(string \<Rightarrow> string \<Rightarrow> 'e + bool) \<Rightarrow> network \<Rightarrow> u64 \<Rightarrow> string \<Rightarrow> 'e + bool" where
  "is_version_allowed_at_height matches n height version =
     version_allowed_loop matches height version (get_hard_forks n)"

definition is_version_enabled_at_height :: "network \<Rightarrow> u64 \<Rightarrow> block_version \<Rightarrow> bool" where
  "is_version_enabled_at_height n height v =
     list_ex (\<lambda>f. fork_height f \<le> height \<and> fork_version f = v) (get_hard_forks n)"

definition is_tx_version_allowed_in_block_version :: "tx_version \<Rightarrow> block_version \<Rightarrow> bool" where
  "is_tx_version_allowed_in_block_version t b = is_tx_version_allowed b t"

section \<open>Lemmas\<close>

lemma byte_codec:
  assumes "\<And>x. dec (enc x) = Some x" and "\<And>b x. dec b = Some x \<Longrightarrow> enc x = b"
    and "wr = (\<lambda>x. write_u8 (enc x))"
    and "rd = rbind read_u8 (\<lambda>b. case dec b of None \<Rightarrow> rfail InvalidValue | Some x \<Rightarrow> rreturn x)"
  shows "strict_serializer wr rd (\<lambda>_. 1) (\<lambda>_. True)"
proof
  show "accepts rd (\<lambda>x bs. True \<and> bs = to_bytes (wr x))"
    unfolding assms(3,4)
    by (rule accepts_bindI [OF u8.read_strict])
      (auto simp: codec_simps assms(2) intro!: accepts_return accepts_fail split: option.split)
  show "reads rd x (to_bytes (wr x))" for x
    unfolding assms(3,4)
    by (intro reads_bind_tail [OF u8.read_write]) (simp_all add: assms(1) reads_return)
qed (auto simp: assms(3,4) codec_simps split: option.split intro!: codec_intros)

interpretation block_version: strict_serializer write_block_version read_block_version
  "\<lambda>_. 1" "\<lambda>_. True"
proof (rule byte_codec [of block_version_try_from block_version_id])
  show "block_version_try_from (block_version_id v) = Some v" for v
    by (cases v) (simp_all add: block_version_try_from_def)
qed (auto simp: block_version_try_from_def write_block_version_def read_block_version_def split: if_splits)

interpretation tx_version: strict_serializer write_tx_version read_tx_version "\<lambda>_. 1" "\<lambda>_. True"
proof (rule byte_codec [of tx_version_try_from tx_version_to_u8])
  show "tx_version_try_from (tx_version_to_u8 v) = Some v" for v by (cases v) simp
qed (auto simp: write_tx_version_def read_tx_version_def split: if_splits)

lemma read_network_alt:
  "read_network = rbind read_u8 (\<lambda>b. case (if b = 0 then Some Mainnet else if b = 1 then Some Testnet
     else if b = 2 then Some Stagenet else if b = 3 then Some Devnet else None) of
       None \<Rightarrow> rfail InvalidValue | Some n \<Rightarrow> rreturn n)"
  unfolding read_network_def by (rule arg_cong [where f = "rbind read_u8"]) auto

interpretation network: strict_serializer write_network read_network "\<lambda>_. 1" "\<lambda>_. True"
proof (rule byte_codec [of "\<lambda>b. if b = 0 then Some Mainnet else if b = 1 then Some Testnet
     else if b = 2 then Some Stagenet else if b = 3 then Some Devnet else None" network_id, OF _ _ _ read_network_alt])
  show "(if network_id n = 0 then Some Mainnet else if network_id n = 1 then Some Testnet
     else if network_id n = 2 then Some Stagenet else if network_id n = 3 then Some Devnet else None) = Some n" for n
    by (cases n) simp_all
qed (auto simp: write_network_def split: if_splits)

text \<open>On a schedule sorted by height the loop finds the last fork that has started.\<close>

lemma hard_fork_loop_filter:
  "sorted (map fork_height confs) \<Longrightarrow> hard_fork_loop height confs f =
     (let started = filter (\<lambda>c. fork_height c \<le> height) confs in
      if started = [] then f else Some (last started))"
proof (induction confs arbitrary: f)
  case (Cons c confs)
  then have "\<not> fork_height c \<le> height \<Longrightarrow> filter (\<lambda>c. fork_height c \<le> height) confs = []"
    by (auto simp: filter_empty_conv)
  with Cons show ?case by (auto simp: Let_def)
qed simp

lemma get_hard_forks_sorted: "sorted (map fork_height (get_hard_forks n))"
  by (cases n) (simp_all add: get_hard_forks_def HARD_FORKS_def OTHERS_NETWORK_HARD_FORKS_def)

lemma version_table:
  "get_version_at_height n h = (if n = Mainnet then V2
     else if h < 5 then V0 else if h < 10 then V1 else if h < 15 then V2 else V3)"
  by (cases n) (auto simp: get_version_at_height_def has_hard_fork_at_height_def
    get_hard_fork_at_height_def get_hard_forks_def HARD_FORKS_def OTHERS_NETWORK_HARD_FORKS_def not_le)

lemma version_enabled_table:
  "is_version_enabled_at_height n h v = (v \<le> get_version_at_height n h)"
  unfolding version_table
  by (cases n; cases v) (auto simp: is_version_enabled_at_height_def get_hard_forks_def HARD_FORKS_def
    OTHERS_NETWORK_HARD_FORKS_def less_eq_block_version_def word_le_nat_alt word_less_nat_alt)

section \<open>Properties\<close>

text \<open>
  The block version never goes back: it is the version of the last fork of the network's
  schedule that has started, it grows with the height, and a version counts as enabled at a
  height exactly when it is not above the block version there.
\<close>

theorem block_version_schedule:
  "get_version_at_height n h =
     fork_version (last (filter (\<lambda>f. fork_height f \<le> h) (get_hard_forks n)))
   \<and> is_version_enabled_at_height n h v = (v \<le> get_version_at_height n h)
   \<and> (get_version_at_height n h \<le> get_version_at_height n (max h h'))"
proof (intro conjI)
  let ?s = "filter (\<lambda>f. fork_height f \<le> h) (get_hard_forks n)"
  have "?s \<noteq> []"
    by (cases n) (simp_all add: get_hard_forks_def HARD_FORKS_def OTHERS_NETWORK_HARD_FORKS_def)
  then show "get_version_at_height n h = fork_version (last ?s)"
    by (simp add: get_version_at_height_def has_hard_fork_at_height_def get_hard_fork_at_height_def
      hard_fork_loop_filter [OF get_hard_forks_sorted])
  show "get_version_at_height n h \<le> get_version_at_height n (max h h')"
    unfolding version_table by (auto simp: less_eq_block_version_def max_def word_le_nat_alt word_less_nat_alt)
qed (rule version_enabled_table)

end
