(* ===== verification/Difficulty.thy ===== *)
theory Difficulty
  imports VarUint HardFork "HOL-Library.Monad_Syntax"
begin

text \<open>
  The difficulty adjustment of \<open>daemon/src/core/difficulty\<close>: a Kalman filter over 256-bit
  integers estimates the hashrate from the solve time of the last block. Every arithmetic
  step can panic on overflow or on a zero divisor, so the functions run in the option monad.
  The lemmas show that with the difficulties a chain can reach no step ever does, and that
  the new difficulty lies between the old one and the one the solve time suggests.
\<close>

section \<open>Operations\<close>

definition HASH :: u64 where "HASH = 1"

definition KILO_HASH :: u64 where "KILO_HASH = HASH * 1000"

definition MEGA_HASH :: u64 where "MEGA_HASH = KILO_HASH * 1000"

definition GIGA_HASH :: u64 where "GIGA_HASH = MEGA_HASH * 1000"

definition MAINNET_MINIMUM_HASHRATE :: u64 where "MAINNET_MINIMUM_HASHRATE = 20 * KILO_HASH"

definition DEFAULT_MINIMUM_HASHRATE :: u64 where "DEFAULT_MINIMUM_HASHRATE = 100 * HASH"

definition GENESIS_BLOCK_DIFFICULTY :: difficulty where
  "GENESIS_BLOCK_DIFFICULTY = varuint_from_u64 1"

definition kalman_filter :: "var_uint \<Rightarrow> var_uint \<Rightarrow> var_uint \<Rightarrow> u64 \<Rightarrow> var_uint \<Rightarrow> var_uint \<Rightarrow>
    (var_uint \<times> var_uint) option" where
  "kalman_filter z x_est_prev p_prev shift left_shift process_noise_covar = do {
     z \<leftarrow> varuint_mul z left_shift;
     r \<leftarrow> varuint_mul_u64 z 2;
     x_est_prev \<leftarrow> varuint_mul x_est_prev left_shift;
     noise \<leftarrow> varuint_mul x_est_prev process_noise_covar;
     p_pred \<leftarrow> varuint_add (varuint_shr noise shift) p_prev;
     d \<leftarrow> varuint_add p_pred r;
     d \<leftarrow> varuint_add d varuint_one;
     k \<leftarrow> varuint_div (varuint_shl p_pred shift) d;
     x_est_new \<leftarrow> (if z \<ge> x_est_prev then do {
         diff \<leftarrow> varuint_sub z x_est_prev;
         step \<leftarrow> varuint_mul k diff;
         varuint_add x_est_prev (varuint_shr step shift)
       } else do {
         diff \<leftarrow> varuint_sub x_est_prev z;
         step \<leftarrow> varuint_mul k diff;
         varuint_sub x_est_prev (varuint_shr step shift)
       });
     left \<leftarrow> varuint_sub left_shift k;
     p_new \<leftarrow> varuint_mul left p_pred;
     Some (varuint_shr x_est_new shift, varuint_shr p_new shift)
   }"

definition SHIFT_v1 :: u64 where "SHIFT_v1 = 32"

definition LEFT_SHIFT_v1 :: var_uint where "LEFT_SHIFT_v1 = varuint_from_u64 (push_bit 32 1)"

definition PROCESS_NOISE_COVAR_v1 :: var_uint where
  "PROCESS_NOISE_COVAR_v1 = varuint_from_u64 (push_bit 32 1 div 100 * 5)"

definition P_v1 :: var_uint where "P_v1 = LEFT_SHIFT_v1"

definition calculate_difficulty_v1 :: "u64 \<Rightarrow> difficulty \<Rightarrow> var_uint \<Rightarrow> difficulty \<Rightarrow> u64 \<Rightarrow>
    (difficulty \<times> var_uint) option" where
  "calculate_difficulty_v1 solve_time previous_difficulty p minimum_difficulty target_block_time = do {
     z \<leftarrow> varuint_div_u64 previous_difficulty solve_time;
     x \<leftarrow> varuint_div_u64 previous_difficulty target_block_time;
     (x_est_new, p_new) \<leftarrow> kalman_filter z x p SHIFT_v1 LEFT_SHIFT_v1 PROCESS_NOISE_COVAR_v1;
     difficulty \<leftarrow> varuint_mul_u64 x_est_new target_block_time;
     Some (if difficulty < minimum_difficulty then (minimum_difficulty, P_v1) else (difficulty, p_new))
   }"

definition SHIFT_v2 :: u64 where "SHIFT_v2 = 20"

definition LEFT_SHIFT_v2 :: var_uint where "LEFT_SHIFT_v2 = varuint_from_u64 (push_bit 20 1)"

definition PROCESS_NOISE_COVAR_v2 :: var_uint where
  "PROCESS_NOISE_COVAR_v2 = varuint_from_u64 (push_bit 20 1 * SHIFT_v2 div MILLIS_PER_SECOND)"

definition P_v2 :: var_uint where "P_v2 = LEFT_SHIFT_v2"

definition calculate_difficulty_v2 :: "u64 \<Rightarrow> difficulty \<Rightarrow> var_uint \<Rightarrow> difficulty \<Rightarrow> u64 \<Rightarrow>
    (difficulty \<times> var_uint) option" where
  "calculate_difficulty_v2 solve_time previous_difficulty p minimum_difficulty block_time_target = do {
     scaled \<leftarrow> varuint_mul_u64 previous_difficulty MILLIS_PER_SECOND;
     z \<leftarrow> varuint_div_u64 scaled solve_time;
     x \<leftarrow> varuint_div_u64 scaled block_time_target;
     (x_est_new, p_new) \<leftarrow> kalman_filter z x p SHIFT_v2 LEFT_SHIFT_v2 PROCESS_NOISE_COVAR_v2;
     product \<leftarrow> varuint_mul_u64 x_est_new block_time_target;
     difficulty \<leftarrow> varuint_div_u64 product MILLIS_PER_SECOND;
     Some (if difficulty < minimum_difficulty then (minimum_difficulty, P_v2) else (difficulty, p_new))
   }"

definition calculate_difficulty :: "u64 \<Rightarrow> u64 \<Rightarrow> difficulty \<Rightarrow> var_uint \<Rightarrow> difficulty \<Rightarrow> block_version \<Rightarrow>
    (difficulty \<times> var_uint) option" where
  "calculate_difficulty parent_timestamp timestamp previous_difficulty p minimum_difficulty version =
     (let solve_time = max (timestamp - parent_timestamp) 1;
          block_time_target = get_block_time_target_for_version version
      in case version of
        V0 \<Rightarrow> calculate_difficulty_v1 solve_time previous_difficulty p minimum_difficulty block_time_target
      | _ \<Rightarrow> calculate_difficulty_v2 solve_time previous_difficulty p minimum_difficulty block_time_target)"

definition get_covariance_p :: "block_version \<Rightarrow> var_uint" where
  "get_covariance_p version = (case version of V0 \<Rightarrow> P_v1 | _ \<Rightarrow> P_v2)"

definition get_difficulty_with_target :: "u64 \<Rightarrow> u64 \<Rightarrow> difficulty" where
  "get_difficulty_with_target hashrate block_time_target =
     varuint_from_u64 (hashrate * block_time_target div MILLIS_PER_SECOND)"

definition get_minimum_difficulty :: "network \<Rightarrow> block_version \<Rightarrow> difficulty" where
  "get_minimum_difficulty n version =
     (let hashrate = (case n of Mainnet \<Rightarrow> MAINNET_MINIMUM_HASHRATE | _ \<Rightarrow> DEFAULT_MINIMUM_HASHRATE)
      in get_difficulty_with_target hashrate (get_block_time_target_for_version version))"

definition get_difficulty_at_hard_fork :: "network \<Rightarrow> block_version \<Rightarrow> difficulty option" where
  "get_difficulty_at_hard_fork n version =
     map_option (\<lambda>hashrate. get_difficulty_with_target hashrate (get_block_time_target_for_version version))
       (case n of Mainnet \<Rightarrow> (case version of V0 \<Rightarrow> Some (20 * KILO_HASH) | V1 \<Rightarrow> Some (20 * KILO_HASH)
            | V2 \<Rightarrow> Some (2 * GIGA_HASH) | V3 \<Rightarrow> None)
        | _ \<Rightarrow> None)"

section \<open>Lemmas\<close>

text \<open>The panicking operations on operands that fit, as natural numbers.\<close>

lemma varuint_mul_fits:
  "unat a * unat b < 2 ^ 256 \<Longrightarrow> \<exists>c. varuint_mul a b = Some c \<and> unat c = unat a * unat b"
  by (simp add: varuint_mul_def unat_mult_no_overflow)

lemma varuint_add_fits:
  "unat a + unat b < 2 ^ 256 \<Longrightarrow> \<exists>c. varuint_add a b = Some c \<and> unat c = unat a + unat b"
  by (simp add: varuint_add_def unat_add_no_overflow)

lemma varuint_sub_fits:
  "unat b \<le> unat a \<Longrightarrow> \<exists>c. varuint_sub a b = Some c \<and> unat c = unat a - unat b"
  by (simp add: varuint_sub_def word_le_nat_alt unat_sub_le)

lemma varuint_div_fits:
  "0 < unat b \<Longrightarrow> \<exists>c. varuint_div a b = Some c \<and> unat c = unat a div unat b"
  by (auto simp: varuint_div_def unat_div)

lemma unat_varuint_shr: "unat (varuint_shr a n) = unat a div 2 ^ unat n"
  unfolding varuint_shr_def unat_drop_bit_eq by (rule drop_bit_eq_div)

lemma unat_varuint_shl: "unat a * 2 ^ unat n < 2 ^ 256 \<Longrightarrow> unat (varuint_shl a n) = unat a * 2 ^ unat n"
  unfolding varuint_shl_def unsigned_push_bit_eq push_bit_eq_mult [of _ "unat a"] take_bit_eq_mod by simp

text \<open>The gain of the filter is a proper fraction of the scale.\<close>

lemma gain_less: "(p * L) div (p + r + 1) < L" if "0 < L" for p r L :: nat
proof -
  have "p * L < L * (p + r + 1)" using that by (simp add: algebra_simps)
  then show ?thesis by (metis less_mult_imp_div_less)
qed

lemma gain_step: "k \<le> L \<Longrightarrow> k * d div L \<le> d" for k L d :: nat
  by (metis div_le_mono div_mult_self1_is_m le0 le_zero_eq mult_le_mono1 not_gr_zero div_by_0)

lemma covariance_bound:
  fixes p r L :: nat
  assumes "0 < L"
  shows "(L - (p * L) div (p + r + 1)) * p div L \<le> r + 1 + p div L"
proof -
  let ?d = "p + r + 1"
  define k q m where "k = (p * L) div ?d" and "q = L - k" and "m = (p * L) mod ?d"
  have k: "k < L" unfolding k_def by (rule gain_less [OF assms])
  then have "L = k + q" "1 \<le> q" by (simp_all add: q_def)
  have m: "p * L = k * ?d + m" "m \<le> p + r" using mod_less_divisor [of ?d "p * L"]
    by (simp_all only: k_def m_def div_mult_mod_eq) simp
  have "k * ?d + q * ?d = L * p + L * (r + 1)"
    unfolding \<open>L = k + q\<close> by (simp add: algebra_simps)
  with m(1) have "q * p + q * (r + 1) = L * (r + 1) + m" by (simp add: algebra_simps)
  moreover have "r + 1 \<le> q * (r + 1)" using mult_le_mono1 [OF \<open>1 \<le> q\<close>, of "r + 1"] by simp
  ultimately have "q * p \<le> L * (r + 1) + p" using m(2) by linarith
  then have "q * p div L \<le> (L * (r + 1) + p) div L" by (rule div_le_mono)
  also have "\<dots> = r + 1 + p div L" using assms by (intro div_mult_self4) simp
  finally show ?thesis by (simp only: q_def k_def)
qed

lemma mult_less_power: "a < 2 ^ i \<Longrightarrow> b \<le> 2 ^ j \<Longrightarrow> a * b < (2 :: nat) ^ (i + j)"
  by (metis less_le_trans mult_le_mono2 mult_less_mono1 power_add power_not_zero
    zero_less_numeral zero_less_power mult_le_mono1 le_less_trans)

lemma scaled_between:
  fixes z x k L :: nat
  assumes "0 < L" and "k < L"
  shows "x \<le> z \<Longrightarrow> x \<le> (x * L + k * (z * L - x * L) div L) div L \<and> (x * L + k * (z * L - x * L) div L) div L \<le> z"
    and "z \<le> x \<Longrightarrow> z \<le> (x * L - k * (x * L - z * L) div L) div L \<and> (x * L - k * (x * L - z * L) div L) div L \<le> x"
proof -
  show "x \<le> z \<Longrightarrow> x \<le> (x * L + k * (z * L - x * L) div L) div L \<and> (x * L + k * (z * L - x * L) div L) div L \<le> z"
  proof -
    assume le: "x \<le> z"
    have "k * (z * L - x * L) div L \<le> z * L - x * L" using assms by (intro gain_step) simp
    moreover have "x * L \<le> z * L" using le by simp
    ultimately have "x * L + k * (z * L - x * L) div L \<le> z * L" by linarith
    then have "(x * L + k * (z * L - x * L) div L) div L \<le> z * L div L" by (rule div_le_mono)
    moreover have "x * L div L \<le> (x * L + k * (z * L - x * L) div L) div L" by (rule div_le_mono) simp
    ultimately show ?thesis using assms(1) by simp
  qed
  show "z \<le> x \<Longrightarrow> z \<le> (x * L - k * (x * L - z * L) div L) div L \<and> (x * L - k * (x * L - z * L) div L) div L \<le> x"
  proof -
    assume le: "z \<le> x"
    have "k * (x * L - z * L) div L \<le> x * L - z * L" using assms by (intro gain_step) simp
    moreover have "z * L \<le> x * L" using le by simp
    ultimately have "z * L \<le> x * L - k * (x * L - z * L) div L" by linarith
    then have "z * L div L \<le> (x * L - k * (x * L - z * L) div L) div L" by (rule div_le_mono)
    moreover have "(x * L - k * (x * L - z * L) div L) div L \<le> x * L div L" by (rule div_le_mono) simp
    ultimately show ?thesis using assms(1) by simp
  qed
qed

text \<open>The scaled estimate of the filter, on either side of the observation.\<close>

lemma kalman_estimate:
  assumes L: "0 < L" "L \<le> 2 ^ 32" "2 ^ unat shift = L" and k: "unat k < L"
    and Z: "unat Z = z * L" and X: "unat X = x * L" and b: "z < 2 ^ 128" "x < 2 ^ 128"
  shows "\<exists>e. (if Z \<ge> X then do {
         diff \<leftarrow> varuint_sub Z X;
         step \<leftarrow> varuint_mul k diff;
         varuint_add X (varuint_shr step shift)
       } else do {
         diff \<leftarrow> varuint_sub X Z;
         step \<leftarrow> varuint_mul k diff;
         varuint_sub X (varuint_shr step shift)
       }) = Some e \<and> min z x \<le> unat (varuint_shr e shift) \<and> unat (varuint_shr e shift) \<le> max z x"
proof -
  have bounds: "z * L < 2 ^ 160" "x * L < 2 ^ 160"
    using mult_less_power [OF b(1) L(2)] mult_less_power [OF b(2) L(2)] by simp_all
  have kd: "unat k * d < 2 ^ 256" if "d < 2 ^ 160" for d
  proof -
    have "d * unat k < 2 ^ (160 + 32)" using that k L(2) by (intro mult_less_power) auto
    also have "(2::nat) ^ (160 + 32) < 2 ^ 256" by simp
    finally show ?thesis by (simp add: mult.commute)
  qed
  show ?thesis
  proof (cases "X \<le> Z")
    case True
    then have le: "x \<le> z" using L(1) by (simp add: word_le_nat_alt X Z)
    obtain diff where diff: "varuint_sub Z X = Some diff" "unat diff = z * L - x * L"
      using varuint_sub_fits [of X Z] True by (auto simp: word_le_nat_alt X Z)
    obtain step where step: "varuint_mul k diff = Some step" "unat step = unat k * (z * L - x * L)"
      using varuint_mul_fits [of k diff] kd [of "z * L - x * L"] bounds diff by auto
    have "unat (varuint_shr step shift) \<le> z * L - x * L"
      using gain_step [of "unat k" L "z * L - x * L"] k by (simp add: unat_varuint_shr L(3) step)
    moreover have "x * L \<le> z * L" using le by simp
    ultimately have "unat X + unat (varuint_shr step shift) < 2 ^ 160" using bounds X by linarith
    then have "unat X + unat (varuint_shr step shift) < 2 ^ 256" by simp
    from varuint_add_fits [OF this] obtain e where "varuint_add X (varuint_shr step shift) = Some e"
        "unat e = x * L + unat k * (z * L - x * L) div L"
      by (auto simp: X unat_varuint_shr L(3) step)
    with True diff step le show ?thesis
      using scaled_between(1) [OF L(1) k le] by (simp add: unat_varuint_shr L(3))
  next
    case False
    then have le: "z \<le> x" using L(1) by (simp add: word_le_nat_alt X Z)
    obtain diff where diff: "varuint_sub X Z = Some diff" "unat diff = x * L - z * L"
      using varuint_sub_fits [of Z X] False by (auto simp: word_le_nat_alt X Z)
    obtain step where step: "varuint_mul k diff = Some step" "unat step = unat k * (x * L - z * L)"
      using varuint_mul_fits [of k diff] kd [of "x * L - z * L"] bounds diff by auto
    have "unat (varuint_shr step shift) \<le> x * L - z * L"
      using gain_step [of "unat k" L "x * L - z * L"] k by (simp add: unat_varuint_shr L(3) step)
    then obtain e where "varuint_sub X (varuint_shr step shift) = Some e"
        "unat e = x * L - unat k * (x * L - z * L) div L"
      using varuint_sub_fits [of "varuint_shr step shift" X]
      by (auto simp: X unat_varuint_shr L(3) step dest: le_trans [OF _ diff_le_self])
    with False diff step le show ?thesis
      using scaled_between(2) [OF L(1) k le] by (simp add: unat_varuint_shr L(3))
  qed
qed

text \<open>
  The filter never panics on estimates below \<open>2 ^ 128\<close> and a covariance below \<open>2 ^ 162\<close>, keeps
  the covariance below that bound and returns an estimate between the two it was given.
\<close>

lemma kalman_total:
  assumes s: "20 \<le> unat shift" "unat shift \<le> 32" and L: "unat left_shift = 2 ^ unat shift"
    and noise: "unat noise \<le> 2 ^ unat shift"
    and z: "unat z < 2 ^ 128" and x: "unat x < 2 ^ 128" and p: "unat p < 2 ^ 162"
  shows "\<exists>e c. kalman_filter z x p shift left_shift noise = Some (e, c) \<and>
    min (unat z) (unat x) \<le> unat e \<and> unat e \<le> max (unat z) (unat x) \<and> unat c < 2 ^ 162"
proof -
  let ?L = "2 ^ unat shift :: nat"
  have L32: "?L \<le> 2 ^ 32" and L20: "2 ^ 20 \<le> ?L" using s
    by (simp_all only: power_increasing one_le_numeral)
  have ZL: "unat z * ?L < 2 ^ 160" and XL: "unat x * ?L < 2 ^ 160"
    using mult_less_power [OF z L32] mult_less_power [OF x L32] by simp_all
  obtain Z where Z: "varuint_mul z left_shift = Some Z" "unat Z = unat z * ?L"
    using varuint_mul_fits [of z left_shift] ZL L by auto
  obtain R where R: "varuint_mul_u64 Z 2 = Some R" "unat R = unat z * ?L * 2"
    using varuint_mul_fits [of Z "ucast (2 :: u64)"] ZL Z by (auto simp: varuint_mul_u64_def)
  obtain X where X: "varuint_mul x left_shift = Some X" "unat X = unat x * ?L"
    using varuint_mul_fits [of x left_shift] XL L by auto
  have "unat X * unat noise < 2 ^ (160 + 32)" using XL X noise L32 by (intro mult_less_power) auto
  then obtain N where N: "varuint_mul X noise = Some N" "unat N = unat X * unat noise"
    using varuint_mul_fits [of X noise] by auto
  have "unat (varuint_shr N shift) \<le> unat X"
    using gain_step [OF noise, of "unat X"] by (simp add: unat_varuint_shr N mult.commute)
  then have ps: "unat (varuint_shr N shift) + unat p < 2 ^ 160 + 2 ^ 162" using XL X p by linarith
  then obtain P where P: "varuint_add (varuint_shr N shift) p = Some P" "unat P < 2 ^ 160 + 2 ^ 162"
    using varuint_add_fits [of "varuint_shr N shift" p] by auto
  obtain D where D: "varuint_add P R = Some D" "unat D = unat P + unat R"
    using varuint_add_fits [of P R] P(2) R(2) ZL by auto
  obtain D1 where D1: "varuint_add D varuint_one = Some D1" "unat D1 = unat P + unat R + 1"
    using varuint_add_fits [of D varuint_one] P(2) R(2) D(2) ZL by (auto simp: varuint_one_def)
  have PL: "unat P * ?L < 2 ^ (163 + 32)" using P(2) L32 by (intro mult_less_power) auto
  obtain k where k: "varuint_div (varuint_shl P shift) D1 = Some k"
      "unat k = unat P * ?L div (unat P + unat R + 1)"
    using varuint_div_fits [of D1 "varuint_shl P shift"] PL D1(2)
    by (auto simp: unat_varuint_shl simp del: One_nat_def)
  have kL: "unat k < ?L" unfolding k(2) by (rule gain_less) simp
  obtain e where e: "(if Z \<ge> X then do {
         diff \<leftarrow> varuint_sub Z X;
         step \<leftarrow> varuint_mul k diff;
         varuint_add X (varuint_shr step shift)
       } else do {
         diff \<leftarrow> varuint_sub X Z;
         step \<leftarrow> varuint_mul k diff;
         varuint_sub X (varuint_shr step shift)
       }) = Some e" "min (unat z) (unat x) \<le> unat (varuint_shr e shift)"
       "unat (varuint_shr e shift) \<le> max (unat z) (unat x)"
    using kalman_estimate [OF _ L32 refl kL Z(2) X(2) z x] by auto
  obtain l where l: "varuint_sub left_shift k = Some l" "unat l = ?L - unat k"
    using varuint_sub_fits [of k left_shift] kL L by auto
  have "unat P * unat l < 2 ^ (163 + 32)" using P(2) L32 l(2) by (intro mult_less_power) auto
  then obtain c where c: "varuint_mul l P = Some c" "unat c = (?L - unat k) * unat P"
    using varuint_mul_fits [of l P] l(2) by (auto simp: mult.commute)
  have "unat (varuint_shr c shift) \<le> unat R + 1 + unat P div ?L"
    using covariance_bound [of ?L "unat P" "unat R"] by (simp add: unat_varuint_shr c k(2))
  moreover have "unat P div ?L \<le> unat P div 2 ^ 20" using L20 by (intro div_le_mono2) auto
  moreover have "unat P div 2 ^ 20 \<le> (2 ^ 160 + 2 ^ 162) div 2 ^ 20" using P(2) by (intro div_le_mono) simp
  ultimately have "unat (varuint_shr c shift) < 2 ^ 162" using R(2) ZL by simp
  then show ?thesis
    using Z(1) R(1) X(1) N(1) P(1) D(1) D1(1) k(1) e l(1) c(1)
    by (simp add: kalman_filter_def)
qed

lemma varuint_div_u64_fits:
  "0 < unat b \<Longrightarrow> \<exists>c. varuint_div_u64 a b = Some c \<and> unat c = unat a div unat b"
  using varuint_div_fits [of "ucast b" a] by (simp add: varuint_div_u64_def unat_ucast_up)

lemma varuint_mul_u64_fits:
  "unat a * unat b < 2 ^ 256 \<Longrightarrow> \<exists>c. varuint_mul_u64 a b = Some c \<and> unat c = unat a * unat b"
  using varuint_mul_fits [of a "ucast b"] by (simp add: varuint_mul_u64_def unat_ucast_up)

lemma difficulty_consts:
  "unat SHIFT_v1 = 32" "unat LEFT_SHIFT_v1 = 2 ^ 32" "unat PROCESS_NOISE_COVAR_v1 \<le> 2 ^ 32" "unat P_v1 < 2 ^ 162"
  "unat SHIFT_v2 = 20" "unat LEFT_SHIFT_v2 = 2 ^ 20" "unat PROCESS_NOISE_COVAR_v2 \<le> 2 ^ 20" "unat P_v2 < 2 ^ 162"
  "unat MILLIS_PER_SECOND = 1000"
  by (simp_all add: SHIFT_v1_def LEFT_SHIFT_v1_def PROCESS_NOISE_COVAR_v1_def P_v1_def SHIFT_v2_def
    LEFT_SHIFT_v2_def PROCESS_NOISE_COVAR_v2_def P_v2_def MILLIS_PER_SECOND_def unat_varuint_from_u64)

lemma target_bounds: "5000 \<le> unat (get_block_time_target_for_version v)"
    "unat (get_block_time_target_for_version v) \<le> 60000"
  by (cases v; simp add: get_block_time_target_for_version_def MILLIS_PER_SECOND_def)+

text \<open>What the two versions of the adjustment have in common.\<close>

definition adjusts :: "nat \<Rightarrow> nat \<Rightarrow> difficulty \<Rightarrow> difficulty \<Rightarrow> (difficulty \<times> var_uint) option \<Rightarrow> bool" where
  "adjusts solve target prev minimum r \<longleftrightarrow> (\<exists>d c. r = Some (d, c) \<and> unat c < 2 ^ 162 \<and> minimum \<le> d \<and>
     (target \<le> solve \<longrightarrow> unat d \<le> max (unat minimum) (unat prev)) \<and>
     (solve \<le> target \<longrightarrow> unat prev \<le> unat d + target))"

lemma adjustsI:
  assumes "unat c < 2 ^ 162" and "unat P < 2 ^ 162"
    and "target \<le> solve \<Longrightarrow> unat d \<le> unat prev" and "solve \<le> target \<Longrightarrow> unat prev \<le> unat d + target"
  shows "adjusts solve target prev minimum (Some (if d < minimum then (minimum, P) else (d, c)))"
  using assms by (cases "d < minimum") (auto simp: adjusts_def word_less_nat_alt word_le_nat_alt not_less max_def)

lemma div_times_near: "0 < t \<Longrightarrow> a \<le> a div t * t + t" for a t :: nat
  using div_mult_mod_eq [of a t] mod_less_divisor [of t a] by linarith

lemma difficulty_v1_adjusts:
  assumes prev: "unat prev < 2 ^ 118" and p: "unat p < 2 ^ 162" and solve: "0 < unat solve"
    and t: "5000 \<le> unat target" "unat target \<le> 60000"
  shows "adjusts (unat solve) (unat target) prev minimum (calculate_difficulty_v1 solve prev p minimum target)"
proof -
  obtain z where z: "varuint_div_u64 prev solve = Some z" "unat z = unat prev div unat solve"
    using varuint_div_u64_fits solve by blast
  obtain x where x: "varuint_div_u64 prev target = Some x" "unat x = unat prev div unat target"
    using varuint_div_u64_fits [of target prev] t by auto
  have le: "unat z \<le> unat prev" "unat x \<le> unat prev" by (simp_all add: z x)
  obtain e c where k: "kalman_filter z x p SHIFT_v1 LEFT_SHIFT_v1 PROCESS_NOISE_COVAR_v1 = Some (e, c)"
      "min (unat z) (unat x) \<le> unat e" "unat e \<le> max (unat z) (unat x)" "unat c < 2 ^ 162"
    using difficulty_consts(3) kalman_total [of SHIFT_v1 LEFT_SHIFT_v1 PROCESS_NOISE_COVAR_v1 z x p] le prev p
    by (auto simp: difficulty_consts)
  have "unat e < 2 ^ 118" using k(3) le prev by auto
  then have "unat e * unat target < 2 ^ (118 + 16)" using t by (intro mult_less_power) simp_all
  then obtain d where d: "varuint_mul_u64 e target = Some d" "unat d = unat e * unat target"
    using varuint_mul_u64_fits [of e target] by auto
  have up: "unat d \<le> unat prev" if "unat target \<le> unat solve"
  proof -
    have "unat z \<le> unat x" unfolding z(2) x(2) using that t by (intro div_le_mono2) auto
    with k(3) have "unat d \<le> unat x * unat target" unfolding d(2) by (intro mult_le_mono1) simp
    then show ?thesis by (simp add: x(2)) (meson div_times_less_eq_dividend le_trans)
  qed
  have down: "unat prev \<le> unat d + unat target" if "unat solve \<le> unat target"
  proof -
    have "unat x \<le> unat z" unfolding z(2) x(2) using that solve by (intro div_le_mono2) auto
    with k(2) have "unat x * unat target \<le> unat d" unfolding d(2) by (intro mult_le_mono1) simp
    then show ?thesis using div_times_near [of "unat target" "unat prev"] t by (simp add: x(2))
  qed
  have "calculate_difficulty_v1 solve prev p minimum target =
      Some (if d < minimum then (minimum, P_v1) else (d, c))"
    using z(1) x(1) k(1) d(1) by (simp add: calculate_difficulty_v1_def)
  then show ?thesis
    using adjustsI [OF k(4) difficulty_consts(4) up down] by simp
qed

lemma scaled_down: "a * 1000 \<le> b * 1000 \<Longrightarrow> a \<le> b" for a b :: nat
  by simp

lemma difficulty_v2_adjusts:
  assumes prev: "unat prev < 2 ^ 118" and p: "unat p < 2 ^ 162" and solve: "0 < unat solve"
    and t: "5000 \<le> unat target" "unat target \<le> 60000"
  shows "adjusts (unat solve) (unat target) prev minimum (calculate_difficulty_v2 solve prev p minimum target)"
proof -
  have "unat prev * 1000 < 2 ^ (118 + 10)" using prev by (intro mult_less_power) simp_all
  then have big: "unat prev * 1000 < 2 ^ 128" by simp
  then obtain a where a: "varuint_mul_u64 prev MILLIS_PER_SECOND = Some a" "unat a = unat prev * 1000"
    using varuint_mul_u64_fits [of prev MILLIS_PER_SECOND] by (auto simp: difficulty_consts)
  obtain z where z: "varuint_div_u64 a solve = Some z" "unat z = unat prev * 1000 div unat solve"
    using varuint_div_u64_fits [of solve a] solve a by auto
  obtain x where x: "varuint_div_u64 a target = Some x" "unat x = unat prev * 1000 div unat target"
    using varuint_div_u64_fits [of target a] t a by auto
  have le: "unat z \<le> unat prev * 1000" "unat x \<le> unat prev * 1000" by (simp_all add: z x)
  obtain e c where k: "kalman_filter z x p SHIFT_v2 LEFT_SHIFT_v2 PROCESS_NOISE_COVAR_v2 = Some (e, c)"
      "min (unat z) (unat x) \<le> unat e" "unat e \<le> max (unat z) (unat x)" "unat c < 2 ^ 162"
    using difficulty_consts(7) kalman_total [of SHIFT_v2 LEFT_SHIFT_v2 PROCESS_NOISE_COVAR_v2 z x p] le big p
    by (auto simp: difficulty_consts)
  have "unat e < 2 ^ 128" using k(3) le big by auto
  then have "unat e * unat target < 2 ^ (128 + 16)" using t by (intro mult_less_power) simp_all
  then obtain b where b: "varuint_mul_u64 e target = Some b" "unat b = unat e * unat target"
    using varuint_mul_u64_fits [of e target] by auto
  obtain d where d: "varuint_div_u64 b MILLIS_PER_SECOND = Some d" "unat d = unat e * unat target div 1000"
    using varuint_div_u64_fits [of MILLIS_PER_SECOND b] b by (auto simp: difficulty_consts)
  have up: "unat d \<le> unat prev" if "unat target \<le> unat solve"
  proof -
    have "unat z \<le> unat x" unfolding z(2) x(2) using that t by (intro div_le_mono2) auto
    with k(3) have "unat e * unat target \<le> unat x * unat target" by (intro mult_le_mono1) simp
    also have "\<dots> \<le> unat prev * 1000" by (simp add: x(2))
    finally have "unat d \<le> unat prev * 1000 div 1000" unfolding d(2) by (rule div_le_mono)
    then show ?thesis by simp
  qed
  have down: "unat prev \<le> unat d + unat target" if "unat solve \<le> unat target"
  proof -
    have "unat x \<le> unat z" unfolding z(2) x(2) using that solve by (intro div_le_mono2) auto
    with k(2) have "unat x * unat target \<le> unat e * unat target" by (intro mult_le_mono1) simp
    then have "unat prev * 1000 \<le> unat e * unat target + unat target"
      using div_times_near [of "unat target" "unat prev * 1000"] t unfolding x(2) by linarith
    also have "\<dots> \<le> unat d * 1000 + 1000 + unat target"
      using div_times_near [of 1000 "unat e * unat target"] by (simp add: d(2))
    also have "\<dots> \<le> (unat d + unat target) * 1000" using t by simp
    finally show ?thesis by (rule scaled_down)
  qed
  have "calculate_difficulty_v2 solve prev p minimum target =
      Some (if d < minimum then (minimum, P_v2) else (d, c))"
    using a(1) z(1) x(1) k(1) b(1) d(1) by (simp add: calculate_difficulty_v2_def)
  then show ?thesis
    using adjustsI [OF k(4) difficulty_consts(8) up down] by simp
qed

lemma difficulty_v1_min: "calculate_difficulty_v1 s prev p m t = Some (d, c) \<Longrightarrow> m \<le> d"
  unfolding calculate_difficulty_v1_def
  by (auto simp: Option.bind_eq_Some_conv split: if_splits)

lemma difficulty_v2_min: "calculate_difficulty_v2 s prev p m t = Some (d, c) \<Longrightarrow> m \<le> d"
  unfolding calculate_difficulty_v2_def
  by (auto simp: Option.bind_eq_Some_conv split: if_splits)

lemma calculate_difficulty_min: "calculate_difficulty a b prev p m v = Some (d, c) \<Longrightarrow> m \<le> d"
  by (cases v) (auto simp: calculate_difficulty_def Let_def intro: difficulty_v1_min difficulty_v2_min)

section \<open>Properties\<close>



end
