(* ===== verification/Dag.thy ===== *)
theory Dag
  imports Difficulty "HOL-Library.Multiset"
begin

text \<open>
  The block DAG as the consensus code sees it. The storage is a record of queries, each of
  which may fail; the operations are those of \<open>daemon/src/core/blockdag.rs\<close> and the queries of
  \<open>daemon/src/core/blockchain.rs\<close> that keep no state: heights and best tips, sync blocks,
  reachability between tips, the distance from the main chain, the deviation test for tips and
  the difficulty a block on given tips must meet. Searches that walk the DAG with a stack take
  fuel, the number of blocks they may pop; running out of it is the error \<open>OutOfFuel\<close>, which the
  code does not have, and the lemmas show how much is enough.
\<close>

section \<open>Errors and the storage\<close>

text \<open>
  The errors of \<open>BlockchainError\<close> that the modelled operations return, an arithmetic panic, and
  running out of fuel. A failure of the storage, of the proof-of-work library or of the
  verification of transactions is one value each.
\<close>

datatype bc_error = ExpectedTips | StorageFailure | DifficultyFailure difficulty_error
  | InvalidDifficulty | ArithmeticPanic | OutOfFuel | TxNotFound hash | InvalidBlockVersion | AlreadyInChain
  | TimestampIsInFuture u64 u64 | InvalidTipsCount hash usize | BlockHeightZeroNotAllowed
  | InvalidBlockSize usize usize | InvalidTipsNotFound hash hash | InvalidBlockHeight u64 u64
  | InvalidBlockHeightStableHeight | InvalidReachability | TimestampIsLessThanParent u64 | BlockDeviation
  | InvalidTipsDifficulty hash hash | PowHashFailure | InvalidBlockTxs usize usize | TxTooBig usize usize
  | InvalidTxInBlock hash | DeadTxFromStableHeight hash hash u64 hash | DeadTxFromTips hash hash | TxVerification

type_synonym 'a bc = "bc_error + 'a"

definition ebind :: "'a bc \<Rightarrow> ('a \<Rightarrow> 'b bc) \<Rightarrow> 'b bc" where
  "ebind m f = (case m of Inl e \<Rightarrow> Inl e | Inr x \<Rightarrow> f x)"

fun efold :: "('a \<Rightarrow> 's \<Rightarrow> 's bc) \<Rightarrow> 'a list \<Rightarrow> 's \<Rightarrow> 's bc" where
  "efold f [] s = Inr s"
| "efold f (x # xs) s = ebind (f x s) (efold f xs)"

definition no_panic :: "'a option \<Rightarrow> 'a bc" where
  "no_panic r = (case r of None \<Rightarrow> Inl ArithmeticPanic | Some x \<Rightarrow> Inr x)"

record dag =
  get_height :: "hash \<Rightarrow> u64 bc"
  get_past_blocks :: "hash \<Rightarrow> hash list bc"
  get_block_difficulty :: "hash \<Rightarrow> difficulty bc"
  get_cumulative_difficulty :: "hash \<Rightarrow> cumulative_difficulty bc"
  get_timestamp :: "hash \<Rightarrow> u64 bc"
  get_covariance :: "hash \<Rightarrow> var_uint bc"
  is_ordered :: "hash \<Rightarrow> bool bc"
  get_topoheight :: "hash \<Rightarrow> topoheight bc"
  get_blocks_at_height :: "u64 \<Rightarrow> hash list bc"
  get_pruned_topoheight :: "topoheight option bc"

definition STABLE_LIMIT :: u64 where "STABLE_LIMIT = 8"

section \<open>Sorting tips\<close>

text \<open>\<open>slice::sort_by\<close> is a stable sort; \<open>le a b\<close> when the comparison is not \<open>Greater\<close>.\<close>

fun insert_by :: "('a \<Rightarrow> 'a \<Rightarrow> bool) \<Rightarrow> 'a \<Rightarrow> 'a list \<Rightarrow> 'a list" where
  "insert_by le x [] = [x]"
| "insert_by le x (y # ys) = (if le x y then x # y # ys else y # insert_by le x ys)"

definition sort_by :: "('a \<Rightarrow> 'a \<Rightarrow> bool) \<Rightarrow> 'a list \<Rightarrow> 'a list" where
  "sort_by le xs = foldr (insert_by le) xs []"

definition le_ascending :: "hash \<times> cumulative_difficulty \<Rightarrow> hash \<times> cumulative_difficulty \<Rightarrow> bool" where
  "le_ascending a b = (if snd a \<noteq> snd b then snd a \<le> snd b else fst a \<le> fst b)"

definition sort_descending_by_cumulative_difficulty ::
  "(hash \<times> cumulative_difficulty) list \<Rightarrow> (hash \<times> cumulative_difficulty) list" where
  "sort_descending_by_cumulative_difficulty = sort_by (\<lambda>a b. le_ascending b a)"

definition sort_ascending_by_cumulative_difficulty ::
  "(hash \<times> cumulative_difficulty) list \<Rightarrow> (hash \<times> cumulative_difficulty) list" where
  "sort_ascending_by_cumulative_difficulty = sort_by le_ascending"

definition tip_scores :: "dag \<Rightarrow> hash list \<Rightarrow> (hash \<times> cumulative_difficulty) list bc" where
  "tip_scores g tips = efold (\<lambda>h scores. ebind (get_cumulative_difficulty g h)
     (\<lambda>c. Inr (scores @ [(h, c)]))) tips []"

definition sort_tips :: "dag \<Rightarrow> hash list \<Rightarrow> hash list bc" where
  "sort_tips g tips = (if length tips = 0 then Inl ExpectedTips
     else if length tips = 1 then Inr tips
     else ebind (tip_scores g tips)
       (\<lambda>scores. Inr (map fst (sort_descending_by_cumulative_difficulty scores))))"

definition calculate_height_at_tips :: "dag \<Rightarrow> hash list \<Rightarrow> u64 bc" where
  "calculate_height_at_tips g tips =
     ebind (efold (\<lambda>h height. ebind (get_height g h)
       (\<lambda>past. Inr (if height \<le> past then past else height))) tips 0)
     (\<lambda>height. Inr (if length tips \<noteq> 0 then height + 1 else height))"

definition find_best_tip_by_cumulative_difficulty :: "dag \<Rightarrow> hash list \<Rightarrow> hash bc" where
  "find_best_tip_by_cumulative_difficulty g tips =
     (if length tips = 0 then Inl ExpectedTips
      else if length tips = 1 then Inr (hd tips)
      else ebind (efold (\<lambda>h (highest, selected). ebind (get_cumulative_difficulty g h)
          (\<lambda>c. Inr (if highest < c then (c, Some h) else (highest, selected)))) tips (0, None))
        (\<lambda>(_, selected). case selected of None \<Rightarrow> Inl ExpectedTips | Some h \<Rightarrow> Inr h))"

definition find_newest_tip_by_timestamp :: "dag \<Rightarrow> hash list \<Rightarrow> (hash \<times> u64) bc" where
  "find_newest_tip_by_timestamp g tips =
     (if length tips = 0 then Inl ExpectedTips
      else if length tips = 1 then ebind (get_timestamp g (hd tips)) (\<lambda>t. Inr (hd tips, t))
      else ebind (efold (\<lambda>h (timestamp, newest). ebind (get_timestamp g h)
          (\<lambda>t. Inr (if timestamp < t then (t, Some h) else (timestamp, newest)))) tips (0, None))
        (\<lambda>(timestamp, newest). case newest of None \<Rightarrow> Inl ExpectedTips | Some h \<Rightarrow> Inr (h, timestamp)))"

section \<open>Sync blocks\<close>

fun any_ordered_other :: "dag \<Rightarrow> hash \<Rightarrow> hash list \<Rightarrow> bool bc" where
  "any_ordered_other g h [] = Inr False"
| "any_ordered_other g h (x # xs) =
     (if h \<noteq> x then ebind (is_ordered g x)
        (\<lambda>ordered. if ordered then Inr True else any_ordered_other g h xs)
      else any_ordered_other g h xs)"

function collect_pre_blocks :: "dag \<Rightarrow> u64 \<Rightarrow> u64 \<Rightarrow> hash list \<Rightarrow> hash list bc" where
  "collect_pre_blocks g stable_point i pre =
     (if i \<ge> stable_point \<and> i \<noteq> 0 then ebind (get_blocks_at_height g i)
        (\<lambda>blocks. collect_pre_blocks g stable_point (i - 1) (pre @ blocks))
      else Inr pre)"
  by pat_completeness auto
termination
  by (relation "measure (\<lambda>(_, _, i, _). unat i)") (auto simp: unat_minus_one unat_gt_0)

declare collect_pre_blocks.simps [simp del]

fun any_heavier_ordered :: "dag \<Rightarrow> cumulative_difficulty \<Rightarrow> hash list \<Rightarrow> bool bc" where
  "any_heavier_ordered g c [] = Inr False"
| "any_heavier_ordered g c (x # xs) = ebind (is_ordered g x) (\<lambda>ordered.
     if ordered then ebind (get_cumulative_difficulty g x)
       (\<lambda>d. if d \<ge> c then Inr True else any_heavier_ordered g c xs)
     else any_heavier_ordered g c xs)"

definition is_sync_block_at_height :: "dag \<Rightarrow> hash \<Rightarrow> u64 \<Rightarrow> bool bc" where
  "is_sync_block_at_height g h height = ebind (get_height g h) (\<lambda>block_height.
     if block_height = 0 then Inr True
     else if block_height + STABLE_LIMIT > height then Inr False
     else ebind (is_ordered g h) (\<lambda>ordered. if \<not> ordered then Inr False
     else ebind (get_pruned_topoheight g) (\<lambda>pruned.
       ebind (case pruned of None \<Rightarrow> Inr False
              | Some pruned_topo \<Rightarrow> ebind (get_topoheight g h) (\<lambda>t. Inr (pruned_topo = t)))
       (\<lambda>at_pruned. if at_pruned then Inr True
       else ebind (get_blocks_at_height g block_height) (\<lambda>tips_at_height.
         ebind (any_ordered_other g h tips_at_height) (\<lambda>other. if other then Inr False
         else let stable_point = (if block_height \<ge> STABLE_LIMIT then block_height - STABLE_LIMIT
                                  else STABLE_LIMIT - block_height)
         in ebind (collect_pre_blocks g stable_point (block_height - 1) []) (\<lambda>pre_blocks.
           ebind (get_cumulative_difficulty g h) (\<lambda>c.
           ebind (any_heavier_ordered g c (remdups pre_blocks)) (\<lambda>heavier. Inr (\<not> heavier))))))))))"

section \<open>Reachability\<close>

fun build_reachability_loop :: "dag \<Rightarrow> nat \<Rightarrow> (hash \<times> u64) list \<Rightarrow> hash list \<Rightarrow> hash list bc" where
  "build_reachability_loop g fuel [] reached = Inr reached"
| "build_reachability_loop g 0 (x # stack) reached = Inl OutOfFuel"
| "build_reachability_loop g (Suc fuel) ((current, level) # stack) reached =
     (if level \<ge> 2 * STABLE_LIMIT
      then build_reachability_loop g fuel stack (snd (index_insert current reached))
      else ebind (get_past_blocks g current) (\<lambda>tips.
        let reached' = snd (index_insert current reached);
            new = map (\<lambda>t. (t, level + 1)) (filter (\<lambda>t. t \<notin> set reached') tips)
        in build_reachability_loop g fuel (rev new @ stack) reached'))"

definition build_reachability :: "dag \<Rightarrow> nat \<Rightarrow> hash \<Rightarrow> hash list bc" where
  "build_reachability g fuel h = build_reachability_loop g fuel [(h, 0)] []"

definition verify_non_reachability :: "dag \<Rightarrow> nat \<Rightarrow> hash list \<Rightarrow> bool bc" where
  "verify_non_reachability g fuel tips =
     ebind (efold (\<lambda>h reach. ebind (build_reachability g fuel h) (\<lambda>r. Inr (reach @ [r]))) tips [])
     (\<lambda>reach. Inr (\<not> list_ex (\<lambda>i. list_ex (\<lambda>j. i \<noteq> j \<and> tips ! i \<in> set (reach ! j))
        [0..<length tips]) [0..<length tips]))"

section \<open>Distance from the main chain\<close>

fun lowest_of_tips :: "dag \<Rightarrow> hash list \<Rightarrow> u64 option \<Rightarrow> hash list \<Rightarrow> (u64 option \<times> hash list) bc" where
  "lowest_of_tips g [] lowest stack = Inr (lowest, stack)"
| "lowest_of_tips g (t # ts) lowest stack = ebind (is_ordered g t) (\<lambda>ordered.
     if ordered then ebind (get_height g t) (\<lambda>height.
       lowest_of_tips g ts (case lowest of None \<Rightarrow> Some height
         | Some l \<Rightarrow> if l > height then Some height else Some l) stack)
     else lowest_of_tips g ts lowest (t # stack))"

fun find_lowest_height_loop :: "dag \<Rightarrow> nat \<Rightarrow> hash list \<Rightarrow> hash list \<Rightarrow> u64 option \<Rightarrow> u64 option bc" where
  "find_lowest_height_loop g fuel [] processed lowest = Inr lowest"
| "find_lowest_height_loop g 0 (x # stack) processed lowest = Inl OutOfFuel"
| "find_lowest_height_loop g (Suc fuel) (current # stack) processed lowest =
     (if current \<in> set processed then find_lowest_height_loop g fuel stack processed lowest
      else ebind (get_past_blocks g current) (\<lambda>tips.
        ebind (lowest_of_tips g tips lowest stack) (\<lambda>(lowest', stack').
        find_lowest_height_loop g fuel stack' (current # processed) lowest')))"

definition find_lowest_height_from_mainchain :: "dag \<Rightarrow> nat \<Rightarrow> hash \<Rightarrow> u64 option bc" where
  "find_lowest_height_from_mainchain g fuel h = find_lowest_height_loop g fuel [h] [] None"

definition calculate_distance_from_mainchain :: "dag \<Rightarrow> nat \<Rightarrow> hash \<Rightarrow> u64 option bc" where
  "calculate_distance_from_mainchain g fuel h = ebind (is_ordered g h) (\<lambda>ordered.
     if ordered then ebind (get_height g h) (\<lambda>height. Inr (Some height))
     else find_lowest_height_from_mainchain g fuel h)"

definition is_near_enough_from_main_chain :: "dag \<Rightarrow> nat \<Rightarrow> hash \<Rightarrow> u64 \<Rightarrow> bool bc" where
  "is_near_enough_from_main_chain g fuel h chain_height =
     ebind (calculate_distance_from_mainchain g fuel h) (\<lambda>distance. case distance of
       None \<Rightarrow> Inr False
     | Some lowest \<Rightarrow> if lowest \<le> chain_height \<and> chain_height - lowest \<ge> STABLE_LIMIT
         then Inr False else Inr True)"

section \<open>Difficulty at tips\<close>

definition validate_tips :: "dag \<Rightarrow> hash \<Rightarrow> hash \<Rightarrow> bool bc" where
  "validate_tips g best_tip tip = ebind (get_block_difficulty g best_tip) (\<lambda>best_difficulty.
     ebind (get_block_difficulty g tip) (\<lambda>block_difficulty.
     ebind (no_panic (do { a \<leftarrow> varuint_mul best_difficulty (varuint_from_u64 91);
                           varuint_div a (varuint_from_u64 100) }))
       (\<lambda>limit. Inr (limit < block_difficulty))))"

definition get_difficulty_at_tips :: "dag \<Rightarrow> network \<Rightarrow> bool \<Rightarrow> hash list \<Rightarrow> (difficulty \<times> var_uint) bc" where
  "get_difficulty_at_tips g n simulator tips = ebind (calculate_height_at_tips g tips) (\<lambda>height.
     let (has_hard_fork, version) = has_hard_fork_at_height n height in
     if length tips = 0 then Inr (GENESIS_BLOCK_DIFFICULTY, get_covariance_p version)
     else if height \<le> 1 \<or> simulator then Inr (get_minimum_difficulty n version, get_covariance_p version)
     else case (if has_hard_fork then get_difficulty_at_hard_fork n version else None) of
       Some d \<Rightarrow> Inr (d, get_covariance_p version)
     | None \<Rightarrow>
       ebind (find_best_tip_by_cumulative_difficulty g tips) (\<lambda>best_tip.
       ebind (get_block_difficulty g best_tip) (\<lambda>biggest_difficulty.
       ebind (find_newest_tip_by_timestamp g tips) (\<lambda>(_, newest_tip_timestamp).
       ebind (get_past_blocks g best_tip) (\<lambda>parent_tips.
       ebind (find_newest_tip_by_timestamp g parent_tips) (\<lambda>(_, parent_newest_tip_timestamp).
       ebind (get_covariance g best_tip) (\<lambda>p.
       no_panic (calculate_difficulty parent_newest_tip_timestamp newest_tip_timestamp
         biggest_difficulty p (get_minimum_difficulty n version) version))))))))"

definition verify_proof_of_work :: "dag \<Rightarrow> network \<Rightarrow> bool \<Rightarrow> hash \<Rightarrow> hash list \<Rightarrow> (difficulty \<times> var_uint) bc" where
  "verify_proof_of_work g n simulator h tips = ebind (get_difficulty_at_tips g n simulator tips)
     (\<lambda>(d, p). case check_difficulty h d of Inl e \<Rightarrow> Inl (DifficultyFailure e)
       | Inr ok \<Rightarrow> if ok then Inr (d, p) else Inl InvalidDifficulty)"

section \<open>Lemmas\<close>

lemma ebind_simps [simp]: "ebind (Inr x) f = f x" "ebind (Inl e) f = Inl e"
  by (simp_all add: ebind_def)

lemma ebind_Inr: "ebind m f = Inr y \<longleftrightarrow> (\<exists>x. m = Inr x \<and> f x = Inr y)"
  by (auto simp: ebind_def split: sum.split)

text \<open>
  A storage that answers every query, given by plain functions; a block is ordered when it has
  a topoheight. Statements about what the searches compute are about such a storage.
\<close>

record dag_view =
  v_height :: "hash \<Rightarrow> u64"
  v_past :: "hash \<Rightarrow> hash list"
  v_difficulty :: "hash \<Rightarrow> difficulty"
  v_cumulative :: "hash \<Rightarrow> cumulative_difficulty"
  v_timestamp :: "hash \<Rightarrow> u64"
  v_covariance :: "hash \<Rightarrow> var_uint"
  v_topo :: "hash \<Rightarrow> topoheight option"
  v_at_height :: "u64 \<Rightarrow> hash list"
  v_pruned :: "topoheight option"

definition dag_of :: "dag_view \<Rightarrow> dag" where
  "dag_of v = \<lparr>get_height = (\<lambda>h. Inr (v_height v h)), get_past_blocks = (\<lambda>h. Inr (v_past v h)),
     get_block_difficulty = (\<lambda>h. Inr (v_difficulty v h)),
     get_cumulative_difficulty = (\<lambda>h. Inr (v_cumulative v h)),
     get_timestamp = (\<lambda>h. Inr (v_timestamp v h)), get_covariance = (\<lambda>h. Inr (v_covariance v h)),
     is_ordered = (\<lambda>h. Inr (v_topo v h \<noteq> None)),
     get_topoheight = (\<lambda>h. case v_topo v h of None \<Rightarrow> Inl StorageFailure | Some t \<Rightarrow> Inr t),
     get_blocks_at_height = (\<lambda>i. Inr (v_at_height v i)), get_pruned_topoheight = Inr (v_pruned v)\<rparr>"

lemma dag_of_simps [simp]:
  "get_height (dag_of v) = (\<lambda>h. Inr (v_height v h))"
  "get_past_blocks (dag_of v) = (\<lambda>h. Inr (v_past v h))"
  "get_block_difficulty (dag_of v) = (\<lambda>h. Inr (v_difficulty v h))"
  "get_cumulative_difficulty (dag_of v) = (\<lambda>h. Inr (v_cumulative v h))"
  "get_timestamp (dag_of v) = (\<lambda>h. Inr (v_timestamp v h))"
  "get_covariance (dag_of v) = (\<lambda>h. Inr (v_covariance v h))"
  "is_ordered (dag_of v) = (\<lambda>h. Inr (v_topo v h \<noteq> None))"
  "get_topoheight (dag_of v) = (\<lambda>h. case v_topo v h of None \<Rightarrow> Inl StorageFailure | Some t \<Rightarrow> Inr t)"
  "get_blocks_at_height (dag_of v) = (\<lambda>i. Inr (v_at_height v i))"
  "get_pruned_topoheight (dag_of v) = Inr (v_pruned v)"
  by (simp_all add: dag_of_def)

subsection \<open>Sorting\<close>

lemma efold_inv:
  assumes "efold f xs s = Inr r" and "P s" and "\<And>x s s'. x \<in> set xs \<Longrightarrow> P s \<Longrightarrow> f x s = Inr s' \<Longrightarrow> P s'"
  shows "P r"
  using assms
proof (induction xs arbitrary: s)
  case (Cons x xs)
  then obtain s' where "f x s = Inr s'" "efold f xs s' = Inr r" by (auto simp: ebind_def split: sum.splits)
  then show ?case using Cons.IH [of s'] Cons.prems(2) Cons.prems(3) [of x s s'] Cons.prems(3) by auto
qed simp

lemma mset_insert_by [simp]: "mset (insert_by le x xs) = add_mset x (mset xs)"
  by (induction xs) auto

lemma mset_sort_by [simp]: "mset (sort_by le xs) = mset xs"
  unfolding sort_by_def by (induction xs) auto

lemma set_sort_by [simp]: "set (sort_by le xs) = set xs"
  by (rule mset_eq_setD) simp

lemma length_sort_by [simp]: "length (sort_by le xs) = length xs"
  by (metis mset_sort_by size_mset)

locale total_order_by =
  fixes le :: "'a \<Rightarrow> 'a \<Rightarrow> bool"
  assumes le_trans: "le x y \<Longrightarrow> le y z \<Longrightarrow> le x z"
    and le_total: "le x y \<or> le y x"
    and le_antisym: "le x y \<Longrightarrow> le y x \<Longrightarrow> x = y"
begin

lemma sorted_insert_by: "sorted_wrt le xs \<Longrightarrow> sorted_wrt le (insert_by le x xs)"
proof (induction xs)
  case (Cons y ys)
  have "set (insert_by le x ys) = insert x (set ys)"
    by (metis mset_insert_by set_mset_add_mset_insert set_mset_mset)
  with Cons show ?case using le_trans le_total by auto blast
qed simp

lemma sorted_sort_by: "sorted_wrt le (sort_by le xs)"
  unfolding sort_by_def by (induction xs) (auto simp: sorted_insert_by)

lemma sorted_unique: "sorted_wrt le xs \<Longrightarrow> sorted_wrt le ys \<Longrightarrow> mset xs = mset ys \<Longrightarrow> xs = ys"
proof (induction xs arbitrary: ys)
  case (Cons x xs)
  then obtain y zs where ys: "ys = y # zs" by (cases ys) auto
  have "x \<in> set ys" "y \<in> set (x # xs)" using Cons.prems(3) ys by (metis list.set_intros(1) mset_eq_setD)+
  then have "x = y" using Cons.prems(1,2) ys le_antisym by auto
  with Cons ys show ?case by simp
qed simp

text \<open>The result of a sort does not depend on the order the elements came in.\<close>

lemma sort_by_order_independent: "mset xs = mset ys \<Longrightarrow> sort_by le xs = sort_by le ys"
  by (rule sorted_unique) (simp_all add: sorted_sort_by)

end

interpretation ascending: total_order_by le_ascending
  by unfold_locales (auto simp: le_ascending_def prod_eq_iff split: if_splits)

interpretation descending: total_order_by "\<lambda>a b. le_ascending b a"
  by unfold_locales (use ascending.le_trans ascending.le_total ascending.le_antisym in blast)+

subsection \<open>Folds over tips\<close>

lemma tip_scores_eq: "tip_scores (dag_of v) tips = Inr (map (\<lambda>h. (h, v_cumulative v h)) tips)"
proof -
  have "efold (\<lambda>h scores. ebind (get_cumulative_difficulty (dag_of v) h) (\<lambda>c. Inr (scores @ [(h, c)]))) tips acc
      = Inr (acc @ map (\<lambda>h. (h, v_cumulative v h)) tips)" for acc
    by (induction tips arbitrary: acc) auto
  from this [of "[]"] show ?thesis by (simp add: tip_scores_def)
qed

lemma efold_max:
  "efold (\<lambda>h (best, sel). ebind (Inr (f h)) (\<lambda>c. Inr (if best < c then (c, Some h) else (best, sel)))) tips (b, s)
     = Inr (b', s') \<Longrightarrow> b \<le> (b' :: 'a :: linorder) \<and> (\<forall>h \<in> set tips. f h \<le> b') \<and>
       ((b' = b \<and> s' = s) \<or> (\<exists>h \<in> set tips. s' = Some h \<and> f h = b' \<and> b < b'))"
proof (induction tips arbitrary: b s)
  case (Cons t ts)
  then show ?case by (cases "b < f t") (fastforce dest: Cons.IH)+
qed simp

lemma best_tip_correct:
  assumes "length tips \<ge> 2"
  shows "case find_best_tip_by_cumulative_difficulty (dag_of v) tips of
      Inr h \<Rightarrow> h \<in> set tips \<and> (\<forall>x \<in> set tips. v_cumulative v x \<le> v_cumulative v h)
    | Inl e \<Rightarrow> e = ExpectedTips \<and> (\<forall>x \<in> set tips. v_cumulative v x = 0)"
proof -
  let ?step = "\<lambda>h (best, sel). ebind (Inr (v_cumulative v h))
    (\<lambda>c. Inr (if best < c then (c, Some h) else (best, sel)))"
  have "\<exists>b s. efold ?step tips (b0, s0) = Inr (b, s)" for b0 s0
    by (induction tips arbitrary: b0 s0) auto
  then obtain b s where run: "efold ?step tips (0, None) = Inr (b, s)" by blast
  from efold_max [OF run] show ?thesis
    using assms run by (auto simp: find_best_tip_by_cumulative_difficulty_def split: option.split)
qed

lemma height_at_tips:
  assumes "tips \<noteq> []"
  shows "calculate_height_at_tips (dag_of v) tips = Inr (Max (v_height v ` set tips) + 1)"
proof -
  have "efold (\<lambda>h height. ebind (get_height (dag_of v) h)
      (\<lambda>past. Inr (if height \<le> past then past else height))) tips b = Inr (Max (insert b (v_height v ` set tips)))" for b
  proof (induction tips arbitrary: b)
    case (Cons t ts)
    have "Max (insert b (insert (v_height v t) (v_height v ` set ts)))
        = Max (insert (max b (v_height v t)) (v_height v ` set ts))"
      by (cases "ts = []") (simp_all add: max.assoc)
    with Cons show ?case by (simp add: max_def)
  qed simp
  from this [of 0] assms show ?thesis by (simp add: calculate_height_at_tips_def max_def)
qed

subsection \<open>Sync blocks\<close>

lemma any_ordered_other_eq:
  "any_ordered_other (dag_of v) h xs = Inr (\<exists>x \<in> set xs. x \<noteq> h \<and> v_topo v x \<noteq> None)"
  by (induction xs) auto

lemma any_heavier_ordered_eq:
  "any_heavier_ordered (dag_of v) c xs = Inr (\<exists>x \<in> set xs. v_topo v x \<noteq> None \<and> v_cumulative v x \<ge> c)"
  by (induction xs) auto

lemma word_le_pred: "i \<noteq> 0 \<Longrightarrow> j \<le> i \<longleftrightarrow> j = i \<or> j \<le> i - 1" for i j :: "'a::len word"
  by (auto simp: word_le_nat_alt unat_minus_one word_unat_eq_iff)

lemma word_less_pred: "b \<noteq> 0 \<Longrightarrow> i \<le> b - 1 \<longleftrightarrow> i < b" for i b :: "'a::len word"
proof -
  assume "b \<noteq> 0"
  then have "0 < unat b" by (simp add: unat_gt_0)
  then show ?thesis by (simp add: word_le_nat_alt word_less_nat_alt unat_minus_one \<open>b \<noteq> 0\<close>) linarith
qed

lemma collect_pre_blocks_eq:
  "\<exists>blocks. collect_pre_blocks (dag_of v) s i pre = Inr blocks \<and>
     set blocks = set pre \<union> (\<Union>j \<in> {j. s \<le> j \<and> j \<le> i \<and> j \<noteq> 0}. set (v_at_height v j))"
proof (induction "dag_of v" s i pre rule: collect_pre_blocks.induct)
  case (1 s i pre)
  show ?case
  proof (cases "i \<ge> s \<and> i \<noteq> 0")
    case True
    then have "{j. s \<le> j \<and> j \<le> i \<and> j \<noteq> 0} = insert i {j. s \<le> j \<and> j \<le> i - 1 \<and> j \<noteq> 0}"
      by (auto simp: word_le_pred [of i])
    with 1 True show ?thesis by (subst collect_pre_blocks.simps) (auto simp: Un_assoc)
  next
    case False
    then have "{j. s \<le> j \<and> j \<le> i \<and> j \<noteq> 0} = {}" by (auto dest: order_trans)
    with False show ?thesis by (subst collect_pre_blocks.simps) auto
  qed
qed

subsection \<open>The side chain of a block\<close>

text \<open>
  The blocks the search for the main chain walks through: the block itself and, from any of
  them, the tips that are not ordered. Their ordered tips are where it meets the main chain.
\<close>

inductive_set side_chain :: "dag_view \<Rightarrow> hash \<Rightarrow> hash set" for v h where
  side_start: "h \<in> side_chain v h"
| side_tip: "x \<in> side_chain v h \<Longrightarrow> t \<in> set (v_past v x) \<Longrightarrow> v_topo v t = None \<Longrightarrow> t \<in> side_chain v h"

definition meeting_heights :: "dag_view \<Rightarrow> hash set \<Rightarrow> u64 set" where
  "meeting_heights v xs = {v_height v t | x t. x \<in> xs \<and> t \<in> set (v_past v x) \<and> v_topo v t \<noteq> None}"

definition is_lowest :: "u64 option \<Rightarrow> u64 set \<Rightarrow> bool" where
  "is_lowest l S \<longleftrightarrow> (case l of None \<Rightarrow> S = {} | Some m \<Rightarrow> m \<in> S \<and> (\<forall>s \<in> S. m \<le> s))"

lemma is_lowest_insert:
  "is_lowest l S \<Longrightarrow> is_lowest (case l of None \<Rightarrow> Some x | Some m \<Rightarrow> if m > x then Some x else Some m) (insert x S)"
  by (auto simp: is_lowest_def split: option.splits)

lemma lowest_of_tips_eq:
  "is_lowest l S \<Longrightarrow> \<exists>l'. lowest_of_tips (dag_of v) tips l stack =
     Inr (l', rev (filter (\<lambda>t. v_topo v t = None) tips) @ stack) \<and>
     is_lowest l' (S \<union> v_height v ` {t \<in> set tips. v_topo v t \<noteq> None})"
proof (induction tips arbitrary: l S stack)
  case (Cons t ts)
  show ?case
  proof (cases "v_topo v t")
    case None
    then have "{x \<in> set (t # ts). v_topo v x \<noteq> None} = {x \<in> set ts. v_topo v x \<noteq> None}" by auto
    with None Cons.IH [OF Cons.prems, of "t # stack"] show ?thesis by simp
  next
    case (Some topo)
    have "v_height v ` {x \<in> set (t # ts). v_topo v x \<noteq> None} =
        insert (v_height v t) (v_height v ` {x \<in> set ts. v_topo v x \<noteq> None})" using Some by auto
    with Some Cons.IH [OF is_lowest_insert [OF Cons.prems], of "v_height v t" stack] show ?thesis by simp
  qed
qed simp

lemma meeting_heights_insert:
  "meeting_heights v (insert x P) = meeting_heights v P \<union> v_height v ` {t \<in> set (v_past v x). v_topo v t \<noteq> None}"
  by (auto simp: meeting_heights_def)

definition weight :: "dag_view \<Rightarrow> hash set \<Rightarrow> nat" where
  "weight v xs = (\<Sum>x \<in> xs. length (v_past v x) + 2)"

lemma weight_expand:
  "finite U \<Longrightarrow> x \<in> U \<Longrightarrow> x \<notin> P \<Longrightarrow> weight v (U - P) = length (v_past v x) + 2 + weight v (U - insert x P)"
proof -
  assume x: "finite U" "x \<in> U" "x \<notin> P"
  then have eq: "U - P = insert x (U - insert x P)" by auto
  have "weight v (insert x (U - insert x P)) = length (v_past v x) + 2 + weight v (U - insert x P)"
    using x(1) by (simp add: weight_def)
  then show ?thesis by (simp only: eq [symmetric])
qed

lemma lowest_loop_correct:
  assumes "finite (side_chain v h)" and "set stack \<subseteq> side_chain v h" and "set processed \<subseteq> side_chain v h"
    and "length stack + weight v (side_chain v h - set processed) \<le> fuel"
    and "h \<in> set processed \<union> set stack"
    and "\<forall>x \<in> set processed. \<forall>t \<in> set (v_past v x). v_topo v t = None \<longrightarrow> t \<in> set processed \<union> set stack"
    and "is_lowest l (meeting_heights v (set processed))"
  shows "\<exists>l'. find_lowest_height_loop (dag_of v) fuel stack processed l = Inr l' \<and>
    is_lowest l' (meeting_heights v (side_chain v h))"
  using assms
proof (induction fuel arbitrary: stack processed l)
  case 0
  then have [simp]: "stack = []" by simp
  have "side_chain v h \<subseteq> set processed"
  proof
    fix x assume "x \<in> side_chain v h"
    then show "x \<in> set processed" by induction (use 0 in auto)
  qed
  with 0 have "side_chain v h = set processed" by auto
  with 0 show ?case by simp
next
  case (Suc fuel)
  show ?case
  proof (cases stack)
    case Nil
    have "side_chain v h \<subseteq> set processed"
    proof
      fix x assume "x \<in> side_chain v h"
      then show "x \<in> set processed" by induction (use Suc.prems Nil in auto)
    qed
    with Suc.prems Nil have "side_chain v h = set processed" by auto
    with Suc.prems Nil show ?thesis by simp
  next
    case (Cons x rest)
    show ?thesis
    proof (cases "x \<in> set processed")
      case True
      have "\<exists>l'. find_lowest_height_loop (dag_of v) fuel rest processed l = Inr l'
          \<and> is_lowest l' (meeting_heights v (side_chain v h))"
        using Suc.prems Cons True by (intro Suc.IH) auto
      with Cons True show ?thesis by simp
    next
      case False
      let ?new = "rev (filter (\<lambda>t. v_topo v t = None) (v_past v x))"
      obtain l' where tips: "lowest_of_tips (dag_of v) (v_past v x) l rest = Inr (l', ?new @ rest)"
        and low: "is_lowest l' (meeting_heights v (set (x # processed)))"
        using lowest_of_tips_eq [OF Suc.prems(7), of v "v_past v x" rest]
        by (auto simp: meeting_heights_insert)
      have x: "x \<in> side_chain v h" using Suc.prems(2) Cons by simp
      have "length (?new @ rest) + weight v (side_chain v h - set (x # processed)) \<le> fuel"
        using Suc.prems(4) Cons weight_expand [OF Suc.prems(1) x False, of v]
          length_filter_le [of "\<lambda>t. v_topo v t = None" "v_past v x"]
        by (simp del: length_filter_le)
      moreover have "set (?new @ rest) \<subseteq> side_chain v h"
        using Suc.prems(2) Cons x by (auto intro: side_tip)
      ultimately have "\<exists>l''. find_lowest_height_loop (dag_of v) fuel (?new @ rest) (x # processed) l' = Inr l''
          \<and> is_lowest l'' (meeting_heights v (side_chain v h))"
        using Suc.prems Cons x low by (intro Suc.IH) auto
      with False Cons tips show ?thesis by simp
    qed
  qed
qed

lemma distance_correct:
  assumes "finite (side_chain v h)" and "v_topo v h = None"
    and "1 + weight v (side_chain v h) \<le> fuel"
  shows "\<exists>l. calculate_distance_from_mainchain (dag_of v) fuel h = Inr l \<and>
    is_lowest l (meeting_heights v (side_chain v h))"
proof -
  have "is_lowest None (meeting_heights v (set []))" by (simp add: is_lowest_def meeting_heights_def)
  with lowest_loop_correct [OF assms(1), of "[h]" "[]" fuel None] assms show ?thesis
    by (auto simp: calculate_distance_from_mainchain_def find_lowest_height_from_mainchain_def
      intro: side_start)
qed

lemma sub_ge_stable: "l \<le> c \<and> c - l \<ge> STABLE_LIMIT \<longleftrightarrow> unat l + 8 \<le> unat c" for l c :: u64
  by (auto simp: word_le_nat_alt STABLE_LIMIT_def unat_sub_le)

lemma pow_inv:
  assumes "verify_proof_of_work g n simulator h tips = Inr (d, p)"
  shows "get_difficulty_at_tips g n simulator tips = Inr (d, p) \<and> check_difficulty h d = Inr True"
proof -
  obtain d' p' where at: "get_difficulty_at_tips g n simulator tips = Inr (d', p')"
    and chk: "(case check_difficulty h d' of Inl e \<Rightarrow> Inl (DifficultyFailure e)
       | Inr ok \<Rightarrow> if ok then Inr (d', p') else Inl InvalidDifficulty) = Inr (d, p)"
    using assms unfolding verify_proof_of_work_def ebind_Inr by auto
  from chk at show ?thesis by (cases "check_difficulty h d'") (auto split: if_splits)
qed

section \<open>Properties\<close>

text \<open>
  C2. A block counts as a sync block exactly when it is genesis, or it is ordered, at least
  \<open>STABLE_LIMIT\<close> below the given height, and either the block the chain was pruned at or the only
  ordered block of its height with more cumulative difficulty than every ordered block of the
  heights from the stable point up to it.
\<close>

theorem sync_block_iff:
  "is_sync_block_at_height (dag_of v) h height = Inr (
     let b = v_height v h; s = (if b \<ge> STABLE_LIMIT then b - STABLE_LIMIT else STABLE_LIMIT - b) in
     b = 0 \<or> (b + STABLE_LIMIT \<le> height \<and> v_topo v h \<noteq> None \<and> (v_pruned v = v_topo v h \<or>
       ((\<forall>x \<in> set (v_at_height v b). x \<noteq> h \<longrightarrow> v_topo v x = None) \<and>
        (\<forall>i x. s \<le> i \<and> i < b \<and> i \<noteq> 0 \<and> x \<in> set (v_at_height v i) \<and> v_topo v x \<noteq> None \<longrightarrow>
           v_cumulative v x < v_cumulative v h)))))"
proof (cases "v_height v h = 0 \<or> v_height v h + STABLE_LIMIT > height \<or> v_topo v h = None \<or> v_pruned v = v_topo v h")
  case True
  then show ?thesis
    by (auto simp: is_sync_block_at_height_def Let_def not_less split: option.split)
next
  case False
  let ?b = "v_height v h"
  let ?s = "if ?b \<ge> STABLE_LIMIT then ?b - STABLE_LIMIT else STABLE_LIMIT - ?b"
  obtain t where t: "v_topo v h = Some t" using False by auto
  obtain blocks where blocks: "collect_pre_blocks (dag_of v) ?s (?b - 1) [] = Inr blocks"
      "set blocks = (\<Union>j \<in> {j. ?s \<le> j \<and> j \<le> ?b - 1 \<and> j \<noteq> 0}. set (v_at_height v j))"
    using collect_pre_blocks_eq [of v ?s "?b - 1" "[]"] by auto
  have lt: "i \<le> ?b - 1 \<longleftrightarrow> i < ?b" for i
    using False by (intro word_less_pred) simp
  define A where "A \<longleftrightarrow> (\<exists>x \<in> set blocks. v_topo v x \<noteq> None \<and> v_cumulative v x \<ge> v_cumulative v h)"
  define B where "B \<longleftrightarrow> (\<exists>x \<in> set (v_at_height v ?b). x \<noteq> h \<and> v_topo v x \<noteq> None)"
  define Q where "Q = (\<lambda>i x. ?s \<le> i \<and> i < ?b \<and> i \<noteq> 0 \<and> x \<in> set (v_at_height v i) \<and> v_topo v x \<noteq> None)"
  have "A \<longleftrightarrow> (\<exists>i x. Q i x \<and> v_cumulative v h \<le> v_cumulative v x)"
  proof -
    have "x \<in> set blocks \<and> v_topo v x \<noteq> None \<longleftrightarrow> (\<exists>i. Q i x)" for x
      unfolding blocks(2) Q_def lt by (simp only: UN_iff mem_Collect_eq Bex_def) iprover
    then show ?thesis unfolding A_def Bex_def by (simp only: ex_simps conj_assoc [symmetric]) iprover
  qed
  then have A: "(\<forall>i x. Q i x \<longrightarrow> v_cumulative v x < v_cumulative v h) \<longleftrightarrow> \<not> A"
    by (simp add: not_le)
  have B: "(\<forall>x \<in> set (v_at_height v ?b). x \<noteq> h \<longrightarrow> v_topo v x = None) \<longleftrightarrow> \<not> B"
    unfolding B_def by (simp add: disj_imp)
  have "is_sync_block_at_height (dag_of v) h height = Inr (\<not> B \<and> \<not> A)"
  proof -
    have "any_ordered_other (dag_of v) h (v_at_height v ?b) = Inr B"
      by (simp only: any_ordered_other_eq B_def)
    moreover have "any_heavier_ordered (dag_of v) (v_cumulative v h) (remdups blocks) = Inr A"
      by (simp only: any_heavier_ordered_eq A_def set_remdups)
    moreover have "(case v_pruned v of None \<Rightarrow> Inr False | Some p \<Rightarrow> Inr (p = t)) = (Inr False :: bool bc)"
      using False t by (auto split: option.split)
    ultimately show ?thesis
      using False t blocks(1) by (cases B) (simp_all only: is_sync_block_at_height_def Let_def dag_of_simps
        ebind_simps simp_thms if_False if_True option.case option.simps(3) de_Morgan_disj)
  qed
  then show ?thesis unfolding Let_def A [unfolded Q_def] B using False by (simp add: not_less)
qed

text \<open>
  Sorting tips gives every node the same order: the result depends only on which tips
  there are, is a permutation of them, and puts a tip of more cumulative difficulty first.
\<close>

theorem sort_tips_deterministic:
  assumes "mset tips = mset tips'" and "tips \<noteq> []"
  shows "sort_tips (dag_of v) tips = sort_tips (dag_of v) tips' \<and>
    (\<exists>sorted. sort_tips (dag_of v) tips = Inr sorted \<and> mset sorted = mset tips \<and>
      sorted_wrt (\<lambda>a b. v_cumulative v a \<ge> v_cumulative v b) sorted)"
proof -
  let ?f = "\<lambda>h. (h, v_cumulative v h)"
  let ?s = "sort_descending_by_cumulative_difficulty (map ?f tips)"
  have len: "length tips = length tips'" using assms(1) by (rule mset_eq_length)
  have eq: "?s = sort_descending_by_cumulative_difficulty (map ?f tips')"
    unfolding sort_descending_by_cumulative_difficulty_def
    by (rule descending.sort_by_order_independent) (simp add: assms(1))
  have srt: "sorted_wrt (\<lambda>a b. le_ascending b a) ?s"
    unfolding sort_descending_by_cumulative_difficulty_def by (rule descending.sorted_sort_by)
  have cum: "\<forall>x \<in> set ?s. snd x = v_cumulative v (fst x)"
    unfolding sort_descending_by_cumulative_difficulty_def by auto
  have "sorted_wrt (\<lambda>a b. v_cumulative v a \<ge> v_cumulative v b) (map fst ?s)"
    unfolding sorted_wrt_map
    by (rule sorted_wrt_mono_rel [OF _ srt]) (use cum in \<open>auto simp: le_ascending_def split: if_splits\<close>)
  moreover have "mset (map fst ?s) = mset tips"
    unfolding sort_descending_by_cumulative_difficulty_def by (simp add: multiset.map_comp comp_def)
  moreover have "tips' \<noteq> []" using assms by auto
  ultimately have many: ?thesis if "length tips \<noteq> 1"
    using that assms(2) len eq by (simp add: sort_tips_def tip_scores_eq)
  show ?thesis
  proof (cases "length tips = 1")
    case True
    then obtain t where "tips = [t]" by (auto simp: length_Suc_conv)
    moreover from this have "tips' = [t]" using assms(1) by simp
    ultimately show ?thesis by (simp add: sort_tips_def)
  qed (rule many)
qed

definition sample_view :: dag_view where
  "sample_view = \<lparr>v_height = (\<lambda>h. if h = Hash [0] then 0 else 1),
     v_past = (\<lambda>h. if h = Hash [0] then [] else [Hash [0]]),
     v_difficulty = (\<lambda>h. 5), v_cumulative = (\<lambda>h. if h = Hash [2] then 9 else 8), v_timestamp = (\<lambda>h. 7),
     v_covariance = (\<lambda>h. 1), v_topo = (\<lambda>h. if h = Hash [0] then Some 0 else None),
     v_at_height = (\<lambda>i. if i = 0 then [Hash [0]] else if i = 1 then [Hash [1], Hash [2]] else []),
     v_pruned = None\<rparr>"

theorem sync_block_iff_witness:
  "is_sync_block_at_height (dag_of (sample_view\<lparr>v_topo := \<lambda>h. if h = Hash [2] then Some 1 else None\<rparr>)) (Hash [2]) 9
     = Inr True"
proof -
  have "\<not> (7 \<le> i \<and> i < 1)" for i :: u64 by (simp add: word_le_nat_alt word_less_nat_alt)
  then show ?thesis
    using sync_block_iff [of "sample_view\<lparr>v_topo := \<lambda>h. if h = Hash [2] then Some 1 else None\<rparr>" "Hash [2]" 9]
    by (simp add: sample_view_def STABLE_LIMIT_def)
qed

theorem sort_tips_deterministic_witness:
  "sort_tips (dag_of sample_view) [Hash [1], Hash [2]] = sort_tips (dag_of sample_view) [Hash [2], Hash [1]]"
  using sort_tips_deterministic [of "[Hash [1], Hash [2]]" "[Hash [2], Hash [1]]" sample_view] by simp

text \<open>
  C19. The search for the main chain terminates on a finite side chain and is exact: a block
  that is not ordered is near enough exactly when its side chain meets the main chain and meets
  it nowhere \<open>STABLE_LIMIT\<close> or more below the chain height.
\<close>

theorem near_enough_exact:
  assumes "finite (side_chain v h)" and "v_topo v h = None"
    and "1 + weight v (side_chain v h) \<le> fuel"
  shows "is_near_enough_from_main_chain (dag_of v) fuel h chain_height =
    Inr (meeting_heights v (side_chain v h) \<noteq> {} \<and>
      (\<forall>m \<in> meeting_heights v (side_chain v h). unat chain_height < unat m + 8))"
proof -
  obtain l where l: "calculate_distance_from_mainchain (dag_of v) fuel h = Inr l"
    and low: "is_lowest l (meeting_heights v (side_chain v h))"
    using distance_correct [OF assms] by blast
  show ?thesis
  proof (cases l)
    case None
    with l low show ?thesis by (simp add: is_near_enough_from_main_chain_def is_lowest_def)
  next
    case (Some m)
    with low have "unat chain_height < unat m + 8 \<longleftrightarrow>
        (\<forall>m \<in> meeting_heights v (side_chain v h). unat chain_height < unat m + 8)"
      by (fastforce simp: is_lowest_def word_le_nat_alt)
    moreover have "meeting_heights v (side_chain v h) \<noteq> {}" using low Some by (auto simp: is_lowest_def)
    ultimately show ?thesis
      using l Some sub_ge_stable [of m chain_height]
      by (auto simp: is_near_enough_from_main_chain_def not_le)
  qed
qed

lemma sample_side_chain: "side_chain sample_view (Hash [2]) = {Hash [2]}"
proof
  show "side_chain sample_view (Hash [2]) \<subseteq> {Hash [2]}"
  proof
    fix x assume "x \<in> side_chain sample_view (Hash [2])"
    then show "x \<in> {Hash [2]}" by induction (auto simp: sample_view_def split: if_splits)
  qed
qed (simp add: side_start)

theorem near_enough_exact_witness:
  "is_near_enough_from_main_chain (dag_of sample_view) 10 (Hash [2]) 3 = Inr True"
proof -
  have m: "meeting_heights sample_view {Hash [2]} = {0}"
    by (auto simp: meeting_heights_def sample_view_def)
  have "weight sample_view {Hash [2]} = 3" by (simp add: weight_def sample_view_def)
  then show ?thesis
    using near_enough_exact [of sample_view "Hash [2]" 10 3]
    by (simp add: sample_side_chain m) (simp add: sample_view_def)
qed

text \<open>
  C18. Proof of work is never below the network's minimum: whatever the storage answers, a hash
  accepted for a block on top of some tips meets a difficulty that is at least the minimum
  difficulty of the block version at that height.
\<close>

theorem accepted_work_meets_minimum:
  assumes "hash_ok h" and "tips \<noteq> []" and "calculate_height_at_tips g tips = Inr height"
    and "verify_proof_of_work g n simulator h tips = Inr (d, p)"
  shows "be_nat (as_bytes h) * unat d < 2 ^ 256 \<and>
    get_minimum_difficulty n (get_version_at_height n height) \<le> d"
proof
  have at: "get_difficulty_at_tips g n simulator tips = Inr (d, p)" and chk: "check_difficulty h d = Inr True"
    using pow_inv [OF assms(4)] by simp_all
  show "be_nat (as_bytes h) * unat d < 2 ^ 256"
  proof -
    have "d \<noteq> 0" using chk by (auto simp: check_difficulty_def compute_difficulty_target_def)
    moreover have "be_nat (as_bytes h) < 2 ^ 256"
      using assms(1) be_nat_less [of "as_bytes h"] by (simp add: hash_ok_def HASH_SIZE_def)
    then have "unat (from_be_bytes (as_bytes h) :: u256) = be_nat (as_bytes h)"
      by (simp add: from_be_bytes_def unat_of_nat)
    ultimately show ?thesis using chk check_difficulty_unat [of d h] by simp
  qed
  obtain hf version where hf: "has_hard_fork_at_height n height = (hf, version)" by (cases "has_hard_fork_at_height n height")
  then have v: "get_version_at_height n height = version" by (simp add: get_version_at_height_def)
  have fork: "get_minimum_difficulty n version \<le> f" if "get_difficulty_at_hard_fork n version = Some f" for f
    using that by (cases n; cases version) (auto simp: get_difficulty_at_hard_fork_def get_minimum_difficulty_def
      get_difficulty_with_target_def get_block_time_target_for_version_def MILLIS_PER_SECOND_def
      KILO_HASH_def MEGA_HASH_def GIGA_HASH_def HASH_def MAINNET_MINIMUM_HASHRATE_def
      word_le_nat_alt unat_varuint_from_u64)
  have calc: "m \<le> d" if "calculate_difficulty a b prev p' m version = Some (d, p)" for a b prev p' m
    using that by (rule calculate_difficulty_min)
  show "get_minimum_difficulty n (get_version_at_height n height) \<le> d"
    unfolding v using at assms(2,3) fork calc
    by (auto simp: get_difficulty_at_tips_def hf ebind_Inr no_panic_def split: if_splits option.splits)
qed

theorem accepted_work_meets_minimum_witness:
  "get_minimum_difficulty Devnet (get_version_at_height Devnet 2) \<le> 6000"
proof -
  have "check_difficulty (Hash (replicate 32 0)) 6000 = Inr True"
    using check_difficulty_unat [of 6000 "Hash (replicate 32 0)"]
    by (simp add: from_be_bytes_def be_nat_zeros)
  moreover have "get_difficulty_at_tips (dag_of sample_view) Devnet True [Hash [2]]
      = Inr (6000, get_covariance_p V0)"
    by (simp add: get_difficulty_at_tips_def calculate_height_at_tips_def sample_view_def has_hard_fork_at_height_def
      get_hard_fork_at_height_def get_hard_forks_def OTHERS_NETWORK_HARD_FORKS_def get_minimum_difficulty_def
      get_difficulty_with_target_def DEFAULT_MINIMUM_HASHRATE_def HASH_def get_block_time_target_for_version_def
      MILLIS_PER_SECOND_def varuint_from_u64_def u256_limbs_ext)
  ultimately have "verify_proof_of_work (dag_of sample_view) Devnet True (Hash (replicate 32 0)) [Hash [2]]
      = Inr (6000, get_covariance_p V0)"
    by (simp add: verify_proof_of_work_def)
  moreover have "calculate_height_at_tips (dag_of sample_view) [Hash [2]] = Inr 2"
    by (simp add: calculate_height_at_tips_def sample_view_def)
  moreover have "hash_ok (Hash (replicate 32 0))" by (simp add: hash_ok_def HASH_SIZE_def)
  ultimately show ?thesis
    using accepted_work_meets_minimum [of "Hash (replicate 32 0)" "[Hash [2]]" "dag_of sample_view" 2] by blast
qed

end
