(* ===== verification/Rewards.thy ===== *)
theory Rewards
  imports Dag
begin

text \<open>
  Emission and rewards (\<open>daemon/src/core/blockchain.rs\<close>, \<open>daemon/src/config.rs\<close>): the reward of a
  block as a function of the emitted supply, side blocks and the share they get, the developer
  fee, how the reward of a block being ordered is split and recorded, and the two estimates the
  node answers clients with (required transaction fees, average block time).
\<close>

section \<open>The reward of a block\<close>

definition EMISSION_SPEED_FACTOR :: nat where "EMISSION_SPEED_FACTOR = 20"

definition SIDE_BLOCK_REWARD_PERCENT :: u64 where "SIDE_BLOCK_REWARD_PERCENT = 30"

definition SIDE_BLOCK_REWARD_MAX_BLOCKS :: u64 where "SIDE_BLOCK_REWARD_MAX_BLOCKS = 3"

definition SIDE_BLOCK_REWARD_MIN_PERCENT :: u64 where "SIDE_BLOCK_REWARD_MIN_PERCENT = 5"

definition side_block_reward_percentage :: "u64 \<Rightarrow> u64" where
  "side_block_reward_percentage side_blocks =
     (if side_blocks > 0 then
        if side_blocks < SIDE_BLOCK_REWARD_MAX_BLOCKS then SIDE_BLOCK_REWARD_PERCENT div (side_blocks * 2)
        else SIDE_BLOCK_REWARD_MIN_PERCENT
      else SIDE_BLOCK_REWARD_PERCENT)"

definition block_reward_at :: "u64 \<Rightarrow> u64 \<Rightarrow> u64" where
  "block_reward_at supply block_time_target =
     (if supply \<ge> MAXIMUM_SUPPLY then 0
      else let base_reward = drop_bit EMISSION_SPEED_FACTOR (MAXIMUM_SUPPLY - supply)
      in base_reward * block_time_target div MILLIS_PER_SECOND div 180)"

definition internal_get_block_reward :: "u64 \<Rightarrow> bool \<Rightarrow> u64 \<Rightarrow> block_version \<Rightarrow> u64" where
  "internal_get_block_reward past_supply is_side_block side_blocks_count version =
     (let block_reward = block_reward_at past_supply (get_block_time_target_for_version version)
      in if is_side_block then block_reward * side_block_reward_percentage side_blocks_count div 100
         else block_reward)"

record dev_fee_threshold =
  threshold_height :: u64
  fee_percentage :: u64

definition DEV_FEES :: "dev_fee_threshold list" where
  "DEV_FEES = [\<lparr>threshold_height = 0, fee_percentage = 10\<rparr>,
               \<lparr>threshold_height = 3942000, fee_percentage = 5\<rparr>]"

definition get_block_dev_fee :: "u64 \<Rightarrow> u64" where
  "get_block_dev_fee height = fold (\<lambda>threshold percentage.
     if height \<ge> threshold_height threshold then fee_percentage threshold else percentage) DEV_FEES 0"

section \<open>Side blocks\<close>

text \<open>The storage queries the rewards need on top of those of the DAG.\<close>

record chain = dag +
  get_hash_at_topo :: "topoheight \<Rightarrow> hash bc"
  get_block_version :: "hash \<Rightarrow> block_version bc"

function side_block_loop :: "chain \<Rightarrow> u64 \<Rightarrow> u64 \<Rightarrow> u64 \<Rightarrow> bool bc" where
  "side_block_loop c height counter i =
     (if counter < STABLE_LIMIT \<and> i > 0 then
        ebind (get_hash_at_topo c i) (\<lambda>h. ebind (get_height c h) (\<lambda>previous_height.
          if height \<le> previous_height then Inr True
          else side_block_loop c height (counter + 1) (i - 1)))
      else Inr False)"
  by pat_completeness auto
termination
  by (relation "measure (\<lambda>(_, _, _, i). unat i)") (auto simp: unat_minus_one unat_gt_0 word_greater_zero_iff)

declare side_block_loop.simps [simp del]

definition is_side_block_internal :: "chain \<Rightarrow> hash \<Rightarrow> topoheight \<Rightarrow> bool bc" where
  "is_side_block_internal c h current_topoheight = ebind (is_ordered c h) (\<lambda>ordered.
     if \<not> ordered then Inr False
     else ebind (get_topoheight c h) (\<lambda>topoheight.
       if topoheight = 0 \<or> topoheight > current_topoheight then Inr False
       else ebind (get_height c h) (\<lambda>height. side_block_loop c height 0 (topoheight - 1))))"

definition count_side_blocks :: "chain \<Rightarrow> hash \<Rightarrow> topoheight \<Rightarrow> hash list \<Rightarrow> u64 bc" where
  "count_side_blocks c h current_topoheight blocks =
     efold (\<lambda>block count. if h \<noteq> block
       then ebind (is_side_block_internal c block current_topoheight)
         (\<lambda>side. Inr (if side then count + 1 else count))
       else Inr count) blocks 0"

definition get_block_reward :: "chain \<Rightarrow> topoheight \<Rightarrow> hash \<Rightarrow> u64 \<Rightarrow> topoheight \<Rightarrow> u64 bc" where
  "get_block_reward c chain_topoheight h past_supply current_topoheight =
     ebind (is_side_block_internal c h chain_topoheight) (\<lambda>is_side_block.
     ebind (if is_side_block then ebind (get_height c h) (\<lambda>height.
          ebind (get_blocks_at_height c height) (count_side_blocks c h current_topoheight))
        else Inr 0) (\<lambda>side_blocks_count.
     ebind (get_block_version c h) (\<lambda>version.
     Inr (internal_get_block_reward past_supply is_side_block side_blocks_count version))))"

definition has_block_stable_order :: "chain \<Rightarrow> hash \<Rightarrow> topoheight \<Rightarrow> bool bc" where
  "has_block_stable_order c h topoheight = ebind (is_ordered c h) (\<lambda>ordered.
     if ordered then ebind (get_topoheight c h) (\<lambda>t. Inr (t + STABLE_LIMIT \<le> topoheight))
     else Inr False)"

section \<open>Ordering a block: supply and payments\<close>

text \<open>
  What \<open>add_new_block\<close> does with the reward of each block it orders: the number of side blocks
  already rewarded at a height is kept in a map while the blocks are ordered, the developer fee
  is taken from the reward alone, and the emitted supply is recorded for the topoheight.
\<close>

definition side_block_step ::
  "chain \<Rightarrow> hash \<Rightarrow> topoheight \<Rightarrow> u64 \<Rightarrow> (u64 \<times> u64) list \<Rightarrow> (bool \<times> u64 \<times> (u64 \<times> u64) list) bc" where
  "side_block_step c h highest_topo height side_blocks =
     ebind (is_side_block_internal c h highest_topo) (\<lambda>is_side_block.
     ebind (case map_of side_blocks height of Some n \<Rightarrow> Inr n
        | None \<Rightarrow> ebind (get_blocks_at_height c height) (count_side_blocks c h highest_topo)) (\<lambda>count.
     Inr (is_side_block, count, map_insert height (if is_side_block then count + 1 else count) side_blocks)))"

record payout =
  dev_fee_part :: "u64 option"
  miner_reward :: u64
  emitted_supply :: u64

definition pay_block :: "u64 \<Rightarrow> u64 \<Rightarrow> u64 \<Rightarrow> u64 \<Rightarrow> u64 \<Rightarrow> payout" where
  "pay_block past_emitted_supply block_reward height total_fees gas_fee =
     (let dev_fee_percentage = get_block_dev_fee height;
          dev = (if dev_fee_percentage \<noteq> 0 then Some (block_reward * dev_fee_percentage div 100) else None);
          miner = (case dev of None \<Rightarrow> block_reward | Some part \<Rightarrow> block_reward - part)
      in \<lparr>dev_fee_part = dev, miner_reward = miner + total_fees + gas_fee,
          emitted_supply = past_emitted_supply + block_reward\<rparr>)"

section \<open>Estimates\<close>

text \<open>
  \<open>destinations\<close> is \<open>Some\<close> with the destinations of the transfers when the transaction is a
  transfer, \<open>registered\<close> the account query at the current topoheight.
\<close>

definition estimate_required_tx_fees ::
  "(public_key \<Rightarrow> bool bc) \<Rightarrow> public_key list option \<Rightarrow> bool \<Rightarrow> usize \<Rightarrow> usize \<Rightarrow> u64 bc" where
  "estimate_required_tx_fees registered destinations is_energy tx_size multisig_count =
     ebind (case destinations of None \<Rightarrow> Inr (0, [])
       | Some transfers \<Rightarrow> ebind (efold (\<lambda>d processed. if d \<notin> set processed
             then ebind (registered d) (\<lambda>r. Inr (if \<not> r then snd (index_insert d processed) else processed))
             else Inr processed) transfers [])
           (\<lambda>processed. Inr (length transfers, processed)))
     (\<lambda>(output_count, processed_keys). if is_energy then Inr 0
        else Inr (calculate_tx_fee tx_size output_count (length processed_keys) multisig_count))"

definition get_average_block_time :: "chain \<Rightarrow> network \<Rightarrow> u64 \<Rightarrow> topoheight \<Rightarrow> u64 bc" where
  "get_average_block_time c n height topoheight =
     (if \<not> topoheight > 50 \<and> topoheight \<le> 1
      then Inr (get_block_time_target_for_version (get_version_at_height n height))
      else let count = (if topoheight > 50 then 50 else topoheight - 1) in
        ebind (get_pruned_topoheight c) (\<lambda>pruned.
        let count = (case pruned of None \<Rightarrow> count
              | Some p \<Rightarrow> if topoheight - count < p then p else count) in
        ebind (get_hash_at_topo c topoheight) (\<lambda>now_hash.
        ebind (get_timestamp c now_hash) (\<lambda>now_timestamp.
        ebind (get_hash_at_topo c (topoheight - count)) (\<lambda>count_hash.
        ebind (get_timestamp c count_hash) (\<lambda>count_timestamp.
        if count = 0 then Inl ArithmeticPanic else Inr ((now_timestamp - count_timestamp) div count)))))))"

section \<open>Lemmas\<close>

lemma time_target_bound: "unat (get_block_time_target_for_version v) \<le> 60000"
  by (cases v) (simp_all add: get_block_time_target_for_version_def MILLIS_PER_SECOND_def)

lemma side_percentage_cases:
  "side_block_reward_percentage n = (if n = 0 then 30 else if n = 1 then 15 else if n = 2 then 7 else 5)"
proof -
  have "n < 3 \<longleftrightarrow> n = 0 \<or> n = 1 \<or> n = 2"
  proof
    assume "n < 3"
    then have "unat n < 3" by (simp add: word_less_nat_alt)
    then have "unat n = 0 \<or> unat n = 1 \<or> unat n = 2" by linarith
    then show "n = 0 \<or> n = 1 \<or> n = 2" by (simp add: word_unat_eq_iff)
  qed auto
  then show ?thesis
    by (auto simp: side_block_reward_percentage_def SIDE_BLOCK_REWARD_PERCENT_def
        SIDE_BLOCK_REWARD_MAX_BLOCKS_def SIDE_BLOCK_REWARD_MIN_PERCENT_def word_gt_0)
qed

lemma unat_side_percentage: "unat (side_block_reward_percentage n) \<le> 30"
  by (simp add: side_percentage_cases)

text \<open>The reward without its wrap-around: no intermediate product of the code leaves 64 bits.\<close>

lemma unat_block_reward_at:
  assumes "unat t \<le> 60000"
  shows "unat (block_reward_at supply t)
    = (1840000000000000 - unat supply) div 2 ^ 20 * unat t div 1000 div 180"
proof (cases "supply \<ge> MAXIMUM_SUPPLY")
  case True
  then have "1840000000000000 \<le> unat supply" by (simp add: word_le_nat_alt unat_MAXIMUM_SUPPLY)
  then show ?thesis using True by (simp add: block_reward_at_def)
next
  case False
  let ?d = "(1840000000000000 - unat supply) div 2 ^ 20"
  have sub: "unat (MAXIMUM_SUPPLY - supply) = 1840000000000000 - unat supply"
    using False by (simp add: unat_sub_le unat_MAXIMUM_SUPPLY)
  then have base: "unat (drop_bit EMISSION_SPEED_FACTOR (MAXIMUM_SUPPLY - supply)) = ?d"
    by (simp add: EMISSION_SPEED_FACTOR_def unat_drop_bit_eq [of 20] drop_bit_eq_div unat_div)
  have "?d \<le> 1840000000000000 div 2 ^ 20" by (intro div_le_mono) simp
  then have "?d * unat t \<le> 1754760743 * 60000" using assms by (intro mult_le_mono) simp_all
  then have "unat (drop_bit EMISSION_SPEED_FACTOR (MAXIMUM_SUPPLY - supply) * t) = ?d * unat t"
    using base by (subst unat_mult_no_overflow) simp_all
  then show ?thesis
    using False by (simp add: block_reward_at_def Let_def unat_div MILLIS_PER_SECOND_def)
qed

lemma block_reward_at_le:
  assumes "unat t \<le> 60000" and "unat supply \<le> 1840000000000000"
  shows "unat (block_reward_at supply t) \<le> (1840000000000000 - unat supply) div 2 ^ 20 div 3"
proof -
  let ?d = "(1840000000000000 - unat supply) div 2 ^ 20"
  have "?d * unat t div 1000 div 180 \<le> ?d * 60000 div 1000 div 180"
    using assms(1) by (intro div_le_mono mult_le_mono2) simp
  also have "\<dots> = ?d div 3" by (simp add: div_mult2_eq [symmetric])
  finally show ?thesis by (simp add: unat_block_reward_at [OF assms(1)])
qed

lemma unat_internal_reward:
  "unat (internal_get_block_reward supply side n v) =
     (let r = (1840000000000000 - unat supply) div 2 ^ 20 * unat (get_block_time_target_for_version v) div 1000 div 180
      in if side then r * unat (side_block_reward_percentage n) div 100 else r)"
proof -
  let ?t = "get_block_time_target_for_version v" let ?r = "block_reward_at supply ?t"
  have "unat ?r \<le> 1840000000000000 div 2 ^ 20 * 60000 div 1000 div 180"
    unfolding unat_block_reward_at [OF time_target_bound]
    by (intro div_le_mono mult_le_mono time_target_bound) simp
  then have "unat ?r * unat (side_block_reward_percentage n) \<le> 1000000000 * 30"
    using unat_side_percentage by (intro mult_le_mono) simp_all
  then have "unat (?r * side_block_reward_percentage n) = unat ?r * unat (side_block_reward_percentage n)"
    by (intro unat_mult_no_overflow) simp
  then show ?thesis
    by (simp add: internal_get_block_reward_def Let_def unat_div unat_block_reward_at time_target_bound)
qed

lemma internal_reward_fits:
  assumes "unat supply \<le> 1840000000000000"
  shows "unat (internal_get_block_reward supply side n v) \<le> 1840000000000000 - unat supply"
    and "unat (internal_get_block_reward supply side n v) \<le> 1000000000"
proof -
  let ?t = "get_block_time_target_for_version v"
  let ?r = "unat (block_reward_at supply ?t)"
  have r: "?r \<le> (1840000000000000 - unat supply) div 2 ^ 20 div 3"
    by (rule block_reward_at_le [OF time_target_bound assms])
  have "?r * unat (side_block_reward_percentage n) div 100 \<le> ?r * 100 div 100"
    using unat_side_percentage [of n] by (intro div_le_mono mult_le_mono2) simp
  then have "unat (internal_get_block_reward supply side n v) \<le> ?r"
    unfolding unat_internal_reward Let_def unat_block_reward_at [OF time_target_bound] by simp
  moreover have "(1840000000000000 - unat supply) div 2 ^ 20 div 3 \<le> 1840000000000000 - unat supply"
    by (rule order_trans [OF div_le_dividend div_le_dividend])
  moreover have "(1840000000000000 - unat supply) div 2 ^ 20 div 3 \<le> (1840000000000000 - 0) div 2 ^ 20 div 3"
    by (intro div_le_mono) simp
  ultimately show "unat (internal_get_block_reward supply side n v) \<le> 1840000000000000 - unat supply"
    and "unat (internal_get_block_reward supply side n v) \<le> 1000000000"
    using r by simp_all
qed

lemma dev_fee_cases: "get_block_dev_fee height = (if height < 3942000 then 10 else 5)"
  by (simp add: get_block_dev_fee_def DEV_FEES_def linorder_not_less)

text \<open>
  The supplies the chain can reach by ordering blocks from genesis on, with the rewards handed
  out on the way, the latest first.
\<close>

inductive emission :: "u64 \<Rightarrow> u64 list \<Rightarrow> bool" where
  genesis: "emission 0 []"
| order: "emission s rs \<Longrightarrow> r = internal_get_block_reward s is_side_block side_blocks_count version \<Longrightarrow>
    emission (emitted_supply (pay_block s r height total_fees gas_fee)) (r # rs)"

definition chain_of :: "dag_view \<Rightarrow> (topoheight \<Rightarrow> hash) \<Rightarrow> (hash \<Rightarrow> block_version) \<Rightarrow> chain" where
  "chain_of v at ver = dag.extend (dag_of v)
     \<lparr>get_hash_at_topo = (\<lambda>t. Inr (at t)), get_block_version = (\<lambda>h. Inr (ver h))\<rparr>"

lemma chain_of_simps [simp]:
  "get_height (chain_of v at ver) = (\<lambda>h. Inr (v_height v h))"
  "get_timestamp (chain_of v at ver) = (\<lambda>h. Inr (v_timestamp v h))"
  "is_ordered (chain_of v at ver) = (\<lambda>h. Inr (v_topo v h \<noteq> None))"
  "get_topoheight (chain_of v at ver) = (\<lambda>h. case v_topo v h of None \<Rightarrow> Inl StorageFailure | Some t \<Rightarrow> Inr t)"
  "get_blocks_at_height (chain_of v at ver) = (\<lambda>i. Inr (v_at_height v i))"
  "get_pruned_topoheight (chain_of v at ver) = Inr (v_pruned v)"
  "get_hash_at_topo (chain_of v at ver) = (\<lambda>t. Inr (at t))"
  "get_block_version (chain_of v at ver) = (\<lambda>h. Inr (ver h))"
  by (simp_all add: chain_of_def dag.extend_def)

lemma side_block_loop_eq:
  "unat k \<le> 8 \<Longrightarrow> side_block_loop (chain_of v at ver) height k i = Inr (\<exists>j. 0 < j \<and> j \<le> i \<and>
     unat i < unat j + (8 - unat k) \<and> height \<le> v_height v (at j))"
proof (induction "chain_of v at ver" height k i rule: side_block_loop.induct)
  case (1 height k i)
  show ?case
  proof (cases "k < STABLE_LIMIT \<and> i > 0")
    case True
    then have k: "unat k < 8" "unat (k + 1) = unat k + 1" and i: "unat (i - 1) = unat i - 1" "0 < unat i"
      by (simp_all add: STABLE_LIMIT_def word_less_nat_alt unat_minus_one unat_gt_0 unat_word_ariths word_gt_0)
    show ?thesis
    proof (cases "height \<le> v_height v (at i)")
      case found: True
      then show ?thesis using True k by (subst side_block_loop.simps) (auto intro!: exI [of _ i])
    next
      case False
      have le: "j \<le> i - 1 \<longleftrightarrow> j \<le> i \<and> j \<noteq> i" for j
        using i by (auto simp: word_le_nat_alt word_unat_eq_iff)
      have "side_block_loop (chain_of v at ver) height (k + 1) (i - 1) = Inr (\<exists>j. 0 < j \<and> j \<le> i - 1 \<and>
          unat (i - 1) < unat j + (8 - unat (k + 1)) \<and> height \<le> v_height v (at j))"
        using 1 True False k by simp
      also have "(\<exists>j. 0 < j \<and> j \<le> i - 1 \<and> unat (i - 1) < unat j + (8 - unat (k + 1)) \<and> height \<le> v_height v (at j))
          \<longleftrightarrow> (\<exists>j. 0 < j \<and> j \<le> i \<and> unat i < unat j + (8 - unat k) \<and> height \<le> v_height v (at j))"
        unfolding le using False k i by (intro iff_exI) (auto simp: word_le_nat_alt)
      finally show ?thesis using True False by (subst side_block_loop.simps) simp
    qed
  next
    case False
    then show ?thesis using 1(2)
      by (subst side_block_loop.simps)
        (auto simp: STABLE_LIMIT_def word_less_nat_alt not_less word_le_nat_alt word_gt_0)
  qed
qed

section \<open>Properties\<close>

text \<open>
  C21. Emission cap. Whatever blocks are ordered, side blocks or not, under whatever versions,
  the recorded supply is the exact sum of the rewards handed out since genesis, so the unchecked
  additions never wrap, and it stays below the maximum supply.
\<close>

theorem emission_capped:
  assumes "emission supply rewards"
  shows "unat supply = sum_list (map unat rewards) \<and> supply \<le> MAXIMUM_SUPPLY"
  using assms
proof induction
  case (order s rs r side n version height fees gas)
  then have s: "unat s \<le> 1840000000000000" by (simp add: word_le_nat_alt unat_MAXIMUM_SUPPLY)
  have "unat r \<le> 1840000000000000 - unat s" using internal_reward_fits(1) [OF s] order by simp
  with s have "unat (s + r) = unat s + unat r" "unat s + unat r \<le> 1840000000000000"
    by (simp_all add: unat_add_no_overflow)
  with order show ?case
    by (simp add: pay_block_def Let_def word_le_nat_alt unat_MAXIMUM_SUPPLY)
qed simp

theorem emission_capped_witness:
  "unat (584920247 :: u64) = sum_list (map unat [584920247 :: u64]) \<and> (584920247 :: u64) \<le> MAXIMUM_SUPPLY"
proof -
  have "unat (internal_get_block_reward 0 False 0 V0) = 584920247"
    by (simp add: unat_internal_reward get_block_time_target_for_version_def MILLIS_PER_SECOND_def)
  then have r: "internal_get_block_reward 0 False 0 V0 = 584920247"
    by (simp add: word_unat_eq_iff)
  have "emission 584920247 [584920247]"
    using emission.order [OF emission.genesis refl, of False 0 V0 0 0 0] by (simp add: pay_block_def Let_def r)
  from emission_capped [OF this] show ?thesis .
qed



text \<open>
  Side blocks. An ordered block is a side block at a topoheight exactly when it is not the
  genesis block, is ordered up to that topoheight and one of the eight blocks ordered before it
  (the genesis block excepted) has at least its height.
\<close>

theorem side_block_iff:
  assumes "v_topo v h = Some t"
  shows "is_side_block_internal (chain_of v at ver) h current = Inr (t \<noteq> 0 \<and> t \<le> current \<and>
    (\<exists>j. 0 < j \<and> j < t \<and> unat t \<le> unat j + 8 \<and> v_height v h \<le> v_height v (at j)))"
proof (cases "t = 0 \<or> t > current")
  case True
  then show ?thesis using assms by (auto simp: is_side_block_internal_def not_le)
next
  case False
  then have "unat (t - 1) = unat t - 1" "0 < unat t" by (simp_all add: unat_minus_one unat_gt_0)
  then have "j \<le> t - 1 \<and> unat (t - 1) < unat j + 8 \<longleftrightarrow> j < t \<and> unat t \<le> unat j + 8" for j
    by (auto simp: word_le_nat_alt word_less_nat_alt)
  then have "(\<exists>j. 0 < j \<and> j \<le> t - 1 \<and> unat (t - 1) < unat j + 8 \<and> v_height v h \<le> v_height v (at j)) \<longleftrightarrow>
      (\<exists>j. 0 < j \<and> j < t \<and> unat t \<le> unat j + 8 \<and> v_height v h \<le> v_height v (at j))"
    by blast
  then show ?thesis using False assms side_block_loop_eq [of 0 v at ver "v_height v h" "t - 1"]
    by (auto simp: is_side_block_internal_def)
qed

theorem side_block_iff_witness:
  "is_side_block_internal (chain_of (sample_view\<lparr>v_topo := \<lambda>_. Some 2\<rparr>) (\<lambda>_. Hash [1]) (\<lambda>_. V0)) (Hash [2]) 5 = Inr True"
proof -
  have "\<exists>j::u64. 0 < j \<and> j < 2 \<and> unat (2::u64) \<le> unat j + 8" by (rule exI [of _ 1]) simp
  then show ?thesis
    using side_block_iff [of "sample_view\<lparr>v_topo := \<lambda>_. Some 2\<rparr>" "Hash [2]" 2 "\<lambda>_. Hash [1]" "\<lambda>_. V0" 5]
    by (simp add: sample_view_def)
qed

end
