(* ===== verification/Elgamal.thy ===== *)
theory Elgamal
  imports Config Complex_Main
begin

text \<open>
  Twisted ElGamal encryption and signatures (\<open>common/src/crypto/elgamal\<close>). The group, its scalar
  field, their encodings and the hash are libraries the sources call: a \<open>curve\<close> record holds the
  operations used of them. Points are an abelian group and scalars a field by their type; what the
  code relies on beyond that is \<open>curve_laws\<close> and \<open>encoding_laws\<close>. The newtypes \<open>PedersenCommitment\<close>,
  \<open>DecryptHandle\<close>, \<open>PedersenOpening\<close>, \<open>PublicKey\<close> and \<open>PrivateKey\<close> are their content. An operator
  implemented for values and for references is one definition. Random scalars are arguments.
\<close>

section \<open>The group library\<close>

record ('s, 'p) curve =
  smul :: "'s \<Rightarrow> 'p \<Rightarrow> 'p"
  gen_G :: 'p
  gen_H :: 'p
  pc_commit :: "'s \<Rightarrow> 's \<Rightarrow> 'p"
  encode_point :: "'p \<Rightarrow> u8 list"
  decode_point :: "u8 list \<Rightarrow> 'p option"
  encode_scalar :: "'s \<Rightarrow> u8 list"
  decode_scalar :: "u8 list \<Rightarrow> 's option"
  from_bytes_mod_order_wide :: "u8 list \<Rightarrow> 's"
  sha3_512 :: "u8 list \<Rightarrow> u8 list"

definition scalar_from :: "u64 \<Rightarrow> 's::field" where
  "scalar_from v = of_nat (unat v)"

section \<open>Commitments and ciphertexts\<close>

definition commitment_new_with_opening :: "('s, 'p) curve \<Rightarrow> 's \<Rightarrow> 's \<Rightarrow> 'p" where
  "commitment_new_with_opening C amount opening = pc_commit C amount opening"

definition decrypt_handle_new :: "('s, 'p) curve \<Rightarrow> 'p \<Rightarrow> 's \<Rightarrow> 'p" where
  "decrypt_handle_new C public opening = smul C opening public"

definition commitment_add_scalar :: "('s, 'p::ab_group_add) curve \<Rightarrow> 'p \<Rightarrow> 's \<Rightarrow> 'p" where
  "commitment_add_scalar C commitment rhs = commitment + smul C rhs (gen_G C)"

definition commitment_sub_scalar :: "('s, 'p::ab_group_add) curve \<Rightarrow> 'p \<Rightarrow> 's \<Rightarrow> 'p" where
  "commitment_sub_scalar C commitment rhs = commitment - smul C rhs (gen_G C)"

record 'p ciphertext =
  commitment :: 'p
  handle :: 'p

definition ciphertext_zero :: "'p::ab_group_add ciphertext" where
  "ciphertext_zero = \<lparr>commitment = 0, handle = 0\<rparr>"

definition compress_ciphertext :: "('s, 'p) curve \<Rightarrow> 'p ciphertext \<Rightarrow> compressed_ciphertext" where
  "compress_ciphertext C c =
     \<lparr>ct_commitment = encode_point C (commitment c), ct_handle = encode_point C (handle c)\<rparr>"

definition decompress_ciphertext :: "('s, 'p) curve \<Rightarrow> compressed_ciphertext \<Rightarrow> 'p ciphertext option" where
  "decompress_ciphertext C c = (case decode_point C (ct_commitment c) of None \<Rightarrow> None
     | Some p \<Rightarrow> (case decode_point C (ct_handle c) of None \<Rightarrow> None
       | Some h \<Rightarrow> Some \<lparr>commitment = p, handle = h\<rparr>))"

definition ciphertext_add :: "'p::ab_group_add ciphertext \<Rightarrow> 'p ciphertext \<Rightarrow> 'p ciphertext" where
  "ciphertext_add c rhs = \<lparr>commitment = commitment c + commitment rhs, handle = handle c + handle rhs\<rparr>"

definition ciphertext_add_scalar ::
  "('s, 'p::ab_group_add) curve \<Rightarrow> 'p ciphertext \<Rightarrow> 's \<Rightarrow> 'p ciphertext" where
  "ciphertext_add_scalar C c rhs =
     \<lparr>commitment = commitment_add_scalar C (commitment c) rhs, handle = handle c\<rparr>"

definition ciphertext_add_u64 ::
  "('s::field, 'p::ab_group_add) curve \<Rightarrow> 'p ciphertext \<Rightarrow> u64 \<Rightarrow> 'p ciphertext" where
  "ciphertext_add_u64 C c rhs =
     \<lparr>commitment = commitment_add_scalar C (commitment c) (scalar_from rhs), handle = handle c\<rparr>"

definition ciphertext_sub :: "'p::ab_group_add ciphertext \<Rightarrow> 'p ciphertext \<Rightarrow> 'p ciphertext" where
  "ciphertext_sub c rhs = \<lparr>commitment = commitment c - commitment rhs, handle = handle c - handle rhs\<rparr>"

definition ciphertext_sub_scalar ::
  "('s, 'p::ab_group_add) curve \<Rightarrow> 'p ciphertext \<Rightarrow> 's \<Rightarrow> 'p ciphertext" where
  "ciphertext_sub_scalar C c rhs =
     \<lparr>commitment = commitment_sub_scalar C (commitment c) rhs, handle = handle c\<rparr>"

definition ciphertext_sub_u64 ::
  "('s::field, 'p::ab_group_add) curve \<Rightarrow> 'p ciphertext \<Rightarrow> u64 \<Rightarrow> 'p ciphertext" where
  "ciphertext_sub_u64 C c rhs =
     \<lparr>commitment = commitment_sub_scalar C (commitment c) (scalar_from rhs), handle = handle c\<rparr>"

definition ciphertext_mul :: "('s, 'p) curve \<Rightarrow> 'p ciphertext \<Rightarrow> 's \<Rightarrow> 'p ciphertext" where
  "ciphertext_mul C c rhs = \<lparr>commitment = smul C rhs (commitment c), handle = smul C rhs (handle c)\<rparr>"

section \<open>Keys\<close>

text \<open>\<open>None\<close> is the failed assertion that the secret is not zero.\<close>

definition public_key_new :: "('s::field, 'p) curve \<Rightarrow> 's \<Rightarrow> 'p option" where
  "public_key_new C secret = (if secret \<noteq> 0 then Some (smul C (inverse secret) (gen_H C)) else None)"

definition encrypt_with_opening :: "('s, 'p) curve \<Rightarrow> 'p \<Rightarrow> 's \<Rightarrow> 's \<Rightarrow> 'p ciphertext" where
  "encrypt_with_opening C key amount opening =
     \<lparr>commitment = commitment_new_with_opening C amount opening, handle = decrypt_handle_new C key opening\<rparr>"

definition private_key_from_scalar :: "'s::field \<Rightarrow> 's option" where
  "private_key_from_scalar scalar = (if scalar \<noteq> 0 then Some scalar else None)"

definition decrypt_to_point :: "('s, 'p::ab_group_add) curve \<Rightarrow> 's \<Rightarrow> 'p ciphertext \<Rightarrow> 'p" where
  "decrypt_to_point C secret c = commitment c - smul C secret (handle c)"

text \<open>
  \<open>ecdlp p lo hi\<close> is the discrete logarithm search \<open>ecdlp::decode\<close> with its precomputed tables;
  its result is cast to \<open>u64\<close>.
\<close>

definition decode_point_within_range ::
  "('p \<Rightarrow> int \<Rightarrow> int \<Rightarrow> int option) \<Rightarrow> 'p \<Rightarrow> int \<Rightarrow> int \<Rightarrow> u64 option" where
  "decode_point_within_range ecdlp point range_min range_max =
     map_option of_int (ecdlp point range_min range_max)"

definition key_decode_point :: "('p \<Rightarrow> int \<Rightarrow> int \<Rightarrow> int option) \<Rightarrow> 'p \<Rightarrow> u64 option" where
  "key_decode_point ecdlp point = decode_point_within_range ecdlp point 0 (int (unat MAXIMUM_SUPPLY))"

definition decrypt ::
  "('s, 'p::ab_group_add) curve \<Rightarrow> ('p \<Rightarrow> int \<Rightarrow> int \<Rightarrow> int option) \<Rightarrow> 's \<Rightarrow> 'p ciphertext \<Rightarrow> u64 option" where
  "decrypt C ecdlp secret c = key_decode_point ecdlp (decrypt_to_point C secret c)"

record ('s, 'p) key_pair =
  kp_public :: 'p
  kp_private :: 's

definition key_pair_from_private_key :: "('s::field, 'p) curve \<Rightarrow> 's \<Rightarrow> ('s, 'p) key_pair option" where
  "key_pair_from_private_key C secret = (case public_key_new C secret of None \<Rightarrow> None
     | Some public \<Rightarrow> Some \<lparr>kp_public = public, kp_private = secret\<rparr>)"

section \<open>Signatures\<close>

record 's signature =
  sig_s :: 's
  sig_e :: 's

definition hash_and_point_to_scalar :: "('s, 'p) curve \<Rightarrow> u8 list \<Rightarrow> u8 list \<Rightarrow> 'p \<Rightarrow> 's" where
  "hash_and_point_to_scalar C key message point =
     from_bytes_mod_order_wide C (sha3_512 C (key @ message @ encode_point C point))"

definition sign :: "('s::field, 'p) curve \<Rightarrow> ('s, 'p) key_pair \<Rightarrow> 's \<Rightarrow> u8 list \<Rightarrow> 's signature" where
  "sign C keys k message =
     (let r = smul C k (gen_H C);
          e = hash_and_point_to_scalar C (encode_point C (kp_public keys)) message r;
          s = inverse (kp_private keys) * e + k
      in \<lparr>sig_s = s, sig_e = e\<rparr>)"

definition verify :: "('s::field, 'p::ab_group_add) curve \<Rightarrow> 's signature \<Rightarrow> u8 list \<Rightarrow> 'p \<Rightarrow> bool" where
  "verify C sig message key =
     (let r = smul C (sig_s sig) (gen_H C) + smul C (- sig_e sig) key;
          calculated = hash_and_point_to_scalar C (encode_point C key) message r
      in sig_e sig = calculated)"

section \<open>Serializers\<close>

definition SCALAR_SIZE :: usize where "SCALAR_SIZE = 32"

definition SIGNATURE_SIZE :: usize where "SIGNATURE_SIZE = SCALAR_SIZE * 2"

definition write_scalar :: "('s, 'p) curve \<Rightarrow> 's \<Rightarrow> writer \<Rightarrow> writer" where
  "write_scalar C s = write_bytes (encode_scalar C s)"

definition read_scalar :: "('s, 'p) curve \<Rightarrow> 's rd" where
  "read_scalar C = rbind (read_array SCALAR_SIZE) (\<lambda>bs. case decode_scalar C bs of
     None \<Rightarrow> rfail InvalidValue | Some s \<Rightarrow> rreturn s)"

definition size_scalar :: "'s \<Rightarrow> usize" where
  "size_scalar s = SCALAR_SIZE"

definition write_signature :: "('s, 'p) curve \<Rightarrow> 's signature \<Rightarrow> writer \<Rightarrow> writer" where
  "write_signature C sig = writes [write_scalar C (sig_s sig), write_scalar C (sig_e sig)]"

definition read_signature :: "('s, 'p) curve \<Rightarrow> 's signature rd" where
  "read_signature C = rbind (read_scalar C) (\<lambda>s. rbind (read_scalar C) (\<lambda>e.
     rreturn \<lparr>sig_s = s, sig_e = e\<rparr>))"

definition size_signature :: "'s signature \<Rightarrow> usize" where
  "size_signature sig = SIGNATURE_SIZE"

section \<open>What is assumed of the libraries\<close>

text \<open>Scalar multiplication is an action of the field on the group; a commitment is \<open>x G + r H\<close>.\<close>

definition curve_laws :: "('s::field, 'p::ab_group_add) curve \<Rightarrow> bool" where
  "curve_laws C \<longleftrightarrow> (\<forall>a b P. smul C (a + b) P = smul C a P + smul C b P) \<and>
     (\<forall>a P Q. smul C a (P + Q) = smul C a P + smul C a Q) \<and>
     (\<forall>a b P. smul C (a * b) P = smul C a (smul C b P)) \<and> (\<forall>P. smul C 1 P = P) \<and>
     (\<forall>x r. pc_commit C x r = smul C x (gen_G C) + smul C r (gen_H C))"

text \<open>Ristretto encodings: 32 bytes, decoding inverts encoding, only canonical bytes decode.\<close>

definition encoding_laws :: "('s, 'p) curve \<Rightarrow> bool" where
  "encoding_laws C \<longleftrightarrow> (\<forall>P. decode_point C (encode_point C P) = Some P \<and> length (encode_point C P) = 32) \<and>
     (\<forall>bs P. decode_point C bs = Some P \<longrightarrow> encode_point C P = bs)"

definition scalar_encoding_laws :: "('s, 'p) curve \<Rightarrow> bool" where
  "scalar_encoding_laws C \<longleftrightarrow>
     (\<forall>s. decode_scalar C (encode_scalar C s) = Some s \<and> length (encode_scalar C s) = 32) \<and>
     (\<forall>bs s. decode_scalar C bs = Some s \<longrightarrow> encode_scalar C s = bs)"

text \<open>The discrete logarithm search finds every exponent in its range.\<close>

definition ecdlp_complete :: "('s::field, 'p) curve \<Rightarrow> ('p \<Rightarrow> int \<Rightarrow> int \<Rightarrow> int option) \<Rightarrow> bool" where
  "ecdlp_complete C ecdlp \<longleftrightarrow> (\<forall>n lo hi. lo \<le> int n \<and> int n \<le> hi \<longrightarrow>
     ecdlp (smul C (of_nat n) (gen_G C)) lo hi = Some (int n))"

section \<open>Lemmas\<close>

lemma smul_laws:
  assumes "curve_laws C"
  shows smul_add_left: "smul C (a + b) P = smul C a P + smul C b P"
    and smul_add_right: "smul C a (P + Q) = smul C a P + smul C a Q"
    and smul_smul: "smul C a (smul C b P) = smul C (a * b) P"
    and smul_one: "smul C 1 P = P"
    and commit_eq: "pc_commit C x r = smul C x (gen_G C) + smul C r (gen_H C)"
  using assms unfolding curve_laws_def by metis+

lemma smul_zero:
  assumes "curve_laws C"
  shows smul_zero_left: "smul C 0 P = 0" and smul_zero_right: "smul C a 0 = 0"
proof -
  have "smul C 0 P + smul C 0 P = smul C 0 P + 0" using smul_add_left [OF assms, of 0 0 P] by simp
  then show "smul C 0 P = 0" by (simp only: add_left_cancel)
  have "smul C a 0 + smul C a 0 = smul C a 0 + 0" using smul_add_right [OF assms, of a 0 0] by simp
  then show "smul C a 0 = 0" by (simp only: add_left_cancel)
qed

lemma smul_minus:
  assumes "curve_laws C"
  shows smul_minus_left: "smul C (- a) P = - smul C a P" and smul_minus_right: "smul C a (- P) = - smul C a P"
proof -
  have "smul C (- a) P + smul C a P = 0"
    using smul_add_left [OF assms, of "- a" a P] by (simp add: smul_zero_left [OF assms])
  then show "smul C (- a) P = - smul C a P" by (simp add: eq_neg_iff_add_eq_0)
  have "smul C a (- P) + smul C a P = 0"
    using smul_add_right [OF assms, of a "- P" P] by (simp add: smul_zero_right [OF assms])
  then show "smul C a (- P) = - smul C a P" by (simp add: eq_neg_iff_add_eq_0)
qed

lemma smul_diff:
  assumes "curve_laws C"
  shows smul_diff_left: "smul C (a - b) P = smul C a P - smul C b P"
    and smul_diff_right: "smul C a (P - Q) = smul C a P - smul C a Q"
  using smul_add_left [OF assms, of a "- b" P] smul_add_right [OF assms, of a P "- Q"]
  by (simp_all add: smul_minus [OF assms])

text \<open>The group algebra a proof about a curve rewrites with: products of scalars collected, sums apart.\<close>

lemmas smul_algebra = smul_add_left smul_add_right smul_smul smul_one smul_minus_left smul_minus_right
  smul_diff_left smul_diff_right smul_zero_left smul_zero_right

lemma decrypt_encrypt:
  assumes "curve_laws C" and "public_key_new C secret = Some key"
  shows "decrypt_to_point C secret (encrypt_with_opening C key x r) = smul C x (gen_G C)"
proof -
  have "secret \<noteq> 0" and key: "key = smul C (inverse secret) (gen_H C)"
    using assms(2) by (auto simp: public_key_new_def split: if_splits)
  then have cancel: "secret * (r * inverse secret) = r" by simp
  show ?thesis
    by (simp add: cancel decrypt_to_point_def encrypt_with_opening_def commitment_new_with_opening_def
        decrypt_handle_new_def key smul_smul [OF assms(1)] commit_eq [OF assms(1)])
qed

text \<open>
  The ciphertexts an account's balance goes through and the amounts they stand for: \<open>tracks\<close>
  follows every homomorphic operation of the ciphertext type, whatever order they come in.
\<close>

inductive tracks :: "('s::field, 'p::ab_group_add) curve \<Rightarrow> 's \<Rightarrow> 'p ciphertext \<Rightarrow> 's \<Rightarrow> bool"
  for C secret where
  zero: "tracks C secret ciphertext_zero 0"
| encrypted: "public_key_new C secret = Some key \<Longrightarrow> tracks C secret (encrypt_with_opening C key x r) x"
| add: "tracks C secret c x \<Longrightarrow> tracks C secret d y \<Longrightarrow> tracks C secret (ciphertext_add c d) (x + y)"
| add_scalar: "tracks C secret c x \<Longrightarrow> tracks C secret (ciphertext_add_scalar C c y) (x + y)"
| add_u64: "tracks C secret c x \<Longrightarrow> tracks C secret (ciphertext_add_u64 C c n) (x + scalar_from n)"
| sub: "tracks C secret c x \<Longrightarrow> tracks C secret d y \<Longrightarrow> tracks C secret (ciphertext_sub c d) (x - y)"
| sub_scalar: "tracks C secret c x \<Longrightarrow> tracks C secret (ciphertext_sub_scalar C c y) (x - y)"
| sub_u64: "tracks C secret c x \<Longrightarrow> tracks C secret (ciphertext_sub_u64 C c n) (x - scalar_from n)"
| mul: "tracks C secret c x \<Longrightarrow> tracks C secret (ciphertext_mul C c y) (y * x)"

lemmas ciphertext_defs = ciphertext_zero_def ciphertext_add_def ciphertext_sub_def ciphertext_mul_def
  ciphertext_add_scalar_def ciphertext_add_u64_def ciphertext_sub_scalar_def ciphertext_sub_u64_def
  commitment_add_scalar_def commitment_sub_scalar_def

lemma tracks_decrypts:
  assumes "curve_laws C" and "tracks C secret c x"
  shows "decrypt_to_point C secret c = smul C x (gen_G C)"
  using assms(2)
proof induction
  case (encrypted key x r)
  then show ?case by (rule decrypt_encrypt [OF assms(1)])
next
  case (mul c x y)
  have "smul C y (commitment c) - smul C secret (smul C y (handle c)) = smul C y (commitment c - smul C secret (handle c))"
    by (simp add: smul_algebra [OF assms(1)] mult.commute)
  also have "\<dots> = smul C (y * x) (gen_G C)"
    using mul.IH by (simp only: decrypt_to_point_def smul_smul [OF assms(1)])
  finally show ?case by (simp add: decrypt_to_point_def ciphertext_defs)
qed (simp_all add: decrypt_to_point_def ciphertext_defs smul_algebra [OF assms(1)] algebra_simps)

lemma scalar_serializer:
  assumes "scalar_encoding_laws C"
  shows "strict_serializer (write_scalar C) (read_scalar C) size_scalar (\<lambda>_. True)"
proof
  show "accepts (read_scalar C) (\<lambda>s bs. True \<and> bs = to_bytes (write_scalar C s))"
    unfolding read_scalar_def using assms
    by (intro accepts_bindI [OF accepts_read_array])
      (auto simp: scalar_encoding_laws_def write_scalar_def codec_simps
        intro!: accepts_return accepts_fail split: option.split)
  show "reads (read_scalar C) s (to_bytes (write_scalar C s))" for s
    unfolding read_scalar_def using assms
    by (intro reads_bind_tail [OF reads_read_array])
      (simp_all add: scalar_encoding_laws_def write_scalar_def codec_simps reads_return SCALAR_SIZE_def)
  show "reader_safe (read_scalar C)"
    unfolding read_scalar_def by (auto intro!: codec_intros split: option.split)
qed (use assms in \<open>simp_all add: write_scalar_def codec_simps size_scalar_def SCALAR_SIZE_def scalar_encoding_laws_def\<close>)

lemma signature_serializer:
  assumes "scalar_encoding_laws C"
  shows "strict_serializer (write_signature C) (read_signature C) size_signature (\<lambda>_. True)"
proof -
  note sc = scalar_serializer [OF assms]
  note ser = strict_serializer.axioms(1) [OF sc]
  note append = serializer.write_append [OF ser]
  show ?thesis
  proof
    show "accepts (read_signature C) (\<lambda>sig bs. True \<and> bs = to_bytes (write_signature C sig))"
      unfolding read_signature_def
      by (intro accepts_bindI [OF strict_serializer.read_strict [OF sc]] accepts_return)
        (simp add: write_signature_def codec_simps append)
    show "reads (read_signature C) sig (to_bytes (write_signature C sig))" for sig
      unfolding read_signature_def write_signature_def
      by (simp add: codec_simps append reads_bind [OF serializer.read_write [OF ser]]
          reads_bind_return [OF serializer.read_write [OF ser]])
    show "size_signature sig = length (to_bytes (write_signature C sig))" for sig
      using serializer.size_write [OF ser]
      by (simp add: write_signature_def codec_simps append size_signature_def SIGNATURE_SIZE_def size_scalar_def
          flip: serializer.size_write [OF ser])
    show "reader_safe (read_signature C)"
      unfolding read_signature_def by (intro codec_intros serializer.read_safe [OF ser])
  qed (simp add: write_signature_def codec_simps append)
qed

lemma verify_sign:
  assumes "curve_laws C" and "key_pair_from_private_key C secret = Some keys"
  shows "verify C (sign C keys k message) message (kp_public keys)"
proof -
  have keys: "kp_private keys = secret" "kp_public keys = smul C (inverse secret) (gen_H C)"
    using assms(2) by (auto simp: key_pair_from_private_key_def public_key_new_def split: if_splits)
  let ?e = "hash_and_point_to_scalar C (encode_point C (kp_public keys)) message (smul C k (gen_H C))"
  have "smul C (inverse secret * ?e + k) (gen_H C) + smul C (- ?e) (smul C (inverse secret) (gen_H C))
      = smul C k (gen_H C)"
    by (simp add: smul_algebra [OF assms(1)] mult.commute)
  then show ?thesis by (simp add: verify_def sign_def Let_def keys)
qed

section \<open>Properties\<close>


definition sample_curve :: "(rat, rat) curve" where
  "sample_curve = \<lparr>smul = (*), gen_G = 1, gen_H = 2, pc_commit = (\<lambda>x r. x + r * 2), encode_point = (\<lambda>_. []),
     decode_point = (\<lambda>_. None), encode_scalar = (\<lambda>_. []), decode_scalar = (\<lambda>_. None),
     from_bytes_mod_order_wide = (\<lambda>bs. of_nat (length bs)), sha3_512 = (\<lambda>bs. bs)\<rparr>"

definition sample_ecdlp :: "rat \<Rightarrow> int \<Rightarrow> int \<Rightarrow> int option" where
  "sample_ecdlp p lo hi = (if of_int \<lfloor>p\<rfloor> = p \<and> lo \<le> \<lfloor>p\<rfloor> \<and> \<lfloor>p\<rfloor> \<le> hi then Some \<lfloor>p\<rfloor> else None)"

lemma sample_curve_laws: "curve_laws sample_curve" "ecdlp_complete sample_curve sample_ecdlp"
  by (simp_all add: curve_laws_def ecdlp_complete_def sample_curve_def sample_ecdlp_def algebra_simps)


text \<open>
  Signatures. What a key pair signs verifies under its public key, for every message and
  every choice of the random scalar.
\<close>

theorem signature_verifies:
  assumes "curve_laws C" and "key_pair_from_private_key C secret = Some keys"
  shows "verify C (sign C keys k message) message (kp_public keys)"
  by (rule verify_sign [OF assms])

theorem signature_verifies_witness:
  "verify sample_curve (sign sample_curve \<lparr>kp_public = 1 / 2, kp_private = 4\<rparr> 9 [1, 2]) [1, 2] (1 / 2)"
  using signature_verifies [OF sample_curve_laws(1), of 4 "\<lparr>kp_public = 1 / 2, kp_private = 4\<rparr>" 9 "[1, 2]"]
  by (simp add: key_pair_from_private_key_def public_key_new_def) (simp add: sample_curve_def)

end
