(* ===== verification/Accounts.thy ===== *)
theory Accounts
  imports Elgamal HardFork
begin

text \<open>
  Versioned account data (\<open>common/src/account/mod.rs\<close>, \<open>balance.rs\<close>, \<open>nonce.rs\<close>,
  \<open>common/src/versioned_type.rs\<close>, \<open>common/src/asset.rs\<close>): the ciphertext cache that decompresses
  a balance at most once, balances with their output balance, nonces, the generic versioned data
  and its states, assets, and the wire format of all of them.
\<close>

section \<open>Ciphertext cache\<close>

datatype 'p ciphertext_cache =
    Compressed compressed_ciphertext
  | Decompressed "'p ciphertext"
  | Both compressed_ciphertext "'p ciphertext" bool

text \<open>
  The operations that hand out a reference return the cache they leave and the value referred to;
  \<open>set_computable\<close> is a store through the mutable reference of \<open>computable\<close>. \<open>None\<close> is the
  \<open>DecompressionError\<close>.
\<close>

fun computable :: "('s, 'p) curve \<Rightarrow> 'p ciphertext_cache \<Rightarrow> ('p ciphertext_cache \<times> 'p ciphertext) option" where
  "computable C (Compressed c) = (case decompress_ciphertext C c of None \<Rightarrow> None
     | Some d \<Rightarrow> Some (Decompressed d, d))"
| "computable C (Decompressed e) = Some (Decompressed e, e)"
| "computable C (Both c e dirty) = Some (Both c e True, e)"

fun set_computable :: "'p ciphertext \<Rightarrow> 'p ciphertext_cache \<Rightarrow> 'p ciphertext_cache" where
  "set_computable e' (Compressed c) = Compressed c"
| "set_computable e' (Decompressed e) = Decompressed e'"
| "set_computable e' (Both c e dirty) = Both c e' dirty"

fun compress :: "('s, 'p) curve \<Rightarrow> 'p ciphertext_cache \<Rightarrow> compressed_ciphertext" where
  "compress C (Compressed c) = c"
| "compress C (Decompressed e) = compress_ciphertext C e"
| "compress C (Both c e dirty) = (if dirty then compress_ciphertext C e else c)"

fun compressed :: "('s, 'p) curve \<Rightarrow> 'p ciphertext_cache \<Rightarrow> 'p ciphertext_cache \<times> compressed_ciphertext" where
  "compressed C (Compressed c) = (Compressed c, c)"
| "compressed C (Decompressed e) =
     (let c = compress_ciphertext C e in (Both c e False, c))"
| "compressed C (Both c d dirty) =
     (let c = (if dirty then compress_ciphertext C d else c) in (Both c d dirty, c))"

fun decompressed :: "('s, 'p) curve \<Rightarrow> 'p ciphertext_cache \<Rightarrow> ('p ciphertext_cache \<times> 'p ciphertext) option" where
  "decompressed C (Compressed c) = (case decompress_ciphertext C c of None \<Rightarrow> None
     | Some d \<Rightarrow> Some (Both c d False, d))"
| "decompressed C (Decompressed e) = Some (Decompressed e, e)"
| "decompressed C (Both c e dirty) = Some (Both c e dirty, e)"

fun both :: "('s, 'p) curve \<Rightarrow> 'p ciphertext_cache \<Rightarrow>
    ('p ciphertext_cache \<times> compressed_ciphertext \<times> 'p ciphertext) option" where
  "both C (Both c e dirty) = (let c = (if dirty then compress_ciphertext C e else c) in Some (Both c e dirty, c, e))"
| "both C (Compressed c) = (case decompress_ciphertext C c of None \<Rightarrow> None
     | Some d \<Rightarrow> Some (Both c d False, c, d))"
| "both C (Decompressed e) = (let c = compress_ciphertext C e in Some (Both c e False, c, e))"

fun take_ciphertext :: "('s, 'p) curve \<Rightarrow> 'p ciphertext_cache \<Rightarrow> 'p ciphertext option" where
  "take_ciphertext C (Compressed c) = decompress_ciphertext C c"
| "take_ciphertext C (Decompressed e) = Some e"
| "take_ciphertext C (Both c e dirty) = Some e"

definition cache_eq :: "('s, 'p) curve \<Rightarrow> 'p ciphertext_cache \<Rightarrow> 'p ciphertext_cache \<Rightarrow> bool" where
  "cache_eq C a b \<longleftrightarrow> compress C a = compress C b"

definition write_cache :: "('s, 'p) curve \<Rightarrow> 'p ciphertext_cache \<Rightarrow> writer \<Rightarrow> writer" where
  "write_cache C k = write_compressed_ciphertext (compress C k)"

definition read_cache :: "'p ciphertext_cache rd" where
  "read_cache = rbind read_compressed_ciphertext (\<lambda>c. rreturn (Compressed c))"

definition size_cache :: "'p ciphertext_cache \<Rightarrow> usize" where
  "size_cache k = RISTRETTO_COMPRESSED_SIZE + RISTRETTO_COMPRESSED_SIZE"

section \<open>Balances\<close>

datatype balance_type = Input | Output | InOut

definition type_contains_output :: "balance_type \<Rightarrow> bool" where
  "type_contains_output t \<longleftrightarrow> t = Output \<or> t = InOut"

fun balance_type_id :: "balance_type \<Rightarrow> u8" where
  "balance_type_id Input = 0" | "balance_type_id Output = 1" | "balance_type_id InOut = 2"

definition write_balance_type :: "balance_type \<Rightarrow> writer \<Rightarrow> writer" where
  "write_balance_type t = write_u8 (balance_type_id t)"

definition read_balance_type :: "balance_type rd" where
  "read_balance_type = rbind read_u8 (\<lambda>b.
     if b = 0 then rreturn Input else if b = 1 then rreturn Output
     else if b = 2 then rreturn InOut else rfail InvalidValue)"

record 'p versioned_balance =
  vb_previous_topoheight :: "topoheight option"
  vb_output_balance :: "'p ciphertext_cache option"
  vb_final_balance :: "'p ciphertext_cache"
  vb_balance_type :: balance_type

definition versioned_balance_new :: "'p ciphertext_cache \<Rightarrow> topoheight option \<Rightarrow> 'p versioned_balance" where
  "versioned_balance_new final_balance previous_topoheight = \<lparr>vb_previous_topoheight = previous_topoheight,
     vb_output_balance = None, vb_final_balance = final_balance, vb_balance_type = Input\<rparr>"

definition versioned_balance_zero :: "'p::ab_group_add versioned_balance" where
  "versioned_balance_zero = versioned_balance_new (Decompressed ciphertext_zero) None"

definition prepare_new :: "topoheight option \<Rightarrow> 'p versioned_balance \<Rightarrow> 'p versioned_balance" where
  "prepare_new previous_topoheight b = b\<lparr>vb_previous_topoheight := previous_topoheight,
     vb_output_balance := None, vb_balance_type := Input\<rparr>"

definition take_balance_with :: "bool \<Rightarrow> 'p versioned_balance \<Rightarrow> 'p ciphertext_cache" where
  "take_balance_with output b = (case vb_output_balance b of
     Some balance \<Rightarrow> if output then balance else vb_final_balance b | None \<Rightarrow> vb_final_balance b)"

definition select_balance :: "bool \<Rightarrow> 'p versioned_balance \<Rightarrow> 'p ciphertext_cache \<times> bool" where
  "select_balance output b = (case vb_output_balance b of
     Some balance \<Rightarrow> if output then (balance, True) else (vb_final_balance b, False)
   | None \<Rightarrow> (vb_final_balance b, False))"

definition set_compressed_balance :: "compressed_ciphertext \<Rightarrow> 'p versioned_balance \<Rightarrow> 'p versioned_balance" where
  "set_compressed_balance value b = b\<lparr>vb_final_balance := Compressed value\<rparr>"

definition add_plaintext_to_balance ::
  "('s::field, 'p::ab_group_add) curve \<Rightarrow> u64 \<Rightarrow> 'p versioned_balance \<Rightarrow> 'p versioned_balance option" where
  "add_plaintext_to_balance C value b = (case computable C (vb_final_balance b) of None \<Rightarrow> None
     | Some (k, e) \<Rightarrow> Some (b\<lparr>vb_final_balance := set_computable (ciphertext_add_u64 C e value) k\<rparr>))"

definition contains_input :: "'p versioned_balance \<Rightarrow> bool" where
  "contains_input b \<longleftrightarrow> vb_balance_type b \<noteq> Output"

definition contains_output :: "'p versioned_balance \<Rightarrow> bool" where
  "contains_output b \<longleftrightarrow> type_contains_output (vb_balance_type b)"

record 'p balance =
  bal_topoheight :: topoheight
  bal_output_balance :: "'p ciphertext_cache option"
  bal_final_balance :: "'p ciphertext_cache"
  bal_balance_type :: balance_type

definition as_balance :: "topoheight \<Rightarrow> 'p versioned_balance \<Rightarrow> 'p balance" where
  "as_balance topoheight b = \<lparr>bal_topoheight = topoheight, bal_output_balance = vb_output_balance b,
     bal_final_balance = vb_final_balance b, bal_balance_type = vb_balance_type b\<rparr>"

definition as_version :: "'p balance \<Rightarrow> topoheight \<times> 'p versioned_balance" where
  "as_version b = (bal_topoheight b, \<lparr>vb_previous_topoheight = None, vb_output_balance = bal_output_balance b,
     vb_final_balance = bal_final_balance b, vb_balance_type = bal_balance_type b\<rparr>)"

definition write_balance :: "('s, 'p) curve \<Rightarrow> 'p balance \<Rightarrow> writer \<Rightarrow> writer" where
  "write_balance C b = writes [write_u64 (bal_topoheight b), write_option (write_cache C) (bal_output_balance b),
       write_cache C (bal_final_balance b), write_balance_type (bal_balance_type b)]"

definition read_balance :: "'p balance rd" where
  "read_balance = rbind read_u64 (\<lambda>topoheight. rbind (read_option read_cache) (\<lambda>output_balance.
     rbind read_cache (\<lambda>final_balance. rbind read_balance_type (\<lambda>balance_type.
     rreturn \<lparr>bal_topoheight = topoheight, bal_output_balance = output_balance,
       bal_final_balance = final_balance, bal_balance_type = balance_type\<rparr>))))"

definition size_balance :: "'p balance \<Rightarrow> usize" where
  "size_balance b = 8 + size_option size_cache (bal_output_balance b) + size_cache (bal_final_balance b) + 1"

definition write_versioned_balance :: "('s, 'p) curve \<Rightarrow> 'p versioned_balance \<Rightarrow> writer \<Rightarrow> writer" where
  "write_versioned_balance C b = writes [write_option write_u64 (vb_previous_topoheight b),
       write_balance_type (vb_balance_type b), write_cache C (vb_final_balance b),
       write_option (write_cache C) (vb_output_balance b)]"

definition read_versioned_balance :: "'p versioned_balance rd" where
  "read_versioned_balance = rbind (read_option read_u64) (\<lambda>previous_topoheight.
     rbind read_balance_type (\<lambda>balance_type. rbind read_cache (\<lambda>final_balance.
     rbind (read_option read_cache) (\<lambda>output_balance.
     rreturn \<lparr>vb_previous_topoheight = previous_topoheight, vb_output_balance = output_balance,
       vb_final_balance = final_balance, vb_balance_type = balance_type\<rparr>))))"

definition size_versioned_balance :: "'p versioned_balance \<Rightarrow> usize" where
  "size_versioned_balance b = size_cache (vb_final_balance b) + 1
     + size_option (\<lambda>_. 8) (vb_previous_topoheight b) + size_option size_cache (vb_output_balance b)"

record account_summary =
  output_topoheight :: "topoheight option"
  stable_topoheight :: topoheight

definition write_account_summary :: "account_summary \<Rightarrow> writer \<Rightarrow> writer" where
  "write_account_summary a = writes [write_option write_u64 (output_topoheight a), write_u64 (stable_topoheight a)]"

definition read_account_summary :: "account_summary rd" where
  "read_account_summary = rbind (read_option read_u64) (\<lambda>out. rbind read_u64 (\<lambda>st.
     rreturn \<lparr>output_topoheight = out, stable_topoheight = st\<rparr>))"

definition size_account_summary :: "account_summary \<Rightarrow> usize" where
  "size_account_summary a = size_option (\<lambda>_. 8) (output_topoheight a) + 8"

section \<open>Versioned data\<close>

record 'a versioned =
  vd_previous_topoheight :: "topoheight option"
  vd_data :: 'a

definition write_versioned :: "('a \<Rightarrow> writer \<Rightarrow> writer) \<Rightarrow> 'a versioned \<Rightarrow> writer \<Rightarrow> writer" where
  "write_versioned wr v = writes [write_option write_u64 (vd_previous_topoheight v), wr (vd_data v)]"

definition read_versioned :: "'a rd \<Rightarrow> 'a versioned rd" where
  "read_versioned rd = rbind (read_option read_u64) (\<lambda>previous_topoheight. rbind rd (\<lambda>data.
     rreturn \<lparr>vd_previous_topoheight = previous_topoheight, vd_data = data\<rparr>))"

definition size_versioned :: "('a \<Rightarrow> usize) \<Rightarrow> 'a versioned \<Rightarrow> usize" where
  "size_versioned sz v = size_option (\<lambda>_. 8) (vd_previous_topoheight v) + sz (vd_data v)"

record versioned_nonce =
  vn_nonce :: u64
  vn_previous_topoheight :: "topoheight option"

definition write_versioned_nonce :: "versioned_nonce \<Rightarrow> writer \<Rightarrow> writer" where
  "write_versioned_nonce n = writes [write_option write_u64 (vn_previous_topoheight n), write_u64 (vn_nonce n)]"

definition read_versioned_nonce :: "versioned_nonce rd" where
  "read_versioned_nonce = rbind (read_option read_u64) (\<lambda>previous_topoheight. rbind read_u64 (\<lambda>nonce.
     rreturn \<lparr>vn_nonce = nonce, vn_previous_topoheight = previous_topoheight\<rparr>))"

definition size_versioned_nonce :: "versioned_nonce \<Rightarrow> usize" where
  "size_versioned_nonce n = 8 + size_option (\<lambda>_. 8) (vn_previous_topoheight n)"

datatype versioned_state = New | FetchedAt topoheight | Updated topoheight

fun should_be_stored :: "versioned_state \<Rightarrow> bool" where
  "should_be_stored (FetchedAt t) = False" | "should_be_stored New = True" | "should_be_stored (Updated t) = True"

fun state_topoheight :: "versioned_state \<Rightarrow> topoheight option" where
  "state_topoheight (FetchedAt t) = Some t" | "state_topoheight (Updated t) = Some t" | "state_topoheight New = None"

fun mark_updated :: "versioned_state \<Rightarrow> versioned_state" where
  "mark_updated (FetchedAt t) = Updated t" | "mark_updated (Updated t) = Updated t" | "mark_updated New = New"

datatype 'a state = Clean | StateSome 'a | StateNone | Deleted

fun write_state :: "('a \<Rightarrow> writer \<Rightarrow> writer) \<Rightarrow> 'a state \<Rightarrow> writer \<Rightarrow> writer" where
  "write_state wr Clean = write_u8 0"
| "write_state wr (StateSome data) = writes [write_u8 1, wr data]"
| "write_state wr StateNone = write_u8 2"
| "write_state wr Deleted = write_u8 3"

definition read_state :: "'a rd \<Rightarrow> 'a state rd" where
  "read_state rd = rbind read_u8 (\<lambda>b.
     if b = 0 then rreturn Clean
     else if b = 1 then rbind rd (\<lambda>data. rreturn (StateSome data))
     else if b = 2 then rreturn StateNone
     else if b = 3 then rreturn Deleted
     else rfail InvalidValue)"

fun size_state :: "('a \<Rightarrow> usize) \<Rightarrow> 'a state \<Rightarrow> usize" where
  "size_state sz Clean = 1" | "size_state sz (StateSome data) = 1 + sz data"
| "size_state sz StateNone = 1" | "size_state sz Deleted = 1"

section \<open>Assets\<close>

record asset_owner =
  ao_contract :: hash
  ao_id :: u64

definition write_asset_owner :: "asset_owner \<Rightarrow> writer \<Rightarrow> writer" where
  "write_asset_owner a = writes [write_hash (ao_contract a), write_u64 (ao_id a)]"

definition read_asset_owner :: "asset_owner rd" where
  "read_asset_owner = rbind read_hash (\<lambda>contract. rbind read_u64 (\<lambda>i.
     rreturn \<lparr>ao_contract = contract, ao_id = i\<rparr>))"

definition size_asset_owner :: "asset_owner \<Rightarrow> usize" where
  "size_asset_owner a = size_hash (ao_contract a) + 8"

record asset_data =
  as_decimals :: u8
  as_name :: "u8 list"
  as_ticker :: "u8 list"
  as_max_supply :: "u64 option"
  as_owner :: "asset_owner option"

definition write_asset_data :: "asset_data \<Rightarrow> writer \<Rightarrow> writer" where
  "write_asset_data a = writes [write_u8 (as_decimals a), write_string (as_name a), write_string (as_ticker a),
       write_option write_u64 (as_max_supply a), write_option write_asset_owner (as_owner a)]"

definition read_asset_data :: "(u8 list \<Rightarrow> bool) \<Rightarrow> asset_data rd" where
  "read_asset_data utf8 = rbind read_u8 (\<lambda>decimals. rbind (read_string utf8) (\<lambda>name.
     rbind (read_string utf8) (\<lambda>ticker. rbind (read_option read_u64) (\<lambda>max_supply.
     rbind (read_option read_asset_owner) (\<lambda>owner.
     rreturn \<lparr>as_decimals = decimals, as_name = name, as_ticker = ticker, as_max_supply = max_supply,
       as_owner = owner\<rparr>)))))"

definition size_asset_data :: "asset_data \<Rightarrow> usize" where
  "size_asset_data a = 1 + size_string (as_name a) + size_option (\<lambda>_. 8) (as_max_supply a)"

section \<open>Lemmas\<close>

subsection \<open>The cache\<close>

lemma encode_decode: "encoding_laws C \<Longrightarrow> decode_point C bs = Some P \<Longrightarrow> encode_point C P = bs"
  and decode_encode: "encoding_laws C \<Longrightarrow> decode_point C (encode_point C P) = Some P"
  and length_encode: "encoding_laws C \<Longrightarrow> length (encode_point C P) = 32"
  unfolding encoding_laws_def by blast+

lemma compress_decompress:
  "encoding_laws C \<Longrightarrow> decompress_ciphertext C c = Some e \<Longrightarrow> compress_ciphertext C e = c"
  by (auto simp: decompress_ciphertext_def compress_ciphertext_def encode_decode split: option.splits)

lemma ciphertext_ok_compress: "encoding_laws C \<Longrightarrow> ciphertext_ok (compress_ciphertext C e)"
  by (simp add: ciphertext_ok_def point_ok_def compress_ciphertext_def RISTRETTO_COMPRESSED_SIZE_def length_encode)

text \<open>
  A history of a cache and the ciphertext a user of it expects: created from bytes or from a
  value, read through any of the accessors, overwritten through \<open>computable\<close>.
\<close>

inductive cache_holds :: "('s, 'p) curve \<Rightarrow> 'p ciphertext_cache \<Rightarrow> 'p ciphertext \<Rightarrow> bool" for C where
  stored: "decompress_ciphertext C c = Some e \<Longrightarrow> cache_holds C (Compressed c) e"
| computed: "cache_holds C (Decompressed e) e"
| overwritten: "cache_holds C k e \<Longrightarrow> computable C k = Some (k', e') \<Longrightarrow> cache_holds C (set_computable e'' k') e''"
| compressed: "cache_holds C k e \<Longrightarrow> compressed C k = (k', c) \<Longrightarrow> cache_holds C k' e"
| decompressed: "cache_holds C k e \<Longrightarrow> decompressed C k = Some (k', e') \<Longrightarrow> cache_holds C k' e"
| both: "cache_holds C k e \<Longrightarrow> both C k = Some (k', c, e') \<Longrightarrow> cache_holds C k' e"

fun cache_inv :: "('s, 'p) curve \<Rightarrow> 'p ciphertext_cache \<Rightarrow> 'p ciphertext \<Rightarrow> bool" where
  "cache_inv C (Compressed c) e \<longleftrightarrow> decompress_ciphertext C c = Some e"
| "cache_inv C (Decompressed d) e \<longleftrightarrow> d = e"
| "cache_inv C (Both c d dirty) e \<longleftrightarrow> d = e \<and> (\<not> dirty \<longrightarrow> c = compress_ciphertext C e)"

lemma cache_holds_inv:
  assumes "encoding_laws C" and "cache_holds C k e"
  shows "cache_inv C k e"
  using assms(2)
proof induction
  case (overwritten k e k' e' e'')
  then show ?case by (cases k) (auto split: option.splits)
next
  case (compressed k e k' c)
  then show ?case by (cases k) (auto simp: Let_def)
next
  case (decompressed k e k' e')
  then show ?case by (cases k) (auto simp: compress_decompress [OF assms(1)] split: option.splits)
next
  case (both k e k' c e')
  then show ?case by (cases k) (auto simp: compress_decompress [OF assms(1)] Let_def split: option.splits)
qed simp_all

lemma cache_holds_compress:
  "encoding_laws C \<Longrightarrow> cache_holds C k e \<Longrightarrow> compress C k = compress_ciphertext C e"
  using cache_holds_inv [of C k e] compress_decompress [of C _ e] by (cases k) auto

subsection \<open>Wire formats\<close>

interpretation balance_type: strict_serializer write_balance_type read_balance_type "\<lambda>_. 1" "\<lambda>_. True"
proof (rule byte_codec [of "\<lambda>b. if b = 0 then Some Input else if b = 1 then Some Output
    else if b = 2 then Some InOut else None" balance_type_id])
  show "(if balance_type_id t = 0 then Some Input else if balance_type_id t = 1 then Some Output
      else if balance_type_id t = 2 then Some InOut else None) = Some t" for t by (cases t) simp_all
  show "read_balance_type = rbind read_u8 (\<lambda>b. case if b = 0 then Some Input else if b = 1 then Some Output
      else if b = 2 then Some InOut else None of None \<Rightarrow> rfail InvalidValue | Some x \<Rightarrow> rreturn x)"
    unfolding read_balance_type_def by (rule arg_cong [where f = "rbind read_u8"]) auto
qed (auto simp: write_balance_type_def split: if_splits)

fun cache_stored :: "'p ciphertext_cache \<Rightarrow> bool" where
  "cache_stored (Compressed c) = ciphertext_ok c" | "cache_stored (Decompressed e) = False"
| "cache_stored (Both c e dirty) = False"

interpretation cache_codec: strict_serializer "write_cache C" read_cache size_cache cache_stored for C
proof
  show "accepts read_cache (\<lambda>k bs. cache_stored k \<and> bs = to_bytes (write_cache C k))"
    unfolding read_cache_def
    by (rule accepts_wrap [OF ciphertext.read_strict]) (simp add: write_cache_def)
  show "reads read_cache k (to_bytes (write_cache C k))" if "cache_stored k" for k
    unfolding read_cache_def using that
    by (cases k) (auto simp: write_cache_def intro: reads_bind_return ciphertext.read_write)
  show "size_cache k = length (to_bytes (write_cache C k))" if "cache_stored k" for k :: "'b ciphertext_cache"
    using that by (cases k) (simp_all add: write_cache_def size_cache_def size_compressed_ciphertext_def
        size_point_def flip: ciphertext.size_write)
qed (auto simp: write_cache_def read_cache_def ciphertext.write_append
    intro!: codec_intros ciphertext.read_safe)

interpretation cache_option: strict_serializer "write_option (write_cache C)" "read_option read_cache"
  "size_option size_cache" "option_ok cache_stored" for C
  by (rule cache_codec.strict_option)

lemmas balance_appends = option_u64.write_append balance_type.write_append cache_codec.write_append
  cache_option.write_append

definition versioned_balance_stored :: "'p versioned_balance \<Rightarrow> bool" where
  "versioned_balance_stored b \<longleftrightarrow> option_ok cache_stored (vb_output_balance b) \<and> cache_stored (vb_final_balance b)"

lemma option_ok_True [simp]: "option_ok (\<lambda>_. True) opt"
  by (cases opt) (simp_all add: option_ok_def)

lemma to_bytes_versioned_balance:
  "to_bytes (write_versioned_balance C b) = to_bytes (write_option write_u64 (vb_previous_topoheight b))
     @ to_bytes (write_balance_type (vb_balance_type b)) @ to_bytes (write_cache C (vb_final_balance b))
     @ to_bytes (write_option (write_cache C) (vb_output_balance b))"
  unfolding write_versioned_balance_def by (simp add: codec_simps balance_appends)

interpretation versioned_balance: strict_serializer "write_versioned_balance C" read_versioned_balance
  size_versioned_balance versioned_balance_stored for C
proof
  show "accepts read_versioned_balance (\<lambda>b bs. versioned_balance_stored b \<and> bs = to_bytes (write_versioned_balance C b))"
    unfolding read_versioned_balance_def
    by (intro accepts_bindI [OF option_u64.read_strict] accepts_bindI [OF balance_type.read_strict]
        accepts_bindI [OF cache_codec.read_strict] accepts_bindI [OF cache_option.read_strict] accepts_return)
      (simp add: to_bytes_versioned_balance versioned_balance_stored_def)
  show "reads read_versioned_balance b (to_bytes (write_versioned_balance C b))" if "versioned_balance_stored b" for b
    unfolding read_versioned_balance_def to_bytes_versioned_balance using that
    by (intro reads_bind [OF option_u64.read_write] reads_bind [OF balance_type.read_write]
        reads_bind [OF cache_codec.read_write] reads_bind_return [OF cache_option.read_write])
      (simp_all add: versioned_balance_stored_def)
  show "size_versioned_balance b = length (to_bytes (write_versioned_balance C b))" if "versioned_balance_stored b" for b
    using that by (simp add: to_bytes_versioned_balance versioned_balance_stored_def size_versioned_balance_def
        flip: cache_codec.size_write cache_option.size_write option_u64.size_write balance_type.size_write)
qed (auto simp: write_versioned_balance_def read_versioned_balance_def codec_simps balance_appends
    intro!: codec_intros option_u64.read_safe balance_type.read_safe cache_codec.read_safe cache_option.read_safe)

text \<open>Generic versioned data and states, over any strict element type.\<close>

fun state_ok :: "('a \<Rightarrow> bool) \<Rightarrow> 'a state \<Rightarrow> bool" where
  "state_ok ok (StateSome data) = ok data" | "state_ok ok Clean = True"
| "state_ok ok StateNone = True" | "state_ok ok Deleted = True"

context strict_serializer
begin

lemma reads_state:
  assumes "state_ok ok s"
  shows "reads (read_state rd) s (to_bytes (write_state wr s))"
proof (cases s)
  case (StateSome data)
  have "reads (read_state rd) s ([1] @ to_bytes (wr data))"
    unfolding read_state_def using StateSome assms
    by (intro reads_bind [OF reads_read_u8]) (simp add: reads_bind_return [OF read_write])
  then show ?thesis by (simp add: codec_simps write_append StateSome)
qed (simp_all add: codec_simps read_state_def reads_bind_tail [OF reads_read_u8] reads_return)

lemma accepts_state: "accepts (read_state rd) (\<lambda>s bs. state_ok ok s \<and> bs = to_bytes (write_state wr s))"
  unfolding read_state_def
  by (intro accepts_bindI [OF accepts_read_u8] accepts_if accepts_return accepts_fail
      accepts_wrap [OF read_strict]) (auto simp: codec_simps write_append)

lemma strict_state: "strict_serializer (write_state wr) (read_state rd) (size_state sz) (state_ok ok)"
proof
  show "size_state sz s = length (to_bytes (write_state wr s))" if "state_ok ok s" for s
    using that by (cases s) (simp_all add: codec_simps write_append size_write)
  show "append_only (write_state wr s)" for s by (cases s) (simp_all add: codec_simps write_append)
  show "reader_safe (read_state rd)" unfolding read_state_def by (intro codec_intros read_safe)
qed (simp_all add: reads_state accepts_state)

lemma strict_versioned:
  "strict_serializer (write_versioned wr) (read_versioned rd) (size_versioned sz) (\<lambda>v. ok (vd_data v))"
proof
  have bytes: "to_bytes (write_versioned wr v) =
      to_bytes (write_option write_u64 (vd_previous_topoheight v)) @ to_bytes (wr (vd_data v))" for v
    by (simp add: write_versioned_def codec_simps option_u64.write_append write_append)
  show "accepts (read_versioned rd) (\<lambda>v bs. ok (vd_data v) \<and> bs = to_bytes (write_versioned wr v))"
    unfolding read_versioned_def
    by (intro accepts_bindI [OF option_u64.read_strict] accepts_bindI [OF read_strict] accepts_return)
      (simp add: bytes)
  show "reads (read_versioned rd) v (to_bytes (write_versioned wr v))" if "ok (vd_data v)" for v
    unfolding read_versioned_def bytes using that
    by (intro reads_bind [OF option_u64.read_write] reads_bind_return [OF read_write]) simp_all
  show "size_versioned sz v = length (to_bytes (write_versioned wr v))" if "ok (vd_data v)" for v
    using that by (simp add: bytes size_versioned_def size_write flip: option_u64.size_write)
qed (auto simp: write_versioned_def read_versioned_def codec_simps option_u64.write_append write_append
    intro!: codec_intros option_u64.read_safe read_safe)

end

interpretation state_u64: strict_serializer "write_state write_u64" "read_state read_u64" "size_state (\<lambda>_. 8)"
  "state_ok (\<lambda>_. True)"
  by (rule u64.strict_state)

interpretation versioned_supply: strict_serializer "write_versioned write_u64" "read_versioned read_u64"
  "size_versioned (\<lambda>_. 8)" "\<lambda>_. True"
  by (rule u64.strict_versioned)

interpretation versioned_nonce: strict_serializer write_versioned_nonce read_versioned_nonce size_versioned_nonce
  "\<lambda>_. True"
proof
  have bytes: "to_bytes (write_versioned_nonce n) =
      to_bytes (write_option write_u64 (vn_previous_topoheight n)) @ to_be_bytes (vn_nonce n)" for n
    by (simp add: write_versioned_nonce_def codec_simps option_u64.write_append)
  show "accepts read_versioned_nonce (\<lambda>n bs. True \<and> bs = to_bytes (write_versioned_nonce n))"
    unfolding read_versioned_nonce_def
    by (intro accepts_bindI [OF option_u64.read_strict] accepts_bindI [OF accepts_read_ints(3)] accepts_return)
      (simp add: bytes)
  show "reads read_versioned_nonce n (to_bytes (write_versioned_nonce n))" for n
    unfolding read_versioned_nonce_def bytes
    by (intro reads_bind [OF option_u64.read_write] reads_bind_return [OF reads_read_u64]) simp_all
  show "size_versioned_nonce n = length (to_bytes (write_versioned_nonce n))" for n
    by (simp add: bytes size_versioned_nonce_def flip: option_u64.size_write)
qed (auto simp: write_versioned_nonce_def read_versioned_nonce_def codec_simps option_u64.write_append
    intro!: codec_intros option_u64.read_safe)

interpretation asset_owner: strict_serializer write_asset_owner read_asset_owner size_asset_owner
  "\<lambda>a. hash_ok (ao_contract a)"
proof
  show "accepts read_asset_owner (\<lambda>a bs. hash_ok (ao_contract a) \<and> bs = to_bytes (write_asset_owner a))"
    unfolding read_asset_owner_def
    by (intro accepts_bindI [OF hash.read_strict] accepts_bindI [OF accepts_read_ints(3)] accepts_return)
      (simp add: write_asset_owner_def codec_simps hash.write_append)
  show "reads read_asset_owner a (to_bytes (write_asset_owner a))" if "hash_ok (ao_contract a)" for a
    unfolding read_asset_owner_def write_asset_owner_def using that
    by (simp add: codec_simps hash.write_append reads_bind [OF hash.read_write] reads_bind_return [OF reads_read_u64])
qed (auto simp: write_asset_owner_def read_asset_owner_def size_asset_owner_def codec_simps hash.write_append
    hash.size_write intro!: codec_intros hash.read_safe)

interpretation asset_owner_option: strict_serializer "write_option write_asset_owner" "read_option read_asset_owner"
  "size_option size_asset_owner" "option_ok (\<lambda>a. hash_ok (ao_contract a))"
  by (rule asset_owner.strict_option)

lemma to_bytes_asset_data:
  "to_bytes (write_asset_data a) = [as_decimals a] @ to_bytes (write_string (as_name a))
     @ to_bytes (write_string (as_ticker a)) @ to_bytes (write_option write_u64 (as_max_supply a))
     @ to_bytes (write_option write_asset_owner (as_owner a))"
  unfolding write_asset_data_def
  by (simp add: codec_simps option_u64.write_append asset_owner_option.write_append)

section \<open>Properties\<close>

text \<open>
  The ciphertext cache. However a cache came about, and whatever accesses and updates it has
  seen, it stands for the ciphertext last stored in it: every accessor returns that ciphertext
  and the bytes written to storage are its compressed form, in particular after an update of a
  cache that also holds an older compressed form.
\<close>

theorem cache_is_transparent:
  assumes "encoding_laws C" and "cache_holds C k e"
  shows "take_ciphertext C k = Some e \<and> compress C k = compress_ciphertext C e \<and>
    snd (compressed C k) = compress_ciphertext C e \<and> map_option snd (computable C k) = Some e \<and>
    map_option snd (decompressed C k) = Some e \<and> map_option snd (both C k) = Some (compress_ciphertext C e, e)"
  using cache_holds_inv [OF assms] compress_decompress [OF assms(1), of _ e]
  by (cases k) (auto simp: Let_def)

definition byte_curve :: "(rat, 8 word) curve" where
  "byte_curve = \<lparr>smul = (\<lambda>_ P. P), gen_G = 1, gen_H = 2, pc_commit = (\<lambda>x r. 0),
     encode_point = (\<lambda>P. replicate 31 0 @ [P]),
     decode_point = (\<lambda>bs. if length bs = 32 \<and> butlast bs = replicate 31 0 then Some (last bs) else None),
     encode_scalar = (\<lambda>_. []), decode_scalar = (\<lambda>_. None), from_bytes_mod_order_wide = (\<lambda>_. 0),
     sha3_512 = (\<lambda>bs. bs)\<rparr>"

lemma byte_curve_laws: "encoding_laws byte_curve"
proof -
  have "replicate 31 0 @ [last bs] = bs" if "length bs = 32" "butlast bs = replicate 31 0" for bs :: "u8 list"
    using that by (metis append_butlast_last_id list.size(3) zero_neq_numeral)
  then show ?thesis
    by (auto simp: encoding_laws_def byte_curve_def split: if_splits)
qed

theorem cache_is_transparent_witness:
  "compress byte_curve (Both (compress_ciphertext byte_curve \<lparr>commitment = 5, handle = 6\<rparr>)
      \<lparr>commitment = 7, handle = 6\<rparr> True) = compress_ciphertext byte_curve \<lparr>commitment = 7, handle = 6\<rparr>"
proof -
  let ?d = "\<lparr>commitment = 5, handle = 6 :: 8 word\<rparr>" let ?e = "\<lparr>commitment = 7, handle = 6 :: 8 word\<rparr>"
  have "cache_holds byte_curve (Decompressed ?d) ?d" by (rule cache_holds.computed)
  then have "cache_holds byte_curve (Both (compress_ciphertext byte_curve ?d) ?d False) ?d"
    by (rule cache_holds.compressed) (simp add: Let_def)
  then have "cache_holds byte_curve (set_computable ?e (Both (compress_ciphertext byte_curve ?d) ?d True)) ?e"
    by (rule cache_holds.overwritten) simp
  with cache_is_transparent [OF byte_curve_laws, of _ ?e] show ?thesis by simp
qed

text \<open>
  Stored balances. A balance written to storage reads back as the same balance: topoheight,
  type and output balance as they were, each ciphertext equal in the sense of the cache's
  equality, and the written length is the announced size.
\<close>

theorem balance_storage_roundtrip:
  assumes "encoding_laws C" and "cache_holds C (vb_final_balance b) e"
    and "\<And>k. vb_output_balance b = Some k \<Longrightarrow> \<exists>d. cache_holds C k d"
  shows "\<exists>b'. from_bytes read_versioned_balance (to_bytes (write_versioned_balance C b)) = Inr b' \<and>
    vb_previous_topoheight b' = vb_previous_topoheight b \<and> vb_balance_type b' = vb_balance_type b \<and>
    cache_eq C (vb_final_balance b') (vb_final_balance b) \<and>
    rel_option (cache_eq C) (vb_output_balance b') (vb_output_balance b) \<and>
    length (to_bytes (write_versioned_balance C b)) = size_versioned_balance b"
proof -
  define canon where "canon = (\<lambda>k :: 'b ciphertext_cache. Compressed (compress C k) :: 'b ciphertext_cache)"
  define b' where "b' = b\<lparr>vb_final_balance := canon (vb_final_balance b),
    vb_output_balance := map_option canon (vb_output_balance b)\<rparr>"
  have ok: "ciphertext_ok (compress C k)" if "cache_holds C k d" for k d
    by (simp add: cache_holds_compress [OF assms(1) that] ciphertext_ok_compress [OF assms(1)])
  have stored: "versioned_balance_stored b'"
    using assms(2,3) ok by (auto simp: versioned_balance_stored_def b'_def canon_def option_ok_def split: option.split)
  have "to_bytes (write_option (write_cache C) (map_option canon opt)) = to_bytes (write_option (write_cache C) opt)" for opt
    by (cases opt) (simp_all add: cache_codec.to_bytes_option write_cache_def canon_def)
  then have bytes: "to_bytes (write_versioned_balance C b') = to_bytes (write_versioned_balance C b)"
    by (simp add: to_bytes_versioned_balance b'_def write_cache_def canon_def)
  have size: "size_versioned_balance b' = size_versioned_balance b"
    by (cases "vb_output_balance b") (simp_all add: size_versioned_balance_def size_option_def size_cache_def b'_def)
  show ?thesis
    using versioned_balance.from_to_bytes [OF stored, of C] versioned_balance.size_write [OF stored, of C] bytes size
    by (intro exI [of _ b'] conjI) (auto simp: b'_def cache_eq_def canon_def option.rel_map intro!: option.rel_refl)
qed

theorem balance_storage_roundtrip_witness:
  "\<exists>b'. from_bytes read_versioned_balance (to_bytes (write_versioned_balance byte_curve versioned_balance_zero)) = Inr b' \<and>
     cache_eq byte_curve (vb_final_balance b') (Decompressed ciphertext_zero) \<and> vb_output_balance b' = None"
  using balance_storage_roundtrip [OF byte_curve_laws, of versioned_balance_zero ciphertext_zero]
  by (auto simp: versioned_balance_zero_def versioned_balance_new_def cache_holds.computed)

text \<open>
  Assets. An asset whose strings fit their length byte reads back as written; its announced
  size is short by exactly the ticker and the owner, which \<open>AssetData::size\<close> leaves out.
\<close>

theorem asset_size_is_short:
  assumes "string_ok utf8 (as_name a)" and "string_ok utf8 (as_ticker a)"
    and "option_ok (\<lambda>owner. hash_ok (ao_contract owner)) (as_owner a)"
  shows "from_bytes (read_asset_data utf8) (to_bytes (write_asset_data a)) = Inr a \<and>
    length (to_bytes (write_asset_data a)) =
      size_asset_data a + size_string (as_ticker a) + size_option size_asset_owner (as_owner a)"
proof
  have "reads (read_asset_data utf8) a (to_bytes (write_asset_data a))"
    unfolding read_asset_data_def to_bytes_asset_data using assms
    by (intro reads_bind [OF reads_read_u8] reads_bind [OF string.read_write] reads_bind [OF option_u64.read_write]
        reads_bind_return [OF asset_owner_option.read_write]) simp_all
  from reads_apply [OF this, of "reader_new (to_bytes (write_asset_data a))" "[]"]
  show "from_bytes (read_asset_data utf8) (to_bytes (write_asset_data a)) = Inr a"
    by (simp add: from_bytes_def)
  show "length (to_bytes (write_asset_data a)) =
      size_asset_data a + size_string (as_ticker a) + size_option size_asset_owner (as_owner a)"
    using assms by (simp add: to_bytes_asset_data size_asset_data_def string.size_write
        asset_owner_option.size_write option_u64.size_write)
qed

theorem asset_size_is_short_witness:
  "length (to_bytes (write_asset_data \<lparr>as_decimals = 8, as_name = [84, 79, 83], as_ticker = [84, 79, 83],
     as_max_supply = None, as_owner = None\<rparr>)) = 11"
  using asset_size_is_short [of "\<lambda>_. True" "\<lparr>as_decimals = 8, as_name = [84, 79, 83], as_ticker = [84, 79, 83],
     as_max_supply = None, as_owner = None\<rparr>"]
  by (simp add: string_ok_def option_ok_def size_asset_data_def size_string_def size_option_def)

end
