(* ===== verification/Proofs.thy ===== *)
theory Proofs
  imports Elgamal HardFork
begin

text \<open>
  The zero-knowledge proofs of transactions and wallets (\<open>common/src/crypto/proofs\<close>) and the
  transcript protocol they share (\<open>common/src/crypto/transcript.rs\<close>). Merlin's transcript is a
  library: a \<open>merlin\<close> record holds the four operations the sources call, and every function
  threads the transcript the code holds as \<open>&mut\<close>. The range proof is the \<open>bulletproofs\<close>
  library: a \<open>range_prover\<close> record. Scalars drawn from \<open>OsRng\<close> are arguments. A verifier that
  returns an error has changed its transcript too, but no caller goes on with it: the error alone
  is the result. The batch collector is only changed after the last check.
\<close>

section \<open>Transcripts\<close>

record 't merlin =
  transcript_new :: "u8 list \<Rightarrow> 't"
  append_message :: "u8 list \<Rightarrow> u8 list \<Rightarrow> 't \<Rightarrow> 't"
  append_u64 :: "u8 list \<Rightarrow> u64 \<Rightarrow> 't \<Rightarrow> 't"
  challenge_bytes :: "u8 list \<Rightarrow> nat \<Rightarrow> 't \<Rightarrow> u8 list \<times> 't"

datatype transcript_error = IdentityPoint

text \<open>A byte string literal.\<close>

definition label :: "string \<Rightarrow> u8 list" where
  "label s = map of_char s"

definition append_scalar :: "('s, 'p) curve \<Rightarrow> 't merlin \<Rightarrow> string \<Rightarrow> 's \<Rightarrow> 't \<Rightarrow> 't" where
  "append_scalar C M l scalar = append_message M (label l) (encode_scalar C scalar)"

definition append_point :: "'t merlin \<Rightarrow> string \<Rightarrow> compressed_point \<Rightarrow> 't \<Rightarrow> 't" where
  "append_point M l point = append_message M (label l) point"

definition challenge_scalar :: "('s, 'p) curve \<Rightarrow> 't merlin \<Rightarrow> string \<Rightarrow> 't \<Rightarrow> 's \<times> 't" where
  "challenge_scalar C M l t =
     (let (buf, t) = challenge_bytes M (label l) 64 t in (from_bytes_mod_order_wide C buf, t))"

definition append_public_key :: "'t merlin \<Rightarrow> string \<Rightarrow> public_key \<Rightarrow> 't \<Rightarrow> 't" where
  "append_public_key M l pubkey = append_message M (label l) (key_point pubkey)"

definition append_ciphertext :: "'t merlin \<Rightarrow> string \<Rightarrow> compressed_ciphertext \<Rightarrow> 't \<Rightarrow> 't" where
  "append_ciphertext M l c = append_message M (label l) (to_bytes (write_compressed_ciphertext c))"

definition append_commitment :: "'t merlin \<Rightarrow> string \<Rightarrow> compressed_point \<Rightarrow> 't \<Rightarrow> 't" where
  "append_commitment M l c = append_message M (label l) c"

definition append_handle :: "'t merlin \<Rightarrow> string \<Rightarrow> compressed_point \<Rightarrow> 't \<Rightarrow> 't" where
  "append_handle M l h = append_message M (label l) h"

definition append_hash :: "'t merlin \<Rightarrow> string \<Rightarrow> hash \<Rightarrow> 't \<Rightarrow> 't" where
  "append_hash M l h = append_message M (label l) (as_bytes h)"

definition validate_and_append_point ::
  "('s, 'p::ab_group_add) curve \<Rightarrow> 't merlin \<Rightarrow> string \<Rightarrow> compressed_point \<Rightarrow> 't \<Rightarrow> transcript_error + 't" where
  "validate_and_append_point C M l point t =
     (if point = encode_point C 0 then Inl IdentityPoint else Inr (append_message M (label l) point t))"

definition new_commitment_eq_proof_domain_separator :: "'t merlin \<Rightarrow> 't \<Rightarrow> 't" where
  "new_commitment_eq_proof_domain_separator M = append_message M (label ''dom-sep'') (label ''new-commitment-proof'')"

definition transfer_proof_domain_separator :: "'t merlin \<Rightarrow> 't \<Rightarrow> 't" where
  "transfer_proof_domain_separator M = append_message M (label ''dom-sep'') (label ''transfer-proof'')"

definition deposit_proof_domain_separator :: "'t merlin \<Rightarrow> 't \<Rightarrow> 't" where
  "deposit_proof_domain_separator M = append_message M (label ''dom-sep'') (label ''deposit-proof'')"

definition burn_proof_domain_separator :: "'t merlin \<Rightarrow> 't \<Rightarrow> 't" where
  "burn_proof_domain_separator M = append_message M (label ''dom-sep'') (label ''burn-proof'')"

definition multisig_proof_domain_separator :: "'t merlin \<Rightarrow> 't \<Rightarrow> 't" where
  "multisig_proof_domain_separator M = append_message M (label ''dom-sep'') (label ''multisig-proof'')"

definition invoke_contract_proof_domain_separator :: "'t merlin \<Rightarrow> 't \<Rightarrow> 't" where
  "invoke_contract_proof_domain_separator M = append_message M (label ''dom-sep'') (label ''invoke-contract-proof'')"

definition deploy_contract_proof_domain_separator :: "'t merlin \<Rightarrow> 't \<Rightarrow> 't" where
  "deploy_contract_proof_domain_separator M = append_message M (label ''dom-sep'') (label ''deploy-contract-proof'')"

definition invoke_constructor_proof_domain_separator :: "'t merlin \<Rightarrow> 't \<Rightarrow> 't" where
  "invoke_constructor_proof_domain_separator M =
     append_message M (label ''dom-sep'') (label ''invoke-constructor-proof'')"

definition equality_proof_domain_separator :: "'t merlin \<Rightarrow> 't \<Rightarrow> 't" where
  "equality_proof_domain_separator M = append_message M (label ''dom-sep'') (label ''equality-proof'')"

definition ciphertext_validity_proof_domain_separator :: "'t merlin \<Rightarrow> 't \<Rightarrow> 't" where
  "ciphertext_validity_proof_domain_separator M = append_message M (label ''dom-sep'') (label ''validity-proof'')"

definition balance_proof_domain_separator :: "'t merlin \<Rightarrow> 't \<Rightarrow> 't" where
  "balance_proof_domain_separator M = append_message M (label ''dom-sep'') (label ''balance-proof'')"

definition ownership_proof_domain_separator :: "'t merlin \<Rightarrow> 't \<Rightarrow> 't" where
  "ownership_proof_domain_separator M = append_message M (label ''dom-sep'') (label ''ownership-proof'')"

definition energy_proof_domain_separator :: "'t merlin \<Rightarrow> 't \<Rightarrow> 't" where
  "energy_proof_domain_separator M = append_message M (label ''dom-sep'') (label ''energy-proof'')"

section \<open>Errors and the batch collector\<close>

datatype 'e proof_generation_error =
    GenerationDecompression
  | InsufficientFunds (required: u64) (available: u64)
  | RangeProofGeneration 'e
  | FormatGeneration

datatype 'e proof_verification_error =
    Decompression
  | CommitmentEqProof
  | CiphertextValidityProof
  | GenericProof
  | RangeProof 'e
  | Transcript transcript_error
  | Format
  | BatchVerificationError

text \<open>The operator \<open>?\<close>.\<close>

definition and_then :: "'e + 'a \<Rightarrow> ('a \<Rightarrow> 'e + 'b) \<Rightarrow> 'e + 'b" where
  "and_then m f = (case m of Inl e \<Rightarrow> Inl e | Inr x \<Rightarrow> f x)"

definition map_err :: "('e \<Rightarrow> 'f) \<Rightarrow> 'e + 'a \<Rightarrow> 'f + 'a" where
  "map_err f m = (case m of Inl e \<Rightarrow> Inl (f e) | Inr x \<Rightarrow> Inr x)"

definition ok_or :: "'e \<Rightarrow> 'a option \<Rightarrow> 'e + 'a" where
  "ok_or e v = (case v of None \<Rightarrow> Inl e | Some x \<Rightarrow> Inr x)"

text \<open>\<open>vartime_multiscalar_mul\<close> of the curve library is the sum of the products.\<close>

definition multiscalar_mul :: "('s, 'p::ab_group_add) curve \<Rightarrow> 's list \<Rightarrow> 'p list \<Rightarrow> 'p" where
  "multiscalar_mul C scalars points = sum_list (map2 (smul C) scalars points)"

record ('s, 'p) batch_collector =
  dynamic_scalars :: "'s list"
  dynamic_points :: "'p list"
  g_scalar :: 's
  h_scalar :: 's

definition batch_collector_default :: "('s::field, 'p) batch_collector" where
  "batch_collector_default = \<lparr>dynamic_scalars = [], dynamic_points = [], g_scalar = 0, h_scalar = 0\<rparr>"

definition mega_check :: "('s, 'p::ab_group_add) curve \<Rightarrow> ('s, 'p) batch_collector \<Rightarrow> 'p" where
  "mega_check C b = multiscalar_mul C (dynamic_scalars b @ [g_scalar b] @ [h_scalar b])
     (dynamic_points b @ [gen_G C] @ [gen_H C])"

definition batch_verify ::
  "('s, 'p::ab_group_add) curve \<Rightarrow> ('s, 'p) batch_collector \<Rightarrow> 'e proof_verification_error + unit" where
  "batch_verify C b = (if mega_check C b = 0 then Inr () else Inl BatchVerificationError)"

text \<open>Both lists of the collector grow together.\<close>

definition batch_ok :: "('s, 'p) batch_collector \<Rightarrow> bool" where
  "batch_ok b \<longleftrightarrow> length (dynamic_scalars b) = length (dynamic_points b)"

section \<open>Commitment equality\<close>

record 's commitment_eq_proof =
  eq_Y_0 :: compressed_point
  eq_Y_1 :: compressed_point
  eq_Y_2 :: compressed_point
  eq_z_s :: 's
  eq_z_x :: 's
  eq_z_r :: 's

definition eq_new_with_scalar ::
  "('s::field, 'p::ab_group_add) curve \<Rightarrow> 't merlin \<Rightarrow> ('s, 'p) key_pair \<Rightarrow> 'p ciphertext \<Rightarrow> 's \<Rightarrow> 's \<Rightarrow>
   's \<times> 's \<times> 's \<Rightarrow> 't \<Rightarrow> 's commitment_eq_proof \<times> 't" where
  "eq_new_with_scalar C M source_keypair source_ciphertext r x rng t =
     (let t = equality_proof_domain_separator M t;
          P_source = kp_public source_keypair;
          D_source = handle source_ciphertext;
          s = kp_private source_keypair;
          (y_s, y_x, y_r) = rng;
          Y_0 = encode_point C (smul C y_s P_source);
          Y_1 = encode_point C (multiscalar_mul C [y_x, y_s] [gen_G C, D_source]);
          Y_2 = encode_point C (pc_commit C y_x y_r);
          t = append_point M ''Y_0'' Y_0 t;
          t = append_point M ''Y_1'' Y_1 t;
          t = append_point M ''Y_2'' Y_2 t;
          (c, t) = challenge_scalar C M ''c'' t;
          z_s = c * s + y_s;
          z_x = c * x + y_x;
          z_r = c * r + y_r;
          (_, t) = challenge_scalar C M ''w'' t
      in (\<lparr>eq_Y_0 = Y_0, eq_Y_1 = Y_1, eq_Y_2 = Y_2, eq_z_s = z_s, eq_z_x = z_x, eq_z_r = z_r\<rparr>, t))"

definition eq_new ::
  "('s::field, 'p::ab_group_add) curve \<Rightarrow> 't merlin \<Rightarrow> ('s, 'p) key_pair \<Rightarrow> 'p ciphertext \<Rightarrow> 's \<Rightarrow> u64 \<Rightarrow>
   's \<times> 's \<times> 's \<Rightarrow> 't \<Rightarrow> 's commitment_eq_proof \<times> 't" where
  "eq_new C M source_keypair source_ciphertext opening amount rng t =
     eq_new_with_scalar C M source_keypair source_ciphertext opening (scalar_from amount) rng t"

text \<open>What both verifiers begin with: the three points go into the transcript, none the identity.\<close>

definition eq_append_points ::
  "('s, 'p::ab_group_add) curve \<Rightarrow> 't merlin \<Rightarrow> 's commitment_eq_proof \<Rightarrow> 't \<Rightarrow> 'e proof_verification_error + 't" where
  "eq_append_points C M p t =
     and_then (map_err Transcript (validate_and_append_point C M ''Y_0'' (eq_Y_0 p) t)) (\<lambda>t.
     and_then (map_err Transcript (validate_and_append_point C M ''Y_1'' (eq_Y_1 p) t)) (\<lambda>t.
     map_err Transcript (validate_and_append_point C M ''Y_2'' (eq_Y_2 p) t)))"

definition eq_append_responses ::
  "('s, 'p) curve \<Rightarrow> 't merlin \<Rightarrow> 's commitment_eq_proof \<Rightarrow> 't \<Rightarrow> 't" where
  "eq_append_responses C M p t = append_scalar C M ''z_r'' (eq_z_r p)
     (append_scalar C M ''z_x'' (eq_z_x p) (append_scalar C M ''z_s'' (eq_z_s p) t))"

definition eq_decompress ::
  "('s, 'p) curve \<Rightarrow> 's commitment_eq_proof \<Rightarrow> 'e proof_verification_error + 'p \<times> 'p \<times> 'p" where
  "eq_decompress C p =
     and_then (ok_or Decompression (decode_point C (eq_Y_0 p))) (\<lambda>Y_0.
     and_then (ok_or Decompression (decode_point C (eq_Y_1 p))) (\<lambda>Y_1.
     and_then (ok_or Decompression (decode_point C (eq_Y_2 p))) (\<lambda>Y_2. Inr (Y_0, Y_1, Y_2))))"

definition eq_pre_verify ::
  "('s::field, 'p::ab_group_add) curve \<Rightarrow> 't merlin \<Rightarrow> 's commitment_eq_proof \<Rightarrow> 'p \<Rightarrow> 'p ciphertext \<Rightarrow> 'p \<Rightarrow> 's \<Rightarrow>
   't \<times> ('s, 'p) batch_collector \<Rightarrow> 'e proof_verification_error + 't \<times> ('s, 'p) batch_collector" where
  "eq_pre_verify C M p P_source source_ciphertext C_destination batch_factor tb =
     (let (t, b) = tb;
          C_source = commitment source_ciphertext;
          D_source = handle source_ciphertext
      in and_then (eq_append_points C M p (equality_proof_domain_separator M t)) (\<lambda>t.
        let (c, t) = challenge_scalar C M ''c'' t;
            (w, _) = challenge_scalar C M ''w'' (eq_append_responses C M p t);
            (_, t) = challenge_scalar C M ''w'' t;
            ww = w * w;
            w_negated = - w;
            ww_negated = - ww
        in and_then (eq_decompress C p) (\<lambda>(Y_0, Y_1, Y_2).
          Inr (t, b\<lparr>g_scalar := g_scalar b + (w * eq_z_x p + ww * eq_z_x p) * batch_factor,
                   h_scalar := h_scalar b + (- c + ww * eq_z_r p) * batch_factor,
                   dynamic_scalars := dynamic_scalars b @ map (\<lambda>s. s * batch_factor)
                     [eq_z_s p, - 1, w * eq_z_s p, w_negated * c, w_negated, ww_negated * c, ww_negated],
                   dynamic_points := dynamic_points b @
                     [P_source, Y_0, D_source, C_source, Y_1, C_destination, Y_2]\<rparr>))))"

definition eq_verify ::
  "('s::field, 'p::ab_group_add) curve \<Rightarrow> 't merlin \<Rightarrow> 's commitment_eq_proof \<Rightarrow> 'p \<Rightarrow> 'p ciphertext \<Rightarrow> 'p \<Rightarrow>
   't \<Rightarrow> 'e proof_verification_error + 't" where
  "eq_verify C M p P ciphertext C_commitment t =
     (let C_ciphertext = commitment ciphertext;
          D = handle ciphertext
      in and_then (eq_append_points C M p (equality_proof_domain_separator M t)) (\<lambda>t.
        let (c, t) = challenge_scalar C M ''c'' t;
            (w, t) = challenge_scalar C M ''w'' (eq_append_responses C M p t);
            ww = w * w;
            w_negated = - w;
            ww_negated = - ww
        in and_then (eq_decompress C p) (\<lambda>(Y_0, Y_1, Y_2).
          let check = multiscalar_mul C
            [eq_z_s p, - c, - 1, w * eq_z_x p, w * eq_z_s p, w_negated * c, w_negated, ww * eq_z_x p,
             ww * eq_z_r p, ww_negated * c, ww_negated]
            [P, gen_H C, Y_0, gen_G C, D, C_ciphertext, Y_1, gen_G C, gen_H C, C_commitment, Y_2]
          in if check = 0 then Inr t else Inl CommitmentEqProof)))"

definition write_commitment_eq_proof :: "('s, 'p) curve \<Rightarrow> 's commitment_eq_proof \<Rightarrow> writer \<Rightarrow> writer" where
  "write_commitment_eq_proof C p = writes [write_point (eq_Y_0 p), write_point (eq_Y_1 p), write_point (eq_Y_2 p),
     write_scalar C (eq_z_s p), write_scalar C (eq_z_x p), write_scalar C (eq_z_r p)]"

definition read_commitment_eq_proof :: "('s, 'p) curve \<Rightarrow> 's commitment_eq_proof rd" where
  "read_commitment_eq_proof C = rbind read_point (\<lambda>Y_0. rbind read_point (\<lambda>Y_1. rbind read_point (\<lambda>Y_2.
     rbind (read_scalar C) (\<lambda>z_s. rbind (read_scalar C) (\<lambda>z_x. rbind (read_scalar C) (\<lambda>z_r.
     rreturn \<lparr>eq_Y_0 = Y_0, eq_Y_1 = Y_1, eq_Y_2 = Y_2, eq_z_s = z_s, eq_z_x = z_x, eq_z_r = z_r\<rparr>))))))"

definition size_commitment_eq_proof :: "'s commitment_eq_proof \<Rightarrow> usize" where
  "size_commitment_eq_proof p = RISTRETTO_COMPRESSED_SIZE * 3 + SCALAR_SIZE * 3"

section \<open>Ciphertext validity\<close>

record 's ciphertext_validity_proof =
  cv_Y_0 :: compressed_point
  cv_Y_1 :: compressed_point
  cv_Y_2 :: "compressed_point option"
  cv_z_r :: 's
  cv_z_x :: 's

definition cv_new ::
  "('s::field, 'p::ab_group_add) curve \<Rightarrow> 't merlin \<Rightarrow> 'p \<Rightarrow> 'p option \<Rightarrow> u64 \<Rightarrow> 's \<Rightarrow> 's \<times> 's \<Rightarrow> 't \<Rightarrow>
   's ciphertext_validity_proof \<times> 't" where
  "cv_new C M P_dest source_pubkey amount r rng t =
     (let t = ciphertext_validity_proof_domain_separator M t;
          x = scalar_from amount;
          (y_r, y_x) = rng;
          Y_0 = encode_point C (pc_commit C y_x y_r);
          Y_1 = encode_point C (smul C y_r P_dest);
          Y_2 = map_option (\<lambda>P_source. encode_point C (smul C y_r P_source)) source_pubkey;
          t = append_point M ''Y_0'' Y_0 t;
          t = append_point M ''Y_1'' Y_1 t;
          t = (case Y_2 of Some Y_2 \<Rightarrow> append_point M ''Y_2'' Y_2 t | None \<Rightarrow> t);
          (c, t) = challenge_scalar C M ''c'' t;
          z_r = c * r + y_r;
          z_x = c * x + y_x;
          (_, t) = challenge_scalar C M ''w'' t
      in (\<lparr>cv_Y_0 = Y_0, cv_Y_1 = Y_1, cv_Y_2 = Y_2, cv_z_r = z_r, cv_z_x = z_x\<rparr>, t))"

text \<open>The third point goes into the transcript when it is there and asked for.\<close>

definition cv_append_points ::
  "('s, 'p::ab_group_add) curve \<Rightarrow> 't merlin \<Rightarrow> 's ciphertext_validity_proof \<Rightarrow> bool \<Rightarrow> 't \<Rightarrow>
   'e proof_verification_error + 't" where
  "cv_append_points C M p check_y_2 t =
     and_then (map_err Transcript (validate_and_append_point C M ''Y_0'' (cv_Y_0 p) t)) (\<lambda>t.
     and_then (map_err Transcript (validate_and_append_point C M ''Y_1'' (cv_Y_1 p) t)) (\<lambda>t.
     case (if check_y_2 then cv_Y_2 p else None) of
       Some Y_2 \<Rightarrow> map_err Transcript (validate_and_append_point C M ''Y_2'' Y_2 t)
     | None \<Rightarrow> Inr t))"

definition cv_append_responses ::
  "('s, 'p) curve \<Rightarrow> 't merlin \<Rightarrow> 's ciphertext_validity_proof \<Rightarrow> 't \<Rightarrow> 't" where
  "cv_append_responses C M p t =
     append_scalar C M ''z_x'' (cv_z_x p) (append_scalar C M ''z_r'' (cv_z_r p) t)"

definition cv_decompress ::
  "('s, 'p) curve \<Rightarrow> 's ciphertext_validity_proof \<Rightarrow> bool \<Rightarrow>
   'e proof_verification_error + 'p \<times> 'p \<times> 'p option" where
  "cv_decompress C p check_y_2 =
     and_then (ok_or Decompression (decode_point C (cv_Y_0 p))) (\<lambda>Y_0.
     and_then (ok_or Decompression (decode_point C (cv_Y_1 p))) (\<lambda>Y_1.
     and_then (case cv_Y_2 p of
         Some Y_2 \<Rightarrow> and_then (ok_or Decompression (decode_point C Y_2)) (\<lambda>Y_2. Inr (Some Y_2))
       | None \<Rightarrow> Inr None) (\<lambda>Y_2.
     if (Y_2 \<noteq> None) \<noteq> check_y_2 then Inl CiphertextValidityProof else Inr (Y_0, Y_1, Y_2))))"

definition cv_pre_verify ::
  "('s::field, 'p::ab_group_add) curve \<Rightarrow> 't merlin \<Rightarrow> 's ciphertext_validity_proof \<Rightarrow> 'p \<Rightarrow> 'p \<Rightarrow> 'p \<Rightarrow> 'p \<Rightarrow> 'p \<Rightarrow>
   bool \<Rightarrow> 's \<Rightarrow> 't \<times> ('s, 'p) batch_collector \<Rightarrow> 'e proof_verification_error + 't \<times> ('s, 'p) batch_collector" where
  "cv_pre_verify C M p commit P_dest P_source D_dest D_source check_y_2 batch_factor tb =
     (let (t, b) = tb
      in and_then (cv_append_points C M p check_y_2 (ciphertext_validity_proof_domain_separator M t)) (\<lambda>t.
        let (c, t) = challenge_scalar C M ''c'' t;
            (w, _) = challenge_scalar C M ''w'' (cv_append_responses C M p t);
            (_, t) = challenge_scalar C M ''w'' t;
            w_negated = - w
        in and_then (cv_decompress C p check_y_2) (\<lambda>(Y_0, Y_1, Y_2).
          let w_z_r = w * cv_z_r p;
              w_negated_c = w_negated * c;
              b = b\<lparr>g_scalar := g_scalar b + cv_z_x p * batch_factor,
                    h_scalar := h_scalar b + cv_z_r p * batch_factor,
                    dynamic_scalars := dynamic_scalars b @
                      map (\<lambda>s. s * batch_factor) [- c, - 1, w_z_r, w_negated_c, w_negated],
                    dynamic_points := dynamic_points b @ [commit, Y_0, P_dest, D_dest, Y_1]\<rparr>
          in Inr (t, case Y_2 of
               Some Y_2 \<Rightarrow> b\<lparr>dynamic_scalars := dynamic_scalars b @ [w * w_z_r, w * w_negated_c, w * w_negated],
                            dynamic_points := dynamic_points b @ [P_source, D_source, Y_2]\<rparr>
             | None \<Rightarrow> b))))"

definition cv_verify ::
  "('s::field, 'p::ab_group_add) curve \<Rightarrow> 't merlin \<Rightarrow> 's ciphertext_validity_proof \<Rightarrow> 'p \<Rightarrow> 'p \<Rightarrow> 'p \<Rightarrow> 'p \<Rightarrow> 'p \<Rightarrow>
   bool \<Rightarrow> 't \<Rightarrow> 'e proof_verification_error + 't" where
  "cv_verify C M p commit P_dest P_source D_dest D_source check_y_2 t =
     and_then (cv_append_points C M p check_y_2 (ciphertext_validity_proof_domain_separator M t)) (\<lambda>t.
       let (c, t) = challenge_scalar C M ''c'' t;
           (w, t) = challenge_scalar C M ''w'' (cv_append_responses C M p t);
           ww = w * w;
           w_negated = - w;
           ww_negated = - ww
       in and_then (cv_decompress C p check_y_2) (\<lambda>(Y_0, Y_1, Y_2).
         let check = (case Y_2 of
             Some Y_2 \<Rightarrow> multiscalar_mul C
               [cv_z_r p, cv_z_x p, - c, - 1, w * cv_z_r p, w_negated * c, w_negated, ww * cv_z_r p,
                ww_negated * c, ww_negated]
               [gen_H C, gen_G C, commit, Y_0, P_dest, D_dest, Y_1, P_source, D_source, Y_2]
           | None \<Rightarrow> multiscalar_mul C
               [cv_z_r p, cv_z_x p, - c, - 1, w * cv_z_r p, w_negated * c, w_negated]
               [gen_H C, gen_G C, commit, Y_0, P_dest, D_dest, Y_1])
         in if check = 0 then Inr t else Inl CiphertextValidityProof))"

definition write_ciphertext_validity_proof ::
  "('s, 'p) curve \<Rightarrow> 's ciphertext_validity_proof \<Rightarrow> writer \<Rightarrow> writer" where
  "write_ciphertext_validity_proof C p = writes [write_point (cv_Y_0 p), write_point (cv_Y_1 p),
     (case cv_Y_2 p of Some Y_2 \<Rightarrow> write_point Y_2 | None \<Rightarrow> id),
     write_scalar C (cv_z_r p), write_scalar C (cv_z_x p)]"

text \<open>The transaction version comes from the reader's context. \<open>T0\<close> is the least version.\<close>

definition read_ciphertext_validity_proof :: "('s, 'p) curve \<Rightarrow> tx_version \<Rightarrow> 's ciphertext_validity_proof rd" where
  "read_ciphertext_validity_proof C version = rbind read_point (\<lambda>Y_0. rbind read_point (\<lambda>Y_1.
     rbind (if tx_version_to_u8 version \<ge> tx_version_to_u8 T0
       then rbind read_point (\<lambda>Y_2. rreturn (Some Y_2)) else rreturn None) (\<lambda>Y_2.
     rbind (read_scalar C) (\<lambda>z_r. rbind (read_scalar C) (\<lambda>z_x.
     rreturn \<lparr>cv_Y_0 = Y_0, cv_Y_1 = Y_1, cv_Y_2 = Y_2, cv_z_r = z_r, cv_z_x = z_x\<rparr>)))))"

definition size_ciphertext_validity_proof :: "'s ciphertext_validity_proof \<Rightarrow> usize" where
  "size_ciphertext_validity_proof p = RISTRETTO_COMPRESSED_SIZE * 2 + SCALAR_SIZE * 2 +
     (case cv_Y_2 p of None \<Rightarrow> 0 | Some _ \<Rightarrow> RISTRETTO_COMPRESSED_SIZE)"

section \<open>Balance proofs\<close>

record 's balance_proof =
  bp_amount :: u64
  bp_commitment_eq_proof :: "'s commitment_eq_proof"

definition OPENING :: "'s::field" where "OPENING = 1"

definition balance_prove ::
  "('s::field, 'p::ab_group_add) curve \<Rightarrow> 't merlin \<Rightarrow> ('s, 'p) key_pair \<Rightarrow> u64 \<Rightarrow> 'p ciphertext \<Rightarrow>
   's \<times> 's \<times> 's \<Rightarrow> 't \<Rightarrow> 's balance_proof \<times> 't" where
  "balance_prove C M keypair amount ciphertext rng t =
     (let t = balance_proof_domain_separator M t;
          t = append_u64 M (label ''amount'') amount t;
          t = append_ciphertext M ''source_ct'' (compress_ciphertext C ciphertext) t;
          ct = encrypt_with_opening C (kp_public keypair) (scalar_from amount) OPENING;
          zeroed_balance = ciphertext_sub ciphertext ct;
          (proof, t) = eq_new C M keypair zeroed_balance OPENING 0 rng t
      in (\<lparr>bp_amount = amount, bp_commitment_eq_proof = proof\<rparr>, t))"

definition balance_new ::
  "('s::field, 'p::ab_group_add) curve \<Rightarrow> 't merlin \<Rightarrow> ('s, 'p) key_pair \<Rightarrow> u64 \<Rightarrow> 'p ciphertext \<Rightarrow>
   's \<times> 's \<times> 's \<Rightarrow> 's balance_proof" where
  "balance_new C M keypair amount ciphertext rng =
     fst (balance_prove C M keypair amount ciphertext rng (transcript_new M (label ''balance_proof'')))"

definition balance_pre_verify ::
  "('s::field, 'p::ab_group_add) curve \<Rightarrow> 't merlin \<Rightarrow> 's balance_proof \<Rightarrow> 'p \<Rightarrow> 'p ciphertext \<Rightarrow> 's \<Rightarrow>
   't \<times> ('s, 'p) batch_collector \<Rightarrow> 'e proof_verification_error + 't \<times> ('s, 'p) batch_collector" where
  "balance_pre_verify C M p public_key source_ciphertext batch_factor tb =
     (let (t, b) = tb;
          t = balance_proof_domain_separator M t;
          t = append_u64 M (label ''amount'') (bp_amount p) t;
          t = append_ciphertext M ''source_ct'' (compress_ciphertext C source_ciphertext) t;
          destination_commitment = commitment_new_with_opening C 0 OPENING;
          ct = encrypt_with_opening C public_key (scalar_from (bp_amount p)) OPENING;
          zeroed_balance = ciphertext_sub source_ciphertext ct
      in eq_pre_verify C M (bp_commitment_eq_proof p) public_key zeroed_balance destination_commitment
           batch_factor (t, b))"

definition balance_verify ::
  "('s::field, 'p::ab_group_add) curve \<Rightarrow> 't merlin \<Rightarrow> 's balance_proof \<Rightarrow> 'p \<Rightarrow> 'p ciphertext \<Rightarrow> 's \<Rightarrow>
   'e proof_verification_error + unit" where
  "balance_verify C M p public_key source_ciphertext batch_factor =
     and_then (balance_pre_verify C M p public_key source_ciphertext batch_factor
       (transcript_new M (label ''balance_proof''), batch_collector_default)) (\<lambda>(t, b). batch_verify C b)"

definition write_balance_proof :: "('s, 'p) curve \<Rightarrow> 's balance_proof \<Rightarrow> writer \<Rightarrow> writer" where
  "write_balance_proof C p = writes [write_u64 (bp_amount p), write_commitment_eq_proof C (bp_commitment_eq_proof p)]"

definition read_balance_proof :: "('s, 'p) curve \<Rightarrow> 's balance_proof rd" where
  "read_balance_proof C = rbind read_u64 (\<lambda>amount. rbind (read_commitment_eq_proof C) (\<lambda>proof.
     rreturn \<lparr>bp_amount = amount, bp_commitment_eq_proof = proof\<rparr>))"

definition size_balance_proof :: "'s balance_proof \<Rightarrow> usize" where
  "size_balance_proof p = 8 + size_commitment_eq_proof (bp_commitment_eq_proof p)"

section \<open>Range and ownership proofs\<close>

definition BULLET_PROOF_SIZE :: usize where "BULLET_PROOF_SIZE = 64"

definition MAX_TRANSFER_COUNT :: usize where "MAX_TRANSFER_COUNT = 255"

text \<open>The operations of \<open>bulletproofs::RangeProof\<close>; the generators are fixed by the library record.\<close>

record ('s, 'p, 't, 'r, 'e) range_prover =
  prove_single :: "'t \<Rightarrow> u64 \<Rightarrow> 's \<Rightarrow> usize \<Rightarrow> 'e + ('r \<times> compressed_point) \<times> 't"
  verify_single :: "'r \<Rightarrow> 't \<Rightarrow> 'p \<times> compressed_point \<Rightarrow> usize \<Rightarrow> 'e + 't"
  range_to_bytes :: "'r \<Rightarrow> u8 list"
  range_from_bytes :: "u8 list \<Rightarrow> 'r option"

definition write_range_proof :: "('s, 'p, 't, 'r, 'e) range_prover \<Rightarrow> 'r \<Rightarrow> writer \<Rightarrow> writer" where
  "write_range_proof R p = (let bytes = range_to_bytes R p in
     writes [write_u16 (of_nat (length bytes)), write_bytes bytes])"

function next_power_from :: "nat \<Rightarrow> nat \<Rightarrow> nat" where
  "next_power_from n p = (if n \<le> p \<or> p = 0 then p else next_power_from n (2 * p))"
  by auto

termination
  by (relation "measure (\<lambda>(n, p). n - p)") auto

definition next_power_of_two :: "nat \<Rightarrow> nat" where
  "next_power_of_two n = next_power_from n 1"

definition read_range_proof :: "('s, 'p, 't, 'r, 'e) range_prover \<Rightarrow> 'r rd" where
  "read_range_proof R = rbind read_u16 (\<lambda>l.
     let len = unat l; min_size = 4 * RISTRETTO_COMPRESSED_SIZE + 5 * SCALAR_SIZE in
     if len mod 32 \<noteq> 0 \<or> len < min_size then rfail InvalidSize
     else if (len - min_size) mod 32 \<noteq> 0 then rfail InvalidSize
     else
       let max_size_possible = min_size + next_power_of_two (MAX_TRANSFER_COUNT * 2) * RISTRETTO_COMPRESSED_SIZE in
       if len > max_size_possible then rfail InvalidSize
       else rbind (read_bytes_ref len) (\<lambda>bytes.
         case range_from_bytes R bytes of None \<Rightarrow> rfail InvalidValue | Some p \<Rightarrow> rreturn p))"

definition size_range_proof :: "('s, 'p, 't, 'r, 'e) range_prover \<Rightarrow> 'r \<Rightarrow> usize" where
  "size_range_proof R p = length (range_to_bytes R p) + 2"

record ('s, 'r) ownership_proof =
  op_amount :: u64
  op_commitment :: compressed_point
  op_commitment_eq_proof :: "'s commitment_eq_proof"
  op_range_proof :: 'r

text \<open>\<open>None\<close> is the failed assertion on the commitment of the range proof.\<close>

definition ownership_prove ::
  "('s::field, 'p::ab_group_add) curve \<Rightarrow> 't merlin \<Rightarrow> ('s, 'p, 't, 'r, 'e) range_prover \<Rightarrow> ('s, 'p) key_pair \<Rightarrow>
   u64 \<Rightarrow> u64 \<Rightarrow> 'p ciphertext \<Rightarrow> 's \<Rightarrow> 's \<times> 's \<times> 's \<Rightarrow> 't \<Rightarrow>
   ('e proof_generation_error + ('s, 'r) ownership_proof \<times> 't) option" where
  "ownership_prove C M R keypair balance amount ciphertext opening rng t =
     (if amount = 0 then Some (Inl FormatGeneration)
      else if balance < amount then Some (Inl (InsufficientFunds amount balance))
      else let
        left = balance - amount;
        left_commitment = encode_point C (commitment_new_with_opening C (scalar_from left) opening);
        t = ownership_proof_domain_separator M t;
        t = append_u64 M (label ''amount'') amount t;
        t = append_commitment M ''commitment'' left_commitment t;
        t = append_ciphertext M ''source_ct'' (compress_ciphertext C ciphertext) t;
        ct = encrypt_with_opening C (kp_public keypair) (scalar_from amount) OPENING;
        ct_left = ciphertext_sub ciphertext ct;
        (commitment_eq_proof, t) = eq_new C M keypair ct_left opening left rng t
      in case prove_single R t left opening BULLET_PROOF_SIZE of
          Inl e \<Rightarrow> Some (Inl (RangeProofGeneration e))
        | Inr ((range_proof, range_commitment), t) \<Rightarrow>
            if range_commitment \<noteq> left_commitment then None
            else Some (Inr (\<lparr>op_amount = amount, op_commitment = left_commitment,
                   op_commitment_eq_proof = commitment_eq_proof, op_range_proof = range_proof\<rparr>, t)))"

definition ownership_new ::
  "('s::field, 'p::ab_group_add) curve \<Rightarrow> 't merlin \<Rightarrow> ('s, 'p, 't, 'r, 'e) range_prover \<Rightarrow> ('s, 'p) key_pair \<Rightarrow>
   u64 \<Rightarrow> u64 \<Rightarrow> 'p ciphertext \<Rightarrow> 's \<Rightarrow> 's \<times> 's \<times> 's \<Rightarrow>
   ('e proof_generation_error + ('s, 'r) ownership_proof) option" where
  "ownership_new C M R keypair balance amount ciphertext opening rng =
     map_option (map_sum id fst) (ownership_prove C M R keypair balance amount ciphertext opening rng
       (transcript_new M (label ''ownership_proof'')))"

definition ownership_pre_verify ::
  "('s::field, 'p::ab_group_add) curve \<Rightarrow> 't merlin \<Rightarrow> ('s, 'p, 't, 'r, 'e) range_prover \<Rightarrow>
   ('s, 'r) ownership_proof \<Rightarrow> 'p \<Rightarrow> 'p ciphertext \<Rightarrow> 's \<Rightarrow> 't \<times> ('s, 'p) batch_collector \<Rightarrow>
   'e proof_verification_error + 't \<times> ('s, 'p) batch_collector" where
  "ownership_pre_verify C M R p public_key source_ciphertext batch_factor tb =
     (let (t, b) = tb in
      if op_amount p = 0 then Inl Format
      else let
        t = ownership_proof_domain_separator M t;
        t = append_u64 M (label ''amount'') (op_amount p) t
      in and_then (map_err Transcript (validate_and_append_point C M ''commitment'' (op_commitment p) t)) (\<lambda>t.
        let t = append_ciphertext M ''source_ct'' (compress_ciphertext C source_ciphertext) t
        in and_then (ok_or Decompression (decode_point C (op_commitment p))) (\<lambda>commitment.
          let ct = encrypt_with_opening C public_key (scalar_from (op_amount p)) OPENING;
              balance_left = ciphertext_sub source_ciphertext ct
          in and_then (eq_pre_verify C M (op_commitment_eq_proof p) public_key balance_left commitment
                 batch_factor (t, b)) (\<lambda>(t, b).
            and_then (map_err RangeProof (verify_single R (op_range_proof p) t (commitment, op_commitment p)
              BULLET_PROOF_SIZE)) (\<lambda>t. Inr (t, b))))))"

definition ownership_verify ::
  "('s::field, 'p::ab_group_add) curve \<Rightarrow> 't merlin \<Rightarrow> ('s, 'p, 't, 'r, 'e) range_prover \<Rightarrow>
   ('s, 'r) ownership_proof \<Rightarrow> 'p \<Rightarrow> 'p ciphertext \<Rightarrow> 's \<Rightarrow> 'e proof_verification_error + unit" where
  "ownership_verify C M R p public_key source_ciphertext batch_factor =
     and_then (ownership_pre_verify C M R p public_key source_ciphertext batch_factor
       (transcript_new M (label ''ownership_proof''), batch_collector_default)) (\<lambda>(t, b). batch_verify C b)"

definition write_ownership_proof ::
  "('s, 'p) curve \<Rightarrow> ('s, 'p, 't, 'r, 'e) range_prover \<Rightarrow> ('s, 'r) ownership_proof \<Rightarrow> writer \<Rightarrow> writer" where
  "write_ownership_proof C R p = writes [write_u64 (op_amount p), write_point (op_commitment p),
     write_commitment_eq_proof C (op_commitment_eq_proof p), write_range_proof R (op_range_proof p)]"

definition read_ownership_proof ::
  "('s, 'p) curve \<Rightarrow> ('s, 'p, 't, 'r, 'e) range_prover \<Rightarrow> ('s, 'r) ownership_proof rd" where
  "read_ownership_proof C R = rbind read_u64 (\<lambda>amount. rbind read_point (\<lambda>commitment.
     rbind (read_commitment_eq_proof C) (\<lambda>commitment_eq_proof. rbind (read_range_proof R) (\<lambda>range_proof.
     rreturn \<lparr>op_amount = amount, op_commitment = commitment, op_commitment_eq_proof = commitment_eq_proof,
       op_range_proof = range_proof\<rparr>))))"

definition size_ownership_proof ::
  "('s, 'p, 't, 'r, 'e) range_prover \<Rightarrow> ('s, 'r) ownership_proof \<Rightarrow> usize" where
  "size_ownership_proof R p = 8 + size_point (op_commitment p) +
     size_commitment_eq_proof (op_commitment_eq_proof p) + size_range_proof R (op_range_proof p)"

section \<open>Lemmas\<close>

lemmas result_defs = and_then_def map_err_def ok_or_def

lemma multiscalar_mul_simps [simp]:
  "multiscalar_mul C [] ps = 0" "multiscalar_mul C (s # ss) (p # ps) = smul C s p + multiscalar_mul C ss ps"
  by (simp_all add: multiscalar_mul_def)

lemma multiscalar_mul_append:
  "length ss = length ps \<Longrightarrow>
   multiscalar_mul C (ss @ ss') (ps @ ps') = multiscalar_mul C ss ps + multiscalar_mul C ss' ps'"
  by (simp add: multiscalar_mul_def)

lemma mega_check_default:
  assumes "curve_laws C"
  shows "mega_check C batch_collector_default = 0" "batch_ok batch_collector_default"
  by (simp_all add: mega_check_def batch_collector_default_def batch_ok_def smul_zero_left [OF assms])

text \<open>What a proof adds to a collector adds up in its check.\<close>

lemma mega_check_extend:
  assumes "curve_laws C" and "batch_ok b" and "length ss = length ps"
  shows "mega_check C (b\<lparr>g_scalar := g_scalar b + g, h_scalar := h_scalar b + h,
      dynamic_scalars := dynamic_scalars b @ ss, dynamic_points := dynamic_points b @ ps\<rparr>) =
    mega_check C b + (multiscalar_mul C ss ps + smul C g (gen_G C) + smul C h (gen_H C))"
  using assms(2,3)
  by (simp add: mega_check_def batch_ok_def multiscalar_mul_append smul_add_left [OF assms(1)])

lemma smul_eq_0:
  assumes "curve_laws C"
  shows "smul C a P = 0 \<longleftrightarrow> a = 0 \<or> P = 0"
proof -
  have "P = smul C (inverse a) (smul C a P)" if "a \<noteq> 0"
    using that by (simp add: smul_smul [OF assms] smul_one [OF assms])
  then show ?thesis by (metis smul_zero_left [OF assms] smul_zero_right [OF assms])
qed

subsection \<open>The equations of the equality proof\<close>

definition eq_residue_key :: "('s, 'p::ab_group_add) curve \<Rightarrow> 's commitment_eq_proof \<Rightarrow> 'p \<Rightarrow> 's \<Rightarrow> 'p \<Rightarrow> 'p" where
  "eq_residue_key C p P c Y = smul C (eq_z_s p) P - smul C c (gen_H C) - Y"

definition eq_residue_source ::
  "('s, 'p::ab_group_add) curve \<Rightarrow> 's commitment_eq_proof \<Rightarrow> 'p ciphertext \<Rightarrow> 's \<Rightarrow> 'p \<Rightarrow> 'p" where
  "eq_residue_source C p ct c Y =
     smul C (eq_z_x p) (gen_G C) + smul C (eq_z_s p) (handle ct) - smul C c (commitment ct) - Y"

definition eq_residue_destination ::
  "('s, 'p::ab_group_add) curve \<Rightarrow> 's commitment_eq_proof \<Rightarrow> 'p \<Rightarrow> 's \<Rightarrow> 'p \<Rightarrow> 'p" where
  "eq_residue_destination C p dest c Y =
     smul C (eq_z_x p) (gen_G C) + smul C (eq_z_r p) (gen_H C) - smul C c dest - Y"

definition eq_residue ::
  "('s::field, 'p::ab_group_add) curve \<Rightarrow> 's commitment_eq_proof \<Rightarrow> 'p \<Rightarrow> 'p ciphertext \<Rightarrow> 'p \<Rightarrow> 's \<Rightarrow> 's \<Rightarrow>
   'p \<times> 'p \<times> 'p \<Rightarrow> 'p" where
  "eq_residue C p P ct dest c w Ys = (case Ys of (Y_0, Y_1, Y_2) \<Rightarrow>
     eq_residue_key C p P c Y_0 + smul C w (eq_residue_source C p ct c Y_1) +
     smul C (w * w) (eq_residue_destination C p dest c Y_2))"

lemmas eq_residue_defs = eq_residue_def eq_residue_key_def eq_residue_source_def eq_residue_destination_def

text \<open>The challenges a verifier draws for a proof, and the transcript the batch verifier goes on with.\<close>

definition eq_challenges ::
  "('s, 'p::ab_group_add) curve \<Rightarrow> 't merlin \<Rightarrow> 's commitment_eq_proof \<Rightarrow> 't \<Rightarrow> ('s \<times> 's \<times> 't) option" where
  "eq_challenges C M p t =
     (case eq_append_points C M p (equality_proof_domain_separator M t) :: unit proof_verification_error + 't of
        Inl _ \<Rightarrow> None
      | Inr t \<Rightarrow> let (c, t) = challenge_scalar C M ''c'' t in
          Some (c, fst (challenge_scalar C M ''w'' (eq_append_responses C M p t)), snd (challenge_scalar C M ''w'' t)))"

lemma eq_append_points_eq:
  "eq_append_points C M p t = (if encode_point C 0 \<in> {eq_Y_0 p, eq_Y_1 p, eq_Y_2 p} then Inl (Transcript IdentityPoint)
     else Inr (append_point M ''Y_2'' (eq_Y_2 p) (append_point M ''Y_1'' (eq_Y_1 p) (append_point M ''Y_0'' (eq_Y_0 p) t))))"
  by (auto simp: eq_append_points_def validate_and_append_point_def result_defs append_point_def)

lemma eq_check_residue:
  assumes "curve_laws C"
  shows "multiscalar_mul C
      [eq_z_s p, - c, - 1, w * eq_z_x p, w * eq_z_s p, - w * c, - w, w * w * eq_z_x p, w * w * eq_z_r p,
       - (w * w) * c, - (w * w)]
      [P, gen_H C, Y_0, gen_G C, handle ct, commitment ct, Y_1, gen_G C, gen_H C, dest, Y_2] =
    eq_residue C p P ct dest c w (Y_0, Y_1, Y_2)"
  by (simp add: eq_residue_defs smul_algebra [OF assms] algebra_simps)

lemma eq_batch_residue:
  assumes "curve_laws C"
  shows "multiscalar_mul C
      (map (\<lambda>s. s * bf) [eq_z_s p, - 1, w * eq_z_s p, - w * c, - w, - (w * w) * c, - (w * w)])
      [P, Y_0, handle ct, commitment ct, Y_1, dest, Y_2] +
      smul C ((w * eq_z_x p + w * w * eq_z_x p) * bf) (gen_G C) + smul C ((- c + w * w * eq_z_r p) * bf) (gen_H C) =
    smul C bf (eq_residue C p P ct dest c w (Y_0, Y_1, Y_2))"
  by (simp add: eq_residue_defs smul_algebra [OF assms] algebra_simps)

text \<open>Both verifiers fail alike before their equation; after that, they look at the same residue.\<close>

lemma eq_run_fails:
  assumes "eq_challenges C M p t = None \<or> (\<exists>e. eq_decompress C p = (Inl e :: 'e proof_verification_error + _))"
  shows "\<exists>e :: 'e proof_verification_error. eq_verify C M p P ct dest t = Inl e \<and>
    (\<forall>bf b. eq_pre_verify C M p P ct dest bf (t, b) = Inl e)"
  using assms
  by (auto simp: eq_challenges_def eq_verify_def eq_pre_verify_def eq_append_points_eq and_then_def Let_def
      split: if_splits prod.splits)

lemma eq_run:
  assumes "curve_laws C" and "eq_challenges C M p t = Some (c, w, t2)"
    and Inr: "eq_decompress C p = (Inr Ys :: 'e proof_verification_error + _)"
  shows eq_run_verify: "\<exists>t1. eq_verify C M p P ct dest t =
      (if eq_residue C p P ct dest c w Ys = 0 then Inr t1 else Inl (CommitmentEqProof :: 'e proof_verification_error))"
    and eq_run_batch: "batch_ok b \<Longrightarrow> \<exists>b'. eq_pre_verify C M p P ct dest bf (t, b) =
      (Inr (t2, b') :: 'e proof_verification_error + _) \<and> batch_ok b' \<and>
      mega_check C b' = mega_check C b + smul C bf (eq_residue C p P ct dest c w Ys)"
proof -
  obtain t1 where proper: "encode_point C 0 \<noteq> eq_Y_0 p" "encode_point C 0 \<noteq> eq_Y_1 p" "encode_point C 0 \<noteq> eq_Y_2 p"
    and c: "challenge_scalar C M ''c'' (append_point M ''Y_2'' (eq_Y_2 p) (append_point M ''Y_1'' (eq_Y_1 p)
      (append_point M ''Y_0'' (eq_Y_0 p) (equality_proof_domain_separator M t)))) = (c, t1)"
    and ws: "fst (challenge_scalar C M ''w'' (eq_append_responses C M p t1)) = w" "snd (challenge_scalar C M ''w'' t1) = t2"
    using assms(2) by (auto simp: eq_challenges_def eq_append_points_eq split: if_splits prod.splits)
  obtain u t3 where w: "challenge_scalar C M ''w'' (eq_append_responses C M p t1) = (w, t3)"
      "challenge_scalar C M ''w'' t1 = (u, t2)"
    using ws by (metis prod.collapse)
  note step = eq_append_points_eq and_then_def Let_def c w proper Inr
  obtain Y_0 Y_1 Y_2 where Ys: "Ys = (Y_0, Y_1, Y_2)" by (cases Ys)
  have "eq_verify C M p P ct dest t =
      (if eq_residue C p P ct dest c w Ys = 0 then Inr t3 else (Inl CommitmentEqProof :: 'e proof_verification_error + _))"
    unfolding eq_verify_def Let_def
    by (simp add: step Ys eq_check_residue [OF assms(1), symmetric])
  then show "\<exists>t1. eq_verify C M p P ct dest t =
      (if eq_residue C p P ct dest c w Ys = 0 then Inr t1 else Inl (CommitmentEqProof :: 'e proof_verification_error))"
    by blast
  show "\<exists>b'. eq_pre_verify C M p P ct dest bf (t, b) =
      (Inr (t2, b') :: 'e proof_verification_error + _) \<and> batch_ok b' \<and>
      mega_check C b' = mega_check C b + smul C bf (eq_residue C p P ct dest c w Ys)" if "batch_ok b"
  proof (intro exI conjI)
    let ?b' = "b\<lparr>g_scalar := g_scalar b + (w * eq_z_x p + w * w * eq_z_x p) * bf,
      h_scalar := h_scalar b + (- c + w * w * eq_z_r p) * bf,
      dynamic_scalars := dynamic_scalars b @ map (\<lambda>s. s * bf)
        [eq_z_s p, - 1, w * eq_z_s p, - w * c, - w, - (w * w) * c, - (w * w)],
      dynamic_points := dynamic_points b @ [P, Y_0, handle ct, commitment ct, Y_1, dest, Y_2]\<rparr>"
    show "eq_pre_verify C M p P ct dest bf (t, b) = (Inr (t2, ?b') :: 'e proof_verification_error + _)"
      unfolding eq_pre_verify_def Let_def by (simp add: step Ys)
    show "mega_check C ?b' = mega_check C b + smul C bf (eq_residue C p P ct dest c w Ys)"
      unfolding Ys eq_batch_residue [OF assms(1), symmetric]
      by (rule mega_check_extend [OF assms(1) that]) simp
    show "batch_ok ?b'" using that by (simp add: batch_ok_def)
  qed
qed

lemma eq_run_cases:
  obtains (fails) "\<exists>e :: 'e proof_verification_error. eq_verify C M p P ct dest t = Inl e \<and>
      (\<forall>bf b. eq_pre_verify C M p P ct dest bf (t, b) = Inl e)"
  | (runs) c w t2 Ys where "eq_challenges C M p t = Some (c, w, t2)"
      "eq_decompress C p = (Inr Ys :: 'e proof_verification_error + _)"
  using eq_run_fails by (metis obj_sumE option.exhaust prod_cases3)

lemma eq_verify_accepts:
  assumes "curve_laws C" and ok: "eq_verify C M p P ct dest t = (Inr t' :: 'e proof_verification_error + 't)"
  obtains c w t2 Y_0 Y_1 Y_2 where "eq_challenges C M p t = Some (c, w, t2)" and "decode_point C (eq_Y_0 p) = Some Y_0"
    and "decode_point C (eq_Y_1 p) = Some Y_1" and "decode_point C (eq_Y_2 p) = Some Y_2"
    and "eq_residue C p P ct dest c w (Y_0, Y_1, Y_2) = 0"
proof (cases rule: eq_run_cases [where C = C and M = M and p = p and P = P and ct = ct and dest = dest and t = t and 'e = 'e])
  case fails
  then show ?thesis using ok by auto
next
  case (runs c w t2 Ys)
  then show ?thesis
    using eq_run_verify [OF assms(1) runs, of P ct dest] ok that
    by (fastforce simp: eq_decompress_def result_defs split: option.splits if_splits)
qed

subsection \<open>Completeness\<close>

lemma eq_new_draws:
  fixes C :: "('s::field, 'p::ab_group_add) curve"
  assumes "curve_laws C" and "encoding_laws C"
    and new: "eq_new_with_scalar C M keys ct r x (y_s, y_x, y_r) t = (p, t')"
    and proper: "smul C y_s (kp_public keys) \<noteq> 0" "smul C y_x (gen_G C) + smul C y_s (handle ct) \<noteq> 0"
      "pc_commit C y_x y_r \<noteq> 0"
  obtains c w where "eq_challenges C M p t = Some (c, w, t')"
    and "eq_decompress C p = (Inr (smul C y_s (kp_public keys), smul C y_x (gen_G C) + smul C y_s (handle ct),
      pc_commit C y_x y_r) :: 'e proof_verification_error + _)"
    and "eq_z_s p = c * kp_private keys + y_s" "eq_z_x p = c * x + y_x" "eq_z_r p = c * r + y_r"
proof -
  have decode: "decode_point C (encode_point C Q) = Some Q" for Q
    using assms(2) by (simp add: encoding_laws_def)
  then have inject: "encode_point C 0 = encode_point C Q \<longleftrightarrow> Q = 0" for Q
    by (metis option.inject)
  have Ys: "eq_Y_0 p = encode_point C (smul C y_s (kp_public keys))"
      "eq_Y_1 p = encode_point C (smul C y_x (gen_G C) + smul C y_s (handle ct))"
      "eq_Y_2 p = encode_point C (pc_commit C y_x y_r)"
    using new by (auto simp: eq_new_with_scalar_def Let_def split: prod.splits)
  obtain c t1 where c: "challenge_scalar C M ''c'' (append_point M ''Y_2'' (eq_Y_2 p) (append_point M ''Y_1'' (eq_Y_1 p)
      (append_point M ''Y_0'' (eq_Y_0 p) (equality_proof_domain_separator M t)))) = (c, t1)" by force
  have z: "eq_z_s p = c * kp_private keys + y_s" "eq_z_x p = c * x + y_x" "eq_z_r p = c * r + y_r"
      "snd (challenge_scalar C M ''w'' t1) = t'"
    using new c by (auto simp: eq_new_with_scalar_def Let_def Ys split: prod.splits)
  moreover have "eq_challenges C M p t = Some (c, fst (challenge_scalar C M ''w'' (eq_append_responses C M p t1)), t')"
    using proper c by (simp add: eq_challenges_def eq_append_points_eq Ys inject z(4))
  moreover have "eq_decompress C p = (Inr (smul C y_s (kp_public keys), smul C y_x (gen_G C) + smul C y_s (handle ct),
      pc_commit C y_x y_r) :: 'e proof_verification_error + _)"
    by (simp add: eq_decompress_def result_defs Ys decode)
  ultimately show ?thesis using that by blast
qed

lemma eq_honest_residue:
  assumes "curve_laws C" and "gen_H C = smul C s P" and "decrypt_to_point C s ct = smul C x (gen_G C)"
    and "eq_z_s p = c * s + y_s" "eq_z_x p = c * x + y_x" "eq_z_r p = c * r + y_r"
  shows "eq_residue C p P ct (pc_commit C x r) c w
    (smul C y_s P, smul C y_x (gen_G C) + smul C y_s (handle ct), pc_commit C y_x y_r) = 0"
proof -
  have ct: "commitment ct = smul C x (gen_G C) + smul C s (handle ct)"
    using assms(3) by (simp add: decrypt_to_point_def diff_eq_eq)
  have "eq_residue_key C p P c (smul C y_s P) = 0"
    by (simp add: eq_residue_key_def assms(2,4) smul_algebra [OF assms(1)])
  moreover have "eq_residue_source C p ct c (smul C y_x (gen_G C) + smul C y_s (handle ct)) = 0"
    by (simp add: eq_residue_source_def assms(4,5) smul_algebra [OF assms(1)] ct)
  moreover have "eq_residue_destination C p (pc_commit C x r) c (pc_commit C y_x y_r) = 0"
    by (simp add: eq_residue_destination_def assms(5,6) commit_eq [OF assms(1)] smul_algebra [OF assms(1)])
  ultimately show ?thesis by (simp add: eq_residue_def smul_zero_right [OF assms(1)])
qed

text \<open>The random scalars give none of the three points the identity, which the verifiers reject.\<close>

definition rng_proper ::
  "('s, 'p::ab_group_add) curve \<Rightarrow> ('s, 'p) key_pair \<Rightarrow> 'p ciphertext \<Rightarrow> 's \<times> 's \<times> 's \<Rightarrow> bool" where
  "rng_proper C keys ct rng \<longleftrightarrow> (case rng of (y_s, y_x, y_r) \<Rightarrow> smul C y_s (kp_public keys) \<noteq> 0 \<and>
     smul C y_x (gen_G C) + smul C y_s (handle ct) \<noteq> 0 \<and> pc_commit C y_x y_r \<noteq> 0)"

lemma eq_complete:
  assumes "curve_laws C" and "encoding_laws C" and "gen_H C = smul C (kp_private keys) (kp_public keys)"
    and "decrypt_to_point C (kp_private keys) ct = smul C x (gen_G C)" and "rng_proper C keys ct rng"
    and new: "eq_new_with_scalar C M keys ct r x rng t = (p, t')"
  shows eq_complete_verify:
      "\<exists>t''. eq_verify C M p (kp_public keys) ct (pc_commit C x r) t = (Inr t'' :: 'e proof_verification_error + _)"
    and eq_complete_batch: "batch_ok b \<Longrightarrow> \<exists>b'. eq_pre_verify C M p (kp_public keys) ct (pc_commit C x r) bf (t, b) =
      (Inr (t', b') :: 'e proof_verification_error + _) \<and> batch_ok b' \<and> mega_check C b' = mega_check C b"
proof -
  obtain y_s y_x y_r where rng: "rng = (y_s, y_x, y_r)" by (cases rng)
  obtain c w where draws: "eq_challenges C M p t = Some (c, w, t')"
    "eq_decompress C p = (Inr (smul C y_s (kp_public keys), smul C y_x (gen_G C) + smul C y_s (handle ct),
      pc_commit C y_x y_r) :: 'e proof_verification_error + _)"
    and z: "eq_z_s p = c * kp_private keys + y_s" "eq_z_x p = c * x + y_x" "eq_z_r p = c * r + y_r"
    using eq_new_draws [OF assms(1,2) new [unfolded rng]] assms(5) unfolding rng rng_proper_def by auto
  note residue = eq_honest_residue [OF assms(1,3,4) z]
  note verified = eq_run_verify [OF assms(1) draws, where P = "kp_public keys" and ct = ct and dest = "pc_commit C x r"]
  note batched = eq_run_batch [OF assms(1) draws, where P = "kp_public keys" and ct = ct and dest = "pc_commit C x r"]
  show "\<exists>t''. eq_verify C M p (kp_public keys) ct (pc_commit C x r) t = (Inr t'' :: 'e proof_verification_error + _)"
    using verified by (simp add: residue)
  show "\<exists>b'. eq_pre_verify C M p (kp_public keys) ct (pc_commit C x r) bf (t, b) =
      (Inr (t', b') :: 'e proof_verification_error + _) \<and> batch_ok b' \<and> mega_check C b' = mega_check C b"
    if "batch_ok b"
    using batched [OF that] by (simp add: residue smul_zero_right [OF assms(1)])
qed

subsection \<open>Soundness\<close>

lemma quadratic_vanishes:
  assumes "curve_laws C" and "u \<noteq> v" "u \<noteq> w" "v \<noteq> w"
    and roots: "\<And>a. a \<in> {u, v, w} \<Longrightarrow> X + smul C a Y + smul C (a * a) Z = 0"
  shows "X = 0" "Y = 0" "Z = 0"
proof -
  have diff: "smul C (a - b) (Y + smul C (a + b) Z) = 0" if "a \<in> {u, v, w}" "b \<in> {u, v, w}" for a b
  proof -
    have "smul C (a - b) (Y + smul C (a + b) Z) =
        (X + smul C a Y + smul C (a * a) Z) - (X + smul C b Y + smul C (b * b) Z)"
      by (simp add: smul_algebra [OF assms(1)] algebra_simps)
    then show ?thesis using roots [OF that(1)] roots [OF that(2)] by simp
  qed
  have "Y + smul C (u + v) Z = 0" "Y + smul C (u + w) Z = 0"
    using diff [of u v] diff [of u w] assms(2,3) by (simp_all add: smul_eq_0 [OF assms(1)])
  then have "smul C (v - w) Z = 0"
    by (simp add: smul_algebra [OF assms(1)]) (metis add_left_cancel add.assoc)
  then show Z: "Z = 0" using assms(4) by (simp add: smul_eq_0 [OF assms(1)])
  show Y: "Y = 0" using \<open>Y + smul C (u + v) Z = 0\<close> by (simp add: Z smul_zero_right [OF assms(1)])
  show "X = 0" using roots [of u] by (simp add: Y Z smul_zero_right [OF assms(1)])
qed

text \<open>Two linear equations with different challenges are solved for the point they share.\<close>

lemma solve_challenges:
  assumes "curve_laws C" and "c \<noteq> d"
    and "A - smul C c X - Y = 0" and "B - smul C d X - Y = 0"
  shows "X = smul C (inverse (c - d)) (A - B)"
proof -
  have "A - B = smul C (c - d) X"
    using assms(3,4) by (simp add: smul_diff_left [OF assms(1)] algebra_simps)
  then show ?thesis using assms(2) by (simp add: smul_smul [OF assms(1)] smul_one [OF assms(1)])
qed

definition eq_statement ::
  "('s, 'p::ab_group_add) curve \<Rightarrow> 'p \<Rightarrow> 'p ciphertext \<Rightarrow> 'p \<Rightarrow> 's \<Rightarrow> 's \<Rightarrow> 's \<Rightarrow> bool" where
  "eq_statement C P ct dest s x r \<longleftrightarrow> gen_H C = smul C s P \<and>
     decrypt_to_point C s ct = smul C x (gen_G C) \<and> dest = pc_commit C x r"

lemma eq_extract:
  assumes "curve_laws C" and "c \<noteq> d"
    and p: "eq_residue_key C p P c Y_0 = 0" "eq_residue_source C p ct c Y_1 = 0" "eq_residue_destination C p dest c Y_2 = 0"
    and q: "eq_residue_key C q P d Y_0 = 0" "eq_residue_source C q ct d Y_1 = 0" "eq_residue_destination C q dest d Y_2 = 0"
  shows "eq_statement C P ct dest ((eq_z_s p - eq_z_s q) / (c - d)) ((eq_z_x p - eq_z_x q) / (c - d))
    ((eq_z_r p - eq_z_r q) / (c - d))"
proof -
  note solve = solve_challenges [OF assms(1,2)]
  have "gen_H C = smul C (inverse (c - d)) (smul C (eq_z_s p) P - smul C (eq_z_s q) P)"
    by (rule solve [OF p(1) [unfolded eq_residue_key_def] q(1) [unfolded eq_residue_key_def]])
  moreover have "commitment ct = smul C (inverse (c - d)) (smul C (eq_z_x p) (gen_G C) + smul C (eq_z_s p) (handle ct) -
      (smul C (eq_z_x q) (gen_G C) + smul C (eq_z_s q) (handle ct)))"
    by (rule solve [OF p(2) [unfolded eq_residue_source_def] q(2) [unfolded eq_residue_source_def]])
  moreover have "dest = smul C (inverse (c - d)) (smul C (eq_z_x p) (gen_G C) + smul C (eq_z_r p) (gen_H C) -
      (smul C (eq_z_x q) (gen_G C) + smul C (eq_z_r q) (gen_H C)))"
    by (rule solve [OF p(3) [unfolded eq_residue_destination_def] q(3) [unfolded eq_residue_destination_def]])
  ultimately show ?thesis
    by (simp add: eq_statement_def decrypt_to_point_def commit_eq [OF assms(1)] smul_algebra [OF assms(1)]
        divide_inverse algebra_simps)
qed

lemma eq_three_runs:
  assumes "curve_laws C"
    and runs: "\<forall>j<3. \<exists>t'. eq_verify C (M j) p P ct dest (t j) = (Inr t' :: 'e proof_verification_error + 't)"
    and draws: "\<forall>j<3. \<exists>t'. eq_challenges C (M j) p (t j) = Some (c, w j, t')"
    and "inj_on w {..<3 :: nat}"
  obtains Y_0 Y_1 Y_2 where "decode_point C (eq_Y_0 p) = Some Y_0" "decode_point C (eq_Y_1 p) = Some Y_1"
    "decode_point C (eq_Y_2 p) = Some Y_2" "eq_residue_key C p P c Y_0 = 0" "eq_residue_source C p ct c Y_1 = 0"
    "eq_residue_destination C p dest c Y_2 = 0"
proof -
  have accepted: "\<exists>Y_0 Y_1 Y_2. decode_point C (eq_Y_0 p) = Some Y_0 \<and> decode_point C (eq_Y_1 p) = Some Y_1 \<and>
      decode_point C (eq_Y_2 p) = Some Y_2 \<and> eq_residue C p P ct dest c (w j) (Y_0, Y_1, Y_2) = 0" if j: "j < 3" for j
  proof -
    obtain t' where ok: "eq_verify C (M j) p P ct dest (t j) = (Inr t' :: 'e proof_verification_error + 't)"
      using runs j by blast
    obtain t'' where drawn: "eq_challenges C (M j) p (t j) = Some (c, w j, t'')" using draws j by blast
    show ?thesis by (rule eq_verify_accepts [OF assms(1) ok]) (simp add: drawn)
  qed
  obtain Y_0 Y_1 Y_2 where Ys: "decode_point C (eq_Y_0 p) = Some Y_0" "decode_point C (eq_Y_1 p) = Some Y_1"
      "decode_point C (eq_Y_2 p) = Some Y_2"
    using accepted [of 0] by auto
  have zero: "eq_residue C p P ct dest c (w j) (Y_0, Y_1, Y_2) = 0" if "j < 3" for j
    using accepted [OF that] Ys by simp
  have distinct: "w 0 \<noteq> w 1" "w 0 \<noteq> w 2" "w 1 \<noteq> w 2"
    by (simp_all add: inj_on_eq_iff [OF assms(4)])
  have "eq_residue_key C p P c Y_0 + smul C a (eq_residue_source C p ct c Y_1) +
      smul C (a * a) (eq_residue_destination C p dest c Y_2) = 0" if "a \<in> {w 0, w 1, w 2}" for a
    using that zero by (auto simp: eq_residue_def)
  from quadratic_vanishes [OF assms(1) distinct this] that [OF Ys] show ?thesis by blast
qed

subsection \<open>Balances proved with a known key\<close>

lemma key_pair_generates:
  assumes "curve_laws C" and "key_pair_from_private_key C secret = Some keys"
  shows "gen_H C = smul C (kp_private keys) (kp_public keys)" "kp_private keys = secret"
    "public_key_new C secret = Some (kp_public keys)"
  using assms by (auto simp: key_pair_from_private_key_def public_key_new_def smul_algebra split: if_splits)

lemma decrypt_sub_encrypted:
  assumes "curve_laws C" and "public_key_new C secret = Some key" and "decrypt_to_point C secret ct = smul C x (gen_G C)"
  shows "decrypt_to_point C secret (ciphertext_sub ct (encrypt_with_opening C key y r)) = smul C (x - y) (gen_G C)"
proof -
  have "decrypt_to_point C secret (ciphertext_sub ct d) = decrypt_to_point C secret ct - decrypt_to_point C secret d" for d
    by (simp add: decrypt_to_point_def ciphertext_sub_def smul_algebra [OF assms(1)])
  then show ?thesis
    by (simp add: decrypt_encrypt [OF assms(1,2)] assms(3) smul_diff_left [OF assms(1)])
qed

lemma scalar_from_diff:
  assumes "a \<le> b"
  shows "scalar_from (b - a) = (scalar_from b - scalar_from a :: 's::field)"
  using assms by (simp add: scalar_from_def unat_sub word_le_nat_alt of_nat_diff)

lemma balance_proof_complete:
  assumes "curve_laws C" and "encoding_laws C" and "key_pair_from_private_key C secret = Some keys"
    and "decrypt_to_point C secret ct = smul C (scalar_from amount) (gen_G C)"
    and "rng_proper C keys (ciphertext_sub ct (encrypt_with_opening C (kp_public keys) (scalar_from amount) OPENING)) rng"
  shows "balance_verify C M (balance_new C M keys amount ct rng) (kp_public keys) ct bf =
    (Inr () :: 'e proof_verification_error + unit)"
proof -
  note keys = key_pair_generates [OF assms(1,3)]
  let ?ct = "ciphertext_sub ct (encrypt_with_opening C (kp_public keys) (scalar_from amount) OPENING)"
  let ?t = "append_ciphertext M ''source_ct'' (compress_ciphertext C ct) (append_u64 M (label ''amount'') amount
    (balance_proof_domain_separator M (transcript_new M (label ''balance_proof''))))"
  have zero: "decrypt_to_point C (kp_private keys) ?ct = smul C 0 (gen_G C)"
    using decrypt_sub_encrypted [OF assms(1) keys(3) assms(4)] by (simp add: keys(2))
  obtain p t' where new: "eq_new_with_scalar C M keys ?ct OPENING 0 rng ?t = (p, t')" by force
  then have p: "balance_new C M keys amount ct rng = \<lparr>bp_amount = amount, bp_commitment_eq_proof = p\<rparr>"
    by (simp add: balance_new_def balance_prove_def eq_new_def Let_def scalar_from_def)
  obtain b' where "eq_pre_verify C M p (kp_public keys) ?ct (pc_commit C 0 OPENING) bf (?t, batch_collector_default) =
      (Inr (t', b') :: 'e proof_verification_error + _)" "mega_check C b' = 0"
    using eq_complete_batch [OF assms(1,2) keys(1) zero assms(5) new mega_check_default(2) [OF assms(1)]]
    by (auto simp: mega_check_default [OF assms(1)])
  then show ?thesis
    by (simp add: p balance_verify_def balance_pre_verify_def commitment_new_with_opening_def Let_def and_then_def batch_verify_def)
qed

text \<open>
  What the \<open>bulletproofs\<close> documentation promises of an honest prover: a proof for a 64-bit value
  comes with the commitment to it and verifies on a transcript in the state the prover began with.
\<close>

definition range_complete ::
  "('s::field, 'p) curve \<Rightarrow> ('s, 'p, 't, 'r, 'e) range_prover \<Rightarrow> bool" where
  "range_complete C R \<longleftrightarrow> (\<forall>t v r. \<exists>p t1 t2. let P = pc_commit C (scalar_from v) r in
     prove_single R t v r BULLET_PROOF_SIZE = Inr ((p, encode_point C P), t1) \<and>
     verify_single R p t (P, encode_point C P) BULLET_PROOF_SIZE = Inr t2)"

subsection \<open>The equations of the validity proof\<close>

definition cv_residue_receiver ::
  "('s::field, 'p::ab_group_add) curve \<Rightarrow> 's ciphertext_validity_proof \<Rightarrow> 'p \<Rightarrow> 'p \<Rightarrow> 'p \<Rightarrow> 's \<Rightarrow> 's \<Rightarrow> 'p \<Rightarrow> 'p \<Rightarrow> 'p" where
  "cv_residue_receiver C p commit P_dest D_dest c w Y_0 Y_1 =
     smul C (cv_z_x p) (gen_G C) + smul C (cv_z_r p) (gen_H C) - smul C c commit - Y_0 +
     smul C w (smul C (cv_z_r p) P_dest - smul C c D_dest - Y_1)"

definition cv_residue_sender ::
  "('s::field, 'p::ab_group_add) curve \<Rightarrow> 's ciphertext_validity_proof \<Rightarrow> 'p \<Rightarrow> 'p \<Rightarrow> 's \<Rightarrow> 's \<Rightarrow> 'p option \<Rightarrow> 'p" where
  "cv_residue_sender C p P_source D_source c w Y_2 = (case Y_2 of None \<Rightarrow> 0
     | Some Y_2 \<Rightarrow> smul C (w * w) (smul C (cv_z_r p) P_source - smul C c D_source - Y_2))"

definition cv_challenges ::
  "('s, 'p::ab_group_add) curve \<Rightarrow> 't merlin \<Rightarrow> 's ciphertext_validity_proof \<Rightarrow> bool \<Rightarrow> 't \<Rightarrow> ('s \<times> 's \<times> 't) option" where
  "cv_challenges C M p check_y_2 t =
     (case cv_append_points C M p check_y_2 (ciphertext_validity_proof_domain_separator M t) :: unit proof_verification_error + 't of
        Inl _ \<Rightarrow> None
      | Inr t \<Rightarrow> let (c, t) = challenge_scalar C M ''c'' t in
          Some (c, fst (challenge_scalar C M ''w'' (cv_append_responses C M p t)), snd (challenge_scalar C M ''w'' t)))"

lemma cv_append_points_eq:
  "cv_append_points C M p check_y_2 t =
     (if encode_point C 0 \<in> {cv_Y_0 p, cv_Y_1 p} \<union> set_option (if check_y_2 then cv_Y_2 p else None)
      then Inl (Transcript IdentityPoint)
      else let t = append_point M ''Y_1'' (cv_Y_1 p) (append_point M ''Y_0'' (cv_Y_0 p) t) in
        Inr (case (if check_y_2 then cv_Y_2 p else None) of Some Y_2 \<Rightarrow> append_point M ''Y_2'' Y_2 t | None \<Rightarrow> t))"
  by (auto simp: cv_append_points_def validate_and_append_point_def result_defs append_point_def Let_def
      split: option.split)

lemma cv_append_points_ok:
  "cv_append_points C M p k t = (Inr t1 :: 'e proof_verification_error + _) \<Longrightarrow>
     cv_append_points C M p k t = (Inr t1 :: 'f proof_verification_error + _)"
  unfolding cv_append_points_eq Let_def by (simp split: if_split_asm)

lemma cv_run_fails:
  assumes "cv_challenges C M p k t = None \<or> (\<exists>e. cv_decompress C p k = (Inl e :: 'e proof_verification_error + _))"
  shows "\<exists>e :: 'e proof_verification_error. cv_verify C M p commit P_dest P_source D_dest D_source k t = Inl e \<and>
    (\<forall>bf b. cv_pre_verify C M p commit P_dest P_source D_dest D_source k bf (t, b) = Inl e)"
proof (cases "cv_append_points C M p k (ciphertext_validity_proof_domain_separator M t) :: 'e proof_verification_error + _")
  case (Inl e)
  then show ?thesis by (simp add: cv_verify_def cv_pre_verify_def and_then_def)
next
  case (Inr t1)
  then have "cv_challenges C M p k t \<noteq> None"
    by (simp add: cv_challenges_def cv_append_points_ok [OF Inr] Let_def split: prod.split)
  then show ?thesis
    using assms Inr by (auto simp: cv_verify_def cv_pre_verify_def and_then_def Let_def split: prod.split)
qed

lemma cv_check_residue:
  assumes "curve_laws C"
  shows "multiscalar_mul C
      [cv_z_r p, cv_z_x p, - c, - 1, w * cv_z_r p, - w * c, - w]
      [gen_H C, gen_G C, commit, Y_0, P_dest, D_dest, Y_1] =
    cv_residue_receiver C p commit P_dest D_dest c w Y_0 Y_1"
    and "multiscalar_mul C
      [cv_z_r p, cv_z_x p, - c, - 1, w * cv_z_r p, - w * c, - w, w * w * cv_z_r p, - (w * w) * c, - (w * w)]
      [gen_H C, gen_G C, commit, Y_0, P_dest, D_dest, Y_1, P_source, D_source, Y_2] =
    cv_residue_receiver C p commit P_dest D_dest c w Y_0 Y_1 + cv_residue_sender C p P_source D_source c w (Some Y_2)"
  by (simp_all add: cv_residue_receiver_def cv_residue_sender_def smul_algebra [OF assms] algebra_simps)

lemma cv_batch_residue:
  assumes "curve_laws C"
  shows "multiscalar_mul C (map (\<lambda>s. s * bf) [- c, - 1, w * cv_z_r p, - w * c, - w]) [commit, Y_0, P_dest, D_dest, Y_1] +
      smul C (cv_z_x p * bf) (gen_G C) + smul C (cv_z_r p * bf) (gen_H C) =
    smul C bf (cv_residue_receiver C p commit P_dest D_dest c w Y_0 Y_1)"
    and "multiscalar_mul C [w * (w * cv_z_r p), w * (- w * c), w * - w] [P_source, D_source, Y_2] =
    cv_residue_sender C p P_source D_source c w (Some Y_2)"
  by (simp_all add: cv_residue_receiver_def cv_residue_sender_def smul_algebra [OF assms] algebra_simps)

lemma mega_check_extend_points:
  assumes "batch_ok b" and "length ss = length ps"
  shows "mega_check C (b\<lparr>dynamic_scalars := dynamic_scalars b @ ss, dynamic_points := dynamic_points b @ ps\<rparr>) =
    mega_check C b + multiscalar_mul C ss ps"
  using assms by (simp add: mega_check_def batch_ok_def multiscalar_mul_append)

lemma cv_challenges_run:
  assumes "cv_challenges C M p k t = Some (c, w, t2)"
  obtains t0 t1 t3 u where "cv_append_points C M p k (ciphertext_validity_proof_domain_separator M t) =
      (Inr t0 :: 'e proof_verification_error + _)"
    and "challenge_scalar C M ''c'' t0 = (c, t1)" "challenge_scalar C M ''w'' (cv_append_responses C M p t1) = (w, t3)"
      "challenge_scalar C M ''w'' t1 = (u, t2)"
proof -
  obtain t0 t1 where "cv_append_points C M p k (ciphertext_validity_proof_domain_separator M t) =
      (Inr t0 :: unit proof_verification_error + _)" "challenge_scalar C M ''c'' t0 = (c, t1)"
    "fst (challenge_scalar C M ''w'' (cv_append_responses C M p t1)) = w" "snd (challenge_scalar C M ''w'' t1) = t2"
    using assms by (auto simp: cv_challenges_def split: sum.splits prod.splits)
  then show ?thesis
    using that [of t0 t1] cv_append_points_ok [where 'f = 'e] by (metis prod.collapse)
qed

lemma cv_run_verify:
  assumes "curve_laws C" and "cv_challenges C M p k t = Some (c, w, t2)"
    and Inr: "cv_decompress C p k = (Inr (Y_0, Y_1, Y_2) :: 'e proof_verification_error + _)"
  shows "\<exists>t1. cv_verify C M p commit P_dest P_source D_dest D_source k t =
      (if cv_residue_receiver C p commit P_dest D_dest c w Y_0 Y_1 + cv_residue_sender C p P_source D_source c w Y_2 = 0
       then Inr t1 else Inl (CiphertextValidityProof :: 'e proof_verification_error))"
proof -
  obtain t0 t1 t3 u where run: "cv_append_points C M p k (ciphertext_validity_proof_domain_separator M t) =
      (Inr t0 :: 'e proof_verification_error + _)" "challenge_scalar C M ''c'' t0 = (c, t1)"
      "challenge_scalar C M ''w'' (cv_append_responses C M p t1) = (w, t3)" "challenge_scalar C M ''w'' t1 = (u, t2)"
    using cv_challenges_run [OF assms(2)] by metis
  note step = run and_then_def Let_def Inr
  have "cv_verify C M p commit P_dest P_source D_dest D_source k t =
      (if cv_residue_receiver C p commit P_dest D_dest c w Y_0 Y_1 + cv_residue_sender C p P_source D_source c w Y_2 = 0
       then Inr t3 else (Inl CiphertextValidityProof :: 'e proof_verification_error + _))"
  proof (cases Y_2)
    case None
    then show ?thesis
      unfolding cv_verify_def Let_def
      by (simp add: step cv_check_residue [OF assms(1), symmetric]) (simp add: cv_residue_sender_def)
  next
    case (Some Y)
    then show ?thesis
      unfolding cv_verify_def Let_def by (simp add: step cv_check_residue(2) [OF assms(1), symmetric])
  qed
  then show ?thesis by blast
qed

lemma cv_run_batch:
  assumes "curve_laws C" and "cv_challenges C M p k t = Some (c, w, t2)"
    and Inr: "cv_decompress C p k = (Inr (Y_0, Y_1, Y_2) :: 'e proof_verification_error + _)" and b: "batch_ok b"
  shows "\<exists>b'. cv_pre_verify C M p commit P_dest P_source D_dest D_source k bf (t, b) =
        (Inr (t2, b') :: 'e proof_verification_error + _) \<and> batch_ok b' \<and>
        mega_check C b' = mega_check C b + smul C bf (cv_residue_receiver C p commit P_dest D_dest c w Y_0 Y_1) +
          cv_residue_sender C p P_source D_source c w Y_2"
proof -
  obtain t0 t1 t3 u where run: "cv_append_points C M p k (ciphertext_validity_proof_domain_separator M t) =
      (Inr t0 :: 'e proof_verification_error + _)" "challenge_scalar C M ''c'' t0 = (c, t1)"
      "challenge_scalar C M ''w'' (cv_append_responses C M p t1) = (w, t3)" "challenge_scalar C M ''w'' t1 = (u, t2)"
    using cv_challenges_run [OF assms(2)] by metis
  note step = run and_then_def Let_def Inr
  let ?b = "b\<lparr>g_scalar := g_scalar b + cv_z_x p * bf, h_scalar := h_scalar b + cv_z_r p * bf,
    dynamic_scalars := dynamic_scalars b @ map (\<lambda>s. s * bf) [- c, - 1, w * cv_z_r p, - w * c, - w],
    dynamic_points := dynamic_points b @ [commit, Y_0, P_dest, D_dest, Y_1]\<rparr>"
  let ?b' = "case Y_2 of
      Some Y_2 \<Rightarrow> ?b\<lparr>dynamic_scalars := dynamic_scalars ?b @ [w * (w * cv_z_r p), w * (- w * c), w * - w],
                   dynamic_points := dynamic_points ?b @ [P_source, D_source, Y_2]\<rparr>
    | None \<Rightarrow> ?b"
  show ?thesis
  proof (intro exI conjI)
    show "cv_pre_verify C M p commit P_dest P_source D_dest D_source k bf (t, b) =
        (Inr (t2, ?b') :: 'e proof_verification_error + _)"
      unfolding cv_pre_verify_def Let_def by (simp add: step)
    have ok: "batch_ok ?b" using b by (simp add: batch_ok_def)
    then show "batch_ok ?b'" by (simp add: batch_ok_def split: option.split)
    have "mega_check C ?b = mega_check C b + smul C bf (cv_residue_receiver C p commit P_dest D_dest c w Y_0 Y_1)"
      unfolding cv_batch_residue(1) [OF assms(1), symmetric] by (rule mega_check_extend [OF assms(1) b]) simp
    moreover have "mega_check C ?b' = mega_check C ?b + cv_residue_sender C p P_source D_source c w Y_2"
    proof (cases Y_2)
      case None
      then show ?thesis by (simp add: cv_residue_sender_def)
    next
      case (Some Y)
      show ?thesis
        unfolding Some option.case cv_batch_residue(2) [OF assms(1), symmetric]
        by (rule mega_check_extend_points [OF ok]) simp
    qed
    ultimately show "mega_check C ?b' = mega_check C b +
        smul C bf (cv_residue_receiver C p commit P_dest D_dest c w Y_0 Y_1) + cv_residue_sender C p P_source D_source c w Y_2"
      by simp
  qed
qed

subsection \<open>Wire formats\<close>

definition eq_proof_ok :: "'s commitment_eq_proof \<Rightarrow> bool" where
  "eq_proof_ok p \<longleftrightarrow> point_ok (eq_Y_0 p) \<and> point_ok (eq_Y_1 p) \<and> point_ok (eq_Y_2 p)"

lemma eq_proof_serializer:
  fixes C :: "('s, 'p) curve"
  assumes "scalar_encoding_laws C"
  shows "strict_serializer (write_commitment_eq_proof C) (read_commitment_eq_proof C) size_commitment_eq_proof eq_proof_ok"
proof -
  note sc = scalar_serializer [OF assms]
  note ser = strict_serializer.axioms(1) [OF sc]
  note bytes = write_commitment_eq_proof_def codec_simps point.write_append serializer.write_append [OF ser]
  show ?thesis
  proof
    show "accepts (read_commitment_eq_proof C) (\<lambda>p bs. eq_proof_ok p \<and> bs = to_bytes (write_commitment_eq_proof C p))"
      unfolding read_commitment_eq_proof_def
      by (intro accepts_bindI [OF point.read_strict] accepts_bindI [OF strict_serializer.read_strict [OF sc]] accepts_return)
        (auto simp: eq_proof_ok_def bytes)
    show "reads (read_commitment_eq_proof C) p (to_bytes (write_commitment_eq_proof C p))" if "eq_proof_ok p" for p
      using that unfolding read_commitment_eq_proof_def
      by (auto simp: eq_proof_ok_def bytes intro!: reads_bind [OF point.read_write] reads_bind [OF serializer.read_write [OF ser]]
          reads_bind_return [OF serializer.read_write [OF ser]])
    show "size_commitment_eq_proof p = length (to_bytes (write_commitment_eq_proof C p))" if "eq_proof_ok p" for p
      using that by (simp add: eq_proof_ok_def bytes size_commitment_eq_proof_def size_point_def size_scalar_def
          flip: point.size_write serializer.size_write [OF ser])
    show "reader_safe (read_commitment_eq_proof C)"
      unfolding read_commitment_eq_proof_def by (intro codec_intros point.read_safe serializer.read_safe [OF ser])
  qed (simp add: bytes)
qed

definition cv_proof_ok :: "'s ciphertext_validity_proof \<Rightarrow> bool" where
  "cv_proof_ok p \<longleftrightarrow> point_ok (cv_Y_0 p) \<and> point_ok (cv_Y_1 p) \<and> (\<exists>Y. cv_Y_2 p = Some Y \<and> point_ok Y)"

lemma cv_proof_serializer:
  fixes C :: "('s, 'p) curve"
  assumes "scalar_encoding_laws C"
  shows "strict_serializer (write_ciphertext_validity_proof C) (read_ciphertext_validity_proof C v)
    size_ciphertext_validity_proof cv_proof_ok"
proof -
  note sc = scalar_serializer [OF assms]
  note ser = strict_serializer.axioms(1) [OF sc]
  have id: "append_only id" "to_bytes id = []" by (simp_all add: append_only_def to_bytes_def writer_new_def)
  note bytes = write_ciphertext_validity_proof_def codec_simps point.write_append serializer.write_append [OF ser] id
  have read: "read_ciphertext_validity_proof C v = rbind read_point (\<lambda>Y_0. rbind read_point (\<lambda>Y_1.
      rbind (rbind read_point (\<lambda>Y_2. rreturn (Some Y_2))) (\<lambda>Y_2. rbind (read_scalar C) (\<lambda>z_r. rbind (read_scalar C) (\<lambda>z_x.
      rreturn \<lparr>cv_Y_0 = Y_0, cv_Y_1 = Y_1, cv_Y_2 = Y_2, cv_z_r = z_r, cv_z_x = z_x\<rparr>)))))"
    by (cases v) (simp add: read_ciphertext_validity_proof_def)
  have opt: "accepts (rbind read_point (\<lambda>Y. rreturn (Some Y))) (\<lambda>x bs. \<exists>Y. x = Some Y \<and> point_ok Y \<and> bs = to_bytes (write_point Y))"
    by (intro accepts_bindI [OF point.read_strict] accepts_return) auto
  show ?thesis
  proof
    show "accepts (read_ciphertext_validity_proof C v) (\<lambda>p bs. cv_proof_ok p \<and> bs = to_bytes (write_ciphertext_validity_proof C p))"
      unfolding read
      by (intro accepts_bindI [OF point.read_strict] accepts_bindI [OF opt]
          accepts_bindI [OF strict_serializer.read_strict [OF sc]] accepts_return)
        (auto simp: cv_proof_ok_def bytes)
    show "reads (read_ciphertext_validity_proof C v) p (to_bytes (write_ciphertext_validity_proof C p))" if "cv_proof_ok p" for p
      using that unfolding read
      by (auto simp: cv_proof_ok_def bytes intro!: reads_bind [OF point.read_write] reads_bind [OF reads_bind_return [OF point.read_write]]
          reads_bind [OF serializer.read_write [OF ser]] reads_bind_return [OF serializer.read_write [OF ser]])
    show "size_ciphertext_validity_proof p = length (to_bytes (write_ciphertext_validity_proof C p))" if "cv_proof_ok p" for p
      using that by (auto simp: cv_proof_ok_def bytes size_ciphertext_validity_proof_def size_point_def size_scalar_def
          simp flip: point.size_write serializer.size_write [OF ser])
    show "reader_safe (read_ciphertext_validity_proof C v)"
      unfolding read by (intro codec_intros point.read_safe serializer.read_safe [OF ser])
  qed (simp add: bytes split: option.split)
qed

text \<open>
  The sizes a range proof may have on the wire, and what the library promises of its bytes:
  decoding inverts encoding and accepts nothing else.
\<close>

definition range_proof_ok :: "('s, 'p, 't, 'r, 'e) range_prover \<Rightarrow> 'r \<Rightarrow> bool" where
  "range_proof_ok R p \<longleftrightarrow> (let n = length (range_to_bytes R p) in n mod 32 = 0 \<and> 288 \<le> n \<and> n \<le> 16672)"

definition range_encoding_laws :: "('s, 'p, 't, 'r, 'e) range_prover \<Rightarrow> bool" where
  "range_encoding_laws R \<longleftrightarrow> (\<forall>bs p. range_from_bytes R bs = Some p \<longleftrightarrow> range_to_bytes R p = bs)"

lemma next_power_510: "next_power_of_two (MAX_TRANSFER_COUNT * 2) = 512"
  by (simp add: next_power_of_two_def MAX_TRANSFER_COUNT_def)

lemma read_range_proof_eq:
  "read_range_proof R = rbind read_u16 (\<lambda>l. if unat l mod 32 = 0 \<and> 288 \<le> unat l \<and> unat l \<le> 16672
     then rbind (read_bytes_ref (unat l)) (\<lambda>bytes.
       case range_from_bytes R bytes of None \<Rightarrow> rfail InvalidValue | Some p \<Rightarrow> rreturn p)
     else rfail InvalidSize)"
proof -
  have "(n - 288) mod 32 = 0" if "n mod 32 = 0" "288 \<le> n" for n :: nat
    using that by (simp add: mod_eq_0_iff_dvd dvd_diff_nat)
  then show ?thesis
    by (auto simp: read_range_proof_def next_power_510 RISTRETTO_COMPRESSED_SIZE_def SCALAR_SIZE_def Let_def
        intro!: arg_cong [of _ _ "rbind read_u16"])
qed

lemma range_proof_serializer:
  assumes "range_encoding_laws R"
  shows "strict_serializer (write_range_proof R) (read_range_proof R) (size_range_proof R) (range_proof_ok R)"
proof
  have len: "unat (of_nat n :: u16) = n" if "n \<le> 16672" for n
    using that by (simp add: unat_of_nat take_bit_eq_mod)
  note laws = assms [unfolded range_encoding_laws_def, rule_format]
  have decode: "range_from_bytes R (range_to_bytes R p) = Some p" for p using laws by blast
  note bytes = write_range_proof_def Let_def codec_simps
  show "append_only (write_range_proof R p)" for p by (simp add: bytes)
  show "size_range_proof R p = length (to_bytes (write_range_proof R p))" if "range_proof_ok R p" for p
    by (simp add: bytes size_range_proof_def)
  show "reader_safe (read_range_proof R)"
    unfolding read_range_proof_eq by (auto intro!: codec_intros split: option.split)
  show "reads (read_range_proof R) p (to_bytes (write_range_proof R p))" if "range_proof_ok R p" for p
    using that unfolding read_range_proof_eq
    by (auto simp: bytes range_proof_ok_def len decode intro!: reads_bind [OF reads_read_u16] reads_bind_tail [OF reads_read_bytes_ref]
        reads_return)
  show "accepts (read_range_proof R) (\<lambda>p bs. range_proof_ok R p \<and> bs = to_bytes (write_range_proof R p))"
    unfolding read_range_proof_eq
    by (intro accepts_bindI [OF accepts_read_ints(1)] accepts_if accepts_bindI [OF accepts_read_bytes_ref] accepts_fail)
      (auto simp: laws range_proof_ok_def bytes intro!: accepts_return accepts_fail split: option.split)
qed

section \<open>A concrete instance\<close>

text \<open>
  The field of three elements as scalars and group, encoded in 32 bytes, and a transcript whose
  challenges are fixed in advance: the instance the witnesses run on.
\<close>

datatype gf3 = F0 | F1 | F2

instantiation gf3 :: field
begin

definition zero_gf3 :: gf3 where "zero_gf3 = F0"

definition one_gf3 :: gf3 where "one_gf3 = F1"

definition plus_gf3 :: "gf3 \<Rightarrow> gf3 \<Rightarrow> gf3" where
  "plus_gf3 a b = (case a of F0 \<Rightarrow> b | F1 \<Rightarrow> (case b of F0 \<Rightarrow> F1 | F1 \<Rightarrow> F2 | F2 \<Rightarrow> F0)
     | F2 \<Rightarrow> (case b of F0 \<Rightarrow> F2 | F1 \<Rightarrow> F0 | F2 \<Rightarrow> F1))"

definition uminus_gf3 :: "gf3 \<Rightarrow> gf3" where
  "uminus_gf3 a = (case a of F0 \<Rightarrow> F0 | F1 \<Rightarrow> F2 | F2 \<Rightarrow> F1)"

definition minus_gf3 :: "gf3 \<Rightarrow> gf3 \<Rightarrow> gf3" where
  "minus_gf3 a b = a + - b"

definition times_gf3 :: "gf3 \<Rightarrow> gf3 \<Rightarrow> gf3" where
  "times_gf3 a b = (case a of F0 \<Rightarrow> F0 | F1 \<Rightarrow> b | F2 \<Rightarrow> - b)"

definition inverse_gf3 :: "gf3 \<Rightarrow> gf3" where
  "inverse_gf3 a = a"

definition divide_gf3 :: "gf3 \<Rightarrow> gf3 \<Rightarrow> gf3" where
  "divide_gf3 a b = a * inverse b"

lemmas gf3_defs = zero_gf3_def one_gf3_def plus_gf3_def uminus_gf3_def minus_gf3_def times_gf3_def
  inverse_gf3_def divide_gf3_def

instance
  by intro_classes (auto simp: gf3_defs split: gf3.splits)

end

definition gf3_byte :: "gf3 \<Rightarrow> u8" where
  "gf3_byte a = (case a of F0 \<Rightarrow> 0 | F1 \<Rightarrow> 1 | F2 \<Rightarrow> 2)"

definition byte_gf3 :: "u8 \<Rightarrow> gf3 option" where
  "byte_gf3 b = (if b = 0 then Some F0 else if b = 1 then Some F1 else if b = 2 then Some F2 else None)"

definition gf3_encode :: "gf3 \<Rightarrow> u8 list" where
  "gf3_encode a = gf3_byte a # replicate 31 0"

definition gf3_decode :: "u8 list \<Rightarrow> gf3 option" where
  "gf3_decode bs = (if length bs = 32 \<and> tl bs = replicate 31 0 then byte_gf3 (hd bs) else None)"

definition gf3_curve :: "(gf3, gf3) curve" where
  "gf3_curve = \<lparr>smul = (*), gen_G = F1, gen_H = F1, pc_commit = (+), encode_point = gf3_encode,
     decode_point = gf3_decode, encode_scalar = gf3_encode, decode_scalar = gf3_decode,
     from_bytes_mod_order_wide = (\<lambda>bs. the (byte_gf3 (hd bs))), sha3_512 = id\<rparr>"

definition fixed_merlin :: "(gf3 \<times> gf3) merlin" where
  "fixed_merlin = \<lparr>transcript_new = (\<lambda>_. (F1, F1)), append_message = (\<lambda>_ _ t. t), append_u64 = (\<lambda>_ _ t. t),
     challenge_bytes = (\<lambda>l n t. (replicate n (gf3_byte (if l = label ''c'' then fst t else snd t)), t))\<rparr>"

definition empty_range :: "(gf3, gf3, gf3 \<times> gf3, unit, unit) range_prover" where
  "empty_range = \<lparr>prove_single = (\<lambda>t v r _. Inr (((), gf3_encode (scalar_from v + r)), t)),
     verify_single = (\<lambda>_ t _ _. Inr t), range_to_bytes = (\<lambda>_. []), range_from_bytes = (\<lambda>_. None)\<rparr>"

lemma gf3_decode_encode [simp]: "gf3_decode (gf3_encode a) = Some a"
  by (cases a) (simp_all add: gf3_decode_def gf3_encode_def gf3_byte_def byte_gf3_def)

lemma gf3_curve_laws: "curve_laws gf3_curve" "encoding_laws gf3_curve" "range_complete gf3_curve empty_range"
proof -
  show "curve_laws gf3_curve"
    by (auto simp: curve_laws_def gf3_curve_def algebra_simps gf3_defs split: gf3.split)
  have "gf3_encode a = bs" if "gf3_decode bs = Some a" for a bs
    using that by (cases bs) (auto simp: gf3_decode_def gf3_encode_def byte_gf3_def gf3_byte_def split: if_splits)
  then show "encoding_laws gf3_curve"
    by (simp add: encoding_laws_def gf3_curve_def) (simp add: gf3_encode_def)
  show "range_complete gf3_curve empty_range"
    by (simp add: range_complete_def gf3_curve_def empty_range_def)
qed

lemma challenge_fixed:
  "challenge_scalar gf3_curve fixed_merlin l t = (if label l = label ''c'' then fst t else snd t, t)"
proof -
  have "the (byte_gf3 (gf3_byte a)) = a" for a by (cases a) (simp_all add: byte_gf3_def gf3_byte_def)
  then show ?thesis by (simp add: challenge_scalar_def fixed_merlin_def gf3_curve_def hd_replicate)
qed

lemma append_fixed:
  "append_message fixed_merlin l bs t = t" "append_u64 fixed_merlin l v t = t"
  by (simp_all add: fixed_merlin_def)

lemma labels_differ: "label ''w'' \<noteq> label ''c''"
  by (simp add: label_def)

section \<open>Properties\<close>

text \<open>
  C25. Batched equality proofs. \<open>CommitmentEqProof::pre_verify\<close> and \<open>verify\<close> agree: either both
  end with the same error whatever the batch, or pre-verification adds to the check of the batch
  exactly the random batch factor times one point, which is the identity exactly when individual
  verification accepts; otherwise that returns \<open>CommitmentEqProof\<close>.
\<close>

theorem commitment_eq_batch_agrees:
  assumes "curve_laws C"
  shows "(\<exists>e :: 'e proof_verification_error. eq_verify C M p P ct dest t = Inl e \<and>
        (\<forall>bf b. eq_pre_verify C M p P ct dest bf (t, b) = Inl e)) \<or>
    (\<exists>E t1 t2. eq_verify C M p P ct dest t = (if E = 0 then Inr t1 else Inl (CommitmentEqProof :: 'e proof_verification_error)) \<and>
       (\<forall>bf b. batch_ok b \<longrightarrow> (\<exists>b'. eq_pre_verify C M p P ct dest bf (t, b) =
          (Inr (t2, b') :: 'e proof_verification_error + _) \<and> batch_ok b' \<and>
          mega_check C b' = mega_check C b + smul C bf E)))"
proof (cases rule: eq_run_cases [where C = C and M = M and p = p and P = P and ct = ct and dest = dest and t = t and 'e = 'e])
  case (runs c w t2 Ys)
  show ?thesis
    using eq_run_verify [OF assms runs, where P = P and ct = ct and dest = dest]
      eq_run_batch [OF assms runs, where P = P and ct = ct and dest = dest]
    by blast
qed blast

definition sample_eq_proof :: "gf3 \<Rightarrow> gf3 commitment_eq_proof" where
  "sample_eq_proof c = \<lparr>eq_Y_0 = gf3_encode F1, eq_Y_1 = gf3_encode F1, eq_Y_2 = gf3_encode F1,
     eq_z_s = c + F1, eq_z_x = c, eq_z_r = c + F1\<rparr>"

lemma sample_eq_draws:
  "eq_challenges gf3_curve fixed_merlin (sample_eq_proof a) (c, w) = Some (c, w, (c, w))"
  "eq_decompress gf3_curve (sample_eq_proof a) = (Inr (F1, F1, F1) :: 'e proof_verification_error + _)"
  by (simp_all add: eq_challenges_def eq_append_points_eq eq_decompress_def result_defs sample_eq_proof_def
      equality_proof_domain_separator_def append_point_def append_fixed challenge_fixed labels_differ
      eq_append_responses_def append_scalar_def)
    (simp_all add: gf3_curve_def gf3_encode_def gf3_byte_def zero_gf3_def gf3_decode_def byte_gf3_def)

lemma sample_eq_accepted:
  "\<exists>t'. eq_verify gf3_curve fixed_merlin (sample_eq_proof c) F1 \<lparr>commitment = F2, handle = F1\<rparr> F2 (c, w) =
     (Inr t' :: 'e proof_verification_error + _)"
proof -
  have "eq_residue gf3_curve (sample_eq_proof c) F1 \<lparr>commitment = F2, handle = F1\<rparr> F2 c w (F1, F1, F1) = 0"
    by (cases c; cases w) (simp_all add: eq_residue_defs gf3_curve_def sample_eq_proof_def gf3_defs)
  then show ?thesis
    using eq_run_verify [OF gf3_curve_laws(1) sample_eq_draws(1) [of c c w] sample_eq_draws(2) [of c], where P = F1
      and dest = F2 and 'e = 'e and ct = "\<lparr>commitment = F2, handle = F1\<rparr>"] by (simp del: split_paired_Ex)
qed

theorem commitment_eq_batch_agrees_witness:
  "\<exists>t' b'. eq_pre_verify gf3_curve fixed_merlin (sample_eq_proof F1) F1 \<lparr>commitment = F2, handle = F1\<rparr> F2 F2
      ((F1, F1), batch_collector_default) = (Inr (t', b') :: unit proof_verification_error + _) \<and>
    mega_check gf3_curve b' = 0"
  using commitment_eq_batch_agrees [OF gf3_curve_laws(1), where M = fixed_merlin and p = "sample_eq_proof F1" and P = F1
      and ct = "\<lparr>commitment = F2, handle = F1\<rparr>" and dest = F2 and t = "(F1, F1)" and 'e = unit]
    sample_eq_accepted [of F1 F1, where 'e = unit] mega_check_default [OF gf3_curve_laws(1)]
  by (fastforce simp: smul_zero_right [OF gf3_curve_laws(1)] split: if_splits)


text \<open>
  C24. Soundness of equality proofs. From proofs that share their three commitments and answer two
  different challenges, each accepted for three different values of the combining challenge, one
  computes the secret key of the public key, and an amount and opening such that the ciphertext
  decrypts to the amount the commitment holds: an accepted proof speaks about a ciphertext and a
  commitment of the same amount.
\<close>

theorem commitment_eq_sound:
  assumes "curve_laws C" and "c 0 \<noteq> c 1" and "\<forall>i<2. inj_on (w i) {..<3 :: nat}"
    and "eq_Y_0 (p 0) = eq_Y_0 (p 1)" "eq_Y_1 (p 0) = eq_Y_1 (p 1)" "eq_Y_2 (p 0) = eq_Y_2 (p 1)"
    and draws: "\<forall>i<2. \<forall>j<3. \<exists>t'. eq_challenges C (M i j) (p i) (t i j) = Some (c i, w i j, t')"
    and runs: "\<forall>i<2. \<forall>j<3. \<exists>t'. eq_verify C (M i j) (p i) P ct dest (t i j) = (Inr t' :: 'e proof_verification_error + 't)"
  shows "eq_statement C P ct dest ((eq_z_s (p 0) - eq_z_s (p 1)) / (c 0 - c 1))
    ((eq_z_x (p 0) - eq_z_x (p 1)) / (c 0 - c 1)) ((eq_z_r (p 0) - eq_z_r (p 1)) / (c 0 - c (1 :: nat)))"
proof -
  have three: "\<exists>Y_0 Y_1 Y_2. decode_point C (eq_Y_0 (p i)) = Some Y_0 \<and> decode_point C (eq_Y_1 (p i)) = Some Y_1 \<and>
      decode_point C (eq_Y_2 (p i)) = Some Y_2 \<and> eq_residue_key C (p i) P (c i) Y_0 = 0 \<and>
      eq_residue_source C (p i) ct (c i) Y_1 = 0 \<and> eq_residue_destination C (p i) dest (c i) Y_2 = 0" if "i < 2" for i
    using eq_three_runs [OF assms(1), of "M i" "p i" P ct dest "t i" "c i" "w i"] runs draws assms(3) that by metis
  obtain Y_0 Y_1 Y_2 where *: "decode_point C (eq_Y_0 (p 0)) = Some Y_0" "decode_point C (eq_Y_1 (p 0)) = Some Y_1"
      "decode_point C (eq_Y_2 (p 0)) = Some Y_2" "eq_residue_key C (p 0) P (c 0) Y_0 = 0"
      "eq_residue_source C (p 0) ct (c 0) Y_1 = 0" "eq_residue_destination C (p 0) dest (c 0) Y_2 = 0"
    using three [of 0] by auto
  moreover have "eq_residue_key C (p 1) P (c 1) Y_0 = 0" "eq_residue_source C (p 1) ct (c 1) Y_1 = 0"
      "eq_residue_destination C (p 1) dest (c 1) Y_2 = 0"
    using three [of 1] *(1-3) assms(4-6) by auto
  ultimately show ?thesis by (intro eq_extract [OF assms(1,2)])
qed

theorem commitment_eq_sound_witness:
  "eq_statement gf3_curve F1 \<lparr>commitment = F2, handle = F1\<rparr> F2 F1 F1 F1"
proof -
  let ?c = "\<lambda>i :: nat. if i = 0 then F0 else F1"
  let ?w = "\<lambda>(i :: nat) (j :: nat). [F0, F1, F2] ! j"
  have "inj_on (?w i) {..<3}" for i
    by (auto simp: inj_on_def lessThan_Suc numeral_3_eq_3)
  then have "eq_statement gf3_curve F1 \<lparr>commitment = F2, handle = F1\<rparr> F2
      ((eq_z_s (sample_eq_proof (?c 0)) - eq_z_s (sample_eq_proof (?c 1))) / (?c 0 - ?c 1))
      ((eq_z_x (sample_eq_proof (?c 0)) - eq_z_x (sample_eq_proof (?c 1))) / (?c 0 - ?c 1))
      ((eq_z_r (sample_eq_proof (?c 0)) - eq_z_r (sample_eq_proof (?c 1))) / (?c 0 - ?c 1))"
    by (intro commitment_eq_sound [OF gf3_curve_laws(1), where w = ?w and M = "\<lambda>_ _. fixed_merlin"
          and t = "\<lambda>i j. (?c i, ?w i j)" and p = "\<lambda>i. sample_eq_proof (?c i)" and c = ?c and 'e = unit])
      (auto simp: sample_eq_draws sample_eq_accepted simp del: split_paired_Ex, simp_all add: sample_eq_proof_def)
  then show ?thesis by (simp add: sample_eq_proof_def gf3_defs)
qed


text \<open>
  C26. Ownership proofs. Proving the ownership of an amount fails with the format error for amount
  zero and with the insufficient funds error for an amount above the balance; for any other amount
  of an account whose ciphertext decrypts to the balance, the proof is made and the verifier
  accepts it, whatever batch factor it draws, unless a random point is the identity.
\<close>

theorem ownership_proof_complete:
  assumes "curve_laws C" and "encoding_laws C" and "range_complete C R"
    and "key_pair_from_private_key C secret = Some keys"
    and "decrypt_to_point C secret ct = smul C (scalar_from balance) (gen_G C)"
    and "rng_proper C keys (ciphertext_sub ct (encrypt_with_opening C (kp_public keys) (scalar_from amount) OPENING)) rng"
    and "pc_commit C (scalar_from (balance - amount)) opening \<noteq> 0"
  shows "if amount = 0 then ownership_new C M R keys balance amount ct opening rng = Some (Inl FormatGeneration)
    else if balance < amount then
      ownership_new C M R keys balance amount ct opening rng = Some (Inl (InsufficientFunds amount balance))
    else \<exists>p. ownership_new C M R keys balance amount ct opening rng = Some (Inr p) \<and>
      ownership_verify C M R p (kp_public keys) ct bf = Inr ()"
proof -
  note keys = key_pair_generates [OF assms(1,4)]
  let ?left = "balance - amount"
  let ?P = "pc_commit C (scalar_from ?left) opening"
  let ?ct = "ciphertext_sub ct (encrypt_with_opening C (kp_public keys) (scalar_from amount) OPENING)"
  let ?t = "append_ciphertext M ''source_ct'' (compress_ciphertext C ct) (append_commitment M ''commitment'' (encode_point C ?P)
    (append_u64 M (label ''amount'') amount (ownership_proof_domain_separator M (transcript_new M (label ''ownership_proof'')))))"
  have "\<exists>p. ownership_new C M R keys balance amount ct opening rng = Some (Inr p) \<and>
      ownership_verify C M R p (kp_public keys) ct bf = Inr ()" if pos: "amount \<noteq> 0" and le: "\<not> balance < amount"
  proof -
    have decode: "decode_point C (encode_point C Q) = Some Q" for Q
      using assms(2) by (simp add: encoding_laws_def)
    have proper: "encode_point C ?P \<noteq> encode_point C 0"
      using assms(7) decode by (metis option.inject)
    have left: "decrypt_to_point C (kp_private keys) ?ct = smul C (scalar_from ?left) (gen_G C)"
      using decrypt_sub_encrypted [OF assms(1) keys(3) assms(5)] le by (simp add: keys(2) scalar_from_diff)
    obtain p t' where new: "eq_new_with_scalar C M keys ?ct opening (scalar_from ?left) rng ?t = (p, t')" by force
    obtain b' where pre: "eq_pre_verify C M p (kp_public keys) ?ct ?P bf (?t, batch_collector_default) =
        (Inr (t', b') :: 'e proof_verification_error + _)" "mega_check C b' = 0"
      using eq_complete_batch [OF assms(1,2) keys(1) left assms(6) new mega_check_default(2) [OF assms(1)]]
      by (auto simp: mega_check_default [OF assms(1)])
    obtain r t1 t2 where range: "prove_single R t' ?left opening BULLET_PROOF_SIZE = Inr ((r, encode_point C ?P), t1)"
        "verify_single R r t' (?P, encode_point C ?P) BULLET_PROOF_SIZE = Inr t2"
      using assms(3) unfolding range_complete_def Let_def by blast
    let ?p = "\<lparr>op_amount = amount, op_commitment = encode_point C ?P, op_commitment_eq_proof = p, op_range_proof = r\<rparr>"
    have "ownership_new C M R keys balance amount ct opening rng = Some (Inr ?p)"
      using pos le new range(1)
      by (simp add: ownership_new_def ownership_prove_def eq_new_def Let_def commitment_new_with_opening_def)
    moreover have "ownership_verify C M R ?p (kp_public keys) ct bf = Inr ()"
      using pos proper pre range(2)
      by (simp add: ownership_verify_def ownership_pre_verify_def validate_and_append_point_def decode Let_def result_defs
          batch_verify_def append_commitment_def)
    ultimately show ?thesis by blast
  qed
  then show ?thesis by (auto simp: ownership_new_def ownership_prove_def)
qed

theorem ownership_proof_complete_witness:
  "\<exists>p. ownership_new gf3_curve fixed_merlin empty_range \<lparr>kp_public = F1, kp_private = F1\<rparr> 1 1
      \<lparr>commitment = F2, handle = F1\<rparr> F1 (F1, F1, F1) = Some (Inr p) \<and>
    ownership_verify gf3_curve fixed_merlin empty_range p F1 \<lparr>commitment = F2, handle = F1\<rparr> F2 = Inr ()"
proof -
  let ?keys = "\<lparr>kp_public = F1, kp_private = F1\<rparr>" and ?ct = "\<lparr>commitment = F2, handle = F1\<rparr>"
  have keys: "key_pair_from_private_key gf3_curve F1 = Some ?keys"
    by (simp add: key_pair_from_private_key_def public_key_new_def gf3_curve_def gf3_defs)
  have balance: "decrypt_to_point gf3_curve F1 ?ct = smul gf3_curve (scalar_from 1) (gen_G gf3_curve)"
    by (simp add: decrypt_to_point_def gf3_curve_def scalar_from_def) (simp add: gf3_defs)
  have "rng_proper gf3_curve ?keys
      (ciphertext_sub ?ct (encrypt_with_opening gf3_curve (kp_public ?keys) (scalar_from 1) OPENING)) (F1, F1, F1)"
    by (simp add: rng_proper_def gf3_curve_def scalar_from_def ciphertext_sub_def encrypt_with_opening_def
        commitment_new_with_opening_def decrypt_handle_new_def OPENING_def gf3_defs)
  moreover have "pc_commit gf3_curve (scalar_from (1 - 1)) F1 \<noteq> 0"
    by (simp add: gf3_curve_def scalar_from_def gf3_defs)
  ultimately show ?thesis
    using ownership_proof_complete [OF gf3_curve_laws keys balance, of 1 "(F1, F1, F1)" F1 fixed_merlin F2] by simp
qed


text \<open>
  C27. Batched validity proofs. \<open>CiphertextValidityProof::pre_verify\<close> and \<open>verify\<close> either end with
  the same error, or individual verification accepts exactly when the receiver's residue and the
  sender's residue add up to the identity, while pre-verification adds to the check of the batch
  the receiver's residue times the random batch factor and the sender's residue as it is: the
  equation on the sender's handle is not randomised, so sender residues of different proofs of a
  batch can cancel.
\<close>

theorem validity_batch_contribution:
  assumes "curve_laws C"
  shows "(\<exists>e :: 'e proof_verification_error. cv_verify C M p commit P_dest P_source D_dest D_source k t = Inl e \<and>
      (\<forall>bf b. cv_pre_verify C M p commit P_dest P_source D_dest D_source k bf (t, b) = Inl e)) \<or>
    (\<exists>c w t2 Y_0 Y_1 Y_2. let E = cv_residue_receiver C p commit P_dest D_dest c w Y_0 Y_1;
          F = cv_residue_sender C p P_source D_source c w Y_2 in
       cv_challenges C M p k t = Some (c, w, t2) \<and>
       cv_decompress C p k = (Inr (Y_0, Y_1, Y_2) :: 'e proof_verification_error + _) \<and>
       (\<exists>t1. cv_verify C M p commit P_dest P_source D_dest D_source k t =
          (if E + F = 0 then Inr t1 else Inl (CiphertextValidityProof :: 'e proof_verification_error))) \<and>
       (\<forall>bf b. batch_ok b \<longrightarrow> (\<exists>b'. cv_pre_verify C M p commit P_dest P_source D_dest D_source k bf (t, b) =
          (Inr (t2, b') :: 'e proof_verification_error + _) \<and> batch_ok b' \<and>
          mega_check C b' = mega_check C b + smul C bf E + F)))"
proof (cases "cv_challenges C M p k t = None \<or> (\<exists>e. cv_decompress C p k = (Inl e :: 'e proof_verification_error + _))")
  case True
  then show ?thesis by (rule disjI1 [OF cv_run_fails])
next
  case False
  then obtain c w t2 Y_0 Y_1 Y_2 where *: "cv_challenges C M p k t = Some (c, w, t2)"
      "cv_decompress C p k = (Inr (Y_0, Y_1, Y_2) :: 'e proof_verification_error + _)"
    by (metis obj_sumE option.exhaust prod_cases3)
  show ?thesis
    unfolding Let_def
    using * cv_run_verify [OF assms *, where commit = commit and P_dest = P_dest and D_dest = D_dest and P_source = P_source
        and D_source = D_source]
      cv_run_batch [OF assms *, where commit = commit and P_dest = P_dest and D_dest = D_dest and P_source = P_source
        and D_source = D_source]
    by blast
qed

definition sample_cv_proof :: "gf3 ciphertext_validity_proof" where
  "sample_cv_proof = \<lparr>cv_Y_0 = gf3_encode F2, cv_Y_1 = gf3_encode F1, cv_Y_2 = Some (gf3_encode F1),
     cv_z_r = F2, cv_z_x = F2\<rparr>"

lemma sample_cv_draws:
  "cv_challenges gf3_curve fixed_merlin sample_cv_proof True (F1, F1) = Some (F1, F1, (F1, F1))"
  "cv_decompress gf3_curve sample_cv_proof True = (Inr (F2, F1, Some F1) :: 'e proof_verification_error + _)"
  by (simp_all add: cv_challenges_def cv_append_points_eq cv_decompress_def result_defs sample_cv_proof_def Let_def
      ciphertext_validity_proof_domain_separator_def append_point_def append_fixed challenge_fixed labels_differ
      cv_append_responses_def append_scalar_def)
    (simp_all add: gf3_curve_def gf3_encode_def gf3_byte_def zero_gf3_def gf3_decode_def byte_gf3_def)

text \<open>Two transfers with wrong sender handles, each rejected alone, pass together whatever the batch factors.\<close>

theorem validity_batch_contribution_witness:
  "cv_verify gf3_curve fixed_merlin sample_cv_proof F2 F1 F1 F1 F0 True (F1, F1) =
      (Inl CiphertextValidityProof :: unit proof_verification_error + _) \<and>
   cv_verify gf3_curve fixed_merlin sample_cv_proof F2 F1 F1 F1 F2 True (F1, F1) =
      (Inl CiphertextValidityProof :: unit proof_verification_error + _) \<and>
   (\<forall>bf bf'. \<exists>t b t' b'. cv_pre_verify gf3_curve fixed_merlin sample_cv_proof F2 F1 F1 F1 F0 True bf
        ((F1, F1), batch_collector_default) = (Inr (t, b) :: unit proof_verification_error + _) \<and>
      cv_pre_verify gf3_curve fixed_merlin sample_cv_proof F2 F1 F1 F1 F2 True bf' (t, b) =
        (Inr (t', b') :: unit proof_verification_error + _) \<and>
      batch_verify gf3_curve b' = (Inr () :: unit proof_verification_error + _))"
proof -
  note contribution = validity_batch_contribution [OF gf3_curve_laws(1), where M = fixed_merlin and p = sample_cv_proof
    and commit = F2 and P_dest = F1 and D_dest = F1 and P_source = F1 and k = True and t = "(F1, F1)" and 'e = unit]
  have residues: "cv_residue_receiver gf3_curve sample_cv_proof F2 F1 F1 F1 F1 F2 F1 = 0"
      "cv_residue_sender gf3_curve sample_cv_proof F1 F0 F1 F1 (Some F1) = F1"
      "cv_residue_sender gf3_curve sample_cv_proof F1 F2 F1 F1 (Some F1) = F2"
    by (simp_all add: cv_residue_receiver_def cv_residue_sender_def sample_cv_proof_def gf3_curve_def gf3_defs)
  have nonzero: "F1 \<noteq> 0" "F2 \<noteq> 0" by (simp_all add: zero_gf3_def)
  have run: "cv_verify gf3_curve fixed_merlin sample_cv_proof F2 F1 F1 F1 D True (F1, F1) =
        (Inl CiphertextValidityProof :: unit proof_verification_error + _) \<and>
      (\<forall>bf b. batch_ok b \<longrightarrow> (\<exists>b'. cv_pre_verify gf3_curve fixed_merlin sample_cv_proof F2 F1 F1 F1 D True bf ((F1, F1), b) =
        (Inr ((F1, F1), b') :: unit proof_verification_error + _) \<and> batch_ok b' \<and>
        mega_check gf3_curve b' = mega_check gf3_curve b + cv_residue_sender gf3_curve sample_cv_proof F1 D F1 F1 (Some F1)))"
    if "D = F0 \<or> D = F2" for D
  proof -
    obtain b' where "cv_pre_verify gf3_curve fixed_merlin sample_cv_proof F2 F1 F1 F1 D True 0 ((F1, F1), batch_collector_default) =
        (Inr ((F1, F1), b') :: unit proof_verification_error + _)"
      using cv_run_batch [OF gf3_curve_laws(1) sample_cv_draws mega_check_default(2) [OF gf3_curve_laws(1)], of F2 F1 F1 F1 D 0]
      by blast
    with contribution [of D] show ?thesis
      unfolding Let_def using that by (auto simp: sample_cv_draws residues smul_zero_right [OF gf3_curve_laws(1)] nonzero)
  qed
  have "F1 + F2 = 0" by (simp add: gf3_defs)
  have "\<exists>t b t' b'. cv_pre_verify gf3_curve fixed_merlin sample_cv_proof F2 F1 F1 F1 F0 True bf
        ((F1, F1), batch_collector_default) = (Inr (t, b) :: unit proof_verification_error + _) \<and>
      cv_pre_verify gf3_curve fixed_merlin sample_cv_proof F2 F1 F1 F1 F2 True bf' (t, b) =
        (Inr (t', b') :: unit proof_verification_error + _) \<and> mega_check gf3_curve b' = 0" for bf bf'
  proof -
    obtain b where b: "cv_pre_verify gf3_curve fixed_merlin sample_cv_proof F2 F1 F1 F1 F0 True bf
        ((F1, F1), batch_collector_default) = (Inr ((F1, F1), b) :: unit proof_verification_error + _)"
        "batch_ok b" "mega_check gf3_curve b = F1"
      using run [of F0] mega_check_default [OF gf3_curve_laws(1)] by (fastforce simp: residues)
    obtain b' where "cv_pre_verify gf3_curve fixed_merlin sample_cv_proof F2 F1 F1 F1 F2 True bf' ((F1, F1), b) =
        (Inr ((F1, F1), b') :: unit proof_verification_error + _)" "mega_check gf3_curve b' = F1 + F2"
      using run [of F2] b(2,3) by (fastforce simp: residues)
    then show ?thesis using b(1) \<open>F1 + F2 = 0\<close> by fastforce
  qed
  then show ?thesis using run [of F0] run [of F2] unfolding batch_verify_def by meson
qed

end
