(* ===== verification/Transactions.thy ===== *)
theory Transactions
  imports Proofs Energy
begin

text \<open>
  Transactions as they travel and as they are signed (\<open>common/src/transaction\<close>): the payloads, the
  transaction itself, their codecs, and the bytes a sender and the participants of a multisig
  account sign. Contract values and modules belong to the virtual machine: their types are
  variables, and a \<open>vm_codec\<close> record holds their \<open>Serializer\<close> implementations.
\<close>

section \<open>Limits and small types\<close>

definition EXTRA_DATA_LIMIT_SIZE :: usize where "EXTRA_DATA_LIMIT_SIZE = 1024"

definition EXTRA_DATA_LIMIT_SUM_SIZE :: usize where "EXTRA_DATA_LIMIT_SUM_SIZE = EXTRA_DATA_LIMIT_SIZE * 32"

definition MAX_DEPOSIT_PER_INVOKE_CALL :: usize where "MAX_DEPOSIT_PER_INVOKE_CALL = 255"

definition MAX_MULTISIG_PARTICIPANTS :: usize where "MAX_MULTISIG_PARTICIPANTS = 255"

datatype role = Sender | Receiver

datatype fee_type = FeeTOS | FeeEnergy

definition is_energy :: "fee_type \<Rightarrow> bool" where "is_energy f \<longleftrightarrow> f = FeeEnergy"

definition is_tos :: "fee_type \<Rightarrow> bool" where "is_tos f \<longleftrightarrow> f = FeeTOS"

definition write_fee_type :: "fee_type \<Rightarrow> writer \<Rightarrow> writer" where
  "write_fee_type f = write_u8 (case f of FeeTOS \<Rightarrow> 0 | FeeEnergy \<Rightarrow> 1)"

definition read_fee_type :: "fee_type rd" where
  "read_fee_type = rbind read_u8 (\<lambda>b.
     if b = 0 then rreturn FeeTOS else if b = 1 then rreturn FeeEnergy else rfail InvalidValue)"

definition size_fee_type :: "fee_type \<Rightarrow> usize" where "size_fee_type f = 1"

record reference =
  rf_hash :: hash
  rf_topoheight :: topoheight

definition write_reference :: "reference \<Rightarrow> writer \<Rightarrow> writer" where
  "write_reference r = writes [write_hash (rf_hash r), write_u64 (rf_topoheight r)]"

definition read_reference :: "reference rd" where
  "read_reference = rbind read_hash (\<lambda>h. rbind read_u64 (\<lambda>t. rreturn \<lparr>rf_hash = h, rf_topoheight = t\<rparr>))"

definition size_reference :: "reference \<Rightarrow> usize" where
  "size_reference r = size_hash (rf_hash r) + 8"

section \<open>Payloads\<close>

subsection \<open>Burn\<close>

record burn_payload =
  bn_asset :: hash
  bn_amount :: u64

definition write_burn_payload :: "burn_payload \<Rightarrow> writer \<Rightarrow> writer" where
  "write_burn_payload p = writes [write_hash (bn_asset p), write_u64 (bn_amount p)]"

definition read_burn_payload :: "burn_payload rd" where
  "read_burn_payload = rbind read_hash (\<lambda>a. rbind read_u64 (\<lambda>n. rreturn \<lparr>bn_asset = a, bn_amount = n\<rparr>))"

definition size_burn_payload :: "burn_payload \<Rightarrow> usize" where
  "size_burn_payload p = size_hash (bn_asset p) + 8"

subsection \<open>Setup of a multisig account\<close>

record multisig_payload =
  ms_threshold :: u8
  ms_participants :: "public_key list"

definition is_delete :: "multisig_payload \<Rightarrow> bool" where
  "is_delete p \<longleftrightarrow> ms_threshold p = 0 \<and> ms_participants p = []"

definition write_multisig_payload :: "multisig_payload \<Rightarrow> writer \<Rightarrow> writer" where
  "write_multisig_payload p = (if ms_threshold p \<noteq> 0
     then writes [write_u8 (ms_threshold p), write_u8 (of_nat (length (ms_participants p))),
       fold write_public_key (ms_participants p)]
     else write_u8 (ms_threshold p))"

definition read_multisig_payload :: "multisig_payload rd" where
  "read_multisig_payload = rbind read_u8 (\<lambda>threshold.
     if threshold = 0 then rreturn \<lparr>ms_threshold = threshold, ms_participants = []\<rparr>
     else rbind read_u8 (\<lambda>participants_len.
       if participants_len = 0 \<or> participants_len > of_nat MAX_MULTISIG_PARTICIPANTS then rfail InvalidSize
       else rbind (read_unique InvalidValue (unat participants_len) read_public_key []) (\<lambda>participants.
         rreturn \<lparr>ms_threshold = threshold, ms_participants = participants\<rparr>)))"

definition size_multisig_payload :: "multisig_payload \<Rightarrow> usize" where
  "size_multisig_payload p = 1 + 1 + sum_list (map size_public_key (ms_participants p))"

subsection \<open>Transfers\<close>

text \<open>\<open>UnknownExtraDataFormat\<close> is its bytes.\<close>

record 's transfer_payload =
  tr_asset :: hash
  tr_destination :: public_key
  tr_extra_data :: "u8 list option"
  tr_commitment :: compressed_point
  tr_sender_handle :: compressed_point
  tr_receiver_handle :: compressed_point
  tr_ct_validity_proof :: "'s ciphertext_validity_proof"

definition tr_get_ciphertext :: "role \<Rightarrow> 's transfer_payload \<Rightarrow> compressed_ciphertext" where
  "tr_get_ciphertext role p = \<lparr>ct_commitment = tr_commitment p,
     ct_handle = (case role of Receiver \<Rightarrow> tr_receiver_handle p | Sender \<Rightarrow> tr_sender_handle p)\<rparr>"

definition write_extra_data :: "u8 list \<Rightarrow> writer \<Rightarrow> writer" where
  "write_extra_data = write_vec write_u8"

definition read_extra_data :: "u8 list rd" where
  "read_extra_data = read_vec read_u8"

definition size_extra_data :: "u8 list \<Rightarrow> usize" where
  "size_extra_data = size_vec (\<lambda>_. 1)"

definition write_transfer_payload :: "('s, 'p) curve \<Rightarrow> 's transfer_payload \<Rightarrow> writer \<Rightarrow> writer" where
  "write_transfer_payload C p = writes [write_hash (tr_asset p), write_public_key (tr_destination p),
     write_option write_extra_data (tr_extra_data p), write_point (tr_commitment p),
     write_point (tr_sender_handle p), write_point (tr_receiver_handle p),
     write_ciphertext_validity_proof C (tr_ct_validity_proof p)]"

definition read_transfer_payload :: "('s, 'p) curve \<Rightarrow> tx_version \<Rightarrow> 's transfer_payload rd" where
  "read_transfer_payload C version = rbind read_hash (\<lambda>asset. rbind read_public_key (\<lambda>destination.
     rbind (read_option read_extra_data) (\<lambda>extra_data. rbind read_point (\<lambda>commitment.
     rbind read_point (\<lambda>sender_handle. rbind read_point (\<lambda>receiver_handle.
     rbind (read_ciphertext_validity_proof C version) (\<lambda>proof.
     rreturn \<lparr>tr_asset = asset, tr_destination = destination, tr_extra_data = extra_data, tr_commitment = commitment,
       tr_sender_handle = sender_handle, tr_receiver_handle = receiver_handle, tr_ct_validity_proof = proof\<rparr>)))))))"

definition size_transfer_payload :: "'s transfer_payload \<Rightarrow> usize" where
  "size_transfer_payload p = size_hash (tr_asset p) + size_public_key (tr_destination p) +
     size_option size_extra_data (tr_extra_data p) + size_point (tr_commitment p) + size_point (tr_sender_handle p) +
     size_point (tr_receiver_handle p) + size_ciphertext_validity_proof (tr_ct_validity_proof p)"

subsection \<open>Contracts\<close>

datatype 's contract_deposit =
    Public u64
  | Private (dep_commitment: compressed_point) (dep_sender_handle: compressed_point)
      (dep_receiver_handle: compressed_point) (dep_proof: "'s ciphertext_validity_proof")

fun write_contract_deposit :: "('s, 'p) curve \<Rightarrow> 's contract_deposit \<Rightarrow> writer \<Rightarrow> writer" where
  "write_contract_deposit C (Public coins) = writes [write_u8 0, write_u64 coins]"
| "write_contract_deposit C (Private commit sender_handle receiver_handle proof) =
     writes [write_u8 1, write_point commit, write_point sender_handle, write_point receiver_handle,
       write_ciphertext_validity_proof C proof]"

definition read_contract_deposit :: "('s, 'p) curve \<Rightarrow> tx_version \<Rightarrow> 's contract_deposit rd" where
  "read_contract_deposit C version = rbind read_u8 (\<lambda>b.
     if b = 0 then rbind read_u64 (\<lambda>coins. rreturn (Public coins))
     else if b = 1 then rbind read_point (\<lambda>commitment. rbind read_point (\<lambda>sender_handle.
       rbind read_point (\<lambda>receiver_handle. rbind (read_ciphertext_validity_proof C version) (\<lambda>proof.
       rreturn (Private commitment sender_handle receiver_handle proof)))))
     else rfail InvalidValue)"

fun size_contract_deposit :: "'s contract_deposit \<Rightarrow> usize" where
  "size_contract_deposit (Public coins) = 1 + 8"
| "size_contract_deposit (Private commit sender_handle receiver_handle proof) =
     1 + (size_point commit + size_point sender_handle + size_point receiver_handle +
       size_ciphertext_validity_proof proof)"

record ('v, 'm) vm_codec =
  write_cell :: "'v \<Rightarrow> writer \<Rightarrow> writer"
  read_cell :: "'v rd"
  size_cell :: "'v \<Rightarrow> usize"
  write_module :: "'m \<Rightarrow> writer \<Rightarrow> writer"
  read_module :: "'m rd"
  size_module :: "'m \<Rightarrow> usize"

type_synonym 's deposits = "(hash \<times> 's contract_deposit) list"

record ('s, 'v) invoke_contract_payload =
  ic_contract :: hash
  ic_deposits :: "'s deposits"
  ic_chunk_id :: u16
  ic_max_gas :: u64
  ic_parameters :: "'v list"

definition write_invoke_contract_payload ::
  "('s, 'p) curve \<Rightarrow> ('v, 'm) vm_codec \<Rightarrow> ('s, 'v) invoke_contract_payload \<Rightarrow> writer \<Rightarrow> writer" where
  "write_invoke_contract_payload C V p = writes [write_hash (ic_contract p),
     write_u8 (of_nat (length (ic_deposits p))),
     fold (\<lambda>(asset, deposit). writes [write_hash asset, write_contract_deposit C deposit]) (ic_deposits p),
     write_u16 (ic_chunk_id p), write_u64 (ic_max_gas p),
     write_u8 (of_nat (length (ic_parameters p))), fold (write_cell V) (ic_parameters p)]"

definition read_invoke_contract_payload ::
  "('s, 'p) curve \<Rightarrow> ('v, 'm) vm_codec \<Rightarrow> tx_version \<Rightarrow> ('s, 'v) invoke_contract_payload rd" where
  "read_invoke_contract_payload C V version = rbind read_hash (\<lambda>contract. rbind read_u8 (\<lambda>len.
     rbind (read_entries (unat len) read_hash (read_contract_deposit C version) []) (\<lambda>deposits.
     rbind read_u16 (\<lambda>chunk_id. rbind read_u64 (\<lambda>max_gas. rbind read_u8 (\<lambda>len.
     rbind (read_times (unat len) (read_cell V)) (\<lambda>parameters.
     rreturn \<lparr>ic_contract = contract, ic_deposits = deposits, ic_chunk_id = chunk_id, ic_max_gas = max_gas,
       ic_parameters = parameters\<rparr>)))))))"

definition size_invoke_contract_payload ::
  "('v, 'm) vm_codec \<Rightarrow> ('s, 'v) invoke_contract_payload \<Rightarrow> usize" where
  "size_invoke_contract_payload V p = size_hash (ic_contract p) + 2 + 8 + 1 +
     sum_list (map (\<lambda>(asset, deposit). size_hash asset + size_contract_deposit deposit) (ic_deposits p)) + 1 +
     sum_list (map (size_cell V) (ic_parameters p))"

record 's invoke_constructor_payload =
  co_max_gas :: u64
  co_deposits :: "'s deposits"

definition write_invoke_constructor_payload ::
  "('s, 'p) curve \<Rightarrow> 's invoke_constructor_payload \<Rightarrow> writer \<Rightarrow> writer" where
  "write_invoke_constructor_payload C p =
     writes [write_u64 (co_max_gas p), write_map write_hash (write_contract_deposit C) (co_deposits p)]"

definition read_invoke_constructor_payload ::
  "('s, 'p) curve \<Rightarrow> tx_version \<Rightarrow> 's invoke_constructor_payload rd" where
  "read_invoke_constructor_payload C version = rbind read_u64 (\<lambda>max_gas.
     rbind (read_map read_hash (read_contract_deposit C version)) (\<lambda>deposits.
     rreturn \<lparr>co_max_gas = max_gas, co_deposits = deposits\<rparr>))"

definition size_invoke_constructor_payload :: "'s invoke_constructor_payload \<Rightarrow> usize" where
  "size_invoke_constructor_payload p = 8 + size_map size_hash size_contract_deposit (co_deposits p)"

record ('s, 'm) deploy_contract_payload =
  dp_module :: 'm
  dp_invoke :: "'s invoke_constructor_payload option"

definition write_deploy_contract_payload ::
  "('s, 'p) curve \<Rightarrow> ('v, 'm) vm_codec \<Rightarrow> ('s, 'm) deploy_contract_payload \<Rightarrow> writer \<Rightarrow> writer" where
  "write_deploy_contract_payload C V p = writes [write_module V (dp_module p),
     write_option (write_invoke_constructor_payload C) (dp_invoke p)]"

definition read_deploy_contract_payload ::
  "('s, 'p) curve \<Rightarrow> ('v, 'm) vm_codec \<Rightarrow> tx_version \<Rightarrow> ('s, 'm) deploy_contract_payload rd" where
  "read_deploy_contract_payload C V version = rbind (read_module V) (\<lambda>module.
     rbind (read_option (read_invoke_constructor_payload C version)) (\<lambda>invoke.
     rreturn \<lparr>dp_module = module, dp_invoke = invoke\<rparr>))"

definition size_deploy_contract_payload ::
  "('v, 'm) vm_codec \<Rightarrow> ('s, 'm) deploy_contract_payload \<Rightarrow> usize" where
  "size_deploy_contract_payload V p = size_module V (dp_module p) +
     size_option size_invoke_constructor_payload (dp_invoke p)"

section \<open>Transactions\<close>

datatype ('s, 'v, 'm) transaction_type =
    Transfers "'s transfer_payload list"
  | Burn burn_payload
  | MultiSigSetup multisig_payload
  | InvokeContract "('s, 'v) invoke_contract_payload"
  | DeployContract "('s, 'm) deploy_contract_payload"
  | EnergyOp energy_payload

fun write_transaction_type ::
  "('s, 'p) curve \<Rightarrow> ('v, 'm) vm_codec \<Rightarrow> ('s, 'v, 'm) transaction_type \<Rightarrow> writer \<Rightarrow> writer" where
  "write_transaction_type C V (Burn p) = writes [write_u8 0, write_burn_payload p]"
| "write_transaction_type C V (Transfers txs) = writes [write_u8 1, write_u8 (of_nat (length txs)),
     fold (write_transfer_payload C) txs]"
| "write_transaction_type C V (MultiSigSetup p) = writes [write_u8 2, write_multisig_payload p]"
| "write_transaction_type C V (InvokeContract p) = writes [write_u8 3, write_invoke_contract_payload C V p]"
| "write_transaction_type C V (DeployContract p) = writes [write_u8 4, write_deploy_contract_payload C V p]"
| "write_transaction_type C V (EnergyOp p) = writes [write_u8 5, write_energy_payload p]"

definition read_transaction_type ::
  "('s, 'p) curve \<Rightarrow> ('v, 'm) vm_codec \<Rightarrow> tx_version \<Rightarrow> ('s, 'v, 'm) transaction_type rd" where
  "read_transaction_type C V version = rbind read_u8 (\<lambda>b.
     if b = 0 then rbind read_burn_payload (\<lambda>p. rreturn (Burn p))
     else if b = 1 then rbind read_u8 (\<lambda>txs_count.
       if txs_count = 0 \<or> txs_count > of_nat MAX_TRANSFER_COUNT then rfail InvalidSize
       else rbind (read_times (unat txs_count) (read_transfer_payload C version)) (\<lambda>txs. rreturn (Transfers txs)))
     else if b = 2 then rbind read_multisig_payload (\<lambda>p. rreturn (MultiSigSetup p))
     else if b = 3 then rbind (read_invoke_contract_payload C V version) (\<lambda>p. rreturn (InvokeContract p))
     else if b = 4 then rbind (read_deploy_contract_payload C V version) (\<lambda>p. rreturn (DeployContract p))
     else if b = 5 then rbind read_energy_payload (\<lambda>p. rreturn (EnergyOp p))
     else rfail InvalidValue)"

fun size_transaction_type :: "('v, 'm) vm_codec \<Rightarrow> ('s, 'v, 'm) transaction_type \<Rightarrow> usize" where
  "size_transaction_type V (Burn p) = 1 + size_burn_payload p"
| "size_transaction_type V (Transfers txs) = 1 + (1 + sum_list (map size_transfer_payload txs))"
| "size_transaction_type V (MultiSigSetup p) = 1 + (1 + 1 + sum_list (map size_public_key (ms_participants p)))"
| "size_transaction_type V (InvokeContract p) = 1 + size_invoke_contract_payload V p"
| "size_transaction_type V (DeployContract p) = 1 + size_deploy_contract_payload V p"
| "size_transaction_type V (EnergyOp p) = 1 + size_energy_payload p"

record 's source_commitment =
  sc_commitment :: compressed_point
  sc_proof :: "'s commitment_eq_proof"
  sc_asset :: hash

definition write_source_commitment :: "('s, 'p) curve \<Rightarrow> 's source_commitment \<Rightarrow> writer \<Rightarrow> writer" where
  "write_source_commitment C c = writes [write_point (sc_commitment c), write_commitment_eq_proof C (sc_proof c),
     write_hash (sc_asset c)]"

definition read_source_commitment :: "('s, 'p) curve \<Rightarrow> 's source_commitment rd" where
  "read_source_commitment C = rbind read_point (\<lambda>commitment. rbind (read_commitment_eq_proof C) (\<lambda>proof.
     rbind read_hash (\<lambda>asset. rreturn \<lparr>sc_commitment = commitment, sc_proof = proof, sc_asset = asset\<rparr>)))"

definition size_source_commitment :: "'s source_commitment \<Rightarrow> usize" where
  "size_source_commitment c = size_point (sc_commitment c) + size_commitment_eq_proof (sc_proof c) + size_hash (sc_asset c)"

text \<open>
  The signatures of a multisig transaction: an \<open>IndexSet\<close> whose elements are equal when their
  signer ids are.
\<close>

record 's signature_id =
  si_id :: u8
  si_signature :: "'s signature"

type_synonym 's multisig = "'s signature_id list"

definition multisig_new :: "'s multisig" where "multisig_new = []"

definition add_signature :: "'s signature_id \<Rightarrow> 's multisig \<Rightarrow> bool \<times> 's multisig" where
  "add_signature s signatures =
     (if si_id s \<in> si_id ` set signatures then (False, signatures) else (True, signatures @ [s]))"

definition write_signature_id :: "('s, 'p) curve \<Rightarrow> 's signature_id \<Rightarrow> writer \<Rightarrow> writer" where
  "write_signature_id C s = writes [write_u8 (si_id s), write_signature C (si_signature s)]"

definition read_signature_id :: "('s, 'p) curve \<Rightarrow> 's signature_id rd" where
  "read_signature_id C = rbind read_u8 (\<lambda>i. rbind (read_signature C) (\<lambda>s. rreturn \<lparr>si_id = i, si_signature = s\<rparr>))"

definition size_signature_id :: "'s signature_id \<Rightarrow> usize" where
  "size_signature_id s = 1 + size_signature (si_signature s)"

definition write_multisig :: "('s, 'p) curve \<Rightarrow> 's multisig \<Rightarrow> writer \<Rightarrow> writer" where
  "write_multisig C m = writes [write_u8 (of_nat (length m)), fold (write_signature_id C) m]"

fun read_signatures :: "('s, 'p) curve \<Rightarrow> nat \<Rightarrow> 's multisig \<Rightarrow> 's multisig rd" where
  "read_signatures C 0 signatures = rreturn signatures"
| "read_signatures C (Suc n) signatures = rbind (read_signature_id C) (\<lambda>s.
     let (inserted, signatures) = add_signature s signatures in
     if \<not> inserted then rfail InvalidValue else read_signatures C n signatures)"

definition read_multisig :: "('s, 'p) curve \<Rightarrow> 's multisig rd" where
  "read_multisig C = rbind read_u8 (\<lambda>len. read_signatures C (unat len) multisig_new)"

definition size_multisig :: "'s multisig \<Rightarrow> usize" where
  "size_multisig m = 1 + sum_list (map (\<lambda>s. 1 + size_signature (si_signature s)) m)"

record ('s, 'v, 'm, 'r) signed_transaction =
  st_version :: tx_version
  st_source :: public_key
  st_data :: "('s, 'v, 'm) transaction_type"
  st_fee :: u64
  st_fee_type :: fee_type
  st_nonce :: u64
  st_source_commitments :: "'s source_commitment list"
  st_range_proof :: 'r
  st_reference :: reference
  st_multisig :: "'s multisig option"
  st_signature :: "'s signature"

type_synonym ('s, 'p, 't, 'r, 'e) range_lib = "('s, 'p, 't, 'r, 'e) range_prover"

text \<open>The fields every one of the byte strings below begins with, in their order.\<close>

definition write_no_signature ::
  "('s, 'p) curve \<Rightarrow> ('s, 'p, 't, 'r, 'e) range_lib \<Rightarrow> ('v, 'm) vm_codec \<Rightarrow> ('s, 'v, 'm, 'r) signed_transaction \<Rightarrow>
   writer \<Rightarrow> writer" where
  "write_no_signature C R V tx = writes [write_tx_version (st_version tx), write_public_key (st_source tx),
     write_transaction_type C V (st_data tx), write_u64 (st_fee tx), write_fee_type (st_fee_type tx),
     write_u64 (st_nonce tx), write_u8 (of_nat (length (st_source_commitments tx))),
     fold (write_source_commitment C) (st_source_commitments tx), write_range_proof R (st_range_proof tx),
     write_reference (st_reference tx)]"

definition get_signing_bytes ::
  "('s, 'p) curve \<Rightarrow> ('s, 'p, 't, 'r, 'e) range_lib \<Rightarrow> ('v, 'm) vm_codec \<Rightarrow> ('s, 'v, 'm, 'r) signed_transaction \<Rightarrow>
   u8 list" where
  "get_signing_bytes C R V tx = to_bytes (write_no_signature C R V tx)"

definition get_multisig_signing_bytes ::
  "('s, 'p) curve \<Rightarrow> ('s, 'p, 't, 'r, 'e) range_lib \<Rightarrow> ('v, 'm) vm_codec \<Rightarrow> ('s, 'v, 'm, 'r) signed_transaction \<Rightarrow>
   u8 list" where
  "get_multisig_signing_bytes C R V tx = to_bytes (write_no_signature C R V tx)"

definition write_signed_transaction ::
  "('s, 'p) curve \<Rightarrow> ('s, 'p, 't, 'r, 'e) range_lib \<Rightarrow> ('v, 'm) vm_codec \<Rightarrow> ('s, 'v, 'm, 'r) signed_transaction \<Rightarrow>
   writer \<Rightarrow> writer" where
  "write_signed_transaction C R V tx = writes [write_tx_version (st_version tx), write_public_key (st_source tx),
     write_transaction_type C V (st_data tx), write_u64 (st_fee tx), write_fee_type (st_fee_type tx),
     write_u64 (st_nonce tx), write_u8 (of_nat (length (st_source_commitments tx))),
     fold (write_source_commitment C) (st_source_commitments tx), write_range_proof R (st_range_proof tx),
     write_reference (st_reference tx), write_option (write_multisig C) (st_multisig tx),
     write_signature C (st_signature tx)]"

text \<open>The version read first is stored in the reader's context, where the validity proofs find it.\<close>

definition read_signed_transaction ::
  "('s, 'p) curve \<Rightarrow> ('s, 'p, 't, 'r, 'e) range_lib \<Rightarrow> ('v, 'm) vm_codec \<Rightarrow>
   ('s, 'v, 'm, 'r) signed_transaction rd" where
  "read_signed_transaction C R V = rbind read_tx_version (\<lambda>version. rbind read_public_key (\<lambda>source.
     rbind (read_transaction_type C V version) (\<lambda>data. rbind read_u64 (\<lambda>fee. rbind read_fee_type (\<lambda>fee_type.
     rbind read_u64 (\<lambda>nonce. rbind read_u8 (\<lambda>commitments_len.
     if commitments_len = 0 \<or> commitments_len > of_nat MAX_TRANSFER_COUNT then rfail InvalidSize
     else rbind (read_times (unat commitments_len) (read_source_commitment C)) (\<lambda>source_commitments.
     rbind (read_range_proof R) (\<lambda>range_proof. rbind read_reference (\<lambda>reference.
     rbind (read_option (read_multisig C)) (\<lambda>multisig. rbind (read_signature C) (\<lambda>signature.
     rreturn \<lparr>st_version = version, st_source = source, st_data = data, st_fee = fee, st_fee_type = fee_type,
       st_nonce = nonce, st_source_commitments = source_commitments, st_range_proof = range_proof,
       st_reference = reference, st_multisig = multisig, st_signature = signature\<rparr>))))))))))))"

definition size_signed_transaction ::
  "('s, 'p, 't, 'r, 'e) range_lib \<Rightarrow> ('v, 'm) vm_codec \<Rightarrow> ('s, 'v, 'm, 'r) signed_transaction \<Rightarrow> usize" where
  "size_signed_transaction R V tx = 1 + size_public_key (st_source tx) + size_transaction_type V (st_data tx) + 8 +
     size_fee_type (st_fee_type tx) + 8 + 1 + sum_list (map size_source_commitment (st_source_commitments tx)) +
     size_range_proof R (st_range_proof tx) + size_reference (st_reference tx) + size_signature (st_signature tx) +
     size_option size_multisig (st_multisig tx)"

section \<open>Queries\<close>

definition get_assets :: "('s, 'v, 'm, 'r) signed_transaction \<Rightarrow> hash list" where
  "get_assets tx = map sc_asset (st_source_commitments tx)"

definition get_multisig_count :: "('s, 'v, 'm, 'r) signed_transaction \<Rightarrow> usize" where
  "get_multisig_count tx = (case st_multisig tx of None \<Rightarrow> 0 | Some m \<Rightarrow> length m)"

definition get_burned_amount :: "hash \<Rightarrow> ('s, 'v, 'm, 'r) signed_transaction \<Rightarrow> u64 option" where
  "get_burned_amount asset tx = (case st_data tx of
     Burn p \<Rightarrow> if bn_asset p = asset then Some (bn_amount p) else None | _ \<Rightarrow> None)"

definition get_outputs_count :: "('s, 'v, 'm, 'r) signed_transaction \<Rightarrow> usize" where
  "get_outputs_count tx = (case st_data tx of
     Transfers txs \<Rightarrow> length txs | InvokeContract p \<Rightarrow> max (length (ic_deposits p)) 1 | _ \<Rightarrow> 1)"

definition tx_energy_cost ::
  "('s, 'p, 't, 'r, 'e) range_lib \<Rightarrow> ('v, 'm) vm_codec \<Rightarrow> ('s, 'v, 'm, 'r) signed_transaction \<Rightarrow> u64" where
  "tx_energy_cost R V tx = (if \<not> is_energy (st_fee_type tx) then 0 else case st_data tx of
     Transfers txs \<Rightarrow> calculate_energy_fee (size_signed_transaction R V tx) (length txs) 0 | _ \<Rightarrow> 0)"

fun append_energy_transcript :: "'t merlin \<Rightarrow> energy_payload \<Rightarrow> 't \<Rightarrow> 't" where
  "append_energy_transcript M (FreezeTos coins d) t =
     append_u64 M (label ''energy_gained'') (coins div COIN_VALUE * reward_multiplier d)
     (append_u64 M (label ''tos_balance_change'') coins
     (append_u64 M (label ''energy_freeze_duration'') (duration_in_blocks d)
     (append_u64 M (label ''energy_is_freeze'') 1
     (append_u64 M (label ''energy_amount'') coins t))))"
| "append_energy_transcript M (UnfreezeTos coins) t =
     append_u64 M (label ''energy_removed'') coins
     (append_u64 M (label ''tos_balance_change'') coins
     (append_u64 M (label ''energy_is_freeze'') 0
     (append_u64 M (label ''energy_amount'') coins t)))"

section \<open>Building and signing\<close>

record ('s, 'v, 'm, 'r) unsigned_transaction =
  un_version :: tx_version
  un_source :: public_key
  un_data :: "('s, 'v, 'm) transaction_type"
  un_fee :: u64
  un_fee_type :: fee_type
  un_nonce :: u64
  un_source_commitments :: "'s source_commitment list"
  un_reference :: reference
  un_range_proof :: 'r
  un_multisig :: "'s multisig option"

definition unsigned_new_with_fee_type ::
  "tx_version \<Rightarrow> public_key \<Rightarrow> ('s, 'v, 'm) transaction_type \<Rightarrow> u64 \<Rightarrow> fee_type \<Rightarrow> u64 \<Rightarrow> 's source_commitment list \<Rightarrow>
   reference \<Rightarrow> 'r \<Rightarrow> ('s, 'v, 'm, 'r) unsigned_transaction" where
  "unsigned_new_with_fee_type version source data fee fee_type nonce source_commitments reference range_proof =
     \<lparr>un_version = version, un_source = source, un_data = data, un_fee = fee, un_fee_type = fee_type, un_nonce = nonce,
      un_source_commitments = source_commitments, un_reference = reference, un_range_proof = range_proof, un_multisig = None\<rparr>"

definition unsigned_new ::
  "tx_version \<Rightarrow> public_key \<Rightarrow> ('s, 'v, 'm) transaction_type \<Rightarrow> u64 \<Rightarrow> u64 \<Rightarrow> 's source_commitment list \<Rightarrow>
   reference \<Rightarrow> 'r \<Rightarrow> ('s, 'v, 'm, 'r) unsigned_transaction" where
  "unsigned_new version source data fee nonce source_commitments reference range_proof =
     unsigned_new_with_fee_type version source data fee FeeTOS nonce source_commitments reference range_proof"

definition set_multisig :: "'s multisig \<Rightarrow> ('s, 'v, 'm, 'r) unsigned_transaction \<Rightarrow> ('s, 'v, 'm, 'r) unsigned_transaction" where
  "set_multisig m u = u\<lparr>un_multisig := Some m\<rparr>"

definition unsigned_no_signature ::
  "('s, 'p) curve \<Rightarrow> ('s, 'p, 't, 'r, 'e) range_lib \<Rightarrow> ('v, 'm) vm_codec \<Rightarrow> ('s, 'v, 'm, 'r) unsigned_transaction \<Rightarrow>
   writer \<Rightarrow> writer" where
  "unsigned_no_signature C R V u = writes [write_tx_version (un_version u), write_public_key (un_source u),
     write_transaction_type C V (un_data u), write_u64 (un_fee u), write_fee_type (un_fee_type u),
     write_u64 (un_nonce u), write_u8 (of_nat (length (un_source_commitments u))),
     fold (write_source_commitment C) (un_source_commitments u), write_range_proof R (un_range_proof u),
     write_reference (un_reference u)]"

definition get_hash_for_multisig ::
  "(u8 list \<Rightarrow> hash) \<Rightarrow> ('s, 'p) curve \<Rightarrow> ('s, 'p, 't, 'r, 'e) range_lib \<Rightarrow> ('v, 'm) vm_codec \<Rightarrow>
   ('s, 'v, 'm, 'r) unsigned_transaction \<Rightarrow> hash" where
  "get_hash_for_multisig H C R V u = H (to_bytes (unsigned_no_signature C R V u))"

text \<open>\<open>k\<close> is the random scalar of the signature.\<close>

definition sign_multisig ::
  "(u8 list \<Rightarrow> hash) \<Rightarrow> ('s::field, 'p) curve \<Rightarrow> ('s, 'p, 't, 'r, 'e) range_lib \<Rightarrow> ('v, 'm) vm_codec \<Rightarrow>
   ('s, 'p) key_pair \<Rightarrow> 's \<Rightarrow> u8 \<Rightarrow> ('s, 'v, 'm, 'r) unsigned_transaction \<Rightarrow> ('s, 'v, 'm, 'r) unsigned_transaction" where
  "sign_multisig H C R V keypair k i u =
     (let h = get_hash_for_multisig H C R V u;
          multisig = (case un_multisig u of Some m \<Rightarrow> m | None \<Rightarrow> multisig_new);
          signature = sign C keypair k (as_bytes h)
      in u\<lparr>un_multisig := Some (snd (add_signature \<lparr>si_id = i, si_signature = signature\<rparr> multisig))\<rparr>)"

definition finalize ::
  "('s::field, 'p) curve \<Rightarrow> ('s, 'p, 't, 'r, 'e) range_lib \<Rightarrow> ('v, 'm) vm_codec \<Rightarrow> ('s, 'p) key_pair \<Rightarrow> 's \<Rightarrow>
   ('s, 'v, 'm, 'r) unsigned_transaction \<Rightarrow> ('s, 'v, 'm, 'r) signed_transaction" where
  "finalize C R V keypair k u =
     (let signature = sign C keypair k (to_bytes (unsigned_no_signature C R V u))
      in \<lparr>st_version = un_version u, st_source = un_source u, st_data = un_data u, st_fee = un_fee u,
          st_fee_type = un_fee_type u, st_nonce = un_nonce u, st_source_commitments = un_source_commitments u,
          st_range_proof = un_range_proof u, st_reference = un_reference u, st_multisig = un_multisig u,
          st_signature = signature\<rparr>)"

definition write_unsigned_transaction ::
  "('s, 'p) curve \<Rightarrow> ('s, 'p, 't, 'r, 'e) range_lib \<Rightarrow> ('v, 'm) vm_codec \<Rightarrow> ('s, 'v, 'm, 'r) unsigned_transaction \<Rightarrow>
   writer \<Rightarrow> writer" where
  "write_unsigned_transaction C R V u = writes [write_tx_version (un_version u), write_public_key (un_source u),
     write_transaction_type C V (un_data u), write_u64 (un_fee u), write_fee_type (un_fee_type u),
     write_u64 (un_nonce u), write_u8 (of_nat (length (un_source_commitments u))),
     fold (write_source_commitment C) (un_source_commitments u), write_range_proof R (un_range_proof u),
     write_reference (un_reference u)]"

text \<open>\<open>ctx\<close> is the transaction version the caller stored in the reader's context.\<close>

definition read_unsigned_transaction ::
  "('s, 'p) curve \<Rightarrow> ('s, 'p, 't, 'r, 'e) range_lib \<Rightarrow> ('v, 'm) vm_codec \<Rightarrow> tx_version \<Rightarrow>
   ('s, 'v, 'm, 'r) unsigned_transaction rd" where
  "read_unsigned_transaction C R V ctx = rbind read_tx_version (\<lambda>version. rbind read_public_key (\<lambda>source.
     rbind (read_transaction_type C V ctx) (\<lambda>data. rbind read_u64 (\<lambda>fee. rbind read_fee_type (\<lambda>fee_type.
     rbind read_u64 (\<lambda>nonce. rbind (read_vec (read_source_commitment C)) (\<lambda>source_commitments.
     rbind (read_range_proof R) (\<lambda>range_proof. rbind read_reference (\<lambda>reference.
     rreturn \<lparr>un_version = version, un_source = source, un_data = data, un_fee = fee, un_fee_type = fee_type,
       un_nonce = nonce, un_source_commitments = source_commitments, un_reference = reference,
       un_range_proof = range_proof, un_multisig = None\<rparr>)))))))))"

definition size_unsigned_transaction ::
  "('s, 'p, 't, 'r, 'e) range_lib \<Rightarrow> ('v, 'm) vm_codec \<Rightarrow> ('s, 'v, 'm, 'r) unsigned_transaction \<Rightarrow> usize" where
  "size_unsigned_transaction R V u = 1 + size_public_key (un_source u) + size_transaction_type V (un_data u) + 8 +
     size_fee_type (un_fee_type u) + 8 + 1 + sum_list (map size_source_commitment (un_source_commitments u)) +
     size_range_proof R (un_range_proof u) + size_reference (un_reference u)"

section \<open>Wire formats\<close>

interpretation fee_type: strict_serializer write_fee_type read_fee_type size_fee_type "\<lambda>_. True"
proof
  show "accepts read_fee_type (\<lambda>f bs. True \<and> bs = to_bytes (write_fee_type f))"
    unfolding read_fee_type_def
    by (intro accepts_bindI [OF accepts_read_u8] accepts_if accepts_return accepts_fail)
      (auto simp: write_fee_type_def codec_simps)
  show "reads read_fee_type f (to_bytes (write_fee_type f))" for f
    unfolding read_fee_type_def
    by (cases f) (auto simp: write_fee_type_def codec_simps intro!: reads_bind_tail [OF reads_read_u8] reads_return)
qed (auto simp: write_fee_type_def read_fee_type_def size_fee_type_def codec_simps intro!: codec_intros)

definition reference_ok :: "reference \<Rightarrow> bool" where "reference_ok r \<longleftrightarrow> hash_ok (rf_hash r)"

interpretation reference: strict_serializer write_reference read_reference size_reference reference_ok
proof
  show "accepts read_reference (\<lambda>r bs. reference_ok r \<and> bs = to_bytes (write_reference r))"
    unfolding read_reference_def
    by (intro accepts_bindI [OF hash.read_strict] accepts_bindI [OF u64.read_strict] accepts_return)
      (auto simp: reference_ok_def write_reference_def codec_simps hash.write_append)
qed (auto simp: write_reference_def read_reference_def size_reference_def reference_ok_def codec_simps hash.write_append
    hash.size_write intro!: codec_intros reads_bind [OF hash.read_write] hash.read_safe)

definition burn_ok :: "burn_payload \<Rightarrow> bool" where "burn_ok p \<longleftrightarrow> hash_ok (bn_asset p)"

interpretation burn: strict_serializer write_burn_payload read_burn_payload size_burn_payload burn_ok
proof
  show "accepts read_burn_payload (\<lambda>p bs. burn_ok p \<and> bs = to_bytes (write_burn_payload p))"
    unfolding read_burn_payload_def
    by (intro accepts_bindI [OF hash.read_strict] accepts_bindI [OF u64.read_strict] accepts_return)
      (auto simp: burn_ok_def write_burn_payload_def codec_simps hash.write_append)
qed (auto simp: write_burn_payload_def read_burn_payload_def size_burn_payload_def burn_ok_def codec_simps hash.write_append
    hash.size_write intro!: codec_intros reads_bind [OF hash.read_write] hash.read_safe)

interpretation extra_data: strict_serializer write_extra_data read_extra_data size_extra_data "vec_ok (\<lambda>_. True)"
  unfolding write_extra_data_def read_extra_data_def size_extra_data_def by (rule u8.strict_vec)

interpretation extra_data_option: strict_serializer "write_option write_extra_data" "read_option read_extra_data"
  "size_option size_extra_data" "option_ok (vec_ok (\<lambda>_. True))"
  by (rule extra_data.strict_option)

text \<open>
  A payload that sets a multisig account up has a threshold and participants; one that deletes it
  has neither.
\<close>

definition multisig_payload_ok :: "multisig_payload \<Rightarrow> bool" where
  "multisig_payload_ok p \<longleftrightarrow> distinct (ms_participants p) \<and> length (ms_participants p) \<le> 255 \<and>
     (\<forall>k \<in> set (ms_participants p). public_key_ok k) \<and> (ms_threshold p = 0 \<longleftrightarrow> ms_participants p = [])"

lemma u8_count:
  assumes "0 < n" and "n \<le> 255"
  shows "(of_nat n :: u8) \<noteq> 0" "\<not> (255 :: u8) < of_nat n" "unat (of_nat n :: u8) = n"
  using assms by (auto simp: unat_of_nat word_less_nat_alt unat_eq_0 simp flip: unat_0_iff)

lemma reads_u8_Cons: "reads (f b) y bs \<Longrightarrow> reads (rbind read_u8 f) y (b # bs)"
  using reads_bind [OF reads_read_u8, of f b y bs] by simp

lemma multisig_payload_codec:
  shows multisig_payload_append: "append_only (write_multisig_payload p)"
    and multisig_payload_reads: "multisig_payload_ok p \<Longrightarrow> reads read_multisig_payload p (to_bytes (write_multisig_payload p))"
    and multisig_payload_size: "multisig_payload_ok p \<Longrightarrow>
      size_multisig_payload p = length (to_bytes (write_multisig_payload p)) + (if is_delete p then 1 else 0)"
    and multisig_payload_safe: "reader_safe read_multisig_payload"
proof -
  have bytes: "to_bytes (write_multisig_payload p) = (if ms_threshold p = 0 then [0] else
      ms_threshold p # of_nat (length (ms_participants p)) # concat (map (\<lambda>k. to_bytes (write_public_key k)) (ms_participants p)))"
    by (simp add: write_multisig_payload_def codec_simps public_key.fold_append public_key.to_bytes_elements)
  show "append_only (write_multisig_payload p)"
    by (simp add: write_multisig_payload_def codec_simps public_key.fold_append)
  show "reader_safe read_multisig_payload"
    unfolding read_multisig_payload_def by (intro codec_intros public_key.safe_unique)
  assume ok: "multisig_payload_ok p"
  show "size_multisig_payload p = length (to_bytes (write_multisig_payload p)) + (if is_delete p then 1 else 0)"
    using ok by (auto simp: bytes size_multisig_payload_def multisig_payload_ok_def is_delete_def public_key.size_elements)
  show "reads read_multisig_payload p (to_bytes (write_multisig_payload p))"
  proof (cases "ms_threshold p = 0")
    case True
    then show ?thesis
      using ok unfolding read_multisig_payload_def bytes
      by (cases p) (auto simp: multisig_payload_ok_def intro!: reads_bind_tail [OF reads_read_u8] reads_return)
  next
    case False
    then have n: "0 < length (ms_participants p)" "length (ms_participants p) \<le> 255"
      using ok by (simp_all add: multisig_payload_ok_def)
    have "p = \<lparr>ms_threshold = ms_threshold p, ms_participants = [] @ ms_participants p\<rparr>" by (cases p) simp
    then have "reads (rbind (read_unique InvalidValue (length (ms_participants p)) read_public_key [])
        (\<lambda>participants. rreturn \<lparr>ms_threshold = ms_threshold p, ms_participants = participants\<rparr>)) p
        (concat (map (\<lambda>k. to_bytes (write_public_key k)) (ms_participants p)))"
      using ok by (intro reads_bind_return [OF public_key.reads_unique]) (simp_all add: multisig_payload_ok_def)
    then show ?thesis
      using False unfolding read_multisig_payload_def bytes
      by (auto simp: u8_count [OF n] MAX_MULTISIG_PARTICIPANTS_def intro!: reads_u8_Cons)
  qed
qed

text \<open>
  What the wire format rests on: canonical encodings of scalars and range proofs, and codecs of the
  virtual machine's values and modules that keep the contract of the \<open>Serializer\<close> trait.
\<close>

definition wire_laws ::
  "('s, 'p) curve \<Rightarrow> ('s, 'p, 't, 'r, 'e) range_lib \<Rightarrow> ('v, 'm) vm_codec \<Rightarrow> ('v \<Rightarrow> bool) \<Rightarrow> ('m \<Rightarrow> bool) \<Rightarrow> bool" where
  "wire_laws C R V cell_ok module_ok \<longleftrightarrow> scalar_encoding_laws C \<and> range_encoding_laws R \<and>
     serializer (write_cell V) (read_cell V) (size_cell V) cell_ok \<and>
     serializer (write_module V) (read_module V) (size_module V) module_ok"

definition transfer_ok :: "'s transfer_payload \<Rightarrow> bool" where
  "transfer_ok p \<longleftrightarrow> hash_ok (tr_asset p) \<and> public_key_ok (tr_destination p) \<and>
     option_ok (vec_ok (\<lambda>_. True)) (tr_extra_data p) \<and> point_ok (tr_commitment p) \<and> point_ok (tr_sender_handle p) \<and>
     point_ok (tr_receiver_handle p) \<and> cv_proof_ok (tr_ct_validity_proof p)"

lemma transfer_serializer:
  fixes C :: "('s, 'p) curve"
  assumes "scalar_encoding_laws C"
  shows "strict_serializer (write_transfer_payload C) (read_transfer_payload C v) size_transfer_payload transfer_ok"
proof -
  note cv = cv_proof_serializer [OF assms, where v = v]
  note ser = strict_serializer.axioms(1) [OF cv]
  note bytes = write_transfer_payload_def codec_simps hash.write_append public_key.write_append extra_data.option_append
    point.write_append serializer.write_append [OF ser]
  show ?thesis
  proof
    show "accepts (read_transfer_payload C v) (\<lambda>p bs. transfer_ok p \<and> bs = to_bytes (write_transfer_payload C p))"
      unfolding read_transfer_payload_def
      by (intro accepts_bindI [OF hash.read_strict] accepts_bindI [OF public_key.read_strict]
          accepts_bindI [OF extra_data_option.read_strict] accepts_bindI [OF point.read_strict]
          accepts_bindI [OF strict_serializer.read_strict [OF cv]] accepts_return)
        (auto simp: transfer_ok_def bytes)
    show "reads (read_transfer_payload C v) p (to_bytes (write_transfer_payload C p))" if "transfer_ok p" for p
      using that unfolding read_transfer_payload_def
      by (auto simp: transfer_ok_def bytes intro!: reads_bind [OF hash.read_write] reads_bind [OF public_key.read_write]
          reads_bind [OF extra_data_option.read_write] reads_bind [OF point.read_write] reads_bind_return
          serializer.read_write [OF ser])
    show "size_transfer_payload p = length (to_bytes (write_transfer_payload C p))" if "transfer_ok p" for p
      using that by (simp add: transfer_ok_def bytes size_transfer_payload_def hash.size_write public_key.size_write
          extra_data_option.size_write point.size_write serializer.size_write [OF ser])
    show "reader_safe (read_transfer_payload C v)"
      unfolding read_transfer_payload_def
      by (intro codec_intros hash.read_safe public_key.read_safe extra_data_option.read_safe point.read_safe
          serializer.read_safe [OF ser])
  qed (simp add: bytes)
qed

fun deposit_ok :: "'s contract_deposit \<Rightarrow> bool" where
  "deposit_ok (Public coins) = True"
| "deposit_ok (Private commit sender receiver proof) \<longleftrightarrow>
     point_ok commit \<and> point_ok sender \<and> point_ok receiver \<and> cv_proof_ok proof"

lemma deposit_serializer:
  fixes C :: "('s, 'p) curve"
  assumes "scalar_encoding_laws C"
  shows "strict_serializer (write_contract_deposit C) (read_contract_deposit C v) size_contract_deposit deposit_ok"
proof -
  note cv = cv_proof_serializer [OF assms, where v = v]
  note ser = strict_serializer.axioms(1) [OF cv]
  note bytes = codec_simps point.write_append serializer.write_append [OF ser]
  show ?thesis
  proof
    show "append_only (write_contract_deposit C d)" for d
      by (cases d) (simp_all add: bytes)
    show "accepts (read_contract_deposit C v) (\<lambda>d bs. deposit_ok d \<and> bs = to_bytes (write_contract_deposit C d))"
      unfolding read_contract_deposit_def
      by (intro accepts_bindI [OF accepts_read_u8] accepts_if accepts_bindI [OF u64.read_strict]
          accepts_bindI [OF point.read_strict] accepts_bindI [OF strict_serializer.read_strict [OF cv]] accepts_return accepts_fail)
        (auto simp: bytes)
    show "reads (read_contract_deposit C v) d (to_bytes (write_contract_deposit C d))" if "deposit_ok d" for d
      using that unfolding read_contract_deposit_def
      by (cases d) (auto simp: bytes intro!: reads_u8_Cons reads_bind [OF point.read_write] reads_bind_return
          codec_intros serializer.read_write [OF ser])
    show "size_contract_deposit d = length (to_bytes (write_contract_deposit C d))" if "deposit_ok d" for d
      using that by (cases d) (simp_all add: bytes point.size_write serializer.size_write [OF ser])
    show "reader_safe (read_contract_deposit C v)"
      unfolding read_contract_deposit_def
      by (intro codec_intros point.read_safe serializer.read_safe [OF ser])
  qed
qed

definition deposits_ok :: "'s deposits \<Rightarrow> bool" where
  "deposits_ok ds \<longleftrightarrow> distinct (map fst ds) \<and> (\<forall>(asset, d) \<in> set ds. hash_ok asset \<and> deposit_ok d)"

lemma hash_deposit_serializer:
  fixes C :: "('s, 'p) curve"
  assumes "scalar_encoding_laws C"
  shows "serializer2 write_hash read_hash size_hash hash_ok (write_contract_deposit C) (read_contract_deposit C v)
    size_contract_deposit deposit_ok"
  by (rule serializer2I [OF hash.serializer_axioms strict_serializer.axioms(1) [OF deposit_serializer [OF assms]]])

definition invoke_ok :: "('v \<Rightarrow> bool) \<Rightarrow> ('s, 'v) invoke_contract_payload \<Rightarrow> bool" where
  "invoke_ok cell_ok p \<longleftrightarrow> hash_ok (ic_contract p) \<and> deposits_ok (ic_deposits p) \<and> length (ic_deposits p) \<le> 255 \<and>
     length (ic_parameters p) \<le> 255 \<and> (\<forall>c \<in> set (ic_parameters p). cell_ok c)"

lemma invoke_serializer:
  fixes C :: "('s, 'p) curve" and V :: "('v, 'm) vm_codec"
  assumes "wire_laws C R V cell_ok module_ok"
  shows "serializer (write_invoke_contract_payload C V) (read_invoke_contract_payload C V v)
    (size_invoke_contract_payload V) (invoke_ok cell_ok)"
proof -
  have laws: "scalar_encoding_laws C" and cell: "serializer (write_cell V) (read_cell V) (size_cell V) cell_ok"
    using assms by (simp_all add: wire_laws_def)
  note two = hash_deposit_serializer [OF laws, of v]
  note dep = strict_serializer.axioms(1) [OF deposit_serializer [OF laws, of v]]
  have entries: "append_only (fold (\<lambda>(asset, deposit). fcomp (write_hash asset) (write_contract_deposit C deposit)) ds)" for ds
    by (rule append_only_fold) (auto simp: codec_simps hash.write_append serializer.write_append [OF dep])
  note bytes = write_invoke_contract_payload_def codec_simps hash.write_append entries
    serializer.fold_append [OF cell] serializer.to_bytes_elements [OF cell] serializer2.to_bytes_entries [OF two]
  show ?thesis
  proof (rule serializer_intro)
    show "append_only (write_invoke_contract_payload C V p)" for p by (simp add: bytes)
    show "reader_safe (read_invoke_contract_payload C V v)"
      unfolding read_invoke_contract_payload_def
      by (intro codec_intros hash.read_safe serializer2.safe_entries [OF two] serializer.safe_times [OF cell])
    fix p :: "('s, 'v) invoke_contract_payload" assume ok: "invoke_ok cell_ok p"
    then have n: "unat (of_nat (length (ic_deposits p)) :: u8) = length (ic_deposits p)"
        "unat (of_nat (length (ic_parameters p)) :: u8) = length (ic_parameters p)"
      by (simp_all add: invoke_ok_def unat_of_nat_u8)
    have entries: "reads (read_entries (length (ic_deposits p)) read_hash (read_contract_deposit C v) []) (ic_deposits p)
        (concat (map (\<lambda>(k, d). to_bytes (write_hash k) @ to_bytes (write_contract_deposit C d)) (ic_deposits p)))"
      using ok serializer2.reads_entries [OF two, of "ic_deposits p" "[]"] by (simp add: invoke_ok_def deposits_ok_def)
    have cells: "reads (read_times (length (ic_parameters p)) (read_cell V)) (ic_parameters p)
        (concat (map (\<lambda>c. to_bytes (write_cell V c)) (ic_parameters p)))"
      using ok by (intro serializer.reads_times [OF cell]) (simp add: invoke_ok_def)
    show "reads (read_invoke_contract_payload C V v) p (to_bytes (write_invoke_contract_payload C V p))"
      using ok unfolding read_invoke_contract_payload_def
      by (auto simp: bytes n invoke_ok_def intro!: reads_bind [OF hash.read_write] reads_u8_Cons reads_bind [OF entries]
          reads_bind [OF reads_read_u16] reads_bind [OF reads_read_u64] reads_bind_return [OF cells])
    show "size_invoke_contract_payload V p = length (to_bytes (write_invoke_contract_payload C V p))"
    proof -
      have "sum_list (map (\<lambda>(k, d). size_hash k + size_contract_deposit d) ds) =
          length (concat (map (\<lambda>(k, d). to_bytes (write_hash k) @ to_bytes (write_contract_deposit C d)) ds))"
        if "\<forall>(k, d) \<in> set ds. hash_ok k \<and> deposit_ok d" for ds
        using that by (induction ds) (auto simp: hash.size_write serializer.size_write [OF dep])
      then show ?thesis
        using ok serializer.size_elements [OF cell, of "ic_parameters p"]
        by (simp add: bytes size_invoke_contract_payload_def invoke_ok_def deposits_ok_def hash.size_write)
    qed
  qed
qed

definition constructor_ok :: "'s invoke_constructor_payload \<Rightarrow> bool" where
  "constructor_ok p \<longleftrightarrow> map_ok hash_ok deposit_ok (co_deposits p)"

lemma constructor_serializer:
  fixes C :: "('s, 'p) curve"
  assumes "scalar_encoding_laws C"
  shows "serializer (write_invoke_constructor_payload C) (read_invoke_constructor_payload C v)
    size_invoke_constructor_payload constructor_ok"
proof -
  note map = serializer2.map [OF hash_deposit_serializer [OF assms, of v]]
  note bytes = write_invoke_constructor_payload_def codec_simps serializer.write_append [OF map]
  show ?thesis
    by (rule serializer_intro)
      (auto simp: bytes read_invoke_constructor_payload_def size_invoke_constructor_payload_def constructor_ok_def
        serializer.size_write [OF map] intro!: codec_intros reads_bind [OF reads_read_u64] serializer.read_write [OF map]
        serializer.read_safe [OF map])
qed

definition deploy_ok :: "('m \<Rightarrow> bool) \<Rightarrow> ('s, 'm) deploy_contract_payload \<Rightarrow> bool" where
  "deploy_ok module_ok p \<longleftrightarrow> module_ok (dp_module p) \<and> option_ok constructor_ok (dp_invoke p)"

lemma deploy_serializer:
  fixes C :: "('s, 'p) curve"
  assumes "wire_laws C R V cell_ok module_ok"
  shows "serializer (write_deploy_contract_payload C V) (read_deploy_contract_payload C V v)
    (size_deploy_contract_payload V) (deploy_ok module_ok)"
proof -
  have laws: "scalar_encoding_laws C" and module: "serializer (write_module V) (read_module V) (size_module V) module_ok"
    using assms by (simp_all add: wire_laws_def)
  note opt = serializer.option [OF constructor_serializer [OF laws, of v]]
  note bytes = write_deploy_contract_payload_def codec_simps serializer.write_append [OF module] serializer.write_append [OF opt]
  show ?thesis
    by (rule serializer_intro)
      (auto simp: bytes read_deploy_contract_payload_def size_deploy_contract_payload_def deploy_ok_def
        serializer.size_write [OF opt] serializer.size_write [OF module]
        intro!: codec_intros reads_bind [OF serializer.read_write [OF module]] serializer.read_write [OF opt]
        serializer.read_safe [OF opt] serializer.read_safe [OF module])
qed

subsection \<open>Transaction data\<close>

fun data_ok :: "('v \<Rightarrow> bool) \<Rightarrow> ('m \<Rightarrow> bool) \<Rightarrow> ('s, 'v, 'm) transaction_type \<Rightarrow> bool" where
  "data_ok cell_ok module_ok (Transfers txs) \<longleftrightarrow> txs \<noteq> [] \<and> length txs \<le> 255 \<and> (\<forall>p \<in> set txs. transfer_ok p)"
| "data_ok cell_ok module_ok (Burn p) \<longleftrightarrow> burn_ok p"
| "data_ok cell_ok module_ok (MultiSigSetup p) \<longleftrightarrow> multisig_payload_ok p"
| "data_ok cell_ok module_ok (InvokeContract p) \<longleftrightarrow> invoke_ok cell_ok p"
| "data_ok cell_ok module_ok (DeployContract p) \<longleftrightarrow> deploy_ok module_ok p"
| "data_ok cell_ok module_ok (EnergyOp p) \<longleftrightarrow> True"

text \<open>The one byte by which the announced size of a deletion of a multisig account is too large.\<close>

fun size_excess :: "('s, 'v, 'm) transaction_type \<Rightarrow> nat" where
  "size_excess (MultiSigSetup p) = (if is_delete p then 1 else 0)"
| "size_excess d = 0"

lemma data_codec:
  fixes C :: "('s, 'p) curve"
  assumes "wire_laws C R V cell_ok module_ok"
  shows data_append: "append_only (write_transaction_type C V d)"
    and data_safe: "reader_safe (read_transaction_type C V v)"
    and data_reads: "data_ok cell_ok module_ok d \<Longrightarrow>
      reads (read_transaction_type C V v) d (to_bytes (write_transaction_type C V d))"
    and data_size: "data_ok cell_ok module_ok d \<Longrightarrow>
      size_transaction_type V d = length (to_bytes (write_transaction_type C V d)) + size_excess d"
proof -
  have "scalar_encoding_laws C" using assms by (simp add: wire_laws_def)
  note transfer = strict_serializer.axioms(1) [OF transfer_serializer [OF this, of v]]
  note invoke = invoke_serializer [OF assms, of v]
  note deploy = deploy_serializer [OF assms, of v]
  note bytes = codec_simps burn.write_append multisig_payload_append energy_payload.write_append
    serializer.fold_append [OF transfer] serializer.to_bytes_elements [OF transfer]
    serializer.write_append [OF invoke] serializer.write_append [OF deploy]
  show "append_only (write_transaction_type C V d)" by (cases d) (simp_all add: bytes)
  show "reader_safe (read_transaction_type C V v)"
    unfolding read_transaction_type_def
    by (intro codec_intros burn.read_safe serializer.safe_times [OF transfer] multisig_payload_safe
        serializer.read_safe [OF invoke] serializer.read_safe [OF deploy] energy_payload.read_safe)
  assume ok: "data_ok cell_ok module_ok d"
  show "size_transaction_type V d = length (to_bytes (write_transaction_type C V d)) + size_excess d"
    using ok multisig_payload_size
    by (cases d) (auto simp: bytes burn.size_write energy_payload.size_write serializer.size_elements [OF transfer]
        serializer.size_write [OF invoke] serializer.size_write [OF deploy] size_multisig_payload_def)
  show "reads (read_transaction_type C V v) d (to_bytes (write_transaction_type C V d))"
  proof (cases d)
    case (Transfers txs)
    then have n: "0 < length txs" "length txs \<le> 255" using ok by simp_all
    show ?thesis
      using ok unfolding read_transaction_type_def Transfers
      by (auto simp: bytes u8_count [OF n] MAX_TRANSFER_COUNT_def
          intro!: reads_u8_Cons reads_bind_return [OF serializer.reads_times [OF transfer]])
  qed (use ok in \<open>auto simp: read_transaction_type_def bytes intro!: reads_u8_Cons reads_bind_return burn.read_write
      multisig_payload_reads serializer.read_write [OF invoke] serializer.read_write [OF deploy] energy_payload.read_write\<close>)
qed

subsection \<open>Source commitments and signatures\<close>

definition source_commitment_ok :: "'s source_commitment \<Rightarrow> bool" where
  "source_commitment_ok c \<longleftrightarrow> point_ok (sc_commitment c) \<and> eq_proof_ok (sc_proof c) \<and> hash_ok (sc_asset c)"

lemma source_commitment_serializer:
  fixes C :: "('s, 'p) curve"
  assumes "scalar_encoding_laws C"
  shows "strict_serializer (write_source_commitment C) (read_source_commitment C) size_source_commitment source_commitment_ok"
proof -
  note eq = eq_proof_serializer [OF assms]
  note ser = strict_serializer.axioms(1) [OF eq]
  note bytes = write_source_commitment_def codec_simps point.write_append hash.write_append serializer.write_append [OF ser]
  show ?thesis
  proof
    show "accepts (read_source_commitment C) (\<lambda>c bs. source_commitment_ok c \<and> bs = to_bytes (write_source_commitment C c))"
      unfolding read_source_commitment_def
      by (intro accepts_bindI [OF point.read_strict] accepts_bindI [OF strict_serializer.read_strict [OF eq]]
          accepts_bindI [OF hash.read_strict] accepts_return)
        (auto simp: source_commitment_ok_def bytes)
  qed (auto simp: bytes source_commitment_ok_def read_source_commitment_def size_source_commitment_def point.size_write
      hash.size_write serializer.size_write [OF ser] intro!: codec_intros reads_bind [OF point.read_write]
      reads_bind [OF serializer.read_write [OF ser]] hash.read_write point.read_safe hash.read_safe serializer.read_safe [OF ser])
qed

lemma signature_id_serializer:
  fixes C :: "('s, 'p) curve"
  assumes "scalar_encoding_laws C"
  shows "serializer (write_signature_id C) (read_signature_id C) size_signature_id (\<lambda>_. True)"
proof -
  note ser = strict_serializer.axioms(1) [OF signature_serializer [OF assms]]
  show ?thesis
    by (rule serializer_intro)
      (auto simp: write_signature_id_def codec_simps serializer.write_append [OF ser] read_signature_id_def
        size_signature_id_def serializer.size_write [OF ser]
        intro!: codec_intros reads_u8_Cons serializer.read_write [OF ser] serializer.read_safe [OF ser])
qed

definition multisig_ok :: "'s multisig \<Rightarrow> bool" where
  "multisig_ok m \<longleftrightarrow> distinct (map si_id m) \<and> length m \<le> 255"

lemma multisig_serializer:
  fixes C :: "('s, 'p) curve"
  assumes "scalar_encoding_laws C"
  shows "serializer (write_multisig C) (read_multisig C) size_multisig multisig_ok"
proof -
  note ser = signature_id_serializer [OF assms]
  have reads: "distinct (map si_id (acc @ m)) \<Longrightarrow> reads (read_signatures C (length m) acc) (acc @ m)
      (concat (map (\<lambda>s. to_bytes (write_signature_id C s)) m))" for m acc
  proof (induction m arbitrary: acc)
    case (Cons s m)
    then have "add_signature s acc = (True, acc @ [s])" by (auto simp: add_signature_def)
    then show ?case
      using Cons.IH [of "acc @ [s]"] Cons.prems
      by (auto intro!: reads_bind [OF serializer.read_write [OF ser]])
  qed (simp add: reads_return)
  have safe: "reader_safe (read_signatures C n acc)" for n acc
    by (induction n arbitrary: acc) (auto intro!: codec_intros serializer.read_safe [OF ser] split: prod.splits)
  note bytes = write_multisig_def codec_simps serializer.fold_append [OF ser] serializer.to_bytes_elements [OF ser]
  show ?thesis
  proof (rule serializer_intro)
    fix m :: "'s multisig" assume ok: "multisig_ok m"
    then have n: "unat (of_nat (length m) :: u8) = length m" by (simp add: multisig_ok_def unat_of_nat_u8)
    show "reads (read_multisig C) m (to_bytes (write_multisig C m))"
      using ok reads [of "[]" m] unfolding read_multisig_def
      by (auto simp: bytes n multisig_ok_def multisig_new_def intro!: reads_u8_Cons)
    show "size_multisig m = length (to_bytes (write_multisig C m))"
      using serializer.size_elements [OF ser, of m] by (simp add: bytes size_multisig_def size_signature_id_def [abs_def])
  qed (auto simp: bytes read_multisig_def intro!: codec_intros safe)
qed

subsection \<open>Whole transactions\<close>

definition transaction_ok ::
  "('s, 'p, 't, 'r, 'e) range_lib \<Rightarrow> ('v \<Rightarrow> bool) \<Rightarrow> ('m \<Rightarrow> bool) \<Rightarrow> ('s, 'v, 'm, 'r) signed_transaction \<Rightarrow> bool" where
  "transaction_ok R cell_ok module_ok tx \<longleftrightarrow> public_key_ok (st_source tx) \<and> data_ok cell_ok module_ok (st_data tx) \<and>
     st_source_commitments tx \<noteq> [] \<and> length (st_source_commitments tx) \<le> 255 \<and>
     (\<forall>c \<in> set (st_source_commitments tx). source_commitment_ok c) \<and> range_proof_ok R (st_range_proof tx) \<and>
     reference_ok (st_reference tx) \<and> option_ok multisig_ok (st_multisig tx)"

lemma transaction_codec:
  fixes C :: "('s, 'p) curve" and V :: "('v, 'm) vm_codec"
  assumes "wire_laws C R V cell_ok module_ok"
  shows no_signature_append: "append_only (write_no_signature C R V tx)"
    and transaction_bytes: "to_bytes (write_signed_transaction C R V tx) = to_bytes (write_no_signature C R V tx) @
      to_bytes (write_option (write_multisig C) (st_multisig tx)) @ to_bytes (write_signature C (st_signature tx))"
    and transaction_reads: "transaction_ok R cell_ok module_ok tx \<Longrightarrow>
      reads (read_signed_transaction C R V) tx (to_bytes (write_signed_transaction C R V tx))"
    and transaction_size: "transaction_ok R cell_ok module_ok tx \<Longrightarrow>
      size_signed_transaction R V tx = length (to_bytes (write_signed_transaction C R V tx)) + size_excess (st_data tx)"
proof -
  have laws: "scalar_encoding_laws C" "range_encoding_laws R" using assms by (simp_all add: wire_laws_def)
  note sc = strict_serializer.axioms(1) [OF source_commitment_serializer [OF laws(1)]]
  note range = strict_serializer.axioms(1) [OF range_proof_serializer [OF laws(2)]]
  note multisig = serializer.option [OF multisig_serializer [OF laws(1)]]
  note signature = strict_serializer.axioms(1) [OF signature_serializer [OF laws(1)]]
  note bytes = codec_simps tx_version.write_append public_key.write_append data_append [OF assms] fee_type.write_append
    serializer.fold_append [OF sc] serializer.to_bytes_elements [OF sc] serializer.write_append [OF range]
    reference.write_append serializer.write_append [OF multisig] serializer.write_append [OF signature]
  show "append_only (write_no_signature C R V tx)"
    by (simp add: write_no_signature_def bytes)
  show "to_bytes (write_signed_transaction C R V tx) = to_bytes (write_no_signature C R V tx) @
      to_bytes (write_option (write_multisig C) (st_multisig tx)) @ to_bytes (write_signature C (st_signature tx))"
    by (simp add: write_signed_transaction_def write_no_signature_def bytes)
  assume ok: "transaction_ok R cell_ok module_ok tx"
  then have n: "0 < length (st_source_commitments tx)" "length (st_source_commitments tx) \<le> 255"
    by (simp_all add: transaction_ok_def)
  have commitments: "reads (read_times (length (st_source_commitments tx)) (read_source_commitment C))
      (st_source_commitments tx) (concat (map (\<lambda>c. to_bytes (write_source_commitment C c)) (st_source_commitments tx)))"
    using ok by (intro serializer.reads_times [OF sc]) (simp add: transaction_ok_def)
  show "reads (read_signed_transaction C R V) tx (to_bytes (write_signed_transaction C R V tx))"
    using ok unfolding read_signed_transaction_def
    by (auto simp: write_signed_transaction_def bytes transaction_ok_def u8_count [OF n] MAX_TRANSFER_COUNT_def
        intro!: reads_bind [OF tx_version.read_write] reads_bind [OF public_key.read_write] reads_bind [OF data_reads [OF assms]]
        reads_bind [OF reads_read_u64] reads_bind [OF fee_type.read_write] reads_u8_Cons reads_bind [OF commitments]
        reads_bind [OF serializer.read_write [OF range]] reads_bind [OF reference.read_write]
        reads_bind [OF serializer.read_write [OF multisig]] reads_bind_return [OF serializer.read_write [OF signature]])
  have "length (to_bytes (write_tx_version v)) = 1" for v using tx_version.size_write [of v] by simp
  then show "size_signed_transaction R V tx = length (to_bytes (write_signed_transaction C R V tx)) + size_excess (st_data tx)"
    using ok data_size [OF assms] serializer.size_elements [OF sc, of "st_source_commitments tx"]
    by (simp add: write_signed_transaction_def size_signed_transaction_def bytes transaction_ok_def public_key.size_write
        fee_type.size_write serializer.size_write [OF range] reference.size_write serializer.size_write [OF multisig]
        serializer.size_write [OF signature])
qed

text \<open>Signatures collected one after the other on an unsigned transaction.\<close>

fun sign_all ::
  "(u8 list \<Rightarrow> hash) \<Rightarrow> ('s::field, 'p) curve \<Rightarrow> ('s, 'p, 't, 'r, 'e) range_lib \<Rightarrow> ('v, 'm) vm_codec \<Rightarrow>
   (('s, 'p) key_pair \<times> 's \<times> u8) list \<Rightarrow> ('s, 'v, 'm, 'r) unsigned_transaction \<Rightarrow> ('s, 'v, 'm, 'r) unsigned_transaction" where
  "sign_all H C R V [] u = u"
| "sign_all H C R V ((keys, k, i) # signers) u = sign_all H C R V signers (sign_multisig H C R V keys k i u)"

lemma finalize_bytes:
  "write_no_signature C R V (finalize C R V keys k u) = unsigned_no_signature C R V u"
  by (simp add: write_no_signature_def unsigned_no_signature_def finalize_def Let_def)

lemma sign_multisig_bytes:
  "unsigned_no_signature C R V (sign_multisig H C R V keys k i u) = unsigned_no_signature C R V u"
  by (simp add: unsigned_no_signature_def sign_multisig_def Let_def)

lemma sign_all_bytes: "unsigned_no_signature C R V (sign_all H C R V signers u) = unsigned_no_signature C R V u"
  by (induction signers arbitrary: u) (auto simp: sign_multisig_bytes)

definition signed_by ::
  "('s::field, 'p) curve \<Rightarrow> u8 list \<Rightarrow> (('s, 'p) key_pair \<times> 's \<times> u8) list \<Rightarrow> 's signature_id \<Rightarrow> bool" where
  "signed_by C message signers s \<longleftrightarrow>
     (\<exists>keys k. (keys, k, si_id s) \<in> set signers \<and> si_signature s = sign C keys k message)"

lemma sign_all_signatures:
  assumes "\<forall>s \<in> set (case un_multisig u of None \<Rightarrow> [] | Some m \<Rightarrow> m).
      signed_by C (as_bytes (get_hash_for_multisig H C R V u)) (done @ signers) s"
  shows "\<forall>s \<in> set (case un_multisig (sign_all H C R V signers u) of None \<Rightarrow> [] | Some m \<Rightarrow> m).
      signed_by C (as_bytes (get_hash_for_multisig H C R V u)) (done @ signers) s"
  using assms
proof (induction signers arbitrary: u "done")
  case (Cons signer signers)
  obtain keys k i where signer: "signer = (keys, k, i)" by (cases signer)
  let ?u = "sign_multisig H C R V keys k i u"
  have same: "get_hash_for_multisig H C R V ?u = get_hash_for_multisig H C R V u"
    by (simp add: get_hash_for_multisig_def sign_multisig_bytes)
  have "\<forall>s \<in> set (case un_multisig ?u of None \<Rightarrow> [] | Some m \<Rightarrow> m).
      signed_by C (as_bytes (get_hash_for_multisig H C R V ?u)) ((done @ [signer]) @ signers) s"
    using Cons.prems unfolding same
    by (auto simp: sign_multisig_def Let_def add_signature_def multisig_new_def signer signed_by_def split: option.splits)
  from Cons.IH [OF this] show ?case by (simp add: signer same)
qed simp

lemma sign_all_distinct:
  "distinct (map si_id (case un_multisig u of None \<Rightarrow> [] | Some m \<Rightarrow> m)) \<Longrightarrow>
   distinct (map si_id (case un_multisig (sign_all H C R V signers u) of None \<Rightarrow> [] | Some m \<Rightarrow> m))"
proof (induction signers arbitrary: u)
  case (Cons signer signers)
  obtain keys k i where signer: "signer = (keys, k, i)" by (cases signer)
  have "distinct (map si_id (case un_multisig (sign_multisig H C R V keys k i u) of None \<Rightarrow> [] | Some m \<Rightarrow> m))"
    using Cons.prems by (auto simp: sign_multisig_def Let_def add_signature_def multisig_new_def split: option.splits)
  from Cons.IH [OF this] show ?case by (simp add: signer)
qed simp

lemma length_source_commitment:
  assumes "scalar_encoding_laws C" and "source_commitment_ok c"
  shows "length (to_bytes (write_source_commitment C c)) = 256"
  using strict_serializer.axioms(1) [OF source_commitment_serializer [OF assms(1)], THEN serializer.size_write, OF assms(2)]
  by (simp add: size_source_commitment_def size_point_def RISTRETTO_COMPRESSED_SIZE_def size_commitment_eq_proof_def
      SCALAR_SIZE_def size_hash_def HASH_SIZE_def)

lemma length_source_commitments:
  assumes "scalar_encoding_laws C" and "\<forall>c \<in> set cs. source_commitment_ok c"
  shows "length (concat (map (\<lambda>c. to_bytes (write_source_commitment C c)) cs)) = 256 * length cs"
  using assms(2) by (induction cs) (simp_all add: length_source_commitment [OF assms(1)])

subsection \<open>Readers that must fail\<close>

definition fails :: "'a rd \<Rightarrow> u8 list \<Rightarrow> bool" where
  "fails m bs \<longleftrightarrow> (\<forall>r. reader_ok r \<longrightarrow> remaining r = bs \<longrightarrow> (\<exists>e r'. m r = (Inl e, r')))"

lemma fails_bind:
  assumes "reads m x bs" and "fails (f x) cs"
  shows "fails (rbind m f) (bs @ cs)"
  unfolding fails_def
proof (intro allI impI)
  fix r assume r: "reader_ok r" "remaining r = bs @ cs"
  then have "reader_ok (advance (length bs) r)" "remaining (advance (length bs) r) = cs"
    by (simp_all add: reader_ok_advance remaining_advance)
  then show "\<exists>e r'. rbind m f r = (Inl e, r')"
    using assms(2) reads_apply [OF assms(1) r] by (simp add: fails_def rbind_def)
qed

lemma fails_bind_left: "fails m bs \<Longrightarrow> fails (rbind m f) bs"
  by (fastforce simp: fails_def rbind_def)

lemma fails_fail: "fails (rfail e) bs"
  by (simp add: fails_def rfail_def)

lemma fails_accepts:
  assumes "accepts m P" and "\<And>x used rest. bs = used @ rest \<Longrightarrow> \<not> P x used"
  shows "fails m bs"
  unfolding fails_def
proof (intro allI impI)
  fix r assume r: "reader_ok r" "remaining r = bs"
  obtain res r' where m: "m r = (res, r')" by force
  show "\<exists>e r'. m r = (Inl e, r')"
  proof (cases res)
    case (Inr x)
    then show ?thesis using assms r m unfolding accepts_def by metis
  qed (simp add: m)
qed

lemma from_bytes_fails: "fails m bs \<Longrightarrow> \<exists>e. from_bytes m bs = Inl e"
  unfolding fails_def from_bytes_def by (metis fst_conv reader_ok_new remaining_new)

text \<open>A vector of more than 255 source commitments does not fit into fewer than 65536 bytes.\<close>

lemma read_commitments_fails:
  assumes "scalar_encoding_laws C" and "n \<noteq> 0" and "unat n \<le> 4 \<Longrightarrow> length bs < 65536"
  shows "fails (read_vec (read_source_commitment C)) (n # b # bs)"
proof -
  note sc = source_commitment_serializer [OF assms(1)]
  let ?v = "from_be_bytes [n, b] :: u16"
  have "be_nat [n, b] = 256 * unat n + unat b" by (simp add: be_nat_def)
  moreover have "be_nat [n, b] < 65536" using be_nat_less [of "[n, b]"] by simp
  ultimately have v: "unat ?v = 256 * unat n + unat b"
    unfolding from_be_bytes_def by (simp only: unat_of_nat_u16)
  have "to_be_bytes ?v = [n, b]" by (simp add: to_from_be_bytes)
  then have read: "reads read_u16 ?v [n, b]" using reads_read_u16 [of ?v] by simp
  have "fails (read_times (unat ?v) (read_source_commitment C)) bs" if "unat ?v \<le> 1024"
  proof (rule fails_accepts [OF strict_serializer.accepts_times [OF sc]])
    fix cs used rest assume bs: "bs = used @ rest"
    have "256 \<le> unat ?v" using assms(2) v by (simp add: unat_gt_0 [symmetric] Suc_le_eq del: unat_gt_0)
    moreover have "length bs < 65536" using assms(3) v that by simp
    ultimately show "\<not> (length cs = unat ?v \<and> (\<forall>c \<in> set cs. source_commitment_ok c) \<and>
        used = concat (map (\<lambda>c. to_bytes (write_source_commitment C c)) cs))"
      using bs by (auto simp: length_source_commitments [OF assms(1)])
  qed
  then have "fails (if of_nat DEFAULT_MAX_ITEMS < ?v then rfail InvalidSize
      else read_times (unat ?v) (read_source_commitment C)) bs"
    using unat_within_limit [of ?v] by (cases "of_nat DEFAULT_MAX_ITEMS < ?v") (simp_all add: fails_fail DEFAULT_MAX_ITEMS_def)
  then show ?thesis
    using fails_bind [OF read, of "\<lambda>count. if of_nat DEFAULT_MAX_ITEMS < count then rfail InvalidSize
      else read_times (unat count) (read_source_commitment C)" bs] by (simp add: read_vec_def)
qed

section \<open>A concrete instance\<close>

definition bytes_range :: "(gf3, gf3, gf3 \<times> gf3, u8 list, unit) range_lib" where
  "bytes_range = \<lparr>prove_single = (\<lambda>t v r _. Inl ()), verify_single = (\<lambda>_ t _ _. Inr t), range_to_bytes = id,
     range_from_bytes = Some\<rparr>"

definition byte_vm :: "(u8, u8) vm_codec" where
  "byte_vm = \<lparr>write_cell = write_u8, read_cell = read_u8, size_cell = (\<lambda>_. 1), write_module = write_u8,
     read_module = read_u8, size_module = (\<lambda>_. 1)\<rparr>"

definition sample_unsigned :: "(gf3, u8, u8, u8 list) unsigned_transaction" where
  "sample_unsigned = unsigned_new T0 (PublicKey (gf3_encode F1))
     (MultiSigSetup \<lparr>ms_threshold = 0, ms_participants = []\<rparr>) 7 3
     [\<lparr>sc_commitment = gf3_encode F1, sc_proof = sample_eq_proof F1, sc_asset = hash_zero\<rparr>]
     \<lparr>rf_hash = hash_zero, rf_topoheight = 9\<rparr> (replicate 288 0)"

definition sample_keys :: "(gf3, gf3) key_pair" where
  "sample_keys = \<lparr>kp_public = F1, kp_private = F1\<rparr>"

lemma sample_wire_laws: "wire_laws gf3_curve bytes_range byte_vm (\<lambda>_. True) (\<lambda>_. True)"
proof -
  have "gf3_encode a = bs" if "gf3_decode bs = Some a" for a bs
    using gf3_curve_laws(2) that by (simp add: encoding_laws_def gf3_curve_def)
  moreover have "length (gf3_encode a) = 32" for a by (simp add: gf3_encode_def)
  ultimately have "scalar_encoding_laws gf3_curve"
    by (simp add: scalar_encoding_laws_def gf3_curve_def)
  then show ?thesis
    by (auto simp: wire_laws_def range_encoding_laws_def bytes_range_def byte_vm_def
        u8.serializer_axioms [unfolded One_nat_def])
qed

lemma sample_keys: "key_pair_from_private_key gf3_curve F1 = Some sample_keys"
  by (simp add: key_pair_from_private_key_def public_key_new_def gf3_curve_def gf3_defs sample_keys_def)

lemma sample_transaction_ok:
  "transaction_ok bytes_range (\<lambda>_. True) (\<lambda>_. True) (finalize gf3_curve bytes_range byte_vm sample_keys k sample_unsigned)"
  by (simp add: transaction_ok_def finalize_def Let_def sample_unsigned_def unsigned_new_def unsigned_new_with_fee_type_def
      public_key_ok_def point_ok_def RISTRETTO_COMPRESSED_SIZE_def gf3_encode_def multisig_payload_ok_def
      source_commitment_ok_def eq_proof_ok_def sample_eq_proof_def hash_ok_def hash_zero_def HASH_SIZE_def
      range_proof_ok_def bytes_range_def reference_ok_def option_ok_def)

section \<open>Properties\<close>







text \<open>
  C30. Signing. When participants sign an unsigned transaction for a multisig account, one after the
  other and with any ids, and the sender finalizes it, the sender's signature verifies on the bytes
  the node checks, and every multisig signature that was kept verifies on the hash the node checks
  under the key of the participant who signed with that id; no id is kept twice.
\<close>

theorem finalized_transaction_verifies:
  assumes "curve_laws C" and "key_pair_from_private_key C secret = Some keys" and "un_multisig u = None"
    and "\<forall>(p, k, i) \<in> set signers. \<exists>s. key_pair_from_private_key C s = Some p"
    and "tx = finalize C R V keys k (sign_all H C R V signers u)"
  shows "verify C (st_signature tx) (get_signing_bytes C R V tx) (kp_public keys) \<and>
    (\<forall>m. st_multisig tx = Some m \<longrightarrow> distinct (map si_id m) \<and> (\<forall>s \<in> set m. \<exists>p k. (p, k, si_id s) \<in> set signers \<and>
      verify C (si_signature s) (as_bytes (H (get_multisig_signing_bytes C R V tx))) (kp_public p)))"
proof -
  let ?u = "sign_all H C R V signers u"
  have bytes: "write_no_signature C R V tx = unsigned_no_signature C R V u"
    by (simp add: assms(5) finalize_bytes sign_all_bytes)
  have "st_signature tx = sign C keys k (to_bytes (unsigned_no_signature C R V u))"
    by (simp add: assms(5) finalize_def Let_def sign_all_bytes)
  then have "verify C (st_signature tx) (get_signing_bytes C R V tx) (kp_public keys)"
    by (simp add: get_signing_bytes_def bytes verify_sign [OF assms(1,2)])
  moreover have "distinct (map si_id m) \<and> (\<forall>s \<in> set m. \<exists>p k. (p, k, si_id s) \<in> set signers \<and>
      verify C (si_signature s) (as_bytes (H (get_multisig_signing_bytes C R V tx))) (kp_public p))"
    if m: "st_multisig tx = Some m" for m
  proof -
    have kept: "un_multisig ?u = Some m" using m by (simp add: assms(5) finalize_def Let_def)
    have hash: "get_hash_for_multisig H C R V u = H (get_multisig_signing_bytes C R V tx)"
      by (simp add: get_hash_for_multisig_def get_multisig_signing_bytes_def bytes)
    have "\<forall>s \<in> set m. signed_by C (as_bytes (H (get_multisig_signing_bytes C R V tx))) signers s"
      using sign_all_signatures [of u C H R V "[]" signers] by (simp add: assms(3) kept hash)
    moreover have "verify C (sign C p k msg) msg (kp_public p)" if "(p, k, i) \<in> set signers" for p k i msg
      using assms(4) that verify_sign [OF assms(1)] by fastforce
    ultimately show ?thesis
      using sign_all_distinct [of u H C R V signers] by (fastforce simp: assms(3) kept signed_by_def)
  qed
  ultimately show ?thesis by blast
qed

theorem finalized_transaction_verifies_witness:
  "let tx = finalize gf3_curve bytes_range byte_vm sample_keys F2
       (sign_all (\<lambda>_. hash_zero) gf3_curve bytes_range byte_vm [(sample_keys, F1, 0), (sample_keys, F2, 0)] sample_unsigned)
   in verify gf3_curve (st_signature tx) (get_signing_bytes gf3_curve bytes_range byte_vm tx) F1 \<and>
      (\<exists>s. st_multisig tx = Some [\<lparr>si_id = 0, si_signature = s\<rparr>] \<and>
        verify gf3_curve s (as_bytes hash_zero) F1)"
proof -
  let ?u = "sign_all (\<lambda>_. hash_zero) gf3_curve bytes_range byte_vm [(sample_keys, F1, 0), (sample_keys, F2, 0)] sample_unsigned"
  have none: "un_multisig sample_unsigned = None"
    by (simp add: sample_unsigned_def unsigned_new_def unsigned_new_with_fee_type_def)
  have kept: "\<exists>s. un_multisig ?u = Some [\<lparr>si_id = 0, si_signature = s\<rparr>]"
    by (simp add: sign_multisig_def Let_def none add_signature_def multisig_new_def)
  then obtain s where "un_multisig ?u = Some [\<lparr>si_id = 0, si_signature = s\<rparr>]" ..
  then have "st_multisig (finalize gf3_curve bytes_range byte_vm sample_keys F2 ?u) = Some [\<lparr>si_id = 0, si_signature = s\<rparr>]"
    by (simp add: finalize_def Let_def)
  moreover have "kp_public sample_keys = F1" by (simp add: sample_keys_def)
  ultimately show ?thesis
    using finalized_transaction_verifies [OF gf3_curve_laws(1) sample_keys none, of
        "[(sample_keys, F1, 0), (sample_keys, F2, 0)]" _ bytes_range byte_vm F2 "\<lambda>_. hash_zero"] sample_keys
    unfolding Let_def by fastforce
qed


text \<open>
  Unsigned transactions on the wire. The writer counts the source commitments in one byte, the
  reader expects the two bytes of a vector: reading a well-formed unsigned transaction back from its
  own bytes always fails, whatever version the reader's context holds.
\<close>

theorem unsigned_never_reads_back:
  assumes "wire_laws C R V cell_ok module_ok" and "transaction_ok R cell_ok module_ok (finalize C R V keys k u)"
  shows "\<exists>e. from_bytes (read_unsigned_transaction C R V v) (to_bytes (write_unsigned_transaction C R V u)) = Inl e"
proof (rule from_bytes_fails)
  have laws: "scalar_encoding_laws C" "range_encoding_laws R" using assms(1) by (simp_all add: wire_laws_def)
  note sc = strict_serializer.axioms(1) [OF source_commitment_serializer [OF laws(1)]]
  note range = strict_serializer.axioms(1) [OF range_proof_serializer [OF laws(2)]]
  let ?cs = "un_source_commitments u"
  let ?bs = "concat (map (\<lambda>c. to_bytes (write_source_commitment C c)) ?cs)"
  let ?tail = "to_bytes (write_range_proof R (un_range_proof u)) @ to_bytes (write_reference (un_reference u))"
  have ok: "public_key_ok (un_source u)" "data_ok cell_ok module_ok (un_data u)" "?cs \<noteq> []" "length ?cs \<le> 255"
      "\<forall>c \<in> set ?cs. source_commitment_ok c" "range_proof_ok R (un_range_proof u)" "reference_ok (un_reference u)"
    using assms(2) by (simp_all add: transaction_ok_def finalize_def Let_def)
  have count: "(of_nat (length ?cs) :: u8) \<noteq> 0" "unat (of_nat (length ?cs) :: u8) = length ?cs"
    using ok(3,4) by (simp_all add: u8_count)
  have len: "length ?bs = 256 * length ?cs"
    by (rule length_source_commitments [OF laws(1) ok(5)])
  have tail: "length ?tail \<le> 16714"
    using ok(6,7) serializer.size_write [OF range ok(6)] reference.size_write [OF ok(7)]
    by (simp add: range_proof_ok_def Let_def size_range_proof_def size_reference_def size_hash_def HASH_SIZE_def)
  obtain b bs where bs: "?bs = b # bs" using len ok(3) by (cases ?bs) auto
  then have "fails (read_vec (read_source_commitment C)) ([of_nat (length ?cs)] @ ?bs @ ?tail)"
    using len tail count by (auto intro!: read_commitments_fails [OF laws(1)] simp del: length_concat)
  then show "fails (read_unsigned_transaction C R V v) (to_bytes (write_unsigned_transaction C R V u))"
    unfolding read_unsigned_transaction_def write_unsigned_transaction_def using ok
    by (auto simp: codec_simps tx_version.write_append public_key.write_append data_append [OF assms(1)] fee_type.write_append
        serializer.fold_append [OF sc] serializer.to_bytes_elements [OF sc] serializer.write_append [OF range]
        reference.write_append intro!: fails_bind [OF tx_version.read_write] fails_bind [OF public_key.read_write]
        fails_bind [OF data_reads [OF assms(1)]] fails_bind [OF reads_read_u64] fails_bind [OF fee_type.read_write]
        fails_bind_left [where m = "read_vec _"])
qed

theorem unsigned_never_reads_back_witness:
  "\<exists>e. from_bytes (read_unsigned_transaction gf3_curve bytes_range byte_vm T0)
     (to_bytes (write_unsigned_transaction gf3_curve bytes_range byte_vm sample_unsigned)) = Inl e"
  by (rule unsigned_never_reads_back [OF sample_wire_laws sample_transaction_ok])


end
