(* ===== verification/Mempool.thy ===== *)
theory Mempool
  imports HardFork "HOL-Library.Multiset"
begin

text \<open>
  The mempool (\<open>daemon/src/core/mempool.rs\<close>) and the admission of a transaction to it
  (\<open>add_tx_to_mempool_with_storage_and_hash\<close> in \<open>daemon/src/core/blockchain.rs\<close>). The pool keeps the
  pending transactions in arrival order and, for each sender, their hashes by nonce with the
  range of nonces they cover. The verification of a transaction and the storage queries are
  parameters; so are the balances and the multisig setting a sender's cache carries, which the
  pool stores without looking at them. A transaction is what the pool reads of it. Maps keyed by
  hashes iterate in an order of their own; here it is the order of insertion.
\<close>

section \<open>State\<close>

record transaction =
  tx_source :: public_key
  tx_nonce :: u64
  tx_fee :: u64

record sorted_tx =
  st_tx :: transaction
  st_first_seen :: u64
  st_size :: usize

record ('b, 'm) account_cache =
  ac_min :: u64
  ac_max :: u64
  ac_txs :: "hash list"
  ac_balances :: 'b
  ac_multisig :: 'm

type_synonym tx_map = "(hash \<times> sorted_tx) list"

record ('b, 'm) mempool =
  mp_txs :: tx_map
  mp_caches :: "(public_key \<times> ('b, 'm) account_cache) list"

datatype 'e mempool_error = TxTooBig | TxAlreadyInBlockchain | TxAlreadyInMempool
  | TxNonceAlreadyUsed u64 hash | InvalidTxNonceMempoolCache u64 u64 u64 | AccountNotFound
  | TxNotFound hash | VerifyFailed 'e | StorageError | DivisionByZero

definition mempool_new :: "('b, 'm) mempool" where
  "mempool_new = \<lparr>mp_txs = [], mp_caches = []\<rparr>"

text \<open>\<open>LinkedHashMap::insert\<close> moves a present key to the end.\<close>

definition linked_insert :: "'k \<Rightarrow> 'v \<Rightarrow> ('k \<times> 'v) list \<Rightarrow> ('k \<times> 'v) list" where
  "linked_insert k v m = map_remove k m @ [(k, v)]"

section \<open>Account caches\<close>

definition get_next_nonce :: "('b, 'm) account_cache \<Rightarrow> u64" where
  "get_next_nonce c = ac_max c + 1"

definition update_nonce_range :: "u64 \<Rightarrow> ('b, 'm) account_cache \<Rightarrow> ('b, 'm) account_cache" where
  "update_nonce_range nonce c =
     (let c = (if nonce < ac_min c then c\<lparr>ac_min := nonce\<rparr> else c)
      in if nonce > ac_max c then c\<lparr>ac_max := nonce\<rparr> else c)"

definition cache_update :: "u64 \<Rightarrow> hash \<Rightarrow> ('b, 'm) account_cache \<Rightarrow> ('b, 'm) account_cache" where
  "cache_update nonce h c =
     (let c = update_nonce_range nonce c in c\<lparr>ac_txs := snd (index_insert h (ac_txs c))\<rparr>)"

definition has_tx_with_same_nonce :: "u64 \<Rightarrow> ('b, 'm) account_cache \<Rightarrow> 'e mempool_error + hash option" where
  "has_tx_with_same_nonce nonce c =
     (if nonce < ac_min c \<or> nonce > ac_max c \<or> ac_txs c = [] then Inr None
      else if ac_max c + 1 - ac_min c = 0 then Inl DivisionByZero
      else let index = unat ((nonce - ac_min c) mod (ac_max c + 1 - ac_min c))
        in Inr (if index < length (ac_txs c) then Some (ac_txs c ! index) else None))"

definition is_nonce_used :: "public_key \<Rightarrow> u64 \<Rightarrow> ('b, 'm) mempool \<Rightarrow> 'e mempool_error + bool" where
  "is_nonce_used key nonce mp = (case map_of (mp_caches mp) key of
     Some c \<Rightarrow> if nonce \<ge> ac_min c \<and> nonce \<le> ac_max c
       then (case has_tx_with_same_nonce nonce c of Inl e \<Rightarrow> Inl e | Inr r \<Rightarrow> Inr (r \<noteq> None)) else Inr False
   | None \<Rightarrow> Inr False)"

section \<open>Adding\<close>

text \<open>
  \<open>verify mp h tx\<close> is \<open>tx.verify\<close> on the state the pool gives it, followed by \<open>get_sender_cache\<close>: an
  error, or the balances and multisig of the sender after the transaction if it has an entry.
\<close>

definition add_tx :: "(('b, 'm) mempool \<Rightarrow> hash \<Rightarrow> transaction \<Rightarrow> 'e + ('b \<times> 'm) option) \<Rightarrow>
    hash \<Rightarrow> transaction \<Rightarrow> usize \<Rightarrow> u64 \<Rightarrow> ('b, 'm) mempool \<Rightarrow> 'e mempool_error + ('b, 'm) mempool" where
  "add_tx verify h tx tx_size now mp = (case verify mp h tx of Inl e \<Rightarrow> Inl (VerifyFailed e)
     | Inr None \<Rightarrow> Inl AccountNotFound
     | Inr (Some (balances, multisig)) \<Rightarrow>
       let cache = (case map_of (mp_caches mp) (tx_source tx) of
             Some c \<Rightarrow> (cache_update (tx_nonce tx) h c)\<lparr>ac_balances := balances, ac_multisig := multisig\<rparr>
           | None \<Rightarrow> \<lparr>ac_min = tx_nonce tx, ac_max = tx_nonce tx, ac_txs = [h], ac_balances = balances,
               ac_multisig = multisig\<rparr>)
       in Inr (mp\<lparr>mp_caches := map_insert (tx_source tx) cache (mp_caches mp),
            mp_txs := linked_insert h \<lparr>st_tx = tx, st_first_seen = now, st_size = tx_size\<rparr> (mp_txs mp)\<rparr>))"

definition add_tx_to_mempool :: "(hash \<Rightarrow> 'e mempool_error + bool) \<Rightarrow>
    (('b, 'm) mempool \<Rightarrow> hash \<Rightarrow> transaction \<Rightarrow> 'e + ('b \<times> 'm) option) \<Rightarrow>
    hash \<Rightarrow> transaction \<Rightarrow> usize \<Rightarrow> u64 \<Rightarrow> ('b, 'm) mempool \<Rightarrow> 'e mempool_error + ('b, 'm) mempool" where
  "add_tx_to_mempool executed verify h tx tx_size now mp =
     (if tx_size > MAX_TRANSACTION_SIZE then Inl TxTooBig
      else case executed h of Inl e \<Rightarrow> Inl e
      | Inr in_block \<Rightarrow> if in_block then Inl TxAlreadyInBlockchain
        else if map_of (mp_txs mp) h \<noteq> None then Inl TxAlreadyInMempool
        else case map_of (mp_caches mp) (tx_source tx) of
          None \<Rightarrow> add_tx verify h tx tx_size now mp
        | Some cache \<Rightarrow> (case has_tx_with_same_nonce (tx_nonce tx) cache of
            Inl e \<Rightarrow> Inl e
          | Inr (Some h2) \<Rightarrow> Inl (TxNonceAlreadyUsed (tx_nonce tx) h2)
          | Inr None \<Rightarrow>
              if \<not> (tx_nonce tx \<le> ac_max cache + 1 \<and> tx_nonce tx \<ge> ac_min cache)
              then Inl (InvalidTxNonceMempoolCache (tx_nonce tx) (ac_min cache) (ac_max cache))
              else add_tx verify h tx tx_size now mp))"

section \<open>Removing\<close>

text \<open>The bounds loop shared by \<open>remove_tx\<close> and \<open>clean_up\<close>: highest and lowest nonce so far.\<close>

definition widen :: "u64 \<Rightarrow> u64 option \<times> u64 option \<Rightarrow> u64 option \<times> u64 option" where
  "widen n = (\<lambda>(mx, mn). (case mx of None \<Rightarrow> Some n | Some v \<Rightarrow> if v < n then Some n else Some v,
     case mn of None \<Rightarrow> Some n | Some v \<Rightarrow> if v > n then Some n else Some v))"

fun cache_bounds :: "tx_map \<Rightarrow> hash list \<Rightarrow> u64 option \<times> u64 option \<Rightarrow> (u64 option \<times> u64 option) option" where
  "cache_bounds txs [] b = Some b"
| "cache_bounds txs (h # hs) b = (case map_of txs h of None \<Rightarrow> None
     | Some st \<Rightarrow> cache_bounds txs hs (widen (tx_nonce (st_tx st)) b))"

definition remove_tx :: "hash \<Rightarrow> ('b, 'm) mempool \<Rightarrow> ('e mempool_error + unit) \<times> ('b, 'm) mempool" where
  "remove_tx h mp = (case map_of (mp_txs mp) h of None \<Rightarrow> (Inl (TxNotFound h), mp)
     | Some st \<Rightarrow>
       let key = tx_source (st_tx st); mp = mp\<lparr>mp_txs := map_remove h (mp_txs mp)\<rparr> in
       case map_of (mp_caches mp) key of None \<Rightarrow> (Inr (), mp)
       | Some cache \<Rightarrow>
         let cache = cache\<lparr>ac_txs := removeAll h (ac_txs cache)\<rparr> in
         case cache_bounds (mp_txs mp) (ac_txs cache) (None, None) of
           None \<Rightarrow> (Inl (TxNotFound h), mp\<lparr>mp_caches := map_insert key cache (mp_caches mp)\<rparr>)
         | Some (Some mx, Some mn) \<Rightarrow>
             (Inr (), mp\<lparr>mp_caches := map_insert key (cache\<lparr>ac_min := mn, ac_max := mx\<rparr>) (mp_caches mp)\<rparr>)
         | Some _ \<Rightarrow> (Inr (), mp\<lparr>mp_caches := map_remove key (mp_caches mp)\<rparr>))"

definition mempool_clear :: "('b, 'm) mempool \<Rightarrow> ('b, 'm) mempool" where
  "mempool_clear mp = mp\<lparr>mp_txs := [], mp_caches := []\<rparr>"

definition mempool_drain :: "('b, 'm) mempool \<Rightarrow> (hash \<times> transaction) list \<times> ('b, 'm) mempool" where
  "mempool_drain mp = (map (\<lambda>(h, st). (h, st_tx st)) (mp_txs mp), mp\<lparr>mp_txs := [], mp_caches := []\<rparr>)"

section \<open>Cleaning up after a block\<close>

fun delete_txs :: "hash list \<Rightarrow> tx_map \<times> tx_map \<Rightarrow> tx_map \<times> tx_map" where
  "delete_txs [] (txs, deleted) = (txs, deleted)"
| "delete_txs (h # hs) (txs, deleted) = (case map_of txs h of
     Some st \<Rightarrow> delete_txs hs (map_remove h txs, deleted @ [(h, st)])
   | None \<Rightarrow> delete_txs hs (txs, deleted))"

definition compatible :: "tx_map \<Rightarrow> u64 \<Rightarrow> hash \<Rightarrow> bool" where
  "compatible txs nonce h = (case map_of txs h of None \<Rightarrow> False | Some st \<Rightarrow> tx_nonce (st_tx st) \<ge> nonce)"

definition kept_bounds :: "tx_map \<Rightarrow> u64 \<Rightarrow> hash list \<Rightarrow> u64 option \<times> u64 option" where
  "kept_bounds txs nonce hs = fold (\<lambda>h b. case map_of txs h of None \<Rightarrow> b
     | Some st \<Rightarrow> if tx_nonce (st_tx st) \<ge> nonce then widen (tx_nonce (st_tx st)) b else b) hs (None, None)"

text \<open>
  One iteration of the loop over the caches: the pool's transactions, the re-injected caches and
  the deleted transactions so far. \<open>reverify\<close> is the verification of the first transaction left,
  against the pool as it is then, without this sender's cache.
\<close>

definition clean_account :: "(public_key \<Rightarrow> u64 option) \<Rightarrow> (('b, 'm) mempool \<Rightarrow> hash \<Rightarrow> transaction \<Rightarrow> bool) \<Rightarrow>
    public_key \<times> ('b, 'm) account_cache \<Rightarrow> (tx_map \<times> (public_key \<times> ('b, 'm) account_cache) list) \<times> tx_map \<Rightarrow>
    (tx_map \<times> (public_key \<times> ('b, 'm) account_cache) list) \<times> tx_map" where
  "clean_account last_nonce reverify = (\<lambda>(key, cache) ((txs, caches), deleted).
     case last_nonce key of
       None \<Rightarrow> let (txs, deleted) = delete_txs (ac_txs cache) (txs, deleted) in ((txs, caches), deleted)
     | Some nonce \<Rightarrow>
       if nonce < ac_min cache then
         let (txs, deleted) = delete_txs (ac_txs cache) (txs, deleted) in ((txs, caches), deleted)
       else if nonce > ac_min cache then
         let gone = filter (\<lambda>h. \<not> compatible txs nonce h) (ac_txs cache);
             left = filter (compatible txs nonce) (ac_txs cache);
             (mx, mn) = kept_bounds txs nonce (ac_txs cache);
             cache = cache\<lparr>ac_txs := left\<rparr>;
             cache = (case (mn, mx) of (Some mn, Some mx) \<Rightarrow> cache\<lparr>ac_min := mn, ac_max := mx\<rparr> | _ \<Rightarrow> cache);
             no_bounds = (mn = None \<or> mx = None);
             delete_cache = (no_bounds \<or> (gone \<noteq> [] \<and>
               (case left of [] \<Rightarrow> True | h # _ \<Rightarrow> (case map_of txs h of None \<Rightarrow> True
                  | Some st \<Rightarrow> \<not> reverify \<lparr>mp_txs = txs, mp_caches = caches\<rparr> h (st_tx st)))));
             (txs, deleted) = delete_txs (if delete_cache then index_extend left gone else gone) (txs, deleted)
         in ((txs, if delete_cache then caches else map_insert key cache caches), deleted)
       else ((txs, map_insert key cache caches), deleted))"

definition clean_up :: "(public_key \<Rightarrow> u64 option) \<Rightarrow> (('b, 'm) mempool \<Rightarrow> hash \<Rightarrow> transaction \<Rightarrow> bool) \<Rightarrow>
    ('b, 'm) mempool \<Rightarrow> tx_map \<times> ('b, 'm) mempool" where
  "clean_up last_nonce reverify mp =
     (let ((txs, caches), deleted) = fold (clean_account last_nonce reverify) (mp_caches mp) ((mp_txs mp, []), [])
      in (deleted, mp\<lparr>mp_txs := txs, mp_caches := caches\<rparr>))"

section \<open>Fee rates\<close>

text \<open>\<open>None\<close> is a panic: a division by zero.\<close>

definition get_fee_rate_per_kb :: "sorted_tx \<Rightarrow> u64 option" where
  "get_fee_rate_per_kb st = (let kb = (of_nat (st_size st) :: u64) div of_nat BYTES_PER_KB
     in if kb = 0 then None else Some (tx_fee (st_tx st) div kb))"

record fee_rates_estimated =
  fr_low :: u64
  fr_medium :: u64
  fr_high :: u64
  fr_default :: u64

definition internal_estimate_fee_rates :: "u64 list \<Rightarrow> fee_rates_estimated" where
  "internal_estimate_fee_rates fee_rates =
     (let len = length fee_rates; high_count = len * 30 div 100; normal_count = len * 40 div 100 in
      if len = 0 \<or> high_count = 0 \<or> normal_count = 0 then
        \<lparr>fr_low = FEE_PER_KB, fr_medium = FEE_PER_KB, fr_high = FEE_PER_KB, fr_default = FEE_PER_KB\<rparr>
      else let fee_rates = rev (sort fee_rates) in
        \<lparr>fr_low = sum_list (drop (high_count + normal_count) fee_rates) div of_nat (len - high_count - normal_count),
         fr_medium = sum_list (take normal_count (drop high_count fee_rates)) div of_nat normal_count,
         fr_high = sum_list (take high_count fee_rates) div of_nat high_count,
         fr_default = FEE_PER_KB\<rparr>)"

fun fee_rates_of :: "sorted_tx list \<Rightarrow> u64 list option" where
  "fee_rates_of [] = Some []"
| "fee_rates_of (st # sts) = (case get_fee_rate_per_kb st of None \<Rightarrow> None
     | Some r \<Rightarrow> map_option ((#) r) (fee_rates_of sts))"

definition estimate_fee_rates :: "('b, 'm) mempool \<Rightarrow> fee_rates_estimated option" where
  "estimate_fee_rates mp = map_option internal_estimate_fee_rates (fee_rates_of (map snd (mp_txs mp)))"

section \<open>Lemmas\<close>

text \<open>
  The invariant. A sender's hashes stand in the order of their nonces, which fill the range from
  the lowest to the highest without a gap: this is what finding a transaction by its nonce relies
  on. Every pending transaction is listed with its sender.
\<close>

definition account_inv :: "tx_map \<Rightarrow> public_key \<Rightarrow> ('b, 'm) account_cache \<Rightarrow> bool" where
  "account_inv txs key c \<longleftrightarrow> ac_txs c \<noteq> [] \<and> unat (ac_min c) + length (ac_txs c) < 2 ^ 64 \<and>
     unat (ac_max c) + 1 = unat (ac_min c) + length (ac_txs c) \<and>
     (\<forall>i < length (ac_txs c). \<exists>st. map_of txs (ac_txs c ! i) = Some st \<and>
        tx_source (st_tx st) = key \<and> unat (tx_nonce (st_tx st)) = unat (ac_min c) + i)"

definition pool_inv :: "tx_map \<Rightarrow> (public_key \<times> ('b, 'm) account_cache) list \<Rightarrow> bool" where
  "pool_inv txs caches \<longleftrightarrow> distinct (map fst caches) \<and>
     (\<forall>k c. map_of caches k = Some c \<longrightarrow> account_inv txs k c) \<and>
     (\<forall>h st. map_of txs h = Some st \<longrightarrow>
        (\<exists>c. map_of caches (tx_source (st_tx st)) = Some c \<and> h \<in> set (ac_txs c)))"

lemma pool_inv_listed:
  "pool_inv txs caches \<Longrightarrow> map_of txs h = Some st \<Longrightarrow>
     \<exists>c. map_of caches (tx_source (st_tx st)) = Some c \<and> h \<in> set (ac_txs c)"
  unfolding pool_inv_def by blast

lemma pool_inv_account: "pool_inv txs caches \<Longrightarrow> map_of caches k = Some c \<Longrightarrow> account_inv txs k c"
  unfolding pool_inv_def by blast

lemma account_inv_tx:
  assumes "account_inv txs key c" and "h \<in> set (ac_txs c)"
  obtains i st where "i < length (ac_txs c)" "h = ac_txs c ! i" "map_of txs h = Some st"
    "tx_source (st_tx st) = key" "unat (tx_nonce (st_tx st)) = unat (ac_min c) + i"
  using assms unfolding account_inv_def by (metis in_set_conv_nth)

lemma account_inv_listed:
  assumes "account_inv txs key c" and "h \<in> set (ac_txs c)" and "map_of txs h = Some st"
  shows "tx_source (st_tx st) = key \<and> ac_min c \<le> tx_nonce (st_tx st)"
proof -
  obtain i st' where "map_of txs h = Some st'" "tx_source (st_tx st') = key"
    "unat (tx_nonce (st_tx st')) = unat (ac_min c) + i" by (rule account_inv_tx [OF assms(1,2)])
  then show ?thesis using assms(3) by (simp add: word_le_nat_alt)
qed

lemma account_inv_absent:
  assumes "account_inv txs key c" and "map_of txs h = None"
  shows "h \<notin> set (ac_txs c)"
proof
  assume "h \<in> set (ac_txs c)"
  from account_inv_tx [OF assms(1) this] obtain st where "map_of txs h = Some st" by metis
  then show False using assms(2) by simp
qed

lemma lookup_by_nonce:
  assumes "account_inv txs key c"
  shows "has_tx_with_same_nonce n c = Inr (if ac_min c \<le> n \<and> n \<le> ac_max c
    then Some (ac_txs c ! (unat n - unat (ac_min c))) else None)"
proof (cases "ac_min c \<le> n \<and> n \<le> ac_max c")
  case True
  let ?l = "length (ac_txs c)"
  have bound: "unat (ac_min c) + ?l < 2 ^ 64" "unat (ac_max c) + 1 = unat (ac_min c) + ?l" "ac_txs c \<noteq> []"
    using assms by (simp_all add: account_inv_def)
  then have next_nonce: "unat (ac_max c + 1) = unat (ac_min c) + ?l" by (subst unat_add_no_overflow) simp_all
  then have "unat (ac_max c + 1 - ac_min c) = ?l" by (subst unat_sub_le) (simp_all add: word_le_nat_alt)
  moreover have "unat (n - ac_min c) = unat n - unat (ac_min c)" using True by (simp add: unat_sub_le)
  moreover have "unat n - unat (ac_min c) < ?l" using True bound by (auto simp: word_le_nat_alt)
  ultimately have "unat ((n - ac_min c) mod (ac_max c + 1 - ac_min c)) = unat n - unat (ac_min c)"
    and "ac_max c + 1 - ac_min c \<noteq> 0" and "unat n - unat (ac_min c) < ?l"
    using bound by (auto simp: unat_mod)
  then show ?thesis
    using True bound by (simp add: has_tx_with_same_nonce_def Let_def linorder_not_less)
qed (auto simp: has_tx_with_same_nonce_def linorder_not_le)

lemma account_inv_fresh:
  assumes "account_inv txs key c" and "map_of txs h = None"
  shows "account_inv ((h, st) # txs) key c"
  using assms unfolding account_inv_def by (metis map_of_Cons_code(2) option.distinct(1))

lemma account_inv_cong: "map_of txs = map_of txs' \<Longrightarrow> account_inv txs key c \<longleftrightarrow> account_inv txs' key c"
  by (simp add: account_inv_def)

lemma pool_inv_cong: "map_of txs = map_of txs' \<Longrightarrow> pool_inv txs caches \<longleftrightarrow> pool_inv txs' caches"
  by (simp add: pool_inv_def account_inv_def)

lemma map_of_linked_insert [simp]: "map_of (linked_insert k v m) = (map_of m)(k \<mapsto> v)"
  by (auto simp: linked_insert_def fun_eq_iff map_add_def split: option.split)

text \<open>Appending the transaction with the next nonce keeps a sender's cache in order.\<close>

lemma account_inv_snoc:
  assumes "account_inv txs key c" and "map_of txs h = None" and "tx_source tx = key"
    and "unat (tx_nonce tx) = unat (ac_max c) + 1" and "unat (tx_nonce tx) + 1 < 2 ^ 64"
    and "st_tx st = tx" and "ac_min c' = ac_min c" and "ac_max c' = tx_nonce tx" and "ac_txs c' = ac_txs c @ [h]"
  shows "account_inv ((h, st) # txs) key c'"
proof -
  have "\<exists>st'. map_of ((h, st) # txs) (ac_txs c' ! i) = Some st' \<and> tx_source (st_tx st') = key \<and>
      unat (tx_nonce (st_tx st')) = unat (ac_min c') + i" if "i < length (ac_txs c')" for i
  proof (cases "i = length (ac_txs c)")
    case True
    then show ?thesis using assms by (simp add: account_inv_def)
  next
    case False
    then have "i < length (ac_txs c)" using that assms(9) by simp
    then show ?thesis
      using account_inv_fresh [OF assms(1,2), of st] assms(7,9) by (simp add: account_inv_def nth_append)
  qed
  then show ?thesis using assms by (auto simp: account_inv_def)
qed

lemma cache_update_next:
  assumes "unat n = unat (ac_max c) + 1" and "unat (ac_min c) \<le> unat (ac_max c)" and "h \<notin> set (ac_txs c)"
  shows "ac_min (cache_update n h c) = ac_min c" "ac_max (cache_update n h c) = n"
    "ac_txs (cache_update n h c) = ac_txs c @ [h]"
  using assms by (simp_all add: cache_update_def update_nonce_range_def Let_def index_insert_def word_less_nat_alt)

lemma pool_inv_insert:
  assumes "pool_inv txs caches" and "map_of txs h = None" and "tx_source (st_tx st) = key"
    and "account_inv ((h, st) # txs) key c'" and "h \<in> set (ac_txs c')"
    and "\<And>c. map_of caches key = Some c \<Longrightarrow> set (ac_txs c) \<subseteq> set (ac_txs c')"
  shows "pool_inv ((h, st) # txs) (map_insert key c' caches)"
  unfolding pool_inv_def
proof (intro conjI allI impI)
  show "distinct (map fst (map_insert key c' caches))" using assms(1) by (simp add: pool_inv_def distinct_map_insert)
  fix k c assume "map_of (map_insert key c' caches) k = Some c"
  then show "account_inv ((h, st) # txs) k c"
    using assms(1,2,4) by (auto simp: pool_inv_def intro: account_inv_fresh split: if_splits)
next
  fix h2 st2 assume a: "map_of ((h, st) # txs) h2 = Some st2"
  show "\<exists>c. map_of (map_insert key c' caches) (tx_source (st_tx st2)) = Some c \<and> h2 \<in> set (ac_txs c)"
  proof (cases "h2 = h")
    case True
    then show ?thesis using a assms(3,5) by simp
  next
    case False
    then obtain c where "map_of caches (tx_source (st_tx st2)) = Some c" "h2 \<in> set (ac_txs c)"
      using a pool_inv_listed [OF assms(1), of h2 st2] by auto
    then show ?thesis using assms(6) [of c] by auto
  qed
qed

lemma add_tx_inv:
  assumes "pool_inv (mp_txs mp) (mp_caches mp)" and "tx_nonce tx \<noteq> - 1"
    and "add_tx_to_mempool executed verify h tx tx_size now mp = Inr mp'"
  shows "pool_inv (mp_txs mp') (mp_caches mp')"
proof -
  let ?st = "\<lparr>st_tx = tx, st_first_seen = now, st_size = tx_size\<rparr>"
  have fresh: "map_of (mp_txs mp) h = None" and added: "add_tx verify h tx tx_size now mp = Inr mp'"
    using assms(3) by (auto simp: add_tx_to_mempool_def split: if_splits sum.splits option.splits)
  obtain balances multisig where v: "verify mp h tx = Inr (Some (balances, multisig))"
    using added by (auto simp: add_tx_def split: sum.splits option.splits)
  have bound: "unat (tx_nonce tx) + 1 < 2 ^ 64"
  proof -
    have "unat (tx_nonce tx) \<noteq> unat (- 1 :: u64)" using assms(2) by (simp only: word_unat_eq_iff not_False_eq_True)
    then show ?thesis using unat_u64_less [of "tx_nonce tx"] by (simp add: unsigned_minus_1_eq_mask mask_eq_exp_minus_1)
  qed
  have "pool_inv ((h, ?st) # mp_txs mp) (mp_caches mp')"
  proof (cases "map_of (mp_caches mp) (tx_source tx)")
    case None
    let ?c = "\<lparr>ac_min = tx_nonce tx, ac_max = tx_nonce tx, ac_txs = [h], ac_balances = balances, ac_multisig = multisig\<rparr>"
    have "mp_caches mp' = map_insert (tx_source tx) ?c (mp_caches mp)" using added v None by (auto simp: add_tx_def)
    moreover have "account_inv ((h, ?st) # mp_txs mp) (tx_source tx) ?c" using bound by (simp add: account_inv_def)
    ultimately show ?thesis using pool_inv_insert [OF assms(1) fresh, of ?st "tx_source tx" ?c] None by simp
  next
    case (Some c)
    let ?c = "(cache_update (tx_nonce tx) h c)\<lparr>ac_balances := balances, ac_multisig := multisig\<rparr>"
    have inv: "account_inv (mp_txs mp) (tx_source tx) c" using assms(1) Some by (simp add: pool_inv_def)
    then have order: "unat (ac_min c) \<le> unat (ac_max c)" "unat (ac_max c) + 1 < 2 ^ 64"
      by (cases "ac_txs c"; simp add: account_inv_def)+
    have "has_tx_with_same_nonce (tx_nonce tx) c = (Inr None :: 'c mempool_error + hash option)"
      and range: "tx_nonce tx \<le> ac_max c + 1" "tx_nonce tx \<ge> ac_min c"
      using assms(3) fresh Some by (auto simp: add_tx_to_mempool_def split: if_splits sum.splits option.splits)
    then have "\<not> tx_nonce tx \<le> ac_max c" by (auto simp: lookup_by_nonce [OF inv] split: if_splits)
    moreover have "unat (ac_max c + 1) = unat (ac_max c) + 1" using order by (subst unat_add_no_overflow) simp_all
    ultimately have n: "unat (tx_nonce tx) = unat (ac_max c) + 1" using range by (simp add: word_le_nat_alt)
    have "h \<notin> set (ac_txs c)" by (rule account_inv_absent [OF inv fresh])
    note upd = cache_update_next [OF n order(1) this]
    have "account_inv ((h, ?st) # mp_txs mp) (tx_source tx) ?c"
      by (rule account_inv_snoc [OF inv fresh refl n bound]) (simp_all add: upd)
    moreover have "mp_caches mp' = map_insert (tx_source tx) ?c (mp_caches mp)" using added v Some by (auto simp: add_tx_def)
    ultimately show ?thesis using pool_inv_insert [OF assms(1) fresh, of ?st "tx_source tx" ?c] Some upd by auto
  qed
  moreover have "map_of (mp_txs mp') = map_of ((h, ?st) # mp_txs mp)" using added v by (auto simp: add_tx_def Let_def)
  ultimately show ?thesis using pool_inv_cong by blast
qed

text \<open>Deleting transactions, and what it leaves of the other senders.\<close>

definition removes :: "hash set \<Rightarrow> tx_map \<times> tx_map \<Rightarrow> tx_map \<times> tx_map \<Rightarrow> bool" where
  "removes S a b \<longleftrightarrow> map_of (fst b) = map_of (fst a) |` (- S) \<and>
     set (snd b) = set (snd a) \<union> {(h, st). h \<in> S \<and> map_of (fst a) h = Some st}"

lemma removes_refl: "removes {} a a"
  by (simp add: removes_def restrict_map_def)

lemma removes_trans: "removes S a b \<Longrightarrow> removes R b c \<Longrightarrow> removes (S \<union> R) a c"
  by (auto simp: removes_def restrict_map_def split: if_splits)

lemma removes_delete_txs: "removes (set hs) (txs, deleted) (delete_txs hs (txs, deleted))"
proof (induction hs arbitrary: txs deleted)
  case (Cons h hs)
  show ?case
  proof (cases "map_of txs h")
    case None
    then show ?thesis using Cons.IH [of txs deleted] by (auto simp: removes_def restrict_map_def fun_eq_iff)
  next
    case (Some st)
    have "removes {h} (txs, deleted) (map_remove h txs, deleted @ [(h, st)])"
      using Some by (auto simp: removes_def restrict_map_def fun_eq_iff)
    from removes_trans [OF this Cons.IH] show ?thesis using Some by simp
  qed
qed (simp add: removes_refl)

lemma account_inv_other:
  assumes "account_inv txs k c" and "account_inv txs k' c'" and "k' \<noteq> k"
    and "map_of txs' = map_of txs |` (- S)" and "S \<subseteq> set (ac_txs c)"
  shows "account_inv txs' k' c'"
proof -
  have "map_of txs' (ac_txs c' ! i) = map_of txs (ac_txs c' ! i)" if i: "i < length (ac_txs c')" for i
  proof -
    obtain st where st: "map_of txs (ac_txs c' ! i) = Some st" "tx_source (st_tx st) = k'"
      using assms(2) i unfolding account_inv_def by metis
    have "ac_txs c' ! i \<notin> set (ac_txs c)"
    proof
      assume "ac_txs c' ! i \<in> set (ac_txs c)"
      from account_inv_tx [OF assms(1) this] st assms(3) show False by (metis option.inject)
    qed
    then show ?thesis using assms(4,5) by (auto simp: restrict_map_def)
  qed
  then show ?thesis using assms(2) unfolding account_inv_def by (metis (no_types, lifting))
qed

lemma map_of_middle:
  "distinct (map fst (A @ (k, c) # B)) \<Longrightarrow>
     map_of (A @ (k, c) # B) x = (if x = k then Some c else map_of (A @ B) x)"
  by (induction A) auto

lemma pool_inv_drop:
  assumes inv: "pool_inv txs (A @ (k, c) # B)" and txs': "map_of txs' = map_of txs |` (- set (ac_txs c))"
  shows "pool_inv txs' (A @ B)"
proof -
  have d: "distinct (map fst (A @ (k, c) # B))" using inv by (simp add: pool_inv_def)
  note m = map_of_middle [OF d]
  have "map_of (A @ B) k = None" using d by (auto simp: map_of_eq_None_iff)
  moreover have "account_inv txs k c" using pool_inv_account [OF inv, of k c] m by simp
  ultimately have "account_inv txs' k' c'" if "map_of (A @ B) k' = Some c'" for k' c'
    using that account_inv_other [OF _ pool_inv_account [OF inv] _ txs' subset_refl] m
    by (metis option.distinct(1))
  moreover have "\<exists>c'. map_of (A @ B) (tx_source (st_tx st)) = Some c' \<and> h \<in> set (ac_txs c')"
    if "map_of txs' h = Some st" for h st
  proof -
    have "map_of txs h = Some st" and "h \<notin> set (ac_txs c)"
      using that txs' by (auto simp: restrict_map_def split: if_splits)
    then show ?thesis using pool_inv_listed [OF inv, of h st] m by (auto split: if_splits)
  qed
  ultimately show ?thesis using d by (auto simp: pool_inv_def)
qed

lemma pool_inv_replace:
  assumes inv: "pool_inv txs (A @ (k, c) # B)" and txs': "map_of txs' = map_of txs |` (- S)"
    and S: "S \<subseteq> set (ac_txs c)" and c': "account_inv txs' k c'" "set (ac_txs c) - S \<subseteq> set (ac_txs c')"
  shows "pool_inv txs' (A @ (k, c') # B)"
proof -
  have d: "distinct (map fst (A @ (k, c) # B))" using inv by (simp add: pool_inv_def)
  then have d': "distinct (map fst (A @ (k, c') # B))" by simp
  note m = map_of_middle [OF d] map_of_middle [OF d']
  have k: "account_inv txs k c" using pool_inv_account [OF inv, of k c] m by simp
  have "account_inv txs' k' c2" if "map_of (A @ (k, c') # B) k' = Some c2" for k' c2
    using that c'(1) account_inv_other [OF k pool_inv_account [OF inv] _ txs' S, of k' c2] m
    by (cases "k' = k") auto
  moreover have "\<exists>c2. map_of (A @ (k, c') # B) (tx_source (st_tx st)) = Some c2 \<and> h \<in> set (ac_txs c2)"
    if "map_of txs' h = Some st" for h st
  proof -
    have "map_of txs h = Some st" and "h \<notin> S"
      using that txs' by (auto simp: restrict_map_def split: if_splits)
    then show ?thesis using pool_inv_listed [OF inv, of h st] m c'(2) by (auto split: if_splits)
  qed
  ultimately show ?thesis using d' unfolding pool_inv_def by blast
qed

text \<open>The transactions of a sender from a nonce on: a suffix, whose bounds the loop finds.\<close>

lemma filter_suffix:
  "(\<And>i. i < length xs \<Longrightarrow> P (xs ! i) \<longleftrightarrow> j \<le> i) \<Longrightarrow>
     filter P xs = drop j xs \<and> filter (\<lambda>x. \<not> P x) xs = take j xs"
proof (induction xs arbitrary: j)
  case (Cons x xs)
  have tail: "P (xs ! i) \<longleftrightarrow> j - 1 \<le> i" if "i < length xs" for i
    using Cons.prems [of "Suc i"] that by auto
  show ?case
  proof (cases j)
    case 0
    then show ?thesis using Cons.prems [of 0] Cons.IH [of 0] tail by simp
  next
    case (Suc m)
    then show ?thesis using Cons.prems [of 0] Cons.IH [of m] tail by simp
  qed
qed simp

definition consecutive :: "tx_map \<Rightarrow> nat \<Rightarrow> hash list \<Rightarrow> bool" where
  "consecutive txs m hs \<longleftrightarrow> m + length hs < 2 ^ 64 \<and>
     (\<forall>i < length hs. \<exists>st. map_of txs (hs ! i) = Some st \<and> unat (tx_nonce (st_tx st)) = m + i)"

lemma account_inv_consecutive: "account_inv txs k c \<Longrightarrow> consecutive txs (unat (ac_min c)) (ac_txs c)"
  unfolding account_inv_def consecutive_def by blast

lemma consecutive_compatible:
  assumes "consecutive txs m hs" and "i < length hs"
  shows "compatible txs n (hs ! i) \<longleftrightarrow> unat n - m \<le> i"
proof -
  obtain st where "map_of txs (hs ! i) = Some st" "unat (tx_nonce (st_tx st)) = m + i"
    using assms unfolding consecutive_def by blast
  then show ?thesis by (auto simp: compatible_def word_le_nat_alt)
qed

lemma kept_bounds_consecutive:
  "consecutive txs m hs \<Longrightarrow> m \<le> unat n \<Longrightarrow> kept_bounds txs n hs =
     (if m + length hs \<le> unat n then (None, None) else (Some (of_nat (m + length hs - 1)), Some n))"
proof (induction hs rule: rev_induct)
  case (snoc h hs)
  have last: "\<exists>st. map_of txs h = Some st \<and> unat (tx_nonce (st_tx st)) = m + length hs"
    and bound: "m + length hs < 2 ^ 64" using snoc.prems(1)
    by (auto simp: consecutive_def dest: spec [of _ "length hs"])
  then obtain st where st: "map_of txs h = Some st" "tx_nonce (st_tx st) = of_nat (m + length hs)"
    by (metis of_nat_unat_id)
  have u: "unat (of_nat (m + length hs) :: u64) = m + length hs" using bound by (rule unat_of_nat_u64)
  have "consecutive txs m hs" using snoc.prems(1) unfolding consecutive_def
    by (auto simp: nth_append dest: less_SucI)
  then have IH: "kept_bounds txs n hs =
     (if m + length hs \<le> unat n then (None, None) else (Some (of_nat (m + length hs - 1)), Some n))"
    using snoc.IH snoc.prems(2) by blast
  have step: "kept_bounds txs n (hs @ [h]) = (if unat n \<le> m + length hs
      then widen (of_nat (m + length hs)) (kept_bounds txs n hs) else kept_bounds txs n hs)"
    using st u by (simp add: kept_bounds_def word_le_nat_alt del: of_nat_add)
  have u': "unat (of_nat (m + length hs - 1) :: u64) = m + length hs - 1" using bound by (intro unat_of_nat_u64) simp
  show ?case
  proof (cases "m + length hs \<le> unat n")
    case True
    then have "unat n \<le> m + length hs \<Longrightarrow> of_nat (m + length hs) = n" by (metis le_antisym of_nat_unat_id)
    then show ?thesis using True unfolding step IH by (auto simp: widen_def simp del: of_nat_add)
  next
    case False
    then show ?thesis using u u' unfolding step IH
      by (auto simp: widen_def word_less_nat_alt simp del: of_nat_add)
  qed
qed (simp add: kept_bounds_def)

lemma account_inv_suffix:
  assumes "account_inv txs k c" and "ac_min c < n" and "unat n < unat (ac_min c) + length (ac_txs c)"
    and "j = unat n - unat (ac_min c)" and "map_of txs' = map_of txs |` (- set (take j (ac_txs c)))"
  shows "account_inv txs' k (c\<lparr>ac_txs := drop j (ac_txs c), ac_min := n,
    ac_max := of_nat (unat (ac_min c) + length (ac_txs c) - 1)\<rparr>)"
proof -
  let ?m = "unat (ac_min c)"
  have lt: "?m < unat n" using assms(2) by (simp add: word_less_nat_alt)
  have bound: "?m + length (ac_txs c) < 2 ^ 64" using assms(1) by (simp add: account_inv_def)
  have nonce: "\<exists>st. map_of txs (ac_txs c ! i) = Some st \<and> tx_source (st_tx st) = k \<and> unat (tx_nonce (st_tx st)) = ?m + i"
    if "i < length (ac_txs c)" for i using assms(1) that unfolding account_inv_def by blast
  have "\<exists>st. map_of txs' (ac_txs c ! (j + i)) = Some st \<and> tx_source (st_tx st) = k \<and>
      unat (tx_nonce (st_tx st)) = unat n + i" if i: "i < length (ac_txs c) - j" for i
  proof -
    have len: "j + i < length (ac_txs c)" using i by simp
    obtain st where st: "map_of txs (ac_txs c ! (j + i)) = Some st" "tx_source (st_tx st) = k"
      "unat (tx_nonce (st_tx st)) = ?m + (j + i)" using nonce [OF len] by blast
    have "ac_txs c ! (j + i) \<notin> set (take j (ac_txs c))"
    proof
      assume "ac_txs c ! (j + i) \<in> set (take j (ac_txs c))"
      then obtain i' where "i' < j" "ac_txs c ! i' = ac_txs c ! (j + i)" "i' < length (ac_txs c)"
        by (auto simp: in_set_conv_nth)
      then show False using nonce [of i'] st by auto
    qed
    then show ?thesis using st assms(4,5) lt by (auto simp: restrict_map_def)
  qed
  moreover define mx :: u64 where "mx = of_nat (?m + length (ac_txs c) - 1)"
  moreover have "unat mx = ?m + length (ac_txs c) - 1" unfolding mx_def using bound by (simp add: unat_of_nat)
  ultimately show ?thesis using assms(3,4) lt bound
    unfolding mx_def [symmetric] by (auto simp: account_inv_def)
qed

lemma clean_account_above:
  assumes inv: "account_inv txs k c" and n: "last_nonce k = Some n" "ac_min c < n"
    and j: "j = unat n - unat (ac_min c)"
  shows "\<exists>hs. set hs = set (ac_txs c) \<and> clean_account last_nonce reverify (k, c) ((txs, caches), deleted) =
       (let (txs, deleted) = delete_txs hs (txs, deleted) in ((txs, caches), deleted))
   \<or> unat n < unat (ac_min c) + length (ac_txs c) \<and>
     clean_account last_nonce reverify (k, c) ((txs, caches), deleted) =
       (let (txs, deleted) = delete_txs (take j (ac_txs c)) (txs, deleted)
        in ((txs, map_insert k (c\<lparr>ac_txs := drop j (ac_txs c), ac_min := n,
              ac_max := of_nat (unat (ac_min c) + length (ac_txs c) - 1)\<rparr>) caches), deleted))"
proof -
  let ?m = "unat (ac_min c)" and ?hs = "index_extend (drop j (ac_txs c)) (take j (ac_txs c))"
    and ?left = "filter (compatible txs n) (ac_txs c)" and ?gone = "filter (\<lambda>h. \<not> compatible txs n h) (ac_txs c)"
  have le: "?m \<le> unat n" using n(2) by (simp add: word_less_nat_alt)
  note con = account_inv_consecutive [OF inv]
  have parts: "filter (compatible txs n) (ac_txs c) = drop j (ac_txs c)"
    "filter (\<lambda>h. \<not> compatible txs n h) (ac_txs c) = take j (ac_txs c)"
    using filter_suffix [of "ac_txs c" "compatible txs n" j] consecutive_compatible [OF con] j by auto
  note bounds = kept_bounds_consecutive [OF con le]
  have hs: "set ?hs = set (ac_txs c)" by (metis append_take_drop_id set_append set_index_extend Un_commute)
  have "\<not> n < ac_min c" using n(2) by simp
  then have "clean_account last_nonce reverify (k, c) ((txs, caches), deleted) =
    (let (mx, mn) = kept_bounds txs n (ac_txs c);
         cache = c\<lparr>ac_txs := ?left\<rparr>;
         cache = (case (mn, mx) of (Some mn, Some mx) \<Rightarrow> cache\<lparr>ac_min := mn, ac_max := mx\<rparr> | _ \<Rightarrow> cache);
         delete_cache = ((mn = None \<or> mx = None) \<or> (?gone \<noteq> [] \<and>
           (case ?left of [] \<Rightarrow> True | h # _ \<Rightarrow> (case map_of txs h of None \<Rightarrow> True
              | Some st \<Rightarrow> \<not> reverify \<lparr>mp_txs = txs, mp_caches = caches\<rparr> h (st_tx st)))));
         (txs, deleted) = delete_txs (if delete_cache then index_extend ?left ?gone else ?gone) (txs, deleted)
     in ((txs, if delete_cache then caches else map_insert k cache caches), deleted))"
    using n by (simp add: clean_account_def Let_def)
  note unfolded = this [unfolded parts]
  show ?thesis
  proof (cases "?m + length (ac_txs c) \<le> unat n")
    case True
    then have "clean_account last_nonce reverify (k, c) ((txs, caches), deleted) =
       (let (txs, deleted) = delete_txs ?hs (txs, deleted) in ((txs, caches), deleted))"
      unfolding unfolded bounds by (simp add: Let_def split: prod.split)
    then show ?thesis using hs by blast
  next
    case False
    define D where "D \<longleftrightarrow> take j (ac_txs c) \<noteq> [] \<and>
       (case drop j (ac_txs c) of [] \<Rightarrow> True | h # _ \<Rightarrow> (case map_of txs h of None \<Rightarrow> True
          | Some st \<Rightarrow> \<not> reverify \<lparr>mp_txs = txs, mp_caches = caches\<rparr> h (st_tx st)))"
    show ?thesis
    proof (cases D)
      case True
      then have "clean_account last_nonce reverify (k, c) ((txs, caches), deleted) =
         (let (txs, deleted) = delete_txs ?hs (txs, deleted) in ((txs, caches), deleted))"
        unfolding unfolded bounds D_def [symmetric] using False by (simp add: Let_def split: prod.split)
      then show ?thesis using hs by blast
    next
      case no_D: False
      then have "clean_account last_nonce reverify (k, c) ((txs, caches), deleted) =
       (let (txs, deleted) = delete_txs (take j (ac_txs c)) (txs, deleted)
        in ((txs, map_insert k (c\<lparr>ac_txs := drop j (ac_txs c), ac_min := n,
              ac_max := of_nat (unat (ac_min c) + length (ac_txs c) - 1)\<rparr>) caches), deleted))"
        unfolding unfolded bounds D_def [symmetric] using False by (simp add: Let_def split: prod.split del: of_nat_add of_nat_diff)
      then show ?thesis using False by auto
    qed
  qed
qed

lemma removes_delete_eq: "delete_txs hs (txs, d) = (txs', d') \<Longrightarrow> removes (set hs) (txs, d) (txs', d')"
  using removes_delete_txs [of hs txs d] by simp

lemma delete_account:
  assumes "pool_inv txs (ds @ (k, c) # cs)" and "set hs = set (ac_txs c)"
    and "delete_txs hs (txs, deleted) = (txs', deleted')"
  shows "removes (set (ac_txs c)) (txs, deleted) (txs', deleted') \<and> pool_inv txs' (ds @ cs)"
  using removes_delete_eq [OF assms(3)] assms(2) pool_inv_drop [OF assms(1), of txs']
  by (simp add: removes_def)

text \<open>
  One sender cleaned up: its cache goes, or stays with the stored nonce as its lowest one; a
  sender whose lowest pending nonce is the stored one loses nothing.
\<close>

definition cleaned :: "(public_key \<Rightarrow> u64 option) \<Rightarrow> public_key \<Rightarrow> ('b, 'm) account_cache \<Rightarrow> hash set \<Rightarrow>
    (public_key \<times> ('b, 'm) account_cache) list \<Rightarrow> bool" where
  "cleaned last_nonce k c S new \<longleftrightarrow> S \<subseteq> set (ac_txs c) \<and> (last_nonce k = Some (ac_min c) \<longrightarrow> S = {}) \<and>
     (new = [] \<or> (\<exists>c'. new = [(k, c')] \<and> last_nonce k = Some (ac_min c')))"

lemma clean_account_step:
  assumes inv: "pool_inv txs (ds @ (k, c) # cs)"
    and step: "clean_account last_nonce reverify (k, c) ((txs, ds), deleted) = ((txs', ds'), deleted')"
  shows "\<exists>S new. removes S (txs, deleted) (txs', deleted') \<and> ds' = ds @ new \<and> pool_inv txs' (ds @ new @ cs) \<and>
    cleaned last_nonce k c S new"
proof -
  have d: "distinct (map fst (ds @ (k, c) # cs))" using inv by (simp add: pool_inv_def)
  then have new: "map_insert k x ds = ds @ [(k, x)]" for x by (intro map_insert_new) auto
  have acc: "account_inv txs k c" using pool_inv_account [OF inv, of k c] map_of_middle [OF d, of k] by simp
  have gone: ?thesis if "set hs = set (ac_txs c)" and "last_nonce k \<noteq> Some (ac_min c)"
    and "clean_account last_nonce reverify (k, c) ((txs, ds), deleted) =
      (let (txs, deleted) = delete_txs hs (txs, deleted) in ((txs, ds), deleted))" for hs
    using delete_account [OF inv that(1)] that step
    by (intro exI [of _ "set (ac_txs c)"] exI [of _ "[]"]) (auto simp: cleaned_def split: prod.splits)
  consider "last_nonce k = None" | n where "last_nonce k = Some n" "n < ac_min c"
    | n where "last_nonce k = Some n" "ac_min c < n" | "last_nonce k = Some (ac_min c)"
    by (cases "last_nonce k") (auto intro: linorder_cases)
  then show ?thesis
  proof cases
    case 1
    then show ?thesis by (intro gone [of "ac_txs c"]) (auto simp: clean_account_def)
  next
    case 2
    then show ?thesis by (intro gone [of "ac_txs c"]) (auto simp: clean_account_def)
  next
    case (3 n)
    let ?j = "unat n - unat (ac_min c)"
    let ?c = "c\<lparr>ac_txs := drop ?j (ac_txs c), ac_min := n, ac_max := of_nat (unat (ac_min c) + length (ac_txs c) - 1)\<rparr>"
    have ne: "last_nonce k \<noteq> Some (ac_min c)" using 3 by auto
    from clean_account_above [where last_nonce = last_nonce and j = ?j, OF acc 3 refl, of reverify ds deleted] show ?thesis
    proof (elim exE disjE conjE)
      assume n: "unat n < unat (ac_min c) + length (ac_txs c)" and "clean_account last_nonce reverify (k, c) ((txs, ds), deleted) =
        (let (txs, deleted) = delete_txs (take ?j (ac_txs c)) (txs, deleted) in ((txs, map_insert k ?c ds), deleted))"
      then have del: "delete_txs (take ?j (ac_txs c)) (txs, deleted) = (txs', deleted')" and ds': "ds' = ds @ [(k, ?c)]"
        using step new by (auto simp: Let_def split: prod.splits simp del: of_nat_add of_nat_diff)
      note r = removes_delete_eq [OF del]
      then have txs': "map_of txs' = map_of txs |` (- set (take ?j (ac_txs c)))" by (simp add: removes_def)
      have "account_inv txs' k ?c" by (rule account_inv_suffix [OF acc 3(2) n refl txs'])
      moreover have "set (ac_txs c) - set (take ?j (ac_txs c)) \<subseteq> set (ac_txs ?c)"
        using set_append [of "take ?j (ac_txs c)" "drop ?j (ac_txs c)"] by auto
      ultimately have "pool_inv txs' (ds @ (k, ?c) # cs)"
        using pool_inv_replace [OF inv txs' set_take_subset] by blast
      moreover have "cleaned last_nonce k c (set (take ?j (ac_txs c))) [(k, ?c)]"
        using 3 ne by (simp add: cleaned_def set_take_subset)
      ultimately show ?thesis using r ds' by (metis append_Cons append_Nil)
    qed (rule gone [OF _ ne])
  next
    case 4
    then have "txs' = txs" "deleted' = deleted" "ds' = ds @ [(k, c)]" using step new by (auto simp: clean_account_def)
    then show ?thesis using inv 4
      by (intro exI [of _ "{}"] exI [of _ "[(k, c)]"]) (simp add: removes_refl cleaned_def)
  qed
qed

lemma clean_fold:
  assumes "pool_inv txs (ds @ cs)"
    and "fold (clean_account last_nonce reverify) cs ((txs, ds), deleted) = ((txs', ds'), deleted')"
  shows "\<exists>S new. removes S (txs, deleted) (txs', deleted') \<and> ds' = ds @ new \<and> pool_inv txs' ds' \<and>
    (\<forall>h \<in> S. \<exists>(k, c) \<in> set cs. h \<in> set (ac_txs c) \<and> last_nonce k \<noteq> Some (ac_min c)) \<and>
    (\<forall>(k, c) \<in> set new. last_nonce k = Some (ac_min c))"
  using assms
proof (induction cs arbitrary: txs ds deleted)
  case Nil
  then show ?case by (intro exI [of _ "{}"] exI [of _ "[]"]) (simp add: removes_refl)
next
  case (Cons e cs)
  obtain k c where e: "e = (k, c)" by force
  obtain txs1 ds1 d1 where step: "clean_account last_nonce reverify (k, c) ((txs, ds), deleted) = ((txs1, ds1), d1)"
    by (metis prod.exhaust)
  have inv: "pool_inv txs (ds @ (k, c) # cs)" using Cons.prems(1) e by simp
  obtain S new where one: "removes S (txs, deleted) (txs1, d1)" "ds1 = ds @ new" "pool_inv txs1 (ds1 @ cs)"
    "cleaned last_nonce k c S new" using clean_account_step [OF inv step] by auto
  have rest: "fold (clean_account last_nonce reverify) cs ((txs1, ds1), d1) = ((txs', ds'), deleted')"
    using Cons.prems(2) e step by simp
  obtain R rest where two: "removes R (txs1, d1) (txs', deleted')" "ds' = ds1 @ rest" "pool_inv txs' ds'"
    "\<forall>h \<in> R. \<exists>(k, c) \<in> set cs. h \<in> set (ac_txs c) \<and> last_nonce k \<noteq> Some (ac_min c)"
    "\<forall>(k, c) \<in> set rest. last_nonce k = Some (ac_min c)"
    using Cons.IH [OF one(3) rest] by auto
  have "\<forall>h \<in> S \<union> R. \<exists>(k, c) \<in> set (e # cs). h \<in> set (ac_txs c) \<and> last_nonce k \<noteq> Some (ac_min c)"
    using one(4) two(4) e by (auto simp: cleaned_def)
  moreover have "\<forall>(k, c) \<in> set (new @ rest). last_nonce k = Some (ac_min c)"
    using one(4) two(5) by (auto simp: cleaned_def)
  ultimately show ?case using removes_trans [OF one(1) two(1)] one(2) two(2,3)
    by (intro exI [of _ "S \<union> R"] exI [of _ "new @ rest"]) auto
qed

text \<open>
  The mempools a node can have: transactions are admitted through
  \<open>add_tx_to_mempool_with_storage_and_hash\<close>, and the pool is cleaned up after a block, cleared or
  drained, whatever the storage and the verification say at each step. The greatest nonce is left
  out: an account would have to send \<open>2 ^ 64 - 1\<close> transactions to get there.
\<close>

inductive mempool_reachable :: "('b, 'm) mempool \<Rightarrow> bool" where
  new_pool: "mempool_reachable mempool_new"
| added: "mempool_reachable mp \<Longrightarrow> tx_nonce tx \<noteq> - 1 \<Longrightarrow>
    add_tx_to_mempool executed verify h tx tx_size now mp = (Inr mp' :: string mempool_error + ('b, 'm) mempool) \<Longrightarrow>
    mempool_reachable mp'"
| cleaned_up: "mempool_reachable mp \<Longrightarrow> clean_up last_nonce reverify mp = (deleted, mp') \<Longrightarrow> mempool_reachable mp'"
| cleared: "mempool_reachable mp \<Longrightarrow> mempool_reachable (mempool_clear mp)"
| drained: "mempool_reachable mp \<Longrightarrow> mempool_drain mp = (txs, mp') \<Longrightarrow> mempool_reachable mp'"

lemma pool_inv_empty: "pool_inv [] []"
  by (simp add: pool_inv_def)

lemma clean_up_fold:
  assumes "pool_inv (mp_txs mp) (mp_caches mp)" and "clean_up last_nonce reverify mp = (deleted, mp')"
  shows "\<exists>S. removes S (mp_txs mp, []) (mp_txs mp', deleted) \<and> pool_inv (mp_txs mp') (mp_caches mp') \<and>
    (\<forall>h \<in> S. \<exists>(k, c) \<in> set (mp_caches mp). h \<in> set (ac_txs c) \<and> last_nonce k \<noteq> Some (ac_min c)) \<and>
    (\<forall>(k, c) \<in> set (mp_caches mp'). last_nonce k = Some (ac_min c))"
proof -
  obtain txs caches where f: "fold (clean_account last_nonce reverify) (mp_caches mp) ((mp_txs mp, []), []) =
      ((txs, caches), deleted)" and mp': "mp' = mp\<lparr>mp_txs := txs, mp_caches := caches\<rparr>"
    using assms(2) by (auto simp: clean_up_def split: prod.splits)
  show ?thesis using clean_fold [OF _ f] assms(1) mp' by auto
qed

lemma mempool_reachable_inv: "mempool_reachable mp \<Longrightarrow> pool_inv (mp_txs mp) (mp_caches mp)"
proof (induction rule: mempool_reachable.induct)
  case (added mp tx executed verify h tx_size now mp')
  then show ?case using add_tx_inv by blast
next
  case (cleaned_up mp last_nonce reverify deleted mp')
  then show ?case using clean_up_fold by blast
qed (auto simp: mempool_new_def mempool_clear_def mempool_drain_def pool_inv_empty)

section \<open>Properties\<close>

text \<open>
  C31. Finding a pending transaction by its nonce. In every mempool a node can reach, looking up a
  nonce in a sender's cache does not panic, and the answer is exact: a hash is returned exactly
  when it is that of a pending transaction of this sender with this nonce. So no two pending
  transactions share sender and nonce.
\<close>

theorem nonce_lookup_exact:
  assumes "mempool_reachable mp" and "map_of (mp_caches mp) key = Some c"
  shows "\<exists>r. has_tx_with_same_nonce n c = (Inr r :: string mempool_error + hash option) \<and>
    (\<forall>h. r = Some h \<longleftrightarrow> (\<exists>st. map_of (mp_txs mp) h = Some st \<and> tx_source (st_tx st) = key \<and> tx_nonce (st_tx st) = n))"
proof -
  note inv = mempool_reachable_inv [OF assms(1)]
  note acc = pool_inv_account [OF inv assms(2)]
  let ?found = "ac_txs c ! (unat n - unat (ac_min c))"
  have sound: "\<exists>st. map_of (mp_txs mp) ?found = Some st \<and> tx_source (st_tx st) = key \<and> tx_nonce (st_tx st) = n"
    if "ac_min c \<le> n" "n \<le> ac_max c"
  proof -
    have "unat n - unat (ac_min c) < length (ac_txs c)" "unat (ac_min c) \<le> unat n"
      using that acc by (auto simp: account_inv_def word_le_nat_alt)
    then show ?thesis using acc unfolding account_inv_def by (metis le_add_diff_inverse word_unat_eq_iff)
  qed
  have complete: "ac_min c \<le> n \<and> n \<le> ac_max c \<and> h = ?found"
    if "map_of (mp_txs mp) h = Some st" "tx_source (st_tx st) = key" "tx_nonce (st_tx st) = n" for h st
  proof -
    have "h \<in> set (ac_txs c)" using pool_inv_listed [OF inv that(1)] that(2) assms(2) by simp
    then obtain i st' where "i < length (ac_txs c)" "h = ac_txs c ! i" "map_of (mp_txs mp) h = Some st'"
      "unat (tx_nonce (st_tx st')) = unat (ac_min c) + i" by (rule account_inv_tx [OF acc])
    moreover have "unat (ac_max c) + 1 = unat (ac_min c) + length (ac_txs c)" using acc by (simp add: account_inv_def)
    ultimately show ?thesis using that by (auto simp: word_le_nat_alt)
  qed
  show ?thesis unfolding lookup_by_nonce [OF acc] using sound complete by auto
qed

definition sample_tx :: "u8 \<Rightarrow> u64 \<Rightarrow> transaction" where
  "sample_tx b n = \<lparr>tx_source = PublicKey (replicate 32 b), tx_nonce = n, tx_fee = 1000\<rparr>"

definition sample_pool :: "(unit, unit) mempool" where
  "sample_pool = \<lparr>mp_txs = [(Hash [1], \<lparr>st_tx = sample_tx 1 4, st_first_seen = 0, st_size = 2048\<rparr>),
      (Hash [2], \<lparr>st_tx = sample_tx 1 5, st_first_seen = 0, st_size = 2048\<rparr>),
      (Hash [3], \<lparr>st_tx = sample_tx 2 0, st_first_seen = 0, st_size = 2048\<rparr>)],
    mp_caches = [(PublicKey (replicate 32 1), \<lparr>ac_min = 4, ac_max = 5, ac_txs = [Hash [1], Hash [2]],
        ac_balances = (), ac_multisig = ()\<rparr>),
      (PublicKey (replicate 32 2), \<lparr>ac_min = 0, ac_max = 0, ac_txs = [Hash [3]],
        ac_balances = (), ac_multisig = ()\<rparr>)]\<rparr>"

lemma sample_pool_reachable: "mempool_reachable sample_pool"
proof -
  let ?add = "\<lambda>h tx. add_tx_to_mempool (\<lambda>_. Inr False) (\<lambda>_ _ _. Inr (Some ((), ()))) h tx 2048 0
     :: (unit, unit) mempool \<Rightarrow> string mempool_error + (unit, unit) mempool"
  let ?first = "\<lparr>mp_txs = take 1 (mp_txs sample_pool),
      mp_caches = [(PublicKey (replicate 32 1), \<lparr>ac_min = 4, ac_max = 4, ac_txs = [Hash [1]],
        ac_balances = (), ac_multisig = ()\<rparr>)]\<rparr>"
  let ?second = "sample_pool\<lparr>mp_txs := take 2 (mp_txs sample_pool), mp_caches := take 1 (mp_caches sample_pool)\<rparr>"
  have steps: "?add (Hash [1]) (sample_tx 1 4) mempool_new = Inr ?first"
    "?add (Hash [2]) (sample_tx 1 5) ?first = Inr ?second" "?add (Hash [3]) (sample_tx 2 0) ?second = Inr sample_pool"
    by (simp_all add: sample_pool_def sample_tx_def mempool_new_def add_tx_to_mempool_def add_tx_def cache_update_def
        update_nonce_range_def has_tx_with_same_nonce_def linked_insert_def map_remove_def index_insert_def
        MAX_TRANSACTION_SIZE_def BYTES_PER_KB_def)
  have "mempool_reachable ?first" by (rule added [OF new_pool _ steps(1)]) (simp add: sample_tx_def)
  then have "mempool_reachable ?second" by (rule added [OF _ _ steps(2)]) (simp add: sample_tx_def)
  then show ?thesis by (rule added [OF _ _ steps(3)]) (simp add: sample_tx_def)
qed

theorem nonce_lookup_exact_witness:
  "\<exists>r. has_tx_with_same_nonce 5 (snd (hd (mp_caches sample_pool))) = (Inr r :: string mempool_error + hash option) \<and>
    (\<forall>h. r = Some h \<longleftrightarrow> (\<exists>st. map_of (mp_txs sample_pool) h = Some st \<and>
      tx_source (st_tx st) = PublicKey (replicate 32 1) \<and> tx_nonce (st_tx st) = 5))"
  by (rule nonce_lookup_exact [OF sample_pool_reachable]) (simp add: sample_pool_def)

text \<open>
  C32. Cleaning up after a block. Every sender that keeps pending transactions has its stored nonce
  as its lowest pending one; the deleted transactions returned are exactly those that left the
  pool; a transaction that stays has a nonce not below the stored one, and a sender whose lowest
  pending nonce already was the stored one loses nothing.
\<close>

theorem clean_up_aligns:
  assumes "mempool_reachable mp" and "clean_up last_nonce reverify mp = (deleted, mp')"
  shows "(\<forall>k c. map_of (mp_caches mp') k = Some c \<longrightarrow> last_nonce k = Some (ac_min c)) \<and>
    map_of (mp_txs mp') \<subseteq>\<^sub>m map_of (mp_txs mp) \<and>
    (\<forall>h st. (h, st) \<in> set deleted \<longleftrightarrow> map_of (mp_txs mp) h = Some st \<and> map_of (mp_txs mp') h = None) \<and>
    (\<forall>h st. map_of (mp_txs mp') h = Some st \<longrightarrow>
      (\<exists>n. last_nonce (tx_source (st_tx st)) = Some n \<and> n \<le> tx_nonce (st_tx st))) \<and>
    (\<forall>h st c. (h, st) \<in> set deleted \<and> map_of (mp_caches mp) (tx_source (st_tx st)) = Some c \<longrightarrow>
      last_nonce (tx_source (st_tx st)) \<noteq> Some (ac_min c))"
proof -
  note inv = mempool_reachable_inv [OF assms(1)]
  obtain S where S: "removes S (mp_txs mp, []) (mp_txs mp', deleted)" "pool_inv (mp_txs mp') (mp_caches mp')"
    "\<forall>h \<in> S. \<exists>(k, c) \<in> set (mp_caches mp). h \<in> set (ac_txs c) \<and> last_nonce k \<noteq> Some (ac_min c)"
    "\<forall>(k, c) \<in> set (mp_caches mp'). last_nonce k = Some (ac_min c)"
    using clean_up_fold [OF inv assms(2)] by blast
  have txs: "map_of (mp_txs mp') = map_of (mp_txs mp) |` (- S)"
    and deleted: "set deleted = {(h, st). h \<in> S \<and> map_of (mp_txs mp) h = Some st}"
    using S(1) by (simp_all add: removes_def)
  have aligned: "last_nonce k = Some (ac_min c)" if "map_of (mp_caches mp') k = Some c" for k c
    using S(4) map_of_SomeD [OF that] by auto
  have kept: "\<exists>n. last_nonce (tx_source (st_tx st)) = Some n \<and> n \<le> tx_nonce (st_tx st)"
    if st: "map_of (mp_txs mp') h = Some st" for h st
  proof -
    obtain c where c: "map_of (mp_caches mp') (tx_source (st_tx st)) = Some c" "h \<in> set (ac_txs c)"
      using pool_inv_listed [OF S(2) st] by blast
    then show ?thesis using aligned [OF c(1)] account_inv_listed [OF pool_inv_account [OF S(2) c(1)] c(2) st] by simp
  qed
  have lost: "last_nonce (tx_source (st_tx st)) \<noteq> Some (ac_min c)"
    if "h \<in> S" "map_of (mp_txs mp) h = Some st" "map_of (mp_caches mp) (tx_source (st_tx st)) = Some c" for h st c
  proof -
    note gone = that(1)
    obtain k c2 where k: "(k, c2) \<in> set (mp_caches mp)" "h \<in> set (ac_txs c2)" "last_nonce k \<noteq> Some (ac_min c2)"
      using bspec [OF S(3) gone] by auto
    then have c2: "map_of (mp_caches mp) k = Some c2" using inv by (simp add: pool_inv_def)
    then show ?thesis
      using account_inv_listed [OF pool_inv_account [OF inv c2] k(2) that(2)] that(3) k(3) by simp
  qed
  have "map_of (mp_txs mp') \<subseteq>\<^sub>m map_of (mp_txs mp)" using txs by (auto simp: map_le_def restrict_map_def)
  moreover have "(h, st) \<in> set deleted \<longleftrightarrow> map_of (mp_txs mp) h = Some st \<and> map_of (mp_txs mp') h = None" for h st
    using deleted txs by (simp add: restrict_map_def)
  moreover have "\<forall>h st c. (h, st) \<in> set deleted \<and> map_of (mp_caches mp) (tx_source (st_tx st)) = Some c \<longrightarrow>
      last_nonce (tx_source (st_tx st)) \<noteq> Some (ac_min c)"
    unfolding deleted by (intro allI impI) (elim conjE CollectE case_prodE, simp add: lost)
  ultimately show ?thesis using aligned kept by simp
qed

theorem clean_up_aligns_witness:
  "let last_nonce = (\<lambda>k. if k = PublicKey (replicate 32 1) then Some 5 else None);
       (deleted, mp') = clean_up last_nonce (\<lambda>_ _ _. True) sample_pool in
   map fst deleted = [Hash [1], Hash [3]] \<and>
   (\<forall>k c. map_of (mp_caches mp') k = Some c \<longrightarrow> last_nonce k = Some (ac_min c)) \<and>
   (\<forall>h st. (h, st) \<in> set deleted \<longleftrightarrow> map_of (mp_txs sample_pool) h = Some st \<and> map_of (mp_txs mp') h = None)"
proof -
  let ?last_nonce = "\<lambda>k. if k = PublicKey (replicate 32 1) then Some 5 else None"
  obtain deleted mp' where c: "clean_up ?last_nonce (\<lambda>_ _ _. True) sample_pool = (deleted, mp')" by force
  have "map fst (fst (clean_up ?last_nonce (\<lambda>_ _ _. True) sample_pool)) = [Hash [1], Hash [3]]"
    by (simp add: sample_pool_def sample_tx_def clean_up_def clean_account_def kept_bounds_def widen_def compatible_def
        map_remove_def)
  then show ?thesis unfolding Let_def c prod.case
    using clean_up_aligns [OF sample_pool_reachable c] c by simp
qed

end
