(* ===== verification/BinaryHeap.thy ===== *)
theory BinaryHeap
  imports Prelude "HOL-Library.Multiset"
begin

text \<open>
  The standard library's \<open>BinaryHeap\<close>, which the transaction selector keeps its groups in: a
  binary heap in an array, as the library implements it. \<open>push\<close> appends and sifts up; \<open>pop\<close> moves
  the last element to the root, sifts it down to a leaf and up again. \<open>key\<close> is the order: an
  element is at most another when its key is. The locale \<open>max_heap\<close> states what a user relies on;
  it is interpreted on these operations.
\<close>

section \<open>Operations\<close>

definition swap :: "'x list \<Rightarrow> nat \<Rightarrow> nat \<Rightarrow> 'x list" where
  "swap xs i j = xs[i := xs ! j, j := xs ! i]"

definition parent :: "nat \<Rightarrow> nat" where
  "parent i = (i - 1) div 2"

lemma parent_less: "0 < i \<Longrightarrow> parent i < i"
  by (auto simp: parent_def)

function sift_up :: "('x \<Rightarrow> 'k::linorder) \<Rightarrow> 'x list \<Rightarrow> nat \<Rightarrow> 'x list" where
  "sift_up key xs pos =
     (if pos = 0 then xs
      else if key (xs ! pos) \<le> key (xs ! parent pos) then xs
      else sift_up key (swap xs pos (parent pos)) (parent pos))"
  by pat_completeness auto
termination
  by (relation "measure (\<lambda>(_, _, pos). pos)") (auto simp: parent_less)

definition greater_child :: "('x \<Rightarrow> 'k::linorder) \<Rightarrow> 'x list \<Rightarrow> nat \<Rightarrow> nat" where
  "greater_child key xs child = (if key (xs ! child) \<le> key (xs ! (child + 1)) then child + 1 else child)"

function sift_down_to_bottom :: "('x \<Rightarrow> 'k::linorder) \<Rightarrow> 'x list \<Rightarrow> nat \<Rightarrow> 'x list \<times> nat" where
  "sift_down_to_bottom key xs pos =
     (let child = 2 * pos + 1 in
      if child \<le> length xs - 2 then
        let child = greater_child key xs child
        in sift_down_to_bottom key (swap xs pos child) child
      else if child = length xs - 1 then (swap xs pos child, child)
      else (xs, pos))"
  by pat_completeness auto
termination
  by (relation "measure (\<lambda>(_, xs, pos). length xs - pos)") (auto simp: swap_def greater_child_def split: if_splits)

declare sift_up.simps [simp del] sift_down_to_bottom.simps [simp del]

definition heap_push :: "('x \<Rightarrow> 'k::linorder) \<Rightarrow> 'x \<Rightarrow> 'x list \<Rightarrow> 'x list" where
  "heap_push key x xs = sift_up key (xs @ [x]) (length xs)"

definition heap_pop :: "('x \<Rightarrow> 'k::linorder) \<Rightarrow> 'x list \<Rightarrow> ('x \<times> 'x list) option" where
  "heap_pop key xs =
     (if xs = [] then None
      else let item = last xs; data = butlast xs in
        if data = [] then Some (item, [])
        else let (data', pos) = sift_down_to_bottom key (data[0 := item]) 0
          in Some (data ! 0, sift_up key data' pos))"

section \<open>Interface\<close>

locale max_heap =
  fixes key :: "'x \<Rightarrow> 'k::linorder"
    and push :: "'x \<Rightarrow> 'q \<Rightarrow> 'q"
    and pop :: "'q \<Rightarrow> ('x \<times> 'q) option"
    and elements :: "'q \<Rightarrow> 'x multiset"
    and ok :: "'q \<Rightarrow> bool"
  assumes push_ok: "ok q \<Longrightarrow> ok (push x q)"
    and push_elements: "elements (push x q) = add_mset x (elements q)"
    and pop_None: "pop q = None \<longleftrightarrow> elements q = {#}"
    and pop_elements: "pop q = Some (x, q') \<Longrightarrow> elements q = add_mset x (elements q')"
    and pop_ok: "ok q \<Longrightarrow> pop q = Some (x, q') \<Longrightarrow> ok q'"
    and pop_max: "ok q \<Longrightarrow> pop q = Some (x, q') \<Longrightarrow> y \<in># elements q' \<Longrightarrow> key y \<le> key x"
begin

lemma push_all:
  "ok q \<Longrightarrow> ok (fold push xs q)" "elements (fold push xs q) = elements q + mset xs"
  by (induction xs arbitrary: q) (auto simp: push_ok push_elements)

end

section \<open>Lemmas\<close>

definition edge :: "('x \<Rightarrow> 'k::linorder) \<Rightarrow> 'x list \<Rightarrow> nat \<Rightarrow> bool" where
  "edge key xs i \<longleftrightarrow> key (xs ! i) \<le> key (xs ! parent i)"

definition heap :: "('x \<Rightarrow> 'k::linorder) \<Rightarrow> 'x list \<Rightarrow> bool" where
  "heap key xs \<longleftrightarrow> (\<forall>i. 0 < i \<and> i < length xs \<longrightarrow> edge key xs i)"

text \<open>The order holds but for the element at \<open>p\<close>, which may be too large for its parent
  (\<open>heap_but_up\<close>) or stand in any relation to parent and children (\<open>heap_but\<close>).\<close>

definition spans :: "('x \<Rightarrow> 'k::linorder) \<Rightarrow> 'x list \<Rightarrow> nat \<Rightarrow> bool" where
  "spans key xs p \<longleftrightarrow> (p > 0 \<longrightarrow> (\<forall>c. 0 < c \<and> c < length xs \<and> parent c = p \<longrightarrow> key (xs ! c) \<le> key (xs ! parent p)))"

definition heap_but_up :: "('x \<Rightarrow> 'k::linorder) \<Rightarrow> 'x list \<Rightarrow> nat \<Rightarrow> bool" where
  "heap_but_up key xs p \<longleftrightarrow> (\<forall>i. 0 < i \<and> i < length xs \<and> i \<noteq> p \<longrightarrow> edge key xs i) \<and> spans key xs p"

definition heap_but :: "('x \<Rightarrow> 'k::linorder) \<Rightarrow> 'x list \<Rightarrow> nat \<Rightarrow> bool" where
  "heap_but key xs p \<longleftrightarrow>
     (\<forall>i. 0 < i \<and> i < length xs \<and> i \<noteq> p \<and> parent i \<noteq> p \<longrightarrow> edge key xs i) \<and> spans key xs p"

lemma length_swap [simp]: "length (swap xs i j) = length xs"
  by (simp add: swap_def)

lemma nth_swap: "i < length xs \<Longrightarrow> j < length xs \<Longrightarrow> swap xs i j ! k = (if k = i then xs ! j else if k = j then xs ! i else xs ! k)"
  by (cases "k = i"; cases "k = j") (simp_all add: swap_def)

lemma mset_swap_eq [simp]: "i < length xs \<Longrightarrow> j < length xs \<Longrightarrow> mset (swap xs i j) = mset xs"
  unfolding swap_def using mset_swap [of j xs i] by simp

lemma child_parent: "0 < c \<Longrightarrow> parent c = p \<longleftrightarrow> c = 2 * p + 1 \<or> c = 2 * p + 2"
  by (auto simp: parent_def)

lemma sift_down_step:
  "2 * p + 1 \<le> length xs - 2 \<Longrightarrow> sift_down_to_bottom key xs p =
     sift_down_to_bottom key (swap xs p (greater_child key xs (2 * p + 1))) (greater_child key xs (2 * p + 1))"
  by (subst sift_down_to_bottom.simps) (simp only: Let_def if_True)

lemma sift_down_last:
  "\<not> 2 * p + 1 \<le> length xs - 2 \<Longrightarrow> sift_down_to_bottom key xs p =
     (if 2 * p + 1 = length xs - 1 then (swap xs p (2 * p + 1), 2 * p + 1) else (xs, p))"
  by (subst sift_down_to_bottom.simps) (simp only: Let_def if_False)

lemma heap_but_up_step:
  assumes "heap_but_up key xs p" and "0 < p" and "p < length xs" and "key (xs ! parent p) \<le> key (xs ! p)"
  shows "heap_but_up key (swap xs p (parent p)) (parent p)"
proof -
  let ?q = "parent p"
  have q: "?q < p" "?q < length xs" using assms(2,3) parent_less [of p] by auto
  have e: "edge key xs i" if "0 < i" "i < length xs" "i \<noteq> p" for i
    using assms(1) that by (simp add: heap_but_up_def)
  have s: "key (xs ! c) \<le> key (xs ! ?q)" if "0 < c" "c < length xs" "parent c = p" for c
    using assms(1,2) that by (simp add: heap_but_up_def spans_def)
  note nth = nth_swap [OF assms(3) q(2)]
  show ?thesis unfolding heap_but_up_def spans_def edge_def
  proof (intro conjI allI impI)
    fix i assume i: "0 < i \<and> i < length (swap xs p ?q) \<and> i \<noteq> ?q"
    then have "parent i < i" by (simp add: parent_less)
    then show "key (swap xs p ?q ! i) \<le> key (swap xs p ?q ! parent i)"
      using e [of i] s [of i] i q assms(4) by (auto simp: nth edge_def intro: order_trans)
  next
    fix c assume q0: "0 < ?q" and c: "0 < c \<and> c < length (swap xs p ?q) \<and> parent c = ?q"
    have "parent ?q < ?q" using q0 by (rule parent_less)
    then show "key (swap xs p ?q ! c) \<le> key (swap xs p ?q ! parent ?q)"
      using e [of ?q] e [of c] q0 c q by (auto simp: nth edge_def intro: order_trans)
  qed
qed

lemma sift_up_heap:
  "heap_but_up key xs p \<Longrightarrow> p < length xs \<Longrightarrow> heap key (sift_up key xs p)"
proof (induction key xs p rule: sift_up.induct)
  case (1 key xs p)
  show ?case
  proof (cases "p = 0 \<or> key (xs ! p) \<le> key (xs ! parent p)")
    case True
    then have "sift_up key xs p = xs" by (subst sift_up.simps) (auto simp: Let_def)
    then show ?thesis using 1(2) True by (auto simp: heap_def heap_but_up_def edge_def)
  next
    case False
    then have "sift_up key xs p = sift_up key (swap xs p (parent p)) (parent p)"
      by (subst sift_up.simps) (auto simp: Let_def)
    moreover have "heap_but_up key (swap xs p (parent p)) (parent p)" "parent p < length xs"
      using heap_but_up_step [OF 1(2) _ 1(3)] False 1(3) parent_less [of p] by auto
    ultimately show ?thesis using 1(1) False by simp
  qed
qed

lemma mset_sift_up: "p < length xs \<Longrightarrow> mset (sift_up key xs p) = mset xs"
proof (induction key xs p rule: sift_up.induct)
  case (1 key xs p)
  show ?case
  proof (cases "p = 0 \<or> key (xs ! p) \<le> key (xs ! parent p)")
    case True
    then show ?thesis by (subst sift_up.simps) auto
  next
    case False
    then have "parent p < length xs" using 1(2) parent_less [of p] by simp
    then show ?thesis using 1 False by (subst sift_up.simps) simp
  qed
qed

lemma heap_but_step:
  assumes "heap_but key xs p" and "p < length xs" and "c < length xs" and "parent c = p" and "0 < c"
    and "\<And>d. 0 < d \<Longrightarrow> d < length xs \<Longrightarrow> parent d = p \<Longrightarrow> key (xs ! d) \<le> key (xs ! c)"
  shows "heap_but key (swap xs p c) c"
proof -
  have pc: "p < c" using assms(4,5) parent_less [of c] by simp
  have e: "edge key xs i" if "0 < i" "i < length xs" "i \<noteq> p" "parent i \<noteq> p" for i
    using assms(1) that by (simp add: heap_but_def)
  have s: "key (xs ! c) \<le> key (xs ! parent p)" if "0 < p"
    using assms(1,3,4,5) that by (simp add: heap_but_def spans_def)
  note nth = nth_swap [OF assms(2,3)]
  show ?thesis unfolding heap_but_def spans_def edge_def
  proof (intro conjI allI impI)
    fix i assume i: "0 < i \<and> i < length (swap xs p c) \<and> i \<noteq> c \<and> parent i \<noteq> c"
    then have pi: "parent i < i" by (simp add: parent_less)
    show "key (swap xs p c ! i) \<le> key (swap xs p c ! parent i)"
    proof (cases "i = p")
      case True
      then have "parent i \<noteq> p" "parent i \<noteq> c" using pi pc by auto
      then show ?thesis using True s i by (simp add: nth)
    next
      case False
      then show ?thesis using e [of i] assms(6) [of i] i by (auto simp: nth edge_def)
    qed
  next
    fix d assume d: "0 < d \<and> d < length (swap xs p c) \<and> parent d = c"
    then have "c < d" using parent_less [of d] by simp
    then show "key (swap xs p c ! d) \<le> key (swap xs p c ! parent c)"
      using e [of d] d pc assms(4) by (simp add: nth edge_def)
  qed
qed

lemma greater_child_less: "2 * p + 1 \<le> length xs - 2 \<Longrightarrow> greater_child key xs (2 * p + 1) < length xs"
  by (auto simp: greater_child_def)

lemma sift_down_props:
  assumes "p < length xs" and "sift_down_to_bottom key xs p = (ys, q)"
  shows "mset ys = mset xs \<and> q < length ys"
  using assms
proof (induction key xs p arbitrary: ys q rule: sift_down_to_bottom.induct)
  case (1 key xs p)
  show ?case
  proof (cases "2 * p + 1 \<le> length xs - 2")
    case True
    then show ?thesis using 1 greater_child_less [OF True, of key] by (simp add: sift_down_step [OF True])
  next
    case False
    then show ?thesis using 1(2,3) by (auto simp: sift_down_last [OF False] split: if_splits)
  qed
qed

lemma sift_down_heap:
  assumes "p < length xs" and "heap_but key xs p" and "sift_down_to_bottom key xs p = (ys, q)"
  shows "heap_but_up key ys q"
  using assms
proof (induction key xs p arbitrary: ys q rule: sift_down_to_bottom.induct)
  case (1 key xs p)
  show ?case
  proof (cases "2 * p + 1 \<le> length xs - 2")
    case True
    let ?c = "greater_child key xs (2 * p + 1)"
    have "heap_but key (swap xs p ?c) ?c"
      using True 1(2,3) greater_child_less [OF True, of key]
      by (intro heap_but_step) (auto simp: child_parent greater_child_def split: if_splits)
    then show ?thesis using 1 True greater_child_less [OF True, of key] by (simp add: sift_down_step [OF True])
  next
    case False
    have leaf: "heap_but_up key zs r" if "heap_but key zs r" "\<not> 2 * r + 1 < length zs" for zs r
      using that by (auto simp: heap_but_def heap_but_up_def child_parent)
    show ?thesis
    proof (cases "2 * p + 1 = length xs - 1")
      case last: True
      then have "heap_but key (swap xs p (2 * p + 1)) (2 * p + 1)"
        using 1(2,3) by (intro heap_but_step) (auto simp: child_parent)
      then show ?thesis using 1(4) last leaf [of "swap xs p (2 * p + 1)"] by (auto simp: sift_down_last [OF False])
    next
      case no_child: False
      then show ?thesis using 1(2-4) False leaf [of xs p] by (auto simp: sift_down_last [OF False])
    qed
  qed
qed

lemma heap_root_max: "heap key xs \<Longrightarrow> i < length xs \<Longrightarrow> key (xs ! i) \<le> key (xs ! 0)"
proof (induction i rule: less_induct)
  case (less i)
  show ?case
  proof (cases "i = 0")
    case False
    then have "key (xs ! i) \<le> key (xs ! parent i)" "parent i < i" using less.prems parent_less [of i]
      by (auto simp: heap_def edge_def)
    with less show ?thesis by (auto intro: order_trans)
  qed simp
qed

lemma heap_push_heap: "heap key xs \<Longrightarrow> heap key (heap_push key x xs)"
proof -
  assume h: "heap key xs"
  have "heap_but_up key (xs @ [x]) (length xs)"
    using h by (auto simp: heap_but_up_def spans_def heap_def edge_def nth_append child_parent dest: parent_less)
  then show ?thesis unfolding heap_push_def by (rule sift_up_heap) simp
qed

lemma heap_pop_spec:
  assumes "heap_pop key xs = Some (x, ys)"
  shows "mset xs = add_mset x (mset ys)" and "heap key xs \<Longrightarrow> heap key ys" and "heap key xs \<Longrightarrow> x = xs ! 0"
proof -
  have ne: "xs \<noteq> []" using assms by (auto simp: heap_pop_def)
  then obtain data item where xs: "xs = data @ [item]" by (metis rev_exhaust)
  show "mset xs = add_mset x (mset ys)" and "heap key xs \<Longrightarrow> heap key ys" and "heap key xs \<Longrightarrow> x = xs ! 0"
  proof (atomize (full), cases "data = []")
    case True
    then show "mset xs = add_mset x (mset ys) \<and> (heap key xs \<longrightarrow> heap key ys) \<and> (heap key xs \<longrightarrow> x = xs ! 0)"
      using assms xs by (simp add: heap_pop_def heap_def)
  next
    case False
    obtain d q where d: "sift_down_to_bottom key (data[0 := item]) 0 = (d, q)" by fastforce
    then have r: "x = data ! 0" "ys = sift_up key d q" using assms xs False by (simp_all add: heap_pop_def)
    have d': "mset d = mset (data[0 := item])" "q < length d" using sift_down_props [OF _ d] False by auto
    have "key (data ! i) \<le> key (data ! parent i)" if "heap key xs" "0 < i" "i < length data" for i
      using that parent_less [of i] unfolding heap_def edge_def xs by (auto simp: nth_append dest!: spec [of _ i])
    then have "heap_but key (data[0 := item]) 0" if "heap key xs"
      using that False by (auto simp: heap_but_def spans_def edge_def nth_list_update)
    then have "heap key ys" if "heap key xs"
      using that sift_up_heap [OF sift_down_heap [OF _ _ d] d'(2)] False r by simp
    moreover have "mset xs = add_mset x (mset ys)"
      using False d' by (cases data) (simp_all add: r xs mset_sift_up)
    ultimately show "mset xs = add_mset x (mset ys) \<and> (heap key xs \<longrightarrow> heap key ys) \<and> (heap key xs \<longrightarrow> x = xs ! 0)"
      using False by (simp add: r xs nth_append)
  qed
qed

interpretation binary_heap: max_heap key "heap_push key" "heap_pop key" mset "heap key" for key :: "'x \<Rightarrow> 'k::linorder"
proof
  fix q :: "'x list" and x q' y
  show "mset (heap_push key x q) = add_mset x (mset q)" by (simp add: heap_push_def mset_sift_up)
  show "heap_pop key q = None \<longleftrightarrow> mset q = {#}" by (auto simp: heap_pop_def Let_def split: prod.split)
  assume pop: "heap_pop key q = Some (x, q')"
  show "mset q = add_mset x (mset q')" using heap_pop_spec(1) [OF pop] .
  assume h: "heap key q"
  show "heap key q'" using heap_pop_spec(2) [OF pop h] .
  assume "y \<in># mset q'"
  then have "y \<in> set q" using heap_pop_spec(1) [OF pop] by (metis set_mset_mset union_single_eq_member insert_iff set_mset_add_mset_insert)
  then show "key y \<le> key x" using heap_root_max [OF h] heap_pop_spec(3) [OF pop h] by (auto simp: in_set_conv_nth)
qed (rule heap_push_heap)

end
