(* ===== verification/TxSelector.thy ===== *)
theory TxSelector
  imports Mempool BinaryHeap "HOL-Library.Option_ord" "HOL-Library.Sublist"
begin

text \<open>
  The transaction selector of the block template (\<open>daemon/src/core/tx_selector.rs\<close>): one queue of
  transactions per sender, in a binary heap ordered by the fee of the first transaction of each
  queue. The selector is shown to implement a greedy choice on the multiset of queues, and so to
  return every transaction once, with the transactions of a sender in their order.
\<close>

section \<open>Operations\<close>

record tx_selector_entry =
  se_hash :: hash
  se_tx :: transaction
  se_size :: usize

type_synonym transactions = "tx_selector_entry list"

type_synonym tx_selector = "transactions list"

text \<open>The order of the queues: that of the fees at their front, an empty queue below all others.\<close>

definition front_fee :: "transactions \<Rightarrow> u64 option" where
  "front_fee g = (case g of [] \<Rightarrow> None | e # _ \<Rightarrow> Some (tx_fee (se_tx e)))"

definition selector_with_capacity :: tx_selector where
  "selector_with_capacity = []"

definition push_group :: "transactions \<Rightarrow> tx_selector \<Rightarrow> tx_selector" where
  "push_group g q = heap_push front_fee g q"

definition selector_next :: "tx_selector \<Rightarrow> tx_selector_entry option \<times> tx_selector" where
  "selector_next q = (case heap_pop front_fee q of None \<Rightarrow> (None, q)
     | Some (g, q) \<Rightarrow> (case g of [] \<Rightarrow> (None, q)
        | entry # g \<Rightarrow> (Some entry, if g \<noteq> [] then heap_push front_fee g q else q)))"

definition selector_is_empty :: "tx_selector \<Rightarrow> bool" where
  "selector_is_empty q \<longleftrightarrow> q = []"

text \<open>Calling \<open>next\<close> until it returns nothing, at most \<open>n\<close> times.\<close>

fun selector_drain :: "nat \<Rightarrow> tx_selector \<Rightarrow> tx_selector_entry list" where
  "selector_drain 0 q = []"
| "selector_drain (Suc n) q = (case selector_next q of (None, _) \<Rightarrow> []
     | (Some entry, q) \<Rightarrow> entry # selector_drain n q)"

section \<open>Specification\<close>

text \<open>A greedy selection: always the front of a queue whose front fee is the highest.\<close>

inductive selects :: "transactions multiset \<Rightarrow> tx_selector_entry list \<Rightarrow> bool" where
  selects_end: "\<forall>g \<in># M. g = [] \<Longrightarrow> selects M []"
| selects_step: "\<forall>f g'. (f # g') \<in># M \<longrightarrow> tx_fee (se_tx f) \<le> tx_fee (se_tx e) \<Longrightarrow>
    selects ((if g = [] then {#} else {#g#}) + (M - {#e # g#})) es \<Longrightarrow> (e # g) \<in># M \<Longrightarrow> selects M (e # es)"

lemma selects_entries: "selects M es \<Longrightarrow> mset es = sum_mset (image_mset mset M)"
proof (induction rule: selects.induct)
  case (selects_end M)
  then show ?case by (simp add: image_mset_cong [of M mset "\<lambda>_. {#}"])
next
  case (selects_step M e g es)
  then obtain N where "M = add_mset (e # g) N" by (metis insert_DiffM)
  then show ?case using selects_step.IH by (auto split: if_splits)
qed

lemma selects_in_order: "selects M es \<Longrightarrow> g \<in># M \<Longrightarrow> subseq g es"
proof (induction arbitrary: g rule: selects.induct)
  case (selects_step M e h es)
  then obtain N where M: "M = add_mset (e # h) N" by (metis insert_DiffM)
  show ?case
  proof (cases "g \<in># N")
    case True
    then show ?thesis using selects_step.IH [of g] M by auto
  next
    case False
    then have "g = e # h" using selects_step.prems M by auto
    then show ?thesis using selects_step.IH [of h] by (cases "h = []") auto
  qed
qed auto

section \<open>Refinement\<close>

lemma front_fee_simps [simp]: "front_fee [] = None" "front_fee (e # g) = Some (tx_fee (se_tx e))"
  by (simp_all add: front_fee_def)

text \<open>One call of \<open>next\<close>, from the contract of the heap.\<close>

lemma next_none:
  assumes "heap front_fee q" and "selector_next q = (None, q')" and "g \<in># mset q"
  shows "g = []"
proof -
  obtain q2 where pop: "heap_pop front_fee q = Some ([], q2)"
    using assms binary_heap.pop_None [of front_fee q]
    by (auto simp: selector_next_def split: option.splits list.splits)
  have "g = [] \<or> g \<in># mset q2" using binary_heap.pop_elements [OF pop] assms(3) by auto
  then show ?thesis using binary_heap.pop_max [OF assms(1) pop, of g] by (cases g) auto
qed

lemma next_some:
  assumes "heap front_fee q" and "selector_next q = (Some e, q')"
  obtains g where "heap front_fee q'" "(e # g) \<in># mset q"
    "mset q' = (if g = [] then {#} else {#g#}) + (mset q - {#e # g#})"
    "\<forall>f g'. (f # g') \<in># mset q \<longrightarrow> tx_fee (se_tx f) \<le> tx_fee (se_tx e)"
proof -
  obtain g q2 where pop: "heap_pop front_fee q = Some (e # g, q2)"
    and q': "q' = (if g \<noteq> [] then heap_push front_fee g q2 else q2)"
    using assms(2) by (auto simp: selector_next_def split: option.splits list.splits)
  note elements = binary_heap.pop_elements [OF pop] and ok = binary_heap.pop_ok [OF assms(1) pop]
  have "tx_fee (se_tx f) \<le> tx_fee (se_tx e)" if f: "(f # g') \<in># mset q" for f g'
  proof -
    have "f # g' = e # g \<or> (f # g') \<in># mset q2" using f elements by auto
    then show ?thesis using binary_heap.pop_max [OF assms(1) pop, of "f # g'"] by auto
  qed
  moreover have "heap front_fee q'" using binary_heap.push_ok [OF ok, of g] ok q' by simp
  moreover have "mset q' = (if g = [] then {#} else {#g#}) + (mset q - {#e # g#})"
    using q' elements binary_heap.push_elements [of front_fee g q2] by simp
  moreover have "(e # g) \<in># mset q" using elements by simp
  ultimately show thesis by (intro that) blast+
qed

lemma drain_selects:
  "heap front_fee q \<Longrightarrow> sum_mset (image_mset length (mset q)) < n \<Longrightarrow> selects (mset q) (selector_drain n q)"
proof (induction n arbitrary: q)
  case (Suc n)
  obtain r q' where r: "selector_next q = (r, q')" by force
  show ?case
  proof (cases r)
    case None
    then show ?thesis using next_none [OF Suc.prems(1)] r by (auto intro: selects_end)
  next
    case (Some e)
    then obtain g where g: "heap front_fee q'" "(e # g) \<in># mset q"
      "mset q' = (if g = [] then {#} else {#g#}) + (mset q - {#e # g#})"
      "\<forall>f g'. (f # g') \<in># mset q \<longrightarrow> tx_fee (se_tx f) \<le> tx_fee (se_tx e)"
      using next_some [OF Suc.prems(1)] r by metis
    obtain N where N: "mset q = add_mset (e # g) N" using g(2) by (metis insert_DiffM)
    have "sum_mset (image_mset length (mset q')) < n" using Suc.prems(2) unfolding g(3) N by auto
    from Suc.IH [OF g(1) this] show ?thesis
      using selects_step [OF g(4) _ g(2)] r Some unfolding g(3) by simp
  qed
qed simp

section \<open>Properties\<close>

text \<open>
  C17. The selector is greedy and loses nothing. With any queues pushed, repeated calls of
  \<open>next\<close> make a greedy selection (each returned transaction has the highest fee of all queue fronts
  at that moment), return every transaction exactly once, and keep each queue's transactions in
  their order, so a sender's nonces are never reordered.
\<close>

theorem selector_greedy:
  assumes "sum_list (map length groups) < n"
    and "out = selector_drain n (fold push_group groups selector_with_capacity)"
  shows "selects (mset groups) out \<and> mset out = mset (concat groups) \<and> (\<forall>g \<in> set groups. subseq g out)"
proof -
  let ?q = "fold (heap_push front_fee) groups []"
  have q: "fold push_group groups selector_with_capacity = ?q"
    by (simp add: push_group_def [abs_def] selector_with_capacity_def)
  have "heap front_fee ?q" and m: "mset ?q = mset groups"
    using binary_heap.push_all(1) [of front_fee "[]" groups]
      binary_heap.push_all(2) [where key = front_fee and q = "[]" and xs = groups] by (simp_all add: heap_def)
  moreover have "sum_mset (image_mset length (mset ?q)) < n"
    using assms(1) unfolding m by (simp flip: mset_map add: sum_mset_sum_list)
  ultimately have s: "selects (mset groups) out" using drain_selects [of ?q n] assms(2) q by simp
  then have "mset out = sum_mset (image_mset mset (mset groups))" by (rule selects_entries)
  also have "\<dots> = mset (concat groups)" by (induction groups) auto
  finally show ?thesis using s selects_in_order [OF s] by simp
qed

definition sample_entry :: "u8 \<Rightarrow> u64 \<Rightarrow> u64 \<Rightarrow> tx_selector_entry" where
  "sample_entry b n fee = \<lparr>se_hash = Hash [b], se_tx = (sample_tx b n)\<lparr>tx_fee := fee\<rparr>, se_size = 2048\<rparr>"

theorem selector_greedy_witness:
  "let a = sample_entry 1 0 5; b = sample_entry 1 1 90; c = sample_entry 2 7 20;
       out = selector_drain 4 (fold push_group [[a, b], [c]] selector_with_capacity) in
   selects (mset [[a, b], [c]]) out \<and> mset out = mset [a, b, c] \<and> subseq [a, b] out"
proof -
  define a b c where "a = sample_entry 1 0 5" and "b = sample_entry 1 1 90" and "c = sample_entry 2 7 20"
  show ?thesis unfolding Let_def a_def [symmetric] b_def [symmetric] c_def [symmetric]
    using selector_greedy [of "[[a, b], [c]]" 4, OF _ refl] by simp
qed

end
