(* ===== verification/Ordering.thy ===== *)
theory Ordering
  imports Dag
begin

unbundle bit_operations_syntax

text \<open>
  The part of \<open>daemon/src/core/blockchain.rs\<close> that turns the DAG into a chain: the base block of
  a set of tips, the work score of a tip, the best tip, and the full order of the blocks below
  it. Each of them keeps its results in an LRU cache of the \<open>lru\<close> crate; the caches are parameters,
  a record of \<open>get\<close> and \<open>put\<close> threaded through the functions, and the statements assume no more of
  them than that a lookup returns something put under that key.
\<close>

section \<open>Caches\<close>

record ('c, 'k, 'v) cache_ops =
  cache_get :: "'k \<Rightarrow> 'c \<Rightarrow> 'v option \<times> 'c"
  cache_put :: "'k \<Rightarrow> 'v \<Rightarrow> 'c \<Rightarrow> 'c"

definition get_combined_hash_for_tips :: "hash list \<Rightarrow> hash" where
  "get_combined_hash_for_tips tips =
     Hash (fold (\<lambda>t bytes. map2 (XOR) bytes (as_bytes t)) tips (replicate HASH_SIZE 0))"

section \<open>Bases\<close>

type_synonym base_entry = "hash \<times> u64"

definition at_or_below_pruned :: "dag \<Rightarrow> topoheight \<Rightarrow> hash \<Rightarrow> bool bc" where
  "at_or_below_pruned g pruned h = (if pruned > 0 then ebind (is_ordered g h) (\<lambda>ordered.
     if ordered then ebind (get_topoheight g h) (\<lambda>t. Inr (t \<le> pruned)) else Inr False) else Inr False)"

fun tip_base_tips :: "('c, hash \<times> u64, base_entry) cache_ops \<Rightarrow> dag \<Rightarrow> hash \<Rightarrow> u64 \<Rightarrow> topoheight \<Rightarrow>
    hash list \<Rightarrow> hash list \<Rightarrow> hash list \<Rightarrow> base_entry list \<Rightarrow> 'c \<Rightarrow> (hash list \<times> base_entry list \<times> 'c) bc" where
  "tip_base_tips ops g h height pruned processed [] stack bases c = Inr (stack, bases, c)"
| "tip_base_tips ops g h height pruned processed (t # ts) stack bases c =
     ebind (at_or_below_pruned g pruned t) (\<lambda>at_pruned.
     if at_pruned then ebind (get_height g t) (\<lambda>block_height.
       Inr (stack, snd (index_insert (t, block_height) bases), c))
     else ebind (is_sync_block_at_height g t height) (\<lambda>sync.
       if sync then ebind (get_height g t) (\<lambda>block_height.
         Inr (stack, snd (index_insert (t, block_height) bases),
           cache_put ops (h, height) (t, block_height) c))
       else tip_base_tips ops g h height pruned processed ts
         (if t \<notin> set processed then t # stack else stack) bases c))"

fun tip_base_loop :: "('c, hash \<times> u64, base_entry) cache_ops \<Rightarrow> dag \<Rightarrow> hash \<Rightarrow> u64 \<Rightarrow> topoheight \<Rightarrow> nat \<Rightarrow>
    hash list \<Rightarrow> base_entry list \<Rightarrow> hash list \<Rightarrow> 'c \<Rightarrow> (base_entry list \<times> 'c) bc" where
  "tip_base_loop ops g h height pruned fuel [] bases processed c = Inr (bases, c)"
| "tip_base_loop ops g h height pruned 0 (x # stack) bases processed c = Inl OutOfFuel"
| "tip_base_loop ops g h height pruned (Suc fuel) (current # stack) bases processed c =
     (let processed = current # processed in
      ebind (at_or_below_pruned g pruned current) (\<lambda>at_pruned.
      if at_pruned then ebind (get_height g current) (\<lambda>block_height.
        tip_base_loop ops g h height pruned fuel stack
          (snd (index_insert (current, block_height) bases)) processed c)
      else case cache_get ops (current, height) c of
        (Some base, c) \<Rightarrow> tip_base_loop ops g h height pruned fuel stack (snd (index_insert base bases)) processed c
      | (None, c) \<Rightarrow> ebind (get_past_blocks g current) (\<lambda>tips.
          if length tips = 0 then
            tip_base_loop ops g h height pruned fuel stack (snd (index_insert (current, 0) bases)) processed
              (cache_put ops (h, height) (current, height) c)
          else ebind (tip_base_tips ops g h height pruned processed tips stack bases c)
            (\<lambda>(stack, bases, c). tip_base_loop ops g h height pruned fuel stack bases processed c))))"

definition find_tip_base :: "('c, hash \<times> u64, base_entry) cache_ops \<Rightarrow> dag \<Rightarrow> nat \<Rightarrow> hash \<Rightarrow> u64 \<Rightarrow>
    topoheight \<Rightarrow> 'c \<Rightarrow> (base_entry \<times> 'c) bc" where
  "find_tip_base ops g fuel h height pruned c =
     ebind (tip_base_loop ops g h height pruned fuel [h] [] [] c) (\<lambda>(bases, c).
       if bases = [] then Inl ExpectedTips
       else let base = last (sort_by (\<lambda>a b. snd b \<le> snd a) bases)
         in Inr (base, cache_put ops (h, height) base c))"

definition best_height_of :: "dag \<Rightarrow> hash list \<Rightarrow> u64 bc" where
  "best_height_of g tips = efold (\<lambda>h best. ebind (get_height g h)
     (\<lambda>height. Inr (if height > best then height else best))) tips 0"

definition find_common_base :: "('c, hash \<times> u64, base_entry) cache_ops \<Rightarrow> ('d, hash, base_entry) cache_ops \<Rightarrow>
    dag \<Rightarrow> nat \<Rightarrow> hash list \<Rightarrow> 'c \<Rightarrow> 'd \<Rightarrow> (base_entry \<times> 'c \<times> 'd) bc" where
  "find_common_base tip_ops common_ops g fuel tips tc cc =
     (let combined = get_combined_hash_for_tips tips in
      case cache_get common_ops combined cc of
        (Some base, cc) \<Rightarrow> Inr (base, tc, cc)
      | (None, cc) \<Rightarrow> ebind (best_height_of g tips) (\<lambda>best_height.
          ebind (get_pruned_topoheight g) (\<lambda>pruned.
          ebind (efold (\<lambda>h (bases, tc). ebind (find_tip_base tip_ops g fuel h best_height
              (case pruned of None \<Rightarrow> 0 | Some t \<Rightarrow> t) tc) (\<lambda>(base, tc). Inr (bases @ [base], tc))) tips ([], tc))
            (\<lambda>(bases, tc). if bases = [] then Inl ExpectedTips
               else let base = last (sort_by (\<lambda>a b. snd b \<le> snd a) bases)
                 in Inr (base, tc, cache_put common_ops combined base cc)))))"

section \<open>Work scores\<close>

type_synonym score_map = "(hash \<times> cumulative_difficulty) list"

definition above_base :: "dag \<Rightarrow> topoheight \<Rightarrow> hash \<Rightarrow> bool bc" where
  "above_base g base_topoheight h = ebind (is_ordered g h) (\<lambda>ordered.
     if \<not> ordered then Inr True
     else ebind (get_topoheight g h) (\<lambda>t. Inr (t \<ge> base_topoheight)))"

definition score_push :: "dag \<Rightarrow> topoheight \<Rightarrow> score_map \<Rightarrow> hash list \<Rightarrow> hash list \<Rightarrow> hash list bc" where
  "score_push g base_topoheight m tips stack = efold (\<lambda>t stack.
     if map_of m t = None then ebind (above_base g base_topoheight t)
       (\<lambda>above. Inr (if above then t # stack else stack)) else Inr stack) tips stack"

fun tip_work_score_loop :: "dag \<Rightarrow> topoheight \<Rightarrow> nat \<Rightarrow> hash list \<Rightarrow> score_map \<Rightarrow> score_map bc" where
  "tip_work_score_loop g base_topoheight fuel [] m = Inr m"
| "tip_work_score_loop g base_topoheight 0 (x # stack) m = Inl OutOfFuel"
| "tip_work_score_loop g base_topoheight (Suc fuel) (current # stack) m =
     ebind (get_past_blocks g current) (\<lambda>tips.
     ebind (score_push g base_topoheight m tips stack) (\<lambda>stack.
     if map_of m current = None then ebind (get_block_difficulty g current) (\<lambda>d.
       tip_work_score_loop g base_topoheight fuel stack (map_insert current d m))
     else tip_work_score_loop g base_topoheight fuel stack m))"

definition find_tip_work_score_internal :: "dag \<Rightarrow> nat \<Rightarrow> score_map \<Rightarrow> hash \<Rightarrow> topoheight \<Rightarrow> score_map bc" where
  "find_tip_work_score_internal g fuel m h base_topoheight = tip_work_score_loop g base_topoheight fuel [h] m"

definition sum_scores :: "score_map \<Rightarrow> (hash list \<times> cumulative_difficulty) bc" where
  "sum_scores m = efold (\<lambda>(h, d) (s, score). ebind (no_panic (varuint_add score d))
     (\<lambda>score. Inr (snd (index_insert h s), score))) m ([], 0)"

definition find_tip_work_score ::
  "('c, hash \<times> hash \<times> u64, hash list \<times> cumulative_difficulty) cache_ops \<Rightarrow> dag \<Rightarrow> nat \<Rightarrow> hash \<Rightarrow> hash list \<Rightarrow>
    difficulty option \<Rightarrow> hash \<Rightarrow> u64 \<Rightarrow> 'c \<Rightarrow> ((hash list \<times> cumulative_difficulty) \<times> 'c) bc" where
  "find_tip_work_score ops g fuel block_hash block_tips block_difficulty base_block base_block_height c =
     (case cache_get ops (block_hash, base_block, base_block_height) c of
        (Some value, c) \<Rightarrow> Inr (value, c)
      | (None, c) \<Rightarrow>
        ebind (case block_difficulty of Some d \<Rightarrow> Inr d | None \<Rightarrow> get_block_difficulty g block_hash) (\<lambda>d.
        ebind (get_topoheight g base_block) (\<lambda>base_topoheight.
        ebind (efold (\<lambda>h m. if map_of m h = None then ebind (above_base g base_topoheight h) (\<lambda>above.
              if above then find_tip_work_score_internal g fuel m h base_topoheight else Inr m)
            else Inr m) block_tips [(block_hash, d)]) (\<lambda>m.
        ebind (if base_block \<noteq> block_hash then ebind (get_cumulative_difficulty g base_block)
            (\<lambda>cd. Inr (map_insert base_block cd m)) else Inr m) (\<lambda>m.
        ebind (sum_scores m) (\<lambda>value.
        Inr (value, cache_put ops (block_hash, base_block, base_block_height) value c)))))))"

definition find_best_tip ::
  "('c, hash \<times> hash \<times> u64, hash list \<times> cumulative_difficulty) cache_ops \<Rightarrow> dag \<Rightarrow> nat \<Rightarrow> hash list \<Rightarrow>
    hash \<Rightarrow> u64 \<Rightarrow> 'c \<Rightarrow> (hash \<times> 'c) bc" where
  "find_best_tip ops g fuel tips base base_height c =
     (if length tips = 0 then Inl ExpectedTips
      else ebind (efold (\<lambda>h (scores, c). ebind (get_past_blocks g h) (\<lambda>block_tips.
          ebind (find_tip_work_score ops g fuel h block_tips None base base_height c)
            (\<lambda>((_, cd), c). Inr (scores @ [(h, cd)], c)))) tips ([], c))
        (\<lambda>(scores, c). Inr (fst (hd (sort_descending_by_cumulative_difficulty scores)), c)))"

section \<open>The full order\<close>

definition order_scores :: "dag \<Rightarrow> topoheight \<Rightarrow> hash list \<Rightarrow> (hash \<times> cumulative_difficulty) list bc" where
  "order_scores g base_topo_height tips = efold (\<lambda>t scores. ebind (above_base g base_topo_height t)
     (\<lambda>above. if above then ebind (get_cumulative_difficulty g t) (\<lambda>d. Inr (scores @ [(t, d)]))
        else Inr scores)) tips []"

fun full_order_loop :: "('c, hash \<times> hash \<times> u64, hash list) cache_ops \<Rightarrow> dag \<Rightarrow> hash \<Rightarrow> u64 \<Rightarrow> topoheight \<Rightarrow>
    nat \<Rightarrow> hash list \<Rightarrow> hash list \<Rightarrow> hash list \<Rightarrow> 'c \<Rightarrow> (hash list \<times> 'c) bc" where
  "full_order_loop ops g base base_height base_topo fuel [] full_order processed c = Inr (full_order, c)"
| "full_order_loop ops g base base_height base_topo 0 (x # stack) full_order processed c = Inl OutOfFuel"
| "full_order_loop ops g base base_height base_topo (Suc fuel) (current # stack) full_order processed c =
     (if current \<in> set processed then
        full_order_loop ops g base base_height base_topo fuel stack (snd (index_insert current full_order)) processed c
      else case cache_get ops (current, base, base_height) c of
        (Some order_cache, c) \<Rightarrow>
          full_order_loop ops g base base_height base_topo fuel stack (index_extend order_cache full_order) processed c
      | (None, c) \<Rightarrow> ebind (get_past_blocks g current) (\<lambda>block_tips.
          if block_tips = [] \<or> current = base then
            full_order_loop ops g base base_height base_topo fuel stack (index_extend [current] full_order) processed
              (cache_put ops (current, base, base_height) [current] c)
          else ebind (order_scores g base_topo block_tips) (\<lambda>scores.
            full_order_loop ops g base base_height base_topo fuel
              (rev (map fst (sort_ascending_by_cumulative_difficulty scores)) @ current # stack)
              full_order (snd (index_insert current processed)) c)))"

definition generate_full_order :: "('c, hash \<times> hash \<times> u64, hash list) cache_ops \<Rightarrow> dag \<Rightarrow> nat \<Rightarrow> hash \<Rightarrow> hash \<Rightarrow>
    u64 \<Rightarrow> topoheight \<Rightarrow> 'c \<Rightarrow> (hash list \<times> 'c) bc" where
  "generate_full_order ops g fuel h base base_height base_topo_height c =
     ebind (full_order_loop ops g base base_height base_topo_height fuel [h] [] [] c)
       (\<lambda>(full_order, c). Inr (full_order, cache_put ops (h, base, base_height) full_order c))"

section \<open>What a cache may do\<close>

text \<open>
  A cache may forget anything at any time, but it makes nothing up: its content grows by what
  is put, and a lookup returns an entry of the content.
\<close>

locale cache =
  fixes ops :: "('c, 'k, 'v) cache_ops"
    and content :: "'c \<Rightarrow> ('k \<times> 'v) set"
  assumes get_content: "fst (cache_get ops k c) = Some v \<Longrightarrow> (k, v) \<in> content c"
    and get_keeps: "content (snd (cache_get ops k c)) \<subseteq> content c"
    and put_adds: "content (cache_put ops k v c) \<subseteq> insert (k, v) (content c)"
begin

definition sound :: "('k \<Rightarrow> 'v \<Rightarrow> bool) \<Rightarrow> 'c \<Rightarrow> bool" where
  "sound P c \<longleftrightarrow> (\<forall>(k, v) \<in> content c. P k v)"

lemma sound_get:
  assumes "sound P c" and "cache_get ops k c = (r, c')"
  shows "sound P c'" and "r = Some v \<Longrightarrow> P k v"
  using assms get_content [of k c] get_keeps [of k c] by (auto simp: sound_def)

lemma sound_put: "sound P c \<Longrightarrow> P k v \<Longrightarrow> sound P (cache_put ops k v c)"
  using put_adds [of k v c] by (auto simp: sound_def)

end

text \<open>A least recently used cache of a given capacity, the newest entry first.\<close>

definition lru_get :: "'k \<Rightarrow> ('k \<times> 'v) list \<Rightarrow> 'v option \<times> ('k \<times> 'v) list" where
  "lru_get k c = (case map_of c k of None \<Rightarrow> (None, c) | Some v \<Rightarrow> (Some v, (k, v) # map_remove k c))"

definition lru_put :: "nat \<Rightarrow> 'k \<Rightarrow> 'v \<Rightarrow> ('k \<times> 'v) list \<Rightarrow> ('k \<times> 'v) list" where
  "lru_put cap k v c = take cap ((k, v) # map_remove k c)"

definition lru_ops :: "nat \<Rightarrow> (('k \<times> 'v) list, 'k, 'v) cache_ops" where
  "lru_ops cap = \<lparr>cache_get = lru_get, cache_put = lru_put cap\<rparr>"

lemma set_map_remove: "set (map_remove k c) \<subseteq> set c"
  by (auto simp: map_remove_def)

interpretation lru: cache "lru_ops cap" set for cap
  by unfold_locales (use set_map_remove in \<open>fastforce simp: lru_ops_def lru_get_def lru_put_def
    dest: map_of_SomeD in_set_takeD split: option.splits\<close>)+

section \<open>What the full order is\<close>

text \<open>
  The blocks below a block down to the base: a block that is genesis or the base is a leaf, from
  any other one goes to the tips that are not ordered below the base. A list of blocks is a
  topological order when every block comes after all the tips it goes to.
\<close>

definition order_leaf :: "dag_view \<Rightarrow> hash \<Rightarrow> hash \<Rightarrow> bool" where
  "order_leaf v base x \<longleftrightarrow> v_past v x = [] \<or> x = base"

definition order_tips :: "dag_view \<Rightarrow> topoheight \<Rightarrow> hash \<Rightarrow> hash list" where
  "order_tips v base_topo x = filter (\<lambda>t. case v_topo v t of None \<Rightarrow> True | Some topo \<Rightarrow> topo \<ge> base_topo) (v_past v x)"

inductive_set below :: "dag_view \<Rightarrow> hash \<Rightarrow> topoheight \<Rightarrow> hash \<Rightarrow> hash set" for v base base_topo h where
  below_self: "h \<in> below v base base_topo h"
| below_tip: "x \<in> below v base base_topo h \<Longrightarrow> \<not> order_leaf v base x \<Longrightarrow> t \<in> set (order_tips v base_topo x) \<Longrightarrow>
     t \<in> below v base base_topo h"

definition topological :: "dag_view \<Rightarrow> hash \<Rightarrow> topoheight \<Rightarrow> hash list \<Rightarrow> bool" where
  "topological v base base_topo xs \<longleftrightarrow> distinct xs \<and> (\<forall>ys x zs. xs = ys @ x # zs \<longrightarrow>
     order_leaf v base x \<or> set (order_tips v base_topo x) \<subseteq> set ys)"

lemma below_trans: "x \<in> below v base bt h \<Longrightarrow> y \<in> below v base bt x \<Longrightarrow> y \<in> below v base bt h"
  by (rotate_tac, induction rule: below.induct) (auto intro: below_tip)

lemma below_leaf: "order_leaf v base h \<Longrightarrow> below v base bt h = {h}"
proof -
  assume leaf: "order_leaf v base h"
  have "x = h" if "x \<in> below v base bt h" for x using that by induction (use leaf in auto)
  then show ?thesis by (auto intro: below_self)
qed

lemma topological_Nil [simp]: "topological v base bt []"
  by (simp add: topological_def)

lemma topological_butlast: "topological v base bt (xs @ [x]) \<Longrightarrow>
   topological v base bt xs \<and> x \<notin> set xs \<and> (order_leaf v base x \<or> set (order_tips v bt x) \<subseteq> set xs)"
  by (fastforce simp: topological_def)

lemma topological_snoc:
  assumes "topological v base bt xs" and "order_leaf v base x \<or> set (order_tips v bt x) \<subseteq> set xs"
  shows "topological v base bt (snd (index_insert x xs))"
proof (cases "x \<in> set xs")
  case False
  have "order_leaf v base y \<or> set (order_tips v bt y) \<subseteq> set ys" if "xs @ [x] = ys @ y # zs" for ys y zs
  proof (cases zs rule: rev_cases)
    case Nil
    with that assms(2) show ?thesis by auto
  next
    case (snoc zs' z)
    with that have "xs = ys @ y # zs'" by simp
    with assms(1) show ?thesis by (simp add: topological_def)
  qed
  with False assms(1) show ?thesis by (simp add: index_insert_def topological_def)
qed (use assms in \<open>simp add: index_insert_def\<close>)

lemma topological_extend:
  "topological v base bt ys \<Longrightarrow> topological v base bt xs \<Longrightarrow> topological v base bt (index_extend ys xs)"
proof (induction ys rule: rev_induct)
  case (snoc y ys)
  then show ?case
    using topological_butlast [OF snoc.prems(1)]
    by (auto simp: index_extend_snoc intro!: topological_snoc)
qed simp

lemma above_base_eq: "above_base (dag_of v) bt t = Inr (case v_topo v t of None \<Rightarrow> True | Some topo \<Rightarrow> topo \<ge> bt)"
  by (simp add: above_base_def split: option.split)

lemma order_scores_eq:
  "order_scores (dag_of v) bt tips = Inr (map (\<lambda>t. (t, v_cumulative v t))
     (filter (\<lambda>t. case v_topo v t of None \<Rightarrow> True | Some topo \<Rightarrow> topo \<ge> bt) tips))"
proof -
  have "efold (\<lambda>t scores. ebind (above_base (dag_of v) bt t)
     (\<lambda>above. if above then ebind (get_cumulative_difficulty (dag_of v) t) (\<lambda>d. Inr (scores @ [(t, d)]))
        else Inr scores)) tips acc = Inr (acc @ map (\<lambda>t. (t, v_cumulative v t))
     (filter (\<lambda>t. case v_topo v t of None \<Rightarrow> True | Some topo \<Rightarrow> topo \<ge> bt) tips))" for acc
    by (induction tips arbitrary: acc) (auto simp: above_base_eq split: option.splits)
  from this [of "[]"] show ?thesis by (simp add: order_scores_def)
qed

text \<open>
  The state of the search: what is in the order is topological, and a block that is waiting for
  its tips is on the stack below all of them that are not in the order yet, and below nothing
  but blocks of less height, so that it cannot come up before them.
\<close>

definition decreasing :: "dag_view \<Rightarrow> bool" where
  "decreasing v \<longleftrightarrow> (\<forall>x t. t \<in> set (v_past v x) \<longrightarrow> v_height v t < v_height v x)"

definition order_inv :: "dag_view \<Rightarrow> hash \<Rightarrow> topoheight \<Rightarrow> hash \<Rightarrow> hash list \<Rightarrow> hash list \<Rightarrow> hash list \<Rightarrow> bool" where
  "order_inv v base bt root stack F P \<longleftrightarrow> topological v base bt F \<and> (\<forall>x \<in> set P. \<not> order_leaf v base x) \<and>
     root \<in> set F \<union> set stack \<and> set stack \<union> set F \<union> set P \<subseteq> below v base bt root \<and>
     (\<forall>x \<in> set P - set F. \<exists>ys zs. stack = ys @ x # zs \<and> set (order_tips v bt x) \<subseteq> set F \<union> set ys \<and>
        (\<forall>y \<in> set ys. v_height v y < v_height v x))"

lemma order_inv_start: "order_inv v base bt h [h] [] []"
  by (simp add: order_inv_def below_self)

lemma order_inv_open:
  assumes "order_inv v base bt root stack F P" and "x \<in> set P" and "x \<notin> set F"
  obtains ys zs where "stack = ys @ x # zs" and "set (order_tips v bt x) \<subseteq> set F \<union> set ys"
    and "\<forall>y \<in> set ys. v_height v y < v_height v x"
proof -
  have "\<forall>x \<in> set P - set F. \<exists>ys zs. stack = ys @ x # zs \<and> set (order_tips v bt x) \<subseteq> set F \<union> set ys \<and>
      (\<forall>y \<in> set ys. v_height v y < v_height v x)"
    using assms(1) unfolding order_inv_def by blast
  with assms(2,3) that show thesis by blast
qed

lemma order_inv_waiting:
  assumes "order_inv v base bt root (c # stack) F P" and "c \<in> set P"
  shows "c \<in> set F \<or> set (order_tips v bt c) \<subseteq> set F"
proof (cases "c \<in> set F")
  case False
  then obtain ys zs where "c # stack = ys @ c # zs" "set (order_tips v bt c) \<subseteq> set F \<union> set ys"
      "\<forall>y \<in> set ys. v_height v y < v_height v c"
    using order_inv_open [OF assms] by blast
  then show ?thesis by (cases ys) auto
qed simp

lemma order_inv_pop:
  assumes inv: "order_inv v base bt root (c # stack) F P" and F': "topological v base bt F'"
    "insert c (set F) \<subseteq> set F'" "set F' \<subseteq> below v base bt root"
  shows "order_inv v base bt root stack F' P"
  unfolding order_inv_def
proof (intro conjI ballI)
  fix x assume x: "x \<in> set P - set F'"
  then obtain ys zs where "c # stack = ys @ x # zs" "set (order_tips v bt x) \<subseteq> set F \<union> set ys"
      "\<forall>y \<in> set ys. v_height v y < v_height v x"
    using order_inv_open [OF inv, of x] F'(2) by blast
  moreover from this(1) obtain ys' where "ys = c # ys'" using x F'(2) by (cases ys) auto
  ultimately show "\<exists>ys zs. stack = ys @ x # zs \<and> set (order_tips v bt x) \<subseteq> set F' \<union> set ys \<and>
      (\<forall>y \<in> set ys. v_height v y < v_height v x)"
    using F'(2) by (intro exI [of _ ys'] exI [of _ zs]) auto
qed (use assms in \<open>auto simp: order_inv_def\<close>)

lemma order_inv_expand:
  assumes dec: "decreasing v" and inv: "order_inv v base bt root (c # stack) F P"
    and c: "c \<notin> set P" "\<not> order_leaf v base c" and new: "set new = set (order_tips v bt c)"
  shows "order_inv v base bt root (new @ c # stack) F (snd (index_insert c P))"
  unfolding order_inv_def
proof (intro conjI ballI)
  have lt: "v_height v y < v_height v c" if "y \<in> set new" for y
    using that dec by (auto simp: new order_tips_def decreasing_def)
  fix x assume x: "x \<in> set (snd (index_insert c P)) - set F"
  show "\<exists>ys zs. new @ c # stack = ys @ x # zs \<and> set (order_tips v bt x) \<subseteq> set F \<union> set ys \<and>
      (\<forall>y \<in> set ys. v_height v y < v_height v x)"
  proof (cases "x = c")
    case True
    then show ?thesis using lt new by (intro exI [of _ new] exI [of _ stack]) auto
  next
    case False
    then obtain ys zs where "c # stack = ys @ x # zs" "set (order_tips v bt x) \<subseteq> set F \<union> set ys"
        "\<forall>y \<in> set ys. v_height v y < v_height v x"
      using order_inv_open [OF inv, of x] x by auto
    moreover from this(1) obtain ys' where "ys = c # ys'" using False by (cases ys) auto
    ultimately show ?thesis
      using lt by (intro exI [of _ "new @ ys"] exI [of _ zs]) (auto dest: less_trans)
  qed
next
  show "set (new @ c # stack) \<union> set F \<union> set (snd (index_insert c P)) \<subseteq> below v base bt root"
    using inv c(2) new by (auto simp: order_inv_def intro: below_tip)
qed (use inv c in \<open>auto simp: order_inv_def\<close>)

lemma order_inv_end:
  assumes "order_inv v base bt root [] F P"
  shows "topological v base bt F \<and> set F = below v base bt root"
proof -
  have F: "topological v base bt F" "root \<in> set F" "set F \<subseteq> below v base bt root"
    using assms by (auto simp: order_inv_def)
  have "x \<in> set F" if "x \<in> below v base bt root" for x
    using that
  proof induction
    case (below_tip x t)
    obtain ys zs where "F = ys @ x # zs" using below_tip.IH by (meson split_list)
    then show ?case using F(1) below_tip.hyps by (fastforce simp: topological_def)
  qed (rule F(2))
  with F show ?thesis by blast
qed

locale order_cache = cache ops content
  for ops :: "('c, hash \<times> hash \<times> u64, hash list) cache_ops" and content
begin

definition orders_sound :: "dag_view \<Rightarrow> hash \<Rightarrow> u64 \<Rightarrow> topoheight \<Rightarrow> 'c \<Rightarrow> bool" where
  "orders_sound v base bh bt = sound (\<lambda>(x, b, h) xs. b = base \<and> h = bh \<longrightarrow>
     topological v base bt xs \<and> set xs = below v base bt x)"

lemma full_order_loop_correct:
  assumes dec: "decreasing v" and fin: "finite (below v base bt root)"
  shows "order_inv v base bt root stack F P \<Longrightarrow> orders_sound v base bh bt c \<Longrightarrow>
    length stack + weight v (below v base bt root - set P) \<le> fuel \<Longrightarrow>
    \<exists>F' c'. full_order_loop ops (dag_of v) base bh bt fuel stack F P c = Inr (F', c') \<and>
      topological v base bt F' \<and> set F' = below v base bt root \<and> orders_sound v base bh bt c'"
proof (induction fuel arbitrary: stack F P c)
  case 0
  then have "stack = []" by simp
  with 0 show ?case using order_inv_end [of v base bt root F P] by simp
next
  case (Suc fuel)
  note inv = Suc.prems(1) and snd' = Suc.prems(2) and fuel = Suc.prems(3)
  show ?case
  proof (cases stack)
    case Nil
    with inv snd' show ?thesis using order_inv_end [of v base bt root F P] by simp
  next
    case (Cons x rest)
    have x: "x \<in> below v base bt root" and F: "topological v base bt F" "set F \<subseteq> below v base bt root"
      using inv Cons by (auto simp: order_inv_def)
    show ?thesis
    proof (cases "x \<in> set P")
      case True
      have "topological v base bt (snd (index_insert x F))"
        using order_inv_waiting [OF inv [unfolded Cons] True] F topological_snoc [OF F(1), of x]
        by (auto simp: index_insert_def)
      then have "order_inv v base bt root rest (snd (index_insert x F)) P"
        using inv Cons x F by (intro order_inv_pop [of v base bt root x rest F P]) auto
      with True Cons Suc.IH snd' fuel show ?thesis by simp
    next
      case False
      obtain r c' where get: "cache_get ops (x, base, bh) c = (r, c')" by (cases "cache_get ops (x, base, bh) c")
      have snd'': "orders_sound v base bh bt c'"
        using sound_get(1) [OF _ get] snd' by (simp add: orders_sound_def)
      show ?thesis
      proof (cases r)
        case (Some xs)
        then have xs: "topological v base bt xs" "set xs = below v base bt x"
          using sound_get(2) [OF _ get, of _ xs] snd' by (auto simp: orders_sound_def)
        have "order_inv v base bt root rest (index_extend xs F) P"
          using inv Cons x F xs by (intro order_inv_pop [of v base bt root x rest F P] topological_extend)
            (auto intro: below_self below_trans)
        with False Cons get Some Suc.IH snd'' fuel show ?thesis by simp
      next
        case None
        show ?thesis
        proof (cases "order_leaf v base x")
          case True
          have "order_inv v base bt root rest (index_extend [x] F) P"
            using inv Cons x F True by (intro order_inv_pop [of v base bt root x rest F P])
              (auto simp: index_extend_def intro!: topological_snoc)
          moreover have "orders_sound v base bh bt (cache_put ops (x, base, bh) [x] c')"
            using snd'' below_leaf [OF True] topological_snoc [of v base bt "[]" x] True
            unfolding orders_sound_def by (intro sound_put) (auto simp: index_insert_def)
          ultimately show ?thesis
            using False Cons get None Suc.IH fuel True by (auto simp: order_leaf_def)
        next
          case nleaf: False
          let ?new = "rev (map fst (sort_ascending_by_cumulative_difficulty
            (map (\<lambda>t. (t, v_cumulative v t)) (order_tips v bt x))))"
          have "set ?new = set (order_tips v bt x)"
            by (simp add: sort_ascending_by_cumulative_difficulty_def image_image)
          then have "order_inv v base bt root (?new @ x # rest) F (snd (index_insert x P))"
            using dec inv Cons False nleaf by (intro order_inv_expand) auto
          moreover have "length ?new \<le> length (v_past v x)"
            by (simp add: sort_ascending_by_cumulative_difficulty_def order_tips_def)
          then have "length (?new @ x # rest) + weight v (below v base bt root - set (snd (index_insert x P))) \<le> fuel"
            using fuel Cons weight_expand [OF fin x False, of v] unfolding set_index_insert length_append by simp
          ultimately show ?thesis
            using False Cons get None Suc.IH snd'' nleaf
            by (simp add: order_leaf_def order_scores_eq order_tips_def)
        qed
      qed
    qed
  qed
qed

end

interpretation order_lru: order_cache "lru_ops cap" set for cap
  by unfold_locales

lemma map2_xor_commute: "map2 (XOR) (map2 (XOR) b x) y = map2 (XOR) (map2 (XOR) b y) x" for b x y :: "u8 list"
  by (rule nth_equalityI) (auto simp: ac_simps)

lemma combined_hash_perm: "mset tips = mset tips' \<Longrightarrow> get_combined_hash_for_tips tips = get_combined_hash_for_tips tips'"
proof -
  assume "mset tips = mset tips'"
  then have "fold (\<lambda>t bytes. map2 (XOR) bytes (as_bytes t)) tips = fold (\<lambda>t bytes. map2 (XOR) bytes (as_bytes t)) tips'"
    by (intro fold_multiset_equiv) (auto simp: fun_eq_iff intro: map2_xor_commute)
  then show ?thesis by (simp add: get_combined_hash_for_tips_def)
qed

text \<open>The key of the common base cache is not unique for a set of tips: three tips can cancel out.\<close>

lemma combined_hash_not_unique:
  "get_combined_hash_for_tips [Hash (replicate 32 1), Hash (replicate 32 2), Hash (replicate 32 3)]
     = get_combined_hash_for_tips []"
  by code_simp

section \<open>Properties\<close>

text \<open>
  C1. The full order of a block is a topological order of exactly the blocks below it down to
  the base: no block twice, and every block after all the tips it builds on. The search
  terminates, whatever the caches forget, and leaves them holding such orders only.
\<close>

theorem full_order_topological:
  assumes "order_cache ops content" and "decreasing v" and "finite (below v base bt h)"
    and "1 + weight v (below v base bt h) \<le> fuel"
    and "\<forall>((x, b, n), xs) \<in> content c. b = base \<and> n = bh \<longrightarrow>
      topological v base bt xs \<and> set xs = below v base bt x"
  shows "\<exists>order c'. generate_full_order ops (dag_of v) fuel h base bh bt c = Inr (order, c') \<and>
    topological v base bt order \<and> set order = below v base bt h \<and>
    (\<forall>((x, b, n), xs) \<in> content c'. b = base \<and> n = bh \<longrightarrow>
      topological v base bt xs \<and> set xs = below v base bt x)"
proof -
  note cache = order_cache.axioms [OF assms(1)]
  have sound: "order_cache.orders_sound content v base bh bt c"
    using assms(5) unfolding order_cache.orders_sound_def [OF assms(1)] cache.sound_def [OF cache] by fast
  have "length [h] + weight v (below v base bt h - set []) \<le> fuel" using assms(4) by simp
  from order_cache.full_order_loop_correct [OF assms(1-3) order_inv_start sound this]
  obtain F c' where run: "full_order_loop ops (dag_of v) base bh bt fuel [h] [] [] c = Inr (F, c')"
    and F: "topological v base bt F" "set F = below v base bt h" "order_cache.orders_sound content v base bh bt c'"
    by auto
  then have "order_cache.orders_sound content v base bh bt (cache_put ops (h, base, bh) F c')"
    unfolding order_cache.orders_sound_def [OF assms(1)] by (intro cache.sound_put [OF cache]) auto
  then show ?thesis
    using run F unfolding order_cache.orders_sound_def [OF assms(1)] cache.sound_def [OF cache]
    by (simp add: generate_full_order_def)
qed

lemma sample_below: "below sample_view (Hash [0]) 0 (Hash [2]) = {Hash [0], Hash [2]}"
proof
  show "below sample_view (Hash [0]) 0 (Hash [2]) \<subseteq> {Hash [0], Hash [2]}"
  proof
    fix x assume "x \<in> below sample_view (Hash [0]) 0 (Hash [2])"
    then show "x \<in> {Hash [0], Hash [2]}"
      by induction (auto simp: order_leaf_def order_tips_def sample_view_def split: if_splits)
  qed
  have "Hash [0] \<in> below sample_view (Hash [0]) 0 (Hash [2])"
    by (rule below_tip [OF below_self]) (simp_all add: order_leaf_def order_tips_def sample_view_def)
  then show "{Hash [0], Hash [2]} \<subseteq> below sample_view (Hash [0]) 0 (Hash [2])"
    by (auto intro: below_self)
qed

theorem full_order_topological_witness:
  "\<exists>order c'. generate_full_order (lru_ops 4) (dag_of sample_view) 10 (Hash [2]) (Hash [0]) 0 0 [] = Inr (order, c')
     \<and> topological sample_view (Hash [0]) 0 order \<and> set order = {Hash [0], Hash [2]}"
proof -
  have "decreasing sample_view" by (simp add: decreasing_def sample_view_def)
  moreover have "1 + weight sample_view {Hash [0], Hash [2]} \<le> 10" by (simp add: weight_def sample_view_def)
  ultimately show ?thesis
    using full_order_topological [OF order_lru.order_cache_axioms, of sample_view "Hash [0]" 0 "Hash [2]" 10 "[]" 0 4]
    by (auto simp: sample_below)
qed

end
