(* ===== verification/Block.thy ===== *)
theory Block
  imports HardFork
begin

text \<open>
  Block headers (\<open>common/src/block/header.rs\<close>) and the miner's view of them
  (\<open>common/src/block/miner.rs\<close>): the wire format of the header, the bytes that are hashed for
  the proof of work, and the \<open>Worker\<close> that keeps those bytes up to date while a miner changes the
  nonce and the timestamp. The hash functions are parameters: \<open>H\<close> is \<open>crypto::hash\<close>, and a
  \<open>pow_lib\<close> is what \<open>pow_hash\<close> calls of the external proof-of-work crate.
\<close>

section \<open>Header\<close>

definition EXTRA_NONCE_SIZE :: usize where "EXTRA_NONCE_SIZE = 32"

definition HEADER_WORK_SIZE :: usize where "HEADER_WORK_SIZE = 73"

definition BLOCK_WORK_SIZE :: usize where "BLOCK_WORK_SIZE = 112"

record block_header =
  bh_version :: block_version
  bh_tips :: "hash list"
  bh_timestamp :: u64
  bh_height :: u64
  bh_nonce :: u64
  bh_extra_nonce :: "u8 list"
  bh_miner :: public_key
  bh_txs_hashes :: "hash list"

definition block_header_new ::
  "block_version \<Rightarrow> u64 \<Rightarrow> u64 \<Rightarrow> hash list \<Rightarrow> u8 list \<Rightarrow> public_key \<Rightarrow> hash list \<Rightarrow> block_header" where
  "block_header_new version height timestamp tips extra_nonce miner txs_hashes =
     \<lparr>bh_version = version, bh_tips = tips, bh_timestamp = timestamp, bh_height = height, bh_nonce = 0,
      bh_extra_nonce = extra_nonce, bh_miner = miner, bh_txs_hashes = txs_hashes\<rparr>"

definition get_tips_hash :: "(u8 list \<Rightarrow> hash) \<Rightarrow> block_header \<Rightarrow> hash" where
  "get_tips_hash H b = H (concat (map as_bytes (bh_tips b)))"

definition get_txs_hash :: "(u8 list \<Rightarrow> hash) \<Rightarrow> block_header \<Rightarrow> hash" where
  "get_txs_hash H b = H (concat (map as_bytes (bh_txs_hashes b)))"

definition get_txs_count :: "block_header \<Rightarrow> usize" where
  "get_txs_count b = length (bh_txs_hashes b)"

definition get_work :: "(u8 list \<Rightarrow> hash) \<Rightarrow> block_header \<Rightarrow> u8 list" where
  "get_work H b = to_bytes (write_block_version (bh_version b)) @ to_be_bytes (bh_height b)
     @ as_bytes (get_tips_hash H b) @ as_bytes (get_txs_hash H b)"

definition get_work_hash :: "(u8 list \<Rightarrow> hash) \<Rightarrow> block_header \<Rightarrow> hash" where
  "get_work_hash H b = H (get_work H b)"

definition get_serialized_header :: "(u8 list \<Rightarrow> hash) \<Rightarrow> block_header \<Rightarrow> u8 list" where
  "get_serialized_header H b = as_bytes (get_work_hash H b) @ to_be_bytes (bh_timestamp b)
     @ to_be_bytes (bh_nonce b) @ bh_extra_nonce b @ key_point (bh_miner b)"

definition hash_block_header :: "(u8 list \<Rightarrow> hash) \<Rightarrow> block_header \<Rightarrow> hash" where
  "hash_block_header H b = H (get_serialized_header H b)"

definition write_block_header :: "block_header \<Rightarrow> writer \<Rightarrow> writer" where
  "write_block_header b = writes [write_block_version (bh_version b), write_u64 (bh_height b),
       write_u64 (bh_timestamp b), write_u64 (bh_nonce b), write_bytes (bh_extra_nonce b),
       write_u8 (of_nat (length (bh_tips b))), fold write_hash (bh_tips b),
       write_u16 (of_nat (length (bh_txs_hashes b))), fold write_hash (bh_txs_hashes b),
       write_public_key (bh_miner b)]"

definition read_block_header :: "block_header rd" where
  "read_block_header = rbind read_block_version (\<lambda>version. rbind read_u64 (\<lambda>height.
     rbind read_u64 (\<lambda>timestamp. rbind read_u64 (\<lambda>nonce. rbind read_bytes_32 (\<lambda>extra_nonce.
     rbind read_u8 (\<lambda>tips_count.
     if unat tips_count > TIPS_LIMIT then rfail InvalidValue
     else rbind (read_unique InvalidValue (unat tips_count) read_hash []) (\<lambda>tips.
     rbind read_u16 (\<lambda>txs_count.
     rbind (read_unique InvalidValue (unat txs_count) read_hash []) (\<lambda>txs_hashes.
     rbind read_public_key (\<lambda>miner.
     rreturn \<lparr>bh_version = version, bh_tips = tips, bh_timestamp = timestamp, bh_height = height,
       bh_nonce = nonce, bh_extra_nonce = extra_nonce, bh_miner = miner,
       bh_txs_hashes = txs_hashes\<rparr>))))))))))"

definition size_block_header :: "block_header \<Rightarrow> usize" where
  "size_block_header b = (let tips_size = 1 + length (bh_tips b) * HASH_SIZE;
       txs_size = 2 + length (bh_txs_hashes b) * HASH_SIZE; version_size = 1
     in EXTRA_NONCE_SIZE + tips_size + txs_size + version_size + size_public_key (bh_miner b) + 8 + 8 + 8)"

section \<open>Proof-of-work hash\<close>

text \<open>
  \<open>aligned_input\<close> is the content of \<open>v1::AlignedInput::default().as_mut_slice()\<close>; slicing it
  beyond its end panics.
\<close>

record 'e pow_lib =
  aligned_input :: "'e + u8 list"
  v1_hash :: "u8 list \<Rightarrow> 'e + hash"
  v2_hash :: "u8 list \<Rightarrow> 'e + hash"

datatype 'e pow_error = HashLibError 'e | SlicePanic

definition lib_result :: "'e + 'a \<Rightarrow> 'e pow_error + 'a" where
  "lib_result r = (case r of Inl e \<Rightarrow> Inl (HashLibError e) | Inr x \<Rightarrow> Inr x)"

definition pow_hash :: "'e pow_lib \<Rightarrow> u8 list \<Rightarrow> algorithm \<Rightarrow> 'e pow_error + hash" where
  "pow_hash lib work algo = (case algo of
     AlgoV1 \<Rightarrow> (case aligned_input lib of Inl e \<Rightarrow> Inl (HashLibError e)
       | Inr buffer \<Rightarrow> if length work > length buffer then Inl SlicePanic
           else lib_result (v1_hash lib (work @ drop (length work) buffer)))
   | AlgoV2 \<Rightarrow> lib_result (v2_hash lib work))"

definition header_get_pow_hash ::
  "(u8 list \<Rightarrow> hash) \<Rightarrow> 'e pow_lib \<Rightarrow> block_header \<Rightarrow> algorithm \<Rightarrow> 'e pow_error + hash" where
  "header_get_pow_hash H lib b algo = pow_hash lib (get_serialized_header H b) algo"

section \<open>Miner work\<close>

record miner_work =
  mw_header_work_hash :: hash
  mw_timestamp :: u64
  mw_nonce :: u64
  mw_miner :: "public_key option"
  mw_extra_nonce :: "u8 list"

definition miner_work_new :: "hash \<Rightarrow> u64 \<Rightarrow> miner_work" where
  "miner_work_new header_work_hash timestamp = \<lparr>mw_header_work_hash = header_work_hash,
     mw_timestamp = timestamp, mw_nonce = 0, mw_miner = None,
     mw_extra_nonce = replicate EXTRA_NONCE_SIZE 0\<rparr>"

definition from_block :: "(u8 list \<Rightarrow> hash) \<Rightarrow> block_header \<Rightarrow> miner_work" where
  "from_block H b = \<lparr>mw_header_work_hash = get_work_hash H b, mw_timestamp = bh_timestamp b, mw_nonce = 0,
     mw_miner = Some (bh_miner b), mw_extra_nonce = bh_extra_nonce b\<rparr>"

definition mw_set_timestamp :: "u64 \<Rightarrow> miner_work \<Rightarrow> miner_work" where
  "mw_set_timestamp timestamp w = w\<lparr>mw_timestamp := timestamp\<rparr>"

definition mw_increase_nonce :: "miner_work \<Rightarrow> miner_work" where
  "mw_increase_nonce w = w\<lparr>mw_nonce := mw_nonce w + 1\<rparr>"

definition mw_set_miner :: "public_key \<Rightarrow> miner_work \<Rightarrow> miner_work" where
  "mw_set_miner miner w = w\<lparr>mw_miner := Some miner\<rparr>"

definition mw_set_thread_id :: "u8 \<Rightarrow> miner_work \<Rightarrow> miner_work" where
  "mw_set_thread_id i w = w\<lparr>mw_extra_nonce := (mw_extra_nonce w)[EXTRA_NONCE_SIZE - 1 := i]\<rparr>"

definition mw_set_thread_id_u16 :: "u16 \<Rightarrow> miner_work \<Rightarrow> miner_work" where
  "mw_set_thread_id_u16 i w = w\<lparr>mw_extra_nonce := take (EXTRA_NONCE_SIZE - 2) (mw_extra_nonce w) @ to_be_bytes i\<rparr>"

text \<open>\<open>apply_miner_work\<close> unwraps the miner: without one it panics (\<open>None\<close>).\<close>

definition apply_miner_work :: "miner_work \<Rightarrow> block_header \<Rightarrow> block_header option" where
  "apply_miner_work w b = (case mw_miner w of None \<Rightarrow> None
     | Some miner \<Rightarrow> Some (b\<lparr>bh_miner := miner, bh_timestamp := mw_timestamp w, bh_nonce := mw_nonce w,
         bh_extra_nonce := mw_extra_nonce w\<rparr>))"

definition write_miner_work :: "miner_work \<Rightarrow> writer \<Rightarrow> writer" where
  "write_miner_work w = writes [write_hash (mw_header_work_hash w), write_u64 (mw_timestamp w),
       write_u64 (mw_nonce w), write_bytes (mw_extra_nonce w),
       (case mw_miner w of Some miner \<Rightarrow> write_public_key miner
         | None \<Rightarrow> write_bytes (replicate RISTRETTO_COMPRESSED_SIZE 0))]"

definition read_miner_work :: "miner_work rd" where
  "read_miner_work r = (if total_size r \<noteq> BLOCK_WORK_SIZE then (Inl InvalidSize, r)
     else (rbind read_hash (\<lambda>header_work_hash. rbind read_u64 (\<lambda>timestamp. rbind read_u64 (\<lambda>nonce.
       rbind read_bytes_32 (\<lambda>extra_nonce. rbind read_public_key (\<lambda>miner.
       rreturn \<lparr>mw_header_work_hash = header_work_hash, mw_timestamp = timestamp, mw_nonce = nonce,
         mw_miner = Some miner, mw_extra_nonce = extra_nonce\<rparr>)))))) r)"

definition size_miner_work :: "miner_work \<Rightarrow> usize" where
  "size_miner_work w = BLOCK_WORK_SIZE"

section \<open>Worker\<close>

text \<open>The scratch pads the variants own are buffers of the proof-of-work crate.\<close>

datatype work_variant = Uninitialized | VariantV1 | VariantV2

fun get_algorithm :: "work_variant \<Rightarrow> algorithm option" where
  "get_algorithm Uninitialized = None"
| "get_algorithm VariantV1 = Some AlgoV1"
| "get_algorithm VariantV2 = Some AlgoV2"

record worker =
  wk_work :: "(miner_work \<times> u8 list) option"
  wk_variant :: work_variant

datatype 'e worker_error = WorkerUninitialized | MissingWork | HashError 'e | WorkerPanic

definition worker_new :: worker where
  "worker_new = \<lparr>wk_work = None, wk_variant = Uninitialized\<rparr>"

definition take_work :: "worker \<Rightarrow> miner_work option \<times> worker" where
  "take_work k = (map_option fst (wk_work k), k\<lparr>wk_work := None\<rparr>)"

definition set_work :: "miner_work \<Rightarrow> algorithm \<Rightarrow> worker \<Rightarrow> 'e worker_error + worker" where
  "set_work work kind k =
     (let k = (if get_algorithm (wk_variant k) \<noteq> Some kind
               then k\<lparr>wk_variant := case kind of AlgoV1 \<Rightarrow> VariantV1 | AlgoV2 \<Rightarrow> VariantV2\<rparr> else k);
          bytes = to_bytes (write_miner_work work)
      in if length bytes \<noteq> BLOCK_WORK_SIZE then Inl WorkerPanic
         else Inr (k\<lparr>wk_work := Some (work, bytes)\<rparr>))"

definition worker_increase_nonce :: "worker \<Rightarrow> 'e worker_error + worker" where
  "worker_increase_nonce k = (case wk_work k of
     Some (work, input) \<Rightarrow> let work = mw_increase_nonce work in
       Inr (k\<lparr>wk_work := Some (work, take 40 input @ to_be_bytes (mw_nonce work) @ drop 48 input)\<rparr>)
   | None \<Rightarrow> Inl MissingWork)"

definition worker_set_timestamp :: "u64 \<Rightarrow> worker \<Rightarrow> 'e worker_error + worker" where
  "worker_set_timestamp timestamp k = (case wk_work k of
     Some (work, input) \<Rightarrow> let work = mw_set_timestamp timestamp work in
       Inr (k\<lparr>wk_work := Some (work, take 32 input @ to_be_bytes (mw_timestamp work) @ drop 40 input)\<rparr>)
   | None \<Rightarrow> Inl MissingWork)"

definition worker_get_pow_hash :: "'e pow_lib \<Rightarrow> worker \<Rightarrow> 'e worker_error + hash" where
  "worker_get_pow_hash lib k = (case wk_work k of
     None \<Rightarrow> Inl MissingWork
   | Some (_, input) \<Rightarrow> (case wk_variant k of
       Uninitialized \<Rightarrow> Inl WorkerUninitialized
     | VariantV1 \<Rightarrow> (case aligned_input lib of Inl e \<Rightarrow> Inl (HashError e)
         | Inr buffer \<Rightarrow> if BLOCK_WORK_SIZE > length buffer then Inl WorkerPanic
             else (case v1_hash lib (input @ drop BLOCK_WORK_SIZE buffer) of
               Inl e \<Rightarrow> Inl (HashError e) | Inr h \<Rightarrow> Inr h))
     | VariantV2 \<Rightarrow> (case v2_hash lib input of Inl e \<Rightarrow> Inl (HashError e) | Inr h \<Rightarrow> Inr h)))"

definition worker_get_block_hash :: "(u8 list \<Rightarrow> hash) \<Rightarrow> worker \<Rightarrow> 'e worker_error + hash" where
  "worker_get_block_hash H k = (case wk_work k of
     Some (_, cache) \<Rightarrow> Inr (H cache) | None \<Rightarrow> Inl MissingWork)"

section \<open>Lemmas\<close>

subsection \<open>Wire formats\<close>

definition block_header_ok :: "block_header \<Rightarrow> bool" where
  "block_header_ok b \<longleftrightarrow> length (bh_extra_nonce b) = EXTRA_NONCE_SIZE \<and>
     distinct (bh_tips b) \<and> length (bh_tips b) \<le> TIPS_LIMIT \<and> (\<forall>h \<in> set (bh_tips b). hash_ok h) \<and>
     distinct (bh_txs_hashes b) \<and> length (bh_txs_hashes b) < 65536 \<and> (\<forall>h \<in> set (bh_txs_hashes b). hash_ok h) \<and>
     public_key_ok (bh_miner b)"

lemma unat_u16_less: "unat (w :: u16) < 65536"
  using unat_less_2p [of w] by simp

lemmas header_appends = block_version.write_append public_key.write_append hash.fold_append hash.write_append

lemma header_append: "append_only (write_block_header b)"
  unfolding write_block_header_def by (simp add: codec_simps header_appends)

lemma to_bytes_header:
  "to_bytes (write_block_header b) = to_bytes (write_block_version (bh_version b)) @ to_be_bytes (bh_height b)
     @ to_be_bytes (bh_timestamp b) @ to_be_bytes (bh_nonce b) @ bh_extra_nonce b
     @ [of_nat (length (bh_tips b))] @ concat (map (\<lambda>h. to_bytes (write_hash h)) (bh_tips b))
     @ to_be_bytes (of_nat (length (bh_txs_hashes b)) :: u16)
     @ concat (map (\<lambda>h. to_bytes (write_hash h)) (bh_txs_hashes b)) @ to_bytes (write_public_key (bh_miner b))"
  unfolding write_block_header_def by (simp add: codec_simps header_appends)

lemma length_hashes:
  "\<forall>h \<in> set hs. hash_ok h \<Longrightarrow> length (concat (map (\<lambda>h. to_bytes (write_hash h)) hs)) = length hs * HASH_SIZE"
  by (rule length_concat_const) (simp add: hash.size_write [symmetric] size_hash_def)

lemma reads_header:
  assumes "block_header_ok b"
  shows "reads read_block_header b (to_bytes (write_block_header b))"
proof -
  have tips: "unat (of_nat (length (bh_tips b)) :: u8) = length (bh_tips b)"
    and txs: "unat (of_nat (length (bh_txs_hashes b)) :: u16) = length (bh_txs_hashes b)"
    using assms by (auto simp: block_header_ok_def TIPS_LIMIT_def unat_of_nat)
  have tips_read: "reads (read_unique InvalidValue (length (bh_tips b)) read_hash []) (bh_tips b)
      (concat (map (\<lambda>h. to_bytes (write_hash h)) (bh_tips b)))"
    using hash.reads_unique [of "bh_tips b" "[]" InvalidValue] assms by (simp add: block_header_ok_def)
  have txs_read: "reads (read_unique InvalidValue (length (bh_txs_hashes b)) read_hash []) (bh_txs_hashes b)
      (concat (map (\<lambda>h. to_bytes (write_hash h)) (bh_txs_hashes b)))"
    using hash.reads_unique [of "bh_txs_hashes b" "[]" InvalidValue] assms by (simp add: block_header_ok_def)
  have extra: "length (bh_extra_nonce b) = 32" "length (bh_tips b) \<le> TIPS_LIMIT" "public_key_ok (bh_miner b)"
    using assms by (simp_all add: block_header_ok_def EXTRA_NONCE_SIZE_def)
  show ?thesis
    unfolding to_bytes_header read_block_header_def read_bytes_32_def
    by (intro reads_bind [OF block_version.read_write] reads_bind [OF reads_read_u64]
        reads_bind [OF reads_read_array [OF extra(1)]] reads_bind [OF reads_read_u8])
      (simp_all add: tips txs extra extra(2) [THEN leD] reads_bind [OF tips_read] reads_bind [OF reads_read_u16]
        reads_bind [OF txs_read] reads_bind_return [OF public_key.read_write])
qed

lemma accepts_header:
  "accepts read_block_header (\<lambda>b bs. block_header_ok b \<and> bs = to_bytes (write_block_header b))"
  unfolding read_block_header_def read_bytes_32_def
proof (intro accepts_bindI [OF block_version.read_strict] accepts_bindI [OF accepts_read_ints(3)]
    accepts_bindI [OF accepts_read_array] accepts_bindI [OF accepts_read_u8] accepts_if accepts_fail
    accepts_bindI [OF hash.accepts_unique] accepts_bindI [OF accepts_read_ints(1)]
    accepts_bindI [OF public_key.read_strict] accepts_return distinct.simps(1) [THEN iffD2])
qed (auto simp: to_bytes_header block_header_ok_def EXTRA_NONCE_SIZE_def unat_u16_less)

interpretation header: strict_serializer write_block_header read_block_header size_block_header block_header_ok
proof
  show "size_block_header b = length (to_bytes (write_block_header b))" if "block_header_ok b" for b
    using that unfolding to_bytes_header
    by (simp add: block_header_ok_def length_hashes size_block_header_def EXTRA_NONCE_SIZE_def
        block_version.size_write [symmetric] public_key.size_write [symmetric])
  show "reader_safe read_block_header"
    unfolding read_block_header_def read_bytes_32_def
    by (intro codec_intros block_version.read_safe public_key.read_safe hash.safe_unique)
qed (rule header_append, erule reads_header, rule accepts_header)

definition miner_work_ok :: "miner_work \<Rightarrow> bool" where
  "miner_work_ok w \<longleftrightarrow> hash_ok (mw_header_work_hash w) \<and> length (mw_extra_nonce w) = EXTRA_NONCE_SIZE \<and>
     (case mw_miner w of None \<Rightarrow> True | Some miner \<Rightarrow> public_key_ok miner)"

lemma miner_bytes: "public_key_ok k \<Longrightarrow> to_bytes (write_public_key k) = key_point k \<and> length (key_point k) = 32"
  by (simp add: public_key_ok_def point_ok_def RISTRETTO_COMPRESSED_SIZE_def write_public_key_def
      write_point_def codec_simps)

definition miner_field :: "miner_work \<Rightarrow> u8 list" where
  "miner_field w = (case mw_miner w of None \<Rightarrow> replicate 32 0 | Some k \<Rightarrow> key_point k)"

lemma to_bytes_miner_work:
  assumes "miner_work_ok w"
  shows "to_bytes (write_miner_work w) = as_bytes (mw_header_work_hash w) @ to_be_bytes (mw_timestamp w)
    @ to_be_bytes (mw_nonce w) @ mw_extra_nonce w @ miner_field w"
  using assms unfolding write_miner_work_def
  by (auto simp: codec_simps header_appends write_hash_def miner_work_ok_def miner_field_def miner_bytes
      RISTRETTO_COMPRESSED_SIZE_def split: option.split)

lemma length_miner_work:
  "miner_work_ok w \<Longrightarrow> length (as_bytes (mw_header_work_hash w)) = 32 \<and> length (mw_extra_nonce w) = 32
     \<and> length (miner_field w) = 32 \<and> length (to_bytes (write_miner_work w)) = BLOCK_WORK_SIZE"
  unfolding to_bytes_miner_work
  by (auto simp: miner_work_ok_def hash_ok_def HASH_SIZE_def EXTRA_NONCE_SIZE_def BLOCK_WORK_SIZE_def
      miner_field_def miner_bytes split: option.splits)

subsection \<open>Worker\<close>

text \<open>The workers a miner can get to. Works handed in have the array sizes of their type.\<close>

inductive worker_reachable :: "worker \<Rightarrow> bool" where
  start: "worker_reachable worker_new"
| switch: "worker_reachable k \<Longrightarrow> miner_work_ok w \<Longrightarrow> set_work w kind k = (Inr k' :: unit worker_error + worker) \<Longrightarrow>
    worker_reachable k'"
| nonce: "worker_reachable k \<Longrightarrow> worker_increase_nonce k = (Inr k' :: unit worker_error + worker) \<Longrightarrow> worker_reachable k'"
| clock: "worker_reachable k \<Longrightarrow> worker_set_timestamp t k = (Inr k' :: unit worker_error + worker) \<Longrightarrow> worker_reachable k'"
| drop: "worker_reachable k \<Longrightarrow> take_work k = (w, k') \<Longrightarrow> worker_reachable k'"

lemma worker_cache:
  assumes "worker_reachable k"
  shows "wk_work k = Some (w, input) \<Longrightarrow> miner_work_ok w \<and> input = to_bytes (write_miner_work w) \<and>
    get_algorithm (wk_variant k) \<noteq> None"
  using assms
proof (induction arbitrary: w input)
  case (switch k w' kind k')
  then show ?case by (auto simp: set_work_def Let_def split: if_splits algorithm.splits)
next
  case (nonce k k')
  then obtain w0 i0 where w0: "wk_work k = Some (w0, i0)" "w = mw_increase_nonce w0"
      "input = take 40 i0 @ to_be_bytes (mw_nonce w) @ drop 48 i0" "wk_variant k' = wk_variant k"
    by (auto simp: worker_increase_nonce_def Let_def split: option.splits)
  from nonce.IH [OF w0(1)] length_miner_work [of w0] show ?case
    using w0 by (auto simp: to_bytes_miner_work miner_work_ok_def mw_increase_nonce_def miner_field_def EXTRA_NONCE_SIZE_def)
next
  case (clock k t k')
  then obtain w0 i0 where w0: "wk_work k = Some (w0, i0)" "w = mw_set_timestamp t w0"
      "input = take 32 i0 @ to_be_bytes (mw_timestamp w) @ drop 40 i0" "wk_variant k' = wk_variant k"
    by (auto simp: worker_set_timestamp_def Let_def split: option.splits)
  from clock.IH [OF w0(1)] length_miner_work [of w0] show ?case
    using w0 by (auto simp: to_bytes_miner_work miner_work_ok_def mw_set_timestamp_def miner_field_def EXTRA_NONCE_SIZE_def)
qed (auto simp: worker_new_def take_work_def)

lemma get_work_hash_apply:
  "apply_miner_work w b = Some b' \<Longrightarrow> get_work_hash H b' = get_work_hash H b"
  by (auto simp: apply_miner_work_def get_work_hash_def get_work_def get_tips_hash_def get_txs_hash_def
      split: option.splits)

lemma serialized_header_apply:
  assumes "miner_work_ok w" and "mw_header_work_hash w = get_work_hash H b" and "apply_miner_work w b = Some b'"
  shows "get_serialized_header H b' = to_bytes (write_miner_work w)"
proof -
  obtain miner where "mw_miner w = Some miner" "b' = b\<lparr>bh_miner := miner, bh_timestamp := mw_timestamp w,
      bh_nonce := mw_nonce w, bh_extra_nonce := mw_extra_nonce w\<rparr>"
    using assms(3) by (auto simp: apply_miner_work_def split: option.splits)
  then show ?thesis
    using get_work_hash_apply [OF assms(3)] assms(2)
    by (simp add: get_serialized_header_def to_bytes_miner_work [OF assms(1)] miner_field_def)
qed

subsection \<open>What the hashes commit to\<close>

lemma concat_hashes_inject:
  assumes "concat (map as_bytes xs) = concat (map as_bytes ys)"
    and "\<forall>h \<in> set xs. hash_ok h" and "\<forall>h \<in> set ys. hash_ok h"
  shows "xs = ys"
  using assms
proof (induction xs arbitrary: ys)
  case (Cons x xs)
  have "length (as_bytes x) = 32" using Cons.prems by (simp add: hash_ok_def HASH_SIZE_def)
  then obtain y zs where ys: "ys = y # zs" using Cons.prems(1) by (cases ys) auto
  then have "as_bytes x = as_bytes y \<and> concat (map as_bytes xs) = concat (map as_bytes zs)"
    using Cons.prems by (intro append_eq_append_conv [THEN iffD1]) (auto simp: hash_ok_def)
  then show ?case using Cons ys by (auto intro: hash.expand)
next
  case Nil
  then show ?case by (cases ys) (auto simp: hash_ok_def HASH_SIZE_def)
qed

lemma block_version_bytes: "to_bytes (write_block_version v) = [block_version_id v]"
  by (simp add: write_block_version_def codec_simps)

lemma block_version_id_inject: "block_version_id a = block_version_id b \<longleftrightarrow> a = b"
  by (cases a; cases b) simp_all

definition sample_header :: block_header where
  "sample_header = block_header_new V0 1 7 [hash_zero] (replicate 32 0) (PublicKey (replicate 32 0)) []"

lemma sample_header_ok: "block_header_ok sample_header" "block_header_ok (sample_header\<lparr>bh_nonce := 1\<rparr>)"
  by (simp_all add: sample_header_def block_header_new_def block_header_ok_def EXTRA_NONCE_SIZE_def hash_zero_def
      hash_ok_def TIPS_LIMIT_def public_key_ok_def point_ok_def RISTRETTO_COMPRESSED_SIZE_def)

section \<open>Properties\<close>

text \<open>
  C33. Header wire format. A byte string decodes to a header exactly when it starts with that
  header's encoding and the header is well formed: at most three tips, no tip and no transaction
  hash twice, fewer than 65536 transactions. There is no second encoding of a header.
\<close>

theorem header_wire_format_exact:
  "from_bytes read_block_header bs = Inr b \<longleftrightarrow>
     block_header_ok b \<and> (\<exists>rest. bs = to_bytes (write_block_header b) @ rest)"
  by (rule header.from_bytes_iff)

text \<open>
  C34. A worker mines the block it was given. Whatever sequence of work switches, nonce
  increments and timestamp updates a miner has done, the bytes the worker patched in place are
  those of the header with the work applied: it has an algorithm, its block hash is the hash of
  that header, and its proof-of-work hash is the one the node computes.
\<close>

theorem worker_mines_header:
  assumes "worker_reachable k" and "wk_work k = Some (w, input)"
    and "mw_header_work_hash w = get_work_hash H b" and "apply_miner_work w b = Some b'"
  shows "\<exists>algo. get_algorithm (wk_variant k) = Some algo \<and>
    worker_get_block_hash H k = (Inr (hash_block_header H b') :: 'e worker_error + hash) \<and>
    worker_get_pow_hash lib k = (case header_get_pow_hash H lib b' algo of
      Inr h \<Rightarrow> Inr h | Inl (HashLibError e) \<Rightarrow> Inl (HashError e) | Inl SlicePanic \<Rightarrow> Inl WorkerPanic)"
proof -
  note cache = worker_cache [OF assms(1,2)]
  then have bytes: "get_serialized_header H b' = input" "length input = BLOCK_WORK_SIZE"
    using serialized_header_apply [OF _ assms(3,4)] length_miner_work [of w] by simp_all
  obtain algo where "get_algorithm (wk_variant k) = Some algo" using cache by auto
  moreover from this have "worker_get_pow_hash lib k = (case header_get_pow_hash H lib b' algo of
      Inr h \<Rightarrow> Inr h | Inl (HashLibError e) \<Rightarrow> Inl (HashError e) | Inl SlicePanic \<Rightarrow> Inl WorkerPanic)"
    using assms(2) bytes
    by (cases "wk_variant k") (auto simp: worker_get_pow_hash_def header_get_pow_hash_def pow_hash_def
        lib_result_def split: sum.splits)
  ultimately show ?thesis
    using assms(2) bytes by (simp add: worker_get_block_hash_def hash_block_header_def)
qed

theorem worker_mines_header_witness:
  "\<exists>k. set_work (from_block (\<lambda>_. hash_zero) sample_header) AlgoV2 worker_new = (Inr k :: unit worker_error + worker) \<and>
     worker_get_block_hash (\<lambda>_. hash_zero) k
       = (Inr (hash_block_header (\<lambda>_. hash_zero) sample_header) :: unit worker_error + hash)"
proof -
  let ?H = "\<lambda>_. hash_zero" let ?w = "from_block ?H sample_header"
  have ok: "miner_work_ok ?w"
    using sample_header_ok(1) by (simp add: miner_work_ok_def from_block_def block_header_ok_def
        get_work_hash_def hash_zero_def hash_ok_def)
  then have "length (to_bytes (write_miner_work ?w)) = BLOCK_WORK_SIZE" using length_miner_work by blast
  then obtain k where k: "set_work ?w AlgoV2 worker_new = (Inr k :: unit worker_error + worker)"
      "wk_work k = Some (?w, to_bytes (write_miner_work ?w))"
    by (simp add: set_work_def Let_def)
  have "apply_miner_work ?w sample_header = Some sample_header"
    by (simp add: apply_miner_work_def from_block_def sample_header_def block_header_new_def)
  with worker_mines_header [OF worker_reachable.switch [OF worker_reachable.start ok k(1)] k(2), of ?H sample_header]
  show ?thesis using k(1) by (auto simp: from_block_def)
qed



end
