(* ===== verification/Template.thy ===== *)
theory Template
  imports TxSelector Ordering Block
begin

text \<open>
  Block templates (\<open>daemon/src/core/blockchain.rs\<close>): the transactions the blocks below some tips
  contain, the header a miner gets, and the selection of transactions for it from the mempool.
  The storage is the record of the DAG queries extended by those on headers and transactions; the
  verification of transactions works on a chain state of its own and is a parameter, as are the
  clock and the random extra nonce.
\<close>

section \<open>Storage\<close>

record block_store = dag +
  get_block_header_by_hash :: "hash \<Rightarrow> block_header bc"
  has_block_with_hash :: "hash \<Rightarrow> bool bc"
  get_tips :: "hash list bc"
  is_tx_executed_in_block :: "hash \<Rightarrow> hash \<Rightarrow> bool bc"
  is_tx_executed_in_a_block :: "hash \<Rightarrow> bool bc"
  get_block_executor_for_tx :: "hash \<Rightarrow> hash bc"
  get_transaction :: "hash \<Rightarrow> transaction bc"

abbreviation dag_part :: "block_store \<Rightarrow> dag" where
  "dag_part \<equiv> dag.truncate"

section \<open>Transactions below the tips\<close>

definition collect_txs :: "block_store \<Rightarrow> bool \<Rightarrow> hash \<Rightarrow> hash list \<Rightarrow> hash list \<Rightarrow> hash list bc" where
  "collect_txs s executed_only h = efold (\<lambda>tx hashes.
     if tx \<in> set hashes then Inr hashes
     else if \<not> executed_only then Inr (snd (index_insert tx hashes))
     else ebind (is_tx_executed_in_block s tx h)
       (\<lambda>executed. Inr (if executed then snd (index_insert tx hashes) else hashes)))"

definition enqueue_tips :: "hash list \<Rightarrow> hash list \<times> hash list \<Rightarrow> hash list \<times> hash list" where
  "enqueue_tips = fold (\<lambda>tip (processed, queue). if tip \<notin> set processed
     then (snd (index_insert tip processed), snd (index_insert tip queue)) else (processed, queue))"

fun txs_until_height_loop :: "block_store \<Rightarrow> u64 \<Rightarrow> bool \<Rightarrow> nat \<Rightarrow> hash list \<Rightarrow> hash list \<Rightarrow> hash list \<Rightarrow>
    hash list bc" where
  "txs_until_height_loop s until_height executed_only fuel queue processed hashes =
     (if queue = [] then Inr hashes
      else case fuel of 0 \<Rightarrow> Inl OutOfFuel
      | Suc fuel \<Rightarrow> let h = last queue; queue = butlast queue in
        ebind (get_block_header_by_hash s h) (\<lambda>block.
          if bh_height block \<ge> until_height then
            ebind (collect_txs s executed_only h (bh_txs_hashes block) hashes) (\<lambda>hashes.
              let (processed, queue) = enqueue_tips (bh_tips block) (processed, queue)
              in txs_until_height_loop s until_height executed_only fuel queue processed hashes)
          else txs_until_height_loop s until_height executed_only fuel queue processed hashes))"

declare txs_until_height_loop.simps [simp del]

definition get_all_txs_until_height :: "block_store \<Rightarrow> nat \<Rightarrow> u64 \<Rightarrow> hash list \<Rightarrow> bool \<Rightarrow> hash list bc" where
  "get_all_txs_until_height s fuel until_height tips executed_only =
     txs_until_height_loop s until_height executed_only fuel (index_extend tips []) [] []"

section \<open>Header template\<close>

definition select_tips :: "block_store \<Rightarrow> nat \<Rightarrow> u64 \<Rightarrow> hash \<Rightarrow> hash list \<Rightarrow> hash list bc" where
  "select_tips s fuel current_height best_tip tips = efold (\<lambda>h selected.
     if best_tip = h then Inr (selected @ [h])
     else ebind (validate_tips (dag_part s) best_tip h) (\<lambda>valid. if \<not> valid then Inr selected
     else ebind (is_near_enough_from_main_chain (dag_part s) fuel h current_height)
       (\<lambda>near. Inr (if \<not> near then selected else selected @ [h])))) tips []"

definition newest_timestamp :: "block_store \<Rightarrow> hash list \<Rightarrow> u64 bc" where
  "newest_timestamp s tips = efold (\<lambda>tip timestamp. ebind (get_timestamp s tip)
     (\<lambda>t. Inr (if t > timestamp then t else timestamp))) tips 0"

definition get_block_header_template_for_storage ::
  "block_store \<Rightarrow> network \<Rightarrow> nat \<Rightarrow> u64 \<Rightarrow> u64 \<Rightarrow> u8 list \<Rightarrow> public_key \<Rightarrow> block_header bc" where
  "get_block_header_template_for_storage s network fuel current_height now extra_nonce address =
     ebind (get_tips s) (\<lambda>tips.
     ebind (if length tips > 1 then
         ebind (find_best_tip_by_cumulative_difficulty (dag_part s) tips) (\<lambda>best_tip.
         ebind (select_tips s fuel current_height best_tip tips) (\<lambda>selected.
           Inr (if selected = [] then [best_tip] else selected)))
       else Inr tips) (\<lambda>tips.
     ebind (sort_tips (dag_part s) tips) (\<lambda>sorted_tips.
     let sorted_tips = (if length sorted_tips > TIPS_LIMIT then take TIPS_LIMIT sorted_tips else sorted_tips) in
     ebind (newest_timestamp s sorted_tips) (\<lambda>timestamp.
     let timestamp = (if now < timestamp then timestamp else now) in
     ebind (calculate_height_at_tips (dag_part s) sorted_tips) (\<lambda>height.
     Inr (block_header_new (get_version_at_height network height) height timestamp sorted_tips extra_nonce
       address []))))))"

section \<open>Selection of transactions\<close>

definition template_group :: "('b, 'm) mempool \<Rightarrow> hash list \<Rightarrow> transactions bc" where
  "template_group mp hs = efold (\<lambda>h txs. case map_of (mp_txs mp) h of None \<Rightarrow> Inl (bc_error.TxNotFound h)
     | Some st \<Rightarrow> Inr (txs @ [\<lparr>se_hash = h, se_tx = st_tx st, se_size = st_size st\<rparr>])) hs []"

definition template_selector :: "('b, 'm) mempool \<Rightarrow> tx_selector bc" where
  "template_selector mp = efold (\<lambda>(_, cache) q. ebind (template_group mp (ac_txs cache))
     (\<lambda>txs. Inr (push_group txs q))) (mp_caches mp) selector_with_capacity"

type_synonym tx_groups = "(public_key \<times> (transaction \<times> hash) list) list"

definition group_push :: "transaction \<Rightarrow> hash \<Rightarrow> tx_groups \<Rightarrow> tx_groups" where
  "group_push tx h groups = map_insert (tx_source tx)
     ((case map_of groups (tx_source tx) of None \<Rightarrow> [] | Some txs \<Rightarrow> txs) @ [(tx, h)]) groups"

definition group_orphaned :: "block_store \<Rightarrow> hash list \<Rightarrow> tx_groups bc" where
  "group_orphaned s hashes = efold (\<lambda>h groups. ebind (is_tx_executed_in_a_block s h) (\<lambda>executed.
     if executed then Inr groups
     else ebind (get_transaction s h) (\<lambda>tx. Inr (group_push tx h groups)))) hashes []"

text \<open>
  The state of the selection loop: the hashes put in the header, the two sizes, the sources that
  failed, those whose orphaned transactions were verified, and the chain state.
\<close>

record 's selection =
  sel_txs :: "hash list"
  sel_block_size :: usize
  sel_total_txs_size :: usize
  sel_failed :: "public_key list"
  sel_processed :: "public_key list"
  sel_state :: 's

text \<open>The verification of transactions on a chain state: the new state, and whether it succeeded.\<close>

record 's tx_verifier =
  verify_batch :: "(transaction \<times> hash) list \<Rightarrow> 's \<Rightarrow> bool \<times> 's"
  verify_tx :: "hash \<Rightarrow> transaction \<Rightarrow> 's \<Rightarrow> bool \<times> 's"

definition include_tx :: "tx_selector_entry \<Rightarrow> 's selection \<Rightarrow> 's selection" where
  "include_tx e st = st\<lparr>sel_txs := snd (index_insert (se_hash e) (sel_txs st)),
     sel_block_size := sel_block_size st + HASH_SIZE, sel_total_txs_size := sel_total_txs_size st + se_size e\<rparr>"

definition fail_source :: "public_key \<Rightarrow> 's selection \<Rightarrow> 's selection" where
  "fail_source source st = st\<lparr>sel_failed := snd (index_insert source (sel_failed st))\<rparr>"

definition verify_orphaned :: "'s tx_verifier \<Rightarrow> tx_groups \<Rightarrow> public_key \<Rightarrow>
    's selection \<Rightarrow> bool \<times> 's selection" where
  "verify_orphaned ver orphaned source st = (case map_of orphaned source of None \<Rightarrow> (True, st)
     | Some txs \<Rightarrow> if source \<in> set (sel_processed st) then (True, st)
       else let (ok, state) = verify_batch ver txs (sel_state st)
         in (ok, st\<lparr>sel_processed := snd (index_insert source (sel_processed st)), sel_state := state\<rparr>))"

definition consider_tx :: "bool \<Rightarrow> hash list \<Rightarrow> 's tx_verifier \<Rightarrow> tx_groups \<Rightarrow>
    tx_selector_entry \<Rightarrow> 's selection \<Rightarrow> 's selection" where
  "consider_tx skip_verification processed_txs ver orphaned e st =
     (let source = tx_source (se_tx e) in
      if se_hash e \<in> set processed_txs then st
      else if skip_verification then include_tx e st
      else if source \<in> set (sel_failed st) then st
      else let (ok, st) = verify_orphaned ver orphaned source st in
        if \<not> ok then fail_source source st
        else let (ok, state) = verify_tx ver (se_hash e) (se_tx e) (sel_state st);
                 st = st\<lparr>sel_state := state\<rparr>
          in if \<not> ok then fail_source source st else include_tx e st)"

lemma next_decreases:
  assumes "selector_next q = (Some e, q')"
  shows "sum_list (map length q') < sum_list (map length q)"
proof -
  obtain g q2 where pop: "heap_pop front_fee q = Some (e # g, q2)"
    and q': "q' = (if g \<noteq> [] then heap_push front_fee g q2 else q2)"
    using assms by (auto simp: selector_next_def split: option.splits list.splits)
  have sum: "sum_list (map length x) = sum_mset (image_mset length (mset x))" for x :: tx_selector
    by (simp flip: mset_map add: sum_mset_sum_list)
  show ?thesis unfolding sum binary_heap.pop_elements [OF pop] using binary_heap.push_elements [of front_fee g q2] q' by simp
qed

function select_txs :: "bool \<Rightarrow> hash list \<Rightarrow> 's tx_verifier \<Rightarrow> tx_groups \<Rightarrow>
    tx_selector \<Rightarrow> 's selection \<Rightarrow> 's selection" where
  "select_txs skip_verification processed_txs ver orphaned q st = (case selector_next q of (None, _) \<Rightarrow> st
     | (Some e, q) \<Rightarrow>
       if sel_block_size st + sel_total_txs_size st + se_size e \<ge> MAX_BLOCK_SIZE \<or> length (sel_txs st) \<ge> 65535 then st
       else select_txs skip_verification processed_txs ver orphaned q
         (consider_tx skip_verification processed_txs ver orphaned e st))"
  by pat_completeness auto
termination
  by (relation "measure (\<lambda>(_, _, _, _, q, _). sum_list (map length q))") (auto dest: next_decreases [OF sym])

declare select_txs.simps [simp del]

definition get_block_template_for_storage :: "block_store \<Rightarrow> network \<Rightarrow> nat \<Rightarrow> u64 \<Rightarrow> u64 \<Rightarrow> u64 \<Rightarrow> u8 list \<Rightarrow>
    bool \<Rightarrow> 's tx_verifier \<Rightarrow> 's \<Rightarrow> ('b, 'm) mempool \<Rightarrow> public_key \<Rightarrow> block_header bc" where
  "get_block_template_for_storage s network fuel current_height stable_height now extra_nonce skip_verification
     ver state mp address =
     ebind (get_block_header_template_for_storage s network fuel current_height now extra_nonce address) (\<lambda>block.
     ebind (template_selector mp) (\<lambda>q.
     if selector_is_empty q then Inr block
     else ebind (get_all_txs_until_height s fuel stable_height (bh_tips block) False) (\<lambda>processed_txs.
     ebind (if \<not> skip_verification \<and> bh_version block \<ge> V3 then group_orphaned s processed_txs else Inr [])
       (\<lambda>orphaned.
     Inr (block\<lparr>bh_txs_hashes := sel_txs (select_txs skip_verification processed_txs ver orphaned q
       \<lparr>sel_txs = bh_txs_hashes block, sel_block_size = size_block_header block, sel_total_txs_size = 0,
        sel_failed = [], sel_processed = [], sel_state = state\<rparr>)\<rparr>)))))"

section \<open>Lemmas\<close>

subsection \<open>Transactions below the tips\<close>

text \<open>
  The blocks reached from some tips through blocks not below a height, and what the search is to
  find: the transactions of those among them that are not below it, the executed ones only or all.
  \<open>hd\<close> and \<open>ex\<close> are the headers and the executions the storage answers with.
\<close>

inductive_set branch :: "(hash \<Rightarrow> block_header) \<Rightarrow> u64 \<Rightarrow> hash list \<Rightarrow> hash set"
  for hdr :: "hash \<Rightarrow> block_header" and n :: u64 and tips :: "hash list" where
  branch_tip: "h \<in> set tips \<Longrightarrow> h \<in> branch hdr n tips"
| branch_past: "h \<in> branch hdr n tips \<Longrightarrow> n \<le> bh_height (hdr h) \<Longrightarrow> t \<in> set (bh_tips (hdr h)) \<Longrightarrow>
    t \<in> branch hdr n tips"

definition txs_of :: "(hash \<Rightarrow> block_header) \<Rightarrow> (hash \<Rightarrow> hash \<Rightarrow> bool) \<Rightarrow> u64 \<Rightarrow> bool \<Rightarrow> hash set \<Rightarrow> hash set" where
  "txs_of hdr ex n executed_only D = {tx. \<exists>h \<in> D. n \<le> bh_height (hdr h) \<and> tx \<in> set (bh_txs_hashes (hdr h)) \<and>
     (executed_only \<longrightarrow> ex tx h)}"

definition answers :: "block_store \<Rightarrow> (hash \<Rightarrow> block_header) \<Rightarrow> (hash \<Rightarrow> hash \<Rightarrow> bool) \<Rightarrow> hash set \<Rightarrow> bool" where
  "answers s hdr ex B \<longleftrightarrow> (\<forall>h \<in> B. get_block_header_by_hash s h = Inr (hdr h) \<and>
     (\<forall>tx. is_tx_executed_in_block s tx h = Inr (ex tx h)))"

lemma branch_least:
  assumes "set tips \<subseteq> D" and "P \<subseteq> D" and "D \<subseteq> branch hdr n tips"
    and "\<forall>h \<in> D. n \<le> bh_height (hdr h) \<longrightarrow> set (bh_tips (hdr h)) \<subseteq> P"
  shows "D = branch hdr n tips"
proof (rule subset_antisym [OF assms(3)], rule subsetI)
  fix x
  assume "x \<in> branch hdr n tips"
  then show "x \<in> D"
  proof induction
    case (branch_past h t)
    then have "set (bh_tips (hdr h)) \<subseteq> D" using assms(2,4) by (metis subset_trans)
    then show ?case using branch_past(3) by (rule subsetD)
  qed (rule subsetD [OF assms(1)])
qed

lemma txs_of_insert:
  "txs_of hdr ex n executed_only (insert h D) = txs_of hdr ex n executed_only D \<union>
     (if n \<le> bh_height (hdr h) then {tx \<in> set (bh_txs_hashes (hdr h)). executed_only \<longrightarrow> ex tx h} else {})"
  by (auto simp: txs_of_def)

lemma collect_txs_eq:
  assumes "\<And>tx. is_tx_executed_in_block s tx h = Inr (ex tx h)"
  shows "\<exists>r. collect_txs s executed_only h txs hashes = Inr r \<and>
    set r = set hashes \<union> {tx \<in> set txs. executed_only \<longrightarrow> ex tx h}"
proof (induction txs arbitrary: hashes)
  case (Cons tx txs)
  show ?case
  proof (cases "tx \<notin> set hashes \<and> (executed_only \<longrightarrow> ex tx h)")
    case True
    then show ?thesis using Cons.IH [of "snd (index_insert tx hashes)"] assms
      by (auto simp: collect_txs_def split: if_splits)
  next
    case False
    then show ?thesis using Cons.IH [of hashes] assms by (auto simp: collect_txs_def)
  qed
qed (simp add: collect_txs_def)

lemma enqueue_tips_simps [simp]:
  "enqueue_tips [] pq = pq"
  "enqueue_tips (t # tips) (processed, queue) = (if t \<in> set processed then enqueue_tips tips (processed, queue)
     else enqueue_tips tips (snd (index_insert t processed), snd (index_insert t queue)))"
  by (simp_all add: enqueue_tips_def)

lemma enqueue_tips_sets:
  "set (fst (enqueue_tips tips (processed, queue))) = set processed \<union> set tips"
  "set (snd (enqueue_tips tips (processed, queue))) = set queue \<union> (set tips - set processed)"
  by (induction tips arbitrary: processed queue) auto

lemma enqueue_tips_measure:
  assumes "finite B" and "set processed \<union> set tips \<subseteq> B"
  shows "length (snd (enqueue_tips tips (processed, queue))) + card (B - set (fst (enqueue_tips tips (processed, queue))))
    \<le> length queue + card (B - set processed)"
  using assms(2)
proof (induction tips arbitrary: processed queue)
  case (Cons t tips)
  let ?p = "snd (index_insert t processed)" and ?q = "snd (index_insert t queue)"
  show ?case
  proof (cases "t \<in> set processed")
    case True
    then show ?thesis using Cons.IH [of processed queue] Cons.prems by simp
  next
    case False
    have t: "t \<in> B" using Cons.prems by simp
    have "set ?p \<union> set tips \<subseteq> B" using Cons.prems by simp
    from Cons.IH [OF this, of ?q] have "length (snd (enqueue_tips (t # tips) (processed, queue))) +
        card (B - set (fst (enqueue_tips (t # tips) (processed, queue)))) \<le> length ?q + card (B - set ?p)"
      using False by (simp only: enqueue_tips_simps if_False)
    moreover have "card (B - set processed) = Suc (card (B - set ?p))"
      using card_remove_one [OF assms(1) t False] by (simp only: set_index_insert)
    moreover have "length ?q \<le> Suc (length queue)" by (simp add: index_insert_def)
    ultimately show ?thesis by linarith
  qed
qed simp

lemma txs_loop_exact:
  assumes B: "B = branch hdr n tips" "finite B" "answers s hdr ex B"
  shows "set queue \<subseteq> B \<Longrightarrow> set processed \<subseteq> B \<Longrightarrow> D \<subseteq> B \<Longrightarrow> set tips \<union> set processed \<subseteq> D \<union> set queue \<Longrightarrow>
    (\<forall>h \<in> D. n \<le> bh_height (hdr h) \<longrightarrow> set (bh_tips (hdr h)) \<subseteq> set processed) \<Longrightarrow>
    set hashes = txs_of hdr ex n executed_only D \<Longrightarrow> length queue + card (B - set processed) \<le> fuel \<Longrightarrow>
    \<exists>r. txs_until_height_loop s n executed_only fuel queue processed hashes = Inr r \<and>
      set r = txs_of hdr ex n executed_only B"
proof (induction fuel arbitrary: queue processed hashes D)
  case 0
  then have queue: "queue = []" by simp
  have "D = B" using branch_least [of tips D "set processed" hdr n] 0 queue B(1) by simp
  then show ?case using queue 0(6) by (simp add: txs_until_height_loop.simps)
next
  case (Suc fuel)
  show ?case
  proof (cases "queue = []")
    case True
    have "D = B" using branch_least [of tips D "set processed" hdr n] Suc.prems True B(1) by simp
    then show ?thesis using True Suc.prems(6) by (simp add: txs_until_height_loop.simps)
  next
    case False
    define h q where "h = last queue" and "q = butlast queue"
    have queue: "set queue = insert h (set q)" "length queue = Suc (length q)"
      using False by (cases queue rule: rev_cases; simp add: h_def q_def)+
    have h: "h \<in> B" using queue(1) Suc.prems(1) by auto
    then have header: "get_block_header_by_hash s h = Inr (hdr h)"
      and ex: "\<And>tx. is_tx_executed_in_block s tx h = Inr (ex tx h)" using B(3) by (auto simp: answers_def)
    show ?thesis
    proof (cases "n \<le> bh_height (hdr h)")
      case True
      define p' q' where "p' = fst (enqueue_tips (bh_tips (hdr h)) (processed, q))"
        and "q' = snd (enqueue_tips (bh_tips (hdr h)) (processed, q))"
      obtain r where r: "collect_txs s executed_only h (bh_txs_hashes (hdr h)) hashes = Inr r"
        "set r = set hashes \<union> {tx \<in> set (bh_txs_hashes (hdr h)). executed_only \<longrightarrow> ex tx h}"
        using collect_txs_eq [of s h ex, OF ex] by metis
      have tips: "set (bh_tips (hdr h)) \<subseteq> B" using True h B(1) branch_past by blast
      have sets: "set p' = set processed \<union> set (bh_tips (hdr h))"
        "set q' = set q \<union> (set (bh_tips (hdr h)) - set processed)"
        unfolding p'_def q'_def by (simp_all add: enqueue_tips_sets)
      have "length q' + card (B - set p') \<le> length q + card (B - set processed)"
        unfolding p'_def q'_def by (rule enqueue_tips_measure [OF B(2)]) (use tips Suc.prems(2) in auto)
      then have fuel: "length q' + card (B - set p') \<le> fuel" using Suc.prems(7) queue(2) by simp
      have "\<exists>r'. txs_until_height_loop s n executed_only fuel q' p' r = Inr r' \<and> set r' = txs_of hdr ex n executed_only B"
        by (rule Suc.IH [of q' p' "insert h D"])
          (use Suc.prems tips h queue sets r(2) fuel True in \<open>auto simp: txs_of_insert\<close>)
      then show ?thesis using False header True r(1)
        by (subst txs_until_height_loop.simps)
          (simp add: h_def [symmetric] q_def [symmetric] p'_def q'_def split_def Let_def)
    next
      case below: False
      have "\<exists>r'. txs_until_height_loop s n executed_only fuel q processed hashes = Inr r' \<and>
          set r' = txs_of hdr ex n executed_only B"
        by (rule Suc.IH [of q processed "insert h D"])
          (use Suc.prems h queue below in \<open>auto simp: txs_of_insert\<close>)
      then show ?thesis using False header below
        by (subst txs_until_height_loop.simps) (simp add: h_def [symmetric] q_def [symmetric])
    qed
  qed
qed

lemma all_txs_exact:
  assumes "finite (branch hdr n tips)" and "answers s hdr ex (branch hdr n tips)"
    and "length tips + card (branch hdr n tips) \<le> fuel"
  shows "\<exists>r. get_all_txs_until_height s fuel n tips executed_only = Inr r \<and>
    set r = txs_of hdr ex n executed_only (branch hdr n tips)"
  unfolding get_all_txs_until_height_def
proof (rule txs_loop_exact [OF refl assms(1,2), where D = "{}"])
  have "length (index_extend tips []) \<le> length tips"
    by (induction tips rule: rev_induct) (auto simp: index_extend_snoc index_insert_def)
  then show "length (index_extend tips []) + card (branch hdr n tips - set []) \<le> fuel" using assms(3) by simp
qed (auto simp: branch_tip txs_of_def)

subsection \<open>Selection\<close>

definition from_pool :: "('b, 'm) mempool \<Rightarrow> tx_selector_entry \<Rightarrow> bool" where
  "from_pool mp e \<longleftrightarrow> (\<exists>st. map_of (mp_txs mp) (se_hash e) = Some st \<and> se_tx e = st_tx st \<and> se_size e = st_size st)"

definition pool_size :: "('b, 'm) mempool \<Rightarrow> hash \<Rightarrow> usize" where
  "pool_size mp h = (case map_of (mp_txs mp) h of None \<Rightarrow> 0 | Some st \<Rightarrow> st_size st)"

lemma from_pool_size: "from_pool mp e \<Longrightarrow> pool_size mp (se_hash e) = se_size e \<and> map_of (mp_txs mp) (se_hash e) \<noteq> None"
  by (auto simp: from_pool_def pool_size_def)

definition all_entries :: "(tx_selector_entry \<Rightarrow> bool) \<Rightarrow> tx_selector \<Rightarrow> bool" where
  "all_entries P q \<longleftrightarrow> (\<forall>g \<in># mset q. list_all P g)"

lemma all_entries_push: "all_entries P q \<Longrightarrow> list_all P g \<Longrightarrow> all_entries P (push_group g q)"
  using binary_heap.push_elements [of front_fee g q] by (auto simp: all_entries_def push_group_def)

lemma all_entries_next:
  assumes "all_entries P q" and "selector_next q = (Some e, q')"
  shows "P e \<and> all_entries P q'"
proof -
  obtain g q2 where pop: "heap_pop front_fee q = Some (e # g, q2)"
    and q': "q' = (if g \<noteq> [] then push_group g q2 else q2)"
    using assms(2) by (auto simp: selector_next_def push_group_def split: option.splits list.splits)
  have "list_all P (e # g)" and "all_entries P q2"
    using assms(1) binary_heap.pop_elements [OF pop] by (auto simp: all_entries_def)
  then show ?thesis using q' all_entries_push by simp
qed

lemma template_group_entries: "template_group mp hs = Inr txs \<Longrightarrow> list_all (from_pool mp) txs"
  unfolding template_group_def by (erule efold_inv) (auto simp: from_pool_def split: option.splits)

lemma template_selector_entries: "template_selector mp = Inr q \<Longrightarrow> all_entries (from_pool mp) q"
  unfolding template_selector_def
proof (erule efold_inv)
  show "all_entries (from_pool mp) selector_with_capacity" by (simp add: all_entries_def selector_with_capacity_def)
qed (auto simp: ebind_def split: sum.splits dest!: template_group_entries intro: all_entries_push)

text \<open>What the loop keeps: the two sizes cover the header and the transactions put in it.\<close>

definition selection_inv :: "block_header \<Rightarrow> ('b, 'm) mempool \<Rightarrow> hash list \<Rightarrow> 's selection \<Rightarrow> bool" where
  "selection_inv b mp processed_txs st \<longleftrightarrow> distinct (sel_txs st) \<and> length (sel_txs st) \<le> 65535 \<and>
     size_block_header (b\<lparr>bh_txs_hashes := sel_txs st\<rparr>) \<le> sel_block_size st \<and>
     sum_list (map (pool_size mp) (sel_txs st)) \<le> sel_total_txs_size st \<and>
     sel_block_size st + sel_total_txs_size st \<le> MAX_BLOCK_SIZE + 31 \<and>
     list_all (\<lambda>h. map_of (mp_txs mp) h \<noteq> None \<and> h \<notin> set processed_txs) (sel_txs st)"

lemma selection_inv_cong:
  "sel_txs st' = sel_txs st \<Longrightarrow> sel_block_size st' = sel_block_size st \<Longrightarrow> sel_total_txs_size st' = sel_total_txs_size st \<Longrightarrow>
     selection_inv b mp processed_txs st' = selection_inv b mp processed_txs st"
  by (simp add: selection_inv_def)

lemma include_tx_inv:
  assumes "selection_inv b mp processed_txs st" and "from_pool mp e" and "se_hash e \<notin> set processed_txs"
    and "sel_block_size st + sel_total_txs_size st + se_size e < MAX_BLOCK_SIZE" and "length (sel_txs st) < 65535"
  shows "selection_inv b mp processed_txs (include_tx e st)"
  using assms from_pool_size [OF assms(2)]
  by (auto simp: selection_inv_def include_tx_def index_insert_def size_block_header_def HASH_SIZE_def)

lemma verify_orphaned_sizes:
  "verify_orphaned ver orphaned source st = (ok, st') \<Longrightarrow> sel_txs st' = sel_txs st \<and>
     sel_block_size st' = sel_block_size st \<and> sel_total_txs_size st' = sel_total_txs_size st"
  by (auto simp: verify_orphaned_def split: option.splits if_splits prod.splits)

lemma consider_tx_inv:
  assumes "selection_inv b mp processed_txs st" and "from_pool mp e"
    and "sel_block_size st + sel_total_txs_size st + se_size e < MAX_BLOCK_SIZE" and "length (sel_txs st) < 65535"
  shows "selection_inv b mp processed_txs (consider_tx skip_verification processed_txs ver orphaned e st)"
proof -
  have cong: "selection_inv b mp processed_txs st'" and inc: "se_hash e \<notin> set processed_txs \<Longrightarrow>
      selection_inv b mp processed_txs (include_tx e st')"
    if "sel_txs st' = sel_txs st" "sel_block_size st' = sel_block_size st" "sel_total_txs_size st' = sel_total_txs_size st"
    for st' using that assms include_tx_inv [of b mp processed_txs st' e] selection_inv_cong [OF that, of b mp processed_txs] by auto
  let ?source = "tx_source (se_tx e)"
  obtain ok st1 where o: "verify_orphaned ver orphaned ?source st = (ok, st1)" by force
  obtain ok2 state where v: "verify_tx ver (se_hash e) (se_tx e) (sel_state st1) = (ok2, state)" by force
  note st1 = verify_orphaned_sizes [OF o]
  show ?thesis
    using cong [of st] inc [of st] cong [of "fail_source ?source st1"] cong [of "fail_source ?source (st1\<lparr>sel_state := state\<rparr>)"]
      inc [of "st1\<lparr>sel_state := state\<rparr>"] st1
    by (simp add: consider_tx_def Let_def o v fail_source_def)
qed

lemma select_txs_inv:
  "selection_inv b mp processed_txs st \<Longrightarrow> all_entries (from_pool mp) q \<Longrightarrow>
     selection_inv b mp processed_txs (select_txs skip_verification processed_txs ver orphaned q st)"
proof (induction skip_verification processed_txs ver orphaned q st rule: select_txs.induct)
  case (1 skip_verification processed_txs ver orphaned q st)
  obtain r q' where r: "selector_next q = (r, q')" by force
  show ?case
  proof (cases r)
    case None
    then show ?thesis using 1(2) r by (simp add: select_txs.simps)
  next
    case (Some e)
    note e = all_entries_next [OF 1(3) r [unfolded Some]]
    show ?thesis
    proof (cases "sel_block_size st + sel_total_txs_size st + se_size e \<ge> MAX_BLOCK_SIZE \<or> length (sel_txs st) \<ge> 65535")
      case True
      then show ?thesis using 1(2) r Some by (simp add: select_txs.simps)
    next
      case False
      then have "selection_inv b mp processed_txs (consider_tx skip_verification processed_txs ver orphaned e st)"
        using consider_tx_inv [OF 1(2) conjunct1 [OF e]] by (simp add: not_le)
      from 1(1) [OF r [symmetric] Some False this conjunct2 [OF e]] show ?thesis
        using r Some False by (subst select_txs.simps) simp
    qed
  qed
qed

lemmas header_sizes = HASH_SIZE_def EXTRA_NONCE_SIZE_def size_public_key_def size_point_def
  RISTRETTO_COMPRESSED_SIZE_def MAX_BLOCK_SIZE_def BYTES_PER_KB_def

lemma header_template_shape:
  assumes "get_block_header_template_for_storage s network fuel current_height now extra_nonce address = Inr b"
  shows "length (bh_tips b) \<le> TIPS_LIMIT \<and> bh_txs_hashes b = []"
proof -
  obtain tips timestamp height where "b = block_header_new (get_version_at_height network height) height timestamp
      (if length tips > TIPS_LIMIT then take TIPS_LIMIT tips else tips) extra_nonce address []"
    using assms unfolding get_block_header_template_for_storage_def Let_def
    by (auto simp: ebind_def split: sum.splits simp del: block_header_new_def)
  then show ?thesis by (simp add: block_header_new_def)
qed

section \<open>Properties\<close>

text \<open>
  C16. The transactions below some tips. The search through the blocks below the tips ends after
  at most as many steps as there are tips and blocks in the branch, and finds exactly the
  transactions of the blocks at or above the given height, or the executed ones among them.
\<close>

theorem txs_until_height_exact:
  assumes "finite (branch hdr n tips)" and "answers s hdr ex (branch hdr n tips)"
    and "length tips + card (branch hdr n tips) \<le> fuel"
  shows "\<exists>r. get_all_txs_until_height s fuel n tips executed_only = Inr r \<and>
    set r = {tx. \<exists>h \<in> branch hdr n tips. n \<le> bh_height (hdr h) \<and> tx \<in> set (bh_txs_hashes (hdr h)) \<and>
      (executed_only \<longrightarrow> ex tx h)}"
  using all_txs_exact [OF assms] by (simp add: txs_of_def)

text \<open>
  C15. Block templates. A template has at most three tips and at most 65535 transactions, all
  pending in the mempool, none twice, and none that a block below its tips down to the stable
  height already contains. Header and transactions together take at most 31 bytes more than the
  maximum size of a block: the size check leaves out the hash a transaction adds to the header.
\<close>

theorem template_bounds:
  assumes "get_block_template_for_storage s network fuel current_height stable_height now extra_nonce skip_check ver state mp
      address = Inr b"
    and "finite (branch hdr stable_height (bh_tips b))" and "answers s hdr ex (branch hdr stable_height (bh_tips b))"
    and "length (bh_tips b) + card (branch hdr stable_height (bh_tips b)) \<le> fuel"
  shows "length (bh_tips b) \<le> 3 \<and> length (bh_txs_hashes b) \<le> 65535 \<and> distinct (bh_txs_hashes b) \<and>
    (\<forall>tx \<in> set (bh_txs_hashes b). map_of (mp_txs mp) tx \<noteq> None \<and>
      \<not> (\<exists>h \<in> branch hdr stable_height (bh_tips b). stable_height \<le> bh_height (hdr h) \<and> tx \<in> set (bh_txs_hashes (hdr h)))) \<and>
    size_block_header b + sum_list (map (pool_size mp) (bh_txs_hashes b)) \<le> MAX_BLOCK_SIZE + 31"
proof -
  obtain h q where h: "get_block_header_template_for_storage s network fuel current_height now extra_nonce address = Inr h"
    and q: "template_selector mp = Inr q"
    using assms(1) by (auto simp: get_block_template_for_storage_def ebind_def split: sum.splits)
  note shape = header_template_shape [OF h]
  have size: "size_block_header h \<le> MAX_BLOCK_SIZE + 31"
    using shape by (simp add: size_block_header_def TIPS_LIMIT_def header_sizes)
  show ?thesis
  proof (cases "selector_is_empty q")
    case True
    then have "b = h" using assms(1) h q by (simp add: get_block_template_for_storage_def)
    then show ?thesis using shape size by (simp add: TIPS_LIMIT_def)
  next
    case False
    let ?start = "\<lparr>sel_txs = bh_txs_hashes h, sel_block_size = size_block_header h, sel_total_txs_size = 0,
        sel_failed = [], sel_processed = [], sel_state = state\<rparr>"
    obtain processed_txs orphaned where p: "get_all_txs_until_height s fuel stable_height (bh_tips h) False = Inr processed_txs"
      and b: "b = h\<lparr>bh_txs_hashes := sel_txs (select_txs skip_check processed_txs ver orphaned q ?start)\<rparr>"
      using assms(1) h q False by (auto simp: get_block_template_for_storage_def ebind_def split: sum.splits if_splits)
    have tips: "bh_tips h = bh_tips b" using b by simp
    have "size_block_header (h\<lparr>bh_txs_hashes := []\<rparr>) = size_block_header h" using shape by (simp add: size_block_header_def)
    then have "selection_inv h mp processed_txs ?start" using shape size by (simp add: selection_inv_def)
    from select_txs_inv [OF this template_selector_entries [OF q], of skip_check ver orphaned]
    have inv: "selection_inv h mp processed_txs (select_txs skip_check processed_txs ver orphaned q ?start)" .
    have processed: "set processed_txs = txs_of hdr ex stable_height False (branch hdr stable_height (bh_tips b))"
      using all_txs_exact [OF assms(2,3,4), of False] p tips by simp
    have "\<forall>tx \<in> set (bh_txs_hashes b). map_of (mp_txs mp) tx \<noteq> None \<and> tx \<notin> set processed_txs"
      using inv b by (simp add: selection_inv_def list_all_iff)
    then show ?thesis unfolding processed using inv b shape
      by (simp add: selection_inv_def txs_of_def TIPS_LIMIT_def)
  qed
qed

text \<open>A chain of genesis and one block with a transaction, and two pending transactions.\<close>

definition sample_block :: "hash \<Rightarrow> block_header" where
  "sample_block h = (if h = Hash [1]
     then block_header_new V0 1 10 [Hash [0]] (replicate 32 0) (PublicKey (replicate 32 9)) [Hash [7]]
     else block_header_new V0 0 0 [] (replicate 32 0) (PublicKey (replicate 32 9)) [])"

definition sample_chain :: dag_view where
  "sample_chain = \<lparr>v_height = (\<lambda>h. if h = Hash [1] then 1 else 0), v_past = (\<lambda>h. if h = Hash [1] then [Hash [0]] else []),
     v_difficulty = (\<lambda>_. 1), v_cumulative = (\<lambda>_. 1), v_timestamp = (\<lambda>h. if h = Hash [1] then 10 else 0),
     v_covariance = (\<lambda>_. 1), v_topo = (\<lambda>_. Some 0), v_at_height = (\<lambda>_. []), v_pruned = None\<rparr>"

definition sample_store :: block_store where
  "sample_store = dag.extend (dag_of sample_chain) (block_store.fields (\<lambda>h. Inr (sample_block h))
     (\<lambda>h. Inr (h = Hash [0] \<or> h = Hash [1])) (Inr [Hash [1]]) (\<lambda>_ _. Inr True) (\<lambda>_. Inr False)
     (\<lambda>_. Inl StorageFailure) (\<lambda>_. Inl StorageFailure))"

lemma sample_store_simps [simp]:
  "dag_part sample_store = dag_of sample_chain" "get_timestamp sample_store h = Inr (v_timestamp sample_chain h)"
  "get_block_header_by_hash sample_store h = Inr (sample_block h)"
  "has_block_with_hash sample_store h = Inr (h = Hash [0] \<or> h = Hash [1])" "get_tips sample_store = Inr [Hash [1]]"
  "is_tx_executed_in_block sample_store tx h = Inr True" "is_tx_executed_in_a_block sample_store tx = Inr False"
  by (simp_all add: sample_store_def dag.defs block_store.defs dag_of_def)

definition full_pool :: "(unit, unit) mempool" where
  "full_pool = \<lparr>mp_txs = [(Hash [5], \<lparr>st_tx = sample_tx 1 0, st_first_seen = 0, st_size = 1048576\<rparr>),
      (Hash [6], \<lparr>st_tx = sample_tx 1 1, st_first_seen = 0, st_size = 261987\<rparr>)],
    mp_caches = [(PublicKey (replicate 32 1), \<lparr>ac_min = 0, ac_max = 1, ac_txs = [Hash [5], Hash [6]],
        ac_balances = (), ac_multisig = ()\<rparr>)]\<rparr>"

lemma sample_branch: "branch sample_block 0 [Hash [1]] = {Hash [0], Hash [1]}"
proof
  show "branch sample_block 0 [Hash [1]] \<subseteq> {Hash [0], Hash [1]}"
  proof
    fix x
    assume "x \<in> branch sample_block 0 [Hash [1]]"
    then show "x \<in> {Hash [0], Hash [1]}"
      by induction (auto simp: sample_block_def block_header_new_def split: if_splits)
  qed
  have tip: "Hash [1] \<in> branch sample_block 0 [Hash [1]]" by (rule branch_tip) simp
  then have "Hash [0] \<in> branch sample_block 0 [Hash [1]]"
    by (rule branch_past) (simp_all add: sample_block_def block_header_new_def)
  then show "{Hash [0], Hash [1]} \<subseteq> branch sample_block 0 [Hash [1]]" using tip by simp
qed

lemma sample_answers: "answers sample_store sample_block (\<lambda>_ _. True) B"
  by (simp add: answers_def)

theorem txs_until_height_exact_witness:
  "\<exists>r. get_all_txs_until_height sample_store 3 0 [Hash [1]] True = Inr r \<and> Hash [7] \<in> set r"
proof -
  have "Hash [7] \<in> {tx. \<exists>h \<in> branch sample_block 0 [Hash [1]]. 0 \<le> bh_height (sample_block h) \<and>
      tx \<in> set (bh_txs_hashes (sample_block h)) \<and> (True \<longrightarrow> True)}"
    by (simp add: sample_branch sample_block_def block_header_new_def)
  then show ?thesis
    using txs_until_height_exact [where hdr = sample_block and n = 0 and tips = "[Hash [1]]" and fuel = 3
        and executed_only = True, OF _ sample_answers]
    by (auto simp: sample_branch)
qed

definition sample_verifier :: "unit tx_verifier" where
  "sample_verifier = \<lparr>verify_batch = (\<lambda>_ s. (True, s)), verify_tx = (\<lambda>_ _ s. (True, s))\<rparr>"

definition sample_template :: "block_header bc" where
  "sample_template = get_block_template_for_storage sample_store Mainnet 3 1 0 20 (replicate 32 0) False
     sample_verifier () full_pool (PublicKey (replicate 32 2))"

lemma sample_header_template:
  "get_block_header_template_for_storage sample_store Mainnet 3 1 20 (replicate 32 0) (PublicKey (replicate 32 2)) =
     Inr (block_header_new (get_version_at_height Mainnet 2) 2 20 [Hash [1]] (replicate 32 0) (PublicKey (replicate 32 2)) [])"
  by (simp add: get_block_header_template_for_storage_def sort_tips_def TIPS_LIMIT_def newest_timestamp_def
      calculate_height_at_tips_def sample_chain_def)

lemma sample_selector:
  "template_selector full_pool = Inr [[\<lparr>se_hash = Hash [5], se_tx = sample_tx 1 0, se_size = 1048576\<rparr>,
     \<lparr>se_hash = Hash [6], se_tx = sample_tx 1 1, se_size = 261987\<rparr>]]"
  by (simp add: template_selector_def template_group_def full_pool_def push_group_def selector_with_capacity_def
      heap_push_def sift_up.simps)

lemma sample_processed: "get_all_txs_until_height sample_store 3 0 [Hash [1]] False = Inr [Hash [7]]"
  by (simp add: get_all_txs_until_height_def index_extend_def index_insert_def txs_until_height_loop.simps numeral_3_eq_3
      sample_block_def block_header_new_def collect_txs_def)

lemma sample_template_txs: "\<exists>b. sample_template = Inr b \<and> bh_tips b = [Hash [1]] \<and> bh_txs_hashes b = [Hash [5], Hash [6]]"
  by (simp add: sample_template_def get_block_template_for_storage_def sample_header_template sample_selector
      sample_processed selector_is_empty_def select_txs.simps selector_next_def heap_pop_def heap_push_def sift_up.simps
      block_header_new_def size_block_header_def header_sizes consider_tx_def include_tx_def verify_orphaned_def
      sample_verifier_def index_insert_def version_table less_eq_block_version_def)

theorem template_bounds_witness:
  "\<exists>b. sample_template = Inr b \<and>
     size_block_header b + sum_list (map (pool_size full_pool) (bh_txs_hashes b)) = MAX_BLOCK_SIZE + 31 \<and>
     length (bh_tips b) \<le> 3 \<and> distinct (bh_txs_hashes b) \<and> Hash [7] \<notin> set (bh_txs_hashes b)"
proof -
  obtain b where b: "sample_template = Inr b" "bh_tips b = [Hash [1]]" "bh_txs_hashes b = [Hash [5], Hash [6]]"
    using sample_template_txs by auto
  have "length (bh_tips b) \<le> 3 \<and> distinct (bh_txs_hashes b)"
    using template_bounds [where hdr = sample_block, OF b(1) [unfolded sample_template_def] _ sample_answers]
    by (simp add: b(2) sample_branch)
  moreover have "size_block_header b + sum_list (map (pool_size full_pool) (bh_txs_hashes b)) = MAX_BLOCK_SIZE + 31"
    using b by (cases "bh_miner b") (simp add: size_block_header_def header_sizes pool_size_def full_pool_def)
  ultimately show ?thesis using b by auto
qed

end
