(* ===== verification/BlockCheck.thy ===== *)
theory BlockCheck
  imports Template
begin

text \<open>
  The verification of a block before it is added to the chain: the first half of \<open>add_new_block\<close>
  in \<open>daemon/src/core/blockchain.rs\<close>, from the version check to the cumulative difficulty, in the
  order of the code. The verification of a batch of transactions on a fresh chain state, the hash
  and the size of a transaction, the hash function and the proof-of-work library are parameters,
  collected with the node's settings in a record.
\<close>

section \<open>Blocks\<close>

record block =
  blk_header :: block_header
  blk_txs :: "transaction list"

record 'e node =
  nd_network :: network
  nd_height :: u64
  nd_stable_height :: u64
  nd_simulator :: bool
  nd_skip_pow :: bool
  nd_threads :: nat
  nd_multi_threads :: bool
  nd_hash :: "u8 list \<Rightarrow> hash"
  nd_pow_lib :: "'e pow_lib"
  nd_tx_hash :: "transaction \<Rightarrow> hash"
  nd_tx_size :: "transaction \<Rightarrow> usize"
  nd_verify_batch :: "(transaction \<times> hash) list \<Rightarrow> bool"

definition TIMESTAMP_IN_FUTURE_LIMIT :: u64 where
  "TIMESTAMP_IN_FUTURE_LIMIT = 2 * MILLIS_PER_SECOND"

definition size_block :: "'e node \<Rightarrow> block \<Rightarrow> usize" where
  "size_block nd b = size_block_header (blk_header b) + sum_list (map (nd_tx_size nd) (blk_txs b))"

definition hash_block :: "'e node \<Rightarrow> block \<Rightarrow> hash" where
  "hash_block nd b = hash_block_header (nd_hash nd) (blk_header b)"

text \<open>An early return with an error unless a condition holds.\<close>

definition ensure :: "bool \<Rightarrow> bc_error \<Rightarrow> unit bc" where
  "ensure c e = (if c then Inr () else Inl e)"

section \<open>Header checks\<close>

definition check_shape :: "'e node \<Rightarrow> block_store \<Rightarrow> u64 \<Rightarrow> hash \<Rightarrow> block \<Rightarrow> unit bc" where
  "check_shape nd s now block_hash b =
     (let block = blk_header b; tips_count = length (bh_tips block) in
      ebind (has_block_with_hash s block_hash) (\<lambda>known.
      ebind (ensure (\<not> known) AlreadyInChain) (\<lambda>_.
      ebind (ensure (\<not> bh_timestamp block > now + TIMESTAMP_IN_FUTURE_LIMIT) (TimestampIsInFuture now (bh_timestamp block))) (\<lambda>_.
      ebind (ensure (\<not> tips_count > TIPS_LIMIT) (InvalidTipsCount block_hash tips_count)) (\<lambda>_.
      ebind (ensure (\<not> (tips_count = 0 \<and> nd_height nd \<noteq> 0)) ExpectedTips) (\<lambda>_.
      ebind (ensure (\<not> (tips_count > 0 \<and> bh_height block = 0)) BlockHeightZeroNotAllowed) (\<lambda>_.
      ebind (ensure (\<not> (tips_count = 0 \<and> bh_height block \<noteq> 0)) (InvalidTipsCount block_hash tips_count)) (\<lambda>_.
      ensure (\<not> size_block nd b > MAX_BLOCK_SIZE) (InvalidBlockSize MAX_BLOCK_SIZE (size_block nd b))))))))))"

definition check_tips_known :: "block_store \<Rightarrow> hash \<Rightarrow> hash list \<Rightarrow> unit bc" where
  "check_tips_known s block_hash tips = efold (\<lambda>tip _. ebind (has_block_with_hash s tip)
     (\<lambda>known. ensure known (InvalidTipsNotFound block_hash tip))) tips ()"

definition check_tips_position :: "block_store \<Rightarrow> nat \<Rightarrow> u64 \<Rightarrow> u64 \<Rightarrow> hash list \<Rightarrow> unit bc" where
  "check_tips_position s fuel timestamp block_height_by_tips tips = efold (\<lambda>h _.
     ebind (get_timestamp s h) (\<lambda>previous_timestamp.
     ebind (ensure (\<not> timestamp < previous_timestamp) (TimestampIsLessThanParent timestamp)) (\<lambda>_.
     ebind (is_near_enough_from_main_chain (dag_part s) fuel h (saturating_sub block_height_by_tips 1))
       (\<lambda>near. ensure near BlockDeviation)))) tips ()"

definition check_tips_difficulty :: "block_store \<Rightarrow> hash \<Rightarrow> hash list \<Rightarrow> unit bc" where
  "check_tips_difficulty s block_hash tips =
     (if length tips > 1 then
        ebind (find_best_tip_by_cumulative_difficulty (dag_part s) tips) (\<lambda>best_tip.
        efold (\<lambda>h _. if best_tip \<noteq> h then ebind (validate_tips (dag_part s) best_tip h)
            (\<lambda>valid. ensure valid (InvalidTipsDifficulty block_hash h)) else Inr ()) tips ())
      else Inr ())"

definition check_tips :: "'e node \<Rightarrow> block_store \<Rightarrow> nat \<Rightarrow> hash \<Rightarrow> block_header \<Rightarrow> unit bc" where
  "check_tips nd s fuel block_hash block =
     (let tips = bh_tips block in
      ebind (check_tips_known s block_hash tips) (\<lambda>_.
      ebind (calculate_height_at_tips (dag_part s) tips) (\<lambda>block_height_by_tips.
      ebind (ensure (block_height_by_tips = bh_height block) (InvalidBlockHeight block_height_by_tips (bh_height block))) (\<lambda>_.
      ebind (ensure (\<not> (length tips > 0 \<and> block_height_by_tips < nd_stable_height nd)) InvalidBlockHeightStableHeight) (\<lambda>_.
      ebind (verify_non_reachability (dag_part s) fuel tips) (\<lambda>reachability.
      ebind (ensure reachability InvalidReachability) (\<lambda>_.
      ebind (check_tips_position s fuel (bh_timestamp block) block_height_by_tips tips) (\<lambda>_.
      check_tips_difficulty s block_hash tips))))))))"

definition check_pow :: "'e node \<Rightarrow> block_store \<Rightarrow> block_version \<Rightarrow> block_header \<Rightarrow> (difficulty \<times> var_uint) bc" where
  "check_pow nd s version block =
     ebind (if nd_skip_pow nd then Inr hash_zero
       else case header_get_pow_hash (nd_hash nd) (nd_pow_lib nd) block (get_pow_algorithm_for_version version) of
         Inl _ \<Rightarrow> Inl PowHashFailure | Inr h \<Rightarrow> Inr h) (\<lambda>pow_hash.
     verify_proof_of_work (dag_part s) (nd_network nd) (nd_simulator nd) pow_hash (bh_tips block))"

section \<open>Transactions\<close>

definition check_block_tx :: "'e node \<Rightarrow> block_store \<Rightarrow> hash \<Rightarrow> bool \<Rightarrow> hash list \<Rightarrow> transaction \<times> hash \<Rightarrow> tx_groups \<Rightarrow>
    tx_groups bc" where
  "check_block_tx nd s block_hash is_v2_enabled parents_txs = (\<lambda>(tx, h) groups.
     let tx_size = nd_tx_size nd tx; tx_hash = nd_tx_hash nd tx; stable_height = nd_stable_height nd in
     ebind (ensure (\<not> tx_size > MAX_TRANSACTION_SIZE) (bc_error.TxTooBig tx_size MAX_TRANSACTION_SIZE)) (\<lambda>_.
     ebind (ensure (tx_hash = h) (InvalidTxInBlock tx_hash)) (\<lambda>_.
     ebind (is_tx_executed_in_a_block s h) (\<lambda>is_executed.
     ebind (if is_executed then ebind (get_block_executor_for_tx s h) (\<lambda>block_executor.
         ebind (get_height s block_executor) (\<lambda>block_executor_height.
         ensure (\<not> block_executor_height \<le> stable_height)
           (DeadTxFromStableHeight block_hash tx_hash stable_height block_executor))) else Inr ()) (\<lambda>_.
     if is_v2_enabled \<or> is_executed then
       ebind (ensure (tx_hash \<notin> set parents_txs) (DeadTxFromTips block_hash tx_hash)) (\<lambda>_.
       Inr (if is_executed then groups else group_push tx h groups))
     else Inr (group_push tx h groups))))))"

text \<open>
  The groups are verified in one batch, or spread over the batches of the threads. Concurrent
  batches have a chain state each; the whole succeeds when each of them does.
\<close>

definition batches_of :: "nat \<Rightarrow> tx_groups \<Rightarrow> (transaction \<times> hash) list list" where
  "batches_of batches_count groups = snd (fold (\<lambda>(_, group) (i, batches).
     (i + 1, batches[i mod batches_count := batches ! (i mod batches_count) @ group])) groups
       (0, replicate batches_count []))"

definition verify_groups :: "'e node \<Rightarrow> tx_groups \<Rightarrow> unit bc" where
  "verify_groups nd groups =
     (if groups = [] then Inr ()
      else if nd_threads nd > 1 \<and> length groups > 1 \<and> nd_multi_threads nd then
        let batches_count = (if length groups > nd_threads nd then nd_threads nd else length groups)
        in ensure (list_all (nd_verify_batch nd) (batches_of batches_count groups)) TxVerification
      else ensure (nd_verify_batch nd (concat (map snd groups))) TxVerification)"

definition check_txs :: "'e node \<Rightarrow> block_store \<Rightarrow> nat \<Rightarrow> block_version \<Rightarrow> hash \<Rightarrow> block \<Rightarrow> unit bc" where
  "check_txs nd s fuel version block_hash b =
     (let block = blk_header b; hashes_len = length (bh_txs_hashes block); txs_len = length (blk_txs b);
          is_v2_enabled = (version \<ge> V2); is_v3_enabled = (version \<ge> V3) in
      ebind (ensure (\<not> hashes_len \<noteq> txs_len) (InvalidBlockTxs hashes_len txs_len)) (\<lambda>_.
      ebind (ensure (\<not> txs_len > 65535) (InvalidBlockTxs 65535 txs_len)) (\<lambda>_.
      ebind (if bh_txs_hashes block \<noteq> [] then
          get_all_txs_until_height s fuel (nd_stable_height nd) (bh_tips block) (\<not> is_v2_enabled)
        else Inr []) (\<lambda>parents_txs.
      ebind (if is_v3_enabled then group_orphaned s parents_txs else Inr []) (\<lambda>groups.
      ebind (efold (check_block_tx nd s block_hash is_v2_enabled parents_txs) (zip (blk_txs b) (bh_txs_hashes block)) groups)
        (verify_groups nd))))))"

section \<open>The whole verification\<close>

definition verify_block :: "'e node \<Rightarrow> block_store \<Rightarrow> nat \<Rightarrow> u64 \<Rightarrow> hash option \<Rightarrow> block \<Rightarrow> (hash \<times> difficulty \<times> var_uint) bc" where
  "verify_block nd s fuel now given_hash b =
     (let block = blk_header b; version = get_version_at_height (nd_network nd) (bh_height block) in
      ebind (ensure (bh_version block = version) InvalidBlockVersion) (\<lambda>_.
      let block_hash = (case given_hash of Some h \<Rightarrow> h | None \<Rightarrow> hash_block nd b) in
      ebind (check_shape nd s now block_hash b) (\<lambda>_.
      ebind (check_tips nd s fuel block_hash block) (\<lambda>_.
      ebind (check_pow nd s version block) (\<lambda>(d, p).
      ebind (check_txs nd s fuel version block_hash b) (\<lambda>_.
      Inr (block_hash, d, p)))))))"

definition block_cumulative_difficulty ::
  "('c, hash \<times> u64, base_entry) cache_ops \<Rightarrow> ('d, hash, base_entry) cache_ops \<Rightarrow>
   ('w, hash \<times> hash \<times> u64, hash list \<times> cumulative_difficulty) cache_ops \<Rightarrow> block_store \<Rightarrow> nat \<Rightarrow> hash \<Rightarrow> hash list \<Rightarrow>
   difficulty \<Rightarrow> 'c \<times> 'd \<times> 'w \<Rightarrow> (cumulative_difficulty \<times> 'c \<times> 'd \<times> 'w) bc" where
  "block_cumulative_difficulty tip_ops common_ops work_ops s fuel block_hash tips d = (\<lambda>(tc, cc, wc).
     if tips = [] then Inr (GENESIS_BLOCK_DIFFICULTY, tc, cc, wc)
     else ebind (find_common_base tip_ops common_ops (dag_part s) fuel tips tc cc) (\<lambda>((base, base_height), tc, cc).
       ebind (find_tip_work_score work_ops (dag_part s) fuel block_hash tips (Some d) base base_height wc)
         (\<lambda>((_, cumulative), wc). Inr (cumulative, tc, cc, wc))))"

section \<open>Lemmas\<close>

lemma ensure_Inr [simp]: "ensure c e = Inr x \<longleftrightarrow> c"
  by (simp add: ensure_def)

lemma ensure_bind [simp]: "ebind (ensure c e) f = Inr y \<longleftrightarrow> c \<and> f () = Inr y"
  by (simp add: ensure_def)

lemma efold_checks: "efold (\<lambda>x _. g x) xs () = Inr u \<longleftrightarrow> (\<forall>x \<in> set xs. g x = Inr ())"
  by (induction xs) (auto simp: ebind_Inr)

lemma mem_group_push:
  "(\<exists>txs. map_of groups k = Some txs \<and> e \<in> set txs) \<Longrightarrow> (\<exists>txs. map_of (group_push tx h groups) k = Some txs \<and> e \<in> set txs)"
  "\<exists>txs. map_of (group_push tx h groups) (tx_source tx) = Some txs \<and> (tx, h) \<in> set txs"
  by (auto simp: group_push_def)

text \<open>What one transaction has to pass, and that it ends up in its group unless already executed.\<close>

definition tx_passes :: "'e node \<Rightarrow> block_store \<Rightarrow> bool \<Rightarrow> hash list \<Rightarrow> transaction \<times> hash \<Rightarrow> bool" where
  "tx_passes nd s is_v2_enabled parents_txs = (\<lambda>(tx, h). nd_tx_size nd tx \<le> MAX_TRANSACTION_SIZE \<and> nd_tx_hash nd tx = h \<and>
     (\<exists>executed. is_tx_executed_in_a_block s h = Inr executed \<and> (is_v2_enabled \<or> executed \<longrightarrow> h \<notin> set parents_txs)))"

definition grouped :: "block_store \<Rightarrow> tx_groups \<Rightarrow> transaction \<times> hash \<Rightarrow> bool" where
  "grouped s groups = (\<lambda>(tx, h). is_tx_executed_in_a_block s h = Inr True \<or>
     (\<exists>txs. map_of groups (tx_source tx) = Some txs \<and> (tx, h) \<in> set txs))"

lemma check_block_tx_step:
  assumes "check_block_tx nd s block_hash v2 parents_txs e groups = Inr groups'"
  shows "tx_passes nd s v2 parents_txs e \<and> grouped s groups' e \<and> (groups' = groups \<or> groups' = group_push (fst e) (snd e) groups)"
  using assms mem_group_push(2) [of "fst e" "snd e" groups]
  by (cases e) (auto simp: check_block_tx_def tx_passes_def grouped_def ebind_Inr Let_def linorder_not_less split: if_splits)

lemma check_txs_loop:
  assumes "efold (check_block_tx nd s block_hash v2 parents_txs) es groups = Inr groups'"
  shows "list_all (tx_passes nd s v2 parents_txs) es \<and> list_all (grouped s groups') es \<and>
    (\<forall>e. grouped s groups e \<longrightarrow> grouped s groups' e)"
  using assms
proof (induction es arbitrary: groups)
  case (Cons e es)
  then obtain g where step: "check_block_tx nd s block_hash v2 parents_txs e groups = Inr g"
    and rest: "efold (check_block_tx nd s block_hash v2 parents_txs) es g = Inr groups'" by (auto simp: ebind_Inr)
  have "grouped s g x" if "grouped s groups x" for x
    using that check_block_tx_step [OF step] mem_group_push(1) [of groups "tx_source (fst x)" x] by (auto simp: grouped_def)
  then show ?case using Cons.IH [OF rest] check_block_tx_step [OF step] by (simp only: list.pred_inject(2)) blast
qed simp

text \<open>Every group ends up whole in one of the batches.\<close>

lemma batches_cover:
  assumes "0 < n" and "(k, g) \<in> set groups"
  shows "\<exists>b \<in> set (batches_of n groups). set g \<subseteq> set b"
proof -
  let ?step = "\<lambda>(_ :: public_key, group) (i, batches). (i + 1, batches[i mod n := batches ! (i mod n) @ group])"
  have len: "length (snd (fold ?step gs (i, bs))) = length bs" for gs i and bs :: "(transaction \<times> hash) list list"
    by (induction gs arbitrary: i bs) auto
  have mono: "j < length bs \<Longrightarrow> set (bs ! j) \<subseteq> set (snd (fold ?step gs (i, bs)) ! j)"
    for gs i j and bs :: "(transaction \<times> hash) list list"
  proof (induction gs arbitrary: i bs)
    case (Cons g gs)
    obtain k ts where g: "g = (k, ts)" by force
    let ?bs = "bs[i mod n := bs ! (i mod n) @ ts]"
    have "set (bs ! j) \<subseteq> set (?bs ! j)" using Cons.prems by (cases "i mod n = j") auto
    also have "\<dots> \<subseteq> set (snd (fold ?step gs (i + 1, ?bs)) ! j)" using Cons.IH [of ?bs "i + 1"] Cons.prems by simp
    finally show ?case by (simp add: g)
  qed simp
  have "\<exists>j < n. set g \<subseteq> set (snd (fold ?step groups (i, bs)) ! j)"
    if "length bs = n" for i and bs :: "(transaction \<times> hash) list list"
    using assms(2) that
  proof (induction groups arbitrary: i bs)
    case (Cons x gs)
    obtain k' ts where x: "x = (k', ts)" by force
    let ?bs = "bs[i mod n := bs ! (i mod n) @ ts]"
    show ?case
    proof (cases "(k, g) \<in> set gs")
      case True
      then show ?thesis using Cons.IH [of ?bs "i + 1"] Cons.prems x by simp
    next
      case False
      then have "g = ts" using Cons.prems x by simp
      moreover have j: "i mod n < n" using assms(1) by simp
      ultimately show ?thesis using mono [of "i mod n" ?bs gs "i + 1"] Cons.prems(2) x
        by (intro exI [of _ "i mod n"]) auto
    qed
  qed simp
  then obtain j where "j < n" "set g \<subseteq> set (batches_of n groups ! j)"
    by (metis (lifting) batches_of_def length_replicate)
  moreover have "length (batches_of n groups) = n" using len [of groups 0 "replicate n []"] by (simp add: batches_of_def)
  ultimately show ?thesis by (metis nth_mem)
qed

lemma verify_groups_covers:
  assumes "verify_groups nd groups = Inr ()" and "map_of groups k = Some g"
  shows "\<exists>batch. nd_verify_batch nd batch \<and> set g \<subseteq> set batch"
proof -
  have mem: "(k, g) \<in> set groups" using assms(2) by (rule map_of_SomeD)
  then have ne: "groups \<noteq> []" by auto
  show ?thesis
  proof (cases "nd_threads nd > 1 \<and> length groups > 1 \<and> nd_multi_threads nd")
    case True
    define n where "n = (if length groups > nd_threads nd then nd_threads nd else length groups)"
    have "0 < n" using True ne by (auto simp: n_def)
    moreover have "list_all (nd_verify_batch nd) (batches_of n groups)"
      using assms(1) True ne by (simp add: verify_groups_def n_def)
    ultimately show ?thesis using batches_cover [OF _ mem, of n] by (auto simp: list_all_iff)
  next
    case False
    then have "nd_verify_batch nd (concat (map snd groups))" using assms(1) ne by (auto simp: verify_groups_def split: if_splits)
    moreover have "set g \<subseteq> set (concat (map snd groups))" using mem by force
    ultimately show ?thesis by blast
  qed
qed

text \<open>The stages of an accepted block.\<close>

lemma verify_block_stages:
  assumes "verify_block nd s fuel now given_hash b = Inr (block_hash, d, p)"
  shows "bh_version (blk_header b) = get_version_at_height (nd_network nd) (bh_height (blk_header b))"
    "check_shape nd s now block_hash b = Inr ()" "check_tips nd s fuel block_hash (blk_header b) = Inr ()"
    "check_pow nd s (bh_version (blk_header b)) (blk_header b) = Inr (d, p)"
    "check_txs nd s fuel (bh_version (blk_header b)) block_hash b = Inr ()"
  using assms by (auto simp: verify_block_def Let_def ebind_Inr)

section \<open>Properties\<close>


text \<open>
  C3. The transactions of an accepted block. They are those the header lists, in its order, none
  too large. Each of them was already executed in a block, or is part of a batch whose verification
  succeeded, whatever the number of threads. From version 2 on, none of them is contained in a
  block below the tips down to the stable height, executed or not.
\<close>

theorem accepted_block_txs:
  assumes "verify_block nd s fuel now given_hash b = Inr (block_hash, d, p)" and "block = blk_header b"
    and "finite (branch hdr (nd_stable_height nd) (bh_tips block))"
    and "answers s hdr ex (branch hdr (nd_stable_height nd) (bh_tips block))"
    and "length (bh_tips block) + card (branch hdr (nd_stable_height nd) (bh_tips block)) \<le> fuel"
  shows "bh_txs_hashes block = map (nd_tx_hash nd) (blk_txs b) \<and>
    (\<forall>tx \<in> set (blk_txs b). nd_tx_size nd tx \<le> MAX_TRANSACTION_SIZE \<and>
      (is_tx_executed_in_a_block s (nd_tx_hash nd tx) = Inr True \<or>
       (\<exists>batch. nd_verify_batch nd batch \<and> (tx, nd_tx_hash nd tx) \<in> set batch)) \<and>
      (V2 \<le> bh_version block \<longrightarrow> \<not> (\<exists>h \<in> branch hdr (nd_stable_height nd) (bh_tips block).
         nd_stable_height nd \<le> bh_height (hdr h) \<and> nd_tx_hash nd tx \<in> set (bh_txs_hashes (hdr h)))))"
proof (cases "bh_txs_hashes block = []")
  case True
  then show ?thesis using verify_block_stages(5) [OF assms(1)] assms(2) by (simp add: check_txs_def Let_def)
next
  case False
  let ?v2 = "V2 \<le> bh_version block" and ?es = "zip (blk_txs b) (bh_txs_hashes block)"
  obtain parents_txs groups groups' where len: "length (bh_txs_hashes block) = length (blk_txs b)"
    and parents: "get_all_txs_until_height s fuel (nd_stable_height nd) (bh_tips block) (\<not> ?v2) = Inr parents_txs"
    and loop: "efold (check_block_tx nd s block_hash ?v2 parents_txs) ?es groups = Inr groups'"
    and groups: "verify_groups nd groups' = Inr ()"
    using verify_block_stages(5) [OF assms(1)] False assms(2) by (auto simp: check_txs_def Let_def ebind_Inr)
  note checked = check_txs_loop [OF loop]
  have pass: "tx_passes nd s ?v2 parents_txs (blk_txs b ! i, bh_txs_hashes block ! i)"
    and grp: "grouped s groups' (blk_txs b ! i, bh_txs_hashes block ! i)" if "i < length (blk_txs b)" for i
    using checked that len by (auto simp: list_all_length)
  have hash: "bh_txs_hashes block ! i = nd_tx_hash nd (blk_txs b ! i)" if "i < length (blk_txs b)" for i
    using pass [OF that] by (simp add: tx_passes_def)
  then have hashes: "bh_txs_hashes block = map (nd_tx_hash nd) (blk_txs b)" using len by (simp add: list_eq_iff_nth_eq)
  have parents_set: "set parents_txs = txs_of hdr ex (nd_stable_height nd) (\<not> ?v2)
      (branch hdr (nd_stable_height nd) (bh_tips block))"
    using all_txs_exact [OF assms(3,4,5), of "\<not> ?v2"] parents by simp
  have "nd_tx_size nd tx \<le> MAX_TRANSACTION_SIZE \<and> (is_tx_executed_in_a_block s (nd_tx_hash nd tx) = Inr True \<or>
       (\<exists>batch. nd_verify_batch nd batch \<and> (tx, nd_tx_hash nd tx) \<in> set batch)) \<and>
      (?v2 \<longrightarrow> nd_tx_hash nd tx \<notin> set parents_txs)" if tx: "tx \<in> set (blk_txs b)" for tx
  proof -
    obtain i where i: "i < length (blk_txs b)" "tx = blk_txs b ! i" using tx by (auto simp: in_set_conv_nth)
    have "is_tx_executed_in_a_block s (nd_tx_hash nd tx) = Inr True \<or>
        (\<exists>batch. nd_verify_batch nd batch \<and> (tx, nd_tx_hash nd tx) \<in> set batch)"
      using grp [OF i(1)] verify_groups_covers [OF groups] unfolding hash [OF i(1)] i(2) [symmetric] grouped_def by blast
    then show ?thesis using pass [OF i(1)] unfolding hash [OF i(1)] i(2) [symmetric] by (auto simp: tx_passes_def)
  qed
  then show ?thesis using hashes unfolding parents_set by (simp add: txs_of_def)
qed

text \<open>A block with one transaction on top of the sample chain.\<close>

definition sample_node :: "unit node" where
  "sample_node = \<lparr>nd_network = Mainnet, nd_height = 1, nd_stable_height = 0, nd_simulator = True, nd_skip_pow = True,
     nd_threads = 4, nd_multi_threads = True, nd_hash = (\<lambda>_. hash_zero),
     nd_pow_lib = \<lparr>aligned_input = Inr [], v1_hash = (\<lambda>_. Inr hash_zero), v2_hash = (\<lambda>_. Inr hash_zero)\<rparr>,
     nd_tx_hash = (\<lambda>_. Hash [5]), nd_tx_size = (\<lambda>_. 2048), nd_verify_batch = (\<lambda>txs. length txs = 1)\<rparr>"

definition sample_new_block :: block where
  "sample_new_block = \<lparr>blk_header = block_header_new V2 2 20 [Hash [1]] (replicate 32 0) (PublicKey (replicate 32 2)) [Hash [5]],
     blk_txs = [sample_tx 1 0]\<rparr>"

lemma sample_shape: "check_shape sample_node sample_store 20 (Hash [2]) sample_new_block = Inr ()"
  by (simp add: check_shape_def sample_node_def sample_new_block_def block_header_new_def size_block_def
      size_block_header_def header_sizes TIPS_LIMIT_def ensure_def TIMESTAMP_IN_FUTURE_LIMIT_def MILLIS_PER_SECOND_def)

lemma sample_tips: "check_tips sample_node sample_store 3 (Hash [2]) (blk_header sample_new_block) = Inr ()"
  by (simp add: check_tips_def check_tips_known_def check_tips_position_def check_tips_difficulty_def sample_node_def
      sample_new_block_def block_header_new_def ensure_def calculate_height_at_tips_def sample_chain_def
      verify_non_reachability_def build_reachability_def numeral_3_eq_3 is_near_enough_from_main_chain_def
      calculate_distance_from_mainchain_def saturating_sub_def STABLE_LIMIT_def index_insert_def Let_def)

lemma sample_txs: "check_txs sample_node sample_store 3 V2 (Hash [2]) sample_new_block = Inr ()"
  using sample_processed
  by (simp add: check_txs_def sample_node_def sample_new_block_def block_header_new_def ensure_def less_eq_block_version_def
      check_block_tx_def verify_groups_def group_push_def MAX_TRANSACTION_SIZE_def BYTES_PER_KB_def Let_def)

lemma sample_pow: "\<exists>d p. check_pow sample_node sample_store V2 (blk_header sample_new_block) = Inr (d, p)"
proof -
  let ?d = "get_minimum_difficulty Mainnet V2"
  obtain hf where v: "has_hard_fork_at_height Mainnet 2 = (hf, V2)"
    using version_table [of Mainnet 2] by (cases "has_hard_fork_at_height Mainnet 2") (simp add: get_version_at_height_def)
  have "?d \<noteq> 0"
    by (simp add: get_minimum_difficulty_def get_difficulty_with_target_def get_block_time_target_for_version_def
        MAINNET_MINIMUM_HASHRATE_def KILO_HASH_def MEGA_HASH_def GIGA_HASH_def HASH_def MILLIS_PER_SECOND_def
        varuint_from_u64_def u256_limbs_ext)
  then have "check_difficulty hash_zero ?d = Inr True"
    using check_difficulty_unat [of ?d hash_zero] by (simp add: hash_zero_def from_be_bytes_def be_nat_zeros)
  then show ?thesis
    by (simp add: check_pow_def sample_node_def sample_new_block_def block_header_new_def verify_proof_of_work_def
        get_difficulty_at_tips_def calculate_height_at_tips_def sample_chain_def v)
qed

lemma sample_block_accepted: "\<exists>d p. verify_block sample_node sample_store 3 20 (Some (Hash [2])) sample_new_block = Inr (Hash [2], d, p)"
proof -
  obtain d p where "check_pow sample_node sample_store V2 (blk_header sample_new_block) = Inr (d, p)" using sample_pow by blast
  moreover have "get_version_at_height (nd_network sample_node) (bh_height (blk_header sample_new_block)) = V2"
    "bh_version (blk_header sample_new_block) = V2"
    by (simp_all add: version_table sample_node_def sample_new_block_def block_header_new_def)
  ultimately show ?thesis by (simp add: verify_block_def ensure_def sample_shape sample_tips sample_txs)
qed


theorem accepted_block_txs_witness:
  "bh_txs_hashes (blk_header sample_new_block) = map (nd_tx_hash sample_node) (blk_txs sample_new_block) \<and>
   (\<exists>batch. nd_verify_batch sample_node batch \<and> (sample_tx 1 0, Hash [5]) \<in> set batch)"
proof -
  obtain d p where v: "verify_block sample_node sample_store 3 20 (Some (Hash [2])) sample_new_block = Inr (Hash [2], d, p)"
    using sample_block_accepted by blast
  have "branch sample_block (nd_stable_height sample_node) (bh_tips (blk_header sample_new_block)) = {Hash [0], Hash [1]}"
    by (simp add: sample_branch sample_node_def sample_new_block_def block_header_new_def)
  then have "bh_txs_hashes (blk_header sample_new_block) = map (nd_tx_hash sample_node) (blk_txs sample_new_block) \<and>
    (\<forall>tx \<in> set (blk_txs sample_new_block). is_tx_executed_in_a_block sample_store (nd_tx_hash sample_node tx) = Inr True \<or>
       (\<exists>batch. nd_verify_batch sample_node batch \<and> (tx, nd_tx_hash sample_node tx) \<in> set batch))"
    using accepted_block_txs [where hdr = sample_block, OF v refl _ sample_answers]
    by (simp add: sample_new_block_def block_header_new_def)
  then show ?thesis by (simp add: sample_new_block_def block_header_new_def sample_node_def)
qed

end
