(* ===== verification/Effects.thy ===== *)
theory Effects
  imports Prelude
begin

text \<open>
  Fallible operations on a mutable state. An operation that the code writes as a method on
  \<open>&mut self\<close> returning a \<open>Result\<close> is a function from the state to the result and the state it
  leaves, on the error path too: a caller that catches the error goes on with what was changed
  before it.
\<close>

type_synonym ('st, 'e, 'a) act = "'st \<Rightarrow> ('e + 'a) \<times> 'st"

definition ret :: "'a \<Rightarrow> ('st, 'e, 'a) act" where
  "ret x st = (Inr x, st)"

definition throw :: "'e \<Rightarrow> ('st, 'e, 'a) act" where
  "throw e st = (Inl e, st)"

text \<open>The operator \<open>?\<close> followed by the rest of the block.\<close>

definition act_bind :: "('st, 'e, 'a) act \<Rightarrow> ('a \<Rightarrow> ('st, 'e, 'b) act) \<Rightarrow> ('st, 'e, 'b) act" where
  "act_bind m f st = (case m st of (Inl e, st') \<Rightarrow> (Inl e, st') | (Inr x, st') \<Rightarrow> f x st')"

definition act_then :: "('st, 'e, 'a) act \<Rightarrow> ('st, 'e, 'b) act \<Rightarrow> ('st, 'e, 'b) act" where
  "act_then m n = act_bind m (\<lambda>_. n)"

text \<open>A result computed without the state, a plain update, a plain query, and \<open>map_err\<close>.\<close>

definition act_lift :: "'e + 'a \<Rightarrow> ('st, 'e, 'a) act" where
  "act_lift r st = (r, st)"

definition act_modify :: "('st \<Rightarrow> 'st) \<Rightarrow> ('st, 'e, unit) act" where
  "act_modify f st = (Inr (), f st)"

definition act_get :: "('st \<Rightarrow> 'a) \<Rightarrow> ('st, 'e, 'a) act" where
  "act_get f st = (Inr (f st), st)"

definition act_query :: "('st \<Rightarrow> 'e + 'a) \<Rightarrow> ('st, 'e, 'a) act" where
  "act_query f st = (f st, st)"

definition act_map_err :: "('e \<Rightarrow> 'f) \<Rightarrow> ('st, 'e, 'a) act \<Rightarrow> ('st, 'f, 'a) act" where
  "act_map_err f m st = (case m st of (Inl e, st') \<Rightarrow> (Inl (f e), st') | (Inr x, st') \<Rightarrow> (Inr x, st'))"

definition act_guard :: "bool \<Rightarrow> 'e \<Rightarrow> ('st, 'e, unit) act" where
  "act_guard b e = (if b then ret () else throw e)"

text \<open>A loop over a list, and one that threads an accumulator.\<close>

fun act_each :: "('a \<Rightarrow> ('st, 'e, unit) act) \<Rightarrow> 'a list \<Rightarrow> ('st, 'e, unit) act" where
  "act_each f [] = ret ()"
| "act_each f (x # xs) = act_bind (f x) (\<lambda>_. act_each f xs)"

fun act_fold :: "('a \<Rightarrow> 'b \<Rightarrow> ('st, 'e, 'b) act) \<Rightarrow> 'a list \<Rightarrow> 'b \<Rightarrow> ('st, 'e, 'b) act" where
  "act_fold f [] acc = ret acc"
| "act_fold f (x # xs) acc = act_bind (f x acc) (act_fold f xs)"

text \<open>The value an operation would give, if it succeeded.\<close>

definition act_peek :: "('st, 'e, 'a) act \<Rightarrow> 'st \<Rightarrow> 'a option" where
  "act_peek m st = (case fst (m st) of Inl _ \<Rightarrow> None | Inr x \<Rightarrow> Some x)"

section \<open>What a run that succeeds did\<close>

named_theorems act_iff

lemma ret_iff [act_iff]: "ret x st = (Inr y, st') \<longleftrightarrow> y = x \<and> st' = st"
  by (auto simp: ret_def)

lemma throw_iff [act_iff]: "\<not> throw e st = (Inr y, st')"
  by (simp add: throw_def)

lemma act_bind_iff [act_iff]:
  "act_bind m f st = (Inr y, st') \<longleftrightarrow> (\<exists>x st1. m st = (Inr x, st1) \<and> f x st1 = (Inr y, st'))"
  by (auto simp: act_bind_def split: prod.split sum.split)

lemma act_then_iff [act_iff]:
  "act_then m n st = (Inr y, st') \<longleftrightarrow> (\<exists>x st1. m st = (Inr x, st1) \<and> n st1 = (Inr y, st'))"
  by (simp add: act_then_def act_bind_iff)

lemma act_lift_iff [act_iff]: "act_lift r st = (Inr y, st') \<longleftrightarrow> r = Inr y \<and> st' = st"
  by (auto simp: act_lift_def)

lemma act_modify_iff [act_iff]: "act_modify f st = (Inr y, st') \<longleftrightarrow> st' = f st"
  by (auto simp: act_modify_def)

lemma act_get_iff [act_iff]: "act_get f st = (Inr y, st') \<longleftrightarrow> y = f st \<and> st' = st"
  by (auto simp: act_get_def)

lemma act_query_iff [act_iff]: "act_query f st = (Inr y, st') \<longleftrightarrow> f st = Inr y \<and> st' = st"
  by (auto simp: act_query_def)

lemma act_map_err_iff [act_iff]: "act_map_err f m st = (Inr y, st') \<longleftrightarrow> m st = (Inr y, st')"
  by (auto simp: act_map_err_def split: prod.split sum.split)

lemma act_guard_iff [act_iff]: "act_guard b e st = (Inr y, st') \<longleftrightarrow> b \<and> st' = st"
  by (auto simp: act_guard_def ret_def throw_def)

lemma act_peek_iff: "act_peek m st = Some x \<longleftrightarrow> (\<exists>st'. m st = (Inr x, st'))"
  by (cases "m st") (auto simp: act_peek_def split: sum.split)

lemma act_peek_ok: "m st = (Inr x, st') \<Longrightarrow> act_peek m st = Some x"
  by (simp add: act_peek_def)

section \<open>Running\<close>

named_theorems act_run

lemma ret_run [act_run]: "ret x st = (Inr x, st)"
  by (simp add: ret_def)

lemma throw_run [act_run]: "throw e st = (Inl e, st)"
  by (simp add: throw_def)

lemma act_bind_ok [act_run]: "m st = (Inr x, st1) \<Longrightarrow> act_bind m f st = f x st1"
  by (simp add: act_bind_def)

lemma act_bind_err [act_run]: "m st = (Inl e, st1) \<Longrightarrow> act_bind m f st = (Inl e, st1)"
  by (simp add: act_bind_def)

lemma act_then_ok [act_run]: "m st = (Inr x, st1) \<Longrightarrow> act_then m n st = n st1"
  by (simp add: act_then_def act_bind_def)

lemma act_then_err [act_run]: "m st = (Inl e, st1) \<Longrightarrow> act_then m n st = (Inl e, st1)"
  by (simp add: act_then_def act_bind_def)

lemma act_lift_run [act_run]: "act_lift r st = (r, st)"
  by (simp add: act_lift_def)

lemma act_modify_run [act_run]: "act_modify f st = (Inr (), f st)"
  by (simp add: act_modify_def)

lemma act_get_run [act_run]: "act_get f st = (Inr (f st), st)"
  by (simp add: act_get_def)

lemma act_query_run [act_run]: "act_query f st = (f st, st)"
  by (simp add: act_query_def)

lemma act_map_err_ok [act_run]: "m st = (Inr x, st1) \<Longrightarrow> act_map_err f m st = (Inr x, st1)"
  by (simp add: act_map_err_def)

lemma act_map_err_err [act_run]: "m st = (Inl e, st1) \<Longrightarrow> act_map_err f m st = (Inl (f e), st1)"
  by (simp add: act_map_err_def)

lemma act_guard_run [act_run]: "act_guard b e st = ((if b then Inr () else Inl e), st)"
  by (simp add: act_guard_def ret_def throw_def)

text \<open>For the evaluation of closed runs.\<close>

lemmas act_defs = ret_def throw_def act_bind_def act_then_def act_lift_def act_modify_def act_get_def act_query_def
  act_map_err_def act_guard_def

section \<open>What a run keeps, whether it succeeds or not\<close>

definition preserves :: "('st \<Rightarrow> bool) \<Rightarrow> ('st, 'e, 'a) act \<Rightarrow> bool" where
  "preserves P m \<longleftrightarrow> (\<forall>st. P st \<longrightarrow> P (snd (m st)))"

named_theorems act_keep

lemma preservesD: "preserves P m \<Longrightarrow> P st \<Longrightarrow> m st = (r, st') \<Longrightarrow> P st'"
  by (metis preserves_def snd_conv)

lemma preserves_ret [act_keep]: "preserves P (ret x)" "preserves P (throw e)" "preserves P (act_lift r)"
  "preserves P (act_get g)" "preserves P (act_query q)" "preserves P (act_guard b e)"
  by (simp_all add: preserves_def act_defs)

lemma preserves_bind [act_keep]: "preserves P m \<Longrightarrow> (\<And>x. preserves P (f x)) \<Longrightarrow> preserves P (act_bind m f)"
  by (auto simp: preserves_def act_bind_def split: prod.split sum.split)

lemma preserves_then [act_keep]: "preserves P m \<Longrightarrow> preserves P n \<Longrightarrow> preserves P (act_then m n)"
  by (simp add: act_then_def preserves_bind)

lemma preserves_modify [act_keep]: "(\<And>st. P st \<Longrightarrow> P (f st)) \<Longrightarrow> preserves P (act_modify f)"
  by (simp add: preserves_def act_modify_def)

lemma preserves_map_err [act_keep]: "preserves P m \<Longrightarrow> preserves P (act_map_err f m)"
  by (auto simp: preserves_def act_map_err_def split: prod.split sum.split)

lemma preserves_each [act_keep]: "(\<And>x. preserves P (f x)) \<Longrightarrow> preserves P (act_each f xs)"
  by (induction xs) (auto intro: preserves_ret preserves_bind)

end
