(* ===== verification/TxVerify.thy ===== *)
theory TxVerify
  imports Transactions Effects
begin

text \<open>
  Verification of transactions (\<open>common/src/transaction/verify\<close>): what a transaction takes from its
  sender, the checks on its form, nonce, signatures and proofs, and their effect on the state they
  run against. The trait \<open>BlockchainVerificationState\<close> is a record of its operations; a method that
  hands out a \<open>&mut Ciphertext\<close> is an operation that returns the ciphertext and one that writes
  through the reference. Curve, transcript, range proofs, hash function and the virtual machine's
  queries are the fields of one record. Random batching factors are a sequence of which each proof
  takes the first. Asynchronous execution and log messages are left out, and with them the one error
  that the failure of a spawned thread gives.
\<close>

section \<open>Errors, libraries and the state\<close>

text \<open>\<open>Panicked\<close> is no error of the code: it stands for a panic, which ends the thread.\<close>

datatype ('x, 'e) verification_error =
    State 'x
  | InvalidNonce hash u64 u64
  | SenderIsReceiver
  | InvalidSignature
  | Proof "'e proof_verification_error"
  | TransferExtraDataSize
  | TransactionExtraDataSize
  | TransferCount
  | DepositCount
  | Commitments
  | MultiSigParticipants
  | MultiSigThreshold
  | MultiSigNotConfigured
  | MultiSigNotFound
  | InvalidFormat
  | ModuleError string
  | AnyError string
  | InvalidInvokeContract
  | GasOverflow
  | DepositNotFound
  | MaxGasReached
  | ContractNotFound
  | InsufficientEnergy u64
  | Panicked

record ('s, 'p, 't, 'r, 'e, 'v, 'm, 'env) verify_lib =
  lib_curve :: "('s, 'p) curve"
  lib_merlin :: "'t merlin"
  lib_range :: "('s, 'p, 't, 'r, 'e) range_prover"
  lib_codec :: "('v, 'm) vm_codec"
  lib_hash :: "u8 list \<Rightarrow> hash"
  lib_hash_to_point :: "u8 list \<Rightarrow> 'p"
  lib_verify_multiple :: "'r \<Rightarrow> 't \<Rightarrow> ('p \<times> compressed_point) list \<Rightarrow> usize \<Rightarrow> 'e + unit"
  lib_verify_batch :: "('r \<times> 't \<times> ('p \<times> compressed_point) list) list \<Rightarrow> usize \<Rightarrow> 'e + unit"
  lib_is_entry_chunk :: "'m \<Rightarrow> nat \<Rightarrow> bool"
  lib_chunk_id_of_hook :: "'m \<Rightarrow> u8 \<Rightarrow> u16 option"
  lib_verify_constant :: "'m \<Rightarrow> 'env \<Rightarrow> 'v \<Rightarrow> string + unit"
  lib_verify_module :: "'m \<Rightarrow> 'env \<Rightarrow> string + unit"

record ('st, 'x, 's, 'p, 'v, 'm, 'r, 'env) verification_state =
  vs_pre_verify_tx :: "('s, 'v, 'm, 'r) signed_transaction \<Rightarrow> ('st, 'x, unit) act"
  vs_get_receiver_balance :: "public_key \<Rightarrow> hash \<Rightarrow> ('st, 'x, 'p ciphertext) act"
  vs_put_receiver_balance :: "public_key \<Rightarrow> hash \<Rightarrow> 'p ciphertext \<Rightarrow> 'st \<Rightarrow> 'st"
  vs_get_sender_balance :: "public_key \<Rightarrow> hash \<Rightarrow> reference \<Rightarrow> ('st, 'x, 'p ciphertext) act"
  vs_put_sender_balance :: "public_key \<Rightarrow> hash \<Rightarrow> 'p ciphertext \<Rightarrow> 'st \<Rightarrow> 'st"
  vs_add_sender_output :: "public_key \<Rightarrow> hash \<Rightarrow> 'p ciphertext \<Rightarrow> ('st, 'x, unit) act"
  vs_get_account_nonce :: "public_key \<Rightarrow> ('st, 'x, u64) act"
  vs_update_account_nonce :: "public_key \<Rightarrow> u64 \<Rightarrow> ('st, 'x, unit) act"
  vs_get_block_version :: "'st \<Rightarrow> block_version"
  vs_set_multisig_state :: "public_key \<Rightarrow> multisig_payload \<Rightarrow> ('st, 'x, unit) act"
  vs_get_multisig_state :: "public_key \<Rightarrow> ('st, 'x, multisig_payload option) act"
  vs_get_environment :: "('st, 'x, 'env) act"
  vs_set_contract_module :: "hash \<Rightarrow> 'm \<Rightarrow> ('st, 'x, unit) act"
  vs_load_contract_module :: "hash \<Rightarrow> ('st, 'x, bool) act"
  vs_get_contract_module_with_environment :: "hash \<Rightarrow> ('st, 'x, 'm \<times> 'env) act"

text \<open>\<open>.map_err(VerificationError::State)?\<close>\<close>

definition on_state :: "('st, 'x, 'a) act \<Rightarrow> ('st, ('x, 'e) verification_error, 'a) act" where
  "on_state m = act_map_err State m"

definition or_decompression :: "'a option \<Rightarrow> ('st, ('x, 'e) verification_error, 'a) act" where
  "or_decompression v = act_lift (map_err Proof (ok_or Decompression v))"

definition BURN_PER_CONTRACT :: u64 where "BURN_PER_CONTRACT = COIN_VALUE"

definition MAX_GAS_USAGE_PER_TX :: u64 where "MAX_GAS_USAGE_PER_TX = COIN_VALUE * 10"

section \<open>Decompressed ciphertexts\<close>

record 'p decompressed_transfer_ct =
  dt_commitment :: 'p
  dt_sender_handle :: 'p
  dt_receiver_handle :: 'p

definition decompress_transfer ::
  "('s, 'p) curve \<Rightarrow> 's transfer_payload \<Rightarrow> 'p decompressed_transfer_ct option" where
  "decompress_transfer C t = (case decode_point C (tr_commitment t) of None \<Rightarrow> None
     | Some c \<Rightarrow> (case decode_point C (tr_sender_handle t) of None \<Rightarrow> None
       | Some sh \<Rightarrow> (case decode_point C (tr_receiver_handle t) of None \<Rightarrow> None
         | Some rh \<Rightarrow> Some \<lparr>dt_commitment = c, dt_sender_handle = sh, dt_receiver_handle = rh\<rparr>)))"

definition dt_get_ciphertext :: "role \<Rightarrow> 'p decompressed_transfer_ct \<Rightarrow> 'p ciphertext" where
  "dt_get_ciphertext role d = \<lparr>commitment = dt_commitment d,
     handle = (case role of Receiver \<Rightarrow> dt_receiver_handle d | Sender \<Rightarrow> dt_sender_handle d)\<rparr>"

record 'p decompressed_deposit_ct =
  dd_commitment :: 'p
  dd_sender_handle :: 'p
  dd_receiver_handle :: 'p

type_synonym 'p deposits_ct = "(hash \<times> 'p decompressed_deposit_ct) list"

fun decompress_deposit :: "('s, 'p) curve \<Rightarrow> 's contract_deposit \<Rightarrow> 'p decompressed_deposit_ct option" where
  "decompress_deposit C (Private c sh rh _) = (case decode_point C c of None \<Rightarrow> None
     | Some c \<Rightarrow> (case decode_point C sh of None \<Rightarrow> None
       | Some sh \<Rightarrow> (case decode_point C rh of None \<Rightarrow> None
         | Some rh \<Rightarrow> Some \<lparr>dd_commitment = c, dd_sender_handle = sh, dd_receiver_handle = rh\<rparr>)))"
| "decompress_deposit C (Public _) = None"

section \<open>What a transaction takes from its sender\<close>

definition has_valid_version_format :: "('s, 'v, 'm, 'r) signed_transaction \<Rightarrow> bool" where
  "has_valid_version_format tx = (case st_version tx of T0 \<Rightarrow> (case st_data tx of
     Transfers _ \<Rightarrow> True | Burn _ \<Rightarrow> True | MultiSigSetup _ \<Rightarrow> True | InvokeContract _ \<Rightarrow> True
   | DeployContract _ \<Rightarrow> True | EnergyOp _ \<Rightarrow> True))"

text \<open>The deposit of an asset, if the call makes one; \<open>None\<close> when it was not decompressed.\<close>

definition add_deposit_output ::
  "('s::field, 'p::ab_group_add) curve \<Rightarrow> 's deposits \<Rightarrow> 'p deposits_ct \<Rightarrow> hash \<Rightarrow> 'p ciphertext \<Rightarrow>
   'p ciphertext option" where
  "add_deposit_output C deposits deposits_ct asset output = (case map_of deposits asset of
     None \<Rightarrow> Some output
   | Some (Public coins) \<Rightarrow> Some (ciphertext_add_scalar C output (scalar_from coins))
   | Some (Private _ _ _ _) \<Rightarrow> (case map_of deposits_ct asset of None \<Rightarrow> None
     | Some d \<Rightarrow> Some (ciphertext_add output \<lparr>commitment = dd_commitment d, handle = dd_sender_handle d\<rparr>)))"

definition add_native :: "('s::field, 'p::ab_group_add) curve \<Rightarrow> hash \<Rightarrow> u64 \<Rightarrow> 'p ciphertext \<Rightarrow> 'p ciphertext" where
  "add_native C asset coins output =
     (if asset = TERMINOS_ASSET then ciphertext_add_scalar C output (scalar_from coins) else output)"

definition get_sender_output_ct ::
  "('s::field, 'p::ab_group_add) curve \<Rightarrow> ('s, 'v, 'm, 'r) signed_transaction \<Rightarrow> hash \<Rightarrow>
   'p decompressed_transfer_ct list \<Rightarrow> 'p deposits_ct \<Rightarrow> 'p ciphertext option" where
  "get_sender_output_ct C tx asset transfers_ct deposits_ct =
     (let output = add_native C asset (st_fee tx) ciphertext_zero in
      case st_data tx of
        Transfers transfers \<Rightarrow> Some (fold (\<lambda>(transfer, d) output.
          if asset = tr_asset transfer then ciphertext_add output (dt_get_ciphertext Sender d) else output)
          (zip transfers transfers_ct) output)
      | Burn payload \<Rightarrow> Some (if asset = bn_asset payload
          then ciphertext_add_scalar C output (scalar_from (bn_amount payload)) else output)
      | MultiSigSetup _ \<Rightarrow> Some output
      | InvokeContract payload \<Rightarrow>
          add_deposit_output C (ic_deposits payload) deposits_ct asset (add_native C asset (ic_max_gas payload) output)
      | DeployContract payload \<Rightarrow>
          map_option (add_native C asset BURN_PER_CONTRACT) (case dp_invoke payload of None \<Rightarrow> Some output
          | Some invoke \<Rightarrow> add_deposit_output C (co_deposits invoke) deposits_ct asset
              (add_native C asset (co_max_gas invoke) output))
      | EnergyOp (FreezeTos coins _) \<Rightarrow> Some (add_native C asset coins output)
      | EnergyOp (UnfreezeTos _) \<Rightarrow> Some output)"

text \<open>The decompression that \<open>get_expected_sender_outputs\<close> and both ways of applying share.\<close>

fun decompress_private_deposits ::
  "('s, 'p) curve \<Rightarrow> 's deposits \<Rightarrow> 'p deposits_ct \<Rightarrow> 'p deposits_ct option" where
  "decompress_private_deposits C [] acc = Some acc"
| "decompress_private_deposits C ((asset, deposit) # rest) acc = (case deposit of
     Private _ _ _ _ \<Rightarrow> (case decompress_deposit C deposit of None \<Rightarrow> None
       | Some d \<Rightarrow> decompress_private_deposits C rest (map_insert asset d acc))
   | Public _ \<Rightarrow> decompress_private_deposits C rest acc)"

definition decompress_for_apply ::
  "('s, 'p) curve \<Rightarrow> ('s, 'v, 'm, 'r) signed_transaction \<Rightarrow>
   ('p decompressed_transfer_ct list \<times> 'p deposits_ct) option" where
  "decompress_for_apply C tx = (case st_data tx of
     Transfers transfers \<Rightarrow> map_option (\<lambda>ds. (ds, [])) (those (map (decompress_transfer C) transfers))
   | InvokeContract payload \<Rightarrow>
       map_option (\<lambda>ds. ([], ds)) (decompress_private_deposits C (ic_deposits payload) [])
   | _ \<Rightarrow> Some ([], []))"

definition get_expected_sender_outputs ::
  "('s::field, 'p::ab_group_add) curve \<Rightarrow> ('s, 'v, 'm, 'r) signed_transaction \<Rightarrow> (hash \<times> 'p ciphertext) list option" where
  "get_expected_sender_outputs C tx = (case decompress_for_apply C tx of None \<Rightarrow> None
     | Some (transfers_ct, deposits_ct) \<Rightarrow>
         those (map (\<lambda>c. map_option (Pair (sc_asset c)) (get_sender_output_ct C tx (sc_asset c) transfers_ct deposits_ct))
           (st_source_commitments tx)))"

definition prepare_transcript ::
  "'t merlin \<Rightarrow> tx_version \<Rightarrow> public_key \<Rightarrow> u64 \<Rightarrow> fee_type \<Rightarrow> u64 \<Rightarrow> 't" where
  "prepare_transcript M version source fee fee_type nonce =
     append_u64 M (label ''nonce'') nonce
     (append_u64 M (label ''fee_type'') (case fee_type of FeeTOS \<Rightarrow> 0 | FeeEnergy \<Rightarrow> 1)
     (append_u64 M (label ''fee'') fee
     (append_public_key M ''source_pubkey'' source
     (append_u64 M (label ''version'') (ucast (tx_version_to_u8 version))
     (transcript_new M (label ''transaction-proof''))))))"

section \<open>Checks on the form\<close>

definition has_commitment_for_asset :: "('s, 'v, 'm, 'r) signed_transaction \<Rightarrow> hash \<Rightarrow> bool" where
  "has_commitment_for_asset tx asset = list_ex (\<lambda>c. sc_asset c = asset) (st_source_commitments tx)"

definition verify_commitment_assets :: "('s, 'v, 'm, 'r) signed_transaction \<Rightarrow> bool" where
  "verify_commitment_assets tx =
     (let cs = st_source_commitments tx; indices = [0..<length cs] in
      if \<not> has_commitment_for_asset tx TERMINOS_ASSET then False
      else if list_ex (\<lambda>i. list_ex (\<lambda>i2. i \<noteq> i2 \<and> sc_asset (cs ! i) = sc_asset (cs ! i2)) indices) indices then False
      else case st_data tx of
        Transfers transfers \<Rightarrow> list_all (\<lambda>t. has_commitment_for_asset tx (tr_asset t)) transfers
      | Burn payload \<Rightarrow> has_commitment_for_asset tx (bn_asset payload)
      | MultiSigSetup _ \<Rightarrow> True
      | InvokeContract payload \<Rightarrow> list_all (has_commitment_for_asset tx) (map fst (ic_deposits payload))
      | DeployContract _ \<Rightarrow> True
      | EnergyOp _ \<Rightarrow> True)"

fun verify_deposits ::
  "('s, 'p) curve \<Rightarrow> 's deposits \<Rightarrow> 'p deposits_ct \<Rightarrow> ('x, 'e) verification_error + 'p deposits_ct" where
  "verify_deposits C [] acc = Inr acc"
| "verify_deposits C ((asset, deposit) # rest) acc = (case deposit of
     Public coins \<Rightarrow> if coins = 0 then Inl InvalidFormat else verify_deposits C rest acc
   | Private _ _ _ _ \<Rightarrow> (case decompress_deposit C deposit of None \<Rightarrow> Inl (Proof Decompression)
     | Some d \<Rightarrow> verify_deposits C rest (map_insert asset d acc)))"

definition verify_invoke_contract ::
  "('s, 'p) curve \<Rightarrow> 's deposits \<Rightarrow> u64 \<Rightarrow> ('x, 'e) verification_error + 'p deposits_ct" where
  "verify_invoke_contract C deposits max_gas =
     (if length deposits > MAX_DEPOSIT_PER_INVOKE_CALL then Inl DepositCount
      else if max_gas > MAX_GAS_USAGE_PER_TX then Inl MaxGasReached
      else verify_deposits C deposits [])"

text \<open>The collector of the sigma proofs and the random factors still to be drawn.\<close>

type_synonym ('s, 'p) sigma = "('s, 'p) batch_collector \<times> (nat \<Rightarrow> 's)"

definition draw :: "(nat \<Rightarrow> 's) \<Rightarrow> nat \<Rightarrow> 's" where "draw rng n = rng (Suc n)"

fun verify_contract_deposits ::
  "('s::field, 'p::ab_group_add) curve \<Rightarrow> 't merlin \<Rightarrow> 'p \<Rightarrow> 'p \<Rightarrow> 'p deposits_ct \<Rightarrow> 's deposits \<Rightarrow>
   't \<times> ('p \<times> compressed_point) list \<times> ('s, 'p) sigma \<Rightarrow>
   ('x, 'e) verification_error + 't \<times> ('p \<times> compressed_point) list \<times> ('s, 'p) sigma" where
  "verify_contract_deposits C M source dest deposits_ct [] acc = Inr acc"
| "verify_contract_deposits C M source dest deposits_ct ((asset, deposit) # rest) (t, values, b, rng) =
     (let t = append_hash M ''deposit_asset'' asset (deposit_proof_domain_separator M t) in
      case deposit of
        Public coins \<Rightarrow> verify_contract_deposits C M source dest deposits_ct rest
          (append_u64 M (label ''deposit_plain'') coins t, values, b, rng)
      | Private commit sender_handle receiver_handle proof \<Rightarrow>
          let t = append_handle M ''deposit_receiver_handle'' receiver_handle
                (append_handle M ''deposit_sender_handle'' sender_handle
                (append_commitment M ''deposit_commitment'' commit t))
          in (case map_of deposits_ct asset of None \<Rightarrow> Inl DepositNotFound
            | Some d \<Rightarrow> (case cv_pre_verify C M proof (dd_commitment d) dest source (dd_receiver_handle d)
                  (dd_sender_handle d) True (rng 0) (t, b) of Inl e \<Rightarrow> Inl (Proof e)
              | Inr (t, b) \<Rightarrow> verify_contract_deposits C M source dest deposits_ct rest
                  (t, values @ [(dd_commitment d, commit)], b, draw rng))))"

section \<open>The checks against a state\<close>

definition nth_opt :: "'a list \<Rightarrow> nat \<Rightarrow> 'a option" where
  "nth_opt xs i = (if i < length xs then Some (xs ! i) else None)"

text \<open>The opening steps of both ways to verify: the nonce is the account's, and moves on.\<close>

definition check_nonce ::
  "('st, 'x, 's, 'p, 'v, 'm, 'r, 'env) verification_state \<Rightarrow> hash \<Rightarrow> ('s, 'v, 'm, 'r) signed_transaction \<Rightarrow>
   ('st, ('x, 'e) verification_error, unit) act" where
  "check_nonce B tx_hash tx =
     act_then (on_state (vs_pre_verify_tx B tx))
     (act_bind (on_state (vs_get_account_nonce B (st_source tx))) (\<lambda>account_nonce.
      if account_nonce \<noteq> st_nonce tx then throw (InvalidNonce tx_hash account_nonce (st_nonce tx))
      else on_state (vs_update_account_nonce B (st_source tx) (st_nonce tx + 1))))"

text \<open>A payload that resets a multisig account needs one to be configured.\<close>

definition check_multisig_reset ::
  "('st, 'x, 's, 'p, 'v, 'm, 'r, 'env) verification_state \<Rightarrow> public_key \<Rightarrow> multisig_payload \<Rightarrow>
   ('st, ('x, 'e) verification_error, unit) act" where
  "check_multisig_reset B source payload =
     (if ms_threshold payload = 0 \<and> ms_participants payload = []
      then act_bind (on_state (vs_get_multisig_state B source)) (\<lambda>config.
        act_guard (config \<noteq> None) MultiSigNotConfigured)
      else ret ())"

definition is_contract_available ::
  "('st, 'x, 's, 'p, 'v, 'm, 'r, 'env) verification_state \<Rightarrow> hash \<Rightarrow> ('st, ('x, 'e) verification_error, bool) act" where
  "is_contract_available B contract = on_state (vs_load_contract_module B contract)"

definition check_invoke ::
  "('s, 'p, 't, 'r, 'e, 'v, 'm, 'env) verify_lib \<Rightarrow> ('st, 'x, 's, 'p, 'v, 'm, 'r, 'env) verification_state \<Rightarrow>
   ('s, 'v) invoke_contract_payload \<Rightarrow> ('st, ('x, 'e) verification_error, 'p deposits_ct) act" where
  "check_invoke L B payload =
     act_bind (act_lift (verify_invoke_contract (lib_curve L) (ic_deposits payload) (ic_max_gas payload))) (\<lambda>deposits_ct.
     act_bind (is_contract_available B (ic_contract payload)) (\<lambda>available.
     act_then (act_guard available ContractNotFound)
     (act_bind (on_state (vs_get_contract_module_with_environment B (ic_contract payload))) (\<lambda>(module, env).
     act_then (act_guard (lib_is_entry_chunk L module (unat (ic_chunk_id payload))) InvalidInvokeContract)
     (act_then (act_each (\<lambda>constant. act_lift (map_err ModuleError (lib_verify_constant L module env constant)))
       (ic_parameters payload))
     (ret deposits_ct))))))"

definition check_deploy ::
  "('s, 'p, 't, 'r, 'e, 'v, 'm, 'env) verify_lib \<Rightarrow> ('st, 'x, 's, 'p, 'v, 'm, 'r, 'env) verification_state \<Rightarrow>
   ('s, 'm) deploy_contract_payload \<Rightarrow> ('st, ('x, 'e) verification_error, 'p deposits_ct) act" where
  "check_deploy L B payload =
     act_bind (case dp_invoke payload of None \<Rightarrow> ret []
       | Some invoke \<Rightarrow> act_lift (verify_invoke_contract (lib_curve L) (co_deposits invoke) (co_max_gas invoke))) (\<lambda>deposits_ct.
     act_bind (on_state (vs_get_environment B)) (\<lambda>env.
     act_then (act_lift (map_err ModuleError (lib_verify_module L (dp_module payload) env)))
     (ret deposits_ct)))"

definition check_data_dynamic ::
  "('s, 'p, 't, 'r, 'e, 'v, 'm, 'env) verify_lib \<Rightarrow> ('st, 'x, 's, 'p, 'v, 'm, 'r, 'env) verification_state \<Rightarrow>
   ('s, 'v, 'm, 'r) signed_transaction \<Rightarrow>
   ('st, ('x, 'e) verification_error, 'p decompressed_transfer_ct list \<times> 'p deposits_ct) act" where
  "check_data_dynamic L B tx = (case st_data tx of
     Transfers transfers \<Rightarrow> act_bind (or_decompression (those (map (decompress_transfer (lib_curve L)) transfers)))
       (\<lambda>ds. ret (ds, []))
   | Burn _ \<Rightarrow> ret ([], [])
   | MultiSigSetup payload \<Rightarrow> act_then (check_multisig_reset B (st_source tx) payload) (ret ([], []))
   | InvokeContract payload \<Rightarrow> act_bind (check_invoke L B payload) (\<lambda>ds. ret ([], ds))
   | DeployContract payload \<Rightarrow> act_bind (check_deploy L B payload) (\<lambda>ds. ret ([], ds))
   | EnergyOp _ \<Rightarrow> ret ([], []))"

text \<open>The loop over the transfers: the sender is no receiver, extra data has a limit, points decode.\<close>

fun check_transfers ::
  "('s, 'p) curve \<Rightarrow> public_key \<Rightarrow> 's transfer_payload list \<Rightarrow> usize \<Rightarrow> 'p decompressed_transfer_ct list \<Rightarrow>
   ('x, 'e) verification_error + usize \<times> 'p decompressed_transfer_ct list" where
  "check_transfers C source [] extra_data_size acc = Inr (extra_data_size, acc)"
| "check_transfers C source (transfer # rest) extra_data_size acc =
     (if tr_destination transfer = source then Inl SenderIsReceiver
      else let sz = (case tr_extra_data transfer of None \<Rightarrow> 0 | Some extra_data \<Rightarrow> size_extra_data extra_data) in
        if tr_extra_data transfer \<noteq> None \<and> sz > EXTRA_DATA_LIMIT_SIZE then Inl TransferExtraDataSize
        else (case decompress_transfer C transfer of None \<Rightarrow> Inl (Proof Decompression)
          | Some d \<Rightarrow> check_transfers C source rest (extra_data_size + sz) (acc @ [d])))"

definition check_burn :: "u64 \<Rightarrow> burn_payload \<Rightarrow> ('x, 'e) verification_error + unit" where
  "check_burn fee payload = (let coins = bn_amount payload in
     if coins = 0 then Inl InvalidFormat
     else case checked_add fee coins of None \<Rightarrow> Inl InvalidFormat
       | Some spent \<Rightarrow> if spent < fee \<or> spent < coins then Inl InvalidFormat else Inr ())"

definition check_multisig_payload :: "public_key \<Rightarrow> multisig_payload \<Rightarrow> ('x, 'e) verification_error + unit" where
  "check_multisig_payload source payload =
     (if length (ms_participants payload) > MAX_MULTISIG_PARTICIPANTS then Inl MultiSigParticipants
      else if unat (ms_threshold payload) > length (ms_participants payload) then Inl MultiSigThreshold
      else if ms_threshold payload = 0 \<and> ms_participants payload \<noteq> [] then Inl MultiSigThreshold
      else if source \<in> set (ms_participants payload) then Inl MultiSigParticipants
      else Inr ())"

definition check_data ::
  "('s, 'p, 't, 'r, 'e, 'v, 'm, 'env) verify_lib \<Rightarrow> ('st, 'x, 's, 'p, 'v, 'm, 'r, 'env) verification_state \<Rightarrow>
   ('s, 'v, 'm, 'r) signed_transaction \<Rightarrow>
   ('st, ('x, 'e) verification_error, 'p decompressed_transfer_ct list \<times> 'p deposits_ct) act" where
  "check_data L B tx = (case st_data tx of
     Transfers transfers \<Rightarrow>
       if length transfers > MAX_TRANSFER_COUNT \<or> transfers = [] then throw TransferCount
       else act_bind (act_lift (check_transfers (lib_curve L) (st_source tx) transfers 0 [])) (\<lambda>(extra_data_size, ds).
         if extra_data_size > EXTRA_DATA_LIMIT_SUM_SIZE then throw TransactionExtraDataSize else ret (ds, []))
   | Burn payload \<Rightarrow> act_then (act_lift (check_burn (st_fee tx) payload)) (ret ([], []))
   | MultiSigSetup payload \<Rightarrow> act_then (act_lift (check_multisig_payload (st_source tx) payload))
       (act_then (check_multisig_reset B (st_source tx) payload) (ret ([], [])))
   | InvokeContract payload \<Rightarrow> act_bind (check_invoke L B payload) (\<lambda>ds. ret ([], ds))
   | DeployContract payload \<Rightarrow> act_bind (check_deploy L B payload) (\<lambda>ds. ret ([], ds))
   | EnergyOp _ \<Rightarrow> ret ([], []))"

fun verify_multisig_signatures ::
  "('s::field, 'p::ab_group_add) curve \<Rightarrow> public_key list \<Rightarrow> hash \<Rightarrow> 's multisig \<Rightarrow>
   ('x, 'e) verification_error + unit" where
  "verify_multisig_signatures C participants h [] = Inr ()"
| "verify_multisig_signatures C participants h (sig # rest) =
     (case nth_opt participants (unat (si_id sig)) of None \<Rightarrow> Inl MultiSigParticipants
      | Some key \<Rightarrow> (case decode_point C (key_point key) of None \<Rightarrow> Inl (Proof Decompression)
        | Some point \<Rightarrow> if \<not> verify C (si_signature sig) (as_bytes h) point then Inl InvalidSignature
            else verify_multisig_signatures C participants h rest))"

definition verify_signatures ::
  "('s::field, 'p::ab_group_add, 't, 'r, 'e, 'v, 'm, 'env) verify_lib \<Rightarrow>
   ('st, 'x, 's, 'p, 'v, 'm, 'r, 'env) verification_state \<Rightarrow> 'p \<Rightarrow>
   ('s, 'v, 'm, 'r) signed_transaction \<Rightarrow> ('st, ('x, 'e) verification_error, unit) act" where
  "verify_signatures L B source_point tx =
     (let C = lib_curve L in
      if \<not> verify C (st_signature tx) (get_signing_bytes C (lib_range L) (lib_codec L) tx) source_point
      then throw InvalidSignature
      else act_bind (on_state (vs_get_multisig_state B (st_source tx))) (\<lambda>config. case config of
        Some config \<Rightarrow> (case st_multisig tx of None \<Rightarrow> throw MultiSigNotFound
          | Some multisig \<Rightarrow>
              if unat (ms_threshold config) \<noteq> length multisig \<or> length multisig > MAX_MULTISIG_PARTICIPANTS
              then throw MultiSigParticipants
              else act_lift (verify_multisig_signatures C (ms_participants config)
                (lib_hash L (get_multisig_signing_bytes C (lib_range L) (lib_codec L) tx)) multisig))
      | None \<Rightarrow> if st_multisig tx \<noteq> None then throw MultiSigNotConfigured else ret ()))"

text \<open>One source commitment: the balance loses the output, and the proof must open what is left.\<close>

definition commitment_transcript ::
  "'t merlin \<Rightarrow> 's source_commitment \<Rightarrow> compressed_ciphertext \<Rightarrow> 't \<Rightarrow> 't" where
  "commitment_transcript M c source_ct t =
     append_ciphertext M ''source_ct'' source_ct
     (append_commitment M ''new_source_commitment'' (sc_commitment c)
     (append_hash M ''new_source_commitment_asset'' (sc_asset c)
     (new_commitment_eq_proof_domain_separator M t)))"

fun verify_source_commitments ::
  "('s::field, 'p::ab_group_add, 't, 'r, 'e, 'v, 'm, 'env) verify_lib \<Rightarrow>
   ('st, 'x, 's, 'p, 'v, 'm, 'r, 'env) verification_state \<Rightarrow> ('s, 'v, 'm, 'r) signed_transaction \<Rightarrow>
   'p \<Rightarrow> 'p decompressed_transfer_ct list \<Rightarrow> 'p deposits_ct \<Rightarrow> ('s source_commitment \<times> 'p) list \<Rightarrow>
   't \<times> ('s, 'p) sigma \<Rightarrow> ('st, ('x, 'e) verification_error, 't \<times> ('s, 'p) sigma) act" where
  "verify_source_commitments L B tx source_point transfers_ct deposits_ct [] acc = ret acc"
| "verify_source_commitments L B tx source_point transfers_ct deposits_ct ((c, new_source) # rest) (t, b, rng) =
     act_bind (or_decompression (get_sender_output_ct (lib_curve L) tx (sc_asset c) transfers_ct deposits_ct)) (\<lambda>output.
     act_bind (on_state (vs_get_sender_balance B (st_source tx) (sc_asset c) (st_reference tx))) (\<lambda>source_ct.
     act_then (act_modify (vs_put_sender_balance B (st_source tx) (sc_asset c) (ciphertext_sub source_ct output)))
     (act_bind (act_lift (map_err Proof (eq_pre_verify (lib_curve L) (lib_merlin L) (sc_proof c) source_point
        (ciphertext_sub source_ct output) new_source (rng 0)
        (commitment_transcript (lib_merlin L) c (compress_ciphertext (lib_curve L) source_ct) t, b)))) (\<lambda>(t, b).
     act_then (on_state (vs_add_sender_output B (st_source tx) (sc_asset c) output))
     (verify_source_commitments L B tx source_point transfers_ct deposits_ct rest (t, b, draw rng))))))"

definition decompress_source_commitments ::
  "('s, 'p) curve \<Rightarrow> ('s, 'v, 'm, 'r) signed_transaction \<Rightarrow> ('st, ('x, 'e) verification_error, 'p list) act" where
  "decompress_source_commitments C tx =
     or_decompression (those (map (\<lambda>c. decode_point C (sc_commitment c)) (st_source_commitments tx)))"

definition tx_transcript :: "'t merlin \<Rightarrow> ('s, 'v, 'm, 'r) signed_transaction \<Rightarrow> 't" where
  "tx_transcript M tx =
     prepare_transcript M (st_version tx) (st_source tx) (st_fee tx) (st_fee_type tx) (st_nonce tx)"

definition verify_dynamic_parts ::
  "('s::field, 'p::ab_group_add, 't, 'r, 'e, 'v, 'm, 'env) verify_lib \<Rightarrow>
   ('st, 'x, 's, 'p, 'v, 'm, 'r, 'env) verification_state \<Rightarrow> hash \<Rightarrow> ('s, 'v, 'm, 'r) signed_transaction \<Rightarrow>
   ('s, 'p) sigma \<Rightarrow> ('st, ('x, 'e) verification_error, ('s, 'p) sigma) act" where
  "verify_dynamic_parts L B tx_hash tx sigma =
     act_then (check_nonce B tx_hash tx)
     (act_bind (check_data_dynamic L B tx) (\<lambda>(transfers_ct, deposits_ct).
     act_bind (decompress_source_commitments (lib_curve L) tx) (\<lambda>new_sources.
     act_bind (or_decompression (decode_point (lib_curve L) (key_point (st_source tx)))) (\<lambda>source_point.
     act_bind (verify_source_commitments L B tx source_point transfers_ct deposits_ct
       (zip (st_source_commitments tx) new_sources) (tx_transcript (lib_merlin L) tx, sigma)) (\<lambda>(t, sigma).
     ret sigma)))))"

text \<open>The last step: receivers are credited, and the rest of the data goes into the transcript.\<close>

fun verify_transfers ::
  "('s::field, 'p::ab_group_add, 't, 'r, 'e, 'v, 'm, 'env) verify_lib \<Rightarrow>
   ('st, 'x, 's, 'p, 'v, 'm, 'r, 'env) verification_state \<Rightarrow> 'p \<Rightarrow>
   ('s transfer_payload \<times> 'p decompressed_transfer_ct) list \<Rightarrow>
   't \<times> ('p \<times> compressed_point) list \<times> ('s, 'p) sigma \<Rightarrow>
   ('st, ('x, 'e) verification_error, 't \<times> ('p \<times> compressed_point) list \<times> ('s, 'p) sigma) act" where
  "verify_transfers L B source_point [] acc = ret acc"
| "verify_transfers L B source_point ((transfer, d) # rest) (t, values, b, rng) =
     act_bind (or_decompression (decode_point (lib_curve L) (key_point (tr_destination transfer)))) (\<lambda>receiver.
     act_bind (on_state (vs_get_receiver_balance B (tr_destination transfer) (tr_asset transfer))) (\<lambda>current_balance.
     act_then (act_modify (vs_put_receiver_balance B (tr_destination transfer) (tr_asset transfer)
       (ciphertext_add current_balance (dt_get_ciphertext Receiver d))))
     (let M = lib_merlin L;
          t = append_handle M ''amount_receiver_handle'' (tr_receiver_handle transfer)
              (append_handle M ''amount_sender_handle'' (tr_sender_handle transfer)
              (append_commitment M ''amount_commitment'' (tr_commitment transfer)
              (append_public_key M ''dest_pubkey'' (tr_destination transfer)
              (transfer_proof_domain_separator M t))))
      in act_bind (act_lift (map_err Proof (cv_pre_verify (lib_curve L) M (tr_ct_validity_proof transfer)
           (dt_commitment d) receiver source_point (dt_receiver_handle d) (dt_sender_handle d) True (rng 0) (t, b)))) (\<lambda>(t, b).
         verify_transfers L B source_point rest
           (t, values @ [(dt_commitment d, tr_commitment transfer)], b, draw rng)))))"

definition verify_outputs ::
  "('s::field, 'p::ab_group_add, 't, 'r, 'e, 'v, 'm, 'env) verify_lib \<Rightarrow>
   ('st, 'x, 's, 'p, 'v, 'm, 'r, 'env) verification_state \<Rightarrow> hash \<Rightarrow> ('s, 'v, 'm, 'r) signed_transaction \<Rightarrow> 'p \<Rightarrow>
   'p decompressed_transfer_ct list \<Rightarrow> 'p deposits_ct \<Rightarrow> 't \<times> ('s, 'p) sigma \<Rightarrow>
   ('st, ('x, 'e) verification_error, 't \<times> ('p \<times> compressed_point) list \<times> ('s, 'p) sigma) act" where
  "verify_outputs L B tx_hash tx source_point transfers_ct deposits_ct acc =
     (let C = lib_curve L; M = lib_merlin L; (t, sigma) = acc in
      case st_data tx of
        Transfers transfers \<Rightarrow> verify_transfers L B source_point (zip transfers transfers_ct) (t, [], sigma)
      | Burn payload \<Rightarrow> ret (append_u64 M (label ''burn_amount'') (bn_amount payload)
          (append_hash M ''burn_asset'' (bn_asset payload) (burn_proof_domain_separator M t)), [], sigma)
      | MultiSigSetup payload \<Rightarrow>
          act_then (on_state (vs_set_multisig_state B (st_source tx) payload))
          (ret (fold (append_public_key M ''multisig_participant'') (ms_participants payload)
            (append_u64 M (label ''multisig_threshold'') (ucast (ms_threshold payload))
            (multisig_proof_domain_separator M t)), [], sigma))
      | InvokeContract payload \<Rightarrow>
          act_bind (act_lift (verify_contract_deposits C M source_point (lib_hash_to_point L (as_bytes (ic_contract payload)))
            deposits_ct (ic_deposits payload) (t, [], sigma))) (\<lambda>(t, values, sigma).
          ret (fold (\<lambda>param. append_message M (label ''contract_param'') (to_bytes (write_cell (lib_codec L) param)))
            (ic_parameters payload)
            (append_u64 M (label ''max_gas'') (ic_max_gas payload)
            (append_hash M ''contract_hash'' (ic_contract payload)
            (invoke_contract_proof_domain_separator M t))), values, sigma))
      | DeployContract payload \<Rightarrow>
          let t = deploy_contract_proof_domain_separator M t in
          if (dp_invoke payload = None) \<noteq> (lib_chunk_id_of_hook L (dp_module payload) 0 = None)
          then throw InvalidFormat
          else act_bind (case dp_invoke payload of None \<Rightarrow> ret (t, [], sigma)
            | Some invoke \<Rightarrow>
                act_bind (act_lift (verify_contract_deposits C M source_point (lib_hash_to_point L (as_bytes tx_hash))
                  deposits_ct (co_deposits invoke) (t, [], sigma))) (\<lambda>(t, values, sigma).
                ret (append_u64 M (label ''max_gas'') (co_max_gas invoke)
                  (invoke_constructor_proof_domain_separator M t), values, sigma))) (\<lambda>acc.
            act_then (on_state (vs_set_contract_module B tx_hash (dp_module payload))) (ret acc))
      | EnergyOp payload \<Rightarrow> ret (append_energy_transcript M payload t, [], sigma))"

text \<open>
  The commitments of the range proof: what is left of each balance, what each transfer or deposit
  moves, and identities up to a power of two. A \<open>usize\<close> is a natural number, so the next power of two
  always exists.
\<close>

definition final_commitments ::
  "('s, 'p::ab_group_add) curve \<Rightarrow> 's source_commitment list \<Rightarrow> 'p list \<Rightarrow> ('p \<times> compressed_point) list \<Rightarrow>
   ('p \<times> compressed_point) list" where
  "final_commitments C commitments new_sources values =
     (let n_commitments = length commitments + length values;
          n_dud_commitments = next_power_of_two n_commitments - n_commitments
      in map (\<lambda>(c, new_source). (new_source, sc_commitment c)) (zip commitments new_sources) @ values @
         replicate n_dud_commitments (0, encode_point C 0))"

definition pre_verify ::
  "('s::field, 'p::ab_group_add, 't, 'r, 'e, 'v, 'm, 'env) verify_lib \<Rightarrow>
   ('st, 'x, 's, 'p, 'v, 'm, 'r, 'env) verification_state \<Rightarrow> hash \<Rightarrow> ('s, 'v, 'm, 'r) signed_transaction \<Rightarrow>
   ('s, 'p) sigma \<Rightarrow>
   ('st, ('x, 'e) verification_error, ('t \<times> ('p \<times> compressed_point) list) \<times> ('s, 'p) sigma) act" where
  "pre_verify L B tx_hash tx sigma =
     act_then (act_guard (has_valid_version_format tx) InvalidFormat)
     (act_then (check_nonce B tx_hash tx)
     (act_then (act_guard (verify_commitment_assets tx) Commitments)
     (act_bind (check_data L B tx) (\<lambda>(transfers_ct, deposits_ct).
     act_bind (decompress_source_commitments (lib_curve L) tx) (\<lambda>new_sources.
     act_bind (or_decompression (decode_point (lib_curve L) (key_point (st_source tx)))) (\<lambda>source_point.
     act_then (verify_signatures L B source_point tx)
     (act_bind (verify_source_commitments L B tx source_point transfers_ct deposits_ct
       (zip (st_source_commitments tx) new_sources) (tx_transcript (lib_merlin L) tx, sigma)) (\<lambda>acc.
     act_bind (verify_outputs L B tx_hash tx source_point transfers_ct deposits_ct acc) (\<lambda>(t, values, sigma).
     ret ((t, final_commitments (lib_curve L) (st_source_commitments tx) new_sources values), sigma))))))))))"

section \<open>Verification of one transaction and of a batch\<close>

text \<open>The sigma proofs of the batch are one equation; its failure is reported as \<open>GenericProof\<close>.\<close>

definition verify_sigma ::
  "('s, 'p::ab_group_add) curve \<Rightarrow> ('s, 'p) sigma \<Rightarrow> ('x, 'e) verification_error + unit" where
  "verify_sigma C sigma = map_err (\<lambda>_ :: 'e proof_verification_error. Proof GenericProof) (batch_verify C (fst sigma))"

definition verify_tx ::
  "('s::field, 'p::ab_group_add, 't, 'r, 'e, 'v, 'm, 'env) verify_lib \<Rightarrow>
   ('st, 'x, 's, 'p, 'v, 'm, 'r, 'env) verification_state \<Rightarrow> (hash \<Rightarrow> 'x + bool) \<Rightarrow> (nat \<Rightarrow> 's) \<Rightarrow>
   ('s, 'v, 'm, 'r) signed_transaction \<times> hash \<Rightarrow> ('st, ('x, 'e) verification_error, unit) act" where
  "verify_tx L B is_already_verified rng = (\<lambda>(tx, tx_hash).
     act_bind (act_lift (map_err State (is_already_verified tx_hash))) (\<lambda>dynamic_parts_only.
     if dynamic_parts_only
     then act_bind (verify_dynamic_parts L B tx_hash tx (batch_collector_default, rng)) (\<lambda>sigma.
       act_lift (verify_sigma (lib_curve L) sigma))
     else act_bind (pre_verify L B tx_hash tx (batch_collector_default, rng)) (\<lambda>((t, commitments), sigma).
       act_then (act_lift (verify_sigma (lib_curve L) sigma))
       (act_lift (map_err (\<lambda>e. Proof (RangeProof e))
         (lib_verify_multiple L (st_range_proof tx) t commitments BULLET_PROOF_SIZE))))))"

fun prepare_batch ::
  "('s::field, 'p::ab_group_add, 't, 'r, 'e, 'v, 'm, 'env) verify_lib \<Rightarrow>
   ('st, 'x, 's, 'p, 'v, 'm, 'r, 'env) verification_state \<Rightarrow> (hash \<Rightarrow> 'x + bool) \<Rightarrow>
   (('s, 'v, 'm, 'r) signed_transaction \<times> hash) list \<Rightarrow>
   ('r \<times> 't \<times> ('p \<times> compressed_point) list) list \<times> ('s, 'p) sigma \<Rightarrow>
   ('st, ('x, 'e) verification_error, ('r \<times> 't \<times> ('p \<times> compressed_point) list) list \<times> ('s, 'p) sigma) act" where
  "prepare_batch L B is_already_verified [] acc = ret acc"
| "prepare_batch L B is_already_verified ((tx, tx_hash) # txs) (prepared, sigma) =
     act_bind (act_lift (map_err State (is_already_verified tx_hash))) (\<lambda>dynamic_parts_only.
     if dynamic_parts_only
     then act_bind (verify_dynamic_parts L B tx_hash tx sigma) (\<lambda>sigma.
       prepare_batch L B is_already_verified txs (prepared, sigma))
     else act_bind (pre_verify L B tx_hash tx sigma) (\<lambda>((t, commitments), sigma).
       prepare_batch L B is_already_verified txs (prepared @ [(st_range_proof tx, t, commitments)], sigma)))"

definition verify_batch ::
  "('s::field, 'p::ab_group_add, 't, 'r, 'e, 'v, 'm, 'env) verify_lib \<Rightarrow>
   ('st, 'x, 's, 'p, 'v, 'm, 'r, 'env) verification_state \<Rightarrow> (hash \<Rightarrow> 'x + bool) \<Rightarrow> (nat \<Rightarrow> 's) \<Rightarrow>
   (('s, 'v, 'm, 'r) signed_transaction \<times> hash) list \<Rightarrow> ('st, ('x, 'e) verification_error, unit) act" where
  "verify_batch L B is_already_verified rng txs =
     act_bind (prepare_batch L B is_already_verified txs ([], batch_collector_default, rng)) (\<lambda>(prepared, sigma).
     act_then (act_lift (verify_sigma (lib_curve L) sigma))
     (if prepared \<noteq> [] then act_lift (map_err (\<lambda>e. Proof (RangeProof e)) (lib_verify_batch L prepared BULLET_PROOF_SIZE))
      else ret ()))"

definition no_zkp_cache :: "hash \<Rightarrow> 'x + bool" where
  "no_zkp_cache h = Inr False"

section \<open>What a verification state promises\<close>

lemma map_err_iff [act_iff]: "map_err f m = Inr y \<longleftrightarrow> m = Inr y"
  by (cases m) (auto simp: map_err_def)

lemma ok_or_iff [act_iff]: "ok_or e v = Inr x \<longleftrightarrow> v = Some x"
  by (cases v) (auto simp: ok_or_def)

lemma or_decompression_iff [act_iff]:
  "or_decompression v st = (Inr x, st') \<longleftrightarrow> v = Some x \<and> st' = st"
  by (auto simp: or_decompression_def act_iff)

lemma on_state_iff [act_iff]: "on_state m st = (Inr x, st') \<longleftrightarrow> m st = (Inr x, st')"
  by (simp add: on_state_def act_iff)

text \<open>
  The view of a state is what its getters would return. An account is \<open>loaded\<close> once its nonce was
  asked for: from then on its nonce, multisig setting and sender balances are held by the state, and
  each operation changes what its name says and nothing else a loaded account or a receiver sees.
  Asking for a sender balance pins it: whatever reference a later transaction names, the state goes on
  from the balance it holds.
\<close>

definition nonce_at :: "('st, 'x, 's, 'p, 'v, 'm, 'r, 'env) verification_state \<Rightarrow> 'st \<Rightarrow> public_key \<Rightarrow> u64 option" where
  "nonce_at B st k = act_peek (vs_get_account_nonce B k) st"

definition multisig_at ::
  "('st, 'x, 's, 'p, 'v, 'm, 'r, 'env) verification_state \<Rightarrow> 'st \<Rightarrow> public_key \<Rightarrow> multisig_payload option option" where
  "multisig_at B st k = act_peek (vs_get_multisig_state B k) st"

definition sender_at ::
  "('st, 'x, 's, 'p, 'v, 'm, 'r, 'env) verification_state \<Rightarrow> 'st \<Rightarrow> public_key \<Rightarrow> hash \<Rightarrow> reference \<Rightarrow>
   'p ciphertext option" where
  "sender_at B st k asset rf = act_peek (vs_get_sender_balance B k asset rf) st"

definition receiver_at ::
  "('st, 'x, 's, 'p, 'v, 'm, 'r, 'env) verification_state \<Rightarrow> 'st \<Rightarrow> public_key \<Rightarrow> hash \<Rightarrow> 'p ciphertext option" where
  "receiver_at B st k asset = act_peek (vs_get_receiver_balance B k asset) st"

text \<open>The state once the sender is loaded: what the rest of the verification starts from.\<close>

definition entered ::
  "('st, 'x, 's, 'p, 'v, 'm, 'r, 'env) verification_state \<Rightarrow> ('s, 'v, 'm, 'r) signed_transaction \<Rightarrow> 'st \<Rightarrow> 'st" where
  "entered B tx st = snd (vs_get_account_nonce B (st_source tx) (snd (vs_pre_verify_tx B tx st)))"

definition keeps_accounts ::
  "('st, 'x, 's, 'p, 'v, 'm, 'r, 'env) verification_state \<Rightarrow> ('st \<Rightarrow> public_key \<Rightarrow> bool) \<Rightarrow> public_key set \<Rightarrow>
   'st \<Rightarrow> 'st \<Rightarrow> bool" where
  "keeps_accounts B loaded ks st st' \<longleftrightarrow> (\<forall>k. loaded st k \<longrightarrow> loaded st' k \<and> (k \<in> ks \<longrightarrow>
     nonce_at B st' k = nonce_at B st k \<and> multisig_at B st' k = multisig_at B st k \<and> sender_at B st' k = sender_at B st k))"

definition same_view ::
  "('st, 'x, 's, 'p, 'v, 'm, 'r, 'env) verification_state \<Rightarrow> ('st \<Rightarrow> public_key \<Rightarrow> bool) \<Rightarrow> 'st \<Rightarrow> 'st \<Rightarrow> bool" where
  "same_view B loaded st st' \<longleftrightarrow>
     keeps_accounts B loaded UNIV st st' \<and> receiver_at B st' = receiver_at B st"

lemma same_view_refl [simp]: "same_view B loaded st st"
  by (simp add: same_view_def keeps_accounts_def)

lemma keeps_accounts_refl [simp]: "keeps_accounts B loaded ks st st"
  by (simp add: keeps_accounts_def)

lemma same_view_trans [trans]:
  "same_view B loaded st st1 \<Longrightarrow> same_view B loaded st1 st2 \<Longrightarrow> same_view B loaded st st2"
  by (auto simp: same_view_def keeps_accounts_def)

locale tx_state =
  fixes B :: "('st, 'x, 's::field, 'p::ab_group_add, 'v, 'm, 'r, 'env) verification_state"
    and loaded :: "'st \<Rightarrow> public_key \<Rightarrow> bool"
  assumes pre_verify_view: "vs_pre_verify_tx B tx st = (Inr (), st') \<Longrightarrow> same_view B loaded st st'"
    and get_nonce_view: "vs_get_account_nonce B k st = (Inr n, st') \<Longrightarrow>
      same_view B loaded st st' \<and> loaded st' k \<and> nonce_at B st' k = Some n"
    and set_nonce_view: "vs_update_account_nonce B k n st = (Inr (), st') \<Longrightarrow> loaded st k \<Longrightarrow>
      keeps_accounts B loaded (- {k}) st st' \<and> receiver_at B st' = receiver_at B st \<and>
      nonce_at B st' k = Some n \<and> multisig_at B st' k = multisig_at B st k \<and> sender_at B st' k = sender_at B st k"
    and get_multisig_view: "vs_get_multisig_state B k st = (Inr c, st') \<Longrightarrow> same_view B loaded st st'"
    and set_multisig_view: "vs_set_multisig_state B k p st = (Inr (), st') \<Longrightarrow> loaded st k \<Longrightarrow>
      keeps_accounts B loaded (- {k}) st st' \<and> receiver_at B st' = receiver_at B st \<and>
      nonce_at B st' k = nonce_at B st k \<and> multisig_at B st' k = Some (if is_delete p then None else Some p) \<and>
      sender_at B st' k = sender_at B st k"
    and get_sender_view: "vs_get_sender_balance B k asset rf st = (Inr ct, st') \<Longrightarrow> loaded st k \<Longrightarrow>
      keeps_accounts B loaded (- {k}) st st' \<and> receiver_at B st' = receiver_at B st \<and>
      nonce_at B st' k = nonce_at B st k \<and> multisig_at B st' k = multisig_at B st k \<and>
      sender_at B st' k = (sender_at B st k)(asset := (\<lambda>_. Some ct))"
    and put_sender_view: "vs_get_sender_balance B k asset rf st = (Inr ct, st1) \<Longrightarrow> loaded st k \<Longrightarrow>
      st' = vs_put_sender_balance B k asset ct' st1 \<Longrightarrow>
      keeps_accounts B loaded (- {k}) st st' \<and> receiver_at B st' = receiver_at B st \<and>
      nonce_at B st' k = nonce_at B st k \<and> multisig_at B st' k = multisig_at B st k \<and>
      sender_at B st' k = (sender_at B st k)(asset := (\<lambda>_. Some ct'))"
    and add_output_view: "vs_add_sender_output B k asset ct st = (Inr (), st') \<Longrightarrow> same_view B loaded st st'"
    and get_receiver_view: "vs_get_receiver_balance B k asset st = (Inr ct, st') \<Longrightarrow> same_view B loaded st st'"
    and put_receiver_view: "vs_get_receiver_balance B k asset st = (Inr ct, st1) \<Longrightarrow>
      st' = vs_put_receiver_balance B k asset ct' st1 \<Longrightarrow>
      keeps_accounts B loaded UNIV st st' \<and>
      receiver_at B st' = (receiver_at B st)(k := (receiver_at B st k)(asset := Some ct'))"
    and get_environment_view: "vs_get_environment B st = (Inr env, st') \<Longrightarrow> same_view B loaded st st'"
    and set_module_view: "vs_set_contract_module B h m st = (Inr (), st') \<Longrightarrow> same_view B loaded st st'"
    and load_module_view: "vs_load_contract_module B h st = (Inr b, st') \<Longrightarrow> same_view B loaded st st'"
    and get_module_view: "vs_get_contract_module_with_environment B h st = (Inr me, st') \<Longrightarrow> same_view B loaded st st'"
begin

lemma check_multisig_reset_view:
  "check_multisig_reset B k p st = (Inr (), st') \<Longrightarrow> same_view B loaded st st'"
  by (auto simp: check_multisig_reset_def on_state_def act_iff split: if_splits dest: get_multisig_view)

lemma act_each_lift: "act_each (\<lambda>x. act_lift (f x)) xs st = (Inr (), st') \<Longrightarrow> st' = st"
  by (induction xs) (auto simp: act_iff)

lemma check_invoke_view: "check_invoke L B p st = (Inr ds, st') \<Longrightarrow> same_view B loaded st st'"
  unfolding check_invoke_def is_contract_available_def on_state_def
  by (auto simp: act_iff dest!: act_each_lift load_module_view get_module_view intro: same_view_trans)

lemma check_deploy_view: "check_deploy L B p st = (Inr ds, st') \<Longrightarrow> same_view B loaded st st'"
  unfolding check_deploy_def on_state_def
  by (auto simp: act_iff dest!: get_environment_view split: option.splits)

lemma check_data_dynamic_view: "check_data_dynamic L B tx st = (Inr ds, st') \<Longrightarrow> same_view B loaded st st'"
  by (auto simp: check_data_dynamic_def or_decompression_def act_iff check_multisig_reset_view check_invoke_view
      check_deploy_view split: transaction_type.splits)

lemma check_data_view: "check_data L B tx st = (Inr ds, st') \<Longrightarrow> same_view B loaded st st'"
  by (auto simp: check_data_def act_iff check_multisig_reset_view check_invoke_view
      check_deploy_view split: transaction_type.splits if_splits prod.splits)

lemma verify_signatures_view: "verify_signatures L B p tx st = (Inr (), st') \<Longrightarrow> same_view B loaded st st'"
  by (auto simp: verify_signatures_def on_state_def act_iff Let_def dest!: get_multisig_view
      split: option.splits if_splits)

end

text \<open>The source commitments: each asset with a commitment loses its output, the rest stays.\<close>

definition spends :: "('st, 'x, 's, 'p::ab_group_add, 'v, 'm, 'r, 'env) verification_state \<Rightarrow> public_key \<Rightarrow> reference \<Rightarrow>
    (hash \<times> 'p ciphertext) list \<Rightarrow> 'st \<Rightarrow> 'st \<Rightarrow> bool" where
  "spends X k rf outs st st' \<longleftrightarrow> nonce_at X st' k = nonce_at X st k \<and> multisig_at X st' k = multisig_at X st k \<and>
     receiver_at X st' = receiver_at X st \<and> (\<forall>asset. sender_at X st' k asset rf = (case map_of outs asset of
       None \<Rightarrow> sender_at X st k asset rf | Some out \<Rightarrow> map_option (\<lambda>b. ciphertext_sub b out) (sender_at X st k asset rf)))"

context tx_state
begin

lemma sender_at_got: "vs_get_sender_balance B k asset rf st = (Inr ct, st') \<Longrightarrow> sender_at B st k asset rf = Some ct"
  by (simp add: sender_at_def act_peek_ok)

lemma receiver_at_got: "vs_get_receiver_balance B k asset st = (Inr ct, st') \<Longrightarrow> receiver_at B st k asset = Some ct"
  by (simp add: receiver_at_def act_peek_ok)

text \<open>What the nonce check does: in the entered state the nonce was the transaction's.\<close>

lemma check_nonce_effect:
  assumes "check_nonce B h tx st = (Inr (), st')"
  obtains st1 where "st1 = entered B tx st" "same_view B loaded st st1" "loaded st1 (st_source tx)" "nonce_at B st1 (st_source tx) = Some (st_nonce tx)"
    "keeps_accounts B loaded (- {st_source tx}) st1 st'" "receiver_at B st' = receiver_at B st1"
    "nonce_at B st' (st_source tx) = Some (st_nonce tx + 1)" "multisig_at B st' (st_source tx) = multisig_at B st1 (st_source tx)"
    "sender_at B st' (st_source tx) = sender_at B st1 (st_source tx)"
proof -
  from assms obtain st0 st1 where pre: "vs_pre_verify_tx B tx st = (Inr (), st0)"
    and get: "vs_get_account_nonce B (st_source tx) st0 = (Inr (st_nonce tx), st1)"
    and upd: "vs_update_account_nonce B (st_source tx) (st_nonce tx + 1) st1 = (Inr (), st')"
    by (auto simp: check_nonce_def on_state_def act_iff split: if_splits)
  from pre_verify_view [OF pre] get_nonce_view [OF get] have "same_view B loaded st st1"
    by (blast intro: same_view_trans)
  moreover have "st1 = entered B tx st" by (simp add: entered_def pre get)
  ultimately show thesis using that [of st1] get_nonce_view [OF get] set_nonce_view [OF upd] by blast
qed

lemma keeps_accounts_trans:
  "keeps_accounts B loaded ks st st1 \<Longrightarrow> keeps_accounts B loaded ks st1 st2 \<Longrightarrow> keeps_accounts B loaded ks st st2"
  by (auto simp: keeps_accounts_def)

lemma verify_source_commitments_effect:
  assumes "verify_source_commitments L B tx p ts ds cs acc st = (Inr acc', st')" "loaded st (st_source tx)"
    "distinct (map (\<lambda>c. sc_asset (fst c)) cs)"
  shows "\<exists>outs. map fst outs = map (\<lambda>c. sc_asset (fst c)) cs \<and>
      (\<forall>(asset, out) \<in> set outs. get_sender_output_ct (lib_curve L) tx asset ts ds = Some out) \<and>
      (\<forall>asset \<in> fst ` set outs. sender_at B st (st_source tx) asset (st_reference tx) \<noteq> None) \<and>
      spends B (st_source tx) (st_reference tx) outs st st' \<and> keeps_accounts B loaded (- {st_source tx}) st st'"
  using assms
proof (induction cs arbitrary: acc st)
  case Nil
  then show ?case by (auto simp: act_iff spends_def keeps_accounts_def intro: exI [of _ "[]"])
next
  case (Cons cq rest)
  obtain c q t b rng where eqs: "cq = (c, q)" "acc = (t, b, rng)" by (cases cq, cases acc) auto
  let ?k = "st_source tx" and ?rf = "st_reference tx" and ?a = "sc_asset c"
  from Cons.prems(1) obtain out ct st1 st2 acc1
    where out: "get_sender_output_ct (lib_curve L) tx ?a ts ds = Some out"
      and get: "vs_get_sender_balance B ?k ?a ?rf st = (Inr ct, st1)"
      and add: "vs_add_sender_output B ?k ?a out (vs_put_sender_balance B ?k ?a (ciphertext_sub ct out) st1) = (Inr (), st2)"
      and rest: "verify_source_commitments L B tx p ts ds rest acc1 st2 = (Inr acc', st')"
    by (auto simp: eqs act_iff)
  define sp where "sp = vs_put_sender_balance B ?k ?a (ciphertext_sub ct out) st1"
  note put = put_sender_view [OF get Cons.prems(2) sp_def]
  note add = add_output_view [OF add [folded sp_def]]
  have loaded: "loaded st2 ?k"
    using put add Cons.prems(2) by (auto simp: same_view_def keeps_accounts_def)
  have at2: "sender_at B st2 ?k = (sender_at B st ?k)(?a := (\<lambda>_. Some (ciphertext_sub ct out)))"
      "nonce_at B st2 ?k = nonce_at B st ?k" "multisig_at B st2 ?k = multisig_at B st ?k" "receiver_at B st2 = receiver_at B st"
    using put add Cons.prems(2) by (auto simp: same_view_def keeps_accounts_def)
  have keep: "keeps_accounts B loaded (- {?k}) st st2"
    using put add by (auto simp: same_view_def keeps_accounts_def)
  from Cons.IH [OF rest loaded] Cons.prems(3) obtain outs
    where outs: "map fst outs = map (\<lambda>c. sc_asset (fst c)) rest"
      "\<forall>(asset, out) \<in> set outs. get_sender_output_ct (lib_curve L) tx asset ts ds = Some out"
      "\<forall>asset \<in> fst ` set outs. sender_at B st2 ?k asset ?rf \<noteq> None"
      "spends B ?k ?rf outs st2 st'" "keeps_accounts B loaded (- {?k}) st2 st'"
    by auto
  have fresh: "?a \<notin> fst ` set outs"
    using Cons.prems(3) outs(1) by (metis eqs(1) distinct.simps(2) fst_conv list.simps(9) list.set_map)
  then have none: "map_of outs ?a = None" by (simp add: map_of_eq_None_iff)
  have "spends B ?k ?rf ((?a, out) # outs) st st'"
    using outs(4) at2 none sender_at_got [OF get] by (auto simp: spends_def split: option.splits)
  moreover have "\<forall>asset \<in> fst ` set ((?a, out) # outs). sender_at B st ?k asset ?rf \<noteq> None"
    using outs(3) fresh at2(1) sender_at_got [OF get] by (auto simp: fun_upd_def split: if_splits)
  ultimately show ?case
    using outs(1,2,5) out keep by (intro exI [of _ "(?a, out) # outs"]) (auto simp: eqs intro: keeps_accounts_trans)
qed

end

text \<open>What the receivers get: the ciphertexts of the transfers to an account, in their order.\<close>

definition credited ::
  "('s transfer_payload \<times> 'p decompressed_transfer_ct) list \<Rightarrow> public_key \<Rightarrow> hash \<Rightarrow> 'p ciphertext list" where
  "credited transfers k asset = map (\<lambda>(t, d). dt_get_ciphertext Receiver d)
     (filter (\<lambda>(t, d). tr_destination t = k \<and> tr_asset t = asset) transfers)"

definition add_all :: "'p::ab_group_add ciphertext list \<Rightarrow> 'p ciphertext \<Rightarrow> 'p ciphertext" where
  "add_all cts b = fold (\<lambda>ct b. ciphertext_add b ct) cts b"

definition tx_credits ::
  "('s, 'v, 'm, 'r) signed_transaction \<Rightarrow> 'p decompressed_transfer_ct list \<Rightarrow> public_key \<Rightarrow> hash \<Rightarrow> 'p ciphertext list" where
  "tx_credits tx ts = (case st_data tx of Transfers transfers \<Rightarrow> credited (zip transfers ts) | _ \<Rightarrow> (\<lambda>_ _. []))"

definition multisig_after ::
  "('s, 'v, 'm, 'r) signed_transaction \<Rightarrow> multisig_payload option option \<Rightarrow> multisig_payload option option" where
  "multisig_after tx before = (case st_data tx of
     MultiSigSetup p \<Rightarrow> Some (if is_delete p then None else Some p) | _ \<Rightarrow> before)"

definition transfers_ct_of ::
  "('s, 'p) curve \<Rightarrow> ('s, 'v, 'm, 'r) signed_transaction \<Rightarrow> 'p decompressed_transfer_ct list option" where
  "transfers_ct_of C tx = (case st_data tx of
     Transfers transfers \<Rightarrow> those (map (decompress_transfer C) transfers) | _ \<Rightarrow> Some [])"

lemma add_all_simps [simp]:
  "add_all [] b = b" "add_all (ct # cts) b = add_all cts (ciphertext_add b ct)"
  by (simp_all add: add_all_def)

lemma add_all_none [simp]: "map_option (add_all []) b = b"
  by (cases b) simp_all

lemma check_transfers_ok:
  "check_transfers C source transfers n acc = Inr (n', ds) \<Longrightarrow>
     \<exists>ds'. those (map (decompress_transfer C) transfers) = Some ds' \<and> ds = acc @ ds'"
  by (induction C source transfers n acc rule: check_transfers.induct)
    (fastforce split: if_splits option.splits simp: Let_def)+

lemma check_data_transfers:
  "check_data L B tx st = (Inr (ts, ds), st') \<Longrightarrow> transfers_ct_of (lib_curve L) tx = Some ts"
  by (auto simp: check_data_def transfers_ct_of_def act_iff dest!: check_transfers_ok
      split: transaction_type.splits if_splits prod.splits)

text \<open>Two source commitments never share an asset, and the native asset always has one.\<close>

lemma duplicate_iff:
  "list_ex (\<lambda>i. list_ex (\<lambda>j. i \<noteq> j \<and> f (xs ! i) = f (xs ! j)) [0..<length xs]) [0..<length xs] \<longleftrightarrow> \<not> distinct (map f xs)"
  by (simp add: list_ex_iff distinct_conv_nth atLeast0LessThan Bex_def)

lemma has_commitment_iff: "has_commitment_for_asset tx asset \<longleftrightarrow> asset \<in> sc_asset ` set (st_source_commitments tx)"
  by (auto simp: has_commitment_for_asset_def list_ex_iff)

lemma verify_commitment_assets_distinct:
  "verify_commitment_assets tx \<Longrightarrow> distinct (map sc_asset (st_source_commitments tx))"
  unfolding verify_commitment_assets_def Let_def duplicate_iff by (auto split: if_splits)

lemma verify_commitment_assets_native:
  "verify_commitment_assets tx \<Longrightarrow> TERMINOS_ASSET \<in> sc_asset ` set (st_source_commitments tx)"
  by (auto simp: verify_commitment_assets_def Let_def has_commitment_iff split: if_splits)

context tx_state
begin

lemma verify_transfers_effect:
  assumes "verify_transfers L B p tds acc st = (Inr acc', st')"
  shows "keeps_accounts B loaded UNIV st st' \<and>
    (\<forall>k asset. receiver_at B st' k asset = map_option (add_all (credited tds k asset)) (receiver_at B st k asset)) \<and>
    (\<forall>k asset. credited tds k asset \<noteq> [] \<longrightarrow> receiver_at B st k asset \<noteq> None)"
  using assms
proof (induction tds arbitrary: acc st)
  case Nil
  then show ?case by (auto simp: act_iff credited_def keeps_accounts_def option.map_ident)
next
  case (Cons td rest)
  obtain tr d t vs b rng where eqs: "td = (tr, d)" "acc = (t, vs, b, rng)" by (cases td, cases acc) auto
  let ?k = "tr_destination tr" and ?a = "tr_asset tr"
  from Cons.prems obtain ct st1 acc1 where get: "vs_get_receiver_balance B ?k ?a st = (Inr ct, st1)"
    and rest: "verify_transfers L B p rest acc1
      (vs_put_receiver_balance B ?k ?a (ciphertext_add ct (dt_get_ciphertext Receiver d)) st1) = (Inr acc', st')"
    by (auto simp: eqs act_iff Let_def)
  let ?st1 = "vs_put_receiver_balance B ?k ?a (ciphertext_add ct (dt_get_ciphertext Receiver d)) st1"
  note put = put_receiver_view [OF get refl, of "ciphertext_add ct (dt_get_ciphertext Receiver d)"]
  note step = Cons.IH [OF rest] put receiver_at_got [OF get]
  have "credited rest k asset \<noteq> [] \<or> (k, asset) = (?k, ?a) \<Longrightarrow> receiver_at B st k asset \<noteq> None" for k asset
  proof (cases "(k, asset) = (?k, ?a)")
    case False
    assume "credited rest k asset \<noteq> [] \<or> (k, asset) = (?k, ?a)"
    with False have "receiver_at B ?st1 k asset \<noteq> None" using step(1) by blast
    then show ?thesis using False step(2) by (cases "k = ?k") auto
  qed (simp add: step(3))
  moreover have "credited (td # rest) k asset \<noteq> [] \<Longrightarrow> credited rest k asset \<noteq> [] \<or> (k, asset) = (?k, ?a)" for k asset
    by (auto simp: eqs credited_def split: if_splits)
  ultimately show ?case
    using step by (auto simp: eqs credited_def keeps_accounts_def)
qed

lemma verify_outputs_effect:
  assumes "verify_outputs L B h tx p ts ds acc st = (Inr acc', st')" "loaded st (st_source tx)"
  shows "keeps_accounts B loaded (- {st_source tx}) st st' \<and> nonce_at B st' (st_source tx) = nonce_at B st (st_source tx) \<and>
    sender_at B st' (st_source tx) = sender_at B st (st_source tx) \<and>
    multisig_at B st' (st_source tx) = multisig_after tx (multisig_at B st (st_source tx)) \<and>
    (\<forall>k asset. receiver_at B st' k asset = map_option (add_all (tx_credits tx ts k asset)) (receiver_at B st k asset)) \<and>
    (\<forall>k asset. tx_credits tx ts k asset \<noteq> [] \<longrightarrow> receiver_at B st k asset \<noteq> None)"
proof -
  obtain t sigma where acc: "acc = (t, sigma)" by (cases acc)
  have same: "same_view B loaded st st' \<Longrightarrow> tx_credits tx ts = (\<lambda>_ _. []) \<Longrightarrow> multisig_after tx = (\<lambda>x. x) \<Longrightarrow> ?thesis"
    using assms(2) by (auto simp: same_view_def keeps_accounts_def option.map_ident)
  show ?thesis
  proof (cases "st_data tx")
    case (Transfers transfers)
    with assms acc have "verify_transfers L B p (zip transfers ts) (t, [], sigma) st = (Inr acc', st')"
      by (simp add: verify_outputs_def)
    from verify_transfers_effect [OF this] assms(2) Transfers show ?thesis
      by (auto simp: tx_credits_def multisig_after_def keeps_accounts_def)
  next
    case (MultiSigSetup payload)
    with assms acc have "vs_set_multisig_state B (st_source tx) payload st = (Inr (), st')"
      by (auto simp: verify_outputs_def act_iff Let_def)
    from set_multisig_view [OF this assms(2)] MultiSigSetup show ?thesis
      by (auto simp: tx_credits_def multisig_after_def option.map_ident)
  next
    case (DeployContract payload)
    with assms acc show ?thesis
      by (intro same) (auto simp: verify_outputs_def tx_credits_def multisig_after_def act_iff fun_eq_iff Let_def
          split: option.splits if_splits dest!: set_module_view)
  qed (use assms acc in \<open>auto intro!: same simp: verify_outputs_def tx_credits_def multisig_after_def act_iff fun_eq_iff Let_def\<close>)
qed

end

text \<open>
  The effect of a verification that succeeds. \<open>outs\<close> are the amounts the transaction takes, one for
  each source commitment; the balances it is taken from are those the sender had when it was loaded.
\<close>

definition verified_effect ::
  "('st, 'x, 's::field, 'p::ab_group_add, 'v, 'm, 'r, 'env) verification_state \<Rightarrow> ('st \<Rightarrow> public_key \<Rightarrow> bool) \<Rightarrow>
   ('s, 'p) curve \<Rightarrow> ('s, 'v, 'm, 'r) signed_transaction \<Rightarrow> (hash \<times> 'p ciphertext) list \<Rightarrow> 'p decompressed_transfer_ct list \<Rightarrow>
   'st \<Rightarrow> 'st \<Rightarrow> bool" where
  "verified_effect B loaded C tx outs ts st st' \<longleftrightarrow>
     (let k = st_source tx; rf = st_reference tx in
      transfers_ct_of C tx = Some ts \<and> map fst outs = map sc_asset (st_source_commitments tx) \<and>
      (\<exists>ds. \<forall>(asset, out) \<in> set outs. get_sender_output_ct C tx asset ts ds = Some out) \<and>
      nonce_at B st k = Some (st_nonce tx) \<and> nonce_at B st' k = Some (st_nonce tx + 1) \<and>
      multisig_at B st' k = multisig_after tx (multisig_at B st k) \<and>
      (\<forall>asset \<in> fst ` set outs. sender_at B st k asset rf \<noteq> None) \<and>
      (\<forall>asset. sender_at B st' k asset rf = (case map_of outs asset of None \<Rightarrow> sender_at B st k asset rf
        | Some out \<Rightarrow> map_option (\<lambda>b. ciphertext_sub b out) (sender_at B st k asset rf))) \<and>
      (\<forall>j asset. receiver_at B st' j asset = map_option (add_all (tx_credits tx ts j asset)) (receiver_at B st j asset)) \<and>
      (\<forall>j asset. tx_credits tx ts j asset \<noteq> [] \<longrightarrow> receiver_at B st j asset \<noteq> None) \<and>
      keeps_accounts B loaded (- {k}) st st')"

lemma zip_decoded:
  "those (map f cs) = Some ps \<Longrightarrow> map (\<lambda>c. g (fst c)) (zip cs ps) = map g cs"
proof (induction cs arbitrary: ps)
  case (Cons c cs)
  then show ?case by (auto split: option.splits)
qed simp

context tx_state
begin

theorem pre_verify_effect:
  fixes L :: "('s, 'p, 't, 'r, 'e, 'v, 'm, 'env) verify_lib"
  assumes "pre_verify L B h tx sigma st = (Inr res, st')"
  obtains outs ts where "same_view B loaded st (entered B tx st)" "loaded (entered B tx st) (st_source tx)"
    "verified_effect B loaded (lib_curve L) tx outs ts (entered B tx st) st'"
proof -
  let ?k = "st_source tx"
  from assms obtain sn sd ts ds ps p sg acc sc acc2 where
    assets: "verify_commitment_assets tx"
    and nonce: "check_nonce B h tx st = (Inr () :: ('x, 'e) verification_error + unit, sn)"
    and data: "check_data L B tx sn = (Inr (ts, ds), sd)"
    and ps: "those (map (\<lambda>c. decode_point (lib_curve L) (sc_commitment c)) (st_source_commitments tx)) = Some ps"
    and sigs: "verify_signatures L B p tx sd = (Inr (), sg)"
    and srcs: "verify_source_commitments L B tx p ts ds (zip (st_source_commitments tx) ps)
      (tx_transcript (lib_merlin L) tx, sigma) sg = (Inr acc, sc)"
    and outp: "verify_outputs L B h tx p ts ds acc sc = (Inr acc2, st')"
    unfolding pre_verify_def decompress_source_commitments_def by (clarsimp simp: act_iff)
  from check_nonce_effect [OF nonce] obtain st1 where ent: "st1 = entered B tx st" and st1: "same_view B loaded st st1" "loaded st1 ?k"
    "nonce_at B st1 ?k = Some (st_nonce tx)" "keeps_accounts B loaded (- {?k}) st1 sn" "receiver_at B sn = receiver_at B st1"
    "nonce_at B sn ?k = Some (st_nonce tx + 1)" "multisig_at B sn ?k = multisig_at B st1 ?k"
    "sender_at B sn ?k = sender_at B st1 ?k" by blast
  have view: "same_view B loaded sn sg"
    using check_data_view [OF data] verify_signatures_view [OF sigs] by (rule same_view_trans)
  have lsn: "loaded sn ?k" and lsg: "loaded sg ?k"
    using st1(2,4) view by (auto simp: keeps_accounts_def same_view_def)
  have "distinct (map (\<lambda>c. sc_asset (fst c)) (zip (st_source_commitments tx) ps))"
    using verify_commitment_assets_distinct [OF assets] by (simp add: zip_decoded [OF ps])
  from verify_source_commitments_effect [OF srcs lsg this] obtain outs where
    outs: "map fst outs = map sc_asset (st_source_commitments tx)"
      "\<forall>(asset, out) \<in> set outs. get_sender_output_ct (lib_curve L) tx asset ts ds = Some out"
      "\<forall>asset \<in> fst ` set outs. sender_at B sg ?k asset (st_reference tx) \<noteq> None"
      "spends B ?k (st_reference tx) outs sg sc" "keeps_accounts B loaded (- {?k}) sg sc"
    by (auto simp: zip_decoded [OF ps])
  have lsc: "loaded sc ?k" using outs(5) lsg by (auto simp: keeps_accounts_def)
  note eff = verify_outputs_effect [OF outp lsc]
  have sg: "nonce_at B sg ?k = Some (st_nonce tx + 1)" "multisig_at B sg ?k = multisig_at B st1 ?k"
    "sender_at B sg ?k = sender_at B st1 ?k" "receiver_at B sg = receiver_at B st1"
    using view lsn st1 by (auto simp: same_view_def keeps_accounts_def)
  have "keeps_accounts B loaded (- {?k}) st1 st'"
    using st1(4) view outs(5) eff by (auto simp: same_view_def keeps_accounts_def)
  moreover have "nonce_at B st' ?k = Some (st_nonce tx + 1)" "multisig_at B st' ?k = multisig_after tx (multisig_at B st1 ?k)"
    "sender_at B st' ?k asset (st_reference tx) = (case map_of outs asset of None \<Rightarrow> sender_at B st1 ?k asset (st_reference tx)
        | Some out \<Rightarrow> map_option (\<lambda>b. ciphertext_sub b out) (sender_at B st1 ?k asset (st_reference tx)))"
    "receiver_at B st' j asset = map_option (add_all (tx_credits tx ts j asset)) (receiver_at B st1 j asset)"
    "tx_credits tx ts j asset \<noteq> [] \<longrightarrow> receiver_at B st1 j asset \<noteq> None" for asset j
    using eff outs(4) sg by (auto simp: spends_def split: option.split)
  ultimately have "verified_effect B loaded (lib_curve L) tx outs ts st1 st'"
    unfolding verified_effect_def Let_def
    using outs(1-3) sg st1(3) check_data_transfers [OF data] by auto
  then show thesis using that st1(1,2) ent by blast
qed

end

section \<open>Spent and received amounts\<close>

lemma commitment_add_all: "commitment (add_all cts b) = commitment b + sum_list (map commitment cts)"
  by (induction cts arbitrary: b) (simp_all add: ciphertext_add_def add.assoc)

lemma commitment_add_native:
  "commitment (add_native C asset coins b) =
     commitment b + (if asset = TERMINOS_ASSET then smul C (scalar_from coins) (gen_G C) else 0)"
  by (simp add: add_native_def ciphertext_add_scalar_def commitment_add_scalar_def)

lemma commitment_transfer_fold:
  "commitment (fold (\<lambda>(t, d) b. if asset = tr_asset t then ciphertext_add b (dt_get_ciphertext Sender d) else b) tds b) =
     commitment b + (\<Sum>(t, d) \<leftarrow> tds. if tr_asset t = asset then dt_commitment d else 0)"
  by (induction tds arbitrary: b) (auto simp: ciphertext_add_def dt_get_ciphertext_def add.assoc)

lemma sum_credited:
  assumes "finite K" "(\<lambda>(t, d). tr_destination t) ` set tds \<subseteq> K"
  shows "(\<Sum>j \<in> K. \<Sum>ct \<leftarrow> credited tds j asset. commitment ct) =
    (\<Sum>(t, d) \<leftarrow> tds. if tr_asset t = asset then dt_commitment d else (0 :: 'p::ab_group_add))"
  using assms(2)
proof (induction tds)
  case (Cons td tds)
  obtain t d where td: "td = (t, d)" by (cases td)
  let ?c = "if tr_asset t = asset then dt_commitment d else 0"
  have "(\<Sum>ct \<leftarrow> credited (td # tds) j asset. commitment ct) =
      (if j = tr_destination t then ?c else 0) + (\<Sum>ct \<leftarrow> credited tds j asset. commitment ct)" for j
    by (auto simp: td credited_def dt_get_ciphertext_def)
  then have "(\<Sum>j \<in> K. \<Sum>ct \<leftarrow> credited (td # tds) j asset. commitment ct) =
      (\<Sum>j \<in> K. if j = tr_destination t then ?c else 0) + (\<Sum>j \<in> K. \<Sum>ct \<leftarrow> credited tds j asset. commitment ct)"
    by (simp add: sum.distrib)
  also have "(\<Sum>j \<in> K. if j = tr_destination t then ?c else 0) = ?c"
    using assms(1) Cons.prems by (simp add: td sum.delta)
  finally show ?case using Cons by (simp add: td)
qed (simp add: credited_def)

text \<open>What the sender of transfers loses is the fee and what the receivers get, in commitments.\<close>

lemma transfers_output_balanced:
  assumes "st_data tx = Transfers transfers" "length ts = length transfers"
    "get_sender_output_ct C tx asset ts ds = Some out"
  shows "commitment out = (if asset = TERMINOS_ASSET then smul C (scalar_from (st_fee tx)) (gen_G C) else 0) +
    (\<Sum>j \<in> tr_destination ` set transfers. \<Sum>ct \<leftarrow> tx_credits tx ts j asset. commitment ct)"
proof -
  have dest: "(\<lambda>(t, d). tr_destination t) ` set (zip transfers ts) \<subseteq> tr_destination ` set transfers"
    by (auto dest: set_zip_leftD)
  from assms show ?thesis
    by (auto simp: get_sender_output_ct_def Let_def commitment_transfer_fold commitment_add_native ciphertext_zero_def
        tx_credits_def sum_credited [OF _ dest])
qed

lemma length_those: "those xs = Some ys \<Longrightarrow> length ys = length xs"
  by (induction xs arbitrary: ys) (auto split: option.splits)

text \<open>
  Outside deployments, an asset that has no source commitment is not touched: the sum taken from it
  is zero, so no balance changes without a proof about it.
\<close>

lemma fold_untouched:
  "\<forall>(t, d) \<in> set tds. tr_asset t \<noteq> asset \<Longrightarrow>
     fold (\<lambda>(t, d) b. if asset = tr_asset t then ciphertext_add b (f d) else b) tds b = b"
  by (induction tds) auto

lemma output_without_commitment:
  assumes "verify_commitment_assets tx" "\<forall>p. st_data tx \<noteq> DeployContract p"
    "asset \<notin> sc_asset ` set (st_source_commitments tx)"
  shows "get_sender_output_ct C tx asset ts ds = Some ciphertext_zero"
proof -
  have ne: "asset \<noteq> TERMINOS_ASSET" using verify_commitment_assets_native [OF assms(1)] assms(3) by auto
  show ?thesis
  proof (cases "st_data tx")
    case (Transfers transfers)
    then have "\<forall>(t, d) \<in> set (zip transfers ts). tr_asset t \<noteq> asset"
      using assms(1,3) by (auto simp: verify_commitment_assets_def Let_def has_commitment_iff list_all_iff
          split: if_splits dest!: set_zip_leftD)
    then show ?thesis by (simp add: Transfers get_sender_output_ct_def Let_def add_native_def ne fold_untouched)
  next
    case (InvokeContract p)
    then have "asset \<notin> fst ` set (ic_deposits p)"
      using assms(1,3) by (auto simp: verify_commitment_assets_def Let_def has_commitment_iff list_all_iff split: if_splits)
    then have "map_of (ic_deposits p) asset = None" by (simp add: map_of_eq_None_iff)
    then show ?thesis by (simp add: InvokeContract get_sender_output_ct_def Let_def add_native_def ne add_deposit_output_def)
  next
    case (Burn p)
    then have "asset \<noteq> bn_asset p"
      using assms(1,3) by (auto simp: verify_commitment_assets_def Let_def has_commitment_iff split: if_splits)
    then show ?thesis by (simp add: Burn get_sender_output_ct_def Let_def add_native_def ne)
  next
    case (EnergyOp p)
    then show ?thesis by (cases p) (simp_all add: get_sender_output_ct_def Let_def add_native_def ne)
  qed (use assms(2) ne in \<open>simp_all add: get_sender_output_ct_def Let_def add_native_def\<close>)
qed

section \<open>Signatures\<close>

text \<open>Every signature of a multisig transaction is by the participant it names.\<close>

lemma verify_multisig_signatures_iff:
  "verify_multisig_signatures C keys h sigs = Inr () \<longleftrightarrow> (\<forall>s \<in> set sigs. unat (si_id s) < length keys \<and>
     (\<exists>p. decode_point C (key_point (keys ! unat (si_id s))) = Some p \<and> verify C (si_signature s) (as_bytes h) p))"
  by (induction C keys h sigs rule: verify_multisig_signatures.induct) (auto simp: nth_opt_def split: option.splits)

definition authorised ::
  "('s::field, 'p::ab_group_add, 't, 'r, 'e, 'v, 'm, 'env) verify_lib \<Rightarrow> multisig_payload option \<Rightarrow>
   ('s, 'v, 'm, 'r) signed_transaction \<Rightarrow> bool" where
  "authorised L config tx \<longleftrightarrow> (let C = lib_curve L in
     (\<exists>p. decode_point C (key_point (st_source tx)) = Some p \<and>
       verify C (st_signature tx) (get_signing_bytes C (lib_range L) (lib_codec L) tx) p) \<and>
     (case config of None \<Rightarrow> st_multisig tx = None
      | Some c \<Rightarrow> \<exists>sigs. st_multisig tx = Some sigs \<and> length sigs = unat (ms_threshold c) \<and>
         (let h = lib_hash L (get_multisig_signing_bytes C (lib_range L) (lib_codec L) tx) in
          \<forall>s \<in> set sigs. unat (si_id s) < length (ms_participants c) \<and>
            (\<exists>p. decode_point C (key_point (ms_participants c ! unat (si_id s))) = Some p \<and>
              verify C (si_signature s) (as_bytes h) p))))"

lemma verify_signatures_authorised:
  assumes "verify_signatures L B p tx st = (Inr (), st')" "decode_point (lib_curve L) (key_point (st_source tx)) = Some p"
  shows "\<exists>config. multisig_at B st (st_source tx) = Some config \<and> authorised L config tx"
  using assms unfolding verify_signatures_def authorised_def
  by (fastforce simp: Let_def act_iff multisig_at_def act_peek_iff verify_multisig_signatures_iff
      split: if_splits option.splits)

context tx_state
begin

lemma pre_verify_authorised:
  fixes L :: "('s, 'p, 't, 'r, 'e, 'v, 'm, 'env) verify_lib"
  assumes "pre_verify L B h tx sigma st = (Inr res, st')"
  obtains config where "multisig_at B (entered B tx st) (st_source tx) = Some config" "authorised L config tx"
proof -
  let ?k = "st_source tx"
  from assms obtain sn sd ts ds p sg where nonce: "check_nonce B h tx st = (Inr () :: ('x, 'e) verification_error + unit, sn)"
    and data: "check_data L B tx sn = (Inr (ts, ds), sd)"
    and p: "decode_point (lib_curve L) (key_point ?k) = Some p"
    and sigs: "verify_signatures L B p tx sd = (Inr (), sg)"
    unfolding pre_verify_def decompress_source_commitments_def by (clarsimp simp: act_iff)
  from check_nonce_effect [OF nonce] obtain st1 where ent: "st1 = entered B tx st" and st1: "same_view B loaded st st1" "loaded st1 ?k"
    "keeps_accounts B loaded (- {?k}) st1 sn" "multisig_at B sn ?k = multisig_at B st1 ?k" by blast
  then have "loaded sn ?k" by (auto simp: keeps_accounts_def)
  with check_data_view [OF data] st1 have "multisig_at B sd ?k = multisig_at B st1 ?k"
    by (auto simp: same_view_def keeps_accounts_def)
  with verify_signatures_authorised [OF sigs p] ent that show thesis by metis
qed

text \<open>
  What the shorter verification of a transaction known to the cache does: the nonce and the sender's
  balances move as in the full one, but receivers and multisig settings stay.
\<close>

lemma dynamic_parts_effect:
  fixes L :: "('s, 'p, 't, 'r, 'e, 'v, 'm, 'env) verify_lib"
  assumes "verify_dynamic_parts L B h tx sigma st = (Inr res, st')" "distinct (map sc_asset (st_source_commitments tx))"
  shows "receiver_at B st' = receiver_at B st" "nonce_at B st' (st_source tx) = Some (st_nonce tx + 1)"
    "multisig_at B st' (st_source tx) = multisig_at B (entered B tx st) (st_source tx)"
proof -
  let ?k = "st_source tx"
  from assms obtain sn sd ts ds ps p acc where
    nonce: "check_nonce B h tx st = (Inr () :: ('x, 'e) verification_error + unit, sn)"
    and data: "check_data_dynamic L B tx sn = (Inr (ts, ds), sd)"
    and ps: "those (map (\<lambda>c. decode_point (lib_curve L) (sc_commitment c)) (st_source_commitments tx)) = Some ps"
    and srcs: "verify_source_commitments L B tx p ts ds (zip (st_source_commitments tx) ps)
      (tx_transcript (lib_merlin L) tx, sigma) sd = (Inr acc, st')"
    unfolding verify_dynamic_parts_def decompress_source_commitments_def by (clarsimp simp: act_iff)
  from check_nonce_effect [OF nonce] obtain st1 where ent: "st1 = entered B tx st" and st1: "same_view B loaded st st1" "loaded st1 ?k"
    "keeps_accounts B loaded (- {?k}) st1 sn" "receiver_at B sn = receiver_at B st1"
    "nonce_at B sn ?k = Some (st_nonce tx + 1)" "multisig_at B sn ?k = multisig_at B st1 ?k" by blast
  note view = check_data_dynamic_view [OF data]
  have l: "loaded sn ?k" "loaded sd ?k" using st1 view by (auto simp: keeps_accounts_def same_view_def)
  have "distinct (map (\<lambda>c. sc_asset (fst c)) (zip (st_source_commitments tx) ps))"
    using assms(2) by (simp add: zip_decoded [OF ps])
  from verify_source_commitments_effect [OF srcs l(2) this]
  show "receiver_at B st' = receiver_at B st" "nonce_at B st' ?k = Some (st_nonce tx + 1)"
    "multisig_at B st' ?k = multisig_at B (entered B tx st) ?k"
    using l view st1 ent by (auto simp: spends_def same_view_def keeps_accounts_def)
qed

end

section \<open>A concrete instance\<close>

text \<open>
  Alice sends Bob one coin over the field of three elements. The proofs are those the provers would
  give; the range proofs and the virtual machine accept everything.
\<close>

definition sample_lib :: "(gf3, gf3, gf3 \<times> gf3, u8 list, unit, u8, u8, unit) verify_lib" where
  "sample_lib = \<lparr>lib_curve = gf3_curve, lib_merlin = fixed_merlin, lib_range = bytes_range, lib_codec = byte_vm,
     lib_hash = (\<lambda>_. hash_zero), lib_hash_to_point = (\<lambda>_. F1), lib_verify_multiple = (\<lambda>_ _ _ _. Inr ()),
     lib_verify_batch = (\<lambda>_ _. Inr ()), lib_is_entry_chunk = (\<lambda>_ _. True), lib_chunk_id_of_hook = (\<lambda>_ _. Some 0),
     lib_verify_constant = (\<lambda>_ _ _. Inr ()), lib_verify_module = (\<lambda>_ _. Inr ())\<rparr>"

definition alice :: public_key where "alice = PublicKey (gf3_encode F1)"

definition bob :: public_key where "bob = PublicKey (gf3_encode F2)"

definition demo_transfer :: "gf3 transfer_payload" where
  "demo_transfer = \<lparr>tr_asset = TERMINOS_ASSET, tr_destination = bob, tr_extra_data = None,
     tr_commitment = gf3_encode F2, tr_sender_handle = gf3_encode F1, tr_receiver_handle = gf3_encode F2,
     tr_ct_validity_proof = \<lparr>cv_Y_0 = gf3_encode F2, cv_Y_1 = gf3_encode F2, cv_Y_2 = Some (gf3_encode F1),
       cv_z_r = F2, cv_z_x = F2\<rparr>\<rparr>"

definition demo_tx :: "(gf3, u8, u8) transaction_type \<Rightarrow> (gf3, u8, u8, u8 list) signed_transaction" where
  "demo_tx data = \<lparr>st_version = T0, st_source = alice, st_data = data, st_fee = 0, st_fee_type = FeeEnergy, st_nonce = 3,
     st_source_commitments = [\<lparr>sc_commitment = gf3_encode F2, sc_proof = sample_eq_proof F1, sc_asset = TERMINOS_ASSET\<rparr>],
     st_range_proof = [], st_reference = \<lparr>rf_hash = hash_zero, rf_topoheight = 9\<rparr>, st_multisig = None,
     st_signature = \<lparr>sig_s = F0, sig_e = F1\<rparr>\<rparr>"

text \<open>The lemmas that evaluate the parts of the sample.\<close>

lemma sample_lib_simps [simp]:
  "lib_curve sample_lib = gf3_curve" "lib_merlin sample_lib = fixed_merlin" "lib_range sample_lib = bytes_range"
  "lib_codec sample_lib = byte_vm" "lib_verify_multiple sample_lib r t cs n = Inr ()" "lib_verify_batch sample_lib ps n = Inr ()"
  "lib_verify_constant sample_lib m e v = Inr ()" "lib_verify_module sample_lib m e = Inr ()"
  "lib_is_entry_chunk sample_lib m n" "lib_chunk_id_of_hook sample_lib m k = Some 0"
  by (simp_all add: sample_lib_def)

lemma demo_tx_simps [simp]:
  "st_version (demo_tx d) = T0" "st_source (demo_tx d) = alice" "st_data (demo_tx d) = d" "st_fee (demo_tx d) = 0"
  "st_fee_type (demo_tx d) = FeeEnergy" "st_nonce (demo_tx d) = 3" "st_multisig (demo_tx d) = None"
  "st_source_commitments (demo_tx d) =
     [\<lparr>sc_commitment = gf3_encode F2, sc_proof = sample_eq_proof F1, sc_asset = TERMINOS_ASSET\<rparr>]"
  "st_reference (demo_tx d) = \<lparr>rf_hash = hash_zero, rf_topoheight = 9\<rparr>" "st_range_proof (demo_tx d) = []"
  by (simp_all add: demo_tx_def)

lemma demo_transfer_simps [simp]:
  "tr_asset demo_transfer = TERMINOS_ASSET" "tr_destination demo_transfer = bob" "tr_extra_data demo_transfer = None"
  "tr_commitment demo_transfer = gf3_encode F2" "tr_sender_handle demo_transfer = gf3_encode F1"
  "tr_receiver_handle demo_transfer = gf3_encode F2"
  by (simp_all add: demo_transfer_def)

lemma gf3_point_simps [simp]:
  "decode_point gf3_curve (gf3_encode a) = Some a" "encode_point gf3_curve a = gf3_encode a"
  "key_point alice = gf3_encode F1" "key_point bob = gf3_encode F2" "alice \<noteq> bob" "bob \<noteq> alice"
  by (simp_all add: gf3_curve_def alice_def bob_def) (simp_all add: gf3_encode_def gf3_byte_def)

lemma sample_signature: "verify gf3_curve (st_signature (demo_tx d)) bytes F1"
  by (simp add: verify_def demo_tx_def hash_and_point_to_scalar_def)
    (simp add: gf3_curve_def gf3_encode_def gf3_byte_def byte_gf3_def)

lemma sample_transcript: "prepare_transcript fixed_merlin v k f ft n = (F1, F1)"
  by (simp add: prepare_transcript_def append_public_key_def append_fixed) (simp add: fixed_merlin_def)

lemma sample_commitment_transcript: "commitment_transcript fixed_merlin c ct t = t"
  by (simp add: commitment_transcript_def append_ciphertext_def append_commitment_def append_hash_def
      new_commitment_eq_proof_domain_separator_def append_fixed)

lemma gf3_smul_zero [simp]: "smul gf3_curve a 0 = 0"
  by (cases a) (simp_all add: gf3_curve_def gf3_defs)

lemma gf3_batch_default [simp]: "batch_ok batch_collector_default" "mega_check gf3_curve batch_collector_default = 0"
  by (simp_all add: batch_ok_def batch_collector_default_def mega_check_def multiscalar_mul_def)
    (simp add: gf3_curve_def gf3_defs)

lemma sample_eq_pre_verify:
  assumes "batch_ok b"
  shows "\<exists>b'. eq_pre_verify gf3_curve fixed_merlin (sample_eq_proof F1) F1 \<lparr>commitment = F2, handle = F1\<rparr> F2 bf ((F1, F1), b) =
      (Inr ((F1, F1), b') :: 'e proof_verification_error + _) \<and> batch_ok b' \<and> mega_check gf3_curve b' = mega_check gf3_curve b"
proof -
  have res: "eq_residue gf3_curve (sample_eq_proof F1) F1 \<lparr>commitment = F2, handle = F1\<rparr> F2 F1 F1 (F1, F1, F1) = 0"
    by (simp add: eq_residue_defs gf3_curve_def sample_eq_proof_def gf3_defs)
  show ?thesis
    using eq_run_batch [OF gf3_curve_laws(1) sample_eq_draws(1) [of F1 F1 F1] sample_eq_draws(2) [of F1], where P = F1
      and dest = F2 and 'e = 'e and ct = "\<lparr>commitment = F2, handle = F1\<rparr>" and b = b] res assms by simp
qed

lemma sample_cv_run:
  "cv_challenges gf3_curve fixed_merlin (tr_ct_validity_proof demo_transfer) True (F1, F1) = Some (F1, F1, (F1, F1))"
  "cv_decompress gf3_curve (tr_ct_validity_proof demo_transfer) True = (Inr (F2, F2, Some F1) :: 'e proof_verification_error + _)"
  by (simp_all add: cv_challenges_def cv_append_points_eq cv_decompress_def result_defs demo_transfer_def Let_def
      ciphertext_validity_proof_domain_separator_def append_point_def append_fixed challenge_fixed labels_differ
      cv_append_responses_def append_scalar_def)
    (simp_all add: gf3_encode_def gf3_byte_def zero_gf3_def)

lemma sample_cv_pre_verify:
  assumes "batch_ok b"
  shows "\<exists>b'. cv_pre_verify gf3_curve fixed_merlin (tr_ct_validity_proof demo_transfer) F2 F2 F1 F2 F1 True bf ((F1, F1), b) =
      (Inr ((F1, F1), b') :: 'e proof_verification_error + _) \<and> batch_ok b' \<and> mega_check gf3_curve b' = mega_check gf3_curve b"
proof -
  have res: "cv_residue_receiver gf3_curve (tr_ct_validity_proof demo_transfer) F2 F2 F2 F1 F1 F2 F2 = 0"
      "cv_residue_sender gf3_curve (tr_ct_validity_proof demo_transfer) F1 F1 F1 F1 (Some F1) = 0"
    by (simp_all add: cv_residue_receiver_def cv_residue_sender_def gf3_curve_def demo_transfer_def gf3_defs)
  show ?thesis
    using cv_run_batch [OF gf3_curve_laws(1) sample_cv_run assms, where P_source = F1 and D_source = F1 and commit = F2
      and P_dest = F2 and D_dest = F2 and 'e = 'e] res by simp
qed

end
