(* ===== verification/ChainStore.thy ===== *)
theory ChainStore
  imports TxVerify Accounts Rewards
begin

text \<open>
  The storage as the state of a verification sees it, and the two functions of
  \<open>daemon/src/core/state/mod.rs\<close> that every such state shares. The trait \<open>Storage\<close> is a record of the
  operations the states call, on a storage of type \<open>'S\<close>; every one of them may fail. A map keyed by
  accounts, assets or contracts is an association list with distinct keys. An address in an error is
  the public key it encodes; the context a \<open>NotFoundOnDisk\<close> carries for its message is left out.
\<close>

datatype blockchain_error =
    Chain bc_error
  | InvalidTxVersion
  | InvalidTxFee u64 u64
  | InvalidReferenceTopoheight u64 u64
  | NoPreviousBalanceFound
  | BalanceDecompression
  | UnknownAccount public_key
  | NoTxSender public_key
  | ContractAlreadyExists
  | UnknownContract hash
  | UnknownAsset hash
  | AssetNotFound hash
  | NoBalanceChanges public_key topoheight hash
  | NoBalance public_key
  | NoNonce public_key
  | NoContractBalance
  | ErrorOnReader reader_error
  | DatabaseError string
  | NotFoundOnDisk
  | CorruptedData
  | CommitPointAlreadyStarted
  | CommitPointNotStarted
  | Unknown

type_synonym 'a store_result = "blockchain_error + 'a"

text \<open>What a contract call leaves behind (\<open>common/src/contract\<close>): \<open>'v\<close> is \<open>ValueCell\<close>.\<close>

record asset_changes =
  ah_data :: "versioned_state \<times> asset_data"
  ah_supply :: "(versioned_state \<times> u64) option"

record 'v contract_cache =
  cc_storage :: "('v \<times> versioned_state \<times> 'v option) list"
  cc_balances :: "(hash \<times> (versioned_state \<times> u64) option) list"
  cc_memory :: "('v \<times> 'v) list"
  cc_events :: "(u64 \<times> 'v list) list"

definition contract_cache_new :: "'v contract_cache" where
  "contract_cache_new = \<lparr>cc_storage = [], cc_balances = [], cc_memory = [], cc_events = []\<rparr>"

record event_tracker =
  et_transfers :: "(public_key \<times> (hash \<times> u64) list) list"
  et_assets_created :: "hash list"

definition event_tracker_default :: event_tracker where
  "event_tracker_default = \<lparr>et_transfers = [], et_assets_created = []\<rparr>"

datatype contract_output =
    RefundGas u64
  | OutTransfer u64 hash public_key
  | Mint hash u64
  | OutBurn hash u64
  | NewAsset hash
  | ExitCode "u64 option"
  | RefundDeposits

record ('S, 'p, 'v, 'm) storage_ops =
  so_is_mainnet :: "'S \<Rightarrow> bool"
  so_get_new_versioned_balance :: "'S \<Rightarrow> public_key \<Rightarrow> hash \<Rightarrow> topoheight \<Rightarrow> ('p versioned_balance \<times> bool) store_result"
  so_get_balance_at_maximum_topoheight ::
    "'S \<Rightarrow> public_key \<Rightarrow> hash \<Rightarrow> topoheight \<Rightarrow> (topoheight \<times> 'p versioned_balance) option store_result"
  so_get_output_balance_in_range ::
    "'S \<Rightarrow> public_key \<Rightarrow> hash \<Rightarrow> topoheight \<Rightarrow> topoheight \<Rightarrow> (topoheight \<times> 'p versioned_balance) option store_result"
  so_set_last_balance_to :: "public_key \<Rightarrow> hash \<Rightarrow> topoheight \<Rightarrow> 'p versioned_balance \<Rightarrow> ('S, blockchain_error, unit) act"
  so_get_nonce_at_maximum_topoheight ::
    "'S \<Rightarrow> public_key \<Rightarrow> topoheight \<Rightarrow> (topoheight \<times> versioned_nonce) option store_result"
  so_has_nonce :: "'S \<Rightarrow> public_key \<Rightarrow> bool store_result"
  so_set_last_nonce_to :: "public_key \<Rightarrow> topoheight \<Rightarrow> versioned_nonce \<Rightarrow> ('S, blockchain_error, unit) act"
  so_get_multisig_at_maximum_topoheight_for ::
    "'S \<Rightarrow> public_key \<Rightarrow> topoheight \<Rightarrow> (topoheight \<times> multisig_payload option versioned) option store_result"
  so_set_last_multisig_to ::
    "public_key \<Rightarrow> topoheight \<Rightarrow> multisig_payload option versioned \<Rightarrow> ('S, blockchain_error, unit) act"
  so_is_account_registered_for_topoheight :: "'S \<Rightarrow> public_key \<Rightarrow> topoheight \<Rightarrow> bool bc"
  so_set_account_registration_topoheight :: "public_key \<Rightarrow> topoheight \<Rightarrow> ('S, blockchain_error, unit) act"
  so_get_pruned_topoheight :: "'S \<Rightarrow> topoheight option store_result"
  so_is_block_topological_ordered :: "'S \<Rightarrow> hash \<Rightarrow> bool store_result"
  so_get_topo_height_for_hash :: "'S \<Rightarrow> hash \<Rightarrow> topoheight store_result"
  so_get_contract_at_maximum_topoheight_for ::
    "'S \<Rightarrow> hash \<Rightarrow> topoheight \<Rightarrow> (topoheight \<times> 'm option versioned) option store_result"
  so_set_last_contract_to :: "hash \<Rightarrow> topoheight \<Rightarrow> 'm option versioned \<Rightarrow> ('S, blockchain_error, unit) act"
  so_set_last_contract_data_to ::
    "hash \<Rightarrow> 'v \<Rightarrow> topoheight \<Rightarrow> 'v option versioned \<Rightarrow> ('S, blockchain_error, unit) act"
  so_get_contract_balance_at_maximum_topoheight ::
    "'S \<Rightarrow> hash \<Rightarrow> hash \<Rightarrow> topoheight \<Rightarrow> (topoheight \<times> u64 versioned) option store_result"
  so_set_last_contract_balance_to :: "hash \<Rightarrow> hash \<Rightarrow> topoheight \<Rightarrow> u64 versioned \<Rightarrow> ('S, blockchain_error, unit) act"
  so_set_contract_outputs_for_tx :: "hash \<Rightarrow> contract_output list \<Rightarrow> ('S, blockchain_error, unit) act"
  so_add_asset :: "hash \<Rightarrow> topoheight \<Rightarrow> asset_data versioned \<Rightarrow> ('S, blockchain_error, unit) act"
  so_set_last_supply_for_asset :: "hash \<Rightarrow> topoheight \<Rightarrow> u64 versioned \<Rightarrow> ('S, blockchain_error, unit) act"
  so_get_energy_resource :: "'S \<Rightarrow> public_key \<Rightarrow> energy_resource option store_result"
  so_set_energy_resource :: "public_key \<Rightarrow> topoheight \<Rightarrow> energy_resource \<Rightarrow> ('S, blockchain_error, unit) act"

section \<open>Before a transaction is verified\<close>

definition tx_destinations :: "('s, 'v, 'm, 'r) signed_transaction \<Rightarrow> public_key list option" where
  "tx_destinations tx = (case st_data tx of Transfers transfers \<Rightarrow> Some (map tr_destination transfers) | _ \<Rightarrow> None)"

definition state_pre_verify_tx ::
  "('S, 'p, 'v, 'm) storage_ops \<Rightarrow> ('s, 'p, 't, 'r, 'e) range_lib \<Rightarrow> ('v, 'm) vm_codec \<Rightarrow> 'S \<Rightarrow>
   ('s, 'v, 'm, 'r) signed_transaction \<Rightarrow> topoheight \<Rightarrow> topoheight \<Rightarrow> block_version \<Rightarrow> unit store_result" where
  "state_pre_verify_tx D R V S tx stable_topo topoheight block_version =
     (if \<not> is_tx_version_allowed block_version (st_version tx) then Inl InvalidTxVersion
      else and_then (map_err Chain (estimate_required_tx_fees (\<lambda>k. so_is_account_registered_for_topoheight D S k topoheight)
          (tx_destinations tx) (is_energy (st_fee_type tx)) (size_signed_transaction R V tx) (get_multisig_count tx))) (\<lambda>required_fees.
        if required_fees > st_fee tx then Inl (InvalidTxFee required_fees (st_fee tx))
        else if topoheight < rf_topoheight (st_reference tx)
        then Inl (InvalidReferenceTopoheight (rf_topoheight (st_reference tx)) topoheight)
        else Inr ()))"

section \<open>The balance a transaction was built on\<close>

definition reference_block_topo ::
  "('S, 'p, 'v, 'm) storage_ops \<Rightarrow> 'S \<Rightarrow> topoheight \<Rightarrow> reference \<Rightarrow> topoheight store_result" where
  "reference_block_topo D S current reference =
     and_then (so_get_pruned_topoheight D S) (\<lambda>pruned_topoheight.
     and_then (so_is_block_topological_ordered D S (rf_hash reference)) (\<lambda>ordered.
     if ordered then and_then (so_get_topo_height_for_hash D S (rf_hash reference)) (\<lambda>topo.
       if topo = rf_topoheight reference then Inr topo
       else if rf_topoheight reference < current then Inr (rf_topoheight reference) else Inr current)
     else if (case pruned_topoheight of Some v \<Rightarrow> v > rf_topoheight reference | None \<Rightarrow> False)
     then Inr (rf_topoheight reference)
     else if rf_topoheight reference < current then Inr (rf_topoheight reference)
     else Inr current))"

definition search_versioned_balance_for_reference ::
  "('S, 'p, 'v, 'm) storage_ops \<Rightarrow> 'S \<Rightarrow> public_key \<Rightarrow> hash \<Rightarrow> topoheight \<Rightarrow> reference \<Rightarrow> bool \<Rightarrow>
   (bool \<times> bool \<times> 'p versioned_balance) store_result" where
  "search_versioned_balance_for_reference D S key asset current reference no_new =
     and_then (reference_block_topo D S current reference) (\<lambda>reference_block_topo.
     let ref_topo = rf_topoheight reference; min_topo = min (min ref_topo reference_block_topo) current in
     and_then (so_get_output_balance_in_range D S key asset min_topo current) (\<lambda>last_output.
     and_then (case last_output of
         Some (topo, v) \<Rightarrow>
           if ref_topo < topo \<or> reference_block_topo < topo then Inr (True, Some v)
           else if topo < ref_topo \<or> topo < reference_block_topo
           then and_then (so_get_balance_at_maximum_topoheight D S key asset (max topo reference_block_topo)) (\<lambda>r.
             Inr (False, map_option snd r))
           else Inr (False, Some v)
       | None \<Rightarrow> and_then (so_get_balance_at_maximum_topoheight D S key asset reference_block_topo) (\<lambda>r.
           Inr (False, map_option snd r))) (\<lambda>(use_output_balance, version).
     case version of
       Some version \<Rightarrow> Inr (use_output_balance, False, version)
     | None \<Rightarrow> and_then (so_get_new_versioned_balance D S key asset current) (\<lambda>(version, new).
         if new \<and> no_new then Inl NoPreviousBalanceFound else Inr (use_output_balance, True, version)))))"

section \<open>A concrete storage\<close>

text \<open>Alice has a balance and the nonce 3, Bob has nothing; no contract and no multisig account is stored.\<close>

definition alice_balance :: "gf3 versioned_balance" where
  "alice_balance = versioned_balance_new (Decompressed \<lparr>commitment = F1, handle = F2\<rparr>) None"

definition sample_store :: "(unit, gf3, u8, u8) storage_ops" where
  "sample_store = \<lparr>
     so_is_mainnet = (\<lambda>_. False),
     so_get_new_versioned_balance = (\<lambda>_ k _ _. Inr (if k = alice then (alice_balance, False) else (versioned_balance_zero, True))),
     so_get_balance_at_maximum_topoheight = (\<lambda>_ k _ _. Inr (if k = alice then Some (9, alice_balance) else None)),
     so_get_output_balance_in_range = (\<lambda>_ _ _ _ _. Inr None),
     so_set_last_balance_to = (\<lambda>_ _ _ _. ret ()),
     so_get_nonce_at_maximum_topoheight =
       (\<lambda>_ k _. Inr (if k = alice then Some (9, \<lparr>vn_nonce = 3, vn_previous_topoheight = None\<rparr>) else None)),
     so_has_nonce = (\<lambda>_ k. Inr (k = alice)),
     so_set_last_nonce_to = (\<lambda>_ _ _. ret ()),
     so_get_multisig_at_maximum_topoheight_for = (\<lambda>_ _ _. Inr None),
     so_set_last_multisig_to = (\<lambda>_ _ _. ret ()),
     so_is_account_registered_for_topoheight = (\<lambda>_ _ _. Inr True),
     so_set_account_registration_topoheight = (\<lambda>_ _. ret ()),
     so_get_pruned_topoheight = (\<lambda>_. Inr None),
     so_is_block_topological_ordered = (\<lambda>_ _. Inr True),
     so_get_topo_height_for_hash = (\<lambda>_ _. Inr 9),
     so_get_contract_at_maximum_topoheight_for = (\<lambda>_ _ _. Inr None),
     so_set_last_contract_to = (\<lambda>_ _ _. ret ()),
     so_set_last_contract_data_to = (\<lambda>_ _ _ _. ret ()),
     so_get_contract_balance_at_maximum_topoheight = (\<lambda>_ _ _ _. Inr None),
     so_set_last_contract_balance_to = (\<lambda>_ _ _ _. ret ()),
     so_set_contract_outputs_for_tx = (\<lambda>_ _. ret ()),
     so_add_asset = (\<lambda>_ _ _. ret ()),
     so_set_last_supply_for_asset = (\<lambda>_ _ _. ret ()),
     so_get_energy_resource = (\<lambda>_ _. Inr None),
     so_set_energy_resource = (\<lambda>_ _ _. ret ())\<rparr>"

lemma energy_fees_required:
  "estimate_required_tx_fees (\<lambda>_. Inr True) destinations True tx_size n = Inr 0"
proof -
  have "\<exists>ps. efold (\<lambda>d processed. if d \<notin> set processed then ebind (Inr True) (\<lambda>r. Inr (if \<not> r then snd (index_insert d processed)
      else processed)) else Inr processed) xs a = Inr ps" for xs and a :: "public_key list"
    by (induction xs arbitrary: a) (auto simp: ebind_def)
  then show ?thesis
    by (auto simp: estimate_required_tx_fees_def ebind_def split: option.split sum.split) (metis Inl_Inr_False)
qed

lemma sample_pre_verify_tx:
  "state_pre_verify_tx sample_store bytes_range byte_vm () (demo_tx d) s 10 V3 = Inr ()"
  by (simp add: state_pre_verify_tx_def and_then_def map_err_def is_tx_version_allowed_def is_energy_def sample_store_def
      energy_fees_required)

lemma sample_search:
  "search_versioned_balance_for_reference sample_store () alice asset 10 \<lparr>rf_hash = hash_zero, rf_topoheight = 9\<rparr> no_new =
     Inr (False, False, alice_balance)"
  by (simp add: search_versioned_balance_for_reference_def reference_block_topo_def sample_store_def and_then_def Let_def)

end
