(* ===== verification/SledStore.thy ===== *)
theory SledStore
  imports ChainStore Block "HOL-Library.List_Lexorder" "HOL-Library.Char_ord" "HOL-Library.Sublist"
begin

text \<open>
  The storage on sled (\<open>daemon/src/core/storage/sled/mod.rs\<close>, \<open>snapshot.rs\<close>,
  \<open>providers/commit_point.rs\<close>): trees of bytes on disk, the snapshot that holds the writes of a running
  commit point in memory, and the generic accesses that look at the snapshot first. The database
  library is a parameter with the laws of an ordered map, \<open>sled_db\<close>. A \<open>BTreeMap\<close> is an association
  list sorted by its keys.
\<close>

section \<open>The database library\<close>

type_synonym bytes = "u8 list"

record 'db sled_lib =
  sl_get :: "'db \<Rightarrow> string \<Rightarrow> bytes \<Rightarrow> bytes option store_result"
  sl_contains_key :: "'db \<Rightarrow> string \<Rightarrow> bytes \<Rightarrow> bool store_result"
  sl_insert :: "string \<Rightarrow> bytes \<Rightarrow> bytes \<Rightarrow> ('db, blockchain_error, bytes option) act"
  sl_remove :: "string \<Rightarrow> bytes \<Rightarrow> ('db, blockchain_error, bytes option) act"
  sl_drop_tree :: "string \<Rightarrow> ('db, blockchain_error, bool) act"
  sl_iter :: "'db \<Rightarrow> string \<Rightarrow> (bytes \<times> bytes) store_result list"
  sl_scan_prefix :: "'db \<Rightarrow> string \<Rightarrow> bytes \<Rightarrow> (bytes \<times> bytes) store_result list"

text \<open>
  What its documentation promises of a database whose disk does not fail: a map per tree, iterated in
  the order of the keys. \<open>disk\<close> is that map.
\<close>

locale sled_db =
  fixes L :: "'db sled_lib" and disk :: "'db \<Rightarrow> string \<Rightarrow> bytes \<Rightarrow> bytes option"
  assumes get [simp]: "sl_get L db t k = Inr (disk db t k)"
    and contains [simp]: "sl_contains_key L db t k = Inr (disk db t k \<noteq> None)"
    and insert: "\<exists>db'. sl_insert L t k v db = (Inr (disk db t k), db') \<and> disk db' = (disk db)(t := (disk db t)(k \<mapsto> v))"
    and remove: "\<exists>db'. sl_remove L t k db = (Inr (disk db t k), db') \<and> disk db' = (disk db)(t := (disk db t)(k := None))"
    and iter: "\<exists>kvs. sl_iter L db t = map Inr kvs \<and> sorted_wrt (<) (map fst kvs) \<and> map_of kvs = disk db t"
    and scan: "\<exists>kvs. sl_scan_prefix L db t p = map Inr kvs \<and> sorted_wrt (<) (map fst kvs) \<and>
      map_of kvs = (\<lambda>k. if prefix p k then disk db t k else None)"

section \<open>Ordered maps\<close>

definition btree_insert :: "'k::linorder \<Rightarrow> 'v \<Rightarrow> ('k \<times> 'v) list \<Rightarrow> ('k \<times> 'v) list" where
  "btree_insert k v m = insort_key fst (k, v) (map_remove k m)"

section \<open>Caches\<close>

record counter_cache =
  cn_assets_count :: u64
  cn_accounts_count :: u64
  cn_transactions_count :: u64
  cn_blocks_count :: u64
  cn_blocks_execution_count :: u64
  cn_contracts_count :: u64
  cn_tips_cache :: "hash list"
  cn_pruned_topoheight :: "topoheight option"

definition counter_cache_default :: counter_cache where
  "counter_cache_default = \<lparr>cn_assets_count = 0, cn_accounts_count = 0, cn_transactions_count = 0, cn_blocks_count = 0,
     cn_blocks_execution_count = 0, cn_contracts_count = 0, cn_tips_cache = [], cn_pruned_topoheight = None\<rparr>"

record 'c storage_cache =
  sc_counter :: counter_cache
  sc_caches :: "'c option"

text \<open>A clone has the counters and no cache.\<close>

definition storage_cache_clone :: "'c storage_cache \<Rightarrow> 'c storage_cache" where
  "storage_cache_clone c = \<lparr>sc_counter = sc_counter c, sc_caches = None\<rparr>"

text \<open>
  The six LRU caches are made and dropped together: \<open>'c\<close> is all of them, and each is given by the
  operations of the \<open>lru\<close> crate on it.
\<close>

record ('c, 'k, 'v) lru =
  lu_get :: "'k \<Rightarrow> 'c \<Rightarrow> 'v option \<times> 'c"
  lu_put :: "'k \<Rightarrow> 'v \<Rightarrow> 'c \<Rightarrow> 'c"
  lu_pop :: "'k \<Rightarrow> 'c \<Rightarrow> 'v option \<times> 'c"
  lu_contains :: "'k \<Rightarrow> 'c \<Rightarrow> bool"
  lu_clear :: "'c \<Rightarrow> 'c"

record ('c, 'tx) lru_caches =
  lc_transactions :: "('c, hash, 'tx) lru"
  lc_blocks :: "('c, hash, block_header) lru"
  lc_topo_by_hash :: "('c, hash, topoheight) lru"
  lc_hash_at_topo :: "('c, topoheight, hash) lru"
  lc_cumulative_difficulty :: "('c, hash, cumulative_difficulty) lru"
  lc_assets :: "('c, hash, topoheight) lru"

section \<open>Snapshot\<close>

type_synonym batch = "(bytes \<times> bytes option) list"

definition batch_insert :: "bytes \<Rightarrow> bytes \<Rightarrow> batch \<Rightarrow> bytes option \<times> batch" where
  "batch_insert k v ws = (Option.bind (map_of ws k) id, btree_insert k (Some v) ws)"

definition batch_remove :: "bytes \<Rightarrow> batch \<Rightarrow> (bytes option \<times> bool) \<times> batch" where
  "batch_remove k ws = (case map_of ws k of
     Some value \<Rightarrow> ((value, False), btree_insert k None ws)
   | None \<Rightarrow> ((None, True), btree_insert k None ws))"

record 'c snapshot =
  sn_trees :: "(string \<times> batch option) list"
  sn_cache :: "'c storage_cache"

definition snapshot_new :: "'c storage_cache \<Rightarrow> 'c snapshot" where
  "snapshot_new c = \<lparr>sn_trees = [], sn_cache = c\<rparr>"

definition sn_contains_key :: "'c snapshot \<Rightarrow> string \<Rightarrow> bytes \<Rightarrow> bool" where
  "sn_contains_key sn t k = (case map_of (sn_trees sn) t of Some (Some ws) \<Rightarrow> map_of ws k \<noteq> None | _ \<Rightarrow> False)"

definition sn_contains_key_with_value :: "'c snapshot \<Rightarrow> string \<Rightarrow> bytes \<Rightarrow> bool option" where
  "sn_contains_key_with_value sn t k = (case map_of (sn_trees sn) t of
     Some (Some ws) \<Rightarrow> map_option (\<lambda>v. v \<noteq> None) (map_of ws k) | _ \<Rightarrow> None)"

definition parse :: "'a rd \<Rightarrow> bytes option \<Rightarrow> 'a option store_result" where
  "parse rd data = (case data of None \<Rightarrow> Inr None
     | Some bs \<Rightarrow> and_then (map_err ErrorOnReader (from_bytes rd bs)) (\<lambda>v. Inr (Some v)))"

definition sn_load_optional :: "'a rd \<Rightarrow> 'c snapshot \<Rightarrow> string \<Rightarrow> bytes \<Rightarrow> 'a option store_result" where
  "sn_load_optional rd sn t k = parse rd (case map_of (sn_trees sn) t of
     Some (Some ws) \<Rightarrow> Option.bind (map_of ws k) id | _ \<Rightarrow> None)"

definition sn_put_batch :: "string \<Rightarrow> batch \<Rightarrow> 'c snapshot \<Rightarrow> 'c snapshot" where
  "sn_put_batch t ws sn = sn\<lparr>sn_trees := btree_insert t (Some ws) (sn_trees sn)\<rparr>"

definition sn_insert :: "string \<Rightarrow> bytes \<Rightarrow> bytes \<Rightarrow> 'c snapshot \<Rightarrow> bytes option \<times> 'c snapshot" where
  "sn_insert t k v sn =
     (let ws = (case map_of (sn_trees sn) t of Some (Some ws) \<Rightarrow> ws | _ \<Rightarrow> []);
          (previous, ws) = batch_insert k v ws
      in (previous, sn_put_batch t ws sn))"

definition sn_remove :: "string \<Rightarrow> bytes \<Rightarrow> 'c snapshot \<Rightarrow> (bytes option \<times> bool) \<times> 'c snapshot" where
  "sn_remove t k sn = (case map_of (sn_trees sn) t of
     Some None \<Rightarrow> ((None, False), sn)
   | b \<Rightarrow> let (r, ws) = batch_remove k (case b of Some (Some ws) \<Rightarrow> ws | _ \<Rightarrow> []) in (r, sn_put_batch t ws sn))"

definition sn_get_value_size :: "'c snapshot \<Rightarrow> string \<Rightarrow> bytes \<Rightarrow> usize option" where
  "sn_get_value_size sn t k = (case map_of (sn_trees sn) t of
     Some (Some ws) \<Rightarrow> map_option length (Option.bind (map_of ws k) id) | _ \<Rightarrow> None)"

definition sn_drop_tree :: "string \<Rightarrow> 'c snapshot \<Rightarrow> bool \<times> 'c snapshot" where
  "sn_drop_tree t sn = (map_of (sn_trees sn) t \<noteq> None, sn\<lparr>sn_trees := btree_insert t None (sn_trees sn)\<rparr>)"

text \<open>The keys the batch has not touched; errors of the iteration pass.\<close>

definition untouched :: "batch \<Rightarrow> ('a \<Rightarrow> bytes) \<Rightarrow> 'a store_result list \<Rightarrow> 'a store_result list" where
  "untouched ws key = filter (\<lambda>r. case r of Inr x \<Rightarrow> map_of ws (key x) = None | Inl _ \<Rightarrow> True)"

definition batch_entries :: "batch \<Rightarrow> (bytes \<times> bytes) list" where
  "batch_entries ws = List.map_filter (\<lambda>(k, v). map_option (Pair k) v) ws"

definition keys_of :: "(bytes \<times> bytes) store_result list \<Rightarrow> bytes store_result list" where
  "keys_of = map (map_sum id fst)"

definition sn_scan_prefix :: "'db sled_lib \<Rightarrow> 'db \<Rightarrow> 'c snapshot \<Rightarrow> string \<Rightarrow> bytes \<Rightarrow> bytes store_result list" where
  "sn_scan_prefix L db sn t p = (case map_of (sn_trees sn) t of
     Some (Some ws) \<Rightarrow> map Inr (filter (prefix p) (map fst (batch_entries ws))) @
       untouched ws id (keys_of (sl_scan_prefix L db t p))
   | _ \<Rightarrow> keys_of (sl_scan_prefix L db t p))"

definition sn_iter :: "'db sled_lib \<Rightarrow> 'db \<Rightarrow> 'c snapshot \<Rightarrow> string \<Rightarrow> (bytes \<times> bytes) store_result list" where
  "sn_iter L db sn t = (case map_of (sn_trees sn) t of
     Some (Some ws) \<Rightarrow> map Inr (batch_entries ws) @ untouched ws fst (sl_iter L db t)
   | _ \<Rightarrow> sl_iter L db t)"

definition sn_iter_keys :: "'db sled_lib \<Rightarrow> 'db \<Rightarrow> 'c snapshot \<Rightarrow> string \<Rightarrow> bytes store_result list" where
  "sn_iter_keys L db sn t = (case map_of (sn_trees sn) t of
     Some (Some ws) \<Rightarrow> map Inr (map fst (batch_entries ws)) @ untouched ws id (keys_of (sl_iter L db t))
   | _ \<Rightarrow> keys_of (sl_iter L db t))"

section \<open>Storage\<close>

record ('db, 'c) sled_storage =
  ss_network :: network
  ss_db :: 'db
  ss_cache :: "'c storage_cache"
  ss_snapshot :: "'c snapshot option"

definition load_optional_from_disk ::
  "'db sled_lib \<Rightarrow> 'a rd \<Rightarrow> ('db, 'c) sled_storage \<Rightarrow> string \<Rightarrow> bytes \<Rightarrow> 'a option store_result" where
  "load_optional_from_disk L rd S t k = (case ss_snapshot S of
     Some sn \<Rightarrow> if sn_contains_key sn t k then sn_load_optional rd sn t k
       else and_then (sl_get L (ss_db S) t k) (parse rd)
   | None \<Rightarrow> and_then (sl_get L (ss_db S) t k) (parse rd))"

definition load_from_disk ::
  "'db sled_lib \<Rightarrow> 'a rd \<Rightarrow> ('db, 'c) sled_storage \<Rightarrow> string \<Rightarrow> bytes \<Rightarrow> 'a store_result" where
  "load_from_disk L rd S t k = and_then (load_optional_from_disk L rd S t k) (ok_or NotFoundOnDisk)"

definition contains_data :: "'db sled_lib \<Rightarrow> ('db, 'c) sled_storage \<Rightarrow> string \<Rightarrow> bytes \<Rightarrow> bool store_result" where
  "contains_data L S t k = (case Option.bind (ss_snapshot S) (\<lambda>sn. sn_contains_key_with_value sn t k) of
     Some v \<Rightarrow> Inr v | None \<Rightarrow> sl_contains_key L (ss_db S) t k)"

definition contains_data_cached ::
  "'db sled_lib \<Rightarrow> ('db, 'c) sled_storage \<Rightarrow> string \<Rightarrow> bool \<Rightarrow> bytes \<Rightarrow> bool store_result" where
  "contains_data_cached L S t cached k = (case Option.bind (ss_snapshot S) (\<lambda>sn. sn_contains_key_with_value sn t k) of
     Some v \<Rightarrow> Inr v | None \<Rightarrow> if cached then Inr True else sl_contains_key L (ss_db S) t k)"

definition get_size_from_disk :: "'db sled_lib \<Rightarrow> ('db, 'c) sled_storage \<Rightarrow> string \<Rightarrow> bytes \<Rightarrow> usize store_result" where
  "get_size_from_disk L S t k = (case ss_snapshot S of
     Some sn \<Rightarrow> if sn_contains_key sn t k then ok_or NotFoundOnDisk (sn_get_value_size sn t k)
       else and_then (and_then (sl_get L (ss_db S) t k) (ok_or NotFoundOnDisk)) (\<lambda>bs. Inr (length bs))
   | None \<Rightarrow> and_then (and_then (sl_get L (ss_db S) t k) (ok_or NotFoundOnDisk)) (\<lambda>bs. Inr (length bs)))"

definition on_db :: "('db, blockchain_error, 'a) act \<Rightarrow> (('db, 'c) sled_storage, blockchain_error, 'a) act" where
  "on_db m S = (case m (ss_db S) of (r, db) \<Rightarrow> (r, S\<lparr>ss_db := db\<rparr>))"

definition insert_into_disk ::
  "'db sled_lib \<Rightarrow> string \<Rightarrow> bytes \<Rightarrow> bytes \<Rightarrow> (('db, 'c) sled_storage, blockchain_error, bytes option) act" where
  "insert_into_disk L t k v S = (case ss_snapshot S of
     Some sn \<Rightarrow> (case sn_insert t k v sn of (previous, sn) \<Rightarrow> (Inr previous, S\<lparr>ss_snapshot := Some sn\<rparr>))
   | None \<Rightarrow> on_db (sl_insert L t k v) S)"

definition remove_from_disk_internal ::
  "'db sled_lib \<Rightarrow> string \<Rightarrow> bytes \<Rightarrow> (('db, 'c) sled_storage, blockchain_error, bytes option) act" where
  "remove_from_disk_internal L t k S = (case ss_snapshot S of
     Some sn \<Rightarrow> (case sn_remove t k sn of ((value, load), sn) \<Rightarrow>
       (if load then sl_get L (ss_db S) t k else Inr value, S\<lparr>ss_snapshot := Some sn\<rparr>))
   | None \<Rightarrow> on_db (sl_remove L t k) S)"

definition remove_from_disk ::
  "'db sled_lib \<Rightarrow> 'a rd \<Rightarrow> string \<Rightarrow> bytes \<Rightarrow> (('db, 'c) sled_storage, blockchain_error, 'a option) act" where
  "remove_from_disk L rd t k = act_bind (remove_from_disk_internal L t k) (\<lambda>v. act_lift (parse rd v))"

definition remove_from_disk_without_reading ::
  "'db sled_lib \<Rightarrow> string \<Rightarrow> bytes \<Rightarrow> (('db, 'c) sled_storage, blockchain_error, bool) act" where
  "remove_from_disk_without_reading L t k = act_bind (remove_from_disk_internal L t k) (\<lambda>v. ret (v \<noteq> None))"

definition scan_prefix :: "'db sled_lib \<Rightarrow> ('db, 'c) sled_storage \<Rightarrow> string \<Rightarrow> bytes \<Rightarrow> bytes store_result list" where
  "scan_prefix L S t p = (case ss_snapshot S of
     Some sn \<Rightarrow> sn_scan_prefix L (ss_db S) sn t p | None \<Rightarrow> keys_of (sl_scan_prefix L (ss_db S) t p))"

definition disk_iter :: "'db sled_lib \<Rightarrow> ('db, 'c) sled_storage \<Rightarrow> string \<Rightarrow> (bytes \<times> bytes) store_result list" where
  "disk_iter L S t = (case ss_snapshot S of Some sn \<Rightarrow> sn_iter L (ss_db S) sn t | None \<Rightarrow> sl_iter L (ss_db S) t)"

definition disk_iter_keys :: "'db sled_lib \<Rightarrow> ('db, 'c) sled_storage \<Rightarrow> string \<Rightarrow> bytes store_result list" where
  "disk_iter_keys L S t = (case ss_snapshot S of
     Some sn \<Rightarrow> sn_iter_keys L (ss_db S) sn t | None \<Rightarrow> keys_of (sl_iter L (ss_db S) t))"

text \<open>The counters in use, and a change of them.\<close>

definition counters :: "('db, 'c) sled_storage \<Rightarrow> counter_cache" where
  "counters S = (case ss_snapshot S of Some sn \<Rightarrow> sc_counter (sn_cache sn) | None \<Rightarrow> sc_counter (ss_cache S))"

definition set_counters :: "(counter_cache \<Rightarrow> counter_cache) \<Rightarrow> ('db, 'c) sled_storage \<Rightarrow> ('db, 'c) sled_storage" where
  "set_counters f S = (case ss_snapshot S of
     Some sn \<Rightarrow> S\<lparr>ss_snapshot := Some (sn\<lparr>sn_cache := (sn_cache sn)\<lparr>sc_counter := f (sc_counter (sn_cache sn))\<rparr>\<rparr>)\<rparr>
   | None \<Rightarrow> S\<lparr>ss_cache := (ss_cache S)\<lparr>sc_counter := f (sc_counter (ss_cache S))\<rparr>\<rparr>)"

section \<open>Commit point\<close>

text \<open>
  The counters and pointers kept in memory, read from the tree \<open>extra\<close> as far as it has them. Without
  a snapshot by then, the reads go to the disk.
\<close>

definition reload :: "'a store_result \<Rightarrow> ('a \<Rightarrow> counter_cache \<Rightarrow> counter_cache) \<Rightarrow> counter_cache \<Rightarrow> counter_cache" where
  "reload r f c = (case r of Inr x \<Rightarrow> f x c | Inl _ \<Rightarrow> c)"

definition ascii :: "string \<Rightarrow> bytes" where
  "ascii = map of_char"

definition load_cache_from_disk :: "'db sled_lib \<Rightarrow> ('db, 'c) sled_storage \<Rightarrow> ('db, 'c) sled_storage" where
  "load_cache_from_disk L S =
     (let u64_at = (\<lambda>key. load_from_disk L read_u64 S ''extra'' (ascii key)) in
      S\<lparr>ss_cache := (ss_cache S)\<lparr>sc_counter :=
        (reload (u64_at ''CCON'') (\<lambda>n. cn_contracts_count_update (\<lambda>_. n)) \<circ>
         reload (u64_at ''EBLK'') (\<lambda>n. cn_blocks_execution_count_update (\<lambda>_. n)) \<circ>
         reload (u64_at ''CACC'') (\<lambda>n. cn_accounts_count_update (\<lambda>_. n)) \<circ>
         reload (u64_at ''CBLK'') (\<lambda>n. cn_blocks_count_update (\<lambda>_. n)) \<circ>
         reload (u64_at ''CTXS'') (\<lambda>n. cn_transactions_count_update (\<lambda>_. n)) \<circ>
         reload (u64_at ''CAST'') (\<lambda>n. cn_assets_count_update (\<lambda>_. n)) \<circ>
         reload (u64_at ''PRUN'') (\<lambda>n. cn_pruned_topoheight_update (\<lambda>_. Some n)) \<circ>
         reload (load_from_disk L read_tips S ''extra'' (ascii ''TIPS'')) (\<lambda>tips. cn_tips_cache_update (\<lambda>_. tips)))
        (sc_counter (ss_cache S))\<rparr>\<rparr>)"

definition map_caches :: "('c \<Rightarrow> 'c) \<Rightarrow> ('db, 'c) sled_storage \<Rightarrow> ('db, 'c) sled_storage" where
  "map_caches f S = S\<lparr>ss_cache := (ss_cache S)\<lparr>sc_caches := map_option f (sc_caches (ss_cache S))\<rparr>\<rparr>"

definition clear_caches :: "'db sled_lib \<Rightarrow> ('c, 'tx) lru_caches \<Rightarrow> ('db, 'c) sled_storage \<Rightarrow> ('db, 'c) sled_storage" where
  "clear_caches L A S = load_cache_from_disk L
     (map_caches (lu_clear (lc_assets A) \<circ> lu_clear (lc_cumulative_difficulty A) \<circ> lu_clear (lc_hash_at_topo A) \<circ>
       lu_clear (lc_topo_by_hash A) \<circ> lu_clear (lc_blocks A) \<circ> lu_clear (lc_transactions A)) S)"

definition has_commit_point :: "('db, 'c) sled_storage \<Rightarrow> bool" where
  "has_commit_point S = (ss_snapshot S \<noteq> None)"

definition start_commit_point :: "(('db, 'c) sled_storage, blockchain_error, unit) act" where
  "start_commit_point S = (if ss_snapshot S \<noteq> None then (Inl CommitPointAlreadyStarted, S)
     else (Inr (), S\<lparr>ss_snapshot := Some (snapshot_new (storage_cache_clone (ss_cache S)))\<rparr>))"

definition apply_write :: "'db sled_lib \<Rightarrow> string \<Rightarrow> bytes \<times> bytes option \<Rightarrow> ('db, blockchain_error, unit) act" where
  "apply_write L t = (\<lambda>(k, value). case value of
     Some v \<Rightarrow> act_then (sl_insert L t k v) (ret ()) | None \<Rightarrow> act_then (sl_remove L t k) (ret ()))"

definition apply_batch :: "'db sled_lib \<Rightarrow> string \<times> batch option \<Rightarrow> ('db, blockchain_error, unit) act" where
  "apply_batch L = (\<lambda>(t, batch). case batch of
     Some ws \<Rightarrow> act_each (apply_write L t) ws
   | None \<Rightarrow> act_then (sl_drop_tree L t) (ret ()))"

definition end_commit_point ::
  "'db sled_lib \<Rightarrow> ('c, 'tx) lru_caches \<Rightarrow> bool \<Rightarrow> (('db, 'c) sled_storage, blockchain_error, unit) act" where
  "end_commit_point L A apply_it S = (case ss_snapshot S of
     None \<Rightarrow> (Inl CommitPointNotStarted, S)
   | Some sn \<Rightarrow>
       let S = S\<lparr>ss_snapshot := None\<rparr> in
       if apply_it then on_db (act_each (apply_batch L) (sn_trees sn)) (S\<lparr>ss_cache := sn_cache sn\<rparr>)
       else (Inr (), clear_caches L A S))"

section \<open>What the storage shows\<close>

lemma map_of_insort: "k \<notin> fst ` set m \<Longrightarrow> map_of (insort_key fst (k, v) m) = (map_of m)(k \<mapsto> v)"
  by (induction m) (auto simp: fun_eq_iff)

lemma map_remove_absent: "k \<notin> fst ` set (map_remove k m)"
  by (auto simp: map_remove_def)

lemma map_of_btree_insert [simp]: "map_of (btree_insert k v m) = (map_of m)(k \<mapsto> v)"
  by (simp add: btree_insert_def map_of_insort map_remove_absent)

lemma keys_btree_insert [simp]: "fst ` set (btree_insert k v m) = insert k (fst ` set m)"
  by (auto simp: btree_insert_def map_remove_def set_insort_key image_iff)

text \<open>Sorted maps: no key twice, and iteration in the order of the keys.\<close>

definition btree :: "('k::linorder \<times> 'v) list \<Rightarrow> bool" where
  "btree m \<longleftrightarrow> sorted_wrt (<) (map fst m)"

lemma btree_remove: "btree m \<Longrightarrow> btree (map_remove k m)"
  by (simp add: btree_def map_fst_map_remove sorted_wrt_filter)

lemma btree_insort: "btree m \<Longrightarrow> k \<notin> fst ` set m \<Longrightarrow> btree (insort_key fst (k, v) m)"
  unfolding btree_def by (induction m) (auto simp: set_insort_key less_le)

lemma btree_insert_btree [simp]: "btree m \<Longrightarrow> btree (btree_insert k v m)"
  by (simp add: btree_insert_def btree_insort btree_remove map_remove_absent)

lemma btree_distinct: "btree m \<Longrightarrow> distinct (map fst m)"
  by (simp add: btree_def strict_sorted_iff)

text \<open>The content of the trees with the writes of the snapshot on top, and the invariant of a snapshot.\<close>

definition overlay ::
  "'c snapshot option \<Rightarrow> (string \<Rightarrow> bytes \<Rightarrow> bytes option) \<Rightarrow> string \<Rightarrow> bytes \<Rightarrow> bytes option" where
  "overlay sn d t k = (case sn of None \<Rightarrow> d t k
     | Some sn \<Rightarrow> (case map_of (sn_trees sn) t of Some (Some ws) \<Rightarrow> (case map_of ws k of Some v \<Rightarrow> v | None \<Rightarrow> d t k) | _ \<Rightarrow> d t k))"

definition snapshot_ok :: "'c snapshot option \<Rightarrow> bool" where
  "snapshot_ok sn \<longleftrightarrow> (\<forall>sn'. sn = Some sn' \<longrightarrow>
     sc_caches (sn_cache sn') = None \<and> btree (sn_trees sn') \<and> (\<forall>batch \<in> snd ` set (sn_trees sn'). \<exists>ws. batch = Some ws \<and> btree ws))"

lemma snapshot_ok_None [simp]: "snapshot_ok None"
  by (simp add: snapshot_ok_def)

lemma snapshot_ok_new [simp]: "snapshot_ok (Some (snapshot_new (storage_cache_clone c)))"
  by (simp add: snapshot_ok_def snapshot_new_def storage_cache_clone_def btree_def)

lemma snapshot_ok_tree: "snapshot_ok (Some sn) \<Longrightarrow> map_of (sn_trees sn) t \<noteq> Some None"
  unfolding snapshot_ok_def by (force dest: map_of_SomeD)

lemma snapshot_ok_batch: "snapshot_ok (Some sn) \<Longrightarrow> map_of (sn_trees sn) t = Some (Some ws) \<Longrightarrow> btree ws"
  unfolding snapshot_ok_def by (force dest: map_of_SomeD)

lemma snapshot_ok_put: "snapshot_ok (Some sn) \<Longrightarrow> btree ws \<Longrightarrow> snapshot_ok (Some (sn_put_batch t ws sn))"
  unfolding snapshot_ok_def sn_put_batch_def
  by (auto simp: btree_insert_def map_remove_def set_insort_key intro!: btree_insort btree_remove [unfolded map_remove_def])

lemma overlay_put:
  "overlay (Some (sn_put_batch t ws sn)) d =
     (overlay (Some sn) d)(t := (\<lambda>k. case map_of ws k of Some v \<Rightarrow> v | None \<Rightarrow> d t k))"
  by (auto simp: overlay_def sn_put_batch_def fun_eq_iff)

lemma contains_put:
  "sn_contains_key (sn_put_batch t (btree_insert k v (case map_of (sn_trees sn) t of Some (Some ws) \<Rightarrow> ws | _ \<Rightarrow> [])) sn) t' k' \<longleftrightarrow>
     t' = t \<and> k' = k \<or> sn_contains_key sn t' k'"
  by (auto simp: sn_contains_key_def sn_put_batch_def split: option.splits if_splits)

lemma snapshot_insert:
  assumes "snapshot_ok (Some sn)" "sn_insert t k v sn = (previous, sn')"
  shows "overlay (Some sn') d = (overlay (Some sn) d)(t := (overlay (Some sn) d t)(k \<mapsto> v))" "snapshot_ok (Some sn')"
    "sn_cache sn' = sn_cache sn" "sn_contains_key sn t' k' \<Longrightarrow> sn_contains_key sn' t' k'"
proof -
  let ?ws = "case map_of (sn_trees sn) t of Some (Some ws) \<Rightarrow> ws | _ \<Rightarrow> []"
  have sn': "sn' = sn_put_batch t (btree_insert k (Some v) ?ws) sn"
    using assms(2) by (simp add: sn_insert_def batch_insert_def Let_def)
  have "btree ?ws" using snapshot_ok_batch [OF assms(1)] by (auto simp: btree_def split: option.split)
  then show "snapshot_ok (Some sn')" unfolding sn' by (intro snapshot_ok_put assms) simp
  show "overlay (Some sn') d = (overlay (Some sn) d)(t := (overlay (Some sn) d t)(k \<mapsto> v))"
    unfolding sn' overlay_put by (auto simp: fun_eq_iff overlay_def split: option.split)
  show "sn_cache sn' = sn_cache sn" by (simp add: sn' sn_put_batch_def)
  show "sn_contains_key sn t' k' \<Longrightarrow> sn_contains_key sn' t' k'" by (simp add: sn' contains_put)
qed

lemma snapshot_remove:
  assumes "snapshot_ok (Some sn)" "sn_remove t k sn = ((value, load), sn')"
  shows "overlay (Some sn') d = (overlay (Some sn) d)(t := (overlay (Some sn) d t)(k := None))" "snapshot_ok (Some sn')"
    "(if load then d t k else value) = overlay (Some sn) d t k" "sn_cache sn' = sn_cache sn"
    "sn_contains_key sn t' k' \<Longrightarrow> sn_contains_key sn' t' k'"
proof -
  let ?ws = "case map_of (sn_trees sn) t of Some (Some ws) \<Rightarrow> ws | _ \<Rightarrow> []"
  have eq: "sn' = sn_put_batch t (btree_insert k None ?ws) sn" "(value, load) = fst (batch_remove k ?ws)"
    using assms(2) snapshot_ok_tree [OF assms(1), of t]
    by (auto simp: sn_remove_def batch_remove_def split: option.splits prod.splits)
  have "btree ?ws" using snapshot_ok_batch [OF assms(1)] by (auto simp: btree_def split: option.split)
  then show "snapshot_ok (Some sn')" unfolding eq by (intro snapshot_ok_put assms) simp
  show "overlay (Some sn') d = (overlay (Some sn) d)(t := (overlay (Some sn) d t)(k := None))"
    unfolding eq overlay_put by (auto simp: fun_eq_iff overlay_def split: option.split)
  show "(if load then d t k else value) = overlay (Some sn) d t k"
    using eq(2) by (auto simp: batch_remove_def overlay_def split: option.splits)
  show "sn_cache sn' = sn_cache sn" by (simp add: eq sn_put_batch_def)
  show "sn_contains_key sn t' k' \<Longrightarrow> sn_contains_key sn' t' k'" by (simp add: eq contains_put)
qed

definition sled_view ::
  "('db \<Rightarrow> string \<Rightarrow> bytes \<Rightarrow> bytes option) \<Rightarrow> ('db, 'c) sled_storage \<Rightarrow> string \<Rightarrow> bytes \<Rightarrow> bytes option" where
  "sled_view disk S = overlay (ss_snapshot S) (disk (ss_db S))"

definition sled_ok :: "('db, 'c) sled_storage \<Rightarrow> bool" where
  "sled_ok S = snapshot_ok (ss_snapshot S)"

lemma overlay_None [simp]: "overlay None d = d"
  by (simp add: overlay_def fun_eq_iff)

text \<open>
  What no access changes: whether a commit point runs, while one runs the disk, and the caches; a key the
  snapshot has written stays one. An operation
  \<open>does P\<close> when it succeeds on every storage in order, keeps that and relates what the storage showed
  before, the result and what the storage shows after by \<open>P\<close>.
\<close>

definition touched :: "('db, 'c) sled_storage \<Rightarrow> string \<Rightarrow> bytes \<Rightarrow> bool" where
  "touched S t k = (case ss_snapshot S of Some sn \<Rightarrow> sn_contains_key sn t k | None \<Rightarrow> False)"

definition sled_frame :: "('db, 'c) sled_storage \<Rightarrow> ('db, 'c) sled_storage \<Rightarrow> bool" where
  "sled_frame S S' \<longleftrightarrow> (ss_snapshot S = None \<longleftrightarrow> ss_snapshot S' = None) \<and> (ss_snapshot S \<noteq> None \<longrightarrow> ss_db S' = ss_db S) \<and>
     ss_network S' = ss_network S \<and> sc_caches (ss_cache S') = sc_caches (ss_cache S) \<and>
     (\<forall>t k. touched S t k \<longrightarrow> touched S' t k)"

lemma sled_frame_refl [simp]: "sled_frame S S"
  by (simp add: sled_frame_def)

lemma sled_frame_trans: "sled_frame S S1 \<Longrightarrow> sled_frame S1 S2 \<Longrightarrow> sled_frame S S2"
  by (auto simp: sled_frame_def)

definition does ::
  "('db \<Rightarrow> string \<Rightarrow> bytes \<Rightarrow> bytes option) \<Rightarrow> (('db, 'c) sled_storage, blockchain_error, 'a) act \<Rightarrow>
   ((string \<Rightarrow> bytes \<Rightarrow> bytes option) \<Rightarrow> 'a \<Rightarrow> (string \<Rightarrow> bytes \<Rightarrow> bytes option) \<Rightarrow> bool) \<Rightarrow> bool" where
  "does disk m P \<longleftrightarrow> (\<forall>S. sled_ok S \<longrightarrow> (\<exists>x S'. m S = (Inr x, S') \<and> P (sled_view disk S) x (sled_view disk S') \<and>
     sled_ok S' \<and> sled_frame S S'))"

lemma doesD:
  assumes "does disk m P" "sled_ok S"
  obtains x S' where "m S = (Inr x, S')" "P (sled_view disk S) x (sled_view disk S')" "sled_ok S'" "sled_frame S S'"
  using assms unfolding does_def by blast

lemma does_result:
  assumes "does disk m P" "sled_ok S" "m S = (r, S')"
  obtains x where "r = Inr x" "P (sled_view disk S) x (sled_view disk S')" "sled_ok S'" "sled_frame S S'"
  using doesD [OF assms(1,2)] assms(3) by (metis prod.inject)

lemma does_mono: "does disk m P \<Longrightarrow> (\<And>w x w'. P w x w' \<Longrightarrow> Q w x w') \<Longrightarrow> does disk m Q"
  unfolding does_def by blast

lemma does_ret: "does disk (ret x) (\<lambda>w y w'. y = x \<and> w' = w)"
  by (auto simp: does_def ret_def)

lemma does_bind:
  assumes "does disk m P" "\<And>x. does disk (f x) (Q x)"
  shows "does disk (act_bind m f) (\<lambda>w y w'. \<exists>x w1. P w x w1 \<and> Q x w1 y w')"
  unfolding does_def
proof (intro allI impI)
  fix S :: "('a, 'b) sled_storage" assume "sled_ok S"
  from doesD [OF assms(1) this] obtain x S1 where 1: "m S = (Inr x, S1)" "P (sled_view disk S) x (sled_view disk S1)"
    "sled_ok S1" "sled_frame S S1" .
  from doesD [OF assms(2) 1(3)] obtain y S' where "f x S1 = (Inr y, S')" "Q x (sled_view disk S1) y (sled_view disk S')"
    "sled_ok S'" "sled_frame S1 S'" .
  with 1 show "\<exists>y S'. act_bind m f S = (Inr y, S') \<and> (\<exists>x w1. P (sled_view disk S) x w1 \<and> Q x w1 y (sled_view disk S')) \<and>
      sled_ok S' \<and> sled_frame S S'"
    by (auto simp: act_bind_def intro: sled_frame_trans)
qed

lemma does_then:
  "does disk m P \<Longrightarrow> does disk n Q \<Longrightarrow> does disk (act_then m n) (\<lambda>w y w'. \<exists>x w1. P w x w1 \<and> Q w1 y w')"
  unfolding act_then_def by (rule does_bind)

lemma does_counters: "does disk (act_modify (set_counters f)) (\<lambda>w x w'. w' = w)"
  by (auto simp: does_def act_modify_def set_counters_def sled_view_def sled_ok_def overlay_def snapshot_ok_def sled_frame_def
      touched_def sn_contains_key_def fun_eq_iff split: option.split)

context sled_db
begin

lemma load_optional_view: "load_optional_from_disk L rd S t k = parse rd (sled_view disk S t k)"
  by (auto simp: load_optional_from_disk_def sled_view_def overlay_def sn_contains_key_def sn_load_optional_def and_then_def
      split: option.split)

lemma load_view: "load_from_disk L rd S t k = and_then (parse rd (sled_view disk S t k)) (ok_or NotFoundOnDisk)"
  by (simp add: load_from_disk_def load_optional_view)

lemma contains_view: "contains_data L S t k = Inr (sled_view disk S t k \<noteq> None)"
  by (auto simp: contains_data_def sn_contains_key_with_value_def sled_view_def overlay_def split: option.split)

text \<open>A write is seen at once.\<close>

lemma insert_does: "does disk (insert_into_disk L t k v) (\<lambda>w x w'. w' = w(t := (w t)(k \<mapsto> v)))"
  unfolding does_def
proof (intro allI impI)
  fix S :: "('db, 'c) sled_storage" assume ok: "sled_ok S"
  show "\<exists>x S'. insert_into_disk L t k v S = (Inr x, S') \<and> sled_view disk S' = (sled_view disk S)(t := (sled_view disk S t)(k \<mapsto> v)) \<and>
      sled_ok S' \<and> sled_frame S S'"
  proof (cases "ss_snapshot S")
    case None
    obtain db' where "sl_insert L t k v (ss_db S) = (Inr (disk (ss_db S) t k), db')"
      "disk db' = (disk (ss_db S))(t := (disk (ss_db S) t)(k \<mapsto> v))" using insert by blast
    then show ?thesis using None ok
      by (simp add: insert_into_disk_def on_db_def sled_view_def sled_ok_def sled_frame_def touched_def)
  next
    case (Some sn)
    obtain previous sn' where ins: "sn_insert t k v sn = (previous, sn')" by (cases "sn_insert t k v sn")
    have "snapshot_ok (Some sn)" using ok Some by (simp add: sled_ok_def)
    from snapshot_insert [OF this ins] show ?thesis
      by (simp add: insert_into_disk_def Some ins sled_view_def sled_ok_def sled_frame_def touched_def)
  qed
qed

lemma remove_does: "does disk (remove_from_disk_internal L t k) (\<lambda>w x w'. x = w t k \<and> w' = w(t := (w t)(k := None)))"
  unfolding does_def
proof (intro allI impI)
  fix S :: "('db, 'c) sled_storage" assume ok: "sled_ok S"
  show "\<exists>x S'. remove_from_disk_internal L t k S = (Inr x, S') \<and>
      (x = sled_view disk S t k \<and> sled_view disk S' = (sled_view disk S)(t := (sled_view disk S t)(k := None))) \<and> sled_ok S' \<and> sled_frame S S'"
  proof (cases "ss_snapshot S")
    case None
    obtain db' where "sl_remove L t k (ss_db S) = (Inr (disk (ss_db S) t k), db')"
      "disk db' = (disk (ss_db S))(t := (disk (ss_db S) t)(k := None))" using remove by blast
    then show ?thesis using None ok
      by (simp add: remove_from_disk_internal_def on_db_def sled_view_def sled_ok_def sled_frame_def touched_def)
  next
    case (Some sn)
    obtain val load sn' where rem: "sn_remove t k sn = ((val, load), sn')" by (metis prod.exhaust)
    have sn: "snapshot_ok (Some sn)" using ok Some by (simp add: sled_ok_def)
    from snapshot_remove(1,3) [OF sn rem, of "disk (ss_db S)"] snapshot_remove(2,5) [OF sn rem] show ?thesis
      by (auto simp: remove_from_disk_internal_def Some rem sled_view_def sled_ok_def sled_frame_def touched_def split: if_splits)
  qed
qed

lemma remove_quiet_does:
  "does disk (remove_from_disk_without_reading L t k) (\<lambda>w x w'. w' = w(t := (w t)(k := None)))"
  unfolding remove_from_disk_without_reading_def
  by (rule does_mono [OF does_bind [OF remove_does does_ret]]) auto

end

section \<open>A commit point is atomic\<close>

context sled_db
begin

lemma apply_write_ok:
  "\<exists>db'. apply_write L t (k, v) db = (Inr (), db') \<and> disk db' = (disk db)(t := (disk db t)(k := v))"
proof (cases v)
  case None
  obtain db' where "sl_remove L t k db = (Inr (disk db t k), db')" "disk db' = (disk db)(t := (disk db t)(k := None))" using remove by blast
  with None show ?thesis by (simp add: apply_write_def act_run)
next
  case (Some bs)
  obtain db' where "sl_insert L t k bs db = (Inr (disk db t k), db')" "disk db' = (disk db)(t := (disk db t)(k \<mapsto> bs))" using insert by blast
  with Some show ?thesis by (simp add: apply_write_def act_run)
qed

lemma apply_writes_ok:
  "distinct (map fst ws) \<Longrightarrow> \<exists>db'. act_each (apply_write L t) ws db = (Inr (), db') \<and>
     disk db' = (disk db)(t := (\<lambda>k. case map_of ws k of Some v \<Rightarrow> v | None \<Rightarrow> disk db t k))"
proof (induction ws arbitrary: db)
  case Nil
  then show ?case by (simp add: ret_def)
next
  case (Cons w ws)
  obtain k v where w: "w = (k, v)" by (cases w)
  obtain db1 where 1: "apply_write L t (k, v) db = (Inr (), db1)" "disk db1 = (disk db)(t := (disk db t)(k := v))"
    using apply_write_ok by blast
  have "distinct (map fst ws)" using Cons.prems by simp
  from Cons.IH [OF this, of db1] obtain db' where 2: "act_each (apply_write L t) ws db1 = (Inr (), db')"
    "disk db' = (disk db1)(t := (\<lambda>k. case map_of ws k of Some v \<Rightarrow> v | None \<Rightarrow> disk db1 t k))" by blast
  have "map_of ws k = None" using Cons.prems by (simp add: w map_of_eq_None_iff)
  then have "disk db' = (disk db)(t := (\<lambda>k. case map_of (w # ws) k of Some v \<Rightarrow> v | None \<Rightarrow> disk db t k))"
    unfolding 2 1 w by (auto simp: fun_eq_iff split: option.split)
  moreover have "act_each (apply_write L t) (w # ws) db = (Inr (), db')" using 1(1) 2(1) by (simp add: w act_run)
  ultimately show ?case by blast
qed

lemma apply_batches_ok:
  assumes "distinct (map fst trees)" "\<forall>batch \<in> snd ` set trees. \<exists>ws. batch = Some ws \<and> btree ws"
  shows "\<exists>db'. act_each (apply_batch L) trees db = (Inr (), db') \<and>
    disk db' = overlay (Some \<lparr>sn_trees = trees, sn_cache = c\<rparr>) (disk db)"
  using assms
proof (induction trees arbitrary: db)
  case Nil
  then show ?case by (simp add: ret_def overlay_def fun_eq_iff)
next
  case (Cons x trees)
  from Cons.prems(2) obtain t ws where x: "x = (t, Some ws)" "btree ws" by (cases x) auto
  from apply_writes_ok [OF btree_distinct [OF x(2)]] obtain db1 where
    1: "act_each (apply_write L t) ws db = (Inr (), db1)" "disk db1 = (disk db)(t := (\<lambda>k. case map_of ws k of Some v \<Rightarrow> v | None \<Rightarrow> disk db t k))"
    by blast
  have "distinct (map fst trees)" "\<forall>batch \<in> snd ` set trees. \<exists>ws. batch = Some ws \<and> btree ws" using Cons.prems by simp_all
  from Cons.IH [OF this, of db1] obtain db' where 2: "act_each (apply_batch L) trees db1 = (Inr (), db')"
    "disk db' = overlay (Some \<lparr>sn_trees = trees, sn_cache = c\<rparr>) (disk db1)" by blast
  have "map_of trees t = None" using Cons.prems by (simp add: x map_of_eq_None_iff)
  then have "disk db' = overlay (Some \<lparr>sn_trees = x # trees, sn_cache = c\<rparr>) (disk db)"
    unfolding 2 1 x by (auto simp: overlay_def fun_eq_iff split: option.split)
  moreover have "act_each (apply_batch L) (x # trees) db = (Inr (), db')" using 1(1) 2(1) by (simp add: x apply_batch_def act_run)
  ultimately show ?case by blast
qed

lemma end_commit_ok:
  assumes "sled_ok S" "ss_snapshot S \<noteq> None"
  obtains S' where "end_commit_point L A b S = (Inr (), S')" "ss_snapshot S' = None" "sled_ok S'" "ss_network S' = ss_network S"
    "disk (ss_db S') = (if b then sled_view disk S else disk (ss_db S))"
    "sc_caches (ss_cache S') = (if b then None else sc_caches (ss_cache (map_caches (lu_clear (lc_assets A) \<circ> lu_clear (lc_cumulative_difficulty A) \<circ>
       lu_clear (lc_hash_at_topo A) \<circ> lu_clear (lc_topo_by_hash A) \<circ> lu_clear (lc_blocks A) \<circ> lu_clear (lc_transactions A)) S)))"
proof -
  from assms(2) obtain sn where sn: "ss_snapshot S = Some sn" by blast
  with assms(1) have ok: "distinct (map fst (sn_trees sn))" "\<forall>batch \<in> snd ` set (sn_trees sn). \<exists>ws. batch = Some ws \<and> btree ws"
    "sc_caches (sn_cache sn) = None"
    by (auto simp: sled_ok_def snapshot_ok_def btree_distinct)
  have eq: "overlay (Some \<lparr>sn_trees = sn_trees sn, sn_cache = sn_cache sn\<rparr>) = overlay (Some sn)"
    by (simp add: overlay_def fun_eq_iff)
  from apply_batches_ok [OF ok(1,2), of "ss_db S" "sn_cache sn", unfolded eq] obtain db' where
    "act_each (apply_batch L) (sn_trees sn) (ss_db S) = (Inr (), db')" "disk db' = overlay (Some sn) (disk (ss_db S))"
    by blast
  then show thesis
    by (intro that [of "if b then S\<lparr>ss_snapshot := None, ss_cache := sn_cache sn, ss_db := db'\<rparr> else clear_caches L A (S\<lparr>ss_snapshot := None\<rparr>)"])
      (simp_all add: end_commit_point_def sn ok(3) on_db_def sled_ok_def sled_view_def clear_caches_def load_cache_from_disk_def map_caches_def Let_def)
qed

end

text \<open>A sequence of writes, and what it makes of the content of the trees.\<close>

datatype change = Put string bytes bytes | Del string bytes

fun run_change :: "'db sled_lib \<Rightarrow> change \<Rightarrow> (('db, 'c) sled_storage, blockchain_error, unit) act" where
  "run_change L (Put t k v) = act_then (insert_into_disk L t k v) (ret ())"
| "run_change L (Del t k) = act_then (remove_from_disk_without_reading L t k) (ret ())"

fun apply_change :: "change \<Rightarrow> (string \<Rightarrow> bytes \<Rightarrow> bytes option) \<Rightarrow> string \<Rightarrow> bytes \<Rightarrow> bytes option" where
  "apply_change (Put t k v) w = w(t := (w t)(k \<mapsto> v))"
| "apply_change (Del t k) w = w(t := (w t)(k := None))"

context sled_db
begin

lemma run_change_does: "does disk (run_change L c) (\<lambda>w x w'. w' = apply_change c w)"
  by (cases c) (auto intro!: does_mono [OF does_then [OF insert_does does_ret]] does_mono [OF does_then [OF remove_quiet_does does_ret]])

lemma run_changes_does: "does disk (act_each (run_change L) cs) (\<lambda>w x w'. w' = fold apply_change cs w)"
proof (induction cs)
  case Nil
  show ?case unfolding act_each.simps by (rule does_mono [OF does_ret]) simp
next
  case (Cons c cs)
  show ?case unfolding act_each.simps by (rule does_mono [OF does_bind [OF run_change_does Cons.IH]]) simp
qed

end

section \<open>A database in memory\<close>

text \<open>
  The reference for the laws: every tree is an association list, which is sorted for an iteration.
\<close>

type_synonym mem_db = "string \<Rightarrow> (bytes \<times> bytes) list"

definition mem_disk :: "mem_db \<Rightarrow> string \<Rightarrow> bytes \<Rightarrow> bytes option" where
  "mem_disk db t = map_of (db t)"

definition mem_sorted :: "(bytes \<times> bytes) list \<Rightarrow> (bytes \<times> bytes) list" where
  "mem_sorted m = map (\<lambda>k. (k, the (map_of m k))) (sort (remdups (map fst m)))"

definition mem_lib :: "mem_db sled_lib" where
  "mem_lib = \<lparr>sl_get = (\<lambda>db t k. Inr (map_of (db t) k)), sl_contains_key = (\<lambda>db t k. Inr (map_of (db t) k \<noteq> None)),
     sl_insert = (\<lambda>t k v db. (Inr (map_of (db t) k), db(t := map_insert k v (db t)))),
     sl_remove = (\<lambda>t k db. (Inr (map_of (db t) k), db(t := map_remove k (db t)))),
     sl_drop_tree = (\<lambda>t db. (Inr (db t \<noteq> []), db(t := []))),
     sl_iter = (\<lambda>db t. map Inr (mem_sorted (db t))),
     sl_scan_prefix = (\<lambda>db t p. map Inr (filter (\<lambda>kv. prefix p (fst kv)) (mem_sorted (db t))))\<rparr>"

lemma mem_sorted_ok: "map_of (mem_sorted m) = map_of m" "sorted_wrt (<) (map fst (mem_sorted m))"
proof -
  have "map_of (map (\<lambda>k. (k, the (map_of m k))) ks) k = (if k \<in> set ks then Some (the (map_of m k)) else None)" for ks k
    by (induction ks) auto
  then show "map_of (mem_sorted m) = map_of m"
    by (simp add: mem_sorted_def fun_eq_iff) (metis map_of_eq_None_iff option.collapse)
  show "sorted_wrt (<) (map fst (mem_sorted m))"
    by (simp add: mem_sorted_def comp_def strict_sorted_iff)
qed

lemma map_of_filter_keys: "map_of (filter (\<lambda>kv. P (fst kv)) m) = (\<lambda>k. if P k then map_of m k else None)"
  by (induction m) (auto simp: fun_eq_iff)

interpretation mem: sled_db mem_lib mem_disk
proof (unfold_locales, goal_cases)
  case (3 t k v db)
  show ?case by (rule exI [of _ "db(t := map_insert k v (db t))"]) (simp add: mem_lib_def mem_disk_def fun_eq_iff)
next
  case (4 t k db)
  show ?case by (rule exI [of _ "db(t := map_remove k (db t))"]) (simp add: mem_lib_def mem_disk_def fun_eq_iff)
next
  case (5 db t)
  show ?case by (auto simp: mem_lib_def mem_disk_def mem_sorted_ok intro!: exI [of _ "mem_sorted (db t)"])
next
  case (6 db t p)
  have "sorted_wrt (<) (map fst (filter (\<lambda>kv. prefix p (fst kv)) (mem_sorted (db t))))"
    using sorted_wrt_filter [OF mem_sorted_ok(2), of "prefix p" "db t"] by (simp add: filter_map comp_def)
  then show ?case
    by (auto simp: mem_lib_def mem_disk_def map_of_filter_keys mem_sorted_ok
        intro!: exI [of _ "filter (\<lambda>kv. prefix p (fst kv)) (mem_sorted (db t))"])
qed (simp_all add: mem_lib_def mem_disk_def)

section \<open>Properties\<close>

text \<open>
  C8. A commit point is all or nothing. Whatever is written and deleted between the start of a commit
  point and its end, reads in between see every change, the disk is not touched before the end, and
  afterwards it has either all changes, in order, or is as it was before the start.
\<close>

theorem commit_point_atomic:
  assumes "sled_db L disk"
    and "start_commit_point S = (Inr (), S1)"
    and "act_each (run_change L) cs S1 = (r, S2)"
    and "end_commit_point L A b S2 = (r', S3)"
  shows "r = Inr () \<and> r' = Inr () \<and> ss_snapshot S3 = None \<and>
    disk (ss_db S2) = disk (ss_db S) \<and> sled_view disk S2 = fold apply_change cs (disk (ss_db S)) \<and>
    disk (ss_db S3) = (if b then fold apply_change cs (disk (ss_db S)) else disk (ss_db S))"
proof -
  have S1: "S1 = S\<lparr>ss_snapshot := Some (snapshot_new (storage_cache_clone (ss_cache S)))\<rparr>"
    using assms(2) by (simp add: start_commit_point_def split: if_splits)
  then have view1: "sled_ok S1" "sled_view disk S1 = disk (ss_db S)" "ss_snapshot S1 \<noteq> None" "ss_db S1 = ss_db S"
    by (simp_all add: sled_ok_def sled_view_def overlay_def snapshot_new_def fun_eq_iff snapshot_ok_def btree_def storage_cache_clone_def)
  from does_result [OF sled_db.run_changes_does [OF assms(1)] view1(1) assms(3)]
  have r: "r = Inr ()" and view2: "sled_view disk S2 = fold apply_change cs (disk (ss_db S))" "sled_ok S2" "sled_frame S1 S2"
    unfolding view1(2) by auto
  then have "ss_snapshot S2 \<noteq> None" "ss_db S2 = ss_db S" using view1 by (auto simp: sled_frame_def)
  with sled_db.end_commit_ok [OF assms(1) view2(2), of A b] assms(4) r view2 show ?thesis
    by (metis prod.inject)
qed

definition empty_storage :: "(mem_db, unit) sled_storage" where
  "empty_storage = \<lparr>ss_network = Mainnet, ss_db = (\<lambda>_. []), ss_cache = \<lparr>sc_counter = counter_cache_default, sc_caches = None\<rparr>,
     ss_snapshot = None\<rparr>"

definition no_lru :: "(unit, 'k, 'v) lru" where
  "no_lru = \<lparr>lu_get = (\<lambda>_ c. (None, c)), lu_put = (\<lambda>_ _ c. c), lu_pop = (\<lambda>_ c. (None, c)), lu_contains = (\<lambda>_ _. False), lu_clear = id\<rparr>"

definition no_caches :: "(unit, unit) lru_caches" where
  "no_caches = \<lparr>lc_transactions = no_lru, lc_blocks = no_lru, lc_topo_by_hash = no_lru, lc_hash_at_topo = no_lru,
     lc_cumulative_difficulty = no_lru, lc_assets = no_lru\<rparr>"

theorem commit_point_atomic_witness:
  "\<exists>S1 S2 S3. start_commit_point empty_storage = (Inr (), S1) \<and>
     act_each (run_change mem_lib) [Put ''nonces'' [1] [2], Put ''nonces'' [3] [4], Del ''nonces'' [1]] S1 = (Inr (), S2) \<and>
     mem_disk (ss_db S2) ''nonces'' [3] = None \<and> sled_view mem_disk S2 ''nonces'' [3] = Some [4] \<and>
     end_commit_point mem_lib no_caches True S2 = (Inr (), S3) \<and>
     mem_disk (ss_db S3) ''nonces'' [3] = Some [4] \<and> mem_disk (ss_db S3) ''nonces'' [1] = None"
proof -
  let ?cs = "[Put ''nonces'' [1] [2], Put ''nonces'' [3] [4], Del ''nonces'' [1]]"
  obtain S1 where 1: "start_commit_point empty_storage = (Inr (), S1)"
    by (simp add: start_commit_point_def empty_storage_def)
  obtain r S2 where 2: "act_each (run_change mem_lib) ?cs S1 = (r, S2)" by fastforce
  obtain r' S3 where 3: "end_commit_point mem_lib no_caches True S2 = (r', S3)" by fastforce
  from commit_point_atomic [OF mem.sled_db_axioms 1 2 3] 1 2 3 show ?thesis
    by (intro exI [of _ S1] exI [of _ S2] exI [of _ S3]) (auto simp: empty_storage_def mem_disk_def)
qed

end
