(* ===== verification/SledVersions.thy ===== *)
theory SledVersions
  imports SledStore
begin

text \<open>
  Versioned data on sled (\<open>sled/providers/versioned/mod.rs\<close>). Every kind of data has two trees: one
  holds each version under its topoheight followed by the key, and starts with the topoheight of the
  version before; the other points from the key to the newest version. The theory has the search for
  the newest version up to a topoheight, which every provider has, and the three deletions, and shows
  what they do to the chain of versions of a key.

  A loop that follows a chain takes fuel, one more than the topoheight it starts at: enough for every
  chain that goes down to older versions. On a chain that does not the code would not return.
\<close>

section \<open>Operations\<close>

definition get_versioned_key :: "bytes \<Rightarrow> topoheight \<Rightarrow> bytes" where
  "get_versioned_key data topoheight = to_be_bytes topoheight @ data"

definition load_previous :: "'db sled_lib \<Rightarrow> ('db, 'c) sled_storage \<Rightarrow> string \<Rightarrow> bytes \<Rightarrow> topoheight option store_result" where
  "load_previous L S ver k = load_from_disk L (read_option read_u64) S ver k"

fun newest_at_most ::
  "nat \<Rightarrow> (topoheight \<Rightarrow> topoheight option store_result) \<Rightarrow> topoheight \<Rightarrow> topoheight option \<Rightarrow> topoheight option store_result" where
  "newest_at_most fuel previous maximum None = Inr None"
| "newest_at_most 0 previous maximum (Some topo) = Inl (Chain OutOfFuel)"
| "newest_at_most (Suc fuel) previous maximum (Some topo) =
     (if topo \<le> maximum then Inr (Some topo) else and_then (previous topo) (newest_at_most fuel previous maximum))"

definition chain_fuel :: "topoheight option \<Rightarrow> nat" where
  "chain_fuel start = (case start of None \<Rightarrow> 0 | Some topo \<Rightarrow> Suc (unat topo))"

definition delete_version ::
  "'db sled_lib \<Rightarrow> string \<Rightarrow> string \<Rightarrow> topoheight \<Rightarrow> bytes store_result \<Rightarrow> (('db, 'c) sled_storage, blockchain_error, unit) act" where
  "delete_version L ptr ver topoheight el =
     act_bind (act_lift el) (\<lambda>prefixed_key.
     act_bind (remove_from_disk L (read_option read_u64) ver prefixed_key) (\<lambda>r.
     act_bind (act_lift (ok_or CorruptedData r)) (\<lambda>prev_topo.
     let key = drop 8 prefixed_key in
     act_bind (act_query (\<lambda>S. load_optional_from_disk L read_u64 S ptr key)) (\<lambda>pointer. case pointer of
       Some topo_pointer \<Rightarrow>
         if topo_pointer \<ge> topoheight then (case prev_topo of
             Some prev_topo \<Rightarrow> act_then (insert_into_disk L ptr key (to_be_bytes prev_topo)) (ret ())
           | None \<Rightarrow> act_then (remove_from_disk_without_reading L ptr key) (ret ()))
         else ret ()
     | None \<Rightarrow> ret ()))))"

text \<open>The keys are collected before the loop: in a commit point the deletions do not reach the tree that is scanned.\<close>

definition delete_versioned_tree_at_topoheight ::
  "'db sled_lib \<Rightarrow> string \<Rightarrow> string \<Rightarrow> topoheight \<Rightarrow> (('db, 'c) sled_storage, blockchain_error, unit) act" where
  "delete_versioned_tree_at_topoheight L ptr ver topoheight S =
     act_each (delete_version L ptr ver topoheight) (scan_prefix L S ver (to_be_bytes topoheight)) S"

fun delete_chain_above ::
  "'db sled_lib \<Rightarrow> string \<Rightarrow> bytes \<Rightarrow> topoheight \<Rightarrow> nat \<Rightarrow> topoheight option \<Rightarrow>
   (('db, 'c) sled_storage, blockchain_error, topoheight option) act" where
  "delete_chain_above L ver key topoheight fuel None = ret None"
| "delete_chain_above L ver key topoheight 0 (Some prev_topo) = throw (Chain OutOfFuel)"
| "delete_chain_above L ver key topoheight (Suc fuel) (Some prev_topo) =
     (if prev_topo \<le> topoheight then ret (Some prev_topo)
      else act_bind (remove_from_disk L (read_option read_u64) ver (get_versioned_key key prev_topo)) (\<lambda>r.
        act_bind (act_lift (ok_or NotFoundOnDisk r)) (delete_chain_above L ver key topoheight fuel)))"

definition delete_above ::
  "'db sled_lib \<Rightarrow> string \<Rightarrow> string \<Rightarrow> topoheight \<Rightarrow> (bytes \<times> bytes) store_result \<Rightarrow>
   (('db, 'c) sled_storage, blockchain_error, unit) act" where
  "delete_above L ptr ver topoheight el =
     act_bind (act_lift el) (\<lambda>(key, val).
     act_bind (act_lift (map_err ErrorOnReader (from_bytes read_u64 val))) (\<lambda>topo.
     if topo > topoheight
     then act_bind (remove_from_disk L (read_option read_u64) ver (get_versioned_key key topo)) (\<lambda>r.
       act_bind (act_lift (ok_or NotFoundOnDisk r)) (\<lambda>prev_version.
       act_bind (delete_chain_above L ver key topoheight (chain_fuel prev_version) prev_version) (\<lambda>new_topo_pointer.
       case new_topo_pointer of
         Some topo \<Rightarrow> act_then (insert_into_disk L ptr key (to_be_bytes topo)) (ret ())
       | None \<Rightarrow> act_then (remove_from_disk_internal L ptr key) (ret ()))))
     else ret ()))"

definition delete_versioned_tree_above_topoheight ::
  "'db sled_lib \<Rightarrow> string \<Rightarrow> string \<Rightarrow> topoheight \<Rightarrow> (('db, 'c) sled_storage, blockchain_error, unit) act" where
  "delete_versioned_tree_above_topoheight L ptr ver topoheight S =
     act_each (delete_above L ptr ver topoheight) (disk_iter L S ptr) S"

text \<open>
  \<open>Versioned<NoTransform>\<close> keeps the bytes behind the topoheight as they are. The type of \<open>prev_version\<close>
  makes the removal of a version below the patched one read it as a \<open>u64\<close>, not as an optional one: the
  loop goes on with the flag byte and the first seven bytes of the topoheight.
\<close>

fun delete_chain_below ::
  "'db sled_lib \<Rightarrow> string \<Rightarrow> bytes \<Rightarrow> topoheight \<Rightarrow> nat \<Rightarrow> bool \<Rightarrow> topoheight option \<Rightarrow>
   (('db, 'c) sled_storage, blockchain_error, unit) act" where
  "delete_chain_below L ver key topoheight fuel patched None = ret ()"
| "delete_chain_below L ver key topoheight 0 patched (Some prev_topo) = throw (Chain OutOfFuel)"
| "delete_chain_below L ver key topoheight (Suc fuel) patched (Some prev_topo) =
     (let k = get_versioned_key key prev_topo in
      if patched then act_bind (remove_from_disk L read_u64 ver k) (delete_chain_below L ver key topoheight fuel True)
      else act_bind (act_query (\<lambda>S. load_previous L S ver k)) (\<lambda>prev_version.
        if (case prev_version of Some v \<Rightarrow> v < topoheight | None \<Rightarrow> False)
        then act_bind (act_query (\<lambda>S. load_from_disk L (read_versioned read_no_transform) S ver k)) (\<lambda>data.
          act_then (insert_into_disk L ver k (to_bytes (write_versioned write_bytes (data\<lparr>vd_previous_topoheight := None\<rparr>))))
          (delete_chain_below L ver key topoheight fuel True prev_version))
        else delete_chain_below L ver key topoheight fuel False prev_version))"

definition delete_below ::
  "'db sled_lib \<Rightarrow> nat \<Rightarrow> string \<Rightarrow> topoheight \<Rightarrow> (bytes \<times> bytes) store_result \<Rightarrow>
   (('db, 'c) sled_storage, blockchain_error, unit) act" where
  "delete_below L fuel ver topoheight el =
     act_bind (act_lift el) (\<lambda>(key, val).
     act_bind (act_lift (map_err ErrorOnReader (from_bytes read_u64 val))) (\<lambda>topo.
     act_bind (act_query (\<lambda>S. load_previous L S ver (get_versioned_key key topo))) (\<lambda>prev_version.
     delete_chain_below L ver key topoheight fuel (topo < topoheight) prev_version)))"

definition delete_key_below ::
  "'db sled_lib \<Rightarrow> string \<Rightarrow> topoheight \<Rightarrow> bytes store_result \<Rightarrow> (('db, 'c) sled_storage, blockchain_error, unit) act" where
  "delete_key_below L ver topoheight el =
     act_bind (act_lift el) (\<lambda>key.
     act_bind (act_lift (map_err ErrorOnReader (from_bytes read_u64 (take 8 key)))) (\<lambda>topo.
     if topo < topoheight then act_then (remove_from_disk_without_reading L ver key) (ret ()) else ret ()))"

definition delete_versioned_tree_below_topoheight ::
  "'db sled_lib \<Rightarrow> nat \<Rightarrow> string \<Rightarrow> string \<Rightarrow> topoheight \<Rightarrow> bool \<Rightarrow> (('db, 'c) sled_storage, blockchain_error, unit) act" where
  "delete_versioned_tree_below_topoheight L fuel ptr ver topoheight keep_last S =
     (if keep_last then act_each (delete_below L fuel ver topoheight) (disk_iter L S ptr) S
      else act_each (delete_key_below L ver topoheight) (disk_iter_keys L S ver) S)"

section \<open>Chains of versions\<close>

type_synonym tree_view = "string \<Rightarrow> bytes \<Rightarrow> bytes option"

definition first :: "topoheight list \<Rightarrow> topoheight option" where
  "first ts = (case ts of [] \<Rightarrow> None | t # _ \<Rightarrow> Some t)"

lemma first_simps [simp]: "first [] = None" "first (t # ts) = Some t"
  by (simp_all add: first_def)

lemma first_filter: "first (filter P ts) = List.find P ts"
  by (induction ts) (auto simp: first_def)

fun chain :: "(topoheight \<Rightarrow> bytes option) \<Rightarrow> topoheight list \<Rightarrow> bool" where
  "chain V [] \<longleftrightarrow> True"
| "chain V (t # ts) \<longleftrightarrow> (\<exists>bs. V t = Some bs \<and> from_bytes (read_option read_u64) bs = Inr (first ts)) \<and>
     (\<forall>t' \<in> set ts. t' < t) \<and> chain V ts"

definition version_at :: "tree_view \<Rightarrow> string \<Rightarrow> bytes \<Rightarrow> topoheight \<Rightarrow> bytes option" where
  "version_at w ver key t = w ver (get_versioned_key key t)"

text \<open>
  The key's versions in a tree are those at \<open>ts\<close>, newest first: the pointer has the newest, each has
  its predecessor, and there is no other.
\<close>

definition versions :: "tree_view \<Rightarrow> string \<Rightarrow> string \<Rightarrow> bytes \<Rightarrow> topoheight list \<Rightarrow> bool" where
  "versions w ptr ver key ts \<longleftrightarrow> w ptr key = map_option to_be_bytes (first ts) \<and> chain (version_at w ver key) ts \<and>
     (\<forall>t. version_at w ver key t \<noteq> None \<longleftrightarrow> t \<in> set ts)"

lemma be_u64_inject [simp]: "to_be_bytes (a :: u64) = to_be_bytes b \<longleftrightarrow> a = b"
  by (rule to_be_bytes_inject) simp_all

lemma read_be_u64 [simp]: "from_bytes read_u64 (to_be_bytes (t :: u64)) = Inr t"
  using u64.from_to_bytes [of t] by (simp add: codec_simps)

lemma get_versioned_key_inject [simp]: "get_versioned_key key t = get_versioned_key key' t' \<longleftrightarrow> key = key' \<and> t = t'"
  by (auto simp: get_versioned_key_def)

lemma prefix_versioned_key: "prefix (to_be_bytes (t :: u64)) k \<longleftrightarrow> (\<exists>key. k = get_versioned_key key t)"
  by (auto simp: get_versioned_key_def prefix_def)

lemma drop_versioned_key [simp]: "drop 8 (get_versioned_key key t) = key"
  by (simp add: get_versioned_key_def)

lemma chain_descends: "chain V ts \<Longrightarrow> sorted_wrt (>) ts"
  by (induction ts) auto

lemma chain_previous:
  "chain V ts \<Longrightarrow> t \<in> set ts \<Longrightarrow> \<exists>bs. V t = Some bs \<and> from_bytes (read_option read_u64) bs = Inr (first (filter (\<lambda>x. x < t) ts))"
proof (induction ts)
  case (Cons t' ts)
  then show ?case by (cases "t = t'") (auto simp: filter_True [where xs = ts] dest: less_imp_not_less)
qed simp

lemma chain_filter: "chain V ts \<Longrightarrow> chain V (filter (\<lambda>t. t < b) ts)"
proof (induction ts)
  case (Cons t ts)
  show ?case
  proof (cases "t < b")
    case True
    then have "filter (\<lambda>t. t < b) ts = ts" using Cons.prems by (auto simp: filter_id_conv)
    then show ?thesis using Cons.prems True by simp
  qed (use Cons in simp)
qed simp

lemma chain_cong: "chain V ts \<Longrightarrow> (\<And>t. t \<in> set ts \<Longrightarrow> V' t = V t) \<Longrightarrow> chain V' ts"
  by (induction ts) auto

text \<open>The search finds the newest version that is not above the bound, and returns.\<close>

lemma unat_below: "sorted_wrt (>) (t # ts) \<Longrightarrow> length ts \<le> unat (t :: u64)"
proof (induction ts arbitrary: t)
  case (Cons t' ts)
  then have "length ts \<le> unat t'" "t' < t" by auto
  moreover have "unat t' < unat t" using \<open>t' < t\<close> by (simp add: word_less_nat_alt)
  ultimately show ?case by simp
qed simp

lemma newest_at_most_chain:
  assumes "chain V ts" "length ts \<le> fuel"
    "\<And>t bs. V t = Some bs \<Longrightarrow> t \<in> set ts \<Longrightarrow> previous t = map_err ErrorOnReader (from_bytes (read_option read_u64) bs)"
  shows "newest_at_most fuel previous maximum (first ts) = Inr (List.find (\<lambda>t. t \<le> maximum) ts)"
  using assms
proof (induction ts arbitrary: fuel)
  case (Cons t ts)
  then obtain fuel' where "fuel = Suc fuel'" by (cases fuel) auto
  with Cons show ?case by (fastforce simp: and_then_def map_err_def)
qed simp

lemma chain_fuel_enough: "chain V ts \<Longrightarrow> length ts \<le> chain_fuel (first ts)"
  using unat_below chain_descends by (cases ts) (fastforce simp: chain_fuel_def)+

section \<open>Iteration\<close>

lemma keys_of_ok: "keys_of (map Inr kvs) = map Inr (map fst kvs)"
  by (simp add: keys_of_def)

lemma untouched_ok: "untouched ws key (map Inr xs) = map Inr (filter (\<lambda>x. map_of ws (key x) = None) xs)"
  by (simp add: untouched_def filter_map comp_def)

lemma batch_entries_fst: "map fst (batch_entries ws) = map fst (filter (\<lambda>(k, v). v \<noteq> None) ws)"
  by (induction ws) (auto simp: batch_entries_def List.map_filter_simps split: option.split)

lemma batch_entries_map: "distinct (map fst ws) \<Longrightarrow> map_of (batch_entries ws) k = Option.bind (map_of ws k) id"
proof (induction ws)
  case (Cons x ws)
  obtain k' v where x: "x = (k', v)" by (cases x)
  then have "map_of ws k' = None" using Cons.prems by (simp add: map_of_eq_None_iff)
  then show ?case using Cons x by (cases v) (auto simp: batch_entries_def List.map_filter_simps)
qed (simp add: batch_entries_def List.map_filter_simps)

lemma bind_id_None: "Option.bind v id = None \<longleftrightarrow> v = None \<or> v = Some None"
  by (cases v) auto

lemma distinct_batch_entries: "distinct (map fst ws) \<Longrightarrow> distinct (map fst (batch_entries ws))"
  by (simp add: batch_entries_fst distinct_map_filter)

lemma set_keys: "set (map fst m) = {k. map_of m k \<noteq> None}"
  by (auto simp: map_of_eq_None_iff)

context sled_db
begin

lemma scan_ok:
  assumes "sled_ok S"
  obtains ks where "scan_prefix L S t p = map Inr ks" "distinct ks" "set ks = {k. prefix p k \<and> sled_view disk S t k \<noteq> None}"
proof -
  obtain kvs where kvs: "sl_scan_prefix L (ss_db S) t p = map Inr kvs" "sorted_wrt (<) (map fst kvs)"
    "map_of kvs = (\<lambda>k. if prefix p k then disk (ss_db S) t k else None)" using scan by blast
  have dist: "distinct (map fst kvs)" using kvs(2) by (simp add: strict_sorted_iff)
  have keys: "set (map fst kvs) = {k. prefix p k \<and> disk (ss_db S) t k \<noteq> None}" unfolding set_keys kvs(3) by auto
  show thesis
  proof (cases "\<exists>sn ws. ss_snapshot S = Some sn \<and> map_of (sn_trees sn) t = Some (Some ws)")
    case True
    then obtain sn ws where sn: "ss_snapshot S = Some sn" "map_of (sn_trees sn) t = Some (Some ws)" by blast
    have ws: "distinct (map fst ws)"
      using assms sn by (intro btree_distinct snapshot_ok_batch [of sn t]) (simp_all add: sled_ok_def)
    let ?ks = "filter (prefix p) (map fst (batch_entries ws)) @ filter (\<lambda>k. map_of ws k = None) (map fst kvs)"
    have bk: "set (map fst (batch_entries ws)) = {k. Option.bind (map_of ws k) id \<noteq> None}"
      unfolding set_keys batch_entries_map [OF ws] ..
    show thesis
    proof (rule that [of ?ks])
      show "scan_prefix L S t p = map Inr ?ks"
        by (simp add: scan_prefix_def sn sn_scan_prefix_def kvs(1) keys_of_ok untouched_ok del: map_map)
      have "set (map fst (batch_entries ws)) \<inter> {k. map_of ws k = None} = {}" unfolding bk by auto
      then show "distinct ?ks" using dist distinct_batch_entries [OF ws] by (auto simp del: set_map list.set_map)
      show "set ?ks = {k. prefix p k \<and> sled_view disk S t k \<noteq> None}"
        unfolding set_append set_filter keys bk
        by (auto simp: sled_view_def overlay_def sn bind_id_None simp del: bind_eq_None_conv split: option.splits)
    qed
  next
    case False
    have eq: "sled_view disk S t = disk (ss_db S) t"
      using False by (auto simp: sled_view_def overlay_def fun_eq_iff split: option.split)
    have "scan_prefix L S t p = map Inr (map fst kvs)"
      using False by (auto simp: scan_prefix_def sn_scan_prefix_def kvs(1) keys_of_ok simp del: map_map split: option.split)
    then show thesis using that [OF _ dist] keys by (simp add: eq)
  qed
qed

lemma iter_ok:
  assumes "sled_ok S"
  obtains kvs where "disk_iter L S t = map Inr kvs" "distinct (map fst kvs)" "map_of kvs = sled_view disk S t"
proof -
  obtain kvs where kvs: "sl_iter L (ss_db S) t = map Inr kvs" "sorted_wrt (<) (map fst kvs)" "map_of kvs = disk (ss_db S) t"
    using iter by blast
  have dist: "distinct (map fst kvs)" using kvs(2) by (simp add: strict_sorted_iff)
  show thesis
  proof (cases "\<exists>sn ws. ss_snapshot S = Some sn \<and> map_of (sn_trees sn) t = Some (Some ws)")
    case True
    then obtain sn ws where sn: "ss_snapshot S = Some sn" "map_of (sn_trees sn) t = Some (Some ws)" by blast
    have ws: "distinct (map fst ws)"
      using assms sn by (intro btree_distinct snapshot_ok_batch [of sn t]) (simp_all add: sled_ok_def)
    let ?kvs = "batch_entries ws @ filter (\<lambda>kv. map_of ws (fst kv) = None) kvs"
    have bk: "set (map fst (batch_entries ws)) = {k. Option.bind (map_of ws k) id \<noteq> None}"
      unfolding set_keys batch_entries_map [OF ws] ..
    show thesis
    proof (rule that [of ?kvs])
      show "disk_iter L S t = map Inr ?kvs" by (simp add: disk_iter_def sn sn_iter_def kvs(1) untouched_ok)
      have "set (map fst (batch_entries ws)) \<inter> fst ` set (filter (\<lambda>kv. map_of ws (fst kv) = None) kvs) = {}" unfolding bk by auto
      then show "distinct (map fst ?kvs)"
        using dist distinct_batch_entries [OF ws] by (simp add: distinct_map_filter)
      show "map_of ?kvs = sled_view disk S t"
        by (auto simp: fun_eq_iff map_add_def map_of_filter_keys [of "\<lambda>k. map_of ws k = None"] batch_entries_map [OF ws] kvs(3) sled_view_def overlay_def sn split: option.split)
    qed
  next
    case False
    then have "sled_view disk S t = disk (ss_db S) t" "disk_iter L S t = map Inr kvs"
      by (auto simp: sled_view_def overlay_def fun_eq_iff disk_iter_def sn_iter_def kvs(1) split: option.split)
    then show thesis using that [of kvs] dist kvs(3) by simp
  qed
qed

end

section \<open>Deleting a topoheight\<close>

definition previous_at :: "tree_view \<Rightarrow> string \<Rightarrow> bytes \<Rightarrow> topoheight \<Rightarrow> topoheight option" where
  "previous_at w ver key t = (case version_at w ver key t of None \<Rightarrow> None
     | Some bs \<Rightarrow> (case from_bytes (read_option read_u64) bs of Inr p \<Rightarrow> p | Inl _ \<Rightarrow> None))"

text \<open>What is left when the versions under the keys \<open>K\<close> at the topoheight are deleted.\<close>

definition delete_keys :: "string \<Rightarrow> string \<Rightarrow> topoheight \<Rightarrow> bytes set \<Rightarrow> tree_view \<Rightarrow> tree_view" where
  "delete_keys ptr ver t K w = w(
     ver := (\<lambda>k. if k \<in> K then None else w ver k),
     ptr := (\<lambda>key. if get_versioned_key key t \<in> K \<and> (\<exists>p. w ptr key = Some (to_be_bytes p) \<and> t \<le> p)
       then map_option to_be_bytes (previous_at w ver key t) else w ptr key))"

definition readable :: "tree_view \<Rightarrow> string \<Rightarrow> string \<Rightarrow> bytes \<Rightarrow> topoheight \<Rightarrow> bool" where
  "readable w ptr ver key t \<longleftrightarrow> (\<exists>bs prev. version_at w ver key t = Some bs \<and> from_bytes (read_option read_u64) bs = Inr prev) \<and>
     (\<exists>p :: topoheight option. w ptr key = map_option to_be_bytes p)"

lemma delete_keys_empty [simp]: "delete_keys ptr ver t {} w = w"
  by (simp add: delete_keys_def)

lemma delete_keys_insert:
  assumes "ptr \<noteq> ver" "get_versioned_key key t \<notin> K"
  shows "delete_keys ptr ver t K (delete_keys ptr ver t {get_versioned_key key t} w) =
    delete_keys ptr ver t (insert (get_versioned_key key t) K) w"
  using assms by (auto simp: delete_keys_def fun_eq_iff previous_at_def version_at_def)

lemma delete_keys_readable:
  assumes "ptr \<noteq> ver" "readable w ptr ver key' t" "key' \<noteq> key"
  shows "readable (delete_keys ptr ver t {get_versioned_key key t} w) ptr ver key' t"
  using assms by (auto simp: delete_keys_def readable_def version_at_def)

context sled_db
begin

lemma remove_parse_does:
  "sled_ok S \<Longrightarrow> parse rd (sled_view disk S t k) = Inr x \<Longrightarrow>
     \<exists>S'. remove_from_disk L rd t k S = (Inr x, S') \<and> sled_view disk S' = (sled_view disk S)(t := (sled_view disk S t)(k := None)) \<and>
       sled_ok S' \<and> sled_frame S S'"
  by (rule doesD [OF remove_does [of t k], of S]) (auto simp: remove_from_disk_def act_run)

lemma delete_version_ok:
  assumes "sled_ok S" "ptr \<noteq> ver" "readable (sled_view disk S) ptr ver key t"
  shows "\<exists>S'. delete_version L ptr ver t (Inr (get_versioned_key key t)) S = (Inr (), S') \<and>
    sled_view disk S' = delete_keys ptr ver t {get_versioned_key key t} (sled_view disk S) \<and> sled_ok S' \<and> sled_frame S S'"
proof -
  let ?w = "sled_view disk S" and ?k = "get_versioned_key key t"
  from assms(3) obtain bs prev and p :: "topoheight option"
    where bs: "?w ver ?k = Some bs" "from_bytes (read_option read_u64) bs = Inr prev" and p: "?w ptr key = map_option to_be_bytes p" by (auto simp: readable_def version_at_def)
  have "parse (read_option read_u64) (?w ver ?k) = Inr (Some prev)" by (simp add: bs parse_def and_then_def map_err_def)
  from remove_parse_does [OF assms(1) this] obtain S1 where
    1: "remove_from_disk L (read_option read_u64) ver ?k S = (Inr (Some prev), S1)" "sled_ok S1" "sled_frame S S1"
    "sled_view disk S1 = ?w(ver := (?w ver)(?k := None))" by blast
  have ptr1: "sled_view disk S1 ptr key = map_option to_be_bytes p" using 1(4) assms(2) p by simp
  then have load: "load_optional_from_disk L read_u64 S1 ptr key = Inr p"
    by (cases p) (simp_all add: load_optional_view parse_def and_then_def map_err_def)
  have prev: "previous_at ?w ver key t = prev" by (simp add: previous_at_def version_at_def bs)
  show ?thesis
  proof (cases "\<exists>p'. p = Some p' \<and> t \<le> p'")
    case True
    then obtain p' where p': "p = Some p'" "t \<le> p'" by blast
    let ?m = "case prev of Some q \<Rightarrow> act_then (insert_into_disk L ptr key (to_be_bytes q)) (ret ())
      | None \<Rightarrow> act_then (remove_from_disk_without_reading L ptr key) (ret ())"
    have "does disk ?m (\<lambda>w x w'. w' = w(ptr := (w ptr)(key := map_option to_be_bytes prev)))"
      by (cases prev) (auto intro!: does_mono [OF does_then [OF insert_does does_ret]] does_mono [OF does_then [OF remove_quiet_does does_ret]])
    from doesD [OF this 1(2)] obtain x S' where 2: "?m S1 = (Inr x, S')"
      "sled_view disk S' = (sled_view disk S1)(ptr := (sled_view disk S1 ptr)(key := map_option to_be_bytes prev))"
      "sled_ok S'" "sled_frame S1 S'" .
    have run: "delete_version L ptr ver t (Inr ?k) S = (Inr (), S')"
      by (simp add: delete_version_def act_run 1(1) ok_or_def load p') (use 2(1) in simp)
    have eq: "sled_view disk S' = delete_keys ptr ver t {?k} ?w"
      unfolding 2 1 using p p' assms(2) prev by (auto simp: delete_keys_def fun_eq_iff)
    show ?thesis using run eq 2(3) sled_frame_trans [OF 1(3) 2(4)] by blast
  next
    case False
    then have run: "delete_version L ptr ver t (Inr ?k) S = (Inr (), S1)"
      by (cases p) (simp_all add: delete_version_def act_run 1(1) ok_or_def load)
    have eq: "sled_view disk S1 = delete_keys ptr ver t {?k} ?w"
      unfolding 1 using p False assms(2) by (cases p) (auto simp: delete_keys_def fun_eq_iff)
    show ?thesis using run eq 1 by blast
  qed
qed

lemma delete_versions_ok:
  assumes "sled_ok S" "ptr \<noteq> ver" "distinct ks" "\<And>k. k \<in> set ks \<Longrightarrow> \<exists>key. k = get_versioned_key key t \<and> readable (sled_view disk S) ptr ver key t"
  shows "\<exists>S'. act_each (delete_version L ptr ver t) (map Inr ks) S = (Inr (), S') \<and>
    sled_view disk S' = delete_keys ptr ver t (set ks) (sled_view disk S) \<and> sled_ok S' \<and> sled_frame S S'"
  using assms
proof (induction ks arbitrary: S)
  case Nil
  then show ?case by (simp add: ret_def)
next
  case (Cons k ks)
  from Cons.prems(4) [of k] obtain key where k: "k = get_versioned_key key t" "readable (sled_view disk S) ptr ver key t" by auto
  from delete_version_ok [OF Cons.prems(1,2) k(2)] obtain S1 where
    1: "delete_version L ptr ver t (Inr k) S = (Inr (), S1)" "sled_ok S1" "sled_frame S S1"
    "sled_view disk S1 = delete_keys ptr ver t {k} (sled_view disk S)" by (auto simp: k(1))
  have "\<exists>key. k' = get_versioned_key key t \<and> readable (sled_view disk S1) ptr ver key t" if "k' \<in> set ks" for k'
  proof -
    from Cons.prems(4) [of k'] that obtain key' where k': "k' = get_versioned_key key' t" "readable (sled_view disk S) ptr ver key' t" by auto
    moreover have "key' \<noteq> key" using Cons.prems(3) that by (auto simp: k(1) k'(1))
    ultimately show ?thesis unfolding 1(4) k(1) using delete_keys_readable [OF Cons.prems(2)] by blast
  qed
  from Cons.IH [OF 1(2) Cons.prems(2) _ this] Cons.prems(3) obtain S' where
    2: "act_each (delete_version L ptr ver t) (map Inr ks) S1 = (Inr (), S')" "sled_ok S'" "sled_frame S1 S'"
    "sled_view disk S' = delete_keys ptr ver t (set ks) (sled_view disk S1)" by auto
  have "sled_view disk S' = delete_keys ptr ver t (set (k # ks)) (sled_view disk S)"
    unfolding 2 1 using Cons.prems(2,3) by (simp add: k delete_keys_insert)
  moreover have "act_each (delete_version L ptr ver t) (map Inr (k # ks)) S = (Inr (), S')"
    using 1(1) 2(1) by (simp add: act_run)
  ultimately show ?case using 2(2) sled_frame_trans [OF 1(3) 2(3)] by blast
qed

lemma delete_at_ok:
  assumes "sled_ok S" "ptr \<noteq> ver" "\<And>key. version_at (sled_view disk S) ver key t \<noteq> None \<Longrightarrow> readable (sled_view disk S) ptr ver key t"
  shows "\<exists>S'. delete_versioned_tree_at_topoheight L ptr ver t S = (Inr (), S') \<and>
    sled_view disk S' = delete_keys ptr ver t {k. prefix (to_be_bytes t) k \<and> sled_view disk S ver k \<noteq> None} (sled_view disk S) \<and>
    sled_ok S' \<and> sled_frame S S'"
proof -
  from scan_ok [OF assms(1), of ver "to_be_bytes t"] obtain ks where ks: "scan_prefix L S ver (to_be_bytes t) = map Inr ks" "distinct ks"
    "set ks = {k. prefix (to_be_bytes t) k \<and> sled_view disk S ver k \<noteq> None}" .
  have "\<exists>key. k = get_versioned_key key t \<and> readable (sled_view disk S) ptr ver key t" if "k \<in> set ks" for k
    using that assms(3) by (auto simp: ks(3) prefix_versioned_key version_at_def)
  from delete_versions_ok [OF assms(1,2) ks(2) this] show ?thesis
    by (simp add: delete_versioned_tree_at_topoheight_def ks)
qed

end

section \<open>Unwinding blocks\<close>

text \<open>
  Blocks are unwound from the oldest on. When the topoheights from \<open>a\<close> to below \<open>b\<close> are deleted, the
  versions from \<open>b\<close> on are still there, and the pointer has moved below \<open>a\<close> as soon as one version was deleted.
\<close>

definition unwound ::
  "nat \<Rightarrow> nat \<Rightarrow> tree_view \<Rightarrow> string \<Rightarrow> string \<Rightarrow> bytes \<Rightarrow> topoheight list \<Rightarrow> (topoheight \<Rightarrow> bytes option) \<Rightarrow> bool" where
  "unwound a b w ptr ver key ts V \<longleftrightarrow>
     (\<forall>t. version_at w ver key t = (if t \<in> set ts \<and> (unat t < a \<or> b \<le> unat t) then V t else None)) \<and>
     w ptr key = map_option to_be_bytes
       (first (if \<exists>t \<in> set ts. a \<le> unat t \<and> unat t < b then filter (\<lambda>t. unat t < a) ts else ts))"

lemma unwound_start: "versions w ptr ver key ts \<Longrightarrow> unwound a a w ptr ver key ts (version_at w ver key)"
  by (auto simp: unwound_def versions_def)

lemma chain_some: "chain V ts \<Longrightarrow> t \<in> set ts \<Longrightarrow> V t \<noteq> None"
  using chain_previous by fastforce

lemma unwound_end:
  assumes "unwound a b w ptr ver key ts V" "chain V ts" "\<forall>t \<in> set ts. unat t < b"
  shows "versions w ptr ver key (filter (\<lambda>t. unat t < a) ts)"
    "unat t < a \<Longrightarrow> t \<in> set ts \<or> V t = None \<Longrightarrow> version_at w ver key t = V t"
proof -
  let ?ts = "filter (\<lambda>t. unat t < a) ts"
  have V: "version_at w ver key t = (if t \<in> set ?ts then V t else None)" for t
    using assms(1,3) by (auto simp: unwound_def)
  have "first (if \<exists>t \<in> set ts. a \<le> unat t \<and> unat t < b then ?ts else ts) = first ?ts"
    using assms(3) by (auto simp: not_le filter_id_conv [THEN iffD2] cong: arg_cong [where f = first])
  moreover have "chain V ?ts"
  proof (cases "a < 2 ^ 64")
    case True
    have "unat t < a \<longleftrightarrow> t < of_nat a" for t :: u64 using True by (simp add: word_less_nat_alt unat_of_nat)
    then show ?thesis using chain_filter [OF assms(2), of "of_nat a"] by simp
  next
    case False
    have "unat t < a" for t :: u64 using unsigned_less [of t, where ?'a = nat] False by simp
    then show ?thesis using assms(2) by simp
  qed
  moreover have "chain (version_at w ver key) ?ts" by (rule chain_cong [OF \<open>chain V ?ts\<close>]) (simp add: V)
  moreover have "version_at w ver key t \<noteq> None \<longleftrightarrow> t \<in> set ?ts" for t
    unfolding V using chain_some [OF \<open>chain V ?ts\<close>, of t] by simp
  ultimately show "versions w ptr ver key ?ts"
    using assms(1) unfolding versions_def unwound_def by simp
  show "unat t < a \<Longrightarrow> t \<in> set ts \<or> V t = None \<Longrightarrow> version_at w ver key t = V t" by (auto simp: V)
qed

lemma unwound_readable:
  assumes "unwound a b w ptr ver key ts V" "chain V ts" "version_at w ver key t \<noteq> None"
  shows "readable w ptr ver key t"
  using assms chain_previous [OF assms(2), of t] by (auto simp: unwound_def readable_def split: if_splits)

lemma unwound_step:
  fixes w :: tree_view
  assumes un: "unwound a b w ptr ver key ts V" and ch: "chain V ts" and "a \<le> b" "b < 2 ^ 64" "ptr \<noteq> ver"
  shows "unwound a (Suc b) (delete_keys ptr ver (of_nat b) {k. prefix (to_be_bytes (of_nat b :: u64)) k \<and> w ver k \<noteq> None} w) ptr ver key ts V"
    (is "unwound _ _ ?w _ _ _ _ _")
proof -
  let ?t = "of_nat b :: u64"
  define w' where "w' = ?w"
  have ut: "unat ?t = b" using assms(4) by (simp add: unat_of_nat)
  have eq: "unat t = b \<longleftrightarrow> t = ?t" for t :: u64 using ut by (metis word_unat_eq_iff)
  have ver: "version_at w' ver key t = (if t = ?t then None else version_at w ver key t)" for t
    using assms(5) by (auto simp: w'_def version_at_def delete_keys_def prefix_versioned_key)
  have le: "b \<le> unat t \<longleftrightarrow> Suc b \<le> unat t \<or> t = ?t" for t :: u64 using eq [of t] by auto
  have V: "version_at w' ver key t = (if t \<in> set ts \<and> (unat t < a \<or> Suc b \<le> unat t) then V t else None)" for t
    using un assms(3) ut le [of t] by (auto simp: ver unwound_def)
  have at: "version_at w ver key ?t \<noteq> None \<longleftrightarrow> ?t \<in> set ts"
    using un ut chain_some [OF ch] by (auto simp: unwound_def)
  have ptr: "w' ptr key = (if ?t \<in> set ts \<and> (\<exists>p. w ptr key = Some (to_be_bytes p) \<and> ?t \<le> p)
      then map_option to_be_bytes (previous_at w ver key ?t) else w ptr key)"
    using assms(5) at by (auto simp: w'_def delete_keys_def prefix_versioned_key version_at_def)
  have lt: "unat t < Suc b \<longleftrightarrow> unat t < b \<or> t = ?t" for t :: u64 using eq [of t] by auto
  have "w' ptr key = map_option to_be_bytes (first (if \<exists>t \<in> set ts. a \<le> unat t \<and> unat t < Suc b then filter (\<lambda>t. unat t < a) ts else ts))"
  proof (cases "?t \<in> set ts")
    case False
    then have "(\<exists>t \<in> set ts. a \<le> unat t \<and> unat t < Suc b) = (\<exists>t \<in> set ts. a \<le> unat t \<and> unat t < b)" unfolding lt by blast
    then show ?thesis using un False by (simp add: ptr unwound_def)
  next
    case True
    have ex: "\<exists>t \<in> set ts. a \<le> unat t \<and> unat t < Suc b" using True assms(3) ut by (intro bexI [of _ ?t]) simp_all
    show ?thesis
    proof (cases "\<exists>t \<in> set ts. a \<le> unat t \<and> unat t < b")
      case True
      then have w: "w ptr key = map_option to_be_bytes (first (filter (\<lambda>t. unat t < a) ts))" using un by (simp add: unwound_def)
      have "\<not> (\<exists>p. w ptr key = Some (to_be_bytes p) \<and> ?t \<le> p)"
      proof (rule notI, elim exE conjE)
        fix p assume "w ptr key = Some (to_be_bytes p)" "?t \<le> p"
        then have "first (filter (\<lambda>t. unat t < a) ts) = Some p" by (auto simp: w)
        then have "unat p < a" by (auto simp: first_filter find_Some_iff)
        then show False using \<open>?t \<le> p\<close> ut assms(3) by (simp add: word_le_nat_alt)
      qed
      then show ?thesis using ex by (auto simp: ptr w)
    next
      case False
      then have w: "w ptr key = map_option to_be_bytes (first ts)" using un unfolding unwound_def if_not_P [OF False] by blast
      from True obtain p ts' where ts: "ts = p # ts'" by (cases ts) auto
      have "?t \<le> p" using True ch by (auto simp: ts less_imp_le)
      then have new: "w' ptr key = map_option to_be_bytes (previous_at w ver key ?t)" using True by (auto simp: ptr w ts)
      from chain_previous [OF ch True] un ut True have "previous_at w ver key ?t = first (filter (\<lambda>x. x < ?t) ts)"
        by (auto simp: previous_at_def unwound_def)
      moreover have "filter (\<lambda>x. x < ?t) ts = filter (\<lambda>t. unat t < a) ts"
        using False assms(3) ut by (intro filter_cong) (auto simp: word_less_nat_alt)
      ultimately show ?thesis using ex new by simp
    qed
  qed
  with V show ?thesis unfolding w'_def [symmetric] by (simp add: unwound_def)
qed

context sled_db
begin

lemma unwind_ok:
  assumes "sled_ok S" "ptr \<noteq> ver" "a \<le> b" "b + n \<le> 2 ^ 64"
    and un: "\<And>key. unwound a b (sled_view disk S) ptr ver key (H key) (V key)" and ch: "\<And>key. chain (V key) (H key)"
  shows "\<exists>S'. act_each (delete_versioned_tree_at_topoheight L ptr ver) (map of_nat [b..<b + n]) S = (Inr (), S') \<and>
    (\<forall>key. unwound a (b + n) (sled_view disk S') ptr ver key (H key) (V key)) \<and> sled_ok S' \<and> sled_frame S S' \<and>
    (\<forall>t. t \<noteq> ptr \<longrightarrow> t \<noteq> ver \<longrightarrow> sled_view disk S' t = sled_view disk S t)"
  using assms(1,3,4) un
proof (induction n arbitrary: S b)
  case 0
  then show ?case by (simp add: ret_def)
next
  case (Suc n)
  let ?t = "of_nat b :: u64"
  from delete_at_ok [OF Suc.prems(1) assms(2), of ?t] unwound_readable [OF Suc.prems(4) ch]
  obtain S1 where 1: "delete_versioned_tree_at_topoheight L ptr ver ?t S = (Inr (), S1)" "sled_ok S1" "sled_frame S S1"
    "sled_view disk S1 = delete_keys ptr ver ?t {k. prefix (to_be_bytes ?t) k \<and> sled_view disk S ver k \<noteq> None} (sled_view disk S)"
    by blast
  have "unwound a (Suc b) (sled_view disk S1) ptr ver key (H key) (V key)" for key
    unfolding 1(4) using Suc.prems(2,3) by (intro unwound_step Suc.prems(4) ch assms(2)) simp_all
  from Suc.IH [OF 1(2) _ _ this] Suc.prems(2,3) obtain S' where
    2: "act_each (delete_versioned_tree_at_topoheight L ptr ver) (map of_nat [Suc b..<Suc b + n]) S1 = (Inr (), S')"
    "\<forall>key. unwound a (Suc b + n) (sled_view disk S') ptr ver key (H key) (V key)" "sled_ok S'" "sled_frame S1 S'"
    "\<forall>t. t \<noteq> ptr \<longrightarrow> t \<noteq> ver \<longrightarrow> sled_view disk S' t = sled_view disk S1 t" by auto
  have "[b..<b + Suc n] = b # [Suc b..<Suc b + n]" by (simp add: upt_conv_Cons)
  then have "act_each (delete_versioned_tree_at_topoheight L ptr ver) (map of_nat [b..<b + Suc n]) S = (Inr (), S')"
    using 1(1) 2(1) by (simp add: act_run)
  moreover have "\<forall>t. t \<noteq> ptr \<longrightarrow> t \<noteq> ver \<longrightarrow> sled_view disk S' t = sled_view disk S t" using 2(5) by (simp add: 1(4) delete_keys_def)
  ultimately show ?case using 2 sled_frame_trans [OF 1(3) 2(4)] by auto
qed

end

section \<open>Properties\<close>

text \<open>
  C9. Unwinding restores the past. When the versions of some data form chains, and the topoheights
  from \<open>a\<close> on are deleted in ascending order up to the newest, as a reorganisation of the chain does,
  then every deletion succeeds and the versions of every key are exactly those below \<open>a\<close>, with the
  content they had, newest first behind the pointer. Other trees are not touched.
\<close>

theorem unwinding_restores_past:
  assumes "sled_db L disk" and "sled_ok S" and "ptr \<noteq> ver"
    and "\<And>key. versions (sled_view disk S) ptr ver key (H key)"
    and "\<And>key t. t \<in> set (H key) \<Longrightarrow> unat t < b" and "a \<le> b" and "b \<le> 2 ^ 64"
    and "act_each (delete_versioned_tree_at_topoheight L ptr ver) (map of_nat [a..<b]) S = (r, S')"
  shows "r = Inr () \<and> sled_ok S' \<and>
    (\<forall>key. versions (sled_view disk S') ptr ver key (filter (\<lambda>t. unat t < a) (H key)) \<and>
      (\<forall>t. unat t < a \<longrightarrow> version_at (sled_view disk S') ver key t = version_at (sled_view disk S) ver key t)) \<and>
    (\<forall>t. t \<noteq> ptr \<longrightarrow> t \<noteq> ver \<longrightarrow> sled_view disk S' t = sled_view disk S t)"
proof -
  let ?V = "\<lambda>key. version_at (sled_view disk S) ver key"
  have ch: "chain (?V key) (H key)" for key using assms(4) by (simp add: versions_def)
  have n: "a + (b - a) = b" "a + (b - a) \<le> 2 ^ 64" using assms(6,7) by simp_all
  from sled_db.unwind_ok [OF assms(1-3) order_refl n(2) unwound_start [OF assms(4)] ch] assms(8)
  have r: "r = Inr ()" "sled_ok S'" "\<And>key. unwound a b (sled_view disk S') ptr ver key (H key) (?V key)"
    "\<And>t. t \<noteq> ptr \<Longrightarrow> t \<noteq> ver \<Longrightarrow> sled_view disk S' t = sled_view disk S t" by (auto simp: n(1))
  have "\<forall>t \<in> set (H key). unat t < b" for key using assms(5) by blast
  note e = unwound_end [OF r(3) ch this]
  have "?V key t \<noteq> None \<longleftrightarrow> t \<in> set (H key)" for key t using assms(4) [of key] by (simp add: versions_def)
  then have "unat t < a \<Longrightarrow> version_at (sled_view disk S') ver key t = ?V key t" for key t using e(2) by blast
  then show ?thesis using r e(1) by blast
qed

text \<open>The witness unwinds the topoheights 4 and 5 of an account whose nonce was set at 2, 4 and 5.\<close>

definition demo_nonce :: "topoheight option \<Rightarrow> u64 \<Rightarrow> bytes" where
  "demo_nonce previous n = to_bytes (write_versioned_nonce \<lparr>vn_nonce = n, vn_previous_topoheight = previous\<rparr>)"

definition demo_storage :: "(mem_db, unit) sled_storage" where
  "demo_storage = empty_storage\<lparr>ss_db := (\<lambda>_. [])
     (''nonces'' := [([7], to_be_bytes (5 :: u64))],
      ''versioned_nonces'' := [(get_versioned_key [7] 2, demo_nonce None 0), (get_versioned_key [7] 4, demo_nonce (Some 2) 1),
        (get_versioned_key [7] 5, demo_nonce (Some 4) 2)])\<rparr>"

lemma previous_of_nonce: "from_bytes (read_option read_u64) (demo_nonce previous n) = Inr previous"
proof -
  have "demo_nonce previous n = to_bytes (write_option write_u64 previous) @ to_be_bytes n"
    by (simp add: demo_nonce_def write_versioned_nonce_def codec_simps option_u64.write_append)
  then show ?thesis using option_u64.from_bytes_iff by (cases previous) auto
qed

definition demo_history :: "bytes \<Rightarrow> topoheight list" where
  "demo_history key = (if key = [7] then [5, 4, 2] else [])"

lemma demo_versions: "versions (sled_view mem_disk demo_storage) ''nonces'' ''versioned_nonces'' key (demo_history key)"
  by (auto simp: demo_history_def versions_def sled_view_def mem_disk_def demo_storage_def empty_storage_def version_at_def previous_of_nonce)

theorem unwinding_restores_past_witness:
  "\<exists>S'. act_each (delete_versioned_tree_at_topoheight mem_lib ''nonces'' ''versioned_nonces'') [4, 5] demo_storage = (Inr (), S') \<and>
     versions (sled_view mem_disk S') ''nonces'' ''versioned_nonces'' [7] [2] \<and>
     version_at (sled_view mem_disk S') ''versioned_nonces'' [7] 2 = Some (demo_nonce None 0)"
proof -
  obtain r S' where run: "act_each (delete_versioned_tree_at_topoheight mem_lib ''nonces'' ''versioned_nonces'') (map of_nat [4..<6]) demo_storage = (r, S')"
    by fastforce
  have bound: "unat t < 6" if "t \<in> set (demo_history key)" for key t using that by (auto simp: demo_history_def split: if_splits)
  have ok: "sled_ok demo_storage" by (simp add: sled_ok_def demo_storage_def empty_storage_def)
  have "r = Inr ()" "versions (sled_view mem_disk S') ''nonces'' ''versioned_nonces'' [7] (filter (\<lambda>t. unat t < 4) (demo_history [7]))"
    "unat t < 4 \<Longrightarrow> version_at (sled_view mem_disk S') ''versioned_nonces'' [7] t = version_at (sled_view mem_disk demo_storage) ''versioned_nonces'' [7] t" for t
    using unwinding_restores_past [OF mem.sled_db_axioms ok _ demo_versions bound _ _ run] by auto
  then have "r = Inr ()" "versions (sled_view mem_disk S') ''nonces'' ''versioned_nonces'' [7] [2]"
    "version_at (sled_view mem_disk S') ''versioned_nonces'' [7] 2 = version_at (sled_view mem_disk demo_storage) ''versioned_nonces'' [7] 2"
    by (simp_all add: demo_history_def)
  moreover have "version_at (sled_view mem_disk demo_storage) ''versioned_nonces'' [7] 2 = Some (demo_nonce None 0)"
    by (simp add: sled_view_def mem_disk_def demo_storage_def empty_storage_def version_at_def)
  moreover have "map of_nat [4..<6] = [4 :: u64, 5]" by (simp add: upt_rec)
  ultimately show ?thesis using run by auto
qed

end
