(* ===== verification/Bech32.thy ===== *)
theory Bech32
  imports Proofs
begin

text \<open>
  The text encoding of addresses (\<open>common/src/crypto/bech32.rs\<close>): a human readable part, a separator,
  and groups of five bits as characters, closed by a checksum. Strings are lists of ASCII codes; a
  string with other characters is not one the encoder makes, and the decoder finds no such character
  in its character set.
\<close>

unbundle bit_operations_syntax

section \<open>Operations\<close>

definition CHARSET :: "u8 list" where
  "CHARSET = map of_char ''qpzry9x8gf2tvdw0s3jn54khce6mua7l''"

definition GENERATOR :: "u32 list" where
  "GENERATOR = [0x3b6a57b2, 0x26508e6d, 0x1ea119fa, 0x3d4233dd, 0x2a1462b3]"

definition SEPARATOR :: u8 where "SEPARATOR = of_char CHR '':''"

datatype bech32_error =
    InvalidDataRange u16 u16
  | IllegalZeroPadding
  | NonZeroPadding
  | HrpEmpty
  | HrpInvalidCharacter u8
  | HrpMixCase
  | InvalidBech32Value u8 usize
  | SeparatorNotFound
  | SeparatorInvalidPosition usize
  | InvalidPrefix "u8 list" "u8 list"
  | InvalidChecksum
  | InvalidIndex usize

definition polymod_step :: "u32 \<Rightarrow> u8 \<Rightarrow> u32" where
  "polymod_step chk val =
     (let top = drop_bit 25 chk
      in fold (\<lambda>(i, item) chk. if (drop_bit i top) AND 1 = 1 then chk XOR item else chk) (enumerate 0 GENERATOR)
        (push_bit 5 (chk AND 0x1ffffff) XOR ucast val))"

definition polymod :: "u8 list \<Rightarrow> u32" where
  "polymod values = foldl polymod_step 1 values"

definition hrp_expand :: "u8 list \<Rightarrow> u8 list" where
  "hrp_expand hrp = map (drop_bit 5) hrp @ [0] @ map (\<lambda>c. c AND 31) hrp"

definition verify_checksum :: "u8 list \<Rightarrow> u8 list \<Rightarrow> bool" where
  "verify_checksum hrp data \<longleftrightarrow> polymod (hrp_expand hrp @ data) = 1"

definition create_checksum :: "u8 list \<Rightarrow> u8 list \<Rightarrow> u8 list" where
  "create_checksum hrp data =
     (let p = polymod (hrp_expand hrp @ data @ replicate 6 0) XOR 1
      in map (\<lambda>i. ucast (drop_bit (5 * (5 - i)) p AND 31)) [0..<6])"

text \<open>The inner loop of \<open>convert_bits\<close>: groups leave the accumulator from the top.\<close>

function take_groups :: "u16 \<Rightarrow> nat \<Rightarrow> nat \<Rightarrow> u8 list \<Rightarrow> nat \<times> u8 list" where
  "take_groups acc bits to_bits result =
     (if to_bits \<le> bits \<and> 0 < to_bits
      then take_groups acc (bits - to_bits) to_bits (result @ [ucast (drop_bit (bits - to_bits) acc AND (2 ^ to_bits - 1))])
      else (bits, result))"
  by pat_completeness auto
termination by (relation "measure (\<lambda>(acc, bits, to_bits, result). bits)") auto

declare take_groups.simps [simp del]

fun convert_loop :: "nat \<Rightarrow> nat \<Rightarrow> u8 list \<Rightarrow> u16 \<Rightarrow> nat \<Rightarrow> u8 list \<Rightarrow> bech32_error + u16 \<times> nat \<times> u8 list" where
  "convert_loop from_bits to_bits [] acc bits result = Inr (acc, bits, result)"
| "convert_loop from_bits to_bits (v # data) acc bits result =
     (let val = ucast v :: u16 in
      if drop_bit from_bits val \<noteq> 0 then Inl (InvalidDataRange val (of_nat from_bits))
      else let acc = push_bit from_bits acc OR val;
               (bits, result) = take_groups acc (bits + from_bits) to_bits result
        in convert_loop from_bits to_bits data acc bits result)"

definition convert_bits :: "u8 list \<Rightarrow> nat \<Rightarrow> nat \<Rightarrow> bool \<Rightarrow> bech32_error + u8 list" where
  "convert_bits data from_bits to_bits pad =
     (case convert_loop from_bits to_bits data 0 0 [] of Inl e \<Rightarrow> Inl e
      | Inr (acc, bits, result) \<Rightarrow>
          let rest = push_bit (to_bits - bits) acc AND (2 ^ to_bits - 1) in
          if pad then Inr (if bits > 0 then result @ [ucast rest] else result)
          else if bits \<ge> from_bits then Inl IllegalZeroPadding
          else if rest \<noteq> 0 then Inl NonZeroPadding
          else Inr result)"

definition to_upper :: "u8 list \<Rightarrow> u8 list" where
  "to_upper = map (\<lambda>c. if 97 \<le> c \<and> c \<le> 122 then c - 32 else c)"

definition to_lower :: "u8 list \<Rightarrow> u8 list" where
  "to_lower = map (\<lambda>c. if 65 \<le> c \<and> c \<le> 90 then c + 32 else c)"

definition check_hrp :: "u8 list \<Rightarrow> bech32_error + unit" where
  "check_hrp hrp = (case List.find (\<lambda>c. c < 33 \<or> c > 126) hrp of Some c \<Rightarrow> Inl (HrpInvalidCharacter c) | None \<Rightarrow> Inr ())"

fun encode_values :: "u8 list \<Rightarrow> bech32_error + u8 list" where
  "encode_values [] = Inr []"
| "encode_values (v # vs) =
     (if v > of_nat (length CHARSET) then Inl (InvalidBech32Value v (length CHARSET))
      else if unat v < length CHARSET then and_then (encode_values vs) (\<lambda>cs. Inr (CHARSET ! unat v # cs))
      else Inl (InvalidIndex (unat v)))"

definition encode :: "u8 list \<Rightarrow> u8 list \<Rightarrow> bech32_error + u8 list" where
  "encode hrp data =
     (if hrp = [] then Inl HrpEmpty
      else and_then (check_hrp hrp) (\<lambda>_.
        if to_upper hrp \<noteq> hrp \<and> to_lower hrp \<noteq> hrp then Inl HrpMixCase
        else let hrp = to_lower hrp in
          and_then (encode_values (data @ create_checksum hrp data)) (\<lambda>cs. Inr (hrp @ [SEPARATOR] @ cs))))"

fun index_of :: "'a \<Rightarrow> 'a list \<Rightarrow> nat option" where
  "index_of c [] = None"
| "index_of c (x # xs) = (if c = x then Some 0 else map_option Suc (index_of c xs))"

fun decode_values :: "u8 list \<Rightarrow> bech32_error + u8 list" where
  "decode_values [] = Inr []"
| "decode_values (c # cs) = (case index_of c CHARSET of None \<Rightarrow> Inl (HrpInvalidCharacter c)
     | Some v \<Rightarrow> and_then (decode_values cs) (\<lambda>vs. Inr (of_nat v # vs)))"

definition rfind :: "'a \<Rightarrow> 'a list \<Rightarrow> nat option" where
  "rfind c xs = map_option (\<lambda>i. length xs - 1 - i) (index_of c (rev xs))"

definition decode :: "u8 list \<Rightarrow> bech32_error + u8 list \<times> u8 list" where
  "decode bech =
     (if to_upper bech \<noteq> bech \<and> to_lower bech \<noteq> bech then Inl HrpMixCase
      else case rfind SEPARATOR bech of None \<Rightarrow> Inl SeparatorNotFound
      | Some pos \<Rightarrow>
          if pos < 1 \<or> pos + 7 > length bech then Inl (SeparatorInvalidPosition pos)
          else let hrp = take pos bech in
            and_then (check_hrp hrp) (\<lambda>_.
            and_then (decode_values (drop (pos + 1) bech)) (\<lambda>data.
            if \<not> verify_checksum hrp data then Inl InvalidChecksum
            else Inr (hrp, take (length data - 6) data))))"

section \<open>The checksum is linear\<close>

text \<open>A step shifts the state, which is linear over XOR, and adds the value.\<close>

definition top_term :: "nat \<Rightarrow> u32 \<Rightarrow> u32 \<Rightarrow> u32" where
  "top_term i g chk = (if bit chk (25 + i) then g else 0)"

definition shift :: "u32 \<Rightarrow> u32" where
  "shift chk = push_bit 5 (chk AND 0x1ffffff) XOR top_term 0 0x3b6a57b2 chk XOR top_term 1 0x26508e6d chk XOR
     top_term 2 0x1ea119fa chk XOR top_term 3 0x3d4233dd chk XOR top_term 4 0x2a1462b3 chk"

lemma and_one_bit: "(w :: u32) AND 1 = 1 \<longleftrightarrow> bit w 0"
  by (metis bit_0 and_one_eq odd_iff_mod_2_eq_one)

lemma polymod_step_shift: "polymod_step chk v = shift chk XOR ucast v"
proof -
  have bits: "(drop_bit i (drop_bit 25 chk)) AND 1 = 1 \<longleftrightarrow> bit chk (25 + i)" for i
    by (simp add: and_one_bit bit_drop_bit_eq add.commute)
  have step: "(if c then x XOR g else x) = x XOR (if c then g else 0)" for c and x g :: u32 by simp
  show ?thesis
    unfolding polymod_step_def shift_def top_term_def GENERATOR_def Let_def
    by (simp only: enumerate_simps fold_simps prod.case bits step) (simp add: ac_simps)
qed

lemma shift_xor: "shift (a XOR b) = shift a XOR shift b"
proof -
  have top: "top_term i g (a XOR b) = top_term i g a XOR top_term i g b" for i g
    by (simp add: top_term_def bit_xor_iff)
  have low: "push_bit 5 ((a XOR b) AND 0x1ffffff) = push_bit 5 (a AND 0x1ffffff) XOR push_bit 5 (b AND 0x1ffffff)"
    by (rule bit_eqI) (auto simp: bit_simps)
  show ?thesis by (simp only: shift_def top low ac_simps)
qed

lemma foldl_xor: "foldl polymod_step (a XOR d) vs = foldl polymod_step a vs XOR (shift ^^ length vs) d"
proof (induction vs arbitrary: a d)
  case (Cons v vs)
  have "polymod_step (a XOR d) v = polymod_step a v XOR shift d"
    by (simp add: polymod_step_shift shift_xor ac_simps)
  then show ?case by (simp add: Cons.IH funpow_swap1)
qed simp

text \<open>States have thirty bits; a state without the upper five is just shifted.\<close>

lemma low_25: "q AND 0x1ffffff = take_bit 25 q" for q :: u32
  by (simp add: take_bit_eq_mask mask_eq_exp_minus_1)

lemma shift_small: "take_bit 25 q = q \<Longrightarrow> shift q = push_bit 5 q"
proof -
  assume small: "take_bit 25 q = q"
  then have "\<not> bit q (25 + i)" for i by (metis bit_take_bit_iff not_add_less1)
  then have "top_term i g q = 0" for i g by (simp add: top_term_def)
  with small show ?thesis by (simp add: shift_def low_25)
qed

lemma take_30_shift: "take_bit 30 (shift q) = shift q"
proof -
  have "take_bit 30 (push_bit 5 (q AND 0x1ffffff)) = push_bit 5 (q AND 0x1ffffff)"
    unfolding low_25 by (rule bit_eqI) (auto simp: bit_simps)
  moreover have "take_bit 30 (top_term i g q) = top_term i g q" if "take_bit 30 g = g" for i g
    using that by (simp add: top_term_def)
  ultimately show ?thesis by (simp add: shift_def take_bit_xor)
qed

lemma take_30_value: "take_bit 30 (ucast (v :: u8) :: u32) = ucast v"
  by (rule bit_eqI) (auto simp: bit_simps dest: bit_imp_le_length)

lemma take_30_foldl: "take_bit 30 s = s \<Longrightarrow> take_bit 30 (foldl polymod_step s vs) = foldl polymod_step s vs"
  by (induction vs arbitrary: s) (simp_all add: polymod_step_shift take_bit_xor take_30_shift take_30_value)

lemma take_30_polymod: "take_bit 30 (polymod vs) = polymod vs"
  unfolding polymod_def by (rule take_30_foldl) simp

section \<open>A written checksum verifies\<close>

lemma horner:
  "take_bit 25 q = q \<Longrightarrow> polymod_step (s XOR q) c = polymod_step s 0 XOR (push_bit 5 q XOR ucast c)"
  by (simp add: polymod_step_shift shift_xor shift_small ac_simps)

lemma drop_groups:
  "drop_bit n p = push_bit 5 (drop_bit (n + 5) p) XOR ucast (ucast (drop_bit n p AND 31) :: u8)" for p :: u32
proof -
  have "drop_bit n p AND 31 = take_bit 5 (drop_bit n p)" by (simp add: take_bit_eq_mask mask_eq_exp_minus_1)
  then show ?thesis
    by (intro bit_eqI) (auto simp: bit_simps dest: bit_imp_le_length)
qed

lemma checksum_steps:
  fixes p s :: u32
  assumes "take_bit 30 p = p"
  shows "foldl polymod_step s (map (\<lambda>i. ucast (drop_bit (5 * (5 - i)) p AND 31)) [0..<6]) =
    foldl polymod_step s (replicate 6 0) XOR p"
proof -
  let ?c = "\<lambda>n. ucast (drop_bit n p AND 31) :: u8"
  have small: "take_bit 25 (drop_bit n p) = drop_bit n p" if "5 \<le> n" for n
    by (subst (2) assms [symmetric], subst assms [symmetric]) (use that in \<open>auto simp: bit_eq_iff bit_simps\<close>)
  have top: "drop_bit 30 p = 0" by (subst assms [symmetric]) (auto simp: bit_eq_iff bit_simps)
  have step: "polymod_step (x XOR drop_bit (n + 5) p) (?c n) = polymod_step x 0 XOR drop_bit n p" for x n
    using horner [OF small, of "n + 5" x "?c n"] drop_groups [of n p] by simp
  have list: "map (\<lambda>i. ucast (drop_bit (5 * (5 - i)) p AND 31)) [0..<6] = [?c 25, ?c 20, ?c 15, ?c 10, ?c 5, ?c 0]"
    by (simp add: upt_rec)
  have "foldl polymod_step (s XOR drop_bit 30 p) [?c 25, ?c 20, ?c 15, ?c 10, ?c 5, ?c 0] =
      foldl polymod_step s (replicate 6 0) XOR drop_bit 0 p"
    using step [of _ 25] step [of _ 20] step [of _ 15] step [of _ 10] step [of _ 5] step [of _ 0]
    by (simp add: eval_nat_numeral del: drop_bit_0)
  then show ?thesis by (simp only: list top) simp
qed

lemma checksum_verifies: "verify_checksum hrp (data @ create_checksum hrp data)"
proof -
  let ?x = "hrp_expand hrp @ data"
  let ?p = "polymod (?x @ replicate 6 0) XOR 1"
  have "take_bit 30 ?p = ?p" unfolding take_bit_xor take_30_polymod by simp
  from checksum_steps [OF this, of "foldl polymod_step 1 ?x"]
  have "polymod (?x @ create_checksum hrp data) = polymod (?x @ replicate 6 0) XOR ?p"
    by (simp add: polymod_def create_checksum_def Let_def)
  then show ?thesis by (simp add: verify_checksum_def)
qed

section \<open>A single wrong character is found\<close>

lemma shift_zero:
  assumes "take_bit 30 d = d" "shift d = 0"
  shows "d = 0"
proof -
  have "take_bit 5 (push_bit 5 (d AND 0x1ffffff)) = 0" by (rule bit_eqI) (auto simp: bit_simps)
  moreover have "take_bit 5 (top_term i g d) = (if bit d (25 + i) then take_bit 5 g else 0)" for i g
    by (simp add: top_term_def)
  ultimately have "take_bit 5 (shift d) = (if bit d 25 then 0x12 else 0) XOR (if bit d 26 then 0x0d else 0) XOR
      (if bit d 27 then 0x1a else 0) XOR (if bit d 28 then 0x1d else 0) XOR (if bit d 29 then 0x13 else 0)"
    by (simp add: shift_def take_bit_xor)
  with assms(2) have no: "\<not> bit d 25 \<and> \<not> bit d 26 \<and> \<not> bit d 27 \<and> \<not> bit d 28 \<and> \<not> bit d 29"
    by (auto split: if_splits)
  have "\<not> bit d n" if "25 \<le> n" for n
  proof (cases "n < 30")
    case True
    then have "n \<in> {25, 26, 27, 28, 29}" using that by auto
    with no show ?thesis by auto
  next
    case False
    then show ?thesis using assms(1) by (metis bit_take_bit_iff)
  qed
  then have high: "bit d n \<Longrightarrow> n < 25" for n by (meson not_le)
  then have "take_bit 25 d = d" by (intro bit_eqI) (auto simp: bit_simps)
  with assms(2) have "push_bit 5 d = 0" by (simp add: shift_small)
  then have "bit (push_bit 5 d) (n + 5) = False" for n by simp
  then have "\<not> bit d n" if "n < 25" for n using that by (simp add: bit_push_bit_iff)
  with high show ?thesis by (intro bit_eqI) auto
qed

lemma shifts_zero: "take_bit 30 d = d \<Longrightarrow> (shift ^^ n) d = 0 \<Longrightarrow> d = 0"
proof (induction n)
  case (Suc n)
  have "take_bit 30 ((shift ^^ n) d) = (shift ^^ n) d" using Suc.prems(1) by (cases n) (simp_all add: take_30_shift)
  from shift_zero [OF this] Suc show ?case by simp
qed simp

lemma xor_same: "a XOR b = a \<longleftrightarrow> b = 0" for a b :: u32
proof -
  have "b = a XOR (a XOR b)" by (simp flip: xor.assoc)
  also have "\<dots> = 0" if "a XOR b = a" by (simp only: that xor_self_eq)
  finally show ?thesis by auto
qed

lemma substitution_polymod:
  assumes "v \<noteq> v'"
  shows "polymod (xs @ v # ys) \<noteq> polymod (xs @ v' # ys)"
proof
  let ?s = "foldl polymod_step 1 xs"
  assume eq: "polymod (xs @ v # ys) = polymod (xs @ v' # ys)"
  let ?d = "ucast v XOR ucast v' :: u32"
  have "polymod_step ?s v = polymod_step ?s v' XOR ?d" by (simp add: polymod_step_shift ac_simps)
  with eq have "(shift ^^ length ys) ?d = 0" by (simp add: polymod_def foldl_xor xor_same)
  then have "?d = 0" by (intro shifts_zero [of ?d "length ys"]) (simp_all add: take_bit_xor take_30_value)
  then have "ucast v XOR (ucast v XOR ucast v' :: u32) = ucast v" by simp
  then have eq: "(ucast v :: u32) = ucast v'" by (simp flip: xor.assoc)
  have "bit v n = bit v' n" if "n < 8" for n using arg_cong [OF eq, of "\<lambda>w. bit w n"] that by (simp add: bit_simps)
  then have "v = v'" by (intro bit_word_eqI) simp
  with assms show False by simp
qed

section \<open>Strings\<close>

lemma unat_take_bit_less: "take_bit n v = v \<Longrightarrow> unat v < 2 ^ n" for v :: "'a::len word"
  by (metis take_bit_nat_less_exp unsigned_take_bit_eq)

lemma charset [simp]: "length CHARSET = 32" "distinct CHARSET" "SEPARATOR \<notin> set CHARSET"
  "\<forall>c \<in> set CHARSET. \<not> (65 \<le> c \<and> c \<le> 90)"
  by (simp_all add: CHARSET_def SEPARATOR_def of_char_def)

lemma and_then_Inr: "and_then m f = Inr y \<longleftrightarrow> (\<exists>x. m = Inr x \<and> f x = Inr y)"
  by (simp add: and_then_def split: sum.split)

lemma index_of_nth: "distinct xs \<Longrightarrow> i < length xs \<Longrightarrow> index_of (xs ! i) xs = Some i"
  by (induction xs arbitrary: i) (auto simp: nth_Cons split: nat.splits)

lemma index_of_first: "c \<notin> set xs \<Longrightarrow> index_of c (xs @ c # ys) = Some (length xs)"
  by (induction xs) auto

lemma index_of_Some: "index_of c xs = Some i \<Longrightarrow> i < length xs \<and> xs ! i = c"
  by (induction xs arbitrary: i) (auto split: if_splits)

lemma index_of_None: "index_of c xs = None \<longleftrightarrow> c \<notin> set xs"
  by (induction xs) auto

definition chars :: "u8 list \<Rightarrow> u8 list" where
  "chars vs = map (\<lambda>v. CHARSET ! unat v) vs"

lemma encode_values_iff: "encode_values vs = Inr cs \<longleftrightarrow> (\<forall>v \<in> set vs. unat v < 32) \<and> cs = chars vs"
proof (induction vs arbitrary: cs)
  case (Cons v vs)
  have "\<not> 32 < v" if "unat v < 32" using that by (simp add: word_less_nat_alt)
  then show ?case by (auto simp: chars_def and_then_Inr Cons.IH)
qed (auto simp: chars_def)

lemma decode_chars: "\<forall>v \<in> set vs. unat v < 32 \<Longrightarrow> decode_values (chars vs) = Inr vs"
  by (induction vs) (simp_all add: chars_def index_of_nth and_then_def)

lemma chars_charset: "\<forall>v \<in> set vs. unat v < 32 \<Longrightarrow> set (chars vs) \<subseteq> set CHARSET"
  by (auto simp: chars_def)

lemma decode_values_ok: "set cs \<subseteq> set CHARSET \<Longrightarrow> \<exists>vs. decode_values cs = Inr vs \<and> cs = chars vs \<and> (\<forall>v \<in> set vs. unat v < 32)"
proof (induction cs)
  case (Cons c cs)
  then obtain vs where vs: "decode_values cs = Inr vs" "cs = chars vs" "\<forall>v \<in> set vs. unat v < 32" by auto
  obtain i where i: "index_of c CHARSET = Some i" using Cons.prems by (cases "index_of c CHARSET") (auto simp: index_of_None)
  with index_of_Some [OF i] have "i < 32" "CHARSET ! i = c" by simp_all
  then show ?case using vs i by (auto simp: and_then_def chars_def unat_of_nat)
qed (simp add: chars_def)

lemma rfind_separator: "SEPARATOR \<notin> set cs \<Longrightarrow> rfind SEPARATOR (hrp @ SEPARATOR # cs) = Some (length hrp)"
  using index_of_first [of SEPARATOR "rev cs" "rev hrp"] by (simp add: rfind_def)

lemma to_lower_idem [simp]: "to_lower (to_lower s) = to_lower s"
proof -
  have "\<not> (65 \<le> c + 32 \<and> c + 32 \<le> 90)" if "65 \<le> c" "c \<le> 90" for c :: u8
    using that by (simp add: word_le_nat_alt unat_word_ariths)
  then show ?thesis by (auto simp: to_lower_def)
qed

lemma check_hrp_iff: "check_hrp hrp = Inr () \<longleftrightarrow> (\<forall>c \<in> set hrp. 33 \<le> c \<and> c \<le> 126)"
proof (cases "List.find (\<lambda>c. c < 33 \<or> c > 126) hrp")
  case None
  then have "\<not> (\<exists>c. c \<in> set hrp \<and> (c < 33 \<or> 126 < c))" by (simp only: find_None_iff) blast
  with None show ?thesis by (auto simp: check_hrp_def not_less)
next
  case (Some c)
  then have "c \<in> set hrp" "c < 33 \<or> 126 < c" by (auto simp: find_Some_iff)
  with Some show ?thesis by (simp add: check_hrp_def) (meson linorder_not_le)
qed

lemma check_hrp_lower: "check_hrp hrp = Inr () \<Longrightarrow> check_hrp (to_lower hrp) = Inr ()"
proof -
  have "33 \<le> c + 32 \<and> c + 32 \<le> 126" if "65 \<le> c" "c \<le> 90" for c :: u8
    using that by (simp add: word_le_nat_alt unat_word_ariths)
  then show "check_hrp hrp = Inr () \<Longrightarrow> check_hrp (to_lower hrp) = Inr ()" by (auto simp: check_hrp_iff to_lower_def)
qed

lemma to_lower_chars: "set cs \<subseteq> set CHARSET \<Longrightarrow> to_lower cs = cs"
  using charset(4) by (auto simp: to_lower_def intro!: map_idI)

lemma encode_iff:
  "encode hrp data = Inr s \<longleftrightarrow> hrp \<noteq> [] \<and> check_hrp hrp = Inr () \<and> (to_upper hrp = hrp \<or> to_lower hrp = hrp) \<and>
     (\<forall>v \<in> set (data @ create_checksum (to_lower hrp) data). unat v < 32) \<and>
     s = to_lower hrp @ SEPARATOR # chars (data @ create_checksum (to_lower hrp) data)"
  by (auto simp: encode_def and_then_Inr Let_def encode_values_iff)

lemma length_checksum [simp]: "length (create_checksum hrp data) = 6"
  by (simp add: create_checksum_def Let_def)

lemma create_checksum_small: "\<forall>v \<in> set (create_checksum hrp data). unat v < 32"
proof -
  have "unat (ucast (x AND 31) :: u8) < 32" for x :: u32
  proof -
    have "x AND 31 = take_bit 5 x" by (simp add: take_bit_eq_mask mask_eq_exp_minus_1)
    then have "take_bit 5 (ucast (x AND 31) :: u8) = ucast (x AND 31)" by (auto simp: bit_eq_iff bit_simps)
    from unat_take_bit_less [OF this] show ?thesis by simp
  qed
  then show ?thesis by (auto simp: create_checksum_def Let_def)
qed

text \<open>What the decoder makes of a string with a valid human readable part and characters of the set.\<close>

lemma decode_string:
  assumes "hrp \<noteq> []" "check_hrp hrp = Inr ()" "to_lower hrp = hrp" "\<forall>v \<in> set vs. unat v < 32" "6 \<le> length vs"
  shows "decode (hrp @ SEPARATOR # chars vs) =
    (if verify_checksum hrp vs then Inr (hrp, take (length vs - 6) vs) else Inl InvalidChecksum)"
proof -
  have sep: "SEPARATOR \<notin> set (chars vs)" using chars_charset [OF assms(4)] charset(3) by blast
  have "to_lower [SEPARATOR] = [SEPARATOR]" by (simp add: to_lower_def SEPARATOR_def of_char_def)
  then have "to_lower (hrp @ [SEPARATOR] @ chars vs) = hrp @ [SEPARATOR] @ chars vs"
    using assms(3) to_lower_chars [OF chars_charset [OF assms(4)]] by (simp add: to_lower_def)
  moreover have "length (chars vs) = length vs" by (simp add: chars_def)
  ultimately show ?thesis
    using assms rfind_separator [OF sep, of hrp] decode_chars [OF assms(4)]
    by (simp add: decode_def and_then_def Let_def Suc_le_eq)
qed

lemma decode_encode:
  assumes "encode hrp data = Inr s"
  shows "decode s = Inr (to_lower hrp, data)"
proof -
  from assms [unfolded encode_iff] show ?thesis
    using decode_string [of "to_lower hrp" "data @ create_checksum (to_lower hrp) data"] checksum_verifies [of "to_lower hrp" data]
    by (auto simp: check_hrp_lower) (auto simp: to_lower_def)
qed

section \<open>Bits\<close>

text \<open>Groups of bits, most significant first; the bits of the accumulator that were not taken yet.\<close>

definition group_bits :: "nat \<Rightarrow> 'a::len word \<Rightarrow> bool list" where
  "group_bits n w = map (bit w) (rev [0..<n])"

definition all_bits :: "nat \<Rightarrow> u8 list \<Rightarrow> bool list" where
  "all_bits n ws = concat (map (group_bits n) ws)"

lemma length_group_bits [simp]: "length (group_bits n w) = n"
  by (simp add: group_bits_def)

lemma length_all_bits [simp]: "length (all_bits n ws) = n * length ws"
  by (induction ws) (simp_all add: all_bits_def)

lemma all_bits_simps [simp]: "all_bits n [] = []" "all_bits n (w # ws) = group_bits n w @ all_bits n ws"
  "all_bits n (ws @ vs) = all_bits n ws @ all_bits n vs"
  by (simp_all add: all_bits_def)

lemma group_bits_cong: "(\<And>i. i < n \<Longrightarrow> bit v i = bit w i) \<Longrightarrow> group_bits n v = group_bits n w"
  by (simp add: group_bits_def)

lemma group_bits_8_inject: "group_bits 8 (v :: u8) = group_bits 8 w \<Longrightarrow> v = w"
  by (rule bit_word_eqI) (simp add: group_bits_def)

lemma group_bits_split: "m \<le> n \<Longrightarrow> group_bits n w = group_bits (n - m) (drop_bit m w) @ group_bits m w"
proof -
  assume le: "m \<le> n"
  then have "[m..<n] = map (\<lambda>i. i + m) [0..<n - m]" by (simp add: map_add_upt)
  then have "rev [0..<n] = map (\<lambda>i. i + m) (rev [0..<n - m]) @ rev [0..<m]"
    using upt_add_eq_append [of 0 m "n - m"] le by (simp add: rev_map)
  then show ?thesis by (simp add: group_bits_def bit_drop_bit_eq add.commute)
qed

lemma all_bits_inject: "all_bits 8 vs = all_bits 8 ws \<Longrightarrow> length vs = length ws \<Longrightarrow> vs = ws"
proof (induction vs arbitrary: ws)
  case (Cons v vs)
  then obtain w ws' where "ws = w # ws'" by (cases ws) auto
  with Cons group_bits_8_inject show ?case by auto
qed simp

lemma take_groups_bits:
  assumes "take_groups acc bits n result = (bits', result')" "0 < n" "n \<le> 8"
  shows "all_bits n result' @ group_bits bits' acc = all_bits n result @ group_bits bits acc \<and> bits' < n \<and>
    (\<forall>v \<in> set result'. v \<in> set result \<or> unat v < 2 ^ n)"
  using assms
proof (induction acc bits n result rule: take_groups.induct)
  case (1 acc bits n result)
  show ?case
  proof (cases "n \<le> bits")
    case False
    then show ?thesis using 1(2) by (subst (asm) take_groups.simps) auto
  next
    case True
    let ?g = "ucast (drop_bit (bits - n) acc AND (2 ^ n - 1)) :: u8"
    have mask: "drop_bit (bits - n) acc AND (2 ^ n - 1) = take_bit n (drop_bit (bits - n) acc)"
      by (simp add: take_bit_eq_mask mask_eq_exp_minus_1)
    have g: "group_bits n ?g = group_bits n (drop_bit (bits - n) acc)"
      unfolding mask using 1(4) by (intro group_bits_cong) (auto simp: bit_simps)
    have small: "unat ?g < 2 ^ n"
      unfolding mask by (rule unat_take_bit_less, rule bit_eqI) (auto simp: bit_simps)
    have "take_groups acc (bits - n) n (result @ [?g]) = (bits', result')"
      using 1(2,3) True by (subst (asm) take_groups.simps) simp
    from 1(1) [OF _ this 1(3,4)] True 1(3) small show ?thesis
      using group_bits_split [of "bits - n" bits acc] by (auto simp: g)
  qed
qed

lemma join_bits:
  fixes acc :: u16 and v :: u8
  assumes "drop_bit n (ucast v :: u16) = 0" "bits + n \<le> 16" "n \<le> 8"
  shows "group_bits (bits + n) (push_bit n acc OR ucast v) = group_bits bits acc @ group_bits n v"
proof -
  have no: "\<not> bit (ucast v :: u16) (i + n)" for i
    using arg_cong [OF assms(1), of "\<lambda>w. bit w i"] by (simp add: bit_simps add.commute)
  have "group_bits bits (drop_bit n (push_bit n acc OR ucast v)) = group_bits bits acc"
    using assms(2) no by (intro group_bits_cong) (auto simp: bit_simps add.commute)
  moreover have "group_bits n (push_bit n acc OR ucast v) = group_bits n v"
    unfolding group_bits_def using assms(3) by (auto simp: bit_simps)
  ultimately show ?thesis using group_bits_split [of n "bits + n" "push_bit n acc OR ucast v"] by simp
qed

lemma convert_loop_bits:
  assumes "n \<le> 8" "0 < m" "m \<le> 8" "bits < m" "\<forall>v \<in> set data. drop_bit n (ucast v :: u16) = 0"
  shows "\<exists>acc' bits' result'. convert_loop n m data acc bits result = Inr (acc', bits', result') \<and> bits' < m \<and>
    all_bits m result' @ group_bits bits' acc' = all_bits m result @ group_bits bits acc @ all_bits n data \<and>
    (\<forall>v \<in> set result'. v \<in> set result \<or> unat v < 2 ^ m)"
  using assms(4,5)
proof (induction data arbitrary: acc bits result)
  case (Cons v data)
  let ?acc = "push_bit n acc OR ucast v :: u16"
  obtain bits1 result1 where 1: "take_groups ?acc (bits + n) m result = (bits1, result1)" by (cases "take_groups ?acc (bits + n) m result")
  note g = take_groups_bits [OF 1 assms(2,3)]
  have j: "group_bits (bits + n) ?acc = group_bits bits acc @ group_bits n v"
    using Cons.prems assms(1,3) by (intro join_bits) simp_all
  from Cons.IH [of bits1 ?acc result1] g Cons.prems obtain acc' bits' result' where
    2: "convert_loop n m data ?acc bits1 result1 = Inr (acc', bits', result')" "bits' < m"
    "all_bits m result' @ group_bits bits' acc' = all_bits m result1 @ group_bits bits1 ?acc @ all_bits n data"
    "\<forall>v \<in> set result'. v \<in> set result1 \<or> unat v < 2 ^ m" by auto
  have "all_bits m result' @ group_bits bits' acc' = all_bits m result @ group_bits bits acc @ all_bits n (v # data)"
    using 2(3) g j by simp
  moreover have "convert_loop n m (v # data) acc bits result = Inr (acc', bits', result')"
    using Cons.prems 1 2(1) by (simp add: Let_def)
  ultimately show ?case using 2 g by blast
qed (simp add: group_bits_def)

lemma zero_padding:
  fixes acc :: u16
  assumes "bits < m" "m \<le> 8"
  shows "group_bits m (ucast (push_bit (m - bits) acc AND (2 ^ m - 1)) :: u8) = group_bits bits acc @ replicate (m - bits) False"
    "(\<forall>i < bits. \<not> bit acc i) \<Longrightarrow> push_bit (m - bits) acc AND (2 ^ m - 1) = 0"
    "unat (ucast (push_bit (m - bits) acc AND (2 ^ m - 1)) :: u8) < 2 ^ m"
proof -
  have mask: "push_bit (m - bits) acc AND (2 ^ m - 1) = take_bit m (push_bit (m - bits) acc)"
    by (simp add: take_bit_eq_mask mask_eq_exp_minus_1)
  let ?w = "ucast (take_bit m (push_bit (m - bits) acc)) :: u8"
  have "group_bits m ?w = group_bits (m - (m - bits)) (drop_bit (m - bits) ?w) @ group_bits (m - bits) ?w"
    by (rule group_bits_split) simp
  moreover have "group_bits (m - bits) ?w = replicate (m - bits) False"
    by (intro nth_equalityI) (use assms in \<open>auto simp: group_bits_def rev_nth bit_simps\<close>)
  moreover have "group_bits bits (drop_bit (m - bits) ?w) = group_bits bits acc"
    unfolding group_bits_def using assms by (auto simp: bit_simps)
  ultimately show "group_bits m (ucast (push_bit (m - bits) acc AND (2 ^ m - 1)) :: u8) = group_bits bits acc @ replicate (m - bits) False"
    using assms(1) by (simp add: mask)
  show "push_bit (m - bits) acc AND (2 ^ m - 1) = 0" if "\<forall>i < bits. \<not> bit acc i"
    unfolding mask using that assms by (intro bit_eqI) (auto simp: bit_simps)
  show "unat (ucast (push_bit (m - bits) acc AND (2 ^ m - 1)) :: u8) < 2 ^ m"
    unfolding mask by (rule unat_take_bit_less, rule bit_eqI) (auto simp: bit_simps)
qed

lemma convert_to_groups:
  obtains gs k where "convert_bits data 8 5 True = Inr gs" "\<forall>v \<in> set gs. unat v < 32" "k < 5"
    "all_bits 5 gs = all_bits 8 data @ replicate k False"
proof -
  have "\<forall>v \<in> set data. drop_bit 8 (ucast v :: u16) = 0"
    by (auto simp: bit_eq_iff bit_simps dest: bit_imp_le_length)
  with convert_loop_bits [of 8 5 0 data 0 "[]"] obtain acc bits result where
    r: "convert_loop 8 5 data 0 0 [] = Inr (acc, bits, result)" "bits < 5" "all_bits 5 result @ group_bits bits acc = all_bits 8 data"
    "\<forall>v \<in> set result. unat v < 2 ^ 5" by (auto simp: group_bits_def)
  let ?rest = "push_bit (5 - bits) acc AND (2 ^ 5 - 1)"
  note pad = zero_padding [of bits 5 acc, OF r(2)]
  show thesis
  proof (rule that [of "if bits > 0 then result @ [ucast ?rest] else result" "if bits > 0 then 5 - bits else 0"])
    show "convert_bits data 8 5 True = Inr (if bits > 0 then result @ [ucast ?rest] else result)"
      by (simp add: convert_bits_def r(1) Let_def)
  qed (use r pad in \<open>auto simp: group_bits_def\<close>)
qed

text \<open>Bytes go through groups of five bits and back.\<close>

lemma convert_bits_roundtrip:
  assumes "\<forall>v \<in> set gs. unat v < 32" "k < 5" "all_bits 5 gs = all_bits 8 data @ replicate k False"
  shows "convert_bits gs 5 8 False = Inr data"
proof -
  have "drop_bit 5 (ucast v :: u16) = 0" if "unat v < 32" for v :: u8
  proof -
    have "take_bit 5 (unat v) = unat v" using that by (simp add: take_bit_nat_eq_self_iff)
    then have "take_bit 5 v = v" by (simp add: word_unat_eq_iff unsigned_take_bit_eq)
    then have "\<not> bit v (5 + i)" for i by (metis bit_take_bit_iff not_add_less1)
    then show ?thesis by (auto simp: bit_eq_iff bit_simps)
  qed
  then have "\<forall>v \<in> set gs. drop_bit 5 (ucast v :: u16) = 0" using assms(1) by blast
  with convert_loop_bits [of 5 8 0 gs 0 "[]"] obtain acc bits result where
    r: "convert_loop 5 8 gs 0 0 [] = Inr (acc, bits, result)" "bits < 8" "all_bits 8 result @ group_bits bits acc = all_bits 5 gs"
    by (auto simp: group_bits_def)
  then have eq: "all_bits 8 result @ group_bits bits acc = all_bits 8 data @ replicate k False" using assms(3) by simp
  have "8 * length result + bits = 8 * length data + k" using arg_cong [OF eq, of length] by simp
  then have len: "length result = length data" "bits = k" using r(2) assms(2) by presburger+
  then have "result = data" "group_bits k acc = replicate k False" using eq by (auto intro!: all_bits_inject)
  then have "\<forall>i < bits. \<not> bit acc i"
    unfolding len(2) by (metis (no_types, lifting) group_bits_def in_set_conv_nth in_set_replicate list.set_map image_eqI set_rev set_upt atLeastLessThan_iff zero_le)
  with zero_padding(2) [of bits 8 acc] show ?thesis
    using r(1,2) assms(2) \<open>result = data\<close> len(2) by (simp add: convert_bits_def Let_def)
qed

section \<open>Properties\<close>





end
