(* ===== verification/DataElement.thy ===== *)
theory DataElement
  imports Codecs
begin

text \<open>
  The structured data of integrated addresses, extra data and the API (\<open>common/src/api/data.rs\<close>):
  values, arrays and maps of any depth, with their codec. The nesting of what is read is bounded by
  the bytes that are left, since every element starts with a byte of its own: that number is the fuel
  of the reader, and without a byte left it fails as the reading of that byte does. A \<open>HashMap\<close> is an
  association list with distinct keys.
\<close>

section \<open>Values\<close>

datatype value_type = TBool | TString | TU8 | TU16 | TU32 | TU64 | TU128 | THash | TBlob

datatype data_value =
    DBool bool
  | DString "u8 list"
  | DU8 u8
  | DU16 u16
  | DU32 u32
  | DU64 u64
  | DU128 u128
  | DHash hash
  | DBlob "u8 list"

datatype data_element =
    Value data_value
  | Array "data_element list"
  | Fields "(data_value \<times> data_element) list"

datatype element_type = EValue value_type | EArray | EFields

datatype data_conversion_error =
    ExpectedValue
  | ExpectedArray
  | ExpectedElement
  | ExpectedMap
  | UnexpectedValue value_type

fun is_number :: "value_type \<Rightarrow> bool" where
  "is_number TU128 = True"
| "is_number TU64 = True"
| "is_number TU32 = True"
| "is_number TU16 = True"
| "is_number TU8 = True"
| "is_number _ = False"

fun value_type_id :: "value_type \<Rightarrow> u8" where
  "value_type_id TBool = 0"
| "value_type_id TString = 1"
| "value_type_id TU8 = 2"
| "value_type_id TU16 = 3"
| "value_type_id TU32 = 4"
| "value_type_id TU64 = 5"
| "value_type_id TU128 = 6"
| "value_type_id THash = 7"
| "value_type_id TBlob = 8"

definition write_value_type :: "value_type \<Rightarrow> writer \<Rightarrow> writer" where
  "write_value_type t = write_u8 (value_type_id t)"

definition read_value_type :: "value_type rd" where
  "read_value_type = rbind read_u8 (\<lambda>n.
     if n = 0 then rreturn TBool
     else if n = 1 then rreturn TString
     else if n = 2 then rreturn TU8
     else if n = 3 then rreturn TU16
     else if n = 4 then rreturn TU32
     else if n = 5 then rreturn TU64
     else if n = 6 then rreturn TU128
     else if n = 7 then rreturn THash
     else if n = 8 then rreturn TBlob
     else rfail InvalidValue)"

fun value_kind :: "data_value \<Rightarrow> value_type" where
  "value_kind (DBool _) = TBool"
| "value_kind (DString _) = TString"
| "value_kind (DU8 _) = TU8"
| "value_kind (DU16 _) = TU16"
| "value_kind (DU32 _) = TU32"
| "value_kind (DU64 _) = TU64"
| "value_kind (DU128 _) = TU128"
| "value_kind (DHash _) = THash"
| "value_kind (DBlob _) = TBlob"

text \<open>The conversions \<open>to_\<close> and \<open>as_\<close> differ in who owns the result.\<close>

fun to_bool :: "data_value \<Rightarrow> data_conversion_error + bool" where
  "to_bool (DBool v) = Inr v"
| "to_bool v = Inl (UnexpectedValue (value_kind v))"

fun to_string :: "data_value \<Rightarrow> data_conversion_error + u8 list" where
  "to_string (DString v) = Inr v"
| "to_string v = Inl (UnexpectedValue (value_kind v))"

fun to_u8 :: "data_value \<Rightarrow> data_conversion_error + u8" where
  "to_u8 (DU8 v) = Inr v"
| "to_u8 v = Inl (UnexpectedValue (value_kind v))"

fun to_u16 :: "data_value \<Rightarrow> data_conversion_error + u16" where
  "to_u16 (DU16 v) = Inr v"
| "to_u16 v = Inl (UnexpectedValue (value_kind v))"

fun to_u32 :: "data_value \<Rightarrow> data_conversion_error + u32" where
  "to_u32 (DU32 v) = Inr v"
| "to_u32 v = Inl (UnexpectedValue (value_kind v))"

fun to_u64 :: "data_value \<Rightarrow> data_conversion_error + u64" where
  "to_u64 (DU64 v) = Inr v"
| "to_u64 v = Inl (UnexpectedValue (value_kind v))"

fun to_u128 :: "data_value \<Rightarrow> data_conversion_error + u128" where
  "to_u128 (DU128 v) = Inr v"
| "to_u128 v = Inl (UnexpectedValue (value_kind v))"

fun to_hash :: "data_value \<Rightarrow> data_conversion_error + hash" where
  "to_hash (DHash v) = Inr v"
| "to_hash v = Inl (UnexpectedValue (value_kind v))"

fun to_blob :: "data_value \<Rightarrow> data_conversion_error + u8 list" where
  "to_blob (DBlob v) = Inr v"
| "to_blob v = Inl (UnexpectedValue (value_kind v))"

fun to_type :: "'a rd \<Rightarrow> data_value \<Rightarrow> data_conversion_error + 'a" where
  "to_type rd (DBlob v) = (case from_bytes rd v of Inr x \<Rightarrow> Inr x | Inl _ \<Rightarrow> Inl (UnexpectedValue TBlob))"
| "to_type rd v = Inl (UnexpectedValue (value_kind v))"

fun read_with_type :: "(u8 list \<Rightarrow> bool) \<Rightarrow> value_type \<Rightarrow> data_value rd" where
  "read_with_type utf8 TBool = rbind read_bool (\<lambda>v. rreturn (DBool v))"
| "read_with_type utf8 TString = rbind (read_string utf8) (\<lambda>v. rreturn (DString v))"
| "read_with_type utf8 TU8 = rbind read_u8 (\<lambda>v. rreturn (DU8 v))"
| "read_with_type utf8 TU16 = rbind read_u16 (\<lambda>v. rreturn (DU16 v))"
| "read_with_type utf8 TU32 = rbind read_u32 (\<lambda>v. rreturn (DU32 v))"
| "read_with_type utf8 TU64 = rbind read_u64 (\<lambda>v. rreturn (DU64 v))"
| "read_with_type utf8 TU128 = rbind read_u128 (\<lambda>v. rreturn (DU128 v))"
| "read_with_type utf8 THash = rbind read_hash (\<lambda>v. rreturn (DHash v))"
| "read_with_type utf8 TBlob = rbind (read_vec read_u8) (\<lambda>v. rreturn (DBlob v))"

fun write_no_type :: "data_value \<Rightarrow> writer \<Rightarrow> writer" where
  "write_no_type (DBool v) = write_bool v"
| "write_no_type (DString v) = write_string v"
| "write_no_type (DU8 v) = write_u8 v"
| "write_no_type (DU16 v) = write_u16 v"
| "write_no_type (DU32 v) = write_u32 v"
| "write_no_type (DU64 v) = write_u64 v"
| "write_no_type (DU128 v) = write_u128 v"
| "write_no_type (DHash v) = write_hash v"
| "write_no_type (DBlob v) = write_vec write_u8 v"

fun size_no_type :: "data_value \<Rightarrow> usize" where
  "size_no_type (DBool v) = 1"
| "size_no_type (DString v) = size_string v"
| "size_no_type (DU8 v) = 1"
| "size_no_type (DU16 v) = 2"
| "size_no_type (DU32 v) = 4"
| "size_no_type (DU64 v) = 8"
| "size_no_type (DU128 v) = 16"
| "size_no_type (DHash v) = size_hash v"
| "size_no_type (DBlob v) = size_vec (\<lambda>_. 1) v"

definition read_data_value :: "(u8 list \<Rightarrow> bool) \<Rightarrow> data_value rd" where
  "read_data_value utf8 = rbind read_value_type (read_with_type utf8)"

definition write_data_value :: "data_value \<Rightarrow> writer \<Rightarrow> writer" where
  "write_data_value v = writes [write_value_type (value_kind v), write_no_type v]"

definition data_value_size :: "data_value \<Rightarrow> usize" where
  "data_value_size v = size_no_type v + 1"

section \<open>Elements\<close>

fun has_key :: "data_value \<Rightarrow> data_element \<Rightarrow> bool" where
  "has_key key (Fields fs) = (map_of fs key \<noteq> None)"
| "has_key key _ = False"

fun get_value_by_key :: "data_value \<Rightarrow> value_type option \<Rightarrow> data_element \<Rightarrow> data_value option" where
  "get_value_by_key key value_type (Fields fs) = (case map_of fs key of
     Some (Value value) \<Rightarrow> (case value_type of
         Some data_type \<Rightarrow> if value_kind value \<noteq> data_type then None else Some value
       | None \<Rightarrow> Some value)
   | _ \<Rightarrow> None)"
| "get_value_by_key key value_type _ = None"

definition get_value_by_string_key :: "u8 list \<Rightarrow> value_type \<Rightarrow> data_element \<Rightarrow> data_value option" where
  "get_value_by_string_key name value_type = get_value_by_key (DString name) (Some value_type)"

fun element_kind :: "data_element \<Rightarrow> element_type" where
  "element_kind (Array _) = EArray"
| "element_kind (Fields _) = EFields"
| "element_kind (Value value) = EValue (value_kind value)"

fun to_value :: "data_element \<Rightarrow> data_conversion_error + data_value" where
  "to_value (Value v) = Inr v"
| "to_value _ = Inl ExpectedValue"

fun to_array_elements :: "data_element \<Rightarrow> data_conversion_error + data_element list" where
  "to_array_elements (Array v) = Inr v"
| "to_array_elements _ = Inl ExpectedArray"

fun to_map :: "data_element \<Rightarrow> data_conversion_error + (data_value \<times> data_element) list" where
  "to_map (Fields v) = Inr v"
| "to_map _ = Inl ExpectedMap"

text \<open>\<open>From\<close> and \<open>TryInto\<close> for vectors, with the conversions of the element as arguments.\<close>

definition element_from_vec :: "('a \<Rightarrow> data_value) \<Rightarrow> 'a list \<Rightarrow> data_element" where
  "element_from_vec into xs = Array (map (\<lambda>x. Value (into x)) xs)"

fun collect_results :: "('e + 'a) list \<Rightarrow> 'e + 'a list" where
  "collect_results [] = Inr []"
| "collect_results (Inl e # rs) = Inl e"
| "collect_results (Inr x # rs) = (case collect_results rs of Inl e \<Rightarrow> Inl e | Inr xs \<Rightarrow> Inr (x # xs))"

definition element_into :: "(data_value \<Rightarrow> data_conversion_error + 'a) \<Rightarrow> data_element \<Rightarrow> data_conversion_error + 'a" where
  "element_into conv e = (case e of Value v \<Rightarrow> conv v | _ \<Rightarrow> Inl ExpectedValue)"

definition element_into_vec ::
  "(data_value \<Rightarrow> data_conversion_error + 'a) \<Rightarrow> data_element \<Rightarrow> data_conversion_error + 'a list" where
  "element_into_vec conv e = (case e of
     Array v \<Rightarrow> collect_results (map (element_into conv) v) | _ \<Rightarrow> Inl ExpectedArray)"

fun read_element :: "(u8 list \<Rightarrow> bool) \<Rightarrow> nat \<Rightarrow> data_element rd" where
  "read_element utf8 0 = rfail InvalidSize"
| "read_element utf8 (Suc fuel) = rbind read_u8 (\<lambda>n.
     if n = 0 then rbind (read_data_value utf8) (\<lambda>v. rreturn (Value v))
     else if n = 1 then rbind read_u8 (\<lambda>size.
       rbind (read_times (unat size) (read_element utf8 fuel)) (\<lambda>values. rreturn (Array values)))
     else if n = 2 then rbind read_u8 (\<lambda>size.
       rbind (read_entries (unat size) (read_data_value utf8) (read_element utf8 fuel) []) (\<lambda>fs. rreturn (Fields fs)))
     else rfail InvalidValue)"

definition read_data_element :: "(u8 list \<Rightarrow> bool) \<Rightarrow> data_element rd" where
  "read_data_element utf8 r = read_element utf8 (rsize r) r"

fun write_data_element :: "data_element \<Rightarrow> writer \<Rightarrow> writer" where
  "write_data_element (Value v) = writes [write_u8 0, write_data_value v]"
| "write_data_element (Array vs) = writes [write_u8 1, write_u8 (of_nat (length vs)), fold id (map write_data_element vs)]"
| "write_data_element (Fields fs) = writes [write_u8 2, write_u8 (of_nat (length fs)),
     fold id (map (\<lambda>(k, v). writes [write_data_value k, write_data_element v]) fs)]"

fun data_element_size :: "data_element \<Rightarrow> usize" where
  "data_element_size (Value v) = 1 + data_value_size v"
| "data_element_size (Array vs) = 1 + (1 + sum_list (map data_element_size vs))"
| "data_element_size (Fields fs) = 1 + (1 + sum_list (map (\<lambda>(k, v). data_value_size k + data_element_size v) fs))"

section \<open>Codec laws\<close>

fun data_value_ok :: "(u8 list \<Rightarrow> bool) \<Rightarrow> data_value \<Rightarrow> bool" where
  "data_value_ok utf8 (DString s) = string_ok utf8 s"
| "data_value_ok utf8 (DHash h) = hash_ok h"
| "data_value_ok utf8 (DBlob b) = vec_ok (\<lambda>_. True) b"
| "data_value_ok utf8 _ = True"

fun data_element_ok :: "(u8 list \<Rightarrow> bool) \<Rightarrow> data_element \<Rightarrow> bool" where
  "data_element_ok utf8 (Value v) = data_value_ok utf8 v"
| "data_element_ok utf8 (Array vs) = (length vs < 256 \<and> (\<forall>v \<in> set vs. data_element_ok utf8 v))"
| "data_element_ok utf8 (Fields fs) = (length fs < 256 \<and> distinct (map fst fs) \<and>
     (\<forall>(k, v) \<in> set fs. data_value_ok utf8 k \<and> data_element_ok utf8 v))"

interpretation u8_vec: strict_serializer "write_vec write_u8" "read_vec read_u8" "size_vec (\<lambda>_. 1)" "vec_ok (\<lambda>_. True)"
  by (rule u8.strict_vec)

lemma value_type_codec: "reads read_value_type t [value_type_id t]" "reader_safe read_value_type"
proof -
  have "reads read_value_type t ([value_type_id t] @ [])"
    unfolding read_value_type_def by (rule reads_bind [OF reads_read_u8]) (cases t; simp add: reads_return)
  then show "reads read_value_type t [value_type_id t]" by simp
  show "reader_safe read_value_type" unfolding read_value_type_def by (intro codec_intros)
qed

lemma append_no_type: "append_only (write_no_type v)"
  by (cases v) (simp_all add: codec_simps hash.write_append u8_vec.write_append string.write_append)

lemma reads_no_type: "data_value_ok utf8 v \<Longrightarrow> reads (read_with_type utf8 (value_kind v)) v (to_bytes (write_no_type v))"
proof (cases v)
  case (DBool b)
  have "reads (read_with_type utf8 TBool) (DBool b) [if b then 1 else 0]"
    unfolding read_with_type.simps by (rule reads_bind_return [OF reads_read_bool refl])
  with DBool show ?thesis by (simp add: codec_simps)
next
  case (DString s)
  assume "data_value_ok utf8 v"
  with DString show ?thesis by (simp del: primitive_to_bytes) (rule reads_bind_return [OF string.read_write refl], simp)
qed (auto simp: codec_simps intro!: codec_intros hash.read_write u8_vec.read_write)

interpretation data_value: serializer write_data_value "read_data_value utf8" data_value_size "data_value_ok utf8" for utf8
proof
  show "append_only (write_data_value v)" for v
    by (simp add: write_data_value_def write_value_type_def codec_simps append_no_type)
  have bytes: "to_bytes (write_data_value v) = [value_type_id (value_kind v)] @ to_bytes (write_no_type v)" for v
    by (simp add: write_data_value_def write_value_type_def codec_simps append_no_type)
  show "reads (read_data_value utf8) v (to_bytes (write_data_value v))" if "data_value_ok utf8 v" for v
    unfolding bytes read_data_value_def by (rule reads_bind) (rule value_type_codec(1), rule reads_no_type [OF that])
  show "data_value_size v = length (to_bytes (write_data_value v))" if "data_value_ok utf8 v" for v
    using that hash.size_write u8_vec.size_write string.size_write
    by (cases v) (auto simp: bytes data_value_size_def codec_simps simp del: primitive_to_bytes(8))
  have "reader_safe (read_with_type utf8 t)" for t
    by (cases t) (auto intro!: codec_intros hash.read_safe u8_vec.read_safe)
  then show "reader_safe (read_data_value utf8)"
    unfolding read_data_value_def by (intro codec_intros value_type_codec)
qed

text \<open>Elements: enough fuel is the number of bytes of the element.\<close>

lemmas element_parts = append_only_comp primitive_append_only data_value.write_append

lemma append_element: "append_only (write_data_element e)"
proof (induction e rule: write_data_element.induct)
  case (2 vs)
  then have "append_only (fold id (map write_data_element vs))" by (intro append_only_fold) auto
  then show ?case unfolding write_data_element.simps writes.simps by (intro element_parts)
next
  case (3 fs)
  then have "append_only (fold id (map (\<lambda>(k, v). writes [write_data_value k, write_data_element v]) fs))"
    by (intro append_only_fold) (auto intro!: element_parts)
  then show ?case unfolding write_data_element.simps writes.simps by (intro element_parts)
qed (simp only: write_data_element.simps writes.simps, intro element_parts)

lemma to_bytes_element [simp]:
  "to_bytes (write_data_element (Value v)) = 0 # to_bytes (write_data_value v)"
  "to_bytes (write_data_element (Array vs)) = 1 # of_nat (length vs) # concat (map (\<lambda>v. to_bytes (write_data_element v)) vs)"
  "to_bytes (write_data_element (Fields fs)) = 2 # of_nat (length fs) #
     concat (map (\<lambda>(k, v). to_bytes (write_data_value k) @ to_bytes (write_data_element v)) fs)"
proof -
  show "to_bytes (write_data_element (Value v)) = 0 # to_bytes (write_data_value v)"
    unfolding write_data_element.simps writes.simps by (subst to_bytes_comp) (simp_all add: element_parts primitive_to_bytes)
  have array: "append_only f" if "f \<in> set (map write_data_element vs)" for f using that append_element by auto
  note all = append_only_fold [of "map write_data_element vs" id, simplified id_apply, OF array]
  show "to_bytes (write_data_element (Array vs)) = 1 # of_nat (length vs) # concat (map (\<lambda>v. to_bytes (write_data_element v)) vs)"
    unfolding write_data_element.simps writes.simps
    by (subst to_bytes_comp; (subst to_bytes_comp)?; (subst to_bytes_fold)?) (use array all in \<open>auto simp: element_parts primitive_to_bytes comp_def\<close>)
  let ?w = "\<lambda>(k, v). writes [write_data_value k, write_data_element v]"
  have bytes: "append_only (?w x)" "to_bytes (?w x) = (case x of (k, v) \<Rightarrow> to_bytes (write_data_value k) @ to_bytes (write_data_element v))" for x
    by (cases x; simp add: append_only_comp to_bytes_comp data_value.write_append append_element)+
  then have each: "append_only f" if "f \<in> set (map ?w fs)" for f using that by auto
  note all = append_only_fold [of "map ?w fs" id, simplified id_apply, OF each]
  show "to_bytes (write_data_element (Fields fs)) = 2 # of_nat (length fs) #
     concat (map (\<lambda>(k, v). to_bytes (write_data_value k) @ to_bytes (write_data_element v)) fs)"
    unfolding write_data_element.simps writes.simps(3) [of "write_u8 2"] writes.simps(3) [of "fcomp f g" for f g] writes.simps(2)
    by (subst to_bytes_comp; (subst to_bytes_comp)?; (subst to_bytes_fold)?) (use each all in \<open>auto simp: bytes [unfolded writes.simps] element_parts primitive_to_bytes comp_def\<close>)
qed

declare write_data_element.simps [simp del]

lemma reads_times_each:
  "(\<And>x. x \<in> set xs \<Longrightarrow> reads rd x (f x)) \<Longrightarrow> reads (read_times (length xs) rd) xs (concat (map f xs))"
  by (induction xs) (auto intro!: reads_return reads_bind reads_bind_return)

lemma reads_entries_each:
  "(\<And>k v. (k, v) \<in> set m \<Longrightarrow> reads rk k (f k) \<and> reads rv v (g v)) \<Longrightarrow> distinct (map fst (acc @ m)) \<Longrightarrow>
     reads (read_entries (length m) rk rv acc) (acc @ m) (concat (map (\<lambda>(k, v). f k @ g v) m))"
proof (induction m arbitrary: acc)
  case (Cons e m)
  obtain k v where e: "e = (k, v)" by (cases e)
  have "map_insert k v acc = acc @ [(k, v)]" using Cons.prems(2) by (intro map_insert_new) (auto simp: e)
  moreover have "reads (read_entries (length m) rk rv (acc @ [(k, v)])) ((acc @ [(k, v)]) @ m) (concat (map (\<lambda>(k, v). f k @ g v) m))"
    using Cons.prems by (intro Cons.IH) (auto simp: e)
  ultimately show ?case using Cons.prems(1) [of k v] by (auto simp: e intro!: reads_bind)
qed (simp add: reads_return)

lemma length_part: "x \<in> set xs \<Longrightarrow> length (f x) \<le> length (concat (map f xs))"
  by (induction xs) auto

lemma reads_element:
  "data_element_ok utf8 e \<Longrightarrow> length (to_bytes (write_data_element e)) \<le> fuel \<Longrightarrow>
     reads (read_element utf8 fuel) e (to_bytes (write_data_element e))"
proof (induction e arbitrary: fuel rule: write_data_element.induct)
  case (1 v)
  then obtain n where n: "fuel = Suc n" by (cases fuel) auto
  have "reads (read_element utf8 fuel) (Value v) ([0] @ to_bytes (write_data_value v))"
    unfolding n read_element.simps
    by (rule reads_bind [OF reads_read_u8]) (use 1 in \<open>simp add: reads_bind_return [OF data_value.read_write]\<close>)
  then show ?case by simp
next
  case (2 vs)
  then obtain n where n: "fuel = Suc n" by (cases fuel) auto
  have "length (to_bytes (write_data_element v)) \<le> n" if "v \<in> set vs" for v
    using length_part [OF that, of "\<lambda>v. to_bytes (write_data_element v)"] 2(3) by (simp add: n)
  then have "reads (read_times (length vs) (read_element utf8 n)) vs (concat (map (\<lambda>v. to_bytes (write_data_element v)) vs))"
    using 2 by (intro reads_times_each) simp
  moreover have "unat (of_nat (length vs) :: u8) = length vs" using 2(2) by (simp add: unat_of_nat)
  ultimately have "reads (rbind read_u8 (\<lambda>size. rbind (read_times (unat size) (read_element utf8 n)) (\<lambda>values. rreturn (Array values)))) (Array vs)
      ([of_nat (length vs)] @ concat (map (\<lambda>v. to_bytes (write_data_element v)) vs))"
    by (intro reads_bind [OF reads_read_u8] reads_bind_return) simp_all
  then have "reads (read_element utf8 fuel) (Array vs)
      ([1] @ [of_nat (length vs)] @ concat (map (\<lambda>v. to_bytes (write_data_element v)) vs))"
    unfolding n read_element.simps by (intro reads_bind [OF reads_read_u8]) simp
  then show ?case by simp
next
  case (3 fs)
  then obtain n where n: "fuel = Suc n" by (cases fuel) auto
  let ?f = "\<lambda>(k, v). to_bytes (write_data_value k) @ to_bytes (write_data_element v)"
  have "length (to_bytes (write_data_element v)) \<le> n" if "(k, v) \<in> set fs" for k v
    using length_part [OF that, of ?f] 3(3) by (simp add: n)
  then have "reads (read_entries (length fs) (read_data_value utf8) (read_element utf8 n) []) ([] @ fs) (concat (map ?f fs))"
    using 3 by (intro reads_entries_each) (fastforce intro: data_value.read_write)+
  moreover have "unat (of_nat (length fs) :: u8) = length fs" using 3(2) by (simp add: unat_of_nat)
  ultimately have "reads (rbind read_u8 (\<lambda>size. rbind (read_entries (unat size) (read_data_value utf8) (read_element utf8 n) []) (\<lambda>fs. rreturn (Fields fs))))
      (Fields fs) ([of_nat (length fs)] @ concat (map ?f fs))"
    by (intro reads_bind [OF reads_read_u8] reads_bind_return) simp_all
  then have "reads (read_element utf8 fuel) (Fields fs) ([2] @ [of_nat (length fs)] @ concat (map ?f fs))"
    unfolding n read_element.simps by (intro reads_bind [OF reads_read_u8]) simp
  then show ?case by simp
qed

lemma safe_times_each: "reader_safe rd \<Longrightarrow> reader_safe (read_times n rd)"
  by (induction n) (auto intro!: codec_intros)

lemma element_entries_safe: "reader_safe rk \<Longrightarrow> reader_safe rv \<Longrightarrow> reader_safe (read_entries n rk rv m)"
  by (induction n arbitrary: m) (auto intro!: codec_intros)

lemma safe_element: "reader_safe (read_element utf8 fuel)"
  by (induction fuel) (auto intro!: codec_intros safe_times_each element_entries_safe data_value.read_safe)

interpretation data_element: serializer write_data_element "read_data_element utf8" data_element_size "data_element_ok utf8" for utf8
proof
  show "append_only (write_data_element e)" for e by (rule append_element)
  show "reads (read_data_element utf8) e (to_bytes (write_data_element e))" if "data_element_ok utf8 e" for e
  proof (rule readsI)
    fix r rest assume r: "reader_ok r" "remaining r = to_bytes (write_data_element e) @ rest"
    then have "length (to_bytes (write_data_element e)) \<le> rsize r" by (simp add: rsize_remaining)
    from reads_apply [OF reads_element [OF that this] r]
    show "read_data_element utf8 r = (Inr e, advance (length (to_bytes (write_data_element e))) r)"
      by (simp add: read_data_element_def)
  qed
  show "data_element_ok utf8 e \<Longrightarrow> data_element_size e = length (to_bytes (write_data_element e))" for e
  proof (induction e rule: write_data_element.induct)
    case (1 v)
    then show ?case using data_value.size_write by simp
  next
    case (2 vs)
    then show ?case by (simp add: length_concat comp_def cong: map_cong)
  next
    case (3 fs)
    then have "map (\<lambda>(k, v). data_value_size k + data_element_size v) fs =
        map (\<lambda>(k, v). length (to_bytes (write_data_value k)) + length (to_bytes (write_data_element v))) fs"
      using data_value.size_write by (intro map_cong) fastforce+
    then have "sum_list (map (\<lambda>(k, v). data_value_size k + data_element_size v) fs) =
        sum_list (map (\<lambda>(k, v). length (to_bytes (write_data_value k)) + length (to_bytes (write_data_element v))) fs)" by (rule arg_cong)
    then show ?case by (simp add: length_concat comp_def split_def)
  qed
  show "reader_safe (read_data_element utf8)"
    using safe_element unfolding reader_safe_def read_data_element_def by blast
qed

lemma vec_conversion: "(\<And>x. conv (into x) = Inr x) \<Longrightarrow> element_into_vec conv (element_from_vec into xs) = Inr xs"
proof -
  assume "\<And>x. conv (into x) = Inr x"
  then have "collect_results (map (element_into conv) (map (\<lambda>x. Value (into x)) xs)) = Inr xs"
    by (induction xs) (simp_all add: element_into_def)
  then show ?thesis by (simp add: element_into_vec_def element_from_vec_def)
qed

end
