(* ===== verification/Address.thy ===== *)
theory Address
  imports Bech32 DataElement Transactions
begin

text \<open>
  Addresses (\<open>common/src/crypto/address.rs\<close>): a public key, with data in an integrated address, for one
  of the networks. Users exchange the text form: key and data in Bech32 behind the prefix of the
  network. \<open>from_string\<close> fails with an error of either kind; the message of an unknown prefix is left out.
\<close>

section \<open>Operations\<close>

definition PREFIX_ADDRESS :: "u8 list" where "PREFIX_ADDRESS = map of_char ''tos''"

definition TESTNET_PREFIX_ADDRESS :: "u8 list" where "TESTNET_PREFIX_ADDRESS = map of_char ''tst''"

datatype address_type = Normal | Data data_element

record address =
  ad_mainnet :: bool
  ad_type :: address_type
  ad_key :: public_key

datatype address_error = Bech32 bech32_error | Reader reader_error

definition address_new :: "bool \<Rightarrow> address_type \<Rightarrow> public_key \<Rightarrow> address" where
  "address_new mainnet addr_type key = \<lparr>ad_mainnet = mainnet, ad_type = addr_type, ad_key = key\<rparr>"

definition address_split :: "address \<Rightarrow> public_key \<times> address_type" where
  "address_split a = (ad_key a, ad_type a)"

definition extract_data_only :: "address \<Rightarrow> data_element option \<times> address" where
  "extract_data_only a = ((case ad_type a of Data data \<Rightarrow> Some data | Normal \<Rightarrow> None), a\<lparr>ad_type := Normal\<rparr>)"

definition extract_data :: "address \<Rightarrow> data_element option \<times> address" where
  "extract_data a = (case ad_type a of
     Data data \<Rightarrow> (Some data, address_new (ad_mainnet a) Normal (ad_key a))
   | Normal \<Rightarrow> (None, a))"

definition get_extra_data :: "address \<Rightarrow> data_element option" where
  "get_extra_data a = (case ad_type a of Data data \<Rightarrow> Some data | _ \<Rightarrow> None)"

definition is_normal :: "address \<Rightarrow> bool" where
  "is_normal a = (case ad_type a of Normal \<Rightarrow> True | _ \<Rightarrow> False)"

definition get_data :: "u8 list \<Rightarrow> value_type \<Rightarrow> address \<Rightarrow> data_value option" where
  "get_data name value_type a = (case ad_type a of
     Normal \<Rightarrow> None | Data data \<Rightarrow> get_value_by_string_key name value_type data)"

definition write_address_type :: "address_type \<Rightarrow> writer \<Rightarrow> writer" where
  "write_address_type t = (case t of Normal \<Rightarrow> write_u8 0 | Data data \<Rightarrow> writes [write_u8 1, write_data_element data])"

definition read_address_type :: "(u8 list \<Rightarrow> bool) \<Rightarrow> address_type rd" where
  "read_address_type utf8 = rbind read_u8 (\<lambda>n.
     if n = 0 then rreturn Normal
     else if n = 1 then (\<lambda>r. rbind (read_data_element utf8) (\<lambda>data r'.
       if total r' - total r > EXTRA_DATA_LIMIT_SIZE then rfail InvalidSize r' else rreturn (Data data) r') r)
     else rfail InvalidValue)"

definition size_address_type :: "address_type \<Rightarrow> usize" where
  "size_address_type t = (case t of Normal \<Rightarrow> 1 | Data data \<Rightarrow> 1 + data_element_size data)"

text \<open>\<open>Serializer\<close> of an address; its size is that of \<open>compress\<close> as a vector.\<close>

definition address_compress :: "address \<Rightarrow> u8 list" where
  "address_compress a = to_bytes (writes [write_public_key (ad_key a), write_address_type (ad_type a)])"

definition write_address :: "address \<Rightarrow> writer \<Rightarrow> writer" where
  "write_address a = writes [write_bool (ad_mainnet a), write_public_key (ad_key a), write_address_type (ad_type a)]"

definition read_address :: "(u8 list \<Rightarrow> bool) \<Rightarrow> address rd" where
  "read_address utf8 = rbind read_bool (\<lambda>mainnet. rbind read_public_key (\<lambda>key.
     rbind (read_address_type utf8) (\<lambda>addr_type. rreturn (address_new mainnet addr_type key))))"

definition address_size :: "address \<Rightarrow> usize" where
  "address_size a = size_vec (\<lambda>_. 1) (address_compress a)"

definition address_decompress :: "(u8 list \<Rightarrow> bool) \<Rightarrow> u8 list \<Rightarrow> u8 list \<Rightarrow> reader_error + address" where
  "address_decompress utf8 bytes hrp =
     fst (rbind read_public_key (\<lambda>key. rbind (read_address_type utf8) (\<lambda>addr_type.
       rreturn (address_new (hrp = PREFIX_ADDRESS) addr_type key))) (reader_new bytes))"

definition as_string :: "address \<Rightarrow> bech32_error + u8 list" where
  "as_string a = and_then (convert_bits (address_compress a) 8 5 True) (\<lambda>bits.
     encode (if ad_mainnet a then PREFIX_ADDRESS else TESTNET_PREFIX_ADDRESS) bits)"

definition from_string :: "(u8 list \<Rightarrow> bool) \<Rightarrow> u8 list \<Rightarrow> address_error + address" where
  "from_string utf8 s =
     and_then (map_err Bech32 (decode s)) (\<lambda>(hrp, decoded).
     if hrp \<noteq> PREFIX_ADDRESS \<and> hrp \<noteq> TESTNET_PREFIX_ADDRESS then Inl (Bech32 (InvalidPrefix hrp []))
     else and_then (map_err Bech32 (convert_bits decoded 5 8 False)) (\<lambda>bits.
       and_then (map_err Reader (address_decompress utf8 bits hrp)) (\<lambda>addr.
       if ad_mainnet addr \<and> hrp \<noteq> PREFIX_ADDRESS \<or> \<not> ad_mainnet addr \<and> hrp \<noteq> TESTNET_PREFIX_ADDRESS
       then Inl (Bech32 (InvalidPrefix hrp (if ad_mainnet addr then PREFIX_ADDRESS else TESTNET_PREFIX_ADDRESS)))
       else Inr addr)))"

section \<open>Codec laws\<close>

fun address_type_ok :: "(u8 list \<Rightarrow> bool) \<Rightarrow> address_type \<Rightarrow> bool" where
  "address_type_ok utf8 Normal = True"
| "address_type_ok utf8 (Data data) = (data_element_ok utf8 data \<and> data_element_size data \<le> EXTRA_DATA_LIMIT_SIZE)"

definition address_ok :: "(u8 list \<Rightarrow> bool) \<Rightarrow> address \<Rightarrow> bool" where
  "address_ok utf8 a \<longleftrightarrow> public_key_ok (ad_key a) \<and> address_type_ok utf8 (ad_type a)"

lemma to_bytes_address_type:
  "to_bytes (write_address_type Normal) = [0]" "to_bytes (write_address_type (Data data)) = [1] @ to_bytes (write_data_element data)"
  by (simp_all add: write_address_type_def codec_simps data_element.write_append del: append_Cons)

lemma reads_limited:
  assumes "reads m x bs" "length bs \<le> n"
  shows "reads (\<lambda>r. rbind m (\<lambda>v r'. if total r' - total r > n then rfail e r' else rreturn (f v) r') r) (f x) bs"
  using assms by (auto simp: reads_def rbind_def rreturn_def advance_def)

lemma safe_limited:
  assumes "reader_safe m"
  shows "reader_safe (\<lambda>r. rbind m (\<lambda>v r'. if total r' - total r > n then rfail e r' else rreturn (f v) r') r)"
  using assms unfolding reader_safe_def rbind_def rreturn_def rfail_def by (auto split: prod.splits sum.splits)

interpretation address_type: serializer write_address_type "read_address_type utf8" size_address_type "address_type_ok utf8" for utf8
proof
  show "append_only (write_address_type t)" for t
    by (cases t) (simp_all add: write_address_type_def codec_simps data_element.write_append)
  show "reads (read_address_type utf8) t (to_bytes (write_address_type t))" if "address_type_ok utf8 t" for t
  proof (cases t)
    case Normal
    then show ?thesis unfolding read_address_type_def Normal to_bytes_address_type
      by (intro reads_bind_tail [OF reads_read_u8]) (simp add: reads_return)
  next
    case (Data data)
    with that have data: "data_element_ok utf8 data" "length (to_bytes (write_data_element data)) \<le> EXTRA_DATA_LIMIT_SIZE"
      by (auto simp: data_element.size_write)
    from reads_limited [OF data_element.read_write [OF data(1)] data(2), of InvalidSize Data] show ?thesis
      unfolding read_address_type_def Data to_bytes_address_type by (intro reads_bind [OF reads_read_u8]) simp
  qed
  show "address_type_ok utf8 t \<Longrightarrow> size_address_type t = length (to_bytes (write_address_type t))" for t
    by (cases t) (auto simp: size_address_type_def to_bytes_address_type data_element.size_write)
  show "reader_safe (read_address_type utf8)"
    unfolding read_address_type_def by (intro codec_intros safe_limited data_element.read_safe)
qed

lemma address_codec:
  assumes "address_ok utf8 a"
  shows "reads (read_address utf8) a (to_bytes (write_address a))"
    "length (to_bytes (write_address a)) + 1 = address_size a"
    "hrp = (if ad_mainnet a then PREFIX_ADDRESS else TESTNET_PREFIX_ADDRESS) \<Longrightarrow> address_decompress utf8 (address_compress a) hrp = Inr a"
proof -
  have ok: "public_key_ok (ad_key a)" "address_type_ok utf8 (ad_type a)" using assms by (simp_all add: address_ok_def)
  have bytes: "to_bytes (write_address a) = to_bytes (write_bool (ad_mainnet a)) @ address_compress a"
    "address_compress a = to_bytes (write_public_key (ad_key a)) @ to_bytes (write_address_type (ad_type a))"
    by (simp_all add: write_address_def address_compress_def codec_simps public_key.write_append address_type.write_append)
  have tail: "reads (rbind read_public_key (\<lambda>key. rbind (read_address_type utf8) (\<lambda>addr_type. rreturn (address_new m addr_type key))))
      (address_new m (ad_type a) (ad_key a)) (address_compress a)" for m
    unfolding bytes(2)
    by (rule reads_bind [OF public_key.read_write [OF ok(1)]], rule reads_bind_return [OF address_type.read_write [OF ok(2)]]) simp
  show "reads (read_address utf8) a (to_bytes (write_address a))"
  proof -
    have "reads read_bool (ad_mainnet a) (to_bytes (write_bool (ad_mainnet a)))" using reads_read_bool [of "ad_mainnet a"] by (simp add: codec_simps)
    then have "reads (read_address utf8) (address_new (ad_mainnet a) (ad_type a) (ad_key a)) (to_bytes (write_address a))"
      unfolding read_address_def bytes(1) by (rule reads_bind) (rule tail)
    moreover have "address_new (ad_mainnet a) (ad_type a) (ad_key a) = a" by (simp add: address_new_def)
    ultimately show ?thesis by metis
  qed
  show "length (to_bytes (write_address a)) + 1 = address_size a"
    by (simp add: bytes(1) address_size_def size_vec_def codec_simps sum_list_triv)
  assume hrp: "hrp = (if ad_mainnet a then PREFIX_ADDRESS else TESTNET_PREFIX_ADDRESS)"
  have "PREFIX_ADDRESS \<noteq> TESTNET_PREFIX_ADDRESS" by (simp add: PREFIX_ADDRESS_def TESTNET_PREFIX_ADDRESS_def of_char_def)
  then have "(hrp = PREFIX_ADDRESS) = ad_mainnet a" by (simp add: hrp)
  with reads_apply [OF tail, of "reader_new (address_compress a)" "[]" "ad_mainnet a"]
  show "address_decompress utf8 (address_compress a) hrp = Inr a"
    by (simp add: address_decompress_def address_new_def)
qed

lemma address_prefix:
  fixes a :: address
  defines "hrp \<equiv> if ad_mainnet a then PREFIX_ADDRESS else TESTNET_PREFIX_ADDRESS"
  shows "hrp \<noteq> []" "check_hrp hrp = Inr ()" "to_lower hrp = hrp"
  by (simp_all add: hrp_def PREFIX_ADDRESS_def TESTNET_PREFIX_ADDRESS_def check_hrp_iff to_lower_def of_char_def)

text \<open>Every address has a text, which encodes its bytes in groups of five bits.\<close>

lemma as_string_total:
  obtains s gs k where "as_string a = Inr s" "encode (if ad_mainnet a then PREFIX_ADDRESS else TESTNET_PREFIX_ADDRESS) gs = Inr s"
    "\<forall>v \<in> set gs. unat v < 32" "k < 5" "all_bits 5 gs = all_bits 8 (address_compress a) @ replicate k False"
proof -
  let ?hrp = "if ad_mainnet a then PREFIX_ADDRESS else TESTNET_PREFIX_ADDRESS"
  from convert_to_groups [of "address_compress a"] obtain gs k where gs: "convert_bits (address_compress a) 8 5 True = Inr gs"
    "\<forall>v \<in> set gs. unat v < 32" "k < 5" "all_bits 5 gs = all_bits 8 (address_compress a) @ replicate k False" .
  have small: "\<forall>v \<in> set (create_checksum ?hrp gs). unat v < 32" by (rule create_checksum_small)
  obtain s where s: "encode ?hrp gs = Inr s" using address_prefix [of a] small gs(2) encode_iff [of ?hrp gs] by auto
  then have "as_string a = Inr s" by (simp add: as_string_def gs(1) and_then_def)
  from that [OF this s gs(2-4)] show thesis .
qed

section \<open>Properties\<close>

text \<open>
  C14. An address survives its text form: every address with a proper key, and data within the limit if it
  is integrated, has a text form, and reading that gives the address back, network and data included.
\<close>

theorem address_roundtrip:
  assumes "address_ok utf8 a"
  shows "\<exists>s. as_string a = Inr s \<and> from_string utf8 s = Inr a"
proof -
  let ?hrp = "if ad_mainnet a then PREFIX_ADDRESS else TESTNET_PREFIX_ADDRESS"
  obtain s gs k where s: "as_string a = Inr s" "encode ?hrp gs = Inr s" "\<forall>v \<in> set gs. unat v < 32" "k < 5"
    "all_bits 5 gs = all_bits 8 (address_compress a) @ replicate k False" by (rule as_string_total)
  have "from_string utf8 s = Inr a"
    using decode_encode [OF s(2)] convert_bits_roundtrip [OF s(3-5)] address_codec(3) [OF assms, of ?hrp]
    by (auto simp: from_string_def and_then_def map_err_def address_prefix(3) split: if_splits)
  with s(1) show ?thesis by blast
qed

text \<open>The witness is an integrated address of the test network, with the number 7 as its data.\<close>

theorem address_roundtrip_witness:
  "\<exists>s. as_string (address_new False (Data (Value (DU64 7))) (PublicKey (replicate 32 9))) = Inr s \<and>
     from_string (\<lambda>_. True) s = Inr (address_new False (Data (Value (DU64 7))) (PublicKey (replicate 32 9)))"
  by (rule address_roundtrip)
    (simp add: address_ok_def address_new_def public_key_ok_def point_ok_def RISTRETTO_COMPRESSED_SIZE_def data_value_size_def EXTRA_DATA_LIMIT_SIZE_def)

end
