(* ===== verification/SledAccounts.thy ===== *)
theory SledAccounts
  imports SledVersions Address Energy
begin

text \<open>
  The accounts' part of the storage on sled (\<open>sled/providers\<close>: \<open>asset.rs\<close>, \<open>balance.rs\<close>, \<open>nonce.rs\<close>,
  \<open>multisig.rs\<close>, \<open>account.rs\<close>, their deletions under \<open>versioned/\<close>, and the energy provider in \<open>sled/mod.rs\<close>).
  Balances, nonces and assets are versioned data of \<open>SledVersions\<close>; what a lookup returns and what a new
  version changes is shown once for all of them. A loop that follows a chain of versions takes fuel as
  there. An iterator over results is the list of them; a slice of a key is \<open>take\<close> or \<open>drop\<close>. The context
  of an error and the address it prints are left out.
\<close>

section \<open>Cached reads\<close>

definition cache_usable :: "('db, 'c) sled_storage \<Rightarrow> string \<Rightarrow> bytes \<Rightarrow> bool" where
  "cache_usable S t k = (case ss_snapshot S of Some sn \<Rightarrow> \<not> sn_contains_key sn t k | None \<Rightarrow> True)"

definition set_caches :: "'c \<Rightarrow> ('db, 'c) sled_storage \<Rightarrow> ('db, 'c) sled_storage" where
  "set_caches c = map_caches (\<lambda>_. c)"

definition get_optional_cacheable_data ::
  "'db sled_lib \<Rightarrow> ('c, 'k, 'v) lru \<Rightarrow> 'v rd \<Rightarrow> string \<Rightarrow> bytes \<Rightarrow> 'k \<Rightarrow> (('db, 'c) sled_storage, blockchain_error, 'v option) act" where
  "get_optional_cacheable_data L A rd t key_bytes key S =
     (case sc_caches (ss_cache S) of
       Some c \<Rightarrow>
         if cache_usable S t key_bytes then (case lu_get A key c of
             (Some v, c) \<Rightarrow> (Inr (Some v), set_caches c S)
           | (None, c) \<Rightarrow> (case load_optional_from_disk L rd S t key_bytes of
               Inl e \<Rightarrow> (Inl e, set_caches c S)
             | Inr (Some v) \<Rightarrow> (Inr (Some v), set_caches (lu_put A key v c) S)
             | Inr None \<Rightarrow> (Inr None, set_caches c S)))
         else (load_optional_from_disk L rd S t key_bytes, S)
     | None \<Rightarrow> (load_optional_from_disk L rd S t key_bytes, S))"

definition get_cacheable_data ::
  "'db sled_lib \<Rightarrow> ('c, 'k, 'v) lru \<Rightarrow> 'v rd \<Rightarrow> string \<Rightarrow> bytes \<Rightarrow> 'k \<Rightarrow> (('db, 'c) sled_storage, blockchain_error, 'v) act" where
  "get_cacheable_data L A rd t key_bytes key =
     act_bind (get_optional_cacheable_data L A rd t key_bytes key) (\<lambda>v. act_lift (ok_or NotFoundOnDisk v))"

definition contains_cached ::
  "'db sled_lib \<Rightarrow> ('c, 'k, 'v) lru \<Rightarrow> ('db, 'c) sled_storage \<Rightarrow> string \<Rightarrow> bytes \<Rightarrow> 'k \<Rightarrow> bool store_result" where
  "contains_cached L A S t key_bytes key =
     contains_data_cached L S t (case sc_caches (ss_cache S) of Some c \<Rightarrow> lu_contains A key c | None \<Rightarrow> False) key_bytes"

text \<open>\<open>filter_map(Result::transpose)\<close>: skipped entries are dropped, errors stay.\<close>

definition transposed :: "'a option store_result list \<Rightarrow> 'a store_result list" where
  "transposed = List.map_filter (\<lambda>r. case r of Inl e \<Rightarrow> Some (Inl e) | Inr v \<Rightarrow> map_option Inr v)"

section \<open>Assets\<close>

definition get_asset_key :: "hash \<Rightarrow> topoheight \<Rightarrow> bytes" where
  "get_asset_key asset topoheight = to_be_bytes topoheight @ as_bytes asset"

definition has_asset :: "'db sled_lib \<Rightarrow> ('c, 'tx) lru_caches \<Rightarrow> ('db, 'c) sled_storage \<Rightarrow> hash \<Rightarrow> bool store_result" where
  "has_asset L A S asset = contains_cached L (lc_assets A) S ''assets'' (as_bytes asset) asset"

definition has_asset_at_exact_topoheight ::
  "'db sled_lib \<Rightarrow> ('c, 'tx) lru_caches \<Rightarrow> ('db, 'c) sled_storage \<Rightarrow> hash \<Rightarrow> topoheight \<Rightarrow> bool store_result" where
  "has_asset_at_exact_topoheight L A S asset topoheight =
     and_then (has_asset L A S asset) (\<lambda>has.
     if \<not> has then Inr False else contains_data L S ''versioned_assets'' (get_asset_key asset topoheight))"

definition get_asset_topoheight ::
  "'db sled_lib \<Rightarrow> ('c, 'tx) lru_caches \<Rightarrow> hash \<Rightarrow> (('db, 'c) sled_storage, blockchain_error, topoheight option) act" where
  "get_asset_topoheight L A asset = get_optional_cacheable_data L (lc_assets A) read_u64 ''assets'' (as_bytes asset) asset"

definition is_asset_registered_at_maximum_topoheight ::
  "'db sled_lib \<Rightarrow> ('c, 'tx) lru_caches \<Rightarrow> hash \<Rightarrow> topoheight \<Rightarrow> (('db, 'c) sled_storage, blockchain_error, bool) act" where
  "is_asset_registered_at_maximum_topoheight L A asset maximum =
     act_bind (get_asset_topoheight L A asset) (\<lambda>topo. ret (case topo of Some topo \<Rightarrow> topo \<le> maximum | None \<Rightarrow> False))"

definition get_asset_at_topoheight ::
  "'db sled_lib \<Rightarrow> (u8 list \<Rightarrow> bool) \<Rightarrow> ('db, 'c) sled_storage \<Rightarrow> hash \<Rightarrow> topoheight \<Rightarrow> asset_data versioned store_result" where
  "get_asset_at_topoheight L utf8 S asset topoheight =
     load_from_disk L (read_versioned (read_asset_data utf8)) S ''versioned_assets'' (get_asset_key asset topoheight)"

text \<open>The end of every search: the version found is loaded.\<close>

definition with_version ::
  "(topoheight \<Rightarrow> 'v store_result) \<Rightarrow> topoheight option \<Rightarrow> (topoheight \<times> 'v) option store_result" where
  "with_version load topo = (case topo of None \<Rightarrow> Inr None
     | Some topo \<Rightarrow> and_then (load topo) (\<lambda>version. Inr (Some (topo, version))))"

definition get_asset_at_maximum_topoheight ::
  "'db sled_lib \<Rightarrow> ('c, 'tx) lru_caches \<Rightarrow> (u8 list \<Rightarrow> bool) \<Rightarrow> hash \<Rightarrow> topoheight \<Rightarrow>
   (('db, 'c) sled_storage, blockchain_error, (topoheight \<times> asset_data versioned) option) act" where
  "get_asset_at_maximum_topoheight L A utf8 asset topoheight =
     act_bind (act_query (\<lambda>S. has_asset_at_exact_topoheight L A S asset topoheight)) (\<lambda>exact.
     act_bind (if exact then ret (Some topoheight) else get_asset_topoheight L A asset) (\<lambda>start.
     act_query (\<lambda>S. and_then (newest_at_most (chain_fuel start)
         (\<lambda>t. load_previous L S ''versioned_assets'' (get_asset_key asset t)) topoheight start)
       (with_version (get_asset_at_topoheight L utf8 S asset)))))"

definition get_asset ::
  "'db sled_lib \<Rightarrow> ('c, 'tx) lru_caches \<Rightarrow> (u8 list \<Rightarrow> bool) \<Rightarrow> hash \<Rightarrow>
   (('db, 'c) sled_storage, blockchain_error, topoheight \<times> asset_data versioned) act" where
  "get_asset L A utf8 asset =
     act_bind (get_asset_topoheight L A asset) (\<lambda>topo. case topo of
       Some topoheight \<Rightarrow> act_query (\<lambda>S. and_then (get_asset_at_topoheight L utf8 S asset topoheight) (\<lambda>data. Inr (topoheight, data)))
     | None \<Rightarrow> throw (AssetNotFound asset))"

definition sled_get_assets :: "'db sled_lib \<Rightarrow> ('db, 'c) sled_storage \<Rightarrow> hash store_result list" where
  "sled_get_assets L S = map (\<lambda>res. and_then res (\<lambda>key. map_err ErrorOnReader (from_bytes read_hash key))) (disk_iter_keys L S ''assets'')"

text \<open>The data is read as an \<open>AssetData\<close>, although the tree holds the versioned one.\<close>

definition outside_range :: "topoheight option \<Rightarrow> topoheight option \<Rightarrow> topoheight \<Rightarrow> bool" where
  "outside_range minimum maximum topo = ((case minimum of Some v \<Rightarrow> topo < v | None \<Rightarrow> False) \<or>
     (case maximum of Some v \<Rightarrow> topo > v | None \<Rightarrow> False))"

definition get_assets_with_data_in_range ::
  "'db sled_lib \<Rightarrow> (u8 list \<Rightarrow> bool) \<Rightarrow> ('db, 'c) sled_storage \<Rightarrow> topoheight option \<Rightarrow> topoheight option \<Rightarrow>
   (hash \<times> topoheight \<times> asset_data) store_result list" where
  "get_assets_with_data_in_range L utf8 S minimum maximum =
     transposed (map (\<lambda>res. and_then res (\<lambda>(key, val).
       and_then (map_err ErrorOnReader (from_bytes read_u64 val)) (\<lambda>topoheight.
       if outside_range minimum maximum topoheight then Inr None
       else and_then (map_err ErrorOnReader (from_bytes read_hash key)) (\<lambda>asset.
         and_then (load_from_disk L (read_asset_data utf8) S ''versioned_assets'' (get_asset_key asset topoheight)) (\<lambda>data.
         Inr (Some (asset, topoheight, data))))))) (disk_iter L S ''assets''))"

definition get_assets_for :: "'db sled_lib \<Rightarrow> ('db, 'c) sled_storage \<Rightarrow> public_key \<Rightarrow> hash store_result list" where
  "get_assets_for L S key = map (\<lambda>res. and_then res (\<lambda>k.
     map_err ErrorOnReader (from_bytes read_hash (drop RISTRETTO_COMPRESSED_SIZE k)))) (scan_prefix L S ''balances'' (key_point key))"

definition count_assets :: "('db, 'c) sled_storage \<Rightarrow> u64 store_result" where
  "count_assets S = Inr (cn_assets_count (counters S))"

definition store_assets_count :: "'db sled_lib \<Rightarrow> u64 \<Rightarrow> (('db, 'c) sled_storage, blockchain_error, unit) act" where
  "store_assets_count L n =
     act_then (act_modify (set_counters (cn_assets_count_update (\<lambda>_. n))))
     (act_then (insert_into_disk L ''extra'' (ascii ''CAST'') (to_be_bytes n)) (ret ()))"

definition add_asset ::
  "'db sled_lib \<Rightarrow> ('c, 'tx) lru_caches \<Rightarrow> hash \<Rightarrow> topoheight \<Rightarrow> asset_data versioned \<Rightarrow>
   (('db, 'c) sled_storage, blockchain_error, unit) act" where
  "add_asset L A asset topoheight data =
     act_bind (insert_into_disk L ''assets'' (as_bytes asset) (to_be_bytes topoheight)) (\<lambda>prev.
     act_then (insert_into_disk L ''versioned_assets'' (get_asset_key asset topoheight) (to_bytes (write_versioned write_asset_data data)))
     (act_then (if prev = None then act_bind (act_query count_assets) (\<lambda>n. store_assets_count L (n + 1)) else ret ())
     (act_modify (map_caches (lu_put (lc_assets A) asset topoheight)))))"

section \<open>Balances\<close>

definition get_balance_key_for :: "public_key \<Rightarrow> hash \<Rightarrow> bytes" where
  "get_balance_key_for key asset = key_point key @ as_bytes asset"

definition get_versioned_balance_key :: "public_key \<Rightarrow> hash \<Rightarrow> topoheight \<Rightarrow> bytes" where
  "get_versioned_balance_key key asset topoheight = to_be_bytes topoheight @ key_point key @ as_bytes asset"

definition has_balance_internal :: "'db sled_lib \<Rightarrow> ('db, 'c) sled_storage \<Rightarrow> bytes \<Rightarrow> bool store_result" where
  "has_balance_internal L S key = contains_data L S ''balances'' key"

definition has_balance_for ::
  "'db sled_lib \<Rightarrow> ('c, 'tx) lru_caches \<Rightarrow> ('db, 'c) sled_storage \<Rightarrow> public_key \<Rightarrow> hash \<Rightarrow> bool store_result" where
  "has_balance_for L A S key asset =
     and_then (has_asset L A S asset) (\<lambda>has.
     if \<not> has then Inl (AssetNotFound asset) else has_balance_internal L S (get_balance_key_for key asset))"

definition get_last_topoheight_for_balance ::
  "'db sled_lib \<Rightarrow> ('db, 'c) sled_storage \<Rightarrow> public_key \<Rightarrow> hash \<Rightarrow> topoheight store_result" where
  "get_last_topoheight_for_balance L S key asset =
     (let key = get_balance_key_for key asset in
      and_then (has_balance_internal L S key) (\<lambda>has.
      if \<not> has then Inr 0 else load_from_disk L read_u64 S ''balances'' key))"

definition set_last_topoheight_for_balance ::
  "'db sled_lib \<Rightarrow> public_key \<Rightarrow> hash \<Rightarrow> topoheight \<Rightarrow> (('db, 'c) sled_storage, blockchain_error, unit) act" where
  "set_last_topoheight_for_balance L key asset topoheight =
     act_then (insert_into_disk L ''balances'' (get_balance_key_for key asset) (to_be_bytes topoheight)) (ret ())"

definition has_balance_at_exact_topoheight ::
  "'db sled_lib \<Rightarrow> ('c, 'tx) lru_caches \<Rightarrow> ('db, 'c) sled_storage \<Rightarrow> public_key \<Rightarrow> hash \<Rightarrow> topoheight \<Rightarrow> bool store_result" where
  "has_balance_at_exact_topoheight L A S key asset topoheight =
     and_then (has_balance_for L A S key asset) (\<lambda>has.
     if \<not> has then Inr False
     else contains_data L S ''versioned_balances'' (get_versioned_balance_key key asset topoheight))"

definition get_balance_at_exact_topoheight ::
  "'db sled_lib \<Rightarrow> ('c, 'tx) lru_caches \<Rightarrow> ('db, 'c) sled_storage \<Rightarrow> public_key \<Rightarrow> hash \<Rightarrow> topoheight \<Rightarrow> 'p versioned_balance store_result" where
  "get_balance_at_exact_topoheight L A S key asset topoheight =
     and_then (has_balance_at_exact_topoheight L A S key asset topoheight) (\<lambda>has.
     if \<not> has then Inl (NoBalanceChanges key topoheight asset)
     else map_err (\<lambda>_. NoBalanceChanges key topoheight asset)
       (load_from_disk L read_versioned_balance S ''versioned_balances'' (get_versioned_balance_key key asset topoheight)))"

text \<open>Where a search starts: at the bound if there is a version, else at the newest.\<close>

definition balance_start ::
  "'db sled_lib \<Rightarrow> ('c, 'tx) lru_caches \<Rightarrow> ('db, 'c) sled_storage \<Rightarrow> public_key \<Rightarrow> hash \<Rightarrow> topoheight \<Rightarrow> topoheight store_result" where
  "balance_start L A S key asset topoheight =
     and_then (has_balance_at_exact_topoheight L A S key asset topoheight) (\<lambda>exact.
     if exact then Inr topoheight else get_last_topoheight_for_balance L S key asset)"

definition get_balance_at_maximum_topoheight ::
  "'db sled_lib \<Rightarrow> ('c, 'tx) lru_caches \<Rightarrow> ('db, 'c) sled_storage \<Rightarrow> public_key \<Rightarrow> hash \<Rightarrow> topoheight \<Rightarrow>
   (topoheight \<times> 'p versioned_balance) option store_result" where
  "get_balance_at_maximum_topoheight L A S key asset topoheight =
     and_then (has_balance_for L A S key asset) (\<lambda>has.
     if \<not> has then Inr None
     else and_then (balance_start L A S key asset topoheight) (\<lambda>topo.
       and_then (newest_at_most (chain_fuel (Some topo))
         (\<lambda>t. load_previous L S ''versioned_balances'' (get_versioned_balance_key key asset t)) topoheight (Some topo))
       (with_version (get_balance_at_exact_topoheight L A S key asset))))"

definition get_new_versioned_balance ::
  "'db sled_lib \<Rightarrow> ('c, 'tx) lru_caches \<Rightarrow> ('db, 'c) sled_storage \<Rightarrow> public_key \<Rightarrow> hash \<Rightarrow> topoheight \<Rightarrow>
   ('p::ab_group_add versioned_balance \<times> bool) store_result" where
  "get_new_versioned_balance L A S key asset topoheight =
     and_then (get_balance_at_maximum_topoheight L A S key asset topoheight) (\<lambda>r. case r of
       Some (topo, version) \<Rightarrow> Inr (prepare_new (Some topo) version, False)
     | None \<Rightarrow> Inr (versioned_balance_zero, True))"

fun newest_output ::
  "nat \<Rightarrow> (topoheight \<Rightarrow> (topoheight option \<times> balance_type) store_result) \<Rightarrow> (topoheight \<Rightarrow> bool) \<Rightarrow> topoheight \<Rightarrow> topoheight option \<Rightarrow>
   topoheight option store_result" where
  "newest_output fuel load stop maximum None = Inr None"
| "newest_output 0 load stop maximum (Some topo) = Inl (Chain OutOfFuel)"
| "newest_output (Suc fuel) load stop maximum (Some topo) =
     (if stop topo then Inr None
      else and_then (load topo) (\<lambda>(prev_topo, balance_type).
        if topo \<le> maximum \<and> type_contains_output balance_type then Inr (Some topo)
        else newest_output fuel load stop maximum prev_topo))"

definition load_balance_type ::
  "'db sled_lib \<Rightarrow> ('db, 'c) sled_storage \<Rightarrow> public_key \<Rightarrow> hash \<Rightarrow> topoheight \<Rightarrow> (topoheight option \<times> balance_type) store_result" where
  "load_balance_type L S key asset topo =
     load_from_disk L (read_pair (read_option read_u64) read_balance_type) S ''versioned_balances'' (get_versioned_balance_key key asset topo)"

definition get_output_balance_at_maximum_topoheight ::
  "'db sled_lib \<Rightarrow> ('c, 'tx) lru_caches \<Rightarrow> ('db, 'c) sled_storage \<Rightarrow> public_key \<Rightarrow> hash \<Rightarrow> topoheight \<Rightarrow>
   (topoheight \<times> 'p versioned_balance) option store_result" where
  "get_output_balance_at_maximum_topoheight L A S key asset topoheight =
     and_then (has_balance_for L A S key asset) (\<lambda>has.
     if \<not> has then Inr None
     else and_then (balance_start L A S key asset topoheight) (\<lambda>topo.
       and_then (newest_output (chain_fuel (Some topo)) (load_balance_type L S key asset) (\<lambda>_. False) topoheight (Some topo))
       (with_version (get_balance_at_exact_topoheight L A S key asset))))"

definition get_output_balance_in_range ::
  "'db sled_lib \<Rightarrow> ('c, 'tx) lru_caches \<Rightarrow> ('db, 'c) sled_storage \<Rightarrow> public_key \<Rightarrow> hash \<Rightarrow> topoheight \<Rightarrow> topoheight \<Rightarrow>
   (topoheight \<times> 'p versioned_balance) option store_result" where
  "get_output_balance_in_range L A S key asset min_topoheight max_topoheight =
     and_then (has_balance_for L A S key asset) (\<lambda>has.
     if \<not> has then Inr None
     else and_then (balance_start L A S key asset max_topoheight) (\<lambda>topo.
       and_then (newest_output (chain_fuel (Some topo)) (load_balance_type L S key asset) (\<lambda>t. t < min_topoheight) max_topoheight (Some topo))
       (with_version (get_balance_at_exact_topoheight L A S key asset))))"

definition set_balance_at_topoheight ::
  "('s, 'p) curve \<Rightarrow> 'db sled_lib \<Rightarrow> hash \<Rightarrow> topoheight \<Rightarrow> public_key \<Rightarrow> 'p versioned_balance \<Rightarrow>
   (('db, 'c) sled_storage, blockchain_error, unit) act" where
  "set_balance_at_topoheight C L asset topoheight key balance =
     act_then (insert_into_disk L ''versioned_balances'' (get_versioned_balance_key key asset topoheight)
       (to_bytes (write_versioned_balance C balance))) (ret ())"

definition set_last_balance_to ::
  "('s, 'p) curve \<Rightarrow> 'db sled_lib \<Rightarrow> public_key \<Rightarrow> hash \<Rightarrow> topoheight \<Rightarrow> 'p versioned_balance \<Rightarrow>
   (('db, 'c) sled_storage, blockchain_error, unit) act" where
  "set_last_balance_to C L key asset topoheight version =
     act_then (set_balance_at_topoheight C L asset topoheight key version)
     (act_then (set_last_topoheight_for_balance L key asset topoheight) (ret ()))"

definition get_last_balance ::
  "'db sled_lib \<Rightarrow> ('c, 'tx) lru_caches \<Rightarrow> ('db, 'c) sled_storage \<Rightarrow> public_key \<Rightarrow> hash \<Rightarrow> (topoheight \<times> 'p versioned_balance) store_result" where
  "get_last_balance L A S key asset =
     and_then (has_balance_for L A S key asset) (\<lambda>has.
     if \<not> has then Inl (NoBalance key)
     else and_then (load_from_disk L read_u64 S ''balances'' (get_balance_key_for key asset)) (\<lambda>topoheight.
       and_then (get_balance_at_exact_topoheight L A S key asset topoheight) (\<lambda>version. Inr (topoheight, version))))"

fun find_output :: "nat \<Rightarrow> (topoheight \<Rightarrow> 'p versioned_balance store_result) \<Rightarrow> topoheight option \<Rightarrow> topoheight option store_result" where
  "find_output fuel load None = Inr None"
| "find_output 0 load (Some topo) = Inl (Chain OutOfFuel)"
| "find_output (Suc fuel) load (Some topo) = and_then (load topo) (\<lambda>version.
     if contains_output version then Inr (Some topo) else find_output fuel load (vb_previous_topoheight version))"

definition get_account_summary_for ::
  "'p itself \<Rightarrow> 'db sled_lib \<Rightarrow> ('c, 'tx) lru_caches \<Rightarrow> ('db, 'c) sled_storage \<Rightarrow> public_key \<Rightarrow> hash \<Rightarrow> topoheight \<Rightarrow> topoheight \<Rightarrow>
   account_summary option store_result" where
  "get_account_summary_for _ L A S key asset min_topoheight max_topoheight =
     and_then (get_balance_at_maximum_topoheight L A S key asset max_topoheight) (\<lambda>r. case r of
       None \<Rightarrow> Inr None
     | Some (topo, version :: 'p versioned_balance) \<Rightarrow>
         if topo < min_topoheight then Inr None
         else if contains_output version then Inr (Some \<lparr>output_topoheight = None, stable_topoheight = topo\<rparr>)
         else and_then (find_output (chain_fuel (vb_previous_topoheight version))
             (get_balance_at_exact_topoheight L A S key asset :: _ \<Rightarrow> 'p versioned_balance store_result) (vb_previous_topoheight version))
           (\<lambda>output. Inr (Some \<lparr>output_topoheight = output, stable_topoheight = topo\<rparr>)))"

text \<open>
  The topoheight to go on with is taken out before it is tested, so none is left when the loop ends.
  Every round adds a balance: one more than \<open>maximum\<close> rounds are never made.
\<close>

fun spendable_balances ::
  "nat \<Rightarrow> (topoheight \<Rightarrow> 'p versioned_balance store_result) \<Rightarrow> topoheight \<Rightarrow> nat \<Rightarrow> 'p balance list \<Rightarrow> topoheight option \<Rightarrow>
   ('p balance list \<times> topoheight option) store_result" where
  "spendable_balances fuel load minimum maximum balances None = Inr (balances, None)"
| "spendable_balances 0 load minimum maximum balances (Some topo) = Inl (Chain OutOfFuel)"
| "spendable_balances (Suc fuel) load minimum maximum balances (Some topo) =
     (if \<not> (topo \<ge> minimum \<and> length balances < maximum) then Inr (balances, None)
      else and_then (load topo) (\<lambda>version.
        let balances = balances @ [as_balance topo version] in
        if contains_output version then Inr (balances, None)
        else spendable_balances fuel load minimum maximum balances (vb_previous_topoheight version)))"

definition get_spendable_balances_for ::
  "'db sled_lib \<Rightarrow> ('c, 'tx) lru_caches \<Rightarrow> ('db, 'c) sled_storage \<Rightarrow> public_key \<Rightarrow> hash \<Rightarrow> topoheight \<Rightarrow> topoheight \<Rightarrow> nat \<Rightarrow>
   ('p balance list \<times> topoheight option) store_result" where
  "get_spendable_balances_for L A S key asset min_topoheight max_topoheight maximum =
     spendable_balances (Suc maximum) (get_balance_at_exact_topoheight L A S key asset) min_topoheight maximum [] (Some max_topoheight)"

section \<open>Nonces\<close>

definition count_accounts :: "('db, 'c) sled_storage \<Rightarrow> u64 store_result" where
  "count_accounts S = Inr (cn_accounts_count (counters S))"

definition store_accounts_count :: "'db sled_lib \<Rightarrow> u64 \<Rightarrow> (('db, 'c) sled_storage, blockchain_error, unit) act" where
  "store_accounts_count L n =
     act_then (act_modify (set_counters (cn_accounts_count_update (\<lambda>_. n))))
     (act_then (insert_into_disk L ''extra'' (ascii ''CACC'') (to_be_bytes n)) (ret ()))"

definition get_versioned_nonce_key :: "public_key \<Rightarrow> topoheight \<Rightarrow> bytes" where
  "get_versioned_nonce_key key topoheight = to_be_bytes topoheight @ key_point key"

definition set_last_nonce_to ::
  "'db sled_lib \<Rightarrow> public_key \<Rightarrow> topoheight \<Rightarrow> versioned_nonce \<Rightarrow> (('db, 'c) sled_storage, blockchain_error, unit) act" where
  "set_last_nonce_to L key topoheight version =
     act_then (insert_into_disk L ''versioned_nonces'' (get_versioned_nonce_key key topoheight) (to_bytes (write_versioned_nonce version)))
     (act_bind (insert_into_disk L ''nonces'' (key_point key) (to_be_bytes topoheight)) (\<lambda>prev.
     if prev = None then act_bind (act_query count_accounts) (\<lambda>n. store_accounts_count L (n + 1)) else ret ()))"

definition get_last_topoheight_for_nonce :: "'db sled_lib \<Rightarrow> ('db, 'c) sled_storage \<Rightarrow> public_key \<Rightarrow> topoheight store_result" where
  "get_last_topoheight_for_nonce L S key = load_from_disk L read_u64 S ''nonces'' (key_point key)"

definition has_nonce :: "'db sled_lib \<Rightarrow> ('db, 'c) sled_storage \<Rightarrow> public_key \<Rightarrow> bool store_result" where
  "has_nonce L S key = contains_data L S ''nonces'' (key_point key)"

definition has_nonce_at_exact_topoheight ::
  "'db sled_lib \<Rightarrow> ('db, 'c) sled_storage \<Rightarrow> public_key \<Rightarrow> topoheight \<Rightarrow> bool store_result" where
  "has_nonce_at_exact_topoheight L S key topoheight = contains_data L S ''versioned_nonces'' (get_versioned_nonce_key key topoheight)"

definition get_nonce_at_exact_topoheight ::
  "'db sled_lib \<Rightarrow> ('db, 'c) sled_storage \<Rightarrow> public_key \<Rightarrow> topoheight \<Rightarrow> versioned_nonce store_result" where
  "get_nonce_at_exact_topoheight L S key topoheight =
     load_from_disk L read_versioned_nonce S ''versioned_nonces'' (get_versioned_nonce_key key topoheight)"

definition get_last_nonce ::
  "'db sled_lib \<Rightarrow> ('db, 'c) sled_storage \<Rightarrow> public_key \<Rightarrow> (topoheight \<times> versioned_nonce) store_result" where
  "get_last_nonce L S key =
     and_then (has_nonce L S key) (\<lambda>has.
     if \<not> has then Inl (NoNonce key)
     else and_then (load_from_disk L read_u64 S ''nonces'' (key_point key)) (\<lambda>topoheight.
       and_then (get_nonce_at_exact_topoheight L S key topoheight) (\<lambda>version. Inr (topoheight, version))))"

definition get_nonce_at_maximum_topoheight ::
  "'db sled_lib \<Rightarrow> ('db, 'c) sled_storage \<Rightarrow> public_key \<Rightarrow> topoheight \<Rightarrow> (topoheight \<times> versioned_nonce) option store_result" where
  "get_nonce_at_maximum_topoheight L S key topoheight =
     and_then (has_nonce L S key) (\<lambda>has.
     if \<not> has then Inr None
     else and_then (has_nonce_at_exact_topoheight L S key topoheight) (\<lambda>exact.
       and_then (if exact then Inr topoheight else get_last_topoheight_for_nonce L S key) (\<lambda>topo.
       and_then (newest_at_most (chain_fuel (Some topo))
         (\<lambda>t. load_previous L S ''versioned_nonces'' (get_versioned_key (key_point key) t)) topoheight (Some topo))
       (with_version (get_nonce_at_exact_topoheight L S key)))))"

section \<open>Multisig\<close>

text \<open>The account comes first in the key of a version, unlike in all other keys.\<close>

definition get_versioned_multisig_key :: "public_key \<Rightarrow> topoheight \<Rightarrow> bytes" where
  "get_versioned_multisig_key account topoheight = key_point account @ to_be_bytes topoheight"

definition get_last_topoheight_for_multisig ::
  "'db sled_lib \<Rightarrow> ('db, 'c) sled_storage \<Rightarrow> public_key \<Rightarrow> topoheight option store_result" where
  "get_last_topoheight_for_multisig L S account = load_optional_from_disk L read_u64 S ''multisig'' (key_point account)"

definition get_multisig_at_topoheight_for ::
  "'db sled_lib \<Rightarrow> ('db, 'c) sled_storage \<Rightarrow> public_key \<Rightarrow> topoheight \<Rightarrow> multisig_payload option versioned store_result" where
  "get_multisig_at_topoheight_for L S account topoheight =
     load_from_disk L (read_versioned (read_option read_multisig_payload)) S ''versioned_multisig'' (get_versioned_multisig_key account topoheight)"

definition delete_last_topoheight_for_multisig ::
  "'db sled_lib \<Rightarrow> public_key \<Rightarrow> (('db, 'c) sled_storage, blockchain_error, unit) act" where
  "delete_last_topoheight_for_multisig L account = act_then (remove_from_disk_without_reading L ''multisig'' (key_point account)) (ret ())"

definition has_multisig_at_exact_topoheight ::
  "'db sled_lib \<Rightarrow> ('db, 'c) sled_storage \<Rightarrow> public_key \<Rightarrow> topoheight \<Rightarrow> bool store_result" where
  "has_multisig_at_exact_topoheight L S account topoheight =
     contains_data L S ''versioned_multisig'' (get_versioned_multisig_key account topoheight)"

definition get_multisig_at_maximum_topoheight_for ::
  "'db sled_lib \<Rightarrow> ('db, 'c) sled_storage \<Rightarrow> public_key \<Rightarrow> topoheight \<Rightarrow>
   (topoheight \<times> multisig_payload option versioned) option store_result" where
  "get_multisig_at_maximum_topoheight_for L S account maximum =
     and_then (has_multisig_at_exact_topoheight L S account maximum) (\<lambda>exact.
     and_then (if exact then Inr (Some maximum) else get_last_topoheight_for_multisig L S account) (\<lambda>start.
     and_then (newest_at_most (chain_fuel start)
       (\<lambda>t. load_previous L S ''versioned_multisig'' (get_versioned_multisig_key account t)) maximum start)
     (with_version (get_multisig_at_topoheight_for L S account))))"

definition has_multisig :: "'db sled_lib \<Rightarrow> ('db, 'c) sled_storage \<Rightarrow> public_key \<Rightarrow> bool store_result" where
  "has_multisig L S account =
     and_then (get_last_topoheight_for_multisig L S account) (\<lambda>topo. case topo of
       None \<Rightarrow> Inr False
     | Some topoheight \<Rightarrow> and_then (get_multisig_at_topoheight_for L S account topoheight) (\<lambda>version.
         Inr (vd_data version \<noteq> None)))"

definition set_last_multisig_to ::
  "'db sled_lib \<Rightarrow> public_key \<Rightarrow> topoheight \<Rightarrow> multisig_payload option versioned \<Rightarrow> (('db, 'c) sled_storage, blockchain_error, unit) act" where
  "set_last_multisig_to L account topoheight multisig =
     act_then (insert_into_disk L ''versioned_multisig'' (get_versioned_multisig_key account topoheight)
       (to_bytes (write_versioned (write_option write_multisig_payload) multisig)))
     (act_then (insert_into_disk L ''multisig'' (key_point account) (to_be_bytes topoheight)) (ret ()))"

section \<open>Registrations\<close>

definition prefixed_db_key_no_u64 :: "bytes \<Rightarrow> public_key \<Rightarrow> bytes" where
  "prefixed_db_key_no_u64 topoheight key = topoheight @ key_point key"

definition prefixed_db_key :: "topoheight \<Rightarrow> public_key \<Rightarrow> bytes" where
  "prefixed_db_key topoheight key = prefixed_db_key_no_u64 (to_be_bytes topoheight) key"

definition get_account_registration_topoheight ::
  "'db sled_lib \<Rightarrow> ('db, 'c) sled_storage \<Rightarrow> public_key \<Rightarrow> topoheight store_result" where
  "get_account_registration_topoheight L S key = load_from_disk L read_u64 S ''registrations'' (key_point key)"

definition set_account_registration_topoheight ::
  "'db sled_lib \<Rightarrow> public_key \<Rightarrow> topoheight \<Rightarrow> (('db, 'c) sled_storage, blockchain_error, unit) act" where
  "set_account_registration_topoheight L key topoheight =
     act_bind (insert_into_disk L ''registrations'' (key_point key) (to_be_bytes topoheight)) (\<lambda>prev.
     act_then (case prev of
         Some old \<Rightarrow> act_then (remove_from_disk_without_reading L ''registrations_prefixed'' (prefixed_db_key_no_u64 old key)) (ret ())
       | None \<Rightarrow> ret ())
     (act_then (insert_into_disk L ''registrations_prefixed'' (prefixed_db_key topoheight key) []) (ret ())))"

definition delete_account_for :: "'db sled_lib \<Rightarrow> public_key \<Rightarrow> (('db, 'c) sled_storage, blockchain_error, unit) act" where
  "delete_account_for L key =
     act_bind (act_query (\<lambda>S. load_optional_from_disk L read_u64 S ''registrations'' (key_point key))) (\<lambda>topo. case topo of
       Some topo \<Rightarrow> act_then (remove_from_disk_without_reading L ''registrations_prefixed'' (prefixed_db_key topo key))
         (act_then (remove_from_disk_without_reading L ''registrations'' (key_point key)) (ret ()))
     | None \<Rightarrow> ret ())"

definition is_account_registered :: "'db sled_lib \<Rightarrow> ('db, 'c) sled_storage \<Rightarrow> public_key \<Rightarrow> bool store_result" where
  "is_account_registered L S key =
     and_then (load_optional_from_disk L read_u64 S ''registrations'' (key_point key)) (\<lambda>topo. case topo of
       Some topo \<Rightarrow> contains_data L S ''registrations_prefixed'' (prefixed_db_key topo key)
     | None \<Rightarrow> Inr False)"

definition is_account_registered_for_topoheight ::
  "'db sled_lib \<Rightarrow> ('db, 'c) sled_storage \<Rightarrow> public_key \<Rightarrow> topoheight \<Rightarrow> bool store_result" where
  "is_account_registered_for_topoheight L S key topoheight =
     and_then (is_account_registered L S key) (\<lambda>registered.
     if \<not> registered then Inr False
     else and_then (get_account_registration_topoheight L S key) (\<lambda>registration. Inr (registration \<le> topoheight)))"

definition get_registered_keys ::
  "'db sled_lib \<Rightarrow> ('db, 'c) sled_storage \<Rightarrow> topoheight option \<Rightarrow> topoheight option \<Rightarrow> public_key store_result list" where
  "get_registered_keys L S minimum maximum =
     transposed (map (\<lambda>el. and_then el (\<lambda>key.
       and_then (if minimum \<noteq> None \<or> maximum \<noteq> None
         then and_then (map_err ErrorOnReader (from_bytes read_u64 (take 8 key))) (\<lambda>topo. Inr (outside_range minimum maximum topo))
         else Inr False) (\<lambda>skip.
       if skip then Inr None
       else and_then (map_err ErrorOnReader (from_bytes read_public_key (take 32 (drop 8 key)))) (\<lambda>k. Inr (Some k)))))
       (disk_iter_keys L S ''registrations_prefixed''))"

text \<open>The walk down the versions of a nonce or a balance that \<open>has_key_updated_in_range\<close> makes.\<close>

fun updated_in_range ::
  "nat \<Rightarrow> (topoheight \<Rightarrow> topoheight option store_result) \<Rightarrow> topoheight \<Rightarrow> topoheight \<Rightarrow> topoheight option \<Rightarrow> bool store_result" where
  "updated_in_range fuel load minimum maximum None = Inr False"
| "updated_in_range 0 load minimum maximum (Some previous) = Inl (Chain OutOfFuel)"
| "updated_in_range (Suc fuel) load minimum maximum (Some previous) =
     (if previous < minimum then Inr False
      else and_then (load previous) (\<lambda>next.
        if previous \<le> maximum then Inr True
        else if (case next of Some v \<Rightarrow> v > previous | None \<Rightarrow> False) then Inl Unknown
        else updated_in_range fuel load minimum maximum next))"

fun any_balance_updated ::
  "'p itself \<Rightarrow> 'db sled_lib \<Rightarrow> ('c, 'tx) lru_caches \<Rightarrow> ('db, 'c) sled_storage \<Rightarrow> public_key \<Rightarrow> topoheight \<Rightarrow> topoheight \<Rightarrow>
   hash store_result list \<Rightarrow> bool store_result" where
  "any_balance_updated ty L A S key minimum maximum [] = Inr False"
| "any_balance_updated ty L A S key minimum maximum (res # rest) =
     and_then res (\<lambda>asset.
     and_then (get_last_balance L A S key asset) (\<lambda>(topo, version :: 'p versioned_balance).
     if topo \<ge> minimum \<and> topo \<le> maximum then Inr True
     else and_then (updated_in_range (chain_fuel (vb_previous_topoheight version))
         (\<lambda>t. and_then (get_balance_at_exact_topoheight L A S key asset t) (\<lambda>v :: 'p versioned_balance. Inr (vb_previous_topoheight v)))
         minimum maximum (vb_previous_topoheight version)) (\<lambda>found.
       if found then Inr True else any_balance_updated ty L A S key minimum maximum rest)))"

definition has_key_updated_in_range ::
  "'p itself \<Rightarrow> 'db sled_lib \<Rightarrow> ('c, 'tx) lru_caches \<Rightarrow> ('db, 'c) sled_storage \<Rightarrow> public_key \<Rightarrow> topoheight \<Rightarrow> topoheight \<Rightarrow> bool store_result" where
  "has_key_updated_in_range ty L A S key minimum maximum =
     and_then (has_nonce L S key) (\<lambda>has.
     if \<not> has then Inr False
     else and_then (get_last_nonce L S key) (\<lambda>(topo, version).
       if topo \<ge> minimum \<and> topo \<le> maximum then Inr True
       else and_then (updated_in_range (chain_fuel (vn_previous_topoheight version))
           (\<lambda>t. and_then (get_nonce_at_exact_topoheight L S key t) (\<lambda>v. Inr (vn_previous_topoheight v)))
           minimum maximum (vn_previous_topoheight version)) (\<lambda>found.
         if found then Inr True
         else any_balance_updated ty L A S key minimum maximum (get_assets_for L S key))))"

section \<open>Energy\<close>

text \<open>
  The key of a version is text: the topoheight in decimal and the address of the account. The text of
  an address always exists (\<open>as_string_total\<close>), so that the formatting does not panic.
\<close>

fun decimal :: "nat \<Rightarrow> bytes" where
  "decimal n = (if n < 10 then [of_nat (48 + n)] else decimal (n div 10) @ [of_nat (48 + n mod 10)])"

declare decimal.simps [simp del]

definition address_text :: "bool \<Rightarrow> public_key \<Rightarrow> bytes" where
  "address_text mainnet key = (case as_string (address_new mainnet Normal key) of Inr s \<Rightarrow> s | Inl _ \<Rightarrow> [])"

definition energy_key :: "('db, 'c) sled_storage \<Rightarrow> topoheight \<Rightarrow> public_key \<Rightarrow> bytes" where
  "energy_key S topoheight account = decimal (unat topoheight) @ ascii ''_'' @ address_text (is_mainnet (ss_network S)) account"

definition get_energy_resource ::
  "'db sled_lib \<Rightarrow> ('db, 'c) sled_storage \<Rightarrow> public_key \<Rightarrow> energy_resource option store_result" where
  "get_energy_resource L S account =
     and_then (load_optional_from_disk L read_u64 S ''energy_resources'' (to_bytes (write_public_key account))) (\<lambda>topoheight.
     case topoheight of
       Some topoheight \<Rightarrow> load_optional_from_disk L read_energy_resource S ''versioned_energy_resources'' (energy_key S topoheight account)
     | None \<Rightarrow> Inr None)"

definition set_energy_resource ::
  "'db sled_lib \<Rightarrow> public_key \<Rightarrow> topoheight \<Rightarrow> energy_resource \<Rightarrow> (('db, 'c) sled_storage, blockchain_error, unit) act" where
  "set_energy_resource L account topoheight energy S =
     act_then (insert_into_disk L ''versioned_energy_resources'' (energy_key S topoheight account) (to_bytes (write_energy_resource energy)))
     (act_then (insert_into_disk L ''energy_resources'' (to_bytes (write_public_key account)) (to_be_bytes topoheight)) (ret ())) S"

section \<open>Deletions\<close>

definition delete_versioned_balances_at_topoheight :: "'db sled_lib \<Rightarrow> topoheight \<Rightarrow> (('db, 'c) sled_storage, blockchain_error, unit) act" where
  "delete_versioned_balances_at_topoheight L = delete_versioned_tree_at_topoheight L ''balances'' ''versioned_balances''"

definition delete_versioned_balances_above_topoheight :: "'db sled_lib \<Rightarrow> topoheight \<Rightarrow> (('db, 'c) sled_storage, blockchain_error, unit) act" where
  "delete_versioned_balances_above_topoheight L = delete_versioned_tree_above_topoheight L ''balances'' ''versioned_balances''"

text \<open>Below the newest version with an output; the removed version is read as in \<open>delete_chain_below\<close>.\<close>

fun delete_balances_chain ::
  "'db sled_lib \<Rightarrow> bytes \<Rightarrow> nat \<Rightarrow> bool \<Rightarrow> topoheight option \<Rightarrow> (('db, 'c) sled_storage, blockchain_error, unit) act" where
  "delete_balances_chain L k fuel delete None = ret ()"
| "delete_balances_chain L k 0 delete (Some prev_topo) = throw (Chain OutOfFuel)"
| "delete_balances_chain L k (Suc fuel) delete (Some prev_topo) =
     (let key = get_versioned_key k prev_topo in
      if delete then act_bind (remove_from_disk L read_u64 ''versioned_balances'' key) (delete_balances_chain L k fuel True)
      else act_bind (act_query (\<lambda>S. load_from_disk L (read_pair (read_option read_u64) read_balance_type) S ''versioned_balances'' key))
        (\<lambda>(prev_topo, ty). delete_balances_chain L k fuel (type_contains_output ty) prev_topo))"

definition delete_versioned_balances_below_topoheight ::
  "'db sled_lib \<Rightarrow> nat \<Rightarrow> topoheight \<Rightarrow> bool \<Rightarrow> (('db, 'c) sled_storage, blockchain_error, unit) act" where
  "delete_versioned_balances_below_topoheight L fuel topoheight keep_last S =
     (if \<not> keep_last then delete_versioned_tree_below_topoheight L fuel ''balances'' ''versioned_balances'' topoheight keep_last S
      else act_each (\<lambda>el. act_bind (act_lift el) (\<lambda>(k, val).
        act_bind (act_lift (map_err ErrorOnReader (from_bytes read_u64 val))) (\<lambda>topo.
        act_bind (act_query (\<lambda>S. load_previous L S ''versioned_balances'' (get_versioned_key k topo)))
          (delete_balances_chain L k fuel False)))) (disk_iter L S ''balances'') S)"

definition delete_versioned_nonces_at_topoheight :: "'db sled_lib \<Rightarrow> topoheight \<Rightarrow> (('db, 'c) sled_storage, blockchain_error, unit) act" where
  "delete_versioned_nonces_at_topoheight L = delete_versioned_tree_at_topoheight L ''nonces'' ''versioned_nonces''"

definition delete_versioned_nonces_above_topoheight :: "'db sled_lib \<Rightarrow> topoheight \<Rightarrow> (('db, 'c) sled_storage, blockchain_error, unit) act" where
  "delete_versioned_nonces_above_topoheight L = delete_versioned_tree_above_topoheight L ''nonces'' ''versioned_nonces''"

definition delete_versioned_nonces_below_topoheight ::
  "'db sled_lib \<Rightarrow> nat \<Rightarrow> topoheight \<Rightarrow> bool \<Rightarrow> (('db, 'c) sled_storage, blockchain_error, unit) act" where
  "delete_versioned_nonces_below_topoheight L fuel = delete_versioned_tree_below_topoheight L fuel ''nonces'' ''versioned_nonces''"

definition delete_versioned_multisigs_at_topoheight :: "'db sled_lib \<Rightarrow> topoheight \<Rightarrow> (('db, 'c) sled_storage, blockchain_error, unit) act" where
  "delete_versioned_multisigs_at_topoheight L = delete_versioned_tree_at_topoheight L ''multisig'' ''versioned_multisig''"

definition delete_versioned_multisigs_above_topoheight :: "'db sled_lib \<Rightarrow> topoheight \<Rightarrow> (('db, 'c) sled_storage, blockchain_error, unit) act" where
  "delete_versioned_multisigs_above_topoheight L = delete_versioned_tree_above_topoheight L ''multisig'' ''versioned_multisig''"

definition delete_versioned_multisigs_below_topoheight ::
  "'db sled_lib \<Rightarrow> nat \<Rightarrow> topoheight \<Rightarrow> bool \<Rightarrow> (('db, 'c) sled_storage, blockchain_error, unit) act" where
  "delete_versioned_multisigs_below_topoheight L fuel = delete_versioned_tree_below_topoheight L fuel ''multisig'' ''versioned_multisig''"

definition delete_versioned_assets_at_topoheight :: "'db sled_lib \<Rightarrow> topoheight \<Rightarrow> (('db, 'c) sled_storage, blockchain_error, unit) act" where
  "delete_versioned_assets_at_topoheight L = delete_versioned_tree_at_topoheight L ''assets'' ''versioned_assets''"

definition delete_versioned_assets_above_topoheight :: "'db sled_lib \<Rightarrow> topoheight \<Rightarrow> (('db, 'c) sled_storage, blockchain_error, unit) act" where
  "delete_versioned_assets_above_topoheight L = delete_versioned_tree_above_topoheight L ''assets'' ''versioned_assets''"

definition delete_versioned_assets_below_topoheight ::
  "'db sled_lib \<Rightarrow> nat \<Rightarrow> topoheight \<Rightarrow> bool \<Rightarrow> (('db, 'c) sled_storage, blockchain_error, unit) act" where
  "delete_versioned_assets_below_topoheight L fuel = delete_versioned_tree_below_topoheight L fuel ''assets'' ''versioned_assets''"

definition delete_registration :: "'db sled_lib \<Rightarrow> bytes \<Rightarrow> bytes \<Rightarrow> (('db, 'c) sled_storage, blockchain_error, unit) act" where
  "delete_registration L key account =
     act_then (remove_from_disk_without_reading L ''registrations_prefixed'' key)
     (act_then (remove_from_disk_without_reading L ''registrations'' account) (ret ()))"

definition delete_versioned_registrations_at_topoheight :: "'db sled_lib \<Rightarrow> topoheight \<Rightarrow> (('db, 'c) sled_storage, blockchain_error, unit) act" where
  "delete_versioned_registrations_at_topoheight L topoheight S =
     act_each (\<lambda>el. act_bind (act_lift el) (\<lambda>key. delete_registration L key (take 32 (drop 8 key))))
       (scan_prefix L S ''registrations_prefixed'' (to_be_bytes topoheight)) S"

definition delete_versioned_registrations_above_topoheight :: "'db sled_lib \<Rightarrow> topoheight \<Rightarrow> (('db, 'c) sled_storage, blockchain_error, unit) act" where
  "delete_versioned_registrations_above_topoheight L topoheight S =
     act_each (\<lambda>el. act_bind (act_lift el) (\<lambda>key.
       act_bind (act_lift (map_err ErrorOnReader (from_bytes read_u64 (take 8 key)))) (\<lambda>topo.
       if topo > topoheight then delete_registration L key (drop 8 key) else ret ())))
       (disk_iter_keys L S ''registrations_prefixed'') S"

end
