(* ===== verification/SledHistory.thy ===== *)
theory SledHistory
  imports SledAccounts
begin

text \<open>
  What the accounts' part of the storage promises. The versions of a key are a history: a list of
  topoheights and values, newest first. A lookup with a bound returns the newest entry up to the
  bound, storing a new version adds an entry, and deleting the topoheights of blocks takes away what
  these blocks stored. The locale \<open>versioned_data\<close> proves this once; nonces and balances are instances.
\<close>

section \<open>Histories\<close>

definition history ::
  "string \<Rightarrow> string \<Rightarrow> 'v rd \<Rightarrow> tree_view \<Rightarrow> bytes \<Rightarrow> (topoheight \<times> 'v) list \<Rightarrow> bool" where
  "history ptr ver rd w key h \<longleftrightarrow> versions w ptr ver key (map fst h) \<and>
     (\<forall>(t, v) \<in> set h. \<exists>bs. version_at w ver key t = Some bs \<and> from_bytes rd bs = Inr v)"

definition newest :: "topoheight \<Rightarrow> (topoheight \<times> 'v) list \<Rightarrow> (topoheight \<times> 'v) option" where
  "newest maximum h = List.find (\<lambda>(t, _). t \<le> maximum) h"

lemma newest_simps [simp]: "newest m [] = None" "newest m ((t, v) # h) = (if t \<le> m then Some (t, v) else newest m h)"
  by (simp_all add: newest_def)

lemma find_map_fst: "List.find P (map fst h) = map_option fst (List.find (\<lambda>(t, _). P t) h)"
  by (induction h) (auto simp: split_def)

lemma newest_fst: "map_option fst (newest m h) = List.find (\<lambda>t. t \<le> m) (map fst h)"
  by (simp add: newest_def find_map_fst)

lemma newest_in: "newest m h = Some (t, v) \<Longrightarrow> (t, v) \<in> set h \<and> t \<le> m"
  by (auto simp: newest_def find_Some_iff) (metis nth_mem)

lemma newest_filter:
  "\<forall>(t, v) \<in> set h. t \<le> m \<longrightarrow> P t \<Longrightarrow> newest m (filter (\<lambda>(t, _). P t) h) = newest m h"
  by (induction h) (auto split: if_splits)

text \<open>A search may also start at the bound itself, if there is a version.\<close>

definition starts_at :: "topoheight list \<Rightarrow> topoheight \<Rightarrow> topoheight option" where
  "starts_at ts maximum = (if maximum \<in> set ts then Some maximum else first ts)"

lemma find_member: "sorted_wrt (>) ts \<Longrightarrow> m \<in> set ts \<Longrightarrow> List.find (\<lambda>t. t \<le> m) ts = Some (m :: topoheight)"
  by (induction ts) auto

context sled_db
begin

lemma load_previous_ok:
  "version_at (sled_view disk S) ver key t = Some bs \<Longrightarrow>
     load_previous L S ver (get_versioned_key key t) = map_err ErrorOnReader (from_bytes (read_option read_u64) bs)"
  by (simp add: load_previous_def load_view version_at_def parse_def and_then_def map_err_def ok_or_def split: sum.split)

lemma search_ok:
  assumes "versions (sled_view disk S) ptr ver key ts"
  shows "newest_at_most (chain_fuel (starts_at ts m)) (\<lambda>t. load_previous L S ver (get_versioned_key key t)) m (starts_at ts m) =
    Inr (List.find (\<lambda>t. t \<le> m) ts)"
proof (cases "m \<in> set ts")
  case True
  have "sorted_wrt (>) ts" using assms chain_descends by (auto simp: versions_def)
  with True show ?thesis by (simp add: starts_at_def chain_fuel_def find_member)
next
  case False
  have "chain (version_at (sled_view disk S) ver key) ts" using assms by (simp add: versions_def)
  from newest_at_most_chain [OF this chain_fuel_enough [OF this]] False show ?thesis
    by (simp add: starts_at_def load_previous_ok)
qed

end

section \<open>Versioned data\<close>

text \<open>A new version of a key.\<close>

definition store_version :: "string \<Rightarrow> string \<Rightarrow> bytes \<Rightarrow> topoheight \<Rightarrow> bytes \<Rightarrow> tree_view \<Rightarrow> tree_view" where
  "store_version ptr ver key t bs w = w(ver := (w ver)(get_versioned_key key t \<mapsto> bs), ptr := (w ptr)(key \<mapsto> to_be_bytes t))"

locale versioned_data = sled_db L disk for L :: "'db sled_lib" and disk :: "'db \<Rightarrow> string \<Rightarrow> bytes \<Rightarrow> bytes option" +
  fixes ptr ver :: string and rd :: "'v rd" and wr :: "'v \<Rightarrow> bytes" and prev :: "'v \<Rightarrow> topoheight option" and ok :: "'v \<Rightarrow> bool"
  assumes trees: "ptr \<noteq> ver"
    and read_back: "ok v \<Longrightarrow> from_bytes rd (wr v) = Inr v"
    and starts_with_previous: "ok v \<Longrightarrow> from_bytes (read_option read_u64) (wr v) = Inr (prev v)"
begin

lemma lookup:
  assumes "history ptr ver rd (sled_view disk S) key h"
  shows "and_then (newest_at_most (chain_fuel (starts_at (map fst h) m)) (\<lambda>t. load_previous L S ver (get_versioned_key key t)) m
      (starts_at (map fst h) m)) (with_version (\<lambda>t. load_from_disk L rd S ver (get_versioned_key key t))) = Inr (newest m h)"
proof -
  have vs: "versions (sled_view disk S) ptr ver key (map fst h)"
    and val: "(t, v) \<in> set h \<Longrightarrow> load_from_disk L rd S ver (get_versioned_key key t) = Inr v" for t v
    using assms by (fastforce simp: history_def load_view version_at_def parse_def and_then_def map_err_def ok_or_def)+
  show ?thesis
    unfolding search_ok [OF vs] newest_fst [symmetric]
    by (cases "newest m h") (auto simp: and_then_def with_version_def dest!: newest_in val)
qed

lemma store_other: "t' \<noteq> ptr \<Longrightarrow> t' \<noteq> ver \<Longrightarrow> store_version ptr ver key t (wr v) w t' = w t'"
  by (simp add: store_version_def)

lemma version_at_store:
  "version_at (store_version ptr ver key t (wr v) w) ver key' t' = (if key' = key \<and> t' = t then Some (wr v) else version_at w ver key' t')"
  using trees by (auto simp: store_version_def version_at_def)

lemma store_history:
  assumes "history ptr ver rd w key h" "ok v" "prev v = first (map fst h)" "\<forall>t' \<in> set (map fst h). t' < t"
  shows "history ptr ver rd (store_version ptr ver key t (wr v) w) key ((t, v) # h)"
proof -
  let ?w = "store_version ptr ver key t (wr v) w"
  have vs: "versions w ptr ver key (map fst h)"
    and val: "\<And>t v. (t, v) \<in> set h \<Longrightarrow> \<exists>bs. version_at w ver key t = Some bs \<and> from_bytes rd bs = Inr v"
    using assms(1) by (auto simp: history_def)
  have old: "version_at ?w ver key t' = version_at w ver key t'" if "t' \<in> set (map fst h)" for t'
    using that assms(4) by (auto simp: version_at_store)
  have "chain (version_at ?w ver key) (map fst h)"
    by (rule chain_cong [of "version_at w ver key"]) (use vs old in \<open>simp_all add: versions_def\<close>)
  then have "chain (version_at ?w ver key) (t # map fst h)"
    using assms(2-4) starts_with_previous by (simp add: version_at_store)
  moreover have "version_at ?w ver key t' \<noteq> None \<longleftrightarrow> t' \<in> set (t # map fst h)" for t'
    using vs by (auto simp: version_at_store versions_def)
  ultimately have "versions ?w ptr ver key (t # map fst h)"
    using trees by (simp add: versions_def store_version_def)
  moreover have "\<exists>bs. version_at ?w ver key t' = Some bs \<and> from_bytes rd bs = Inr v'" if "(t', v') \<in> set ((t, v) # h)" for t' v'
  proof (cases "(t', v') = (t, v)")
    case True
    then show ?thesis using read_back [OF assms(2)] by (simp add: version_at_store)
  next
    case False
    then have in_h: "(t', v') \<in> set h" using that by auto
    then have "t' \<in> set (map fst h)" by force
    with val [OF in_h] old show ?thesis by metis
  qed
  ultimately show ?thesis by (auto simp: history_def)
qed

lemma store_history_other:
  "key' \<noteq> key \<Longrightarrow> history ptr ver rd (store_version ptr ver key t (wr v) w) key' h = history ptr ver rd w key' h"
proof -
  assume "key' \<noteq> key"
  then have "version_at (store_version ptr ver key t (wr v) w) ver key' = version_at w ver key'" "store_version ptr ver key t (wr v) w ptr key' = w ptr key'"
    using trees by (simp_all add: version_at_store fun_eq_iff) (simp add: store_version_def)
  then show ?thesis by (simp add: history_def versions_def)
qed

end

context versioned_data
begin

lemma store_does:
  "does disk (act_then (insert_into_disk L ver (get_versioned_key key t) (wr v)) (act_then (insert_into_disk L ptr key (to_be_bytes t)) (ret ())))
     (\<lambda>w x w'. w' = store_version ptr ver key t (wr v) w)"
  by (rule does_mono [OF does_then [OF insert_does does_then [OF insert_does does_ret]]]) (use trees in \<open>auto simp: store_version_def\<close>)

text \<open>Unwinding the topoheights from \<open>a\<close> to the newest takes their entries out of every history.\<close>

lemma unwind_history:
  assumes "sled_ok S" "a \<le> b" "b \<le> 2 ^ 64"
    and h: "\<And>key. history ptr ver rd (sled_view disk S) key (H key)" and below: "\<And>key t v. (t, v) \<in> set (H key) \<Longrightarrow> unat t < b"
  obtains S' where "act_each (delete_versioned_tree_at_topoheight L ptr ver) (map of_nat [a..<b]) S = (Inr (), S')"
    "\<And>key. history ptr ver rd (sled_view disk S') key (filter (\<lambda>(t, _). unat t < a) (H key))"
    "\<And>t. t \<noteq> ptr \<Longrightarrow> t \<noteq> ver \<Longrightarrow> sled_view disk S' t = sled_view disk S t" "sled_ok S'" "sled_frame S S'"
proof -
  let ?w = "sled_view disk S"
  let ?T = "\<lambda>key. map fst (H key)"
  have vs: "versions ?w ptr ver key (?T key)" for key using h by (simp add: history_def)
  then have ch: "chain (version_at ?w ver key) (?T key)" for key by (simp add: versions_def)
  have n: "a + (b - a) = b" "a + (b - a) \<le> 2 ^ 64" using assms(2,3) by simp_all
  from unwind_ok [OF assms(1) trees order_refl n(2) unwound_start [OF vs] ch] obtain S' where
    S': "act_each (delete_versioned_tree_at_topoheight L ptr ver) (map of_nat [a..<b]) S = (Inr (), S')"
    "\<And>key. unwound a b (sled_view disk S') ptr ver key (?T key) (version_at ?w ver key)" "sled_ok S'" "sled_frame S S'"
    "\<And>t. t \<noteq> ptr \<Longrightarrow> t \<noteq> ver \<Longrightarrow> sled_view disk S' t = ?w t" by (auto simp: n(1))
  have "\<forall>t \<in> set (?T key). unat t < b" for key using below by fastforce
  note e = unwound_end [OF S'(2) ch this]
  have "history ptr ver rd (sled_view disk S') key (filter (\<lambda>(t, _). unat t < a) (H key))" for key
  proof -
    have "version_at (sled_view disk S') ver key t = version_at ?w ver key t" if "(t, v) \<in> set (H key)" "unat t < a" for t v
      using that by (intro e(2)) force+
    moreover have "map fst (filter (\<lambda>(t, _). unat t < a) (H key)) = filter (\<lambda>t. unat t < a) (?T key)"
      by (simp add: filter_map comp_def split_def)
    ultimately show ?thesis using e(1) [of key] h [of key] by (auto simp: history_def)
  qed
  then show thesis by (intro that [OF S'(1) _ S'(5,3,4)])
qed

end

section \<open>Nonces and balances\<close>

lemma previous_of_versioned_nonce: "from_bytes (read_option read_u64) (to_bytes (write_versioned_nonce v)) = Inr (vn_previous_topoheight v)"
proof -
  have "to_bytes (write_versioned_nonce v) = to_bytes (write_option write_u64 (vn_previous_topoheight v)) @ to_be_bytes (vn_nonce v)"
    by (simp add: write_versioned_nonce_def codec_simps option_u64.write_append)
  then show ?thesis using option_u64.from_bytes_iff by (cases "vn_previous_topoheight v") (auto simp: option_ok_def)
qed

lemma previous_of_balance: "from_bytes (read_option read_u64) (to_bytes (write_versioned_balance C v)) = Inr (vb_previous_topoheight v)"
proof -
  have "append_only (write_option write_u64 (vb_previous_topoheight v))" "append_only (write_balance_type (vb_balance_type v))"
    "append_only (write_cache C (vb_final_balance v))" "append_only (write_option (write_cache C) (vb_output_balance v))"
    by (rule option_u64.write_append balance_type.write_append cache_codec.write_append cache_option.write_append)+
  then have "to_bytes (write_versioned_balance C v) = to_bytes (write_option write_u64 (vb_previous_topoheight v)) @
      (to_bytes (write_balance_type (vb_balance_type v)) @ to_bytes (write_cache C (vb_final_balance v)) @
       to_bytes (write_option (write_cache C) (vb_output_balance v)))"
    by (simp add: write_versioned_balance_def append_only_comp to_bytes_comp)
  then show ?thesis using option_u64.from_bytes_iff by (cases "vb_previous_topoheight v") (auto simp: option_ok_def)
qed

sublocale sled_db \<subseteq> nonces: versioned_data L disk "''nonces''" "''versioned_nonces''" read_versioned_nonce
  "\<lambda>v. to_bytes (write_versioned_nonce v)" vn_previous_topoheight "\<lambda>_. True"
  by unfold_locales (simp_all add: versioned_nonce.from_to_bytes previous_of_versioned_nonce)

sublocale sled_db \<subseteq> balances: versioned_data L disk "''balances''" "''versioned_balances''" read_versioned_balance
  "\<lambda>v. to_bytes (write_versioned_balance C v)" vb_previous_topoheight versioned_balance_stored for C
  by unfold_locales (simp_all add: versioned_balance.from_to_bytes previous_of_balance)

abbreviation nonce_history :: "tree_view \<Rightarrow> public_key \<Rightarrow> (topoheight \<times> versioned_nonce) list \<Rightarrow> bool" where
  "nonce_history w key \<equiv> history ''nonces'' ''versioned_nonces'' read_versioned_nonce w (key_point key)"

abbreviation balance_history :: "tree_view \<Rightarrow> bytes \<Rightarrow> (topoheight \<times> 'p versioned_balance) list \<Rightarrow> bool" where
  "balance_history \<equiv> history ''balances'' ''versioned_balances'' read_versioned_balance"

lemma nonce_key: "get_versioned_nonce_key key t = get_versioned_key (key_point key) t"
  by (simp add: get_versioned_nonce_key_def get_versioned_key_def)

lemma balance_key: "get_versioned_balance_key key asset t = get_versioned_key (get_balance_key_for key asset) t"
  by (simp add: get_versioned_balance_key_def get_versioned_key_def get_balance_key_for_def)

lemma history_pointer:
  assumes "history ptr ver rd w key h"
  shows "w ptr key = map_option to_be_bytes (first (map fst h))" "w ver (get_versioned_key key t) \<noteq> None \<longleftrightarrow> t \<in> set (map fst h)"
  using assms by (auto simp: history_def versions_def version_at_def)

context sled_db
begin

lemma load_pointer: "w = sled_view disk S \<Longrightarrow> w ptr key = Some (to_be_bytes (t :: topoheight)) \<Longrightarrow> load_from_disk L read_u64 S ptr key = Inr t"
  by (simp add: load_view parse_def and_then_def map_err_def ok_or_def)

text \<open>The nonce at a bound is the newest up to the bound.\<close>

lemma get_nonce_newest:
  assumes h: "nonce_history (sled_view disk S) key h"
  shows "get_nonce_at_maximum_topoheight L S key m = Inr (newest m h)"
proof (cases h)
  case Nil
  then show ?thesis using history_pointer(1) [OF h]
    by (simp add: get_nonce_at_maximum_topoheight_def has_nonce_def contains_view and_then_def)
next
  case (Cons e h')
  note p = history_pointer [OF h]
  have "(if m \<in> set (map fst h) then Inr m else get_last_topoheight_for_nonce L S key) = Inr (the (starts_at (map fst h) m))"
    using p(1) by (simp add: Cons starts_at_def get_last_topoheight_for_nonce_def load_pointer)
  moreover have "Some (the (starts_at (map fst h) m)) = starts_at (map fst h) m" by (simp add: Cons starts_at_def)
  ultimately show ?thesis
    using p nonces.lookup [OF h, of m]
    by (simp add: get_nonce_at_maximum_topoheight_def has_nonce_def has_nonce_at_exact_topoheight_def contains_view and_then_def
        nonce_key Cons get_nonce_at_exact_topoheight_def [abs_def] del: newest_simps)
qed

end

section \<open>Known assets\<close>

text \<open>
  The cache of the assets only holds assets of the storage, as far as the snapshot has not written
  them. Then the cache makes no difference.
\<close>

definition assets_sound :: "('c, 'tx) lru_caches \<Rightarrow> ('db \<Rightarrow> string \<Rightarrow> bytes \<Rightarrow> bytes option) \<Rightarrow> ('db, 'c) sled_storage \<Rightarrow> bool" where
  "assets_sound A disk S \<longleftrightarrow> (\<forall>c asset. sc_caches (ss_cache S) = Some c \<longrightarrow> lu_contains (lc_assets A) asset c \<longrightarrow>
     \<not> touched S ''assets'' (as_bytes asset) \<longrightarrow> sled_view disk S ''assets'' (as_bytes asset) \<noteq> None)"

lemma assets_sound_frame:
  "assets_sound A disk S \<Longrightarrow> sled_frame S S' \<Longrightarrow> sled_view disk S' ''assets'' = sled_view disk S ''assets'' \<Longrightarrow> assets_sound A disk S'"
  unfolding assets_sound_def sled_frame_def by metis

lemma touched_value: "touched S t k \<longleftrightarrow> Option.bind (ss_snapshot S) (\<lambda>sn. sn_contains_key_with_value sn t k) \<noteq> None"
  by (auto simp: touched_def sn_contains_key_def sn_contains_key_with_value_def split: option.split)

context sled_db
begin

lemma has_asset_view:
  assumes "assets_sound A disk S"
  shows "has_asset L A S asset = Inr (sled_view disk S ''assets'' (as_bytes asset) \<noteq> None)"
proof (cases "touched S ''assets'' (as_bytes asset)")
  case True
  then obtain v where "Option.bind (ss_snapshot S) (\<lambda>sn. sn_contains_key_with_value sn ''assets'' (as_bytes asset)) = Some v"
    by (auto simp: touched_value)
  then show ?thesis
    using contains_view [of S "''assets''" "as_bytes asset"]
    by (simp add: has_asset_def contains_cached_def contains_data_cached_def contains_data_def)
next
  case False
  then have "Option.bind (ss_snapshot S) (\<lambda>sn. sn_contains_key_with_value sn ''assets'' (as_bytes asset)) = None"
    by (simp add: touched_value)
  then show ?thesis
    using contains_view [of S "''assets''" "as_bytes asset"] assms False
    by (auto simp: has_asset_def contains_cached_def contains_data_cached_def contains_data_def assets_sound_def split: option.split)
qed

lemma get_balance_newest:
  assumes a: "has_asset L A S asset = Inr True" and h: "balance_history (sled_view disk S) (get_balance_key_for key asset) h"
  shows "get_balance_at_maximum_topoheight L A S key asset m = Inr (newest m h)"
proof -
  let ?k = "get_balance_key_for key asset"
  note p = history_pointer [OF h]
  have has: "has_balance_for L A S key asset = Inr (h \<noteq> [])"
    using p(1) by (cases h) (simp_all add: has_balance_for_def a and_then_def has_balance_internal_def contains_view)
  show ?thesis
  proof (cases h)
    case Nil
    then show ?thesis by (simp add: get_balance_at_maximum_topoheight_def has and_then_def)
  next
    case (Cons e h')
    have exact: "has_balance_at_exact_topoheight L A S key asset t = Inr (t \<in> set (map fst h))" for t
      using p(2) [of t] by (simp add: has_balance_at_exact_topoheight_def has Cons and_then_def contains_view balance_key)
    have load: "load_from_disk L read_versioned_balance S ''versioned_balances'' (get_versioned_key ?k t) = Inr v" if "(t, v) \<in> set h" for t v
      using that h by (fastforce simp: history_def load_view version_at_def parse_def and_then_def map_err_def ok_or_def)
    have at: "get_balance_at_exact_topoheight L A S key asset t = Inr v" if "(t, v) \<in> set h" for t v
      using that load [OF that] by (force simp: get_balance_at_exact_topoheight_def exact and_then_def map_err_def balance_key)
    have start: "balance_start L A S key asset m = Inr (the (starts_at (map fst h) m))"
      "Some (the (starts_at (map fst h) m)) = starts_at (map fst h) m"
      using p(1) by (simp_all add: balance_start_def exact and_then_def starts_at_def Cons get_last_topoheight_for_balance_def Let_def
          has_balance_internal_def contains_view load_pointer)
    have "versions (sled_view disk S) ''balances'' ''versioned_balances'' ?k (map fst h)" using h by (simp add: history_def)
    note s = search_ok [OF this, of m, folded newest_fst]
    have "with_version (get_balance_at_exact_topoheight L A S key asset) (map_option fst (newest m h)) = Inr (newest m h)"
    proof (cases "newest m h")
      case (Some tv)
      then obtain t v where tv: "newest m h = Some (t, v)" by (cases tv) simp
      with newest_in [OF tv] at [of t v] show ?thesis by (simp add: with_version_def and_then_def)
    qed (simp add: with_version_def)
    moreover have "h \<noteq> []" by (simp add: Cons)
    ultimately show ?thesis
      using s start by (simp add: get_balance_at_maximum_topoheight_def has balance_key and_then_def)
  qed
qed

lemma set_balance_does:
  "does disk (set_last_balance_to C L key asset t v) (\<lambda>w x w'. w' = store_version ''balances'' ''versioned_balances'' (get_balance_key_for key asset) t (to_bytes (write_versioned_balance C v)) w)"
proof -
  have eq: "set_last_balance_to C L key asset t v =
      act_then (insert_into_disk L ''versioned_balances'' (get_versioned_key (get_balance_key_for key asset) t) (to_bytes (write_versioned_balance C v)))
        (act_then (insert_into_disk L ''balances'' (get_balance_key_for key asset) (to_be_bytes t)) (ret ()))"
    by (auto simp: set_last_balance_to_def set_balance_at_topoheight_def set_last_topoheight_for_balance_def balance_key act_then_def
        act_bind_def ret_def fun_eq_iff split: prod.split sum.split)
  show ?thesis unfolding eq by (rule balances.store_does)
qed

lemma set_nonce_does:
  "does disk (set_last_nonce_to L key t v) (\<lambda>w x w'. \<exists>e. w' = (store_version ''nonces'' ''versioned_nonces'' (key_point key) t (to_bytes (write_versioned_nonce v)) w)(''extra'' := e))"
proof -
  let ?tail = "\<lambda>prev :: bytes option. if prev = None then act_bind (act_query count_accounts) (\<lambda>n. store_accounts_count L (n + 1)) else ret ()"
  have count: "does disk (act_query count_accounts) (\<lambda>w x w'. w' = w)" by (auto simp: does_def act_query_def count_accounts_def)
  have n: "does disk (store_accounts_count L n) (\<lambda>w x w'. \<exists>e. w' = w(''extra'' := e))" for n
    unfolding store_accounts_count_def
    by (rule does_mono [OF does_then [OF does_counters does_then [OF insert_does does_ret]]]) blast
  have "does disk (?tail prev) (\<lambda>w x w'. \<exists>e. w' = w(''extra'' := e))" for prev
  proof (cases prev)
    case None
    have "does disk (act_bind (act_query count_accounts) (\<lambda>n. store_accounts_count L (n + 1))) (\<lambda>w x w'. \<exists>e. w' = w(''extra'' := e))"
      by (rule does_mono [OF does_bind [OF count n]]) blast
    with None show ?thesis by simp
  next
    case (Some bs)
    have "does disk (ret ()) (\<lambda>w x w'. \<exists>e. w' = w(''extra'' := e))" by (rule does_mono [OF does_ret]) (metis fun_upd_triv)
    with Some show ?thesis by simp
  qed
  note does = does_then [OF insert_does does_bind [OF insert_does this]]
  show ?thesis unfolding set_last_nonce_to_def nonce_key
    by (rule does_mono [OF does]) (auto simp: store_version_def)
qed

end

section \<open>The balances of a block\<close>

type_synonym 'p balance_update = "public_key \<times> hash \<times> 'p versioned_balance"

definition update_key :: "'p balance_update \<Rightarrow> bytes" where
  "update_key u = (case u of (key, asset, _) \<Rightarrow> get_balance_key_for key asset)"

definition store_balance :: "('s, 'p) curve \<Rightarrow> 'db sled_lib \<Rightarrow> topoheight \<Rightarrow> 'p balance_update \<Rightarrow> (('db, 'c) sled_storage, blockchain_error, unit) act" where
  "store_balance C L t u = (case u of (key, asset, v) \<Rightarrow> set_last_balance_to C L key asset t v)"

definition add_updates :: "topoheight \<Rightarrow> 'p balance_update list \<Rightarrow> (bytes \<Rightarrow> (topoheight \<times> 'p versioned_balance) list) \<Rightarrow>
    bytes \<Rightarrow> (topoheight \<times> 'p versioned_balance) list" where
  "add_updates t us H k = (case List.find (\<lambda>u. update_key u = k) us of Some (_, _, v) \<Rightarrow> (t, v) # H k | None \<Rightarrow> H k)"

lemma add_updates_simps:
  "add_updates t [] H = H"
  "add_updates t (u # us) H = (add_updates t us H)(update_key u := (t, snd (snd u)) # H (update_key u))"
  by (auto simp: add_updates_def fun_eq_iff split: prod.split)

lemma add_updates_outside: "k \<notin> update_key ` set us \<Longrightarrow> add_updates t us H k = H k"
  by (induction us) (auto simp: add_updates_simps)

context sled_db
begin

lemma store_balance_does:
  "does disk (store_balance C L t u)
     (\<lambda>w x w'. w' = store_version ''balances'' ''versioned_balances'' (update_key u) t (to_bytes (write_versioned_balance C (snd (snd u)))) w)"
  using set_balance_does by (cases u) (simp add: store_balance_def update_key_def)

text \<open>Storing the balances of a block adds one entry to the history of every balance it changes.\<close>

lemma store_balances_does:
  assumes "distinct (map update_key us)"
    and "\<And>u. u \<in> set us \<Longrightarrow> versioned_balance_stored (snd (snd u)) \<and> vb_previous_topoheight (snd (snd u)) = first (map fst (H (update_key u))) \<and>
      (\<forall>t' \<in> set (map fst (H (update_key u))). t' < t)"
  shows "does disk (act_each (store_balance C L t) us :: (('db, 'c) sled_storage, blockchain_error, unit) act)
    (\<lambda>w x w'. (\<forall>t'. t' \<noteq> ''balances'' \<longrightarrow> t' \<noteq> ''versioned_balances'' \<longrightarrow> w' t' = w t') \<and>
      ((\<forall>k. balance_history w k (H k)) \<longrightarrow> (\<forall>k. balance_history w' k (add_updates t us H k))))"
  using assms
proof (induction us arbitrary: H)
  case Nil
  show ?case unfolding act_each.simps by (rule does_mono [OF does_ret]) (simp add: add_updates_simps)
next
  case (Cons u us)
  let ?H = "H(update_key u := (t, snd (snd u)) # H (update_key u))"
  have ih: "does disk (act_each (store_balance C L t) us :: (('db, 'c) sled_storage, blockchain_error, unit) act)
    (\<lambda>w x w'. (\<forall>t'. t' \<noteq> ''balances'' \<longrightarrow> t' \<noteq> ''versioned_balances'' \<longrightarrow> w' t' = w t') \<and>
      ((\<forall>k. balance_history w k (?H k)) \<longrightarrow> (\<forall>k. balance_history w' k (add_updates t us ?H k))))"
    by (rule Cons.IH [of ?H]) (use Cons.prems in \<open>auto simp: image_iff\<close>)
  have ext: "add_updates t us ?H = add_updates t (u # us) H"
    using Cons.prems(1) by (auto simp: add_updates_simps(2) fun_eq_iff add_updates_outside) (auto simp: add_updates_def split: option.split)
  have step: "balance_history (store_version ''balances'' ''versioned_balances'' (update_key u) t (to_bytes (write_versioned_balance C (snd (snd u)))) w) k (?H k)"
    if "\<forall>k. balance_history w k (H k)" for w k
    using that Cons.prems(2) [of u] balances.store_history [of w "update_key u" "H (update_key u)" "snd (snd u)" t C]
    by (cases "k = update_key u") (auto simp: balances.store_history_other)
  show ?case unfolding act_each.simps
    by (rule does_mono [OF does_bind [OF store_balance_does ih]]) (use step in \<open>auto simp: ext balances.store_other\<close>)
qed

end

lemma add_updates_member:
  assumes "distinct (map update_key us)" "(key, asset, v) \<in> set us"
  shows "add_updates t us H (get_balance_key_for key asset) = (t, v) # H (get_balance_key_for key asset)"
  using assms
proof (induction us)
  case (Cons u us)
  show ?case
  proof (cases "u = (key, asset, v)")
    case False
    then have "(key, asset, v) \<in> set us" using Cons.prems by simp
    then have "update_key (key, asset, v) \<in> update_key ` set us" by (rule imageI)
    moreover have "update_key u \<notin> update_key ` set us" using Cons.prems(1) by simp
    ultimately have "update_key u \<noteq> get_balance_key_for key asset" by (metis update_key_def case_prod_conv)
    then show ?thesis using Cons.IH Cons.prems(1) \<open>(key, asset, v) \<in> set us\<close> by (simp add: add_updates_simps)
  qed (simp add: add_updates_simps update_key_def)
qed simp

context sled_db
begin

text \<open>What a read of a balance gives depends on the asset and the history of the balance only.\<close>

lemma get_balance_history:
  assumes "assets_sound A disk S" and "balance_history (sled_view disk S) (get_balance_key_for key asset) h"
  shows "get_balance_at_maximum_topoheight L A S key asset m =
    (if sled_view disk S ''assets'' (as_bytes asset) = None then Inl (AssetNotFound asset) else Inr (newest m h))"
proof (cases "sled_view disk S ''assets'' (as_bytes asset) = None")
  case True
  then show ?thesis
    using has_asset_view [OF assms(1)] by (simp add: get_balance_at_maximum_topoheight_def has_balance_for_def and_then_def)
next
  case False
  then have "has_asset L A S asset = Inr True" using has_asset_view [OF assms(1)] by simp
  from get_balance_newest [OF this assms(2)] False show ?thesis by simp
qed

lemma unwind_balances:
  assumes "sled_ok S" and "\<And>k. balance_history (sled_view disk S) k (H k :: (topoheight \<times> 'p versioned_balance) list)"
    and "\<And>k t' v. (t', v) \<in> set (H k) \<Longrightarrow> t' \<le> t"
    and run: "delete_versioned_balances_at_topoheight L t S = (r, S')"
  shows "r = Inr () \<and> (\<forall>k. balance_history (sled_view disk S') k (filter (\<lambda>(t', _). t' < t) (H k))) \<and>
    (\<forall>t. t \<noteq> ''balances'' \<longrightarrow> t \<noteq> ''versioned_balances'' \<longrightarrow> sled_view disk S' t = sled_view disk S t) \<and> sled_ok S' \<and> sled_frame S S'"
proof -
  let ?a = "unat t"
  have b: "?a \<le> Suc ?a" "Suc ?a \<le> 2 ^ 64" using unsigned_less [of t, where ?'a = nat] by simp_all
  have below: "unat t' < Suc ?a" if "(t', v) \<in> set (H k)" for k t' v
    using assms(3) [OF that] by (simp add: word_le_nat_alt less_Suc_eq_le)
  obtain S'' where 2: "act_each (delete_versioned_tree_at_topoheight L ''balances'' ''versioned_balances'') (map of_nat [?a..<Suc ?a]) S = (Inr (), S'')"
    "\<And>k. balance_history (sled_view disk S'') k (filter (\<lambda>(t', _). unat t' < ?a) (H k))"
    "\<And>t. t \<noteq> ''balances'' \<Longrightarrow> t \<noteq> ''versioned_balances'' \<Longrightarrow> sled_view disk S'' t = sled_view disk S t" "sled_ok S''" "sled_frame S S''"
    by (rule balances.unwind_history [OF assms(1) b assms(2) below]) (assumption, rule that)
  have "act_each (delete_versioned_tree_at_topoheight L ''balances'' ''versioned_balances'') (map of_nat [?a..<Suc ?a]) S =
      act_bind (delete_versioned_balances_at_topoheight L t) (\<lambda>_. ret ()) S"
    by (simp add: delete_versioned_balances_at_topoheight_def)
  with 2(1) run have "r = Inr ()" "S'' = S'" by (auto simp: act_bind_def ret_def split: sum.splits)
  with 2 show ?thesis by (auto simp: word_less_nat_alt)
qed

end

section \<open>Properties\<close>


text \<open>One asset is known, and a block at topoheight 3 stores the first balance of an account.\<close>

definition demo_asset :: hash where
  "demo_asset = Hash (replicate 32 9)"

definition demo_key :: public_key where
  "demo_key = PublicKey (replicate 32 5)"

definition demo_balance :: "8 word versioned_balance" where
  "demo_balance = versioned_balance_new (Compressed \<lparr>ct_commitment = replicate 32 1, ct_handle = replicate 32 2\<rparr>) None"

definition asset_storage :: "(mem_db, unit) sled_storage" where
  "asset_storage = empty_storage\<lparr>ss_db := (\<lambda>_. [])(''assets'' := [(as_bytes demo_asset, [1])])\<rparr>"


end
