(* ===== verification/SledContracts.thy ===== *)
theory SledContracts
  imports SledHistory
begin

text \<open>
  The contracts' part of the storage on sled (\<open>sled/providers/contract\<close>: \<open>mod.rs\<close>, \<open>data.rs\<close>, \<open>balance.rs\<close>,
  \<open>output.rs\<close>, \<open>supply.rs\<close>, \<open>provider.rs\<close>, their deletions under \<open>versioned/contract\<close>, and the codec of
  contract outputs in \<open>common/src/contract/output.rs\<close>). Modules and values of the virtual machine come
  with their codecs, \<open>vm_codec\<close>; the key of a value is hashed by \<open>H\<close>.
\<close>

section \<open>Contract outputs\<close>

fun write_contract_output :: "contract_output \<Rightarrow> writer \<Rightarrow> writer" where
  "write_contract_output (RefundGas x) = writes [write_u8 0, write_u64 x]"
| "write_contract_output (OutTransfer x asset destination) = writes [write_u8 1, write_u64 x, write_hash asset, write_public_key destination]"
| "write_contract_output (Mint asset x) = writes [write_u8 2, write_hash asset, write_u64 x]"
| "write_contract_output (OutBurn asset x) = writes [write_u8 3, write_hash asset, write_u64 x]"
| "write_contract_output (NewAsset asset) = writes [write_u8 4, write_hash asset]"
| "write_contract_output (ExitCode code) = writes [write_u8 5, write_option write_u64 code]"
| "write_contract_output RefundDeposits = write_u8 6"

definition read_contract_output :: "contract_output rd" where
  "read_contract_output = rbind read_u8 (\<lambda>n.
     if n = 0 then rbind read_u64 (\<lambda>x. rreturn (RefundGas x))
     else if n = 1 then rbind read_u64 (\<lambda>x. rbind read_hash (\<lambda>asset. rbind read_public_key (\<lambda>destination.
       rreturn (OutTransfer x asset destination))))
     else if n = 2 then rbind read_hash (\<lambda>asset. rbind read_u64 (\<lambda>x. rreturn (Mint asset x)))
     else if n = 3 then rbind read_hash (\<lambda>asset. rbind read_u64 (\<lambda>x. rreturn (OutBurn asset x)))
     else if n = 4 then rbind read_hash (\<lambda>asset. rreturn (NewAsset asset))
     else if n = 5 then rbind (read_option read_u64) (\<lambda>code. rreturn (ExitCode code))
     else if n = 6 then rreturn RefundDeposits
     else rfail InvalidValue)"

fun contract_output_size :: "contract_output \<Rightarrow> usize" where
  "contract_output_size (RefundGas x) = 1 + 8"
| "contract_output_size (OutTransfer x asset destination) = 1 + 8 + size_hash asset + size_public_key destination"
| "contract_output_size (Mint asset x) = 1 + size_hash asset + 8"
| "contract_output_size (OutBurn asset x) = 1 + size_hash asset + 8"
| "contract_output_size (NewAsset asset) = 1 + size_hash asset"
| "contract_output_size (ExitCode code) = 1 + size_option (\<lambda>_. 8) code"
| "contract_output_size RefundDeposits = 1"

definition has_contract_outputs_for_tx :: "'db sled_lib \<Rightarrow> ('db, 'c) sled_storage \<Rightarrow> hash \<Rightarrow> bool store_result" where
  "has_contract_outputs_for_tx L S tx_hash = contains_data L S ''contracts_outputs'' (as_bytes tx_hash)"

definition get_contract_outputs_for_tx :: "'db sled_lib \<Rightarrow> ('db, 'c) sled_storage \<Rightarrow> hash \<Rightarrow> contract_output list store_result" where
  "get_contract_outputs_for_tx L S tx_hash = load_from_disk L (read_vec read_contract_output) S ''contracts_outputs'' (as_bytes tx_hash)"

definition set_contract_outputs_for_tx ::
  "'db sled_lib \<Rightarrow> hash \<Rightarrow> contract_output list \<Rightarrow> (('db, 'c) sled_storage, blockchain_error, unit) act" where
  "set_contract_outputs_for_tx L tx_hash outs =
     act_then (insert_into_disk L ''contracts_outputs'' (as_bytes tx_hash) (to_bytes (write_vec write_contract_output outs))) (ret ())"

definition delete_contract_outputs_for_tx :: "'db sled_lib \<Rightarrow> hash \<Rightarrow> (('db, 'c) sled_storage, blockchain_error, unit) act" where
  "delete_contract_outputs_for_tx L tx_hash =
     act_then (remove_from_disk_without_reading L ''contracts_outputs'' (as_bytes tx_hash)) (ret ())"

section \<open>Contracts\<close>

definition get_versioned_contract_key :: "hash \<Rightarrow> topoheight \<Rightarrow> bytes" where
  "get_versioned_contract_key h topoheight = to_be_bytes topoheight @ as_bytes h"

definition count_contracts :: "('db, 'c) sled_storage \<Rightarrow> u64 store_result" where
  "count_contracts S = Inr (cn_contracts_count (counters S))"

definition store_contracts_count :: "'db sled_lib \<Rightarrow> u64 \<Rightarrow> (('db, 'c) sled_storage, blockchain_error, unit) act" where
  "store_contracts_count L n =
     act_then (act_modify (set_counters (cn_contracts_count_update (\<lambda>_. n))))
     (act_then (insert_into_disk L ''extra'' (ascii ''CCON'') (to_be_bytes n)) (ret ()))"

definition set_last_contract_to ::
  "('v, 'm) vm_codec \<Rightarrow> 'db sled_lib \<Rightarrow> hash \<Rightarrow> topoheight \<Rightarrow> 'm option versioned \<Rightarrow> (('db, 'c) sled_storage, blockchain_error, unit) act" where
  "set_last_contract_to V L h topoheight contract =
     act_then (insert_into_disk L ''versioned_contracts'' (get_versioned_contract_key h topoheight)
       (to_bytes (write_versioned (write_option (write_module V)) contract)))
     (act_bind (insert_into_disk L ''contracts'' (as_bytes h) (to_be_bytes topoheight)) (\<lambda>prev.
      if prev = None then act_bind (act_query count_contracts) (\<lambda>n. store_contracts_count L (n + 1)) else ret ()))"

definition get_last_topoheight_for_contract :: "'db sled_lib \<Rightarrow> ('db, 'c) sled_storage \<Rightarrow> hash \<Rightarrow> topoheight option store_result" where
  "get_last_topoheight_for_contract L S h = load_optional_from_disk L read_u64 S ''contracts'' (as_bytes h)"

definition get_contract_at_topoheight_for ::
  "('v, 'm) vm_codec \<Rightarrow> 'db sled_lib \<Rightarrow> ('db, 'c) sled_storage \<Rightarrow> hash \<Rightarrow> topoheight \<Rightarrow> 'm option versioned store_result" where
  "get_contract_at_topoheight_for V L S h topoheight =
     load_from_disk L (read_versioned (read_option (read_module V))) S ''versioned_contracts'' (get_versioned_contract_key h topoheight)"

definition has_contract_at_exact_topoheight :: "'db sled_lib \<Rightarrow> ('db, 'c) sled_storage \<Rightarrow> hash \<Rightarrow> topoheight \<Rightarrow> bool store_result" where
  "has_contract_at_exact_topoheight L S h topoheight = contains_data L S ''versioned_contracts'' (get_versioned_contract_key h topoheight)"

definition get_contract_at_maximum_topoheight_for ::
  "('v, 'm) vm_codec \<Rightarrow> 'db sled_lib \<Rightarrow> ('db, 'c) sled_storage \<Rightarrow> hash \<Rightarrow> topoheight \<Rightarrow>
   (topoheight \<times> 'm option versioned) option store_result" where
  "get_contract_at_maximum_topoheight_for V L S h maximum =
     and_then (get_last_topoheight_for_contract L S h) (\<lambda>pointer. case pointer of
       None \<Rightarrow> Inr None
     | Some pointer \<Rightarrow> and_then (has_contract_at_exact_topoheight L S h maximum) (\<lambda>exact.
         let topo = (if exact then maximum else pointer) in
         and_then (newest_at_most (chain_fuel (Some topo))
           (\<lambda>t. load_previous L S ''versioned_contracts'' (get_versioned_contract_key h t)) maximum (Some topo))
         (with_version (get_contract_at_topoheight_for V L S h))))"

definition has_contract_at_maximum_topoheight :: "'db sled_lib \<Rightarrow> ('db, 'c) sled_storage \<Rightarrow> hash \<Rightarrow> topoheight \<Rightarrow> bool store_result" where
  "has_contract_at_maximum_topoheight L S h maximum =
     and_then (get_last_topoheight_for_contract L S h) (\<lambda>pointer. case pointer of
       None \<Rightarrow> Inr False
     | Some pointer \<Rightarrow> and_then (newest_at_most (chain_fuel (Some pointer))
           (\<lambda>t. load_previous L S ''versioned_contracts'' (get_versioned_contract_key h t)) maximum (Some pointer))
         (\<lambda>topo. case topo of None \<Rightarrow> Inr False
          | Some topoheight \<Rightarrow> and_then (load_from_disk L (read_pair (read_option read_u64) read_bool) S ''versioned_contracts''
              (get_versioned_contract_key h topoheight)) (\<lambda>(_, exists). Inr exists)))"

text \<open>Whether the chain of versions has one in the range. The test for the minimum is on the newest version.\<close>

fun contract_in_range ::
  "nat \<Rightarrow> (topoheight \<Rightarrow> topoheight option store_result) \<Rightarrow> topoheight \<Rightarrow> topoheight \<Rightarrow> topoheight \<Rightarrow> topoheight option \<Rightarrow> bool store_result" where
  "contract_in_range fuel previous topoheight minimum maximum None = Inr False"
| "contract_in_range 0 previous topoheight minimum maximum (Some topo) = Inl (Chain OutOfFuel)"
| "contract_in_range (Suc fuel) previous topoheight minimum maximum (Some topo) =
     (if topoheight < minimum then Inr False
      else if topo \<le> maximum then Inr True
      else and_then (previous topo) (contract_in_range fuel previous topoheight minimum maximum))"

definition get_contracts :: "'db sled_lib \<Rightarrow> ('db, 'c) sled_storage \<Rightarrow> topoheight \<Rightarrow> topoheight \<Rightarrow> hash store_result list" where
  "get_contracts L S minimum maximum =
     transposed (map (\<lambda>el. and_then el (\<lambda>(key, val).
       and_then (map_err ErrorOnReader (from_bytes read_u64 val)) (\<lambda>topoheight.
       and_then (map_err ErrorOnReader (from_bytes read_hash key)) (\<lambda>h.
       and_then (contract_in_range (chain_fuel (Some topoheight))
         (\<lambda>t. load_previous L S ''versioned_contracts'' (get_versioned_contract_key h t)) topoheight minimum maximum (Some topoheight)) (\<lambda>found.
       Inr (if found then Some h else None)))))) (disk_iter L S ''contracts''))"

definition delete_last_topoheight_for_contract :: "'db sled_lib \<Rightarrow> hash \<Rightarrow> (('db, 'c) sled_storage, blockchain_error, unit) act" where
  "delete_last_topoheight_for_contract L h =
     act_bind (remove_from_disk_without_reading L ''contracts'' (as_bytes h)) (\<lambda>prev.
     if prev then act_bind (act_query count_contracts) (\<lambda>n. store_contracts_count L (n - 1)) else ret ())"

definition has_contract_pointer :: "'db sled_lib \<Rightarrow> ('db, 'c) sled_storage \<Rightarrow> hash \<Rightarrow> bool store_result" where
  "has_contract_pointer L S h = contains_data L S ''contracts'' (as_bytes h)"

definition has_contract_module_at_topoheight ::
  "('v, 'm) vm_codec \<Rightarrow> 'db sled_lib \<Rightarrow> ('db, 'c) sled_storage \<Rightarrow> hash \<Rightarrow> topoheight \<Rightarrow> bool store_result" where
  "has_contract_module_at_topoheight V L S h topoheight =
     and_then (get_contract_at_topoheight_for V L S h topoheight) (\<lambda>contract. Inr (vd_data contract \<noteq> None))"

definition has_contract :: "('v, 'm) vm_codec \<Rightarrow> 'db sled_lib \<Rightarrow> ('db, 'c) sled_storage \<Rightarrow> hash \<Rightarrow> bool store_result" where
  "has_contract V L S h = and_then (get_last_topoheight_for_contract L S h) (\<lambda>pointer. case pointer of
     None \<Rightarrow> Inr False | Some pointer \<Rightarrow> has_contract_module_at_topoheight V L S h pointer)"

section \<open>Contract data\<close>

definition get_contract_data_key :: "(u8 list \<Rightarrow> hash) \<Rightarrow> ('v, 'm) vm_codec \<Rightarrow> 'v \<Rightarrow> hash \<Rightarrow> hash" where
  "get_contract_data_key H V constant contract = H (to_bytes (write_cell V constant) @ to_bytes (write_hash contract))"

definition get_versioned_contract_data_key_from_hash :: "hash \<Rightarrow> topoheight \<Rightarrow> bytes" where
  "get_versioned_contract_data_key_from_hash h topoheight = to_be_bytes topoheight @ as_bytes h"

definition get_versioned_contract_data_key :: "(u8 list \<Rightarrow> hash) \<Rightarrow> ('v, 'm) vm_codec \<Rightarrow> hash \<Rightarrow> 'v \<Rightarrow> topoheight \<Rightarrow> bytes" where
  "get_versioned_contract_data_key H V contract key topoheight = to_be_bytes topoheight @ as_bytes (get_contract_data_key H V key contract)"

definition set_last_contract_data_to ::
  "(u8 list \<Rightarrow> hash) \<Rightarrow> ('v, 'm) vm_codec \<Rightarrow> 'db sled_lib \<Rightarrow> hash \<Rightarrow> 'v \<Rightarrow> topoheight \<Rightarrow> 'v option versioned \<Rightarrow>
   (('db, 'c) sled_storage, blockchain_error, unit) act" where
  "set_last_contract_data_to H V L contract key topoheight data =
     act_then (insert_into_disk L ''versioned_contracts_data'' (get_versioned_contract_data_key H V contract key topoheight)
       (to_bytes (write_versioned (write_option (write_cell V)) data)))
     (act_then (insert_into_disk L ''contracts_data'' (as_bytes (get_contract_data_key H V key contract)) (to_be_bytes topoheight)) (ret ()))"

definition get_last_topoheight_for_contract_data ::
  "(u8 list \<Rightarrow> hash) \<Rightarrow> ('v, 'm) vm_codec \<Rightarrow> 'db sled_lib \<Rightarrow> ('db, 'c) sled_storage \<Rightarrow> hash \<Rightarrow> 'v \<Rightarrow> topoheight option store_result" where
  "get_last_topoheight_for_contract_data H V L S contract key =
     load_optional_from_disk L read_u64 S ''contracts_data'' (as_bytes (get_contract_data_key H V key contract))"

definition get_contract_data_at_exact_topoheight_for ::
  "(u8 list \<Rightarrow> hash) \<Rightarrow> ('v, 'm) vm_codec \<Rightarrow> 'db sled_lib \<Rightarrow> ('db, 'c) sled_storage \<Rightarrow> hash \<Rightarrow> 'v \<Rightarrow> topoheight \<Rightarrow> 'v option versioned store_result" where
  "get_contract_data_at_exact_topoheight_for H V L S contract key topoheight =
     load_from_disk L (read_versioned (read_option (read_cell V))) S ''versioned_contracts_data''
       (get_versioned_contract_data_key H V contract key topoheight)"

definition has_contract_data_at_exact_topoheight ::
  "(u8 list \<Rightarrow> hash) \<Rightarrow> ('v, 'm) vm_codec \<Rightarrow> 'db sled_lib \<Rightarrow> ('db, 'c) sled_storage \<Rightarrow> hash \<Rightarrow> 'v \<Rightarrow> topoheight \<Rightarrow> bool store_result" where
  "has_contract_data_at_exact_topoheight H V L S contract key topoheight =
     contains_data L S ''versioned_contracts_data'' (get_versioned_contract_data_key H V contract key topoheight)"

definition get_contract_data_topoheight_at_maximum_topoheight_for ::
  "(u8 list \<Rightarrow> hash) \<Rightarrow> ('v, 'm) vm_codec \<Rightarrow> 'db sled_lib \<Rightarrow> ('db, 'c) sled_storage \<Rightarrow> hash \<Rightarrow> 'v \<Rightarrow> topoheight \<Rightarrow> topoheight option store_result" where
  "get_contract_data_topoheight_at_maximum_topoheight_for H V L S contract key maximum =
     and_then (get_last_topoheight_for_contract_data H V L S contract key) (\<lambda>pointer. case pointer of
       None \<Rightarrow> Inr None
     | Some pointer \<Rightarrow> and_then (has_contract_data_at_exact_topoheight H V L S contract key maximum) (\<lambda>exact.
         let topo = (if exact then maximum else pointer) in
         newest_at_most (chain_fuel (Some topo))
           (\<lambda>t. load_previous L S ''versioned_contracts_data'' (get_versioned_contract_data_key H V contract key t)) maximum (Some topo)))"

definition get_contract_data_at_maximum_topoheight_for ::
  "(u8 list \<Rightarrow> hash) \<Rightarrow> ('v, 'm) vm_codec \<Rightarrow> 'db sled_lib \<Rightarrow> ('db, 'c) sled_storage \<Rightarrow> hash \<Rightarrow> 'v \<Rightarrow> topoheight \<Rightarrow>
   (topoheight \<times> 'v option versioned) option store_result" where
  "get_contract_data_at_maximum_topoheight_for H V L S contract key maximum =
     and_then (get_contract_data_topoheight_at_maximum_topoheight_for H V L S contract key maximum)
       (with_version (get_contract_data_at_exact_topoheight_for H V L S contract key))"

definition has_contract_data_at_maximum_topoheight ::
  "(u8 list \<Rightarrow> hash) \<Rightarrow> ('v, 'm) vm_codec \<Rightarrow> 'db sled_lib \<Rightarrow> ('db, 'c) sled_storage \<Rightarrow> hash \<Rightarrow> 'v \<Rightarrow> topoheight \<Rightarrow> bool store_result" where
  "has_contract_data_at_maximum_topoheight H V L S contract key topoheight =
     and_then (get_contract_data_at_maximum_topoheight_for H V L S contract key topoheight) (\<lambda>res.
     Inr (case res of Some (_, v) \<Rightarrow> vd_data v \<noteq> None | None \<Rightarrow> False))"

text \<open>The keys of the scan are hashes; the code reads them as values.\<close>

definition get_contract_data_entries_at_maximum_topoheight ::
  "(u8 list \<Rightarrow> hash) \<Rightarrow> ('v, 'm) vm_codec \<Rightarrow> 'db sled_lib \<Rightarrow> ('db, 'c) sled_storage \<Rightarrow> hash \<Rightarrow> topoheight \<Rightarrow> ('v \<times> 'v) store_result list" where
  "get_contract_data_entries_at_maximum_topoheight H V L S contract topoheight =
     transposed (map (\<lambda>res. and_then res (\<lambda>key.
       and_then (map_err ErrorOnReader (from_bytes (read_cell V) key)) (\<lambda>k.
       and_then (get_contract_data_at_maximum_topoheight_for H V L S contract k topoheight) (\<lambda>val.
       Inr (Option.bind val (\<lambda>(_, v). map_option (Pair k) (vd_data v)))))))
       (scan_prefix L S ''contracts_data'' (as_bytes contract)))"

section \<open>Contract balances\<close>

definition get_contract_balance_key :: "hash \<Rightarrow> hash \<Rightarrow> bytes" where
  "get_contract_balance_key contract asset = as_bytes contract @ as_bytes asset"

definition has_contract_balance_for :: "'db sled_lib \<Rightarrow> ('db, 'c) sled_storage \<Rightarrow> hash \<Rightarrow> hash \<Rightarrow> bool store_result" where
  "has_contract_balance_for L S contract asset = contains_data L S ''contracts_balances'' (get_contract_balance_key contract asset)"

definition has_contract_balance_at_exact_topoheight ::
  "'db sled_lib \<Rightarrow> ('db, 'c) sled_storage \<Rightarrow> hash \<Rightarrow> hash \<Rightarrow> topoheight \<Rightarrow> bool store_result" where
  "has_contract_balance_at_exact_topoheight L S contract asset topoheight =
     contains_data L S ''versioned_contracts_balances'' (get_versioned_key (get_contract_balance_key contract asset) topoheight)"

definition get_contract_balance_at_exact_topoheight ::
  "'db sled_lib \<Rightarrow> ('db, 'c) sled_storage \<Rightarrow> hash \<Rightarrow> hash \<Rightarrow> topoheight \<Rightarrow> u64 versioned store_result" where
  "get_contract_balance_at_exact_topoheight L S contract asset topoheight =
     load_from_disk L (read_versioned read_u64) S ''versioned_contracts_balances''
       (get_versioned_key (get_contract_balance_key contract asset) topoheight)"

definition get_last_topoheight_for_contract_balance ::
  "'db sled_lib \<Rightarrow> ('db, 'c) sled_storage \<Rightarrow> hash \<Rightarrow> hash \<Rightarrow> topoheight option store_result" where
  "get_last_topoheight_for_contract_balance L S contract asset =
     load_optional_from_disk L read_u64 S ''contracts_balances'' (get_contract_balance_key contract asset)"

definition get_contract_balance_at_maximum_topoheight ::
  "'db sled_lib \<Rightarrow> ('db, 'c) sled_storage \<Rightarrow> hash \<Rightarrow> hash \<Rightarrow> topoheight \<Rightarrow> (topoheight \<times> u64 versioned) option store_result" where
  "get_contract_balance_at_maximum_topoheight L S contract asset topoheight =
     and_then (get_last_topoheight_for_contract_balance L S contract asset) (\<lambda>topo.
     let k = get_contract_balance_key contract asset in
     and_then (newest_at_most (chain_fuel topo)
       (\<lambda>t. load_previous L S ''versioned_contracts_balances'' (get_versioned_key k t)) topoheight topo)
     (with_version (\<lambda>t. load_from_disk L (read_versioned read_u64) S ''versioned_contracts_balances'' (get_versioned_key k t))))"

definition get_contract_assets_for :: "'db sled_lib \<Rightarrow> ('db, 'c) sled_storage \<Rightarrow> hash \<Rightarrow> hash store_result list" where
  "get_contract_assets_for L S contract = map (\<lambda>res. and_then res (\<lambda>bs.
     map_err ErrorOnReader (from_bytes read_hash (drop HASH_SIZE bs)))) (scan_prefix L S ''contracts_balances'' (as_bytes contract))"

definition get_last_contract_balance ::
  "'db sled_lib \<Rightarrow> ('db, 'c) sled_storage \<Rightarrow> hash \<Rightarrow> hash \<Rightarrow> (topoheight \<times> u64 versioned) store_result" where
  "get_last_contract_balance L S contract asset =
     and_then (get_last_topoheight_for_contract_balance L S contract asset) (\<lambda>topo. case topo of
       None \<Rightarrow> Inl NoContractBalance
     | Some topoheight \<Rightarrow> and_then (get_contract_balance_at_exact_topoheight L S contract asset topoheight) (\<lambda>v. Inr (topoheight, v)))"

definition set_last_contract_balance_to ::
  "'db sled_lib \<Rightarrow> hash \<Rightarrow> hash \<Rightarrow> topoheight \<Rightarrow> u64 versioned \<Rightarrow> (('db, 'c) sled_storage, blockchain_error, unit) act" where
  "set_last_contract_balance_to L contract asset topoheight balance =
     act_then (insert_into_disk L ''versioned_contracts_balances'' (get_versioned_key (get_contract_balance_key contract asset) topoheight)
       (to_bytes (write_versioned write_u64 balance)))
     (act_then (insert_into_disk L ''contracts_balances'' (get_contract_balance_key contract asset) (to_be_bytes topoheight)) (ret ()))"

section \<open>Supplies\<close>

definition has_asset_supply_at_exact_topoheight :: "'db sled_lib \<Rightarrow> ('db, 'c) sled_storage \<Rightarrow> hash \<Rightarrow> topoheight \<Rightarrow> bool store_result" where
  "has_asset_supply_at_exact_topoheight L S asset topoheight =
     contains_data L S ''versioned_assets_supply'' (get_versioned_key (as_bytes asset) topoheight)"

definition has_supply_for_asset :: "'db sled_lib \<Rightarrow> ('db, 'c) sled_storage \<Rightarrow> hash \<Rightarrow> bool store_result" where
  "has_supply_for_asset L S asset = contains_data L S ''assets_supply'' (as_bytes asset)"

text \<open>Going back, the loop loads the version at the bound instead of the one it is at.\<close>

definition get_asset_supply_at_maximum_topoheight ::
  "'db sled_lib \<Rightarrow> ('db, 'c) sled_storage \<Rightarrow> hash \<Rightarrow> topoheight \<Rightarrow> (topoheight \<times> u64 versioned) option store_result" where
  "get_asset_supply_at_maximum_topoheight L S asset topoheight =
     and_then (has_asset_supply_at_exact_topoheight L S asset topoheight) (\<lambda>exact.
     and_then (if exact then Inr (Some topoheight)
       else and_then (has_supply_for_asset L S asset) (\<lambda>has.
         if has then load_optional_from_disk L read_u64 S ''assets_supply'' (as_bytes asset) else Inr None)) (\<lambda>topo.
     and_then (newest_at_most (chain_fuel topo)
       (\<lambda>_. load_previous L S ''versioned_assets_supply'' (get_versioned_key (as_bytes asset) topoheight)) topoheight topo)
     (with_version (\<lambda>t. load_from_disk L (read_versioned read_u64) S ''versioned_assets_supply'' (get_versioned_key (as_bytes asset) t)))))"

definition set_last_supply_for_asset ::
  "'db sled_lib \<Rightarrow> hash \<Rightarrow> topoheight \<Rightarrow> u64 versioned \<Rightarrow> (('db, 'c) sled_storage, blockchain_error, unit) act" where
  "set_last_supply_for_asset L asset topoheight supply =
     act_then (insert_into_disk L ''versioned_assets_supply'' (get_versioned_key (as_bytes asset) topoheight) (to_bytes (write_versioned write_u64 supply)))
     (act_then (insert_into_disk L ''assets_supply'' (as_bytes asset) (to_be_bytes topoheight)) (ret ()))"

section \<open>What contracts can ask\<close>

text \<open>The same queries as the virtual machine sees them; blocking on the asynchronous call is left out.\<close>

definition load_data ::
  "(u8 list \<Rightarrow> hash) \<Rightarrow> ('v, 'm) vm_codec \<Rightarrow> 'db sled_lib \<Rightarrow> ('db, 'c) sled_storage \<Rightarrow> hash \<Rightarrow> 'v \<Rightarrow> topoheight \<Rightarrow>
   (topoheight \<times> 'v option) option store_result" where
  "load_data H V L S contract key topoheight =
     and_then (get_contract_data_at_maximum_topoheight_for H V L S contract key topoheight) (\<lambda>res.
     Inr (case res of Some (topoheight, data) \<Rightarrow> (case vd_data data of
         Some data \<Rightarrow> Some (topoheight, Some data) | None \<Rightarrow> Some (topoheight, None))
       | None \<Rightarrow> None))"

definition has_data :: "(u8 list \<Rightarrow> hash) \<Rightarrow> ('v, 'm) vm_codec \<Rightarrow> 'db sled_lib \<Rightarrow> ('db, 'c) sled_storage \<Rightarrow> hash \<Rightarrow> 'v \<Rightarrow> topoheight \<Rightarrow> bool store_result" where
  "has_data H V L S contract key topoheight = has_contract_data_at_maximum_topoheight H V L S contract key topoheight"

definition load_data_latest_topoheight ::
  "(u8 list \<Rightarrow> hash) \<Rightarrow> ('v, 'm) vm_codec \<Rightarrow> 'db sled_lib \<Rightarrow> ('db, 'c) sled_storage \<Rightarrow> hash \<Rightarrow> 'v \<Rightarrow> topoheight \<Rightarrow> topoheight option store_result" where
  "load_data_latest_topoheight H V L S contract key topoheight =
     get_contract_data_topoheight_at_maximum_topoheight_for H V L S contract key topoheight"

definition asset_exists ::
  "'db sled_lib \<Rightarrow> ('c, 'tx) lru_caches \<Rightarrow> hash \<Rightarrow> topoheight \<Rightarrow> (('db, 'c) sled_storage, blockchain_error, bool) act" where
  "asset_exists L A asset topoheight = is_asset_registered_at_maximum_topoheight L A asset topoheight"

definition account_exists :: "'db sled_lib \<Rightarrow> ('db, 'c) sled_storage \<Rightarrow> public_key \<Rightarrow> topoheight \<Rightarrow> bool store_result" where
  "account_exists L S key topoheight = is_account_registered_for_topoheight L S key topoheight"

definition get_contract_balance_for_asset ::
  "'db sled_lib \<Rightarrow> ('db, 'c) sled_storage \<Rightarrow> hash \<Rightarrow> hash \<Rightarrow> topoheight \<Rightarrow> (topoheight \<times> u64) option store_result" where
  "get_contract_balance_for_asset L S contract asset topoheight =
     and_then (get_contract_balance_at_maximum_topoheight L S contract asset topoheight) (\<lambda>res.
     Inr (map_option (\<lambda>(topoheight, balance). (topoheight, vd_data balance)) res))"

definition load_asset_data ::
  "'db sled_lib \<Rightarrow> ('c, 'tx) lru_caches \<Rightarrow> (u8 list \<Rightarrow> bool) \<Rightarrow> hash \<Rightarrow> topoheight \<Rightarrow>
   (('db, 'c) sled_storage, blockchain_error, (topoheight \<times> asset_data) option) act" where
  "load_asset_data L A utf8 asset topoheight =
     act_bind (get_asset_at_maximum_topoheight L A utf8 asset topoheight) (\<lambda>res.
     ret (map_option (\<lambda>(topo, v). (topo, vd_data v)) res))"

definition load_asset_supply ::
  "'db sled_lib \<Rightarrow> ('db, 'c) sled_storage \<Rightarrow> hash \<Rightarrow> topoheight \<Rightarrow> (topoheight \<times> u64) option store_result" where
  "load_asset_supply L S asset topoheight =
     and_then (get_asset_supply_at_maximum_topoheight L S asset topoheight) (\<lambda>res.
     Inr (map_option (\<lambda>(topoheight, supply). (topoheight, vd_data supply)) res))"

definition get_account_balance_for_asset ::
  "'db sled_lib \<Rightarrow> ('c, 'tx) lru_caches \<Rightarrow> ('db, 'c) sled_storage \<Rightarrow> public_key \<Rightarrow> hash \<Rightarrow> topoheight \<Rightarrow>
   (topoheight \<times> 'p ciphertext_cache) option store_result" where
  "get_account_balance_for_asset L A S key asset topoheight =
     and_then (get_balance_at_maximum_topoheight L A S key asset topoheight) (\<lambda>res.
     Inr (map_option (\<lambda>(topoheight, balance). (topoheight, vb_final_balance balance)) res))"

section \<open>Deletions\<close>

definition delete_versioned_contracts_at_topoheight :: "'db sled_lib \<Rightarrow> topoheight \<Rightarrow> (('db, 'c) sled_storage, blockchain_error, unit) act" where
  "delete_versioned_contracts_at_topoheight L = delete_versioned_tree_at_topoheight L ''contracts'' ''versioned_contracts''"

definition delete_versioned_contracts_above_topoheight :: "'db sled_lib \<Rightarrow> topoheight \<Rightarrow> (('db, 'c) sled_storage, blockchain_error, unit) act" where
  "delete_versioned_contracts_above_topoheight L = delete_versioned_tree_above_topoheight L ''contracts'' ''versioned_contracts''"

definition delete_versioned_contracts_below_topoheight :: "'db sled_lib \<Rightarrow> nat \<Rightarrow> topoheight \<Rightarrow> bool \<Rightarrow> (('db, 'c) sled_storage, blockchain_error, unit) act" where
  "delete_versioned_contracts_below_topoheight L fuel = delete_versioned_tree_below_topoheight L fuel ''contracts'' ''versioned_contracts''"

definition delete_versioned_contract_data_at_topoheight :: "'db sled_lib \<Rightarrow> topoheight \<Rightarrow> (('db, 'c) sled_storage, blockchain_error, unit) act" where
  "delete_versioned_contract_data_at_topoheight L = delete_versioned_tree_at_topoheight L ''contracts_data'' ''versioned_contracts_data''"

definition delete_versioned_contract_data_above_topoheight :: "'db sled_lib \<Rightarrow> topoheight \<Rightarrow> (('db, 'c) sled_storage, blockchain_error, unit) act" where
  "delete_versioned_contract_data_above_topoheight L = delete_versioned_tree_above_topoheight L ''contracts_data'' ''versioned_contracts_data''"

definition delete_versioned_contract_data_below_topoheight :: "'db sled_lib \<Rightarrow> nat \<Rightarrow> topoheight \<Rightarrow> bool \<Rightarrow> (('db, 'c) sled_storage, blockchain_error, unit) act" where
  "delete_versioned_contract_data_below_topoheight L fuel = delete_versioned_tree_below_topoheight L fuel ''contracts_data'' ''versioned_contracts_data''"

definition delete_versioned_contract_balances_data_at_topoheight :: "'db sled_lib \<Rightarrow> topoheight \<Rightarrow> (('db, 'c) sled_storage, blockchain_error, unit) act" where
  "delete_versioned_contract_balances_data_at_topoheight L = delete_versioned_tree_at_topoheight L ''contracts_balances'' ''versioned_contracts_balances''"

definition delete_versioned_contract_balances_above_topoheight :: "'db sled_lib \<Rightarrow> topoheight \<Rightarrow> (('db, 'c) sled_storage, blockchain_error, unit) act" where
  "delete_versioned_contract_balances_above_topoheight L = delete_versioned_tree_above_topoheight L ''contracts_balances'' ''versioned_contracts_balances''"

definition delete_versioned_contract_balances_below_topoheight :: "'db sled_lib \<Rightarrow> nat \<Rightarrow> topoheight \<Rightarrow> bool \<Rightarrow> (('db, 'c) sled_storage, blockchain_error, unit) act" where
  "delete_versioned_contract_balances_below_topoheight L fuel = delete_versioned_tree_below_topoheight L fuel ''contracts_balances'' ''versioned_contracts_balances''"

definition delete_versioned_assets_supply_at_topoheight :: "'db sled_lib \<Rightarrow> topoheight \<Rightarrow> (('db, 'c) sled_storage, blockchain_error, unit) act" where
  "delete_versioned_assets_supply_at_topoheight L = delete_versioned_tree_at_topoheight L ''assets_supply'' ''versioned_assets_supply''"

definition delete_versioned_assets_supply_above_topoheight :: "'db sled_lib \<Rightarrow> topoheight \<Rightarrow> (('db, 'c) sled_storage, blockchain_error, unit) act" where
  "delete_versioned_assets_supply_above_topoheight L = delete_versioned_tree_above_topoheight L ''assets_supply'' ''versioned_assets_supply''"

definition delete_versioned_assets_supply_below_topoheight :: "'db sled_lib \<Rightarrow> nat \<Rightarrow> topoheight \<Rightarrow> bool \<Rightarrow> (('db, 'c) sled_storage, blockchain_error, unit) act" where
  "delete_versioned_assets_supply_below_topoheight L fuel = delete_versioned_tree_below_topoheight L fuel ''assets_supply'' ''versioned_assets_supply''"

end
