(* ===== verification/SledBlocks.thy ===== *)
theory SledBlocks
  imports SledContracts
begin

text \<open>
  The blocks' part of the storage on sled (\<open>sled/providers\<close>: \<open>block.rs\<close>, \<open>block_execution_order.rs\<close>,
  \<open>blockdag.rs\<close>, \<open>blocks_at_height.rs\<close>, \<open>client_protocol.rs\<close>, \<open>dag_order.rs\<close>, \<open>difficulty.rs\<close>,
  \<open>transaction.rs\<close>, \<open>merkle.rs\<close>, \<open>network.rs\<close>, \<open>pruned_topoheight.rs\<close>, \<open>state.rs\<close>, \<open>tips_provider.rs\<close>,
  \<open>versioned/dag_order.rs\<close>, \<open>versioned/cache.rs\<close>, \<open>delete_block_at_topoheight\<close> in \<open>sled/mod.rs\<close> and the
  deletions of all versioned data in \<open>storage/providers/versioned/mod.rs\<close>). Headers, transactions and
  the order of the DAG are read through LRU caches, so a read changes the storage too.
\<close>

section \<open>Cached data\<close>

definition get_cacheable_arc_data ::
  "'db sled_lib \<Rightarrow> ('c, 'k, 'v) lru \<Rightarrow> 'v rd \<Rightarrow> string \<Rightarrow> bytes \<Rightarrow> 'k \<Rightarrow> (('db, 'c) sled_storage, blockchain_error, 'v) act" where
  "get_cacheable_arc_data L A rd t key_bytes key S =
     (case sc_caches (ss_cache S) of
       Some c \<Rightarrow>
         if cache_usable S t key_bytes then (case lu_get A key c of
             (Some v, c) \<Rightarrow> (Inr v, set_caches c S)
           | (None, c) \<Rightarrow> (case load_from_disk L rd S t key_bytes of
               Inl e \<Rightarrow> (Inl e, set_caches c S)
             | Inr v \<Rightarrow> (Inr v, set_caches (lu_put A key v c) S)))
         else (load_from_disk L rd S t key_bytes, S)
     | None \<Rightarrow> (load_from_disk L rd S t key_bytes, S))"

definition pop_cache :: "('c, 'k, 'v) lru \<Rightarrow> 'k \<Rightarrow> (('db, 'c) sled_storage, blockchain_error, 'v option) act" where
  "pop_cache A key S = (case sc_caches (ss_cache S) of
     None \<Rightarrow> (Inr None, S)
   | Some c \<Rightarrow> let (v, c) = lu_pop A key c in (Inr v, set_caches c S))"

text \<open>The cache is \<open>None\<close> for data that is not cached.\<close>

definition delete_cacheable_data ::
  "'db sled_lib \<Rightarrow> ('c, 'k, 'v) lru option \<Rightarrow> 'v rd \<Rightarrow> string \<Rightarrow> bytes \<Rightarrow> 'k \<Rightarrow> (('db, 'c) sled_storage, blockchain_error, 'v) act" where
  "delete_cacheable_data L A rd t key_bytes key =
     act_bind (remove_from_disk_internal L t key_bytes) (\<lambda>r.
     act_bind (act_lift (ok_or NotFoundOnDisk r)) (\<lambda>val.
     act_bind (case A of Some A \<Rightarrow> pop_cache A key | None \<Rightarrow> ret None) (\<lambda>cached. case cached of
       Some v \<Rightarrow> ret v
     | None \<Rightarrow> act_lift (map_err ErrorOnReader (from_bytes rd val)))))"

definition delete_arc_cacheable_data ::
  "'db sled_lib \<Rightarrow> ('c, 'k, 'v) lru \<Rightarrow> 'v rd \<Rightarrow> string \<Rightarrow> bytes \<Rightarrow> 'k \<Rightarrow> (('db, 'c) sled_storage, blockchain_error, 'v) act" where
  "delete_arc_cacheable_data L A rd t key_bytes key =
     act_bind (remove_from_disk L rd t key_bytes) (\<lambda>r.
     act_bind (act_lift (ok_or NotFoundOnDisk r)) (\<lambda>val.
     act_bind (pop_cache A key) (\<lambda>cached. ret (case cached of Some v \<Rightarrow> v | None \<Rightarrow> val))))"

section \<open>The order of the DAG\<close>

definition set_topo_height_for_block ::
  "'db sled_lib \<Rightarrow> ('c, 'tx) lru_caches \<Rightarrow> hash \<Rightarrow> topoheight \<Rightarrow> (('db, 'c) sled_storage, blockchain_error, unit) act" where
  "set_topo_height_for_block L A h topoheight =
     act_then (insert_into_disk L ''topo_by_hash'' (as_bytes h) (to_be_bytes topoheight))
     (act_then (insert_into_disk L ''hash_at_topo'' (to_be_bytes topoheight) (as_bytes h))
     (act_then (act_modify (map_caches (lu_put (lc_topo_by_hash A) h topoheight)))
     (act_modify (map_caches (lu_put (lc_hash_at_topo A) topoheight h)))))"

definition get_topo_height_for_hash ::
  "'db sled_lib \<Rightarrow> ('c, 'tx) lru_caches \<Rightarrow> hash \<Rightarrow> (('db, 'c) sled_storage, blockchain_error, topoheight) act" where
  "get_topo_height_for_hash L A h = get_cacheable_data L (lc_topo_by_hash A) read_u64 ''topo_by_hash'' (as_bytes h) h"

definition get_hash_at_topo_height ::
  "'db sled_lib \<Rightarrow> ('c, 'tx) lru_caches \<Rightarrow> topoheight \<Rightarrow> (('db, 'c) sled_storage, blockchain_error, hash) act" where
  "get_hash_at_topo_height L A topoheight =
     get_cacheable_data L (lc_hash_at_topo A) read_hash ''hash_at_topo'' (to_be_bytes topoheight) topoheight"

definition act_or_else :: "('st, 'e, 'a) act \<Rightarrow> 'b \<Rightarrow> ('a \<Rightarrow> ('st, 'e, 'b) act) \<Rightarrow> ('st, 'e, 'b) act" where
  "act_or_else m otherwise f S = (case m S of (Inl e, S) \<Rightarrow> (Inr otherwise, S) | (Inr x, S) \<Rightarrow> f x S)"

definition is_block_topological_ordered ::
  "'db sled_lib \<Rightarrow> ('c, 'tx) lru_caches \<Rightarrow> hash \<Rightarrow> (('db, 'c) sled_storage, blockchain_error, bool) act" where
  "is_block_topological_ordered L A h =
     act_or_else (get_topo_height_for_hash L A h) False (\<lambda>topoheight.
     act_or_else (get_hash_at_topo_height L A topoheight) False (\<lambda>hash_at_topo. ret (hash_at_topo = h)))"

definition has_hash_at_topoheight ::
  "'db sled_lib \<Rightarrow> ('c, 'tx) lru_caches \<Rightarrow> ('db, 'c) sled_storage \<Rightarrow> topoheight \<Rightarrow> bool store_result" where
  "has_hash_at_topoheight L A S topoheight =
     contains_cached L (lc_hash_at_topo A) S ''hash_at_topo'' (to_be_bytes topoheight) topoheight"

definition get_orphaned_blocks :: "'db sled_lib \<Rightarrow> ('db, 'c) sled_storage \<Rightarrow> hash store_result list" where
  "get_orphaned_blocks L S = transposed (map (\<lambda>res. and_then res (\<lambda>key.
     and_then (map_err ErrorOnReader (from_bytes read_hash key)) (\<lambda>h.
     and_then (contains_data L S ''topo_by_hash'' (as_bytes h)) (\<lambda>ordered.
     Inr (if ordered then None else Some h))))) (disk_iter_keys L S ''blocks''))"

definition delete_order_above ::
  "'db sled_lib \<Rightarrow> topoheight \<Rightarrow> (bytes \<times> bytes) store_result \<Rightarrow> (('db, 'c) sled_storage, blockchain_error, unit) act" where
  "delete_order_above L topoheight el =
     act_bind (act_lift el) (\<lambda>(key, val).
     act_bind (act_lift (map_err ErrorOnReader (from_bytes read_u64 key))) (\<lambda>topo.
     if topo > topoheight then
       act_bind (act_lift (map_err ErrorOnReader (from_bytes read_hash val))) (\<lambda>_.
       act_then (remove_from_disk_without_reading L ''hash_at_topo'' key)
       (act_then (remove_from_disk_without_reading L ''topo_by_hash'' val) (ret ())))
     else ret ()))"

definition delete_dag_order_above_topoheight :: "'db sled_lib \<Rightarrow> topoheight \<Rightarrow> (('db, 'c) sled_storage, blockchain_error, unit) act" where
  "delete_dag_order_above_topoheight L topoheight S = act_each (delete_order_above L topoheight) (disk_iter L S ''hash_at_topo'') S"

definition clear_versioned_data_caches :: "('c, 'tx) lru_caches \<Rightarrow> (('db, 'c) sled_storage, blockchain_error, unit) act" where
  "clear_versioned_data_caches A = act_modify (map_caches (lu_clear (lc_assets A) \<circ> lu_clear (lc_hash_at_topo A) \<circ> lu_clear (lc_topo_by_hash A)))"

section \<open>Transactions\<close>

type_synonym ('s, 'v, 'm, 'r) stx = "('s, 'v, 'm, 'r) signed_transaction"

definition count_transactions :: "('db, 'c) sled_storage \<Rightarrow> u64 store_result" where
  "count_transactions S = Inr (cn_transactions_count (counters S))"

definition store_transactions_count :: "'db sled_lib \<Rightarrow> u64 \<Rightarrow> (('db, 'c) sled_storage, blockchain_error, unit) act" where
  "store_transactions_count L n =
     act_then (act_modify (set_counters (cn_transactions_count_update (\<lambda>_. n))))
     (act_then (insert_into_disk L ''extra'' (ascii ''CTXS'') (to_be_bytes n)) (ret ()))"

definition get_transaction ::
  "('s, 'p) curve \<Rightarrow> ('s, 'p, 't, 'r, 'e) range_lib \<Rightarrow> ('v, 'm) vm_codec \<Rightarrow> 'db sled_lib \<Rightarrow> ('c, ('s, 'v, 'm, 'r) stx) lru_caches \<Rightarrow>
   hash \<Rightarrow> (('db, 'c) sled_storage, blockchain_error, ('s, 'v, 'm, 'r) stx) act" where
  "get_transaction C R V L A h =
     get_cacheable_arc_data L (lc_transactions A) (read_signed_transaction C R V) ''transactions'' (as_bytes h) h"

definition get_transaction_size :: "'db sled_lib \<Rightarrow> ('db, 'c) sled_storage \<Rightarrow> hash \<Rightarrow> usize store_result" where
  "get_transaction_size L S h = get_size_from_disk L S ''transactions'' (as_bytes h)"

definition has_transaction :: "'db sled_lib \<Rightarrow> ('c, 'tx) lru_caches \<Rightarrow> ('db, 'c) sled_storage \<Rightarrow> hash \<Rightarrow> bool store_result" where
  "has_transaction L A S h = contains_cached L (lc_transactions A) S ''transactions'' (as_bytes h) h"

definition add_transaction ::
  "('s, 'p) curve \<Rightarrow> ('s, 'p, 't, 'r, 'e) range_lib \<Rightarrow> ('v, 'm) vm_codec \<Rightarrow> 'db sled_lib \<Rightarrow> hash \<Rightarrow> ('s, 'v, 'm, 'r) stx \<Rightarrow>
   (('db, 'c) sled_storage, blockchain_error, unit) act" where
  "add_transaction C R V L h tx =
     act_then (insert_into_disk L ''transactions'' (as_bytes h) (to_bytes (write_signed_transaction C R V tx))) (ret ())"

section \<open>Transactions and blocks\<close>

definition get_block_executor_for_tx :: "'db sled_lib \<Rightarrow> ('db, 'c) sled_storage \<Rightarrow> hash \<Rightarrow> hash store_result" where
  "get_block_executor_for_tx L S tx = load_from_disk L read_hash S ''txs_executed'' (as_bytes tx)"

definition mark_tx_as_executed_in_block :: "'db sled_lib \<Rightarrow> hash \<Rightarrow> hash \<Rightarrow> (('db, 'c) sled_storage, blockchain_error, unit) act" where
  "mark_tx_as_executed_in_block L tx block = act_then (insert_into_disk L ''txs_executed'' (as_bytes tx) (as_bytes block)) (ret ())"

definition unmark_tx_from_executed :: "'db sled_lib \<Rightarrow> hash \<Rightarrow> (('db, 'c) sled_storage, blockchain_error, unit) act" where
  "unmark_tx_from_executed L tx = act_then (remove_from_disk_without_reading L ''txs_executed'' (as_bytes tx)) (ret ())"

definition is_tx_executed_in_a_block :: "'db sled_lib \<Rightarrow> ('db, 'c) sled_storage \<Rightarrow> hash \<Rightarrow> bool store_result" where
  "is_tx_executed_in_a_block L S tx = contains_data L S ''txs_executed'' (as_bytes tx)"

definition is_tx_executed_in_block :: "'db sled_lib \<Rightarrow> ('db, 'c) sled_storage \<Rightarrow> hash \<Rightarrow> hash \<Rightarrow> bool store_result" where
  "is_tx_executed_in_block L S tx block =
     (case get_block_executor_for_tx L S tx of Inr h \<Rightarrow> Inr (h = block) | Inl _ \<Rightarrow> Inr False)"

definition has_tx_blocks :: "'db sled_lib \<Rightarrow> ('db, 'c) sled_storage \<Rightarrow> hash \<Rightarrow> bool store_result" where
  "has_tx_blocks L S h = contains_data L S ''tx_blocks'' (as_bytes h)"

definition get_blocks_for_tx :: "'db sled_lib \<Rightarrow> ('db, 'c) sled_storage \<Rightarrow> hash \<Rightarrow> hash list store_result" where
  "get_blocks_for_tx L S h = load_from_disk L read_tips S ''tx_blocks'' (as_bytes h)"

definition set_blocks_for_tx :: "'db sled_lib \<Rightarrow> hash \<Rightarrow> hash list \<Rightarrow> (('db, 'c) sled_storage, blockchain_error, unit) act" where
  "set_blocks_for_tx L tx blocks = act_then (insert_into_disk L ''tx_blocks'' (as_bytes tx) (to_bytes (write_tips blocks))) (ret ())"

definition has_block_linked_to_tx :: "'db sled_lib \<Rightarrow> ('db, 'c) sled_storage \<Rightarrow> hash \<Rightarrow> hash \<Rightarrow> bool store_result" where
  "has_block_linked_to_tx L S tx block =
     and_then (has_tx_blocks L S tx) (\<lambda>has. if \<not> has then Inr False
     else and_then (get_blocks_for_tx L S tx) (\<lambda>blocks. Inr (block \<in> set blocks)))"

definition add_block_linked_to_tx_if_not_present ::
  "'db sled_lib \<Rightarrow> hash \<Rightarrow> hash \<Rightarrow> (('db, 'c) sled_storage, blockchain_error, bool) act" where
  "add_block_linked_to_tx_if_not_present L tx block =
     act_bind (act_query (\<lambda>S. and_then (has_tx_blocks L S tx) (\<lambda>has.
       if has then load_from_disk L read_tips S ''tx_blocks'' (as_bytes tx) else Inr []))) (\<lambda>hashes.
     let (inserted, hashes) = index_insert block hashes in
     act_then (if inserted then act_then (insert_into_disk L ''tx_blocks'' (as_bytes tx) (to_bytes (write_tips hashes))) (ret ()) else ret ())
     (ret inserted))"

text \<open>As in the code, the transactions returned are those that were executed.\<close>

definition get_unexecuted_transactions :: "'db sled_lib \<Rightarrow> ('db, 'c) sled_storage \<Rightarrow> hash store_result list" where
  "get_unexecuted_transactions L S = transposed (map (\<lambda>res. and_then res (\<lambda>key.
     and_then (map_err ErrorOnReader (from_bytes read_hash key)) (\<lambda>tx_hash.
     and_then (is_tx_executed_in_a_block L S tx_hash) (\<lambda>executed.
     Inr (if \<not> executed then None else Some tx_hash))))) (disk_iter_keys L S ''transactions''))"

definition delete_transaction ::
  "('s, 'p) curve \<Rightarrow> ('s, 'p, 't, 'r, 'e) range_lib \<Rightarrow> ('v, 'm) vm_codec \<Rightarrow> 'db sled_lib \<Rightarrow> ('c, ('s, 'v, 'm, 'r) stx) lru_caches \<Rightarrow>
   hash \<Rightarrow> (('db, 'c) sled_storage, blockchain_error, ('s, 'v, 'm, 'r) stx) act" where
  "delete_transaction C R V L A h =
     act_bind (delete_cacheable_data L None read_tips ''tx_blocks'' (as_bytes h) h) (\<lambda>_.
     delete_arc_cacheable_data L (lc_transactions A) (read_signed_transaction C R V) ''transactions'' (as_bytes h) h)"

section \<open>Blocks at a height\<close>

definition write_ordered_hashes :: "hash list \<Rightarrow> writer \<Rightarrow> writer" where
  "write_ordered_hashes hs = fold write_hash hs"

definition read_ordered_hashes :: "hash list rd" where
  "read_ordered_hashes r =
     (if total_size r mod HASH_SIZE \<noteq> 0 then (Inl InvalidSize, r)
      else let n = total_size r div HASH_SIZE in
        rbind (read_times n read_hash) (\<lambda>hs.
          let hashes = index_extend hs [] in
          if length hashes \<noteq> n then rfail InvalidSize else rreturn hashes) r)"

definition has_blocks_at_height :: "'db sled_lib \<Rightarrow> ('db, 'c) sled_storage \<Rightarrow> u64 \<Rightarrow> bool store_result" where
  "has_blocks_at_height L S height = contains_data L S ''blocks_at_height'' (to_be_bytes height)"

definition get_blocks_at_height :: "'db sled_lib \<Rightarrow> ('db, 'c) sled_storage \<Rightarrow> u64 \<Rightarrow> hash list store_result" where
  "get_blocks_at_height L S height =
     and_then (load_optional_from_disk L read_ordered_hashes S ''blocks_at_height'' (to_be_bytes height)) (\<lambda>hs.
     Inr (case hs of Some hs \<Rightarrow> hs | None \<Rightarrow> []))"

definition set_blocks_at_height :: "'db sled_lib \<Rightarrow> hash list \<Rightarrow> u64 \<Rightarrow> (('db, 'c) sled_storage, blockchain_error, unit) act" where
  "set_blocks_at_height L tips height =
     act_then (insert_into_disk L ''blocks_at_height'' (to_be_bytes height) (to_bytes (write_ordered_hashes tips))) (ret ())"

definition add_block_hash_at_height :: "'db sled_lib \<Rightarrow> hash \<Rightarrow> u64 \<Rightarrow> (('db, 'c) sled_storage, blockchain_error, unit) act" where
  "add_block_hash_at_height L h height =
     act_bind (act_query (\<lambda>S. and_then (has_blocks_at_height L S height) (\<lambda>has.
       if has then get_blocks_at_height L S height else Inr []))) (\<lambda>tips.
     set_blocks_at_height L (snd (index_insert h tips)) height)"

definition remove_block_hash_at_height :: "'db sled_lib \<Rightarrow> hash \<Rightarrow> u64 \<Rightarrow> (('db, 'c) sled_storage, blockchain_error, unit) act" where
  "remove_block_hash_at_height L h height =
     act_bind (act_query (\<lambda>S. get_blocks_at_height L S height)) (\<lambda>tips.
     let tips = filter (\<lambda>x. x \<noteq> h) tips in
     if tips = [] then act_then (remove_from_disk_without_reading L ''blocks_at_height'' (to_be_bytes height)) (ret ())
     else set_blocks_at_height L tips height)"

section \<open>Headers and difficulties\<close>

definition get_block_header_by_hash ::
  "'db sled_lib \<Rightarrow> ('c, 'tx) lru_caches \<Rightarrow> hash \<Rightarrow> (('db, 'c) sled_storage, blockchain_error, block_header) act" where
  "get_block_header_by_hash L A h = get_cacheable_arc_data L (lc_blocks A) read_block_header ''blocks'' (as_bytes h) h"

definition get_height_for_block_hash ::
  "'db sled_lib \<Rightarrow> ('c, 'tx) lru_caches \<Rightarrow> hash \<Rightarrow> (('db, 'c) sled_storage, blockchain_error, u64) act" where
  "get_height_for_block_hash L A h = act_bind (get_block_header_by_hash L A h) (\<lambda>block. ret (bh_height block))"

definition get_version_for_block_hash ::
  "'db sled_lib \<Rightarrow> ('c, 'tx) lru_caches \<Rightarrow> hash \<Rightarrow> (('db, 'c) sled_storage, blockchain_error, block_version) act" where
  "get_version_for_block_hash L A h = act_bind (get_block_header_by_hash L A h) (\<lambda>block. ret (bh_version block))"

definition get_timestamp_for_block_hash ::
  "'db sled_lib \<Rightarrow> ('c, 'tx) lru_caches \<Rightarrow> hash \<Rightarrow> (('db, 'c) sled_storage, blockchain_error, u64) act" where
  "get_timestamp_for_block_hash L A h = act_bind (get_block_header_by_hash L A h) (\<lambda>block. ret (bh_timestamp block))"

definition get_past_blocks_for_block_hash ::
  "'db sled_lib \<Rightarrow> ('c, 'tx) lru_caches \<Rightarrow> hash \<Rightarrow> (('db, 'c) sled_storage, blockchain_error, hash list) act" where
  "get_past_blocks_for_block_hash L A h = act_bind (get_block_header_by_hash L A h) (\<lambda>block. ret (bh_tips block))"

definition get_difficulty_for_block_hash :: "'db sled_lib \<Rightarrow> ('db, 'c) sled_storage \<Rightarrow> hash \<Rightarrow> difficulty store_result" where
  "get_difficulty_for_block_hash L S h = load_from_disk L read_varuint S ''difficulty'' (as_bytes h)"

definition get_cumulative_difficulty_for_block_hash ::
  "'db sled_lib \<Rightarrow> ('c, 'tx) lru_caches \<Rightarrow> hash \<Rightarrow> (('db, 'c) sled_storage, blockchain_error, cumulative_difficulty) act" where
  "get_cumulative_difficulty_for_block_hash L A h =
     get_cacheable_data L (lc_cumulative_difficulty A) read_varuint ''cumulative_difficulty'' (as_bytes h) h"

definition get_estimated_covariance_for_block_hash :: "'db sled_lib \<Rightarrow> ('db, 'c) sled_storage \<Rightarrow> hash \<Rightarrow> var_uint store_result" where
  "get_estimated_covariance_for_block_hash L S h = load_from_disk L read_varuint S ''difficulty_covariance'' (as_bytes h)"

section \<open>Blocks\<close>

definition count_blocks :: "('db, 'c) sled_storage \<Rightarrow> u64 store_result" where
  "count_blocks S = Inr (cn_blocks_count (counters S))"

definition store_blocks_count :: "'db sled_lib \<Rightarrow> u64 \<Rightarrow> (('db, 'c) sled_storage, blockchain_error, unit) act" where
  "store_blocks_count L n =
     act_then (act_modify (set_counters (cn_blocks_count_update (\<lambda>_. n))))
     (act_then (insert_into_disk L ''extra'' (ascii ''CBLK'') (to_be_bytes n)) (ret ()))"

definition has_blocks :: "'db sled_lib \<Rightarrow> ('db, 'c) sled_storage \<Rightarrow> bool store_result" where
  "has_blocks L S = Inr (sl_iter L (ss_db S) ''blocks'' \<noteq> [])"

definition decrease_blocks_count :: "u64 \<Rightarrow> (('db, 'c) sled_storage, blockchain_error, unit) act" where
  "decrease_blocks_count n = act_modify (set_counters (\<lambda>c. c\<lparr>cn_blocks_count := cn_blocks_count c - n\<rparr>))"

definition has_block_with_hash :: "'db sled_lib \<Rightarrow> ('c, 'tx) lru_caches \<Rightarrow> ('db, 'c) sled_storage \<Rightarrow> hash \<Rightarrow> bool store_result" where
  "has_block_with_hash L A S h = contains_cached L (lc_blocks A) S ''blocks'' (as_bytes h) h"

text \<open>The transactions that are new are stored and counted.\<close>

definition save_tx ::
  "('s, 'p) curve \<Rightarrow> ('s, 'p, 't, 'r, 'e) range_lib \<Rightarrow> ('v, 'm) vm_codec \<Rightarrow> 'db sled_lib \<Rightarrow> ('c, ('s, 'v, 'm, 'r) stx) lru_caches \<Rightarrow>
   hash \<times> ('s, 'v, 'm, 'r) stx \<Rightarrow> u64 \<Rightarrow> (('db, 'c) sled_storage, blockchain_error, u64) act" where
  "save_tx C R V L A = (\<lambda>(h, tx) n.
     act_bind (act_query (\<lambda>S. has_transaction L A S h)) (\<lambda>has.
     if \<not> has then act_then (add_transaction C R V L h tx) (ret (n + 1)) else ret n))"

definition save_block ::
  "('s, 'p) curve \<Rightarrow> ('s, 'p, 't, 'r, 'e) range_lib \<Rightarrow> ('v, 'm) vm_codec \<Rightarrow> 'db sled_lib \<Rightarrow> ('c, ('s, 'v, 'm, 'r) stx) lru_caches \<Rightarrow>
   block_header \<Rightarrow> ('s, 'v, 'm, 'r) stx list \<Rightarrow> difficulty \<Rightarrow> cumulative_difficulty \<Rightarrow> var_uint \<Rightarrow> hash \<Rightarrow>
   (('db, 'c) sled_storage, blockchain_error, unit) act" where
  "save_block C R V L A block txs d cumulative p h =
     act_bind (act_fold (save_tx C R V L A) (zip (bh_txs_hashes block) txs) 0) (\<lambda>txs_count.
     act_then (if txs_count > 0 then act_bind (act_query count_transactions) (\<lambda>n. store_transactions_count L (n + txs_count)) else ret ())
     (act_bind (insert_into_disk L ''blocks'' (as_bytes h) (to_bytes (write_block_header block))) (\<lambda>prev.
      act_then (if prev = None then act_bind (act_query count_blocks) (\<lambda>n. store_blocks_count L (n + 1)) else ret ())
     (act_then (insert_into_disk L ''difficulty'' (as_bytes h) (to_bytes (write_varuint d)))
     (act_then (insert_into_disk L ''cumulative_difficulty'' (as_bytes h) (to_bytes (write_varuint cumulative)))
     (act_then (insert_into_disk L ''difficulty_covariance'' (as_bytes h) (to_bytes (write_varuint p)))
     (act_then (add_block_hash_at_height L h (bh_height block))
     (act_modify (map_caches (lu_put (lc_blocks A) h block))))))))))"

definition collect_transactions ::
  "('s, 'p) curve \<Rightarrow> ('s, 'p, 't, 'r, 'e) range_lib \<Rightarrow> ('v, 'm) vm_codec \<Rightarrow> 'db sled_lib \<Rightarrow> ('c, ('s, 'v, 'm, 'r) stx) lru_caches \<Rightarrow>
   block_header \<Rightarrow> (('db, 'c) sled_storage, blockchain_error, ('s, 'v, 'm, 'r) stx list) act" where
  "collect_transactions C R V L A header =
     act_fold (\<lambda>tx txs. act_bind (get_transaction C R V L A tx) (\<lambda>transaction. ret (txs @ [transaction]))) (bh_txs_hashes header) []"

definition get_block_by_hash ::
  "('s, 'p) curve \<Rightarrow> ('s, 'p, 't, 'r, 'e) range_lib \<Rightarrow> ('v, 'm) vm_codec \<Rightarrow> 'db sled_lib \<Rightarrow> ('c, ('s, 'v, 'm, 'r) stx) lru_caches \<Rightarrow>
   hash \<Rightarrow> (('db, 'c) sled_storage, blockchain_error, block_header \<times> ('s, 'v, 'm, 'r) stx list) act" where
  "get_block_by_hash C R V L A h =
     act_bind (get_block_header_by_hash L A h) (\<lambda>header.
     act_bind (collect_transactions C R V L A header) (\<lambda>txs. ret (header, txs)))"

definition delete_block_with_hash ::
  "('s, 'p) curve \<Rightarrow> ('s, 'p, 't, 'r, 'e) range_lib \<Rightarrow> ('v, 'm) vm_codec \<Rightarrow> 'db sled_lib \<Rightarrow> ('c, ('s, 'v, 'm, 'r) stx) lru_caches \<Rightarrow>
   hash \<Rightarrow> (('db, 'c) sled_storage, blockchain_error, block_header \<times> ('s, 'v, 'm, 'r) stx list) act" where
  "delete_block_with_hash C R V L A h =
     act_bind (delete_arc_cacheable_data L (lc_blocks A) read_block_header ''blocks'' (as_bytes h) h) (\<lambda>header.
     act_then (act_bind (act_query count_blocks) (\<lambda>n. store_blocks_count L (n - 1)))
     (act_then (remove_from_disk_without_reading L ''difficulty'' (as_bytes h))
     (act_then (remove_from_disk_without_reading L ''difficulty_covariance'' (as_bytes h))
     (act_then (remove_block_hash_at_height L h (bh_height header))
     (act_bind (collect_transactions C R V L A header) (\<lambda>txs. ret (header, txs)))))))"

section \<open>Order of execution\<close>

definition get_blocks_execution_order :: "'db sled_lib \<Rightarrow> ('db, 'c) sled_storage \<Rightarrow> hash store_result list" where
  "get_blocks_execution_order L S = map (\<lambda>x. and_then x (\<lambda>key. map_err ErrorOnReader (from_bytes read_hash key)))
     (disk_iter_keys L S ''blocks_execution_order'')"

definition get_block_position_in_order :: "'db sled_lib \<Rightarrow> ('db, 'c) sled_storage \<Rightarrow> hash \<Rightarrow> u64 store_result" where
  "get_block_position_in_order L S h = load_from_disk L read_u64 S ''blocks_execution_order'' (as_bytes h)"

definition has_block_position_in_order :: "'db sled_lib \<Rightarrow> ('db, 'c) sled_storage \<Rightarrow> hash \<Rightarrow> bool store_result" where
  "has_block_position_in_order L S h = contains_data L S ''blocks_execution_order'' (as_bytes h)"

definition get_blocks_execution_count :: "('db, 'c) sled_storage \<Rightarrow> u64" where
  "get_blocks_execution_count S = cn_blocks_execution_count (counters S)"

definition add_block_execution_to_order :: "'db sled_lib \<Rightarrow> hash \<Rightarrow> (('db, 'c) sled_storage, blockchain_error, unit) act" where
  "add_block_execution_to_order L h =
     act_bind (act_query (\<lambda>S. Inr (get_blocks_execution_count S))) (\<lambda>position.
     act_then (act_modify (set_counters (\<lambda>c. c\<lparr>cn_blocks_execution_count := cn_blocks_execution_count c + 1\<rparr>)))
     (act_then (insert_into_disk L ''blocks_execution_order'' (as_bytes h) (to_be_bytes position))
     (act_then (insert_into_disk L ''extra'' (ascii ''EBLK'') (to_be_bytes position)) (ret ()))))"

definition swap_blocks_executions_positions :: "'db sled_lib \<Rightarrow> hash \<Rightarrow> hash \<Rightarrow> (('db, 'c) sled_storage, blockchain_error, unit) act" where
  "swap_blocks_executions_positions L left right =
     act_bind (act_query (\<lambda>S. get_block_position_in_order L S left)) (\<lambda>left_position.
     act_bind (act_query (\<lambda>S. get_block_position_in_order L S right)) (\<lambda>right_position.
     act_then (insert_into_disk L ''blocks_execution_order'' (as_bytes left) (to_be_bytes right_position))
     (act_then (insert_into_disk L ''blocks_execution_order'' (as_bytes right) (to_be_bytes left_position)) (ret ()))))"

section \<open>The chain\<close>

definition get_block_header_at_topoheight ::
  "'db sled_lib \<Rightarrow> ('c, 'tx) lru_caches \<Rightarrow> topoheight \<Rightarrow> (('db, 'c) sled_storage, blockchain_error, hash \<times> block_header) act" where
  "get_block_header_at_topoheight L A topoheight =
     act_bind (get_hash_at_topo_height L A topoheight) (\<lambda>h.
     act_bind (get_block_header_by_hash L A h) (\<lambda>block. ret (h, block)))"

definition get_block_reward_at_topo_height :: "'db sled_lib \<Rightarrow> ('db, 'c) sled_storage \<Rightarrow> topoheight \<Rightarrow> u64 store_result" where
  "get_block_reward_at_topo_height L S topoheight = load_from_disk L read_u64 S ''rewards'' (to_be_bytes topoheight)"

definition get_supply_at_topo_height :: "'db sled_lib \<Rightarrow> ('db, 'c) sled_storage \<Rightarrow> topoheight \<Rightarrow> u64 store_result" where
  "get_supply_at_topo_height L S topoheight = load_from_disk L read_u64 S ''supply'' (to_be_bytes topoheight)"

definition get_burned_supply_at_topo_height :: "'db sled_lib \<Rightarrow> ('db, 'c) sled_storage \<Rightarrow> topoheight \<Rightarrow> u64 store_result" where
  "get_burned_supply_at_topo_height L S topoheight = load_from_disk L read_u64 S ''burned_supply'' (to_be_bytes topoheight)"

definition set_topoheight_metadata ::
  "'db sled_lib \<Rightarrow> topoheight \<Rightarrow> u64 \<Rightarrow> u64 \<Rightarrow> u64 \<Rightarrow> (('db, 'c) sled_storage, blockchain_error, unit) act" where
  "set_topoheight_metadata L topoheight reward supply burned =
     act_then (insert_into_disk L ''rewards'' (to_be_bytes topoheight) (to_be_bytes reward))
     (act_then (insert_into_disk L ''supply'' (to_be_bytes topoheight) (to_be_bytes supply))
     (act_then (insert_into_disk L ''burned_supply'' (to_be_bytes topoheight) (to_be_bytes burned)) (ret ())))"

definition get_top_topoheight :: "'db sled_lib \<Rightarrow> ('db, 'c) sled_storage \<Rightarrow> topoheight store_result" where
  "get_top_topoheight L S = load_from_disk L read_u64 S ''extra'' (ascii ''TOPO'')"

definition set_top_topoheight :: "'db sled_lib \<Rightarrow> topoheight \<Rightarrow> (('db, 'c) sled_storage, blockchain_error, unit) act" where
  "set_top_topoheight L topoheight = act_then (insert_into_disk L ''extra'' (ascii ''TOPO'') (to_be_bytes topoheight)) (ret ())"

definition get_top_height :: "'db sled_lib \<Rightarrow> ('db, 'c) sled_storage \<Rightarrow> u64 store_result" where
  "get_top_height L S = load_from_disk L read_u64 S ''extra'' (ascii ''TOPH'')"

definition set_top_height :: "'db sled_lib \<Rightarrow> u64 \<Rightarrow> (('db, 'c) sled_storage, blockchain_error, unit) act" where
  "set_top_height L height = act_then (insert_into_disk L ''extra'' (ascii ''TOPH'') (to_be_bytes height)) (ret ())"

definition get_top_block_hash :: "'db sled_lib \<Rightarrow> ('c, 'tx) lru_caches \<Rightarrow> (('db, 'c) sled_storage, blockchain_error, hash) act" where
  "get_top_block_hash L A = act_bind (act_query (get_top_topoheight L)) (get_hash_at_topo_height L A)"

definition get_top_block_header ::
  "'db sled_lib \<Rightarrow> ('c, 'tx) lru_caches \<Rightarrow> (('db, 'c) sled_storage, blockchain_error, block_header \<times> hash) act" where
  "get_top_block_header L A = act_bind (get_top_block_hash L A) (\<lambda>h.
     act_bind (get_block_header_by_hash L A h) (\<lambda>header. ret (header, h)))"

definition get_top_block ::
  "('s, 'p) curve \<Rightarrow> ('s, 'p, 't, 'r, 'e) range_lib \<Rightarrow> ('v, 'm) vm_codec \<Rightarrow> 'db sled_lib \<Rightarrow> ('c, ('s, 'v, 'm, 'r) stx) lru_caches \<Rightarrow>
   (('db, 'c) sled_storage, blockchain_error, block_header \<times> ('s, 'v, 'm, 'r) stx list) act" where
  "get_top_block C R V L A = act_bind (get_top_block_header L A) (\<lambda>(header, _).
     act_bind (collect_transactions C R V L A header) (\<lambda>txs. ret (header, txs)))"

definition get_tips :: "('db, 'c) sled_storage \<Rightarrow> hash list store_result" where
  "get_tips S = Inr (cn_tips_cache (counters S))"

definition store_tips :: "'db sled_lib \<Rightarrow> hash list \<Rightarrow> (('db, 'c) sled_storage, blockchain_error, unit) act" where
  "store_tips L tips =
     act_then (insert_into_disk L ''extra'' (ascii ''TIPS'') (to_bytes (write_tips tips)))
     (act_modify (set_counters (cn_tips_cache_update (\<lambda>_. tips))))"

definition set_pruned_topoheight :: "'db sled_lib \<Rightarrow> topoheight option \<Rightarrow> (('db, 'c) sled_storage, blockchain_error, unit) act" where
  "set_pruned_topoheight L pruned =
     act_then (act_modify (set_counters (cn_pruned_topoheight_update (\<lambda>_. pruned))))
     (case pruned of
       Some topoheight \<Rightarrow> act_then (insert_into_disk L ''extra'' (ascii ''PRUN'') (to_be_bytes topoheight)) (ret ())
     | None \<Rightarrow> act_then (remove_from_disk_without_reading L ''extra'' (ascii ''PRUN'')) (ret ()))"

text \<open>Unlike the other counters, this one is read past the snapshot.\<close>

definition get_pruned_topoheight :: "('db, 'c) sled_storage \<Rightarrow> topoheight option store_result" where
  "get_pruned_topoheight S = Inr (cn_pruned_topoheight (sc_counter (ss_cache S)))"

definition get_balances_merkle_hash_at_topoheight :: "'db sled_lib \<Rightarrow> ('db, 'c) sled_storage \<Rightarrow> topoheight \<Rightarrow> hash store_result" where
  "get_balances_merkle_hash_at_topoheight L S topoheight = load_from_disk L read_hash S ''merkle_hashes'' (to_be_bytes topoheight)"

definition set_balances_merkle_hash_at_topoheight ::
  "'db sled_lib \<Rightarrow> topoheight \<Rightarrow> hash \<Rightarrow> (('db, 'c) sled_storage, blockchain_error, unit) act" where
  "set_balances_merkle_hash_at_topoheight L topoheight merkle_proof =
     act_then (insert_into_disk L ''merkle_hashes'' (to_be_bytes topoheight) (as_bytes merkle_proof)) (ret ())"

definition get_network :: "('db, 'c) sled_storage \<Rightarrow> network store_result" where
  "get_network S = Inr (ss_network S)"

definition set_network :: "'db sled_lib \<Rightarrow> network \<Rightarrow> (('db, 'c) sled_storage, blockchain_error, unit) act" where
  "set_network L network = act_then (insert_into_disk L ''extra'' (ascii ''NET'') (to_bytes (write_network network))) (ret ())"

definition has_network :: "'db sled_lib \<Rightarrow> ('db, 'c) sled_storage \<Rightarrow> bool store_result" where
  "has_network L S = contains_data L S ''extra'' (ascii ''NET'')"

section \<open>Deleting a block\<close>

definition unlink_tx ::
  "('s, 'p) curve \<Rightarrow> ('s, 'p, 't, 'r, 'e) range_lib \<Rightarrow> ('v, 'm) vm_codec \<Rightarrow> 'db sled_lib \<Rightarrow> ('c, ('s, 'v, 'm, 'r) stx) lru_caches \<Rightarrow>
   hash \<Rightarrow> hash \<Rightarrow> (hash \<times> ('s, 'v, 'm, 'r) stx) list \<Rightarrow>
   (('db, 'c) sled_storage, blockchain_error, (hash \<times> ('s, 'v, 'm, 'r) stx) list) act" where
  "unlink_tx C R V L A h tx_hash txs =
     act_bind (act_query (\<lambda>S. has_tx_blocks L S tx_hash)) (\<lambda>linked.
     act_bind (if linked then
         act_bind (delete_cacheable_data L None read_tips ''tx_blocks'' (as_bytes tx_hash) tx_hash) (\<lambda>blocks.
         let blocks = filter (\<lambda>b. b \<noteq> h) blocks in
         act_then (set_blocks_for_tx L tx_hash blocks) (ret (blocks = [])))
       else ret True) (\<lambda>should_delete.
     act_bind (act_query (\<lambda>S. is_tx_executed_in_block L S tx_hash h)) (\<lambda>executed.
     act_then (if executed then act_then (unmark_tx_from_executed L tx_hash) (delete_contract_outputs_for_tx L tx_hash) else ret ())
     (if should_delete then
        act_bind (delete_arc_cacheable_data L (lc_transactions A) (read_signed_transaction C R V) ''transactions'' (as_bytes tx_hash) tx_hash)
          (\<lambda>tx. ret (txs @ [(tx_hash, tx)]))
      else ret txs))))"

definition delete_block_at_topoheight ::
  "('s, 'p) curve \<Rightarrow> ('s, 'p, 't, 'r, 'e) range_lib \<Rightarrow> ('v, 'm) vm_codec \<Rightarrow> 'db sled_lib \<Rightarrow> ('c, ('s, 'v, 'm, 'r) stx) lru_caches \<Rightarrow>
   topoheight \<Rightarrow> (('db, 'c) sled_storage, blockchain_error, hash \<times> block_header \<times> (hash \<times> ('s, 'v, 'm, 'r) stx) list) act" where
  "delete_block_at_topoheight C R V L A topoheight =
     act_bind (delete_cacheable_data L (Some (lc_hash_at_topo A)) read_hash ''hash_at_topo'' (to_be_bytes topoheight) topoheight) (\<lambda>h.
     act_then (remove_from_disk_without_reading L ''blocks_execution_order'' (as_bytes h))
     (act_then (delete_cacheable_data L (Some (lc_topo_by_hash A)) read_u64 ''topo_by_hash'' (as_bytes h) h)
     (act_bind (delete_arc_cacheable_data L (lc_blocks A) read_block_header ''blocks'' (as_bytes h) h) (\<lambda>block.
     act_then (delete_cacheable_data L None read_u64 ''supply'' (to_be_bytes topoheight) topoheight)
     (act_then (delete_cacheable_data L None read_u64 ''burned_supply'' (to_be_bytes topoheight) topoheight)
     (act_then (delete_cacheable_data L None read_u64 ''rewards'' (to_be_bytes topoheight) topoheight)
     (act_then (delete_cacheable_data L None read_varuint ''difficulty'' (as_bytes h) h)
     (act_then (delete_cacheable_data L (Some (lc_cumulative_difficulty A)) read_varuint ''cumulative_difficulty'' (as_bytes h) h)
     (act_bind (act_fold (unlink_tx C R V L A h) (bh_txs_hashes block) []) (\<lambda>txs.
     act_then (act_bind (act_query (\<lambda>S. has_blocks_at_height L S (bh_height block))) (\<lambda>has.
       if has then remove_block_hash_at_height L h (bh_height block) else ret ()))
     (ret (h, block, txs))))))))))))"

section \<open>Deleting versioned data\<close>

definition delete_versioned_data_at_topoheight :: "'db sled_lib \<Rightarrow> topoheight \<Rightarrow> (('db, 'c) sled_storage, blockchain_error, unit) act" where
  "delete_versioned_data_at_topoheight L topoheight =
     act_then (delete_versioned_balances_at_topoheight L topoheight)
     (act_then (delete_versioned_nonces_at_topoheight L topoheight)
     (act_then (delete_versioned_multisigs_at_topoheight L topoheight)
     (act_then (delete_versioned_registrations_at_topoheight L topoheight)
     (act_then (delete_versioned_contracts_at_topoheight L topoheight)
     (act_then (delete_versioned_contract_data_at_topoheight L topoheight)
     (act_then (delete_versioned_assets_supply_at_topoheight L topoheight)
     (if topoheight > 0 then delete_versioned_assets_at_topoheight L topoheight else ret ())))))))"

definition delete_versioned_data_below_topoheight ::
  "'db sled_lib \<Rightarrow> ('c, 'tx) lru_caches \<Rightarrow> nat \<Rightarrow> topoheight \<Rightarrow> bool \<Rightarrow> (('db, 'c) sled_storage, blockchain_error, unit) act" where
  "delete_versioned_data_below_topoheight L A fuel topoheight keep_last =
     act_then (delete_versioned_balances_below_topoheight L fuel topoheight keep_last)
     (act_then (delete_versioned_nonces_below_topoheight L fuel topoheight keep_last)
     (act_then (delete_versioned_multisigs_below_topoheight L fuel topoheight keep_last)
     (act_then (delete_versioned_contracts_below_topoheight L fuel topoheight keep_last)
     (act_then (delete_versioned_contract_data_below_topoheight L fuel topoheight keep_last)
     (act_then (delete_versioned_contract_balances_below_topoheight L fuel topoheight keep_last)
     (act_then (delete_versioned_assets_supply_below_topoheight L fuel topoheight keep_last)
     (act_then (delete_versioned_assets_below_topoheight L fuel topoheight keep_last)
     (clear_versioned_data_caches A))))))))"

definition delete_versioned_data_above_topoheight ::
  "'db sled_lib \<Rightarrow> ('c, 'tx) lru_caches \<Rightarrow> topoheight \<Rightarrow> (('db, 'c) sled_storage, blockchain_error, unit) act" where
  "delete_versioned_data_above_topoheight L A topoheight =
     act_then (delete_versioned_balances_above_topoheight L topoheight)
     (act_then (delete_versioned_nonces_above_topoheight L topoheight)
     (act_then (delete_versioned_multisigs_above_topoheight L topoheight)
     (act_then (delete_versioned_registrations_above_topoheight L topoheight)
     (act_then (delete_versioned_contracts_above_topoheight L topoheight)
     (act_then (delete_versioned_contract_data_above_topoheight L topoheight)
     (act_then (delete_versioned_contract_balances_above_topoheight L topoheight)
     (act_then (delete_versioned_assets_supply_above_topoheight L topoheight)
     (act_then (delete_versioned_assets_above_topoheight L topoheight)
     (act_then (delete_dag_order_above_topoheight L topoheight)
     (clear_versioned_data_caches A))))))))))"

end
