(* ===== verification/SledOrder.thy ===== *)
theory SledOrder
  imports SledBlocks
begin

text \<open>
  The order of the DAG as the storage keeps it: a topoheight per block and a block per topoheight, each
  in a tree and in an LRU cache. The theory shows that the caches never show anything but what the trees
  hold, through commit points that are applied or discarded and through deleted blocks, and what the
  check whether a block is ordered therefore answers. What is relied on of the \<open>lru\<close> crate is the locale
  \<open>lru_laws\<close>.
\<close>

section \<open>LRU caches\<close>

text \<open>
  A cache holds values for keys. It may forget, but never makes up or changes a value; what it does not
  concern (\<open>rest\<close>, the other caches) stays.
\<close>

locale lru_laws =
  fixes A :: "('c, 'k, 'v) lru" and holds :: "'c \<Rightarrow> 'k \<Rightarrow> 'v option" and rest :: "'c \<Rightarrow> 'd"
  assumes get: "lu_get A k c = (v, c') \<Longrightarrow> v = holds c k \<and> holds c' = holds c \<and> rest c' = rest c"
    and put: "holds (lu_put A k x c) k' = None \<or> holds (lu_put A k x c) k' = ((holds c)(k \<mapsto> x)) k'" "rest (lu_put A k x c) = rest c"
    and pop: "lu_pop A k c = (v, c') \<Longrightarrow> v = holds c k \<and> holds c' = (holds c)(k := None) \<and> rest c' = rest c"
    and contains: "lu_contains A k c \<longleftrightarrow> holds c k \<noteq> None"
    and clear: "holds (lu_clear A c) k = None" "rest (lu_clear A c) = rest c"

section \<open>Caches that do not lie\<close>

text \<open>What a cache holds for a key that the snapshot has not written is what the storage shows.\<close>

definition cache_sound ::
  "('c \<Rightarrow> 'k \<Rightarrow> 'v option) \<Rightarrow> 'v rd \<Rightarrow> string \<Rightarrow> ('k \<Rightarrow> bytes) \<Rightarrow> ('db \<Rightarrow> string \<Rightarrow> bytes \<Rightarrow> bytes option) \<Rightarrow> ('db, 'c) sled_storage \<Rightarrow> bool" where
  "cache_sound holds rd t kb disk S \<longleftrightarrow> (\<forall>c k v. sc_caches (ss_cache S) = Some c \<longrightarrow> holds c k = Some v \<longrightarrow>
     \<not> touched S t (kb k) \<longrightarrow> parse rd (sled_view disk S t (kb k)) = Inr (Some v))"

lemma map_caches_simps [simp]:
  "sled_view disk (map_caches f S) = sled_view disk S" "sled_ok (map_caches f S) = sled_ok S" "touched (map_caches f S) = touched S"
  "sc_caches (ss_cache (map_caches f S)) = map_option f (sc_caches (ss_cache S))"
  "ss_snapshot (map_caches f S) = ss_snapshot S" "ss_db (map_caches f S) = ss_db S"
  by (simp_all add: map_caches_def sled_view_def sled_ok_def touched_def fun_eq_iff)

lemma set_caches_simps [simp]:
  "sled_view disk (set_caches c S) = sled_view disk S" "sled_ok (set_caches c S) = sled_ok S" "touched (set_caches c S) = touched S"
  "sc_caches (ss_cache (set_caches c S)) = map_option (\<lambda>_. c) (sc_caches (ss_cache S))"
  by (simp_all add: set_caches_def)

lemma cache_usable_touched: "cache_usable S t k \<longleftrightarrow> \<not> touched S t k"
  by (simp add: cache_usable_def touched_def split: option.split)

lemma cache_soundD:
  "cache_sound holds rd t kb disk S \<Longrightarrow> sc_caches (ss_cache S) = Some c \<Longrightarrow> holds c k = Some v \<Longrightarrow> \<not> touched S t (kb k) \<Longrightarrow>
     parse rd (sled_view disk S t (kb k)) = Inr (Some v)"
  by (simp add: cache_sound_def)

text \<open>Two states that differ in the caches only.\<close>

definition recached :: "('c \<Rightarrow> 'd) \<Rightarrow> ('db, 'c) sled_storage \<Rightarrow> ('db, 'c) sled_storage \<Rightarrow> bool" where
  "recached rest S S' \<longleftrightarrow> S' = S \<or> (\<exists>c c'. sc_caches (ss_cache S) = Some c \<and> S' = set_caches c' S \<and> rest c' = rest c)"

lemma recached_simps:
  assumes "recached rest S S'"
  shows "sled_view disk S' = sled_view disk S" "sled_ok S' = sled_ok S" "touched S' = touched S"
    "map_option rest (sc_caches (ss_cache S')) = map_option rest (sc_caches (ss_cache S))"
  using assms by (auto simp: recached_def)

lemma cache_sound_recached:
  assumes "recached rest S S'" "\<And>c. holds c = f (rest c)" "cache_sound holds rd t kb disk S"
  shows "cache_sound holds rd t kb disk S'"
  using assms(2,3) recached_simps [OF assms(1)] by (cases "sc_caches (ss_cache S)") (auto simp: cache_sound_def)

context lru_laws
begin

text \<open>A read through the cache is a read of the storage.\<close>

lemma cached_read:
  assumes "sled_db L disk" "cache_sound holds rd t kb disk S" "get_optional_cacheable_data L A rd t (kb k) k S = (r, S')"
  shows "r = parse rd (sled_view disk S t (kb k))" "recached rest S S'" "cache_sound holds rd t kb disk S'"
proof -
  note view = sled_db.load_optional_view [OF assms(1)]
  have "r = parse rd (sled_view disk S t (kb k)) \<and> recached rest S S' \<and> cache_sound holds rd t kb disk S'"
  proof (cases "sc_caches (ss_cache S)")
    case None
    then show ?thesis using assms(2,3) by (auto simp: get_optional_cacheable_data_def view recached_def)
  next
    case (Some c)
    obtain v c' where g: "lu_get A k c = (v, c')" by (cases "lu_get A k c")
    note l = get [OF g]
    have same: "cache_sound holds rd t kb disk (set_caches c' S)" "recached rest S (set_caches c' S)"
      using assms(2) l by (auto simp: cache_sound_def Some recached_def)
    have new: "recached rest S (set_caches (lu_put A k x c') S)" for x using l put(2) by (auto simp: Some recached_def)
    have "cache_sound holds rd t kb disk (set_caches (lu_put A k x c') S)" if "parse rd (sled_view disk S t (kb k)) = Inr (Some x)" for x
      using put(1) [of k x c'] that l cache_soundD [OF assms(2) Some]
      by (auto simp: cache_sound_def Some split: if_splits) (metis option.discI option.inject map_upd_Some_unfold)+
    note sound = this
    show ?thesis
    proof (cases "touched S t (kb k)")
      case True
      then show ?thesis
        using assms(2,3) by (auto simp: get_optional_cacheable_data_def Some view cache_usable_touched recached_def)
    next
      case False
      then show ?thesis
        using assms(3) cache_soundD [OF assms(2) Some, of k] l same new sound
        by (simp add: get_optional_cacheable_data_def Some g view cache_usable_touched split: option.splits sum.splits) auto
    qed
  qed
  then show "r = parse rd (sled_view disk S t (kb k))" "recached rest S S'" "cache_sound holds rd t kb disk S'" by auto
qed

end

section \<open>What leaves the order alone\<close>

text \<open>The six caches of the storage and what each holds.\<close>

locale storage_caches =
  txs: lru_laws "lc_transactions A" txs "\<lambda>c. (blocks c, topos c, hashes c, diffs c, assets c)" +
  blocks: lru_laws "lc_blocks A" blocks "\<lambda>c. (txs c, topos c, hashes c, diffs c, assets c)" +
  topos: lru_laws "lc_topo_by_hash A" topos "\<lambda>c. (txs c, blocks c, hashes c, diffs c, assets c)" +
  hashes: lru_laws "lc_hash_at_topo A" hashes "\<lambda>c. (txs c, blocks c, topos c, diffs c, assets c)" +
  diffs: lru_laws "lc_cumulative_difficulty A" diffs "\<lambda>c. (txs c, blocks c, topos c, hashes c, assets c)" +
  assets: lru_laws "lc_assets A" assets "\<lambda>c. (txs c, blocks c, topos c, hashes c, diffs c)"
  for A :: "('c, 'tx) lru_caches" and txs blocks topos hashes diffs assets

definition order_trees :: "string set" where
  "order_trees = {''topo_by_hash'', ''hash_at_topo'', ''blocks''}"

definition same_order ::
  "('c \<Rightarrow> 'd) \<Rightarrow> ('db \<Rightarrow> string \<Rightarrow> bytes \<Rightarrow> bytes option) \<Rightarrow> ('db, 'c) sled_storage \<Rightarrow> ('db, 'c) sled_storage \<Rightarrow> bool" where
  "same_order cont disk S S' \<longleftrightarrow> (\<forall>t \<in> order_trees. sled_view disk S' t = sled_view disk S t) \<and> (\<forall>t k. touched S t k \<longrightarrow> touched S' t k) \<and>
     map_option cont (sc_caches (ss_cache S')) = map_option cont (sc_caches (ss_cache S))"

lemma same_order_refl [simp]: "same_order cont disk S S"
  by (simp add: same_order_def)

lemma same_order_trans: "same_order cont disk S S1 \<Longrightarrow> same_order cont disk S1 S2 \<Longrightarrow> same_order cont disk S S2"
  by (auto simp: same_order_def)

text \<open>An operation is quiet when it leaves the order and its caches alone, whether it succeeds or fails.\<close>

definition quiet ::
  "('c \<Rightarrow> 'd) \<Rightarrow> ('db \<Rightarrow> string \<Rightarrow> bytes \<Rightarrow> bytes option) \<Rightarrow> (('db, 'c) sled_storage, blockchain_error, 'a) act \<Rightarrow> bool" where
  "quiet cont disk m \<longleftrightarrow> (\<forall>S. sled_ok S \<longrightarrow> sled_ok (snd (m S)) \<and> same_order cont disk S (snd (m S)))"

named_theorems quiet_intros

lemma quietD: "quiet cont disk m \<Longrightarrow> sled_ok S \<Longrightarrow> m S = (r, S') \<Longrightarrow> sled_ok S' \<and> same_order cont disk S S'"
  by (auto simp: quiet_def dest: spec [of _ S])

lemma quietI: "(\<And>S. sled_ok S \<Longrightarrow> sled_ok (snd (m S)) \<and> same_order cont disk S (snd (m S))) \<Longrightarrow> quiet cont disk m"
  by (simp add: quiet_def)

lemma quiet_ret [quiet_intros]: "quiet cont disk (ret x)" "quiet cont disk (act_query q)" "quiet cont disk (act_lift r)" "quiet cont disk (throw e)"
  by (auto simp: quiet_def ret_def act_query_def act_lift_def throw_def)

lemma quiet_bind [quiet_intros]:
  fixes m :: "(('db, 'c) sled_storage, blockchain_error, 'a) act"
  assumes "quiet cont disk m" "\<And>x. quiet cont disk (f x)"
  shows "quiet cont disk (act_bind m f)"
proof (rule quietI)
  fix S :: "('db, 'c) sled_storage" assume ok: "sled_ok S"
  obtain r S1 where m: "m S = (r, S1)" by (cases "m S")
  note 1 = quietD [OF assms(1) ok m]
  show "sled_ok (snd (act_bind m f S)) \<and> same_order cont disk S (snd (act_bind m f S))"
  proof (cases r)
    case (Inr x)
    obtain r' S2 where f: "f x S1 = (r', S2)" by (cases "f x S1")
    from quietD [OF assms(2) _ f] 1 show ?thesis by (auto simp: act_bind_def m Inr f intro: same_order_trans)
  qed (use 1 in \<open>simp add: act_bind_def m\<close>)
qed

lemma quiet_then [quiet_intros]: "quiet cont disk m \<Longrightarrow> quiet cont disk m' \<Longrightarrow> quiet cont disk (act_then m m')"
  unfolding act_then_def by (rule quiet_bind)

lemma quiet_fold [quiet_intros]: "(\<And>x acc. quiet cont disk (f x acc)) \<Longrightarrow> quiet cont disk (act_fold f xs acc)"
  by (induction xs arbitrary: acc) (auto intro: quiet_intros)

lemma quiet_cases [quiet_intros]:
  "(b \<Longrightarrow> quiet cont disk m) \<Longrightarrow> (\<not> b \<Longrightarrow> quiet cont disk m') \<Longrightarrow> quiet cont disk (if b then m else m')"
  "(\<And>x. quiet cont disk (g x)) \<Longrightarrow> quiet cont disk m' \<Longrightarrow> quiet cont disk (case opt of Some x \<Rightarrow> g x | None \<Rightarrow> m')"
  "(\<And>x y. quiet cont disk (h x y)) \<Longrightarrow> quiet cont disk (case p of (x, y) \<Rightarrow> h x y)"
  "quiet cont disk (k v) \<Longrightarrow> quiet cont disk (let x = v in k x)"
  by (auto split: option.split prod.split)

lemma quiet_does:
  fixes m :: "(('db, 'c) sled_storage, blockchain_error, 'a) act"
  assumes "does disk m P" "\<And>w x w' t. P w x w' \<Longrightarrow> t \<in> order_trees \<Longrightarrow> w' t = w t"
  shows "quiet cont disk m"
proof (rule quietI)
  fix S :: "('db, 'c) sled_storage" assume ok: "sled_ok S"
  from doesD [OF assms(1) ok] obtain x S' where "m S = (Inr x, S')" "P (sled_view disk S) x (sled_view disk S')" "sled_ok S'" "sled_frame S S'" .
  then show "sled_ok (snd (m S)) \<and> same_order cont disk S (snd (m S))"
    using assms(2) by (auto simp: same_order_def sled_frame_def)
qed

lemma quiet_counters [quiet_intros]: "quiet cont disk (act_modify (set_counters f))"
  by (rule quiet_does [OF does_counters]) simp

context sled_db
begin

lemma quiet_writes [quiet_intros]:
  assumes "t \<notin> order_trees"
  shows "quiet cont disk (insert_into_disk L t k v)" "quiet cont disk (remove_from_disk_internal L t k)"
    "quiet cont disk (remove_from_disk_without_reading L t k)"
  using assms by (auto intro: quiet_does [OF insert_does] quiet_does [OF remove_does] quiet_does [OF remove_quiet_does])

lemma quiet_remove [quiet_intros]: "t \<notin> order_trees \<Longrightarrow> quiet cont disk (remove_from_disk L rd t k)"
  unfolding remove_from_disk_def by (intro quiet_intros)

end

lemma quiet_pop: 
  assumes "\<And>c. cont (snd (lu_pop A k c)) = cont c"
  shows "quiet cont disk (pop_cache A k)"
  by (intro quietI) (auto simp: pop_cache_def same_order_def case_prod_beta assms split: option.split)

section \<open>Changes of a cached tree\<close>

text \<open>What a change of one key and its cache entry keeps of the rest.\<close>

definition elsewhere ::
  "('c \<Rightarrow> 'd) \<Rightarrow> string \<Rightarrow> ('db \<Rightarrow> string \<Rightarrow> bytes \<Rightarrow> bytes option) \<Rightarrow> ('db, 'c) sled_storage \<Rightarrow> ('db, 'c) sled_storage \<Rightarrow> bool" where
  "elsewhere rest t disk S S' \<longleftrightarrow> (\<forall>t'. t' \<noteq> t \<longrightarrow> sled_view disk S' t' = sled_view disk S t') \<and> (\<forall>t k. touched S t k \<longrightarrow> touched S' t k) \<and>
     map_option rest (sc_caches (ss_cache S')) = map_option rest (sc_caches (ss_cache S))"

lemma elsewhere_refl [simp]: "elsewhere rest t disk S S"
  by (simp add: elsewhere_def)

lemma elsewhere_trans: "elsewhere rest t disk S S1 \<Longrightarrow> elsewhere rest t disk S1 S2 \<Longrightarrow> elsewhere rest t disk S S2"
  by (simp add: elsewhere_def)

lemma cache_sound_frame:
  assumes "cache_sound holds rd t kb disk S" "sled_view disk S' t = sled_view disk S t" "\<And>k. touched S t k \<Longrightarrow> touched S' t k"
    "map_option cont (sc_caches (ss_cache S')) = map_option cont (sc_caches (ss_cache S))" "\<And>c. holds c = f (cont c)"
  shows "cache_sound holds rd t kb disk S'"
  unfolding cache_sound_def
proof (intro allI impI)
  fix c' k v
  assume c: "sc_caches (ss_cache S') = Some c'" "holds c' k = Some v" "\<not> touched S' t (kb k)"
  with assms(4,5) obtain c where "sc_caches (ss_cache S) = Some c" "holds c k = Some v" by (cases "sc_caches (ss_cache S)") auto
  with assms(2,3) c(3) show "parse rd (sled_view disk S' t (kb k)) = Inr (Some v)" using cache_soundD [OF assms(1)] by metis
qed

lemma cache_sound_elsewhere:
  assumes "cache_sound holds rd t' kb disk S" "elsewhere rest t disk S S'" "t' \<noteq> t" "\<And>c. holds c = f (rest c)"
  shows "cache_sound holds rd t' kb disk S'"
  using assms(2,3) by (intro cache_sound_frame [where cont = rest and f = f, OF assms(1) _ _ _ assms(4)]) (auto simp: elsewhere_def)

lemma cache_sound_same_order:
  assumes "cache_sound holds rd t kb disk S" "same_order cont disk S S'" "t \<in> order_trees" "\<And>c. holds c = f (cont c)"
  shows "cache_sound holds rd t kb disk S'"
  using assms(2,3) by (intro cache_sound_frame [where cont = cont and f = f, OF assms(1) _ _ _ assms(4)]) (auto simp: same_order_def)

lemma cache_sound_update:
  assumes "cache_sound holds rd t kb disk S" and "inj kb" and "\<And>b. b \<noteq> kb k \<Longrightarrow> sled_view disk S' t b = sled_view disk S t b"
    and "\<And>k. touched S t k \<Longrightarrow> touched S' t k"
    and "\<And>c' k' v. sc_caches (ss_cache S') = Some c' \<Longrightarrow> holds c' k' = Some v \<Longrightarrow> \<not> touched S' t (kb k') \<Longrightarrow>
      k' \<noteq> k \<and> (\<exists>c. sc_caches (ss_cache S) = Some c \<and> holds c k' = Some v) \<or>
      k' = k \<and> parse rd (sled_view disk S' t (kb k)) = Inr (Some v)"
  shows "cache_sound holds rd t kb disk S'"
  unfolding cache_sound_def
proof (intro allI impI)
  fix c' k' v
  assume c: "sc_caches (ss_cache S') = Some c'" "holds c' k' = Some v" "\<not> touched S' t (kb k')"
  from assms(5) [OF c] show "parse rd (sled_view disk S' t (kb k')) = Inr (Some v)"
  proof
    assume k: "k' \<noteq> k \<and> (\<exists>c. sc_caches (ss_cache S) = Some c \<and> holds c k' = Some v)"
    then have "kb k' \<noteq> kb k" using assms(2) by (auto dest: injD)
    with k c(3) assms(3,4) show ?thesis using cache_soundD [OF assms(1)] by metis
  qed simp
qed

lemma inj_keys: "inj as_bytes" "inj (to_be_bytes :: topoheight \<Rightarrow> bytes)"
  by (auto simp: inj_def hash.expand to_be_bytes_inject)

context sled_db
begin

text \<open>Removing a key from the storage keeps its cache sound, unless the cache holds the key and was read.\<close>

lemma removed_keeps:
  assumes "cache_sound holds rd t kb disk S" "inj kb" "sled_ok S" "remove_from_disk_internal L t (kb k) S = (r, S')"
  shows "r = Inr (sled_view disk S t (kb k))" "sled_ok S'" "elsewhere rest t disk S S'" "sc_caches (ss_cache S') = sc_caches (ss_cache S)"
    "sled_view disk S' t = (sled_view disk S t)(kb k := None)"
    "(\<And>c v. sc_caches (ss_cache S) = Some c \<Longrightarrow> \<not> touched S t (kb k) \<Longrightarrow> holds c k \<noteq> Some v) \<Longrightarrow> cache_sound holds rd t kb disk S'"
proof -
  from does_result [OF remove_does assms(3,4)] obtain x where x: "r = Inr x" "sled_ok S'" "sled_frame S S'"
    "x = sled_view disk S t (kb k) \<and> sled_view disk S' = (sled_view disk S)(t := (sled_view disk S t)(kb k := None))" .
  then show 1: "r = Inr (sled_view disk S t (kb k))" "sled_ok S'" "elsewhere rest t disk S S'" "sc_caches (ss_cache S') = sc_caches (ss_cache S)"
    "sled_view disk S' t = (sled_view disk S t)(kb k := None)"
    by (auto simp: elsewhere_def sled_frame_def)
  assume free: "\<And>c v. sc_caches (ss_cache S) = Some c \<Longrightarrow> \<not> touched S t (kb k) \<Longrightarrow> holds c k \<noteq> Some v"
  show "cache_sound holds rd t kb disk S'"
  proof (rule cache_sound_update [OF assms(1,2)])
    show "touched S t b \<Longrightarrow> touched S' t b" for b using x(3) by (simp add: sled_frame_def)
    fix c' k' v assume "sc_caches (ss_cache S') = Some c'" "holds c' k' = Some v" "\<not> touched S' t (kb k')"
    then show "k' \<noteq> k \<and> (\<exists>c. sc_caches (ss_cache S) = Some c \<and> holds c k' = Some v) \<or>
        k' = k \<and> parse rd (sled_view disk S' t (kb k)) = Inr (Some v)"
      using free [of c' v] x(3) 1(4) by (cases "k' = k") (auto simp: sled_frame_def)
  qed (simp add: 1(5))
qed

end

context lru_laws
begin

lemma pop_keeps:
  assumes "pop_cache A k S = (r, S')"
  shows "elsewhere rest t disk S S'" "sled_view disk S' = sled_view disk S" "sled_ok S' = sled_ok S" "touched S' = touched S"
    "\<exists>v. r = Inr v" "sc_caches (ss_cache S') = Some c' \<Longrightarrow> \<exists>c. sc_caches (ss_cache S) = Some c \<and> holds c' = (holds c)(k := None)"
proof -
  have "S' = S \<and> sc_caches (ss_cache S) = None \<or> (\<exists>c. sc_caches (ss_cache S) = Some c \<and> S' = set_caches (snd (lu_pop A k c)) S)"
    using assms by (auto simp: pop_cache_def case_prod_beta split: option.splits)
  moreover have "holds (snd (lu_pop A k c)) = (holds c)(k := None)" "rest (snd (lu_pop A k c)) = rest c" for c
    using pop [of k c] by (cases "lu_pop A k c"; simp)+
  ultimately show "elsewhere rest t disk S S'" "sled_view disk S' = sled_view disk S" "sled_ok S' = sled_ok S" "touched S' = touched S"
    "sc_caches (ss_cache S') = Some c' \<Longrightarrow> \<exists>c. sc_caches (ss_cache S) = Some c \<and> holds c' = (holds c)(k := None)"
    by (auto simp: elsewhere_def)
  show "\<exists>v. r = Inr v" using assms by (auto simp: pop_cache_def case_prod_beta split: option.splits)
qed

lemma remove_pop_keeps:
  assumes "sled_db L disk" "cache_sound holds rd t kb disk S" "inj kb" "sled_ok S"
    and "remove_from_disk_internal L t (kb k) S = (r, S1)" "pop_cache A k S1 = (r', S')"
  shows "sled_ok S'" "elsewhere rest t disk S S'" "cache_sound holds rd t kb disk S'"
proof -
  note 1 = sled_db.removed_keeps [OF assms(1-5)] and 2 = pop_keeps [OF assms(6)]
  show "sled_ok S'" "elsewhere rest t disk S S'" using 1(2,3) 2(1,3) by (auto intro: elsewhere_trans)
  show "cache_sound holds rd t kb disk S'"
  proof (rule cache_sound_update [OF assms(2,3)])
    show "b \<noteq> kb k \<Longrightarrow> sled_view disk S' t b = sled_view disk S t b" for b by (simp add: 1(5) 2(2))
    show "touched S t b \<Longrightarrow> touched S' t b" for b using 1(3) [where rest = rest] by (simp add: elsewhere_def 2(4))
    show "k' \<noteq> k \<and> (\<exists>c. sc_caches (ss_cache S) = Some c \<and> holds c k' = Some v) \<or> k' = k \<and> parse rd (sled_view disk S' t (kb k)) = Inr (Some v)"
      if "sc_caches (ss_cache S') = Some c'" "holds c' k' = Some v" for c' k' v
      using 2(6) [OF that(1)] that(2) 1(4) by (auto split: if_splits)
  qed
qed

text \<open>Deleting data through its cache keeps the cache sound, also when it fails.\<close>

lemma delete_cached:
  assumes "sled_db L disk" "cache_sound holds rd t kb disk S" "inj kb" "sled_ok S" "delete_cacheable_data L (Some A) rd t (kb k) k S = (r, S')"
  shows "sled_ok S' \<and> elsewhere rest t disk S S' \<and> cache_sound holds rd t kb disk S'"
proof -
  obtain r1 S1 where 1: "remove_from_disk_internal L t (kb k) S = (r1, S1)" by (cases "remove_from_disk_internal L t (kb k) S")
  note k1 = sled_db.removed_keeps [OF assms(1-4) 1]
  obtain r2 S2 where 2: "pop_cache A k S1 = (r2, S2)" by (cases "pop_cache A k S1")
  note k2 = remove_pop_keeps [OF assms(1-4) 1 2]
  show ?thesis
  proof (cases "sled_view disk S t (kb k)")
    case None
    then have "S' = S1" using assms(5) by (simp add: delete_cacheable_data_def act_bind_def 1 k1(1) ok_or_def act_lift_def)
    moreover have "holds c k \<noteq> Some v" if "sc_caches (ss_cache S) = Some c" "\<not> touched S t (kb k)" for c v
      using cache_soundD [OF assms(2) that(1) _ that(2), of v] None by (auto simp: parse_def)
    ultimately show ?thesis using k1(2,3,6) by blast
  next
    case (Some val)
    from pop_keeps(5) [OF 2] obtain v where "r2 = Inr v" by blast
    then have "S' = S2" using assms(5) Some
      by (auto simp: delete_cacheable_data_def act_bind_def 1 2 k1(1) ok_or_def act_lift_def ret_def split: option.splits)
    with k2 show ?thesis by simp
  qed
qed

lemma delete_arc_cached:
  assumes "sled_db L disk" "cache_sound holds rd t kb disk S" "inj kb" "sled_ok S" "delete_arc_cacheable_data L A rd t (kb k) k S = (r, S')"
  shows "sled_ok S' \<and> elsewhere rest t disk S S' \<and> cache_sound holds rd t kb disk S'"
proof -
  obtain r1 S1 where 1: "remove_from_disk_internal L t (kb k) S = (r1, S1)" by (cases "remove_from_disk_internal L t (kb k) S")
  note k1 = sled_db.removed_keeps [OF assms(1-4) 1]
  obtain r2 S2 where 2: "pop_cache A k S1 = (r2, S2)" by (cases "pop_cache A k S1")
  note k2 = remove_pop_keeps [OF assms(1-4) 1 2]
  show ?thesis
  proof (cases "\<exists>v. parse rd (sled_view disk S t (kb k)) = Inr (Some v)")
    case False
    then have "S' = S1" using assms(5)
      by (auto simp: delete_arc_cacheable_data_def remove_from_disk_def act_bind_def 1 k1(1) ok_or_def act_lift_def split: sum.splits option.splits)
    moreover have "holds c k \<noteq> Some v" if "sc_caches (ss_cache S) = Some c" "\<not> touched S t (kb k)" for c v
      using cache_soundD [OF assms(2) that(1) _ that(2), of v] False by blast
    ultimately show ?thesis using k1(2,3,6) by blast
  next
    case True
    from pop_keeps(5) [OF 2] obtain v where "r2 = Inr v" by blast
    then have "S' = S2" using assms(5) True
      by (auto simp: delete_arc_cacheable_data_def remove_from_disk_def act_bind_def 1 2 k1(1) ok_or_def act_lift_def ret_def)
    with k2 show ?thesis by simp
  qed
qed

end

section \<open>The invariant\<close>

definition order_cont :: "('c \<Rightarrow> 'a) \<Rightarrow> ('c \<Rightarrow> 'b) \<Rightarrow> ('c \<Rightarrow> 'd) \<Rightarrow> 'c \<Rightarrow> 'a \<times> 'b \<times> 'd" where
  "order_cont topos hashes blocks c = (topos c, hashes c, blocks c)"

definition order_inv ::
  "('c \<Rightarrow> hash \<Rightarrow> topoheight option) \<Rightarrow> ('c \<Rightarrow> topoheight \<Rightarrow> hash option) \<Rightarrow> ('c \<Rightarrow> hash \<Rightarrow> block_header option) \<Rightarrow>
   ('db \<Rightarrow> string \<Rightarrow> bytes \<Rightarrow> bytes option) \<Rightarrow> ('db, 'c) sled_storage \<Rightarrow> bool" where
  "order_inv topos hashes blocks disk S \<longleftrightarrow> sled_ok S \<and> cache_sound topos read_u64 ''topo_by_hash'' as_bytes disk S \<and>
     cache_sound hashes read_hash ''hash_at_topo'' to_be_bytes disk S \<and> cache_sound blocks read_block_header ''blocks'' as_bytes disk S"

locale cached_storage = sled_db L disk + storage_caches A txs blocks topos hashes diffs assets
  for L :: "'db sled_lib" and disk and A :: "('c, ('s, 'v, 'm, 'r) stx) lru_caches" and txs blocks topos hashes diffs assets
begin

lemma order_inv_same:
  assumes "order_inv topos hashes blocks disk S" "sled_ok S'" "same_order (order_cont topos hashes blocks) disk S S'"
  shows "order_inv topos hashes blocks disk S'"
  using assms(1,2) unfolding order_inv_def
  by (auto intro: cache_sound_same_order [OF _ assms(3), where f = fst] cache_sound_same_order [OF _ assms(3), where f = "fst \<circ> snd"]
      cache_sound_same_order [OF _ assms(3), where f = "snd \<circ> snd"] simp: order_trees_def order_cont_def)

lemma quiet_preserves: "quiet (order_cont topos hashes blocks) disk m \<Longrightarrow> preserves (order_inv topos hashes blocks disk) m"
  unfolding preserves_def quiet_def by (metis order_inv_same order_inv_def)

lemma order_inv_elsewhere:
  assumes inv: "order_inv topos hashes blocks disk S" and ok: "sled_ok S'"
  shows "elsewhere (\<lambda>c. (txs c, blocks c, hashes c, diffs c, assets c)) ''topo_by_hash'' disk S S' \<Longrightarrow>
      cache_sound topos read_u64 ''topo_by_hash'' as_bytes disk S' \<Longrightarrow> order_inv topos hashes blocks disk S'"
    "elsewhere (\<lambda>c. (txs c, blocks c, topos c, diffs c, assets c)) ''hash_at_topo'' disk S S' \<Longrightarrow>
      cache_sound hashes read_hash ''hash_at_topo'' to_be_bytes disk S' \<Longrightarrow> order_inv topos hashes blocks disk S'"
    "elsewhere (\<lambda>c. (txs c, topos c, hashes c, diffs c, assets c)) ''blocks'' disk S S' \<Longrightarrow>
      cache_sound blocks read_block_header ''blocks'' as_bytes disk S' \<Longrightarrow> order_inv topos hashes blocks disk S'"
proof -
  have sound: "cache_sound topos read_u64 ''topo_by_hash'' as_bytes disk S" "cache_sound hashes read_hash ''hash_at_topo'' to_be_bytes disk S"
    "cache_sound blocks read_block_header ''blocks'' as_bytes disk S" using inv by (simp_all add: order_inv_def)
  show "order_inv topos hashes blocks disk S'" if e: "elsewhere (\<lambda>c. (txs c, blocks c, hashes c, diffs c, assets c)) ''topo_by_hash'' disk S S'"
    and "cache_sound topos read_u64 ''topo_by_hash'' as_bytes disk S'"
    using that(2) ok cache_sound_elsewhere [OF sound(2) e, where f = "\<lambda>(_, _, h, _). h"] cache_sound_elsewhere [OF sound(3) e, where f = "\<lambda>(_, b, _). b"]
    by (simp add: order_inv_def)
  show "order_inv topos hashes blocks disk S'" if e: "elsewhere (\<lambda>c. (txs c, blocks c, topos c, diffs c, assets c)) ''hash_at_topo'' disk S S'"
    and "cache_sound hashes read_hash ''hash_at_topo'' to_be_bytes disk S'"
    using that(2) ok cache_sound_elsewhere [OF sound(1) e, where f = "\<lambda>(_, _, t, _). t"] cache_sound_elsewhere [OF sound(3) e, where f = "\<lambda>(_, b, _). b"]
    by (simp add: order_inv_def)
  show "order_inv topos hashes blocks disk S'" if e: "elsewhere (\<lambda>c. (txs c, topos c, hashes c, diffs c, assets c)) ''blocks'' disk S S'"
    and "cache_sound blocks read_block_header ''blocks'' as_bytes disk S'"
    using that(2) ok cache_sound_elsewhere [OF sound(1) e, where f = "\<lambda>(_, t, _). t"] cache_sound_elsewhere [OF sound(2) e, where f = "\<lambda>(_, _, h, _). h"]
    by (simp add: order_inv_def)
qed

lemma order_invD:
  "order_inv topos hashes blocks disk S \<Longrightarrow> sled_ok S" "order_inv topos hashes blocks disk S \<Longrightarrow> cache_sound topos read_u64 ''topo_by_hash'' as_bytes disk S"
  "order_inv topos hashes blocks disk S \<Longrightarrow> cache_sound hashes read_hash ''hash_at_topo'' to_be_bytes disk S"
  "order_inv topos hashes blocks disk S \<Longrightarrow> cache_sound blocks read_block_header ''blocks'' as_bytes disk S"
  by (simp_all add: order_inv_def)

lemma deletions [act_keep]:
  "preserves (order_inv topos hashes blocks disk) (delete_cacheable_data L (Some (lc_topo_by_hash A)) read_u64 ''topo_by_hash'' (as_bytes h) h)"
  "preserves (order_inv topos hashes blocks disk) (delete_cacheable_data L (Some (lc_hash_at_topo A)) read_hash ''hash_at_topo'' (to_be_bytes t) t)"
  "preserves (order_inv topos hashes blocks disk) (delete_arc_cacheable_data L (lc_blocks A) read_block_header ''blocks'' (as_bytes h) h)"
  using topos.delete_cached [OF sled_db_axioms order_invD(2) inj_keys(1) order_invD(1) surjective_pairing]
    hashes.delete_cached [OF sled_db_axioms order_invD(3) inj_keys(2) order_invD(1) surjective_pairing]
    blocks.delete_arc_cached [OF sled_db_axioms order_invD(4) inj_keys(1) order_invD(1) surjective_pairing]
  unfolding preserves_def by (blast intro: order_inv_elsewhere)+

end

section \<open>Ordering a block\<close>

definition topo_of :: "tree_view \<Rightarrow> hash \<Rightarrow> topoheight option" where
  "topo_of w h = (case parse read_u64 (w ''topo_by_hash'' (as_bytes h)) of Inr r \<Rightarrow> r | Inl _ \<Rightarrow> None)"

definition hash_at :: "tree_view \<Rightarrow> topoheight \<Rightarrow> hash option" where
  "hash_at w t = (case parse read_hash (w ''hash_at_topo'' (to_be_bytes t)) of Inr r \<Rightarrow> r | Inl _ \<Rightarrow> None)"

text \<open>A block is ordered at its topoheight when the topoheight is the block's.\<close>

definition ordered :: "tree_view \<Rightarrow> hash \<Rightarrow> bool" where
  "ordered w h \<longleftrightarrow> (\<exists>t. topo_of w h = Some t \<and> hash_at w t = Some h)"

lemma parse_written: "parse read_u64 (Some (to_be_bytes (t :: u64))) = Inr (Some t)" "hash_ok h \<Longrightarrow> parse read_hash (Some (as_bytes h)) = Inr (Some h)"
proof -
  show "parse read_u64 (Some (to_be_bytes (t :: u64))) = Inr (Some t)" by (simp add: parse_def and_then_def map_err_def)
  have "to_bytes (write_hash h) = as_bytes h" by (simp add: write_hash_def codec_simps)
  then show "hash_ok h \<Longrightarrow> parse read_hash (Some (as_bytes h)) = Inr (Some h)"
    using hash.from_to_bytes [of h] by (simp add: parse_def and_then_def map_err_def)
qed

context cached_storage
begin

lemma set_topo_state:
  assumes "sled_ok S"
  obtains S' where "set_topo_height_for_block L A h t S = (Inr (), S')" "sled_ok S'"
    "sled_view disk S' = (sled_view disk S)(''topo_by_hash'' := (sled_view disk S ''topo_by_hash'')(as_bytes h \<mapsto> to_be_bytes t),
       ''hash_at_topo'' := (sled_view disk S ''hash_at_topo'')(to_be_bytes t \<mapsto> as_bytes h))"
    "\<And>t k. touched S t k \<Longrightarrow> touched S' t k"
    "sc_caches (ss_cache S') = map_option (lu_put (lc_hash_at_topo A) t h \<circ> lu_put (lc_topo_by_hash A) h t) (sc_caches (ss_cache S))"
proof -
  from doesD [OF insert_does assms] obtain x S1 where 1: "insert_into_disk L ''topo_by_hash'' (as_bytes h) (to_be_bytes t) S = (Inr x, S1)"
    "sled_view disk S1 = (sled_view disk S)(''topo_by_hash'' := (sled_view disk S ''topo_by_hash'')(as_bytes h \<mapsto> to_be_bytes t))" "sled_ok S1" "sled_frame S S1" .
  from doesD [OF insert_does 1(3)] obtain y S2 where 2: "insert_into_disk L ''hash_at_topo'' (to_be_bytes t) (as_bytes h) S1 = (Inr y, S2)"
    "sled_view disk S2 = (sled_view disk S1)(''hash_at_topo'' := (sled_view disk S1 ''hash_at_topo'')(to_be_bytes t \<mapsto> as_bytes h))" "sled_ok S2" "sled_frame S1 S2" .
  let ?S = "map_caches (lu_put (lc_hash_at_topo A) t h) (map_caches (lu_put (lc_topo_by_hash A) h t) S2)"
  show thesis
  proof (rule that [of ?S])
    show "set_topo_height_for_block L A h t S = (Inr (), ?S)"
      by (simp add: set_topo_height_for_block_def act_then_def act_bind_def act_modify_def 1(1) 2(1))
    show "touched S t k \<Longrightarrow> touched ?S t k" for t k using 1(4) 2(4) by (simp add: sled_frame_def)
    show "sc_caches (ss_cache ?S) = map_option (lu_put (lc_hash_at_topo A) t h \<circ> lu_put (lc_topo_by_hash A) h t) (sc_caches (ss_cache S))"
      using 1(4) 2(4) by (simp add: sled_frame_def option.map_comp)
  qed (simp_all add: 1(2) 2(2,3))
qed

lemma set_topo_inv:
  assumes inv: "order_inv topos hashes blocks disk S" and "hash_ok h" and run: "set_topo_height_for_block L A h t S = (r, S')"
  shows "order_inv topos hashes blocks disk S'"
proof -
  obtain S'' where S'': "set_topo_height_for_block L A h t S = (Inr (), S'')" "sled_ok S''"
    "sled_view disk S'' = (sled_view disk S)(''topo_by_hash'' := (sled_view disk S ''topo_by_hash'')(as_bytes h \<mapsto> to_be_bytes t),
       ''hash_at_topo'' := (sled_view disk S ''hash_at_topo'')(to_be_bytes t \<mapsto> as_bytes h))"
    "\<And>t k. touched S t k \<Longrightarrow> touched S'' t k"
    "sc_caches (ss_cache S'') = map_option (lu_put (lc_hash_at_topo A) t h \<circ> lu_put (lc_topo_by_hash A) h t) (sc_caches (ss_cache S))"
    by (rule set_topo_state [OF order_invD(1) [OF inv]]) (rule that)
  have same: "S' = S''" using run S''(1) by simp
  have p: "topos (lu_put (lc_hash_at_topo A) t h (lu_put (lc_topo_by_hash A) h t c)) = topos (lu_put (lc_topo_by_hash A) h t c)"
    "hashes (lu_put (lc_hash_at_topo A) t h (lu_put (lc_topo_by_hash A) h t c)) k = Some v \<Longrightarrow> ((hashes c)(t \<mapsto> h)) k = Some v"
    "topos (lu_put (lc_topo_by_hash A) h t c) k' = Some v' \<Longrightarrow> ((topos c)(h \<mapsto> t)) k' = Some v'"
    "blocks (lu_put (lc_hash_at_topo A) t h (lu_put (lc_topo_by_hash A) h t c)) = blocks c" for c k v k' v'
    using hashes.put(2) [of t h "lu_put (lc_topo_by_hash A) h t c"] hashes.put(1) [of t h "lu_put (lc_topo_by_hash A) h t c" k]
      topos.put(2) [of h t c] topos.put(1) [of h t c k'] by auto
  have "cache_sound topos read_u64 ''topo_by_hash'' as_bytes disk S''"
    by (rule cache_sound_update [OF order_invD(2) [OF inv] inj_keys(1), of h])
      (auto simp: S''(3,5) p(1) parse_written dest!: p(3) intro: S''(4) split: if_splits)
  moreover have "cache_sound hashes read_hash ''hash_at_topo'' to_be_bytes disk S''"
    by (rule cache_sound_update [OF order_invD(3) [OF inv] inj_keys(2), of t])
      (auto simp: S''(3,5) parse_written assms(2) dest!: p(2) intro: S''(4) split: if_splits)
  moreover have "cache_sound blocks read_block_header ''blocks'' as_bytes disk S''"
    by (rule cache_sound_frame [OF order_invD(4) [OF inv], where cont = blocks and f = id])
      (auto simp: S''(3,5) option.map_comp comp_def p(4) intro: S''(4))
  ultimately show ?thesis by (simp add: order_inv_def S''(2) same)
qed

end

context cached_storage
begin

lemma order_inv_recached:
  assumes inv: "order_inv topos hashes blocks disk S"
  shows "recached (\<lambda>c. (txs c, blocks c, hashes c, diffs c, assets c)) S S' \<Longrightarrow>
      cache_sound topos read_u64 ''topo_by_hash'' as_bytes disk S' \<Longrightarrow> order_inv topos hashes blocks disk S'"
    "recached (\<lambda>c. (txs c, blocks c, topos c, diffs c, assets c)) S S' \<Longrightarrow>
      cache_sound hashes read_hash ''hash_at_topo'' to_be_bytes disk S' \<Longrightarrow> order_inv topos hashes blocks disk S'"
proof -
  have e: "elsewhere rest t disk S S'" "sled_ok S'" if "recached rest S S'" for rest :: "'c \<Rightarrow> 'x" and t
    using recached_simps [OF that] order_invD(1) [OF inv] by (simp_all add: elsewhere_def)
  show "recached (\<lambda>c. (txs c, blocks c, hashes c, diffs c, assets c)) S S' \<Longrightarrow>
      cache_sound topos read_u64 ''topo_by_hash'' as_bytes disk S' \<Longrightarrow> order_inv topos hashes blocks disk S'"
    by (rule order_inv_elsewhere(1) [OF inv e(2) e(1)])
  show "recached (\<lambda>c. (txs c, blocks c, topos c, diffs c, assets c)) S S' \<Longrightarrow>
      cache_sound hashes read_hash ''hash_at_topo'' to_be_bytes disk S' \<Longrightarrow> order_inv topos hashes blocks disk S'"
    by (rule order_inv_elsewhere(2) [OF inv e(2) e(1)])
qed

text \<open>The reads answer what the trees hold and keep the invariant.\<close>

lemma get_topo_exact:
  assumes inv: "order_inv topos hashes blocks disk S" and run: "get_topo_height_for_hash L A h S = (r, S')"
  shows "r = and_then (parse read_u64 (sled_view disk S ''topo_by_hash'' (as_bytes h))) (ok_or NotFoundOnDisk)"
    "sled_view disk S' = sled_view disk S" "order_inv topos hashes blocks disk S'"
proof -
  obtain r1 S1 where 1: "get_optional_cacheable_data L (lc_topo_by_hash A) read_u64 ''topo_by_hash'' (as_bytes h) h S = (r1, S1)"
    by (cases "get_optional_cacheable_data L (lc_topo_by_hash A) read_u64 ''topo_by_hash'' (as_bytes h) h S")
  note k = topos.cached_read [OF sled_db_axioms order_invD(2) [OF inv] 1]
  have "S1 = S'" "r = and_then r1 (ok_or NotFoundOnDisk)" using run
    by (auto simp: get_topo_height_for_hash_def get_cacheable_data_def act_bind_def 1 act_lift_def and_then_def split: sum.splits)
  then show "r = and_then (parse read_u64 (sled_view disk S ''topo_by_hash'' (as_bytes h))) (ok_or NotFoundOnDisk)"
    "sled_view disk S' = sled_view disk S" "order_inv topos hashes blocks disk S'"
    using k recached_simps(1) [OF k(2)] order_inv_recached(1) [OF inv k(2,3)] by simp_all
qed

lemma get_hash_exact:
  assumes inv: "order_inv topos hashes blocks disk S" and run: "get_hash_at_topo_height L A t S = (r, S')"
  shows "r = and_then (parse read_hash (sled_view disk S ''hash_at_topo'' (to_be_bytes t))) (ok_or NotFoundOnDisk)"
    "sled_view disk S' = sled_view disk S" "order_inv topos hashes blocks disk S'"
proof -
  obtain r1 S1 where 1: "get_optional_cacheable_data L (lc_hash_at_topo A) read_hash ''hash_at_topo'' (to_be_bytes t) t S = (r1, S1)"
    by (cases "get_optional_cacheable_data L (lc_hash_at_topo A) read_hash ''hash_at_topo'' (to_be_bytes t) t S")
  note k = hashes.cached_read [OF sled_db_axioms order_invD(3) [OF inv] 1]
  have "S1 = S'" "r = and_then r1 (ok_or NotFoundOnDisk)" using run
    by (auto simp: get_hash_at_topo_height_def get_cacheable_data_def act_bind_def 1 act_lift_def and_then_def split: sum.splits)
  then show "r = and_then (parse read_hash (sled_view disk S ''hash_at_topo'' (to_be_bytes t))) (ok_or NotFoundOnDisk)"
    "sled_view disk S' = sled_view disk S" "order_inv topos hashes blocks disk S'"
    using k recached_simps(1) [OF k(2)] order_inv_recached(2) [OF inv k(2,3)] by simp_all
qed

lemma is_ordered_exact:
  assumes inv: "order_inv topos hashes blocks disk S" and run: "is_block_topological_ordered L A h S = (r, S')"
  shows "r = Inr (ordered (sled_view disk S) h) \<and> sled_view disk S' = sled_view disk S \<and> order_inv topos hashes blocks disk S'"
proof -
  obtain r1 S1 where 1: "get_topo_height_for_hash L A h S = (r1, S1)" by (cases "get_topo_height_for_hash L A h S")
  note k1 = get_topo_exact [OF inv 1]
  show ?thesis
  proof (cases r1)
    case (Inl e)
    then have "topo_of (sled_view disk S) h = None"
      using k1(1) by (auto simp: topo_of_def and_then_def ok_or_def split: sum.splits option.splits)
    then show ?thesis using run Inl k1(2,3) by (simp add: is_block_topological_ordered_def act_or_else_def 1 ordered_def)
  next
    case (Inr t)
    then have t: "topo_of (sled_view disk S) h = Some t"
      using k1(1) by (auto simp: topo_of_def and_then_def ok_or_def split: sum.splits option.splits)
    obtain r2 S2 where 2: "get_hash_at_topo_height L A t S1 = (r2, S2)" by (cases "get_hash_at_topo_height L A t S1")
    note k2 = get_hash_exact [OF k1(3) 2, unfolded k1(2)]
    have "hash_at (sled_view disk S) t = (case r2 of Inl _ \<Rightarrow> None | Inr h \<Rightarrow> Some h)"
      using k2(1) by (auto simp: hash_at_def and_then_def ok_or_def split: sum.splits option.splits)
    with t show ?thesis
      using run Inr k2(2,3) by (cases r2) (auto simp: is_block_topological_ordered_def act_or_else_def 1 2 ordered_def ret_def)
  qed
qed

end

section \<open>Deleting a block and ending a commit point\<close>

context cached_storage
begin

lemma quiet_deletions [quiet_intros]:
  "t \<notin> order_trees \<Longrightarrow> quiet (order_cont topos hashes blocks) disk (delete_cacheable_data L None rd t kb k)"
  "t \<notin> order_trees \<Longrightarrow> quiet (order_cont topos hashes blocks) disk (delete_arc_cacheable_data L (lc_transactions A) rd' t kb' h)"
  "t \<notin> order_trees \<Longrightarrow> quiet (order_cont topos hashes blocks) disk (delete_cacheable_data L (Some (lc_cumulative_difficulty A)) rd'' t kb' h)"
proof -
  have "order_cont topos hashes blocks (snd (lu_pop (lc_transactions A) h c)) = order_cont topos hashes blocks c"
    "order_cont topos hashes blocks (snd (lu_pop (lc_cumulative_difficulty A) h c)) = order_cont topos hashes blocks c" for c
    using txs.pop [of h c] diffs.pop [of h c] by (auto simp: order_cont_def prod_eq_iff)
  note p = quiet_pop [where cont = "order_cont topos hashes blocks", OF this(1)] quiet_pop [where cont = "order_cont topos hashes blocks", OF this(2)]
  show "t \<notin> order_trees \<Longrightarrow> quiet (order_cont topos hashes blocks) disk (delete_cacheable_data L None rd t kb k)"
    "t \<notin> order_trees \<Longrightarrow> quiet (order_cont topos hashes blocks) disk (delete_arc_cacheable_data L (lc_transactions A) rd' t kb' h)"
    "t \<notin> order_trees \<Longrightarrow> quiet (order_cont topos hashes blocks) disk (delete_cacheable_data L (Some (lc_cumulative_difficulty A)) rd'' t kb' h)"
    unfolding delete_cacheable_data_def delete_arc_cacheable_data_def option.case by (intro quiet_intros p; assumption)+
qed

lemma quiet_height [quiet_intros]:
  "quiet (order_cont topos hashes blocks) disk (remove_block_hash_at_height L h n)"
  "quiet (order_cont topos hashes blocks) disk (add_block_hash_at_height L h n)"
  unfolding remove_block_hash_at_height_def add_block_hash_at_height_def set_blocks_at_height_def
  by (intro quiet_intros; simp add: order_trees_def)+

lemma clear_all:
  fixes c defines "c' \<equiv> lu_clear (lc_assets A) (lu_clear (lc_cumulative_difficulty A) (lu_clear (lc_hash_at_topo A)
    (lu_clear (lc_topo_by_hash A) (lu_clear (lc_blocks A) (lu_clear (lc_transactions A) c)))))"
  shows "topos c' k = None" "hashes c' n = None" "blocks c' k = None"
  unfolding c'_def using assets.clear(2) diffs.clear(2) hashes.clear topos.clear blocks.clear by simp_all

lemma commit_point_inv:
  assumes inv: "order_inv topos hashes blocks disk S"
  shows "start_commit_point S = (r, S') \<Longrightarrow> order_inv topos hashes blocks disk S'"
    "end_commit_point L A b S = (r, S') \<Longrightarrow> order_inv topos hashes blocks disk S'"
proof -
  assume "start_commit_point S = (r, S')"
  then show "order_inv topos hashes blocks disk S'" using inv
    by (auto simp: start_commit_point_def order_inv_def cache_sound_def sled_ok_def sled_view_def touched_def overlay_def snapshot_new_def
        sn_contains_key_def storage_cache_clone_def snapshot_ok_def btree_def split: if_splits)
next
  assume run: "end_commit_point L A b S = (r, S')"
  show "order_inv topos hashes blocks disk S'"
  proof (cases "ss_snapshot S")
    case None
    then show ?thesis using run inv by (simp add: end_commit_point_def)
  next
    case (Some sn)
    then have running: "ss_snapshot S \<noteq> None" by simp
    obtain S'' where S'': "end_commit_point L A b S = (Inr (), S'')" "ss_snapshot S'' = None" "sled_ok S''" "ss_network S'' = ss_network S"
      "disk (ss_db S'') = (if b then sled_view disk S else disk (ss_db S))"
      "sc_caches (ss_cache S'') = (if b then None else sc_caches (ss_cache (map_caches (lu_clear (lc_assets A) \<circ> lu_clear (lc_cumulative_difficulty A) \<circ>
       lu_clear (lc_hash_at_topo A) \<circ> lu_clear (lc_topo_by_hash A) \<circ> lu_clear (lc_blocks A) \<circ> lu_clear (lc_transactions A)) S)))"
      by (rule end_commit_ok [OF order_invD(1) [OF inv] running])
    have "topos c k = None" "hashes c n = None" "blocks c k = None" if "sc_caches (ss_cache S'') = Some c" for c k n
      using that by (auto simp: S''(6) clear_all split: if_splits)
    then have "order_inv topos hashes blocks disk S''" by (simp add: order_inv_def S''(3) cache_sound_def)
    with S''(1) run show ?thesis by simp
  qed
qed

end

text \<open>Deleting a block keeps the invariant wherever it fails.\<close>

context cached_storage
begin

lemma delete_block_keeps: "preserves (order_inv topos hashes blocks disk) (delete_block_at_topoheight C R V L A t)"
proof -
  have unlink: "quiet (order_cont topos hashes blocks) disk (unlink_tx C R V L A h tx acc)" for h tx acc
    unfolding unlink_tx_def set_blocks_for_tx_def unmark_tx_from_executed_def delete_contract_outputs_for_tx_def
    by (intro quiet_intros; simp add: order_trees_def)
  show ?thesis
    unfolding delete_block_at_topoheight_def
    by (intro preserves_bind preserves_then deletions; rule quiet_preserves; intro quiet_intros unlink; simp add: order_trees_def)
qed

end

section \<open>Saving a block\<close>

text \<open>\<open>steps I P m Q\<close>: from \<open>P\<close>, the operation succeeds into \<open>Q\<close> or fails into \<open>I\<close>.\<close>

definition steps :: "('st \<Rightarrow> bool) \<Rightarrow> ('st \<Rightarrow> bool) \<Rightarrow> ('st, 'e, 'a) act \<Rightarrow> ('st \<Rightarrow> bool) \<Rightarrow> bool" where
  "steps I P m Q \<longleftrightarrow> (\<forall>S. P S \<longrightarrow> (case m S of (Inl e, S') \<Rightarrow> I S' | (Inr x, S') \<Rightarrow> Q S'))"

lemma steps_bind: "steps I P m Q \<Longrightarrow> (\<And>x. steps I Q (f x) R) \<Longrightarrow> steps I P (act_bind m f) R"
  unfolding steps_def act_bind_def by (fastforce split: prod.splits sum.splits)

lemma steps_then: "steps I P m Q \<Longrightarrow> steps I Q m' R \<Longrightarrow> steps I P (act_then m m') R"
  unfolding act_then_def by (rule steps_bind)

lemma steps_end: "steps I P m I \<Longrightarrow> P S \<Longrightarrow> m S = (r, S') \<Longrightarrow> I S'"
  by (auto simp: steps_def split: sum.splits dest: spec [of _ S])

lemma steps_quiet:
  assumes "quiet cont disk m" "\<And>S. P S \<Longrightarrow> sled_ok S" "\<And>S. P S \<Longrightarrow> I S"
    "\<And>S S'. P S \<Longrightarrow> sled_ok S' \<Longrightarrow> same_order cont disk S S' \<Longrightarrow> P S'"
  shows "steps I P m P"
  unfolding steps_def
proof (intro allI impI)
  fix S assume P: "P S"
  obtain r S' where m: "m S = (r, S')" by (cases "m S")
  from assms(4) [OF P] quietD [OF assms(1) assms(2) [OF P] m] have "P S'" by blast
  then show "case m S of (Inl e, S') \<Rightarrow> I S' | (Inr x, S') \<Rightarrow> P S'" by (simp add: m assms(3) split: sum.split)
qed

definition unknown :: "('c \<Rightarrow> hash \<Rightarrow> block_header option) \<Rightarrow> hash \<Rightarrow> ('db, 'c) sled_storage \<Rightarrow> bool" where
  "unknown blocks h S \<longleftrightarrow> (\<forall>c. sc_caches (ss_cache S) = Some c \<longrightarrow> touched S ''blocks'' (as_bytes h) \<or> blocks c h = None)"

context cached_storage
begin

lemma new_block_unknown:
  assumes "has_block_with_hash L A S h = Inr False"
  shows "unknown blocks h S"
  unfolding unknown_def
proof (intro allI impI)
  fix c assume c: "sc_caches (ss_cache S) = Some c"
  show "touched S ''blocks'' (as_bytes h) \<or> blocks c h = None"
  proof (rule disjCI)
    assume "blocks c h \<noteq> None"
    then have "lu_contains (lc_blocks A) h c" by (simp add: blocks.contains)
    with assms c show "touched S ''blocks'' (as_bytes h)"
      by (auto simp: has_block_with_hash_def contains_cached_def contains_data_cached_def touched_value split: option.splits)
  qed
qed

lemma insert_block:
  assumes inv: "order_inv topos hashes blocks disk S" and "unknown blocks h S" and run: "insert_into_disk L ''blocks'' (as_bytes h) bs S = (r, S')"
  shows "\<exists>x. r = Inr x" "order_inv topos hashes blocks disk S'" "sled_view disk S' ''blocks'' (as_bytes h) = Some bs"
proof -
  obtain x where x: "r = Inr x" "sled_view disk S' = (sled_view disk S)(''blocks'' := (sled_view disk S ''blocks'')(as_bytes h \<mapsto> bs))"
    "sled_ok S'" "sled_frame S S'"
    by (rule does_result [OF insert_does order_invD(1) [OF inv] run])
  show "\<exists>x. r = Inr x" "sled_view disk S' ''blocks'' (as_bytes h) = Some bs" by (simp_all add: x(1,2))
  have "cache_sound blocks read_block_header ''blocks'' as_bytes disk S'"
  proof (rule cache_sound_update [OF order_invD(4) [OF inv] inj_keys(1), of h])
    show "touched S ''blocks'' k \<Longrightarrow> touched S' ''blocks'' k" for k using x(4) by (simp add: sled_frame_def)
    fix c' k' v assume c: "sc_caches (ss_cache S') = Some c'" "blocks c' k' = Some v" "\<not> touched S' ''blocks'' (as_bytes k')"
    have same: "sc_caches (ss_cache S) = Some c'" "\<not> touched S ''blocks'' (as_bytes k')" using x(4) c(1,3) by (auto simp: sled_frame_def)
    then have "k' \<noteq> h" using assms(2) c(2) by (auto simp: unknown_def)
    then show "k' \<noteq> h \<and> (\<exists>c. sc_caches (ss_cache S) = Some c \<and> blocks c k' = Some v) \<or>
        k' = h \<and> parse read_block_header (sled_view disk S' ''blocks'' (as_bytes h)) = Inr (Some v)"
      using same(1) c(2) by simp
  qed (simp add: x(2))
  then show "order_inv topos hashes blocks disk S'"
    by (intro order_inv_elsewhere(3) [OF inv x(3)]) (use x(2,4) in \<open>simp_all add: elsewhere_def sled_frame_def\<close>)
qed

lemma put_block:
  assumes inv: "order_inv topos hashes blocks disk S" and "block_header_ok block"
    and view: "sled_view disk S ''blocks'' (as_bytes h) = Some (to_bytes (write_block_header block))"
  shows "order_inv topos hashes blocks disk (map_caches (lu_put (lc_blocks A) h block) S)"
proof (rule order_inv_elsewhere(3) [OF inv])
  have "((\<lambda>c. (txs c, topos c, hashes c, diffs c, assets c)) \<circ> lu_put (lc_blocks A) h block) = (\<lambda>c. (txs c, topos c, hashes c, diffs c, assets c))"
    using blocks.put(2) [of h block] by (simp add: fun_eq_iff)
  then show "elsewhere (\<lambda>c. (txs c, topos c, hashes c, diffs c, assets c)) ''blocks'' disk S (map_caches (lu_put (lc_blocks A) h block) S)"
    by (simp add: elsewhere_def option.map_comp)
  have read: "parse read_block_header (Some (to_bytes (write_block_header block))) = Inr (Some block)"
    using header.from_to_bytes [OF assms(2)] by (simp add: parse_def and_then_def map_err_def)
  show "cache_sound blocks read_block_header ''blocks'' as_bytes disk (map_caches (lu_put (lc_blocks A) h block) S)"
  proof (rule cache_sound_update [OF order_invD(4) [OF inv] inj_keys(1), of h])
    fix c' k' v assume c: "sc_caches (ss_cache (map_caches (lu_put (lc_blocks A) h block) S)) = Some c'" "blocks c' k' = Some v"
    then obtain c where "sc_caches (ss_cache S) = Some c" "c' = lu_put (lc_blocks A) h block c" by auto
    with blocks.put(1) [of h block c k'] c(2)
    show "k' \<noteq> h \<and> (\<exists>c. sc_caches (ss_cache S) = Some c \<and> blocks c k' = Some v) \<or>
        k' = h \<and> parse read_block_header (sled_view disk (map_caches (lu_put (lc_blocks A) h block) S) ''blocks'' (as_bytes h)) = Inr (Some v)"
      by (cases "k' = h") (simp_all add: view read)
  qed simp_all
qed (use order_invD(1) [OF inv] in simp)

lemma save_block_inv:
  assumes inv: "order_inv topos hashes blocks disk S" and "block_header_ok block" and new: "has_block_with_hash L A S h = Inr False"
    and run: "save_block C R V L A block stxs d cumulative p h S = (r, S')"
  shows "order_inv topos hashes blocks disk S'"
proof -
  let ?I = "order_inv topos hashes blocks disk" and ?cont = "order_cont topos hashes blocks"
  let ?P = "\<lambda>S :: ('db, 'c) sled_storage. ?I S \<and> unknown blocks h S"
  let ?Q = "\<lambda>S :: ('db, 'c) sled_storage. ?I S \<and> sled_view disk S ''blocks'' (as_bytes h) = Some (to_bytes (write_block_header block))"
  have P: "?P S'" if "?P S" "sled_ok S'" "same_order ?cont disk S S'" for S S' :: "('db, 'c) sled_storage"
  proof -
    have "unknown blocks h S'" using that(1,3) by (cases "sc_caches (ss_cache S)") (auto simp: unknown_def same_order_def order_cont_def)
    with that show ?thesis by (blast intro: order_inv_same)
  qed
  have Q: "?Q S'" if "?Q S" "sled_ok S'" "same_order ?cont disk S S'" for S S' :: "('db, 'c) sled_storage"
    using that order_inv_same by (auto simp: same_order_def order_trees_def)
  note before = steps_quiet [where cont = ?cont and P = ?P, OF _ _ _ P] and after = steps_quiet [where cont = ?cont and P = ?Q, OF _ _ _ Q]
  have insert: "steps ?I ?P (insert_into_disk L ''blocks'' (as_bytes h) (to_bytes (write_block_header block))) ?Q"
    unfolding steps_def
  proof (intro allI impI)
    fix S :: "('db, 'c) sled_storage" assume S: "?P S"
    obtain r S' where m: "insert_into_disk L ''blocks'' (as_bytes h) (to_bytes (write_block_header block)) S = (r, S')"
      by (cases "insert_into_disk L ''blocks'' (as_bytes h) (to_bytes (write_block_header block)) S")
    from insert_block [OF conjunct1 [OF S] conjunct2 [OF S] m]
    show "case insert_into_disk L ''blocks'' (as_bytes h) (to_bytes (write_block_header block)) S of (Inl e, S') \<Rightarrow> ?I S' | (Inr x, S') \<Rightarrow> ?Q S'"
      by (auto simp: m)
  qed
  have put: "steps ?I ?Q (act_modify (map_caches (lu_put (lc_blocks A) h block))) ?I"
    using put_block [OF _ assms(2)] by (simp add: steps_def act_modify_def)
  have tx: "quiet ?cont disk (save_tx C R V L A x n)" for x n
    unfolding save_tx_def add_transaction_def by (cases x) (simp, intro quiet_intros; simp add: order_trees_def)
  have counts: "quiet ?cont disk (store_transactions_count L n)" "quiet ?cont disk (store_blocks_count L n)" for n
    unfolding store_transactions_count_def store_blocks_count_def by (intro quiet_intros; simp add: order_trees_def)+
  have "steps ?I ?P (save_block C R V L A block stxs d cumulative p h) ?I"
    unfolding save_block_def
    by (rule steps_bind [OF before steps_then [OF before steps_bind [OF insert steps_then [OF after steps_then [OF after
        steps_then [OF after steps_then [OF after steps_then [OF after put]]]]]]]])
      (auto simp: order_invD(1) order_trees_def intro!: quiet_intros tx counts)
  from steps_end [OF this _ run] inv new_block_unknown [OF new] show ?thesis by simp
qed

end

section \<open>The storage at work\<close>

text \<open>
  What the daemon does to the storage that concerns the order: it orders blocks and looks them up, begins
  commit points, ends them either way, saves blocks it does not have, deletes blocks from the top and writes
  other trees. A step may fail; the state it leaves is then part of the run.
\<close>

inductive order_step ::
  "('s, 'p) curve \<Rightarrow> ('s, 'p, 't, 'r, 'e) range_lib \<Rightarrow> ('v, 'm) vm_codec \<Rightarrow> 'db sled_lib \<Rightarrow> ('c, ('s, 'v, 'm, 'r) stx) lru_caches \<Rightarrow>
   ('db, 'c) sled_storage \<Rightarrow> ('db, 'c) sled_storage \<Rightarrow> bool"
  for C R V L A where
  order: "hash_ok h \<Longrightarrow> set_topo_height_for_block L A h t S = (r, S') \<Longrightarrow> order_step C R V L A S S'"
| read_topo: "get_topo_height_for_hash L A h S = (r2, S') \<Longrightarrow> order_step C R V L A S S'"
| read_hash_at: "get_hash_at_topo_height L A t S = (r3, S') \<Longrightarrow> order_step C R V L A S S'"
| ask: "is_block_topological_ordered L A h S = (r4, S') \<Longrightarrow> order_step C R V L A S S'"
| begin_commit: "start_commit_point S = (r5, S') \<Longrightarrow> order_step C R V L A S S'"
| end_commit: "end_commit_point L A b S = (r6, S') \<Longrightarrow> order_step C R V L A S S'"
| save: "block_header_ok block \<Longrightarrow> has_block_with_hash L A S h = Inr False \<Longrightarrow>
    save_block C R V L A block stxs d cumulative p h S = (r7, S') \<Longrightarrow> order_step C R V L A S S'"
| delete: "delete_block_at_topoheight C R V L A t S = (r8, S') \<Longrightarrow> order_step C R V L A S S'"
| put: "tr \<notin> order_trees \<Longrightarrow> run_change L (Put tr k v) S = (r9, S') \<Longrightarrow> order_step C R V L A S S'"
| del: "tr \<notin> order_trees \<Longrightarrow> run_change L (Del tr k) S = (r10, S') \<Longrightarrow> order_step C R V L A S S'"

context cached_storage
begin

lemma order_step_inv: "order_step C R V L A S S' \<Longrightarrow> order_inv topos hashes blocks disk S \<Longrightarrow> order_inv topos hashes blocks disk S'"
proof (induction rule: order_step.induct)
  case (delete t S r8 S')
  then show ?case using delete_block_keeps [unfolded preserves_def, rule_format, OF delete.prems, of C R V t] by simp
next
  case (put tr k v S r9 S')
  have "quiet (order_cont topos hashes blocks) disk (run_change L (Put tr k v))" using put(1) by (simp add: quiet_intros)
  from quiet_preserves [OF this, unfolded preserves_def, rule_format, OF put.prems] put(2) show ?case by simp
next
  case (del tr k S r10 S')
  have "quiet (order_cont topos hashes blocks) disk (run_change L (Del tr k))" using del(1) by (simp add: quiet_intros)
  from quiet_preserves [OF this, unfolded preserves_def, rule_format, OF del.prems] del(2) show ?case by simp
next
  case (ask h S r4 S')
  from is_ordered_exact [OF ask.prems ask(1)] show ?case by simp
qed (rule set_topo_inv get_topo_exact(3) get_hash_exact(3) commit_point_inv save_block_inv; assumption)+

lemma order_run_inv:
  assumes "(order_step C R V L A)\<^sup>*\<^sup>* S0 S" "order_inv topos hashes blocks disk S0"
  shows "order_inv topos hashes blocks disk S"
  using assms by (induction rule: rtranclp_induct) (blast intro: order_step_inv)+

lemma ordered_after:
  assumes inv: "order_inv topos hashes blocks disk S" and "hash_ok h" and run: "set_topo_height_for_block L A h t S = (r, S')"
  shows "r = Inr ()" "ordered (sled_view disk S') h' \<longleftrightarrow> h' = h \<or> ordered (sled_view disk S) h' \<and> topo_of (sled_view disk S) h' \<noteq> Some t"
proof -
  obtain S'' where S'': "set_topo_height_for_block L A h t S = (Inr (), S'')"
    "sled_view disk S'' = (sled_view disk S)(''topo_by_hash'' := (sled_view disk S ''topo_by_hash'')(as_bytes h \<mapsto> to_be_bytes t),
       ''hash_at_topo'' := (sled_view disk S ''hash_at_topo'')(to_be_bytes t \<mapsto> as_bytes h))"
    by (rule set_topo_state [OF order_invD(1) [OF inv]]) (rule that)
  have S': "S' = S''" using run S''(1) by simp
  show "r = Inr ()" using run S''(1) by simp
  have "topo_of (sled_view disk S') k = (if k = h then Some t else topo_of (sled_view disk S) k)" for k
    using injD [OF inj_keys(1), of k h] by (auto simp: topo_of_def S' S''(2) parse_written)
  moreover have "hash_at (sled_view disk S') n = (if n = t then Some h else hash_at (sled_view disk S) n)" for n
    using injD [OF inj_keys(2), of n t] by (auto simp: hash_at_def S' S''(2) parse_written assms(2))
  ultimately show "ordered (sled_view disk S') h' \<longleftrightarrow> h' = h \<or> ordered (sled_view disk S) h' \<and> topo_of (sled_view disk S) h' \<noteq> Some t"
    by (auto simp: ordered_def)
qed

end

section \<open>A cache in memory\<close>

text \<open>Caches kept as lists with the entry used last in front, cut to a capacity.\<close>

definition list_lru :: "nat \<Rightarrow> ('c \<Rightarrow> ('k \<times> 'v) list) \<Rightarrow> ((('k \<times> 'v) list \<Rightarrow> ('k \<times> 'v) list) \<Rightarrow> 'c \<Rightarrow> 'c) \<Rightarrow> ('c, 'k, 'v) lru" where
  "list_lru capacity entries change =
     \<lparr>lu_get = (\<lambda>k c. case map_of (entries c) k of
         Some v \<Rightarrow> (Some v, change (\<lambda>es. (k, v) # filter (\<lambda>e. fst e \<noteq> k) es) c) | None \<Rightarrow> (None, c)),
      lu_put = (\<lambda>k v. change (\<lambda>es. take capacity ((k, v) # filter (\<lambda>e. fst e \<noteq> k) es))),
      lu_pop = (\<lambda>k c. (map_of (entries c) k, change (filter (\<lambda>e. fst e \<noteq> k)) c)),
      lu_contains = (\<lambda>k c. map_of (entries c) k \<noteq> None),
      lu_clear = change (\<lambda>_. [])\<rparr>"

record 'tx mem_caches =
  mc_transactions :: "(hash \<times> 'tx) list"
  mc_blocks :: "(hash \<times> block_header) list"
  mc_topo_by_hash :: "(hash \<times> topoheight) list"
  mc_hash_at_topo :: "(topoheight \<times> hash) list"
  mc_cumulative_difficulty :: "(hash \<times> cumulative_difficulty) list"
  mc_assets :: "(hash \<times> topoheight) list"

definition list_caches :: "nat \<Rightarrow> ('tx mem_caches, 'tx) lru_caches" where
  "list_caches capacity =
     \<lparr>lc_transactions = list_lru capacity mc_transactions mc_transactions_update, lc_blocks = list_lru capacity mc_blocks mc_blocks_update,
      lc_topo_by_hash = list_lru capacity mc_topo_by_hash mc_topo_by_hash_update,
      lc_hash_at_topo = list_lru capacity mc_hash_at_topo mc_hash_at_topo_update,
      lc_cumulative_difficulty = list_lru capacity mc_cumulative_difficulty mc_cumulative_difficulty_update,
      lc_assets = list_lru capacity mc_assets mc_assets_update\<rparr>"

lemma map_of_without: "map_of (filter (\<lambda>e. fst e \<noteq> k) es) = (map_of es)(k := None)"
  by (induction es) auto

lemma map_of_take: "map_of (take n es) k = None \<or> map_of (take n es) k = map_of es k"
proof -
  have "map_of es = map_of (drop n es) ++ map_of (take n es)" by (metis append_take_drop_id map_of_append)
  then show ?thesis by (cases "map_of (take n es) k") simp_all
qed

lemma list_lru_laws:
  assumes "\<And>f c. entries (change f c) = f (entries c)" "\<And>f c. rest (change f c) = rest c"
  shows "lru_laws (list_lru n entries change) (\<lambda>c. map_of (entries c)) rest"
proof
  show "lu_get (list_lru n entries change) k c = (v, c') \<Longrightarrow>
      v = map_of (entries c) k \<and> map_of (entries c') = map_of (entries c) \<and> rest c' = rest c" for k c v c'
    by (auto simp: list_lru_def assms map_of_without fun_upd_idem split: option.splits)
  show "map_of (entries (lu_put (list_lru n entries change) k x c)) k' = None \<or>
      map_of (entries (lu_put (list_lru n entries change) k x c)) k' = ((map_of (entries c))(k \<mapsto> x)) k'" for k x c k'
    using map_of_take [of n "(k, x) # filter (\<lambda>e. fst e \<noteq> k) (entries c)" k'] by (simp add: list_lru_def assms map_of_without)
qed (auto simp: list_lru_def assms map_of_without)

interpretation mem_order: cached_storage mem_lib mem_disk "list_caches n" "\<lambda>c. map_of (mc_transactions c)" "\<lambda>c. map_of (mc_blocks c)"
  "\<lambda>c. map_of (mc_topo_by_hash c)" "\<lambda>c. map_of (mc_hash_at_topo c)" "\<lambda>c. map_of (mc_cumulative_difficulty c)" "\<lambda>c. map_of (mc_assets c)" for n
  unfolding cached_storage_def storage_caches_def list_caches_def
  by (intro conjI mem.sled_db_axioms) (simp, rule list_lru_laws; simp)+

section \<open>The order is read back exactly\<close>

text \<open>A storage as it is opened: no commit point, and caches that hold nothing yet, if there are caches.\<close>

definition just_opened :: "('c \<Rightarrow> hash \<Rightarrow> topoheight option) \<Rightarrow> ('c \<Rightarrow> topoheight \<Rightarrow> hash option) \<Rightarrow> ('c \<Rightarrow> hash \<Rightarrow> block_header option) \<Rightarrow>
   ('db, 'c) sled_storage \<Rightarrow> bool" where
  "just_opened topos hashes blocks S \<longleftrightarrow> ss_snapshot S = None \<and>
     (\<forall>c. sc_caches (ss_cache S) = Some c \<longrightarrow> topos c = Map.empty \<and> hashes c = Map.empty \<and> blocks c = Map.empty)"

lemma just_opened_inv: "just_opened topos hashes blocks S \<Longrightarrow> order_inv topos hashes blocks disk S"
  by (simp add: just_opened_def order_inv_def cache_sound_def sled_ok_def)

text \<open>
  C11. Whatever the daemon did to the storage since it was opened (blocks ordered, looked up, saved and
  deleted, commit points begun, applied and discarded, other trees written, with or without caches of any
  capacity, each step failing or not), \<open>is_block_topological_ordered\<close> answers what the trees under the
  snapshot say: that the block's topoheight is recorded and that the topoheight belongs to the block. And
  ordering a block succeeds, after which exactly that block and the blocks ordered before at another
  topoheight are reported as ordered: the block that had the topoheight no longer is.
\<close>

theorem order_reads_exact:
  assumes "cached_storage L disk A txs blocks topos hashes cumulatives assets" "just_opened topos hashes blocks S0"
    and "(order_step C R V L A)\<^sup>*\<^sup>* S0 S" "hash_ok h" "set_topo_height_for_block L A h t S = (r, S')"
  shows "fst (is_block_topological_ordered L A h' S) = Inr (ordered (sled_view disk S) h') \<and> r = Inr () \<and>
     fst (is_block_topological_ordered L A h' S') =
       Inr (h' = h \<or> ordered (sled_view disk S) h' \<and> topo_of (sled_view disk S) h' \<noteq> Some t)"
proof -
  note inv = cached_storage.order_run_inv [OF assms(1,3) just_opened_inv [OF assms(2)]]
  note inv' = cached_storage.set_topo_inv [OF assms(1) inv assms(4,5)] and after = cached_storage.ordered_after [OF assms(1) inv assms(4,5)]
  note asked = cached_storage.is_ordered_exact [OF assms(1) inv surjective_pairing [of "is_block_topological_ordered L A h' S"]]
    and asked' = cached_storage.is_ordered_exact [OF assms(1) inv' surjective_pairing [of "is_block_topological_ordered L A h' S'"]]
  from asked asked' after show ?thesis by simp
qed

definition cached_empty :: "(mem_db, 'tx mem_caches) sled_storage" where
  "cached_empty = \<lparr>ss_network = Mainnet, ss_db = (\<lambda>_. []), ss_cache = \<lparr>sc_counter = counter_cache_default,
     sc_caches = Some \<lparr>mc_transactions = [], mc_blocks = [], mc_topo_by_hash = [], mc_hash_at_topo = [], mc_cumulative_difficulty = [], mc_assets = []\<rparr>\<rparr>,
     ss_snapshot = None\<rparr>"

definition block_a :: hash where
  "block_a = Hash (replicate 32 1)"

definition block_b :: hash where
  "block_b = Hash (replicate 32 2)"

text \<open>A block is ordered at topoheight 5 and, in a commit point, another takes its place.\<close>

theorem order_reads_exact_witness:
  "\<exists>S1 S2 S3. set_topo_height_for_block mem_lib (list_caches 2) block_a 5 cached_empty = (Inr (), S1) \<and>
     start_commit_point S1 = (Inr (), S2) \<and> set_topo_height_for_block mem_lib (list_caches 2) block_b 5 S2 = (Inr (), S3) \<and>
     fst (is_block_topological_ordered mem_lib (list_caches 2 :: (_, (gf3, u8, u8, u8 list) stx) lru_caches) block_a S3) = Inr False \<and>
     fst (is_block_topological_ordered mem_lib (list_caches 2) block_b S3) = Inr True"
proof -
  let ?A = "list_caches 2 :: (_, (gf3, u8, u8, u8 list) stx) lru_caches" and ?S0 = "cached_empty :: (mem_db, (gf3, u8, u8, u8 list) stx mem_caches) sled_storage"
  have ok: "hash_ok block_a" "hash_ok block_b" by (simp_all add: hash_ok_def HASH_SIZE_def block_a_def block_b_def)
  have opened: "just_opened (\<lambda>c. map_of (mc_topo_by_hash c)) (\<lambda>c. map_of (mc_hash_at_topo c)) (\<lambda>c. map_of (mc_blocks c)) ?S0"
    by (simp add: just_opened_def cached_empty_def)
  obtain r1 S1 where 1: "set_topo_height_for_block mem_lib ?A block_a 5 ?S0 = (r1, S1)" by fastforce
  obtain r2 S2 where 2: "start_commit_point S1 = (r2, S2)" by fastforce
  obtain r3 S3 where 3: "set_topo_height_for_block mem_lib ?A block_b 5 S2 = (r3, S3)" by fastforce
  have "order_step gf3_curve bytes_range byte_vm mem_lib ?A ?S0 S1" "order_step gf3_curve bytes_range byte_vm mem_lib ?A S1 S2"
    by (rule order_step.order [OF ok(1) 1], rule order_step.begin_commit [OF 2])
  then have run: "(order_step gf3_curve bytes_range byte_vm mem_lib ?A)\<^sup>*\<^sup>* ?S0 S2" by simp
  have s1: "r1 = Inr ()" "ss_snapshot S1 = None" "sled_view mem_disk S1 ''topo_by_hash'' (as_bytes block_a) = Some (to_be_bytes (5 :: u64))"
    using 1 by (auto simp: set_topo_height_for_block_def insert_into_disk_def on_db_def act_then_def act_bind_def act_modify_def cached_empty_def mem_lib_def
        sled_view_def mem_disk_def)
  then have s2: "r2 = Inr ()" "topo_of (sled_view mem_disk S2) block_a = Some 5"
    using 2 by (auto simp: start_commit_point_def sled_view_def overlay_def snapshot_new_def sn_contains_key_def topo_of_def parse_written)
  note exact = order_reads_exact [OF mem_order.cached_storage_axioms opened run ok(2) 3]
  from exact [of block_a] exact [of block_b] s1(1) s2 1 2 3 show ?thesis
    by (intro exI [of _ S1] exI [of _ S2] exI [of _ S3]) (simp add: block_a_def block_b_def)
qed

end
