(* ===== verification/ChainState.thy ===== *)
theory ChainState
  imports ChainStore
begin

text \<open>
  The state transactions of a block are verified and executed against
  (\<open>daemon/src/core/state/chain_state/mod.rs\<close>): versioned receiver balances, and for every sender its
  nonce, its multisig setting and an exchange for each asset it spends, which holds the balance the
  proofs are checked against and the sum of what was spent. The theory implements the trait
  \<open>BlockchainVerificationState\<close> and shows that it keeps the contract \<open>tx_state\<close>.
\<close>

section \<open>State\<close>

record 'p echange =
  ex_allow_output_balance :: bool
  ex_new_version :: bool
  ex_version :: "'p versioned_balance"
  ex_output_sum :: "'p ciphertext"
  ex_output_balance_used :: bool

definition echange_new :: "bool \<Rightarrow> bool \<Rightarrow> 'p::ab_group_add versioned_balance \<Rightarrow> 'p echange" where
  "echange_new allow_output_balance new_version version = \<lparr>ex_allow_output_balance = allow_output_balance,
     ex_new_version = new_version, ex_version = version, ex_output_sum = ciphertext_zero, ex_output_balance_used = False\<rparr>"

text \<open>The cache \<open>get_balance\<close> refers to, the flag it sets, and a store through the reference.\<close>

definition echange_get_balance :: "'p echange \<Rightarrow> 'p ciphertext_cache \<times> 'p echange" where
  "echange_get_balance ex =
     (let output = ex_output_balance_used ex \<or> ex_allow_output_balance ex;
          (ct, used) = select_balance output (ex_version ex)
      in (ct, if \<not> ex_output_balance_used ex then ex\<lparr>ex_output_balance_used := used\<rparr> else ex))"

definition echange_put_balance :: "'p ciphertext_cache \<Rightarrow> 'p echange \<Rightarrow> 'p echange" where
  "echange_put_balance cache ex =
     (if snd (select_balance (ex_output_balance_used ex \<or> ex_allow_output_balance ex) (ex_version ex))
      then ex\<lparr>ex_version := ex_version ex\<lparr>vb_output_balance := Some cache\<rparr>\<rparr>
      else ex\<lparr>ex_version := ex_version ex\<lparr>vb_final_balance := cache\<rparr>\<rparr>)"

definition add_output_to_sum :: "'p::ab_group_add ciphertext \<Rightarrow> 'p echange \<Rightarrow> 'p echange" where
  "add_output_to_sum output ex = ex\<lparr>ex_output_sum := ciphertext_add (ex_output_sum ex) output\<rparr>"

record 'p account =
  ca_nonce :: versioned_nonce
  ca_assets :: "(hash \<times> 'p echange) list"
  ca_multisig :: "(versioned_state \<times> multisig_payload option) option"

type_synonym 'p versioned_balances = "(hash \<times> 'p versioned_balance) list"

record ('S, 'p, 'm, 'env) chain_state =
  ch_storage :: 'S
  ch_environment :: 'env
  ch_receiver_balances :: "(public_key \<times> 'p versioned_balances) list"
  ch_accounts :: "(public_key \<times> 'p account) list"
  ch_stable_topoheight :: topoheight
  ch_topoheight :: topoheight
  ch_contracts :: "(hash \<times> versioned_state \<times> 'm option) list"
  ch_block_version :: block_version
  ch_gas_fee :: u64

definition chain_state_with ::
  "'S \<Rightarrow> 'env \<Rightarrow> topoheight \<Rightarrow> topoheight \<Rightarrow> block_version \<Rightarrow> ('S, 'p, 'm, 'env) chain_state" where
  "chain_state_with storage environment stable_topo topoheight block_version =
     \<lparr>ch_storage = storage, ch_environment = environment, ch_receiver_balances = [], ch_accounts = [],
      ch_stable_topoheight = stable_topo, ch_topoheight = topoheight, ch_contracts = [],
      ch_block_version = block_version, ch_gas_fee = 0\<rparr>"

definition get_gas_fee :: "('S, 'p, 'm, 'env) chain_state \<Rightarrow> u64" where
  "get_gas_fee st = ch_gas_fee st"

definition get_sender_balances :: "('S, 'p, 'm, 'env) chain_state \<Rightarrow> public_key \<Rightarrow> 'p versioned_balances option" where
  "get_sender_balances st key =
     map_option (\<lambda>account. map (\<lambda>(k, v). (k, ex_version v)) (ca_assets account)) (map_of (ch_accounts st) key)"

definition ch_put_account ::
  "public_key \<Rightarrow> 'p account \<Rightarrow> ('S, 'p, 'm, 'env) chain_state \<Rightarrow> ('S, 'p, 'm, 'env) chain_state" where
  "ch_put_account k account st = st\<lparr>ch_accounts := map_insert k account (ch_accounts st)\<rparr>"

section \<open>Loading\<close>

definition create_sender_echange ::
  "('S, 'p::ab_group_add, 'v, 'm) storage_ops \<Rightarrow> 'S \<Rightarrow> public_key \<Rightarrow> hash \<Rightarrow> topoheight \<Rightarrow> reference \<Rightarrow> 'p echange store_result" where
  "create_sender_echange D S key asset current_topoheight reference =
     and_then (search_versioned_balance_for_reference D S key asset current_topoheight reference True)
       (\<lambda>(use_output_balance, new_version, version). Inr (echange_new use_output_balance new_version version))"

definition create_sender_account ::
  "('S, 'p, 'v, 'm) storage_ops \<Rightarrow> public_key \<Rightarrow> 'S \<Rightarrow> topoheight \<Rightarrow> 'p account store_result" where
  "create_sender_account D key S topoheight =
     and_then (so_get_nonce_at_maximum_topoheight D S key topoheight) (\<lambda>r.
     and_then (ok_or (UnknownAccount key) r) (\<lambda>(topo, version).
     and_then (so_get_multisig_at_maximum_topoheight_for D S key topoheight) (\<lambda>multisig.
     Inr \<lparr>ca_nonce = version\<lparr>vn_previous_topoheight := Some topo\<rparr>, ca_assets = [],
       ca_multisig = (case multisig of None \<Rightarrow> None
         | Some (topo, multisig) \<Rightarrow> map_option (\<lambda>m. (FetchedAt topo, Some m)) (vd_data multisig))\<rparr>)))"

section \<open>Receiver balances\<close>

definition ch_receiver_entry :: "public_key \<Rightarrow> ('S, 'p, 'm, 'env) chain_state \<Rightarrow> 'p versioned_balances" where
  "ch_receiver_entry k st = (case map_of (ch_receiver_balances st) k of None \<Rightarrow> [] | Some m \<Rightarrow> m)"

definition ch_put_version ::
  "public_key \<Rightarrow> hash \<Rightarrow> 'p versioned_balance \<Rightarrow> ('S, 'p, 'm, 'env) chain_state \<Rightarrow> ('S, 'p, 'm, 'env) chain_state" where
  "ch_put_version k asset version st =
     st\<lparr>ch_receiver_balances := map_insert k (map_insert asset version (ch_receiver_entry k st)) (ch_receiver_balances st)\<rparr>"

definition ch_put_receiver_balance ::
  "public_key \<Rightarrow> hash \<Rightarrow> 'p ciphertext \<Rightarrow> ('S, 'p, 'm, 'env) chain_state \<Rightarrow> ('S, 'p, 'm, 'env) chain_state" where
  "ch_put_receiver_balance k asset ct st = (case map_of (ch_receiver_entry k st) asset of None \<Rightarrow> st
     | Some version \<Rightarrow> ch_put_version k asset (version\<lparr>vb_final_balance := set_computable ct (vb_final_balance version)\<rparr>) st)"

definition ch_get_receiver_balance ::
  "('s, 'p) curve \<Rightarrow> ('S, 'p, 'v, 'm) storage_ops \<Rightarrow> public_key \<Rightarrow> hash \<Rightarrow>
   (('S, 'p, 'm, 'env) chain_state, blockchain_error, 'p ciphertext) act" where
  "ch_get_receiver_balance C D k asset st =
     (let st = st\<lparr>ch_receiver_balances := map_insert k (ch_receiver_entry k st) (ch_receiver_balances st)\<rparr> in
      case (case map_of (ch_receiver_entry k st) asset of Some version \<Rightarrow> Inr version
        | None \<Rightarrow> and_then (so_get_new_versioned_balance D (ch_storage st) k asset (ch_topoheight st)) (\<lambda>(version, _). Inr version)) of
        Inl e \<Rightarrow> (Inl e, st)
      | Inr version \<Rightarrow> (case computable C (vb_final_balance version) of
          None \<Rightarrow> (Inl BalanceDecompression, ch_put_version k asset version st)
        | Some (cache, ct) \<Rightarrow> (Inr ct, ch_put_version k asset (version\<lparr>vb_final_balance := cache\<rparr>) st)))"

definition reward_miner ::
  "('s::field, 'p::ab_group_add) curve \<Rightarrow> ('S, 'p, 'v, 'm) storage_ops \<Rightarrow> public_key \<Rightarrow> u64 \<Rightarrow>
   (('S, 'p, 'm, 'env) chain_state, blockchain_error, unit) act" where
  "reward_miner C D miner reward =
     act_bind (ch_get_receiver_balance C D miner TERMINOS_ASSET) (\<lambda>miner_balance.
     act_modify (ch_put_receiver_balance miner TERMINOS_ASSET (ciphertext_add_u64 C miner_balance reward)))"

section \<open>Sender balances\<close>

definition ch_put_echange ::
  "public_key \<Rightarrow> 'p account \<Rightarrow> hash \<Rightarrow> 'p echange \<Rightarrow> ('S, 'p, 'm, 'env) chain_state \<Rightarrow> ('S, 'p, 'm, 'env) chain_state" where
  "ch_put_echange k account asset ex st = ch_put_account k (account\<lparr>ca_assets := map_insert asset ex (ca_assets account)\<rparr>) st"

text \<open>\<open>get_balance().computable()\<close> on an exchange that is in the state by then.\<close>

definition ch_use_echange ::
  "('s, 'p) curve \<Rightarrow> public_key \<Rightarrow> 'p account \<Rightarrow> hash \<Rightarrow> 'p echange \<Rightarrow>
   (('S, 'p, 'm, 'env) chain_state, blockchain_error, 'p ciphertext) act" where
  "ch_use_echange C k account asset ex st =
     (let (cache, ex) = echange_get_balance ex in
      case computable C cache of
        None \<Rightarrow> (Inl BalanceDecompression, ch_put_echange k account asset ex st)
      | Some (cache, ct) \<Rightarrow> (Inr ct, ch_put_echange k account asset (echange_put_balance cache ex) st))"

definition ch_get_sender_balance ::
  "('s, 'p::ab_group_add) curve \<Rightarrow> ('S, 'p, 'v, 'm) storage_ops \<Rightarrow> public_key \<Rightarrow> hash \<Rightarrow> reference \<Rightarrow>
   (('S, 'p, 'm, 'env) chain_state, blockchain_error, 'p ciphertext) act" where
  "ch_get_sender_balance C D k asset reference st =
     (let new_echange = create_sender_echange D (ch_storage st) k asset (ch_topoheight st) reference in
      case map_of (ch_accounts st) k of
        Some account \<Rightarrow> (case map_of (ca_assets account) asset of
            Some ex \<Rightarrow> ch_use_echange C k account asset ex st
          | None \<Rightarrow> (case new_echange of Inl e \<Rightarrow> (Inl e, st)
              | Inr ex \<Rightarrow> ch_use_echange C k account asset ex st))
      | None \<Rightarrow> (case create_sender_account D k (ch_storage st) (ch_topoheight st) of Inl e \<Rightarrow> (Inl e, st)
          | Inr account \<Rightarrow> (case new_echange of Inl e \<Rightarrow> (Inl e, st)
              | Inr ex \<Rightarrow> ch_use_echange C k account asset ex st)))"

definition ch_put_sender_balance ::
  "public_key \<Rightarrow> hash \<Rightarrow> 'p ciphertext \<Rightarrow> ('S, 'p, 'm, 'env) chain_state \<Rightarrow> ('S, 'p, 'm, 'env) chain_state" where
  "ch_put_sender_balance k asset ct st = (case map_of (ch_accounts st) k of None \<Rightarrow> st
     | Some account \<Rightarrow> (case map_of (ca_assets account) asset of None \<Rightarrow> st
       | Some ex \<Rightarrow> ch_put_echange k account asset
           (echange_put_balance (set_computable ct (fst (echange_get_balance ex))) ex) st))"

definition ch_add_sender_output ::
  "public_key \<Rightarrow> hash \<Rightarrow> 'p::ab_group_add ciphertext \<Rightarrow> (('S, 'p, 'm, 'env) chain_state, blockchain_error, unit) act" where
  "ch_add_sender_output k asset new_ct st =
     (case map_of (ch_accounts st) k of None \<Rightarrow> (Inl (NoTxSender k), st)
      | Some account \<Rightarrow> (case map_of (ca_assets account) asset of None \<Rightarrow> (Inl (NoTxSender k), st)
        | Some change \<Rightarrow> (Inr (), ch_put_echange k account asset (add_output_to_sum new_ct change) st)))"

section \<open>Accounts\<close>

definition get_internal_account ::
  "('S, 'p, 'v, 'm) storage_ops \<Rightarrow> public_key \<Rightarrow> (('S, 'p, 'm, 'env) chain_state, blockchain_error, 'p account) act" where
  "get_internal_account D k st = (case map_of (ch_accounts st) k of
     Some account \<Rightarrow> (Inr account, st)
   | None \<Rightarrow> (case create_sender_account D k (ch_storage st) (ch_topoheight st) of Inl e \<Rightarrow> (Inl e, st)
       | Inr account \<Rightarrow> (Inr account, ch_put_account k account st)))"

definition ch_get_account_nonce ::
  "('S, 'p, 'v, 'm) storage_ops \<Rightarrow> public_key \<Rightarrow> (('S, 'p, 'm, 'env) chain_state, blockchain_error, u64) act" where
  "ch_get_account_nonce D k = act_bind (get_internal_account D k) (\<lambda>account. ret (vn_nonce (ca_nonce account)))"

definition ch_update_account_nonce ::
  "('S, 'p, 'v, 'm) storage_ops \<Rightarrow> public_key \<Rightarrow> u64 \<Rightarrow> (('S, 'p, 'm, 'env) chain_state, blockchain_error, unit) act" where
  "ch_update_account_nonce D k new_nonce = act_bind (get_internal_account D k) (\<lambda>account.
     act_modify (ch_put_account k (account\<lparr>ca_nonce := ca_nonce account\<lparr>vn_nonce := new_nonce\<rparr>\<rparr>)))"

definition ch_set_multisig_state ::
  "('S, 'p, 'v, 'm) storage_ops \<Rightarrow> public_key \<Rightarrow> multisig_payload \<Rightarrow>
   (('S, 'p, 'm, 'env) chain_state, blockchain_error, unit) act" where
  "ch_set_multisig_state D k payload = act_bind (get_internal_account D k) (\<lambda>account.
     act_modify (ch_put_account k (account\<lparr>ca_multisig :=
       Some (case ca_multisig account of Some (state, _) \<Rightarrow> mark_updated state | None \<Rightarrow> New,
         if is_delete payload then None else Some payload)\<rparr>)))"

definition ch_get_multisig_state ::
  "('S, 'p, 'v, 'm) storage_ops \<Rightarrow> public_key \<Rightarrow> (('S, 'p, 'm, 'env) chain_state, blockchain_error, multisig_payload option) act" where
  "ch_get_multisig_state D k = act_bind (get_internal_account D k) (\<lambda>account.
     ret (case ca_multisig account of None \<Rightarrow> None | Some (_, multisig) \<Rightarrow> multisig))"

section \<open>Contracts\<close>

definition internal_get_versioned_contract ::
  "('S, 'p, 'v, 'm) storage_ops \<Rightarrow> hash \<Rightarrow> (('S, 'p, 'm, 'env) chain_state, blockchain_error, versioned_state \<times> 'm option) act" where
  "internal_get_versioned_contract D h st = (case map_of (ch_contracts st) h of
     Some c \<Rightarrow> (Inr c, st)
   | None \<Rightarrow> (case so_get_contract_at_maximum_topoheight_for D (ch_storage st) h (ch_topoheight st) of
       Inl e \<Rightarrow> (Inl e, st)
     | Inr r \<Rightarrow> let contract = (case r of None \<Rightarrow> (New, None) | Some (topo, v) \<Rightarrow> (FetchedAt topo, vd_data v))
         in (Inr contract, st\<lparr>ch_contracts := map_insert h contract (ch_contracts st)\<rparr>)))"

definition load_versioned_contract ::
  "('S, 'p, 'v, 'm) storage_ops \<Rightarrow> hash \<Rightarrow> (('S, 'p, 'm, 'env) chain_state, blockchain_error, bool) act" where
  "load_versioned_contract D h = act_bind (internal_get_versioned_contract D h) (\<lambda>(_, contract). ret (contract \<noteq> None))"

definition internal_get_contract_module :: "hash \<Rightarrow> ('S, 'p, 'm, 'env) chain_state \<Rightarrow> 'm store_result" where
  "internal_get_contract_module h st =
     and_then (ok_or (UnknownContract h) (map_of (ch_contracts st) h)) (\<lambda>(_, mdl). ok_or (UnknownContract h) mdl)"

definition ch_set_contract_module ::
  "('S, 'p, 'v, 'm) storage_ops \<Rightarrow> hash \<Rightarrow> 'm \<Rightarrow> (('S, 'p, 'm, 'env) chain_state, blockchain_error, unit) act" where
  "ch_set_contract_module D h mdl = act_bind (internal_get_versioned_contract D h) (\<lambda>(state, m).
     if state \<noteq> New then throw ContractAlreadyExists
     else act_modify (\<lambda>st. st\<lparr>ch_contracts := map_insert h (mark_updated state, Some mdl) (ch_contracts st)\<rparr>))"

definition ch_get_contract_module_with_environment ::
  "hash \<Rightarrow> (('S, 'p, 'm, 'env) chain_state, blockchain_error, 'm \<times> 'env) act" where
  "ch_get_contract_module_with_environment h =
     act_query (\<lambda>st. and_then (internal_get_contract_module h st) (\<lambda>mdl. Inr (mdl, ch_environment st)))"

definition chain_ops ::
  "('s, 'p::ab_group_add) curve \<Rightarrow> ('s, 'p, 't, 'r, 'e) range_lib \<Rightarrow> ('v, 'm) vm_codec \<Rightarrow> ('S, 'p, 'v, 'm) storage_ops \<Rightarrow>
   (('S, 'p, 'm, 'env) chain_state, blockchain_error, 's, 'p, 'v, 'm, 'r, 'env) verification_state" where
  "chain_ops C R V D =
     \<lparr>vs_pre_verify_tx = (\<lambda>tx. act_query (\<lambda>st. state_pre_verify_tx D R V (ch_storage st) tx (ch_stable_topoheight st)
        (ch_topoheight st) (ch_block_version st))),
      vs_get_receiver_balance = ch_get_receiver_balance C D,
      vs_put_receiver_balance = ch_put_receiver_balance,
      vs_get_sender_balance = ch_get_sender_balance C D,
      vs_put_sender_balance = ch_put_sender_balance,
      vs_add_sender_output = ch_add_sender_output,
      vs_get_account_nonce = ch_get_account_nonce D,
      vs_update_account_nonce = ch_update_account_nonce D,
      vs_get_block_version = ch_block_version,
      vs_set_multisig_state = ch_set_multisig_state D,
      vs_get_multisig_state = ch_get_multisig_state D,
      vs_get_environment = act_get ch_environment,
      vs_set_contract_module = ch_set_contract_module D,
      vs_load_contract_module = load_versioned_contract D,
      vs_get_contract_module_with_environment = ch_get_contract_module_with_environment\<rparr>"

section \<open>The contract of a verification state\<close>

lemma computable_take: "map_option snd (computable C cache) = take_ciphertext C cache"
  by (cases cache) (auto split: option.split)

lemma computable_stores:
  assumes "computable C cache = Some (cache', ct)"
  shows "take_ciphertext C cache = Some ct" "take_ciphertext C cache' = Some ct" "take_ciphertext C (set_computable ct' cache') = Some ct'"
  using assms by (cases cache; auto split: option.splits)+

text \<open>The ciphertext an exchange stands for, and the effect of the two operations on it.\<close>

definition echange_value :: "('s, 'p) curve \<Rightarrow> 'p echange \<Rightarrow> 'p ciphertext option" where
  "echange_value C ex = take_ciphertext C (fst (echange_get_balance ex))"

lemmas echange_defs = echange_get_balance_def echange_put_balance_def select_balance_def

lemma echange_get_put:
  assumes "echange_get_balance ex = (cache, ex')"
  shows "fst (echange_get_balance (echange_put_balance c ex')) = c"
    "ex_output_sum (echange_put_balance c ex') = ex_output_sum ex" "ex_new_version (echange_put_balance c ex') = ex_new_version ex"
  using assms by (auto simp: echange_defs Let_def split: option.splits if_splits)

lemma echange_put_put:
  "fst (echange_get_balance (echange_put_balance c ex)) = c"
  by (auto simp: echange_defs Let_def split: option.splits if_splits)

lemma echange_value_put [simp]: "echange_value C (echange_put_balance c ex) = take_ciphertext C c"
  by (simp add: echange_value_def echange_put_put)

lemma echange_value_add [simp]: "echange_value C (add_output_to_sum ct ex) = echange_value C ex"
  by (simp add: echange_value_def add_output_to_sum_def echange_defs Let_def split: option.split)

definition ch_loaded :: "('S, 'p, 'm, 'env) chain_state \<Rightarrow> public_key \<Rightarrow> bool" where
  "ch_loaded st k \<longleftrightarrow> map_of (ch_accounts st) k \<noteq> None"

definition ch_fixed :: "('S, 'p, 'm, 'env) chain_state \<Rightarrow> 'S \<times> topoheight" where
  "ch_fixed st = (ch_storage st, ch_topoheight st)"

definition ok_of :: "'e + 'a \<Rightarrow> 'a option" where
  "ok_of r = (case r of Inl _ \<Rightarrow> None | Inr x \<Rightarrow> Some x)"

lemma ok_of_simps [simp]: "ok_of (Inr x) = Some x" "ok_of (Inl e) = None"
  by (simp_all add: ok_of_def)

lemma ok_of_iff: "ok_of r = Some x \<longleftrightarrow> r = Inr x"
  by (simp add: ok_of_def split: sum.split)

definition ch_source ::
  "('s, 'p::ab_group_add) curve \<Rightarrow> ('S, 'p, 'v, 'm) storage_ops \<Rightarrow> 'S \<times> topoheight \<Rightarrow> public_key \<Rightarrow> hash \<Rightarrow> reference \<Rightarrow>
   'p ciphertext option" where
  "ch_source C D fx k asset rf =
     Option.bind (ok_of (create_sender_echange D (fst fx) k asset (snd fx) rf)) (echange_value C)"

definition ch_base ::
  "('s, 'p) curve \<Rightarrow> ('S, 'p, 'v, 'm) storage_ops \<Rightarrow> 'S \<times> topoheight \<Rightarrow> public_key \<Rightarrow> hash \<Rightarrow> 'p ciphertext option" where
  "ch_base C D fx k asset = Option.bind (ok_of (so_get_new_versioned_balance D (fst fx) k asset (snd fx)))
     (\<lambda>(version, _). take_ciphertext C (vb_final_balance version))"

text \<open>What the maps hold, as values.\<close>

definition held_balance :: "('s, 'p) curve \<Rightarrow> ('S, 'p, 'm, 'env) chain_state \<Rightarrow> public_key \<Rightarrow> hash \<Rightarrow> 'p ciphertext option option" where
  "held_balance C st k asset =
     map_option (\<lambda>version. take_ciphertext C (vb_final_balance version)) (map_of (ch_receiver_entry k st) asset)"

definition held_source :: "('s, 'p) curve \<Rightarrow> 'p account \<Rightarrow> hash \<Rightarrow> 'p ciphertext option option" where
  "held_source C account asset = map_option (echange_value C) (map_of (ca_assets account) asset)"

lemma use_echange_ok:
  assumes "ch_use_echange C k account asset ex st = (Inr ct, st')"
  obtains ex' where "echange_value C ex = Some ct" "st' = ch_put_echange k account asset ex' st" "echange_value C ex' = Some ct"
    "\<And>ct'. echange_value C (echange_put_balance (set_computable ct' (fst (echange_get_balance ex'))) ex') = Some ct'"
proof -
  obtain cache ex1 cache' where "echange_get_balance ex = (cache, ex1)" "computable C cache = Some (cache', ct)"
    "st' = ch_put_echange k account asset (echange_put_balance cache' ex1) st"
    using assms by (auto simp: ch_use_echange_def Let_def split: prod.splits option.splits)
  with computable_stores [of C cache cache' ct] show thesis
    by (intro that [of "echange_put_balance cache' ex1"]) (simp_all add: echange_value_def echange_put_put)
qed

lemma use_echange_peek: "act_peek (ch_use_echange C k account asset ex) st = echange_value C ex"
  by (auto simp: act_peek_def ch_use_echange_def Let_def echange_value_def split: prod.splits option.splits
      simp flip: computable_take)

lemma ch_sender_at:
  assumes "map_of (ch_accounts st) k = Some account"
  shows "sender_at (chain_ops C R V D) st k asset rf =
     (case held_source C account asset of Some v \<Rightarrow> v | None \<Rightarrow> ch_source C D (ch_fixed st) k asset rf)"
proof -
  have "sender_at (chain_ops C R V D) st k asset rf = (case map_of (ca_assets account) asset of
      Some ex \<Rightarrow> act_peek (ch_use_echange C k account asset ex) st
    | None \<Rightarrow> (case create_sender_echange D (ch_storage st) k asset (ch_topoheight st) rf of Inl e \<Rightarrow> None
        | Inr ex \<Rightarrow> act_peek (ch_use_echange C k account asset ex) st))"
    using assms by (simp add: sender_at_def chain_ops_def act_peek_def ch_get_sender_balance_def Let_def split: option.split sum.split)
  then show ?thesis
    by (simp add: use_echange_peek held_source_def ch_source_def ch_fixed_def ok_of_def split: option.split sum.split)
qed

lemma ch_nonce_at: "map_of (ch_accounts st) k = Some account \<Longrightarrow> nonce_at (chain_ops C R V D) st k = Some (vn_nonce (ca_nonce account))"
  by (simp add: nonce_at_def chain_ops_def act_peek_def ch_get_account_nonce_def get_internal_account_def act_defs)

lemma ch_multisig_at:
  "map_of (ch_accounts st) k = Some account \<Longrightarrow> multisig_at (chain_ops C R V D) st k =
     Some (case ca_multisig account of None \<Rightarrow> None | Some (_, multisig) \<Rightarrow> multisig)"
  by (simp add: multisig_at_def chain_ops_def act_peek_def ch_get_multisig_state_def get_internal_account_def act_defs)

lemmas ch_views = ch_sender_at ch_nonce_at ch_multisig_at

lemma ch_receiver_entry_touch [simp]:
  "ch_receiver_entry j (st\<lparr>ch_receiver_balances := map_insert k (ch_receiver_entry k st) (ch_receiver_balances st)\<rparr>) = ch_receiver_entry j st"
  by (simp add: ch_receiver_entry_def)

lemma ch_receiver_at:
  "receiver_at (chain_ops C R V D) st k asset = (case held_balance C st k asset of Some v \<Rightarrow> v | None \<Rightarrow> ch_base C D (ch_fixed st) k asset)"
  by (auto simp: receiver_at_def chain_ops_def act_peek_def ch_get_receiver_balance_def Let_def held_balance_def ch_base_def ch_fixed_def
      and_then_def ok_of_def split: option.split sum.split prod.split simp flip: computable_take)

lemma ch_put_account_simps [simp]:
  "map_of (ch_accounts (ch_put_account k a st)) = (map_of (ch_accounts st))(k \<mapsto> a)"
  "ch_fixed (ch_put_account k a st) = ch_fixed st" "held_balance C (ch_put_account k a st) = held_balance C st"
  by (simp_all add: ch_put_account_def ch_fixed_def held_balance_def ch_receiver_entry_def fun_eq_iff)

lemma ch_put_version_simps [simp]:
  "ch_accounts (ch_put_version k asset v st) = ch_accounts st" "ch_fixed (ch_put_version k asset v st) = ch_fixed st"
  "held_balance C (ch_put_version k asset v st) =
     (held_balance C st)(k := (held_balance C st k)(asset := Some (take_ciphertext C (vb_final_balance v))))"
  by (auto simp: ch_put_version_def ch_fixed_def held_balance_def ch_receiver_entry_def fun_eq_iff)

lemma ch_receiver_cong:
  "ch_fixed st' = ch_fixed st \<Longrightarrow> held_balance C st' = held_balance C st \<Longrightarrow>
     receiver_at (chain_ops C R V D) st' = receiver_at (chain_ops C R V D) st"
  by (simp add: fun_eq_iff ch_receiver_at cong: option.case_cong)

lemma ch_receiver_upd:
  "ch_fixed st' = ch_fixed st \<Longrightarrow> held_balance C st' = (held_balance C st)(k := (held_balance C st k)(asset := Some (Some ct))) \<Longrightarrow>
     receiver_at (chain_ops C R V D) st' =
       (receiver_at (chain_ops C R V D) st)(k := (receiver_at (chain_ops C R V D) st k)(asset := Some ct))"
  by (simp add: fun_eq_iff ch_receiver_at cong: option.case_cong)

lemma ch_keeps:
  assumes "ch_fixed st' = ch_fixed st" "\<And>k. k \<in> ks \<Longrightarrow> ch_loaded st k \<Longrightarrow> map_of (ch_accounts st') k = map_of (ch_accounts st) k"
    "\<And>k. ch_loaded st k \<Longrightarrow> ch_loaded st' k"
  shows "keeps_accounts (chain_ops C R V D) ch_loaded ks st st'"
  unfolding keeps_accounts_def
proof (intro allI impI conjI)
  fix k assume l: "ch_loaded st k"
  then show "ch_loaded st' k" by (rule assms(3))
  assume "k \<in> ks"
  with assms(2) [OF this l] l obtain account where acc: "map_of (ch_accounts st) k = Some account" "map_of (ch_accounts st') k = Some account"
    by (auto simp: ch_loaded_def)
  show "nonce_at (chain_ops C R V D) st' k = nonce_at (chain_ops C R V D) st k"
    "multisig_at (chain_ops C R V D) st' k = multisig_at (chain_ops C R V D) st k"
    "sender_at (chain_ops C R V D) st' k = sender_at (chain_ops C R V D) st k"
    by (simp_all add: ch_views [OF acc(1)] ch_views [OF acc(2)] fun_eq_iff assms(1) cong: option.case_cong)
qed

lemma ch_same:
  assumes "ch_accounts st' = ch_accounts st" "ch_fixed st' = ch_fixed st" "held_balance C st' = held_balance C st"
  shows "same_view (chain_ops C R V D) ch_loaded st st'"
  unfolding same_view_def using assms by (auto intro!: ch_keeps ch_receiver_cong simp: ch_loaded_def)

text \<open>Loading an account and looking at it changes nothing a loaded account sees.\<close>

lemma internal_account_ok:
  assumes "get_internal_account D k st = (Inr account, st')"
  shows "map_of (ch_accounts st') k = Some account" "same_view (chain_ops C R V D) ch_loaded st st'" "ch_loaded st k \<Longrightarrow> st' = st"
proof -
  have new: "st' = st \<and> map_of (ch_accounts st) k = Some account \<or>
      map_of (ch_accounts st) k = None \<and> st' = ch_put_account k account st"
    using assms by (auto simp: get_internal_account_def split: option.splits sum.splits)
  then show "map_of (ch_accounts st') k = Some account" "ch_loaded st k \<Longrightarrow> st' = st" by (auto simp: ch_loaded_def)
  from new show "same_view (chain_ops C R V D) ch_loaded st st'"
    by (auto simp: same_view_def ch_loaded_def intro!: ch_keeps ch_receiver_cong)
qed

lemma ch_account_upd:
  assumes "map_of (ch_accounts st) k = Some account" "st' = ch_put_account k account' st"
  shows "keeps_accounts (chain_ops C R V D) ch_loaded (- {k}) st st'"
    "receiver_at (chain_ops C R V D) st' = receiver_at (chain_ops C R V D) st"
    "nonce_at (chain_ops C R V D) st' k = Some (vn_nonce (ca_nonce account'))"
    "multisig_at (chain_ops C R V D) st' k = Some (case ca_multisig account' of None \<Rightarrow> None | Some (_, multisig) \<Rightarrow> multisig)"
    "sender_at (chain_ops C R V D) st' k asset rf =
       (case held_source C account' asset of Some v \<Rightarrow> v | None \<Rightarrow> ch_source C D (ch_fixed st) k asset rf)"
proof -
  show "keeps_accounts (chain_ops C R V D) ch_loaded (- {k}) st st'"
    by (rule ch_keeps) (auto simp: assms ch_loaded_def)
  show "receiver_at (chain_ops C R V D) st' = receiver_at (chain_ops C R V D) st"
    by (rule ch_receiver_cong) (simp_all add: assms)
  have acc: "map_of (ch_accounts st') k = Some account'" "ch_fixed st' = ch_fixed st" by (simp_all add: assms)
  show "nonce_at (chain_ops C R V D) st' k = Some (vn_nonce (ca_nonce account'))"
    "multisig_at (chain_ops C R V D) st' k = Some (case ca_multisig account' of None \<Rightarrow> None | Some (_, multisig) \<Rightarrow> multisig)"
    "sender_at (chain_ops C R V D) st' k asset rf =
       (case held_source C account' asset of Some v \<Rightarrow> v | None \<Rightarrow> ch_source C D (ch_fixed st) k asset rf)"
    by (simp_all add: ch_views [OF acc(1)] acc(2) cong: option.case_cong)
qed

lemma ch_update_law:
  assumes "act_bind (get_internal_account D k) (\<lambda>account. act_modify (ch_put_account k (f account))) st = (Inr (), st')" "ch_loaded st k"
  obtains account where "map_of (ch_accounts st) k = Some account" "st' = ch_put_account k (f account) st"
  using assms by (auto simp: act_iff ch_loaded_def get_internal_account_def)

text \<open>An exchange that is replaced by one of another value, in an account that is loaded.\<close>

lemma held_source_put [simp]:
  "held_source C (account\<lparr>ca_assets := map_insert asset ex (ca_assets account)\<rparr>) =
     (held_source C account)(asset := Some (echange_value C ex))"
  by (auto simp: held_source_def fun_eq_iff)

lemma ch_get_sender_ok:
  assumes "ch_get_sender_balance C D k asset rf st = (Inr ct, st1)" "map_of (ch_accounts st) k = Some account"
  obtains ex where "sender_at (chain_ops C R V D) st k asset rf = Some ct" "st1 = ch_put_echange k account asset ex st"
    "echange_value C ex = Some ct"
    "\<And>ct'. echange_value C (echange_put_balance (set_computable ct' (fst (echange_get_balance ex))) ex) = Some ct'"
proof -
  from assms obtain ex0 where use: "ch_use_echange C k account asset ex0 st = (Inr ct, st1)"
    by (auto simp: ch_get_sender_balance_def Let_def split: option.splits sum.splits)
  have "sender_at (chain_ops C R V D) st k asset rf = Some ct"
    using assms(1) by (simp add: sender_at_def chain_ops_def act_peek_ok)
  with use_echange_ok [OF use] show thesis using that by metis
qed

lemma ch_sender_put:
  assumes "map_of (ch_accounts st) k = Some account" "st' = ch_put_echange k account asset ex st" "echange_value C ex = Some ct"
  shows "keeps_accounts (chain_ops C R V D) ch_loaded (- {k}) st st' \<and>
    receiver_at (chain_ops C R V D) st' = receiver_at (chain_ops C R V D) st \<and>
    nonce_at (chain_ops C R V D) st' k = nonce_at (chain_ops C R V D) st k \<and>
    multisig_at (chain_ops C R V D) st' k = multisig_at (chain_ops C R V D) st k \<and>
    sender_at (chain_ops C R V D) st' k = (sender_at (chain_ops C R V D) st k)(asset := (\<lambda>_. Some ct))"
  by (simp add: ch_account_upd [OF assms(1) assms(2) [unfolded ch_put_echange_def]] ch_views [OF assms(1)] fun_eq_iff assms(3))

lemma ch_put_echange_twice:
  "map_of (ch_accounts (ch_put_echange k account asset ex st)) k = Some (account\<lparr>ca_assets := map_insert asset ex (ca_assets account)\<rparr>)"
  by (simp add: ch_put_echange_def)

lemma map_insert_again [simp]: "map_insert k v (map_insert k w m) = map_insert k v m"
  by (induction m) auto

lemma ch_put_sender_ok:
  assumes "st1 = ch_put_echange k account asset ex st"
  shows "ch_put_sender_balance k asset ct st1 =
    ch_put_echange k account asset (echange_put_balance (set_computable ct (fst (echange_get_balance ex))) ex) st"
  by (simp add: ch_put_sender_balance_def assms ch_put_echange_twice) (simp add: ch_put_echange_def ch_put_account_def)

lemma ch_get_receiver_ok:
  assumes "ch_get_receiver_balance C D k asset st = (Inr ct, st')"
  obtains version st0 where "st' = ch_put_version k asset version st0" "ch_accounts st0 = ch_accounts st" "ch_fixed st0 = ch_fixed st"
    "held_balance C st0 = held_balance C st" "take_ciphertext C (vb_final_balance version) = Some ct"
    "\<And>ct'. take_ciphertext C (set_computable ct' (vb_final_balance version)) = Some ct'"
proof -
  let ?st = "st\<lparr>ch_receiver_balances := map_insert k (ch_receiver_entry k st) (ch_receiver_balances st)\<rparr>"
  obtain version cache where "computable C (vb_final_balance version) = Some (cache, ct)"
    "st' = ch_put_version k asset (version\<lparr>vb_final_balance := cache\<rparr>) ?st"
    using assms by (auto simp: ch_get_receiver_balance_def Let_def split: sum.splits option.splits prod.splits)
  with computable_stores [of C "vb_final_balance version" cache ct] show thesis
    by (intro that [of "version\<lparr>vb_final_balance := cache\<rparr>" ?st])
      (simp_all add: ch_fixed_def held_balance_def fun_eq_iff)
qed

lemma ch_put_receiver_simps:
  "ch_put_receiver_balance k asset ct (ch_put_version k asset version st) =
     ch_put_version k asset (version\<lparr>vb_final_balance := set_computable ct (vb_final_balance version)\<rparr>) (ch_put_version k asset version st)"
  by (simp add: ch_put_receiver_balance_def ch_put_version_def ch_receiver_entry_def)

lemma ch_put_receiver_law:
  assumes "ch_get_receiver_balance C D k asset st = (Inr ct, st1)" "st' = ch_put_receiver_balance k asset ct' st1"
  shows "keeps_accounts (chain_ops C R V D) ch_loaded UNIV st st' \<and> receiver_at (chain_ops C R V D) st' =
    (receiver_at (chain_ops C R V D) st)(k := (receiver_at (chain_ops C R V D) st k)(asset := Some ct'))"
proof -
  from ch_get_receiver_ok [OF assms(1)] obtain version st0 where st1: "st1 = ch_put_version k asset version st0"
    and st0: "ch_accounts st0 = ch_accounts st" "ch_fixed st0 = ch_fixed st" "held_balance C st0 = held_balance C st"
    "take_ciphertext C (set_computable ct' (vb_final_balance version)) = Some ct'" by metis
  show ?thesis
    by (intro conjI ch_keeps ch_receiver_upd)
      (simp_all add: assms(2) st1 ch_put_receiver_simps st0 ch_loaded_def)
qed

lemma ch_get_receiver_law:
  assumes "ch_get_receiver_balance C D k asset st = (Inr ct, st')"
  shows "same_view (chain_ops C R V D) ch_loaded st st'"
proof -
  from ch_get_receiver_ok [OF assms] obtain version st0 where st': "st' = ch_put_version k asset version st0"
    "ch_accounts st0 = ch_accounts st" "ch_fixed st0 = ch_fixed st" "held_balance C st0 = held_balance C st"
    "take_ciphertext C (vb_final_balance version) = Some ct" by metis
  have "receiver_at (chain_ops C R V D) st k asset = Some ct"
    using assms by (simp add: receiver_at_def chain_ops_def act_peek_ok)
  moreover have "receiver_at (chain_ops C R V D) st' =
      (receiver_at (chain_ops C R V D) st)(k := (receiver_at (chain_ops C R V D) st k)(asset := Some ct))"
    by (rule ch_receiver_upd) (simp_all add: st')
  moreover have "keeps_accounts (chain_ops C R V D) ch_loaded UNIV st st'"
    by (rule ch_keeps) (simp_all add: st' ch_loaded_def)
  ultimately show ?thesis by (auto simp: same_view_def fun_eq_iff)
qed

lemma versioned_contract_view:
  "internal_get_versioned_contract D h st = (Inr c, st') \<Longrightarrow>
     ch_accounts st' = ch_accounts st \<and> ch_fixed st' = ch_fixed st \<and> held_balance C st' = held_balance C st"
  by (auto simp: internal_get_versioned_contract_def Let_def ch_fixed_def held_balance_def ch_receiver_entry_def fun_eq_iff
      split: option.splits sum.splits)

lemma chain_tx_state:
  fixes C :: "('s::field, 'p::ab_group_add) curve" and D :: "('S, 'p, 'v, 'm) storage_ops"
    and R :: "('s, 'p, 't, 'r, 'e) range_lib" and V :: "('v, 'm) vm_codec"
  shows "tx_state (chain_ops C R V D :: (('S, 'p, 'm, 'env) chain_state, blockchain_error, 's, 'p, 'v, 'm, 'r, 'env) verification_state) ch_loaded"
proof (unfold_locales, goal_cases)
  case (2 k st n st')
  then obtain account where acc: "get_internal_account D k st = (Inr account, st')" "n = vn_nonce (ca_nonce account)"
    by (auto simp: chain_ops_def ch_get_account_nonce_def act_iff)
  from internal_account_ok [OF acc(1)] show ?case by (auto simp: acc(2) ch_nonce_at ch_loaded_def)
next
  case (3 k n st st')
  then obtain account where acc: "map_of (ch_accounts st) k = Some account"
    and st': "st' = ch_put_account k (account\<lparr>ca_nonce := ca_nonce account\<lparr>vn_nonce := n\<rparr>\<rparr>) st"
    unfolding chain_ops_def ch_update_account_nonce_def verification_state.simps by (rule ch_update_law)
  show ?case by (simp add: ch_account_upd [OF acc st'] ch_views [OF acc] fun_eq_iff held_source_def)
next
  case (4 k st c st')
  then obtain account where "get_internal_account D k st = (Inr account, st')"
    by (auto simp: chain_ops_def ch_get_multisig_state_def act_iff)
  then show ?case by (rule internal_account_ok(2))
next
  case (5 k p st st')
  then obtain account where acc: "map_of (ch_accounts st) k = Some account"
    and st': "st' = ch_put_account k (account\<lparr>ca_multisig :=
       Some (case ca_multisig account of Some (state, _) \<Rightarrow> mark_updated state | None \<Rightarrow> New,
         if is_delete p then None else Some p)\<rparr>) st"
    unfolding chain_ops_def ch_set_multisig_state_def verification_state.simps by (rule ch_update_law)
  show ?case by (simp add: ch_account_upd [OF acc st'] ch_views [OF acc] fun_eq_iff held_source_def)
next
  case (6 k asset rf st ct st')
  then obtain account where acc: "map_of (ch_accounts st) k = Some account" by (auto simp: ch_loaded_def)
  from 6(1) have "ch_get_sender_balance C D k asset rf st = (Inr ct, st')" by (simp add: chain_ops_def)
  then show ?case using ch_sender_put [OF acc] by (rule ch_get_sender_ok [OF _ acc])
next
  case (7 k asset rf st ct st1 st' ct')
  then obtain account where acc: "map_of (ch_accounts st) k = Some account" by (auto simp: ch_loaded_def)
  from 7(1) have "ch_get_sender_balance C D k asset rf st = (Inr ct, st1)" by (simp add: chain_ops_def)
  from ch_get_sender_ok [OF this acc] obtain ex where st1: "st1 = ch_put_echange k account asset ex st"
    and ex: "echange_value C (echange_put_balance (set_computable ct' (fst (echange_get_balance ex))) ex) = Some ct'" by metis
  have "st' = ch_put_echange k account asset (echange_put_balance (set_computable ct' (fst (echange_get_balance ex))) ex) st"
    using 7(3) ch_put_sender_ok [OF st1] by (simp add: chain_ops_def)
  from ch_sender_put [OF acc this ex] show ?case .
next
  case (8 k asset ct st st')
  then obtain account ex where acc: "map_of (ch_accounts st) k = Some account" "map_of (ca_assets account) asset = Some ex"
    and st': "st' = ch_put_echange k account asset (add_output_to_sum ct ex) st"
    by (auto simp: chain_ops_def ch_add_sender_output_def split: option.splits)
  have "sender_at (chain_ops C R V D) st' k = sender_at (chain_ops C R V D) st k"
    by (simp add: ch_account_upd [OF acc(1) st' [unfolded ch_put_echange_def]] ch_views [OF acc(1)] fun_eq_iff)
      (simp add: held_source_def acc(2))
  moreover note ch_account_upd [OF acc(1) st' [unfolded ch_put_echange_def], of C R V D]
  ultimately show ?case by (auto simp: same_view_def keeps_accounts_def ch_views [OF acc(1)])
next
  case (9 k asset st ct st')
  then show ?case by (intro ch_get_receiver_law) (simp add: chain_ops_def)
next
  case (10 k asset st ct st1 st' ct')
  then show ?case by (intro ch_put_receiver_law) (simp_all add: chain_ops_def)
next
  case (12 h m st st')
  then obtain c st1 where "internal_get_versioned_contract D h st = (Inr c, st1)"
    "st' = st1\<lparr>ch_contracts := map_insert h (mark_updated (fst c), Some m) (ch_contracts st1)\<rparr>"
    by (auto simp: chain_ops_def ch_set_contract_module_def act_iff split: if_splits)
  then show ?case using versioned_contract_view [of D h st c st1 C]
    by (intro ch_same) (auto simp: ch_fixed_def held_balance_def ch_receiver_entry_def fun_eq_iff)
next
  case (13 h st b st')
  then show ?case
    by (intro ch_same) (auto simp: chain_ops_def load_versioned_contract_def act_iff versioned_contract_view)
qed (auto simp: chain_ops_def act_iff ch_get_contract_module_with_environment_def)

interpretation ch: tx_state "chain_ops C R V D" ch_loaded for C R V D
  by (rule chain_tx_state)

end
