(* ===== verification/TxApply.thy ===== *)
theory TxApply
  imports ChainStore Block
begin

text \<open>
  Applying a transaction to the chain (\<open>apply\<close>, \<open>apply_without_verify\<close> and
  \<open>apply_with_partial_verify\<close> of \<open>common/src/transaction/verify/mod.rs\<close>) and the contract calls it
  makes (\<open>verify/contract.rs\<close>). The trait \<open>BlockchainApplyState\<close> is a record whose first field is the
  record of its supertrait. The virtual machine is a parameter: a record of the calls the code makes on
  it, of which \<open>vm_run\<close> may change the contract's view of the chain but only read the storage, whose
  interface to contracts (\<open>ContractProvider\<close>) has no method that writes. The random generator that a
  contract may start belongs to the machine's state.
\<close>

section \<open>The state and the virtual machine\<close>

record ('s, 'v) contract_chain_state =
  cs_debug_mode :: bool
  cs_mainnet :: bool
  cs_contract :: hash
  cs_topoheight :: topoheight
  cs_block_hash :: hash
  cs_block :: block_header
  cs_tx_hash :: hash
  cs_deposits :: "'s deposits"
  cs_cache :: "'v contract_cache"
  cs_outputs :: "contract_output list"
  cs_tracker :: event_tracker
  cs_global_caches :: "(hash \<times> 'v contract_cache) list"
  cs_assets :: "(hash \<times> asset_changes option) list"

datatype invoke_contract_kind = Entry u16 | Hook u8

record ('w, 's, 'v, 'm, 'r, 'env, 'S) vm_lib =
  vm_new :: "'env \<Rightarrow> 'w"
  vm_append_module :: "'m \<Rightarrow> 'w \<Rightarrow> string + 'w"
  vm_invoke_entry_chunk :: "u16 \<Rightarrow> 'w \<Rightarrow> string + 'w"
  vm_invoke_hook_id :: "u8 \<Rightarrow> 'w \<Rightarrow> string + bool \<times> 'w"
  vm_push_stack :: "'v \<Rightarrow> 'w \<Rightarrow> string + 'w"
  vm_set_gas_limit :: "u64 \<Rightarrow> 'w \<Rightarrow> 'w"
  vm_run :: "('s, 'v, 'm, 'r) signed_transaction \<Rightarrow> 'S \<Rightarrow> ('s, 'v) contract_chain_state \<Rightarrow> 'w \<Rightarrow>
    (string + 'v) \<times> ('s, 'v) contract_chain_state \<times> 'w"
  vm_current_gas_usage :: "'w \<Rightarrow> u64"
  vm_as_u64 :: "'v \<Rightarrow> u64 option"

record ('st, 'x, 's, 'p, 'v, 'm, 'r, 'env, 'S) apply_state =
  as_vs :: "('st, 'x, 's, 'p, 'v, 'm, 'r, 'env) verification_state"
  as_add_burned_coins :: "u64 \<Rightarrow> ('st, 'x, unit) act"
  as_add_gas_fee :: "u64 \<Rightarrow> ('st, 'x, unit) act"
  as_get_block :: "'st \<Rightarrow> block_header"
  as_set_contract_outputs :: "hash \<Rightarrow> contract_output list \<Rightarrow> ('st, 'x, unit) act"
  as_get_contract_environment_for ::
    "hash \<Rightarrow> 's deposits \<Rightarrow> hash \<Rightarrow> ('st, 'x, ('env \<times> 'm \<times> 'S) \<times> ('s, 'v) contract_chain_state) act"
  as_merge_contract_changes ::
    "hash \<Rightarrow> 'v contract_cache \<Rightarrow> event_tracker \<Rightarrow> (hash \<times> asset_changes option) list \<Rightarrow> ('st, 'x, unit) act"
  as_remove_contract_module :: "hash \<Rightarrow> ('st, 'x, unit) act"
  as_get_energy_resource :: "public_key \<Rightarrow> ('st, 'x, energy_resource option) act"
  as_set_energy_resource :: "public_key \<Rightarrow> energy_resource \<Rightarrow> ('st, 'x, unit) act"

definition checked_sub :: "u64 \<Rightarrow> u64 \<Rightarrow> u64 option" where
  "checked_sub a b = (if b \<le> a then Some (a - b) else None)"

definition TX_GAS_BURN_PERCENT :: u64 where "TX_GAS_BURN_PERCENT = 30"

text \<open>\<open>*state.get_receiver_balance(key, asset) = f(*...)\<close>\<close>

definition credit_receiver ::
  "('st, 'x, 's, 'p, 'v, 'm, 'r, 'env, 'S) apply_state \<Rightarrow> public_key \<Rightarrow> hash \<Rightarrow>
   ('p ciphertext \<Rightarrow> ('x, 'e) verification_error + 'p ciphertext) \<Rightarrow> ('st, ('x, 'e) verification_error, unit) act" where
  "credit_receiver A key asset f =
     act_bind (on_state (vs_get_receiver_balance (as_vs A) key asset)) (\<lambda>current_balance.
     act_bind (act_lift (f current_balance)) (\<lambda>ct.
     act_modify (vs_put_receiver_balance (as_vs A) key asset ct)))"

section \<open>Contract calls\<close>

text \<open>
  The gas a call paid for: a part of what was used is burned, the rest of it is the miner's, what was
  not used goes back to the sender as incoming funds.
\<close>

definition handle_gas ::
  "('s::field, 'p::ab_group_add) curve \<Rightarrow> ('st, 'x, 's, 'p, 'v, 'm, 'r, 'env, 'S) apply_state \<Rightarrow>
   ('s, 'v, 'm, 'r) signed_transaction \<Rightarrow> u64 \<Rightarrow> u64 \<Rightarrow> ('st, ('x, 'e) verification_error, u64) act" where
  "handle_gas C A tx used_gas max_gas =
     (let burned_gas = used_gas * TX_GAS_BURN_PERCENT div 100 in
      act_bind (act_lift (ok_or GasOverflow (checked_sub used_gas burned_gas))) (\<lambda>gas_fee.
      act_bind (act_lift (ok_or GasOverflow (checked_sub max_gas used_gas))) (\<lambda>refund_gas.
      act_then (on_state (as_add_burned_coins A burned_gas))
      (act_then (on_state (as_add_gas_fee A gas_fee))
      (act_then (if refund_gas > 0
         then credit_receiver A (st_source tx) TERMINOS_ASSET (\<lambda>b. Inr (ciphertext_add_scalar C b (scalar_from refund_gas)))
         else ret ())
      (ret refund_gas))))))"

definition refund_deposits ::
  "('s::field, 'p::ab_group_add) curve \<Rightarrow> ('st, 'x, 's, 'p, 'v, 'm, 'r, 'env, 'S) apply_state \<Rightarrow>
   ('s, 'v, 'm, 'r) signed_transaction \<Rightarrow> 's deposits \<Rightarrow> 'p deposits_ct \<Rightarrow>
   ('st, ('x, 'e) verification_error, unit) act" where
  "refund_deposits C A tx deposits deposits_ct =
     act_each (\<lambda>(asset, deposit). credit_receiver A (st_source tx) asset (\<lambda>balance. case deposit of
       Public coins \<Rightarrow> Inr (ciphertext_add_scalar C balance (scalar_from coins))
     | Private _ _ _ _ \<Rightarrow> (case map_of deposits_ct asset of None \<Rightarrow> Inl DepositNotFound
         | Some ct \<Rightarrow> Inr (ciphertext_add balance \<lparr>commitment = dd_commitment ct, handle = dd_sender_handle ct\<rparr>)))) deposits"

text \<open>The block of \<open>invoke_contract\<close> that runs the machine: the gas it used and the exit code.\<close>

fun push_parameters :: "('w, 's, 'v, 'm, 'r, 'env, 'S) vm_lib \<Rightarrow> 'v list \<Rightarrow> 'w \<Rightarrow> string + 'w" where
  "push_parameters W [] vm = Inr vm"
| "push_parameters W (constant # rest) vm = and_then (vm_push_stack W constant vm) (push_parameters W rest)"

definition start_vm ::
  "('w, 's, 'v, 'm, 'r, 'env, 'S) vm_lib \<Rightarrow> 'env \<Rightarrow> 'm \<Rightarrow> invoke_contract_kind \<Rightarrow> string + bool \<times> 'w" where
  "start_vm W env mdl invoke =
     and_then (vm_append_module W mdl (vm_new W env)) (\<lambda>vm. case invoke of
       Entry entry \<Rightarrow> and_then (vm_invoke_entry_chunk W entry vm) (\<lambda>vm. Inr (True, vm))
     | Hook hook \<Rightarrow> vm_invoke_hook_id W hook vm)"

definition run_contract ::
  "('w, 's, 'v, 'm, 'r, 'env, 'S) vm_lib \<Rightarrow> ('s, 'v, 'm, 'r) signed_transaction \<Rightarrow> 'env \<times> 'm \<times> 'S \<Rightarrow> 'v list \<Rightarrow> u64 \<Rightarrow>
   invoke_contract_kind \<Rightarrow> ('s, 'v) contract_chain_state \<Rightarrow> (string + u64 \<times> u64 option) \<times> ('s, 'v) contract_chain_state" where
  "run_contract W tx ce parameters max_gas invoke cs =
     (let (env, mdl, provider) = ce in
      case start_vm W env mdl invoke of Inl e \<Rightarrow> (Inl e, cs)
      | Inr (False, vm) \<Rightarrow> (Inr (0, None), cs)
      | Inr (True, vm) \<Rightarrow> (case push_parameters W (rev parameters) vm of Inl e \<Rightarrow> (Inl e, cs)
        | Inr vm \<Rightarrow>
            let (res, cs, vm) = vm_run W tx provider cs (vm_set_gas_limit W max_gas vm);
                gas_usage = min (vm_current_gas_usage W vm) max_gas
            in (Inr (gas_usage, (case res of Inl _ \<Rightarrow> None | Inr v \<Rightarrow> vm_as_u64 W v)), cs)))"

definition invoke_contract ::
  "('s::field, 'p::ab_group_add) curve \<Rightarrow> ('w, 's, 'v, 'm, 'r, 'env, 'S) vm_lib \<Rightarrow>
   ('st, 'x, 's, 'p, 'v, 'm, 'r, 'env, 'S) apply_state \<Rightarrow> hash \<Rightarrow> ('s, 'v, 'm, 'r) signed_transaction \<Rightarrow> 'p deposits_ct \<Rightarrow> hash \<Rightarrow>
   's deposits \<Rightarrow> 'v list \<Rightarrow> u64 \<Rightarrow> invoke_contract_kind \<Rightarrow> ('st, ('x, 'e) verification_error, bool) act" where
  "invoke_contract C W A tx_hash tx deposits_ct contract deposits parameters max_gas invoke =
     act_bind (on_state (as_get_contract_environment_for A contract deposits tx_hash)) (\<lambda>(ce, cs).
     let (r, cs) = run_contract W tx ce parameters max_gas invoke cs in
     act_bind (act_lift (map_err AnyError r)) (\<lambda>(used_gas, exit_code).
     let is_success = (exit_code = Some 0) in
     act_bind (if is_success
         then act_then (on_state (as_merge_contract_changes A contract (cs_cache cs) (cs_tracker cs) (cs_assets cs)))
           (ret (cs_outputs cs))
         else if deposits \<noteq> [] then act_then (refund_deposits C A tx deposits deposits_ct) (ret [RefundDeposits])
         else ret []) (\<lambda>outputs.
     act_bind (handle_gas C A tx used_gas max_gas) (\<lambda>refund_gas.
     act_then (on_state (as_set_contract_outputs A tx_hash
       (outputs @ [ExitCode exit_code] @ (if refund_gas > 0 then [RefundGas refund_gas] else []))))
     (ret is_success)))))"

section \<open>Applying a transaction\<close>

text \<open>A transaction of transfers that pays with energy consumes it from the sender's resource.\<close>

definition pay_with_energy ::
  "('s, 'p, 't, 'r, 'e) range_lib \<Rightarrow> ('v, 'm) vm_codec \<Rightarrow> ('st, 'x, 's, 'p, 'v, 'm, 'r, 'env, 'S) apply_state \<Rightarrow>
   ('s, 'v, 'm, 'r) signed_transaction \<Rightarrow> ('st, ('x, 'e) verification_error, unit) act" where
  "pay_with_energy R V A tx = (case st_data tx of
     Transfers _ \<Rightarrow>
       if \<not> is_energy (st_fee_type tx) then ret ()
       else let energy_cost = tx_energy_cost R V tx in
         act_bind (on_state (as_get_energy_resource A (st_source tx))) (\<lambda>energy_resource. case energy_resource of
           Some energy_resource \<Rightarrow>
             if \<not> has_enough_energy energy_resource energy_cost then throw (InsufficientEnergy energy_cost)
             else act_bind (act_lift (map_err (\<lambda>_. InsufficientEnergy energy_cost) (consume_energy energy_cost energy_resource)))
               (\<lambda>energy_resource. on_state (as_set_energy_resource A (st_source tx) energy_resource))
         | None \<Rightarrow> throw (InsufficientEnergy energy_cost))
   | _ \<Rightarrow> ret ())"

fun apply_transfers ::
  "('s, 'p::ab_group_add) curve \<Rightarrow> ('st, 'x, 's, 'p, 'v, 'm, 'r, 'env, 'S) apply_state \<Rightarrow> 's transfer_payload list \<Rightarrow>
   ('st, ('x, 'e) verification_error, unit) act" where
  "apply_transfers C A [] = ret ()"
| "apply_transfers C A (transfer # rest) =
     act_then (credit_receiver A (tr_destination transfer) (tr_asset transfer) (\<lambda>current_balance.
       and_then (map_err Proof (ok_or Decompression (decompress_ciphertext C (tr_get_ciphertext Receiver transfer)))) (\<lambda>receiver_ct.
       Inr (ciphertext_add current_balance receiver_ct))))
     (apply_transfers C A rest)"

text \<open>Freezing and unfreezing; the block's height stands in for its topoheight.\<close>

fun apply_energy ::
  "('st, 'x, 's, 'p, 'v, 'm, 'r, 'env, 'S) apply_state \<Rightarrow> public_key \<Rightarrow> energy_payload \<Rightarrow>
   ('st, ('x, 'e) verification_error, unit) act" where
  "apply_energy A source (FreezeTos coins period) =
     act_bind (on_state (as_get_energy_resource A source)) (\<lambda>energy_resource.
     act_bind (act_get (as_get_block A)) (\<lambda>block.
     let (_, energy_resource) = freeze_tos_for_energy coins period (bh_height block)
           (case energy_resource of Some e \<Rightarrow> e | None \<Rightarrow> energy_resource_new)
     in on_state (as_set_energy_resource A source energy_resource)))"
| "apply_energy A source (UnfreezeTos coins) =
     act_bind (on_state (as_get_energy_resource A source)) (\<lambda>energy_resource. case energy_resource of
       Some energy_resource \<Rightarrow>
         act_bind (act_get (as_get_block A)) (\<lambda>block.
         case unfreeze_tos coins (bh_height block) energy_resource of
           Inl IndexPanic \<Rightarrow> throw Panicked
         | Inl _ \<Rightarrow> throw (AnyError ''Invalid energy operation'')
         | Inr (_, energy_resource) \<Rightarrow> on_state (as_set_energy_resource A source energy_resource))
     | None \<Rightarrow> throw (AnyError ''Invalid energy operation''))"

definition apply_invoke ::
  "('s::field, 'p::ab_group_add) curve \<Rightarrow> ('w, 's, 'v, 'm, 'r, 'env, 'S) vm_lib \<Rightarrow>
   ('st, 'x, 's, 'p, 'v, 'm, 'r, 'env, 'S) apply_state \<Rightarrow> hash \<Rightarrow> ('s, 'v, 'm, 'r) signed_transaction \<Rightarrow> 'p deposits_ct \<Rightarrow>
   ('s, 'v) invoke_contract_payload \<Rightarrow> ('st, ('x, 'e) verification_error, unit) act" where
  "apply_invoke C W A tx_hash tx deposits_ct payload =
     act_bind (is_contract_available (as_vs A) (ic_contract payload)) (\<lambda>available.
     if available then act_then (invoke_contract C W A tx_hash tx deposits_ct (ic_contract payload) (ic_deposits payload)
         (ic_parameters payload) (ic_max_gas payload) (Entry (ic_chunk_id payload))) (ret ())
     else act_then (handle_gas C A tx 0 (ic_max_gas payload)) (refund_deposits C A tx (ic_deposits payload) deposits_ct))"

definition apply_deploy ::
  "('s::field, 'p::ab_group_add) curve \<Rightarrow> ('w, 's, 'v, 'm, 'r, 'env, 'S) vm_lib \<Rightarrow>
   ('st, 'x, 's, 'p, 'v, 'm, 'r, 'env, 'S) apply_state \<Rightarrow> hash \<Rightarrow> ('s, 'v, 'm, 'r) signed_transaction \<Rightarrow> 'p deposits_ct \<Rightarrow>
   ('s, 'm) deploy_contract_payload \<Rightarrow> ('st, ('x, 'e) verification_error, unit) act" where
  "apply_deploy C W A tx_hash tx deposits_ct payload =
     act_then (on_state (vs_set_contract_module (as_vs A) tx_hash (dp_module payload)))
     (case dp_invoke payload of None \<Rightarrow> ret ()
      | Some invoke \<Rightarrow>
          act_bind (invoke_contract C W A tx_hash tx deposits_ct tx_hash (co_deposits invoke) [] (co_max_gas invoke) (Hook 0)) (\<lambda>is_success.
          if \<not> is_success then on_state (as_remove_contract_module A tx_hash) else ret ()))"

definition apply_data ::
  "('s::field, 'p::ab_group_add) curve \<Rightarrow> ('w, 's, 'v, 'm, 'r, 'env, 'S) vm_lib \<Rightarrow>
   ('st, 'x, 's, 'p, 'v, 'm, 'r, 'env, 'S) apply_state \<Rightarrow> hash \<Rightarrow> ('s, 'v, 'm, 'r) signed_transaction \<Rightarrow> 'p deposits_ct \<Rightarrow>
   ('st, ('x, 'e) verification_error, unit) act" where
  "apply_data C W A tx_hash tx deposits_ct = (case st_data tx of
     Transfers transfers \<Rightarrow> apply_transfers C A transfers
   | Burn payload \<Rightarrow> if bn_asset payload = TERMINOS_ASSET then on_state (as_add_burned_coins A (bn_amount payload)) else ret ()
   | MultiSigSetup payload \<Rightarrow> on_state (vs_set_multisig_state (as_vs A) (st_source tx) payload)
   | InvokeContract payload \<Rightarrow> apply_invoke C W A tx_hash tx deposits_ct payload
   | DeployContract payload \<Rightarrow> apply_deploy C W A tx_hash tx deposits_ct payload
   | EnergyOp payload \<Rightarrow> apply_energy A (st_source tx) payload)"

definition apply_tx ::
  "('s::field, 'p::ab_group_add, 't, 'r, 'e, 'v, 'm, 'env) verify_lib \<Rightarrow> ('w, 's, 'v, 'm, 'r, 'env, 'S) vm_lib \<Rightarrow>
   ('st, 'x, 's, 'p, 'v, 'm, 'r, 'env, 'S) apply_state \<Rightarrow> hash \<Rightarrow> ('s, 'v, 'm, 'r) signed_transaction \<Rightarrow> 'p deposits_ct \<Rightarrow>
   ('st, ('x, 'e) verification_error, unit) act" where
  "apply_tx L W A tx_hash tx deposits_ct =
     act_then (on_state (vs_update_account_nonce (as_vs A) (st_source tx) (st_nonce tx + 1)))
     (act_then (pay_with_energy (lib_range L) (lib_codec L) A tx)
     (apply_data (lib_curve L) W A tx_hash tx deposits_ct))"

text \<open>Both ways to apply take the outputs from the sender first.\<close>

fun spend_outputs ::
  "('s::field, 'p::ab_group_add) curve \<Rightarrow> ('st, 'x, 's, 'p, 'v, 'm, 'r, 'env, 'S) apply_state \<Rightarrow>
   ('s, 'v, 'm, 'r) signed_transaction \<Rightarrow> 'p decompressed_transfer_ct list \<Rightarrow> 'p deposits_ct \<Rightarrow> hash list \<Rightarrow>
   ('st, ('x, 'e) verification_error, unit) act" where
  "spend_outputs C A tx transfers_ct deposits_ct [] = ret ()"
| "spend_outputs C A tx transfers_ct deposits_ct (asset # rest) =
     act_bind (on_state (vs_get_sender_balance (as_vs A) (st_source tx) asset (st_reference tx))) (\<lambda>current_source_balance.
     act_bind (or_decompression (get_sender_output_ct C tx asset transfers_ct deposits_ct)) (\<lambda>output.
     act_then (act_modify (vs_put_sender_balance (as_vs A) (st_source tx) asset (ciphertext_sub current_source_balance output)))
     (act_then (on_state (vs_add_sender_output (as_vs A) (st_source tx) asset output))
     (spend_outputs C A tx transfers_ct deposits_ct rest))))"

definition apply_without_verify ::
  "('s::field, 'p::ab_group_add, 't, 'r, 'e, 'v, 'm, 'env) verify_lib \<Rightarrow> ('w, 's, 'v, 'm, 'r, 'env, 'S) vm_lib \<Rightarrow>
   ('st, 'x, 's, 'p, 'v, 'm, 'r, 'env, 'S) apply_state \<Rightarrow> hash \<Rightarrow> ('s, 'v, 'm, 'r) signed_transaction \<Rightarrow>
   ('st, ('x, 'e) verification_error, unit) act" where
  "apply_without_verify L W A tx_hash tx =
     act_bind (or_decompression (decompress_for_apply (lib_curve L) tx)) (\<lambda>(transfers_ct, deposits_ct).
     act_then (spend_outputs (lib_curve L) A tx transfers_ct deposits_ct (map sc_asset (st_source_commitments tx)))
     (apply_tx L W A tx_hash tx deposits_ct))"

text \<open>The partial verification: equality proofs only, against copies of the balances.\<close>

fun check_outputs ::
  "('s::field, 'p::ab_group_add, 't, 'r, 'e, 'v, 'm, 'env) verify_lib \<Rightarrow>
   ('st, 'x, 's, 'p, 'v, 'm, 'r, 'env, 'S) apply_state \<Rightarrow> ('s, 'v, 'm, 'r) signed_transaction \<Rightarrow> 'p \<Rightarrow>
   'p decompressed_transfer_ct list \<Rightarrow> 'p deposits_ct \<Rightarrow> 's source_commitment list \<Rightarrow>
   't \<times> ('s, 'p) sigma \<Rightarrow> ('p ciphertext \<times> 'p ciphertext \<times> hash) list \<Rightarrow>
   ('st, ('x, 'e) verification_error, ('s, 'p) sigma \<times> ('p ciphertext \<times> 'p ciphertext \<times> hash) list) act" where
  "check_outputs L A tx owner transfers_ct deposits_ct [] (t, sigma) acc = ret (sigma, acc)"
| "check_outputs L A tx owner transfers_ct deposits_ct (c # rest) (t, b, rng) acc =
     act_bind (or_decompression (decode_point (lib_curve L) (sc_commitment c))) (\<lambda>new_source_commitment.
     act_bind (or_decompression (get_sender_output_ct (lib_curve L) tx (sc_asset c) transfers_ct deposits_ct)) (\<lambda>output.
     act_bind (on_state (vs_get_sender_balance (as_vs A) (st_source tx) (sc_asset c) (st_reference tx))) (\<lambda>source_ct.
     act_bind (act_lift (map_err Proof (eq_pre_verify (lib_curve L) (lib_merlin L) (sc_proof c) owner
        (ciphertext_sub source_ct output) new_source_commitment (rng 0)
        (commitment_transcript (lib_merlin L) c (compress_ciphertext (lib_curve L) source_ct) t, b)))) (\<lambda>(t, b).
     check_outputs L A tx owner transfers_ct deposits_ct rest (t, b, draw rng)
       (acc @ [(ciphertext_sub source_ct output, output, sc_asset c)])))))"

fun commit_outputs ::
  "('st, 'x, 's, 'p, 'v, 'm, 'r, 'env, 'S) apply_state \<Rightarrow> ('s, 'v, 'm, 'r) signed_transaction \<Rightarrow>
   ('p ciphertext \<times> 'p ciphertext \<times> hash) list \<Rightarrow> ('st, ('x, 'e) verification_error, unit) act" where
  "commit_outputs A tx [] = ret ()"
| "commit_outputs A tx ((balance, output, asset) # rest) =
     act_then (on_state (vs_get_sender_balance (as_vs A) (st_source tx) asset (st_reference tx)))
     (act_then (act_modify (vs_put_sender_balance (as_vs A) (st_source tx) asset balance))
     (act_then (on_state (vs_add_sender_output (as_vs A) (st_source tx) asset output))
     (commit_outputs A tx rest)))"

definition apply_with_partial_verify ::
  "('s::field, 'p::ab_group_add, 't, 'r, 'e, 'v, 'm, 'env) verify_lib \<Rightarrow> ('w, 's, 'v, 'm, 'r, 'env, 'S) vm_lib \<Rightarrow>
   ('st, 'x, 's, 'p, 'v, 'm, 'r, 'env, 'S) apply_state \<Rightarrow> hash \<Rightarrow> ('s, 'v, 'm, 'r) signed_transaction \<Rightarrow> (nat \<Rightarrow> 's) \<Rightarrow>
   ('st, ('x, 'e) verification_error, unit) act" where
  "apply_with_partial_verify L W A tx_hash tx rng =
     act_bind (or_decompression (decompress_for_apply (lib_curve L) tx)) (\<lambda>(transfers_ct, deposits_ct).
     act_bind (or_decompression (decode_point (lib_curve L) (key_point (st_source tx)))) (\<lambda>owner.
     act_bind (check_outputs L A tx owner transfers_ct deposits_ct (st_source_commitments tx)
       (tx_transcript (lib_merlin L) tx, batch_collector_default, rng) []) (\<lambda>((b, rng), changes).
     act_then (act_lift (verify_sigma (lib_curve L) (b, rng)))
     (act_then (commit_outputs A tx changes)
     (apply_tx L W A tx_hash tx deposits_ct)))))"

section \<open>What applying a transaction keeps\<close>

text \<open>
  A property of the state that every operation of the trait keeps, whatever it returns, is kept by the
  application of a transaction, on its error paths too: a caller that goes on after an error can rely
  on it.
\<close>

locale tx_keeps =
  fixes A :: "('st, 'x, 's::field, 'p::ab_group_add, 'v, 'm, 'r, 'env, 'S) apply_state" and P :: "'st \<Rightarrow> bool"
  assumes get_receiver [act_keep]: "preserves P (vs_get_receiver_balance (as_vs A) k asset)"
    and put_receiver: "P st \<Longrightarrow> P (vs_put_receiver_balance (as_vs A) k asset ct st)"
    and get_sender [act_keep]: "preserves P (vs_get_sender_balance (as_vs A) k asset rf)"
    and set_nonce [act_keep]: "preserves P (vs_update_account_nonce (as_vs A) k n)"
    and set_multisig [act_keep]: "preserves P (vs_set_multisig_state (as_vs A) k p)"
    and set_module [act_keep]: "preserves P (vs_set_contract_module (as_vs A) h m)"
    and load_module [act_keep]: "preserves P (vs_load_contract_module (as_vs A) h)"
    and add_burned [act_keep]: "preserves P (as_add_burned_coins A coins)"
    and add_gas [act_keep]: "preserves P (as_add_gas_fee A coins)"
    and set_outputs [act_keep]: "preserves P (as_set_contract_outputs A h outs)"
    and get_contract [act_keep]: "preserves P (as_get_contract_environment_for A h ds h')"
    and merge_contract [act_keep]: "preserves P (as_merge_contract_changes A h c t as)"
    and remove_module [act_keep]: "preserves P (as_remove_contract_module A h)"
    and get_energy [act_keep]: "preserves P (as_get_energy_resource A k)"
    and set_energy [act_keep]: "preserves P (as_set_energy_resource A k e)"
begin

lemma on_state_keeps [act_keep]: "preserves P m \<Longrightarrow> preserves P (on_state m)"
  by (simp add: on_state_def preserves_map_err)

lemma credit_keeps [act_keep]: "preserves P (credit_receiver A k asset f)"
  unfolding credit_receiver_def by (intro act_keep put_receiver)

lemma handle_gas_keeps [act_keep]: "preserves P (handle_gas C A tx used max_gas)"
  unfolding handle_gas_def Let_def by (auto intro!: act_keep)

lemma refund_keeps [act_keep]: "preserves P (refund_deposits C A tx ds cts)"
  unfolding refund_deposits_def by (auto intro!: act_keep)

lemma invoke_keeps [act_keep]: "preserves P (invoke_contract C W A h tx cts contract ds ps max_gas i)"
  unfolding invoke_contract_def Let_def by (auto intro!: act_keep split: prod.split)

lemma transfers_keep [act_keep]: "preserves P (apply_transfers C A transfers)"
  by (induction transfers) (auto intro!: act_keep)

lemma energy_keeps [act_keep]: "preserves P (apply_energy A k payload)"
  by (cases payload) (auto intro!: act_keep split: option.split sum.split energy_error.split prod.split)

lemma pay_keeps [act_keep]: "preserves P (pay_with_energy R V A tx)"
  unfolding pay_with_energy_def Let_def by (auto intro!: act_keep split: transaction_type.split option.split)

lemma data_keeps [act_keep]: "preserves P (apply_data C W A h tx cts)"
  unfolding apply_data_def apply_invoke_def apply_deploy_def is_contract_available_def
  by (auto intro!: act_keep split: transaction_type.split option.split)

lemma apply_keeps [act_keep]: "preserves P (apply_tx L W A h tx cts)"
  unfolding apply_tx_def by (intro act_keep)

lemma check_keeps [act_keep]: "preserves P (check_outputs L A tx owner ts ds cs acc changes)"
  by (induction cs arbitrary: acc changes) (auto intro!: act_keep simp: or_decompression_def split: prod.split)

end

text \<open>The same for a property that the two writes to a sender's balance keep one by one.\<close>

locale apply_keeps = tx_keeps +
  assumes put_sender: "P st \<Longrightarrow> P (vs_put_sender_balance (as_vs A) k asset ct st)"
    and add_output [act_keep]: "preserves P (vs_add_sender_output (as_vs A) k asset ct)"
begin

lemma spend_keeps [act_keep]: "preserves P (spend_outputs C A tx ts ds assets)"
  by (induction assets) (auto intro!: act_keep put_sender simp: or_decompression_def)

lemma commit_keeps [act_keep]: "preserves P (commit_outputs A tx changes)"
  by (induction changes) (auto intro!: act_keep put_sender)

lemma apply_without_verify_keeps: "preserves P (apply_without_verify L W A h tx)"
  unfolding apply_without_verify_def or_decompression_def by (auto intro!: act_keep split: prod.split)

lemma apply_with_partial_verify_keeps: "preserves P (apply_with_partial_verify L W A h tx rng)"
  unfolding apply_with_partial_verify_def or_decompression_def by (auto intro!: act_keep split: prod.split)

end

end
