(* ===== verification/ChainApply.thy ===== *)
theory ChainApply
  imports ChainState TxApply
begin

text \<open>
  The chain state whose changes are written to the storage
  (\<open>daemon/src/core/state/chain_state/apply.rs\<close>): it forwards the verification trait to the chain state
  inside it, implements \<open>BlockchainApplyState\<close>, and \<open>apply_changes\<close> computes the final balance of
  every account and stores nonces, settings, contracts and balances at the block's topoheight. The
  maps are association lists, so a loop over a \<open>HashMap\<close> follows the order of insertion.
\<close>

section \<open>State\<close>

record ('S, 'p, 'm, 'env, 'v) applicable_chain_state =
  ap_inner :: "('S, 'p, 'm, 'env) chain_state"
  ap_block_hash :: hash
  ap_block :: block_header
  ap_outputs :: "(hash \<times> contract_output list) list"
  ap_caches :: "(hash \<times> 'v contract_cache) list"
  ap_assets :: "(hash \<times> asset_changes option) list"
  ap_tracker :: event_tracker
  ap_burned_supply :: u64
  ap_gas_fee :: u64

definition applicable_new ::
  "'S \<Rightarrow> 'env \<Rightarrow> topoheight \<Rightarrow> topoheight \<Rightarrow> block_version \<Rightarrow> u64 \<Rightarrow> hash \<Rightarrow> block_header \<Rightarrow>
   ('S, 'p, 'm, 'env, 'v) applicable_chain_state" where
  "applicable_new storage environment stable_topo topoheight block_version burned_supply block_hash block =
     \<lparr>ap_inner = chain_state_with storage environment stable_topo topoheight block_version, ap_block_hash = block_hash,
      ap_block = block, ap_outputs = [], ap_caches = [], ap_assets = [], ap_tracker = event_tracker_default,
      ap_burned_supply = burned_supply, ap_gas_fee = 0\<rparr>"

text \<open>An operation of the inner state, and one of the storage inside that.\<close>

definition on_inner ::
  "(('S, 'p, 'm, 'env) chain_state, 'x, 'a) act \<Rightarrow> (('S, 'p, 'm, 'env, 'v) applicable_chain_state, 'x, 'a) act" where
  "on_inner m st = (case m (ap_inner st) of (r, inner) \<Rightarrow> (r, st\<lparr>ap_inner := inner\<rparr>))"

definition on_storage :: "('S, 'x, 'a) act \<Rightarrow> (('S, 'p, 'm, 'env) chain_state, 'x, 'a) act" where
  "on_storage m st = (case m (ch_storage st) of (r, S) \<Rightarrow> (r, st\<lparr>ch_storage := S\<rparr>))"

definition inner_ops ::
  "(('S, 'p, 'm, 'env) chain_state, 'x, 's, 'p, 'v, 'm, 'r, 'env) verification_state \<Rightarrow>
   (('S, 'p, 'm, 'env, 'w) applicable_chain_state, 'x, 's, 'p, 'v, 'm, 'r, 'env) verification_state" where
  "inner_ops B =
     \<lparr>vs_pre_verify_tx = (\<lambda>tx. on_inner (vs_pre_verify_tx B tx)),
      vs_get_receiver_balance = (\<lambda>k asset. on_inner (vs_get_receiver_balance B k asset)),
      vs_put_receiver_balance = (\<lambda>k asset ct st. st\<lparr>ap_inner := vs_put_receiver_balance B k asset ct (ap_inner st)\<rparr>),
      vs_get_sender_balance = (\<lambda>k asset rf. on_inner (vs_get_sender_balance B k asset rf)),
      vs_put_sender_balance = (\<lambda>k asset ct st. st\<lparr>ap_inner := vs_put_sender_balance B k asset ct (ap_inner st)\<rparr>),
      vs_add_sender_output = (\<lambda>k asset ct. on_inner (vs_add_sender_output B k asset ct)),
      vs_get_account_nonce = (\<lambda>k. on_inner (vs_get_account_nonce B k)),
      vs_update_account_nonce = (\<lambda>k n. on_inner (vs_update_account_nonce B k n)),
      vs_get_block_version = (\<lambda>st. vs_get_block_version B (ap_inner st)),
      vs_set_multisig_state = (\<lambda>k p. on_inner (vs_set_multisig_state B k p)),
      vs_get_multisig_state = (\<lambda>k. on_inner (vs_get_multisig_state B k)),
      vs_get_environment = on_inner (vs_get_environment B),
      vs_set_contract_module = (\<lambda>h m. on_inner (vs_set_contract_module B h m)),
      vs_load_contract_module = (\<lambda>h. on_inner (vs_load_contract_module B h)),
      vs_get_contract_module_with_environment = (\<lambda>h. on_inner (vs_get_contract_module_with_environment B h))\<rparr>"

section \<open>Operations\<close>

definition ap_add_burned_coins ::
  "u64 \<Rightarrow> (('S, 'p, 'm, 'env, 'v) applicable_chain_state, blockchain_error, unit) act" where
  "ap_add_burned_coins coins = act_modify (\<lambda>st. st\<lparr>ap_burned_supply := ap_burned_supply st + coins\<rparr>)"

definition ap_add_gas_fee ::
  "u64 \<Rightarrow> (('S, 'p, 'm, 'env, 'v) applicable_chain_state, blockchain_error, unit) act" where
  "ap_add_gas_fee coins = act_modify (\<lambda>st. st\<lparr>ap_gas_fee := ap_gas_fee st + coins\<rparr>)"

definition ap_set_contract_outputs ::
  "hash \<Rightarrow> contract_output list \<Rightarrow> (('S, 'p, 'm, 'env, 'v) applicable_chain_state, blockchain_error, unit) act" where
  "ap_set_contract_outputs tx_hash outputs = act_modify (\<lambda>st. st\<lparr>ap_outputs :=
     map_insert tx_hash ((case map_of (ap_outputs st) tx_hash of None \<Rightarrow> [] | Some os \<Rightarrow> os) @ outputs) (ap_outputs st)\<rparr>)"

text \<open>
  The public deposits go to the contract's balances. On a balance that is in the cache already the
  pattern \<open>Some((mut state, balance))\<close> binds a copy of the version's state, so that marking it as
  updated is lost. Private deposits are left to a later version by the code.
\<close>

definition deposit_to_cache ::
  "('S, 'p, 'v, 'm) storage_ops \<Rightarrow> 'S \<Rightarrow> topoheight \<Rightarrow> hash \<Rightarrow> hash \<times> 's contract_deposit \<Rightarrow> 'v contract_cache \<Rightarrow>
   'v contract_cache store_result" where
  "deposit_to_cache D S topoheight contract = (\<lambda>(asset, deposit) cache. case deposit of
     Public coins \<Rightarrow> (case map_of (cc_balances cache) asset of
         Some (Some (state, balance)) \<Rightarrow>
           Inr (cache\<lparr>cc_balances := map_insert asset (Some (state, balance + coins)) (cc_balances cache)\<rparr>)
       | Some None \<Rightarrow> Inr (cache\<lparr>cc_balances := map_insert asset (Some (New, coins)) (cc_balances cache)\<rparr>)
       | None \<Rightarrow>
           and_then (so_get_contract_balance_at_maximum_topoheight D S contract asset topoheight) (\<lambda>r.
           let (state, balance) = (case r of None \<Rightarrow> (New, 0) | Some (topo, b) \<Rightarrow> (FetchedAt topo, vd_data b))
           in Inr (cache\<lparr>cc_balances := map_insert asset (Some (mark_updated state, balance + coins)) (cc_balances cache)\<rparr>)))
   | Private _ _ _ _ \<Rightarrow> Inr cache)"

fun add_deposits ::
  "('S, 'p, 'v, 'm) storage_ops \<Rightarrow> 'S \<Rightarrow> topoheight \<Rightarrow> hash \<Rightarrow> 's deposits \<Rightarrow> 'v contract_cache \<Rightarrow> 'v contract_cache store_result" where
  "add_deposits D S topoheight contract [] cache = Inr cache"
| "add_deposits D S topoheight contract (d # rest) cache =
     and_then (deposit_to_cache D S topoheight contract d cache) (add_deposits D S topoheight contract rest)"

definition ap_get_contract_environment_for ::
  "('S, 'p, 'v, 'm) storage_ops \<Rightarrow> hash \<Rightarrow> 's deposits \<Rightarrow> hash \<Rightarrow> (('S, 'p, 'm, 'env, 'v) applicable_chain_state, blockchain_error,
    ('env \<times> 'm \<times> 'S) \<times> ('s, 'v) contract_chain_state) act" where
  "ap_get_contract_environment_for D contract deposits tx_hash = act_query (\<lambda>st.
     let inner = ap_inner st in
     and_then (internal_get_contract_module contract inner) (\<lambda>mdl.
     and_then (add_deposits D (ch_storage inner) (ch_topoheight inner) contract deposits
       (case map_of (ap_caches st) contract of None \<Rightarrow> contract_cache_new | Some cache \<Rightarrow> cache)) (\<lambda>cache.
     Inr ((ch_environment inner, mdl, ch_storage inner),
       \<lparr>cs_debug_mode = True, cs_mainnet = so_is_mainnet D (ch_storage inner), cs_contract = contract,
        cs_topoheight = ch_topoheight inner, cs_block_hash = ap_block_hash st, cs_block = ap_block st, cs_tx_hash = tx_hash,
        cs_deposits = deposits, cs_cache = cache, cs_outputs = [], cs_tracker = ap_tracker st,
        cs_global_caches = ap_caches st, cs_assets = ap_assets st\<rparr>))))"

definition ap_merge_contract_changes ::
  "hash \<Rightarrow> 'v contract_cache \<Rightarrow> event_tracker \<Rightarrow> (hash \<times> asset_changes option) list \<Rightarrow>
   (('S, 'p, 'm, 'env, 'v) applicable_chain_state, blockchain_error, unit) act" where
  "ap_merge_contract_changes h cache tracker assets =
     act_modify (\<lambda>st. st\<lparr>ap_caches := map_insert h cache (ap_caches st), ap_tracker := tracker, ap_assets := assets\<rparr>)"

definition ap_remove_contract_module ::
  "hash \<Rightarrow> (('S, 'p, 'm, 'env, 'v) applicable_chain_state, blockchain_error, unit) act" where
  "ap_remove_contract_module h = on_inner (\<lambda>st. case map_of (ch_contracts st) h of None \<Rightarrow> (Inl (UnknownContract h), st)
     | Some (state, _) \<Rightarrow> (Inr (), st\<lparr>ch_contracts := map_insert h (mark_updated state, None) (ch_contracts st)\<rparr>))"

definition ap_get_energy_resource ::
  "('S, 'p, 'v, 'm) storage_ops \<Rightarrow> public_key \<Rightarrow>
   (('S, 'p, 'm, 'env, 'v) applicable_chain_state, blockchain_error, energy_resource option) act" where
  "ap_get_energy_resource D k = on_inner (act_query (\<lambda>st. so_get_energy_resource D (ch_storage st) k))"

definition ap_set_energy_resource ::
  "('S, 'p, 'v, 'm) storage_ops \<Rightarrow> public_key \<Rightarrow> energy_resource \<Rightarrow>
   (('S, 'p, 'm, 'env, 'v) applicable_chain_state, blockchain_error, unit) act" where
  "ap_set_energy_resource D k e = on_inner (\<lambda>st. on_storage (so_set_energy_resource D k (ch_topoheight st) e) st)"

definition applicable_ops ::
  "('s, 'p::ab_group_add) curve \<Rightarrow> ('s, 'p, 't, 'r, 'e) range_lib \<Rightarrow> ('v, 'm) vm_codec \<Rightarrow> ('S, 'p, 'v, 'm) storage_ops \<Rightarrow>
   (('S, 'p, 'm, 'env, 'v) applicable_chain_state, blockchain_error, 's, 'p, 'v, 'm, 'r, 'env, 'S) apply_state" where
  "applicable_ops C R V D =
     \<lparr>as_vs = inner_ops (chain_ops C R V D), as_add_burned_coins = ap_add_burned_coins, as_add_gas_fee = ap_add_gas_fee,
      as_get_block = ap_block, as_set_contract_outputs = ap_set_contract_outputs,
      as_get_contract_environment_for = ap_get_contract_environment_for D,
      as_merge_contract_changes = ap_merge_contract_changes, as_remove_contract_module = ap_remove_contract_module,
      as_get_energy_resource = ap_get_energy_resource D, as_set_energy_resource = ap_set_energy_resource D\<rparr>"

section \<open>Storing the changes\<close>

text \<open>The final balance of an account that spent and received, and of one that only spent.\<close>

definition merge_received ::
  "('s, 'p::ab_group_add) curve \<Rightarrow> 'p echange \<Rightarrow> 'p versioned_balance \<Rightarrow> 'p versioned_balance \<times> bool" where
  "merge_received C ex final_version =
     (let version = final_version\<lparr>vb_balance_type := InOut,
            vb_output_balance := Some (take_balance_with (ex_output_balance_used ex) (ex_version ex))\<rparr>
      in case computable C (vb_final_balance version) of None \<Rightarrow> (version, False)
         | Some (cache, ct) \<Rightarrow> (version\<lparr>vb_final_balance := set_computable (ciphertext_sub ct (ex_output_sum ex)) cache\<rparr>, True))"

definition merge_spent ::
  "('s, 'p::ab_group_add) curve \<Rightarrow> ('S, 'p, 'v, 'm) storage_ops \<Rightarrow> public_key \<Rightarrow> hash \<Rightarrow> 'p echange \<Rightarrow>
   ('S, 'p, 'm, 'env) chain_state \<Rightarrow> 'p versioned_balance store_result" where
  "merge_spent C D key asset ex st =
     (if ex_output_balance_used ex \<or> \<not> ex_new_version ex
      then and_then (so_get_new_versioned_balance D (ch_storage st) key asset (ch_topoheight st)) (\<lambda>(new_version, _).
        and_then (ok_or BalanceDecompression (computable C (vb_final_balance new_version))) (\<lambda>(cache, ct).
        let new_version = new_version\<lparr>vb_final_balance := set_computable (ciphertext_sub ct (ex_output_sum ex)) cache\<rparr>
        in Inr (if ch_block_version st = V0 then new_version\<lparr>vb_balance_type := Output\<rparr>
          else new_version\<lparr>vb_output_balance := Some (take_balance_with (ex_output_balance_used ex) (ex_version ex)),
            vb_balance_type := InOut\<rparr>)))
      else Inr ((ex_version ex)\<lparr>vb_balance_type := Output\<rparr>))"

definition merge_echange ::
  "('s, 'p::ab_group_add) curve \<Rightarrow> ('S, 'p, 'v, 'm) storage_ops \<Rightarrow> public_key \<Rightarrow> hash \<times> 'p echange \<Rightarrow>
   (('S, 'p, 'm, 'env) chain_state, blockchain_error, unit) act" where
  "merge_echange C D key = (\<lambda>(asset, ex) st. case map_of (ch_receiver_entry key st) asset of
     Some final_version \<Rightarrow>
       let (version, ok) = merge_received C ex final_version
       in (if ok then Inr () else Inl BalanceDecompression, ch_put_version key asset version st)
   | None \<Rightarrow> (case merge_spent C D key asset ex st of Inl e \<Rightarrow> (Inl e, st)
       | Inr version \<Rightarrow> (Inr (), ch_put_version key asset version st)))"

definition store_account ::
  "('s, 'p::ab_group_add) curve \<Rightarrow> ('S, 'p, 'v, 'm) storage_ops \<Rightarrow> public_key \<times> 'p account \<Rightarrow>
   (('S, 'p, 'm, 'env) chain_state, blockchain_error, unit) act" where
  "store_account C D = (\<lambda>(key, account).
     act_then (\<lambda>st. on_storage (so_set_last_nonce_to D key (ch_topoheight st) (ca_nonce account)) st)
     (act_then (case ca_multisig account of
        Some (state, multisig) \<Rightarrow> if should_be_stored state
          then (\<lambda>st. on_storage (so_set_last_multisig_to D key (ch_topoheight st)
            \<lparr>vd_previous_topoheight = state_topoheight state, vd_data = multisig\<rparr>) st)
          else ret ()
      | None \<Rightarrow> ret ())
     (act_then (act_modify (\<lambda>st. st\<lparr>ch_receiver_balances := map_insert key (ch_receiver_entry key st) (ch_receiver_balances st)\<rparr>))
     (act_each (merge_echange C D key) (ca_assets account)))))"

definition store_asset ::
  "('S, 'p, 'v, 'm) storage_ops \<Rightarrow> hash \<times> asset_changes option \<Rightarrow> (('S, 'p, 'm, 'env) chain_state, blockchain_error, unit) act" where
  "store_asset D = (\<lambda>(asset, changes). case changes of None \<Rightarrow> ret () | Some changes \<Rightarrow>
     let (state, data) = ah_data changes in
     act_then (if should_be_stored state
       then (\<lambda>st. on_storage (so_add_asset D asset (ch_topoheight st)
         \<lparr>vd_previous_topoheight = state_topoheight state, vd_data = data\<rparr>) st) else ret ())
     (case ah_supply changes of None \<Rightarrow> ret ()
      | Some (state, supply) \<Rightarrow> if should_be_stored state
          then (\<lambda>st. on_storage (so_set_last_supply_for_asset D asset (ch_topoheight st)
            \<lparr>vd_previous_topoheight = state_topoheight state, vd_data = supply\<rparr>) st)
          else ret ()))"

definition store_contract ::
  "('S, 'p, 'v, 'm) storage_ops \<Rightarrow> hash \<times> versioned_state \<times> 'm option \<Rightarrow> (('S, 'p, 'm, 'env) chain_state, blockchain_error, unit) act" where
  "store_contract D = (\<lambda>(h, state, mdl). if should_be_stored state
     then (\<lambda>st. on_storage (so_set_last_contract_to D h (ch_topoheight st)
       \<lparr>vd_previous_topoheight = state_topoheight state, vd_data = mdl\<rparr>) st)
     else ret ())"

definition store_cache ::
  "('S, 'p, 'v, 'm) storage_ops \<Rightarrow> hash \<times> 'v contract_cache \<Rightarrow> (('S, 'p, 'm, 'env) chain_state, blockchain_error, unit) act" where
  "store_cache D = (\<lambda>(contract, cache).
     act_then (act_each (\<lambda>(key, state, value). if should_be_stored state
         then (\<lambda>st. on_storage (so_set_last_contract_data_to D contract key (ch_topoheight st)
           \<lparr>vd_previous_topoheight = state_topoheight state, vd_data = value\<rparr>) st)
         else ret ()) (cc_storage cache))
     (act_each (\<lambda>(asset, data). case data of
         Some (state, balance) \<Rightarrow> if should_be_stored state
           then (\<lambda>st. on_storage (so_set_last_contract_balance_to D contract asset (ch_topoheight st)
             \<lparr>vd_previous_topoheight = state_topoheight state, vd_data = balance\<rparr>) st)
           else ret ()
       | None \<Rightarrow> ret ()) (cc_balances cache)))"

definition store_transfers ::
  "('s::field, 'p::ab_group_add) curve \<Rightarrow> ('S, 'p, 'v, 'm) storage_ops \<Rightarrow> public_key \<times> (hash \<times> u64) list \<Rightarrow>
   (('S, 'p, 'm, 'env) chain_state, blockchain_error, unit) act" where
  "store_transfers C D = (\<lambda>(key, assets). act_each (\<lambda>(asset, coins).
     act_bind (ch_get_receiver_balance C D key asset) (\<lambda>receiver_balance.
     act_modify (ch_put_receiver_balance key asset (ciphertext_add_u64 C receiver_balance coins)))) assets)"

definition store_balances ::
  "('S, 'p, 'v, 'm) storage_ops \<Rightarrow> public_key \<times> 'p versioned_balances \<Rightarrow> (('S, 'p, 'm, 'env) chain_state, blockchain_error, unit) act" where
  "store_balances D = (\<lambda>(account, balances).
     act_then (\<lambda>st. if map_of (ch_accounts st) account \<noteq> None then (Inr (), st)
       else act_bind (act_query (\<lambda>st. so_has_nonce D (ch_storage st) account)) (\<lambda>has_nonce.
         if \<not> has_nonce then (\<lambda>st. on_storage (so_set_last_nonce_to D account (ch_topoheight st)
           \<lparr>vn_nonce = 0, vn_previous_topoheight = None\<rparr>) st)
         else ret ()) st)
     (act_then (act_bind (act_query (\<lambda>st. map_err Chain (so_is_account_registered_for_topoheight D (ch_storage st) account (ch_topoheight st))))
       (\<lambda>registered. if \<not> registered
         then (\<lambda>st. on_storage (so_set_account_registration_topoheight D account (ch_topoheight st)) st) else ret ()))
     (act_each (\<lambda>(asset, version) st. on_storage (so_set_last_balance_to D account asset (ch_topoheight st) version) st) balances)))"

definition apply_changes ::
  "('s::field, 'p::ab_group_add) curve \<Rightarrow> ('S, 'p, 'v, 'm) storage_ops \<Rightarrow>
   (('S, 'p, 'm, 'env, 'v) applicable_chain_state, blockchain_error, unit) act" where
  "apply_changes C D st = on_inner
     (act_then (\<lambda>inner. act_each (store_account C D) (ch_accounts inner) inner)
     (act_then (act_each (store_asset D) (ap_assets st))
     (act_then (\<lambda>inner. act_each (store_contract D) (ch_contracts inner) inner)
     (act_then (act_each (store_cache D) (ap_caches st))
     (act_then (act_each (store_transfers C D) (et_transfers (ap_tracker st)))
     (act_then (act_each (\<lambda>(key, outputs). on_storage (so_set_contract_outputs_for_tx D key outputs)) (ap_outputs st))
     (\<lambda>inner. act_each (store_balances D) (ch_receiver_balances inner) inner))))))) st"

section \<open>What the operations never change\<close>

definition ch_frame :: "('S, 'p, 'm, 'env) chain_state \<Rightarrow> 'env \<times> topoheight \<times> topoheight \<times> block_version \<times> u64" where
  "ch_frame st = (ch_environment st, ch_stable_topoheight st, ch_topoheight st, ch_block_version st, ch_gas_fee st)"

definition ap_frame ::
  "('S, 'p, 'm, 'env, 'v) applicable_chain_state \<Rightarrow> ('env \<times> topoheight \<times> topoheight \<times> block_version \<times> u64) \<times> hash \<times> block_header" where
  "ap_frame st = (ch_frame (ap_inner st), ap_block_hash st, ap_block st)"

lemma preserves_inner:
  "preserves (\<lambda>st. ch_frame st = fst fr) m \<Longrightarrow> preserves (\<lambda>st. ap_frame st = fr) (on_inner m)"
  by (auto simp: preserves_def on_inner_def ap_frame_def split: prod.split)

lemma preserves_storage: "preserves (\<lambda>st. ch_frame st = fr) (\<lambda>st. on_storage (m st) st)"
  by (auto simp: preserves_def on_storage_def ch_frame_def split: prod.split)

lemma ch_put_frame [simp]:
  "ch_frame (ch_put_account k a st) = ch_frame st" "ch_frame (ch_put_version k asset v st) = ch_frame st"
  "ch_frame (ch_put_echange k a asset ex st) = ch_frame st" "ch_frame (ch_put_receiver_balance k asset ct st) = ch_frame st"
  "ch_frame (ch_put_sender_balance k asset ct st) = ch_frame st" "ch_frame (st\<lparr>ch_receiver_balances := rb\<rparr>) = ch_frame st"
  "ch_frame (st\<lparr>ch_contracts := cs\<rparr>) = ch_frame st"
  by (auto simp: ch_frame_def ch_put_account_def ch_put_version_def ch_put_echange_def ch_put_receiver_balance_def
      ch_put_sender_balance_def split: option.split)

lemma ap_frame_simps [simp]:
  "ap_frame (st\<lparr>ap_burned_supply := n\<rparr>) = ap_frame st" "ap_frame (st\<lparr>ap_gas_fee := n\<rparr>) = ap_frame st"
  "ap_frame (st\<lparr>ap_outputs := outs\<rparr>) = ap_frame st" "ap_frame (st\<lparr>ap_caches := c, ap_tracker := t, ap_assets := a\<rparr>) = ap_frame st"
  "ch_frame i = ch_frame (ap_inner st) \<Longrightarrow> ap_frame (st\<lparr>ap_inner := i\<rparr>) = ap_frame st"
  by (simp_all add: ap_frame_def)

lemma internal_account_frame [act_keep]: "preserves (\<lambda>st. ch_frame st = fr) (get_internal_account D k)"
  by (auto simp: preserves_def get_internal_account_def split: option.split sum.split)

lemma versioned_contract_frame [act_keep]: "preserves (\<lambda>st. ch_frame st = fr) (internal_get_versioned_contract D h)"
  by (auto simp: preserves_def internal_get_versioned_contract_def Let_def split: option.split sum.split)

lemma get_receiver_frame [act_keep]: "preserves (\<lambda>st. ch_frame st = fr) (ch_get_receiver_balance C D k asset)"
  by (auto simp: preserves_def ch_get_receiver_balance_def Let_def split: option.split sum.split prod.split)

lemma get_sender_frame [act_keep]: "preserves (\<lambda>st. ch_frame st = fr) (ch_get_sender_balance C D k asset rf)"
  by (auto simp: preserves_def ch_get_sender_balance_def ch_use_echange_def Let_def split: option.split sum.split prod.split)

lemma applicable_frame: "apply_keeps (applicable_ops C R V D) (\<lambda>st. ap_frame st = fr)"
proof (unfold_locales, unfold applicable_ops_def inner_ops_def chain_ops_def apply_state.simps verification_state.simps, goal_cases)
  case (17 k asset ct)
  show ?case by (rule preserves_inner) (auto simp: preserves_def ch_add_sender_output_def split: option.split)
next
  case (13 h)
  show ?case unfolding ap_remove_contract_module_def by (rule preserves_inner) (auto simp: preserves_def split: option.split)
next
  case (14 k)
  show ?case unfolding ap_get_energy_resource_def by (intro preserves_inner act_keep)
next
  case (15 k e)
  show ?case unfolding ap_set_energy_resource_def by (intro preserves_inner preserves_storage)
qed (auto simp: ch_update_account_nonce_def ch_set_multisig_state_def ch_set_contract_module_def load_versioned_contract_def
    ap_add_burned_coins_def ap_add_gas_fee_def ap_set_contract_outputs_def ap_get_contract_environment_for_def ap_merge_contract_changes_def
    intro!: preserves_inner act_keep split: prod.split)

interpretation frame: apply_keeps "applicable_ops C R V D" "\<lambda>st. ap_frame st = fr" for C R V D fr
  by (rule applicable_frame)

end
