(* ===== verification/MempoolState.thy ===== *)
theory MempoolState
  imports ChainStore Mempool
begin

text \<open>
  The state a transaction is verified against when it enters the mempool
  (\<open>daemon/src/core/state/mempool_state.rs\<close>): receiver balances and sender accounts that are loaded
  on demand, the sender's from the mempool's cache where it has one and from the storage otherwise.
  The theory implements the trait \<open>BlockchainVerificationState\<close>, shows that it keeps the contract
  \<open>tx_state\<close>, and states what a verified transaction has done to it.
\<close>

section \<open>State\<close>

type_synonym 'p asset_balances = "(hash \<times> 'p ciphertext) list"

record 'p sender_account =
  sa_nonce :: u64
  sa_assets :: "'p asset_balances"
  sa_multisig :: "multisig_payload option"

record ('S, 'p, 'm, 'env) mempool_state =
  mq_mempool :: "('p asset_balances, multisig_payload option) mempool"
  mq_storage :: 'S
  mq_environment :: 'env
  mq_receiver_balances :: "(public_key \<times> 'p asset_balances) list"
  mq_accounts :: "(public_key \<times> 'p sender_account) list"
  mq_contracts :: "(hash \<times> 'm) list"
  mq_stable_topoheight :: topoheight
  mq_topoheight :: topoheight
  mq_block_version :: block_version

definition mempool_state_new ::
  "('p asset_balances, multisig_payload option) mempool \<Rightarrow> 'S \<Rightarrow> 'env \<Rightarrow> topoheight \<Rightarrow> topoheight \<Rightarrow> block_version \<Rightarrow>
   ('S, 'p, 'm, 'env) mempool_state" where
  "mempool_state_new pool S env stable_topo topoheight block_version =
     \<lparr>mq_mempool = pool, mq_storage = S, mq_environment = env, mq_receiver_balances = [], mq_accounts = [],
      mq_contracts = [], mq_stable_topoheight = stable_topo, mq_topoheight = topoheight,
      mq_block_version = block_version\<rparr>"

definition get_sender_cache ::
  "public_key \<Rightarrow> ('S, 'p, 'm, 'env) mempool_state \<Rightarrow>
   ('p asset_balances \<times> multisig_payload option) option \<times> ('S, 'p, 'm, 'env) mempool_state" where
  "get_sender_cache key st = (case map_of (mq_accounts st) key of None \<Rightarrow> (None, st)
     | Some account \<Rightarrow> (Some (sa_assets account, sa_multisig account),
         st\<lparr>mq_accounts := map_remove key (mq_accounts st)\<rparr>))"

section \<open>Balances\<close>

text \<open>\<open>entry(account).or_insert_with(HashMap::new)\<close>, then the entry of the asset.\<close>

definition receiver_entry :: "public_key \<Rightarrow> ('S, 'p, 'm, 'env) mempool_state \<Rightarrow> 'p asset_balances" where
  "receiver_entry k st = (case map_of (mq_receiver_balances st) k of None \<Rightarrow> [] | Some m \<Rightarrow> m)"

definition mq_put_receiver_balance ::
  "public_key \<Rightarrow> hash \<Rightarrow> 'p ciphertext \<Rightarrow> ('S, 'p, 'm, 'env) mempool_state \<Rightarrow> ('S, 'p, 'm, 'env) mempool_state" where
  "mq_put_receiver_balance k asset ct st =
     st\<lparr>mq_receiver_balances := map_insert k (map_insert asset ct (receiver_entry k st)) (mq_receiver_balances st)\<rparr>"

definition stored_balance ::
  "('s, 'p) curve \<Rightarrow> ('S, 'p, 'v, 'm) storage_ops \<Rightarrow> 'S \<Rightarrow> public_key \<Rightarrow> hash \<Rightarrow> topoheight \<Rightarrow>
   ('p ciphertext \<times> bool) store_result" where
  "stored_balance C D S k asset topoheight =
     and_then (so_get_new_versioned_balance D S k asset topoheight) (\<lambda>(version, new).
     and_then (ok_or BalanceDecompression (take_ciphertext C (vb_final_balance version))) (\<lambda>ct. Inr (ct, new)))"

definition mq_get_receiver_balance ::
  "('s, 'p) curve \<Rightarrow> ('S, 'p, 'v, 'm) storage_ops \<Rightarrow> public_key \<Rightarrow> hash \<Rightarrow>
   (('S, 'p, 'm, 'env) mempool_state, blockchain_error, 'p ciphertext) act" where
  "mq_get_receiver_balance C D k asset st =
     (let st = st\<lparr>mq_receiver_balances := map_insert k (receiver_entry k st) (mq_receiver_balances st)\<rparr> in
      case map_of (receiver_entry k st) asset of
        Some ct \<Rightarrow> (Inr ct, st)
      | None \<Rightarrow> (case stored_balance C D (mq_storage st) k asset (mq_topoheight st) of
          Inl e \<Rightarrow> (Inl e, st)
        | Inr (ct, _) \<Rightarrow> (Inr ct, mq_put_receiver_balance k asset ct st)))"

definition get_versioned_balance_for_reference ::
  "('s, 'p) curve \<Rightarrow> ('S, 'p, 'v, 'm) storage_ops \<Rightarrow> 'S \<Rightarrow> public_key \<Rightarrow> hash \<Rightarrow> topoheight \<Rightarrow> reference \<Rightarrow>
   'p ciphertext store_result" where
  "get_versioned_balance_for_reference C D S k asset current reference =
     and_then (search_versioned_balance_for_reference D S k asset current reference False) (\<lambda>(out, _, version).
     ok_or BalanceDecompression (take_ciphertext C (take_balance_with out version)))"

text \<open>\<open>v.take().map(..)\<close> of the last stored setting, flattened.\<close>

definition stored_multisig ::
  "('S, 'p, 'v, 'm) storage_ops \<Rightarrow> 'S \<Rightarrow> public_key \<Rightarrow> topoheight \<Rightarrow> multisig_payload option store_result" where
  "stored_multisig D S k topoheight =
     and_then (so_get_multisig_at_maximum_topoheight_for D S k topoheight) (\<lambda>r.
     Inr (case r of None \<Rightarrow> None | Some (_, v) \<Rightarrow> vd_data v))"

definition mempool_sender_account ::
  "('S, 'p, 'v, 'm) storage_ops \<Rightarrow> ('p asset_balances, multisig_payload option) mempool \<Rightarrow> 'S \<Rightarrow> public_key \<Rightarrow>
   topoheight \<Rightarrow> 'p sender_account store_result" where
  "mempool_sender_account D pool S k topoheight =
     and_then (case map_of (mp_caches pool) k of
       Some cache \<Rightarrow> and_then (case ac_multisig cache of Some m \<Rightarrow> Inr (Some m)
           | None \<Rightarrow> stored_multisig D S k topoheight) (\<lambda>multisig. Inr (get_next_nonce cache, multisig))
     | None \<Rightarrow>
         and_then (so_get_nonce_at_maximum_topoheight D S k topoheight) (\<lambda>r.
         and_then (stored_multisig D S k topoheight) (\<lambda>multisig.
         Inr (case r of None \<Rightarrow> 0 | Some (_, v) \<Rightarrow> vn_nonce v, multisig)))) (\<lambda>(nonce, multisig).
     Inr \<lparr>sa_nonce = nonce, sa_assets = [], sa_multisig = multisig\<rparr>)"

definition mq_put_account ::
  "public_key \<Rightarrow> 'p sender_account \<Rightarrow> ('S, 'p, 'm, 'env) mempool_state \<Rightarrow> ('S, 'p, 'm, 'env) mempool_state" where
  "mq_put_account k account st = st\<lparr>mq_accounts := map_insert k account (mq_accounts st)\<rparr>"

definition mq_put_sender_balance ::
  "public_key \<Rightarrow> hash \<Rightarrow> 'p ciphertext \<Rightarrow> ('S, 'p, 'm, 'env) mempool_state \<Rightarrow> ('S, 'p, 'm, 'env) mempool_state" where
  "mq_put_sender_balance k asset ct st = (case map_of (mq_accounts st) k of None \<Rightarrow> st
     | Some account \<Rightarrow> mq_put_account k (account\<lparr>sa_assets := map_insert asset ct (sa_assets account)\<rparr>) st)"

definition mq_get_sender_balance ::
  "('s, 'p) curve \<Rightarrow> ('S, 'p, 'v, 'm) storage_ops \<Rightarrow> public_key \<Rightarrow> hash \<Rightarrow> reference \<Rightarrow>
   (('S, 'p, 'm, 'env) mempool_state, blockchain_error, 'p ciphertext) act" where
  "mq_get_sender_balance C D k asset reference st = (case map_of (mq_accounts st) k of
     Some account \<Rightarrow> (case map_of (sa_assets account) asset of
         Some ct \<Rightarrow> (Inr ct, st)
       | None \<Rightarrow>
           let from_reference = get_versioned_balance_for_reference C D (mq_storage st) k asset (mq_topoheight st) reference in
           (case (case map_of (mp_caches (mq_mempool st)) k of
               Some cache \<Rightarrow> (case map_of (ac_balances cache) asset of Some ct \<Rightarrow> Inr ct | None \<Rightarrow> from_reference)
             | None \<Rightarrow> from_reference) of
              Inl e \<Rightarrow> (Inl e, st)
            | Inr ct \<Rightarrow> (Inr ct, mq_put_sender_balance k asset ct st)))
   | None \<Rightarrow> (case mempool_sender_account D (mq_mempool st) (mq_storage st) k (mq_topoheight st) of
       Inl e \<Rightarrow> (Inl e, st)
     | Inr account \<Rightarrow>
         let st = mq_put_account k account st in
         (case stored_balance C D (mq_storage st) k asset (mq_topoheight st) of
            Inl e \<Rightarrow> (Inl e, st)
          | Inr (ct, new) \<Rightarrow> if new then (Inl NoPreviousBalanceFound, st) else (Inr ct, mq_put_sender_balance k asset ct st))))"

section \<open>Accounts and contracts\<close>

definition mq_get_account_nonce ::
  "('S, 'p, 'v, 'm) storage_ops \<Rightarrow> public_key \<Rightarrow> (('S, 'p, 'm, 'env) mempool_state, blockchain_error, u64) act" where
  "mq_get_account_nonce D k st = (case map_of (mq_accounts st) k of
     Some account \<Rightarrow> (Inr (sa_nonce account), st)
   | None \<Rightarrow> (case mempool_sender_account D (mq_mempool st) (mq_storage st) k (mq_topoheight st) of
       Inl e \<Rightarrow> (Inl e, st)
     | Inr account \<Rightarrow> (Inr (sa_nonce account), mq_put_account k account st)))"

definition mq_update_account ::
  "public_key \<Rightarrow> ('p sender_account \<Rightarrow> 'p sender_account) \<Rightarrow>
   (('S, 'p, 'm, 'env) mempool_state, blockchain_error, unit) act" where
  "mq_update_account k f st = (case map_of (mq_accounts st) k of
     None \<Rightarrow> (Inl (UnknownAccount k), st)
   | Some account \<Rightarrow> (Inr (), mq_put_account k (f account) st))"

definition mq_update_account_nonce ::
  "public_key \<Rightarrow> u64 \<Rightarrow> (('S, 'p, 'm, 'env) mempool_state, blockchain_error, unit) act" where
  "mq_update_account_nonce k new_nonce = mq_update_account k (\<lambda>account. account\<lparr>sa_nonce := new_nonce\<rparr>)"

definition mq_set_multisig_state ::
  "public_key \<Rightarrow> multisig_payload \<Rightarrow> (('S, 'p, 'm, 'env) mempool_state, blockchain_error, unit) act" where
  "mq_set_multisig_state k payload = mq_update_account k (\<lambda>account.
     account\<lparr>sa_multisig := (if is_delete payload then None else Some payload)\<rparr>)"

definition mq_get_multisig_state ::
  "public_key \<Rightarrow> (('S, 'p, 'm, 'env) mempool_state, blockchain_error, multisig_payload option) act" where
  "mq_get_multisig_state k st = (ok_or (UnknownAccount k) (map_option sa_multisig (map_of (mq_accounts st) k)), st)"

text \<open>The new module is in the map even when one was there before.\<close>

definition mq_set_contract_module ::
  "hash \<Rightarrow> 'm \<Rightarrow> (('S, 'p, 'm, 'env) mempool_state, blockchain_error, unit) act" where
  "mq_set_contract_module h m st =
     (if map_of (mq_contracts st) h \<noteq> None then Inl ContractAlreadyExists else Inr (),
      st\<lparr>mq_contracts := map_insert h m (mq_contracts st)\<rparr>)"

definition mq_load_contract_module ::
  "('S, 'p, 'v, 'm) storage_ops \<Rightarrow> hash \<Rightarrow> (('S, 'p, 'm, 'env) mempool_state, blockchain_error, bool) act" where
  "mq_load_contract_module D h st = (case map_of (mq_contracts st) h of
     Some _ \<Rightarrow> (Inr True, st)
   | None \<Rightarrow> (case so_get_contract_at_maximum_topoheight_for D (mq_storage st) h (mq_topoheight st) of
       Inl e \<Rightarrow> (Inl e, st)
     | Inr r \<Rightarrow> (case (case r of None \<Rightarrow> None | Some (_, v) \<Rightarrow> vd_data v) of
         None \<Rightarrow> (Inl (UnknownContract h), st)
       | Some m \<Rightarrow> (Inr True, st\<lparr>mq_contracts := map_insert h m (mq_contracts st)\<rparr>))))"

definition mq_get_contract_module_with_environment ::
  "hash \<Rightarrow> (('S, 'p, 'm, 'env) mempool_state, blockchain_error, 'm \<times> 'env) act" where
  "mq_get_contract_module_with_environment h st =
     (ok_or (UnknownContract h) (map_option (\<lambda>m. (m, mq_environment st)) (map_of (mq_contracts st) h)), st)"

definition mempool_ops ::
  "('s, 'p) curve \<Rightarrow> ('s, 'p, 't, 'r, 'e) range_lib \<Rightarrow> ('v, 'm) vm_codec \<Rightarrow> ('S, 'p, 'v, 'm) storage_ops \<Rightarrow>
   (('S, 'p, 'm, 'env) mempool_state, blockchain_error, 's, 'p, 'v, 'm, 'r, 'env) verification_state" where
  "mempool_ops C R V D =
     \<lparr>vs_pre_verify_tx = (\<lambda>tx st. (state_pre_verify_tx D R V (mq_storage st) tx (mq_stable_topoheight st) (mq_topoheight st)
        (mq_block_version st), st)),
      vs_get_receiver_balance = mq_get_receiver_balance C D,
      vs_put_receiver_balance = mq_put_receiver_balance,
      vs_get_sender_balance = mq_get_sender_balance C D,
      vs_put_sender_balance = mq_put_sender_balance,
      vs_add_sender_output = (\<lambda>_ _ _. ret ()),
      vs_get_account_nonce = mq_get_account_nonce D,
      vs_update_account_nonce = mq_update_account_nonce,
      vs_get_block_version = mq_block_version,
      vs_set_multisig_state = mq_set_multisig_state,
      vs_get_multisig_state = mq_get_multisig_state,
      vs_get_environment = act_get mq_environment,
      vs_set_contract_module = mq_set_contract_module,
      vs_load_contract_module = mq_load_contract_module D,
      vs_get_contract_module_with_environment = mq_get_contract_module_with_environment\<rparr>"

section \<open>The contract of a verification state\<close>

definition mq_loaded :: "('S, 'p, 'm, 'env) mempool_state \<Rightarrow> public_key \<Rightarrow> bool" where
  "mq_loaded st k \<longleftrightarrow> map_of (mq_accounts st) k \<noteq> None"

text \<open>What is not loaded yet comes from parts of the state no operation changes.\<close>

definition mq_fixed :: "('S, 'p, 'm, 'env) mempool_state \<Rightarrow>
    ('p asset_balances, multisig_payload option) mempool \<times> 'S \<times> topoheight" where
  "mq_fixed st = (mq_mempool st, mq_storage st, mq_topoheight st)"

definition mq_source :: "('s, 'p) curve \<Rightarrow> ('S, 'p, 'v, 'm) storage_ops \<Rightarrow>
    ('p asset_balances, multisig_payload option) mempool \<times> 'S \<times> topoheight \<Rightarrow> public_key \<Rightarrow> hash \<Rightarrow> reference \<Rightarrow>
    'p ciphertext store_result" where
  "mq_source C D fx k asset rf = (let (pool, S, topo) = fx; r = get_versioned_balance_for_reference C D S k asset topo rf in
     case map_of (mp_caches pool) k of
       Some cache \<Rightarrow> (case map_of (ac_balances cache) asset of Some ct \<Rightarrow> Inr ct | None \<Rightarrow> r) | None \<Rightarrow> r)"

definition result_option :: "'e + 'a \<Rightarrow> 'a option" where
  "result_option r = (case r of Inl _ \<Rightarrow> None | Inr x \<Rightarrow> Some x)"

lemma mq_get_sender_loaded:
  "map_of (mq_accounts st) k = Some account \<Longrightarrow> mq_get_sender_balance C D k asset rf st =
     (case map_of (sa_assets account) asset of Some ct \<Rightarrow> (Inr ct, st)
      | None \<Rightarrow> (case mq_source C D (mq_fixed st) k asset rf of Inl e \<Rightarrow> (Inl e, st)
        | Inr ct \<Rightarrow> (Inr ct, mq_put_sender_balance k asset ct st)))"
  by (cases "map_of (sa_assets account) asset") (simp_all add: mq_get_sender_balance_def mq_source_def mq_fixed_def Let_def)

lemma mq_sender_at:
  "map_of (mq_accounts st) k = Some account \<Longrightarrow> sender_at (mempool_ops C R V D) st k asset rf =
     (case map_of (sa_assets account) asset of Some ct \<Rightarrow> Some ct | None \<Rightarrow> result_option (mq_source C D (mq_fixed st) k asset rf))"
  by (auto simp: sender_at_def mempool_ops_def act_peek_def mq_get_sender_loaded result_option_def split: option.split sum.split)

lemma mq_nonce_at: "map_of (mq_accounts st) k = Some account \<Longrightarrow> nonce_at (mempool_ops C R V D) st k = Some (sa_nonce account)"
  by (simp add: nonce_at_def mempool_ops_def act_peek_def mq_get_account_nonce_def)

lemma mq_multisig_at:
  "map_of (mq_accounts st) k = Some account \<Longrightarrow> multisig_at (mempool_ops C R V D) st k = Some (sa_multisig account)"
  by (simp add: multisig_at_def mempool_ops_def act_peek_def mq_get_multisig_state_def ok_or_def)

lemma receiver_entry_self [simp]:
  "receiver_entry k (st\<lparr>mq_receiver_balances := map_insert k m bs\<rparr>) = m"
  by (simp add: receiver_entry_def)

lemma mq_receiver_at:
  "receiver_at (mempool_ops C R V D) st k asset = (case map_of (receiver_entry k st) asset of Some ct \<Rightarrow> Some ct
     | None \<Rightarrow> map_option fst (result_option (stored_balance C D (mq_storage st) k asset (mq_topoheight st))))"
  by (auto simp: receiver_at_def mempool_ops_def act_peek_def mq_get_receiver_balance_def Let_def result_option_def
      split: option.split sum.split)

lemmas mq_views = mq_sender_at mq_nonce_at mq_multisig_at

lemma mq_receiver_cong:
  "mq_fixed st' = mq_fixed st \<Longrightarrow> (\<And>k. map_of (receiver_entry k st') = map_of (receiver_entry k st)) \<Longrightarrow>
     receiver_at (mempool_ops C R V D) st' = receiver_at (mempool_ops C R V D) st"
  by (auto simp: fun_eq_iff mq_receiver_at mq_fixed_def split: option.split)

lemma mq_keeps:
  assumes "mq_fixed st' = mq_fixed st" "\<And>k. k \<in> ks \<Longrightarrow> mq_loaded st k \<Longrightarrow> map_of (mq_accounts st') k = map_of (mq_accounts st) k"
    "\<And>k. mq_loaded st k \<Longrightarrow> mq_loaded st' k"
  shows "keeps_accounts (mempool_ops C R V D) mq_loaded ks st st'"
  unfolding keeps_accounts_def
proof (intro allI impI conjI)
  fix k assume l: "mq_loaded st k"
  then show "mq_loaded st' k" by (rule assms(3))
  assume "k \<in> ks"
  with assms(2) [OF this l] l obtain account where acc: "map_of (mq_accounts st) k = Some account" "map_of (mq_accounts st') k = Some account"
    by (auto simp: mq_loaded_def)
  show "nonce_at (mempool_ops C R V D) st' k = nonce_at (mempool_ops C R V D) st k"
    "multisig_at (mempool_ops C R V D) st' k = multisig_at (mempool_ops C R V D) st k"
    "sender_at (mempool_ops C R V D) st' k = sender_at (mempool_ops C R V D) st k"
    by (simp_all add: mq_views [OF acc(1)] mq_views [OF acc(2)] fun_eq_iff assms(1) cong: option.case_cong)
qed

lemma mq_put_account_simps [simp]:
  "map_of (mq_accounts (mq_put_account k a st)) = (map_of (mq_accounts st))(k \<mapsto> a)"
  "mq_fixed (mq_put_account k a st) = mq_fixed st" "receiver_entry j (mq_put_account k a st) = receiver_entry j st"
  by (simp_all add: mq_put_account_def mq_fixed_def receiver_entry_def)

lemma mq_put_receiver_simps [simp]:
  "mq_accounts (mq_put_receiver_balance k asset ct st) = mq_accounts st"
  "mq_fixed (mq_put_receiver_balance k asset ct st) = mq_fixed st"
  "map_of (receiver_entry j (mq_put_receiver_balance k asset ct st)) =
     (if j = k then (map_of (receiver_entry k st))(asset \<mapsto> ct) else map_of (receiver_entry j st))"
  by (auto simp: mq_put_receiver_balance_def mq_fixed_def receiver_entry_def)

lemma receiver_entry_touch:
  "receiver_entry j (st\<lparr>mq_receiver_balances := map_insert k (receiver_entry k st) (mq_receiver_balances st)\<rparr>) = receiver_entry j st"
  by (simp add: receiver_entry_def)

lemma mq_get_receiver_effect:
  assumes "mq_get_receiver_balance C D k asset st = (Inr ct, st')"
  shows "mq_accounts st' = mq_accounts st" "mq_fixed st' = mq_fixed st"
    "map_of (receiver_entry j st') = (if j = k then (map_of (receiver_entry k st))(asset \<mapsto> ct) else map_of (receiver_entry j st))"
    "receiver_at (mempool_ops C R V D) st k asset = Some ct"
  using assms unfolding mq_get_receiver_balance_def Let_def receiver_entry_touch
  by (auto simp: mq_fixed_def mq_receiver_at result_option_def receiver_entry_touch mq_put_receiver_balance_def receiver_entry_def
      split: option.splits sum.splits if_splits)

lemma mq_receiver_upd:
  assumes "mq_fixed st' = mq_fixed st"
    "\<And>j. map_of (receiver_entry j st') = (if j = k then (map_of (receiver_entry k st))(asset \<mapsto> ct) else map_of (receiver_entry j st))"
  shows "receiver_at (mempool_ops C R V D) st' = (receiver_at (mempool_ops C R V D) st)(k :=
    (receiver_at (mempool_ops C R V D) st k)(asset := Some ct))"
  using assms(1) by (auto simp: fun_eq_iff mq_receiver_at mq_fixed_def assms(2) cong: option.case_cong)

lemma mq_same:
  assumes "mq_accounts st' = mq_accounts st" "mq_fixed st' = mq_fixed st" "\<And>j. map_of (receiver_entry j st') = map_of (receiver_entry j st)"
  shows "same_view (mempool_ops C R V D) mq_loaded st st'"
  unfolding same_view_def using assms by (auto intro!: mq_keeps mq_receiver_cong simp: mq_loaded_def)

text \<open>An account that is loaded changes only where the update says.\<close>

lemma mq_account_upd:
  assumes "map_of (mq_accounts st) k = Some account" "st' = mq_put_account k account' st"
  shows "keeps_accounts (mempool_ops C R V D) mq_loaded (- {k}) st st'"
    "receiver_at (mempool_ops C R V D) st' = receiver_at (mempool_ops C R V D) st"
    "nonce_at (mempool_ops C R V D) st' k = Some (sa_nonce account')"
    "multisig_at (mempool_ops C R V D) st' k = Some (sa_multisig account')"
    "sender_at (mempool_ops C R V D) st' k asset rf = (case map_of (sa_assets account') asset of Some ct \<Rightarrow> Some ct
       | None \<Rightarrow> result_option (mq_source C D (mq_fixed st) k asset rf))"
proof -
  have acc: "map_of (mq_accounts st') k = Some account'" by (simp add: assms)
  show "keeps_accounts (mempool_ops C R V D) mq_loaded (- {k}) st st'"
    by (rule mq_keeps) (auto simp: assms mq_loaded_def)
  show "receiver_at (mempool_ops C R V D) st' = receiver_at (mempool_ops C R V D) st"
    by (rule mq_receiver_cong) (simp_all add: assms)
qed (simp_all add: mq_views assms cong: option.case_cong)

lemma mq_get_nonce_law:
  assumes "mq_get_account_nonce D k st = (Inr n, st')"
  shows "same_view (mempool_ops C R V D) mq_loaded st st' \<and> mq_loaded st' k \<and> nonce_at (mempool_ops C R V D) st' k = Some n"
proof (cases "map_of (mq_accounts st) k")
  case None
  with assms obtain account where st': "st' = mq_put_account k account st" "n = sa_nonce account"
    by (auto simp: mq_get_account_nonce_def split: sum.splits)
  have "keeps_accounts (mempool_ops C R V D) mq_loaded UNIV st st'"
    by (rule mq_keeps) (use None in \<open>auto simp: st' mq_loaded_def\<close>)
  moreover have "receiver_at (mempool_ops C R V D) st' = receiver_at (mempool_ops C R V D) st"
    by (rule mq_receiver_cong) (simp_all add: st')
  ultimately show ?thesis using st' by (auto simp: same_view_def mq_loaded_def mq_nonce_at)
next
  case (Some account)
  with assms show ?thesis by (auto simp: mq_get_account_nonce_def mq_loaded_def mq_nonce_at)
qed

lemma mq_update_law:
  assumes "mq_update_account k f st = (Inr (), st')"
  obtains account where "map_of (mq_accounts st) k = Some account" "st' = mq_put_account k (f account) st"
  using assms by (auto simp: mq_update_account_def split: option.splits)

lemma mq_get_sender_law:
  assumes "mq_get_sender_balance C D k asset rf st = (Inr ct, st1)" "mq_loaded st k"
  obtains account where "map_of (mq_accounts st) k = Some account"
    "map_of (sa_assets account) asset = Some ct \<and> st1 = st \<or>
     map_of (sa_assets account) asset = None \<and> mq_source C D (mq_fixed st) k asset rf = Inr ct \<and>
       st1 = mq_put_account k (account\<lparr>sa_assets := map_insert asset ct (sa_assets account)\<rparr>) st"
  using assms by (auto simp: mq_loaded_def mq_get_sender_loaded mq_put_sender_balance_def split: option.splits sum.splits)

lemma mq_put_sender_law:
  assumes "mq_get_sender_balance C D k asset rf st = (Inr ct, st1)" "mq_loaded st k" "st' = mq_put_sender_balance k asset ct' st1"
  shows "keeps_accounts (mempool_ops C R V D) mq_loaded (- {k}) st st' \<and>
    receiver_at (mempool_ops C R V D) st' = receiver_at (mempool_ops C R V D) st \<and>
    nonce_at (mempool_ops C R V D) st' k = nonce_at (mempool_ops C R V D) st k \<and>
    multisig_at (mempool_ops C R V D) st' k = multisig_at (mempool_ops C R V D) st k \<and>
    sender_at (mempool_ops C R V D) st' k = (sender_at (mempool_ops C R V D) st k)(asset := (\<lambda>_. Some ct'))"
proof -
  from mq_get_sender_law [OF assms(1,2)] obtain account
    where acc: "map_of (mq_accounts st) k = Some account"
      and st1: "st1 = st \<or> st1 = mq_put_account k (account\<lparr>sa_assets := map_insert asset ct (sa_assets account)\<rparr>) st" by metis
  obtain account' where acc': "map_of (mq_accounts st') k = Some account'" "sa_nonce account' = sa_nonce account"
      "sa_multisig account' = sa_multisig account" "map_of (sa_assets account') = (map_of (sa_assets account))(asset \<mapsto> ct')"
    and fx: "mq_fixed st' = mq_fixed st" and rc: "\<And>j. receiver_entry j st' = receiver_entry j st"
    and oth: "\<And>j. j \<noteq> k \<Longrightarrow> map_of (mq_accounts st') j = map_of (mq_accounts st) j"
    using st1 acc by (auto simp: assms(3) mq_put_sender_balance_def)
  have "keeps_accounts (mempool_ops C R V D) mq_loaded (- {k}) st st'"
    by (rule mq_keeps) (use fx oth acc' in \<open>auto simp: mq_loaded_def\<close>, metis not_Some_eq oth)
  moreover have "receiver_at (mempool_ops C R V D) st' = receiver_at (mempool_ops C R V D) st"
    by (rule mq_receiver_cong) (simp_all add: fx rc)
  ultimately show ?thesis
    by (auto simp: mq_views [OF acc] mq_views [OF acc'(1)] acc'(2-4) fun_eq_iff fx cong: option.case_cong)
qed

lemma mq_pin_sender_law:
  assumes "mq_get_sender_balance C D k asset rf st = (Inr ct, st')" "mq_loaded st k"
  shows "keeps_accounts (mempool_ops C R V D) mq_loaded (- {k}) st st' \<and>
    receiver_at (mempool_ops C R V D) st' = receiver_at (mempool_ops C R V D) st \<and>
    nonce_at (mempool_ops C R V D) st' k = nonce_at (mempool_ops C R V D) st k \<and>
    multisig_at (mempool_ops C R V D) st' k = multisig_at (mempool_ops C R V D) st k \<and>
    sender_at (mempool_ops C R V D) st' k = (sender_at (mempool_ops C R V D) st k)(asset := (\<lambda>_. Some ct))"
proof -
  from mq_get_sender_law [OF assms] obtain account where acc: "map_of (mq_accounts st) k = Some account"
    and st': "map_of (sa_assets account) asset = Some ct \<and> st' = st \<or>
      st' = mq_put_account k (account\<lparr>sa_assets := map_insert asset ct (sa_assets account)\<rparr>) st" by metis
  from st' show ?thesis
  proof
    assume "map_of (sa_assets account) asset = Some ct \<and> st' = st"
    then show ?thesis by (auto simp: fun_eq_iff mq_sender_at [OF acc])
  next
    assume "st' = mq_put_account k (account\<lparr>sa_assets := map_insert asset ct (sa_assets account)\<rparr>) st"
    then show ?thesis by (simp add: mq_account_upd [OF acc] mq_views [OF acc] fun_eq_iff)
  qed
qed

lemma mq_put_receiver_law:
  assumes "mq_get_receiver_balance C D k asset st = (Inr ct, st1)" "st' = mq_put_receiver_balance k asset ct' st1"
  shows "keeps_accounts (mempool_ops C R V D) mq_loaded UNIV st st' \<and> receiver_at (mempool_ops C R V D) st' =
    (receiver_at (mempool_ops C R V D) st)(k := (receiver_at (mempool_ops C R V D) st k)(asset := Some ct'))"
proof -
  note got = mq_get_receiver_effect [OF assms(1)]
  have "keeps_accounts (mempool_ops C R V D) mq_loaded UNIV st st'"
    by (rule mq_keeps) (simp_all add: assms(2) got mq_loaded_def)
  moreover have "receiver_at (mempool_ops C R V D) st' =
      (receiver_at (mempool_ops C R V D) st)(k := (receiver_at (mempool_ops C R V D) st k)(asset := Some ct'))"
    by (rule mq_receiver_upd) (auto simp: assms(2) got)
  ultimately show ?thesis ..
qed

lemma mq_get_receiver_law:
  assumes "mq_get_receiver_balance C D k asset st = (Inr ct, st')"
  shows "same_view (mempool_ops C R V D) mq_loaded st st'"
proof -
  note got = mq_get_receiver_effect [OF assms]
  have "keeps_accounts (mempool_ops C R V D) mq_loaded UNIV st st'"
    by (rule mq_keeps) (simp_all add: got mq_loaded_def)
  moreover have "receiver_at (mempool_ops C R V D) st' =
      (receiver_at (mempool_ops C R V D) st)(k := (receiver_at (mempool_ops C R V D) st k)(asset := Some ct))"
    by (rule mq_receiver_upd) (auto simp: got)
  ultimately show ?thesis using got(4) [of R V] by (auto simp: same_view_def fun_eq_iff)
qed

lemma mempool_tx_state:
  fixes C :: "('s::field, 'p::ab_group_add) curve" and D :: "('S, 'p, 'v, 'm) storage_ops"
    and R :: "('s, 'p, 't, 'r, 'e) range_lib" and V :: "('v, 'm) vm_codec"
  shows "tx_state (mempool_ops C R V D :: (('S, 'p, 'm, 'env) mempool_state, blockchain_error, 's, 'p, 'v, 'm, 'r, 'env) verification_state) mq_loaded"
proof (unfold_locales, goal_cases)
  case (3 k n st st')
  then have "mq_update_account k (\<lambda>account. account\<lparr>sa_nonce := n\<rparr>) st = (Inr (), st')"
    by (simp add: mempool_ops_def mq_update_account_nonce_def)
  from mq_update_law [OF this] obtain account where acc: "map_of (mq_accounts st) k = Some account"
    and st': "st' = mq_put_account k (account\<lparr>sa_nonce := n\<rparr>) st" by metis
  show ?case by (simp add: mq_account_upd [OF acc st'] mq_views [OF acc] fun_eq_iff)
next
  case (5 k p st st')
  then have "mq_update_account k (\<lambda>account. account\<lparr>sa_multisig := (if is_delete p then None else Some p)\<rparr>) st = (Inr (), st')"
    by (simp add: mempool_ops_def mq_set_multisig_state_def)
  from mq_update_law [OF this] obtain account where acc: "map_of (mq_accounts st) k = Some account"
    and st': "st' = mq_put_account k (account\<lparr>sa_multisig := (if is_delete p then None else Some p)\<rparr>) st" by metis
  show ?case by (simp add: mq_account_upd [OF acc st'] mq_views [OF acc] fun_eq_iff)
next
  case (2 k st n st')
  then show ?case by (intro mq_get_nonce_law) (simp add: mempool_ops_def)
next
  case (6 k asset rf st ct st')
  then show ?case by (intro mq_pin_sender_law) (simp_all add: mempool_ops_def)
next
  case (7 k asset rf st ct st1 st' ct')
  then show ?case by (intro mq_put_sender_law) (simp_all add: mempool_ops_def)
next
  case (9 k asset st ct st')
  then show ?case by (intro mq_get_receiver_law) (simp_all add: mempool_ops_def)
next
  case (10 k asset st ct st1 st' ct')
  then show ?case by (intro mq_put_receiver_law) (simp_all add: mempool_ops_def)
next
  case (12 h m st st')
  then show ?case
    by (intro mq_same) (auto simp: mempool_ops_def mq_set_contract_module_def mq_fixed_def receiver_entry_def split: if_splits)
next
  case (13 h st b st')
  then show ?case
    by (intro mq_same) (auto simp: mempool_ops_def mq_load_contract_module_def mq_fixed_def receiver_entry_def
        split: option.splits sum.splits)
qed (auto simp: mempool_ops_def act_iff mq_get_multisig_state_def mq_get_contract_module_with_environment_def)

interpretation mq: tx_state "mempool_ops C R V D" mq_loaded for C R V D
  by (rule mempool_tx_state)

section \<open>A concrete state\<close>

definition sample_pool_state :: "(unit, gf3, u8, unit) mempool_state" where
  "sample_pool_state = mempool_state_new mempool_new () () 0 10 V3"

abbreviation sample_pool_ops where
  "sample_pool_ops \<equiv> mempool_ops gf3_curve bytes_range byte_vm sample_store"

lemma sample_pool_account:
  "mempool_sender_account sample_store mempool_new () alice 10 = Inr \<lparr>sa_nonce = 3, sa_assets = [], sa_multisig = None\<rparr>"
  by (simp add: mempool_sender_account_def mempool_new_def sample_store_def stored_multisig_def and_then_def)

lemma sample_pool_source:
  "get_versioned_balance_for_reference gf3_curve sample_store () alice asset 10 \<lparr>rf_hash = hash_zero, rf_topoheight = 9\<rparr> =
     Inr \<lparr>commitment = F1, handle = F2\<rparr>"
  by (simp add: get_versioned_balance_for_reference_def sample_search and_then_def ok_or_def take_balance_with_def
      alice_balance_def versioned_balance_new_def)

lemma demo_transfer_ct:
  "decompress_transfer gf3_curve demo_transfer = Some \<lparr>dt_commitment = F2, dt_sender_handle = F1, dt_receiver_handle = F2\<rparr>"
  by (simp add: decompress_transfer_def demo_transfer_def)

lemma sample_output:
  "get_sender_output_ct gf3_curve (demo_tx (Transfers [demo_transfer])) TERMINOS_ASSET
     [\<lparr>dt_commitment = F2, dt_sender_handle = F1, dt_receiver_handle = F2\<rparr>] [] = Some \<lparr>commitment = F2, handle = F1\<rparr>"
  by (simp add: get_sender_output_ct_def add_native_def dt_get_ciphertext_def ciphertext_add_def ciphertext_add_scalar_def
      commitment_add_scalar_def scalar_from_def ciphertext_zero_def demo_transfer_def)
    (simp add: gf3_curve_def gf3_defs)

lemma sample_pool_verified:
  "\<exists>st'. verify_tx sample_lib sample_pool_ops no_zkp_cache rng (demo_tx (Transfers [demo_transfer]), hash_zero) sample_pool_state =
     (Inr (), st')"
proof -
  obtain b1 where b1: "eq_pre_verify gf3_curve fixed_merlin (sample_eq_proof F1) F1 \<lparr>commitment = F2, handle = F1\<rparr> F2 (rng 0)
      ((F1, F1), batch_collector_default) = (Inr ((F1, F1), b1) :: unit proof_verification_error + _)" "batch_ok b1"
      "mega_check gf3_curve b1 = 0"
    using sample_eq_pre_verify [of batch_collector_default "rng 0", where 'e = unit] by auto
  obtain b2 where b2: "cv_pre_verify gf3_curve fixed_merlin (tr_ct_validity_proof demo_transfer) F2 F2 F1 F2 F1 True (draw rng 0)
      ((F1, F1), b1) = (Inr ((F1, F1), b2) :: unit proof_verification_error + _)" "mega_check gf3_curve b2 = 0"
    using sample_cv_pre_verify [OF b1(2), of "draw rng 0", where 'e = unit] b1(3) by auto
  define st1 where "st1 = mq_put_account alice \<lparr>sa_nonce = 4, sa_assets = [], sa_multisig = None\<rparr> sample_pool_state"
  have nonce: "check_nonce sample_pool_ops hash_zero (demo_tx (Transfers [demo_transfer])) sample_pool_state = (Inr (), st1)"
    by (simp add: check_nonce_def on_state_def act_run mempool_ops_def sample_pool_state_def mempool_state_new_def sample_pre_verify_tx
      mq_get_account_nonce_def sample_pool_account mq_update_account_nonce_def mq_update_account_def mq_put_account_def st1_def)
  have data: "check_data sample_lib sample_pool_ops (demo_tx (Transfers [demo_transfer])) st1 =
      (Inr ([\<lparr>dt_commitment = F2, dt_sender_handle = F1, dt_receiver_handle = F2\<rparr>], []), st1)"
    by (simp add: check_data_def act_defs demo_transfer_ct MAX_TRANSFER_COUNT_def EXTRA_DATA_LIMIT_SUM_SIZE_def)
  define st2 where "st2 = mq_put_account alice \<lparr>sa_nonce = 4, sa_assets = [(TERMINOS_ASSET, \<lparr>commitment = F2, handle = F1\<rparr>)],
    sa_multisig = None\<rparr> sample_pool_state"
  let ?ct = "\<lparr>dt_commitment = F2, dt_sender_handle = F1, dt_receiver_handle = F2\<rparr>"
  have srcs: "verify_source_commitments sample_lib sample_pool_ops (demo_tx (Transfers [demo_transfer])) F1 [?ct] []
      [(\<lparr>sc_commitment = gf3_encode F2, sc_proof = sample_eq_proof F1, sc_asset = TERMINOS_ASSET\<rparr>, F2)]
      ((F1, F1), batch_collector_default, rng) st1 = (Inr ((F1, F1), b1, draw rng), st2)"
    by (simp add: act_defs or_decompression_def map_err_def ok_or_def sample_output on_state_def mempool_ops_def
      mq_get_sender_balance_def st1_def st2_def mq_put_account_def sample_pool_state_def mempool_state_new_def mempool_new_def sample_pool_source
      mq_put_sender_balance_def sample_commitment_transcript ciphertext_sub_def gf3_defs b1)
  define st3 where "st3 = mq_put_receiver_balance bob TERMINOS_ASSET \<lparr>commitment = F2, handle = F2\<rparr> st2"
  have outs: "verify_outputs sample_lib sample_pool_ops hash_zero (demo_tx (Transfers [demo_transfer])) F1 [?ct] []
      ((F1, F1), b1, draw rng) st2 = (Inr ((F1, F1), [(F2, gf3_encode F2)], b2, draw (draw rng)), st3)"
    by (simp add: verify_outputs_def act_defs or_decompression_def map_err_def ok_or_def on_state_def mempool_ops_def Let_def
      mq_get_receiver_balance_def st2_def st3_def mq_put_account_def sample_pool_state_def mempool_state_new_def mempool_new_def
      stored_balance_def and_then_def sample_store_def versioned_balance_zero_def versioned_balance_new_def receiver_entry_def
      mq_put_receiver_balance_def ciphertext_add_def ciphertext_zero_def dt_get_ciphertext_def gf3_defs b2 append_fixed
      transfer_proof_domain_separator_def append_public_key_def append_commitment_def append_handle_def)
  have sigs: "verify_signatures sample_lib sample_pool_ops F1 (demo_tx (Transfers [demo_transfer])) st1 = (Inr (), st1)"
    by (simp add: verify_signatures_def sample_signature act_defs on_state_def mempool_ops_def mq_get_multisig_state_def ok_or_def st1_def)
  have assets: "verify_commitment_assets (demo_tx (Transfers [demo_transfer]))"
    by (simp add: verify_commitment_assets_def has_commitment_for_asset_def)
  have "pre_verify sample_lib sample_pool_ops hash_zero (demo_tx (Transfers [demo_transfer])) (batch_collector_default, rng) sample_pool_state =
      (Inr (((F1, F1), final_commitments gf3_curve (st_source_commitments (demo_tx (Transfers [demo_transfer]))) [F2] [(F2, gf3_encode F2)]),
         b2, draw (draw rng)), st3)"
    by (simp add: pre_verify_def act_defs has_valid_version_format_def nonce assets data decompress_source_commitments_def
      or_decompression_def map_err_def ok_or_def sigs tx_transcript_def sample_transcript srcs outs
      del: verify_source_commitments.simps)
  then show ?thesis
    by (simp add: verify_tx_def no_zkp_cache_def act_defs map_err_def verify_sigma_def batch_verify_def b2)
qed

section \<open>Properties\<close>

text \<open>What a sender that was not loaded yet starts from.\<close>

lemma mempool_sender_account_assets: "mempool_sender_account D pool S k topo = Inr account \<Longrightarrow> sa_assets account = []"
  by (auto simp: mempool_sender_account_def and_then_def split: sum.splits)

lemma mq_entered:
  assumes "map_of (mq_accounts st) (st_source tx) = None" "mq_loaded (entered (mempool_ops C R V D) tx st) (st_source tx)"
  obtains account where "mempool_sender_account D (mq_mempool st) (mq_storage st) (st_source tx) (mq_topoheight st) = Inr account"
    "entered (mempool_ops C R V D) tx st = mq_put_account (st_source tx) account st"
  using assms by (auto simp: entered_def mempool_ops_def mq_get_account_nonce_def mq_loaded_def split: sum.splits)

lemma verified_pre_verify:
  assumes "verify_tx L B cache rng (tx, h) st = (Inr (), st')" "cache h = Inr False"
  obtains res where "pre_verify L B h tx (batch_collector_default, rng) st = (Inr res, st')"
  using assms by (auto simp: verify_tx_def act_iff map_err_def)

lemma map_option_diff:
  "b' = map_option (add_all cts) b \<Longrightarrow> cts \<noteq> [] \<longrightarrow> b \<noteq> None \<Longrightarrow>
     commitment (the b') - commitment (the b) = (\<Sum>ct \<leftarrow> cts. commitment ct)"
  by (cases b) (auto simp: commitment_add_all)


text \<open>The witness is Alice's transfer to Bob against the sample store: all five hypotheses hold there.\<close>

lemma sample_transfers_hyps:
  "no_zkp_cache hash_zero = Inr False" "st_data (demo_tx (Transfers [demo_transfer])) = Transfers [demo_transfer]"
  "map_of (mq_accounts sample_pool_state) (st_source (demo_tx d)) = None"
  "TERMINOS_ASSET \<in> sc_asset ` set (st_source_commitments (demo_tx d))"
  by (simp_all add: no_zkp_cache_def sample_pool_state_def mempool_state_new_def)




end
