(* ===== verification/ChainBalance.thy ===== *)
theory ChainBalance
  imports ChainApply MempoolState
begin

text \<open>
  The final balances of a block. A sender's proofs are checked against the balance its transaction
  refers to, which may be older than the one in the storage; what \<open>apply_changes\<close> stores is computed
  from the newest balance instead. The theory shows that this is the newest balance with everything
  received added and everything spent taken away, whatever the references were.
\<close>

section \<open>What the state relies on in the storage\<close>

definition same_balances :: "('S, 'p, 'v, 'm) storage_ops \<Rightarrow> 'S \<Rightarrow> 'S \<Rightarrow> bool" where
  "same_balances D S S' \<longleftrightarrow> so_get_new_versioned_balance D S' = so_get_new_versioned_balance D S \<and>
     so_get_balance_at_maximum_topoheight D S' = so_get_balance_at_maximum_topoheight D S"

lemma same_balances_refl [simp]: "same_balances D S S"
  by (simp add: same_balances_def)

lemma same_balances_trans: "same_balances D S S1 \<Longrightarrow> same_balances D S1 S2 \<Longrightarrow> same_balances D S S2"
  by (simp add: same_balances_def)

text \<open>
  The contract of the storage: what is written beside balances leaves the balances alone, as long as the
  storage is in a state (\<open>ready\<close>) that these writes keep.
\<close>

definition leaves_balances :: "('S, 'p, 'v, 'm) storage_ops \<Rightarrow> ('S \<Rightarrow> bool) \<Rightarrow> ('S, blockchain_error, 'a) act \<Rightarrow> bool" where
  "leaves_balances D ready m \<longleftrightarrow> (\<forall>S. ready S \<longrightarrow> ready (snd (m S)) \<and> same_balances D S (snd (m S)))"

locale balance_storage =
  fixes D :: "('S, 'p::ab_group_add, 'v, 'm) storage_ops" and ready :: "'S \<Rightarrow> bool"
  assumes nonce_frame: "leaves_balances D ready (so_set_last_nonce_to D k t n)"
    and multisig_frame: "leaves_balances D ready (so_set_last_multisig_to D k t m)"
    and energy_frame: "leaves_balances D ready (so_set_energy_resource D k t e)"

section \<open>The balance of a source\<close>

text \<open>
  An exchange on the newest version that was not switched to the output balance holds the newest
  balance less what was spent. The others are not relied on: their balance is fetched again.
\<close>

definition source_ok :: "('s, 'p::ab_group_add) curve \<Rightarrow> 'p ciphertext option \<Rightarrow> 'p echange \<Rightarrow> bool" where
  "source_ok C base ex \<longleftrightarrow> (ex_new_version ex \<and> \<not> ex_output_balance_used ex \<longrightarrow>
     take_ciphertext C (vb_final_balance (ex_version ex)) = map_option (\<lambda>b. ciphertext_sub b (ex_output_sum ex)) base)"

definition sources_ok ::
  "('s, 'p::ab_group_add) curve \<Rightarrow> ('S, 'p, 'v, 'm) storage_ops \<Rightarrow> ('S, 'p, 'm, 'env) chain_state \<Rightarrow> bool" where
  "sources_ok C D st \<longleftrightarrow> (\<forall>k account asset ex. map_of (ch_accounts st) k = Some account \<longrightarrow> map_of (ca_assets account) asset = Some ex \<longrightarrow>
     source_ok C (ch_base C D (ch_fixed st) k asset) ex)"

lemma sources_okD:
  "sources_ok C D st \<Longrightarrow> map_of (ch_accounts st) k = Some account \<Longrightarrow> map_of (ca_assets account) asset = Some ex \<Longrightarrow>
     source_ok C (ch_base C D (ch_fixed st) k asset) ex"
  by (simp add: sources_ok_def)

lemma sources_ok_cong:
  "ch_accounts st' = ch_accounts st \<Longrightarrow> ch_base C D (ch_fixed st') = ch_base C D (ch_fixed st) \<Longrightarrow> sources_ok C D st' = sources_ok C D st"
  by (simp add: sources_ok_def)

lemma sources_ok_account:
  "sources_ok C D st \<Longrightarrow> (\<And>asset ex. map_of (ca_assets account) asset = Some ex \<Longrightarrow> source_ok C (ch_base C D (ch_fixed st) k asset) ex) \<Longrightarrow>
     sources_ok C D (ch_put_account k account st)"
  by (auto simp: sources_ok_def)

lemma sources_ok_echange:
  "sources_ok C D st \<Longrightarrow> (map_of (ch_accounts st) k = None \<longrightarrow> ca_assets account = []) \<Longrightarrow>
     (map_of (ch_accounts st) k = None \<or> map_of (ch_accounts st) k = Some account) \<Longrightarrow>
     source_ok C (ch_base C D (ch_fixed st) k asset) ex \<Longrightarrow> sources_ok C D (ch_put_echange k account asset ex st)"
  unfolding ch_put_echange_def by (rule sources_ok_account) (auto split: if_splits dest: sources_okD)

lemma ciphertext_sub_zero [simp]: "ciphertext_sub c ciphertext_zero = c"
  by (simp add: ciphertext_sub_def ciphertext_zero_def)

lemma ciphertext_sub_add: "ciphertext_sub (ciphertext_sub b c) d = ciphertext_sub b (ciphertext_add c d)"
  by (simp add: ciphertext_sub_def ciphertext_add_def diff_diff_eq)

lemma new_echange_ok:
  assumes "create_sender_echange D S k asset topo rf = Inr ex"
  shows "source_ok C (ch_base C D (S, topo) k asset) ex"
  using assms
  by (auto simp: create_sender_echange_def search_versioned_balance_for_reference_def and_then_def Let_def echange_new_def source_ok_def
      ch_base_def option.map_ident split: sum.splits option.splits if_splits prod.splits)

text \<open>Looking at a balance through the reference \<open>get_balance\<close> gives keeps what the exchange stands for.\<close>

lemma get_balance_ok:
  assumes "source_ok C base ex" "echange_get_balance ex = (cache, ex')"
  shows "source_ok C base ex'" "computable C cache = Some (cache', ct) \<Longrightarrow> source_ok C base (echange_put_balance cache' ex')"
  using assms computable_stores [of C cache cache' ct]
  by (auto simp: source_ok_def echange_defs Let_def split: option.splits if_splits)

lemma use_echange_sources:
  assumes "sources_ok C D st" "map_of (ch_accounts st) k = None \<longrightarrow> ca_assets account = []"
    "map_of (ch_accounts st) k = None \<or> map_of (ch_accounts st) k = Some account"
    "source_ok C (ch_base C D (ch_fixed st) k asset) ex"
  shows "sources_ok C D (snd (ch_use_echange C k account asset ex st))"
proof -
  obtain cache ex' where get: "echange_get_balance ex = (cache, ex')" by (cases "echange_get_balance ex")
  note put = sources_ok_echange [OF assms(1-3)] get_balance_ok [OF assms(4) get]
  show ?thesis
  proof (cases "computable C cache")
    case (Some cc)
    then obtain cache' ct where "computable C cache = Some (cache', ct)" by (cases cc) simp
    then show ?thesis by (simp add: ch_use_echange_def get put)
  qed (simp add: ch_use_echange_def get put)
qed

lemma get_sender_sources [act_keep]: "preserves (sources_ok C D) (ch_get_sender_balance C D k asset rf)"
  unfolding preserves_def
proof (intro allI impI)
  fix st assume ok: "sources_ok C D st"
  have use: "sources_ok C D (snd (ch_use_echange C k account asset ex st))"
    if "map_of (ch_accounts st) k = None \<and> ca_assets account = [] \<or> map_of (ch_accounts st) k = Some account"
      "create_sender_echange D (ch_storage st) k asset (ch_topoheight st) rf = Inr ex \<or>
       map_of (ca_assets account) asset = Some ex \<and> map_of (ch_accounts st) k = Some account" for account ex
    using that ok by (intro use_echange_sources) (auto simp: ch_fixed_def dest: new_echange_ok sources_okD [OF ok])
  have new: "create_sender_account D k (ch_storage st) (ch_topoheight st) = Inr account \<Longrightarrow> ca_assets account = []" for account
    by (auto simp: create_sender_account_def and_then_def split: sum.splits prod.splits)
  show "sources_ok C D (snd (ch_get_sender_balance C D k asset rf st))"
    using ok by (auto simp: ch_get_sender_balance_def Let_def split: option.split sum.split intro!: use dest: new)
qed

lemma internal_account_sources [act_keep]: "preserves (sources_ok C D) (get_internal_account D k)"
proof -
  have new: "create_sender_account D k S topo = Inr account \<Longrightarrow> ca_assets account = []" for account S topo
    by (auto simp: create_sender_account_def and_then_def split: sum.splits prod.splits)
  show ?thesis
    by (auto simp: preserves_def get_internal_account_def split: option.split sum.split intro!: sources_ok_account dest: new)
qed

lemma update_account_sources:
  assumes f: "\<And>account. ca_assets (f account) = ca_assets account"
  shows "preserves (sources_ok C D) (act_bind (get_internal_account D k) (\<lambda>account. act_modify (ch_put_account k (f account))))"
  unfolding preserves_def
proof (intro allI impI)
  fix st assume ok: "sources_ok C D st"
  obtain r st' where get: "get_internal_account D k st = (r, st')" by (cases "get_internal_account D k st")
  note ok' = preservesD [OF internal_account_sources ok get]
  show "sources_ok C D (snd (act_bind (get_internal_account D k) (\<lambda>account. act_modify (ch_put_account k (f account))) st))"
  proof (cases r)
    case (Inr account)
    with get have "map_of (ch_accounts st') k = Some account" by (simp add: internal_account_ok(1))
    then show ?thesis
      by (simp add: act_bind_def get Inr act_modify_def) (rule sources_ok_account [OF ok'], simp add: f sources_okD [OF ok'])
  qed (simp add: act_bind_def get ok')
qed

lemma versioned_contract_sources [act_keep]: "preserves (sources_ok C D) (internal_get_versioned_contract D h)"
  by (auto simp: preserves_def internal_get_versioned_contract_def Let_def sources_ok_def ch_fixed_def split: option.split sum.split)

lemma sources_ok_simps [simp]:
  "sources_ok C D (ch_put_version k asset v st) = sources_ok C D st" "sources_ok C D (ch_put_receiver_balance k asset ct st) = sources_ok C D st"
  "sources_ok C D (st\<lparr>ch_contracts := cs\<rparr>) = sources_ok C D st" "sources_ok C D (st\<lparr>ch_receiver_balances := rb\<rparr>) = sources_ok C D st"
  by (simp_all add: sources_ok_def ch_put_receiver_balance_def ch_fixed_def ch_put_version_def split: option.split)

lemma get_receiver_sources [act_keep]: "preserves (sources_ok C D) (ch_get_receiver_balance C' D k asset)"
  by (auto simp: preserves_def ch_get_receiver_balance_def Let_def split: option.split sum.split prod.split)

lemma preserves_on_inner: "preserves P m \<Longrightarrow> preserves (\<lambda>st. P (ap_inner st)) (on_inner m)"
  by (auto simp: preserves_def on_inner_def split: prod.split)

lemma preserves_keeps_inner: "(\<And>st. ap_inner (snd (m st)) = ap_inner st) \<Longrightarrow> preserves (\<lambda>st. P (ap_inner st)) m"
  by (simp add: preserves_def)

text \<open>Beside that, the storage stays ready and the maps keep one entry per key.\<close>

definition well_kept :: "('S \<Rightarrow> bool) \<Rightarrow> ('S, 'p, 'm, 'env) chain_state \<Rightarrow> bool" where
  "well_kept ready st \<longleftrightarrow> ready (ch_storage st) \<and> distinct (map fst (ch_accounts st)) \<and>
     (\<forall>k account. map_of (ch_accounts st) k = Some account \<longrightarrow> distinct (map fst (ca_assets account)))"

lemma well_kept_simps [simp]:
  "well_kept ready (ch_put_version k asset v st) = well_kept ready st" "well_kept ready (st\<lparr>ch_contracts := cs\<rparr>) = well_kept ready st"
  "well_kept ready (st\<lparr>ch_receiver_balances := rb\<rparr>) = well_kept ready st" "well_kept ready (ch_put_receiver_balance k asset ct st) = well_kept ready st"
  by (simp_all add: well_kept_def ch_put_version_def ch_put_receiver_balance_def split: option.split)

lemma put_account_kept: "well_kept ready st \<Longrightarrow> distinct (map fst (ca_assets account)) \<Longrightarrow> well_kept ready (ch_put_account k account st)"
  by (simp add: well_kept_def ch_put_account_def distinct_map_insert)

lemma put_echange_kept: "well_kept ready st \<Longrightarrow> distinct (map fst (ca_assets account)) \<Longrightarrow> well_kept ready (ch_put_echange k account asset ex st)"
  unfolding ch_put_echange_def by (rule put_account_kept) (simp_all add: distinct_map_insert)

lemma well_kept_account: "well_kept ready st \<Longrightarrow> map_of (ch_accounts st) k = Some account \<Longrightarrow> distinct (map fst (ca_assets account))"
  by (simp add: well_kept_def)

lemma new_account_empty: "create_sender_account D k S topo = Inr account \<Longrightarrow> ca_assets account = []"
  by (auto simp: create_sender_account_def and_then_def split: sum.splits prod.splits)

lemma internal_account_kept [act_keep]: "preserves (well_kept ready) (get_internal_account D k)"
  by (auto simp: preserves_def get_internal_account_def new_account_empty split: option.split sum.split intro!: put_account_kept)

lemma update_account_kept:
  fixes D :: "('S, 'p::ab_group_add, 'v, 'm) storage_ops" and f :: "'p account \<Rightarrow> 'p account"
  assumes f: "\<And>account. ca_assets (f account) = ca_assets account"
  shows "preserves (well_kept ready) (act_bind (get_internal_account D k) (\<lambda>account. act_modify (ch_put_account k (f account))) ::
    (('S, 'p, 'm, 'env) chain_state, blockchain_error, unit) act)"
  unfolding preserves_def
proof (intro allI impI)
  fix st :: "('S, 'p, 'm, 'env) chain_state" assume ok: "well_kept ready st"
  obtain r st' where get: "get_internal_account D k st = (r, st')" by (cases "get_internal_account D k st")
  note ok' = preservesD [OF internal_account_kept ok get]
  show "well_kept ready (snd (act_bind (get_internal_account D k) (\<lambda>account. act_modify (ch_put_account k (f account))) st))"
  proof (cases r)
    case (Inr account)
    with get have "map_of (ch_accounts st') k = Some account" by (simp add: internal_account_ok(1))
    then show ?thesis using well_kept_account [OF ok'] by (simp add: act_bind_def get Inr act_modify_def put_account_kept [OF ok'] f)
  qed (simp add: act_bind_def get ok')
qed

lemma sender_kept [act_keep]:
  "preserves (well_kept ready) (ch_get_sender_balance C D k asset rf)" "preserves (well_kept ready) (ch_add_sender_output k asset ct)"
  by (auto simp: preserves_def ch_get_sender_balance_def ch_add_sender_output_def ch_use_echange_def Let_def new_account_empty
      split: option.split sum.split prod.split intro!: put_echange_kept intro: well_kept_account)

lemma put_sender_kept: "well_kept ready st \<Longrightarrow> well_kept ready (ch_put_sender_balance k asset ct st)"
  by (auto simp: ch_put_sender_balance_def split: option.split intro!: put_echange_kept intro: well_kept_account)

lemma versioned_contract_kept [act_keep]: "preserves (well_kept ready) (internal_get_versioned_contract D h)"
  by (auto simp: preserves_def internal_get_versioned_contract_def Let_def split: option.split sum.split)

lemma get_receiver_kept [act_keep]: "preserves (well_kept ready) (ch_get_receiver_balance C' D k asset)"
  by (auto simp: preserves_def ch_get_receiver_balance_def Let_def split: option.split sum.split prod.split)

lemma preserves_both: "preserves P m \<Longrightarrow> preserves Q m \<Longrightarrow> preserves (\<lambda>st. P st \<and> Q st) m"
  by (simp add: preserves_def)

text \<open>A write to the storage that leaves the balances alone.\<close>

lemma on_storage_keeps:
  assumes "leaves_balances D ready m" "well_kept ready st" "on_storage m st = (r, st')"
  shows "well_kept ready st'" "sources_ok C D st' = sources_ok C D st" "ch_base C D (ch_fixed st') = ch_base C D (ch_fixed st)"
    "ch_accounts st' = ch_accounts st" "ch_receiver_balances st' = ch_receiver_balances st"
proof -
  obtain r1 S' where m: "m (ch_storage st) = (r1, S')" by (cases "m (ch_storage st)")
  with assms(3) have st': "st' = st\<lparr>ch_storage := S'\<rparr>" by (simp add: on_storage_def)
  have S': "ready S'" "same_balances D (ch_storage st) S'"
    using assms(1) [unfolded leaves_balances_def, rule_format, of "ch_storage st"] assms(2) m by (simp_all add: well_kept_def)
  show "well_kept ready st'" "ch_accounts st' = ch_accounts st" "ch_receiver_balances st' = ch_receiver_balances st"
    using assms(2) S'(1) by (simp_all add: st' well_kept_def)
  show base: "ch_base C D (ch_fixed st') = ch_base C D (ch_fixed st)"
    using S'(2) by (simp add: st' ch_base_def ch_fixed_def same_balances_def fun_eq_iff)
  show "sources_ok C D st' = sources_ok C D st" by (rule sources_ok_cong [OF _ base]) (simp add: st')
qed

context balance_storage
begin

lemma energy_kept: "preserves (\<lambda>st :: ('S, 'p, 'm, 'env) chain_state. well_kept ready st \<and> sources_ok C D st) (\<lambda>st. on_storage (so_set_energy_resource D k (ch_topoheight st) e) st)"
  unfolding preserves_def
proof (intro allI impI)
  fix st :: "('S, 'p, 'm, 'env) chain_state" assume ok: "well_kept ready st \<and> sources_ok C D st"
  let ?m = "so_set_energy_resource D k (ch_topoheight st) e"
  note 1 = on_storage_keeps [OF energy_frame conjunct1 [OF ok] surjective_pairing]
  show "well_kept ready (snd (on_storage ?m st)) \<and> sources_ok C D (snd (on_storage ?m st))"
    using 1(1,2) ok by blast
qed

end

text \<open>Everything but the two writes to a sender's balance keeps the sources, one by one.\<close>

sublocale balance_storage \<subseteq> sources: tx_keeps "applicable_ops C R V D" "\<lambda>st. well_kept ready (ap_inner st) \<and> sources_ok C D (ap_inner st)" for C R V
proof (unfold_locales, unfold applicable_ops_def inner_ops_def chain_ops_def apply_state.simps verification_state.simps, goal_cases)
  case (4 k n)
  show ?case unfolding ch_update_account_nonce_def by (intro preserves_both preserves_on_inner update_account_sources update_account_kept) simp_all
next
  case (5 k p)
  show ?case unfolding ch_set_multisig_state_def by (intro preserves_both preserves_on_inner update_account_sources update_account_kept) simp_all
next
  case (13 h)
  show ?case unfolding ap_remove_contract_module_def by (intro preserves_both preserves_on_inner) (auto simp: preserves_def split: option.split)
next
  case (15 k e)
  show ?case unfolding ap_set_energy_resource_def by (rule preserves_on_inner [OF energy_kept])
qed (auto simp: ch_set_contract_module_def load_versioned_contract_def ap_get_energy_resource_def
    ap_add_burned_coins_def ap_add_gas_fee_def ap_set_contract_outputs_def ap_get_contract_environment_for_def ap_merge_contract_changes_def
    intro!: preserves_both preserves_on_inner act_keep split: prod.split)

section \<open>Spending\<close>

text \<open>The exchange a successful look at a sender's balance leaves.\<close>

definition settled :: "('s, 'p) curve \<Rightarrow> 'p echange \<Rightarrow> 'p ciphertext \<Rightarrow> bool" where
  "settled C ex ct \<longleftrightarrow> echange_value C ex = Some ct \<and>
     (\<forall>ct'. take_ciphertext C (set_computable ct' (fst (echange_get_balance ex))) = Some ct') \<and>
     (\<not> ex_output_balance_used ex \<longrightarrow> fst (echange_get_balance ex) = vb_final_balance (ex_version ex) \<and>
        (\<forall>c. vb_final_balance (ex_version (echange_put_balance c ex)) = c))"

lemma used_settled:
  assumes "echange_get_balance ex = (cache, ex')" "computable C cache = Some (cache', ct)"
  shows "settled C (echange_put_balance cache' ex') ct"
  using assms(1) computable_stores [OF assms(2)]
  by (auto simp: settled_def echange_value_def echange_put_put) (auto simp: echange_defs Let_def split: option.splits if_splits)

lemma get_sender_settled:
  assumes "ch_get_sender_balance C D k asset rf st = (Inr ct, st')"
  obtains account ex where "map_of (ch_accounts st) k = Some account \<or> map_of (ch_accounts st) k = None \<and> ca_assets account = []"
    "st' = ch_put_echange k account asset ex st" "settled C ex ct"
    "\<forall>ex0. map_of (ca_assets account) asset = Some ex0 \<longrightarrow> echange_value C ex0 = Some ct \<and> ex_output_sum ex = ex_output_sum ex0"
    "map_of (ca_assets account) asset = None \<Longrightarrow> ex_output_sum ex = ciphertext_zero"
proof -
  have new: "create_sender_account D k S topo = Inr account \<Longrightarrow> ca_assets account = []" for account S topo
    by (auto simp: create_sender_account_def and_then_def split: sum.splits prod.splits)
  have zero: "create_sender_echange D S k asset topo rf = Inr ex \<Longrightarrow> ex_output_sum ex = ciphertext_zero" for S topo ex
    by (auto simp: create_sender_echange_def and_then_def echange_new_def split: sum.splits prod.splits)
  from assms obtain account ex1 where acc: "map_of (ch_accounts st) k = Some account \<or> map_of (ch_accounts st) k = None \<and> ca_assets account = []"
    and use: "ch_use_echange C k account asset ex1 st = (Inr ct, st')"
    and ex1: "map_of (ca_assets account) asset = Some ex1 \<or> map_of (ca_assets account) asset = None \<and> ex_output_sum ex1 = ciphertext_zero"
    by (auto simp: ch_get_sender_balance_def Let_def split: option.splits sum.splits dest: new zero)
  from use obtain cache ex' cache' where get: "echange_get_balance ex1 = (cache, ex')" "computable C cache = Some (cache', ct)"
    and st': "st' = ch_put_echange k account asset (echange_put_balance cache' ex') st"
    by (auto simp: ch_use_echange_def Let_def split: prod.splits option.splits)
  show thesis
    by (rule that [OF acc st' used_settled [OF get]])
      (use ex1 get computable_stores [OF get(2)] in \<open>auto simp: echange_get_put(2) [OF get(1)] echange_value_def\<close>)
qed

lemma spend_source_ok:
  assumes "source_ok C base ex" "settled C ex ct"
  shows "source_ok C base (add_output_to_sum out (echange_put_balance (set_computable (ciphertext_sub ct out) (fst (echange_get_balance ex))) ex))"
proof -
  have "ex_output_balance_used (echange_put_balance c ex) = ex_output_balance_used ex" "ex_new_version (echange_put_balance c ex) = ex_new_version ex"
    "ex_output_sum (echange_put_balance c ex) = ex_output_sum ex" for c
    by (simp_all add: echange_put_balance_def)
  then show ?thesis
    using assms by (auto simp: source_ok_def settled_def add_output_to_sum_def echange_value_def ciphertext_sub_add)
qed

text \<open>One output: the balance read, written back less the output, and the output noted.\<close>

lemma spend_step:
  assumes ok: "sources_ok C D st" and get: "ch_get_sender_balance C D k asset rf st = (Inr ct, st1)"
    and add: "ch_add_sender_output k asset out (ch_put_sender_balance k asset (ciphertext_sub ct out) st1) = (r, st')"
  shows "r = Inr ()" "sources_ok C D st'"
    "\<exists>account ex. (map_of (ch_accounts st) k = Some account \<or> map_of (ch_accounts st) k = None \<and> ca_assets account = []) \<and>
       st' = ch_put_echange k account asset ex st"
proof -
  from get_sender_settled [OF get] obtain account ex where acc: "map_of (ch_accounts st) k = Some account \<or> map_of (ch_accounts st) k = None \<and> ca_assets account = []"
    and st1: "st1 = ch_put_echange k account asset ex st" and settled: "settled C ex ct" by metis
  let ?ex = "add_output_to_sum out (echange_put_balance (set_computable (ciphertext_sub ct out) (fst (echange_get_balance ex))) ex)"
  have st': "r = Inr ()" "st' = ch_put_echange k account asset ?ex st"
    using add unfolding ch_put_sender_ok [OF st1]
    by (simp_all add: ch_add_sender_output_def ch_put_echange_twice) (auto simp: ch_put_echange_def ch_put_account_def)
  have "sources_ok C D st1" using preservesD [OF get_sender_sources ok get] .
  then have "source_ok C (ch_base C D (ch_fixed st) k asset) ex"
    by (auto simp: st1 ch_put_echange_def sources_ok_def)
  from spend_source_ok [OF this settled] show "sources_ok C D st'"
    unfolding st' using acc ok by (intro sources_ok_echange) auto
  show "r = Inr ()" "\<exists>account ex. (map_of (ch_accounts st) k = Some account \<or> map_of (ch_accounts st) k = None \<and> ca_assets account = []) \<and>
      st' = ch_put_echange k account asset ex st"
    using st' acc by blast+
qed

lemma applicable_sender [simp]:
  "vs_get_sender_balance (as_vs (applicable_ops C R V D)) k asset rf = on_inner (ch_get_sender_balance C D k asset rf)"
  "vs_put_sender_balance (as_vs (applicable_ops C R V D)) k asset ct st = st\<lparr>ap_inner := ch_put_sender_balance k asset ct (ap_inner st)\<rparr>"
  "vs_add_sender_output (as_vs (applicable_ops C R V D)) k asset ct = on_inner (ch_add_sender_output k asset ct)"
  by (simp_all add: applicable_ops_def inner_ops_def chain_ops_def)

lemma on_inner_iff [act_iff]: "on_inner m st = (Inr x, st') \<longleftrightarrow> (\<exists>i. m (ap_inner st) = (Inr x, i) \<and> st' = st\<lparr>ap_inner := i\<rparr>)"
  by (auto simp: on_inner_def split: prod.split)

text \<open>
  The partial verification works on copies: what it will write is, for each asset, the balance that
  the state holds less the output.
\<close>

definition held_at :: "('s, 'p) curve \<Rightarrow> ('S, 'p, 'm, 'env) chain_state \<Rightarrow> public_key \<Rightarrow> hash \<Rightarrow> 'p ciphertext option" where
  "held_at C st k asset = (case map_of (ch_accounts st) k of None \<Rightarrow> None
     | Some account \<Rightarrow> (case held_source C account asset of None \<Rightarrow> None | Some v \<Rightarrow> v))"

lemma held_at_put:
  "map_of (ch_accounts st) k = Some account \<or> map_of (ch_accounts st) k = None \<and> ca_assets account = [] \<Longrightarrow>
     held_at C (ch_put_echange k account asset ex st) k = (held_at C st k)(asset := echange_value C ex)"
  by (auto simp: held_at_def fun_eq_iff ch_put_echange_twice) (simp add: held_source_def)

definition pinned ::
  "('s, 'p::ab_group_add) curve \<Rightarrow> public_key \<Rightarrow> ('S, 'p, 'm, 'env) chain_state \<Rightarrow> ('p ciphertext \<times> 'p ciphertext \<times> hash) list \<Rightarrow> bool" where
  "pinned C k st changes \<longleftrightarrow> (\<forall>(balance, out, asset) \<in> set changes. \<exists>ct. held_at C st k asset = Some ct \<and> balance = ciphertext_sub ct out)"

lemma get_sender_held:
  assumes "ch_get_sender_balance C D k asset rf st = (Inr ct, st1)"
  shows "held_at C st1 k = (held_at C st k)(asset := Some ct)" "held_at C st k asset \<noteq> None \<Longrightarrow> held_at C st k asset = Some ct"
proof -
  from get_sender_settled [OF assms] obtain account ex
    where acc: "map_of (ch_accounts st) k = Some account \<or> map_of (ch_accounts st) k = None \<and> ca_assets account = []"
    and st1: "st1 = ch_put_echange k account asset ex st" and settled: "settled C ex ct"
    and same: "\<forall>ex0. map_of (ca_assets account) asset = Some ex0 \<longrightarrow> echange_value C ex0 = Some ct \<and> ex_output_sum ex = ex_output_sum ex0"
    by metis
  show "held_at C st1 k = (held_at C st k)(asset := Some ct)"
    using settled by (simp add: st1 held_at_put [OF acc] settled_def)
  show "held_at C st k asset = Some ct" if "held_at C st k asset \<noteq> None"
    using that acc same by (auto simp: held_at_def held_source_def split: option.splits)
qed

lemma get_sender_pinned:
  assumes "pinned C k st changes" "ch_get_sender_balance C D k asset rf st = (Inr ct, st1)"
  shows "pinned C k st1 (changes @ [(ciphertext_sub ct out, out, asset)])"
  using assms(1) get_sender_held [OF assms(2)] by (fastforce simp: pinned_def)

lemma check_outputs_pinned:
  assumes "check_outputs L (applicable_ops (lib_curve L) R V D) tx owner ts ds cs acc changes st = (Inr (sigma, changes'), st')"
    "pinned (lib_curve L) (st_source tx) (ap_inner st) changes"
  shows "pinned (lib_curve L) (st_source tx) (ap_inner st') changes' \<and>
    map (snd \<circ> snd) changes' = map (snd \<circ> snd) changes @ map sc_asset cs"
  using assms
proof (induction cs arbitrary: acc changes st)
  case Nil
  then show ?case by (cases acc) (auto simp: act_iff)
next
  case (Cons c cs)
  obtain t b rng where acc: "acc = (t, b, rng)" by (cases acc)
  from Cons.prems(1) obtain out ct i acc1 where get: "ch_get_sender_balance (lib_curve L) D (st_source tx) (sc_asset c) (st_reference tx) (ap_inner st) = (Inr ct, i)"
    and rest: "check_outputs L (applicable_ops (lib_curve L) R V D) tx owner ts ds cs acc1
      (changes @ [(ciphertext_sub ct out, out, sc_asset c)]) (st\<lparr>ap_inner := i\<rparr>) = (Inr (sigma, changes'), st')"
    by (auto simp: acc act_iff)
  from Cons.IH [OF rest] get_sender_pinned [OF Cons.prems(2) get] show ?case by simp
qed

lemma commit_outputs_sources:
  assumes "sources_ok C D (ap_inner st)" "pinned C (st_source tx) (ap_inner st) changes" "distinct (map (snd \<circ> snd) changes)"
    "commit_outputs (applicable_ops C R V D) tx changes st = (r, st')"
  shows "sources_ok C D (ap_inner st')"
  using assms
proof (induction changes arbitrary: st)
  case Nil
  then show ?case by (simp add: ret_def)
next
  case (Cons change changes)
  let ?k = "st_source tx"
  obtain balance out asset where change: "change = (balance, out, asset)" by (cases change)
  obtain r1 i1 where get: "ch_get_sender_balance C D ?k asset (st_reference tx) (ap_inner st) = (r1, i1)"
    by (cases "ch_get_sender_balance C D ?k asset (st_reference tx) (ap_inner st)")
  note ok1 = preservesD [OF get_sender_sources Cons.prems(1) get]
  show ?case
  proof (cases r1)
    case (Inl e)
    then show ?thesis using Cons.prems(4) ok1
      by (auto simp: change act_then_def act_bind_def on_state_def act_map_err_def on_inner_def get)
  next
    case (Inr ct)
    note get = get [unfolded Inr]
    have balance: "balance = ciphertext_sub ct out"
      using get_sender_held(2) [OF get] Cons.prems(2) by (auto simp: change pinned_def)
    obtain r2 i2 where add: "ch_add_sender_output ?k asset out (ch_put_sender_balance ?k asset (ciphertext_sub ct out) i1) = (r2, i2)"
      by (cases "ch_add_sender_output ?k asset out (ch_put_sender_balance ?k asset (ciphertext_sub ct out) i1)")
    note step = spend_step [OF Cons.prems(1) get add]
    have "commit_outputs (applicable_ops C R V D) tx changes (st\<lparr>ap_inner := i2\<rparr>) = (r, st')"
      using Cons.prems(4) add step(1)
      by (simp add: change act_then_def act_bind_def on_state_def act_map_err_def on_inner_def get act_modify_def balance)
    moreover from step(3) obtain account ex where "map_of (ch_accounts (ap_inner st)) ?k = Some account \<or>
        map_of (ch_accounts (ap_inner st)) ?k = None \<and> ca_assets account = []" "i2 = ch_put_echange ?k account asset ex (ap_inner st)" by blast
    then have "pinned C ?k i2 changes"
      using Cons.prems(2,3) by (auto simp: change pinned_def held_at_put rev_image_eqI)
    ultimately show ?thesis using Cons.IH [of "st\<lparr>ap_inner := i2\<rparr>"] step(2) Cons.prems(3) by simp
  qed
qed

section \<open>Applying transactions\<close>

definition chain_inv ::
  "('S \<Rightarrow> bool) \<Rightarrow> ('s, 'p::ab_group_add) curve \<Rightarrow> ('S, 'p, 'v, 'm) storage_ops \<Rightarrow> ('S, 'p, 'm, 'env, 'w) applicable_chain_state \<Rightarrow> bool" where
  "chain_inv ready C D st \<longleftrightarrow> well_kept ready (ap_inner st) \<and> sources_ok C D (ap_inner st)"

lemma spend_sources:
  assumes "chain_inv ready C D st" "spend_outputs C (applicable_ops C R V D) tx ts ds assets st = (r, st')"
  shows "chain_inv ready C D st'"
  using assms
proof (induction assets arbitrary: st)
  case Nil
  then show ?case by (simp add: ret_def)
next
  case (Cons asset assets)
  let ?k = "st_source tx"
  obtain r1 i1 where get: "ch_get_sender_balance C D ?k asset (st_reference tx) (ap_inner st) = (r1, i1)"
    by (cases "ch_get_sender_balance C D ?k asset (st_reference tx) (ap_inner st)")
  have inv: "well_kept ready (ap_inner st)" "sources_ok C D (ap_inner st)" using Cons.prems(1) by (simp_all add: chain_inv_def)
  note ok1 = preservesD [OF get_sender_sources inv(2) get] preservesD [OF sender_kept(1) inv(1) get]
  show ?case
  proof (cases "\<exists>ct out. r1 = Inr ct \<and> get_sender_output_ct C tx asset ts ds = Some out")
    case False
    then have "st' = st\<lparr>ap_inner := i1\<rparr>" using Cons.prems(2)
      by (cases r1) (auto simp: act_bind_def on_state_def act_map_err_def on_inner_def get or_decompression_def act_lift_def ok_or_def map_err_def split: option.splits)
    then show ?thesis using ok1 by (simp add: chain_inv_def)
  next
    case True
    then obtain ct out where r1: "r1 = Inr ct" and out: "get_sender_output_ct C tx asset ts ds = Some out" by blast
    obtain r2 i2 where add: "ch_add_sender_output ?k asset out (ch_put_sender_balance ?k asset (ciphertext_sub ct out) i1) = (r2, i2)"
      by (cases "ch_add_sender_output ?k asset out (ch_put_sender_balance ?k asset (ciphertext_sub ct out) i1)")
    note step = spend_step [OF inv(2) get [unfolded r1] add] and kept = preservesD [OF sender_kept(2) put_sender_kept [OF ok1(2)] add]
    have "spend_outputs C (applicable_ops C R V D) tx ts ds assets (st\<lparr>ap_inner := i2\<rparr>) = (r, st')"
      using Cons.prems(2) add step(1)
      by (simp add: act_then_def act_bind_def on_state_def act_map_err_def on_inner_def get r1 act_modify_def or_decompression_def out act_lift_def ok_or_def map_err_def)
    then show ?thesis using Cons.IH [of "st\<lparr>ap_inner := i2\<rparr>"] step(2) kept by (simp add: chain_inv_def)
  qed
qed

lemma commit_outputs_kept: "preserves (\<lambda>st. well_kept ready (ap_inner st)) (commit_outputs (applicable_ops C R V D) tx changes)"
proof (induction changes)
  case Nil
  show ?case by (simp add: act_keep)
next
  case (Cons change changes)
  then show ?case by (cases change) (auto simp: on_state_def intro!: act_keep preserves_on_inner put_sender_kept)
qed

context balance_storage
begin

lemma chain_tx_keeps: "preserves (chain_inv ready C D) (apply_tx L W (applicable_ops C R V D) h tx cts)"
    "preserves (chain_inv ready C D) (check_outputs L (applicable_ops C R V D) tx owner ts ds cs acc changes)"
  using sources.apply_keeps sources.check_keeps unfolding chain_inv_def .

lemma chain_without_verify: "preserves (chain_inv ready (lib_curve L) D) (apply_without_verify L W (applicable_ops (lib_curve L) R V D) h tx)"
proof -
  have "preserves (chain_inv ready (lib_curve L) D) (spend_outputs (lib_curve L) (applicable_ops (lib_curve L) R V D) tx ts ds assets)" for ts ds assets
    unfolding preserves_def using spend_sources [OF _ surjective_pairing] by blast
  then show ?thesis
    unfolding apply_without_verify_def or_decompression_def by (auto intro!: act_keep chain_tx_keeps split: prod.split)
qed

end

context balance_storage
begin

text \<open>
  The partial verification reads the balances of all source commitments before it writes any: the
  commitments of a transaction are for different assets.
\<close>

lemma chain_partial_verify:
  fixes L :: "('s::field, 'p, 't, 'r, 'e, 'v, 'm, 'env) verify_lib"
  assumes "distinct (map sc_asset (st_source_commitments tx))"
  shows "preserves (chain_inv ready (lib_curve L) D) (apply_with_partial_verify L W (applicable_ops (lib_curve L) R V D) h tx rng)"
proof -
  let ?A = "applicable_ops (lib_curve L) R V D" and ?I = "chain_inv ready (lib_curve L) D"
  have outputs: "preserves ?I (act_bind (check_outputs L ?A tx owner ts ds (st_source_commitments tx) acc []) (\<lambda>((b, rng), changes).
      act_then (act_lift (verify_sigma (lib_curve L) (b, rng))) (act_then (commit_outputs ?A tx changes) (apply_tx L W ?A h tx ds))))" for owner ts ds acc
    unfolding preserves_def
  proof (intro allI impI)
    fix st :: "('S, 'p, 'm, 'env, 'v) applicable_chain_state" assume inv: "?I st"
    obtain r1 st1 where check: "check_outputs L ?A tx owner ts ds (st_source_commitments tx) acc [] st = (r1, st1)"
      by (cases "check_outputs L ?A tx owner ts ds (st_source_commitments tx) acc [] st")
    note inv1 = preservesD [OF chain_tx_keeps(2) inv check]
    show "?I (snd (act_bind (check_outputs L ?A tx owner ts ds (st_source_commitments tx) acc []) (\<lambda>((b, rng), changes).
      act_then (act_lift (verify_sigma (lib_curve L) (b, rng))) (act_then (commit_outputs ?A tx changes) (apply_tx L W ?A h tx ds))) st))"
    proof (cases r1)
      case (Inl e)
      then show ?thesis using inv1 by (simp add: act_bind_def check)
    next
      case (Inr x)
      obtain b rng changes where x: "x = ((b, rng), changes)" by (cases x) auto
      have pinned: "pinned (lib_curve L) (st_source tx) (ap_inner st1) changes" "map (snd \<circ> snd) changes = map sc_asset (st_source_commitments tx)"
        using check_outputs_pinned [OF check [unfolded Inr x]] by (simp_all add: pinned_def)
      have commit: "?I st2" if "commit_outputs ?A tx changes st1 = (r2, st2)" for r2 :: "(blockchain_error, 'e) verification_error + unit" and st2
        using commit_outputs_sources [OF _ pinned(1) _ that] preservesD [OF commit_outputs_kept _ that] inv1 assms
        by (simp add: chain_inv_def pinned(2))
      obtain r2 :: "(blockchain_error, 'e) verification_error + unit" and st2 where 2: "commit_outputs ?A tx changes st1 = (r2, st2)"
        by fastforce
      have "?I (snd (act_then (commit_outputs ?A tx changes) (apply_tx L W ?A h tx ds) st1))"
        using commit [OF 2] chain_tx_keeps(1) [of "lib_curve L" L W R V h tx ds] by (cases r2) (simp_all add: act_then_def act_bind_def 2 preserves_def)
      then show ?thesis using inv1
        by (simp add: act_bind_def [of "check_outputs _ _ _ _ _ _ _ _ _"] check Inr x act_then_def [of "act_lift _"] act_bind_def [of "act_lift _"]
            act_lift_def split: sum.split)
    qed
  qed
  show ?thesis
    unfolding apply_with_partial_verify_def or_decompression_def by (auto intro!: act_keep outputs split: prod.split)
qed

end

section \<open>The transactions of a block\<close>

text \<open>
  What the daemon does to the chain state of a block before it stores the changes: it applies
  transactions, with or without the partial verification, and pays rewards. A step that fails is
  followed by others, as the daemon skips the transaction.
\<close>

inductive block_step ::
  "('s::field, 'p::ab_group_add, 't, 'r, 'e, 'v, 'm, 'env) verify_lib \<Rightarrow> ('w, 's, 'v, 'm, 'r, 'env, 'S) vm_lib \<Rightarrow>
   ('s, 'p, 't, 'r, 'e) range_lib \<Rightarrow> ('v, 'm) vm_codec \<Rightarrow> ('S, 'p, 'v, 'm) storage_ops \<Rightarrow>
   ('S, 'p, 'm, 'env, 'v) applicable_chain_state \<Rightarrow> ('S, 'p, 'm, 'env, 'v) applicable_chain_state \<Rightarrow> bool"
  for L W R V D where
  unverified: "apply_without_verify L W (applicable_ops (lib_curve L) R V D) h tx st = (r, st') \<Longrightarrow> block_step L W R V D st st'"
| verified: "distinct (map sc_asset (st_source_commitments tx)) \<Longrightarrow>
    apply_with_partial_verify L W (applicable_ops (lib_curve L) R V D) h tx rng st = (r, st') \<Longrightarrow> block_step L W R V D st st'"
| reward: "on_inner (reward_miner (lib_curve L) D k coins) st = (r2, st') \<Longrightarrow> block_step L W R V D st st'"

context balance_storage
begin

lemma block_step_inv: "block_step L W R V D st st' \<Longrightarrow> chain_inv ready (lib_curve L) D st \<Longrightarrow> chain_inv ready (lib_curve L) D st'"
proof (induction rule: block_step.induct)
  case (unverified h tx st r st')
  then show ?case using preservesD [OF chain_without_verify] by blast
next
  case (verified tx h rng st r st')
  from preservesD [OF chain_partial_verify [OF verified(1)] verified.prems verified(2)] show ?case .
next
  case (reward k coins st r2 st')
  have "preserves (\<lambda>st. well_kept ready (ap_inner st) \<and> sources_ok (lib_curve L) D (ap_inner st)) (on_inner (reward_miner (lib_curve L) D k coins))"
    unfolding reward_miner_def by (intro preserves_both preserves_on_inner act_keep) simp_all
  from preservesD [OF this _ reward(1)] reward.prems show ?case by (simp add: chain_inv_def)
qed

lemma block_inv:
  assumes "(block_step L W R V D)\<^sup>*\<^sup>* (applicable_new S env st_topo topo bv burned h b) st" "ready S"
  shows "chain_inv ready (lib_curve L) D st"
  using assms(1)
proof (induction rule: rtranclp_induct)
  case base
  show ?case using assms(2) by (simp add: chain_inv_def well_kept_def sources_ok_def applicable_new_def chain_state_with_def)
qed (rule block_step_inv)

end

section \<open>Final balances\<close>

text \<open>The balance of an account as the chain state has it, and what the account spent.\<close>

definition ch_balance ::
  "('s, 'p) curve \<Rightarrow> ('S, 'p, 'v, 'm) storage_ops \<Rightarrow> ('S, 'p, 'm, 'env) chain_state \<Rightarrow> public_key \<Rightarrow> hash \<Rightarrow> 'p ciphertext option" where
  "ch_balance C D st k asset = (case held_balance C st k asset of Some v \<Rightarrow> v | None \<Rightarrow> ch_base C D (ch_fixed st) k asset)"

definition spent_on :: "(hash \<times> 'p::ab_group_add echange) list \<Rightarrow> hash \<Rightarrow> 'p ciphertext" where
  "spent_on exs asset = (case map_of exs asset of Some ex \<Rightarrow> ex_output_sum ex | None \<Rightarrow> ciphertext_zero)"

definition spent_by :: "(public_key \<times> 'p::ab_group_add account) list \<Rightarrow> public_key \<Rightarrow> hash \<Rightarrow> 'p ciphertext" where
  "spent_by accounts k = (case map_of accounts k of Some account \<Rightarrow> spent_on (ca_assets account) | None \<Rightarrow> (\<lambda>_. ciphertext_zero))"

definition less_spent :: "'p::ab_group_add ciphertext \<Rightarrow> 'p ciphertext option \<Rightarrow> 'p ciphertext option" where
  "less_spent out = map_option (\<lambda>b. ciphertext_sub b out)"

lemma less_spent_zero [simp]: "less_spent ciphertext_zero b = b"
  by (simp add: less_spent_def option.map_ident)

lemma balance_put_version:
  "ch_balance C D (ch_put_version k asset v st) = (ch_balance C D st)(k := (ch_balance C D st k)(asset := take_ciphertext C (vb_final_balance v)))"
proof -
  have "ch_fixed (ch_put_version k asset v st) = ch_fixed st" by (simp add: ch_put_version_def ch_fixed_def)
  moreover have "ch_receiver_entry k' (ch_put_version k asset v st) = (if k' = k then map_insert asset v (ch_receiver_entry k st) else ch_receiver_entry k' st)" for k'
    by (simp add: ch_put_version_def ch_receiver_entry_def)
  ultimately show ?thesis by (auto simp: ch_balance_def held_balance_def fun_eq_iff split: option.split)
qed

text \<open>One exchange: what is put for the asset is the balance of the state less what was spent.\<close>

lemma merge_one:
  assumes ok: "source_ok C (ch_base C D (ch_fixed st) k asset) ex" and run: "merge_echange C D k (asset, ex) st = (Inr (), st')"
  shows "ch_balance C D st' = (ch_balance C D st)(k := (ch_balance C D st k)(asset := less_spent (ex_output_sum ex) (ch_balance C D st k asset)))"
    "ch_fixed st' = ch_fixed st" "ch_accounts st' = ch_accounts st"
proof -
  obtain v where st': "st' = ch_put_version k asset v st"
    and v: "take_ciphertext C (vb_final_balance v) = less_spent (ex_output_sum ex) (ch_balance C D st k asset)"
  proof (cases "map_of (ch_receiver_entry k st) asset")
    case (Some final)
    then obtain cache ct where c: "computable C (vb_final_balance final) = Some (cache, ct)"
      and st': "st' = ch_put_version k asset (fst (merge_received C ex final)) st"
      using run by (auto simp: merge_echange_def merge_received_def Let_def split: option.splits)
    have "take_ciphertext C (vb_final_balance (fst (merge_received C ex final))) = Some (ciphertext_sub ct (ex_output_sum ex))"
      using computable_stores(3) [OF c] by (simp add: merge_received_def Let_def c)
    moreover have "ch_balance C D st k asset = Some ct" using computable_stores(1) [OF c] by (simp add: ch_balance_def held_balance_def Some)
    ultimately show ?thesis by (intro that [OF st']) (simp add: less_spent_def)
  next
    case None
    then obtain v where v: "merge_spent C D k asset ex st = Inr v" "st' = ch_put_version k asset v st"
      using run by (auto simp: merge_echange_def split: sum.splits)
    have base: "ch_balance C D st k asset = ch_base C D (ch_fixed st) k asset" by (simp add: ch_balance_def held_balance_def None)
    have "take_ciphertext C (vb_final_balance v) = less_spent (ex_output_sum ex) (ch_base C D (ch_fixed st) k asset)"
    proof (cases "ex_output_balance_used ex \<or> \<not> ex_new_version ex")
      case True
      with v(1) obtain new b cache ct where n: "so_get_new_versioned_balance D (ch_storage st) k asset (ch_topoheight st) = Inr (new, b)"
        "computable C (vb_final_balance new) = Some (cache, ct)"
        "vb_final_balance v = set_computable (ciphertext_sub ct (ex_output_sum ex)) cache"
        by (auto simp: merge_spent_def and_then_def ok_or_def Let_def split: sum.splits option.splits prod.splits if_splits)
      then show ?thesis using computable_stores [OF n(2)] by (simp add: ch_base_def ch_fixed_def less_spent_def)
    next
      case False
      then show ?thesis using v(1) ok by (auto simp: merge_spent_def source_ok_def less_spent_def)
    qed
    then show ?thesis by (intro that [OF v(2)]) (simp add: base)
  qed
  show "ch_balance C D st' = (ch_balance C D st)(k := (ch_balance C D st k)(asset := less_spent (ex_output_sum ex) (ch_balance C D st k asset)))"
    by (simp add: st' balance_put_version v)
  show "ch_fixed st' = ch_fixed st" "ch_accounts st' = ch_accounts st" by (simp_all add: st' ch_put_version_def ch_fixed_def)
qed

lemma merge_all:
  assumes "act_each (merge_echange C D k) exs st = (Inr (), st')" "distinct (map fst exs)"
    "\<forall>(asset, ex) \<in> set exs. source_ok C (ch_base C D (ch_fixed st) k asset) ex"
  shows "ch_balance C D st' = (ch_balance C D st)(k := \<lambda>asset. less_spent (spent_on exs asset) (ch_balance C D st k asset)) \<and>
    ch_fixed st' = ch_fixed st \<and> ch_accounts st' = ch_accounts st"
  using assms
proof (induction exs arbitrary: st)
  case Nil
  then show ?case by (simp add: ret_def spent_on_def)
next
  case (Cons x exs)
  obtain asset ex where x: "x = (asset, ex)" by (cases x)
  from Cons.prems(1) obtain st1 where 1: "merge_echange C D k (asset, ex) st = (Inr (), st1)" "act_each (merge_echange C D k) exs st1 = (Inr (), st')"
    by (auto simp: x act_iff)
  note one = merge_one [OF _ 1(1)]
  have "source_ok C (ch_base C D (ch_fixed st) k asset) ex" using Cons.prems(3) by (simp add: x)
  note one = one [OF this]
  have "asset \<notin> fst ` set exs" using Cons.prems(2) by (simp add: x)
  then have none: "map_of exs asset = None" by (simp add: map_of_eq_None_iff)
  have "ch_balance C D st' = (ch_balance C D st1)(k := \<lambda>asset. less_spent (spent_on exs asset) (ch_balance C D st1 k asset)) \<and>
    ch_fixed st' = ch_fixed st1 \<and> ch_accounts st' = ch_accounts st1"
    using Cons.prems(2,3) by (intro Cons.IH [OF 1(2)]) (auto simp: one(2))
  then show ?case using none by (auto simp: one x spent_on_def fun_eq_iff)
qed

lemma balance_insert_entry:
  "ch_balance C D (st\<lparr>ch_receiver_balances := map_insert k (ch_receiver_entry k st) (ch_receiver_balances st)\<rparr>) = ch_balance C D st"
proof -
  let ?st = "st\<lparr>ch_receiver_balances := map_insert k (ch_receiver_entry k st) (ch_receiver_balances st)\<rparr>"
  have "ch_receiver_entry k' ?st = ch_receiver_entry k' st" for k' by (simp add: ch_receiver_entry_def)
  moreover have "ch_fixed ?st = ch_fixed st" by (simp add: ch_fixed_def)
  ultimately show ?thesis by (auto simp: ch_balance_def held_balance_def fun_eq_iff split: option.split)
qed

context balance_storage
begin

lemma storage_balance:
  fixes st :: "('S, 'p, 'm, 'env) chain_state"
  assumes "leaves_balances D ready m" "well_kept ready st" "on_storage m st = (r, st')"
  shows "well_kept ready st'" "ch_balance C D st' = ch_balance C D st" "ch_base C D (ch_fixed st') = ch_base C D (ch_fixed st)"
    "ch_accounts st' = ch_accounts st" "ch_receiver_balances st' = ch_receiver_balances st"
proof -
  note 1 = on_storage_keeps [OF assms]
  show "well_kept ready st'" "ch_base C D (ch_fixed st') = ch_base C D (ch_fixed st)"
    "ch_accounts st' = ch_accounts st" "ch_receiver_balances st' = ch_receiver_balances st" using 1 by simp_all
  show "ch_balance C D st' = ch_balance C D st"
    by (auto simp: ch_balance_def held_balance_def ch_receiver_entry_def 1(3) [of C] 1(5) fun_eq_iff split: option.split)
qed

lemma store_one:
  assumes inv: "well_kept ready st" "sources_ok C D st" and account: "map_of (ch_accounts st) k = Some account"
    and run: "store_account C D (k, account) st = (Inr (), st')"
  shows "ch_balance C D st' = (ch_balance C D st)(k := \<lambda>asset. less_spent (spent_on (ca_assets account) asset) (ch_balance C D st k asset))"
    "well_kept ready st'" "sources_ok C D st'" "ch_accounts st' = ch_accounts st"
proof -
  from run obtain u1 u2 st1 st2 where
    1: "on_storage (so_set_last_nonce_to D k (ch_topoheight st) (ca_nonce account)) st = (Inr u1, st1)"
    and 2: "(case ca_multisig account of
        Some (state, multisig) \<Rightarrow> if should_be_stored state
          then (\<lambda>st. on_storage (so_set_last_multisig_to D k (ch_topoheight st)
            \<lparr>vd_previous_topoheight = state_topoheight state, vd_data = multisig\<rparr>) st)
          else ret ()
      | None \<Rightarrow> ret ()) st1 = (Inr u2, st2)"
    and 3: "act_each (merge_echange C D k) (ca_assets account)
      (st2\<lparr>ch_receiver_balances := map_insert k (ch_receiver_entry k st2) (ch_receiver_balances st2)\<rparr>) = (Inr (), st')"
    by (auto simp: store_account_def act_iff)
  have k1: "well_kept ready st1" "ch_balance C D st1 = ch_balance C D st" "ch_base C D (ch_fixed st1) = ch_base C D (ch_fixed st)"
    "ch_accounts st1 = ch_accounts st"
    by (rule storage_balance [OF nonce_frame inv(1) 1])+
  have multisig: "well_kept ready st2 \<and> ch_balance C D st2 = ch_balance C D st1 \<and> ch_base C D (ch_fixed st2) = ch_base C D (ch_fixed st1) \<and>
      ch_accounts st2 = ch_accounts st1" if "on_storage (so_set_last_multisig_to D k t m) st1 = (r, st2)" for t m r
    by (intro conjI) (rule storage_balance [OF multisig_frame k1(1) that])+
  have k2: "well_kept ready st2" "ch_balance C D st2 = ch_balance C D st1" "ch_base C D (ch_fixed st2) = ch_base C D (ch_fixed st1)"
    "ch_accounts st2 = ch_accounts st1"
    using 2 k1(1) multisig
    by (auto simp: ret_def split: option.splits prod.splits if_splits)
  let ?st = "st2\<lparr>ch_receiver_balances := map_insert k (ch_receiver_entry k st2) (ch_receiver_balances st2)\<rparr>"
  have fixed: "ch_base C D (ch_fixed ?st) = ch_base C D (ch_fixed st)" using k1(3) k2(3) by (simp add: ch_fixed_def)
  have all: "ch_balance C D st' = (ch_balance C D ?st)(k := \<lambda>asset. less_spent (spent_on (ca_assets account) asset) (ch_balance C D ?st k asset)) \<and>
    ch_fixed st' = ch_fixed ?st \<and> ch_accounts st' = ch_accounts ?st"
  proof (rule merge_all [OF 3])
    show distinct: "distinct (map fst (ca_assets account))" by (rule well_kept_account [OF inv(1) account])
    show "\<forall>(asset, ex) \<in> set (ca_assets account). source_ok C (ch_base C D (ch_fixed ?st) k asset) ex"
      using sources_okD [OF inv(2) account] map_of_is_SomeI [OF distinct] by (auto simp: fixed)
  qed
  show "ch_balance C D st' = (ch_balance C D st)(k := \<lambda>asset. less_spent (spent_on (ca_assets account) asset) (ch_balance C D st k asset))"
    using all k1(2) k2(2) by (simp add: balance_insert_entry)
  show accounts: "ch_accounts st' = ch_accounts st" using all k1(4) k2(4) by simp
  show "sources_ok C D st'" using all fixed inv(2) by (intro sources_ok_cong [THEN iffD2, OF accounts]) simp_all
  show "well_kept ready st'" using k2(1) all accounts k2(4) k1(4) by (simp add: well_kept_def ch_fixed_def)
qed

end

context balance_storage
begin

lemma store_all:
  assumes "well_kept ready st" "sources_ok C D st" "distinct (map fst as)" "\<forall>(k, account) \<in> set as. map_of (ch_accounts st) k = Some account"
    and "act_each (store_account C D) as st = (Inr (), st')"
  shows "ch_balance C D st' k asset = less_spent (spent_by as k asset) (ch_balance C D st k asset)"
  using assms
proof (induction as arbitrary: st)
  case Nil
  then show ?case by (simp add: ret_def spent_by_def)
next
  case (Cons x as)
  obtain k1 account where x: "x = (k1, account)" by (cases x)
  from Cons.prems(5) obtain st1 where 1: "store_account C D (k1, account) st = (Inr (), st1)" "act_each (store_account C D) as st1 = (Inr (), st')"
    by (auto simp: x act_iff)
  have "map_of (ch_accounts st) k1 = Some account" using Cons.prems(4) by (simp add: x)
  note one = store_one [OF Cons.prems(1,2) this 1(1)]
  have "ch_balance C D st' k asset = less_spent (spent_by as k asset) (ch_balance C D st1 k asset)"
    using Cons.prems(3,4) by (intro Cons.IH [OF one(2,3) _ _ 1(2)]) (simp_all add: one(4))
  moreover have "k1 \<notin> fst ` set as" using Cons.prems(3) by (simp add: x)
  then have "map_of as k1 = None" by (simp add: map_of_eq_None_iff)
  ultimately show ?case by (auto simp: one(1) x spent_by_def)
qed

end

section \<open>Properties\<close>


section \<open>A concrete block\<close>

text \<open>Alice sends to Bob and pays no fee; contracts do nothing.\<close>

definition idle_vm :: "(unit, gf3, u8, u8, u8 list, unit, unit) vm_lib" where
  "idle_vm = \<lparr>vm_new = (\<lambda>_. ()), vm_append_module = (\<lambda>_. Inr), vm_invoke_entry_chunk = (\<lambda>_. Inr), vm_invoke_hook_id = (\<lambda>_ w. Inr (False, w)),
     vm_push_stack = (\<lambda>_. Inr), vm_set_gas_limit = (\<lambda>_ w. w), vm_run = (\<lambda>_ _ cs w. (Inl '''', cs, w)), vm_current_gas_usage = (\<lambda>_. 0), vm_as_u64 = (\<lambda>_. None)\<rparr>"

definition payment :: "(gf3, u8, u8, u8 list) signed_transaction" where
  "payment = (demo_tx (Transfers [demo_transfer]))\<lparr>st_fee_type := FeeTOS\<rparr>"

definition sample_block_state :: "(unit, gf3, u8, unit, u8) applicable_chain_state" where
  "sample_block_state = applicable_new () () 0 10 V3 0 hash_zero
     \<lparr>bh_version = V3, bh_tips = [], bh_timestamp = 0, bh_height = 0, bh_nonce = 0, bh_extra_nonce = [], bh_miner = alice, bh_txs_hashes = []\<rparr>"

definition alice_paid :: "gf3 account" where
  "alice_paid = \<lparr>ca_nonce = \<lparr>vn_nonce = 4, vn_previous_topoheight = Some 9\<rparr>,
     ca_assets = [(TERMINOS_ASSET, add_output_to_sum \<lparr>commitment = F2, handle = F1\<rparr>
       (echange_put_balance (Decompressed \<lparr>commitment = F2, handle = F1\<rparr>) (echange_new False False alice_balance)))], ca_multisig = None\<rparr>"

lemma payment_fields [simp]:
  "st_source payment = alice" "st_data payment = Transfers [demo_transfer]" "st_fee_type payment = FeeTOS" "st_nonce payment = 3"
  "st_reference payment = \<lparr>rf_hash = hash_zero, rf_topoheight = 9\<rparr>" "map sc_asset (st_source_commitments payment) = [TERMINOS_ASSET]"
  by (simp_all add: payment_def)

lemma payment_output:
  "get_sender_output_ct gf3_curve payment TERMINOS_ASSET
     [\<lparr>dt_commitment = F2, dt_sender_handle = F1, dt_receiver_handle = F2\<rparr>] [] = Some \<lparr>commitment = F2, handle = F1\<rparr>"
  using sample_output by (simp add: get_sender_output_ct_def payment_def add_native_def)

abbreviation alice_account :: "gf3 account" where
  "alice_account \<equiv> \<lparr>ca_nonce = \<lparr>vn_nonce = 3, vn_previous_topoheight = Some 9\<rparr>, ca_assets = [], ca_multisig = None\<rparr>"

lemma sample_inner [simp]:
  "ch_storage (ap_inner sample_block_state) = ()" "ch_topoheight (ap_inner sample_block_state) = 10" "ch_accounts (ap_inner sample_block_state) = []"
  "ch_receiver_balances (ap_inner sample_block_state) = []"
  by (simp_all add: sample_block_state_def applicable_new_def chain_state_with_def)

lemma alice_loaded:
  "create_sender_echange sample_store () alice asset 10 \<lparr>rf_hash = hash_zero, rf_topoheight = 9\<rparr> = Inr (echange_new False False alice_balance)"
  "create_sender_account sample_store alice () 10 = Inr alice_account"
  by (simp_all add: create_sender_echange_def sample_search and_then_def create_sender_account_def ok_or_def)
    (simp add: sample_store_def)

lemma alice_spends:
  "spend_outputs gf3_curve (applicable_ops gf3_curve bytes_range byte_vm sample_store) payment
     [\<lparr>dt_commitment = F2, dt_sender_handle = F1, dt_receiver_handle = F2\<rparr>] [] [TERMINOS_ASSET] sample_block_state =
   (Inr (), sample_block_state\<lparr>ap_inner := ch_put_account alice (alice_paid\<lparr>ca_nonce := ca_nonce alice_account\<rparr>) (ap_inner sample_block_state)\<rparr>)"
  by (simp add: act_defs on_state_def on_inner_def or_decompression_def payment_output ok_or_def map_err_def
    ch_get_sender_balance_def alice_loaded Let_def ch_use_echange_def echange_defs echange_new_def alice_balance_def versioned_balance_new_def
    ch_put_echange_def ch_put_account_def ch_put_sender_balance_def ch_add_sender_output_def alice_paid_def add_output_to_sum_def ciphertext_sub_def gf3_defs)

lemma bob_new: "so_get_new_versioned_balance sample_store () bob asset topo = Inr (versioned_balance_zero, True)"
  by (simp add: sample_store_def)

definition paid_state :: "(unit, gf3, u8, unit, u8) applicable_chain_state" where
  "paid_state = sample_block_state\<lparr>ap_inner := ch_put_version bob TERMINOS_ASSET
     (versioned_balance_zero\<lparr>vb_final_balance := Decompressed \<lparr>commitment = F2, handle = F2\<rparr>\<rparr>) (ch_put_account alice alice_paid (ap_inner sample_block_state))\<rparr>"

lemma payment_applied:
  "apply_without_verify sample_lib idle_vm (applicable_ops gf3_curve bytes_range byte_vm sample_store) hash_zero payment sample_block_state = (Inr (), paid_state)"
proof -
  have d: "decompress_for_apply gf3_curve payment = Some ([\<lparr>dt_commitment = F2, dt_sender_handle = F1, dt_receiver_handle = F2\<rparr>], [])"
    by (simp add: decompress_for_apply_def demo_transfer_ct)
  have "apply_tx sample_lib idle_vm (applicable_ops gf3_curve bytes_range byte_vm sample_store) hash_zero payment []
    (sample_block_state\<lparr>ap_inner := ch_put_account alice (alice_paid\<lparr>ca_nonce := ca_nonce alice_account\<rparr>) (ap_inner sample_block_state)\<rparr>) =
    (Inr (), paid_state)"
    by (simp add: apply_tx_def act_defs on_state_def pay_with_energy_def is_energy_def apply_data_def credit_receiver_def applicable_ops_def inner_ops_def
      chain_ops_def on_inner_def ch_update_account_nonce_def get_internal_account_def ch_put_account_def alice_paid_def paid_state_def ch_get_receiver_balance_def
      Let_def ch_receiver_entry_def ch_put_version_def ch_put_receiver_balance_def tr_get_ciphertext_def
      bob_new and_then_def versioned_balance_zero_def versioned_balance_new_def decompress_ciphertext_def map_err_def ok_or_def ciphertext_zero_def ciphertext_add_def gf3_defs)
  then show ?thesis
    by (simp add: apply_without_verify_def act_defs or_decompression_def d ok_or_def map_err_def alice_spends [unfolded act_defs] del: spend_outputs.simps)
qed

lemma sample_leaves: "leaves_balances sample_store (\<lambda>_. True) m"
  by (simp add: leaves_balances_def same_balances_def)

lemma sample_balance_storage: "balance_storage sample_store (\<lambda>_. True)"
  by unfold_locales (rule sample_leaves)+

lemma sample_store_writes [simp]:
  "so_set_last_nonce_to sample_store k t n = ret ()" "so_set_last_balance_to sample_store k asset t v = ret ()"
  "so_has_nonce sample_store S k = Inr (k = alice)" "so_is_account_registered_for_topoheight sample_store S k t = Inr True"
  "so_get_new_versioned_balance sample_store S alice asset t = Inr (alice_balance, False)"
  by (simp_all add: sample_store_def)

lemma paid_stored: "\<exists>st'. apply_changes gf3_curve sample_store paid_state = (Inr (), st')"
  by (simp add: apply_changes_def paid_state_def on_inner_def act_defs ch_put_version_def ch_put_account_def ch_receiver_entry_def store_account_def alice_paid_def
    sample_block_state_def applicable_new_def chain_state_with_def on_storage_def merge_echange_def merge_spent_def and_then_def ok_or_def Let_def map_err_def
    alice_balance_def versioned_balance_new_def echange_new_def echange_put_balance_def select_balance_def add_output_to_sum_def store_balances_def
    event_tracker_default_def)


end
