(* ===== verification/SledChain.thy ===== *)
theory SledChain
  imports SledOrder ChainBalance
begin

text \<open>
  The sled storage as the storage a block is applied to: the operations of the trait \<open>Storage\<close> that the
  chain and mempool states call, each the provider of that name, and the proof that storing nonces, multisig
  settings and energy leaves balances alone, so that what holds of the final balances of a block holds on
  this storage.
\<close>

section \<open>The operations\<close>

text \<open>
  The two reads of the order change caches only, which never changes an answer. The estimate of a fee
  knows only that the storage failed.
\<close>

definition sled_ops ::
  "(u8 list \<Rightarrow> hash) \<Rightarrow> ('s, 'p::ab_group_add) curve \<Rightarrow> ('v, 'm) vm_codec \<Rightarrow> 'db sled_lib \<Rightarrow> ('c, 'tx) lru_caches \<Rightarrow>
   (('db, 'c) sled_storage, 'p, 'v, 'm) storage_ops" where
  "sled_ops H C V L A = \<lparr>
     so_is_mainnet = (\<lambda>S. is_mainnet (ss_network S)),
     so_get_new_versioned_balance = get_new_versioned_balance L A,
     so_get_balance_at_maximum_topoheight = get_balance_at_maximum_topoheight L A,
     so_get_output_balance_in_range = get_output_balance_in_range L A,
     so_set_last_balance_to = set_last_balance_to C L,
     so_get_nonce_at_maximum_topoheight = get_nonce_at_maximum_topoheight L,
     so_has_nonce = has_nonce L,
     so_set_last_nonce_to = set_last_nonce_to L,
     so_get_multisig_at_maximum_topoheight_for = get_multisig_at_maximum_topoheight_for L,
     so_set_last_multisig_to = set_last_multisig_to L,
     so_is_account_registered_for_topoheight =
       (\<lambda>S key topoheight. map_err (\<lambda>_. StorageFailure) (is_account_registered_for_topoheight L S key topoheight)),
     so_set_account_registration_topoheight = set_account_registration_topoheight L,
     so_get_pruned_topoheight = get_pruned_topoheight,
     so_is_block_topological_ordered = (\<lambda>S h. fst (is_block_topological_ordered L A h S)),
     so_get_topo_height_for_hash = (\<lambda>S h. fst (get_topo_height_for_hash L A h S)),
     so_get_contract_at_maximum_topoheight_for = get_contract_at_maximum_topoheight_for V L,
     so_set_last_contract_to = set_last_contract_to V L,
     so_set_last_contract_data_to = set_last_contract_data_to H V L,
     so_get_contract_balance_at_maximum_topoheight = get_contract_balance_at_maximum_topoheight L,
     so_set_last_contract_balance_to = set_last_contract_balance_to L,
     so_set_contract_outputs_for_tx = set_contract_outputs_for_tx L,
     so_add_asset = add_asset L A,
     so_set_last_supply_for_asset = set_last_supply_for_asset L,
     so_get_energy_resource = get_energy_resource L,
     so_set_energy_resource = set_energy_resource L\<rparr>"

lemma sled_writes [simp]:
  "so_set_last_nonce_to (sled_ops H C V L A) = set_last_nonce_to L" "so_set_last_multisig_to (sled_ops H C V L A) = set_last_multisig_to L"
  "so_set_energy_resource (sled_ops H C V L A) = set_energy_resource L"
  by (simp_all add: sled_ops_def)

section \<open>Writes that leave balances alone\<close>

definition balance_trees :: "string set" where
  "balance_trees = {''assets'', ''balances'', ''versioned_balances''}"

abbreviation spares :: "('db \<Rightarrow> string \<Rightarrow> bytes \<Rightarrow> bytes option) \<Rightarrow> (('db, 'c) sled_storage, blockchain_error, 'a) act \<Rightarrow> bool" where
  "spares disk m \<equiv> does disk m (\<lambda>w x w'. \<forall>t \<in> balance_trees. w' t = w t)"

named_theorems sparing

lemma spares_ret [sparing]: "spares disk (ret x)"
  by (rule does_mono [OF does_ret]) simp

lemma spares_bind [sparing]: "spares disk m \<Longrightarrow> (\<And>x. spares disk (f x)) \<Longrightarrow> spares disk (act_bind m f)"
  by (rule does_mono [OF does_bind]) auto

lemma spares_then [sparing]: "spares disk m \<Longrightarrow> spares disk n \<Longrightarrow> spares disk (act_then m n)"
  unfolding act_then_def by (rule spares_bind)

lemma spares_if [sparing]: "(b \<Longrightarrow> spares disk m) \<Longrightarrow> (\<not> b \<Longrightarrow> spares disk n) \<Longrightarrow> spares disk (if b then m else n)"
  by simp

lemma spares_counters [sparing]: "spares disk (act_modify (set_counters f))"
  by (rule does_mono [OF does_counters]) simp

lemma spares_count [sparing]: "spares disk (act_query count_accounts)"
  by (auto simp: does_def act_query_def count_accounts_def)

definition sled_ready :: "('c, 'tx) lru_caches \<Rightarrow> ('db \<Rightarrow> string \<Rightarrow> bytes \<Rightarrow> bytes option) \<Rightarrow> ('db, 'c) sled_storage \<Rightarrow> bool" where
  "sled_ready A disk S \<longleftrightarrow> sled_ok S \<and> assets_sound A disk S"

context sled_db
begin

lemma spares_insert [sparing]: "t \<notin> balance_trees \<Longrightarrow> spares disk (insert_into_disk L t k v)"
  by (rule does_mono [OF insert_does]) auto

lemma balance_reads:
  assumes "assets_sound A disk S" "assets_sound A disk S'" "\<forall>t \<in> balance_trees. sled_view disk S' t = sled_view disk S t"
  shows "get_balance_at_maximum_topoheight L A S' = get_balance_at_maximum_topoheight L A S"
    "get_new_versioned_balance L A S' = get_new_versioned_balance L A S"
proof -
  have t: "sled_view disk S' ''assets'' = sled_view disk S ''assets''" "sled_view disk S' ''balances'' = sled_view disk S ''balances''"
    "sled_view disk S' ''versioned_balances'' = sled_view disk S ''versioned_balances''"
    using assms(3) by (simp_all add: balance_trees_def)
  have has: "has_balance_for L A S' key asset = has_balance_for L A S key asset" for key asset
    by (simp add: has_balance_for_def has_asset_view [OF assms(1)] has_asset_view [OF assms(2)] has_balance_internal_def contains_view t cong: if_cong)
  have exact: "has_balance_at_exact_topoheight L A S' key asset n = has_balance_at_exact_topoheight L A S key asset n" for key asset n
    by (simp add: has_balance_at_exact_topoheight_def has contains_view t cong: if_cong)
  have get: "get_balance_at_exact_topoheight L A S' key asset n = get_balance_at_exact_topoheight L A S key asset n" for key asset n
    by (simp add: get_balance_at_exact_topoheight_def exact load_view t cong: if_cong)
  show at_most: "get_balance_at_maximum_topoheight L A S' = get_balance_at_maximum_topoheight L A S"
    by (intro ext) (simp add: get_balance_at_maximum_topoheight_def has balance_start_def exact get_last_topoheight_for_balance_def
        has_balance_internal_def contains_view load_view load_previous_def t get [abs_def] Let_def cong: if_cong)
  show "get_new_versioned_balance L A S' = get_new_versioned_balance L A S"
    by (intro ext) (simp add: get_new_versioned_balance_def get_balance_at_maximum_topoheight_def has balance_start_def exact get_last_topoheight_for_balance_def
        has_balance_internal_def contains_view load_view load_previous_def t get [abs_def] Let_def cong: if_cong)
qed

lemma spares_leaves:
  fixes m :: "(('db, 'c) sled_storage, blockchain_error, 'a) act" and A :: "('c, 'tx) lru_caches"
  assumes "spares disk m"
  shows "leaves_balances (sled_ops H C V L A) (sled_ready A disk) m"
  unfolding leaves_balances_def
proof (intro allI impI)
  fix S :: "('db, 'c) sled_storage" assume ready: "sled_ready A disk S"
  then have "sled_ok S" by (simp add: sled_ready_def)
  from doesD [OF assms this] obtain x S' where m: "m S = (Inr x, S')" "\<forall>t \<in> balance_trees. sled_view disk S' t = sled_view disk S t"
    "sled_ok S'" "sled_frame S S'" .
  have sound: "assets_sound A disk S" "assets_sound A disk S'"
    using ready m(2) by (auto simp: sled_ready_def balance_trees_def intro: assets_sound_frame [OF _ m(4)])
  show "sled_ready A disk (snd (m S)) \<and> same_balances (sled_ops H C V L A) S (snd (m S))"
    using m(3) sound balance_reads [OF sound m(2)] by (simp add: m(1) sled_ready_def same_balances_def sled_ops_def)
qed

lemma energy_spares: "spares disk (set_energy_resource L k t e)"
  unfolding does_def
proof (intro allI impI)
  fix S :: "('db, 'c) sled_storage" assume ok: "sled_ok S"
  let ?m = "act_then (insert_into_disk L ''versioned_energy_resources'' (energy_key S t k) (to_bytes (write_energy_resource e)))
     (act_then (insert_into_disk L ''energy_resources'' (to_bytes (write_public_key k)) (to_be_bytes t)) (ret ()))
     :: (('db, 'c) sled_storage, blockchain_error, unit) act"
  have "spares disk ?m" by (intro sparing; simp add: balance_trees_def)
  from doesD [OF this ok] show "\<exists>x S'. set_energy_resource L k t e S = (Inr x, S') \<and> (\<forall>t \<in> balance_trees. sled_view disk S' t = sled_view disk S t) \<and>
      sled_ok S' \<and> sled_frame S S'"
    unfolding set_energy_resource_def by metis
qed

text \<open>So the storage keeps the contract that the final balances of a block rely on.\<close>

lemma sled_balance_storage: "balance_storage (sled_ops H C V L A) (sled_ready A disk)"
proof (unfold_locales, unfold sled_writes)
  show "leaves_balances (sled_ops H C V L A) (sled_ready A disk) (set_last_nonce_to L k t n)" for k t n
    unfolding set_last_nonce_to_def store_accounts_count_def by (intro spares_leaves sparing; simp add: balance_trees_def)
  show "leaves_balances (sled_ops H C V L A) (sled_ready A disk) (set_last_multisig_to L k t n)" for k t n
    unfolding set_last_multisig_to_def by (intro spares_leaves sparing; simp add: balance_trees_def)
  show "leaves_balances (sled_ops H C V L A) (sled_ready A disk) (set_energy_resource L k t e)" for k t e
    by (rule spares_leaves [OF energy_spares])
qed

end

interpretation sled_chain: balance_storage "sled_ops hasher cv vm mem_lib lc" "sled_ready lc mem_disk"
  for hasher and cv :: "('scal, 'pt::ab_group_add) curve" and vm :: "('val, 'mdl) vm_codec" and lc :: "('lru, 'stx) lru_caches"
  by (rule mem.sled_balance_storage)

end
