(* ===== verification/Spec2Isabelle.thy ===== *)
theory Spec2Isabelle
  imports VarUint Energy Queue NonceChecker Merkle Rewards Accounts Transactions BlockCheck
    SledChain
begin

text \<open>
  A verification library of the Terminos node: the consensus core of the daemon (\<open>daemon/src/core\<close>)
  and the data types, codecs and cryptography it shares with wallet and miner (\<open>common/src\<close>).

  \<^bold>\<open>The program.\<close> Terminos is a block DAG: a block names up to three earlier blocks, its tips. A node
  receives blocks and transactions from peers and miners, checks them, keeps pending transactions
  in a mempool, orders the DAG into a chain, and pays rewards. Balances are ElGamal ciphertexts,
  which transactions change homomorphically; coins can be frozen for energy, which pays for
  transfers. Everything that crosses the network or goes to disk passes through one serializer.

  \<^bold>\<open>How the code is modelled.\<close> Every definition is a function of HOL that can be evaluated. Structs are
  records, enums are datatypes with the code's constructors, and a method that changes its receiver
  takes and returns it. \<open>u8\<close> to \<open>u128\<close> are words, whose arithmetic wraps as the release profile's does;
  \<open>usize\<close> is \<open>nat\<close>; \<open>U256\<close> is a 256-bit word whose arithmetic panics on overflow. Errors are values of a
  sum type, a panic is \<open>None\<close> or an error of its own. A \<open>HashMap\<close> is an association list with distinct
  keys: its iteration order, which the code does not fix, is the list's. Asynchronous calls and locks
  are left out, as each operation holds the lock of the state it works on. Searches that walk the DAG
  take fuel: the number of blocks they may pop. Running out of it is the error \<open>OutOfFuel\<close>, which the
  code does not have; each of the theorems on such a search gives an amount that is enough, in terms
  of the finite part of the DAG the search can reach (\<open>weight\<close>, or the size of the \<open>branch\<close>).

  Code outside the repository is a parameter: the hash function, the proof-of-work library (\<open>pow_lib\<close>),
  the curve with its group laws (\<open>curve\<close>, \<open>curve_laws\<close>, \<open>encoding_laws\<close>) and the search for discrete
  logarithms (\<open>ecdlp_complete\<close>), the Merlin transcript (\<open>merlin\<close>) and the range proofs
  (\<open>range_prover\<close>, \<open>range_complete\<close>, \<open>range_encoding_laws\<close>), the codecs of contract values and modules
  (\<open>vm_codec\<close>, \<open>wire_laws\<close>), the contract virtual machine (\<open>vm_lib\<close>), the database (\<open>sled_lib\<close>), UTF-8 validity, the matching of
  semantic versions. Components are joined through records of operations as the code joins them
  through traits: the storage (\<open>dag\<close>, \<open>chain\<close>, \<open>block_store\<close>, \<open>storage_ops\<close>, each operation of which may
  fail), the LRU caches (\<open>cache_ops\<close>), the states a transaction is verified and applied against
  (\<open>verification_state\<close>, \<open>apply_state\<close>) and the verifier that mempool, templates and block verification
  call (\<open>verify\<close>, \<open>tx_verifier\<close>, \<open>nd_verify_batch\<close>). Where a theorem needs a storage that answers, it
  speaks of a plain view of the DAG (\<open>dag_of v\<close>, \<open>chain_of v\<close>, \<open>answers\<close>).

  \<^bold>\<open>The theories.\<close>

  \<^item> \<open>Prelude\<close>: words, big-endian bytes, insertion-ordered sets and maps, and the lemmas on them.

  \<^item> \<open>Serializer\<close> (\<open>common/src/serializer/reader.rs\<close>, \<open>writer.rs\<close>): byte reader and writer. The locale
    \<open>serializer\<close> states what a codec owes its callers (reading undoes writing, the announced size is the
    written one, reading stays within the buffer), \<open>strict_serializer\<close> adds that nothing but what is
    written is accepted; the locales carry the codecs for options, vectors, sets, maps and pairs.

  \<^item> \<open>Codecs\<close> (\<open>serializer/defaults.rs\<close>, \<open>crypto/hash.rs\<close>, \<open>crypto/elgamal/compressed.rs\<close>): the
    instances, each an interpretation of one of the locales.

  \<^item> \<open>VarUint\<close> (\<open>varuint.rs\<close>, \<open>difficulty.rs\<close>): difficulties as 256-bit numbers, their codec, and the
    check of a hash against a difficulty, shown to compare the exact product.

  \<^item> \<open>Config\<close> (\<open>config.rs\<close>, \<open>utils.rs\<close>): constants and fee formulas.

  \<^item> \<open>Energy\<close> (\<open>account/energy.rs\<close>, \<open>transaction/payload/energy.rs\<close>): freezing coins, unfreezing and
    spending energy. Freezing and spending keep the totals exact; unfreezing refines a specification
    when it takes whole records or a part of one, and panics when it takes both.

  \<^item> \<open>Queue\<close> (\<open>common/src/queue.rs\<close>): the locale \<open>fifo_map\<close> is the contract of a keyed queue, interpreted
    on the code's pair of a map and an order.

  \<^item> \<open>NonceChecker\<close>, \<open>Merkle\<close>, \<open>HardFork\<close>, \<open>Difficulty\<close> (\<open>daemon/src/core\<close>): used nonces are consecutive;
    a root commits to the leaves of a given number; the version schedule; both versions of the
    difficulty adjustment stay in bounds and move in the right direction.

  \<^item> \<open>Dag\<close> (\<open>blockdag.rs\<close> and \<open>blockchain.rs\<close>): the storage queries, sorting of tips (locale
    \<open>total_order_by\<close>), sync blocks, reachability, distance from the main chain, difficulty at tips.

  \<^item> \<open>Ordering\<close> (\<open>blockchain.rs\<close>): base blocks, work scores, best tip and full order with their LRU
    caches (locales \<open>cache\<close>, \<open>order_cache\<close>). The full order is a topological order of what it should
    contain, whatever the cache forgets.

  \<^item> \<open>Rewards\<close> (\<open>blockchain.rs\<close>): emission, side blocks, developer fee, payment of a block.

  \<^item> \<open>Block\<close> (\<open>common/src/block\<close>): headers, their hashes and codec, the work a miner gets and the
    worker that patches it in place.

  \<^item> \<open>Elgamal\<close> (\<open>crypto/elgamal\<close>): commitments, ciphertexts, keys, signatures over an abstract curve.

  \<^item> \<open>Proofs\<close> (\<open>crypto/proofs\<close>, \<open>crypto/transcript.rs\<close>): the transcript protocol, the proofs of equal
    amounts, valid ciphertexts, balances and ownership, with prover, individual and batched verifier.
    Honest proofs verify and leave prover and verifier with the same transcript; accepted answers to
    different challenges give the secrets (\<open>eq_statement\<close>); what a proof adds to a batch is computed.

  \<^item> \<open>Transactions\<close> (\<open>common/src/transaction\<close>): payloads, transactions and unsigned transactions with
    their codecs, the bytes that are signed, multisig signatures. A transaction reads back from its
    bytes, its signing bytes determine it, and what is built and signed passes the signature checks;
    an unsigned transaction never reads back.

  \<^item> \<open>Accounts\<close> (\<open>common/src/account\<close>, \<open>asset.rs\<close>, \<open>versioned_type.rs\<close>): ciphertext caches, versioned
    balances and nonces, assets, and their storage formats.

  \<^item> \<open>BinaryHeap\<close>: the standard library's heap, with the locale \<open>max_heap\<close> for its users.

  \<^item> \<open>Mempool\<close> (\<open>mempool.rs\<close>): admission, removal, clean-up after a block, lookup by nonce, fee rates.
    The invariant \<open>pool_inv\<close> (each sender's nonces fill a range in order) holds in every reachable pool.

  \<^item> \<open>TxSelector\<close> (\<open>tx_selector.rs\<close>), \<open>Template\<close> and \<open>BlockCheck\<close> (\<open>blockchain.rs\<close>): the greedy selector on
    top of \<open>max_heap\<close>, block templates on top of mempool, selector and DAG queries, and the
    verification of a received block. What a template excludes and what the verification rejects is
    the same set, found by the search \<open>get_all_txs_until_height\<close>.

  \<^item> \<open>Effects\<close>: the monad \<open>act\<close> of fallible methods that change their receiver even when they fail, and
    the calculus \<open>preserves\<close> for what a sequence of such methods keeps.

  \<^item> \<open>TxVerify\<close> (\<open>transaction/verify/mod.rs\<close>): the verification of a transaction, alone and in a batch,
    in full and for a transaction whose proofs were checked before. The locale \<open>tx_state\<close> is the
    contract of the trait \<open>BlockchainVerificationState\<close>; under it, a verified transaction changes
    nonce, balances and multisig setting as stated by \<open>verified_effect\<close> and is \<open>authorised\<close>.

  \<^item> \<open>ChainStore\<close> (\<open>daemon/src/core/state/mod.rs\<close>): the storage operations and the search for the balance
    a transaction was built on. \<open>MempoolState\<close> (\<open>state/mempool_state.rs\<close>) and \<open>ChainState\<close>
    (\<open>state/chain_state/mod.rs\<close>) are the two implementations of the trait, each an interpretation of
    \<open>tx_state\<close>.

  \<^item> \<open>TxApply\<close> (\<open>verify/mod.rs\<close>, \<open>verify/contract.rs\<close>): the application of a transaction and the contract
    calls it makes. The locales \<open>tx_keeps\<close> and \<open>apply_keeps\<close> lift what each operation of the state keeps
    to whole transactions. \<open>ChainApply\<close> (\<open>state/chain_state/apply.rs\<close>) is the state transactions are
    applied to and the storing of its changes. \<open>ChainBalance\<close> shows what the stored balances are: \<open>block_step\<close> are
    the transactions and rewards of a block, the locale \<open>balance_storage\<close> what is relied on of the storage.

  \<^item> \<open>DataElement\<close> (\<open>common/src/api/data.rs\<close>), \<open>Bech32\<close> (\<open>crypto/bech32.rs\<close>) and \<open>Address\<close>
    (\<open>crypto/address.rs\<close>): the data an address can carry, the text encoding with its checksum and the
    addresses themselves. A text decodes to what was encoded, and no substitution of a single
    character goes unnoticed: the checksum is the remainder of a linear map (\<open>polymod_step\<close>).

  \<^item> \<open>SledStore\<close> (\<open>daemon/src/core/storage/sled/mod.rs\<close>, \<open>snapshot.rs\<close>, \<open>storage/cache.rs\<close>): the sled backend
    of the storage. The database library is the parameter \<open>sled_lib\<close>; the locale \<open>sled_db\<close> holds the laws
    its documentation promises (an ordered map of each tree that answers), interpreted on a database
    in memory. \<open>sled_view\<close> is what reads see through the snapshot of a commit point; \<open>does\<close> is the calculus
    for what operations do to it. Commit points are atomic.

  \<^item> \<open>SledVersions\<close> (\<open>providers/versioned/mod.rs\<close>): versions of a key at topoheights, each pointing to the
    one before, and their deletion when blocks are unwound or pruned. \<open>SledAccounts\<close> (\<open>providers/asset.rs\<close>,
    \<open>balance.rs\<close>, \<open>nonce.rs\<close>, \<open>multisig.rs\<close>, \<open>account.rs\<close>, \<open>providers/versioned\<close>): the data of accounts and
    assets. \<open>SledHistory\<close>: the locale \<open>versioned_data\<close> shows that these lookups, stores and deletions act on
    a history, a list of topoheights and values; nonces and balances are instances, and a
    reorganisation undoes what a block stored.

  \<^item> \<open>SledContracts\<close> (\<open>common/src/contract/output.rs\<close>, \<open>providers/contract\<close>, \<open>providers/versioned/contract\<close>):
    contracts, their data, balances and outputs, supplies of assets. \<open>SledBlocks\<close> (the other files of
    \<open>sled/providers\<close>, \<open>delete_block_at_topoheight\<close> in \<open>sled/mod.rs\<close>): blocks, transactions, the order of the DAG and
    the state of the chain, read through LRU caches. \<open>SledOrder\<close>: the locale \<open>lru_laws\<close> is what is relied on of
    such a cache; \<open>order_step\<close> are the steps of the daemon on the storage, and in every state they reach the
    caches show what the trees hold.
    \<open>SledChain\<close> joins the storage to the states that use it (\<open>sled_ops\<close>), an interpretation of
    \<open>balance_storage\<close>.

  \<^bold>\<open>The properties\<close> stand at the end of each theory under \<open>Properties\<close>, each with a witness on concrete
  data where it has hypotheses.

  \<^bold>\<open>Not modelled.\<close> The second half of \<open>add_new_block\<close> around the execution of transactions (choosing the
  new tips, unwinding blocks, events), the builder of transactions, and the functions that contracts
  can call, which are bindings to a third-party virtual machine. Of the storage, the RocksDB
  backend, and opening, flushing and closing a database. The p2p network, RPC servers, the prompt, the wallet
  application and the miner's command line are input and output around this core. \<open>remove_tx\<close> of the mempool is modelled but not
  among the steps of \<open>mempool_reachable\<close>: nothing calls it, and removing a transaction from the middle
  of a sender's range would break the lookup by nonce. The selector's unused constructors \<open>new\<close> and
  \<open>grouped\<close> are left out.
\<close>

end
